(* ===== verification/Prelude.thy ===== *)
theory Prelude
  imports Main "HOL-Library.Word"
begin

text \<open>
  The vocabulary every component of the development shares.

  \<^item> Go values: \<open>byte\<close>, \<open>bytes\<close> (a \<^verbatim>\<open>[]byte\<close> or a Go \<^verbatim>\<open>string\<close>, which is a byte
    sequence as well), the error values of the program and of the standard library
    (\<open>go_error\<close>), and the outcome of a call (\<open>result\<close>): a value, a returned error, or a
    run-time panic.
  \<^item> What the sources use of the Go standard library: \<^verbatim>\<open>encoding/binary\<close> in big-endian order
    (\<open>put_be\<close>, \<open>get_be\<close>), \<^verbatim>\<open>bytes.Reader\<close> (\<open>ReadByte\<close>, \<open>Reader_Read\<close>, \<open>binary_Read\<close>),
    \<^verbatim>\<open>io.ReadFull\<close> on a stream (\<open>ReadFull\<close>), \<^verbatim>\<open>errors.Is\<close> and \<^verbatim>\<open>strings.ToLower\<close> on ASCII.
  \<^item> The interfaces of the wire codecs as locales: \<open>prefix_codec\<close> (a decoder that returns the
    unread rest) with its list and pair closures, and \<open>total_codec\<close> (a whole-buffer codec).
\<close>

unbundle bit_operations_syntax

type_synonym byte = "8 word"
type_synonym bytes = "byte list"
type_synonym frames = "bytes list"

named_theorems wire_simps "unfolding of fixed-width encodings and of literals"
named_theorems codec_simps "what a decoder does on the output of its encoder"

section \<open>Errors and outcomes\<close>

datatype go_error =
    EOF
  | ErrUnexpectedEOF
  | NetTimeout
  | NetError
  | CtxDone
  | ErrClosedConn
  | errGreeting
  | errSecMech
  | errBadSec
  | ErrBadCmd
  | ErrBadFrame
  | errOverflow
  | errEmptyAppMDKey
  | errDupAppMDKey
  | errBoolCnv
  | ErrBadProperty
  | ErrInvalidLength
  | ErrInvalidChar
  | Errorf string
  | Wrapf string go_error

datatype 'a result = Ok 'a | Err go_error | Panic string

text \<open>\<^verbatim>\<open>errors.Is(err, target)\<close>: the error or one it wraps is the target.\<close>

fun errorsIs :: "go_error \<Rightarrow> go_error \<Rightarrow> bool" where
  "errorsIs (Wrapf m e) t = (Wrapf m e = t \<or> errorsIs e t)"
| "errorsIs e t = (e = t)"

text \<open>The innermost error, which decides whether the chain holds a \<^verbatim>\<open>net.Error\<close>.\<close>

fun errorsRoot :: "go_error \<Rightarrow> go_error" where
  "errorsRoot (Wrapf m e) = errorsRoot e"
| "errorsRoot e = e"

fun and_then :: "'a result \<Rightarrow> ('a \<Rightarrow> 'b result) \<Rightarrow> 'b result" where
  "and_then (Ok x) f = f x"
| "and_then (Err e) f = Err e"
| "and_then (Panic m) f = Panic m"

fun wrap_err :: "string \<Rightarrow> 'a result \<Rightarrow> 'a result" where
  "wrap_err m (Err e) = Err (Wrapf m e)"
| "wrap_err m r = r"

text \<open>The same for calls that also change a state, which keeps its changes on an error.\<close>

fun sbind :: "'a result \<times> 's \<Rightarrow> ('a \<Rightarrow> 's \<Rightarrow> 'b result \<times> 's) \<Rightarrow> 'b result \<times> 's" where
  "sbind (Ok x, s) f = f x s"
| "sbind (Err e, s) f = (Err e, s)"
| "sbind (Panic m, s) f = (Panic m, s)"

fun swrap :: "string \<Rightarrow> 'a result \<times> 's \<Rightarrow> 'a result \<times> 's" where
  "swrap m (r, s) = (wrap_err m r, s)"

lemma and_then_Ok_iff [simp]: "and_then r f = Ok y \<longleftrightarrow> (\<exists>x. r = Ok x \<and> f x = Ok y)"
  by (cases r) auto

lemma wrap_err_Ok_iff [simp]: "wrap_err m r = Ok y \<longleftrightarrow> r = Ok y"
  by (cases r) auto

lemma sbind_Ok_iff: "sbind p f = (Ok y, t) \<longleftrightarrow> (\<exists>x s. p = (Ok x, s) \<and> f x s = (Ok y, t))"
  by (cases "(p, f)" rule: sbind.cases) auto

lemma swrap_Ok_iff [simp]: "swrap m p = (Ok y, t) \<longleftrightarrow> p = (Ok y, t)"
  by (cases p) simp

lemma and_then_assoc: "and_then (and_then r f) g = and_then r (\<lambda>x. and_then (f x) g)"
  by (cases r) auto

section \<open>Literals and ASCII strings\<close>

definition str :: "string \<Rightarrow> bytes" where
  "str s = map (\<lambda>c. of_nat (of_char c)) s"

lemma str_Nil [wire_simps]: "str [] = []"
  by (simp add: str_def)

lemma str_Cons [wire_simps]: "str (c # s) = of_nat (of_char c) # str s"
  by (simp add: str_def)

lemma length_str [simp]: "length (str s) = length s"
  by (simp add: str_def)

lemma str_eq_Nil [simp]: "str s = [] \<longleftrightarrow> s = []"
  by (simp add: str_def)

text \<open>\<^verbatim>\<open>strings.ToLower\<close> on an ASCII string.\<close>

definition lower_byte :: "byte \<Rightarrow> byte" where
  "lower_byte b = (if 65 \<le> b \<and> b \<le> 90 then b + 32 else b)"

definition ToLower :: "bytes \<Rightarrow> bytes" where
  "ToLower s = map lower_byte s"

lemma length_ToLower [simp]: "length (ToLower s) = length s"
  by (simp add: ToLower_def)

section \<open>Big-endian integers\<close>

text \<open>
  \<open>put_be n v\<close> is \<^verbatim>\<open>binary.BigEndian.PutUint(8 n)\<close> of the value \<open>v\<close>: byte \<open>i\<close> from the
  right is \<open>byte(v >> 8 i)\<close>. \<open>get_be\<close> is the corresponding \<^verbatim>\<open>Uint\<close>.
\<close>

definition put_be :: "nat \<Rightarrow> nat \<Rightarrow> bytes" where
  "put_be n v = map (\<lambda>i. of_nat (v div 256 ^ i)) (rev [0..<n])"

definition get_be :: "bytes \<Rightarrow> nat" where
  "get_be bs = foldl (\<lambda>a b. a * 256 + unat b) 0 bs"

lemma unat_byte_less [simp]: "unat (b :: byte) < 256"
  using unsigned_less [of b] by simp

lemma length_put_be [simp]: "length (put_be n v) = n"
  by (simp add: put_be_def)

lemma get_be_Nil [simp]: "get_be [] = 0"
  by (simp add: get_be_def)

lemma get_be_snoc: "get_be (bs @ [b]) = get_be bs * 256 + unat b"
  by (simp add: get_be_def)

lemma put_be_0 [simp]: "put_be 0 v = []"
  by (simp add: put_be_def)

lemma put_be_Suc: "put_be (Suc n) v = put_be n (v div 256) @ [of_nat v]"
proof -
  have "[0..<Suc n] = 0 # map Suc [0..<n]"
    by (simp add: map_Suc_upt upt_conv_Cons del: upt_Suc)
  then show ?thesis
    by (simp add: put_be_def rev_map comp_def div_mult2_eq power_Suc del: upt_Suc)
qed

lemma put_be_Cons: "put_be (Suc n) v = of_nat (v div 256 ^ n) # put_be n v"
  by (simp add: put_be_def)

lemma get_be_put_be [simp]: "get_be (put_be n v) = v mod 256 ^ n"
proof (induction n arbitrary: v)
  case 0
  then show ?case by simp
next
  case (Suc n)
  have "get_be (put_be (Suc n) v) = (v div 256) mod 256 ^ n * 256 + v mod 256"
    by (simp add: put_be_Suc get_be_snoc Suc unat_of_nat)
  then show ?case
    by (simp add: mod_mult2_eq mult.commute)
qed

lemma get_be_less: "get_be bs < 256 ^ length bs"
proof (induction bs rule: rev_induct)
  case Nil
  then show ?case by simp
next
  case (snoc b bs)
  have "get_be (bs @ [b]) < (get_be bs + 1) * 256"
    by (simp add: get_be_snoc)
  also have "\<dots> \<le> 256 ^ length bs * 256"
    using snoc by (intro mult_le_mono1) simp
  finally show ?case by (simp add: mult.commute)
qed

lemma get_be_less_pow: "length bs \<le> n \<Longrightarrow> get_be bs < 256 ^ n"
  by (rule less_le_trans [OF get_be_less]) (simp add: power_increasing)

lemma put_be_get_be: "put_be (length bs) (get_be bs) = bs"
proof (induction bs rule: rev_induct)
  case Nil
  then show ?case by simp
next
  case (snoc b bs)
  have "unat b < 256" by simp
  moreover have "(of_nat (get_be bs * 256 + unat b) :: byte) = b"
    by (simp only: word_unat_eq_iff unat_of_nat) simp
  ultimately show ?case using snoc by (simp add: put_be_Suc get_be_snoc del: of_nat_add of_nat_mult)
qed

lemma put_be_widths [wire_simps]:
  "put_be 1 v = [of_nat v]"
  "put_be 2 v = [of_nat (v div 256), of_nat v]"
  "put_be 4 v = [of_nat (v div 16777216), of_nat (v div 65536), of_nat (v div 256), of_nat v]"
  by (simp_all add: put_be_def upt_rec)

section \<open>Reading from a byte buffer\<close>

text \<open>
  A \<^verbatim>\<open>bytes.Reader\<close> is its unread bytes. \<^verbatim>\<open>Read(b)\<close> with \<open>len(b) = n\<close> reports \<^verbatim>\<open>io.EOF\<close> when
  nothing is left, even for \<open>n = 0\<close>, and otherwise copies what is there: a short read is no
  error and leaves the end of the caller's zeroed buffer untouched.
\<close>

type_synonym 'a decoder = "bytes \<Rightarrow> ('a \<times> bytes) result"

fun ReadByte :: "byte decoder" where
  "ReadByte [] = Err EOF"
| "ReadByte (b # r) = Ok (b, r)"

definition Reader_Read :: "nat \<Rightarrow> bytes decoder" where
  "Reader_Read n r =
     (if r = [] then Err EOF else Ok (take n r @ replicate (n - length r) 0, drop n r))"

text \<open>\<^verbatim>\<open>binary.Read\<close> of an unsigned integer of \<open>n\<close> bytes, \<open>n > 0\<close>.\<close>

definition binary_Read :: "nat \<Rightarrow> nat decoder" where
  "binary_Read n r =
     (if r = [] then Err EOF
      else if length r < n then Err ErrUnexpectedEOF
      else Ok (get_be (take n r), drop n r))"

lemma Reader_Read_append [simp]:
  "length s = n \<Longrightarrow> s @ r \<noteq> [] \<Longrightarrow> Reader_Read n (s @ r) = Ok (s, r)"
  by (simp add: Reader_Read_def)

lemma binary_Read_append [simp]:
  "length s = n \<Longrightarrow> 0 < n \<Longrightarrow> binary_Read n (s @ r) = Ok (get_be s, r)"
  by (auto simp: binary_Read_def)

text \<open>
  \<open>get_many get n\<close> is the loop \<^verbatim>\<open>for i := 0; i < n; i++\<close> that appends what \<open>get\<close> reads and
  stops at the first error.
\<close>

fun get_many :: "'a decoder \<Rightarrow> nat \<Rightarrow> 'a list decoder" where
  "get_many get 0 r = Ok ([], r)"
| "get_many get (Suc n) r =
     and_then (get r) (\<lambda>(x, r'). and_then (get_many get n r') (\<lambda>(xs, r''). Ok (x # xs, r'')))"

lemma get_many_length: "get_many get n r = Ok (xs, r') \<Longrightarrow> length xs = n"
  by (induction n arbitrary: r xs r') (fastforce split: prod.splits)+

definition get_pair :: "'a decoder \<Rightarrow> 'b decoder \<Rightarrow> ('a \<times> 'b) decoder" where
  "get_pair get1 get2 r =
     and_then (get1 r) (\<lambda>(x, r'). and_then (get2 r') (\<lambda>(y, r''). Ok ((x, y), r'')))"

section \<open>Reading from a stream\<close>

text \<open>
  \<^verbatim>\<open>io.ReadFull(r, buf)\<close> with \<open>len(buf) = n\<close> on a stream that delivers the bytes \<open>rx\<close> and
  then the error \<open>e\<close>. Reading nothing succeeds at once; a stream that ends before the first
  byte gives \<open>e\<close>, one that ends inside the buffer turns \<^verbatim>\<open>io.EOF\<close> into
  \<^verbatim>\<open>io.ErrUnexpectedEOF\<close> and consumes what was there.
\<close>

definition ReadFull :: "go_error \<Rightarrow> nat \<Rightarrow> bytes \<Rightarrow> bytes result \<times> bytes" where
  "ReadFull e n rx =
     (if n \<le> length rx then (Ok (take n rx), drop n rx)
      else if rx = [] then (Err e, [])
      else (Err (if e = EOF then ErrUnexpectedEOF else e), []))"

lemma ReadFull_append [simp]: "length s = n \<Longrightarrow> ReadFull e n (s @ r) = (Ok s, r)"
  by (simp add: ReadFull_def)

lemma ReadFull_Nil [simp]: "0 < n \<Longrightarrow> ReadFull e n [] = (Err e, [])"
  by (simp add: ReadFull_def)

section \<open>The interfaces of the wire codecs\<close>

locale prefix_codec =
  fixes put :: "'a \<Rightarrow> bytes"
    and get :: "'a decoder"
    and valid :: "'a \<Rightarrow> bool"
  assumes get_put: "valid x \<Longrightarrow> get (put x @ rest) = Ok (x, rest)"
begin

lemma get_put_all: "valid x \<Longrightarrow> get (put x) = Ok (x, [])"
  using get_put [of x "[]"] by simp

lemma put_inj: "valid x \<Longrightarrow> valid y \<Longrightarrow> put x @ r = put y @ s \<Longrightarrow> x = y \<and> r = s"
  by (metis Pair_inject get_put result.inject(1))

lemma get_many_put:
  "list_all valid xs \<Longrightarrow> get_many get (length xs) (concat (map put xs) @ rest) = Ok (xs, rest)"
  by (induction xs) (auto simp: get_put)

end

text \<open>Two prefix codecs in a row are a prefix codec of pairs.\<close>

locale prefix_codec2 =
  c1: prefix_codec put1 get1 valid1 + c2: prefix_codec put2 get2 valid2
  for put1 get1 valid1 put2 get2 valid2

sublocale prefix_codec2 \<subseteq> pair: prefix_codec
  "\<lambda>(x, y). put1 x @ put2 y" "get_pair get1 get2" "\<lambda>(x, y). valid1 x \<and> valid2 y"
  by unfold_locales (auto simp: get_pair_def c1.get_put c2.get_put)

text \<open>A codec of whole buffers: what is encoded without an error decodes to the same value.\<close>

locale total_codec =
  fixes enc :: "'a \<Rightarrow> bytes result"
    and dec :: "bytes \<Rightarrow> 'a result"
    and valid :: "'a \<Rightarrow> bool"
  assumes enc_valid: "valid x \<Longrightarrow> \<exists>b. enc x = Ok b"
    and dec_enc: "valid x \<Longrightarrow> enc x = Ok b \<Longrightarrow> dec b = Ok x"
begin

lemma roundtrip: "valid x \<Longrightarrow> \<exists>b. enc x = Ok b \<and> dec b = Ok x"
  using enc_valid dec_enc by blast

lemma enc_inj: "valid x \<Longrightarrow> valid y \<Longrightarrow> enc x = enc y \<Longrightarrow> x = y"
  using roundtrip [of x] roundtrip [of y] by auto

end

section \<open>Length-prefixed strings\<close>

text \<open>
  One byte of length and the string, as the message packages write it (after checking the
  length) and as their \<^verbatim>\<open>readString\<close> reads it.
\<close>

definition put_lp :: "bytes \<Rightarrow> bytes" where
  "put_lp s = of_nat (length s) # s"

definition get_lp :: "bytes decoder" where
  "get_lp r =
     and_then (Reader_Read 1 r) (\<lambda>(lengthBuf, r').
       let length = unat (hd lengthBuf) in
       if length = 0 then Ok ([], r') else Reader_Read length r')"

lemma unat_length_byte: "n \<le> 255 \<Longrightarrow> unat (of_nat n :: byte) = n"
  by (simp add: unat_of_nat)

lemma get_lp_put_lp: "length s \<le> 255 \<Longrightarrow> get_lp (put_lp s @ rest) = Ok (s, rest)"
  by (auto simp: get_lp_def put_lp_def Reader_Read_def unat_length_byte)

interpretation lp: prefix_codec put_lp get_lp "\<lambda>s. length s \<le> 255"
  by unfold_locales (rule get_lp_put_lp)

interpretation lp2: prefix_codec2 put_lp get_lp "\<lambda>s. length s \<le> 255"
    put_lp get_lp "\<lambda>s. length s \<le> 255"
  by unfold_locales

interpretation be: prefix_codec "put_be (Suc n)" "binary_Read (Suc n)" "\<lambda>v. v < 256 ^ Suc n"
  by unfold_locales simp

section \<open>Folds\<close>

lemma foldl_keeps: "(\<And>z x. P z \<Longrightarrow> P (f z x)) \<Longrightarrow> P z \<Longrightarrow> P (foldl f z xs)"
  by (induction xs arbitrary: z) simp_all

section \<open>Printing\<close>

text \<open>\<^verbatim>\<open>fmt.Sprintf("%d", n)\<close>\<close>

fun decimal :: "nat \<Rightarrow> bytes" where
  "decimal n = (if n < 10 then [of_nat (48 + n)] else decimal (n div 10) @ [of_nat (48 + n mod 10)])"

declare decimal.simps [simp del]

text \<open>\<^verbatim>\<open>%x\<close> of a byte array: two lower-case digits for every byte.\<close>

definition hex_digit :: "nat \<Rightarrow> byte" where
  "hex_digit n = (if n < 10 then of_nat (48 + n) else of_nat (87 + n))"

definition hex :: "bytes \<Rightarrow> bytes" where
  "hex bs = concat (map (\<lambda>b. [hex_digit (unat b div 16), hex_digit (unat b mod 16)]) bs)"

lemma hex_digit_inj: "m < 16 \<Longrightarrow> n < 16 \<Longrightarrow> hex_digit m = hex_digit n \<longleftrightarrow> m = n"
proof -
  assume bounds: "m < 16" "n < 16"
  have "unat (hex_digit k) = (if k < 10 then 48 + k else 87 + k)" if "k < 16" for k
    using that unat_length_byte [of "48 + k"] unat_length_byte [of "87 + k"] by (simp add: hex_digit_def)
  then have "unat (hex_digit m) = unat (hex_digit n) \<longleftrightarrow> m = n" using bounds by (auto split: if_splits)
  then show ?thesis by (metis word_unat_eq_iff)
qed

lemma hex_inj: "hex a = hex b \<longleftrightarrow> a = b"
proof (induction a arbitrary: b)
  case Nil
  then show ?case by (cases b) (simp_all add: hex_def)
next
  case (Cons x a)
  show ?case
  proof (cases b)
    case (Cons y b')
    have bound: "unat z div 16 < 16" "unat z mod 16 < 16" for z :: byte
      using unsigned_less [where 'a = nat, of z] by (simp_all add: less_mult_imp_div_less)
    have "unat x div 16 = unat y div 16 \<and> unat x mod 16 = unat y mod 16 \<longleftrightarrow> x = y"
      by (metis div_mult_mod_eq word_unat_eq_iff)
    then show ?thesis
      using Cons.IH [of b'] hex_digit_inj [OF bound(1) bound(1), of x y] hex_digit_inj [OF bound(2) bound(2), of x y] Cons
      by (auto simp: hex_def)
  qed (simp add: hex_def)
qed

end
