(* ===== verification/Z85.thy ===== *)
theory Z85
  imports Prelude
begin

text \<open>
  The Z85 codec of \<^verbatim>\<open>src/z85/z85.go\<close> (RFC 32): groups of four bytes against groups of five
  characters of an 85-letter alphabet. The loops write into a destination buffer by index, as
  the source does; the value of a group is a \<open>64 word\<close>, the source's \<^verbatim>\<open>uint64\<close>. The lemmas
  relate the loops to the arithmetic specification \<open>z85_spec\<close> (big-endian base 85) and show
  that the two directions are inverse on well-formed input.
\<close>

section \<open>The package\<close>

definition EncodedLen :: "nat \<Rightarrow> nat" where
  "EncodedLen n = n * 5 div 4"

definition DecodedLen :: "nat \<Rightarrow> nat" where
  "DecodedLen n = n * 4 div 5"

definition alphabet :: bytes where
  "alphabet = str ''0123456789abcdefghijklmnopqrstuvwxyzABCDEFGHIJKLMNOPQRSTUVWXYZ.-:+=^!/*?&<>()[]{}@%$#''"

definition decoder :: bytes where
  "decoder = [
    255, 255, 255, 255, 255, 255, 255, 255, 255, 255, 255, 255, 255, 255, 255, 255,
    255, 255, 255, 255, 255, 255, 255, 255, 255, 255, 255, 255, 255, 255, 255, 255,
    255, 68, 255, 84, 83, 82, 72, 255, 75, 76, 70, 65, 255, 63, 62, 69,
    0, 1, 2, 3, 4, 5, 6, 7, 8, 9, 64, 255, 73, 66, 74, 71,
    81, 36, 37, 38, 39, 40, 41, 42, 43, 44, 45, 46, 47, 48, 49, 50,
    51, 52, 53, 54, 55, 56, 57, 58, 59, 60, 61, 77, 255, 78, 67, 255,
    255, 10, 11, 12, 13, 14, 15, 16, 17, 18, 19, 20, 21, 22, 23, 24,
    25, 26, 27, 28, 29, 30, 31, 32, 33, 34, 35, 79, 255, 80, 255, 255,
    255, 255, 255, 255, 255, 255, 255, 255, 255, 255, 255, 255, 255, 255, 255, 255,
    255, 255, 255, 255, 255, 255, 255, 255, 255, 255, 255, 255, 255, 255, 255, 255,
    255, 255, 255, 255, 255, 255, 255, 255, 255, 255, 255, 255, 255, 255, 255, 255,
    255, 255, 255, 255, 255, 255, 255, 255, 255, 255, 255, 255, 255, 255, 255, 255,
    255, 255, 255, 255, 255, 255, 255, 255, 255, 255, 255, 255, 255, 255, 255, 255,
    255, 255, 255, 255, 255, 255, 255, 255, 255, 255, 255, 255, 255, 255, 255, 255,
    255, 255, 255, 255, 255, 255, 255, 255, 255, 255, 255, 255, 255, 255, 255, 255,
    255, 255, 255, 255, 255, 255, 255, 255, 255, 255, 255, 255, 255, 255, 255, 255]"

text \<open>\<^verbatim>\<open>uint64(src[si])<<24 | uint64(src[si+1])<<16 | uint64(src[si+2])<<8 | uint64(src[si+3])\<close>\<close>

definition be32 :: "byte \<Rightarrow> byte \<Rightarrow> byte \<Rightarrow> byte \<Rightarrow> 64 word" where
  "be32 a b c d = push_bit 24 (ucast a) OR push_bit 16 (ucast b) OR push_bit 8 (ucast c) OR ucast d"

text \<open>The loop of \<^verbatim>\<open>Encode\<close>, from destination index \<open>di\<close> on the bytes not yet read.\<close>

fun Encode_loop :: "bytes \<Rightarrow> nat \<Rightarrow> bytes \<Rightarrow> bytes" where
  "Encode_loop dst di (s0 # s1 # s2 # s3 # src) =
     (let value = be32 s0 s1 s2 s3;
          dst = dst[di + 4 := alphabet ! unat (value mod 85)];
          value = value div 85;
          dst = dst[di + 3 := alphabet ! unat (value mod 85)];
          value = value div 85;
          dst = dst[di + 2 := alphabet ! unat (value mod 85)];
          value = value div 85;
          dst = dst[di + 1 := alphabet ! unat (value mod 85)];
          value = value div 85;
          dst = dst[di := alphabet ! unat (value mod 85)]
      in Encode_loop dst (di + 5) src)"
| "Encode_loop dst di _ = dst"

definition Encode :: "bytes \<Rightarrow> bytes \<Rightarrow> bytes result" where
  "Encode dst src =
     (if length src mod 4 \<noteq> 0 then Err (Wrapf ''source length not divisible by 4'' ErrInvalidLength)
      else if length dst < EncodedLen (length src) then
        Err (Errorf ''z85: destination buffer too small'')
      else Ok (Encode_loop dst 0 src))"

definition EncodeToString :: "bytes \<Rightarrow> bytes result" where
  "EncodeToString src =
     (if length src mod 4 \<noteq> 0 then Err (Wrapf ''source length not divisible by 4'' ErrInvalidLength)
      else Encode (replicate (EncodedLen (length src)) 0) src)"

text \<open>The inner loop of \<^verbatim>\<open>Decode\<close> over the five characters of a group.\<close>

fun Decode_group :: "64 word \<Rightarrow> bytes \<Rightarrow> 64 word result" where
  "Decode_group value [] = Ok value"
| "Decode_group value (char # cs) =
     (if 128 \<le> char then Err (Wrapf ''character at position'' ErrInvalidChar)
      else let charValue = decoder ! unat char in
        if charValue = 255 then Err (Wrapf ''character at position'' ErrInvalidChar)
        else Decode_group (value * 85 + ucast charValue) cs)"

fun Decode_loop :: "bytes \<Rightarrow> nat \<Rightarrow> bytes \<Rightarrow> (nat \<times> bytes) result" where
  "Decode_loop dst di [] = Ok (di, dst)"
| "Decode_loop dst di (c0 # c1 # c2 # c3 # c4 # src) =
     and_then (Decode_group 0 [c0, c1, c2, c3, c4]) (\<lambda>value.
       if value > 0xFFFFFFFF then Err (Errorf ''z85: decoded value overflow'')
       else
         let dst = dst[di := ucast (drop_bit 24 value)];
             dst = dst[di + 1 := ucast (drop_bit 16 value)];
             dst = dst[di + 2 := ucast (drop_bit 8 value)];
             dst = dst[di + 3 := ucast value]
         in Decode_loop dst (di + 4) src)"
| "Decode_loop dst di _ = Panic ''index out of range''"

definition Decode :: "bytes \<Rightarrow> bytes \<Rightarrow> (nat \<times> bytes) result" where
  "Decode dst src =
     (if length src mod 5 \<noteq> 0 then Err (Wrapf ''source length not divisible by 5'' ErrInvalidLength)
      else if length dst < DecodedLen (length src) then
        Err (Errorf ''z85: destination buffer too small'')
      else Decode_loop dst 0 src)"

definition DecodeString :: "bytes \<Rightarrow> bytes result" where
  "DecodeString s =
     (if length s mod 5 \<noteq> 0 then Err (Wrapf ''source length not divisible by 5'' ErrInvalidLength)
      else and_then (Decode (replicate (DecodedLen (length s)) 0) s) (\<lambda>(n, dst). Ok (take n dst)))"

definition ValidateString :: "bytes \<Rightarrow> unit result" where
  "ValidateString s =
     (if length s mod 5 \<noteq> 0 then Err (Wrapf ''length not divisible by 5'' ErrInvalidLength)
      else if list_ex (\<lambda>char. 128 \<le> char \<or> decoder ! unat char = 255) s then
        Err (Wrapf ''character at position'' ErrInvalidChar)
      else Ok ())"

section \<open>The specification: big-endian base 85\<close>

definition digits85 :: "nat \<Rightarrow> nat list" where
  "digits85 n =
     [n div 85 div 85 div 85 div 85 mod 85, n div 85 div 85 div 85 mod 85, n div 85 div 85 mod 85,
      n div 85 mod 85, n mod 85]"

definition value85 :: "nat list \<Rightarrow> nat" where
  "value85 ds = foldl (\<lambda>a d. a * 85 + d) 0 ds"

fun z85_spec :: "bytes \<Rightarrow> bytes" where
  "z85_spec (a # b # c # d # src) = map ((!) alphabet) (digits85 (get_be [a, b, c, d])) @ z85_spec src"
| "z85_spec _ = []"

section \<open>Groups\<close>

lemma push_bit_or_eq_add: "push_bit n y OR x = y * 2 ^ n + x" if "x < 2 ^ n" for x y :: nat
proof -
  have x: "x = take_bit n x" using that by (simp add: take_bit_nat_eq_self)
  have "push_bit n y AND take_bit n x = 0"
    by (auto simp: bit_eq_iff bit_simps)
  with x have "push_bit n y AND x = 0" by simp
  then show ?thesis by (simp add: disjunctive_add_eq_or [symmetric] push_bit_eq_mult)
qed
lemma unat_be32: "unat (be32 a b c d) = get_be [a, b, c, d]"
proof -
  note lt = unat_byte_less [of a] unat_byte_less [of b] unat_byte_less [of c] unat_byte_less [of d]
  have tb: "take_bit 64 (push_bit n (unat x)) = push_bit n (unat x)" if "n \<le> 24" for x :: byte and n
  proof (rule take_bit_nat_eq_self)
    have "push_bit n (unat x) < 2 ^ n * 256"
      by (simp add: push_bit_eq_mult)
    also have "\<dots> \<le> 2 ^ 24 * 256"
      using that by (intro mult_le_mono1 power_increasing) auto
    finally show "push_bit n (unat x) < 2 ^ 64" by simp
  qed
  have tb0: "take_bit 64 (unat x) = unat x" for x :: byte
    using tb [of 0 x] by simp
  have "unat (be32 a b c d) =
      push_bit 24 (unat a) OR (push_bit 16 (unat b) OR (push_bit 8 (unat c) OR unat d))"
    by (simp add: be32_def unsigned_or_eq unsigned_push_bit_eq unsigned_ucast_eq tb tb0 del: push_bit_numeral)
  then show ?thesis
    using lt by (simp add: push_bit_or_eq_add get_be_def)
qed

lemma alphabet_decoder_table:
  "list_all (\<lambda>i. alphabet ! i < 128 \<and> decoder ! unat (alphabet ! i) = of_nat i) [0..<85]"
  by (simp add: alphabet_def str_def decoder_def upt_rec)
lemma decoder_alphabet_table:
  "list_all (\<lambda>c. decoder ! c \<noteq> 255 \<longrightarrow> decoder ! c < 85 \<and> alphabet ! unat (decoder ! c) = of_nat c) [0..<128]"
  by (simp add: alphabet_def str_def decoder_def upt_rec)

lemma alphabet_decoder: "i < 85 \<Longrightarrow> alphabet ! i < 128 \<and> decoder ! unat (alphabet ! i) = of_nat i"
  using alphabet_decoder_table by (simp add: list_all_iff)

lemma decoder_alphabet:
  assumes "(c :: byte) < 128" and "decoder ! unat c \<noteq> 255"
  shows "unat (decoder ! unat c) < 85 \<and> alphabet ! unat (decoder ! unat c) = c"
proof -
  have "unat c < 128" using assms(1) by (simp add: word_less_nat_alt)
  then have "decoder ! unat c < 85 \<and> alphabet ! unat (decoder ! unat c) = of_nat (unat c)"
    using decoder_alphabet_table assms(2) by (auto simp: list_all_iff)
  then show ?thesis by (simp add: word_less_nat_alt)
qed

lemma digits85_less: "list_all (\<lambda>d. d < 85) (digits85 n)"
  by (simp add: digits85_def)

lemma value85_digits85: "n < 4437053125 \<Longrightarrow> value85 (digits85 n) = n"
proof -
  assume "n < 4437053125"
  then have "n div 85 div 85 div 85 div 85 mod 85 = n div 85 div 85 div 85 div 85"
    by (simp add: div_mult2_eq [symmetric] less_mult_imp_div_less)
  then show ?thesis
    by (simp only: digits85_def value85_def foldl_Cons foldl_Nil mult_zero_left add_0_left div_mult_mod_eq)
qed

lemma digits85_value85:
  assumes "length ds = 5" and "list_all (\<lambda>d. d < 85) ds"
  shows "digits85 (value85 ds) = ds"
proof -
  obtain a b c d e where ds: "ds = [a, b, c, d, e]"
    using assms(1) by (auto simp: length_Suc_conv eval_nat_numeral)
  have "a < 85" "b < 85" "c < 85" "d < 85" "e < 85"
    using assms(2) ds by auto
  moreover have "(x * 85 + y) div 85 = x" "(x * 85 + y) mod 85 = y" if "y < 85" for x y :: nat
    using that by auto
  ultimately show ?thesis
    by (simp only: ds digits85_def value85_def foldl_Cons foldl_Nil mult_zero_left add_0_left
        mod_less)
qed

lemma digits_of_group:
  "map (\<lambda>v. alphabet ! unat (v mod 85 :: 64 word))
     [be32 a b c d div 85 div 85 div 85 div 85, be32 a b c d div 85 div 85 div 85,
      be32 a b c d div 85 div 85, be32 a b c d div 85, be32 a b c d]
   = map ((!) alphabet) (digits85 (get_be [a, b, c, d]))"
  by (simp add: digits85_def unat_div unat_mod unat_be32 div_mult2_eq [symmetric])

lemma Decode_group_alphabet:
  "list_all (\<lambda>d. d < 85) ds \<Longrightarrow>
   Decode_group (of_nat n) (map ((!) alphabet) ds) = Ok (of_nat (foldl (\<lambda>a d. a * 85 + d) n ds))"
proof (induction ds arbitrary: n)
  case Nil
  then show ?case by simp
next
  case (Cons d ds)
  then have d: "alphabet ! d < 128" "decoder ! unat (alphabet ! d) = of_nat d" "d < 85"
    using alphabet_decoder by auto
  have "of_nat d \<noteq> (255 :: byte)"
    using d(3) by (simp add: word_unat_eq_iff unat_of_nat)
  moreover have "ucast (of_nat d :: byte) = (of_nat d :: 64 word)"
    using d(3) by (simp add: word_unat_eq_iff unsigned_ucast_eq unat_of_nat take_bit_nat_eq_self)
  ultimately show ?case
    using d Cons.IH [of "n * 85 + d"] Cons.prems by (simp add: linorder_not_le)
qed

lemma Decode_group_inverse:
  "Decode_group (of_nat n) cs = Ok v \<Longrightarrow>
   \<exists>ds. cs = map ((!) alphabet) ds \<and> list_all (\<lambda>d. d < 85) ds"
proof (induction cs arbitrary: n)
  case Nil
  then show ?case by (intro exI [of _ "[]"]) simp
next
  case (Cons c cs)
  then have c: "c < 128" "decoder ! unat c \<noteq> 255"
    and rest: "Decode_group (of_nat n * 85 + ucast (decoder ! unat c)) cs = Ok v"
    by (auto simp: Let_def split: if_splits)
  have "of_nat n * 85 + ucast (decoder ! unat c) = (of_nat (n * 85 + unat (decoder ! unat c)) :: 64 word)"
    by simp
  with rest obtain ds where ds: "cs = map ((!) alphabet) ds" "list_all (\<lambda>d. d < 85) ds"
    using Cons.IH by metis
  then show ?case
    using decoder_alphabet [OF c] by (intro exI [of _ "unat (decoder ! unat c) # ds"]) simp
qed

lemma ucast_drop_bit: "ucast (drop_bit k (of_nat n :: 64 word)) = (of_nat (n div 2 ^ k) :: byte)" if "n < 2 ^ 64"
proof -
  have n: "unat (of_nat n :: 64 word) = n" using that by (simp add: unat_of_nat)
  have "unat (ucast (drop_bit k (of_nat n :: 64 word)) :: byte) = unat (drop_bit k (of_nat n :: 64 word)) mod 256"
    by (simp only: unsigned_ucast_eq take_bit_eq_mod) simp
  also have "unat (drop_bit k (of_nat n :: 64 word)) = n div 2 ^ k"
    using that by (subst unsigned_drop_bit_eq) (simp add: n drop_bit_eq_div take_bit_nat_eq_self)
  finally show ?thesis
    by (simp add: word_unat_eq_iff unat_of_nat)
qed

section \<open>The loops\<close>

lemma split_at_window:
  assumes "i + k \<le> length xs"
  obtains ys ws zs where "xs = ys @ ws @ zs" "length ys = i" "length ws = k"
    "take i xs = ys" "drop (i + k) xs = zs"
proof
  show "xs = take i xs @ take k (drop i xs) @ drop (i + k) xs"
    by (metis add.commute append_take_drop_id drop_drop)
qed (use assms in auto)

lemma length_5E:
  assumes "length xs = 5"
  obtains a b c d e where "xs = [a, b, c, d, e]"
  using assms by (auto simp: length_Suc_conv numeral_eq_Suc)

lemma drop_overwrite:
  "length ws = k \<Longrightarrow> i + k \<le> length xs \<Longrightarrow>
   drop (i + k + m) (take i xs @ ws @ drop (i + k) xs) = drop (i + (k + m)) xs"
  by (simp add: add_ac)

lemma write5:
  assumes "di + 5 \<le> length dst"
  shows "dst[di + 4 := e, di + 3 := d, di + 2 := c, di + 1 := b, di := a] =
    take di dst @ [a, b, c, d, e] @ drop (di + 5) dst"
proof -
  obtain ys ws zs where w: "dst = ys @ ws @ zs" "length ys = di" "length ws = 5"
    "take di dst = ys" "drop (di + 5) dst = zs"
    using split_at_window [OF assms] .
  then obtain v w x y z where "ws = [v, w, x, y, z]"
    by (auto simp: length_Suc_conv eval_nat_numeral)
  with w show ?thesis by (simp add: list_update_append eval_nat_numeral)
qed

lemma write4:
  assumes "di + 4 \<le> length dst"
  shows "dst[di := a, di + 1 := b, di + 2 := c, di + 3 := d] =
    take di dst @ [a, b, c, d] @ drop (di + 4) dst"
proof -
  obtain ys ws zs where w: "dst = ys @ ws @ zs" "length ys = di" "length ws = 4"
    "take di dst = ys" "drop (di + 4) dst = zs"
    using split_at_window [OF assms] .
  then obtain v w x y where "ws = [v, w, x, y]"
    by (auto simp: length_Suc_conv eval_nat_numeral)
  with w show ?thesis by (simp add: list_update_append eval_nat_numeral)
qed

lemma length_z85_spec: "length src mod 4 = 0 \<Longrightarrow> length (z85_spec src) = EncodedLen (length src)"
  by (induction src rule: z85_spec.induct) (auto simp: EncodedLen_def digits85_def)

lemma Encode_loop_spec:
  "length src mod 4 = 0 \<Longrightarrow> di + EncodedLen (length src) \<le> length dst \<Longrightarrow>
   Encode_loop dst di src = take di dst @ z85_spec src @ drop (di + EncodedLen (length src)) dst"
proof (induction src arbitrary: dst di rule: z85_spec.induct)
  case (1 s0 s1 s2 s3 src)
  define grp where "grp = map ((!) alphabet) (digits85 (get_be [s0, s1, s2, s3]))"
  define dst' where "dst' = take di dst @ grp @ drop (di + 5) dst"
  have len: "EncodedLen (length (s0 # s1 # s2 # s3 # src)) = 5 + EncodedLen (length src)"
    by (simp add: EncodedLen_def)
  have di: "di + 5 \<le> length dst" using "1.prems"(2) len by simp
  have step: "Encode_loop dst di (s0 # s1 # s2 # s3 # src) = Encode_loop dst' (di + 5) src"
    unfolding dst'_def grp_def digits_of_group [symmetric]
    by (simp add: Let_def write5 [OF di, simplified])
  have grp5: "length grp = 5" by (simp add: grp_def digits85_def)
  then have dst': "length dst' = length dst" "take (di + 5) dst' = take di dst @ grp"
    using di by (auto simp: dst'_def)
  have "Encode_loop dst' (di + 5) src =
      take (di + 5) dst' @ z85_spec src @ drop (di + 5 + EncodedLen (length src)) dst'"
    by (rule "1.IH") (use "1.prems" len dst'(1) in auto)
  moreover have "drop (di + 5 + EncodedLen (length src)) dst' = drop (di + (5 + EncodedLen (length src))) dst"
    unfolding dst'_def by (rule drop_overwrite [OF grp5 di])
  ultimately show ?case
    unfolding step len dst'(2) by (simp add: grp_def)
qed (auto simp: EncodedLen_def)


lemma EncodeToString_spec: "length src mod 4 = 0 \<Longrightarrow> EncodeToString src = Ok (z85_spec src)"
  by (simp add: EncodeToString_def Encode_def Encode_loop_spec)

text \<open>One round of the decoder on a group of alphabet letters.\<close>

lemma Decode_loop_group:
  assumes "n < 4294967296" and "di + 4 \<le> length dst"
  shows "Decode_loop dst di (map ((!) alphabet) (digits85 n) @ src) =
    Decode_loop (take di dst @ put_be 4 n @ drop (di + 4) dst) (di + 4) src"
proof -
  have grp: "Decode_group 0 (map ((!) alphabet) (digits85 n)) = Ok (of_nat n)"
    using Decode_group_alphabet [OF digits85_less, of 0 n] value85_digits85 [of n] assms(1)
    by (simp add: value85_def)
  have small: "\<not> (of_nat n :: 64 word) > 0xFFFFFFFF"
    using assms(1) by (simp add: word_less_nat_alt unat_of_nat)
  have bytes: "[ucast (drop_bit 24 (of_nat n :: 64 word)), ucast (drop_bit 16 (of_nat n :: 64 word)),
      ucast (drop_bit 8 (of_nat n :: 64 word)), ucast (of_nat n :: 64 word)] = put_be 4 n"
    using assms(1) ucast_drop_bit [of n 0] by (simp add: ucast_drop_bit wire_simps)
  obtain a b c d e where abc: "map ((!) alphabet) (digits85 n) = [a, b, c, d, e]"
    by (simp add: digits85_def)
  show ?thesis
    using grp small by (simp add: abc Let_def write4 [OF assms(2), simplified] bytes [symmetric])
qed

lemma Decode_loop_spec:
  "length src mod 4 = 0 \<Longrightarrow> di + length src \<le> length dst \<Longrightarrow>
   Decode_loop dst di (z85_spec src) = Ok (di + length src, take di dst @ src @ drop (di + length src) dst)"
proof (induction src arbitrary: dst di rule: z85_spec.induct)
  case (1 a b c d src)
  let ?n = "get_be [a, b, c, d]"
  have len: "length [a, b, c, d] = 4" by simp
  have n: "?n < 4294967296"
    using get_be_less [of "[a, b, c, d]"] unfolding len by simp
  have be: "put_be 4 ?n = [a, b, c, d]"
    using put_be_get_be [of "[a, b, c, d]"] unfolding len .
  have "Decode_loop dst di (z85_spec (a # b # c # d # src)) =
      Decode_loop (take di dst @ [a, b, c, d] @ drop (di + 4) dst) (di + 4) (z85_spec src)"
    using Decode_loop_group [OF n, of di dst "z85_spec src"] "1.prems" be by simp
  moreover have "\<dots> = Ok (di + 4 + length src, take (di + 4) (take di dst @ [a, b, c, d] @ drop (di + 4) dst) @ src @
      drop (di + 4 + length src) (take di dst @ [a, b, c, d] @ drop (di + 4) dst))"
    by (rule "1.IH") (use "1.prems" in auto)
  moreover have "drop (di + 4 + length src) (take di dst @ [a, b, c, d] @ drop (di + 4) dst) =
      drop (di + (4 + length src)) dst"
    by (rule drop_overwrite) (use "1.prems" in auto)
  moreover have "length (a # b # c # d # src) = 4 + length src" by simp
  ultimately show ?case
    using "1.prems" by (simp only: take_append) (simp add: add.assoc)
qed auto

lemma DecodeString_z85_spec: "length src mod 4 = 0 \<Longrightarrow> DecodeString (z85_spec src) = Ok src"
proof -
  assume src: "length src mod 4 = 0"
  then have "length (z85_spec src) mod 5 = 0" "DecodedLen (length (z85_spec src)) = length src"
    by (auto simp: length_z85_spec EncodedLen_def DecodedLen_def)
  with src show ?thesis
    by (simp add: DecodeString_def Decode_def Decode_loop_spec)
qed

text \<open>What decodes is the specification of its result.\<close>

lemma value85_less: "list_all (\<lambda>d. d < 85) ds \<Longrightarrow> foldl (\<lambda>a d. a * 85 + d) n ds < (n + 1 :: nat) * 85 ^ length ds"
proof (induction ds arbitrary: n)
  case Nil
  then show ?case by simp
next
  case (Cons d ds)
  have "foldl (\<lambda>a d. a * 85 + d) (n * 85 + d) ds < (n * 85 + d + 1) * 85 ^ length ds"
    using Cons by simp
  also have "\<dots> \<le> ((n + 1) * 85) * 85 ^ length ds"
    using Cons.prems by (intro mult_le_mono1) simp
  finally show ?case by (simp add: algebra_simps)
qed

lemma Decode_group_value:
  assumes "Decode_group 0 cs = Ok v" and "length cs = 5" and "\<not> v > 0xFFFFFFFF"
  obtains n where "n < 4294967296" "cs = map ((!) alphabet) (digits85 n)"
proof -
  obtain ds where ds: "cs = map ((!) alphabet) ds" "list_all (\<lambda>d. d < 85) ds"
    using Decode_group_inverse [of 0 cs v] assms(1) by auto
  have len: "length ds = 5" using ds(1) assms(2) by simp
  let ?n = "value85 ds"
  have "v = of_nat ?n"
    using Decode_group_alphabet [OF ds(2), of 0] assms(1) by (simp add: ds(1) value85_def)
  moreover have "?n < 4437053125"
    using value85_less [OF ds(2), of 0] by (simp add: value85_def len)
  ultimately have "?n < 4294967296"
    using assms(3) by (simp add: word_less_nat_alt unat_of_nat)
  then show ?thesis
    using that ds(1) digits85_value85 [OF len ds(2)] by simp
qed

lemma put_be4_bytes:
  assumes "n < 4294967296"
  obtains a b c d where "put_be 4 n = [a, b, c, d]" "get_be [a, b, c, d] = n"
proof -
  obtain a b c d where abcd: "put_be 4 n = [a, b, c, d]" by (simp add: wire_simps)
  moreover have "get_be (put_be 4 n) = n" using assms by simp
  ultimately show ?thesis using that by simp
qed

lemma DecodedLen_add5: "DecodedLen (n + 5) = 4 + DecodedLen n"
proof -
  have "(n + 5) * 4 = n * 4 + 4 * 5" by simp
  then show ?thesis unfolding DecodedLen_def by simp
qed

lemma Decode_loop_inverse:
  "Decode_loop dst di s = Ok (n, dst') \<Longrightarrow> length s mod 5 = 0 \<Longrightarrow> di + DecodedLen (length s) \<le> length dst \<Longrightarrow>
   \<exists>src. length src mod 4 = 0 \<and> s = z85_spec src"
proof (induction "length s" arbitrary: s dst di rule: less_induct)
  case less
  show ?case
  proof (cases "s = []")
    case True
    then show ?thesis by (intro exI [of _ "[]"]) simp
  next
    case False
    then have "5 \<le> length s" using less.prems(2) by (cases "length s < 5") auto
    then have s: "s = take 5 s @ drop 5 s" and len5: "length (take 5 s) = 5" by simp_all
    obtain c0 c1 c2 c3 c4 where cs: "take 5 s = [c0, c1, c2, c3, c4]"
      using length_5E [OF len5] .
    have "Decode_loop dst di (c0 # c1 # c2 # c3 # c4 # drop 5 s) = Ok (n, dst')"
      using less.prems(1) s cs by simp
    then obtain v where v: "Decode_group 0 (take 5 s) = Ok v" "\<not> v > 0xFFFFFFFF"
      unfolding cs by (auto simp del: Decode_group.simps split: if_splits)
    obtain m where m: "m < 4294967296" "take 5 s = map ((!) alphabet) (digits85 m)"
      using Decode_group_value [OF v(1) len5 v(2)] .
    have room: "di + 4 \<le> length dst"
      using less.prems(3) \<open>5 \<le> length s\<close> by (simp add: DecodedLen_def)
    have "Decode_loop (take di dst @ put_be 4 m @ drop (di + 4) dst) (di + 4) (drop 5 s) = Ok (n, dst')"
      using less.prems(1) Decode_loop_group [OF m(1) room, of "drop 5 s"] s m(2) by simp
    moreover have "length (drop 5 s) mod 5 = 0"
      using less.prems(2) \<open>5 \<le> length s\<close> by (simp only: length_drop) presburger
    moreover have "4 + DecodedLen (length (drop 5 s)) = DecodedLen (length s)"
      using \<open>5 \<le> length s\<close> DecodedLen_add5 [of "length s - 5"] by simp
    ultimately have "\<exists>src. length src mod 4 = 0 \<and> drop 5 s = z85_spec src"
      using \<open>5 \<le> length s\<close> less.prems(3) room by (intro less.hyps) auto
    then obtain src where src: "length src mod 4 = 0" "drop 5 s = z85_spec src"
      by metis
    obtain a b c d where "put_be 4 m = [a, b, c, d]" "get_be [a, b, c, d] = m"
      using put_be4_bytes [OF m(1)] .
    then have "s = z85_spec (a # b # c # d # src)"
      using s m(2) src(2) by simp
    then show ?thesis using src(1) by (intro exI [of _ "a # b # c # d # src"]) simp
  qed
qed


lemma DecodeString_inverse:
  assumes "DecodeString s = Ok b"
  shows "length b mod 4 = 0 \<and> s = z85_spec b"
proof -
  obtain n dst where loop: "Decode_loop (replicate (DecodedLen (length s)) 0) 0 s = Ok (n, dst)"
    and len: "length s mod 5 = 0"
    using assms by (auto simp: DecodeString_def Decode_def split: if_splits)
  have "\<exists>src. length src mod 4 = 0 \<and> s = z85_spec src"
    by (rule Decode_loop_inverse [OF loop len]) simp
  then obtain src where src: "length src mod 4 = 0" "s = z85_spec src" by metis
  then have "DecodeString s = Ok src" by (simp add: DecodeString_z85_spec)
  with assms src show ?thesis by simp
qed

lemma z85_spec_letters: "list_all (\<lambda>c. c < 128 \<and> decoder ! unat c \<noteq> 255) (z85_spec b)"
proof (induction b rule: z85_spec.induct)
  case (1 a b c d src)
  have "alphabet ! i < 128 \<and> decoder ! unat (alphabet ! i) \<noteq> 255" if "i < 85" for i
    using alphabet_decoder [OF that] that by (simp add: word_unat_eq_iff unat_of_nat)
  with "1.IH" show ?case by (simp add: digits85_def)
qed simp_all

section \<open>Properties\<close>

text \<open>
  C35: the encoder is the arithmetic specification. For an input whose length is a multiple of
  four \<open>EncodeToString\<close> succeeds, writes the big-endian base-85 digits of every 4-byte group,
  and its result has \<open>EncodedLen\<close> characters; for every other length it returns
  \<open>ErrInvalidLength\<close>.
\<close>

theorem EncodeToString_correct:
  "EncodeToString src =
     (if length src mod 4 = 0 then Ok (z85_spec src)
      else Err (Wrapf ''source length not divisible by 4'' ErrInvalidLength)) \<and>
   (length src mod 4 = 0 \<longrightarrow> length (z85_spec src) = EncodedLen (length src))"
  by (auto simp: EncodeToString_spec length_z85_spec) (simp add: EncodeToString_def)

theorem EncodeToString_correct_witness:
  "EncodeToString [0x86, 0x4F, 0xD2, 0x6F, 0xB5, 0x59, 0xF7, 0x5B] = Ok (str ''HelloWorld'') \<and>
   length (str ''HelloWorld'') = EncodedLen 8"
  using EncodeToString_correct [of "[0x86, 0x4F, 0xD2, 0x6F, 0xB5, 0x59, 0xF7, 0x5B]"]
  by (simp add: digits85_def get_be_def alphabet_def wire_simps EncodedLen_def)

text \<open>
  C9: decoding inverts encoding and encoding inverts decoding. \<open>DecodeString s\<close> returns \<open>b\<close>
  exactly when \<open>EncodeToString b\<close> returns \<open>s\<close>, so every byte string whose length is a
  multiple of four comes back and no two strings decode to the same bytes.
\<close>

theorem z85_roundtrip: "DecodeString s = Ok b \<longleftrightarrow> EncodeToString b = Ok s"
proof
  assume "DecodeString s = Ok b"
  then show "EncodeToString b = Ok s"
    using DecodeString_inverse EncodeToString_spec by auto
next
  assume enc: "EncodeToString b = Ok s"
  then have len: "length b mod 4 = 0" by (auto simp: EncodeToString_def split: if_splits)
  with enc have "s = z85_spec b" by (simp add: EncodeToString_spec)
  with len show "DecodeString s = Ok b" by (simp add: DecodeString_z85_spec)
qed

text \<open>
  \<open>ValidateString\<close> accepts every string that decodes, but not only those: a string whose
  letters are all in the alphabet and whose group value passes \<open>2^32 - 1\<close> (here
  \<^verbatim>\<open>#####\<close>) is reported valid and rejected by \<open>DecodeString\<close>.
\<close>

theorem ValidateString_accepts_more:
  "(DecodeString s = Ok b \<longrightarrow> ValidateString s = Ok ()) \<and>
   ValidateString (str ''#####'') = Ok () \<and>
   DecodeString (str ''#####'') = Err (Errorf ''z85: decoded value overflow'')"
proof (intro conjI impI)
  assume "DecodeString s = Ok b"
  then have s: "length b mod 4 = 0" "s = z85_spec b" by (simp_all add: DecodeString_inverse)
  then have "length s mod 5 = 0" by (auto simp: length_z85_spec EncodedLen_def)
  then show "ValidateString s = Ok ()"
    using z85_spec_letters [of b] by (auto simp: ValidateString_def s(2) list_all_iff list_ex_iff)
next
  show "ValidateString (str ''#####'') = Ok ()"
    by (simp add: ValidateString_def decoder_def wire_simps)
  show "DecodeString (str ''#####'') = Err (Errorf ''z85: decoded value overflow'')"
    by (simp add: DecodeString_def Decode_def DecodedLen_def decoder_def wire_simps)
qed

theorem ValidateString_accepts_more_witness:
  "DecodeString (str ''HelloWorld'') = Ok [0x86, 0x4F, 0xD2, 0x6F, 0xB5, 0x59, 0xF7, 0x5B] \<and>
   ValidateString (str ''HelloWorld'') = Ok ()"
proof -
  have "DecodeString (str ''HelloWorld'') = Ok [0x86, 0x4F, 0xD2, 0x6F, 0xB5, 0x59, 0xF7, 0x5B]"
    using DecodeString_z85_spec [of "[0x86, 0x4F, 0xD2, 0x6F, 0xB5, 0x59, 0xF7, 0x5B]"]
    by (simp add: digits85_def get_be_def alphabet_def wire_simps)
  then show ?thesis using ValidateString_accepts_more by blast
qed

end
