(* ===== verification/Zmtp_Msg.thy ===== *)
theory Zmtp_Msg
  imports Prelude
begin

text \<open>
  The messages, commands and socket types of the core package:
  \<^verbatim>\<open>src/protocol_msg.go\<close> (\<open>Msg\<close>, \<open>Cmd\<close>) and \<^verbatim>\<open>src/core_types.go\<close> (\<open>SocketType\<close>,
  \<open>SocketIdentity\<close>). The command codec is shown to be a bijection between commands with a
  name of at most 255 bytes and well-formed frames; the compatibility table of the socket
  types is symmetric, and panics exactly on a name that is not a socket type.
\<close>

section \<open>Messages\<close>

datatype MsgType = UsrMsg | CmdMsg

record Msg =
  Frames :: frames
  msgType :: MsgType
  multipart :: bool
  msgErr :: "go_error option"

definition zeroMsg :: Msg where
  "zeroMsg = \<lparr>Frames = [], msgType = UsrMsg, multipart = False, msgErr = None\<rparr>"

definition NewMsg :: "bytes \<Rightarrow> Msg" where
  "NewMsg frame = zeroMsg\<lparr>Frames := [frame]\<rparr>"

definition NewMsgFrom :: "frames \<Rightarrow> Msg" where
  "NewMsgFrom fs = zeroMsg\<lparr>Frames := fs\<rparr>"

definition NewMsgString :: "bytes \<Rightarrow> Msg" where
  "NewMsgString frame = NewMsg frame"

definition NewMsgFromString :: "bytes list \<Rightarrow> Msg" where
  "NewMsgFromString fs = zeroMsg\<lparr>Frames := map (\<lambda>frame. [] @ frame) fs\<rparr>"

definition isCmd :: "Msg \<Rightarrow> bool" where
  "isCmd msg \<longleftrightarrow> msgType msg = CmdMsg"

definition Msg_Bytes :: "Msg \<Rightarrow> bytes" where
  "Msg_Bytes msg = foldl (@) [] (Frames msg)"

definition Msg_size :: "Msg \<Rightarrow> nat" where
  "Msg_size msg = foldl (\<lambda>n frame. n + length frame) 0 (Frames msg)"

text \<open>
  \<^verbatim>\<open>Clone\<close> copies every frame into a buffer of its own and leaves the other fields at their
  zero values.
\<close>

definition Msg_Clone :: "Msg \<Rightarrow> Msg" where
  "Msg_Clone msg = zeroMsg\<lparr>Frames := map (\<lambda>frame. take (length frame) frame) (Frames msg)\<rparr>"

section \<open>Commands\<close>

record Cmd =
  cmdName :: bytes
  cmdBody :: bytes

definition CmdCancel :: bytes where "CmdCancel = str ''CANCEL''"
definition CmdError :: bytes where "CmdError = str ''ERROR''"
definition CmdHello :: bytes where "CmdHello = str ''HELLO''"
definition CmdInitiate :: bytes where "CmdInitiate = str ''INITIATE''"
definition CmdPing :: bytes where "CmdPing = str ''PING''"
definition CmdPong :: bytes where "CmdPong = str ''PONG''"
definition CmdReady :: bytes where "CmdReady = str ''READY''"
definition CmdSubscribe :: bytes where "CmdSubscribe = str ''SUBSCRIBE''"
definition CmdUnsubscribe :: bytes where "CmdUnsubscribe = str ''UNSUBSCRIBE''"
definition CmdWelcome :: bytes where "CmdWelcome = str ''WELCOME''"

lemmas cmd_names =
  CmdCancel_def CmdError_def CmdHello_def CmdInitiate_def CmdPing_def CmdPong_def CmdReady_def
  CmdSubscribe_def CmdUnsubscribe_def CmdWelcome_def

definition unmarshalZMTP :: "bytes \<Rightarrow> Cmd result" where
  "unmarshalZMTP data =
     (case data of
        [] \<Rightarrow> Err ErrUnexpectedEOF
      | b # _ \<Rightarrow>
          let n = unat b in
          if n > length data - 1 then Err ErrBadCmd
          else Ok \<lparr>cmdName = take n (drop 1 data), cmdBody = drop (n + 1) data\<rparr>)"

definition marshalZMTP :: "Cmd \<Rightarrow> bytes result" where
  "marshalZMTP cmd =
     (let n = length (cmdName cmd) in
      if n > 255 then Err ErrBadCmd
      else Ok ([of_nat n] @ cmdName cmd @ cmdBody cmd))"

section \<open>Socket types\<close>

type_synonym SocketType = bytes
type_synonym SocketIdentity = bytes

definition SockPair :: SocketType where "SockPair = str ''PAIR''"
definition SockPub :: SocketType where "SockPub = str ''PUB''"
definition SockSub :: SocketType where "SockSub = str ''SUB''"
definition SockReq :: SocketType where "SockReq = str ''REQ''"
definition SockRep :: SocketType where "SockRep = str ''REP''"
definition SockDealer :: SocketType where "SockDealer = str ''DEALER''"
definition SockRouter :: SocketType where "SockRouter = str ''ROUTER''"
definition SockPull :: SocketType where "SockPull = str ''PULL''"
definition SockPush :: SocketType where "SockPush = str ''PUSH''"
definition SockXPub :: SocketType where "SockXPub = str ''XPUB''"
definition SockXSub :: SocketType where "SockXSub = str ''XSUB''"

lemmas socket_types =
  SockPair_def SockPub_def SockSub_def SockReq_def SockRep_def SockDealer_def SockRouter_def
  SockPull_def SockPush_def SockXPub_def SockXSub_def

definition known_types :: "SocketType list" where
  "known_types =
     [SockPair, SockPub, SockSub, SockReq, SockRep, SockDealer, SockRouter, SockPull, SockPush,
      SockXPub, SockXSub]"

definition IsCompatible :: "SocketType \<Rightarrow> SocketType \<Rightarrow> bool result" where
  "IsCompatible sck peer =
     (if sck = SockPair then Ok (peer = SockPair)
      else if sck = SockPub then Ok (peer = SockSub \<or> peer = SockXSub)
      else if sck = SockSub then Ok (peer = SockPub \<or> peer = SockXPub)
      else if sck = SockReq then Ok (peer = SockRep \<or> peer = SockRouter)
      else if sck = SockRep then Ok (peer = SockReq \<or> peer = SockDealer)
      else if sck = SockDealer then Ok (peer = SockRep \<or> peer = SockDealer \<or> peer = SockRouter)
      else if sck = SockRouter then Ok (peer = SockReq \<or> peer = SockDealer \<or> peer = SockRouter)
      else if sck = SockPull then Ok (peer = SockPush)
      else if sck = SockPush then Ok (peer = SockPull)
      else if sck = SockXPub then Ok (peer = SockSub \<or> peer = SockXSub)
      else if sck = SockXSub then Ok (peer = SockPub \<or> peer = SockXPub)
      else Panic ''unknown socket-type'')"

definition Identity_String :: "SocketIdentity \<Rightarrow> bytes" where
  "Identity_String ident =
     (let n = length ident; n = (if n > 255 then 255 else n) in take n ident)"

section \<open>Lemmas\<close>

lemma NewMsg_sel [simp]:
  "Frames (NewMsg f) = [f]" "Frames (NewMsgFrom fs) = fs" "msgErr (NewMsgFrom fs) = None"
  "Frames zeroMsg = []" "msgType zeroMsg = UsrMsg" "msgErr zeroMsg = None" "\<not> multipart zeroMsg"
  by (simp_all add: NewMsg_def NewMsgFrom_def zeroMsg_def)

lemma Msg_Bytes_concat [simp]: "Msg_Bytes msg = concat (Frames msg)"
proof -
  have "foldl (@) acc fs = acc @ concat fs" for acc :: bytes and fs
    by (induction fs arbitrary: acc) auto
  then show ?thesis by (simp add: Msg_Bytes_def)
qed

lemma Msg_size_eq [simp]: "Msg_size msg = length (Msg_Bytes msg)"
proof -
  have "foldl (\<lambda>n frame. n + length frame) m fs = m + length (concat fs)" for m and fs :: frames
    by (induction fs arbitrary: m) auto
  then show ?thesis by (simp add: Msg_size_def)
qed

lemma Identity_String_length: "length (Identity_String ident) \<le> 255"
  by (simp add: Identity_String_def Let_def)

lemma unmarshalZMTP_marshalZMTP:
  "marshalZMTP cmd = Ok data \<Longrightarrow> unmarshalZMTP data = Ok cmd"
  by (auto simp: marshalZMTP_def unmarshalZMTP_def Let_def unat_length_byte split: if_splits)

lemma marshalZMTP_unmarshalZMTP:
  assumes "unmarshalZMTP data = Ok cmd"
  shows "marshalZMTP cmd = Ok data"
proof -
  obtain b r where data: "data = b # r" and n: "unat b \<le> length r"
    and cmd: "cmd = \<lparr>cmdName = take (unat b) r, cmdBody = drop (unat b) r\<rparr>"
    using assms by (auto simp: unmarshalZMTP_def Let_def split: list.splits if_splits)
  have "\<not> 255 < unat b" using unat_byte_less [of b] by linarith
  then show ?thesis
    using n by (simp add: marshalZMTP_def cmd data Let_def min_def)
qed

interpretation cmd: total_codec marshalZMTP unmarshalZMTP "\<lambda>cmd. length (cmdName cmd) \<le> 255"
proof
  show "\<exists>b. marshalZMTP cmd = Ok b" if "length (cmdName cmd) \<le> 255" for cmd
    using that by (simp add: marshalZMTP_def)
qed (rule unmarshalZMTP_marshalZMTP)

lemma IsCompatible_known: "(\<exists>b. IsCompatible sck peer = Ok b) \<longleftrightarrow> sck \<in> set known_types"
  by (auto simp: IsCompatible_def known_types_def)

lemma IsCompatible_symmetric:
  "list_all (\<lambda>a. list_all (\<lambda>b. IsCompatible a b = IsCompatible b a) known_types) known_types"
  by (simp add: known_types_def IsCompatible_def socket_types wire_simps)

section \<open>Properties\<close>

text \<open>
  the command codec is a bijection on its domain: a frame decodes to a command exactly when
  that command marshals to the frame, so no command is lost, changed or confused with another.
\<close>

theorem cmd_codec_bijection: "unmarshalZMTP data = Ok cmd \<longleftrightarrow> marshalZMTP cmd = Ok data"
  using unmarshalZMTP_marshalZMTP marshalZMTP_unmarshalZMTP by blast

text \<open>
  compatibility of two socket types does not depend on which side asks, for all the
  types of the library; on any other name \<open>IsCompatible\<close> panics instead of returning.
\<close>

theorem IsCompatible_total_symmetric:
  "(sck \<in> set known_types \<longrightarrow> peer \<in> set known_types \<longrightarrow>
     (\<exists>b. IsCompatible sck peer = Ok b \<and> IsCompatible peer sck = Ok b)) \<and>
   (sck \<notin> set known_types \<longrightarrow> IsCompatible sck peer = Panic ''unknown socket-type'')"
proof (intro conjI impI)
  assume "sck \<in> set known_types" "peer \<in> set known_types"
  then show "\<exists>b. IsCompatible sck peer = Ok b \<and> IsCompatible peer sck = Ok b"
    using IsCompatible_symmetric IsCompatible_known [of sck peer] by (auto simp: list_all_iff)
next
  assume "sck \<notin> set known_types"
  then show "IsCompatible sck peer = Panic ''unknown socket-type''"
    by (auto simp: IsCompatible_def known_types_def)
qed

theorem IsCompatible_total_symmetric_witness:
  "IsCompatible SockReq SockRouter = Ok True \<and> IsCompatible SockRouter SockReq = Ok True \<and>
   IsCompatible (str ''STREAM'') SockReq = Panic ''unknown socket-type''"
proof -
  have "SockReq \<in> set known_types" "SockRouter \<in> set known_types" "IsCompatible SockReq SockRouter = Ok True"
    by (simp_all add: known_types_def IsCompatible_def socket_types wire_simps)
  moreover have "str ''STREAM'' \<notin> set known_types"
    by (simp add: known_types_def socket_types wire_simps)
  ultimately show ?thesis
    using IsCompatible_total_symmetric [of SockReq SockRouter]
      IsCompatible_total_symmetric [of "str ''STREAM''" SockReq] by auto
qed

end
