(* ===== verification/Msg_Queue.thy ===== *)
theory Msg_Queue
  imports Zmtp_Msg
begin

text \<open>
  The message queue of \<^verbatim>\<open>src/queue.go\<close>: a linked list of chunks of at most \<open>innerCap\<close> messages.
  The interface \<open>fifo\<close> is an unbounded first-in first-out queue with an abstraction to a list;
  the chunked queue implements it, so any sequence of operations behaves as on a plain list.
\<close>

section \<open>The interface\<close>

locale fifo =
  fixes new :: 'q
    and push :: "'q \<Rightarrow> 'a \<Rightarrow> 'q"
    and pop :: "'q \<Rightarrow> 'q result"
    and peek :: "'q \<Rightarrow> 'a option"
    and size_of :: "'q \<Rightarrow> int"
    and inv :: "'q \<Rightarrow> bool"
    and items :: "'q \<Rightarrow> 'a list"
  assumes inv_new: "inv new" and items_new: "items new = []"
    and inv_push: "inv q \<Longrightarrow> inv (push q x)" and items_push: "inv q \<Longrightarrow> items (push q x) = items q @ [x]"
    and pop_some: "inv q \<Longrightarrow> items q \<noteq> [] \<Longrightarrow> \<exists>q'. pop q = Ok q' \<and> inv q' \<and> items q' = tl (items q)"
    and pop_none: "inv q \<Longrightarrow> items q = [] \<Longrightarrow> \<exists>m. pop q = Panic m"
    and peek_items: "inv q \<Longrightarrow> peek q = (if items q = [] then None else Some (hd (items q)))"
    and size_items: "inv q \<Longrightarrow> size_of q = int (length (items q))"
begin

lemma push_all: "inv q \<Longrightarrow> inv (foldl push q xs) \<and> items (foldl push q xs) = items q @ xs"
  by (induction xs arbitrary: q) (auto simp: inv_push items_push)

text \<open>A reader that peeks and pops until the queue is empty.\<close>

fun drain :: "nat \<Rightarrow> 'q \<Rightarrow> 'a list" where
  "drain 0 q = []"
| "drain (Suc n) q =
     (case peek q of None \<Rightarrow> [] | Some x \<Rightarrow> (case pop q of Ok q' \<Rightarrow> x # drain n q' | _ \<Rightarrow> [x]))"

lemma drain_items: "inv q \<Longrightarrow> length (items q) \<le> n \<Longrightarrow> drain n q = items q"
proof (induction n arbitrary: q)
  case (Suc n)
  show ?case
  proof (cases "items q")
    case (Cons x xs)
    then obtain q' where q': "pop q = Ok q'" "inv q'" "items q' = xs"
      using pop_some [OF Suc.prems(1)] by auto
    then show ?thesis
      using Suc Cons by (simp add: peek_items)
  qed (simp add: peek_items Suc)
qed simp

lemma drain_pushed: "drain (length xs) (foldl push new xs) = xs"
  using push_all [OF inv_new, of xs] by (simp add: drain_items items_new)

end

section \<open>The chunked queue\<close>

definition innerCap :: nat where "innerCap = 512"

record Queue =
  rep :: "Msg list list"
  q_len :: int

definition NewQueue :: Queue where
  "NewQueue = \<lparr>rep = [], q_len = 0\<rparr>"

definition Queue_Len :: "Queue \<Rightarrow> int" where
  "Queue_Len q = q_len q"

definition Queue_Init :: "Queue \<Rightarrow> Queue" where
  "Queue_Init q = q\<lparr>rep := [], q_len := 0\<rparr>"

definition Queue_Push :: "Queue \<Rightarrow> Msg \<Rightarrow> Queue" where
  "Queue_Push q val =
     (let q = q\<lparr>q_len := q_len q + 1\<rparr> in
      if rep q = [] \<or> length (last (rep q)) = innerCap
      then q\<lparr>rep := rep q @ [[val]]\<rparr>
      else q\<lparr>rep := butlast (rep q) @ [last (rep q) @ [val]]\<rparr>)"

definition Queue_front :: "Queue \<Rightarrow> Msg list option" where
  "Queue_front q = (case rep q of [] \<Rightarrow> None | elem # _ \<Rightarrow> Some elem)"

definition Queue_Peek :: "Queue \<Rightarrow> Msg option" where
  "Queue_Peek q = (case Queue_front q of None \<Rightarrow> None | Some i \<Rightarrow> Some (i ! 0))"

definition Queue_Pop :: "Queue \<Rightarrow> Queue result" where
  "Queue_Pop q =
     (case rep q of
        [] \<Rightarrow> Panic ''attempting to Pop on an empty Queue''
      | i # others \<Rightarrow>
          let q = q\<lparr>q_len := q_len q - 1\<rparr>; i = drop 1 i in
          if length i = 0 then Ok (q\<lparr>rep := others\<rparr>) else Ok (q\<lparr>rep := i # others\<rparr>))"

definition Queue_inv :: "Queue \<Rightarrow> bool" where
  "Queue_inv q \<longleftrightarrow>
     list_all (\<lambda>i. 0 < length i \<and> length i \<le> innerCap) (rep q) \<and>
     q_len q = int (length (concat (rep q)))"

definition Queue_items :: "Queue \<Rightarrow> Msg list" where
  "Queue_items q = concat (rep q)"

lemma concat_butlast_last: "cs \<noteq> [] \<Longrightarrow> concat (butlast cs @ [last cs @ [x]]) = concat cs @ [x]"
  by (induction cs) auto

interpretation queue: fifo NewQueue Queue_Push Queue_Pop Queue_Peek Queue_Len Queue_inv Queue_items
proof
  fix q :: Queue and val :: Msg
  assume inv: "Queue_inv q"
  show items: "Queue_items (Queue_Push q val) = Queue_items q @ [val]"
    using concat_butlast_last [of "rep q" val] by (auto simp: Queue_Push_def Queue_items_def Let_def)
  have "list_all (\<lambda>i. 0 < length i \<and> length i \<le> innerCap) (rep (Queue_Push q val))"
    using inv
    by (cases "rep q" rule: rev_cases) (auto simp: Queue_Push_def Queue_inv_def Let_def innerCap_def)
  moreover have "q_len (Queue_Push q val) = q_len q + 1"
    by (simp add: Queue_Push_def Let_def)
  ultimately show "Queue_inv (Queue_Push q val)"
    using inv items by (simp add: Queue_inv_def Queue_items_def)
  show "Queue_Peek q = (if Queue_items q = [] then None else Some (hd (Queue_items q)))"
    using inv
    by (cases "rep q") (auto simp: Queue_Peek_def Queue_front_def Queue_items_def Queue_inv_def hd_append hd_conv_nth)
  show "Queue_Len q = int (length (Queue_items q))"
    using inv by (simp add: Queue_Len_def Queue_inv_def Queue_items_def)
next
  fix q assume inv: "Queue_inv q" and ne: "Queue_items q \<noteq> []"
  then obtain x i others where rep: "rep q = (x # i) # others"
    by (cases "rep q") (auto simp: Queue_items_def Queue_inv_def neq_Nil_conv)
  then show "\<exists>q'. Queue_Pop q = Ok q' \<and> Queue_inv q' \<and> Queue_items q' = tl (Queue_items q)"
    using inv by (auto simp: Queue_Pop_def Queue_inv_def Queue_items_def Let_def)
next
  fix q assume "Queue_inv q" "Queue_items q = []"
  then have "rep q = []"
    by (cases "rep q") (auto simp: Queue_items_def Queue_inv_def)
  then show "\<exists>m. Queue_Pop q = Panic m"
    by (simp add: Queue_Pop_def)
qed (simp_all add: NewQueue_def Queue_inv_def Queue_items_def)

section \<open>Sequences of operations\<close>

datatype qop = OpPush Msg | OpPop | OpInit

fun Queue_run :: "Queue \<Rightarrow> qop list \<Rightarrow> Queue result" where
  "Queue_run q [] = Ok q"
| "Queue_run q (OpPush m # ops) = Queue_run (Queue_Push q m) ops"
| "Queue_run q (OpPop # ops) = and_then (Queue_Pop q) (\<lambda>q. Queue_run q ops)"
| "Queue_run q (OpInit # ops) = Queue_run (Queue_Init q) ops"

fun list_run :: "Msg list \<Rightarrow> qop list \<Rightarrow> Msg list option" where
  "list_run xs [] = Some xs"
| "list_run xs (OpPush m # ops) = list_run (xs @ [m]) ops"
| "list_run xs (OpPop # ops) = (if xs = [] then None else list_run (tl xs) ops)"
| "list_run xs (OpInit # ops) = list_run [] ops"

lemma Queue_Init_inv: "Queue_inv (Queue_Init q)" "Queue_items (Queue_Init q) = []"
  by (simp_all add: Queue_Init_def Queue_inv_def Queue_items_def)

lemma Queue_run_list_run:
  "Queue_inv q \<Longrightarrow>
   (case list_run (Queue_items q) ops of
      Some xs \<Rightarrow> \<exists>q'. Queue_run q ops = Ok q' \<and> Queue_inv q' \<and> Queue_items q' = xs
    | None \<Rightarrow> \<exists>m. Queue_run q ops = Panic m)"
proof (induction q ops rule: Queue_run.induct)
  case (2 q m ops)
  then show ?case by (simp add: queue.inv_push queue.items_push split: option.splits)
next
  case (3 q ops)
  show ?case
  proof (cases "Queue_items q = []")
    case True
    then show ?thesis using queue.pop_none [OF 3(2)] by auto
  next
    case False
    then obtain q' where q': "Queue_Pop q = Ok q'" "Queue_inv q'" "Queue_items q' = tl (Queue_items q)"
      using queue.pop_some [OF 3(2)] by blast
    show ?thesis using 3(1) [OF q'(2)] q' False by (simp split: option.splits)
  qed
next
  case (4 q ops)
  then show ?case by (simp add: Queue_Init_inv split: option.splits)
qed simp

section \<open>Properties\<close>

text \<open>
  C5: the chunked queue refines a plain list: after any sequence of pushes, pops and resets of a
  new queue it holds what the list holds, \<open>Len\<close> counts it, \<open>Peek\<close> shows its first message, no
  chunk is empty or longer than \<open>innerCap\<close>; and it panics exactly when a pop hits the empty list.
\<close>

theorem queue_refines_fifo:
  "case list_run [] ops of
     Some xs \<Rightarrow> \<exists>q. Queue_run NewQueue ops = Ok q \<and> Queue_items q = xs \<and> Queue_inv q \<and>
       Queue_Len q = int (length xs) \<and> Queue_Peek q = (if xs = [] then None else Some (hd xs))
   | None \<Rightarrow> \<exists>m. Queue_run NewQueue ops = Panic m"
  using Queue_run_list_run [OF queue.inv_new, of ops]
  by (auto simp: queue.items_new queue.size_items queue.peek_items split: option.splits)

end
