(* ===== verification/Zmtp_Wire.thy ===== *)
theory Zmtp_Wire
  imports Zmtp_Msg
begin

text \<open>
  The ZMTP wire format of \<^verbatim>\<open>src/protocol_zmtp.go\<close>: the 64-byte greeting, the frame flags and
  the metadata properties of the READY command.

  \<^verbatim>\<open>toTitle\<close> calls \<^verbatim>\<open>golang.org/x/text/cases\<close> and is a parameter; what the code relies on is
  \<open>title_ok\<close>: title casing keeps the length of a name, is idempotent, and changes letter case
  only. A Go map is the list of its entries in iteration order where it is iterated over, and a
  map where it is updated. A slice that is indexed up to its capacity comes with the bytes
  \<open>spare\<close> between its length and its capacity.
\<close>

section \<open>Helpers\<close>

definition sigHeader :: byte where "sigHeader = 255"
definition sigFooter :: byte where "sigFooter = 127"
definition defaultVersion :: "byte \<times> byte" where "defaultVersion = (3, 0)"
definition zmtpMsgLen :: nat where "zmtpMsgLen = 64"
definition maxInt :: nat where "maxInt = 2 ^ 63 - 1"

definition asString :: "bytes \<Rightarrow> bytes" where
  "asString s = takeWhile (\<lambda>b. b \<noteq> 0) s"

definition asBool :: "byte \<Rightarrow> bool result" where
  "asBool b = (if b = 0 then Ok False else if b = 1 then Ok True else Err errBoolCnv)"

definition hasMore :: "byte \<Rightarrow> bool" where "hasMore fl \<longleftrightarrow> fl AND 1 = 1"
definition isLong :: "byte \<Rightarrow> bool" where "isLong fl \<longleftrightarrow> fl AND 2 = 2"
definition isCommand :: "byte \<Rightarrow> bool" where "isCommand fl \<longleftrightarrow> fl AND 4 = 4"

lemmas flag_defs = hasMore_def isLong_def isCommand_def

section \<open>The greeting\<close>

record greeting =
  sHeader :: byte
  sFooter :: byte
  gVersion :: "byte \<times> byte"
  Mechanism :: bytes
  gServer :: byte

definition greeting_unmarshal :: "bytes \<Rightarrow> greeting" where
  "greeting_unmarshal data =
     \<lparr>sHeader = data ! 0, sFooter = data ! 9, gVersion = (data ! 10, data ! 11),
      Mechanism = take 20 (drop 12 data), gServer = data ! 32\<rparr>"

definition greeting_marshal :: "greeting \<Rightarrow> bytes" where
  "greeting_marshal g =
     [sHeader g] @ replicate 8 0 @ [sFooter g, fst (gVersion g), snd (gVersion g)] @
     Mechanism g @ [gServer g] @ replicate 31 0"

definition validate :: "byte \<times> byte \<Rightarrow> byte \<times> byte \<Rightarrow> bool" where
  "validate version ref =
     (if version = ref then True
      else if fst version > fst ref \<or> fst version = fst ref \<and> snd version > snd ref then True
      else False)"

definition greeting_read :: "go_error \<Rightarrow> bytes \<Rightarrow> greeting result \<times> bytes" where
  "greeting_read e rx =
     (case ReadFull e zmtpMsgLen rx of
        (Ok data, rx') \<Rightarrow>
          (let g = greeting_unmarshal data in
           if sHeader g \<noteq> sigHeader
             then (Err (Wrapf ''invalid ZMTP signature header'' errGreeting), rx')
           else if sFooter g \<noteq> sigFooter
             then (Err (Wrapf ''invalid ZMTP signature footer'' errGreeting), rx')
           else if \<not> validate (gVersion g) defaultVersion
             then (Err (Wrapf ''invalid ZMTP version'' errGreeting), rx')
           else (Ok g, rx'))
      | (Err err, rx') \<Rightarrow> (Err (Wrapf ''could not read ZMTP greeting'' err), rx')
      | (Panic m, rx') \<Rightarrow> (Panic m, rx'))"

section \<open>Metadata properties\<close>

definition sysSockType :: bytes where "sysSockType = str ''Socket-Type''"
definition sysSockID :: bytes where "sysSockID = str ''Identity''"

record Property =
  pK :: bytes
  pV :: bytes

text \<open>
  \<^verbatim>\<open>Property.Read\<close> into a buffer of \<open>avail\<close> bytes. The name is copied into a slice of \<open>klen\<close>
  bytes, so a title-cased name that got longer is cut.
\<close>

definition Property_Read :: "(bytes \<Rightarrow> bytes) \<Rightarrow> Property \<Rightarrow> nat \<Rightarrow> bytes result" where
  "Property_Read toTitle prop avail =
     (let klen = length (pK prop); vlen = length (pV prop); size = 1 + klen + 4 + vlen in
      if avail < size then Panic ''slice bounds out of range''
      else Ok ([of_nat klen] @ take klen (toTitle (pK prop)) @ put_be 4 vlen @ pV prop))"

text \<open>
  \<^verbatim>\<open>Property.Write\<close> returns the property and the number of bytes it took. The checks compare
  with \<^verbatim>\<open>len(data)\<close>; the slice expressions panic beyond \<^verbatim>\<open>cap(data)\<close>.
\<close>

definition Property_Write :: "(bytes \<Rightarrow> bytes) \<Rightarrow> bytes \<Rightarrow> bytes \<Rightarrow> (Property \<times> nat) result" where
  "Property_Write toTitle spare data =
     (case data of
        [] \<Rightarrow> Panic ''index out of range''
      | b # _ \<Rightarrow>
          let klen = unat b; n = 1; full = data @ spare in
          if klen > length data then Err ErrUnexpectedEOF
          else if n + klen > length full then Panic ''slice bounds out of range''
          else
            let K = toTitle (take klen (drop n full)); n = n + klen in
            if n + 4 > length full then Panic ''slice bounds out of range''
            else
              let v = get_be (take 4 (drop n full)); n = n + 4 in
              if v > maxInt then Err errOverflow
              else if n + v > length data then Err ErrUnexpectedEOF
              else Ok (\<lparr>pK = K, pV = take v (drop n data)\<rparr>, n + v))"

lemma Property_Write_progress:
  "Property_Write toTitle spare data = Ok (prop, n) \<Longrightarrow> 0 < n \<and> n \<le> length data"
  by (auto simp: Property_Write_def Let_def simp del: take_append drop_append
      split: list.splits if_splits)

text \<open>
  \<^verbatim>\<open>Metadata.MarshalZMTP\<close> over the entries in iteration order. \<^verbatim>\<open>io.Copy\<close> lets the
  \<^verbatim>\<open>bytes.Buffer\<close> read the property into its free space: \<open>room n\<close> bytes when it holds \<open>n\<close>.
\<close>

fun Metadata_Marshal_loop ::
  "(bytes \<Rightarrow> bytes) \<Rightarrow> (nat \<Rightarrow> nat) \<Rightarrow> (bytes \<times> bytes) list \<Rightarrow> bytes set \<Rightarrow> bytes \<Rightarrow> bytes result" where
  "Metadata_Marshal_loop toTitle room [] keys buf = Ok buf"
| "Metadata_Marshal_loop toTitle room ((k, v) # md) keys buf =
     (if length k = 0 then Err errEmptyAppMDKey
      else
        let key = ToLower k in
        if key \<in> keys then Err errDupAppMDKey
        else
          let prop = (if k = sysSockID \<or> k = sysSockType then \<lparr>pK = k, pV = v\<rparr>
                      else \<lparr>pK = str ''X-'' @ key, pV = v\<rparr>) in
          and_then (Property_Read toTitle prop (room (length buf)))
            (\<lambda>data. Metadata_Marshal_loop toTitle room md (insert key keys) (buf @ data)))"

definition Metadata_MarshalZMTP ::
  "(bytes \<Rightarrow> bytes) \<Rightarrow> (nat \<Rightarrow> nat) \<Rightarrow> (bytes \<times> bytes) list \<Rightarrow> bytes result" where
  "Metadata_MarshalZMTP toTitle room md = Metadata_Marshal_loop toTitle room md {} []"

function Metadata_UnmarshalZMTP ::
  "(bytes \<Rightarrow> bytes) \<Rightarrow> bytes \<Rightarrow> bytes \<Rightarrow> (bytes \<rightharpoonup> bytes) \<Rightarrow> (bytes \<rightharpoonup> bytes) result" where
  "Metadata_UnmarshalZMTP toTitle spare p md =
     (if p = [] then Ok md
      else
        case Property_Write toTitle spare p of
          Ok (kv, n) \<Rightarrow>
            Metadata_UnmarshalZMTP toTitle spare (drop n p) (md(toTitle (pK kv) \<mapsto> pV kv))
        | Err e \<Rightarrow> Err e
        | Panic m \<Rightarrow> Panic m)"
  by pat_completeness auto
termination
  by (relation "measure (\<lambda>(t, s, p, md). length p)") (auto dest!: Property_Write_progress)

declare Metadata_UnmarshalZMTP.simps [simp del]

section \<open>Lemmas\<close>

lemma asString_padded: "0 \<notin> set s \<Longrightarrow> asString (s @ replicate n 0) = s"
  by (induction s) (auto simp: asString_def)

lemma length_greeting_marshal [simp]:
  "length (Mechanism g) = 20 \<Longrightarrow> length (greeting_marshal g) = 64"
  by (simp add: greeting_marshal_def)

lemma greeting_unmarshal_marshal [simp]:
  assumes "length (Mechanism g) = 20"
  shows "greeting_unmarshal (greeting_marshal g) = g"
proof -
  have [simp]: "replicate 8 (0 :: byte) = [0, 0, 0, 0, 0, 0, 0, 0]"
    by (simp add: numeral_eq_Suc)
  have "(s @ x # r) ! 32 = x" if "length s = 32" for s r and x :: byte
    using that by (simp add: nth_append)
  from this [of "[sHeader g] @ replicate 8 0 @ [sFooter g, fst (gVersion g), snd (gVersion g)] @ Mechanism g"]
  have "greeting_marshal g ! 32 = gServer g"
    using assms by (simp add: greeting_marshal_def)
  then show ?thesis
    using assms by (cases g) (simp add: greeting_unmarshal_def greeting_marshal_def)
qed

lemma validate_iff:
  "validate v ref \<longleftrightarrow> fst ref < fst v \<or> fst ref = fst v \<and> snd ref \<le> snd v"
  by (cases v; cases ref) (auto simp: validate_def)

definition greeting_ok :: "greeting \<Rightarrow> bool" where
  "greeting_ok g \<longleftrightarrow>
     sHeader g = 255 \<and> sFooter g = 127 \<and> 3 \<le> fst (gVersion g) \<and> length (Mechanism g) = 20"

lemma validate_default: "validate v defaultVersion \<longleftrightarrow> 3 \<le> fst v"
  by (cases v) (auto simp: validate_iff defaultVersion_def)

lemma greeting_read_Ok_iff:
  "greeting_read e rx = (Ok g, rest) \<longleftrightarrow>
   64 \<le> length rx \<and> rest = drop 64 rx \<and> g = greeting_unmarshal (take 64 rx) \<and> greeting_ok g"
  by (auto simp: greeting_read_def ReadFull_def zmtpMsgLen_def greeting_ok_def validate_default Let_def
      sigHeader_def sigFooter_def greeting_unmarshal_def split: if_splits)

subsection \<open>Metadata\<close>

text \<open>What the code relies on from the title casing of a name.\<close>

definition title_ok :: "(bytes \<Rightarrow> bytes) \<Rightarrow> bytes \<Rightarrow> bool" where
  "title_ok toTitle s \<longleftrightarrow>
     length (toTitle s) = length s \<and> toTitle (toTitle s) = toTitle s \<and> ToLower (toTitle s) = ToLower s"

text \<open>The name under which an entry is written, before title casing.\<close>

definition wire_name :: "bytes \<Rightarrow> bytes" where
  "wire_name k = (if k = sysSockID \<or> k = sysSockType then k else str ''X-'' @ ToLower k)"

definition put_property :: "(bytes \<Rightarrow> bytes) \<Rightarrow> bytes \<times> bytes \<Rightarrow> bytes" where
  "put_property toTitle kv =
     [of_nat (length (wire_name (fst kv)))] @ toTitle (wire_name (fst kv)) @
     put_be 4 (length (snd kv)) @ snd kv"

definition entry_ok :: "(bytes \<Rightarrow> bytes) \<Rightarrow> bytes \<times> bytes \<Rightarrow> bool" where
  "entry_ok toTitle kv \<longleftrightarrow>
     fst kv \<noteq> [] \<and> title_ok toTitle (wire_name (fst kv)) \<and>
     length (wire_name (fst kv)) \<le> 255 \<and> length (snd kv) < 2 ^ 32"

definition entry_size :: "bytes \<times> bytes \<Rightarrow> nat" where
  "entry_size kv = 1 + length (wire_name (fst kv)) + 4 + length (snd kv)"

lemma Property_Write_put:
  assumes "entry_ok toTitle kv"
  shows "Property_Write toTitle spare (put_property toTitle kv @ rest) =
    Ok (\<lparr>pK = toTitle (wire_name (fst kv)), pV = snd kv\<rparr>, entry_size kv)"
proof -
  have [simp]: "drop (5 + n) (b # s) = drop (4 + n) s" for n and b :: byte and s
    by (simp add: numeral_eq_Suc)
  show ?thesis using assms
    by (auto simp: Property_Write_def put_property_def entry_ok_def title_ok_def entry_size_def
        Let_def unat_length_byte maxInt_def)
qed

lemma length_put_property: "entry_ok toTitle kv \<Longrightarrow> length (put_property toTitle kv) = entry_size kv"
  by (simp add: put_property_def entry_ok_def title_ok_def entry_size_def)

definition enter :: "(bytes \<Rightarrow> bytes) \<Rightarrow> (bytes \<rightharpoonup> bytes) \<Rightarrow> bytes \<times> bytes \<Rightarrow> (bytes \<rightharpoonup> bytes)" where
  "enter toTitle md kv = md(toTitle (wire_name (fst kv)) \<mapsto> snd kv)"

definition received :: "(bytes \<Rightarrow> bytes) \<Rightarrow> (bytes \<times> bytes) list \<Rightarrow> (bytes \<rightharpoonup> bytes)" where
  "received toTitle kvs = map_of (map (\<lambda>kv. (toTitle (wire_name (fst kv)), snd kv)) kvs)"

lemma Metadata_UnmarshalZMTP_put:
  assumes "list_all (entry_ok toTitle) kvs"
  shows "Metadata_UnmarshalZMTP toTitle spare (concat (map (put_property toTitle) kvs)) md =
    Ok (foldl (enter toTitle) md kvs)"
  using assms
proof (induction kvs arbitrary: md)
  case Nil
  then show ?case by (simp add: Metadata_UnmarshalZMTP.simps)
next
  case (Cons kv kvs)
  have "put_property toTitle kv \<noteq> []" by (simp add: put_property_def)
  moreover have "md(toTitle (toTitle (wire_name (fst kv))) \<mapsto> snd kv) = enter toTitle md kv"
    using Cons.prems by (simp add: entry_ok_def title_ok_def enter_def)
  ultimately show ?case
    using Cons
    by (subst Metadata_UnmarshalZMTP.simps) (simp add: Property_Write_put length_put_property)
qed

lemma foldl_enter:
  "distinct (map (\<lambda>kv. toTitle (wire_name (fst kv))) kvs) \<Longrightarrow>
   foldl (enter toTitle) md kvs = md ++ received toTitle kvs"
proof (induction kvs arbitrary: md)
  case (Cons kv kvs)
  have "received toTitle kvs (toTitle (wire_name (fst kv))) = None"
    using Cons.prems by (force simp: received_def map_of_eq_None_iff)
  then have "enter toTitle md kv ++ received toTitle kvs = md ++ received toTitle (kv # kvs)"
    by (auto simp: enter_def received_def map_add_def fun_eq_iff split: option.splits)
  then show ?case using Cons by simp
qed (simp add: received_def)

lemma Metadata_Marshal_loop_put:
  assumes "list_all (entry_ok toTitle) kvs" and "list_all (\<lambda>kv. entry_size kv \<le> 512) kvs"
    and "\<forall>n. 512 \<le> room n"
    and "distinct (map (ToLower \<circ> fst) kvs)" and "keys \<inter> (ToLower \<circ> fst) ` set kvs = {}"
  shows "Metadata_Marshal_loop toTitle room kvs keys buf =
    Ok (buf @ concat (map (put_property toTitle) kvs))"
  using assms
proof (induction kvs arbitrary: keys buf)
  case (Cons kv kvs)
  obtain k v where kv: "kv = (k, v)" by (cases kv)
  have "entry_size kv \<le> room (length buf)"
    using Cons.prems by (simp add: order_trans [of _ 512])
  then have "Property_Read toTitle \<lparr>pK = wire_name k, pV = v\<rparr> (room (length buf)) =
      Ok (put_property toTitle (k, v))"
    using Cons.prems
    by (simp add: kv Property_Read_def put_property_def entry_ok_def title_ok_def entry_size_def Let_def)
  moreover have "(if k = sysSockID \<or> k = sysSockType then \<lparr>pK = k, pV = v\<rparr>
      else \<lparr>pK = str ''X-'' @ ToLower k, pV = v\<rparr>) = \<lparr>pK = wire_name k, pV = v\<rparr>"
    by (simp add: wire_name_def)
  moreover have "k \<noteq> []" "ToLower k \<notin> keys" "insert (ToLower k) keys \<inter> (ToLower \<circ> fst) ` set kvs = {}"
    using Cons.prems by (auto simp: kv entry_ok_def)
  ultimately show ?case
    using Cons by (simp add: kv Let_def)
qed simp

lemma ToLower_append [simp]: "ToLower (s @ t) = ToLower s @ ToLower t"
  by (simp add: ToLower_def)

lemma ToLower_Cons [wire_simps]: "ToLower [] = []" "ToLower (b # s) = lower_byte b # ToLower s"
  by (simp_all add: ToLower_def)

lemma lower_byte_idem [simp]: "lower_byte (lower_byte b) = lower_byte b"
  by (auto simp: lower_byte_def word_le_nat_alt unat_word_ariths)

lemma ToLower_idem [simp]: "ToLower (ToLower s) = ToLower s"
  by (simp add: ToLower_def)

text \<open>Entries whose names differ in more than letter case keep different names on the wire.\<close>

lemma wire_name_inj:
  assumes "title_ok toTitle (wire_name k)" "title_ok toTitle (wire_name k')"
    and "toTitle (wire_name k) = toTitle (wire_name k')"
  shows "ToLower k = ToLower k'"
proof -
  have "ToLower (wire_name k) = ToLower (wire_name k')"
    using assms by (metis title_ok_def)
  then show ?thesis
    by (auto simp: wire_name_def sysSockID_def sysSockType_def wire_simps lower_byte_def
        split: if_splits)
qed

lemma distinct_wire_names:
  assumes "distinct (map (ToLower \<circ> fst) kvs)" "list_all (entry_ok toTitle) kvs"
  shows "distinct (map (\<lambda>kv. toTitle (wire_name (fst kv))) kvs)"
  using assms by (induction kvs) (auto simp: entry_ok_def list_all_iff dest!: wire_name_inj)

lemma Property_Write_no_panic:
  assumes "data \<noteq> []" "5 \<le> length spare"
  shows "(\<exists>r. Property_Write toTitle spare data = Ok r) \<or> Property_Write toTitle spare data = Err ErrUnexpectedEOF"
proof -
  have "\<not> maxInt < get_be (take 4 s)" for s
    using get_be_less_pow [of "take 4 s" 4] by (simp add: maxInt_def)
  then show ?thesis
    using assms by (auto simp: Property_Write_def Let_def simp del: take_append drop_append split: list.splits)
qed

lemma Metadata_UnmarshalZMTP_no_panic:
  assumes "5 \<le> length spare"
  shows "(\<exists>md'. Metadata_UnmarshalZMTP toTitle spare p md = Ok md') \<or>
    Metadata_UnmarshalZMTP toTitle spare p md = Err ErrUnexpectedEOF"
  using assms
proof (induction toTitle spare p md rule: Metadata_UnmarshalZMTP.induct)
  case (1 toTitle spare p md)
  show ?case
  proof (cases "p = []")
    case False
    show ?thesis
      using Property_Write_no_panic [OF False "1.prems", of toTitle]
    proof
      assume "\<exists>r. Property_Write toTitle spare p = Ok r"
      then obtain kv n where pw: "Property_Write toTitle spare p = Ok (kv, n)" by auto
      show ?thesis
        using "1.IH" [OF False pw refl "1.prems"]
        by (simp add: Metadata_UnmarshalZMTP.simps [of _ _ p] pw False fun_upd_def)
    qed (simp add: False Metadata_UnmarshalZMTP.simps)
  qed (simp add: Metadata_UnmarshalZMTP.simps)
qed


section \<open>Properties\<close>

text \<open>
  \<open>greeting.read\<close> accepts exactly the streams whose first 64 bytes carry the ZMTP signature
  and a version of at least 3.0, takes exactly these bytes, and gives back every greeting that
  \<open>greeting.write\<close> marshalled.
\<close>

theorem greeting_read_correct:
  "(greeting_read e rx = (Ok g, rest) \<longleftrightarrow>
      64 \<le> length rx \<and> rest = drop 64 rx \<and> g = greeting_unmarshal (take 64 rx) \<and>
      sHeader g = sigHeader \<and> sFooter g = sigFooter \<and> 3 \<le> fst (gVersion g)) \<and>
   (greeting_ok g \<longrightarrow> greeting_read e (greeting_marshal g @ rest) = (Ok g, rest))"
proof
  show "greeting_read e rx = (Ok g, rest) \<longleftrightarrow>
      64 \<le> length rx \<and> rest = drop 64 rx \<and> g = greeting_unmarshal (take 64 rx) \<and>
      sHeader g = sigHeader \<and> sFooter g = sigFooter \<and> 3 \<le> fst (gVersion g)"
    by (auto simp: greeting_read_Ok_iff greeting_ok_def sigHeader_def sigFooter_def greeting_unmarshal_def)
  show "greeting_ok g \<longrightarrow> greeting_read e (greeting_marshal g @ rest) = (Ok g, rest)"
    by (auto simp: greeting_read_Ok_iff greeting_ok_def)
qed

definition sample_greeting :: greeting where
  "sample_greeting =
     \<lparr>sHeader = 255, sFooter = 127, gVersion = (3, 0), Mechanism = str ''NULL'' @ replicate 16 0, gServer = 0\<rparr>"

theorem greeting_read_correct_witness:
  "greeting_read EOF (greeting_marshal sample_greeting @ [7]) = (Ok sample_greeting, [7])"
proof -
  have "greeting_ok sample_greeting"
    by (simp add: greeting_ok_def sample_greeting_def)
  then show ?thesis using greeting_read_correct [of EOF "[]" sample_greeting "[7]"] by blast
qed

text \<open>
  metadata survives the trip over the wire: entries with non-empty names that differ in
  more than letter case, written in any iteration order, marshal without error, and the peer
  reads back exactly one entry for each, under its title-cased wire name. The hypotheses are
  that title casing is \<open>title_ok\<close> on the names, that the lengths fit their fields, and that an
  entry fits the space that a \<^verbatim>\<open>bytes.Buffer\<close> guarantees to a reader (\<^verbatim>\<open>bytes.MinRead\<close> = 512).
\<close>

theorem metadata_roundtrip:
  assumes "\<forall>n. 512 \<le> room n"
    and "list_all (entry_ok toTitle) kvs" and "list_all (\<lambda>kv. entry_size kv \<le> 512) kvs"
    and "distinct (map (ToLower \<circ> fst) kvs)"
  shows "\<exists>data. Metadata_MarshalZMTP toTitle room kvs = Ok data \<and>
    Metadata_UnmarshalZMTP toTitle spare data Map.empty = Ok (received toTitle kvs) \<and>
    (\<forall>(k, v) \<in> set kvs. received toTitle kvs (toTitle (wire_name k)) = Some v)"
proof (intro exI conjI)
  have dist: "distinct (map (\<lambda>kv. toTitle (wire_name (fst kv))) kvs)"
    using assms by (intro distinct_wire_names)
  show "Metadata_MarshalZMTP toTitle room kvs = Ok (concat (map (put_property toTitle) kvs))"
    using assms by (simp add: Metadata_MarshalZMTP_def Metadata_Marshal_loop_put)
  show "Metadata_UnmarshalZMTP toTitle spare (concat (map (put_property toTitle) kvs)) Map.empty =
      Ok (received toTitle kvs)"
    using assms dist by (simp add: Metadata_UnmarshalZMTP_put foldl_enter)
  show "\<forall>(k, v) \<in> set kvs. received toTitle kvs (toTitle (wire_name k)) = Some v"
    using dist by (force simp: received_def comp_def intro!: map_of_is_SomeI)
qed

text \<open>Title casing of ASCII words separated by anything that is no letter.\<close>

definition upper_byte :: "byte \<Rightarrow> byte" where
  "upper_byte b = (if 97 \<le> b \<and> b \<le> 122 then b - 32 else b)"

fun ascii_title_from :: "bool \<Rightarrow> bytes \<Rightarrow> bytes" where
  "ascii_title_from start [] = []"
| "ascii_title_from start (b # s) =
     (if start then upper_byte b else b) #
     ascii_title_from (\<not> (97 \<le> lower_byte b \<and> lower_byte b \<le> 122)) s"

definition ascii_title :: "bytes \<Rightarrow> bytes" where
  "ascii_title s = ascii_title_from True s"

theorem metadata_roundtrip_witness:
  "\<exists>data. Metadata_MarshalZMTP ascii_title (\<lambda>_. 512)
       [(sysSockType, str ''PUSH''), (str ''My-Key'', str ''v'')] = Ok data \<and>
     Metadata_UnmarshalZMTP ascii_title [] data Map.empty =
       Ok [str ''Socket-Type'' \<mapsto> str ''PUSH'', str ''X-My-Key'' \<mapsto> str ''v'']"
proof -
  let ?kvs = "[(sysSockType, str ''PUSH''), (str ''My-Key'', str ''v'')]"
  note ev = entry_ok_def title_ok_def wire_name_def ascii_title_def upper_byte_def lower_byte_def
    sysSockType_def sysSockID_def wire_simps ToLower_def entry_size_def received_def
  have "list_all (entry_ok ascii_title) ?kvs" "list_all (\<lambda>kv. entry_size kv \<le> 512) ?kvs"
    "distinct (map (ToLower \<circ> fst) ?kvs)"
    by (simp_all add: ev)
  moreover have "received ascii_title ?kvs = [str ''Socket-Type'' \<mapsto> str ''PUSH'', str ''X-My-Key'' \<mapsto> str ''v'']"
    by (rule ext) (simp add: ev)
  ultimately show ?thesis
    using metadata_roundtrip [of "\<lambda>_. 512" ascii_title ?kvs "[]"] by auto
qed

text \<open>
  reading a peer's metadata always ends, with the entries or with
  \<^verbatim>\<open>io.ErrUnexpectedEOF\<close>, when the buffer has five bytes of spare capacity; a buffer that is
  exactly full lets a name that runs to its end index out of range, and the process panics.
\<close>

theorem Metadata_Unmarshal_panics_when_full:
  "(5 \<le> length spare \<longrightarrow>
     (\<exists>md'. Metadata_UnmarshalZMTP toTitle spare p md = Ok md') \<or>
     Metadata_UnmarshalZMTP toTitle spare p md = Err ErrUnexpectedEOF) \<and>
   Metadata_UnmarshalZMTP toTitle [] [1, 65] md = Panic ''slice bounds out of range''"
  using Metadata_UnmarshalZMTP_no_panic
  by (simp add: Metadata_UnmarshalZMTP.simps [of _ _ "[1, 65]"] Property_Write_def)

theorem Metadata_Unmarshal_panics_when_full_witness:
  "Metadata_UnmarshalZMTP ascii_title [0, 0, 0, 0, 0] [1, 65] Map.empty = Err ErrUnexpectedEOF \<and>
   Metadata_UnmarshalZMTP ascii_title [] [1, 65] Map.empty = Panic ''slice bounds out of range''"
  using Metadata_Unmarshal_panics_when_full [of "[0, 0, 0, 0, 0]" ascii_title "[1, 65]" Map.empty]
  by (simp add: Metadata_UnmarshalZMTP.simps [of _ _ "[1, 65]"] Property_Write_def get_be_def maxInt_def)

end
