(* ===== verification/Zmtp_Conn.thy ===== *)
theory Zmtp_Conn
  imports Zmtp_Wire
begin

text \<open>
  The ZMTP connection of \<^verbatim>\<open>src/protocol_conn.go\<close>: greeting, commands, message framing, and the
  closing of a connection on an I/O error.

  \<^item> \<open>net\<close> is the \<^verbatim>\<open>net.Conn\<close> below a connection: the bytes that will arrive, the error that
    a read reports after them, the bytes written so far, and the outcome of each coming \<^verbatim>\<open>Write\<close>
    (all written, or a number of bytes and an error).
  \<^item> \<open>SecOps\<close> is the dispatch table of a \<^verbatim>\<open>Security\<close> value of state \<open>'s\<close>; a method that the
    code reaches through a type assertion is an option. \<open>Encrypt\<close> and \<open>Decrypt\<close> return the bytes
    they pass to one \<^verbatim>\<open>Write\<close> of their writer.
  \<^item> \<open>Env\<close> holds the parameters: title casing, the free space of a growing \<^verbatim>\<open>bytes.Buffer\<close>,
    the spare capacity behind a received frame, the iteration order of the metadata map.

  Trace output is left out. The heartbeat callback is the list of its notifications.
\<close>

section \<open>The network below a connection\<close>

record net =
  rx :: bytes
  rx_end :: go_error
  tx :: bytes
  wplan :: "(nat \<times> go_error) option list"
  rw_closed :: bool

definition net_Write :: "bytes \<Rightarrow> net \<Rightarrow> go_error option \<times> net" where
  "net_Write p w =
     (if rw_closed w then (Some NetError, w)
      else
        case wplan w of
          [] \<Rightarrow> (None, w\<lparr>tx := tx w @ p\<rparr>)
        | None # plan \<Rightarrow> (None, w\<lparr>tx := tx w @ p, wplan := plan\<rparr>)
        | Some (n, err) # plan \<Rightarrow> (Some err, w\<lparr>tx := tx w @ take n p, wplan := plan\<rparr>))"

definition net_ReadFull :: "nat \<Rightarrow> net \<Rightarrow> bytes result \<times> net" where
  "net_ReadFull n w =
     (if rw_closed w \<and> 0 < n then (Err NetError, w)
      else let (r, rest) = ReadFull (rx_end w) n (rx w) in (r, w\<lparr>rx := rest\<rparr>))"

definition net_Close :: "net \<Rightarrow> net" where
  "net_Close w = w\<lparr>rw_closed := True\<rparr>"

section \<open>Connections\<close>

type_synonym SecurityType = bytes

definition NullSecurity :: SecurityType where "NullSecurity = str ''NULL''"
definition PlainSecurity :: SecurityType where "PlainSecurity = str ''PLAIN''"
definition CurveSecurity :: SecurityType where "CurveSecurity = str ''CURVE''"

lemmas security_types = NullSecurity_def PlainSecurity_def CurveSecurity_def

type_synonym 's crypt = "'s \<Rightarrow> bytes \<Rightarrow> (go_error + bytes) \<times> 's"

record 's SecOps =
  sType :: SecurityType
  sEncrypt :: "'s crypt"
  sDecrypt :: "'s crypt"
  sEncryptHandshakeCommand :: "(bytes \<Rightarrow> 's crypt) option"
  sEnsureMessageReadiness :: "('s \<Rightarrow> bool \<Rightarrow> go_error option) option"
  sEncryptWithFlags :: "(bool \<Rightarrow> 's crypt) option"
  sHandshakeState :: "('s \<Rightarrow> int) option"

record 's Conn =
  ctyp :: SocketType
  cid :: SocketIdentity
  rw :: net
  sec :: 's
  cServer :: bool
  Meta :: "(bytes \<times> bytes) list"
  PeerServer :: bool
  PeerMeta :: "bytes \<rightharpoonup> bytes"
  topics :: "bytes set"
  cclosed :: bool
  onCloseErrorCB :: bool
  notified :: nat
  heartbeatNotifyCB :: bool
  heartbeats :: "string list"

record Env =
  e_toTitle :: "bytes \<Rightarrow> bytes"
  e_room :: "nat \<Rightarrow> nat"
  e_spare :: "bytes \<Rightarrow> bytes"
  e_iter :: "(bytes \<times> bytes) list \<Rightarrow> (bytes \<times> bytes) list"

definition Closed :: "'s Conn \<Rightarrow> bool" where
  "Closed c = cclosed c"

definition notifyOnCloseError :: "'s Conn \<Rightarrow> 's Conn" where
  "notifyOnCloseError c = (if \<not> onCloseErrorCB c then c else c\<lparr>notified := notified c + 1\<rparr>)"

definition SetClosed :: "'s Conn \<Rightarrow> 's Conn" where
  "SetClosed c = (if \<not> cclosed c then notifyOnCloseError (c\<lparr>cclosed := True\<rparr>) else c)"

text \<open>
  \<^verbatim>\<open>checkIO\<close> closes on an error chain with \<^verbatim>\<open>io.EOF\<close>, or with a \<^verbatim>\<open>net.Error\<close> that is no timeout.
\<close>

definition checkIO :: "go_error \<Rightarrow> 's Conn \<Rightarrow> 's Conn" where
  "checkIO err c =
     (if errorsIs err EOF then SetClosed c
      else if errorsRoot err = NetError then SetClosed c
      else c)"

definition Conn_Close :: "'s Conn \<Rightarrow> 's Conn" where
  "Conn_Close c = c\<lparr>rw := net_Close (rw c)\<rparr>"

text \<open>A write to \<^verbatim>\<open>c.rw\<close> and the check of its error.\<close>

definition rw_Write :: "bytes \<Rightarrow> 's Conn \<Rightarrow> go_error option \<times> 's Conn" where
  "rw_Write p c =
     (let (err, w) = net_Write p (rw c); c = c\<lparr>rw := w\<rparr> in
      case err of None \<Rightarrow> (None, c) | Some e \<Rightarrow> (Some e, checkIO e c))"

text \<open>\<^verbatim>\<open>io.ReadFull(c.rw, ...)\<close> and the check of its error.\<close>

definition rw_ReadFull :: "nat \<Rightarrow> 's Conn \<Rightarrow> bytes result \<times> 's Conn" where
  "rw_ReadFull n c =
     (let (r, w) = net_ReadFull n (rw c); c = c\<lparr>rw := w\<rparr> in
      case r of Err e \<Rightarrow> (Err e, checkIO e c) | _ \<Rightarrow> (r, c))"

definition Conn_Write :: "bytes \<Rightarrow> 's Conn \<Rightarrow> go_error option \<times> 's Conn" where
  "Conn_Write p c = (if Closed c then (Some ErrClosedConn, c) else rw_Write p c)"

definition Conn_Read :: "nat \<Rightarrow> 's Conn \<Rightarrow> bytes result \<times> 's Conn" where
  "Conn_Read n c = (if Closed c then (Err ErrClosedConn, c) else rw_ReadFull n c)"

section \<open>Sending\<close>

definition frame_header :: "byte \<Rightarrow> nat \<Rightarrow> bytes" where
  "frame_header flag n = (if n > 255 then [flag] @ put_be 8 n else [flag, of_nat n])"

text \<open>An encrypting method that writes to \<^verbatim>\<open>c.rw\<close>, and the check of its error.\<close>

definition crypt_to :: "'s crypt \<Rightarrow> bytes \<Rightarrow> 's Conn \<Rightarrow> go_error option \<times> 's Conn" where
  "crypt_to f body c =
     (case f (sec c) body of
        (Inl e, s) \<Rightarrow> (Some e, checkIO e (c\<lparr>sec := s\<rparr>))
      | (Inr out, s) \<Rightarrow> rw_Write out (c\<lparr>sec := s\<rparr>))"

definition send :: "'s SecOps \<Rightarrow> bool \<Rightarrow> bytes \<Rightarrow> byte \<Rightarrow> 's Conn \<Rightarrow> go_error option \<times> 's Conn" where
  "send ops command body flag c =
     (let curve = (sType ops = CurveSecurity);
          ready = (if curve \<and> \<not> command then
                     (case sEnsureMessageReadiness ops of Some f \<Rightarrow> f (sec c) (Closed c) | None \<Rightarrow> None)
                   else None) in
      case ready of
        Some err \<Rightarrow> (Some (Wrapf ''zmq4: CURVE MESSAGE readiness check failed'' err), checkIO err c)
      | None \<Rightarrow>
          let size = (if curve \<and> \<not> command \<and> length body > 0 then length body + 25 else length body);
              flag = (if size > 255 then flag XOR 2 else flag);
              flag = (if command then flag XOR 4 else flag) in
          case rw_Write (frame_header flag size) c of
            (Some err, c) \<Rightarrow> (Some err, c)
          | (None, c) \<Rightarrow>
              if curve \<and> \<not> command \<and> length body > 0 then
                let hasMore = (flag AND 1 \<noteq> 0) in
                (case sEncryptWithFlags ops of
                   Some f \<Rightarrow> crypt_to (f hasMore) body c
                 | None \<Rightarrow> crypt_to (sEncrypt ops) body c)
              else if length body = 0 then (None, c)
              else crypt_to (sEncrypt ops) body c)"

definition isCurveHandshakeCommand :: "bytes \<Rightarrow> bool" where
  "isCurveHandshakeCommand name \<longleftrightarrow>
     name = CmdHello \<or> name = CmdWelcome \<or> name = CmdInitiate \<or> name = CmdReady"

definition sendWithCurveHandshakeEncryption ::
  "(bytes \<Rightarrow> 's crypt) \<Rightarrow> bytes \<Rightarrow> bytes \<Rightarrow> 's Conn \<Rightarrow> go_error option \<times> 's Conn" where
  "sendWithCurveHandshakeEncryption curveSec name body c =
     (let size = length body;
          flag = (if size > 255 then 0 XOR 2 else 0);
          flag = flag XOR 4 in
      case rw_Write (frame_header flag size) c of
        (Some err, c) \<Rightarrow> (Some err, c)
      | (None, c) \<Rightarrow> crypt_to (curveSec name) body c)"

definition sendCmd :: "'s SecOps \<Rightarrow> bytes \<Rightarrow> bytes \<Rightarrow> 's Conn \<Rightarrow> go_error option \<times> 's Conn" where
  "sendCmd ops name body c =
     (let plain = (case marshalZMTP \<lparr>cmdName = name, cmdBody = body\<rparr> of
                     Ok buf \<Rightarrow> send ops True buf 0 c
                   | Err e \<Rightarrow> (Some e, c)
                   | Panic m \<Rightarrow> (Some (Errorf m), c)) in
      if sType ops = CurveSecurity \<and> isCurveHandshakeCommand name then
        case sEncryptHandshakeCommand ops of
          Some f \<Rightarrow> sendWithCurveHandshakeEncryption f name body c
        | None \<Rightarrow> plain
      else plain)"

definition SendCmd :: "'s SecOps \<Rightarrow> bytes \<Rightarrow> bytes \<Rightarrow> 's Conn \<Rightarrow> go_error option \<times> 's Conn" where
  "SendCmd ops name body c =
     (if Closed c then (Some ErrClosedConn, c) else sendCmd ops name body c)"

text \<open>
  The loop of \<^verbatim>\<open>SendMsg\<close> over the frames from index \<open>i\<close>; a frame that is not the last one
  carries the more flag.
\<close>

fun SendMsg_loop :: "'s SecOps \<Rightarrow> frames \<Rightarrow> 's Conn \<Rightarrow> go_error option \<times> 's Conn" where
  "SendMsg_loop ops [] c = (None, c)"
| "SendMsg_loop ops (frame # fs) c =
     (let flag = (if fs \<noteq> [] then 0 XOR 1 else 0) in
      case send ops False frame flag c of
        (Some err, c) \<Rightarrow> (Some (Wrapf ''zmq4: error sending frame'' err), c)
      | (None, c) \<Rightarrow> SendMsg_loop ops fs c)"

text \<open>
  \<^verbatim>\<open>sendMulti\<close> first builds all buffers, then writes them; an encryption error leaves before
  anything is written. \<^verbatim>\<open>net.Buffers.WriteTo\<close> writes one buffer after the other.
\<close>

fun sendMulti_build :: "'s SecOps \<Rightarrow> frames \<Rightarrow> 's \<Rightarrow> (go_error + bytes list) \<times> 's" where
  "sendMulti_build ops [] s = (Inr [], s)"
| "sendMulti_build ops (frame # fs) s =
     (let flag = (if fs \<noteq> [] then 0 XOR 1 else 0);
          size = length frame;
          flag = (if size > 255 then flag XOR 2 else flag);
          (enc, s) = (if sType ops = NullSecurity then (Inr frame, s) else sEncrypt ops s frame) in
      case enc of
        Inl e \<Rightarrow> (Inl e, s)
      | Inr out \<Rightarrow>
          (case sendMulti_build ops fs s of
             (Inl e, s) \<Rightarrow> (Inl e, s)
           | (Inr buffers, s) \<Rightarrow> (Inr ([frame_header flag size, out] @ buffers), s)))"

fun Buffers_WriteTo :: "bytes list \<Rightarrow> 's Conn \<Rightarrow> go_error option \<times> 's Conn" where
  "Buffers_WriteTo [] c = (None, c)"
| "Buffers_WriteTo (b # bs) c =
     (case rw_Write b c of (Some err, c) \<Rightarrow> (Some err, c) | (None, c) \<Rightarrow> Buffers_WriteTo bs c)"

definition sendMulti :: "'s SecOps \<Rightarrow> Msg \<Rightarrow> 's Conn \<Rightarrow> go_error option \<times> 's Conn" where
  "sendMulti ops msg c =
     (case sendMulti_build ops (Frames msg) (sec c) of
        (Inl e, s) \<Rightarrow> (Some e, c\<lparr>sec := s\<rparr>)
      | (Inr buffers, s) \<Rightarrow> Buffers_WriteTo buffers (c\<lparr>sec := s\<rparr>))"

definition SendMsg :: "'s SecOps \<Rightarrow> Msg \<Rightarrow> 's Conn \<Rightarrow> go_error option \<times> 's Conn" where
  "SendMsg ops msg c =
     (if Closed c then (Some ErrClosedConn, c)
      else if multipart msg then sendMulti ops msg c
      else SendMsg_loop ops (Frames msg) c)"

section \<open>Receiving\<close>

definition maxInt64 :: nat where "maxInt64 = 2 ^ 63 - 1"

text \<open>The largest allocation of the Go run time on a 64-bit platform; \<^verbatim>\<open>make\<close> panics above it.\<close>

definition maxAlloc :: nat where "maxAlloc = 2 ^ 48"

definition isCurveHandshake :: "'s SecOps \<Rightarrow> 's Conn \<Rightarrow> bool" where
  "isCurveHandshake ops c =
     (if sType ops \<noteq> CurveSecurity then False
      else case sHandshakeState ops of Some f \<Rightarrow> f (sec c) < 5 | None \<Rightarrow> True)"

text \<open>
  One round of the loop of \<^verbatim>\<open>read\<close>: the frame, its more flag, and whether one of the frames
  so far was a command.
\<close>

definition read_size :: "byte \<Rightarrow> byte \<Rightarrow> 's Conn \<Rightarrow> nat result \<times> 's Conn" where
  "read_size fl b c =
     (if isLong fl then sbind (rw_ReadFull 7 c) (\<lambda>longHdr c. (Ok (get_be (b # longHdr)), c))
      else (Ok (unat b), c))"

definition read_frame :: "'s SecOps \<Rightarrow> bool \<Rightarrow> 's Conn \<Rightarrow> (bytes \<times> bool \<times> bool) result \<times> 's Conn" where
  "read_frame ops cmdSeen c =
     sbind (rw_ReadFull 2 c) (\<lambda>header c.
       let fl = header ! 0; hasM = hasMore fl; cmdSeen = (cmdSeen \<or> isCommand fl) in
       sbind (read_size fl (header ! 1) c) (\<lambda>size c.
         if size > maxInt64 then (Err errOverflow, c)
         else if size > maxAlloc then (Panic ''makeslice: len out of range'', c)
         else
           sbind (rw_ReadFull size c) (\<lambda>body c.
             if sType ops = NullSecurity then (Ok (body, hasM, cmdSeen), c)
             else if sType ops = CurveSecurity \<and> cmdSeen \<and> isCurveHandshake ops c
               then (Ok (body, hasM, cmdSeen), c)
             else
               case sDecrypt ops (sec c) body of
                 (Inl e, s) \<Rightarrow> (Err e, c\<lparr>sec := s\<rparr>)
               | (Inr buf, s) \<Rightarrow> (Ok (buf, hasM, cmdSeen), c\<lparr>sec := s\<rparr>))))"

lemma checkIO_rw [simp]: "rw (checkIO e c) = rw c"
  by (simp add: checkIO_def SetClosed_def notifyOnCloseError_def)

lemma rw_ReadFull_rx: "rw_ReadFull n c = (Ok b, c') \<Longrightarrow> length (rx (rw c')) + n = length (rx (rw c))"
  by (auto simp: rw_ReadFull_def net_ReadFull_def ReadFull_def Let_def split: if_splits)

lemma read_size_rx: "read_size fl b c = (Ok n, c') \<Longrightarrow> length (rx (rw c')) \<le> length (rx (rw c))"
  by (auto simp: read_size_def sbind_Ok_iff split: if_splits dest!: rw_ReadFull_rx)

lemma read_frame_progress:
  "read_frame ops cmdSeen c = (Ok r, c') \<Longrightarrow> length (rx (rw c')) < length (rx (rw c))"
  by (auto simp: read_frame_def sbind_Ok_iff Let_def split: if_splits prod.splits sum.splits
      dest!: rw_ReadFull_rx read_size_rx)

function read_loop :: "'s SecOps \<Rightarrow> Msg \<Rightarrow> bool \<Rightarrow> 's Conn \<Rightarrow> Msg result \<times> 's Conn" where
  "read_loop ops msg cmdSeen c =
     (case read_frame ops cmdSeen c of
        (Err e, c) \<Rightarrow> (Ok (msg\<lparr>msgErr := Some e\<rparr>), c)
      | (Panic m, c) \<Rightarrow> (Panic m, c)
      | (Ok (frame, hasM, cmdSeen), c) \<Rightarrow>
          let msg = msg\<lparr>Frames := Frames msg @ [frame]\<rparr> in
          if hasM then read_loop ops msg cmdSeen c
          else (Ok (if cmdSeen then msg\<lparr>msgType := CmdMsg\<rparr> else msg), c))"
  by pat_completeness auto
termination
  by (relation "measure (\<lambda>(ops, msg, cmdSeen, c). length (rx (rw c)))") (auto dest: read_frame_progress [OF sym])

declare read_loop.simps [simp del]

definition Conn_read :: "'s SecOps \<Rightarrow> 's Conn \<Rightarrow> Msg result \<times> 's Conn" where
  "Conn_read ops c = read_loop ops zeroMsg False c"

definition heartbeat_notify :: "string \<Rightarrow> 's Conn \<Rightarrow> 's Conn" where
  "heartbeat_notify updateType c =
     (if heartbeatNotifyCB c then c\<lparr>heartbeats := heartbeats c @ [updateType]\<rparr> else c)"

definition pong_body :: "bytes \<Rightarrow> bytes" where
  "pong_body body =
     (if length body \<ge> 2 then
        if length body > 2 then
          let context = drop 2 body in if length context \<le> 16 then context else []
        else []
      else [])"

text \<open>
  \<^verbatim>\<open>RecvMsg\<close> returns the message and the error value, so a message can come with an error.
\<close>

definition RecvMsg :: "'s SecOps \<Rightarrow> 's Conn \<Rightarrow> (Msg \<times> go_error option) result \<times> 's Conn" where
  "RecvMsg ops c =
     (if Closed c then (Ok (zeroMsg, Some ErrClosedConn), c)
      else
        sbind (Conn_read ops (heartbeat_notify ''activity'' c)) (\<lambda>msg c.
          case msgErr msg of
            Some e \<Rightarrow> (Ok (msg, Some (Wrapf ''zmq4: could not read recv msg'' e)), c)
          | None \<Rightarrow>
              if \<not> isCmd msg then (Ok (msg, None), c)
              else if length (Frames msg) = 0 then
                let err = Errorf ''zmq4: empty command'' in (Ok (msg\<lparr>msgErr := Some err\<rparr>, Some err), c)
              else if length (Frames msg) \<noteq> 1 then
                let err = Errorf ''zmq4: invalid length command'' in
                (Ok (msg\<lparr>msgErr := Some err\<rparr>, Some err), c)
              else
                case unmarshalZMTP (Frames msg ! 0) of
                  Panic m \<Rightarrow> (Panic m, c)
                | Err e \<Rightarrow>
                    (Ok (msg\<lparr>msgErr := Some e\<rparr>,
                         Some (Wrapf ''zmq4: could not unmarshal ZMTP recv msg'' e)), c)
                | Ok cmd \<Rightarrow>
                    let (err, c) =
                          (if cmdName cmd = CmdPing then SendCmd ops CmdPong (pong_body (cmdBody cmd)) c
                           else if cmdName cmd = CmdPong then (None, heartbeat_notify ''pong'' c)
                           else (None, c)) in
                    case err of
                      Some e \<Rightarrow> (Ok (msg\<lparr>msgErr := Some e\<rparr>, Some e), c)
                    | None \<Rightarrow>
                        (Ok (msg\<lparr>Frames := (if length (cmdBody cmd) = 0 then [] else [cmdBody cmd])\<rparr>, None), c)))"

definition RecvCmd :: "'s SecOps \<Rightarrow> 's Conn \<Rightarrow> Cmd result \<times> 's Conn" where
  "RecvCmd ops c =
     (if Closed c then (Err ErrClosedConn, c)
      else
        sbind (Conn_read ops c) (\<lambda>msg c.
          case msgErr msg of
            Some e \<Rightarrow> (Err (Wrapf ''zmq4: could not read recv cmd'' e), c)
          | None \<Rightarrow>
              if \<not> isCmd msg then (Err ErrBadFrame, c)
              else if length (Frames msg) = 0 then (Err (Errorf ''zmq4: empty command''), c)
              else if length (Frames msg) \<noteq> 1 then (Err (Errorf ''zmq4: invalid length command''), c)
              else swrap ''zmq4: could not unmarshal ZMTP recv cmd'' (unmarshalZMTP (Frames msg ! 0), c)))"

section \<open>Subscriptions\<close>

definition subscribe :: "Msg \<Rightarrow> 's Conn \<Rightarrow> 's Conn result" where
  "subscribe msg c =
     (case Frames msg of
        [] \<Rightarrow> Panic ''index out of range''
      | [] # _ \<Rightarrow> Panic ''slice bounds out of range''
      | (v # k) # _ \<Rightarrow>
          if v = 0 then Ok (c\<lparr>topics := topics c - {k}\<rparr>)
          else if v = 1 then Ok (c\<lparr>topics := insert k (topics c)\<rparr>)
          else Ok c)"

definition HasPrefix :: "bytes \<Rightarrow> bytes \<Rightarrow> bool" where
  "HasPrefix s p \<longleftrightarrow> length p \<le> length s \<and> take (length p) s = p"

definition subscribed :: "bytes \<Rightarrow> 's Conn \<Rightarrow> bool" where
  "subscribed topic c \<longleftrightarrow> (\<exists>k \<in> topics c. k = [] \<or> HasPrefix topic k)"

section \<open>Opening\<close>

definition pad20 :: "bytes \<Rightarrow> bytes" where
  "pad20 kind = kind @ replicate (20 - length kind) 0"

definition greet :: "'s SecOps \<Rightarrow> 's Conn \<Rightarrow> unit result \<times> 's Conn" where
  "greet ops c =
     (let kind = sType ops in
      if length kind > 20 then (Err errSecMech, c)
      else
        let snd_g = \<lparr>sHeader = sigHeader, sFooter = sigFooter, gVersion = defaultVersion,
                     Mechanism = pad20 kind, gServer = 0\<rparr> in
        case rw_Write (greeting_marshal snd_g) c of
          (Some err, c) \<Rightarrow> (Err (Wrapf ''zmq4: could not send greeting'' err), c)
        | (None, c) \<Rightarrow>
            let (r, rest) = (if rw_closed (rw c) then (Err (Wrapf ''could not read ZMTP greeting'' NetError), rx (rw c))
                             else greeting_read (rx_end (rw c)) (rx (rw c)));
                c = c\<lparr>rw := (rw c)\<lparr>rx := rest\<rparr>\<rparr> in
            case r of
              Err err \<Rightarrow> (Err (Wrapf ''zmq4: could not recv greeting'' err), checkIO err c)
            | Panic m \<Rightarrow> (Panic m, c)
            | Ok recv \<Rightarrow>
                if asString (Mechanism recv) \<noteq> kind then (Err errBadSec, c)
                else
                  case asBool (gServer recv) of
                    Ok b \<Rightarrow> (Ok (), c\<lparr>PeerServer := b\<rparr>)
                  | Err e \<Rightarrow> (Err (Wrapf ''zmq4: could not get peer server flag'' e), c)
                  | Panic m \<Rightarrow> (Panic m, c))"

type_synonym 's handshake = "'s Conn \<Rightarrow> bool \<Rightarrow> unit result \<times> 's Conn"

definition Conn_init :: "'s SecOps \<Rightarrow> 's handshake \<Rightarrow> 's Conn \<Rightarrow> unit result \<times> 's Conn" where
  "Conn_init ops Handshake c =
     sbind (swrap ''zmq4: could not exchange greetings'' (greet ops c)) (\<lambda>_ c.
       sbind (swrap ''zmq4: could not perform security handshake'' (Handshake c (cServer c))) (\<lambda>_ c.
         let peer = (case PeerMeta c sysSockType of Some v \<Rightarrow> v | None \<Rightarrow> []) in
         case IsCompatible peer (ctyp c) of
           Panic m \<Rightarrow> (Panic m, c)
         | Err e \<Rightarrow> (Err e, c)
         | Ok b \<Rightarrow> if \<not> b then (Err (Errorf ''zmq4: peer not compatible''), c) else (Ok (), c)))"

definition new_Conn :: "net \<Rightarrow> 's \<Rightarrow> SocketType \<Rightarrow> SocketIdentity \<Rightarrow> bool \<Rightarrow> bool \<Rightarrow> 's Conn" where
  "new_Conn w s sockType sockID server cb =
     \<lparr>ctyp = sockType, cid = sockID, rw = w, sec = s, cServer = server,
      Meta = [(sysSockType, sockType), (sysSockID, Identity_String sockID)],
      PeerServer = False, PeerMeta = Map.empty, topics = {}, cclosed = False, onCloseErrorCB = cb,
      notified = 0, heartbeatNotifyCB = False, heartbeats = []\<rparr>"

text \<open>A nil network or security is \<open>None\<close>. The second component is the connection as \<^verbatim>\<open>Open\<close>
  leaves it; the caller gets it only when the first one is \<open>Ok\<close>.\<close>

definition Open ::
  "net option \<Rightarrow> 's SecOps \<Rightarrow> 's handshake \<Rightarrow> 's option \<Rightarrow> SocketType \<Rightarrow> SocketIdentity \<Rightarrow> bool \<Rightarrow> bool \<Rightarrow>
   unit result \<times> 's Conn option" where
  "Open w ops Handshake s sockType sockID server cb =
     (case w of
        None \<Rightarrow> (Err (Errorf ''zmq4: invalid nil read-writer''), None)
      | Some w \<Rightarrow>
          (case s of
             None \<Rightarrow> (Err (Errorf ''zmq4: invalid nil security''), None)
           | Some s \<Rightarrow>
               (case swrap ''zmq4: could not initialize ZMTP connection''
                       (Conn_init ops Handshake (new_Conn w s sockType sockID server cb)) of
                  (r, c) \<Rightarrow> (r, Some c))))"

section \<open>Lemmas: closing\<close>

lemma checkIO_fields [simp]:
  "sec (checkIO e c) = sec c" "topics (checkIO e c) = topics c" "onCloseErrorCB (checkIO e c) = onCloseErrorCB c"
  by (simp_all add: checkIO_def SetClosed_def notifyOnCloseError_def)

text \<open>A connection is closed once: the callback has run exactly when the flag is set.\<close>

definition close_inv :: "'s Conn \<Rightarrow> bool" where
  "close_inv c \<longleftrightarrow> notified c = (if cclosed c \<and> onCloseErrorCB c then 1 else 0)"

lemma SetClosed_inv: "close_inv c \<Longrightarrow> close_inv (SetClosed c)"
  by (auto simp: close_inv_def SetClosed_def notifyOnCloseError_def)

lemma checkIO_inv: "close_inv c \<Longrightarrow> close_inv (checkIO e c)"
  by (simp add: checkIO_def SetClosed_inv)

lemma close_inv_upd [simp]:
  "close_inv (c\<lparr>rw := w\<rparr>) = close_inv c" "close_inv (c\<lparr>sec := s\<rparr>) = close_inv c"
  "close_inv (c\<lparr>heartbeats := h\<rparr>) = close_inv c" "close_inv (c\<lparr>PeerServer := b\<rparr>) = close_inv c"
  "close_inv (c\<lparr>PeerMeta := m\<rparr>) = close_inv c"
  by (simp_all add: close_inv_def)

section \<open>Lemmas: framing\<close>

definition wire_flag :: "byte \<Rightarrow> bool \<Rightarrow> bool \<Rightarrow> byte" where
  "wire_flag fl long command =
     (let fl = (if long then fl XOR 2 else fl) in if command then fl XOR 4 else fl)"

definition more_flag :: "bool \<Rightarrow> byte" where
  "more_flag m = (if m then 0 XOR 1 else 0)"

lemma wire_flag_sel [simp]:
  "hasMore (wire_flag (more_flag m) l k) = m" "isLong (wire_flag (more_flag m) l k) = l"
  "isCommand (wire_flag (more_flag m) l k) = k"
  by (simp_all add: flag_defs wire_flag_def more_flag_def)

text \<open>A connection whose network takes every write.\<close>

definition up :: "'s Conn \<Rightarrow> bool" where
  "up c \<longleftrightarrow> \<not> cclosed c \<and> \<not> rw_closed (rw c) \<and> wplan (rw c) = []"

definition wrote :: "bytes \<Rightarrow> 's \<Rightarrow> 's Conn \<Rightarrow> 's Conn" where
  "wrote w s c = c\<lparr>rw := (rw c)\<lparr>tx := tx (rw c) @ w\<rparr>, sec := s\<rparr>"

definition got :: "bytes \<Rightarrow> 's \<Rightarrow> 's Conn \<Rightarrow> 's Conn" where
  "got rest t d = d\<lparr>rw := (rw d)\<lparr>rx := rest\<rparr>, sec := t\<rparr>"

lemma up_wrote [simp]: "up (wrote w s c) = up c" "sec (wrote w s c) = s"
  by (simp_all add: up_def wrote_def)

lemma wrote_wrote [simp]: "wrote w' s' (wrote w s c) = wrote (w @ w') s' c"
  by (simp add: wrote_def)

lemma wrote_Nil [simp]: "wrote [] (sec c) c = c"
  by (simp add: wrote_def)

lemma got_sel [simp]:
  "rx (rw (got rest t d)) = rest" "sec (got rest t d) = t" "rw_closed (rw (got rest t d)) = rw_closed (rw d)"
  "got rest' t' (got rest t d) = got rest' t' d" "cclosed (got rest t d) = cclosed d"
  "(got rest t d)\<lparr>sec := t'\<rparr> = got rest t' d"
  by (simp_all add: got_def)

lemma rw_Write_up: "up c \<Longrightarrow> rw_Write p c = (None, wrote p (sec c) c)"
  by (simp add: rw_Write_def net_Write_def up_def wrote_def)

lemma crypt_to_up:
  "up c \<Longrightarrow> f (sec c) body = (Inr out, s) \<Longrightarrow> crypt_to f body c = (None, wrote out s c)"
  by (simp add: crypt_to_def rw_Write_def net_Write_def up_def wrote_def)

lemma rw_ReadFull_got:
  assumes "rx (rw d) = p @ rest" "length p = n" "\<not> rw_closed (rw d)"
  shows "rw_ReadFull n d = (Ok p, got rest (sec d) d)"
  using assms by (simp add: rw_ReadFull_def net_ReadFull_def got_def)

lemma put_be_8: "put_be 8 n = of_nat (n div 256 ^ 7) # put_be 7 n"
  using put_be_Cons [of 7 n] by simp

lemma get_be_8: "n < 18446744073709551616 \<Longrightarrow> get_be (of_nat (n div 72057594037927936) # put_be 7 n) = n"
  using get_be_put_be [of 8 n] put_be_8 [of n] by simp

text \<open>The header is two bytes, followed by seven more when the frame is long.\<close>

lemma read_size_header:
  assumes "frame_header fl n = b0 # b1 # ext" "isLong fl = (n > 255)" "n < 2 ^ 64"
    and "rx (rw d) = ext @ rest" "\<not> rw_closed (rw d)"
  shows "b0 = fl \<and> read_size fl b1 d = (Ok n, got rest (sec d) d)"
proof (cases "n > 255")
  case True
  then have ext: "b0 = fl" "b1 = of_nat (n div 256 ^ 7)" "ext = put_be 7 n"
    using assms(1) by (auto simp: frame_header_def put_be_8)
  then show ?thesis
    using True assms rw_ReadFull_got [OF assms(4) _ assms(5), of 7]
    by (simp add: read_size_def get_be_8)
next
  case False
  then show ?thesis
    using assms by (auto simp: frame_header_def read_size_def unat_length_byte got_def)
qed

lemma frame_header_Cons: "\<exists>b1 ext. frame_header fl n = fl # b1 # ext"
  by (simp add: frame_header_def put_be_8)

text \<open>A writer that sends several messages, and a reader that receives \<open>n\<close> of them.\<close>

fun SendAll :: "'s SecOps \<Rightarrow> Msg list \<Rightarrow> 's Conn \<Rightarrow> go_error option \<times> 's Conn" where
  "SendAll ops [] c = (None, c)"
| "SendAll ops (msg # msgs) c =
     (case SendMsg ops msg c of (Some e, c) \<Rightarrow> (Some e, c) | (None, c) \<Rightarrow> SendAll ops msgs c)"

fun RecvAll :: "'s SecOps \<Rightarrow> nat \<Rightarrow> 's Conn \<Rightarrow> Msg list result \<times> 's Conn" where
  "RecvAll ops 0 d = (Ok [], d)"
| "RecvAll ops (Suc n) d =
     sbind (RecvMsg ops d) (\<lambda>(msg, err) d.
       case err of
         Some e \<Rightarrow> (Err e, d)
       | None \<Rightarrow> sbind (RecvAll ops n d) (\<lambda>msgs d. (Ok (msg # msgs), d)))"

definition sendable :: "Msg \<Rightarrow> bool" where
  "sendable msg \<longleftrightarrow> Frames msg \<noteq> [] \<and> list_all (\<lambda>f. length f \<le> maxAlloc) (Frames msg)"

lemma heartbeat_notify_sel [simp]:
  "rw (heartbeat_notify u d) = rw d" "sec (heartbeat_notify u d) = sec d"
  "cclosed (heartbeat_notify u d) = cclosed d" "up (heartbeat_notify u d) = up d"
  by (simp_all add: heartbeat_notify_def up_def)

section \<open>Mechanisms that keep the stream\<close>

text \<open>
  What the framing relies on from a security mechanism: encryption succeeds and keeps the length
  of a frame; the peer, whose state is kept in step by \<open>sync\<close>, decrypts it to the original, and
  leaves an empty frame empty (\<open>send\<close> does not encrypt an empty frame, but \<open>read\<close> decrypts it);
  NULL, which \<open>read\<close> and \<open>sendMulti\<close> bypass, is the identity. CURVE is excluded.
\<close>

locale stream_security =
  fixes ops :: "'s SecOps" and sync :: "'s \<Rightarrow> 's \<Rightarrow> bool"
  assumes not_curve: "sType ops \<noteq> CurveSecurity"
    and enc_dec: "sync s t \<Longrightarrow> \<exists>out s' t'. sEncrypt ops s b = (Inr out, s') \<and> length out = length b \<and>
      sDecrypt ops t out = (Inr b, t') \<and> sync s' t'"
    and dec_empty: "sync s t \<Longrightarrow> \<exists>t'. sDecrypt ops t [] = (Inr [], t') \<and> sync s t'"
    and null_id: "sType ops = NullSecurity \<Longrightarrow> sEncrypt ops s b = (Inr b, s)"
begin

text \<open>The bytes \<open>w\<close> carry the frame \<open>body\<close> under the flags \<open>fl\<close> to a peer in state \<open>t\<close>.\<close>

definition carries :: "byte \<Rightarrow> bytes \<Rightarrow> 's \<Rightarrow> 's \<Rightarrow> bytes \<Rightarrow> bool" where
  "carries fl body t t' w \<longleftrightarrow>
     (\<exists>out. w = frame_header fl (length body) @ out \<and> length out = length body \<and>
       (if sType ops = NullSecurity then out = body \<and> t' = t else sDecrypt ops t out = (Inr body, t')))"

lemma read_frame_carries:
  assumes w: "carries fl body t t' w" and fl: "isLong fl = (length body > 255)" and len: "length body \<le> maxAlloc"
    and d: "rx (rw d) = w @ rest" "\<not> rw_closed (rw d)" "sec d = t"
  shows "read_frame ops seen d = (Ok (body, hasMore fl, seen \<or> isCommand fl), got rest t' d)"
proof -
  obtain out where out: "w = frame_header fl (length body) @ out" "length out = length body"
    "if sType ops = NullSecurity then out = body \<and> t' = t else sDecrypt ops t out = (Inr body, t')"
    using w by (auto simp: carries_def)
  obtain b1 ext where hdr: "frame_header fl (length body) = fl # b1 # ext"
    using frame_header_Cons by blast
  have small: "length body < 2 ^ 64" "\<not> length body > maxInt64" "\<not> length body > maxAlloc"
    using len by (simp_all add: maxAlloc_def maxInt64_def)
  have two: "rw_ReadFull 2 d = (Ok [fl, b1], got (ext @ out @ rest) t d)"
    using rw_ReadFull_got [of d "[fl, b1]" "ext @ out @ rest" 2] d out hdr by simp
  have sz: "read_size fl b1 (got (ext @ out @ rest) t d) = (Ok (length body), got (out @ rest) t d)"
    using read_size_header [OF hdr fl small(1), of "got (ext @ out @ rest) t d" "out @ rest"] d by simp
  have bd: "rw_ReadFull (length body) (got (out @ rest) t d) = (Ok out, got rest t d)"
    using rw_ReadFull_got [of "got (out @ rest) t d" out rest] d out by simp
  show ?thesis
    using out(3) sz bd small not_curve
    by (cases "sType ops = NullSecurity") (simp_all add: read_frame_def two Let_def)
qed

lemma send_carries:
  assumes up: "up c" and sync: "sync (sec c) t"
  shows "\<exists>w s' t'. send ops k body fl c = (None, wrote w s' c) \<and>
    carries (wire_flag fl (length body > 255) k) body t t' w \<and> sync s' t'"
proof -
  let ?fl = "wire_flag fl (length body > 255) k"
  have hdr: "send ops k body fl c =
     (if length body = 0 then (None, wrote (frame_header ?fl (length body)) (sec c) c)
      else crypt_to (sEncrypt ops) body (wrote (frame_header ?fl (length body)) (sec c) c))"
    using not_curve up by (simp add: send_def rw_Write_up Let_def wire_flag_def)
  show ?thesis
  proof (cases "body = []")
    case True
    then show ?thesis
      using hdr dec_empty [OF sync] sync by (auto simp: carries_def)
  next
    case False
    obtain out s' t' where e: "sEncrypt ops (sec c) body = (Inr out, s')" "length out = length body"
      "sDecrypt ops t out = (Inr body, t')" "sync s' t'"
      using enc_dec [OF sync] by blast
    have "send ops k body fl c = (None, wrote (frame_header ?fl (length body) @ out) s' c)"
      using hdr False e up by (simp add: crypt_to_up)
    moreover have "\<exists>t''. carries ?fl body t t'' (frame_header ?fl (length body) @ out) \<and> sync s' t''"
      using e sync null_id [of "sec c" body] by (cases "sType ops = NullSecurity") (auto simp: carries_def)
    ultimately show ?thesis by blast
  qed
qed

text \<open>
  The bytes \<open>w\<close> deliver the frames \<open>fs\<close>: a reader in state \<open>t\<close> that finds them in front of
  anything else reads exactly these frames, and leaves the rest.
\<close>

definition delivers :: "frames \<Rightarrow> 's \<Rightarrow> 's \<Rightarrow> bytes \<Rightarrow> bool" where
  "delivers fs t t' w \<longleftrightarrow>
     (\<forall>d msg rest. rx (rw d) = w @ rest \<longrightarrow> \<not> rw_closed (rw d) \<longrightarrow> sec d = t \<longrightarrow>
        read_loop ops msg False d = (Ok (msg\<lparr>Frames := Frames msg @ fs\<rparr>), got rest t' d))"

lemma delivers_last:
  assumes "carries (wire_flag (more_flag False) (length f > 255) False) f t t' w" "length f \<le> maxAlloc"
  shows "delivers [f] t t' w"
  unfolding delivers_def
proof (intro allI impI)
  fix d :: "'s Conn" and msg rest assume "rx (rw d) = w @ rest" "\<not> rw_closed (rw d)" "sec d = t"
  then show "read_loop ops msg False d = (Ok (msg\<lparr>Frames := Frames msg @ [f]\<rparr>), got rest t' d)"
    using read_frame_carries [OF assms(1) _ assms(2)] by (simp add: read_loop.simps)
qed

lemma delivers_more:
  assumes "carries (wire_flag (more_flag True) (length f > 255) False) f t t' w" "length f \<le> maxAlloc"
    and "delivers fs t' t'' w'"
  shows "delivers (f # fs) t t'' (w @ w')"
  unfolding delivers_def
proof (intro allI impI)
  fix d :: "'s Conn" and msg rest assume d: "rx (rw d) = (w @ w') @ rest" "\<not> rw_closed (rw d)" "sec d = t"
  then have "read_frame ops False d = (Ok (f, True, False), got (w' @ rest) t' d)"
    using read_frame_carries [OF assms(1) _ assms(2), of d "w' @ rest" False] by simp
  then show "read_loop ops msg False d = (Ok (msg\<lparr>Frames := Frames msg @ f # fs\<rparr>), got rest t'' d)"
    using assms(3) d by (subst read_loop.simps) (simp add: delivers_def)
qed

lemma SendMsg_loop_delivers:
  assumes "fs \<noteq> []" "up c" "sync (sec c) t" "list_all (\<lambda>f. length f \<le> maxAlloc) fs"
  shows "\<exists>w s' t'. SendMsg_loop ops fs c = (None, wrote w s' c) \<and> sync s' t' \<and> delivers fs t t' w"
  using assms
proof (induction fs arbitrary: c t)
  case (Cons f fs)
  obtain w s' t' where one: "send ops False f (more_flag (fs \<noteq> [])) c = (None, wrote w s' c)"
    "carries (wire_flag (more_flag (fs \<noteq> [])) (length f > 255) False) f t t' w" "sync s' t'"
    using send_carries [OF Cons.prems(2,3)] by blast
  show ?case
  proof (cases "fs = []")
    case True
    then have "delivers [f] t t' w" "SendMsg_loop ops [f] c = (None, wrote w s' c)"
      using one delivers_last [of f t t' w] Cons.prems by (simp_all add: more_flag_def)
    then show ?thesis using one True by blast
  next
    case False
    obtain w' s'' t'' where two: "SendMsg_loop ops fs (wrote w s' c) = (None, wrote w' s'' (wrote w s' c))"
      "sync s'' t''" "delivers fs t' t'' w'"
      using Cons.IH [OF False, of "wrote w s' c" t'] Cons.prems one by auto
    then have "SendMsg_loop ops (f # fs) c = (None, wrote (w @ w') s'' c)"
      using one False by (simp add: more_flag_def)
    moreover have "delivers (f # fs) t t'' (w @ w')"
      using delivers_more [OF _ _ two(3)] one False Cons.prems by auto
    ultimately show ?thesis using two by blast
  qed
qed simp

lemma sendMulti_build_delivers:
  assumes "fs \<noteq> []" "sync s t" "list_all (\<lambda>f. length f \<le> maxAlloc) fs"
  shows "\<exists>bufs s' t'. sendMulti_build ops fs s = (Inr bufs, s') \<and> sync s' t' \<and> delivers fs t t' (concat bufs)"
  using assms
proof (induction fs arbitrary: s t)
  case (Cons f fs)
  let ?fl = "wire_flag (more_flag (fs \<noteq> [])) (length f > 255) False"
  obtain out s' t' where one: "(if sType ops = NullSecurity then (Inr f, s) else sEncrypt ops s f) = (Inr out, s')"
    "carries ?fl f t t' (frame_header ?fl (length f) @ out)" "sync s' t'"
    using enc_dec [OF Cons.prems(2), of f] Cons.prems(2)
    by (cases "sType ops = NullSecurity") (auto simp: carries_def)
  show ?case
  proof (cases "fs = []")
    case True
    then show ?thesis
      using one delivers_last [of f t t'] Cons.prems by (auto simp: more_flag_def wire_flag_def Let_def)
  next
    case False
    obtain bufs s'' t'' where two: "sendMulti_build ops fs s' = (Inr bufs, s'')" "sync s'' t''"
      "delivers fs t' t'' (concat bufs)"
      using Cons.IH [OF False one(3)] Cons.prems by auto
    have "sendMulti_build ops (f # fs) s = (Inr (frame_header ?fl (length f) # out # bufs), s'')"
      using one two by (simp add: more_flag_def wire_flag_def Let_def)
    moreover have "delivers (f # fs) t t'' (concat (frame_header ?fl (length f) # out # bufs))"
      using delivers_more [OF _ _ two(3), of f t "frame_header ?fl (length f) @ out"] one False Cons.prems by auto
    ultimately show ?thesis using two by blast
  qed
qed simp

lemma Buffers_WriteTo_up: "up c \<Longrightarrow> Buffers_WriteTo bufs c = (None, wrote (concat bufs) (sec c) c)"
  by (induction bufs arbitrary: c) (simp_all add: rw_Write_up)

lemma SendMsg_delivers:
  assumes "sendable msg" "up c" "sync (sec c) t"
  shows "\<exists>w s' t'. SendMsg ops msg c = (None, wrote w s' c) \<and> sync s' t' \<and> delivers (Frames msg) t t' w"
proof (cases "multipart msg")
  case True
  obtain bufs s' t' where b: "sendMulti_build ops (Frames msg) (sec c) = (Inr bufs, s')" "sync s' t'"
    "delivers (Frames msg) t t' (concat bufs)"
    using sendMulti_build_delivers [of "Frames msg" "sec c" t] assms by (auto simp: sendable_def)
  have "up (c\<lparr>sec := s'\<rparr>)" using assms by (simp add: up_def)
  then have "SendMsg ops msg c = (None, wrote (concat bufs) s' c)"
    using True b assms by (simp add: SendMsg_def sendMulti_def Closed_def up_def Buffers_WriteTo_up wrote_def)
  then show ?thesis using b by blast
next
  case False
  then show ?thesis
    using SendMsg_loop_delivers [of "Frames msg" c t] assms
    by (simp add: SendMsg_def Closed_def up_def sendable_def)
qed

lemma RecvMsg_delivers:
  assumes "delivers fs (sec d) t' w" "rx (rw d) = w @ rest" "\<not> rw_closed (rw d)" "\<not> cclosed d"
  shows "RecvMsg ops d = (Ok (NewMsgFrom fs, None), got rest t' (heartbeat_notify ''activity'' d))"
proof -
  have "Conn_read ops (heartbeat_notify ''activity'' d) =
      (Ok (NewMsgFrom fs), got rest t' (heartbeat_notify ''activity'' d))"
    using assms by (simp add: Conn_read_def delivers_def NewMsgFrom_def)
  then show ?thesis
    using assms by (simp add: RecvMsg_def Closed_def isCmd_def NewMsgFrom_def zeroMsg_def)
qed

definition delivers_all :: "Msg list \<Rightarrow> 's \<Rightarrow> bytes \<Rightarrow> bool" where
  "delivers_all msgs t w \<longleftrightarrow>
     (\<forall>d rest. rx (rw d) = w @ rest \<longrightarrow> \<not> rw_closed (rw d) \<longrightarrow> \<not> cclosed d \<longrightarrow> sec d = t \<longrightarrow>
       (\<exists>d'. RecvAll ops (length msgs) d = (Ok (map (\<lambda>m. NewMsgFrom (Frames m)) msgs), d') \<and>
         rx (rw d') = rest))"

lemma stream_delivered:
  assumes "list_all sendable msgs" "up c" "sync (sec c) t"
  shows "\<exists>w s'. SendAll ops msgs c = (None, wrote w s' c) \<and> delivers_all msgs t w"
  using assms
proof (induction msgs arbitrary: c t)
  case Nil
  show ?case by (rule exI [of _ "[]"], rule exI [of _ "sec c"]) (simp add: delivers_all_def)
next
  case (Cons msg msgs)
  obtain w s' t' where one: "SendMsg ops msg c = (None, wrote w s' c)" "sync s' t'"
    "delivers (Frames msg) t t' w"
    using SendMsg_delivers [of msg c t] Cons.prems by auto
  obtain w' s'' where two: "SendAll ops msgs (wrote w s' c) = (None, wrote w' s'' (wrote w s' c))"
    "delivers_all msgs t' w'"
    using Cons.IH [of "wrote w s' c" t'] Cons.prems one by auto
  have "delivers_all (msg # msgs) t (w @ w')"
    unfolding delivers_all_def
  proof (intro allI impI)
    fix d :: "'s Conn" and rest
    assume d: "rx (rw d) = (w @ w') @ rest" "\<not> rw_closed (rw d)" "\<not> cclosed d" "sec d = t"
    let ?d = "got (w' @ rest) t' (heartbeat_notify ''activity'' d)"
    have "RecvMsg ops d = (Ok (NewMsgFrom (Frames msg), None), ?d)"
      using RecvMsg_delivers [of "Frames msg" d t' w "w' @ rest"] one d by simp
    moreover obtain d' where "RecvAll ops (length msgs) ?d = (Ok (map (\<lambda>m. NewMsgFrom (Frames m)) msgs), d')"
      "rx (rw d') = rest"
      using two(2) [unfolded delivers_all_def, rule_format, of ?d rest] d by auto
    ultimately show "\<exists>d'. RecvAll ops (length (msg # msgs)) d =
        (Ok (map (\<lambda>m. NewMsgFrom (Frames m)) (msg # msgs)), d') \<and> rx (rw d') = rest"
      by simp
  qed
  then show ?case using one two by auto
qed

text \<open>A command is one frame with the command flag.\<close>

definition delivers_cmd :: "Cmd \<Rightarrow> 's \<Rightarrow> 's \<Rightarrow> bytes \<Rightarrow> bool" where
  "delivers_cmd cmd t t' w \<longleftrightarrow>
     (\<forall>d rest. rx (rw d) = w @ rest \<longrightarrow> \<not> rw_closed (rw d) \<longrightarrow> sec d = t \<longrightarrow>
        (\<exists>buf. marshalZMTP cmd = Ok buf \<and>
          Conn_read ops d = (Ok (zeroMsg\<lparr>Frames := [buf], msgType := CmdMsg\<rparr>), got rest t' d)))"

lemma SendCmd_delivers:
  assumes "up c" "sync (sec c) t" "length name \<le> 255" "length body < maxAlloc - 256"
  shows "\<exists>w s' t'. SendCmd ops name body c = (None, wrote w s' c) \<and> sync s' t' \<and>
    delivers_cmd \<lparr>cmdName = name, cmdBody = body\<rparr> t t' w"
proof -
  let ?cmd = "\<lparr>cmdName = name, cmdBody = body\<rparr>"
  obtain buf where buf: "marshalZMTP ?cmd = Ok buf" "length buf \<le> maxAlloc"
    using assms by (auto simp: marshalZMTP_def Let_def maxAlloc_def)
  obtain w s' t' where one: "send ops True buf (more_flag False) c = (None, wrote w s' c)"
    "carries (wire_flag (more_flag False) (length buf > 255) True) buf t t' w" "sync s' t'"
    using send_carries [OF assms(1,2)] by blast
  have "delivers_cmd ?cmd t t' w"
    unfolding delivers_cmd_def
  proof (intro allI impI exI conjI)
    fix d :: "'s Conn" and rest
    assume "rx (rw d) = w @ rest" "\<not> rw_closed (rw d)" "sec d = t"
    then show "Conn_read ops d = (Ok (zeroMsg\<lparr>Frames := [buf], msgType := CmdMsg\<rparr>), got rest t' d)"
      using read_frame_carries [OF one(2) _ buf(2), of d rest False]
      by (simp add: Conn_read_def read_loop.simps)
  qed (rule buf)
  moreover have "SendCmd ops name body c = (None, wrote w s' c)"
    using one buf not_curve assms by (simp add: SendCmd_def sendCmd_def Closed_def up_def more_flag_def)
  ultimately show ?thesis using one by blast
qed

lemma RecvCmd_delivers:
  assumes "delivers_cmd cmd (sec d) t' w" "rx (rw d) = w @ rest" "\<not> rw_closed (rw d)" "\<not> cclosed d"
  shows "RecvCmd ops d = (Ok cmd, got rest t' d)"
proof -
  obtain buf where "marshalZMTP cmd = Ok buf"
    "Conn_read ops d = (Ok (zeroMsg\<lparr>Frames := [buf], msgType := CmdMsg\<rparr>), got rest t' d)"
    using assms unfolding delivers_cmd_def by blast
  then show ?thesis
    using assms unmarshalZMTP_marshalZMTP [of cmd buf]
    by (simp add: RecvCmd_def Closed_def isCmd_def)
qed

text \<open>A PING with a context of at most 16 bytes is answered with a PONG that carries it.\<close>

lemma RecvMsg_ping:
  assumes "delivers_cmd \<lparr>cmdName = CmdPing, cmdBody = ttl @ context\<rparr> (sec d) t' w"
    and "length ttl = 2" "length context \<le> 16"
    and d: "rx (rw d) = w @ rest" "\<not> rw_closed (rw d)" "\<not> cclosed d"
    and pong: "SendCmd ops CmdPong context (got rest t' (heartbeat_notify ''activity'' d)) = (None, d')"
  shows "RecvMsg ops d = (Ok (zeroMsg\<lparr>Frames := [ttl @ context], msgType := CmdMsg\<rparr>, None), d')"
proof -
  obtain buf where buf: "marshalZMTP \<lparr>cmdName = CmdPing, cmdBody = ttl @ context\<rparr> = Ok buf"
    "Conn_read ops (heartbeat_notify ''activity'' d) = (Ok (zeroMsg\<lparr>Frames := [buf], msgType := CmdMsg\<rparr>),
       got rest t' (heartbeat_notify ''activity'' d))"
    using assms(1) d unfolding delivers_cmd_def by (metis heartbeat_notify_sel(1,2))
  moreover have "pong_body (ttl @ context) = context"
    using assms(2,3) by (auto simp: pong_body_def Let_def)
  ultimately show ?thesis
    using d pong assms(2) unmarshalZMTP_marshalZMTP [OF buf(1)]
    by (auto simp: RecvMsg_def Closed_def isCmd_def)
qed

end

section \<open>Lemmas: every operation keeps the closing discipline\<close>

definition keeps :: "'s Conn \<Rightarrow> 's Conn \<Rightarrow> bool" where
  "keeps c c' \<longleftrightarrow>
     (close_inv c \<longrightarrow> close_inv c') \<and> (cclosed c \<longrightarrow> cclosed c') \<and> onCloseErrorCB c' = onCloseErrorCB c"

named_theorems keeps_rules "operations that keep the closing discipline"

lemma keeps_refl [keeps_rules]: "keeps c c"
  by (simp add: keeps_def)

lemma keeps_trans: "keeps c c' \<Longrightarrow> keeps c' c'' \<Longrightarrow> keeps c c''"
  by (simp add: keeps_def)

lemma keeps_upd [simp]:
  "keeps c (c'\<lparr>rw := w\<rparr>) = keeps c c'" "keeps c (c'\<lparr>sec := s\<rparr>) = keeps c c'"
  "keeps c (c'\<lparr>heartbeats := h\<rparr>) = keeps c c'" "keeps c (c'\<lparr>PeerServer := b\<rparr>) = keeps c c'"
  "keeps c (c'\<lparr>PeerMeta := m\<rparr>) = keeps c c'" "keeps (c\<lparr>sec := s\<rparr>) c' = keeps c c'"
  by (simp_all add: keeps_def)

lemma keeps_checkIO: "keeps c c' \<Longrightarrow> keeps c (checkIO e c')"
  by (simp add: keeps_def checkIO_inv) (simp add: checkIO_def SetClosed_def notifyOnCloseError_def)

lemma keeps_heartbeat [keeps_rules]: "keeps c (heartbeat_notify u c)"
  by (simp add: heartbeat_notify_def keeps_refl)

lemma keeps_rw [keeps_rules]: "keeps c (snd (rw_Write p c))" "keeps c (snd (rw_ReadFull n c))"
  by (simp_all add: rw_Write_def rw_ReadFull_def Let_def keeps_checkIO keeps_refl
      split: prod.splits option.splits result.splits)

lemma keeps_crypt_to [keeps_rules]: "keeps c (snd (crypt_to f body c))"
proof -
  have "keeps c (snd (rw_Write p (c\<lparr>sec := s\<rparr>)))" for p s
    using keeps_rw(1) [of "c\<lparr>sec := s\<rparr>" p] by simp
  then show ?thesis
    by (auto simp: crypt_to_def keeps_checkIO keeps_refl split: prod.splits sum.splits)
qed

lemma keeps_after:
  assumes "keeps c (snd p)" "\<And>x. keeps (snd p) (snd (f x (snd p)))"
  shows "keeps c (snd (case p of (Some e, c) \<Rightarrow> (Some e, c) | (None, c) \<Rightarrow> f () c))"
  using assms(1) assms(2) [of "()"] by (auto split: prod.splits option.splits intro: keeps_trans)

lemma keeps_sbind:
  assumes "keeps c (snd p)" "\<And>x c. keeps c (snd (f x c))"
  shows "keeps c (snd (sbind p f))"
  using assms by (cases "(p, f)" rule: sbind.cases) (auto intro: keeps_trans)

lemma keeps_send [keeps_rules]: "keeps c (snd (send ops k body fl c))"
  unfolding send_def Let_def
  by (auto split: option.splits simp: keeps_checkIO keeps_refl
      intro!: keeps_after [where f = "\<lambda>_. _", simplified] keeps_rules)

lemma keeps_sendCmd [keeps_rules]: "keeps c (snd (sendCmd ops name body c))"
proof -
  have "keeps c (snd (sendWithCurveHandshakeEncryption f name body c))" for f
    unfolding sendWithCurveHandshakeEncryption_def Let_def
    by (intro keeps_after [where f = "\<lambda>_. _", simplified] keeps_rules)
  then show ?thesis
    by (auto simp: sendCmd_def Let_def keeps_rules split: option.splits result.splits)
qed

lemma keeps_SendCmd [keeps_rules]: "keeps c (snd (SendCmd ops name body c))"
  by (simp add: SendCmd_def keeps_rules)

lemma keeps_SendMsg_loop: "keeps c (snd (SendMsg_loop ops fs c))"
proof (induction fs arbitrary: c)
  case (Cons f fs)
  have "keeps c (snd (case p of (Some e, c) \<Rightarrow> (Some (g e), c) | (None, c) \<Rightarrow> SendMsg_loop ops fs c))"
    if "keeps c (snd p)" for p :: "go_error option \<times> 'a Conn" and g :: "go_error \<Rightarrow> go_error"
    using that Cons by (auto split: prod.splits option.splits intro: keeps_trans)
  then show ?case
    by (simp add: Let_def keeps_rules)
qed (simp add: keeps_rules)

lemma keeps_Buffers_WriteTo: "keeps c (snd (Buffers_WriteTo bufs c))"
proof (induction bufs arbitrary: c)
  case (Cons b bufs)
  then show ?case
    using keeps_after [of c "rw_Write b c" "\<lambda>_. Buffers_WriteTo bufs"] by (simp add: keeps_rules)
qed (simp add: keeps_rules)

lemma keeps_SendMsg [keeps_rules]: "keeps c (snd (SendMsg ops msg c))"
proof -
  have "keeps c (snd (Buffers_WriteTo bufs (c\<lparr>sec := s\<rparr>)))" for bufs s
    using keeps_Buffers_WriteTo [of "c\<lparr>sec := s\<rparr>" bufs] by simp
  then show ?thesis
    by (auto simp: SendMsg_def sendMulti_def keeps_rules keeps_SendMsg_loop split: prod.splits sum.splits)
qed

lemma keeps_read_size [keeps_rules]: "keeps c (snd (read_size fl b c))"
  by (auto simp: read_size_def keeps_rules intro!: keeps_sbind)

lemma keeps_read_frame [keeps_rules]: "keeps c (snd (read_frame ops k c))"
  unfolding read_frame_def Let_def
  by (intro keeps_sbind keeps_rules) (auto simp: keeps_rules split: prod.splits sum.splits intro!: keeps_sbind)

lemma keeps_read_loop: "keeps c (snd (read_loop ops msg k c))"
proof (induction ops msg k c rule: read_loop.induct)
  case (1 ops msg k c)
  show ?case
  proof (cases "read_frame ops k c")
    case (Pair r c')
    then have k: "keeps c c'" using keeps_read_frame [of c ops k] by simp
    show ?thesis
    proof (cases r)
      case (Ok x)
      obtain f m k' where x: "x = (f, m, k')" by (cases x)
      show ?thesis
        using 1 [OF Pair [symmetric] Ok x [symmetric] refl refl] k
        by (subst read_loop.simps) (auto simp: Pair Ok x Let_def intro: keeps_trans)
    qed (subst read_loop.simps, simp add: Pair k)+
  qed
qed

lemma keeps_Conn_read [keeps_rules]: "keeps c (snd (Conn_read ops c))"
  by (simp add: Conn_read_def keeps_read_loop)

lemma keeps_RecvCmd [keeps_rules]: "keeps c (snd (RecvCmd ops c))"
proof -
  have "keeps c (snd (swrap m (r, c)))" for m r and c :: "'a Conn"
    by (simp add: keeps_rules)
  then show ?thesis
    by (auto simp: RecvCmd_def Let_def keeps_rules split: option.splits intro!: keeps_sbind)
qed

lemma keeps_RecvMsg [keeps_rules]: "keeps c (snd (RecvMsg ops c))"
proof -
  have r: "keeps c (snd (Conn_read ops (heartbeat_notify u c)))" for u
    using keeps_trans [OF keeps_heartbeat keeps_Conn_read] .
  have s: "keeps c (snd (case p of (err, c) \<Rightarrow>
      case err of Some e \<Rightarrow> (f e, c) | None \<Rightarrow> (g, c)))"
    if "keeps c (snd p)" for p :: "go_error option \<times> 'a Conn" and f :: "go_error \<Rightarrow> 'b" and g and c
    using that by (auto split: prod.splits option.splits)
  show ?thesis
    unfolding RecvMsg_def Let_def
    by (auto simp: keeps_rules r split: option.splits result.splits intro!: keeps_sbind s)
qed

section \<open>Operations in sequence\<close>

datatype conn_op =
    ORead nat
  | OWrite bytes
  | OSendCmd bytes bytes
  | OSendMsg Msg
  | ORecvMsg
  | ORecvCmd
  | OSetClosed
  | OClose

fun conn_do :: "'s SecOps \<Rightarrow> 's Conn \<Rightarrow> conn_op \<Rightarrow> 's Conn" where
  "conn_do ops c (ORead n) = snd (Conn_Read n c)"
| "conn_do ops c (OWrite p) = snd (Conn_Write p c)"
| "conn_do ops c (OSendCmd name body) = snd (SendCmd ops name body c)"
| "conn_do ops c (OSendMsg msg) = snd (SendMsg ops msg c)"
| "conn_do ops c ORecvMsg = snd (RecvMsg ops c)"
| "conn_do ops c ORecvCmd = snd (RecvCmd ops c)"
| "conn_do ops c OSetClosed = SetClosed c"
| "conn_do ops c OClose = Conn_Close c"

lemma keeps_conn_do: "keeps c (conn_do ops c a)"
  by (cases a)
    (simp_all add: keeps_rules Conn_Read_def Conn_Write_def Conn_Close_def keeps_refl,
     simp add: keeps_def SetClosed_inv, simp add: SetClosed_def notifyOnCloseError_def)

definition conn_run :: "'s SecOps \<Rightarrow> 's Conn \<Rightarrow> conn_op list \<Rightarrow> 's Conn" where
  "conn_run ops c as = foldl (conn_do ops) c as"

lemma keeps_conn_run: "keeps c (foldl (conn_do ops) c as)"
  by (induction as arbitrary: c) (auto simp: keeps_rules intro: keeps_trans keeps_conn_do)

lemma closed_conn_do:
  assumes "cclosed c" "a \<noteq> OClose"
  shows "conn_do ops c a = c"
  using assms
  by (cases a) (simp_all add: Conn_Read_def Conn_Write_def SendCmd_def SendMsg_def RecvMsg_def RecvCmd_def
      Closed_def SetClosed_def)

lemma closed_conn_run:
  "cclosed c \<Longrightarrow> OClose \<notin> set as \<Longrightarrow> foldl (conn_do ops) c as = c"
  by (induction as) (auto simp: closed_conn_do)

section \<open>Lemmas: subscriptions\<close>

text \<open>The subscription commands in order, as the set of topics they leave.\<close>

fun wanted :: "(bool \<times> bytes) list \<Rightarrow> bytes \<Rightarrow> bool \<Rightarrow> bool" where
  "wanted [] k b = b"
| "wanted ((on, k') # subs) k b = wanted subs k (if k' = k then on else b)"

definition sub_msg :: "bool \<times> bytes \<Rightarrow> Msg" where
  "sub_msg sub = NewMsg ((if fst sub then 1 else 0) # snd sub)"

fun subscribe_all :: "Msg list \<Rightarrow> 's Conn \<Rightarrow> 's Conn result" where
  "subscribe_all [] c = Ok c"
| "subscribe_all (msg # msgs) c = and_then (subscribe msg c) (subscribe_all msgs)"

lemma subscribe_all_topics:
  "\<exists>c'. subscribe_all (map sub_msg subs) c = Ok c' \<and> topics c' = {k. wanted subs k (k \<in> topics c)}"
proof (induction subs arbitrary: c)
  case Nil
  show ?case by simp
next
  case (Cons sub subs)
  obtain on k' where sub: "sub = (on, k')" by (cases sub)
  let ?c = "c\<lparr>topics := if on then insert k' (topics c) else topics c - {k'}\<rparr>"
  have one: "subscribe (sub_msg sub) c = Ok ?c"
    by (simp add: sub sub_msg_def subscribe_def)
  obtain c' where c': "subscribe_all (map sub_msg subs) ?c = Ok c'"
    "topics c' = {k. wanted subs k (k \<in> topics ?c)}"
    using Cons by blast
  have "(k \<in> topics ?c) = (if k' = k then on else k \<in> topics c)" for k by simp
  then have "topics c' = {k. wanted (sub # subs) k (k \<in> topics c)}"
    using c'(2) by (simp only: sub wanted.simps)
  then show ?case using one c'(1) by simp
qed

lemma HasPrefix_iff: "HasPrefix s p \<longleftrightarrow> (\<exists>r. s = p @ r)"
  by (auto simp: HasPrefix_def intro: exI [of _ "drop (length p) s"]) (metis append_take_drop_id)

lemma subscribed_iff: "subscribed topic c \<longleftrightarrow> (\<exists>k r. k \<in> topics c \<and> topic = k @ r)"
  by (auto simp: subscribed_def HasPrefix_iff)

section \<open>Properties\<close>

text \<open>
  C6: a connection closes once. Whatever sequence of reads, writes, commands, messages and
  closes runs on a new connection, under any network behaviour, the close callback has run
  exactly once if the connection is marked closed and never otherwise; and a connection that is
  marked closed refuses everything: it reads nothing, writes nothing and does not change.
\<close>

theorem conn_closes_once:
  "notified (conn_run ops (new_Conn w s t i server cb) as) =
     (if cclosed (conn_run ops (new_Conn w s t i server cb) as) \<and> cb then 1 else 0) \<and>
   (cclosed (conn_run ops (new_Conn w s t i server cb) as) \<longrightarrow> OClose \<notin> set bs \<longrightarrow>
     conn_run ops (new_Conn w s t i server cb) (as @ bs) = conn_run ops (new_Conn w s t i server cb) as)"
proof -
  let ?c = "new_Conn w s t i server cb"
  have k: "keeps ?c (conn_run ops ?c as)"
    by (simp add: conn_run_def keeps_conn_run)
  have "close_inv ?c" by (simp add: close_inv_def new_Conn_def)
  then have "close_inv (conn_run ops ?c as)" "onCloseErrorCB (conn_run ops ?c as) = cb"
    using k by (simp_all add: keeps_def) (simp add: new_Conn_def)
  then show ?thesis
    using closed_conn_run [of "conn_run ops ?c as" bs ops] by (simp add: conn_run_def close_inv_def)
qed

text \<open>A network that has ended, and a mechanism that copies, for the examples below.\<close>

definition ended_net :: "bytes \<Rightarrow> net" where
  "ended_net bs = \<lparr>rx = bs, rx_end = EOF, tx = [], wplan = [], rw_closed = False\<rparr>"

definition copy_ops :: "unit SecOps" where
  "copy_ops = \<lparr>sType = NullSecurity, sEncrypt = (\<lambda>s b. (Inr b, s)), sDecrypt = (\<lambda>s b. (Inr b, s)),
     sEncryptHandshakeCommand = None, sEnsureMessageReadiness = None, sEncryptWithFlags = None,
     sHandshakeState = None\<rparr>"

lemma RecvMsg_read_err:
  assumes "\<not> cclosed c" "read_frame ops False (heartbeat_notify ''activity'' c) = (Err e, c')"
  shows "RecvMsg ops c = (Ok (zeroMsg\<lparr>msgErr := Some e\<rparr>, Some (Wrapf ''zmq4: could not read recv msg'' e)), c')"
  using assms by (simp add: RecvMsg_def Closed_def Conn_read_def read_loop.simps)

lemma RecvMsg_read_panic:
  assumes "\<not> cclosed c" "read_frame ops False (heartbeat_notify ''activity'' c) = (Panic m, c')"
  shows "RecvMsg ops c = (Panic m, c')"
  using assms by (simp add: RecvMsg_def Closed_def Conn_read_def read_loop.simps)

lemma RecvMsg_ended:
  assumes "\<not> cclosed c" "\<not> rw_closed (rw c)" "rx_end (rw c) = EOF" "rx (rw c) = []"
  shows "\<exists>c'. RecvMsg ops c = (Ok (zeroMsg\<lparr>msgErr := Some EOF\<rparr>, Some (Wrapf ''zmq4: could not read recv msg'' EOF)), c') \<and>
    cclosed c'"
proof -
  have "\<exists>c'. read_frame ops False (heartbeat_notify ''activity'' c) = (Err EOF, c') \<and> cclosed c'"
    using assms
    by (simp add: read_frame_def rw_ReadFull_def net_ReadFull_def Let_def checkIO_def SetClosed_def notifyOnCloseError_def)
  then show ?thesis using RecvMsg_read_err [OF assms(1)] by blast
qed

lemma RecvMsg_cut:
  assumes "\<not> cclosed c" "\<not> rw_closed (rw c)" "rx_end (rw c) = EOF" "rx (rw c) = [b]"
  shows "\<exists>c'. RecvMsg ops c = (Ok (zeroMsg\<lparr>msgErr := Some ErrUnexpectedEOF\<rparr>,
      Some (Wrapf ''zmq4: could not read recv msg'' ErrUnexpectedEOF)), c') \<and> \<not> cclosed c' \<and>
    rx (rw c') = [] \<and> rx_end (rw c') = EOF \<and> \<not> rw_closed (rw c')"
proof -
  have "\<exists>c'. read_frame ops False (heartbeat_notify ''activity'' c) = (Err ErrUnexpectedEOF, c') \<and>
      \<not> cclosed c' \<and> rx (rw c') = [] \<and> rx_end (rw c') = EOF \<and> \<not> rw_closed (rw c')"
    using assms by (simp add: read_frame_def rw_ReadFull_def net_ReadFull_def ReadFull_def Let_def checkIO_def)
  then show ?thesis using RecvMsg_read_err [OF assms(1)] by blast
qed

text \<open>A long header with a size \<open>n\<close> is all that is needed to reach the allocation.\<close>

lemma read_frame_size:
  assumes "rx (rw c) = 2 # put_be 8 n" "\<not> rw_closed (rw c)" "n < 2 ^ 64" "n > maxAlloc"
  shows "fst (read_frame ops k c) = (if n > maxInt64 then Err errOverflow else Panic ''makeslice: len out of range'')"
  using assms
  by (auto simp: read_frame_def rw_ReadFull_def net_ReadFull_def ReadFull_def read_size_def flag_defs
      put_be_8 get_be_8 Let_def)

theorem conn_closes_once_witness:
  "notified (conn_run copy_ops (new_Conn (ended_net []) () SockPull [] False True) [ORecvMsg]) = 1 \<and>
   conn_run copy_ops (new_Conn (ended_net []) () SockPull [] False True) ([ORecvMsg] @ [OWrite [1]]) =
   conn_run copy_ops (new_Conn (ended_net []) () SockPull [] False True) [ORecvMsg]"
proof -
  let ?c = "new_Conn (ended_net []) () SockPull [] False True"
  obtain c' where "snd (RecvMsg copy_ops ?c) = c'" "cclosed c'"
    using RecvMsg_ended [of ?c copy_ops] by (auto simp: new_Conn_def ended_net_def)
  then have "cclosed (conn_run copy_ops ?c [ORecvMsg])" by (simp add: conn_run_def)
  then show ?thesis
    using conn_closes_once [of copy_ops "ended_net []" "()" SockPull "[]" False True "[ORecvMsg]" "[OWrite [1]]"]
    by simp
qed

text \<open>
  when the peer goes away between messages, \<open>RecvMsg\<close> reports it and marks the connection
  closed; when the peer goes away inside a frame header, the error is
  \<^verbatim>\<open>io.ErrUnexpectedEOF\<close>, which \<open>checkIO\<close> does not count: the connection stays open, and only
  the next read closes it.
\<close>

theorem cut_frame_leaves_open:
  "(\<exists>c. RecvMsg ops (new_Conn (ended_net []) s t i server cb) =
     (Ok (zeroMsg\<lparr>msgErr := Some EOF\<rparr>, Some (Wrapf ''zmq4: could not read recv msg'' EOF)), c) \<and> cclosed c) \<and>
   (\<exists>c. RecvMsg ops (new_Conn (ended_net [b]) s t i server cb) =
     (Ok (zeroMsg\<lparr>msgErr := Some ErrUnexpectedEOF\<rparr>,
          Some (Wrapf ''zmq4: could not read recv msg'' ErrUnexpectedEOF)), c) \<and>
     \<not> cclosed c \<and> cclosed (snd (RecvMsg ops c)))"
proof
  show "\<exists>c. RecvMsg ops (new_Conn (ended_net []) s t i server cb) =
     (Ok (zeroMsg\<lparr>msgErr := Some EOF\<rparr>, Some (Wrapf ''zmq4: could not read recv msg'' EOF)), c) \<and> cclosed c"
    using RecvMsg_ended [of "new_Conn (ended_net []) s t i server cb" ops] by (simp add: new_Conn_def ended_net_def)
  obtain c where c: "RecvMsg ops (new_Conn (ended_net [b]) s t i server cb) =
     (Ok (zeroMsg\<lparr>msgErr := Some ErrUnexpectedEOF\<rparr>,
          Some (Wrapf ''zmq4: could not read recv msg'' ErrUnexpectedEOF)), c)" "\<not> cclosed c"
    "rx (rw c) = []" "rx_end (rw c) = EOF" "\<not> rw_closed (rw c)"
    using RecvMsg_cut [of "new_Conn (ended_net [b]) s t i server cb" b ops] by (auto simp: new_Conn_def ended_net_def)
  moreover have "cclosed (snd (RecvMsg ops c))"
    using RecvMsg_ended [of c ops] c by auto
  ultimately show "\<exists>c. RecvMsg ops (new_Conn (ended_net [b]) s t i server cb) =
     (Ok (zeroMsg\<lparr>msgErr := Some ErrUnexpectedEOF\<rparr>,
          Some (Wrapf ''zmq4: could not read recv msg'' ErrUnexpectedEOF)), c) \<and>
     \<not> cclosed c \<and> cclosed (snd (RecvMsg ops c))"
    by blast
qed

text \<open>
  nine bytes from a peer end the process: a long frame header whose size lies between the
  largest allocation and the largest \<^verbatim>\<open>int64\<close> passes the overflow check and makes \<^verbatim>\<open>make\<close> panic,
  for every security mechanism; a size above \<^verbatim>\<open>int64\<close> is rejected with \<open>errOverflow\<close>.
\<close>

theorem huge_frame_panics:
  "fst (RecvMsg ops (new_Conn (ended_net (2 # put_be 8 (2 ^ 56))) s t i server cb)) =
     Panic ''makeslice: len out of range'' \<and>
   fst (RecvMsg ops (new_Conn (ended_net (2 # put_be 8 (2 ^ 63))) s t i server cb)) =
     Ok (zeroMsg\<lparr>msgErr := Some errOverflow\<rparr>, Some (Wrapf ''zmq4: could not read recv msg'' errOverflow))"
proof -
  define conn where "conn n = new_Conn (ended_net (2 # put_be 8 n)) s t i server cb" for n
  have c: "\<not> cclosed (conn n)" "rx (rw (conn n)) = 2 # put_be 8 n" "\<not> rw_closed (rw (conn n))" for n
    by (simp_all add: conn_def new_Conn_def ended_net_def)
  have "fst (read_frame ops False (heartbeat_notify ''activity'' (conn (2 ^ 56)))) = Panic ''makeslice: len out of range''"
    "fst (read_frame ops False (heartbeat_notify ''activity'' (conn (2 ^ 63)))) = Err errOverflow"
    using read_frame_size [of "heartbeat_notify ''activity'' (conn (2 ^ 56))" "2 ^ 56" ops False]
      read_frame_size [of "heartbeat_notify ''activity'' (conn (2 ^ 63))" "2 ^ 63" ops False]
    by (simp_all add: c maxInt64_def maxAlloc_def)
  then show ?thesis
    using RecvMsg_read_panic [OF c(1)] RecvMsg_read_err [OF c(1)]
    unfolding conn_def [symmetric] by (metis fst_conv prod.collapse)
qed

text \<open>
  a subscriber gets a topic exactly when, of the subscribe and unsubscribe messages it sent
  in this order, the last one about some prefix of the topic is a subscription; the empty
  subscription matches everything.
\<close>

theorem subscription_prefix_semantics:
  "\<exists>c'. subscribe_all (map sub_msg subs) (new_Conn w s t i server cb) = Ok c' \<and>
     (\<forall>topic. subscribed topic c' \<longleftrightarrow> (\<exists>k r. topic = k @ r \<and> wanted subs k False))"
proof -
  have "topics (new_Conn w s t i server cb) = {}" by (simp add: new_Conn_def)
  then obtain c' where "subscribe_all (map sub_msg subs) (new_Conn w s t i server cb) = Ok c'"
    "topics c' = {k. wanted subs k False}"
    using subscribe_all_topics [of subs "new_Conn w s t i server cb"] by auto
  then show ?thesis by (auto simp: subscribed_iff)
qed

end
