(* ===== verification/Security_Mech.thy ===== *)
theory Security_Mech
  imports Zmtp_Conn "HOL-Library.Multiset"
begin

text \<open>
  The NULL mechanism (\<^verbatim>\<open>src/security.go\<close>, and its twin \<^verbatim>\<open>src/security/null/null.go\<close>) and the PLAIN
  mechanism (\<^verbatim>\<open>src/security/plain/plain.go\<close>). Both copy the stream (\<open>copy_security\<close>), so the
  framing of \<open>Zmtp_Conn\<close> delivers every message stream over them; their handshakes exchange the
  metadata of the two peers.
\<close>

section \<open>NULL\<close>

fun to_result :: "go_error option \<times> 'c \<Rightarrow> unit result \<times> 'c" where
  "to_result (None, c) = (Ok (), c)"
| "to_result (Some e, c) = (Err e, c)"

definition null_Encrypt :: "unit crypt" where "null_Encrypt s data = (Inr data, s)"
definition null_Decrypt :: "unit crypt" where "null_Decrypt s data = (Inr data, s)"

definition null_ops :: "unit SecOps" where
  "null_ops = \<lparr>sType = NullSecurity, sEncrypt = null_Encrypt, sDecrypt = null_Decrypt,
     sEncryptHandshakeCommand = None, sEnsureMessageReadiness = None, sEncryptWithFlags = None,
     sHandshakeState = None\<rparr>"

text \<open>
  The two copies of the NULL handshake differ in the prefix \<open>pfx\<close> of their error texts. A NULL
  frame is read into a buffer of exactly its size, so the metadata has no spare capacity.
\<close>

definition null_handshake_by :: "string \<Rightarrow> Env \<Rightarrow> 's SecOps \<Rightarrow> 's handshake" where
  "null_handshake_by pfx env ops c server =
     (case Metadata_MarshalZMTP (e_toTitle env) (e_room env) (e_iter env (Meta c)) of
        Panic m \<Rightarrow> (Panic m, c)
      | Err e \<Rightarrow> (Err (Wrapf (pfx @ '': could not marshal metadata'') e), c)
      | Ok raw \<Rightarrow>
          sbind (swrap (pfx @ '': could not send metadata to peer'') (to_result (SendCmd ops CmdReady raw c)))
            (\<lambda>_ c.
          sbind (swrap (pfx @ '': could not recv metadata from peer'') (RecvCmd ops c)) (\<lambda>cmd c.
            if cmdName cmd \<noteq> CmdReady then (Err ErrBadCmd, c)
            else
              case Metadata_UnmarshalZMTP (e_toTitle env) [] (cmdBody cmd) (PeerMeta c) of
                Panic m \<Rightarrow> (Panic m, c)
              | Err e \<Rightarrow> (Err (Wrapf (pfx @ '': could not unmarshal peer metadata'') e), c)
              | Ok md \<Rightarrow> (Ok (), c\<lparr>PeerMeta := md\<rparr>))))"

definition nullSecurity_Handshake :: "Env \<Rightarrow> unit handshake" where
  "nullSecurity_Handshake env = null_handshake_by ''zmq4'' env null_ops"

definition null_Handshake :: "Env \<Rightarrow> unit handshake" where
  "null_Handshake env = null_handshake_by ''security/null'' env null_ops"

section \<open>PLAIN\<close>

record plain_sec =
  user :: bytes
  pass :: bytes

definition plain_Security :: "bytes \<Rightarrow> bytes \<Rightarrow> plain_sec" where
  "plain_Security u p = \<lparr>user = u, pass = p\<rparr>"

definition plain_Encrypt :: "plain_sec crypt" where "plain_Encrypt s data = (Inr data, s)"
definition plain_Decrypt :: "plain_sec crypt" where "plain_Decrypt s data = (Inr data, s)"

definition plain_ops :: "plain_sec SecOps" where
  "plain_ops = \<lparr>sType = PlainSecurity, sEncrypt = plain_Encrypt, sDecrypt = plain_Decrypt,
     sEncryptHandshakeCommand = None, sEnsureMessageReadiness = None, sEncryptWithFlags = None,
     sHandshakeState = None\<rparr>"

definition validateHello :: "bytes \<Rightarrow> go_error option" where
  "validateHello body = None"

definition plain_unmarshal_peer ::
  "Env \<Rightarrow> bytes \<Rightarrow> plain_sec Conn \<Rightarrow> unit result \<times> plain_sec Conn" where
  "plain_unmarshal_peer env body c =
     (case Metadata_UnmarshalZMTP (e_toTitle env) (e_spare env body) body (PeerMeta c) of
        Panic m \<Rightarrow> (Panic m, c)
      | Err e \<Rightarrow> (Err (Wrapf ''security/plain: could not unmarshal peer metadata'' e), c)
      | Ok md \<Rightarrow> (Ok (), c\<lparr>PeerMeta := md\<rparr>))"

text \<open>\<^verbatim>\<open>conn.Meta.MarshalZMTP()\<close>; on an error an ERROR command with the given reason is sent.\<close>

definition plain_marshal_meta ::
  "Env \<Rightarrow> string \<Rightarrow> plain_sec Conn \<Rightarrow> bytes result \<times> plain_sec Conn" where
  "plain_marshal_meta env reason c =
     (case Metadata_MarshalZMTP (e_toTitle env) (e_room env) (e_iter env (Meta c)) of
        Panic m \<Rightarrow> (Panic m, c)
      | Err e \<Rightarrow>
          (Err (Wrapf ''security/plain: could not serialize metadata'' e),
           snd (SendCmd plain_ops CmdError (str reason) c))
      | Ok raw \<Rightarrow> (Ok raw, c))"

definition plain_server :: "Env \<Rightarrow> plain_sec Conn \<Rightarrow> unit result \<times> plain_sec Conn" where
  "plain_server env c =
     sbind (swrap ''security/plain: could not receive HELLO from client'' (RecvCmd plain_ops c)) (\<lambda>cmd c.
       if cmdName cmd \<noteq> CmdHello then (Err (Errorf ''security/plain: expected HELLO command''), c)
       else
         case validateHello (cmdBody cmd) of
           Some err \<Rightarrow>
             (Err (Wrapf ''security/plain: could not authenticate client'' err),
              snd (SendCmd plain_ops CmdError (str ''invalid'') c))
         | None \<Rightarrow>
             sbind (swrap ''security/plain: could not send WELCOME to client''
                      (to_result (SendCmd plain_ops CmdWelcome [] c))) (\<lambda>_ c.
             sbind (swrap ''security/plain: could not receive INITIATE from client'' (RecvCmd plain_ops c))
               (\<lambda>cmd c.
             sbind (plain_unmarshal_peer env (cmdBody cmd) c) (\<lambda>_ c.
             sbind (plain_marshal_meta env ''invalid'' c) (\<lambda>raw c.
             swrap ''security/plain: could not send READY to client''
               (to_result (SendCmd plain_ops CmdReady raw c)))))))"

definition plain_hello :: "plain_sec \<Rightarrow> bytes" where
  "plain_hello s = [of_nat (length (user s))] @ user s @ [of_nat (length (pass s))] @ pass s"

definition plain_client :: "Env \<Rightarrow> plain_sec Conn \<Rightarrow> unit result \<times> plain_sec Conn" where
  "plain_client env c =
     sbind (swrap ''security/plain: could not send HELLO to server''
              (to_result (SendCmd plain_ops CmdHello (plain_hello (sec c)) c))) (\<lambda>_ c.
     sbind (swrap ''security/plain: could not receive WELCOME from server'' (RecvCmd plain_ops c)) (\<lambda>cmd c.
       if cmdName cmd \<noteq> CmdWelcome then
         (Err (Errorf ''security/plain: expected a WELCOME command from server''),
          snd (SendCmd plain_ops CmdError (str ''invalid command'') c))
       else
         sbind (plain_marshal_meta env ''internal error'' c) (\<lambda>raw c.
         sbind (swrap ''security/plain: could not send INITIATE to server''
                  (to_result (SendCmd plain_ops CmdInitiate raw c))) (\<lambda>_ c.
         sbind (swrap ''security/plain: could not receive READY from server'' (RecvCmd plain_ops c)) (\<lambda>cmd c.
           if cmdName cmd \<noteq> CmdReady then
             (Err (Errorf ''security/plain: expected a READY command from server''),
              snd (SendCmd plain_ops CmdError (str ''invalid command'') c))
           else
             sbind (plain_unmarshal_peer env (cmdBody cmd) c) (\<lambda>_ c.
               (Ok (), c\<lparr>sec := (sec c)\<lparr>user := [], pass := []\<rparr>\<rparr>)))))))"

definition plain_Handshake :: "Env \<Rightarrow> plain_sec handshake" where
  "plain_Handshake env c server = (if server then plain_server env c else plain_client env c)"

section \<open>Mechanisms that copy the stream\<close>

text \<open>The frame of a command.\<close>

definition cmd_wire :: "bytes \<Rightarrow> bytes \<Rightarrow> bytes" where
  "cmd_wire name body =
     (let buf = [of_nat (length name)] @ name @ body in
      frame_header (wire_flag (more_flag False) (length buf > 255) True) (length buf) @ buf)"

definition streams :: "'s SecOps \<Rightarrow> Msg list \<Rightarrow> bool" where
  "streams ops msgs \<longleftrightarrow>
     (\<forall>c. up c \<longrightarrow>
       (\<exists>w c'. SendAll ops msgs c = (None, c') \<and> tx (rw c') = tx (rw c) @ w \<and>
         (\<forall>d rest. rx (rw d) = w @ rest \<longrightarrow> \<not> rw_closed (rw d) \<longrightarrow> \<not> cclosed d \<longrightarrow>
           (\<exists>d'. RecvAll ops (length msgs) d = (Ok (map (\<lambda>m. NewMsgFrom (Frames m)) msgs), d') \<and>
             rx (rw d') = rest))))"

locale copy_security =
  fixes ops :: "'s SecOps"
  assumes copy_not_curve: "sType ops \<noteq> CurveSecurity"
    and copy_enc: "sEncrypt ops s b = (Inr b, s)"
    and copy_dec: "sDecrypt ops s b = (Inr b, s)"

sublocale copy_security \<subseteq> stream_security ops "\<lambda>s t. True"
  by unfold_locales (simp_all add: copy_not_curve copy_enc copy_dec)

context copy_security
begin

lemma copy_carries: "carries fl body t t (frame_header fl (length body) @ body)"
  by (simp add: carries_def copy_dec)

lemma SendCmd_copy:
  assumes "up c" "length name \<le> 255"
  shows "SendCmd ops name body c = (None, wrote (cmd_wire name body) (sec c) c)"
proof -
  have "crypt_to (sEncrypt ops) p c = (None, wrote p (sec c) c)" if "up c" for p and c :: "'s Conn"
    using crypt_to_up [OF that copy_enc] .
  then show ?thesis
    using assms copy_not_curve
    by (simp add: SendCmd_def sendCmd_def send_def Closed_def up_def [of c] marshalZMTP_def rw_Write_up Let_def
        cmd_wire_def wire_flag_def more_flag_def)
qed

lemma RecvCmd_copy:
  assumes "rx (rw d) = cmd_wire name body @ rest" "\<not> rw_closed (rw d)" "\<not> cclosed d"
    and "length name \<le> 255" "length body < maxAlloc - 256"
  shows "RecvCmd ops d = (Ok \<lparr>cmdName = name, cmdBody = body\<rparr>, got rest (sec d) d)"
proof -
  let ?buf = "[of_nat (length name)] @ name @ body"
  let ?fl = "wire_flag (more_flag False) (length ?buf > 255) True"
  have len: "length ?buf \<le> maxAlloc" using assms by (simp add: maxAlloc_def)
  have "read_frame ops False d = (Ok (?buf, False, True), got rest (sec d) d)"
    using read_frame_carries [OF copy_carries [of ?fl ?buf "sec d"] _ len, of d rest False] assms
    by (simp add: cmd_wire_def Let_def)
  then show ?thesis
    using assms unmarshalZMTP_marshalZMTP [of "\<lparr>cmdName = name, cmdBody = body\<rparr>" ?buf]
    by (simp add: RecvCmd_def Closed_def Conn_read_def read_loop.simps isCmd_def marshalZMTP_def Let_def)
qed

lemma copy_streams:
  assumes "list_all sendable msgs"
  shows "streams ops msgs"
  unfolding streams_def
proof (intro allI impI)
  fix c :: "'s Conn" assume up: "up c"
  obtain w s' where w: "SendAll ops msgs c = (None, wrote w s' c)"
    using stream_delivered [OF assms up] by blast
  have "delivers_all msgs t w" for t
  proof -
    obtain w' s'' where w': "SendAll ops msgs c = (None, wrote w' s'' c)" "delivers_all msgs t w'"
      using stream_delivered [OF assms up] by blast
    have "tx (rw (wrote w s' c)) = tx (rw (wrote w' s'' c))" using w w' by simp
    then show ?thesis using w' by (simp add: wrote_def)
  qed
  then show "\<exists>w c'. SendAll ops msgs c = (None, c') \<and> tx (rw c') = tx (rw c) @ w \<and>
      (\<forall>d rest. rx (rw d) = w @ rest \<longrightarrow> \<not> rw_closed (rw d) \<longrightarrow> \<not> cclosed d \<longrightarrow>
        (\<exists>d'. RecvAll ops (length msgs) d = (Ok (map (\<lambda>m. NewMsgFrom (Frames m)) msgs), d') \<and> rx (rw d') = rest))"
    using w unfolding delivers_all_def by (intro exI [of _ w]) (auto simp: wrote_def)
qed

lemma cmd_delivered:
  assumes "length name \<le> 255" "length body < maxAlloc - 256"
  shows "delivers_cmd \<lparr>cmdName = name, cmdBody = body\<rparr> t t (cmd_wire name body)"
  unfolding delivers_cmd_def
proof (intro allI impI exI conjI)
  fix d :: "'s Conn" and rest
  assume d: "rx (rw d) = cmd_wire name body @ rest" "\<not> rw_closed (rw d)" "sec d = t"
  let ?buf = "[of_nat (length name)] @ name @ body"
  let ?fl = "wire_flag (more_flag False) (length ?buf > 255) True"
  have len: "length ?buf \<le> maxAlloc" using assms by (simp add: maxAlloc_def)
  show "marshalZMTP \<lparr>cmdName = name, cmdBody = body\<rparr> = Ok ?buf"
    using assms by (simp add: marshalZMTP_def)
  have "read_frame ops False d = (Ok (?buf, False, True), got rest t d)"
    using read_frame_carries [OF copy_carries [of ?fl ?buf t] _ len, of d rest False] d
    by (simp add: cmd_wire_def Let_def)
  then show "Conn_read ops d = (Ok (zeroMsg\<lparr>Frames := [?buf], msgType := CmdMsg\<rparr>), got rest t d)"
    by (simp add: Conn_read_def read_loop.simps)
qed

lemma ping_copy:
  assumes "up d" "rx (rw d) = cmd_wire CmdPing (ttl @ ctx) @ rest" "length ttl = 2" "length ctx \<le> 16"
  shows "\<exists>d'. RecvMsg ops d = (Ok (zeroMsg\<lparr>Frames := [ttl @ ctx], msgType := CmdMsg\<rparr>, None), d') \<and>
    tx (rw d') = tx (rw d) @ cmd_wire CmdPong ctx \<and> rx (rw d') = rest"
proof -
  let ?d = "got rest (sec d) (heartbeat_notify ''activity'' d)"
  have up: "up ?d" using assms(1) by (simp add: up_def got_def)
  have "delivers_cmd \<lparr>cmdName = CmdPing, cmdBody = ttl @ ctx\<rparr> (sec d) (sec d) (cmd_wire CmdPing (ttl @ ctx))"
    using assms by (intro cmd_delivered) (simp_all add: maxAlloc_def CmdPing_def)
  moreover have "SendCmd ops CmdPong ctx ?d = (None, wrote (cmd_wire CmdPong ctx) (sec d) ?d)"
    using SendCmd_copy [OF up, of CmdPong ctx] by (simp add: CmdPong_def)
  ultimately show ?thesis
    using RecvMsg_ping [of ttl ctx d "sec d" _ rest] assms by (auto simp: up_def wrote_def got_def)
qed

end

interpretation null: copy_security null_ops
  by unfold_locales (simp_all add: null_ops_def null_Encrypt_def null_Decrypt_def security_types wire_simps)

interpretation plain: copy_security plain_ops
  by unfold_locales (simp_all add: plain_ops_def plain_Encrypt_def plain_Decrypt_def security_types wire_simps)

section \<open>Lemmas: the greeting\<close>

definition hello_greeting :: "SecurityType \<Rightarrow> greeting" where
  "hello_greeting kind = \<lparr>sHeader = sigHeader, sFooter = sigFooter, gVersion = defaultVersion,
     Mechanism = pad20 kind, gServer = 0\<rparr>"

lemma hello_greeting_ok: "length kind \<le> 20 \<Longrightarrow> greeting_ok (hello_greeting kind)"
  by (simp add: greeting_ok_def hello_greeting_def sigHeader_def sigFooter_def defaultVersion_def pad20_def)

lemma greet_up:
  assumes up: "up c" and rx: "rx (rw c) = greeting_marshal (hello_greeting (sType ops)) @ rest"
    and kind: "length (sType ops) \<le> 20" "0 \<notin> set (sType ops)"
  shows "greet ops c = (Ok (), (got rest (sec c)
    (wrote (greeting_marshal (hello_greeting (sType ops))) (sec c) c))\<lparr>PeerServer := False\<rparr>)"
proof -
  let ?g = "hello_greeting (sType ops)"
  have "greeting_read e (greeting_marshal ?g @ rest) = (Ok ?g, rest)" for e
    using hello_greeting_ok [OF kind(1)] by (auto simp: greeting_read_Ok_iff greeting_ok_def)
  moreover have "asString (Mechanism ?g) = sType ops" "asBool (gServer ?g) = Ok False"
    using kind by (simp_all add: hello_greeting_def pad20_def asString_padded asBool_def)
  ultimately show ?thesis
    using up rx kind
    by (simp add: greet_def rw_Write_up hello_greeting_def [symmetric] Let_def)
      (simp add: up_def wrote_def got_def)
qed

section \<open>Lemmas: the metadata of the two system properties\<close>

text \<open>
  What the handshake relies on from its parameters: title casing leaves the two system names as
  they are, a buffer has \<^verbatim>\<open>bytes.MinRead\<close> bytes of room, and a map is iterated over in some order.
\<close>

definition env_ok :: "Env \<Rightarrow> bool" where
  "env_ok env \<longleftrightarrow>
     e_toTitle env sysSockType = sysSockType \<and> e_toTitle env sysSockID = sysSockID \<and>
     (\<forall>n. 512 \<le> e_room env n) \<and> (\<forall>kvs. mset (e_iter env kvs) = mset kvs)"

definition sys_meta :: "SocketType \<Rightarrow> SocketIdentity \<Rightarrow> (bytes \<times> bytes) list" where
  "sys_meta t i = [(sysSockType, t), (sysSockID, Identity_String i)]"

definition meta_wire :: "Env \<Rightarrow> SocketType \<Rightarrow> SocketIdentity \<Rightarrow> bytes" where
  "meta_wire env t i = concat (map (put_property (e_toTitle env)) (e_iter env (sys_meta t i)))"

lemma sys_names_differ: "sysSockType \<noteq> sysSockID" "ToLower sysSockType \<noteq> ToLower sysSockID"
  by (simp_all add: sysSockType_def sysSockID_def wire_simps lower_byte_def)

lemma iter_set: "env_ok env \<Longrightarrow> set (e_iter env kvs) = set kvs"
  unfolding env_ok_def by (metis set_mset_mset)

lemma iter_distinct:
  assumes "env_ok env"
  shows "distinct (map f (e_iter env kvs)) = distinct (map f kvs)"
proof -
  have "mset (map f (e_iter env kvs)) = mset (map f kvs)"
    using assms by (simp add: env_ok_def)
  then show ?thesis by (metis mset_eq_imp_distinct_iff)
qed

lemma sys_entries_ok:
  assumes "env_ok env" "length t \<le> 400" "kv \<in> set (e_iter env' (sys_meta t i))" "env_ok env'"
  shows "entry_ok (e_toTitle env) kv" "entry_size kv \<le> 512" "e_toTitle env (wire_name (fst kv)) = fst kv"
  using assms Identity_String_length [of i]
  by (auto simp: iter_set sys_meta_def entry_ok_def title_ok_def wire_name_def entry_size_def env_ok_def
      sysSockType_def sysSockID_def)

lemma meta_marshal:
  assumes "env_ok env" "length t \<le> 400"
  shows "Metadata_MarshalZMTP (e_toTitle env) (e_room env) (e_iter env (sys_meta t i)) = Ok (meta_wire env t i)"
proof -
  have "distinct (map (ToLower \<circ> fst) (e_iter env (sys_meta t i)))"
    using assms sys_names_differ by (simp add: iter_distinct sys_meta_def)
  then show ?thesis
    using assms sys_entries_ok [OF assms]
    by (simp add: Metadata_MarshalZMTP_def meta_wire_def Metadata_Marshal_loop_put list_all_iff env_ok_def)
qed

lemma meta_unmarshal:
  assumes "env_ok env" "env_ok env'" "length t \<le> 400"
  shows "\<exists>md. Metadata_UnmarshalZMTP (e_toTitle env) spare (meta_wire env' t i) Map.empty = Ok md \<and>
    md sysSockType = Some t \<and> md sysSockID = Some (Identity_String i)"
proof -
  let ?kvs = "e_iter env' (sys_meta t i)"
  have names: "e_toTitle env (wire_name (fst kv)) = fst kv" "e_toTitle env' (wire_name (fst kv)) = fst kv"
    "entry_ok (e_toTitle env) kv" if "kv \<in> set ?kvs" for kv
    using that sys_entries_ok [of _ t kv env' i] assms by auto
  have "meta_wire env' t i = concat (map (put_property (e_toTitle env)) ?kvs)"
    unfolding meta_wire_def using names by (auto intro!: arg_cong [of _ _ concat] simp: put_property_def)
  moreover have dist: "distinct (map fst ?kvs)"
    using assms sys_names_differ by (simp add: iter_distinct) (simp add: sys_meta_def)
  moreover have "distinct (map (\<lambda>kv. e_toTitle env (wire_name (fst kv))) ?kvs)"
    using names dist by (simp cong: map_cong)
  moreover have "received (e_toTitle env) ?kvs = map_of ?kvs"
    unfolding received_def using names by (intro arg_cong [of _ _ map_of] map_idI) (auto simp: prod_eq_iff)
  ultimately have "Metadata_UnmarshalZMTP (e_toTitle env) spare (meta_wire env' t i) Map.empty = Ok (map_of ?kvs)"
    using names foldl_enter [of "e_toTitle env" ?kvs Map.empty]
    by (simp add: Metadata_UnmarshalZMTP_put list_all_iff)
  moreover have "map_of ?kvs sysSockType = Some t" "map_of ?kvs sysSockID = Some (Identity_String i)"
    using dist assms by (auto simp: iter_set sys_meta_def intro!: map_of_is_SomeI)
  ultimately show ?thesis by blast
qed

lemma length_meta_wire_le:
  assumes "env_ok env" "length t \<le> 400"
  shows "length (meta_wire env t i) \<le> 1024"
proof -
  let ?kvs = "e_iter env (sys_meta t i)"
  have "length (concat (map (put_property (e_toTitle env)) kvs)) \<le> 512 * length kvs"
    if "set kvs \<subseteq> set ?kvs" for kvs
    using that
  proof (induction kvs)
    case (Cons kv kvs)
    then have "length (put_property (e_toTitle env) kv) \<le> 512"
      using sys_entries_ok [OF assms, of kv env i] assms(1) by (simp add: length_put_property)
    then show ?case using Cons by simp
  qed simp
  moreover have "length ?kvs = 2"
    using assms(1) by (metis env_ok_def length_Cons list.size(3) mset_eq_length numeral_2_eq_2 sys_meta_def)
  ultimately show ?thesis
    by (metis meta_wire_def mult_2_right numeral_Bit0 order_refl)
qed

lemma length_meta_wire:
  assumes "env_ok env" "length t \<le> 400"
  shows "length (meta_wire env t i) < maxAlloc - 256"
  using length_meta_wire_le [OF assms, of i] by (simp add: maxAlloc_def)

section \<open>Lemmas: the handshakes\<close>

lemma step_sel [simp]:
  "Meta (wrote x s c) = Meta c" "PeerMeta (wrote x s c) = PeerMeta c" "rx (rw (wrote x s c)) = rx (rw c)"
  "tx (rw (wrote x s c)) = tx (rw c) @ x" "ctyp (wrote x s c) = ctyp c" "cServer (wrote x s c) = cServer c"
  "cclosed (wrote x s c) = cclosed c" "rw_closed (rw (wrote x s c)) = rw_closed (rw c)"
  "Meta (got y t c) = Meta c" "PeerMeta (got y t c) = PeerMeta c" "tx (rw (got y t c)) = tx (rw c)"
  "ctyp (got y t c) = ctyp c" "cServer (got y t c) = cServer c" "up (got y t c) = up c"
  "up (c\<lparr>PeerServer := b\<rparr>) = up c" "up (c\<lparr>PeerMeta := m\<rparr>) = up c"
  by (simp_all add: wrote_def got_def up_def)

lemma up_open: "up c \<Longrightarrow> \<not> cclosed c" "up c \<Longrightarrow> \<not> rw_closed (rw c)"
  by (simp_all add: up_def)

definition null_hello :: "Env \<Rightarrow> SocketType \<Rightarrow> SocketIdentity \<Rightarrow> bytes" where
  "null_hello env t i = greeting_marshal (hello_greeting NullSecurity) @ cmd_wire CmdReady (meta_wire env t i)"

lemma CmdReady_length [simp]: "length CmdReady \<le> 255"
  by (simp add: CmdReady_def)

lemma notified_copy [simp]: "notified (got rest t c) = notified c" "notified (wrote w s c) = notified c"
  by (simp_all add: got_def wrote_def)

lemma null_handshake_copy:
  assumes env: "env_ok env" "env_ok env'" and len: "length t \<le> 400" "length t' \<le> 400"
    and c: "up c" "Meta c = sys_meta t i" "PeerMeta c = Map.empty"
    and rx: "rx (rw c) = cmd_wire CmdReady (meta_wire env' t' i') @ rest"
  shows "\<exists>c'. null_handshake_by pfx env null_ops c server = (Ok (), c') \<and>
    tx (rw c') = tx (rw c) @ cmd_wire CmdReady (meta_wire env t i) \<and> rx (rw c') = rest \<and>
    PeerMeta c' sysSockType = Some t' \<and> PeerMeta c' sysSockID = Some (Identity_String i') \<and> ctyp c' = ctyp c \<and> notified c' = notified c \<and> up c'"
proof -
  obtain md where md: "Metadata_UnmarshalZMTP (e_toTitle env) [] (meta_wire env' t' i') Map.empty = Ok md"
    "md sysSockType = Some t'" "md sysSockID = Some (Identity_String i')"
    using meta_unmarshal [OF env len(2)] by blast
  let ?c1 = "wrote (cmd_wire CmdReady (meta_wire env t i)) (sec c) c"
  have "SendCmd null_ops CmdReady (meta_wire env t i) c = (None, ?c1)"
    using null.SendCmd_copy [OF c(1)] by simp
  moreover have "RecvCmd null_ops ?c1 =
      (Ok \<lparr>cmdName = CmdReady, cmdBody = meta_wire env' t' i'\<rparr>, got rest (sec c) ?c1)"
    using null.RecvCmd_copy [of ?c1 CmdReady "meta_wire env' t' i'" rest] rx up_open [OF c(1)]
      length_meta_wire [OF env(2) len(2)] by simp
  ultimately show ?thesis
    using meta_marshal [OF env(1) len(1), of i] c md by (simp add: null_handshake_by_def)
qed

fun compat_outcome :: "bool result \<Rightarrow> unit result" where
  "compat_outcome (Ok b) = (if b then Ok () else Err (Errorf ''zmq4: peer not compatible''))"
| "compat_outcome (Err e) = Err e"
| "compat_outcome (Panic m) = Panic m"

lemma null_init:
  assumes env: "env_ok env" "env_ok env'" and len: "length t \<le> 400" "length t' \<le> 400"
    and w: "\<not> rw_closed w" "wplan w = []" "rx w = null_hello env' t' i' @ rest"
  shows "\<exists>c'. Conn_init null_ops (null_handshake_by pfx env null_ops) (new_Conn w () t i server cb) =
      (compat_outcome (IsCompatible t' t), c') \<and>
    tx (rw c') = tx w @ null_hello env t i \<and> rx (rw c') = rest \<and>
    PeerMeta c' sysSockType = Some t' \<and> PeerMeta c' sysSockID = Some (Identity_String i') \<and> notified c' = 0 \<and> up c'"
proof -
  let ?c = "new_Conn w () t i server cb"
  let ?g = "greeting_marshal (hello_greeting NullSecurity)"
  let ?ready = "cmd_wire CmdReady (meta_wire env' t' i') @ rest"
  let ?c1 = "(got ?ready () (wrote ?g () ?c))\<lparr>PeerServer := False\<rparr>"
  have kind: "sType null_ops = NullSecurity" "length NullSecurity \<le> 20" "0 \<notin> set NullSecurity"
    by (simp_all add: null_ops_def NullSecurity_def wire_simps)
  have c: "up ?c" "Meta ?c = sys_meta t i" "PeerMeta ?c = Map.empty" "ctyp ?c = t" "rw ?c = w"
    using w by (simp_all add: up_def new_Conn_def sys_meta_def)
  have greet: "greet null_ops ?c = (Ok (), ?c1)"
    using greet_up [OF c(1), of null_ops ?ready] kind w c by (simp add: null_hello_def)
  obtain c' where c': "null_handshake_by pfx env null_ops ?c1 (cServer ?c1) = (Ok (), c')"
    "tx (rw c') = tx w @ null_hello env t i" "rx (rw c') = rest"
    "PeerMeta c' sysSockType = Some t'" "PeerMeta c' sysSockID = Some (Identity_String i')" "ctyp c' = t" "notified c' = notified ?c1" "up c'"
    using null_handshake_copy [OF env len, of ?c1 i i' rest pfx "cServer ?c1"] c
    by (auto simp: null_hello_def)
  have "notified ?c1 = 0" by (simp add: new_Conn_def)
  show ?thesis
    using greet c' \<open>notified ?c1 = 0\<close> by (cases "IsCompatible t' t") (simp_all add: Conn_init_def)
qed

definition plain_greeting :: bytes where
  "plain_greeting = greeting_marshal (hello_greeting PlainSecurity)"

definition plain_client_hello :: "Env \<Rightarrow> plain_sec \<Rightarrow> SocketType \<Rightarrow> SocketIdentity \<Rightarrow> bytes" where
  "plain_client_hello env s t i =
     plain_greeting @ cmd_wire CmdHello (plain_hello s) @ cmd_wire CmdInitiate (meta_wire env t i)"

definition plain_server_hello :: "Env \<Rightarrow> SocketType \<Rightarrow> SocketIdentity \<Rightarrow> bytes" where
  "plain_server_hello env t i =
     plain_greeting @ cmd_wire CmdWelcome [] @ cmd_wire CmdReady (meta_wire env t i)"

lemma cmd_name_lengths [simp]:
  "length CmdHello \<le> 255" "length CmdInitiate \<le> 255" "length CmdWelcome \<le> 255"
  by (simp_all add: cmd_names)

lemma plain_greet:
  assumes "up c" "rx (rw c) = plain_greeting @ rest"
  shows "greet plain_ops c = (Ok (), (got rest (sec c) (wrote plain_greeting (sec c) c))\<lparr>PeerServer := False\<rparr>)"
proof -
  have "sType plain_ops = PlainSecurity" "length PlainSecurity \<le> 20" "0 \<notin> set PlainSecurity"
    by (simp_all add: plain_ops_def PlainSecurity_def wire_simps)
  then show ?thesis
    using greet_up [OF assms(1), of plain_ops rest] assms by (simp add: plain_greeting_def)
qed

lemma plain_recv:
  assumes "up c" "rx (rw c) = cmd_wire name body @ rest" "length name \<le> 255" "length body < maxAlloc - 256"
  shows "RecvCmd plain_ops c = (Ok \<lparr>cmdName = name, cmdBody = body\<rparr>, got rest (sec c) c)"
  using plain.RecvCmd_copy [OF assms(2) _ _ assms(3,4)] up_open [OF assms(1)] by simp

lemma plain_server_copy:
  assumes env: "env_ok env" "env_ok env'" and len: "length t \<le> 400" "length t' \<le> 400"
    and c: "up c" "Meta c = sys_meta t i" "PeerMeta c = Map.empty" and hello: "length hello < maxAlloc - 256"
    and rx: "rx (rw c) = cmd_wire CmdHello hello @ cmd_wire CmdInitiate (meta_wire env' t' i') @ rest"
  shows "\<exists>c'. plain_server env c = (Ok (), c') \<and>
    tx (rw c') = tx (rw c) @ cmd_wire CmdWelcome [] @ cmd_wire CmdReady (meta_wire env t i) \<and>
    rx (rw c') = rest \<and>
    PeerMeta c' sysSockType = Some t' \<and> PeerMeta c' sysSockID = Some (Identity_String i') \<and> ctyp c' = ctyp c"
proof -
  let ?init = "cmd_wire CmdInitiate (meta_wire env' t' i') @ rest"
  obtain md where md: "Metadata_UnmarshalZMTP (e_toTitle env) sp (meta_wire env' t' i') Map.empty = Ok md"
    "md sysSockType = Some t'" "md sysSockID = Some (Identity_String i')"
    if "sp = e_spare env (meta_wire env' t' i')" for sp
    using meta_unmarshal [OF env len(2)] by blast
  let ?c1 = "got ?init (sec c) c"
  let ?c2 = "wrote (cmd_wire CmdWelcome []) (sec c) ?c1"
  let ?c3 = "(got rest (sec c) ?c2)\<lparr>PeerMeta := md\<rparr>"
  have "RecvCmd plain_ops c = (Ok \<lparr>cmdName = CmdHello, cmdBody = hello\<rparr>, ?c1)"
    using plain_recv [OF c(1) rx _ hello] by simp
  moreover have "SendCmd plain_ops CmdWelcome [] ?c1 = (None, ?c2)"
    using plain.SendCmd_copy [of ?c1 CmdWelcome "[]"] c by simp
  moreover have "RecvCmd plain_ops ?c2 =
      (Ok \<lparr>cmdName = CmdInitiate, cmdBody = meta_wire env' t' i'\<rparr>, got rest (sec c) ?c2)"
    using plain_recv [of ?c2 CmdInitiate "meta_wire env' t' i'" rest] c length_meta_wire [OF env(2) len(2)] by simp
  moreover have "plain_unmarshal_peer env (meta_wire env' t' i') (got rest (sec c) ?c2) = (Ok (), ?c3)"
    using md c by (simp add: plain_unmarshal_peer_def)
  moreover have "plain_marshal_meta env ''invalid'' ?c3 = (Ok (meta_wire env t i), ?c3)"
    using meta_marshal [OF env(1) len(1), of i] c by (simp add: plain_marshal_meta_def)
  moreover have "SendCmd plain_ops CmdReady (meta_wire env t i) ?c3 =
      (None, wrote (cmd_wire CmdReady (meta_wire env t i)) (sec c) ?c3)"
    using plain.SendCmd_copy [of ?c3 CmdReady "meta_wire env t i"] c by simp
  ultimately show ?thesis
    using md c by (simp add: plain_server_def validateHello_def)
qed

lemma plain_client_copy:
  assumes env: "env_ok env" "env_ok env'" and len: "length t \<le> 400" "length t' \<le> 400"
    and c: "up c" "Meta c = sys_meta t i" "PeerMeta c = Map.empty"
    and rx: "rx (rw c) = cmd_wire CmdWelcome [] @ cmd_wire CmdReady (meta_wire env' t' i') @ rest"
  shows "\<exists>c'. plain_client env c = (Ok (), c') \<and>
    tx (rw c') = tx (rw c) @ cmd_wire CmdHello (plain_hello (sec c)) @ cmd_wire CmdInitiate (meta_wire env t i) \<and>
    rx (rw c') = rest \<and> sec c' = plain_Security [] [] \<and>
    PeerMeta c' sysSockType = Some t' \<and> PeerMeta c' sysSockID = Some (Identity_String i') \<and> ctyp c' = ctyp c \<and> notified c' = notified c"
proof -
  obtain md where md: "Metadata_UnmarshalZMTP (e_toTitle env) sp (meta_wire env' t' i') Map.empty = Ok md"
    "md sysSockType = Some t'" "md sysSockID = Some (Identity_String i')"
    if "sp = e_spare env (meta_wire env' t' i')" for sp
    using meta_unmarshal [OF env len(2)] by blast
  let ?c1 = "wrote (cmd_wire CmdHello (plain_hello (sec c))) (sec c) c"
  let ?c2 = "got (cmd_wire CmdReady (meta_wire env' t' i') @ rest) (sec c) ?c1"
  let ?c3 = "wrote (cmd_wire CmdInitiate (meta_wire env t i)) (sec c) ?c2"
  let ?c4 = "got rest (sec c) ?c3"
  have "SendCmd plain_ops CmdHello (plain_hello (sec c)) c = (None, ?c1)"
    using plain.SendCmd_copy [OF c(1)] by simp
  moreover have "RecvCmd plain_ops ?c1 = (Ok \<lparr>cmdName = CmdWelcome, cmdBody = []\<rparr>, ?c2)"
    using plain_recv [of ?c1 CmdWelcome "[]"] c rx by (simp add: maxAlloc_def)
  moreover have "plain_marshal_meta env ''internal error'' ?c2 = (Ok (meta_wire env t i), ?c2)"
    using meta_marshal [OF env(1) len(1), of i] c by (simp add: plain_marshal_meta_def)
  moreover have "SendCmd plain_ops CmdInitiate (meta_wire env t i) ?c2 = (None, ?c3)"
    using plain.SendCmd_copy [of ?c2 CmdInitiate "meta_wire env t i"] c by simp
  moreover have "RecvCmd plain_ops ?c3 = (Ok \<lparr>cmdName = CmdReady, cmdBody = meta_wire env' t' i'\<rparr>, ?c4)"
    using plain_recv [of ?c3 CmdReady "meta_wire env' t' i'" rest] c length_meta_wire [OF env(2) len(2)] by simp
  moreover have "plain_unmarshal_peer env (meta_wire env' t' i') ?c4 = (Ok (), ?c4\<lparr>PeerMeta := md\<rparr>)"
    using md c by (simp add: plain_unmarshal_peer_def)
  ultimately show ?thesis
    using md c by (simp add: plain_client_def plain_Security_def)
qed

lemma plain_init:
  assumes env: "env_ok env" "env_ok env'" and len: "length t \<le> 400" "length t' \<le> 400"
    and w: "\<not> rw_closed w" "wplan w = []"
    and hello: "length (plain_hello s') < maxAlloc - 256"
  shows "rx w = plain_client_hello env' s' t' i' @ rest \<Longrightarrow>
    \<exists>c'. Conn_init plain_ops (plain_Handshake env) (new_Conn w s t i True cb) = (compat_outcome (IsCompatible t' t), c') \<and>
      tx (rw c') = tx w @ plain_server_hello env t i \<and> rx (rw c') = rest \<and>
      PeerMeta c' sysSockType = Some t' \<and> PeerMeta c' sysSockID = Some (Identity_String i')" (is "?S \<Longrightarrow> _")
    and "rx w = plain_server_hello env' t' i' @ rest \<Longrightarrow>
    \<exists>c'. Conn_init plain_ops (plain_Handshake env) (new_Conn w s t i False cb) = (compat_outcome (IsCompatible t' t), c') \<and>
      tx (rw c') = tx w @ plain_client_hello env s t i \<and> rx (rw c') = rest \<and> sec c' = plain_Security [] [] \<and>
      PeerMeta c' sysSockType = Some t' \<and> PeerMeta c' sysSockID = Some (Identity_String i')" (is "?C \<Longrightarrow> _")
proof -
  let ?c = "\<lambda>server. new_Conn w s t i server cb"
  have c: "up (?c server)" "Meta (?c server) = sys_meta t i" "PeerMeta (?c server) = Map.empty"
    "ctyp (?c server) = t" "rw (?c server) = w" "cServer (?c server) = server" "sec (?c server) = s" for server
    using w by (simp_all add: up_def new_Conn_def sys_meta_def)
  let ?c1 = "\<lambda>server rest. (got rest s (wrote plain_greeting s (?c server)))\<lparr>PeerServer := False\<rparr>"
  {
    assume rx: ?S
    let ?rest = "cmd_wire CmdHello (plain_hello s') @ cmd_wire CmdInitiate (meta_wire env' t' i') @ rest"
    have "greet plain_ops (?c True) = (Ok (), ?c1 True ?rest)"
      using plain_greet [OF c(1), of True] rx c by (simp add: plain_client_hello_def)
    moreover obtain c' where "plain_server env (?c1 True ?rest) = (Ok (), c')"
      "tx (rw c') = tx w @ plain_server_hello env t i" "rx (rw c') = rest"
      "PeerMeta c' sysSockType = Some t'" "PeerMeta c' sysSockID = Some (Identity_String i')" "ctyp c' = t"
      using plain_server_copy [OF env len, of "?c1 True ?rest" i "plain_hello s'" i' rest] c hello
      by (auto simp: plain_server_hello_def)
    ultimately show "\<exists>c'. Conn_init plain_ops (plain_Handshake env) (?c True) = (compat_outcome (IsCompatible t' t), c') \<and>
      tx (rw c') = tx w @ plain_server_hello env t i \<and> rx (rw c') = rest \<and>
      PeerMeta c' sysSockType = Some t' \<and> PeerMeta c' sysSockID = Some (Identity_String i')"
      using c by (cases "IsCompatible t' t") (simp_all add: Conn_init_def plain_Handshake_def)
  }
  {
    assume rx: ?C
    let ?rest = "cmd_wire CmdWelcome [] @ cmd_wire CmdReady (meta_wire env' t' i') @ rest"
    have "greet plain_ops (?c False) = (Ok (), ?c1 False ?rest)"
      using plain_greet [OF c(1), of False] rx c by (simp add: plain_server_hello_def)
    moreover obtain c' where "plain_client env (?c1 False ?rest) = (Ok (), c')"
      "tx (rw c') = tx w @ plain_client_hello env s t i" "rx (rw c') = rest" "sec c' = plain_Security [] []"
      "PeerMeta c' sysSockType = Some t'" "PeerMeta c' sysSockID = Some (Identity_String i')" "ctyp c' = t"
      using plain_client_copy [OF env len, of "?c1 False ?rest" i i' rest] c
      by (auto simp: plain_client_hello_def)
    ultimately show "\<exists>c'. Conn_init plain_ops (plain_Handshake env) (?c False) = (compat_outcome (IsCompatible t' t), c') \<and>
      tx (rw c') = tx w @ plain_client_hello env s t i \<and> rx (rw c') = rest \<and> sec c' = plain_Security [] [] \<and>
      PeerMeta c' sysSockType = Some t' \<and> PeerMeta c' sysSockID = Some (Identity_String i')"
      using c by (cases "IsCompatible t' t") (simp_all add: Conn_init_def plain_Handshake_def)
  }
qed

definition sample_env :: Env where
  "sample_env = \<lparr>e_toTitle = ascii_title, e_room = (\<lambda>_. 512), e_spare = (\<lambda>_. []), e_iter = (\<lambda>kvs. kvs)\<rparr>"

lemma sample_env_ok: "env_ok sample_env"
  by (simp add: env_ok_def sample_env_def ascii_title_def upper_byte_def lower_byte_def sysSockType_def
      sysSockID_def wire_simps)

definition open_net :: "bytes \<Rightarrow> net" where
  "open_net bs = \<lparr>rx = bs, rx_end = NetTimeout, tx = [], wplan = [], rw_closed = False\<rparr>"

section \<open>Properties\<close>

text \<open>
  C1: message streams survive the framing. Over NULL and over PLAIN, any sequence of messages
  (each with at least one frame, frames of any length up to the allocation limit, empty frames
  included, sent frame by frame or as one multipart write) arrives at a peer that reads the
  written bytes as the same messages in the same order with the same frames, and the peer takes
  no byte of what follows.
\<close>

theorem message_stream_roundtrip:
  assumes "list_all sendable msgs"
  shows "streams null_ops msgs \<and> streams plain_ops msgs"
  using assms by (simp add: null.copy_streams plain.copy_streams)

theorem message_stream_roundtrip_witness:
  "streams null_ops [NewMsgFrom [[], [1, 2]], NewMsg [3]] \<and> streams plain_ops [NewMsgFrom [[], [1, 2]], NewMsg [3]]"
  using message_stream_roundtrip [of "[NewMsgFrom [[], [1, 2]], NewMsg [3]]"]
  by (simp add: sendable_def maxAlloc_def)

text \<open>
  two NULL peers that read each other's output agree. Each writes its greeting and its
  READY command and takes exactly the other's; each learns the other's socket type and identity;
  and the result of \<open>Open\<close> is decided by the table: success for compatible types, an error for
  incompatible ones, and a panic of the process for a peer whose socket type is unknown.
\<close>

theorem null_handshake_agreement:
  assumes "env_ok envA" "env_ok envB" "length tA \<le> 400" "length tB \<le> 400"
  shows "\<exists>cA cB.
    Open (Some (open_net (tx (rw cB) @ restA))) null_ops (nullSecurity_Handshake envA) (Some ()) tA iA sA cbA =
      (wrap_err ''zmq4: could not initialize ZMTP connection'' (compat_outcome (IsCompatible tB tA)), Some cA) \<and>
    Open (Some (open_net (tx (rw cA) @ restB))) null_ops (nullSecurity_Handshake envB) (Some ()) tB iB sB cbB =
      (wrap_err ''zmq4: could not initialize ZMTP connection'' (compat_outcome (IsCompatible tA tB)), Some cB) \<and>
    PeerMeta cA sysSockType = Some tB \<and> PeerMeta cA sysSockID = Some (Identity_String iB) \<and>
    PeerMeta cB sysSockType = Some tA \<and> PeerMeta cB sysSockID = Some (Identity_String iA) \<and>
    rx (rw cA) = restA \<and> rx (rw cB) = restB"
proof -
  let ?open = "\<lambda>env bs t i s cb. Conn_init null_ops (nullSecurity_Handshake env) (new_Conn (open_net bs) () t i s cb)"
  have net: "\<not> rw_closed (open_net bs)" "wplan (open_net bs) = []" "rx (open_net bs) = bs" "tx (open_net bs) = []" for bs
    by (simp_all add: open_net_def)
  obtain cA where A: "?open envA (null_hello envB tB iB @ restA) tA iA sA cbA = (compat_outcome (IsCompatible tB tA), cA)"
    "tx (rw cA) = null_hello envA tA iA" "rx (rw cA) = restA"
    "PeerMeta cA sysSockType = Some tB" "PeerMeta cA sysSockID = Some (Identity_String iB)"
    using null_init [OF assms, of "open_net (null_hello envB tB iB @ restA)" iB restA "''zmq4''" iA sA cbA] net
    by (auto simp: nullSecurity_Handshake_def)
  obtain cB where B: "?open envB (null_hello envA tA iA @ restB) tB iB sB cbB = (compat_outcome (IsCompatible tA tB), cB)"
    "tx (rw cB) = null_hello envB tB iB" "rx (rw cB) = restB"
    "PeerMeta cB sysSockType = Some tA" "PeerMeta cB sysSockID = Some (Identity_String iA)"
    using null_init [OF assms(2,1,4,3), of "open_net (null_hello envA tA iA @ restB)" iA restB "''zmq4''" iB sB cbB] net
    by (auto simp: nullSecurity_Handshake_def)
  show ?thesis
    using A B by (intro exI [of _ cA] exI [of _ cB]) (simp add: Open_def)
qed

theorem null_handshake_agreement_witness:
  "\<exists>cA cB.
    Open (Some (open_net (tx (rw cB)))) null_ops (nullSecurity_Handshake sample_env) (Some ()) SockReq [1] False True =
      (Ok (), Some cA) \<and>
    Open (Some (open_net (tx (rw cA)))) null_ops (nullSecurity_Handshake sample_env) (Some ()) SockRouter [2] True True =
      (Ok (), Some cB) \<and>
    PeerMeta cA sysSockType = Some SockRouter \<and> PeerMeta cB sysSockType = Some SockReq"
proof -
  have "length SockReq \<le> 400" "length SockRouter \<le> 400"
    "IsCompatible SockRouter SockReq = Ok True" "IsCompatible SockReq SockRouter = Ok True"
    by (simp_all add: socket_types IsCompatible_def wire_simps)
  then show ?thesis
    using null_handshake_agreement [OF sample_env_ok sample_env_ok, of SockReq SockRouter "[]" "[1]" False True "[]" "[2]" True True]
    by auto
qed

text \<open>
  a PLAIN client and a PLAIN server that read each other's output agree in the same way,
  the client forgets its credentials, and the server lets every user name and password in.
\<close>

theorem plain_handshake_agreement:
  assumes "env_ok envC" "env_ok envS" "length tC \<le> 400" "length tS \<le> 400" "length (u @ p) \<le> 1000"
  shows "\<exists>cC cS.
    Open (Some (open_net (tx (rw cS) @ restC))) plain_ops (plain_Handshake envC) (Some (plain_Security u p)) tC iC False cbC =
      (wrap_err ''zmq4: could not initialize ZMTP connection'' (compat_outcome (IsCompatible tS tC)), Some cC) \<and>
    Open (Some (open_net (tx (rw cC) @ restS))) plain_ops (plain_Handshake envS) (Some (plain_Security u' p')) tS iS True cbS =
      (wrap_err ''zmq4: could not initialize ZMTP connection'' (compat_outcome (IsCompatible tC tS)), Some cS) \<and>
    PeerMeta cC sysSockType = Some tS \<and> PeerMeta cS sysSockType = Some tC \<and>
    sec cC = plain_Security [] [] \<and> rx (rw cC) = restC \<and> rx (rw cS) = restS"
proof -
  let ?open = "\<lambda>env bs s t i srv cb. Conn_init plain_ops (plain_Handshake env) (new_Conn (open_net bs) s t i srv cb)"
  have net: "\<not> rw_closed (open_net bs)" "wplan (open_net bs) = []" "rx (open_net bs) = bs" "tx (open_net bs) = []" for bs
    by (simp_all add: open_net_def)
  have hello: "length (plain_hello (plain_Security u p)) < maxAlloc - 256"
    using assms(5) by (simp add: plain_hello_def plain_Security_def maxAlloc_def)
  obtain cC where C: "?open envC (plain_server_hello envS tS iS @ restC) (plain_Security u p) tC iC False cbC =
      (compat_outcome (IsCompatible tS tC), cC)"
    "tx (rw cC) = plain_client_hello envC (plain_Security u p) tC iC" "rx (rw cC) = restC"
    "sec cC = plain_Security [] []" "PeerMeta cC sysSockType = Some tS"
    using plain_init(2) [OF assms(1-4) net(1,2) hello net(3)] net(4) by force
  obtain cS where S: "?open envS (plain_client_hello envC (plain_Security u p) tC iC @ restS) (plain_Security u' p') tS iS True cbS =
      (compat_outcome (IsCompatible tC tS), cS)"
    "tx (rw cS) = plain_server_hello envS tS iS" "rx (rw cS) = restS" "PeerMeta cS sysSockType = Some tC"
    using plain_init(1) [OF assms(2,1,4,3) net(1,2) hello net(3)] net(4) by force
  show ?thesis
    using C S by (intro exI [of _ cC] exI [of _ cS]) (simp add: Open_def)
qed

theorem plain_handshake_agreement_witness:
  "\<exists>cC cS.
    Open (Some (open_net (tx (rw cS)))) plain_ops (plain_Handshake sample_env)
      (Some (plain_Security (str ''eve'') (str ''wrong''))) SockPush [] False True = (Ok (), Some cC) \<and>
    Open (Some (open_net (tx (rw cC)))) plain_ops (plain_Handshake sample_env)
      (Some (plain_Security (str ''admin'') (str ''secret''))) SockPull [] True True = (Ok (), Some cS)"
proof -
  have "length SockPush \<le> 400" "length SockPull \<le> 400" "length (str ''eve'' @ str ''wrong'') \<le> 1000"
    "IsCompatible SockPush SockPull = Ok True" "IsCompatible SockPull SockPush = Ok True"
    by (simp_all add: socket_types IsCompatible_def wire_simps)
  then show ?thesis
    using plain_handshake_agreement [OF sample_env_ok sample_env_ok, of SockPush SockPull "str ''eve''" "str ''wrong''"
        "[]" "[]" True "[]" "str ''admin''" "str ''secret''" "[]" True]
    by auto
qed

text \<open>
  a heartbeat PING with a context of at most 16 bytes is answered at once: \<open>RecvMsg\<close> writes
  exactly one PONG with the same context, takes exactly the PING, and hands the command to its
  caller as a message of type \<open>CmdMsg\<close>.
\<close>

theorem ping_answered:
  assumes "up d" "rx (rw d) = cmd_wire CmdPing (ttl @ ctx) @ rest" "length ttl = 2" "length ctx \<le> 16"
  shows "\<exists>d'. RecvMsg null_ops d = (Ok (zeroMsg\<lparr>Frames := [ttl @ ctx], msgType := CmdMsg\<rparr>, None), d') \<and>
    tx (rw d') = tx (rw d) @ cmd_wire CmdPong ctx \<and> rx (rw d') = rest"
  by (rule null.ping_copy [OF assms])

theorem ping_answered_witness:
  "\<exists>d'. RecvMsg null_ops (new_Conn (open_net (cmd_wire CmdPing [0, 9, 7])) () SockPull [] False True) =
     (Ok (zeroMsg\<lparr>Frames := [[0, 9, 7]], msgType := CmdMsg\<rparr>, None), d') \<and>
     tx (rw d') = [4, 6, 4, 80, 79, 78, 71, 7]"
proof -
  let ?d = "new_Conn (open_net (cmd_wire CmdPing [0, 9, 7])) () SockPull [] False True"
  have d: "up ?d" "rx (rw ?d) = cmd_wire CmdPing ([0, 9] @ [7]) @ []" "tx (rw ?d) = []"
    by (simp_all add: up_def new_Conn_def open_net_def)
  have "cmd_wire CmdPong [7] = [4, 6, 4, 80, 79, 78, 71, 7]"
    by (simp add: cmd_wire_def CmdPong_def wire_simps frame_header_def wire_flag_def more_flag_def)
  then show ?thesis
    using ping_answered [OF d(1,2)] d(3) by auto
qed

end
