(* ===== verification/Conn_Pools.thy ===== *)
theory Conn_Pools
  imports Security_Mech
begin

text \<open>
  The pools of connections below the sockets: the queued readers and the fan-out writers of
  \<^verbatim>\<open>src/protocol_msgio.go\<close>, \<^verbatim>\<open>src/socket_router.go\<close> and \<^verbatim>\<open>src/socket_pub.go\<close>.

  A \<^verbatim>\<open>*Conn\<close> is a number, its address in the heap \<open>'s heap\<close>. A reader runs one listener goroutine
  per connection, which is at one of the two points \<open>lpc\<close> where it can wait: in the read of the
  connection, or in the send to the channel. One step of a listener runs from one such point to
  the next; the steps of all listeners and of the caller interleave in any order
  (\<open>reader_step\<close>). An element of the channel carries the connection it came from as a ghost tag.

  \<open>ctxDone\<close> says whether the context has been cancelled, \<open>pick\<close> which branch a \<^verbatim>\<open>select\<close> takes
  when several are ready; a call that would block returns \<open>None\<close>.
\<close>

type_synonym 's heap = "nat \<Rightarrow> 's Conn"

section \<open>The list of connections\<close>

text \<open>The search loop and the deletion that every \<^verbatim>\<open>rmConn\<close> repeats.\<close>

fun find_conn :: "nat list \<Rightarrow> nat \<Rightarrow> nat \<Rightarrow> nat option" where
  "find_conn [] r i = None"
| "find_conn (x # xs) r i = (if x = r then Some i else find_conn xs r (Suc i))"

definition remove_conn :: "nat \<Rightarrow> nat list \<Rightarrow> nat list" where
  "remove_conn r rs = (case find_conn rs r 0 of None \<Rightarrow> rs | Some cur \<Rightarrow> take cur rs @ drop (cur + 1) rs)"

lemma find_conn_shift: "find_conn xs r (Suc i) = map_option Suc (find_conn xs r i)"
  by (induction xs arbitrary: i) auto

lemma remove_conn_remove1 [simp]: "remove_conn r rs = remove1 r rs"
proof (induction rs)
  case (Cons x rs)
  then show ?case
    by (auto simp: remove_conn_def find_conn_shift [of _ _ 0, simplified] split: option.splits)
qed (simp add: remove_conn_def)

text \<open>\<^verbatim>\<open>Close\<close> of a pool closes every connection of it.\<close>

fun close_conns :: "nat list \<Rightarrow> 's heap \<Rightarrow> 's heap" where
  "close_conns [] h = h"
| "close_conns (r # rs) h = close_conns rs (h(r := Conn_Close (h r)))"

text \<open>
  What the sockets rely on from a pool: a connection that was added is in it, a connection that
  was removed is not, and the others stay in their order.
\<close>

locale conn_pool =
  fixes members :: "'p \<Rightarrow> nat list"
    and add :: "nat \<Rightarrow> 'p \<Rightarrow> 'p"
    and rm :: "nat \<Rightarrow> 'p \<Rightarrow> 'p"
  assumes members_add: "c \<notin> set (members p) \<Longrightarrow> members (add c p) = members p @ [c]"
    and members_rm: "members (rm c p) = remove1 c (members p)"
begin

fun pool_run :: "'p \<Rightarrow> (bool \<times> nat) list \<Rightarrow> 'p" where
  "pool_run p [] = p"
| "pool_run p ((b, c) # ops) = pool_run (if b then add c p else rm c p) ops"

text \<open>Every connection is added once, and removed only after that.\<close>

fun pool_ok :: "nat set \<Rightarrow> nat set \<Rightarrow> (bool \<times> nat) list \<Rightarrow> bool" where
  "pool_ok cur seen [] = True"
| "pool_ok cur seen ((True, c) # ops) \<longleftrightarrow> c \<notin> seen \<and> pool_ok (insert c cur) (insert c seen) ops"
| "pool_ok cur seen ((False, c) # ops) \<longleftrightarrow> pool_ok (cur - {c}) seen ops"

fun pool_final :: "nat set \<Rightarrow> (bool \<times> nat) list \<Rightarrow> nat set" where
  "pool_final cur [] = cur"
| "pool_final cur ((True, c) # ops) = pool_final (insert c cur) ops"
| "pool_final cur ((False, c) # ops) = pool_final (cur - {c}) ops"

lemma pool_run_members:
  assumes "pool_ok cur seen ops" "distinct (members p)" "set (members p) = cur" "cur \<subseteq> seen"
  shows "distinct (members (pool_run p ops)) \<and> set (members (pool_run p ops)) = pool_final cur ops"
  using assms
proof (induction cur seen ops arbitrary: p rule: pool_ok.induct)
  case (2 cur seen c ops)
  then have "c \<notin> set (members p)" by auto
  then have "set (members (add c p)) = insert c cur" "distinct (members (add c p))"
    using "2.prems" by (simp_all add: members_add)
  then show ?case
    using "2.IH" [of "add c p"] "2.prems" by auto
next
  case (3 cur seen c ops)
  have "set (members (rm c p)) = cur - {c}" "distinct (members (rm c p))"
    using "3.prems" by (simp_all add: members_rm)
  then show ?case
    using "3.IH" [of "rm c p"] "3.prems" by auto
qed auto

end

section \<open>Queued readers\<close>

datatype 'm lpc = Reading | Pushing 'm bool

record 'm reader =
  rs :: "nat list"
  chan :: "(nat \<times> 'm) list"
  rsem :: bool
  lis :: "nat \<Rightarrow> 'm lpc option"

definition qrsize :: nat where "qrsize = 10"

definition new_reader :: "'m reader" where
  "new_reader = \<lparr>rs = [], chan = [], rsem = False, lis = (\<lambda>_. None)\<rparr>"

text \<open>What the loop body of a listener does with a message that it read.\<close>

datatype 'm action = Return | Push 'm bool | Skip

type_synonym ('s, 'm) on_msg = "nat \<Rightarrow> 's Conn \<Rightarrow> Msg \<Rightarrow> ('m action \<times> 's Conn) result"

definition reader_rmConn :: "nat \<Rightarrow> 'm reader \<Rightarrow> 'm reader" where
  "reader_rmConn r q = q\<lparr>rs := remove_conn r (rs q)\<rparr>"

definition reader_addConn :: "nat \<Rightarrow> 'm reader \<Rightarrow> 'm reader" where
  "reader_addConn r q = q\<lparr>rsem := True, rs := rs q @ [r], lis := (lis q)(r \<mapsto> Reading)\<rparr>"

definition reader_Close :: "'m reader \<Rightarrow> 's heap \<Rightarrow> 'm reader \<times> 's heap" where
  "reader_Close q h = (q\<lparr>rs := []\<rparr>, close_conns (rs q) h)"

text \<open>The deferred calls of a listener that returns: \<^verbatim>\<open>r.Close()\<close>, then \<^verbatim>\<open>q.rmConn(r)\<close>.\<close>

definition listen_exit :: "nat \<Rightarrow> 'm reader \<Rightarrow> 's heap \<Rightarrow> 'm reader \<times> 's heap" where
  "listen_exit r q h = ((reader_rmConn r q)\<lparr>lis := (lis q)(r := None)\<rparr>, h(r := Conn_Close (h r)))"

definition listen_read ::
  "'s SecOps \<Rightarrow> ('s, 'm) on_msg \<Rightarrow> bool \<Rightarrow> nat \<Rightarrow> 'm reader \<Rightarrow> 's heap \<Rightarrow> ('m reader \<times> 's heap) result" where
  "listen_read ops on_msg ctxDone r q h =
     (case Conn_read ops (h r) of
        (Panic m, c) \<Rightarrow> Panic m
      | (Err e, c) \<Rightarrow> Err e
      | (Ok msg, c) \<Rightarrow>
          if ctxDone then Ok (listen_exit r q (h(r := c)))
          else
            and_then (on_msg r c msg) (\<lambda>(act, c).
              case act of
                Return \<Rightarrow> Ok (listen_exit r q (h(r := c)))
              | Push m quit \<Rightarrow> Ok (q\<lparr>lis := (lis q)(r \<mapsto> Pushing m quit)\<rparr>, h(r := c))
              | Skip \<Rightarrow> Ok (q, h(r := c))))"

definition listen_push :: "nat \<Rightarrow> 'm \<Rightarrow> bool \<Rightarrow> 'm reader \<Rightarrow> 's heap \<Rightarrow> 'm reader \<times> 's heap" where
  "listen_push r m quit q h =
     (let q = q\<lparr>chan := chan q @ [(r, m)]\<rparr> in
      if quit then listen_exit r q h else (q\<lparr>lis := (lis q)(r \<mapsto> Reading)\<rparr>, h))"

text \<open>
  \<^verbatim>\<open>sem.lock(ctx)\<close> and the \<^verbatim>\<open>select\<close> between the context and the channel.
\<close>

definition reader_select :: "bool \<Rightarrow> bool \<Rightarrow> 'm reader \<Rightarrow> ('m option \<times> 'm reader) option" where
  "reader_select ctxDone pick q =
     (if \<not> rsem q \<and> \<not> ctxDone then None
      else if ctxDone \<and> (pick \<or> chan q = []) then Some (None, q)
      else case chan q of [] \<Rightarrow> None | (r, m) # rest \<Rightarrow> Some (Some m, q\<lparr>chan := rest\<rparr>))"

subsection \<open>The loop bodies and reads of the three readers\<close>

definition qreader_on_msg :: "('s, Msg) on_msg" where
  "qreader_on_msg r c msg = Ok (Push msg (msgErr msg \<noteq> None), c)"

definition qreader_read :: "bool \<Rightarrow> bool \<Rightarrow> Msg reader \<Rightarrow> (Msg \<times> go_error option \<times> Msg reader) option" where
  "qreader_read ctxDone pick q =
     (case reader_select ctxDone pick q of
        None \<Rightarrow> None
      | Some (None, q) \<Rightarrow> Some (zeroMsg, Some CtxDone, q)
      | Some (Some msg, q) \<Rightarrow> Some (msg, msgErr msg, q))"

definition router_on_msg :: "('s, Msg) on_msg" where
  "router_on_msg r c msg =
     (if msgErr msg \<noteq> None then Ok (Return, c)
      else
        let ident = (case PeerMeta c sysSockID of Some v \<Rightarrow> v | None \<Rightarrow> []) in
        Ok (Push (msg\<lparr>Frames := [ident] @ Frames msg\<rparr>) False, c))"

definition pub_topic :: "Msg \<Rightarrow> bool" where
  "pub_topic msg =
     (if length (Frames msg) \<noteq> 1 then False
      else
        let frame = Frames msg ! 0 in
        if length frame = 0 then False else (let topic = frame ! 0 in topic = 0 \<or> topic = 1))"

definition pub_on_msg :: "('s, Msg) on_msg" where
  "pub_on_msg r c msg =
     (if msgErr msg \<noteq> None then Ok (Return, c)
      else if pub_topic msg then and_then (subscribe msg c) (\<lambda>c. Ok (Skip, c))
      else Ok (Push msg False, c))"

text \<open>\<^verbatim>\<open>pubQReader.read\<close> has no return in its first branch: it falls through to \<^verbatim>\<open>return msg.err\<close>.\<close>

definition pubQReader_read :: "bool \<Rightarrow> bool \<Rightarrow> Msg reader \<Rightarrow> (Msg \<times> go_error option \<times> Msg reader) option" where
  "pubQReader_read ctxDone pick q =
     (case reader_select ctxDone pick q of
        None \<Rightarrow> None
      | Some (None, q) \<Rightarrow> Some (zeroMsg, msgErr zeroMsg, q)
      | Some (Some msg, q) \<Rightarrow> Some (msg, msgErr msg, q))"

subsection \<open>Interleavings\<close>

text \<open>
  One step of a reader, labelled with what the listener of \<open>r\<close> produced (\<open>Produced r m\<close>) and what
  the caller of \<^verbatim>\<open>read\<close> took (\<open>Taken r m\<close>).
\<close>

datatype 'm event = Tau | Produced nat 'm | Taken nat 'm

inductive reader_step ::
  "'s SecOps \<Rightarrow> ('s, 'm) on_msg \<Rightarrow> bool \<Rightarrow> 'm reader \<times> 's heap \<Rightarrow> 'm event \<Rightarrow> 'm reader \<times> 's heap \<Rightarrow> bool"
  for ops on_msg ctxDone where
  add: "r \<notin> dom (lis q) \<Longrightarrow> reader_step ops on_msg ctxDone (q, h) Tau (reader_addConn r q, h)"
| remove: "reader_step ops on_msg ctxDone (q, h) Tau (reader_rmConn r q, h)"
| close: "reader_step ops on_msg ctxDone (q, h) Tau (reader_Close q h)"
| network: "reader_step ops on_msg ctxDone (q, h) Tau (q, h(r := (h r)\<lparr>rw := w\<rparr>))"
| receive: "lis q r = Some Reading \<Longrightarrow> listen_read ops on_msg ctxDone r q h = Ok (q', h') \<Longrightarrow>
    lis q' r = Some (Pushing m quit) \<Longrightarrow>
    reader_step ops on_msg ctxDone (q, h) (Produced r m) (q', h')"
| silent: "lis q r = Some Reading \<Longrightarrow> listen_read ops on_msg ctxDone r q h = Ok (q', h') \<Longrightarrow>
    (\<nexists>m quit. lis q' r = Some (Pushing m quit)) \<Longrightarrow>
    reader_step ops on_msg ctxDone (q, h) Tau (q', h')"
| push: "lis q r = Some (Pushing m quit) \<Longrightarrow> length (chan q) < qrsize \<Longrightarrow>
    reader_step ops on_msg ctxDone (q, h) Tau (listen_push r m quit q h)"
| take: "chan q = (r, m) # rest \<Longrightarrow> reader_select ctxDone False q = Some (Some m, q') \<Longrightarrow>
    reader_step ops on_msg ctxDone (q, h) (Taken r m) (q', h)"

inductive reader_run ::
  "'s SecOps \<Rightarrow> ('s, 'm) on_msg \<Rightarrow> bool \<Rightarrow> 'm reader \<times> 's heap \<Rightarrow> 'm event list \<Rightarrow> 'm reader \<times> 's heap \<Rightarrow> bool"
  for ops on_msg ctxDone where
  start: "reader_run ops on_msg ctxDone s [] s"
| snoc: "reader_run ops on_msg ctxDone s tr s' \<Longrightarrow> reader_step ops on_msg ctxDone s' e s'' \<Longrightarrow>
    reader_run ops on_msg ctxDone s (tr @ [e]) s''"

fun produced_by :: "nat \<Rightarrow> 'm event list \<Rightarrow> 'm list" where
  "produced_by r [] = []"
| "produced_by r (Produced r' m # tr) = (if r' = r then m # produced_by r tr else produced_by r tr)"
| "produced_by r (e # tr) = produced_by r tr"

fun taken_from :: "nat \<Rightarrow> 'm event list \<Rightarrow> 'm list" where
  "taken_from r [] = []"
| "taken_from r (Taken r' m # tr) = (if r' = r then m # taken_from r tr else taken_from r tr)"
| "taken_from r (e # tr) = taken_from r tr"

definition in_chan :: "nat \<Rightarrow> 'm reader \<Rightarrow> 'm list" where
  "in_chan r q = map snd (filter (\<lambda>x. fst x = r) (chan q))"

definition pending :: "nat \<Rightarrow> 'm reader \<Rightarrow> 'm list" where
  "pending r q = (case lis q r of Some (Pushing m quit) \<Rightarrow> [m] | _ \<Rightarrow> [])"

section \<open>Fan-out writers\<close>

record writer =
  ws :: "nat list"
  wsem :: bool

definition new_writer :: writer where
  "new_writer = \<lparr>ws = [], wsem = False\<rparr>"

definition writer_addConn :: "nat \<Rightarrow> writer \<Rightarrow> writer" where
  "writer_addConn c w = w\<lparr>wsem := True, ws := ws w @ [c]\<rparr>"

definition writer_rmConn :: "nat \<Rightarrow> writer \<Rightarrow> writer" where
  "writer_rmConn c w = w\<lparr>ws := remove_conn c (ws w)\<rparr>"

definition writer_Close :: "writer \<Rightarrow> 's heap \<Rightarrow> writer \<times> 's heap" where
  "writer_Close w h = (w\<lparr>ws := []\<rparr>, close_conns (ws w) h)"

text \<open>
  The goroutines of an error group send the same message on different connections. \<^verbatim>\<open>Wait\<close> waits
  for all of them and returns the error of the one that failed first: the errors are collected
  in the order of the connections, and \<open>pick\<close> selects one.
\<close>

fun send_each :: "'s SecOps \<Rightarrow> Msg \<Rightarrow> nat list \<Rightarrow> 's heap \<Rightarrow> go_error list \<times> 's heap" where
  "send_each ops msg [] h = ([], h)"
| "send_each ops msg (c # cs) h =
     (let (err, conn) = SendMsg ops msg (h c);
          (errs, h) = send_each ops msg cs (h(c := conn)) in
      (case err of None \<Rightarrow> errs | Some e \<Rightarrow> e # errs, h))"

definition group_Wait :: "nat \<Rightarrow> go_error list \<Rightarrow> go_error option" where
  "group_Wait pick errs = (if errs = [] then None else Some (errs ! (pick mod length errs)))"

text \<open>
  \<^verbatim>\<open>mwriter.write\<close>: blocked (\<open>None\<close>) until the first connection or the end of the context; with a
  context that is already done the group calls nothing and returns its error.
\<close>

definition mwriter_write ::
  "'s SecOps \<Rightarrow> bool \<Rightarrow> nat \<Rightarrow> Msg \<Rightarrow> writer \<Rightarrow> 's heap \<Rightarrow> (go_error option \<times> 's heap) option" where
  "mwriter_write ops ctxDone pick msg w h =
     (if \<not> wsem w \<and> \<not> ctxDone then None
      else if ctxDone then Some (group_Wait pick (map (\<lambda>_. CtxDone) (ws w)), h)
      else
        let (errs, h) = send_each ops msg (ws w) h in Some (group_Wait pick errs, h))"

definition peer_id :: "'s Conn \<Rightarrow> bytes" where
  "peer_id c = (case PeerMeta c sysSockID of Some v \<Rightarrow> v | None \<Rightarrow> [])"

definition routerMWriter_write ::
  "'s SecOps \<Rightarrow> bool \<Rightarrow> nat \<Rightarrow> Msg \<Rightarrow> writer \<Rightarrow> 's heap \<Rightarrow> (go_error option \<times> 's heap) result option" where
  "routerMWriter_write ops ctxDone pick msg w h =
     (if \<not> wsem w \<and> \<not> ctxDone then None
      else
        case Frames msg of
          [] \<Rightarrow> Some (Panic ''index out of range'')
        | ident # rest \<Rightarrow>
            let dmsg = NewMsgFrom rest;
                targets = filter (\<lambda>c. peer_id (h c) = ident) (ws w);
                (errs, h) = send_each ops dmsg targets h in
            Some (Ok (group_Wait pick errs, h)))"

section \<open>The publisher\<close>

text \<open>
  A subscriber has a buffered channel of capacity \<open>ccap\<close> and a goroutine that takes messages from
  it. Once the channel is closed, the goroutine drains what is left and ends. \<open>waiting\<close> tells
  whether the goroutine of a connection is blocked in its receive, which only matters for a
  channel without a buffer.
\<close>

record pubchan =
  cbuf :: "Msg list"
  ccap :: nat
  copen :: bool

record pubwriter =
  subscribers :: "nat list"
  workers :: "nat \<Rightarrow> pubchan option"
  hwm :: int

definition DefaultSendHwm :: int where "DefaultSendHwm = 1000"

definition newPubMWriter :: pubwriter where
  "newPubMWriter = \<lparr>subscribers = [], workers = (\<lambda>_. None), hwm = DefaultSendHwm\<rparr>"

definition pub_addConn :: "nat \<Rightarrow> pubwriter \<Rightarrow> pubwriter result" where
  "pub_addConn c w =
     (if hwm w < 0 then Panic ''makechan: size out of range''
      else
        Ok (w\<lparr>subscribers := (if c \<in> set (subscribers w) then subscribers w else subscribers w @ [c]),
              workers := (workers w)(c \<mapsto> \<lparr>cbuf = [], ccap = nat (hwm w), copen = True\<rparr>)\<rparr>))"

definition close_chan :: "nat \<Rightarrow> pubwriter \<Rightarrow> pubwriter" where
  "close_chan c w = w\<lparr>workers := (workers w)(c := map_option (\<lambda>ch. ch\<lparr>copen := False\<rparr>) (workers w c))\<rparr>"

definition pub_rmConn :: "nat \<Rightarrow> pubwriter \<Rightarrow> 's heap \<Rightarrow> pubwriter \<times> 's heap" where
  "pub_rmConn c w h =
     (if c \<in> set (subscribers w)
      then (close_chan c (w\<lparr>subscribers := remove1 c (subscribers w)\<rparr>), h(c := Conn_Close (h c)))
      else (w, h))"

definition pub_Close :: "pubwriter \<Rightarrow> 's heap \<Rightarrow> pubwriter \<times> 's heap" where
  "pub_Close w h = ((foldl (\<lambda>w c. close_chan c w) w (subscribers w))\<lparr>subscribers := []\<rparr>, close_conns (subscribers w) h)"

text \<open>The send of \<^verbatim>\<open>write\<close> to one channel: a full channel drops the message.\<close>

definition offer :: "bool \<Rightarrow> Msg \<Rightarrow> pubchan \<Rightarrow> pubchan" where
  "offer waiting msg ch =
     (if length (cbuf ch) < ccap ch \<or> (ccap ch = 0 \<and> waiting \<and> cbuf ch = [])
      then ch\<lparr>cbuf := cbuf ch @ [msg]\<rparr> else ch)"

fun pub_write_loop :: "(nat \<Rightarrow> bool) \<Rightarrow> Msg \<Rightarrow> nat list \<Rightarrow> pubwriter \<Rightarrow> pubwriter" where
  "pub_write_loop waiting msg [] w = w"
| "pub_write_loop waiting msg (c # cs) w =
     pub_write_loop waiting msg cs
       (w\<lparr>workers := (workers w)(c := map_option (offer (waiting c) msg) (workers w c))\<rparr>)"

text \<open>
  With a context that is done, the loop returns its error at a subscriber where the \<^verbatim>\<open>select\<close>
  takes that branch: \<open>pick\<close> subscribers are served before that.
\<close>

definition pub_write ::
  "bool \<Rightarrow> nat \<Rightarrow> (nat \<Rightarrow> bool) \<Rightarrow> Msg \<Rightarrow> pubwriter \<Rightarrow> go_error option \<times> pubwriter" where
  "pub_write ctxDone pick waiting msg w =
     (if ctxDone \<and> pick < length (subscribers w)
      then (Some CtxDone, pub_write_loop waiting msg (take pick (subscribers w)) w)
      else (None, pub_write_loop waiting msg (subscribers w) w))"

text \<open>One round of the goroutine of a subscriber.\<close>

definition pub_worker :: "'s SecOps \<Rightarrow> nat \<Rightarrow> pubwriter \<Rightarrow> 's heap \<Rightarrow> (pubwriter \<times> 's heap) result" where
  "pub_worker ops c w h =
     (case workers w c of
        None \<Rightarrow> Ok (w, h)
      | Some ch \<Rightarrow>
          (case cbuf ch of
             [] \<Rightarrow> if copen ch then Ok (w, h) else Ok (w\<lparr>workers := (workers w)(c := None)\<rparr>, h)
           | msg # rest \<Rightarrow>
               let w = w\<lparr>workers := (workers w)(c \<mapsto> ch\<lparr>cbuf := rest\<rparr>)\<rparr> in
               case Frames msg of
                 [] \<Rightarrow> Panic ''index out of range''
               | topic # _ \<Rightarrow>
                   if subscribed topic (h c) then Ok (w, h(c := snd (SendMsg ops msg (h c)))) else Ok (w, h)))"

section \<open>Lemmas: readers\<close>

lemma listen_exit_sel [simp]:
  "chan (fst (listen_exit r q h)) = chan q" "lis (fst (listen_exit r q h)) = (lis q)(r := None)"
  by (simp_all add: listen_exit_def reader_rmConn_def)

lemma listen_read_cases:
  assumes "listen_read ops on_msg ctxDone r q h = Ok (q', h')"
  shows "(\<exists>x. (q', h') = listen_exit r q x) \<or> q' = q \<or> (\<exists>m quit. q' = q\<lparr>lis := (lis q)(r \<mapsto> Pushing m quit)\<rparr>)"
proof -
  obtain msg c where read: "Conn_read ops (h r) = (Ok msg, c)"
    using assms by (auto simp: listen_read_def split: prod.splits result.splits)
  show ?thesis
  proof (cases ctxDone)
    case True
    then show ?thesis using assms read by (simp add: listen_read_def) metis
  next
    case False
    then obtain act c' where "on_msg r c msg = Ok (act, c')"
      using assms read by (auto simp: listen_read_def)
    then show ?thesis
      using assms read False by (cases act) (auto simp: listen_read_def, metis)
  qed
qed

lemma listen_read_frame:
  assumes "listen_read ops on_msg ctxDone r q h = Ok (q', h')"
  shows "chan q' = chan q" "r' \<noteq> r \<Longrightarrow> lis q' r' = lis q r'"
  using listen_read_cases [OF assms] by (auto simp: listen_exit_def reader_rmConn_def)

lemma pending_cong: "lis q r = lis q' r \<Longrightarrow> pending r q = pending r q'"
  by (simp add: pending_def)

lemma in_chan_cong: "chan q = chan q' \<Longrightarrow> in_chan r q = in_chan r q'"
  by (simp add: in_chan_def)

lemma events_append [simp]:
  "produced_by r (tr @ tr') = produced_by r tr @ produced_by r tr'"
  "taken_from r (tr @ tr') = taken_from r tr @ taken_from r tr'"
  subgoal by (induction tr rule: produced_by.induct) auto
  subgoal by (induction tr rule: taken_from.induct) auto
  done

definition reader_inv :: "'m event list \<Rightarrow> 'm reader \<Rightarrow> bool" where
  "reader_inv tr q \<longleftrightarrow> length (chan q) \<le> qrsize \<and>
     (\<forall>r. produced_by r tr = taken_from r tr @ in_chan r q @ pending r q)"

lemma listen_push_inv:
  assumes "reader_inv tr q" "lis q r = Some (Pushing m quit)" "length (chan q) < qrsize"
  shows "reader_inv tr (fst (listen_push r m quit q h))"
proof -
  let ?q = "fst (listen_push r m quit q h)"
  have chan: "chan ?q = chan q @ [(r, m)]" by (simp add: listen_push_def Let_def)
  have lis: "lis ?q r' = (if r' = r then if quit then None else Some Reading else lis q r')" for r'
    by (simp add: listen_push_def Let_def)
  have "in_chan r' ?q @ pending r' ?q = in_chan r' q @ pending r' q" for r'
    using assms(2) by (simp add: in_chan_def pending_def chan lis)
  then show ?thesis
    using assms by (simp add: reader_inv_def chan)
qed

lemma reader_inv_same:
  "reader_inv tr q \<Longrightarrow> chan q' = chan q \<Longrightarrow> lis q' = lis q \<Longrightarrow> reader_inv (tr @ [Tau]) q'"
  by (simp add: reader_inv_def in_chan_def pending_def)

lemma reader_step_inv:
  assumes "reader_step ops on_msg ctxDone (q, h) e (q', h')" "reader_inv tr q"
  shows "reader_inv (tr @ [e]) q'"
  using assms
proof (cases rule: reader_step.cases)
  case (add r)
  have "pending r' q' = pending r' q" for r'
    using add by (auto simp: pending_def reader_addConn_def domIff)
  then show ?thesis
    using assms(2) add by (simp add: reader_inv_def in_chan_def reader_addConn_def)
next
  case (receive r m quit)
  note f = listen_read_frame [OF receive(3)]
  have "pending r' q' = (if r' = r then [m] else pending r' q)" for r'
    using receive f by (auto simp: pending_def)
  moreover have "pending r q = []" using receive by (simp add: pending_def)
  ultimately show ?thesis
    using assms(2) receive f by (auto simp: reader_inv_def in_chan_def f(1))
next
  case (silent r)
  note f = listen_read_frame [OF silent(3)]
  have "pending r' q' = pending r' q" for r'
  proof (cases "r' = r")
    case True
    have "pending r q' = []" using silent(4) by (auto simp: pending_def split: option.splits lpc.splits)
    then show ?thesis using True silent(2) by (simp add: pending_def)
  qed (auto intro: pending_cong f)
  then show ?thesis
    using assms(2) silent f by (simp add: reader_inv_def in_chan_def f(1))
next
  case (push r m quit)
  have q': "q' = fst (listen_push r m quit q h)" using push(2) by (metis fst_conv)
  then show ?thesis
    using listen_push_inv [OF assms(2) push(3,4), of h] push(1) by (simp add: reader_inv_def)
next
  case (take r m rest)
  then have q': "q' = q\<lparr>chan := rest\<rparr>"
    by (auto simp: reader_select_def split: if_splits)
  then show ?thesis
    using assms(2) take by (auto simp: reader_inv_def in_chan_def pending_def)
next
  case (remove r)
  then show ?thesis using reader_inv_same [OF assms(2), of q'] by (simp add: reader_rmConn_def)
next
  case close
  then show ?thesis using reader_inv_same [OF assms(2), of q'] by (simp add: reader_Close_def)
next
  case (network r w)
  then show ?thesis using reader_inv_same [OF assms(2), of q'] by simp
qed

lemma reader_run_inv:
  assumes "reader_run ops on_msg ctxDone s tr s'" "reader_inv [] (fst s)"
  shows "reader_inv tr (fst s')"
  using assms
proof (induction rule: reader_run.induct)
  case (snoc s tr s' e s'')
  then show ?case
    using reader_step_inv [of ops on_msg ctxDone "fst s'" "snd s'" e "fst s''" "snd s''" tr] by simp
qed simp

lemma new_reader_inv: "reader_inv [] new_reader"
  by (simp add: reader_inv_def new_reader_def in_chan_def pending_def)

interpretation reader_pool: conn_pool rs reader_addConn reader_rmConn
  by unfold_locales (simp_all add: reader_addConn_def reader_rmConn_def)

interpretation writer_pool: conn_pool ws writer_addConn writer_rmConn
  by unfold_locales (simp_all add: writer_addConn_def writer_rmConn_def)

section \<open>Lemmas: writers\<close>

lemma send_each_spec:
  assumes "distinct cs" "send_each ops msg cs h = (errs, h')"
  shows "h' c = (if c \<in> set cs then snd (SendMsg ops msg (h c)) else h c)"
    and "set errs = {e. \<exists>c \<in> set cs. fst (SendMsg ops msg (h c)) = Some e}"
proof -
  have "h' c = (if c \<in> set cs then snd (SendMsg ops msg (h c)) else h c) \<and>
      set errs = {e. \<exists>c \<in> set cs. fst (SendMsg ops msg (h c)) = Some e}"
    using assms
  proof (induction cs arbitrary: h errs h')
    case (Cons x cs)
    obtain err conn where x: "SendMsg ops msg (h x) = (err, conn)" by (cases "SendMsg ops msg (h x)")
    obtain errs2 h2 where rest: "send_each ops msg cs (h(x := conn)) = (errs2, h2)"
      by (cases "send_each ops msg cs (h(x := conn))")
    have x': "x \<notin> set cs" using Cons.prems(1) by simp
    have ih: "h2 c = (if c \<in> set cs then snd (SendMsg ops msg ((h(x := conn)) c)) else (h(x := conn)) c)"
      "set errs2 = {e. \<exists>c \<in> set cs. fst (SendMsg ops msg ((h(x := conn)) c)) = Some e}"
      using Cons.IH [OF _ rest] Cons.prems(1) by auto
    moreover have "set errs2 = {e. \<exists>c \<in> set cs. fst (SendMsg ops msg (h c)) = Some e}"
      unfolding ih(2) using x' by (intro Collect_cong) (metis fun_upd_other)
    ultimately have "h2 c = (if c \<in> set cs then snd (SendMsg ops msg (h c)) else (h(x := conn)) c)"
      "set errs2 = {e. \<exists>c \<in> set cs. fst (SendMsg ops msg (h c)) = Some e}"
      using x' by auto
    then show ?case
      using Cons.prems(2) x rest by (auto split: option.splits)
  qed simp
  then show "h' c = (if c \<in> set cs then snd (SendMsg ops msg (h c)) else h c)"
    "set errs = {e. \<exists>c \<in> set cs. fst (SendMsg ops msg (h c)) = Some e}" by auto
qed

lemma group_Wait_spec:
  "group_Wait pick errs = None \<longleftrightarrow> errs = []" "group_Wait pick errs = Some e \<Longrightarrow> e \<in> set errs"
  by (auto simp: group_Wait_def split: if_splits)

section \<open>Lemmas: the publisher\<close>

lemma pub_write_loop_spec:
  assumes "distinct cs"
  shows "workers (pub_write_loop waiting msg cs w) c =
      (if c \<in> set cs then map_option (offer (waiting c) msg) (workers w c) else workers w c)"
    and "subscribers (pub_write_loop waiting msg cs w) = subscribers w"
  using assms by (induction cs arbitrary: w) auto

definition pub_inv :: "pubwriter \<Rightarrow> bool" where
  "pub_inv w \<longleftrightarrow> distinct (subscribers w) \<and>
     (\<forall>c \<in> set (subscribers w). \<exists>ch. workers w c = Some ch \<and> copen ch) \<and>
     (\<forall>c ch. workers w c = Some ch \<longrightarrow> length (cbuf ch) \<le> max 1 (ccap ch))"

lemma offer_bound: "length (cbuf ch) \<le> max 1 (ccap ch) \<Longrightarrow> length (cbuf (offer b msg ch)) \<le> max 1 (ccap (offer b msg ch))"
  by (auto simp: offer_def)

lemma offer_open [simp]: "copen (offer b msg ch) = copen ch" "ccap (offer b msg ch) = ccap ch"
  by (simp_all add: offer_def)

lemma pub_addConn_inv: "pub_inv w \<Longrightarrow> pub_addConn c w = Ok w' \<Longrightarrow> pub_inv w'"
  by (auto simp: pub_inv_def pub_addConn_def split: if_splits)

lemma pub_rmConn_inv: "pub_inv w \<Longrightarrow> pub_inv (fst (pub_rmConn c w h))"
  by (auto simp: pub_inv_def pub_rmConn_def close_chan_def map_option_case split: option.splits)

lemma pub_write_inv:
  assumes "pub_inv w"
  shows "pub_inv (snd (pub_write ctxDone pick waiting msg w))"
proof -
  have "pub_inv (pub_write_loop waiting msg cs w)" if cs: "distinct cs" for cs
    unfolding pub_inv_def
  proof (intro conjI ballI allI impI)
    let ?w = "pub_write_loop waiting msg cs w"
    show "distinct (subscribers ?w)" using assms cs by (simp add: pub_inv_def pub_write_loop_spec)
    show "\<exists>ch. workers ?w c = Some ch \<and> copen ch" if "c \<in> set (subscribers ?w)" for c
      using assms cs that by (fastforce simp: pub_inv_def pub_write_loop_spec)
    show "length (cbuf ch) \<le> max 1 (ccap ch)" if "workers ?w c = Some ch" for c ch
      using assms cs that by (auto simp: pub_inv_def pub_write_loop_spec offer_def split: if_splits)
  qed
  moreover have "distinct (subscribers w)" using assms by (simp add: pub_inv_def)
  ultimately show ?thesis by (simp add: pub_write_def)
qed

lemma pub_worker_inv: "pub_inv w \<Longrightarrow> pub_worker ops c w h = Ok (w', h') \<Longrightarrow> pub_inv w'"
  unfolding pub_inv_def
  by (auto simp: pub_worker_def Let_def split: option.splits list.splits if_splits) fastforce+

lemma close_chans_bound:
  "(\<And>c ch. workers w c = Some ch \<Longrightarrow> length (cbuf ch) \<le> max 1 (ccap ch)) \<Longrightarrow>
   workers (foldl (\<lambda>w c. close_chan c w) w cs) c = Some ch \<Longrightarrow> length (cbuf ch) \<le> max 1 (ccap ch)"
proof (induction cs arbitrary: w)
  case (Cons x cs)
  have "length (cbuf ch') \<le> max 1 (ccap ch')" if "workers (close_chan x w) c' = Some ch'" for c' ch'
    using that Cons.prems(1) by (auto simp: close_chan_def split: if_splits)
  then show ?case
    using Cons.IH [of "close_chan x w"] Cons.prems(2) by simp
qed simp

lemma pub_Close_inv:
  assumes "pub_inv w"
  shows "pub_inv (fst (pub_Close w h))"
  using assms close_chans_bound [of w] by (simp add: pub_inv_def pub_Close_def)

text \<open>
  The publisher as a state machine: connections come and go, the caller publishes and changes
  the high-water mark, the goroutines of the subscribers run, peers subscribe, in any order.
\<close>

inductive pub_step :: "'s SecOps \<Rightarrow> pubwriter \<times> 's heap \<Rightarrow> pubwriter \<times> 's heap \<Rightarrow> bool" for ops where
  pub_add: "pub_addConn c w = Ok w' \<Longrightarrow> pub_step ops (w, h) (w', h)"
| pub_rm: "pub_step ops (w, h) (pub_rmConn c w h)"
| pub_close: "pub_step ops (w, h) (pub_Close w h)"
| pub_publish: "pub_step ops (w, h) (snd (pub_write ctxDone pick waiting msg w), h)"
| pub_sethwm: "pub_step ops (w, h) (w\<lparr>hwm := n\<rparr>, h)"
| pub_work: "pub_worker ops c w h = Ok (w', h') \<Longrightarrow> pub_step ops (w, h) (w', h')"
| pub_conn: "pub_step ops (w, h) (w, h(c := conn))"

lemma pub_step_inv: "pub_step ops (w, h) (w', h') \<Longrightarrow> pub_inv w \<Longrightarrow> pub_inv w'"
proof (induction "(w, h)" "(w', h')" rule: pub_step.induct)
  case (pub_rm c)
  then show ?case using pub_rmConn_inv [of w c h] by (metis fst_conv)
next
  case pub_close
  then show ?case using pub_Close_inv [of w h] by (metis fst_conv)
next
  case (pub_add c)
  then show ?case using pub_addConn_inv by blast
next
  case (pub_work c)
  then show ?case using pub_worker_inv by blast
next
  case (pub_publish ctxDone pick waiting msg)
  then show ?case using pub_write_inv by blast
next
  case (pub_sethwm n)
  then show ?case by (auto simp: pub_inv_def)
qed simp

lemma pub_steps_inv:
  "(pub_step ops)\<^sup>*\<^sup>* s s' \<Longrightarrow> pub_inv (fst s) \<Longrightarrow> pub_inv (fst s')"
proof (induction rule: rtranclp_induct)
  case (step s' s'')
  then show ?case using pub_step_inv [of ops "fst s'" "snd s'" "fst s''" "snd s''"] by simp
qed simp

lemma newPubMWriter_inv: "pub_inv newPubMWriter"
  by (simp add: pub_inv_def newPubMWriter_def)

section \<open>Properties\<close>

text \<open>
  C4: a queued reader is fair to every connection. Under every interleaving of listeners, calls
  of \<^verbatim>\<open>read\<close>, additions, removals, closes and network events, the messages of one connection
  reach the callers in the order in which its listener produced them, none is lost and none is
  duplicated (what was produced is what was taken, what is in the channel, and at most one message
  in the hands of the listener), and the channel never holds more than ten messages.
\<close>

theorem reader_delivers_in_order:
  assumes "reader_run ops on_msg ctxDone (new_reader, h) tr (q, h')"
  shows "length (chan q) \<le> qrsize \<and>
    (\<forall>r. produced_by r tr = taken_from r tr @ in_chan r q @ pending r q \<and> length (pending r q) \<le> 1)"
proof -
  have "length (pending r q) \<le> 1" for r
    by (simp add: pending_def split: option.splits lpc.splits)
  then show ?thesis
    using reader_run_inv [OF assms] new_reader_inv by (simp add: reader_inv_def)
qed

lemma Conn_read_small:
  assumes "rx (rw c) = [0, 1, b]" "\<not> rw_closed (rw c)"
  shows "Conn_read null_ops c = (Ok (NewMsg [b]), got [] (sec c) c)"
proof -
  have "null.delivers [[b]] (sec c) (sec c) [0, 1, b]"
  proof (rule null.delivers_last)
    show "null.carries (wire_flag (more_flag False) (length [b] > 255) False) [b] (sec c) (sec c) [0, 1, b]"
      using null.copy_carries [of 0 "[b]" "sec c"] by (simp add: wire_flag_def more_flag_def frame_header_def)
  qed (simp add: maxAlloc_def)
  then show ?thesis
    using assms by (simp add: null.delivers_def Conn_read_def NewMsg_def)
qed

theorem reader_delivers_in_order_witness:
  "\<exists>q h' tr. reader_run null_ops qreader_on_msg False
       (new_reader, \<lambda>_. new_Conn (ended_net [0, 1, 65]) () SockPull [] False True) tr (q, h') \<and>
     produced_by 7 tr = [NewMsg [65]] \<and> taken_from 7 tr = [NewMsg [65]] \<and>
     length (chan q) \<le> qrsize \<and> in_chan 7 q @ pending 7 q = []"
proof -
  let ?c = "new_Conn (ended_net [0, 1, 65]) () SockPull [] False True"
  let ?h = "\<lambda>_ :: nat. ?c"
  let ?m = "NewMsg [65]"
  let ?q1 = "reader_addConn 7 new_reader"
  let ?q2 = "?q1\<lparr>lis := (lis ?q1)(7 \<mapsto> Pushing ?m False)\<rparr>"
  let ?h2 = "?h(7 := got [] () ?c)"
  let ?q3 = "fst (listen_push 7 ?m False ?q2 ?h2)"
  let ?step = "reader_step null_ops qreader_on_msg False"
  have "Conn_read null_ops ?c = (Ok ?m, got [] () ?c)"
    using Conn_read_small [of ?c 65] by (simp add: new_Conn_def ended_net_def)
  then have rd: "listen_read null_ops qreader_on_msg False 7 ?q1 ?h = Ok (?q2, ?h2)"
    by (simp add: listen_read_def qreader_on_msg_def NewMsg_def zeroMsg_def)
  have s1: "?step (new_reader, ?h) Tau (?q1, ?h)"
    by (rule reader_step.add) (simp add: new_reader_def)
  have s2: "?step (?q1, ?h) (Produced 7 ?m) (?q2, ?h2)"
    by (rule reader_step.receive [OF _ rd, of _ False]) (simp_all add: reader_addConn_def)
  have s3: "?step (?q2, ?h2) Tau (?q3, ?h2)"
    using reader_step.push [of ?q2 7 ?m False null_ops qreader_on_msg False ?h2]
    by (simp add: listen_push_def reader_addConn_def new_reader_def qrsize_def)
  have s4: "?step (?q3, ?h2) (Taken 7 ?m) (?q3\<lparr>chan := []\<rparr>, ?h2)"
    by (rule reader_step.take [of _ _ _ "[]"])
      (simp_all add: listen_push_def reader_addConn_def new_reader_def reader_select_def)
  obtain q h' where run: "reader_run null_ops qreader_on_msg False (new_reader, ?h)
      [Tau, Produced 7 ?m, Tau, Taken 7 ?m] (q, h')"
    using reader_run.snoc [OF reader_run.snoc [OF reader_run.snoc [OF reader_run.snoc [OF reader_run.start s1] s2] s3] s4]
    by auto
  have "length (chan q) \<le> qrsize" "[?m] = [?m] @ in_chan 7 q @ pending 7 q"
    using conjunct1 [OF reader_delivers_in_order [OF run]]
      spec [OF conjunct2 [OF reader_delivers_in_order [OF run]], of 7] by simp_all
  then show ?thesis
    using run by (intro exI [of _ q] exI [of _ h'] exI [of _ "[Tau, Produced 7 ?m, Tau, Taken 7 ?m]"]) simp
qed

text \<open>
  the fan-out writer reaches every connection. On a pool of distinct connections each one
  gets exactly the message, whatever happens on the others; the other connections do not change;
  and the call returns nil exactly when every send succeeded, else the error of one that failed.
\<close>

theorem mwriter_write_reaches_all:
  assumes "distinct (ws w)" "wsem w"
  shows "\<exists>err h'. mwriter_write ops False pick msg w h = Some (err, h') \<and>
    (\<forall>c. h' c = (if c \<in> set (ws w) then snd (SendMsg ops msg (h c)) else h c)) \<and>
    (err = None \<longleftrightarrow> (\<forall>c \<in> set (ws w). fst (SendMsg ops msg (h c)) = None)) \<and>
    (\<forall>e. err = Some e \<longrightarrow> (\<exists>c \<in> set (ws w). fst (SendMsg ops msg (h c)) = Some e))"
proof -
  obtain errs h' where s: "send_each ops msg (ws w) h = (errs, h')"
    by (cases "send_each ops msg (ws w) h")
  note spec = send_each_spec [OF assms(1) s]
  have "errs = [] \<longleftrightarrow> (\<forall>c \<in> set (ws w). fst (SendMsg ops msg (h c)) = None)"
    using spec(2) by (simp add: set_eq_iff flip: set_empty2) (metis not_None_eq)
  then show ?thesis
    using assms(2) spec group_Wait_spec [of pick errs] by (auto simp: mwriter_write_def s)
qed

theorem mwriter_write_reaches_all_witness:
  "\<exists>err h'. mwriter_write null_ops False 0 (NewMsg [1]) \<lparr>ws = [2, 5], wsem = True\<rparr>
      (\<lambda>_. new_Conn (open_net []) () SockPush [] False True) = Some (err, h') \<and>
    h' 5 = snd (SendMsg null_ops (NewMsg [1]) (new_Conn (open_net []) () SockPush [] False True)) \<and>
    h' 4 = new_Conn (open_net []) () SockPush [] False True"
  using mwriter_write_reaches_all [of "\<lparr>ws = [2, 5], wsem = True\<rparr>" null_ops 0 "NewMsg [1]"
      "\<lambda>_. new_Conn (open_net []) () SockPush [] False True"]
  by auto

text \<open>
  a ROUTER replies to the peer that asked. What the listener of connection \<open>r\<close> queues starts
  with the identity of its peer; a reply that starts with that identity is sent, without the
  identity, on the connections of that peer and on no other, so only on \<open>r\<close> when identities are
  unique; and a reply to an unknown identity is dropped with a nil error.
\<close>

theorem router_replies_to_requester:
  assumes "distinct (ws w)" "wsem w" "r \<in> set (ws w)"
    and "router_on_msg r (h r) msg = Ok (Push req False, conn)"
    and "\<forall>c \<in> set (ws w). peer_id (h c) = peer_id (h r) \<longrightarrow> c = r"
  shows "(\<exists>err h'. routerMWriter_write ops False pick (NewMsgFrom (hd (Frames req) # reply)) w h = Some (Ok (err, h')) \<and>
      (\<forall>c. h' c = (if c = r then snd (SendMsg ops (NewMsgFrom reply) (h r)) else h c))) \<and>
    (ident \<notin> peer_id ` h ` set (ws w) \<longrightarrow>
      routerMWriter_write ops False pick (NewMsgFrom (ident # reply)) w h = Some (Ok (None, h)))"
proof -
  have req: "hd (Frames req) = peer_id (h r)"
    using assms(4) by (auto simp: router_on_msg_def peer_id_def Let_def split: if_splits)
  let ?t = "filter (\<lambda>c. peer_id (h c) = peer_id (h r)) (ws w)"
  obtain errs h' where s: "send_each ops (NewMsgFrom reply) ?t h = (errs, h')"
    by (cases "send_each ops (NewMsgFrom reply) ?t h")
  have "distinct ?t" "set ?t = {r}" using assms by auto
  then have "h' c = (if c = r then snd (SendMsg ops (NewMsgFrom reply) (h r)) else h c)" for c
    using send_each_spec(1) [OF _ s, of c] by auto
  moreover have "filter (\<lambda>c. peer_id (h c) = ident) (ws w) = []" if "ident \<notin> peer_id ` h ` set (ws w)"
    using that by (auto simp: filter_empty_conv)
  ultimately show ?thesis
    using assms(2) s by (auto simp: routerMWriter_write_def req Let_def group_Wait_def)
qed

definition sample_peers :: "unit heap" where
  "sample_peers r = (new_Conn (open_net []) () SockRouter [] True True)\<lparr>PeerMeta := [sysSockID \<mapsto> [of_nat r]]\<rparr>"

theorem router_replies_to_requester_witness:
  "(\<exists>err h'. routerMWriter_write null_ops False 0 (NewMsgFrom [[2], [], [9]]) \<lparr>ws = [1, 2], wsem = True\<rparr> sample_peers =
      Some (Ok (err, h')) \<and>
      h' 2 = snd (SendMsg null_ops (NewMsgFrom [[], [9]]) (sample_peers 2)) \<and> h' 1 = sample_peers 1) \<and>
   routerMWriter_write null_ops False 0 (NewMsgFrom [[3], [9]]) \<lparr>ws = [1, 2], wsem = True\<rparr> sample_peers =
     Some (Ok (None, sample_peers))"
proof -
  let ?w = "\<lparr>ws = [1, 2], wsem = True\<rparr>" and ?req = "NewMsgFrom [[2], [], [5]]"
  have ids: "peer_id (sample_peers (Suc 0)) = [1]" "peer_id (sample_peers 2) = [2]"
    by (simp_all add: peer_id_def sample_peers_def)
  have "router_on_msg 2 (sample_peers 2) (NewMsgFrom [[], [5]]) = Ok (Push ?req False, sample_peers 2)"
    by (simp add: router_on_msg_def sample_peers_def NewMsgFrom_def zeroMsg_def)
  then show ?thesis
    using router_replies_to_requester [of ?w 2 sample_peers "NewMsgFrom [[], [5]]" ?req "sample_peers 2" null_ops 0 "[[], [9]]" "[4]"]
      router_replies_to_requester [of ?w 2 sample_peers "NewMsgFrom [[], [5]]" ?req "sample_peers 2" null_ops 0 "[[9]]" "[3]"]
    by (auto simp: ids)
qed

text \<open>
  C34: a slow subscriber does not hold up the publisher or the others. In every reachable state
  each subscriber has an open channel of its own whose length stays within its capacity; \<open>write\<close>
  returns at once with a nil error, appends the message to exactly the channels with room and
  drops it for the full ones, and changes nothing else.
\<close>

theorem pub_write_isolates_subscribers:
  assumes "(pub_step ops)\<^sup>*\<^sup>* (newPubMWriter, h) (w, h')"
  shows "(\<forall>c \<in> set (subscribers w). \<exists>ch. workers w c = Some ch \<and> copen ch \<and> length (cbuf ch) \<le> max 1 (ccap ch)) \<and>
    (\<exists>w'. pub_write False pick waiting msg w = (None, w') \<and> subscribers w' = subscribers w \<and>
      (\<forall>c. c \<notin> set (subscribers w) \<longrightarrow> workers w' c = workers w c) \<and>
      (\<forall>c ch. c \<in> set (subscribers w) \<longrightarrow> workers w c = Some ch \<longrightarrow> 0 < ccap ch \<longrightarrow>
        workers w' c = Some (ch\<lparr>cbuf := cbuf ch @ (if length (cbuf ch) < ccap ch then [msg] else [])\<rparr>)))"
proof -
  have inv: "pub_inv w" using pub_steps_inv [OF assms] newPubMWriter_inv by simp
  then have "distinct (subscribers w)" by (simp add: pub_inv_def)
  note loop = pub_write_loop_spec [OF this]
  have "offer b msg ch = ch\<lparr>cbuf := cbuf ch @ (if length (cbuf ch) < ccap ch then [msg] else [])\<rparr>"
    if "0 < ccap ch" for b and ch :: pubchan
    using that by (auto simp: offer_def)
  then show ?thesis
    using inv by (auto simp: pub_write_def loop pub_inv_def)
qed

theorem pub_write_isolates_subscribers_witness:
  "(pub_step null_ops)\<^sup>*\<^sup>* (newPubMWriter, sample_peers)
     (newPubMWriter\<lparr>subscribers := [3], workers := [3 \<mapsto> \<lparr>cbuf = [], ccap = 1000, copen = True\<rparr>]\<rparr>, sample_peers) \<and>
   (\<exists>w'. pub_write False 0 (\<lambda>_. False) (NewMsg [1])
      (newPubMWriter\<lparr>subscribers := [3], workers := [3 \<mapsto> \<lparr>cbuf = [], ccap = 1000, copen = True\<rparr>]\<rparr>) = (None, w') \<and>
      workers w' 3 = Some \<lparr>cbuf = [NewMsg [1]], ccap = 1000, copen = True\<rparr>)"
proof -
  let ?w = "newPubMWriter\<lparr>subscribers := [3], workers := [3 \<mapsto> \<lparr>cbuf = [], ccap = 1000, copen = True\<rparr>]\<rparr>"
  have "pub_addConn 3 newPubMWriter = Ok ?w"
    by (simp add: pub_addConn_def newPubMWriter_def DefaultSendHwm_def fun_eq_iff)
  then have steps: "(pub_step null_ops)\<^sup>*\<^sup>* (newPubMWriter, sample_peers) (?w, sample_peers)"
    by (intro r_into_rtranclp pub_step.pub_add)
  then show ?thesis
    using pub_write_isolates_subscribers [OF steps, of 0 "\<lambda>_. False" "NewMsg [1]"] by auto
qed

text \<open>
  reading from a socket that was closed. With a done context and an empty channel the queued
  reader reports the context's error, but the reader of PUB and XPUB returns an empty message with
  a nil error, which a caller cannot tell from a message.
\<close>

theorem pub_read_hides_cancellation:
  assumes "chan q = []"
  shows "qreader_read True pick q = Some (zeroMsg, Some CtxDone, q) \<and>
    pubQReader_read True pick q = Some (zeroMsg, None, q)"
  using assms by (simp add: qreader_read_def pubQReader_read_def reader_select_def)

theorem pub_read_hides_cancellation_witness:
  "pubQReader_read True False new_reader = Some (zeroMsg, None, new_reader)"
  using pub_read_hides_cancellation [of new_reader False] by (simp add: new_reader_def)

text \<open>
  a pooled socket does not take part in heartbeats. Its listener reads with \<open>read\<close> instead of
  \<open>RecvMsg\<close>: a PING from the peer is queued for the application as a message (of type \<open>CmdMsg\<close>,
  with the marshalled command as its frame), and nothing is written, so no PONG is sent.
\<close>

theorem pooled_ping_unanswered:
  assumes "lis q r = Some Reading" "up (h r)" "rx (rw (h r)) = cmd_wire CmdPing body @ rest"
    and "length body \<le> 1000"
  shows "\<exists>q' h'. listen_read null_ops qreader_on_msg False r q h = Ok (q', h') \<and>
    lis q' r = Some (Pushing (zeroMsg\<lparr>Frames := [4 # CmdPing @ body], msgType := CmdMsg\<rparr>) False) \<and>
    tx (rw (h' r)) = tx (rw (h r)) \<and> rx (rw (h' r)) = rest"
proof -
  have len: "length CmdPing = 4" by (simp add: CmdPing_def)
  have "null.delivers_cmd \<lparr>cmdName = CmdPing, cmdBody = body\<rparr> (sec (h r)) (sec (h r)) (cmd_wire CmdPing body)"
    using assms(4) len by (intro null.cmd_delivered) (simp_all add: maxAlloc_def)
  then have "Conn_read null_ops (h r) = (Ok (zeroMsg\<lparr>Frames := [4 # CmdPing @ body], msgType := CmdMsg\<rparr>),
      got rest (sec (h r)) (h r))"
    using assms up_open [OF assms(2)] by (auto simp: null.delivers_cmd_def marshalZMTP_def Let_def len)
  then show ?thesis
    by (simp add: listen_read_def qreader_on_msg_def)
qed

theorem pooled_ping_unanswered_witness:
  "\<exists>q' h'. listen_read null_ops qreader_on_msg False 1 (reader_addConn 1 new_reader)
     (\<lambda>_. new_Conn (open_net (cmd_wire CmdPing [0, 9])) () SockPull [] False True) = Ok (q', h') \<and>
     tx (rw (h' 1)) = []"
proof -
  let ?h = "\<lambda>_ :: nat. new_Conn (open_net (cmd_wire CmdPing [0, 9])) () SockPull [] False True"
  have "lis (reader_addConn 1 new_reader) 1 = Some Reading" "up (?h 1)"
    "rx (rw (?h 1)) = cmd_wire CmdPing [0, 9] @ []" "length [0, 9 :: byte] \<le> 1000" "tx (rw (?h 1)) = []"
    by (simp_all add: reader_addConn_def up_def new_Conn_def open_net_def)
  then show ?thesis
    using pooled_ping_unanswered [of "reader_addConn 1 new_reader" 1 ?h "[0, 9]" "[]"] by auto
qed

end
