(* ===== verification/Req_Rep.thy ===== *)
theory Req_Rep
  imports Conn_Pools
begin

text \<open>
  The request and reply sockets of \<^verbatim>\<open>src/socket_req.go\<close> and \<^verbatim>\<open>src/socket_rep.go\<close>: the round-robin
  writer of REQ with the connection of the pending request, and the queued reader of REP with the
  envelope of the request it is answering. The reader of REP is the reader of \<open>Conn_Pools\<close> with
  the elements \<open>(conn, msg)\<close>; it has no semaphore.
\<close>

section \<open>REQ\<close>

record reqsock =
  rq_conns :: "nat list"
  nextConn :: nat
  lastConn :: "nat option"

definition new_reqsock :: reqsock where
  "new_reqsock = \<lparr>rq_conns = [], nextConn = 0, lastConn = None\<rparr>"

definition reqState_Set :: "nat \<Rightarrow> reqsock \<Rightarrow> reqsock" where
  "reqState_Set c st = st\<lparr>lastConn := Some c\<rparr>"

definition reqState_Reset :: "nat \<Rightarrow> reqsock \<Rightarrow> reqsock" where
  "reqState_Reset c st = (if lastConn st = Some c then st\<lparr>lastConn := None\<rparr> else st)"

definition req_addConn :: "nat \<Rightarrow> reqsock \<Rightarrow> reqsock" where
  "req_addConn c st = st\<lparr>rq_conns := rq_conns st @ [c]\<rparr>"

definition req_rmConn :: "nat \<Rightarrow> reqsock \<Rightarrow> reqsock" where
  "req_rmConn c st = reqState_Reset c (st\<lparr>rq_conns := remove_conn c (rq_conns st)\<rparr>)"

definition req_Close :: "reqsock \<Rightarrow> 's heap \<Rightarrow> reqsock \<times> 's heap" where
  "req_Close st h = (st\<lparr>rq_conns := []\<rparr>, close_conns (rq_conns st) h)"

definition req_envelope :: "Msg \<Rightarrow> Msg" where
  "req_envelope msg = msg\<lparr>Frames := [[]] @ Frames msg\<rparr>"

text \<open>
  The loop of \<^verbatim>\<open>write\<close> with \<open>k\<close> rounds left, so \<^verbatim>\<open>i = len(r.conns) - k\<close>. In Go, \<^verbatim>\<open>%\<close> binds tighter
  than \<^verbatim>\<open>+\<close>: the index is \<^verbatim>\<open>i + (r.nextConn % len)\<close>, the next one \<^verbatim>\<open>cur + (1 % len)\<close>.
\<close>

fun reqWriter_loop ::
  "'s SecOps \<Rightarrow> Msg \<Rightarrow> nat \<Rightarrow> go_error option \<Rightarrow> reqsock \<Rightarrow> 's heap \<Rightarrow> (go_error option \<times> reqsock \<times> 's heap) result" where
  "reqWriter_loop ops msg 0 err st h =
     Ok (Some (case err of Some e \<Rightarrow> Wrapf ''zmq4: no connections available'' e
                         | None \<Rightarrow> Errorf ''zmq4: no connections available''), st, h)"
| "reqWriter_loop ops msg (Suc k) err st h =
     (let n = length (rq_conns st); i = n - Suc k; cur = i + nextConn st mod n in
      if cur \<ge> n then Panic ''index out of range''
      else
        let conn = rq_conns st ! cur; (err, c) = SendMsg ops msg (h conn); h = h(conn := c) in
        case err of
          None \<Rightarrow> Ok (None, reqState_Set conn (st\<lparr>nextConn := cur + 1 mod n\<rparr>), h)
        | Some e \<Rightarrow> reqWriter_loop ops msg k (Some e) st h)"

definition reqWriter_write ::
  "'s SecOps \<Rightarrow> Msg \<Rightarrow> reqsock \<Rightarrow> 's heap \<Rightarrow> (go_error option \<times> reqsock \<times> 's heap) result" where
  "reqWriter_write ops msg st h = reqWriter_loop ops (req_envelope msg) (length (rq_conns st)) None st h"

definition reqReader_read :: "'s SecOps \<Rightarrow> reqsock \<Rightarrow> 's heap \<Rightarrow> (Msg \<times> go_error option \<times> 's heap) result" where
  "reqReader_read ops st h =
     (case lastConn st of
        None \<Rightarrow> Ok (zeroMsg, Some (Errorf ''zmq4: no connections available''), h)
      | Some r \<Rightarrow>
          (case Conn_read ops (h r) of
             (Panic m, c) \<Rightarrow> Panic m
           | (Err e, c) \<Rightarrow> Err e
           | (Ok msg, c) \<Rightarrow>
               (case msgErr msg of
                  Some e \<Rightarrow> Ok (msg, Some e, h(r := c))
                | None \<Rightarrow>
                    Ok (if length (Frames msg) > 1 then msg\<lparr>Frames := drop 1 (Frames msg)\<rparr> else msg, None, h(r := c)))))"

section \<open>REP\<close>

record repstate =
  rp_conn :: "nat option"
  rp_preamble :: frames

definition newRepState :: repstate where
  "newRepState = \<lparr>rp_conn = None, rp_preamble = []\<rparr>"

definition repState_Set :: "nat \<Rightarrow> frames \<Rightarrow> repstate \<Rightarrow> repstate" where
  "repState_Set c pre st = st\<lparr>rp_conn := Some c, rp_preamble := pre\<rparr>"

definition rep_on_msg :: "('s, nat \<times> Msg) on_msg" where
  "rep_on_msg r c msg = (if msgErr msg \<noteq> None then Ok (Return, c) else Ok (Push (r, msg) False, c))"

text \<open>A nil preamble is \<open>None\<close>. The loop does not stop at the first empty frame.\<close>

definition splitReq_step :: "frames \<Rightarrow> frames option \<times> Msg \<Rightarrow> nat \<Rightarrow> frames option \<times> Msg" where
  "splitReq_step fs acc i =
     (if length (fs ! i) \<noteq> 0 then acc
      else (Some (take (i + 1) fs), if i + 1 < length fs then NewMsgFrom (drop (i + 1) fs) else snd acc))"

definition splitReq :: "Msg \<Rightarrow> frames option \<times> Msg" where
  "splitReq envelope =
     foldl (splitReq_step (Frames envelope)) (None, zeroMsg) [0..<length (Frames envelope)]"

definition repReader_read ::
  "bool \<Rightarrow> bool \<Rightarrow> (nat \<times> Msg) reader \<Rightarrow> repstate \<Rightarrow> (Msg \<times> go_error option \<times> (nat \<times> Msg) reader \<times> repstate) option" where
  "repReader_read ctxDone pick q st =
     (if ctxDone \<and> (pick \<or> chan q = []) then Some (zeroMsg, Some CtxDone, q, st)
      else
        case chan q of
          [] \<Rightarrow> None
        | (_, conn, envelope) # rest \<Rightarrow>
            let q = q\<lparr>chan := rest\<rparr> in
            case msgErr envelope of
              Some e \<Rightarrow> Some (zeroMsg, Some e, q, st)
            | None \<Rightarrow>
                (case splitReq envelope of
                   (None, innerMsg) \<Rightarrow> Some (zeroMsg, Some (Errorf ''zmq4: invalid REP message''), q, st)
                 | (Some pre, innerMsg) \<Rightarrow> Some (innerMsg, None, q, repState_Set conn pre st)))"

record repwriter =
  rp_conns :: "nat list"
  sendClosed :: bool

definition newRepWriter :: repwriter where
  "newRepWriter = \<lparr>rp_conns = [], sendClosed = False\<rparr>"

definition repw_addConn :: "nat \<Rightarrow> repwriter \<Rightarrow> repwriter" where
  "repw_addConn c w = w\<lparr>rp_conns := rp_conns w @ [c]\<rparr>"

definition repw_rmConn :: "nat \<Rightarrow> repwriter \<Rightarrow> repwriter" where
  "repw_rmConn c w = w\<lparr>rp_conns := remove_conn c (rp_conns w)\<rparr>"

definition repw_Close :: "repwriter \<Rightarrow> 's heap \<Rightarrow> repwriter \<times> 's heap" where
  "repw_Close w h = (w\<lparr>sendClosed := True, rp_conns := []\<rparr>, close_conns (rp_conns w) h)"

definition buildReplyMsg :: "frames \<Rightarrow> Msg \<Rightarrow> Msg" where
  "buildReplyMsg preamble msg = NewMsgFrom (preamble @ Frames msg)"

fun sendPayload_loop :: "'s SecOps \<Rightarrow> nat option \<Rightarrow> Msg \<Rightarrow> nat list \<Rightarrow> 's heap \<Rightarrow> 's heap" where
  "sendPayload_loop ops target reply [] h = h"
| "sendPayload_loop ops target reply (c # cs) h =
     (if Some c = target then h(c := snd (SendMsg ops reply (h c))) else sendPayload_loop ops target reply cs h)"

text \<open>
  \<^verbatim>\<open>write\<close> hands the payload to the goroutine \<^verbatim>\<open>run\<close> over a channel without a buffer, and that
  goroutine sends it. A send on the channel after \<^verbatim>\<open>Close\<close> panics.
\<close>

definition repWriter_write ::
  "'s SecOps \<Rightarrow> bool \<Rightarrow> bool \<Rightarrow> Msg \<Rightarrow> repstate \<Rightarrow> repwriter \<Rightarrow> 's heap \<Rightarrow> (go_error option \<times> 's heap) result" where
  "repWriter_write ops ctxDone pick msg st w h =
     (if ctxDone \<and> pick then Ok (Some CtxDone, h)
      else if sendClosed w then Panic ''send on closed channel''
      else Ok (None, sendPayload_loop ops (rp_conn st) (buildReplyMsg (rp_preamble st) msg) (rp_conns w) h))"

section \<open>Lemmas\<close>

interpretation req_pool: conn_pool rq_conns req_addConn req_rmConn
  by unfold_locales (simp_all add: req_addConn_def req_rmConn_def reqState_Reset_def)

interpretation repw_pool: conn_pool rp_conns repw_addConn repw_rmConn
  by unfold_locales (simp_all add: repw_addConn_def repw_rmConn_def)

text \<open>The position of the last empty frame decides the split.\<close>

lemma splitReq_prefix:
  assumes "\<forall>j < length fs. m \<le> j \<longrightarrow> fs ! j \<noteq> []" "m \<le> n" "n \<le> length fs"
  shows "foldl (splitReq_step fs) acc [0..<n] = foldl (splitReq_step fs) acc [0..<m]"
  using assms(2,3)
proof (induction n)
  case (Suc n)
  show ?case
  proof (cases "m = Suc n")
    case False
    then have "m \<le> n" "fs ! n \<noteq> []" using Suc.prems assms(1) by auto
    then show ?thesis using Suc by (simp add: splitReq_step_def)
  qed simp
qed simp

lemma splitReq_none: "\<forall>f \<in> set (Frames e). f \<noteq> [] \<Longrightarrow> splitReq e = (None, zeroMsg)"
  using splitReq_prefix [of "Frames e" 0 "length (Frames e)" "(None, zeroMsg)"]
  by (simp add: splitReq_def all_set_conv_all_nth)

lemma splitReq_last:
  assumes "body \<noteq> []" "\<forall>f \<in> set body. f \<noteq> []"
  shows "splitReq (NewMsgFrom (pre @ [[]] @ body)) = (Some (pre @ [[]]), NewMsgFrom body)"
proof -
  let ?fs = "pre @ [[]] @ body"
  have "\<forall>j < length ?fs. length pre + 1 \<le> j \<longrightarrow> ?fs ! j \<noteq> []"
    using assms(2) by (auto simp: nth_append nth_Cons' in_set_conv_nth)
  then have "foldl (splitReq_step ?fs) (None, zeroMsg) [0..<length ?fs] =
      foldl (splitReq_step ?fs) (None, zeroMsg) [0..<length pre + 1]"
    by (intro splitReq_prefix) auto
  also have "\<dots> = (Some (pre @ [[]]), NewMsgFrom body)"
    using assms(1) by (simp add: splitReq_step_def nth_append)
  finally show ?thesis by (simp add: splitReq_def)
qed

text \<open>Failed sends before position \<open>j\<close> are skipped, and leave the later connections alone.\<close>

lemma reqWriter_loop_skip:
  assumes "distinct cs" "cs = rq_conns st" "n = length cs" "p = nextConn st mod n"
    and "k \<le> n" "cur = n - k + p" "d \<le> k" "cur + d \<le> n"
    and "\<And>j. cur \<le> j \<Longrightarrow> j < cur + d \<Longrightarrow> fst (SendMsg ops msg (h (cs ! j))) \<noteq> None"
  shows "\<exists>err' h'. reqWriter_loop ops msg k err st h = reqWriter_loop ops msg (k - d) err' st h' \<and>
    (\<forall>j. cur + d \<le> j \<longrightarrow> j < n \<longrightarrow> h' (cs ! j) = h (cs ! j))"
  using assms(5-9)
proof (induction d arbitrary: k cur err h)
  case 0
  then show ?case by auto
next
  case (Suc d)
  obtain k' where k: "k = Suc k'" using Suc.prems(3) by (cases k) auto
  have cur: "cur < n" using Suc.prems by simp
  obtain e c where e: "SendMsg ops msg (h (cs ! cur)) = (Some e, c)"
    using Suc.prems(5) [of cur] by (cases "SendMsg ops msg (h (cs ! cur))") auto
  define h1 where "h1 = h(cs ! cur := c)"
  have same: "h1 (cs ! j) = h (cs ! j)" if "cur < j" "j < n" for j
    using that cur assms(1,3) by (auto simp: h1_def nth_eq_iff_index_eq)
  have "n - Suc k' + p = cur" using Suc.prems(2) k by simp
  then have step: "reqWriter_loop ops msg k err st h = reqWriter_loop ops msg k' (Some e) st h1"
    using cur e assms(2-4) by (simp add: k h1_def Let_def)
  have "Suc cur = n - k' + p" "k' \<le> n" "d \<le> k'" "Suc cur + d \<le> n" using k Suc.prems by simp_all
  moreover have "fst (SendMsg ops msg (h1 (cs ! j))) \<noteq> None" if "Suc cur \<le> j" "j < Suc cur + d" for j
    using Suc.prems(5) [of j] that same [of j] Suc.prems(4) by simp
  ultimately have "\<exists>err' h'. reqWriter_loop ops msg k' (Some e) st h1 = reqWriter_loop ops msg (k' - d) err' st h' \<and>
      (\<forall>j. Suc cur + d \<le> j \<longrightarrow> j < n \<longrightarrow> h' (cs ! j) = h1 (cs ! j))"
    by (intro Suc.IH)
  then obtain err' h' where "reqWriter_loop ops msg k' (Some e) st h1 = reqWriter_loop ops msg (k' - d) err' st h'"
    "\<forall>j. Suc cur + d \<le> j \<longrightarrow> j < n \<longrightarrow> h' (cs ! j) = h1 (cs ! j)"
    by blast
  then show ?case
    using step same k by (intro exI [of _ err'] exI [of _ h']) auto
qed

lemma reqWriter_first_success:
  assumes "distinct (rq_conns st)" "p = nextConn st mod length (rq_conns st)" "p \<le> j" "j < length (rq_conns st)"
    and "fst (SendMsg ops (req_envelope msg) (h (rq_conns st ! j))) = None"
    and "\<forall>j'. p \<le> j' \<longrightarrow> j' < j \<longrightarrow> fst (SendMsg ops (req_envelope msg) (h (rq_conns st ! j'))) \<noteq> None"
  shows "\<exists>h'. reqWriter_write ops msg st h =
      Ok (None, st\<lparr>nextConn := j + 1 mod length (rq_conns st), lastConn := Some (rq_conns st ! j)\<rparr>, h') \<and>
    h' (rq_conns st ! j) = snd (SendMsg ops (req_envelope msg) (h (rq_conns st ! j)))"
proof -
  let ?n = "length (rq_conns st)"
  obtain err' h' where loop: "reqWriter_write ops msg st h = reqWriter_loop ops (req_envelope msg) (?n - (j - p)) err' st h'"
    and h': "h' (rq_conns st ! j) = h (rq_conns st ! j)"
    using reqWriter_loop_skip [OF assms(1) refl refl assms(2) order_refl, of p "j - p" ops "req_envelope msg" h None] assms(3-6)
    by (auto simp: reqWriter_write_def)
  obtain k where k: "?n - (j - p) = Suc k" using assms by (cases "?n - (j - p)") auto
  have cur: "?n - Suc k + nextConn st mod ?n = j" using k assms by simp
  obtain c where e: "SendMsg ops (req_envelope msg) (h (rq_conns st ! j)) = (None, c)"
    using assms(5) by (cases "SendMsg ops (req_envelope msg) (h (rq_conns st ! j))") auto
  have "reqWriter_loop ops (req_envelope msg) (Suc k) err' st h' =
      Ok (None, reqState_Set (rq_conns st ! j) (st\<lparr>nextConn := j + 1 mod ?n\<rparr>),
        h'(rq_conns st ! j := snd (SendMsg ops (req_envelope msg) (h (rq_conns st ! j)))))"
    using assms(4) by (simp only: reqWriter_loop.simps Let_def cur h' e) simp
  then show ?thesis
    using loop k by (auto simp: reqState_Set_def)
qed

lemma reqWriter_all_fail:
  assumes "distinct (rq_conns st)" "p = nextConn st mod length (rq_conns st)" "rq_conns st \<noteq> []"
    and "\<forall>j. p \<le> j \<longrightarrow> j < length (rq_conns st) \<longrightarrow> fst (SendMsg ops (req_envelope msg) (h (rq_conns st ! j))) \<noteq> None"
  shows "(p = 0 \<longrightarrow> (\<exists>e h'. reqWriter_write ops msg st h = Ok (Some e, st, h'))) \<and>
    (p \<noteq> 0 \<longrightarrow> reqWriter_write ops msg st h = Panic ''index out of range'')"
proof -
  let ?n = "length (rq_conns st)"
  have p: "p < ?n" using assms by simp
  obtain err' h' where loop: "reqWriter_write ops msg st h = reqWriter_loop ops (req_envelope msg) (?n - (?n - p)) err' st h'"
    using reqWriter_loop_skip [OF assms(1) refl refl assms(2) order_refl, of p "?n - p" ops "req_envelope msg" h None] assms(4) p
    by (auto simp: reqWriter_write_def)
  show ?thesis
  proof (cases p)
    case 0
    then show ?thesis using loop by simp
  next
    case (Suc k)
    then have "?n - Suc k + p \<ge> ?n" using p by simp
    then have "reqWriter_loop ops (req_envelope msg) (Suc k) err' st h' = Panic ''index out of range''"
      using assms(2) by (simp add: Let_def)
    then show ?thesis using loop Suc p by simp
  qed
qed

lemma splitReq_body_with_delimiter:
  assumes "b2 \<noteq> []" "\<forall>f \<in> set b2. f \<noteq> []"
  shows "splitReq (NewMsgFrom ([[]] @ b1 @ [[]] @ b2)) = (Some ([[]] @ b1 @ [[]]), NewMsgFrom b2)"
  using splitReq_last [OF assms, of "[[]] @ b1"] by simp

text \<open>The network hands bytes to the connection at address \<open>r\<close>.\<close>

definition feed :: "nat \<Rightarrow> bytes \<Rightarrow> 's heap \<Rightarrow> 's heap" where
  "feed r bs h = h(r := (h r)\<lparr>rw := (rw (h r))\<lparr>rx := rx (rw (h r)) @ bs\<rparr>\<rparr>)"

lemma null_send:
  assumes "up c" "sendable msg"
  shows "\<exists>x. SendMsg null_ops msg c = (None, wrote x () c) \<and> null.delivers (Frames msg) () () x"
  using null.SendMsg_delivers [OF assms(2,1), of "()"] by auto

lemma null_receive:
  assumes "null.delivers fs () () x" "rx (rw d) = x" "\<not> rw_closed (rw d)"
  shows "Conn_read null_ops d = (Ok (NewMsgFrom fs), got [] () d)"
  using assms by (simp add: null.delivers_def Conn_read_def NewMsgFrom_def)

text \<open>The connection at position \<open>j\<close> takes the request.\<close>

definition takes :: "'s SecOps \<Rightarrow> Msg \<Rightarrow> reqsock \<Rightarrow> 's heap \<Rightarrow> nat \<Rightarrow> bool" where
  "takes ops msg st h j \<longleftrightarrow> fst (SendMsg ops (req_envelope msg) (h (rq_conns st ! j))) = None"

lemma sendPayload_found:
  "c \<in> set cs \<Longrightarrow> sendPayload_loop ops (Some c) reply cs h = h(c := snd (SendMsg ops reply (h c)))"
  by (induction cs) auto

text \<open>The four legs of a request over NULL.\<close>

lemma sendable_envelope: "sendable (NewMsgFrom fs) \<Longrightarrow> sendable (NewMsgFrom ([] # fs))"
  by (auto simp: sendable_def maxAlloc_def)

lemma req_sends:
  assumes "up (h r)" "rq_conns st = [r]" "sendable (NewMsgFrom fs)"
  shows "\<exists>x. reqWriter_write null_ops (NewMsgFrom fs) st h =
      Ok (None, st\<lparr>nextConn := 0, lastConn := Some r\<rparr>, h(r := wrote x () (h r))) \<and>
    null.delivers ([] # fs) () () x"
proof -
  have "req_envelope (NewMsgFrom fs) = NewMsgFrom ([] # fs)"
    by (simp add: req_envelope_def NewMsgFrom_def)
  then show ?thesis
    using null_send [OF assms(1) sendable_envelope [OF assms(3)]] assms(2)
    by (auto simp: reqWriter_write_def reqState_Set_def)
qed

lemma unit_sec [simp]: "(c :: unit Conn)\<lparr>sec := ()\<rparr> = c"
  by (cases c) simp

lemma rep_queues:
  assumes "null.delivers ([] # fs) () () x" "up (h s)" "rx (rw (h s)) = []" "chan q = []"
  shows "\<exists>q1 q2 m. listen_read null_ops rep_on_msg False s q (feed s x h) = Ok (q1, feed s [] h) \<and>
    lis q1 s = Some (Pushing m False) \<and> listen_push s m False q1 (feed s [] h) = (q2, feed s [] h) \<and>
    chan q2 = [(s, s, NewMsgFrom ([] # fs))]"
proof -
  let ?h = "feed s x h" and ?m = "(s, NewMsgFrom ([] # fs))"
  have "Conn_read null_ops (?h s) = (Ok (NewMsgFrom ([] # fs)), got [] () (?h s))"
    using null_receive [OF assms(1)] assms(2,3) by (simp add: feed_def up_def)
  moreover have "?h(s := got [] () (?h s)) = feed s [] h"
    using assms(3) by (simp add: feed_def got_def)
  ultimately have "listen_read null_ops rep_on_msg False s q ?h = Ok (q\<lparr>lis := (lis q)(s \<mapsto> Pushing ?m False)\<rparr>, feed s [] h)"
    by (simp add: listen_read_def rep_on_msg_def)
  then show ?thesis
    using assms(4) by (intro exI) (auto simp: listen_push_def)
qed

lemma rep_receives:
  assumes "chan q = [(s, s, NewMsgFrom ([] # fs))]" "fs \<noteq> []" "\<forall>f \<in> set fs. f \<noteq> []"
  shows "repReader_read False pick q rst = Some (NewMsgFrom fs, None, q\<lparr>chan := []\<rparr>, repState_Set s [[]] rst)"
  using splitReq_last [OF assms(2,3), of "[]"] assms(1) by (simp add: repReader_read_def)

lemma rep_replies:
  assumes "up (h s)" "s \<in> set (rp_conns w)" "\<not> sendClosed w" "sendable (NewMsgFrom gs)"
  shows "\<exists>y. repWriter_write null_ops False pick (NewMsgFrom gs) (repState_Set s [[]] rst) w h =
      Ok (None, h(s := wrote y () (h s))) \<and> null.delivers ([] # gs) () () y"
  using null_send [OF assms(1) sendable_envelope [OF assms(4)]] assms(2,3)
  by (auto simp: repWriter_write_def repState_Set_def buildReplyMsg_def sendPayload_found)

lemma req_receives:
  assumes "null.delivers ([] # gs) () () y" "up (h r)" "rx (rw (h r)) = []" "gs \<noteq> []" "lastConn st = Some r"
  shows "\<exists>h'. reqReader_read null_ops st (feed r y h) = Ok (NewMsgFrom gs, None, h')"
proof -
  have "Conn_read null_ops (feed r y h r) = (Ok (NewMsgFrom ([] # gs)), got [] () (feed r y h r))"
    using null_receive [OF assms(1)] assms(2,3) by (simp add: feed_def up_def)
  then show ?thesis
    using assms(4,5) by (simp add: reqReader_read_def NewMsgFrom_def zeroMsg_def)
qed

section \<open>Properties\<close>

text \<open>
  where a request goes. A REQ tries its connections from position \<open>p = nextConn mod n\<close>
  upwards: the first one that takes the message gets it, becomes the connection of the reply, and
  the next request starts behind it. When none of the positions from \<open>p\<close> up takes it, the call
  returns an error only if \<open>p = 0\<close>; otherwise it does not wrap around but indexes out of range,
  and the process panics.
\<close>

theorem req_write_positions:
  assumes "distinct (rq_conns st)" "n = length (rq_conns st)" "0 < n" "p = nextConn st mod n"
  shows "(\<forall>j. p \<le> j \<and> j < n \<and> takes ops msg st h j \<and> (\<forall>j'. p \<le> j' \<and> j' < j \<longrightarrow> \<not> takes ops msg st h j') \<longrightarrow>
      (\<exists>h'. reqWriter_write ops msg st h =
         Ok (None, st\<lparr>nextConn := j + 1 mod n, lastConn := Some (rq_conns st ! j)\<rparr>, h') \<and>
       h' (rq_conns st ! j) = snd (SendMsg ops (req_envelope msg) (h (rq_conns st ! j))))) \<and>
    ((\<forall>j. p \<le> j \<and> j < n \<longrightarrow> \<not> takes ops msg st h j) \<longrightarrow>
      (if p = 0 then \<exists>e h'. reqWriter_write ops msg st h = Ok (Some e, st, h')
       else reqWriter_write ops msg st h = Panic ''index out of range''))"
proof (intro conjI allI impI)
  fix j assume j: "p \<le> j \<and> j < n \<and> takes ops msg st h j \<and> (\<forall>j'. p \<le> j' \<and> j' < j \<longrightarrow> \<not> takes ops msg st h j')"
  show "\<exists>h'. reqWriter_write ops msg st h =
         Ok (None, st\<lparr>nextConn := j + 1 mod n, lastConn := Some (rq_conns st ! j)\<rparr>, h') \<and>
       h' (rq_conns st ! j) = snd (SendMsg ops (req_envelope msg) (h (rq_conns st ! j)))"
    using reqWriter_first_success [OF assms(1), of p j ops msg h] j assms(2,4) by (simp add: takes_def)
next
  assume all: "\<forall>j. p \<le> j \<and> j < n \<longrightarrow> \<not> takes ops msg st h j"
  have "rq_conns st \<noteq> []" using assms(2,3) by auto
  then show "if p = 0 then \<exists>e h'. reqWriter_write ops msg st h = Ok (Some e, st, h')
       else reqWriter_write ops msg st h = Panic ''index out of range''"
    using reqWriter_all_fail [OF assms(1), of p ops msg h] all assms(2,4) by (simp add: takes_def)
qed

definition dead_peers :: "unit heap" where
  "dead_peers r = (new_Conn (open_net []) () SockReq [] False True)\<lparr>cclosed := True\<rparr>"

theorem req_write_positions_witness:
  "reqWriter_write null_ops (NewMsg [1]) \<lparr>rq_conns = [3, 4], nextConn = 1, lastConn = None\<rparr> dead_peers =
     Panic ''index out of range''"
proof -
  have "fst (SendMsg null_ops m (dead_peers r)) = Some ErrClosedConn" for m r
    by (simp add: SendMsg_def Closed_def dead_peers_def)
  then show ?thesis
    using req_write_positions [of "\<lparr>rq_conns = [3, 4], nextConn = 1, lastConn = None\<rparr>" 2 1 null_ops "NewMsg [1]" dead_peers]
    by (simp add: takes_def)
qed

text \<open>
  the envelope of a request. REP splits a message behind its delimiter: routing frames and
  an empty frame in front of a body without empty frames come apart exactly there; a message
  without an empty frame is no request. But the loop runs on to the last empty frame, so a body
  that contains one is cut: what stands before it is taken for routing and lost to the application.
\<close>

theorem splitReq_cuts_at_last_delimiter:
  assumes "body \<noteq> []" "\<forall>f \<in> set body. f \<noteq> []"
  shows "splitReq (NewMsgFrom (pre @ [[]] @ body)) = (Some (pre @ [[]]), NewMsgFrom body) \<and>
    splitReq (NewMsgFrom body) = (None, zeroMsg) \<and>
    splitReq (NewMsgFrom ([[]] @ part @ [[]] @ body)) = (Some ([[]] @ part @ [[]]), NewMsgFrom body)"
  using splitReq_last [OF assms, of pre] splitReq_none [of "NewMsgFrom body"]
    splitReq_body_with_delimiter [OF assms, of part] assms(2)
  by simp

theorem splitReq_cuts_at_last_delimiter_witness:
  "splitReq (NewMsgFrom [[7], [], [1, 2]]) = (Some [[7], []], NewMsgFrom [[1, 2]]) \<and>
   splitReq (NewMsgFrom [[], [5], [], [1, 2]]) = (Some [[], [5], []], NewMsgFrom [[1, 2]])"
  using splitReq_cuts_at_last_delimiter [of "[[1, 2]]" "[[7]]" "[[5]]"] by simp

text \<open>
  C7: a request and its reply, end to end over NULL. A REQ sends \<open>fs\<close> (frames none of which is
  empty); when its bytes reach a REP, the listener queues it and \<open>Recv\<close> returns exactly \<open>fs\<close>; the
  reply \<open>gs\<close> (any non-empty message) goes out on the connection the request came from; and when its
  bytes reach the REQ, its \<open>Recv\<close> returns exactly \<open>gs\<close>. The REQ has one connection, both connections take every
  write and have nothing left to read, and the queue of the REP is empty.
\<close>

theorem req_rep_roundtrip:
  assumes "up (hC r)" "rx (rw (hC r)) = []" "rq_conns st = [r]"
    and "up (hS s)" "rx (rw (hS s)) = []" "lis q s = Some Reading" "chan q = []" "s \<in> set (rp_conns w)" "\<not> sendClosed w"
    and "sendable (NewMsgFrom fs)" "\<forall>f \<in> set fs. f \<noteq> []" "sendable (NewMsgFrom gs)"
  shows "\<exists>x y st' hC' q1 h1 m q2 h2 q3 rst' h3 hC2.
    reqWriter_write null_ops (NewMsgFrom fs) st hC = Ok (None, st', hC') \<and> tx (rw (hC' r)) = tx (rw (hC r)) @ x \<and>
    listen_read null_ops rep_on_msg False s q (feed s x hS) = Ok (q1, h1) \<and>
    lis q1 s = Some (Pushing m False) \<and> listen_push s m False q1 h1 = (q2, h2) \<and>
    repReader_read False pick q2 rst = Some (NewMsgFrom fs, None, q3, rst') \<and>
    repWriter_write null_ops False pick (NewMsgFrom gs) rst' w h2 = Ok (None, h3) \<and> tx (rw (h3 s)) = tx (rw (hS s)) @ y \<and>
    reqReader_read null_ops st' (feed r y hC') = Ok (NewMsgFrom gs, None, hC2)"
proof -
  have ne: "fs \<noteq> []" "gs \<noteq> []" using assms(10,12) by (simp_all add: sendable_def)
  obtain x where x: "reqWriter_write null_ops (NewMsgFrom fs) st hC =
      Ok (None, st\<lparr>nextConn := 0, lastConn := Some r\<rparr>, hC(r := wrote x () (hC r)))" "null.delivers ([] # fs) () () x"
    using req_sends [of hC r st fs] assms(1,3,10) by blast
  obtain q1 q2 m where q: "listen_read null_ops rep_on_msg False s q (feed s x hS) = Ok (q1, feed s [] hS)"
    "lis q1 s = Some (Pushing m False)" "listen_push s m False q1 (feed s [] hS) = (q2, feed s [] hS)"
    "chan q2 = [(s, s, NewMsgFrom ([] # fs))]"
    using rep_queues [of fs x hS s q] x(2) assms(4,5,7) by blast
  have "up (feed s [] hS s)" using assms(4) by (simp add: feed_def up_def)
  then obtain y where y: "repWriter_write null_ops False pick (NewMsgFrom gs) (repState_Set s [[]] rst) w (feed s [] hS) =
      Ok (None, (feed s [] hS)(s := wrote y () (feed s [] hS s)))" "null.delivers ([] # gs) () () y"
    using rep_replies [of "feed s [] hS" s w gs pick rst] assms(8,9,12) by blast
  obtain hC2 where "reqReader_read null_ops (st\<lparr>nextConn := 0, lastConn := Some r\<rparr>) (feed r y (hC(r := wrote x () (hC r)))) =
      Ok (NewMsgFrom gs, None, hC2)"
    using req_receives [of gs y "hC(r := wrote x () (hC r))" r "st\<lparr>nextConn := 0, lastConn := Some r\<rparr>"] y(2) assms(1,2) ne
    by auto
  then show ?thesis
    using x(1) q(1-3) rep_receives [OF q(4) ne(1) assms(11), of pick rst] y(1)
    by (intro exI conjI) (assumption | simp add: feed_def)+
qed

definition idle_peer :: "SocketType \<Rightarrow> unit heap" where
  "idle_peer t r = new_Conn (open_net []) () t [] False True"

theorem req_rep_roundtrip_witness:
  "\<exists>st' hC' q3 rst' q2.
    reqWriter_write null_ops (NewMsgFrom [[1, 2]]) \<lparr>rq_conns = [3], nextConn = 0, lastConn = None\<rparr> (idle_peer SockReq) =
      Ok (None, st', hC') \<and>
    repReader_read False False q2 newRepState = Some (NewMsgFrom [[1, 2]], None, q3, rst')"
proof -
  have "up (idle_peer t r)" "rx (rw (idle_peer t r)) = []" for t r
    by (simp_all add: idle_peer_def up_def new_Conn_def open_net_def)
  then show ?thesis
    using req_rep_roundtrip [of "idle_peer SockReq" 3 "\<lparr>rq_conns = [3], nextConn = 0, lastConn = None\<rparr>"
        "idle_peer SockRep" 5 "reader_addConn 5 new_reader" "\<lparr>rp_conns = [5], sendClosed = False\<rparr>"
        "[[1, 2]]" "[[], [9]]" False newRepState]
    by (auto simp: reader_addConn_def new_reader_def sendable_def maxAlloc_def)
qed

end
