(* ===== verification/Core_Socket.thy ===== *)
theory Core_Socket
  imports Conn_Pools "HOL-Library.List_Lexorder"
begin

text \<open>
  The socket core of \<^verbatim>\<open>src/core_socket.go\<close> with the default pools (a queued reader and a fan-out
  writer, as PAIR, PUSH, PULL, DEALER, SUB and XSUB have them), and the subscriptions of
  \<^verbatim>\<open>src/socket_sub.go\<close>: registering connections, the reaper that removes closed ones, socket
  options, and the heartbeat state manager.

  Times and durations are integers in nanoseconds. \<open>addr\<close> stands for the remote address of a
  connection, \<open>uuid\<close> for a random identifier. \<open>scheduleRmConn\<close> is the case without automatic reconnection;
  listening, accepting, dialling and reconnecting are in \<open>Socket_Endpoint\<close>.
\<close>

section \<open>Heartbeat messages\<close>

datatype heartbeatUpdateType =
    heartbeatConnected
  | heartbeatDisconnected
  | heartbeatPingSent
  | heartbeatPongReceived
  | heartbeatTimedOut
  | heartbeatActivityDetected

record heartbeatUpdate =
  updateType :: heartbeatUpdateType
  u_connID :: bytes
  timestamp :: int

datatype optval = VDuration int | VString bytes | VInt int | VOther

definition OptionSubscribe :: bytes where "OptionSubscribe = str ''SUBSCRIBE''"
definition OptionUnsubscribe :: bytes where "OptionUnsubscribe = str ''UNSUBSCRIBE''"
definition OptionHWM :: bytes where "OptionHWM = str ''HWM''"
definition OptionHeartbeatIVL :: bytes where "OptionHeartbeatIVL = str ''ZMQ_HEARTBEAT_IVL''"
definition OptionHeartbeatTTL :: bytes where "OptionHeartbeatTTL = str ''ZMQ_HEARTBEAT_TTL''"
definition OptionHeartbeatTimeout :: bytes where "OptionHeartbeatTimeout = str ''ZMQ_HEARTBEAT_TIMEOUT''"

lemmas option_names = OptionSubscribe_def OptionUnsubscribe_def OptionHWM_def OptionHeartbeatIVL_def
  OptionHeartbeatTTL_def OptionHeartbeatTimeout_def

section \<open>The socket\<close>

record socket =
  s_typ :: SocketType
  s_id :: SocketIdentity
  conns :: "nat list"
  s_r :: "Msg reader"
  s_w :: writer
  subTopics :: "bytes set option"
  props :: "bytes \<rightharpoonup> optval"
  s_ctxDone :: bool
  closedConns :: "nat list"
  heartbeatIVL :: int
  heartbeatTTL :: int
  heartbeatTimeout :: int
  heartbeatUpdateCh :: "heartbeatUpdate list"
  heartbeatStarted :: bool

definition newSocket :: "SocketType \<Rightarrow> SocketIdentity \<Rightarrow> bytes \<Rightarrow> socket" where
  "newSocket sockType ident uuid =
     \<lparr>s_typ = sockType, s_id = (if length ident = 0 then uuid else ident), conns = [], s_r = new_reader,
      s_w = new_writer, subTopics = None, props = Map.empty, s_ctxDone = False, closedConns = [],
      heartbeatIVL = 0, heartbeatTTL = 0, heartbeatTimeout = 0, heartbeatUpdateCh = [],
      heartbeatStarted = False\<rparr>"

text \<open>The update channel has ten places; an update that finds it full is dropped.\<close>

definition updateHeartbeatState :: "heartbeatUpdateType \<Rightarrow> bytes \<Rightarrow> int \<Rightarrow> socket \<Rightarrow> socket" where
  "updateHeartbeatState t connID now sck =
     (if length (heartbeatUpdateCh sck) < 10
      then sck\<lparr>heartbeatUpdateCh := heartbeatUpdateCh sck @ [\<lparr>updateType = t, u_connID = connID, timestamp = now\<rparr>]\<rparr>
      else sck)"

definition heartbeatCallback :: "string \<Rightarrow> bytes \<Rightarrow> int \<Rightarrow> socket \<Rightarrow> socket" where
  "heartbeatCallback u connID now sck =
     (if u = ''activity'' then updateHeartbeatState heartbeatActivityDetected connID now sck
      else if u = ''pong'' then updateHeartbeatState heartbeatPongReceived connID now sck
      else sck)"

text \<open>
  \<^verbatim>\<open>topics\<close> collects the topics of the connections, each once, and sorts them. The order in which
  a Go map is iterated over does not matter for the result; here it is ascending.
\<close>

definition socket_topics :: "socket \<Rightarrow> 's heap \<Rightarrow> bytes list" where
  "socket_topics sck h =
     sort (foldl (\<lambda>acc c. acc @ filter (\<lambda>t. t \<notin> set acc) (sorted_list_of_set (topics (h c)))) [] (conns sck))"

definition sub_Topics :: "bytes set \<Rightarrow> bytes list" where
  "sub_Topics ts = sort (sorted_list_of_set ts)"

fun send_subscriptions :: "'s SecOps \<Rightarrow> bytes list \<Rightarrow> 's Conn \<Rightarrow> 's Conn" where
  "send_subscriptions ops [] c = c"
| "send_subscriptions ops (topic # ts) c = send_subscriptions ops ts (snd (SendMsg ops (NewMsg ([1] @ topic)) c))"

definition socket_addConn ::
  "'s SecOps \<Rightarrow> bytes \<Rightarrow> bytes \<Rightarrow> int \<Rightarrow> nat \<Rightarrow> socket \<Rightarrow> 's heap \<Rightarrow> socket \<times> 's heap" where
  "socket_addConn ops addr uuid now c sck h =
     (let conn = (h c)\<lparr>heartbeatNotifyCB := True\<rparr>;
          sck = sck\<lparr>conns := conns sck @ [c]\<rparr>;
          sck = updateHeartbeatState heartbeatConnected addr now sck;
          conn = (if length (peer_id conn) = 0 \<and> ctyp conn = SockRouter
                  then conn\<lparr>PeerMeta := (PeerMeta conn)(sysSockID \<mapsto> uuid)\<rparr> else conn);
          sck = sck\<lparr>s_w := writer_addConn c (s_w sck), s_r := reader_addConn c (s_r sck)\<rparr>;
          conn = (case subTopics sck of None \<Rightarrow> conn | Some ts \<Rightarrow> send_subscriptions ops (sub_Topics ts) conn) in
      (sck, h(c := conn)))"

definition socket_rmConn :: "bytes \<Rightarrow> int \<Rightarrow> nat \<Rightarrow> socket \<Rightarrow> socket" where
  "socket_rmConn addr now c sck =
     (case find_conn (conns sck) c 0 of
        None \<Rightarrow> sck
      | Some cur \<Rightarrow>
          let sck = updateHeartbeatState heartbeatDisconnected addr now sck;
              sck = sck\<lparr>conns := take cur (conns sck) @ drop (cur + 1) (conns sck)\<rparr> in
          sck\<lparr>s_r := reader_rmConn c (s_r sck), s_w := writer_rmConn c (s_w sck)\<rparr>)"

definition scheduleRmConn :: "nat \<Rightarrow> socket \<Rightarrow> socket" where
  "scheduleRmConn c sck = sck\<lparr>closedConns := closedConns sck @ [c]\<rparr>"

fun reap :: "(nat \<Rightarrow> bytes) \<Rightarrow> int \<Rightarrow> nat list \<Rightarrow> socket \<Rightarrow> socket" where
  "reap addr now [] sck = sck"
| "reap addr now (c # cc) sck = reap addr now cc (socket_rmConn (addr c) now c sck)"

text \<open>One round of the reaper, from one wait to the next; it returns when the context is done.\<close>

definition connReaper_round :: "(nat \<Rightarrow> bytes) \<Rightarrow> int \<Rightarrow> socket \<Rightarrow> socket" where
  "connReaper_round addr now sck =
     (if s_ctxDone sck then sck
      else
        let cc = closedConns sck; sck = sck\<lparr>closedConns := []\<rparr> in
        reap addr now cc sck)"

definition socket_Close :: "socket \<Rightarrow> 's heap \<Rightarrow> socket \<times> 's heap" where
  "socket_Close sck h = (sck\<lparr>s_ctxDone := True\<rparr>, close_conns (conns sck) h)"

definition socket_Send :: "'s SecOps \<Rightarrow> nat \<Rightarrow> Msg \<Rightarrow> socket \<Rightarrow> 's heap \<Rightarrow> (go_error option \<times> 's heap) option" where
  "socket_Send ops pick msg sck h = mwriter_write ops (s_ctxDone sck) pick msg (s_w sck) h"

definition socket_SendMulti :: "'s SecOps \<Rightarrow> nat \<Rightarrow> Msg \<Rightarrow> socket \<Rightarrow> 's heap \<Rightarrow> (go_error option \<times> 's heap) option" where
  "socket_SendMulti ops pick msg sck h =
     mwriter_write ops (s_ctxDone sck) pick (msg\<lparr>multipart := True\<rparr>) (s_w sck) h"

definition socket_Recv :: "bool \<Rightarrow> socket \<Rightarrow> (Msg \<times> go_error option \<times> socket) option" where
  "socket_Recv pick sck =
     (case qreader_read (s_ctxDone sck) pick (s_r sck) of
        None \<Rightarrow> None
      | Some (msg, err, q) \<Rightarrow> Some (msg, err, sck\<lparr>s_r := q\<rparr>))"

section \<open>Options\<close>

definition GetOption :: "bytes \<Rightarrow> socket \<Rightarrow> optval result" where
  "GetOption name sck = (case props sck name of None \<Rightarrow> Err ErrBadProperty | Some v \<Rightarrow> Ok v)"

definition maxTTL :: int where "maxTTL = 65535 * 100 * 1000000"

text \<open>A value of another type than expected is stored without effect.\<close>

definition SetOption :: "bytes \<Rightarrow> optval \<Rightarrow> socket \<Rightarrow> socket result" where
  "SetOption name value sck =
     and_then
       (if name = OptionHeartbeatIVL then
          (case value of
             VDuration d \<Rightarrow>
               let sck = sck\<lparr>heartbeatIVL := d\<rparr> in
               if d > 0 \<and> \<not> heartbeatStarted sck then Ok (sck\<lparr>heartbeatStarted := True\<rparr>) else Ok sck
           | _ \<Rightarrow> Ok sck)
        else if name = OptionHeartbeatTTL then
          (case value of
             VDuration d \<Rightarrow>
               if d > maxTTL then Err (Errorf ''zmq4: heartbeat TTL exceeds maximum'')
               else Ok (sck\<lparr>heartbeatTTL := d\<rparr>)
           | _ \<Rightarrow> Ok sck)
        else if name = OptionHeartbeatTimeout then
          (case value of VDuration d \<Rightarrow> Ok (sck\<lparr>heartbeatTimeout := d\<rparr>) | _ \<Rightarrow> Ok sck)
        else Ok sck)
       (\<lambda>sck. Ok (sck\<lparr>props := (props sck)(name \<mapsto> value)\<rparr>))"

text \<open>The topics of a SUB socket, in its \<open>subTopics\<close>.\<close>

definition sub_subscribe :: "bytes \<Rightarrow> nat \<Rightarrow> socket \<Rightarrow> socket" where
  "sub_subscribe topic v sck =
     (let ts = (case subTopics sck of Some ts \<Rightarrow> ts | None \<Rightarrow> {}) in
      if v = 0 then sck\<lparr>subTopics := Some (ts - {topic})\<rparr>
      else if v = 1 then sck\<lparr>subTopics := Some (insert topic ts)\<rparr>
      else sck)"

definition newSub :: "SocketIdentity \<Rightarrow> bytes \<Rightarrow> socket" where
  "newSub ident uuid = (newSocket SockSub ident uuid)\<lparr>subTopics := Some {}\<rparr>"

text \<open>
  \<^verbatim>\<open>subSocket.SetOption\<close>: the topic is told to the connections there are. The type assertion
  \<^verbatim>\<open>value.(string)\<close> panics for another type.
\<close>

definition sub_SetOption ::
  "'s SecOps \<Rightarrow> nat \<Rightarrow> bytes \<Rightarrow> optval \<Rightarrow> socket \<Rightarrow> 's heap \<Rightarrow> (go_error option \<times> socket \<times> 's heap) result option" where
  "sub_SetOption ops pick name value sck h =
     (case SetOption name value sck of
        Panic m \<Rightarrow> Some (Panic m)
      | Err e \<Rightarrow> Some (Ok (Some e, sck, h))
      | Ok sck \<Rightarrow>
          if name = OptionSubscribe \<or> name = OptionUnsubscribe then
            case value of
              VString k \<Rightarrow>
                let v = (if name = OptionSubscribe then 1 else 0);
                    sck = sub_subscribe k v sck;
                    topic = (if v = 1 then [1] else [0]) @ k in
                if length (conns sck) > 0 then
                  map_option (\<lambda>(err, h). Ok (err, sck, h)) (socket_Send ops pick (NewMsg topic) sck h)
                else Some (Ok (None, sck, h))
            | _ \<Rightarrow> Some (Panic ''interface conversion'')
          else Some (Ok (Some ErrBadProperty, sck, h)))"

section \<open>The heartbeat state manager\<close>

text \<open>A \<^verbatim>\<open>time.Time\<close> that was never set is \<open>None\<close>; \<^verbatim>\<open>now.Sub\<close> of it saturates above any interval.\<close>

record connState =
  lastActivity :: int
  lastPingSent :: "int option"
  waitingForPong :: bool
  connected :: bool

type_synonym hbstate = "bytes \<rightharpoonup> connState"

definition hb_update :: "heartbeatUpdate \<Rightarrow> hbstate \<Rightarrow> hbstate" where
  "hb_update u m =
     (let connID = u_connID u;
          st = (case m connID of
                  Some st \<Rightarrow> st
                | None \<Rightarrow> \<lparr>lastActivity = timestamp u, lastPingSent = None, waitingForPong = False, connected = True\<rparr>);
          m = m(connID \<mapsto> st) in
      case updateType u of
        heartbeatConnected \<Rightarrow>
          m(connID \<mapsto> st\<lparr>connected := True, lastActivity := timestamp u, waitingForPong := False\<rparr>)
      | heartbeatDisconnected \<Rightarrow> m(connID := None)
      | heartbeatPingSent \<Rightarrow> m(connID \<mapsto> st\<lparr>lastPingSent := Some (timestamp u), waitingForPong := True\<rparr>)
      | heartbeatPongReceived \<Rightarrow> m(connID \<mapsto> st\<lparr>waitingForPong := False, lastActivity := timestamp u\<rparr>)
      | heartbeatActivityDetected \<Rightarrow> m(connID \<mapsto> st\<lparr>lastActivity := timestamp u\<rparr>)
      | heartbeatTimedOut \<Rightarrow> m)"

definition hb_liveness :: "bytes \<Rightarrow> hbstate \<Rightarrow> bool" where
  "hb_liveness connID m = (case m connID of Some st \<Rightarrow> connected st \<and> \<not> waitingForPong st | None \<Rightarrow> False)"

definition elapsed_over :: "int \<Rightarrow> int option \<Rightarrow> int \<Rightarrow> bool" where
  "elapsed_over now t d = (case t of None \<Rightarrow> True | Some t \<Rightarrow> now - t > d)"

definition find_by_addr :: "(nat \<Rightarrow> bytes) \<Rightarrow> bytes \<Rightarrow> socket \<Rightarrow> nat option" where
  "find_by_addr addr connID sck = find (\<lambda>c. addr c = connID) (conns sck)"

text \<open>\<^verbatim>\<open>uint16(sck.heartbeatTTL / (100 * time.Millisecond))\<close>: division towards zero, then wrap-around.\<close>

definition ttlDeciseconds :: "int \<Rightarrow> nat" where
  "ttlDeciseconds ttl = nat ((if ttl < 0 then - (- ttl div 100000000) else ttl div 100000000) mod 65536)"

definition sendHeartbeatPing ::
  "'s SecOps \<Rightarrow> (nat \<Rightarrow> bytes) \<Rightarrow> int \<Rightarrow> bytes \<Rightarrow> socket \<times> 's heap \<Rightarrow> socket \<times> 's heap" where
  "sendHeartbeatPing ops addr now connID s =
     (let (sck, h) = s in
      case find_by_addr addr connID sck of
        None \<Rightarrow> (sck, h)
      | Some c \<Rightarrow>
          if Closed (h c) then (sck, h)
          else
            let pingBody = put_be 2 (ttlDeciseconds (heartbeatTTL sck));
                (err, conn) = SendCmd ops CmdPing pingBody (h c);
                t = (if err = None then heartbeatPingSent else heartbeatTimedOut) in
            (updateHeartbeatState t connID now sck, h(c := conn)))"

definition handleHeartbeatTimeout ::
  "(nat \<Rightarrow> bytes) \<Rightarrow> bytes \<Rightarrow> socket \<times> 's heap \<Rightarrow> socket \<times> 's heap" where
  "handleHeartbeatTimeout addr connID s =
     (let (sck, h) = s in
      case find_by_addr addr connID sck of
        None \<Rightarrow> (sck, h)
      | Some c \<Rightarrow> (scheduleRmConn c sck, h(c := Conn_Close (h c))))"

definition hb_timed_out :: "int \<Rightarrow> int \<Rightarrow> connState \<Rightarrow> bool" where
  "hb_timed_out now tmo st \<longleftrightarrow>
     connected st \<and> waitingForPong st \<and> tmo > 0 \<and> elapsed_over now (lastPingSent st) tmo"

definition hb_needs_ping :: "int \<Rightarrow> int \<Rightarrow> int \<Rightarrow> connState \<Rightarrow> bool" where
  "hb_needs_ping now ivl tmo st \<longleftrightarrow>
     connected st \<and> \<not> hb_timed_out now tmo st \<and>
     (now - lastActivity st > ivl \<or> elapsed_over now (lastPingSent st) ivl) \<and> \<not> waitingForPong st"

text \<open>
  The branch of the ticker: the connections in the order \<open>ids\<close> in which the map is iterated over;
  first the PINGs, then the timeouts that were collected.
\<close>

definition hb_tick ::
  "'s SecOps \<Rightarrow> (nat \<Rightarrow> bytes) \<Rightarrow> int \<Rightarrow> bytes list \<Rightarrow> hbstate \<Rightarrow> socket \<times> 's heap \<Rightarrow> hbstate \<times> socket \<times> 's heap" where
  "hb_tick ops addr now ids m s =
     (let ivl = heartbeatIVL (fst s); tmo = heartbeatTimeout (fst s);
          due = filter (\<lambda>i. hb_needs_ping now ivl tmo (the (m i))) ids;
          timeoutConns = filter (\<lambda>i. hb_timed_out now tmo (the (m i))) ids;
          s = foldl (\<lambda>s i. sendHeartbeatPing ops addr now i s) s due;
          s = foldl (\<lambda>s i. handleHeartbeatTimeout addr i s) s timeoutConns in
      (foldl (\<lambda>m i. m(i := None)) m timeoutConns, s))"

section \<open>Lemmas\<close>

lemma updateHeartbeatState_sel [simp]:
  "conns (updateHeartbeatState t i n sck) = conns sck" "s_w (updateHeartbeatState t i n sck) = s_w sck"
  "s_r (updateHeartbeatState t i n sck) = s_r sck" "subTopics (updateHeartbeatState t i n sck) = subTopics sck"
  "closedConns (updateHeartbeatState t i n sck) = closedConns sck"
  "s_ctxDone (updateHeartbeatState t i n sck) = s_ctxDone sck"
  "heartbeatTTL (updateHeartbeatState t i n sck) = heartbeatTTL sck"
  by (simp_all add: updateHeartbeatState_def)

text \<open>The connections of a socket are those of its two pools.\<close>

definition socket_inv :: "socket \<Rightarrow> bool" where
  "socket_inv sck \<longleftrightarrow> distinct (conns sck) \<and> ws (s_w sck) = conns sck \<and>
     distinct (rs (s_r sck)) \<and> set (rs (s_r sck)) \<subseteq> set (conns sck) \<and> length (heartbeatUpdateCh sck) \<le> 10"

lemma socket_rmConn_sel:
  "conns (socket_rmConn addr now c sck) = remove1 c (conns sck)"
  "socket_inv sck \<Longrightarrow> ws (s_w (socket_rmConn addr now c sck)) = remove1 c (conns sck)"
  "socket_inv sck \<Longrightarrow> rs (s_r (socket_rmConn addr now c sck)) = remove1 c (rs (s_r sck))"
  "closedConns (socket_rmConn addr now c sck) = closedConns sck"
proof -
  have none: "find_conn xs c i = None \<longleftrightarrow> c \<notin> set xs" for xs i by (induction xs arbitrary: i) auto
  show "conns (socket_rmConn addr now c sck) = remove1 c (conns sck)"
    using remove_conn_remove1 [of c "conns sck", unfolded remove_conn_def]
    by (simp add: socket_rmConn_def Let_def split: option.splits)
  show "closedConns (socket_rmConn addr now c sck) = closedConns sck"
    by (simp add: socket_rmConn_def Let_def split: option.splits)
  assume inv: "socket_inv sck"
  then have "remove1 c (rs (s_r sck)) = rs (s_r sck)" if "c \<notin> set (conns sck)"
    using that by (intro remove1_idem) (auto simp: socket_inv_def)
  then show "ws (s_w (socket_rmConn addr now c sck)) = remove1 c (conns sck)"
    "rs (s_r (socket_rmConn addr now c sck)) = remove1 c (rs (s_r sck))"
    using none [of "conns sck" 0] inv
    by (auto simp: socket_rmConn_def socket_inv_def writer_rmConn_def reader_rmConn_def Let_def remove1_idem
        split: option.splits)
qed

lemma updateHeartbeatState_bound:
  "length (heartbeatUpdateCh sck) \<le> 10 \<Longrightarrow> length (heartbeatUpdateCh (updateHeartbeatState t i n sck)) \<le> 10"
  by (simp add: updateHeartbeatState_def)

lemma socket_rmConn_inv: "socket_inv sck \<Longrightarrow> socket_inv (socket_rmConn addr now c sck)"
proof -
  assume inv: "socket_inv sck"
  have "length (heartbeatUpdateCh (socket_rmConn addr now c sck)) \<le> 10"
    using inv by (auto simp: socket_rmConn_def socket_inv_def Let_def updateHeartbeatState_bound split: option.splits)
  then show ?thesis
    using inv by (auto simp: socket_inv_def socket_rmConn_sel(1) socket_rmConn_sel(2,3) [OF inv] set_remove1_eq)
qed

lemma socket_addConn_inv:
  assumes "socket_inv sck" "c \<notin> set (conns sck)"
  shows "socket_inv (fst (socket_addConn ops addr uuid now c sck h))"
proof -
  let ?sck = "fst (socket_addConn ops addr uuid now c sck h)"
  have "conns ?sck = conns sck @ [c]" "ws (s_w ?sck) = ws (s_w sck) @ [c]" "rs (s_r ?sck) = rs (s_r sck) @ [c]"
    by (simp_all add: socket_addConn_def Let_def writer_addConn_def reader_addConn_def)
  moreover have "length (heartbeatUpdateCh ?sck) \<le> 10"
    using assms(1) by (simp add: socket_addConn_def Let_def socket_inv_def updateHeartbeatState_def)
  ultimately show ?thesis
    using assms by (auto simp: socket_inv_def)
qed

lemma reap_spec:
  assumes "socket_inv sck"
  shows "socket_inv (reap addr now cc sck) \<and> set (conns (reap addr now cc sck)) = set (conns sck) - set cc \<and>
    set (rs (s_r (reap addr now cc sck))) = set (rs (s_r sck)) - set cc \<and>
    closedConns (reap addr now cc sck) = closedConns sck"
  using assms
proof (induction cc arbitrary: sck)
  case (Cons c cc)
  let ?sck = "socket_rmConn (addr c) now c sck"
  have inv: "socket_inv ?sck" using Cons.prems by (rule socket_rmConn_inv)
  have "distinct (conns sck)" "distinct (rs (s_r sck))" using Cons.prems by (simp_all add: socket_inv_def)
  then have "set (conns ?sck) = set (conns sck) - {c}" "set (rs (s_r ?sck)) = set (rs (s_r sck)) - {c}"
    "closedConns ?sck = closedConns sck"
    using Cons.prems by (simp_all add: socket_rmConn_sel)
  then show ?case
    using Cons.IH [OF inv] by auto
qed simp

section \<open>Lemmas: subscriptions\<close>

text \<open>The frame of a subscription, and a PUB reader that takes \<open>n\<close> of them from a connection.\<close>

definition sub_wire :: "bytes \<Rightarrow> bytes" where
  "sub_wire topic = frame_header (wire_flag (more_flag False) (length topic + 1 > 255) False) (length topic + 1) @ [1] @ topic"

fun pub_listen :: "'s SecOps \<Rightarrow> nat \<Rightarrow> 's Conn \<Rightarrow> 's Conn result" where
  "pub_listen ops 0 c = Ok c"
| "pub_listen ops (Suc n) c =
     (case Conn_read ops c of
        (Ok msg, c) \<Rightarrow> and_then (pub_on_msg 0 c msg) (\<lambda>(act, c). pub_listen ops n c)
      | (Err e, c) \<Rightarrow> Err e
      | (Panic m, c) \<Rightarrow> Panic m)"

lemma null_SendMsg_sub:
  assumes "up c"
  shows "SendMsg null_ops (NewMsg ([1] @ topic)) c = (None, wrote (sub_wire topic) (sec c) c)"
proof -
  have "crypt_to (sEncrypt null_ops) p c = (None, wrote p (sec c) c)" if "up c" for p and c :: "unit Conn"
    using crypt_to_up [OF that null.copy_enc] .
  then show ?thesis
    using assms null.copy_not_curve
    by (simp add: SendMsg_def send_def Closed_def up_def [of c] rw_Write_up Let_def sub_wire_def wire_flag_def
        more_flag_def NewMsg_def zeroMsg_def)
qed

lemma socket_addConn_conn:
  assumes "subTopics sck = Some ts"
  shows "\<exists>c1. rw c1 = rw (h c) \<and> cclosed c1 = cclosed (h c) \<and>
    snd (socket_addConn ops addr uuid now c sck h) c = send_subscriptions ops (sub_Topics ts) c1"
proof -
  let ?c = "(h c)\<lparr>heartbeatNotifyCB := True\<rparr>"
  let ?c1 = "if length (peer_id ?c) = 0 \<and> ctyp ?c = SockRouter
    then ?c\<lparr>PeerMeta := (PeerMeta ?c)(sysSockID \<mapsto> uuid)\<rparr> else ?c"
  have "snd (socket_addConn ops addr uuid now c sck h) c = send_subscriptions ops (sub_Topics ts) ?c1"
    using assms by (simp add: socket_addConn_def Let_def)
  then show ?thesis by (intro exI [of _ ?c1]) simp
qed

lemma wrote_Nil_unit: "wrote [] () c = c"
  using wrote_Nil [of c] by simp

lemma send_subscriptions_wire:
  "up c \<Longrightarrow> send_subscriptions null_ops ts c = wrote (concat (map sub_wire ts)) (sec c) c"
  by (induction ts arbitrary: c) (simp_all add: null_SendMsg_sub [simplified] wrote_Nil_unit)

lemma pub_reads_sub:
  assumes "rx (rw d) = sub_wire topic @ rest" "\<not> rw_closed (rw d)" "length topic < maxAlloc"
  shows "Conn_read null_ops d = (Ok (NewMsg (1 # topic)), got rest (sec d) d)"
proof -
  let ?fl = "wire_flag (more_flag False) (length (1 # topic) > 255) False"
  have "null.delivers [1 # topic] (sec d) (sec d) (sub_wire topic)"
    using null.delivers_last [of "1 # topic" "sec d" "sec d" "sub_wire topic"] assms(3)
      null.copy_carries [of ?fl "1 # topic" "sec d"] by (simp add: sub_wire_def)
  then show ?thesis
    using assms by (simp add: null.delivers_def Conn_read_def NewMsg_def)
qed

lemma pub_learns_topics:
  assumes "rx (rw d) = concat (map sub_wire ts) @ rest" "\<not> rw_closed (rw d)" "\<forall>t \<in> set ts. length t < maxAlloc"
  shows "\<exists>d'. pub_listen null_ops (length ts) d = Ok d' \<and> topics d' = topics d \<union> set ts \<and> rx (rw d') = rest"
  using assms
proof (induction ts arbitrary: d)
  case (Cons t ts)
  let ?d = "got (concat (map sub_wire ts) @ rest) (sec d) d"
  have read: "Conn_read null_ops d = (Ok (NewMsg (1 # t)), ?d)"
    using pub_reads_sub [of d t "concat (map sub_wire ts) @ rest"] Cons.prems by simp
  have on: "pub_on_msg 0 c (NewMsg (1 # t)) = Ok (Skip, c\<lparr>topics := insert t (topics c)\<rparr>)" for c :: "unit Conn"
    by (simp add: pub_on_msg_def pub_topic_def subscribe_def NewMsg_def zeroMsg_def)
  have "\<exists>d'. pub_listen null_ops (length ts) (?d\<lparr>topics := insert t (topics ?d)\<rparr>) = Ok d' \<and>
      topics d' = insert t (topics ?d) \<union> set ts \<and> rx (rw d') = rest"
    using Cons.IH [of "?d\<lparr>topics := insert t (topics ?d)\<rparr>"] Cons.prems by simp
  moreover have "topics ?d = topics d" by (simp add: got_def)
  ultimately show ?case by (auto simp: read on)
qed simp

section \<open>Lemmas: heartbeats\<close>

lemma ttlDeciseconds_exact: "0 \<le> ttl \<Longrightarrow> ttl \<le> maxTTL \<Longrightarrow> int (ttlDeciseconds ttl) = ttl div 100000000"
proof -
  assume "0 \<le> ttl" "ttl \<le> maxTTL"
  then have "0 \<le> ttl div 100000000" "ttl div 100000000 < 65536" by (simp_all add: maxTTL_def)
  then show ?thesis using \<open>0 \<le> ttl\<close> by (simp add: ttlDeciseconds_def)
qed

lemma pings_schedule_nothing:
  "closedConns (fst (foldl (\<lambda>s i. sendHeartbeatPing ops addr now i s) s js)) = closedConns (fst s)"
  "conns (fst (foldl (\<lambda>s i. sendHeartbeatPing ops addr now i s) s js)) = conns (fst s)"
proof (induction js arbitrary: s)
  case (Cons j js)
  have one: "closedConns (fst (sendHeartbeatPing ops addr now j s)) = closedConns (fst s)"
    "conns (fst (sendHeartbeatPing ops addr now j s)) = conns (fst s)" for s
    by (cases s, simp add: sendHeartbeatPing_def Let_def split: option.splits prod.splits)+
  case 1
  show ?case using Cons one by simp
  case 2
  show ?case using Cons one by simp
qed simp_all

lemma timeouts_schedule:
  "closedConns (fst (foldl (\<lambda>s i. handleHeartbeatTimeout addr i s) s js)) = closedConns (fst s) @
     concat (map (\<lambda>i. case find_by_addr addr i (fst s) of None \<Rightarrow> [] | Some c \<Rightarrow> [c]) js)"
proof (induction js arbitrary: s)
  case (Cons j js)
  have "conns (fst (handleHeartbeatTimeout addr j s)) = conns (fst s) \<and>
      closedConns (fst (handleHeartbeatTimeout addr j s)) = closedConns (fst s) @
        (case find_by_addr addr j (fst s) of None \<Rightarrow> [] | Some c \<Rightarrow> [c])"
    by (cases s) (simp add: handleHeartbeatTimeout_def scheduleRmConn_def split: option.splits)
  then show ?case using Cons by (simp add: find_by_addr_def)
qed simp

lemma foldl_delete: "foldl (\<lambda>m i. m(i := None)) m is = (\<lambda>i. if i \<in> set is then None else m i)"
  by (induction "is" arbitrary: m) (auto simp: fun_eq_iff)

section \<open>Properties\<close>

text \<open>
  the reaper removes exactly the connections that were reported closed. On a socket whose
  pools hold its connections, one round takes every scheduled connection out of the socket, its
  writer and its reader, keeps all others, empties the schedule, and keeps the pools in step.
\<close>

theorem reaper_removes_closed:
  assumes "socket_inv sck" "\<not> s_ctxDone sck"
  shows "socket_inv (connReaper_round addr now sck) \<and>
    set (conns (connReaper_round addr now sck)) = set (conns sck) - set (closedConns sck) \<and>
    set (ws (s_w (connReaper_round addr now sck))) = set (conns sck) - set (closedConns sck) \<and>
    set (rs (s_r (connReaper_round addr now sck))) = set (rs (s_r sck)) - set (closedConns sck) \<and>
    closedConns (connReaper_round addr now sck) = []"
proof -
  have inv: "socket_inv (sck\<lparr>closedConns := []\<rparr>)" using assms(1) by (simp add: socket_inv_def)
  have pools: "ws (s_w x) = conns x" if "socket_inv x" for x using that by (simp add: socket_inv_def)
  show ?thesis
    using reap_spec [OF inv, of addr now "closedConns sck"] assms(2) pools
    by (simp add: connReaper_round_def Let_def)
qed

definition sample_socket :: socket where
  "sample_socket = (newSocket SockPush [] [1])\<lparr>conns := [1, 2], s_w := \<lparr>ws = [1, 2], wsem = True\<rparr>,
     s_r := new_reader\<lparr>rs := [1, 2]\<rparr>, closedConns := [2]\<rparr>"

theorem reaper_removes_closed_witness:
  "set (conns (connReaper_round (\<lambda>_. []) 0 sample_socket)) = {1} \<and>
   closedConns (connReaper_round (\<lambda>_. []) 0 sample_socket) = []"
proof -
  have inv: "socket_inv sample_socket" "\<not> s_ctxDone sample_socket"
    by (simp_all add: sample_socket_def socket_inv_def newSocket_def)
  have "set (conns sample_socket) - set (closedConns sample_socket) = {1}"
    by (auto simp: sample_socket_def)
  then show ?thesis
    using reaper_removes_closed [OF inv, of "\<lambda>_. []" 0] by simp
qed

text \<open>
  C36: a publisher learns the subscriptions of a subscriber that connects. When a SUB socket adds
  a connection, it sends one subscription per topic it has; a PUB that reads the written bytes from
  a fresh connection knows exactly these topics afterwards, and sends it a message exactly when some
  topic of the subscriber is a prefix of it.
\<close>

theorem subscriptions_reach_publisher:
  assumes "subTopics sck = Some ts" "finite ts" "\<forall>t \<in> ts. length t < maxAlloc" "up (h c)"
    and "socket_addConn null_ops addr uuid now c sck h = (sck', h')"
    and "topics d = {}" "\<not> rw_closed (rw d)"
  shows "\<exists>x. tx (rw (h' c)) = tx (rw (h c)) @ x \<and>
    (rx (rw d) = x \<longrightarrow>
      (\<exists>d'. pub_listen null_ops (card ts) d = Ok d' \<and> topics d' = ts \<and> rx (rw d') = [] \<and>
        (\<forall>topic. subscribed topic d' \<longleftrightarrow> (\<exists>k r. k \<in> ts \<and> topic = k @ r))))"
proof -
  let ?l = "sub_Topics ts"
  have l: "set ?l = ts" "length ?l = card ts" using assms(2) by (simp_all add: sub_Topics_def)
  let ?x = "concat (map sub_wire ?l)"
  obtain c1 where c1: "up c1" "rw c1 = rw (h c)" "h' c = send_subscriptions null_ops ?l c1"
    using socket_addConn_conn [OF assms(1), where ops = null_ops and addr = addr and uuid = uuid and now = now and c = c and h = h] assms(4,5) by (auto simp: up_def)
  then have "tx (rw (h' c)) = tx (rw (h c)) @ ?x"
    by (simp add: send_subscriptions_wire)
  moreover have "\<exists>d'. pub_listen null_ops (card ts) d = Ok d' \<and> topics d' = ts \<and> rx (rw d') = [] \<and>
      (\<forall>topic. subscribed topic d' \<longleftrightarrow> (\<exists>k r. k \<in> ts \<and> topic = k @ r))" if "rx (rw d) = ?x"
    using pub_learns_topics [of d ?l "[]"] that assms(3,6,7) l by (auto simp: subscribed_iff)
  ultimately show ?thesis by blast
qed

theorem subscriptions_reach_publisher_witness:
  "\<exists>sck' h' x. socket_addConn null_ops [] [] 0 1 ((newSub [7] [])\<lparr>subTopics := Some {[65], [66]}\<rparr>)
      (\<lambda>_. new_Conn (open_net []) () SockSub [] False True) = (sck', h') \<and> tx (rw (h' 1)) = x \<and>
    (\<exists>d'. pub_listen null_ops 2 (new_Conn (open_net x) () SockPub [] False True) = Ok d' \<and> topics d' = {[65], [66]})"
proof -
  let ?sck = "(newSub [7] [])\<lparr>subTopics := Some {[65], [66]}\<rparr>"
  let ?h = "\<lambda>_ :: nat. new_Conn (open_net []) () SockSub [] False True"
  obtain sck' h' where add: "socket_addConn null_ops [] [] 0 1 ?sck ?h = (sck', h')" by fastforce
  have h: "up (?h 1)" "tx (rw (?h 1)) = []" by (simp_all add: up_def new_Conn_def open_net_def)
  have "\<exists>x. tx (rw (h' 1)) = tx (rw (?h 1)) @ x \<and>
      (rx (rw d) = x \<longrightarrow> (\<exists>d'. pub_listen null_ops (card {[65], [66 :: byte]}) d = Ok d' \<and> topics d' = {[65], [66]} \<and> rx (rw d') = [] \<and>
        (\<forall>topic. subscribed topic d' \<longleftrightarrow> (\<exists>k r. k \<in> {[65], [66]} \<and> topic = k @ r))))"
    if "topics d = {}" "\<not> rw_closed (rw d)" for d :: "unit Conn"
    by (rule subscriptions_reach_publisher [OF _ _ _ h(1) add that]) (auto simp: maxAlloc_def)
  note reach = this
  let ?d = "new_Conn (open_net (tx (rw (h' 1)))) () SockPub [] False True"
  have d: "topics ?d = {}" "\<not> rw_closed (rw ?d)" "rx (rw ?d) = tx (rw (h' 1))"
    by (simp_all add: new_Conn_def open_net_def)
  have card: "card {[65], [66 :: byte]} = 2" by simp
  obtain d' where "pub_listen null_ops 2 ?d = Ok d'" "topics d' = {[65], [66]}"
    using reach [OF d(1,2)] h(2) d(3) unfolding card by (metis append_Nil)
  then show ?thesis using add by blast
qed

text \<open>
  what one tick of the heartbeat manager does. It forgets exactly the connections that wait
  for a PONG longer than the timeout; each of them that the socket still has is closed and handed
  to the reaper, in order; and no other connection leaves the manager's table. The TTL that a PING
  carries is the configured one in deciseconds whenever \<open>SetOption\<close> accepted it and it is not
  negative; a negative one, which \<open>SetOption\<close> also accepts, wraps around to a huge TTL.
\<close>

theorem heartbeat_tick:
  "fst (hb_tick ops addr now ids m (sck, h)) i =
     (if i \<in> set ids \<and> hb_timed_out now (heartbeatTimeout sck) (the (m i)) then None else m i) \<and>
   closedConns (fst (snd (hb_tick ops addr now ids m (sck, h)))) =
     closedConns sck @ concat (map (\<lambda>i. case find_by_addr addr i sck of None \<Rightarrow> [] | Some c \<Rightarrow> [c])
       (filter (\<lambda>i. hb_timed_out now (heartbeatTimeout sck) (the (m i))) ids)) \<and>
   (0 \<le> ttl \<longrightarrow> ttl \<le> maxTTL \<longrightarrow> int (ttlDeciseconds ttl) = ttl div 100000000) \<and>
   ttlDeciseconds (- 100000000) = 65535"
proof -
  have "ttlDeciseconds (- 100000000) = 65535" by (simp add: ttlDeciseconds_def)
  then show ?thesis
    using ttlDeciseconds_exact [of ttl]
    by (simp add: hb_tick_def Let_def foldl_delete timeouts_schedule pings_schedule_nothing find_by_addr_def)
qed

theorem heartbeat_tick_witness:
  "fst (hb_tick null_ops (\<lambda>_. [9]) 100 [[9]]
      [[9] \<mapsto> \<lparr>lastActivity = 0, lastPingSent = Some 0, waitingForPong = True, connected = True\<rparr>]
      (sample_socket\<lparr>heartbeatTimeout := 50\<rparr>, sample_peers)) [9] = None \<and>
   int (ttlDeciseconds 300000000) = 3"
  using heartbeat_tick [of null_ops "\<lambda>_. [9]" 100 "[[9]]"
      "[[9] \<mapsto> \<lparr>lastActivity = 0, lastPingSent = Some 0, waitingForPong = True, connected = True\<rparr>]"
      "sample_socket\<lparr>heartbeatTimeout := 50\<rparr>" sample_peers "[9]" 300000000]
  by (simp add: hb_timed_out_def elapsed_over_def maxTTL_def)

end
