(* ===== verification/Mdp_Message.thy ===== *)
theory Mdp_Message
  imports Prelude
begin

text \<open>
  The messages of the Majordomo protocol (\<^verbatim>\<open>majordomo/mdp.go\<close>): the \<^verbatim>\<open>Message\<close> struct, the
  formatting of client requests, client replies and worker commands into frames, and the two
  parsers. \<^verbatim>\<open>time.Now()\<close> is the argument \<open>now\<close> (nanoseconds). A Go \<^verbatim>\<open>string\<close> and a
  \<^verbatim>\<open>[]byte\<close> are both \<open>bytes\<close>; a \<^verbatim>\<open>nil\<close> slice is the empty list, as the code only looks at
  lengths. Log output is left out.

  The locale \<open>envelope_codec\<close> states what the broker relies on: a formatted message behind any
  routing envelope parses to that envelope and to the content of the message.
\<close>

section \<open>Constants and data\<close>

definition ClientProtocol :: bytes where "ClientProtocol = str ''MDPC01''"
definition WorkerProtocol :: bytes where "WorkerProtocol = str ''MDPW01''"

definition WorkerReady :: bytes where "WorkerReady = [1]"
definition WorkerRequest :: bytes where "WorkerRequest = [2]"
definition WorkerReply :: bytes where "WorkerReply = [3]"
definition WorkerHeartbeat :: bytes where "WorkerHeartbeat = [4]"
definition WorkerDisconnect :: bytes where "WorkerDisconnect = [5]"

definition REQUEST :: bytes where "REQUEST = str ''REQUEST''"
definition REPLY :: bytes where "REPLY = str ''REPLY''"

lemmas mdp_consts = ClientProtocol_def WorkerProtocol_def WorkerReady_def WorkerRequest_def
  WorkerReply_def WorkerHeartbeat_def WorkerDisconnect_def REQUEST_def REPLY_def

definition ServiceName_Validate :: "bytes \<Rightarrow> unit result" where
  "ServiceName_Validate s =
     (if length s = 0 then Err (Errorf ''mdp: empty service name'')
      else if length s > 255 then Err (Errorf ''mdp: service name too long'')
      else Ok ())"

record Message =
  Frames :: frames
  RoutingEnvelope :: frames
  Service :: bytes
  Body :: bytes
  Command :: bytes
  ClientAddr :: bytes
  ClientEnvelope :: frames
  Timestamp :: int

text \<open>The zero value, from which the composite literals of the source are built.\<close>

definition zero_Message :: Message where
  "zero_Message = \<lparr>Frames = [], RoutingEnvelope = [], Service = [], Body = [], Command = [],
     ClientAddr = [], ClientEnvelope = [], Timestamp = 0\<rparr>"

definition NewClientRequest :: "int \<Rightarrow> bytes \<Rightarrow> bytes \<Rightarrow> Message" where
  "NewClientRequest now service body =
     zero_Message\<lparr>Service := service, Body := body, Timestamp := now\<rparr>"

definition NewClientReply :: "int \<Rightarrow> bytes \<Rightarrow> bytes \<Rightarrow> Message" where
  "NewClientReply now service body =
     zero_Message\<lparr>Service := service, Body := body, Timestamp := now\<rparr>"

definition NewWorkerMessage :: "int \<Rightarrow> bytes \<Rightarrow> bytes \<Rightarrow> bytes \<Rightarrow> Message" where
  "NewWorkerMessage now command clientAddr body =
     zero_Message\<lparr>Command := command, ClientAddr := clientAddr, Body := body, Timestamp := now\<rparr>"

section \<open>Formatting\<close>

definition FormatClientRequest :: "Message \<Rightarrow> frames" where
  "FormatClientRequest m =
     [[], ClientProtocol, REQUEST, Service m] @ (if length (Body m) > 0 then [Body m] else [])"

definition FormatClientReply :: "Message \<Rightarrow> frames" where
  "FormatClientReply m =
     (let frames = (if length (RoutingEnvelope m) > 0 then RoutingEnvelope m else []);
          frames = frames @ [[], ClientProtocol, REPLY, Service m]
      in if length (Body m) > 0 then frames @ [Body m] else frames)"

definition FormatWorkerMessage :: "Message \<Rightarrow> frames" where
  "FormatWorkerMessage m =
     (let frames = (if length (RoutingEnvelope m) > 0 then RoutingEnvelope m else []);
          frames = frames @ [[], WorkerProtocol, Command m];
          body = (if length (Body m) > 0 then [Body m] else [])
      in if Command m = WorkerReady then
           (if length (Service m) > 0 then frames @ [Service m] else frames)
         else if Command m = WorkerRequest \<or> Command m = WorkerReply then
           (let frames =
              (if length (ClientEnvelope m) > 0 then frames @ ClientEnvelope m
               else if length (ClientAddr m) > 0 then frames @ [ClientAddr m] else frames)
            in frames @ [[]] @ body)
         else if Command m = WorkerHeartbeat \<or> Command m = WorkerDisconnect then frames
         else if length (ClientEnvelope m) > 0 then frames @ ClientEnvelope m @ [[]] @ body
         else if length (ClientAddr m) > 0 then frames @ [ClientAddr m] @ [[]] @ body
         else frames)"

section \<open>Parsing\<close>

text \<open>The index of the first empty frame; \<open>None\<close> is the source's \<open>-1\<close>.\<close>

fun findDelimiterFrame :: "frames \<Rightarrow> nat option" where
  "findDelimiterFrame [] = None"
| "findDelimiterFrame (f # fs) =
     (if length f = 0 then Some 0 else map_option Suc (findDelimiterFrame fs))"

text \<open>The tail of \<^verbatim>\<open>ParseClientMessage\<close>, once envelope and protocol frames are separated.\<close>

definition ParseClient_fields :: "int \<Rightarrow> frames \<Rightarrow> frames \<Rightarrow> frames \<Rightarrow> Message result" where
  "ParseClient_fields now frames routingEnvelope protocolFrames =
     (if length protocolFrames < 2 then Err (Errorf ''mdp: client protocol frames too short'')
      else if protocolFrames ! 0 \<noteq> ClientProtocol then Err (Errorf ''mdp: invalid client protocol'')
      else if length protocolFrames < 3
        then Err (Errorf ''mdp: client protocol frames missing command or service'')
      else
        (let command = protocolFrames ! 1;
             (service, bodyIdx) =
               (if command = REQUEST \<or> command = REPLY then (protocolFrames ! 2, 3)
                else (protocolFrames ! 1, 2));
             check = (if length service > 0 then wrap_err ''mdp'' (ServiceName_Validate service)
                      else Ok ())
         in and_then check (\<lambda>_.
              Ok (zero_Message\<lparr>Frames := frames, RoutingEnvelope := routingEnvelope,
                    Command := command, Service := service, Timestamp := now,
                    Body := (if length protocolFrames > bodyIdx then protocolFrames ! bodyIdx
                             else [])\<rparr>))))"

definition ParseClientMessage :: "int \<Rightarrow> frames \<Rightarrow> Message result" where
  "ParseClientMessage now frames =
     (if length frames < 2 then Err (Errorf ''mdp: client message too short'')
      else case findDelimiterFrame frames of
          Some delimiterIdx \<Rightarrow>
            ParseClient_fields now frames (take delimiterIdx frames) (drop (delimiterIdx + 1) frames)
        | None \<Rightarrow> ParseClient_fields now frames [] frames)"

definition ParseWorker_fields :: "int \<Rightarrow> frames \<Rightarrow> frames \<Rightarrow> frames \<Rightarrow> Message result" where
  "ParseWorker_fields now frames routingEnvelope protocolFrames =
     (if length protocolFrames < 2 then Err (Errorf ''mdp: worker protocol frames too short'')
      else if protocolFrames ! 0 \<noteq> WorkerProtocol then Err (Errorf ''mdp: invalid worker protocol'')
      else
        (let command = protocolFrames ! 1;
             msg = zero_Message\<lparr>Frames := frames, RoutingEnvelope := routingEnvelope,
                     Command := command, Timestamp := now\<rparr>
         in if command = WorkerReady then
              (if length protocolFrames < 3
               then Err (Errorf ''mdp: READY message missing service name'')
               else and_then (wrap_err ''mdp'' (ServiceName_Validate (protocolFrames ! 2)))
                 (\<lambda>_. Ok (msg\<lparr>Service := protocolFrames ! 2\<rparr>)))
            else if command = WorkerRequest \<or> command = WorkerReply then
              (if length protocolFrames < 3 then Err (Errorf ''mdp: message too short'')
               else case findDelimiterFrame (drop 2 protocolFrames) of
                   None \<Rightarrow> Err (Errorf ''mdp: message missing empty separator'')
                 | Some i \<Rightarrow>
                     (let separatorIdx = i + 2;
                          msg = (if separatorIdx > 2
                            then msg\<lparr>ClientEnvelope := take (separatorIdx - 2) (drop 2 protocolFrames),
                                     ClientAddr := protocolFrames ! 2\<rparr>
                            else msg)
                      in Ok (if length protocolFrames > separatorIdx + 1
                             then msg\<lparr>Body := protocolFrames ! (separatorIdx + 1)\<rparr> else msg)))
            else if command = WorkerHeartbeat \<or> command = WorkerDisconnect then Ok msg
            else Err (Errorf ''mdp: unknown worker command'')))"

definition ParseWorkerMessage :: "int \<Rightarrow> frames \<Rightarrow> Message result" where
  "ParseWorkerMessage now frames =
     (if length frames < 3 then Err (Errorf ''mdp: worker message too short'')
      else case findDelimiterFrame frames of
          Some delimiterIdx \<Rightarrow>
            ParseWorker_fields now frames (take delimiterIdx frames) (drop (delimiterIdx + 1) frames)
        | None \<Rightarrow> Err (Errorf ''mdp: worker message missing empty separator''))"

definition Message_Age :: "int \<Rightarrow> Message \<Rightarrow> int" where
  "Message_Age now m = now - Timestamp m"

definition Message_IsExpired :: "int \<Rightarrow> Message \<Rightarrow> int \<Rightarrow> bool" where
  "Message_IsExpired now m ttl = (now - Timestamp m > ttl)"

section \<open>The delimiter search\<close>

lemma findDelimiterFrame_append:
  "[] \<notin> set env \<Longrightarrow> findDelimiterFrame (env @ [] # fs) = Some (length env)"
  by (induction env) auto

lemma findDelimiterFrame_None: "findDelimiterFrame fs = None \<longleftrightarrow> [] \<notin> set fs"
  by (induction fs) auto

lemma findDelimiterFrame_Some:
  "findDelimiterFrame fs = Some i \<longleftrightarrow>
     i < length fs \<and> fs ! i = [] \<and> [] \<notin> set (take i fs)"
proof (induction fs arbitrary: i)
  case (Cons f fs)
  then show ?case by (cases i) auto
qed simp

lemma findDelimiterFrame_split:
  assumes "findDelimiterFrame fs = Some i"
  shows "fs = take i fs @ [] # drop (i + 1) fs" "[] \<notin> set (take i fs)"
  using assms id_take_nth_drop [of i fs] by (auto simp: findDelimiterFrame_Some)

lemma ServiceName_Validate_Ok [simp]:
  "ServiceName_Validate s = Ok u \<longleftrightarrow> s \<noteq> [] \<and> length s \<le> 255"
  by (auto simp: ServiceName_Validate_def)

text \<open>The parsers return errors, they do not panic.\<close>

lemma and_then_Panic: "and_then r f = Panic m \<longleftrightarrow> r = Panic m \<or> (\<exists>x. r = Ok x \<and> f x = Panic m)"
  by (cases r) simp_all

lemma wrap_err_Panic: "wrap_err w r = Panic m \<longleftrightarrow> r = Panic m"
  by (cases r) simp_all

lemma ParseClientMessage_no_panic: "ParseClientMessage now fs \<noteq> Panic m"
proof -
  have "ServiceName_Validate s \<noteq> Panic m" for s by (simp add: ServiceName_Validate_def)
  then have "ParseClient_fields now fs env ps \<noteq> Panic m" for env ps
    by (simp add: ParseClient_fields_def Let_def and_then_Panic wrap_err_Panic split: prod.split)
  then show ?thesis by (simp add: ParseClientMessage_def split: option.split)
qed

lemma ParseWorkerMessage_no_panic: "ParseWorkerMessage now fs \<noteq> Panic m"
proof -
  have "ServiceName_Validate s \<noteq> Panic m" for s by (simp add: ServiceName_Validate_def)
  then have "ParseWorker_fields now fs env ps \<noteq> Panic m" for env ps
    by (simp add: ParseWorker_fields_def Let_def and_then_Panic wrap_err_Panic split: option.split)
  then show ?thesis by (simp add: ParseWorkerMessage_def split: option.split)
qed

section \<open>What the receiver of a formatted message sees\<close>

text \<open>
  The fields a parser fills, besides \<^verbatim>\<open>Frames\<close> and \<^verbatim>\<open>Timestamp\<close>: the specification of the
  round trips.
\<close>

definition received_request :: "Message \<Rightarrow> Message" where
  "received_request m = zero_Message\<lparr>Command := REQUEST, Service := Service m, Body := Body m\<rparr>"

definition received_reply :: "Message \<Rightarrow> Message" where
  "received_reply m = zero_Message\<lparr>Command := REPLY, Service := Service m, Body := Body m\<rparr>"

definition sent_envelope :: "Message \<Rightarrow> frames" where
  "sent_envelope m = (if ClientEnvelope m \<noteq> [] then ClientEnvelope m
     else if ClientAddr m \<noteq> [] then [ClientAddr m] else [])"

definition received_worker :: "Message \<Rightarrow> Message" where
  "received_worker m =
     (if Command m = WorkerReady then zero_Message\<lparr>Command := Command m, Service := Service m\<rparr>
      else if Command m \<in> {WorkerRequest, WorkerReply} then
        zero_Message\<lparr>Command := Command m, Body := Body m, ClientEnvelope := sent_envelope m,
          ClientAddr := (if sent_envelope m = [] then [] else hd (sent_envelope m))\<rparr>
      else zero_Message\<lparr>Command := Command m\<rparr>)"

definition worker_ok :: "Message \<Rightarrow> bool" where
  "worker_ok m \<longleftrightarrow>
     Command m = WorkerReady \<and> Service m \<noteq> [] \<and> length (Service m) \<le> 255 \<or>
     Command m \<in> {WorkerRequest, WorkerReply} \<and> [] \<notin> set (ClientEnvelope m) \<or>
     Command m \<in> {WorkerHeartbeat, WorkerDisconnect}"

definition envelope_free :: "Message \<Rightarrow> Message" where
  "envelope_free m = m\<lparr>Frames := [], RoutingEnvelope := [], Timestamp := 0\<rparr>"

text \<open>
  The contract between a formatter and its parser: behind any routing envelope, of frames
  that are not empty, the parser finds the envelope and the content of the message.
\<close>

locale envelope_codec =
  fixes fmt :: "Message \<Rightarrow> frames"
    and parse :: "int \<Rightarrow> frames \<Rightarrow> Message result"
    and ok :: "Message \<Rightarrow> bool"
    and content :: "Message \<Rightarrow> Message"
  assumes parse_fmt: "ok m \<Longrightarrow> RoutingEnvelope m = [] \<Longrightarrow> [] \<notin> set env \<Longrightarrow>
      parse now (env @ fmt m) =
        Ok ((content m)\<lparr>Frames := env @ fmt m, RoutingEnvelope := env, Timestamp := now\<rparr>)"
begin

lemma parse_fmt_plain: "ok m \<Longrightarrow> RoutingEnvelope m = [] \<Longrightarrow>
    parse now (fmt m) = Ok ((content m)\<lparr>Frames := fmt m, RoutingEnvelope := [], Timestamp := now\<rparr>)"
  using parse_fmt [of m "[]"] by simp

lemma fmt_content_inj:
  assumes "ok m" "ok m'" "RoutingEnvelope m = []" "RoutingEnvelope m' = []"
    and "[] \<notin> set env" "[] \<notin> set env'" "env @ fmt m = env' @ fmt m'"
  shows "env = env' \<and> envelope_free (content m) = envelope_free (content m')"
proof -
  have "(content m)\<lparr>Frames := env @ fmt m, RoutingEnvelope := env, Timestamp := 0\<rparr> =
      (content m')\<lparr>Frames := env' @ fmt m', RoutingEnvelope := env', Timestamp := 0\<rparr>" (is "?l = ?r")
    using parse_fmt [of m env 0] parse_fmt [of m' env' 0] assms by simp
  then have "RoutingEnvelope ?l = RoutingEnvelope ?r" "envelope_free ?l = envelope_free ?r"
    by (rule arg_cong)+
  then show ?thesis by (simp add: envelope_free_def)
qed

end

lemma ParseClientMessage_request:
  assumes "length (Service m) \<le> 255" "[] \<notin> set env"
  shows "ParseClientMessage now (env @ FormatClientRequest m) =
    Ok ((received_request m)\<lparr>Frames := env @ FormatClientRequest m, RoutingEnvelope := env,
          Timestamp := now\<rparr>)"
  using assms
  by (auto simp: ParseClientMessage_def FormatClientRequest_def findDelimiterFrame_append
      ParseClient_fields_def received_request_def zero_Message_def ServiceName_Validate_def)

lemma FormatClientReply_eq:
  "FormatClientReply m = RoutingEnvelope m @ [] # ClientProtocol # REPLY # Service m #
     (if Body m = [] then [] else [Body m])"
  by (auto simp: FormatClientReply_def Let_def)

lemma ParseClientMessage_reply:
  assumes "length (Service m) \<le> 255" "[] \<notin> set env" "RoutingEnvelope m = []"
  shows "ParseClientMessage now (env @ FormatClientReply m) =
    Ok ((received_reply m)\<lparr>Frames := env @ FormatClientReply m, RoutingEnvelope := env,
          Timestamp := now\<rparr>)"
  using assms
  by (auto simp: ParseClientMessage_def FormatClientReply_eq findDelimiterFrame_append
      ParseClient_fields_def received_reply_def zero_Message_def ServiceName_Validate_def)

interpretation request: envelope_codec FormatClientRequest ParseClientMessage
    "\<lambda>m. length (Service m) \<le> 255" received_request
  by unfold_locales (rule ParseClientMessage_request)

interpretation reply: envelope_codec FormatClientReply ParseClientMessage
    "\<lambda>m. length (Service m) \<le> 255" received_reply
  by unfold_locales (rule ParseClientMessage_reply)

text \<open>The frames of a worker message after its routing envelope, command by command.\<close>

lemma FormatWorkerMessage_cases:
  "FormatWorkerMessage m = RoutingEnvelope m @ [] # WorkerProtocol # Command m #
     (if Command m = WorkerReady then (if Service m = [] then [] else [Service m])
      else if Command m \<in> {WorkerRequest, WorkerReply}
        then sent_envelope m @ [] # (if Body m = [] then [] else [Body m])
      else if Command m \<in> {WorkerHeartbeat, WorkerDisconnect} \<or> sent_envelope m = [] then []
      else sent_envelope m @ [] # (if Body m = [] then [] else [Body m]))"
  by (auto simp: FormatWorkerMessage_def sent_envelope_def Let_def)

lemma command_distinct [simp]:
  "WorkerReady \<noteq> WorkerRequest" "WorkerReady \<noteq> WorkerReply" "WorkerReady \<noteq> WorkerHeartbeat"
  "WorkerReady \<noteq> WorkerDisconnect" "WorkerRequest \<noteq> WorkerReply" "WorkerRequest \<noteq> WorkerHeartbeat"
  "WorkerRequest \<noteq> WorkerDisconnect" "WorkerReply \<noteq> WorkerHeartbeat" "WorkerReply \<noteq> WorkerDisconnect"
  "WorkerHeartbeat \<noteq> WorkerDisconnect"
  by (simp_all add: mdp_consts)

lemmas command_distinct' [simp] = command_distinct [symmetric]

lemma ParseWorkerMessage_unfold:
  assumes "[] \<notin> set env"
  shows "ParseWorkerMessage now (env @ [] # WorkerProtocol # c # fs) =
    ParseWorker_fields now (env @ [] # WorkerProtocol # c # fs) env (WorkerProtocol # c # fs)"
  using assms by (simp add: ParseWorkerMessage_def findDelimiterFrame_append)

lemma ParseWorker_fields_simple:
  "ParseWorker_fields now frames env (WorkerProtocol # WorkerReady # s # fs) =
     and_then (wrap_err ''mdp'' (ServiceName_Validate s)) (\<lambda>_. Ok (zero_Message\<lparr>Frames := frames,
       RoutingEnvelope := env, Command := WorkerReady, Timestamp := now, Service := s\<rparr>))"
  "c \<in> {WorkerHeartbeat, WorkerDisconnect} \<Longrightarrow>
     ParseWorker_fields now frames env (WorkerProtocol # c # fs) =
       Ok (zero_Message\<lparr>Frames := frames, RoutingEnvelope := env, Command := c, Timestamp := now\<rparr>)"
  by (auto simp: ParseWorker_fields_def)

lemma ParseWorker_fields_payload:
  assumes "c \<in> {WorkerRequest, WorkerReply}" "[] \<notin> set ce"
  shows "ParseWorker_fields now frames env (WorkerProtocol # c # ce @ [] # body) =
    Ok (zero_Message\<lparr>Frames := frames, RoutingEnvelope := env, Command := c, Timestamp := now,
      ClientEnvelope := ce, ClientAddr := (if ce = [] then [] else hd ce),
      Body := (if body = [] then [] else hd body)\<rparr>)"
proof -
  have "findDelimiterFrame (ce @ [] # body) = Some (length ce)"
    using assms(2) by (rule findDelimiterFrame_append)
  moreover have "(ce @ [] # body) ! Suc (length ce) = (if body = [] then [] else hd body)"
      if "body \<noteq> []"
    using that by (simp add: nth_append hd_conv_nth)
  moreover have "(ce @ [] # body) ! 0 = hd ce" if "ce \<noteq> []"
    using that by (simp add: nth_append hd_conv_nth)
  ultimately show ?thesis
    using assms(1) by (cases ce; cases body) (auto simp: ParseWorker_fields_def zero_Message_def)
qed

lemma ParseWorkerMessage_fmt:
  assumes "worker_ok m" "RoutingEnvelope m = []" "[] \<notin> set env"
  shows "ParseWorkerMessage now (env @ FormatWorkerMessage m) =
    Ok ((received_worker m)\<lparr>Frames := env @ FormatWorkerMessage m, RoutingEnvelope := env,
          Timestamp := now\<rparr>)"
proof -
  have env: "[] \<notin> set (sent_envelope m)" if "[] \<notin> set (ClientEnvelope m)"
    using that by (simp add: sent_envelope_def)
  from assms(1) consider
      (ready) "Command m = WorkerReady" "Service m \<noteq> []" "length (Service m) \<le> 255"
    | (payload) "Command m \<in> {WorkerRequest, WorkerReply}" "[] \<notin> set (sent_envelope m)"
    | (bare) "Command m \<in> {WorkerHeartbeat, WorkerDisconnect}"
    using env by (auto simp: worker_ok_def)
  then show ?thesis
  proof cases
    case ready
    then have "ServiceName_Validate (Service m) = Ok ()" by simp
    with ready show ?thesis
      using assms(2,3)
      by (simp add: FormatWorkerMessage_cases ParseWorkerMessage_unfold ParseWorker_fields_simple
          received_worker_def)
  next
    case payload
    then have "Command m \<noteq> WorkerReady" by auto
    with payload show ?thesis
      using assms(2,3)
      by (simp add: FormatWorkerMessage_cases ParseWorkerMessage_unfold ParseWorker_fields_payload
          received_worker_def)
  next
    case bare
    then have "Command m \<notin> {WorkerReady, WorkerRequest, WorkerReply}" by auto
    with bare show ?thesis
      using assms(2,3)
      by (simp add: FormatWorkerMessage_cases ParseWorkerMessage_unfold ParseWorker_fields_simple
          received_worker_def)
  qed
qed

interpretation worker: envelope_codec FormatWorkerMessage ParseWorkerMessage
    worker_ok received_worker
  by unfold_locales (rule ParseWorkerMessage_fmt)

section \<open>What a parser accepts\<close>

lemma FormatWorkerMessage_envelope:
  "FormatWorkerMessage m = RoutingEnvelope m @ FormatWorkerMessage (m\<lparr>RoutingEnvelope := []\<rparr>)"
  by (simp add: FormatWorkerMessage_cases sent_envelope_def)

lemma ParseWorker_fields_Ok:
  assumes "ParseWorker_fields now frames env pf = Ok m"
  obtains c fs where "pf = WorkerProtocol # c # fs"
    "c \<in> {WorkerReady, WorkerRequest, WorkerReply, WorkerHeartbeat, WorkerDisconnect}"
    "c = WorkerReady \<longrightarrow> fs \<noteq> []"
    "c \<in> {WorkerRequest, WorkerReply} \<longrightarrow> [] \<in> set fs"
proof -
  from assms have "2 \<le> length pf"
    by (auto simp: ParseWorker_fields_def not_less split: if_splits)
  then obtain p c fs where pf: "pf = p # c # fs"
    by (cases pf; cases "tl pf") auto
  have sep: "[] \<in> set fs" if "findDelimiterFrame fs = Some i" for i
    using findDelimiterFrame_None [of fs] that by auto
  from assms pf have "p = WorkerProtocol"
      "c \<in> {WorkerReady, WorkerRequest, WorkerReply, WorkerHeartbeat, WorkerDisconnect}"
      "c = WorkerReady \<longrightarrow> fs \<noteq> []" "c \<in> {WorkerRequest, WorkerReply} \<longrightarrow> [] \<in> set fs"
    by (auto simp: ParseWorker_fields_def Let_def sep split: if_splits option.splits)
  with pf that show thesis by blast
qed

lemma ParseWorker_fields_sound:
  assumes "ParseWorker_fields now frames env pf = Ok m"
  shows "RoutingEnvelope m = env \<and> worker_ok m \<and>
    (\<exists>ext. env @ [] # pf = FormatWorkerMessage m @ ext)"
proof -
  from assms obtain c fs where pf: "pf = WorkerProtocol # c # fs"
    and c: "c \<in> {WorkerReady, WorkerRequest, WorkerReply, WorkerHeartbeat, WorkerDisconnect}"
    and ready: "c = WorkerReady \<longrightarrow> fs \<noteq> []"
    and payload: "c \<in> {WorkerRequest, WorkerReply} \<longrightarrow> [] \<in> set fs"
    by (rule ParseWorker_fields_Ok)
  from c consider "c = WorkerReady" | "c \<in> {WorkerRequest, WorkerReply}"
    | "c \<in> {WorkerHeartbeat, WorkerDisconnect}" by blast
  then show ?thesis
  proof cases
    case 1
    with ready obtain s fs' where "fs = s # fs'" by (cases fs) auto
    with assms 1 show ?thesis
      unfolding pf by (auto simp: ParseWorker_fields_simple worker_ok_def FormatWorkerMessage_cases)
  next
    case 2
    then obtain ce b where fs: "fs = ce @ [] # b" "[] \<notin> set ce"
      using payload by (meson split_list_first)
    from 2 have nr: "c \<noteq> WorkerReady" by auto
    from assms 2 have m: "m = zero_Message\<lparr>Frames := frames, RoutingEnvelope := env, Command := c,
        Timestamp := now, ClientEnvelope := ce, ClientAddr := (if ce = [] then [] else hd ce),
        Body := (if b = [] then [] else hd b)\<rparr>"
      unfolding pf fs(1) by (simp add: ParseWorker_fields_payload fs(2))
    have "sent_envelope m = ce"
      using m by (simp add: sent_envelope_def)
    then have "env @ [] # pf =
        FormatWorkerMessage m @ (if b = [] then [] else if hd b = [] then b else tl b)"
      using 2 nr m pf fs(1) by (cases b) (auto simp: FormatWorkerMessage_cases)
    then show ?thesis
      using 2 m fs(2) by (auto simp: worker_ok_def)
  next
    case 3
    then have nr: "c \<notin> {WorkerReady, WorkerRequest, WorkerReply}" by auto
    from assms 3 have "m = zero_Message\<lparr>Frames := frames, RoutingEnvelope := env, Command := c,
        Timestamp := now\<rparr>"
      unfolding pf by (simp add: ParseWorker_fields_simple)
    then show ?thesis
      using 3 nr pf by (auto simp: worker_ok_def FormatWorkerMessage_cases)
  qed
qed

lemma ParseWorkerMessage_sound:
  assumes "ParseWorkerMessage now fs = Ok m"
  shows "[] \<notin> set (RoutingEnvelope m) \<and> worker_ok m \<and> (\<exists>ext. fs = FormatWorkerMessage m @ ext)"
proof -
  from assms obtain i where i: "findDelimiterFrame fs = Some i"
    and pf: "ParseWorker_fields now fs (take i fs) (drop (i + 1) fs) = Ok m"
    by (auto simp: ParseWorkerMessage_def split: if_splits option.splits)
  show ?thesis
    using ParseWorker_fields_sound [OF pf] findDelimiterFrame_split [OF i] by metis
qed

lemma ParseClient_fields_sound:
  assumes "ParseClient_fields now frames env pf = Ok m" "Command m = REQUEST"
  shows "RoutingEnvelope m = env \<and> length (Service m) \<le> 255 \<and>
    (\<exists>ext. [] # pf = FormatClientRequest m @ ext)"
proof -
  from assms(1) have "3 \<le> length pf"
    by (auto simp: ParseClient_fields_def not_less split: if_splits)
  then obtain p c s b where pf: "pf = p # c # s # b"
    by (cases pf; cases "tl pf"; cases "tl (tl pf)") auto
  from assms(1) have "Command m = c"
    by (auto simp: pf ParseClient_fields_def Let_def split: if_splits)
  with assms have c: "c = REQUEST" by simp
  from assms(1) have p: "p = ClientProtocol" and m: "m = zero_Message\<lparr>Frames := frames,
      RoutingEnvelope := env, Command := REQUEST, Service := s, Timestamp := now,
      Body := (if b = [] then [] else hd b)\<rparr>" and s: "length s \<le> 255"
    by (auto simp: pf c ParseClient_fields_def Let_def hd_conv_nth split: if_splits)
  have "[] # pf = FormatClientRequest m @ (if b = [] then [] else if hd b = [] then b else tl b)"
    by (cases b) (auto simp: pf c p m FormatClientRequest_def)
  with m s show ?thesis by auto
qed

lemma ParseClientMessage_sound:
  assumes "ParseClientMessage now fs = Ok m \<and> Command m = REQUEST \<and> [] \<in> set fs"
  shows "length (Service m) \<le> 255" "\<exists>ext. fs = RoutingEnvelope m @ FormatClientRequest m @ ext"
proof -
  have "findDelimiterFrame fs \<noteq> None" using assms by (simp add: findDelimiterFrame_None)
  then obtain i where i: "findDelimiterFrame fs = Some i"
    and pf: "ParseClient_fields now fs (take i fs) (drop (i + 1) fs) = Ok m"
    using assms by (auto simp: ParseClientMessage_def split: if_splits option.splits)
  note sound = ParseClient_fields_sound [OF pf assms [THEN conjunct2, THEN conjunct1]]
  then show "length (Service m) \<le> 255" by simp
  from sound show "\<exists>ext. fs = RoutingEnvelope m @ FormatClientRequest m @ ext"
    using findDelimiterFrame_split(1) [OF i] by metis
qed

text \<open>
  The worker side of the Majordomo protocol is a codec. A READY with a service name of 1
  to 255 bytes, a REQUEST or REPLY whose client envelope has no empty frame, a HEARTBEAT or a
  DISCONNECT, behind any routing envelope without empty frames, parses to exactly the content
  that was formatted (a lone client address arrives as an envelope of one frame). Conversely
  every frame sequence the parser accepts is what formatting the parsed message gives,
  possibly followed by more frames, which the parser drops: a multi-frame body keeps its first
  frame only.
\<close>

theorem worker_codec:
  "(worker_ok m \<and> [] \<notin> set (RoutingEnvelope m) \<longrightarrow>
     ParseWorkerMessage now (FormatWorkerMessage m) =
       Ok ((received_worker m)\<lparr>Frames := FormatWorkerMessage m,
             RoutingEnvelope := RoutingEnvelope m, Timestamp := now\<rparr>)) \<and>
   (ParseWorkerMessage now fs = Ok m' \<longrightarrow>
     worker_ok m' \<and> [] \<notin> set (RoutingEnvelope m') \<and> (\<exists>ext. fs = FormatWorkerMessage m' @ ext))"
proof (intro conjI impI)
  have "received_worker (m\<lparr>RoutingEnvelope := []\<rparr>) = received_worker m"
       "worker_ok (m\<lparr>RoutingEnvelope := []\<rparr>) = worker_ok m"
    by (simp_all add: received_worker_def sent_envelope_def worker_ok_def)
  moreover assume "worker_ok m \<and> [] \<notin> set (RoutingEnvelope m)"
  ultimately show "ParseWorkerMessage now (FormatWorkerMessage m) =
       Ok ((received_worker m)\<lparr>Frames := FormatWorkerMessage m,
             RoutingEnvelope := RoutingEnvelope m, Timestamp := now\<rparr>)"
    using worker.parse_fmt [of "m\<lparr>RoutingEnvelope := []\<rparr>" "RoutingEnvelope m" now]
      FormatWorkerMessage_envelope [of m] by simp
qed (use ParseWorkerMessage_sound in blast)+

text \<open>A REPLY for a client reached through two routers, and a REQUEST whose body has two frames.\<close>

definition sample_reply :: Message where
  "sample_reply = zero_Message\<lparr>RoutingEnvelope := [[7]], Command := WorkerReply,
     ClientEnvelope := [[8], [9]], Body := [65]\<rparr>"

definition sample_request :: frames where
  "sample_request = [[], WorkerProtocol, WorkerRequest, [8], [], [65], [66]]"

theorem worker_codec_witness:
  "ParseWorkerMessage 5 [[7], [], WorkerProtocol, WorkerReply, [8], [9], [], [65]] =
     Ok (sample_reply\<lparr>Frames := [[7], [], WorkerProtocol, WorkerReply, [8], [9], [], [65]],
           ClientAddr := [8], Timestamp := 5\<rparr>) \<and>
   (\<exists>m. ParseWorkerMessage 5 sample_request = Ok m \<and> Body m = [65] \<and>
      (\<exists>ext. sample_request = FormatWorkerMessage m @ ext))"
proof
  have "FormatWorkerMessage sample_reply = [[7], [], WorkerProtocol, WorkerReply, [8], [9], [], [65]]"
    "worker_ok sample_reply" "RoutingEnvelope sample_reply = [[7]]"
    "received_worker sample_reply = sample_reply\<lparr>RoutingEnvelope := [], ClientAddr := [8]\<rparr>"
    by (simp_all add: FormatWorkerMessage_cases sample_reply_def zero_Message_def sent_envelope_def
        worker_ok_def received_worker_def)
  then show "ParseWorkerMessage 5 [[7], [], WorkerProtocol, WorkerReply, [8], [9], [], [65]] =
     Ok (sample_reply\<lparr>Frames := [[7], [], WorkerProtocol, WorkerReply, [8], [9], [], [65]],
           ClientAddr := [8], Timestamp := 5\<rparr>)"
    using worker_codec [THEN conjunct1, rule_format, of sample_reply 5] by (simp add: sample_reply_def)
  have ok: "ParseWorkerMessage 5 sample_request = Ok (zero_Message\<lparr>Frames := sample_request,
      Command := WorkerRequest, Timestamp := 5, ClientEnvelope := [[8]], ClientAddr := [8],
      Body := [65]\<rparr>)"
    by (simp add: sample_request_def ParseWorkerMessage_def ParseWorker_fields_def zero_Message_def)
  then show "\<exists>m. ParseWorkerMessage 5 sample_request = Ok m \<and> Body m = [65] \<and>
      (\<exists>ext. sample_request = FormatWorkerMessage m @ ext)"
    using worker_codec [THEN conjunct2, rule_format, OF ok] by auto
qed

text \<open>
  The client side of the Majordomo protocol is a codec as well. A request or a reply with
  a service name of at most 255 bytes, behind any routing envelope without empty frames, parses
  to exactly its command, service and body, and with a longer name it is refused. Every
  REQUEST the parser accepts with a delimiter in front is the formatted parsed message behind
  its envelope, followed by the frames that are dropped.
\<close>

theorem client_codec:
  assumes "[] \<notin> set env"
  shows "ParseClientMessage now (env @ FormatClientRequest (NewClientRequest t service body)) =
      (if length service \<le> 255
       then Ok (zero_Message\<lparr>Frames := env @ FormatClientRequest (NewClientRequest t service body),
         RoutingEnvelope := env, Command := REQUEST, Service := service, Body := body,
         Timestamp := now\<rparr>)
       else Err (Wrapf ''mdp'' (Errorf ''mdp: service name too long''))) \<and>
    ParseClientMessage now
        (FormatClientReply ((NewClientReply t service body)\<lparr>RoutingEnvelope := env\<rparr>)) =
      (if length service \<le> 255
       then Ok (zero_Message\<lparr>Frames := env @ FormatClientReply (NewClientReply t service body),
         RoutingEnvelope := env, Command := REPLY, Service := service, Body := body,
         Timestamp := now\<rparr>)
       else Err (Wrapf ''mdp'' (Errorf ''mdp: service name too long''))) \<and>
    (ParseClientMessage now fs = Ok m \<and> Command m = REQUEST \<and> [] \<in> set fs \<longrightarrow>
      length (Service m) \<le> 255 \<and> (\<exists>ext. fs = RoutingEnvelope m @ FormatClientRequest m @ ext))"
proof (intro conjI impI)
  show "ParseClientMessage now (env @ FormatClientRequest (NewClientRequest t service body)) =
      (if length service \<le> 255
       then Ok (zero_Message\<lparr>Frames := env @ FormatClientRequest (NewClientRequest t service body),
         RoutingEnvelope := env, Command := REQUEST, Service := service, Body := body,
         Timestamp := now\<rparr>)
       else Err (Wrapf ''mdp'' (Errorf ''mdp: service name too long'')))"
    using assms
    by (auto simp: NewClientRequest_def zero_Message_def FormatClientRequest_def ParseClientMessage_def
        findDelimiterFrame_append ParseClient_fields_def ServiceName_Validate_def)
  show "ParseClientMessage now
        (FormatClientReply ((NewClientReply t service body)\<lparr>RoutingEnvelope := env\<rparr>)) =
      (if length service \<le> 255
       then Ok (zero_Message\<lparr>Frames := env @ FormatClientReply (NewClientReply t service body),
         RoutingEnvelope := env, Command := REPLY, Service := service, Body := body,
         Timestamp := now\<rparr>)
       else Err (Wrapf ''mdp'' (Errorf ''mdp: service name too long'')))"
    using assms
    by (auto simp: NewClientReply_def zero_Message_def FormatClientReply_eq ParseClientMessage_def
        findDelimiterFrame_append ParseClient_fields_def ServiceName_Validate_def)
qed (use ParseClientMessage_sound in blast)+

theorem client_codec_witness:
  "(\<exists>m. ParseClientMessage 5 ([7] # FormatClientRequest (NewClientRequest 1 [101] [65])) = Ok m \<and>
      RoutingEnvelope m = [[7]] \<and> Command m = REQUEST \<and> Service m = [101] \<and> Body m = [65] \<and>
      (\<exists>ext. [7] # FormatClientRequest (NewClientRequest 1 [101] [65]) =
         RoutingEnvelope m @ FormatClientRequest m @ ext))"
proof -
  let ?fs = "[7] # FormatClientRequest (NewClientRequest 1 [101] [65])"
  note codec = client_codec [of "[[7]]" 5 1 "[101]" "[65]" ?fs]
  obtain m where m: "ParseClientMessage 5 ?fs = Ok m" "RoutingEnvelope m = [[7]]"
    "Command m = REQUEST" "Service m = [101]" "Body m = [65]"
    using codec [THEN conjunct1] by simp
  moreover have "[] \<in> set ?fs" by (simp add: FormatClientRequest_def)
  ultimately show ?thesis using codec [of m] by auto
qed

end
