(* ===== verification/Mdp_Broker.thy ===== *)
theory Mdp_Broker
  imports Mdp_Message
begin

text \<open>
  The Majordomo broker (\<^verbatim>\<open>majordomo/broker.go\<close>).

  \<^item> Workers are referenced by pointer in the registry and in the two lists of each service, and
    the code compares pointers: \<open>heap\<close> maps a pointer (a number) to the \<^verbatim>\<open>BrokerWorker\<close>, and
    \<open>fresh\<close> is the next unused one. A \<^verbatim>\<open>*Service\<close> is only ever reached through the map
    \<^verbatim>\<open>services\<close>, so it is its value there.
  \<^item> The ROUTER socket is the record \<open>mdp_net\<close>: the outcome of the \<open>i\<close>-th \<^verbatim>\<open>Send\<close> of the run,
    the number of sends so far and the messages that went out.
  \<^item> Every handler holds the broker's mutex and is one atomic step; \<^verbatim>\<open>time.Now()\<close> is the
    argument \<open>now\<close>, in nanoseconds. Iteration over the map of workers takes the order as an
    argument. A handler that never returns is \<open>None\<close>, a run-time panic is \<open>Panic\<close>.
  \<^item> Log output is left out, except where building it panics or creates a service.
\<close>

section \<open>Data\<close>

record BrokerWorker =
  WID :: bytes
  WService :: bytes
  Identity :: bytes
  Address :: bytes
  Expiry :: int
  InstanceID :: int
  RequestsProcessed :: "64 word"
  LastSeen :: int

record PendingRequest =
  Client :: bytes
  RService :: bytes
  RBody :: bytes
  Created :: int

record Service =
  SName :: bytes
  Requests :: "PendingRequest list"
  AvailableWorkers :: "nat list"
  BusyWorkers :: "nat list"
  TotalRequests :: "64 word"
  TotalResponses :: "64 word"
  ActiveWorkers :: int

record BrokerOptions =
  oHeartbeatLiveness :: int
  oHeartbeatInterval :: int
  oRequestTimeout :: int
  oLogErrors :: bool
  oLogInfo :: bool

record mdp_net =
  outcome :: "nat \<Rightarrow> go_error option"
  sends :: nat
  wire :: "frames list"

record Broker =
  heartbeatLiveness :: int
  heartbeatInterval :: int
  heartbeatExpiry :: int
  requestTimeout :: int
  LogInfo :: bool
  bound :: bool
  running :: bool
  stopped :: bool
  services :: "bytes \<rightharpoonup> Service"
  bworkers :: "bytes \<rightharpoonup> nat"
  heap :: "nat \<Rightarrow> BrokerWorker"
  fresh :: nat
  totalClients :: "64 word"
  totalWorkers :: "64 word"
  totalRequests :: "64 word"
  totalReplies :: "64 word"
  sock :: mdp_net

definition BrokerWorker_IsExpired :: "int \<Rightarrow> BrokerWorker \<Rightarrow> bool" where
  "BrokerWorker_IsExpired now w = (now > Expiry w)"

definition PendingRequest_IsExpired :: "int \<Rightarrow> PendingRequest \<Rightarrow> int \<Rightarrow> bool" where
  "PendingRequest_IsExpired now r ttl = (now - Created r > ttl)"

text \<open>Multiplication of two \<^verbatim>\<open>time.Duration\<close> values wraps at 64 bits.\<close>

definition mul_duration :: "int \<Rightarrow> int \<Rightarrow> int" where
  "mul_duration a b = sint (word_of_int (a * b) :: 64 word)"

definition DefaultHeartbeatLiveness :: int where "DefaultHeartbeatLiveness = 3"
definition DefaultHeartbeatInterval :: int where "DefaultHeartbeatInterval = 2500 * 1000000"

definition DefaultBrokerOptions :: BrokerOptions where
  "DefaultBrokerOptions = \<lparr>oHeartbeatLiveness = DefaultHeartbeatLiveness,
     oHeartbeatInterval = DefaultHeartbeatInterval, oRequestTimeout = 30 * 1000000000,
     oLogErrors = True, oLogInfo = False\<rparr>"

definition zero_Worker :: BrokerWorker where
  "zero_Worker = \<lparr>WID = [], WService = [], Identity = [], Address = [], Expiry = 0,
     InstanceID = 0, RequestsProcessed = 0, LastSeen = 0\<rparr>"

definition NewBroker :: "mdp_net \<Rightarrow> BrokerOptions option \<Rightarrow> Broker" where
  "NewBroker net opts =
     (let options = (case opts of None \<Rightarrow> DefaultBrokerOptions | Some opt \<Rightarrow> opt)
      in \<lparr>heartbeatLiveness = oHeartbeatLiveness options,
          heartbeatInterval = oHeartbeatInterval options,
          heartbeatExpiry = mul_duration (oHeartbeatInterval options) (oHeartbeatLiveness options),
          requestTimeout = oRequestTimeout options, LogInfo = oLogInfo options,
          bound = False, running = False, stopped = False,
          services = Map.empty, bworkers = Map.empty, heap = (\<lambda>_. zero_Worker), fresh = 0,
          totalClients = 0, totalWorkers = 0, totalRequests = 0, totalReplies = 0, sock = net\<rparr>)"

definition SetHeartbeat :: "int \<Rightarrow> int \<Rightarrow> Broker \<Rightarrow> Broker" where
  "SetHeartbeat liveness interval b = b\<lparr>heartbeatLiveness := liveness,
     heartbeatInterval := interval, heartbeatExpiry := mul_duration interval liveness\<rparr>"

definition SetRequestTimeout :: "int \<Rightarrow> Broker \<Rightarrow> Broker" where
  "SetRequestTimeout timeout b = b\<lparr>requestTimeout := timeout\<rparr>"

text \<open>\<^verbatim>\<open>Start\<close> with the outcome of \<^verbatim>\<open>socket.Listen\<close>, and \<^verbatim>\<open>Stop\<close> with that of \<^verbatim>\<open>socket.Close\<close>.\<close>

definition Start :: "go_error option \<Rightarrow> Broker \<Rightarrow> unit result \<times> Broker" where
  "Start listen b =
     (if running b then (Err (Errorf ''mdp: broker already running''), b)
      else case listen of
          Some e \<Rightarrow> (Err (Wrapf ''mdp: failed to bind broker socket'' e), b)
        | None \<Rightarrow> (Ok (), b\<lparr>bound := True, running := True\<rparr>))"

definition Stop :: "go_error option \<Rightarrow> Broker \<Rightarrow> unit result \<times> Broker" where
  "Stop closing b =
     (if \<not> running b then (Err (Errorf ''mdp: broker not running''), b)
      else
        (let b = b\<lparr>running := False\<rparr>
         in if stopped b then (Panic ''close of closed channel'', b)
            else
              (let b = b\<lparr>stopped := True\<rparr>
               in if bound b
                  then (case closing of
                      Some e \<Rightarrow> (Err (Wrapf ''mdp: failed to close broker socket'' e), b)
                    | None \<Rightarrow> (Ok (), b))
                  else (Ok (), b))))"

section \<open>Recognising a message\<close>

datatype messageType = messageTypeUnknown | messageTypeWorker | messageTypeClient

text \<open>The loop of \<^verbatim>\<open>splitOnSeparators\<close> with its \<^verbatim>\<open>parts\<close> and \<^verbatim>\<open>currentPart\<close>.\<close>

fun split_loop :: "frames list \<Rightarrow> frames \<Rightarrow> frames \<Rightarrow> frames list" where
  "split_loop parts currentPart [] =
     (if length currentPart > 0 then parts @ [currentPart] else parts)"
| "split_loop parts currentPart (frame # frames) =
     (if length frame = 0
      then (if length currentPart > 0 then split_loop (parts @ [currentPart]) [] frames
            else split_loop parts currentPart frames)
      else split_loop parts (currentPart @ [frame]) frames)"

definition splitOnSeparators :: "frames \<Rightarrow> frames list" where
  "splitOnSeparators frames = (if length frames = 0 then [] else split_loop [] [] frames)"

text \<open>The search for a part that starts with a protocol identifier.\<close>

fun detect_part :: "frames list \<Rightarrow> frames list \<Rightarrow> (messageType \<times> bytes \<times> frames) option" where
  "detect_part parts [] = None"
| "detect_part parts (part # ps) =
     (if length part \<ge> 1 \<and> part ! 0 = WorkerProtocol
      then Some (messageTypeWorker, part ! 0,
             [[]] @ part @ concat (map (\<lambda>p. [] # p) (tl parts)))
      else if length part \<ge> 1 \<and> part ! 0 = ClientProtocol
      then Some (messageTypeClient, part ! 0, [[]] @ part)
      else detect_part parts ps)"

text \<open>The fallback scan; \<open>prev\<close> is the frame before the rest, if there is one.\<close>

fun detect_frame :: "bytes option \<Rightarrow> frames \<Rightarrow> messageType \<times> bytes \<times> frames" where
  "detect_frame prev [] = (messageTypeUnknown, [], [])"
| "detect_frame prev (frame # frames) =
     (if length frame > 0 \<and> (frame = WorkerProtocol \<or> frame = ClientProtocol)
      then (if frame = WorkerProtocol then messageTypeWorker else messageTypeClient, frame,
            (if prev = Some [] then [] # frame # frames else [[]] @ frame # frames))
      else detect_frame (Some frame) frames)"

definition detectMessageType :: "frames \<Rightarrow> messageType \<times> bytes \<times> frames" where
  "detectMessageType workingFrames =
     (if length workingFrames < 2 then (messageTypeUnknown, [], [])
      else
        (let parts = splitOnSeparators workingFrames
         in case detect_part parts parts of
             Some r \<Rightarrow> r
           | None \<Rightarrow> detect_frame None workingFrames))"

definition analyzeMessageStructure :: "frames \<Rightarrow> messageType \<times> bytes \<times> frames" where
  "analyzeMessageStructure frames =
     (if length frames < 2 then (messageTypeUnknown, [], []) else detectMessageType (drop 1 frames))"

section \<open>Sending\<close>

definition mdp_Send :: "frames \<Rightarrow> mdp_net \<Rightarrow> go_error option \<times> mdp_net" where
  "mdp_Send msg n =
     (case outcome n (sends n) of
        None \<Rightarrow> (None, n\<lparr>sends := sends n + 1, wire := wire n @ [msg]\<rparr>)
      | Some e \<Rightarrow> (Some e, n\<lparr>sends := sends n + 1\<rparr>))"

definition sendToWorker ::
    "int \<Rightarrow> bytes \<Rightarrow> bytes \<Rightarrow> bytes \<Rightarrow> bytes \<Rightarrow> mdp_net \<Rightarrow> go_error option \<times> mdp_net" where
  "sendToWorker now identity command clientAddr body n =
     (let frames = FormatWorkerMessage (NewWorkerMessage now command clientAddr body);
          (err, n') = mdp_Send (identity # frames) n
      in (map_option (Wrapf ''failed to send to worker'') err, n'))"

definition sendToClient :: "int \<Rightarrow> bytes \<Rightarrow> bytes \<Rightarrow> bytes \<Rightarrow> mdp_net \<Rightarrow> mdp_net" where
  "sendToClient now identity service body n =
     (let frames = FormatClientReply (NewClientReply now service body)
      in snd (mdp_Send (identity # frames) n))"

section \<open>Services and their worker lists\<close>

definition isWorkerInAvailableList :: "nat \<Rightarrow> Service \<Rightarrow> bool" where
  "isWorkerInAvailableList worker service = list_ex (\<lambda>w. w = worker) (AvailableWorkers service)"

definition moveWorkerToBusy :: "nat \<Rightarrow> Service \<Rightarrow> Service" where
  "moveWorkerToBusy worker service =
     service\<lparr>AvailableWorkers := remove1 worker (AvailableWorkers service),
             BusyWorkers := BusyWorkers service @ [worker]\<rparr>"

definition moveWorkerToAvailable :: "nat \<Rightarrow> Service \<Rightarrow> Service" where
  "moveWorkerToAvailable worker service =
     (let service = service\<lparr>BusyWorkers := remove1 worker (BusyWorkers service)\<rparr>
      in if \<not> isWorkerInAvailableList worker service
         then service\<lparr>AvailableWorkers := AvailableWorkers service @ [worker]\<rparr>
         else service)"

definition new_Service :: "bytes \<Rightarrow> Service" where
  "new_Service name = \<lparr>SName = name, Requests = [], AvailableWorkers = [], BusyWorkers = [],
     TotalRequests = 0, TotalResponses = 0, ActiveWorkers = 0\<rparr>"

definition getOrCreateService :: "bytes \<Rightarrow> Broker \<Rightarrow> Service \<times> Broker" where
  "getOrCreateService name b =
     (case services b name of
        Some service \<Rightarrow> (service, b)
      | None \<Rightarrow> (new_Service name, b\<lparr>services := (services b)(name \<mapsto> new_Service name)\<rparr>))"

definition live_workers :: "int \<Rightarrow> (nat \<Rightarrow> BrokerWorker) \<Rightarrow> nat list \<Rightarrow> nat list" where
  "live_workers now h = filter (\<lambda>p. \<not> BrokerWorker_IsExpired now (h p))"

definition getAvailableWorkersForService :: "int \<Rightarrow> bytes \<Rightarrow> Broker \<Rightarrow> nat list \<times> Broker" where
  "getAvailableWorkersForService now serviceName b =
     (let (service, b') = getOrCreateService serviceName b
      in (live_workers now (heap b') (AvailableWorkers service), b'))"

section \<open>Dispatching\<close>

text \<open>One round of the loop of \<^verbatim>\<open>dispatchRequests\<close>, for a request and an available worker.\<close>

definition dispatch_one ::
    "int \<Rightarrow> (nat \<Rightarrow> BrokerWorker) \<Rightarrow> Service \<Rightarrow> mdp_net \<Rightarrow> Service \<times> mdp_net" where
  "dispatch_one now h service n =
     (let request = hd (Requests service);
          service = service\<lparr>Requests := tl (Requests service)\<rparr>;
          worker = hd (AvailableWorkers service);
          service = moveWorkerToBusy worker service;
          (err, n') = sendToWorker now (Identity (h worker)) WorkerRequest
                        (Client request) (RBody request) n
      in case err of
           None \<Rightarrow> (service, n')
         | Some e \<Rightarrow>
             (let service = moveWorkerToAvailable worker service
              in (service\<lparr>Requests := request # Requests service\<rparr>, n')))"

partial_function (option) dispatch_loop ::
    "int \<Rightarrow> (nat \<Rightarrow> BrokerWorker) \<Rightarrow> Service \<Rightarrow> mdp_net \<Rightarrow> (Service \<times> mdp_net) option" where
  "dispatch_loop now h service n =
     (if Requests service = [] \<or> AvailableWorkers service = [] then Some (service, n)
      else (case dispatch_one now h service n of (service', n') \<Rightarrow> dispatch_loop now h service' n'))"

definition dispatchRequests :: "int \<Rightarrow> bytes \<Rightarrow> Broker \<Rightarrow> Broker option" where
  "dispatchRequests now name b =
     (let service = fst (getOrCreateService name b);
          service = service\<lparr>AvailableWorkers :=
            live_workers now (heap b) (AvailableWorkers service)\<rparr>
      in map_option (\<lambda>(service', n'). b\<lparr>services := (services b)(name \<mapsto> service'), sock := n'\<rparr>)
           (dispatch_loop now (heap b) service (sock b)))"

section \<open>Worker messages\<close>

text \<open>The removal of a worker from the lists of its service, in \<^verbatim>\<open>disconnectWorker\<close> and \<^verbatim>\<open>cleanup\<close>.\<close>

definition drop_worker :: "nat \<Rightarrow> Service \<Rightarrow> Service" where
  "drop_worker worker service =
     service\<lparr>AvailableWorkers := remove1 worker (AvailableWorkers service),
             BusyWorkers := remove1 worker (BusyWorkers service),
             ActiveWorkers := ActiveWorkers service - 1\<rparr>"

definition unregister :: "bytes \<Rightarrow> nat \<Rightarrow> Broker \<Rightarrow> Broker" where
  "unregister key worker b =
     (let b = b\<lparr>bworkers := (bworkers b)(key := None)\<rparr>; name = WService (heap b worker)
      in case services b name of
           None \<Rightarrow> b
         | Some service \<Rightarrow> b\<lparr>services := (services b)(name \<mapsto> drop_worker worker service)\<rparr>)"

definition disconnectWorker :: "int \<Rightarrow> nat \<Rightarrow> bool \<Rightarrow> Broker \<Rightarrow> Broker" where
  "disconnectWorker now worker snd_msg b =
     (let b = (if snd_msg
               then b\<lparr>sock := snd (sendToWorker now (Identity (heap b worker)) WorkerDisconnect
                                    [] [] (sock b))\<rparr>
               else b)
      in unregister (Identity (heap b worker)) worker b)"

text \<open>The branches of \<^verbatim>\<open>processWorkerMessage\<close>: a new READY, a REPLY and a HEARTBEAT.\<close>

definition register_worker :: "int \<Rightarrow> bytes \<Rightarrow> bytes \<Rightarrow> Broker \<Rightarrow> Broker" where
  "register_worker now identity serviceName b =
     (let worker = fresh b;
          b = b\<lparr>heap := (heap b)(worker := \<lparr>WID = identity, WService = serviceName,
                Identity = identity, Address = identity, Expiry = now + heartbeatExpiry b,
                InstanceID = now, RequestsProcessed = 0, LastSeen = now\<rparr>),
              fresh := worker + 1\<rparr>;
          (service, b) = getOrCreateService serviceName b;
          service = service\<lparr>AvailableWorkers := AvailableWorkers service @ [worker],
                            ActiveWorkers := ActiveWorkers service + 1\<rparr>
      in b\<lparr>services := (services b)(serviceName \<mapsto> service),
           bworkers := (bworkers b)(identity \<mapsto> worker), totalWorkers := totalWorkers b + 1\<rparr>)"

definition worker_reply :: "int \<Rightarrow> nat \<Rightarrow> Message \<Rightarrow> Broker \<Rightarrow> Broker" where
  "worker_reply now worker msg b =
     (let w = heap b worker;
          b = b\<lparr>sock := sendToClient now (ClientAddr msg) (WService w) (Body msg) (sock b)\<rparr>;
          b = b\<lparr>heap := (heap b)(worker := w\<lparr>LastSeen := now, Expiry := now + heartbeatExpiry b,
                RequestsProcessed := RequestsProcessed w + 1\<rparr>),
              totalReplies := totalReplies b + 1\<rparr>;
          (service, b) = getOrCreateService (WService w) b
      in b\<lparr>services := (services b)(WService w \<mapsto> moveWorkerToAvailable worker service)\<rparr>)"

definition worker_heartbeat :: "int \<Rightarrow> nat \<Rightarrow> Broker \<Rightarrow> Broker" where
  "worker_heartbeat now worker b =
     b\<lparr>heap := (heap b)(worker := (heap b worker)\<lparr>LastSeen := now,
         Expiry := now + heartbeatExpiry b\<rparr>)\<rparr>"

definition disconnect_unknown :: "int \<Rightarrow> bytes \<Rightarrow> Broker \<Rightarrow> Broker" where
  "disconnect_unknown now identity b =
     b\<lparr>sock := snd (sendToWorker now identity WorkerDisconnect [] [] (sock b))\<rparr>"

definition handle_worker :: "int \<Rightarrow> bytes \<Rightarrow> Message \<Rightarrow> Broker \<Rightarrow> Broker" where
  "handle_worker now identity msg b =
     (if Command msg = WorkerReady then
        (case bworkers b identity of
           Some worker \<Rightarrow> disconnectWorker now worker True b
         | None \<Rightarrow> register_worker now identity (Message.Service msg) b)
      else if Command msg = WorkerReply then
        (case bworkers b identity of
           None \<Rightarrow> disconnect_unknown now identity b
         | Some worker \<Rightarrow> worker_reply now worker msg b)
      else if Command msg = WorkerHeartbeat then
        (case bworkers b identity of
           Some worker \<Rightarrow> worker_heartbeat now worker b
         | None \<Rightarrow> disconnect_unknown now identity b)
      else if Command msg = WorkerDisconnect then
        (case bworkers b identity of
           Some worker \<Rightarrow> disconnectWorker now worker False b
         | None \<Rightarrow> b)
      else b)"

definition processWorkerMessage :: "int \<Rightarrow> bytes \<Rightarrow> frames \<Rightarrow> Broker \<Rightarrow> Broker result" where
  "processWorkerMessage now identity frames b =
     (case ParseWorkerMessage now frames of
        Err e \<Rightarrow> Ok b
      | Panic m \<Rightarrow> Panic m
      | Ok workerMsg \<Rightarrow>
          if LogInfo b \<and> length identity < 8 then Panic ''slice bounds out of range''
          else
            (let b = (case bworkers b identity of
                        Some worker \<Rightarrow> if LogInfo b
                          then snd (getOrCreateService (WService (heap b worker)) b) else b
                      | None \<Rightarrow> b)
             in Ok (handle_worker now identity workerMsg b)))"

section \<open>Client messages\<close>

text \<open>The debug loop of \<^verbatim>\<open>processClientMessage\<close> over the registered workers.\<close>

fun log_workers :: "bytes list \<Rightarrow> Broker \<Rightarrow> Broker result" where
  "log_workers [] b = Ok b"
| "log_workers (workerKey # keys) b =
     (case bworkers b workerKey of
        None \<Rightarrow> log_workers keys b
      | Some w \<Rightarrow>
          (let b' = snd (getOrCreateService (WService (heap b w)) b)
           in if length workerKey < 8 then Panic ''slice bounds out of range''
              else log_workers keys b'))"

definition enqueue_request :: "int \<Rightarrow> bytes \<Rightarrow> Message \<Rightarrow> Broker \<Rightarrow> Broker" where
  "enqueue_request now identity msg b =
     (let (service, b) = getOrCreateService (Message.Service msg) b;
          request = \<lparr>Client = identity, RService = Message.Service msg, RBody = Body msg,
                     Created = now\<rparr>;
          service = service\<lparr>Requests := Requests service @ [request],
                            TotalRequests := TotalRequests service + 1\<rparr>
      in b\<lparr>services := (services b)(Message.Service msg \<mapsto> service),
           totalRequests := totalRequests b + 1\<rparr>)"

definition processClientMessage ::
    "int \<Rightarrow> bytes list \<Rightarrow> bytes \<Rightarrow> frames \<Rightarrow> Broker \<Rightarrow> Broker result option" where
  "processClientMessage now order identity frames b =
     (case ParseClientMessage now frames of
        Err e \<Rightarrow> Some (Ok b)
      | Panic m \<Rightarrow> Some (Panic m)
      | Ok clientMsg \<Rightarrow>
          (let b = snd (getOrCreateService (Message.Service clientMsg) b)
           in case (if LogInfo b then log_workers order b else Ok b) of
                Err e \<Rightarrow> Some (Err e)
              | Panic m \<Rightarrow> Some (Panic m)
              | Ok b \<Rightarrow>
                  map_option Ok (dispatchRequests now (Message.Service clientMsg)
                    (enqueue_request now identity clientMsg b))))"

definition processMessage ::
    "int \<Rightarrow> bytes list \<Rightarrow> frames \<Rightarrow> Broker \<Rightarrow> Broker result option" where
  "processMessage now order frames b =
     (if length frames < 1 then Some (Ok b)
      else if length frames < 3 then Some (Ok b)
      else
        (let sender = frames ! 0;
             (msgType, protocolFrame, messageFrames) = analyzeMessageStructure frames
         in if msgType = messageTypeUnknown then Some (Ok b)
            else if protocolFrame = WorkerProtocol
              then Some (processWorkerMessage now sender messageFrames b)
            else if protocolFrame = ClientProtocol
              then processClientMessage now order sender messageFrames b
            else Some (Ok b)))"

section \<open>Heartbeats and cleanup\<close>

definition sendHeartbeats :: "int \<Rightarrow> bytes list \<Rightarrow> Broker \<Rightarrow> Broker" where
  "sendHeartbeats now order b =
     b\<lparr>sock := fold (\<lambda>p. \<lambda>n. snd (sendToWorker now (Identity (heap b p)) WorkerHeartbeat [] [] n))
         (List.map_filter (bworkers b) order) (sock b)\<rparr>"

definition cleanup_worker :: "int \<Rightarrow> bytes \<Rightarrow> Broker \<Rightarrow> Broker" where
  "cleanup_worker now key b =
     (case bworkers b key of
        None \<Rightarrow> b
      | Some worker \<Rightarrow>
          if BrokerWorker_IsExpired now (heap b worker) then unregister key worker b else b)"

definition expire_requests :: "int \<Rightarrow> int \<Rightarrow> Service \<Rightarrow> Service" where
  "expire_requests now ttl service =
     service\<lparr>Requests := filter (\<lambda>r. \<not> PendingRequest_IsExpired now r ttl) (Requests service)\<rparr>"

definition cleanup :: "int \<Rightarrow> bytes list \<Rightarrow> Broker \<Rightarrow> Broker" where
  "cleanup now order b =
     (let b = fold (cleanup_worker now) order b
      in b\<lparr>services := (\<lambda>name. map_option (expire_requests now (requestTimeout b)) (services b name))\<rparr>)"

section \<open>The dispatch loop\<close>

definition fails_now :: "mdp_net \<Rightarrow> bool" where
  "fails_now n \<longleftrightarrow> outcome n (sends n) \<noteq> None"

text \<open>The message that carries a request to a worker.\<close>

definition request_msg :: "(nat \<Rightarrow> BrokerWorker) \<Rightarrow> nat \<Rightarrow> PendingRequest \<Rightarrow> frames" where
  "request_msg h p r = Identity (h p) # [[], WorkerProtocol, WorkerRequest] @
     (if Client r = [] then [] else [Client r]) @ [[]] @ (if RBody r = [] then [] else [RBody r])"

lemma sendToWorker_request:
  "sendToWorker now (Identity (h p)) WorkerRequest (Client r) (RBody r) n =
     (if fails_now n then (map_option (Wrapf ''failed to send to worker'') (outcome n (sends n)),
                           n\<lparr>sends := sends n + 1\<rparr>)
      else (None, n\<lparr>sends := sends n + 1, wire := wire n @ [request_msg h p r]\<rparr>))"
  by (auto simp: sendToWorker_def mdp_Send_def fails_now_def request_msg_def NewWorkerMessage_def
      zero_Message_def FormatWorkerMessage_cases sent_envelope_def)

lemma outcome_sendToWorker [simp]:
  "outcome (snd (sendToWorker now i c a body n)) = outcome n"
  "sends (snd (sendToWorker now i c a body n)) = sends n + 1"
  by (auto simp: sendToWorker_def mdp_Send_def split: option.splits prod.splits)

text \<open>
  One round on a service whose two lists are disjoint: a successful send serves the first
  request with the first worker, a failed one only rotates the available workers.
\<close>

definition lists_disjoint :: "Service \<Rightarrow> bool" where
  "lists_disjoint s \<longleftrightarrow> distinct (AvailableWorkers s @ BusyWorkers s)"

lemma dispatch_one_cases:
  assumes "Requests s = r # rs" "AvailableWorkers s = p # ps" "lists_disjoint s"
  shows "dispatch_one now h s n =
    (if fails_now n
     then (s\<lparr>AvailableWorkers := ps @ [p]\<rparr>, n\<lparr>sends := sends n + 1\<rparr>)
     else (s\<lparr>Requests := rs, AvailableWorkers := ps, BusyWorkers := BusyWorkers s @ [p]\<rparr>,
           n\<lparr>sends := sends n + 1, wire := wire n @ [request_msg h p r]\<rparr>))"
proof (cases "fails_now n")
  case True
  then obtain e where e: "outcome n (sends n) = Some e" by (auto simp: fails_now_def)
  have "remove1 p (BusyWorkers s @ [p]) = BusyWorkers s" "p \<notin> set ps"
    using assms by (auto simp: lists_disjoint_def remove1_append)
  then have "moveWorkerToAvailable p (moveWorkerToBusy p (s\<lparr>Requests := rs\<rparr>)) =
      s\<lparr>Requests := rs, AvailableWorkers := ps @ [p]\<rparr>"
    using assms by (auto simp: moveWorkerToAvailable_def moveWorkerToBusy_def
        isWorkerInAvailableList_def list_ex_iff)
  then show ?thesis
    using assms True e by (simp add: dispatch_one_def sendToWorker_request)
next
  case False
  then show ?thesis
    using assms by (simp add: dispatch_one_def sendToWorker_request moveWorkerToBusy_def)
qed

lemma outcome_dispatch_one [simp]: "outcome (snd (dispatch_one now h s n)) = outcome n"
  "sends (snd (dispatch_one now h s n)) = sends n + 1"
  by (auto simp: dispatch_one_def sendToWorker_request Let_def split: prod.splits option.splits)

text \<open>The rule for properties of the states in which the loop ends.\<close>

lemma dispatch_loop_rule:
  assumes "dispatch_loop now h s n = Some (s', n')" "I s n"
    and step: "\<And>s n. I s n \<Longrightarrow> Requests s \<noteq> [] \<Longrightarrow> AvailableWorkers s \<noteq> [] \<Longrightarrow>
      I (fst (dispatch_one now h s n)) (snd (dispatch_one now h s n))"
  shows "I s' n' \<and> (Requests s' = [] \<or> AvailableWorkers s' = [])"
proof -
  let ?done = "\<lambda>s n. I s n \<and> (Requests s = [] \<or> AvailableWorkers s = [])"
  have "now = now \<longrightarrow> h = h \<longrightarrow> I s n \<longrightarrow> ?done (fst (s', n')) (snd (s', n'))"
  proof (rule dispatch_loop.raw_induct [where P = "\<lambda>now' h' s n y.
      now' = now \<longrightarrow> h' = h \<longrightarrow> I s n \<longrightarrow> ?done (fst y) (snd y)", OF _ assms(1)], intro impI)
    fix loop now' h' s n y
    assume IH: "\<And>now' h' s n y. loop now' h' s n = Some y \<Longrightarrow>
        now' = now \<longrightarrow> h' = h \<longrightarrow> I s n \<longrightarrow> ?done (fst y) (snd y)"
      and body: "(if Requests s = [] \<or> AvailableWorkers s = [] then Some (s, n)
        else (case dispatch_one now' h' s n of (service', n') \<Rightarrow> loop now' h' service' n')) = Some y"
      and fixed: "now' = now" "h' = h" and I: "I s n"
    show "?done (fst y) (snd y)"
    proof (cases "Requests s = [] \<or> AvailableWorkers s = []")
      case True
      with body I show ?thesis by auto
    next
      case False
      then have "I (fst (dispatch_one now h s n)) (snd (dispatch_one now h s n))"
        using step [OF I] by simp
      moreover have "loop now h (fst (dispatch_one now h s n)) (snd (dispatch_one now h s n)) = Some y"
        using body False fixed by (auto simp: case_prod_beta)
      ultimately show ?thesis using IH by blast
    qed
  qed
  with assms(2) show ?thesis by simp
qed

text \<open>The loop returns when the failures stop, and never does when every send fails.\<close>

lemma dispatch_loop_returns:
  assumes "lists_disjoint s" "\<forall>i\<ge>N. outcome n i = None"
  shows "\<exists>s' n'. dispatch_loop now h s n = Some (s', n')"
  using assms
proof (induction "length (Requests s) + (N - sends n)" arbitrary: s n rule: less_induct)
  case less
  show ?case
  proof (cases "Requests s = [] \<or> AvailableWorkers s = []")
    case True
    then show ?thesis by (subst dispatch_loop.simps) auto
  next
    case False
    then obtain r rs p ps where rs: "Requests s = r # rs" "AvailableWorkers s = p # ps"
      by (meson list.exhaust)
    obtain t m where t: "dispatch_one now h s n = (t, m)" by (cases "dispatch_one now h s n")
    note cases = dispatch_one_cases [OF rs less.prems(1), of now h n, unfolded t]
    have "sends n < N" if "fails_now n"
      using that less.prems(2) by (auto simp: fails_now_def not_le [symmetric])
    then have "length (Requests t) + (N - sends m) < length (Requests s) + (N - sends n)"
      using cases rs by (auto split: if_splits)
    moreover have "lists_disjoint t" "\<forall>i\<ge>N. outcome m i = None"
      using cases rs less.prems by (auto simp: lists_disjoint_def split: if_splits)
    ultimately have "\<exists>s' n'. dispatch_loop now h t m = Some (s', n')"
      by (rule less.hyps)
    then show ?thesis
      using False by (subst dispatch_loop.simps) (simp add: t)
  qed
qed

lemma dispatch_loop_diverges:
  assumes "lists_disjoint s" "\<forall>i\<ge>sends n. outcome n i \<noteq> None" "Requests s \<noteq> []"
    "AvailableWorkers s \<noteq> []"
  shows "dispatch_loop now h s n = None"
proof (rule ccontr)
  assume "dispatch_loop now h s n \<noteq> None"
  then obtain s' n' where ret: "dispatch_loop now h s n = Some (s', n')" by auto
  let ?I = "\<lambda>s n. lists_disjoint s \<and> (\<forall>i\<ge>sends n. outcome n i \<noteq> None) \<and>
    Requests s \<noteq> [] \<and> AvailableWorkers s \<noteq> []"
  have "?I (fst (dispatch_one now h s n)) (snd (dispatch_one now h s n))" if "?I s n" for s n
  proof -
    from that obtain r rs p ps where rs: "Requests s = r # rs" "AvailableWorkers s = p # ps"
      by (meson list.exhaust)
    have "fails_now n" using that by (simp add: fails_now_def)
    then show ?thesis
      using that rs by (simp add: dispatch_one_cases) (auto simp: lists_disjoint_def)
  qed
  then have "?I s' n' \<and> (Requests s' = [] \<or> AvailableWorkers s' = [])"
    using assms by (intro dispatch_loop_rule [OF ret]) blast+
  then show False by blast
qed

text \<open>What the loop did when it returns: \<open>ds\<close> pairs each worker with the request it got.\<close>

definition dispatched ::
    "(nat \<Rightarrow> BrokerWorker) \<Rightarrow> Service \<Rightarrow> mdp_net \<Rightarrow> (nat \<times> PendingRequest) list \<Rightarrow>
     Service \<Rightarrow> mdp_net \<Rightarrow> bool" where
  "dispatched h s n ds s' n' \<longleftrightarrow>
     Requests s = map snd ds @ Requests s' \<and>
     BusyWorkers s' = BusyWorkers s @ map fst ds \<and>
     distinct (map fst ds @ AvailableWorkers s') \<and>
     set (map fst ds @ AvailableWorkers s') = set (AvailableWorkers s) \<and>
     wire n' = wire n @ map (\<lambda>(p, r). request_msg h p r) ds \<and>
     SName s' = SName s \<and> ActiveWorkers s' = ActiveWorkers s \<and>
     TotalRequests s' = TotalRequests s"

lemma dispatch_loop_dispatched:
  assumes "dispatch_loop now h s n = Some (s', n')" "lists_disjoint s"
  shows "(\<exists>ds. dispatched h s n ds s' n') \<and> lists_disjoint s' \<and>
    (Requests s' = [] \<or> AvailableWorkers s' = [])"
proof -
  let ?I = "\<lambda>t m. (\<exists>ds. dispatched h s n ds t m) \<and> lists_disjoint t"
  have "?I (fst (dispatch_one now h t m)) (snd (dispatch_one now h t m))"
    if I: "?I t m" and ne: "Requests t \<noteq> []" "AvailableWorkers t \<noteq> []" for t m
  proof -
    from ne obtain r rs p ps where rs: "Requests t = r # rs" "AvailableWorkers t = p # ps"
      by (meson list.exhaust)
    from I obtain ds where ds: "dispatched h s n ds t m" and dj: "lists_disjoint t" by blast
    note one = dispatch_one_cases [OF rs dj, of now h m]
    show ?thesis
    proof (cases "fails_now m")
      case True
      then have "dispatched h s n ds (fst (dispatch_one now h t m)) (snd (dispatch_one now h t m))"
        using ds rs one by (auto simp: dispatched_def)
      then show ?thesis using True dj rs one by (auto simp: lists_disjoint_def)
    next
      case False
      then have "dispatched h s n (ds @ [(p, r)]) (fst (dispatch_one now h t m))
          (snd (dispatch_one now h t m))"
        using ds rs one by (auto simp: dispatched_def)
      then show ?thesis using False dj rs one by (auto simp: lists_disjoint_def)
    qed
  qed
  moreover have "dispatched h s n [] s n" using assms(2) by (simp add: dispatched_def lists_disjoint_def)
  ultimately have "?I s' n' \<and> (Requests s' = [] \<or> AvailableWorkers s' = [])"
    using assms(2) by (intro dispatch_loop_rule [OF assms(1)]) blast+
  then show ?thesis by blast
qed

section \<open>The invariant of the broker's state\<close>

text \<open>The keys of the registered workers of a service.\<close>

definition serving :: "(bytes \<rightharpoonup> nat) \<Rightarrow> (nat \<Rightarrow> BrokerWorker) \<Rightarrow> bytes \<Rightarrow> bytes set" where
  "serving ws h name = {k. \<exists>p. ws k = Some p \<and> WService (h p) = name}"

text \<open>
  A worker in a list of a service is registered, serves that service, and is in one of the two
  lists once; \<^verbatim>\<open>ActiveWorkers\<close> counts the registered workers.
\<close>

definition service_inv :: "(bytes \<rightharpoonup> nat) \<Rightarrow> (nat \<Rightarrow> BrokerWorker) \<Rightarrow> bytes \<Rightarrow> Service \<Rightarrow> bool" where
  "service_inv ws h name s \<longleftrightarrow>
     SName s = name \<and> lists_disjoint s \<and>
     (\<forall>p \<in> set (AvailableWorkers s) \<union> set (BusyWorkers s).
        WService (h p) = name \<and> ws (Identity (h p)) = Some p) \<and>
     ActiveWorkers s = int (card (serving ws h name)) \<and>
     (\<forall>r \<in> set (Requests s). RService r = name)"

definition registry_inv :: "Broker \<Rightarrow> bool" where
  "registry_inv b \<longleftrightarrow> finite (dom (bworkers b)) \<and>
     (\<forall>k p. bworkers b k = Some p \<longrightarrow>
        p < fresh b \<and> Identity (heap b p) = k \<and> services b (WService (heap b p)) \<noteq> None)"

definition broker_inv :: "Broker \<Rightarrow> bool" where
  "broker_inv b \<longleftrightarrow> registry_inv b \<and>
     (\<forall>name s. services b name = Some s \<longrightarrow> service_inv (bworkers b) (heap b) name s)"

lemma broker_invD:
  assumes "broker_inv b"
  shows "bworkers b k = Some p \<Longrightarrow> p < fresh b"
    and "bworkers b k = Some p \<Longrightarrow> Identity (heap b p) = k"
    and "bworkers b k = Some p \<Longrightarrow> \<exists>s. services b (WService (heap b p)) = Some s"
    and "services b name = Some s \<Longrightarrow> service_inv (bworkers b) (heap b) name s"
    and "finite (dom (bworkers b))"
  using assms by (auto simp: broker_inv_def registry_inv_def)

lemma serving_finite: "finite (dom ws) \<Longrightarrow> finite (serving ws h name)"
  by (rule finite_subset [of _ "dom ws"]) (auto simp: serving_def)

text \<open>The state components that the invariant reads.\<close>

lemma broker_inv_cong:
  assumes "services b' = services b" "bworkers b' = bworkers b" "heap b' = heap b" "fresh b' = fresh b"
  shows "broker_inv b' = broker_inv b"
  using assms by (simp add: broker_inv_def registry_inv_def)

lemma broker_inv_frame [simp]:
  "broker_inv (b\<lparr>sock := n\<rparr>) = broker_inv b"
  "broker_inv (b\<lparr>totalWorkers := w\<rparr>) = broker_inv b"
  "broker_inv (b\<lparr>totalRequests := w\<rparr>) = broker_inv b"
  "broker_inv (b\<lparr>totalReplies := w\<rparr>) = broker_inv b"
  "broker_inv (b\<lparr>running := r\<rparr>) = broker_inv b"
  "broker_inv (b\<lparr>stopped := r\<rparr>) = broker_inv b"
  "broker_inv (b\<lparr>bound := r\<rparr>) = broker_inv b"
  "broker_inv (b\<lparr>requestTimeout := i\<rparr>) = broker_inv b"
  "broker_inv (b\<lparr>heartbeatLiveness := i\<rparr>) = broker_inv b"
  "broker_inv (b\<lparr>heartbeatInterval := i\<rparr>) = broker_inv b"
  "broker_inv (b\<lparr>heartbeatExpiry := i\<rparr>) = broker_inv b"
  by (rule broker_inv_cong; simp)+

text \<open>Replacing one service, and creating one.\<close>

lemma broker_inv_service:
  assumes "broker_inv b" "service_inv (bworkers b) (heap b) name s"
  shows "broker_inv (b\<lparr>services := (services b)(name \<mapsto> s)\<rparr>)"
  using assms by (auto simp: broker_inv_def registry_inv_def)

lemma no_service_no_worker:
  "broker_inv b \<Longrightarrow> services b name = None \<Longrightarrow> serving (bworkers b) (heap b) name = {}"
  using broker_invD(3) [of b] by (fastforce simp: serving_def)

lemma service_inv_new:
  "broker_inv b \<Longrightarrow> services b name = None \<Longrightarrow>
     service_inv (bworkers b) (heap b) name (new_Service name)"
  by (simp add: service_inv_def new_Service_def lists_disjoint_def no_service_no_worker)

lemma getOrCreateService_inv:
  assumes "broker_inv b"
  shows "broker_inv (snd (getOrCreateService name b))"
    "service_inv (bworkers b) (heap b) name (fst (getOrCreateService name b))"
  using assms broker_invD(4) [OF assms]
  by (auto simp: getOrCreateService_def broker_inv_service service_inv_new split: option.splits)

lemma getOrCreateService_frame [simp]:
  "services (snd (getOrCreateService name b)) =
     (services b)(name \<mapsto> fst (getOrCreateService name b))"
  "bworkers (snd (getOrCreateService name b)) = bworkers b"
  "heap (snd (getOrCreateService name b)) = heap b"
  "fresh (snd (getOrCreateService name b)) = fresh b"
  "sock (snd (getOrCreateService name b)) = sock b"
  "LogInfo (snd (getOrCreateService name b)) = LogInfo b"
  "heartbeatExpiry (snd (getOrCreateService name b)) = heartbeatExpiry b"
  "requestTimeout (snd (getOrCreateService name b)) = requestTimeout b"
  by (auto simp: getOrCreateService_def split: option.splits)

lemma getOrCreateService_known [simp]:
  "services b name = Some s \<Longrightarrow> getOrCreateService name b = (s, b)"
  by (simp add: getOrCreateService_def)

text \<open>The changes of one service.\<close>

lemma service_inv_live:
  "service_inv ws h name s \<Longrightarrow>
     service_inv ws h name (s\<lparr>AvailableWorkers := live_workers now h (AvailableWorkers s)\<rparr>)"
  by (auto simp: service_inv_def lists_disjoint_def live_workers_def)

lemma service_inv_toAvailable:
  assumes "service_inv ws h name s" "ws (Identity (h p)) = Some p" "WService (h p) = name"
  shows "service_inv ws h name (moveWorkerToAvailable p s)"
  using assms
  by (auto simp: service_inv_def lists_disjoint_def moveWorkerToAvailable_def Let_def
      isWorkerInAvailableList_def list_ex_iff dest: notin_set_remove1 set_remove1_subset [THEN subsetD])

lemma service_inv_request:
  "service_inv ws h name s \<Longrightarrow> RService r = name \<Longrightarrow>
     service_inv ws h name (s\<lparr>Requests := Requests s @ [r], TotalRequests := t\<rparr>)"
  by (auto simp: service_inv_def lists_disjoint_def)

lemma service_inv_expire:
  "service_inv ws h name s \<Longrightarrow> service_inv ws h name (expire_requests now ttl s)"
  by (auto simp: service_inv_def lists_disjoint_def expire_requests_def)

lemma service_inv_dispatched:
  assumes "service_inv ws h name s" "dispatched h s n ds s' n'" "lists_disjoint s'"
  shows "service_inv ws h name s'"
proof -
  have "set (Requests s') \<subseteq> set (Requests s)"
    "set (AvailableWorkers s') \<union> set (BusyWorkers s') \<subseteq> set (AvailableWorkers s) \<union> set (BusyWorkers s)"
    using assms(2) by (auto simp: dispatched_def)
  then show ?thesis
    using assms unfolding service_inv_def by (fastforce simp: dispatched_def)
qed

text \<open>The changes of a worker that keep its identity and service.\<close>

lemma serving_touch:
  "WService w = WService (h p) \<Longrightarrow> serving ws (h(p := w)) name = serving ws h name"
  by (auto simp: serving_def split: if_splits)

lemma broker_inv_touch:
  assumes "broker_inv b" "Identity w = Identity (heap b p)" "WService w = WService (heap b p)"
  shows "broker_inv (b\<lparr>heap := (heap b)(p := w)\<rparr>)"
proof -
  have "service_inv (bworkers b) ((heap b)(p := w)) name s = service_inv (bworkers b) (heap b) name s"
    for name s
    using assms(2,3) by (auto simp: service_inv_def serving_touch)
  with assms show ?thesis
    by (auto simp: broker_inv_def registry_inv_def)
qed

text \<open>Registration and removal of a worker.\<close>

lemma serving_remove:
  assumes "ws k = Some p"
  shows "serving (ws(k := None)) h name =
    (if name = WService (h p) then serving ws h name - {k} else serving ws h name)"
  using assms by (auto simp: serving_def split: if_splits)

lemma service_inv_remove:
  assumes inv: "service_inv ws h name s" and k: "ws k = Some p" and fin: "finite (dom ws)"
  shows "service_inv (ws(k := None)) h name (if name = WService (h p) then drop_worker p s else s)"
proof (cases "name = WService (h p)")
  case True
  then have "k \<in> serving ws h name" using k by (auto simp: serving_def)
  then have "int (card (serving ws h name - {k})) = int (card (serving ws h name)) - 1"
    using card_Suc_Diff1 [OF serving_finite [OF fin]] by (metis add_diff_cancel_left' of_nat_Suc)
  moreover have "Identity (h q) \<noteq> k" if "ws (Identity (h q)) = Some q" "q \<noteq> p" for q
    using that k by auto
  ultimately show ?thesis
    using inv True
    by (auto simp: service_inv_def drop_worker_def lists_disjoint_def serving_remove [of ws k p, OF k]
        dest: notin_set_remove1)
next
  case False
  then have "Identity (h q) \<noteq> k" if "ws (Identity (h q)) = Some q" "WService (h q) = name" for q
    using that k by auto
  then show ?thesis
    using inv False by (auto simp: service_inv_def serving_remove [of ws k p, OF k])
qed

lemma unregister_inv:
  assumes inv: "broker_inv b" and k: "bworkers b k = Some p"
  shows "broker_inv (unregister k p b)"
proof -
  let ?name = "WService (heap b p)"
  obtain s where s: "services b ?name = Some s" using broker_invD(3) [OF inv k] by blast
  have un: "unregister k p b =
      b\<lparr>bworkers := (bworkers b)(k := None), services := (services b)(?name \<mapsto> drop_worker p s)\<rparr>"
    using s by (simp add: unregister_def)
  have "service_inv ((bworkers b)(k := None)) (heap b) name t"
    if t: "((services b)(?name \<mapsto> drop_worker p s)) name = Some t" for name t
  proof (cases "name = ?name")
    case True
    with t show ?thesis
      using service_inv_remove [OF broker_invD(4) [OF inv s] k broker_invD(5) [OF inv]] by simp
  next
    case False
    with t have "services b name = Some t" by simp
    then show ?thesis
      using service_inv_remove [OF broker_invD(4) [OF inv, of name t] k broker_invD(5) [OF inv]] False
      by simp
  qed
  moreover have "registry_inv (unregister k p b)"
    using inv s by (auto simp: un broker_inv_def registry_inv_def)
  ultimately show ?thesis by (simp add: un broker_inv_def)
qed

lemma serving_register:
  assumes "ws k = None" "\<And>k' q. ws k' = Some q \<Longrightarrow> q \<noteq> p"
  shows "serving (ws(k \<mapsto> p)) (h(p := w)) name =
    (if name = WService w then insert k (serving ws h name) else serving ws h name)"
proof -
  have "(\<exists>q. (ws(k \<mapsto> p)) k' = Some q \<and> WService ((h(p := w)) q) = name) \<longleftrightarrow>
      (if name = WService w then k' = k \<or> (\<exists>q. ws k' = Some q \<and> WService (h q) = name)
       else \<exists>q. ws k' = Some q \<and> WService (h q) = name)" for k'
    using assms(1) assms(2) [of k'] by (cases "ws k'") auto
  then show ?thesis by (auto simp: serving_def)
qed

lemma service_inv_register:
  assumes inv: "service_inv ws h name s" and k: "ws k = None" and fin: "finite (dom ws)"
    and new: "\<And>k' q. ws k' = Some q \<Longrightarrow> q \<noteq> p" and w: "Identity w = k"
  shows "service_inv (ws(k \<mapsto> p)) (h(p := w)) name
    (if name = WService w then s\<lparr>AvailableWorkers := AvailableWorkers s @ [p],
       ActiveWorkers := ActiveWorkers s + 1\<rparr> else s)"
proof -
  have old: "q \<noteq> p" "Identity (h q) \<noteq> k" if "ws (Identity (h q)) = Some q" for q
    using that new k by auto
  have "k \<notin> serving ws h name" using k by (simp add: serving_def)
  then have "card (insert k (serving ws h name)) = card (serving ws h name) + 1"
    using serving_finite [OF fin] by simp
  moreover have "p \<notin> set (AvailableWorkers s) \<union> set (BusyWorkers s)"
    using inv old by (auto simp: service_inv_def)
  ultimately show ?thesis
    using inv old w by (auto simp: service_inv_def lists_disjoint_def 
        serving_register [of ws k p, OF k new])
qed

lemma register_worker_inv:
  assumes inv: "broker_inv b" and k: "bworkers b identity = None"
  shows "broker_inv (register_worker now identity name b)"
proof -
  define w where "w = \<lparr>WID = identity, WService = name, Identity = identity, Address = identity,
    Expiry = now + heartbeatExpiry b, InstanceID = now, RequestsProcessed = 0, LastSeen = now\<rparr>"
  define s where "s = fst (getOrCreateService name b)"
  let ?s' = "s\<lparr>AvailableWorkers := AvailableWorkers s @ [fresh b], ActiveWorkers := ActiveWorkers s + 1\<rparr>"
  let ?ws = "(bworkers b)(identity \<mapsto> fresh b)" and ?h = "(heap b)(fresh b := w)"
  have w: "Identity w = identity" "WService w = name" by (simp_all add: w_def)
  have reg: "register_worker now identity name b = b\<lparr>heap := ?h, fresh := fresh b + 1,
      services := (services b)(name \<mapsto> ?s'), bworkers := ?ws, totalWorkers := totalWorkers b + 1\<rparr>"
    by (cases "services b name")
      (simp_all add: register_worker_def getOrCreateService_def s_def w_def Let_def)
  have new: "q \<noteq> fresh b" if "bworkers b k' = Some q" for k' q
    using broker_invD(1) [OF inv that] by simp
  have one: "service_inv ?ws ?h m (if m = name then t\<lparr>AvailableWorkers := AvailableWorkers t @ [fresh b],
      ActiveWorkers := ActiveWorkers t + 1\<rparr> else t)"
    if "service_inv (bworkers b) (heap b) m t" for m t
    using service_inv_register [OF that k broker_invD(5) [OF inv], of "fresh b" w] new w by blast
  have "service_inv ?ws ?h m t" if t: "((services b)(name \<mapsto> ?s')) m = Some t" for m t
  proof (cases "m = name")
    case True
    with t show ?thesis using one [OF getOrCreateService_inv(2) [OF inv, of name]] by (simp add: s_def)
  next
    case False
    with t have "services b m = Some t" by simp
    then show ?thesis using one [OF broker_invD(4) [OF inv, of m t]] False by simp
  qed
  moreover have "registry_inv (register_worker now identity name b)"
    using inv w by (auto simp: reg broker_inv_def registry_inv_def less_Suc_eq)
  ultimately show ?thesis by (simp add: reg broker_inv_def)
qed

section \<open>Every handler keeps the invariant\<close>

lemma disconnectWorker_inv:
  assumes "broker_inv b" "bworkers b k = Some p"
  shows "broker_inv (disconnectWorker now p snd_msg b)"
proof -
  have "Identity (heap b p) = k" using broker_invD(2) [OF assms] .
  then show ?thesis
    using assms unregister_inv [of b k p] unregister_inv [of "b\<lparr>sock := n\<rparr>" k p for n]
    by (simp add: disconnectWorker_def)
qed

lemma worker_reply_inv:
  assumes inv: "broker_inv b" and k: "bworkers b k = Some p"
  shows "broker_inv (worker_reply now p msg b)"
proof -
  let ?w = "(heap b p)\<lparr>LastSeen := now, Expiry := now + heartbeatExpiry b,
    RequestsProcessed := RequestsProcessed (heap b p) + 1\<rparr>"
  let ?b = "b\<lparr>sock := sendToClient now (ClientAddr msg) (WService (heap b p)) (Body msg) (sock b),
    heap := (heap b)(p := ?w), totalReplies := totalReplies b + 1\<rparr>"
  obtain s where s: "services b (WService (heap b p)) = Some s" using broker_invD(3) [OF inv k] by blast
  have inv': "broker_inv ?b"
    using broker_inv_touch [OF inv, of ?w p] by (simp add: broker_inv_def registry_inv_def)
  have "service_inv (bworkers ?b) (heap ?b) (WService (heap b p)) (moveWorkerToAvailable p s)"
    using service_inv_toAvailable [OF broker_invD(4) [OF inv', of "WService (heap b p)" s], of p]
      s k broker_invD(2) [OF inv k] by simp
  then have "broker_inv (?b\<lparr>services := (services ?b)(WService (heap b p) \<mapsto> moveWorkerToAvailable p s)\<rparr>)"
    by (rule broker_inv_service [OF inv'])
  then show ?thesis using s by (simp add: worker_reply_def Let_def)
qed

lemma handle_worker_inv: "broker_inv b \<Longrightarrow> broker_inv (handle_worker now identity msg b)"
  by (auto simp: handle_worker_def disconnect_unknown_def worker_heartbeat_def disconnectWorker_inv
      register_worker_inv worker_reply_inv broker_inv_touch split: option.splits)

text \<open>The services of registered workers exist, so the debug output creates none.\<close>

lemma log_workers_eq:
  assumes "broker_inv b"
  shows "log_workers keys b =
    (if \<exists>k \<in> set keys. k \<in> dom (bworkers b) \<and> length k < 8
     then Panic ''slice bounds out of range'' else Ok b)"
proof (induction keys)
  case (Cons k keys)
  show ?case
  proof (cases "bworkers b k")
    case (Some p)
    then obtain s where "services b (WService (heap b p)) = Some s"
      using broker_invD(3) [OF assms] by blast
    with Some Cons show ?thesis by (auto simp: domI)
  next
    case None
    with Cons show ?thesis by (auto simp: domIff)
  qed
qed simp

lemma processWorkerMessage_eq:
  assumes "broker_inv b" "ParseWorkerMessage now frames = Ok msg"
  shows "processWorkerMessage now identity frames b =
    (if LogInfo b \<and> length identity < 8 then Panic ''slice bounds out of range''
     else Ok (handle_worker now identity msg b))"
proof (cases "bworkers b identity")
  case (Some p)
  then obtain s where "services b (WService (heap b p)) = Some s"
    using broker_invD(3) [OF assms(1)] by blast
  with Some show ?thesis using assms by (simp add: processWorkerMessage_def)
qed (use assms in \<open>simp add: processWorkerMessage_def\<close>)

lemma processWorkerMessage_inv:
  assumes "broker_inv b" "processWorkerMessage now identity frames b = Ok b'"
  shows "broker_inv b'"
proof (cases "ParseWorkerMessage now frames")
  case (Ok msg)
  with assms show ?thesis
    by (auto simp: processWorkerMessage_eq handle_worker_inv split: if_splits)
qed (use assms in \<open>simp_all add: processWorkerMessage_def\<close>)

lemma enqueue_request_eq:
  "enqueue_request now identity msg b =
     b\<lparr>services := (services b)(Message.Service msg \<mapsto>
         (fst (getOrCreateService (Message.Service msg) b))\<lparr>
            Requests := Requests (fst (getOrCreateService (Message.Service msg) b)) @
              [\<lparr>Client = identity, RService = Message.Service msg, RBody = Body msg, Created = now\<rparr>],
            TotalRequests := TotalRequests (fst (getOrCreateService (Message.Service msg) b)) + 1\<rparr>),
       totalRequests := totalRequests b + 1\<rparr>"
  by (cases "services b (Message.Service msg)")
    (simp_all add: enqueue_request_def getOrCreateService_def Let_def)

lemma enqueue_request_inv: "broker_inv b \<Longrightarrow> broker_inv (enqueue_request now identity msg b)"
  by (simp add: enqueue_request_eq broker_inv_service service_inv_request getOrCreateService_inv)

lemma dispatchRequests_Some:
  assumes inv: "broker_inv b" and ret: "dispatchRequests now name b = Some b'"
  obtains ds s' where
    "b' = b\<lparr>services := (services b)(name \<mapsto> s'), sock := sock b'\<rparr>"
    "dispatched (heap b) ((fst (getOrCreateService name b))\<lparr>AvailableWorkers := live_workers now (heap b)
       (AvailableWorkers (fst (getOrCreateService name b)))\<rparr>) (sock b) ds s' (sock b')"
    "lists_disjoint s'" "Requests s' = [] \<or> AvailableWorkers s' = []"
proof -
  let ?s = "(fst (getOrCreateService name b))\<lparr>AvailableWorkers := live_workers now (heap b)
       (AvailableWorkers (fst (getOrCreateService name b)))\<rparr>"
  have "lists_disjoint ?s"
    using service_inv_live [OF getOrCreateService_inv(2) [OF inv]] by (simp add: service_inv_def)
  moreover from ret obtain s' n' where "dispatch_loop now (heap b) ?s (sock b) = Some (s', n')"
    and "b' = b\<lparr>services := (services b)(name \<mapsto> s'), sock := n'\<rparr>"
    by (auto simp: dispatchRequests_def Let_def)
  ultimately show thesis using dispatch_loop_dispatched that by force
qed

lemma dispatchRequests_inv:
  assumes inv: "broker_inv b" and ret: "dispatchRequests now name b = Some b'"
  shows "broker_inv b'"
proof -
  obtain ds s' where b': "b' = b\<lparr>services := (services b)(name \<mapsto> s'), sock := sock b'\<rparr>"
    and "dispatched (heap b) ((fst (getOrCreateService name b))\<lparr>AvailableWorkers := live_workers now (heap b)
       (AvailableWorkers (fst (getOrCreateService name b)))\<rparr>) (sock b) ds s' (sock b')"
    and "lists_disjoint s'"
    using dispatchRequests_Some [OF assms] by metis
  then have "service_inv (bworkers b) (heap b) name s'"
    using service_inv_dispatched [OF service_inv_live [OF getOrCreateService_inv(2) [OF inv]]] by blast
  then show ?thesis
    using broker_inv_service [OF inv] by (subst b') simp
qed

lemma processClientMessage_inv:
  assumes inv: "broker_inv b" and ret: "processClientMessage now order identity frames b = Some (Ok b')"
  shows "broker_inv b'"
proof (cases "ParseClientMessage now frames")
  case (Ok msg)
  let ?b = "snd (getOrCreateService (Message.Service msg) b)"
  have inv': "broker_inv ?b" using getOrCreateService_inv(1) [OF inv] .
  then have "dispatchRequests now (Message.Service msg) (enqueue_request now identity msg ?b) = Some b'"
    using ret Ok by (auto simp: processClientMessage_def log_workers_eq Let_def split: if_splits)
  then show ?thesis using dispatchRequests_inv enqueue_request_inv [OF inv'] by blast
qed (use assms in \<open>simp_all add: processClientMessage_def\<close>)

lemma processMessage_inv:
  assumes "broker_inv b" "processMessage now order frames b = Some (Ok b')"
  shows "broker_inv b'"
  using assms processWorkerMessage_inv [OF assms(1)] processClientMessage_inv [OF assms(1)]
  by (auto simp: processMessage_def Let_def split: if_splits prod.splits)

text \<open>A loop over the workers keeps what its body keeps.\<close>

locale state_invariant =
  fixes I :: "'s \<Rightarrow> bool"
    and act :: "'a \<Rightarrow> 's \<Rightarrow> 's"
  assumes keeps: "I s \<Longrightarrow> I (act a s)"
begin

lemma fold_keeps: "I s \<Longrightarrow> I (fold act xs s)"
  by (induction xs arbitrary: s) (simp_all add: keeps)

end

interpretation cleaning: state_invariant broker_inv "cleanup_worker now" for now
  by unfold_locales (auto simp: cleanup_worker_def unregister_inv split: option.splits)

lemma cleanup_inv: "broker_inv b \<Longrightarrow> broker_inv (cleanup now order b)"
  using cleaning.fold_keeps [of b now order]
  by (auto simp: cleanup_def broker_inv_def registry_inv_def service_inv_expire Let_def)

lemma NewBroker_inv: "broker_inv (NewBroker net opts)"
  by (simp add: NewBroker_def broker_inv_def registry_inv_def Let_def)

section \<open>Runs of the broker\<close>

text \<open>
  The three goroutines (messages, heartbeats, cleanup) and the calls of the owner, in any
  interleaving.
\<close>

inductive broker_step :: "Broker \<Rightarrow> Broker \<Rightarrow> bool" where
  recv: "set order = dom (bworkers b) \<Longrightarrow> processMessage now order msg b = Some (Ok b') \<Longrightarrow>
    broker_step b b'"
| heartbeat: "set order = dom (bworkers b) \<Longrightarrow> broker_step b (sendHeartbeats now order b)"
| clean: "set order = dom (bworkers b) \<Longrightarrow> broker_step b (cleanup now order b)"
| set_heartbeat: "broker_step b (SetHeartbeat liveness interval b)"
| set_timeout: "broker_step b (SetRequestTimeout timeout b)"
| start: "Start listen b = (r, b') \<Longrightarrow> broker_step b b'"
| stop: "Stop closing b = (r, b') \<Longrightarrow> broker_step b b'"

inductive_cases broker_stepE: "broker_step b b'"

definition broker_reachable :: "Broker \<Rightarrow> bool" where
  "broker_reachable b \<longleftrightarrow> (\<exists>net opts. broker_step\<^sup>*\<^sup>* (NewBroker net opts) b)"

lemma broker_step_inv: "broker_step b b' \<Longrightarrow> broker_inv b \<Longrightarrow> broker_inv b'"
  by (erule broker_stepE)
    (auto simp: processMessage_inv cleanup_inv sendHeartbeats_def SetHeartbeat_def
      SetRequestTimeout_def Start_def Stop_def Let_def split: if_splits option.splits)

lemma reachable_inv: "broker_reachable b \<Longrightarrow> broker_inv b"
  unfolding broker_reachable_def
proof clarify
  fix net opts assume "broker_step\<^sup>*\<^sup>* (NewBroker net opts) b"
  then show "broker_inv b"
    by induction (auto simp: NewBroker_inv broker_step_inv)
qed

text \<open>
  C2: In every reachable state of the broker the registry and the worker lists agree. A
  registered worker is filed under its own identity and its service exists; a worker in the
  available or busy list of a service is registered, belongs to that service and is in exactly
  one of the two lists, once; \<^verbatim>\<open>ActiveWorkers\<close> is the number of registered workers of the
  service; and a queued request is queued at the service it asks for.
\<close>

theorem broker_state_consistent:
  assumes "broker_reachable b"
  shows "(bworkers b k = Some p \<longrightarrow>
       Identity (heap b p) = k \<and> services b (WService (heap b p)) \<noteq> None) \<and>
    (services b name = Some s \<longrightarrow>
       distinct (AvailableWorkers s @ BusyWorkers s) \<and>
       (\<forall>p \<in> set (AvailableWorkers s @ BusyWorkers s).
          WService (heap b p) = name \<and> bworkers b (Identity (heap b p)) = Some p) \<and>
       ActiveWorkers s = int (card {k. \<exists>p. bworkers b k = Some p \<and> WService (heap b p) = name}) \<and>
       (\<forall>r \<in> set (Requests s). RService r = name))"
proof -
  note inv = reachable_inv [OF assms]
  have "service_inv (bworkers b) (heap b) name s" if "services b name = Some s"
    using broker_invD(4) [OF inv that] .
  then show ?thesis
    using broker_invD(2,3) [OF inv, of k p]
    by (auto simp: service_inv_def lists_disjoint_def serving_def)
qed

text \<open>
  A broker over a network that never fails, after worker \<open>w\<close> registered for service \<open>e\<close>.
\<close>

definition good_net :: mdp_net where
  "good_net = \<lparr>outcome = (\<lambda>_. None), sends = 0, wire = []\<rparr>"

definition ready_msg :: frames where
  "ready_msg = [[119], [], WorkerProtocol, WorkerReady, [101]]"

definition one_worker :: Broker where
  "one_worker = register_worker 0 [119] [101] (NewBroker good_net None)"

lemma detect_ready: "analyzeMessageStructure ready_msg =
    (messageTypeWorker, WorkerProtocol, [[], WorkerProtocol, WorkerReady, [101]])"
  by (simp add: analyzeMessageStructure_def detectMessageType_def ready_msg_def splitOnSeparators_def
      mdp_consts str_def)

lemma process_ready: "processMessage 0 [] ready_msg (NewBroker good_net None) = Some (Ok one_worker)"
proof -
  have "ParseWorkerMessage 0 [[], WorkerProtocol, WorkerReady, [101]] =
      Ok (zero_Message\<lparr>Frames := [[], WorkerProtocol, WorkerReady, [101]], Command := WorkerReady,
        Service := [101]\<rparr>)"
    by (simp add: ParseWorkerMessage_def ParseWorker_fields_def zero_Message_def
        ServiceName_Validate_def)
  then show ?thesis
    by (simp add: processMessage_def detect_ready processWorkerMessage_def handle_worker_def
        one_worker_def)
      (simp add: ready_msg_def NewBroker_def zero_Message_def Let_def DefaultBrokerOptions_def
        handle_worker_def)
qed

lemma one_worker_reachable: "broker_reachable one_worker"
proof -
  have "set [] = dom (bworkers (NewBroker good_net None))" by (simp add: NewBroker_def Let_def)
  then have "broker_step (NewBroker good_net None) one_worker"
    by (rule recv [OF _ process_ready])
  then show ?thesis unfolding broker_reachable_def by blast
qed

lemma one_worker_state:
  "services one_worker = [[101] \<mapsto> (new_Service [101])\<lparr>AvailableWorkers := [0], ActiveWorkers := 1\<rparr>]"
  "bworkers one_worker = [[119] \<mapsto> 0]" "fresh one_worker = 1" "sock one_worker = good_net"
  "WService (heap one_worker 0) = [101]" "Identity (heap one_worker 0) = [119]"
  "Expiry (heap one_worker 0) = 7500000000"
  "LogInfo one_worker = False"
  by (simp_all add: one_worker_def register_worker_def NewBroker_def getOrCreateService_def
      new_Service_def Let_def DefaultBrokerOptions_def mul_duration_def DefaultHeartbeatInterval_def
      DefaultHeartbeatLiveness_def)

theorem broker_state_consistent_witness:
  "Identity (heap one_worker 0) = [119] \<and> services one_worker [101] \<noteq> None \<and>
   (1 :: int) = int (card {k. \<exists>p. bworkers one_worker k = Some p \<and> WService (heap one_worker p) = [101]})"
  using broker_state_consistent [OF one_worker_reachable, of "[119]" 0 "[101]"]
  by (simp add: one_worker_state)

section \<open>Recognising the messages of clients and workers\<close>

text \<open>What the ROUTER socket delivers: identity, delimiters of the peer's socket, and the message.\<close>

definition empties :: "frames \<Rightarrow> bool" where
  "empties es \<longleftrightarrow> (\<forall>e \<in> set es. e = [])"

lemma split_loop_part: "[] \<notin> set xs \<Longrightarrow> split_loop parts cur (xs @ fs) = split_loop parts (cur @ xs) fs"
  by (induction xs arbitrary: cur) auto

lemma split_loop_empties: "empties es \<Longrightarrow> split_loop parts [] (es @ fs) = split_loop parts [] fs"
  by (induction es) (auto simp: empties_def)

lemma splitOnSeparators_one:
  assumes "empties es" "[] \<notin> set part" "part \<noteq> []"
  shows "splitOnSeparators (es @ part) = [part]"
  using split_loop_part [of part "[]" "[]" "[]"] assms
  by (simp add: splitOnSeparators_def split_loop_empties)

lemma splitOnSeparators_two:
  assumes "empties es" "[] \<notin> set part" "part \<noteq> []" "[] \<notin> set rest"
  shows "splitOnSeparators (es @ part @ [] # rest) = part # (if rest = [] then [] else [rest])"
proof -
  have "split_loop [part] [] rest = part # (if rest = [] then [] else [rest])"
    using split_loop_part [of rest "[part]" "[]" "[]"] assms by simp
  then show ?thesis
    using assms by (simp add: splitOnSeparators_def split_loop_empties split_loop_part)
qed

lemma protocols_distinct [simp]: "WorkerProtocol \<noteq> ClientProtocol" "ClientProtocol \<noteq> WorkerProtocol"
  "WorkerProtocol \<noteq> []" "ClientProtocol \<noteq> []" "[] \<noteq> WorkerProtocol" "[] \<noteq> ClientProtocol"
  by (simp_all add: ClientProtocol_def WorkerProtocol_def str_def)

lemma analyze_client:
  assumes "empties es" "[] \<notin> set part" "part = ClientProtocol # c # fs"
  shows "analyzeMessageStructure (i # es @ part) = (messageTypeClient, ClientProtocol, [] # part)"
proof -
  have "splitOnSeparators (es @ part) = [part]"
    using assms by (intro splitOnSeparators_one) auto
  then show ?thesis
    using assms(3) by (simp add: analyzeMessageStructure_def detectMessageType_def)
qed

lemma analyze_worker:
  assumes "empties es" "[] \<notin> set part" "part = WorkerProtocol # c # fs" "[] \<notin> set rest"
  shows "analyzeMessageStructure (i # es @ part) = (messageTypeWorker, WorkerProtocol, [] # part)"
    and "analyzeMessageStructure (i # es @ part @ [] # rest) =
      (messageTypeWorker, WorkerProtocol, [] # part @ (if rest = [] then [] else [] # rest))"
proof -
  have "splitOnSeparators (es @ part) = [part]"
    using assms by (intro splitOnSeparators_one) auto
  then show "analyzeMessageStructure (i # es @ part) = (messageTypeWorker, WorkerProtocol, [] # part)"
    using assms(3) by (simp add: analyzeMessageStructure_def detectMessageType_def)
  have "splitOnSeparators (es @ part @ [] # rest) = part # (if rest = [] then [] else [rest])"
    using assms by (intro splitOnSeparators_two) auto
  then show "analyzeMessageStructure (i # es @ part @ [] # rest) =
      (messageTypeWorker, WorkerProtocol, [] # part @ (if rest = [] then [] else [] # rest))"
    using assms(3) by (simp add: analyzeMessageStructure_def detectMessageType_def)
qed

lemma REQUEST_not_Nil [simp]: "REQUEST \<noteq> []" "[] \<noteq> REQUEST"
  by (simp_all add: REQUEST_def str_def)

lemma commands_not_Nil [simp]:
  "WorkerReady \<noteq> []" "WorkerRequest \<noteq> []" "WorkerReply \<noteq> []" "WorkerHeartbeat \<noteq> []" "WorkerDisconnect \<noteq> []"
  by (simp_all add: mdp_consts)

lemmas commands_not_Nil' [simp] = commands_not_Nil [symmetric]

text \<open>A request of a client whose service name is valid reaches the queue of its service.\<close>

lemma process_client_request:
  assumes "broker_inv b" "\<not> LogInfo b" "empties es" "service \<noteq> []" "length service \<le> 255"
  shows "processMessage now order
      (client # es @ FormatClientRequest (NewClientRequest t service body)) b =
    map_option Ok (dispatchRequests now service (enqueue_request now client
      (NewClientRequest now service body) (snd (getOrCreateService service b))))"
proof -
  let ?m = "NewClientRequest t service body"
  let ?part = "[ClientProtocol, REQUEST, service] @ (if body = [] then [] else [body])"
  have fmt: "FormatClientRequest ?m = [] # ?part"
    by (simp add: FormatClientRequest_def NewClientRequest_def zero_Message_def)
  have "analyzeMessageStructure (client # (es @ [[]]) @ ?part) =
      (messageTypeClient, ClientProtocol, FormatClientRequest ?m)"
    unfolding fmt using assms(3,4) by (intro analyze_client) (auto simp: empties_def)
  moreover have parse: "ParseClientMessage now (FormatClientRequest ?m) = Ok ((received_request ?m)
      \<lparr>Frames := FormatClientRequest ?m, RoutingEnvelope := [], Timestamp := now\<rparr>)"
    using assms(5) by (intro request.parse_fmt_plain) (simp_all add: NewClientRequest_def zero_Message_def)
  ultimately have "processMessage now order (client # es @ FormatClientRequest ?m) b =
      processClientMessage now order client (FormatClientRequest ?m) b"
    by (simp add: fmt processMessage_def)
  also have "\<dots> = map_option Ok (dispatchRequests now service (enqueue_request now client
      (NewClientRequest now service body) (snd (getOrCreateService service b))))"
    using assms(2) parse
    by (simp add: processClientMessage_def enqueue_request_eq Let_def
        received_request_def NewClientRequest_def zero_Message_def)
  finally show ?thesis .
qed

text \<open>A REPLY of a worker with a body, and one without.\<close>

lemma worker_reply_cong:
  "ClientAddr m = ClientAddr m' \<Longrightarrow> Body m = Body m' \<Longrightarrow>
     worker_reply now p m b = worker_reply now p m' b"
  by (simp add: worker_reply_def)

lemma process_worker_reply:
  assumes "broker_inv b" "\<not> LogInfo b" "client \<noteq> []"
  shows "body \<noteq> [] \<Longrightarrow> processMessage now order
      (i # FormatWorkerMessage (NewWorkerMessage t WorkerReply client body)) b =
      Some (Ok (handle_worker now i (NewWorkerMessage now WorkerReply client body)  b))"
    and "processMessage now order
      (i # FormatWorkerMessage (NewWorkerMessage t WorkerReply client [])) b = Some (Ok b)"
proof -
  have fmt: "FormatWorkerMessage (NewWorkerMessage t WorkerReply client body) =
      [[]] @ [WorkerProtocol, WorkerReply, client] @ [] # (if body = [] then [] else [body])" for body
    using assms(3) by (simp add: FormatWorkerMessage_cases NewWorkerMessage_def zero_Message_def
        sent_envelope_def)
  have an: "analyzeMessageStructure (i # FormatWorkerMessage (NewWorkerMessage t WorkerReply client body)) =
      (messageTypeWorker, WorkerProtocol,
       [] # [WorkerProtocol, WorkerReply, client] @ (if body = [] then [] else [[], body]))" for body
    using analyze_worker(2) [of "[[]]" "[WorkerProtocol, WorkerReply, client]" WorkerReply "[client]"
        "if body = [] then [] else [body]" i] assms(3)
    by (cases "body = []") (simp_all add: fmt empties_def)
  show "processMessage now order
      (i # FormatWorkerMessage (NewWorkerMessage t WorkerReply client [])) b = Some (Ok b)"
    using an [of "[]"] assms(3) fmt [of "[]"]
    by (simp add: processMessage_def processWorkerMessage_def ParseWorkerMessage_def
        ParseWorker_fields_def)
  assume body: "body \<noteq> []"
  have "ParseWorkerMessage now [[], WorkerProtocol, WorkerReply, client, [], body] =
      Ok (zero_Message\<lparr>Frames := [[], WorkerProtocol, WorkerReply, client, [], body],
        Command := WorkerReply, Timestamp := now, ClientEnvelope := [client], ClientAddr := client,
        Body := body\<rparr>)"
    using assms(3) by (simp add: ParseWorkerMessage_def ParseWorker_fields_def zero_Message_def)
  then have "processWorkerMessage now i [[], WorkerProtocol, WorkerReply, client, [], body] b =
      Ok (handle_worker now i (NewWorkerMessage now WorkerReply client body) b)"
    using assms(2) processWorkerMessage_eq [OF assms(1)]
    by (cases "bworkers b i")
      (auto simp: handle_worker_def NewWorkerMessage_def zero_Message_def intro: worker_reply_cong)
  then show "processMessage now order
      (i # FormatWorkerMessage (NewWorkerMessage t WorkerReply client body)) b =
      Some (Ok (handle_worker now i (NewWorkerMessage now WorkerReply client body) b))"
    using an [of body] body fmt [of body] by (simp add: processMessage_def)
qed

section \<open>Requests, replies and what is lost\<close>

text \<open>
  C3: Dispatching serves the queue of a service in order. In a reachable state, when the
  dispatcher returns, a prefix of the queued requests has gone out, in order, each as a REQUEST
  with the client's address and body to a different available and unexpired worker, which is
  now busy; failed sends lose no request and reorder none; and either no request or no worker
  is left. It returns whenever the send failures stop at some point, and it never returns, with
  the broker's lock held, when there is work to do and every send fails.
\<close>

theorem dispatch_in_order:
  assumes "broker_reachable b" "services b name = Some s"
    and "live = live_workers now (heap b) (AvailableWorkers s)"
  shows "(dispatchRequests now name b = Some b' \<longrightarrow>
      (\<exists>ds s'. services b' = (services b)(name \<mapsto> s') \<and>
         Requests s = map snd ds @ Requests s' \<and>
         wire (sock b') = wire (sock b) @ map (\<lambda>(p, r). request_msg (heap b) p r) ds \<and>
         distinct (map fst ds @ AvailableWorkers s') \<and>
         set (map fst ds @ AvailableWorkers s') = set live \<and>
         BusyWorkers s' = BusyWorkers s @ map fst ds \<and>
         (Requests s' = [] \<or> AvailableWorkers s' = []))) \<and>
    ((\<exists>N. \<forall>i\<ge>N. outcome (sock b) i = None) \<longrightarrow> (\<exists>b'. dispatchRequests now name b = Some b')) \<and>
    ((\<forall>i\<ge>sends (sock b). outcome (sock b) i \<noteq> None) \<and> Requests s \<noteq> [] \<and> live \<noteq> [] \<longrightarrow>
       dispatchRequests now name b = None)"
proof (intro conjI impI)
  note inv = reachable_inv [OF assms(1)]
  have dj: "lists_disjoint (s\<lparr>AvailableWorkers := live_workers now (heap b) (AvailableWorkers s)\<rparr>)"
    using service_inv_live [OF broker_invD(4) [OF inv assms(2)]] by (simp add: service_inv_def)
  show "\<exists>ds s'. services b' = (services b)(name \<mapsto> s') \<and>
         Requests s = map snd ds @ Requests s' \<and>
         wire (sock b') = wire (sock b) @ map (\<lambda>(p, r). request_msg (heap b) p r) ds \<and>
         distinct (map fst ds @ AvailableWorkers s') \<and>
         set (map fst ds @ AvailableWorkers s') = set live \<and>
         BusyWorkers s' = BusyWorkers s @ map fst ds \<and>
         (Requests s' = [] \<or> AvailableWorkers s' = [])"
    if ret: "dispatchRequests now name b = Some b'"
  proof -
    obtain ds s' where b': "b' = b\<lparr>services := (services b)(name \<mapsto> s'), sock := sock b'\<rparr>"
      "dispatched (heap b) (s\<lparr>AvailableWorkers := live\<rparr>) (sock b) ds s' (sock b')"
      "Requests s' = [] \<or> AvailableWorkers s' = []"
      using dispatchRequests_Some [OF inv ret] assms(2) unfolding assms(3)
      by (metis fst_conv getOrCreateService_known)
    moreover from arg_cong [OF b'(1), of services] have "services b' = (services b)(name \<mapsto> s')"
      by simp
    ultimately show ?thesis
      by (intro exI [of _ ds] exI [of _ s']) (simp add: dispatched_def)
  qed
  show "\<exists>b'. dispatchRequests now name b = Some b'" if "\<exists>N. \<forall>i\<ge>N. outcome (sock b) i = None"
    using that dispatch_loop_returns [OF dj] assms(2)
    by (fastforce simp: dispatchRequests_def Let_def)
  show "dispatchRequests now name b = None"
    if "(\<forall>i\<ge>sends (sock b). outcome (sock b) i \<noteq> None) \<and> Requests s \<noteq> [] \<and> live \<noteq> []"
    using that dispatch_loop_diverges [OF dj] assms(2)
    by (simp add: dispatchRequests_def Let_def assms(3))
qed

text \<open>A broker with one request queued before its only worker registers.\<close>

definition early_request :: frames where
  "early_request = [99] # FormatClientRequest (NewClientRequest 0 [101] [65])"

definition sample_pending :: PendingRequest where
  "sample_pending = \<lparr>Client = [99], RService = [101], RBody = [65], Created = 0\<rparr>"

definition queued :: Broker where
  "queued = (NewBroker good_net None)\<lparr>
     services := [[101] \<mapsto> (new_Service [101])\<lparr>Requests := [sample_pending], TotalRequests := 1\<rparr>],
     totalRequests := 1\<rparr>"

definition stalled :: Broker where
  "stalled = register_worker 0 [119] [101] queued"

lemma NewBroker_state [simp]:
  "services (NewBroker net opts) = Map.empty" "bworkers (NewBroker net opts) = Map.empty"
  "fresh (NewBroker net opts) = 0" "sock (NewBroker net opts) = net"
  "totalRequests (NewBroker net opts) = 0" "LogInfo (NewBroker net None) = False"
  "heartbeatExpiry (NewBroker net None) = 7500000000"
  by (simp_all add: NewBroker_def Let_def DefaultBrokerOptions_def mul_duration_def
      DefaultHeartbeatInterval_def DefaultHeartbeatLiveness_def)

lemma dispatch_idle:
  assumes "services b name = Some s" "live_workers now (heap b) (AvailableWorkers s) = []"
  shows "dispatchRequests now name b =
    Some (b\<lparr>services := (services b)(name \<mapsto> s\<lparr>AvailableWorkers := []\<rparr>)\<rparr>)"
proof -
  have "dispatch_loop now (heap b) (s\<lparr>AvailableWorkers := []\<rparr>) (sock b) =
      Some (s\<lparr>AvailableWorkers := []\<rparr>, sock b)"
    by (subst dispatch_loop.simps) simp
  then show ?thesis using assms by (simp add: dispatchRequests_def)
qed

lemma process_early: "processMessage 0 [] early_request (NewBroker good_net None) = Some (Ok queued)"
proof -
  let ?b = "enqueue_request 0 [99] (NewClientRequest 0 [101] [65])
    (snd (getOrCreateService [101] (NewBroker good_net None)))"
  have b: "?b = queued"
    by (simp add: enqueue_request_eq getOrCreateService_def queued_def NewClientRequest_def
        zero_Message_def sample_pending_def new_Service_def)
  have "dispatchRequests 0 [101] queued = Some queued"
    using dispatch_idle [of queued "[101]"]
    by (simp add: queued_def live_workers_def new_Service_def)
  then show ?thesis
    using process_client_request [OF NewBroker_inv, of good_net None "[]" "[101]" 0 "[]" "[99]" 0 "[65]"]
    by (simp add: early_request_def empties_def b)
qed

lemma process_worker_ready:
  assumes "broker_inv b" "\<not> LogInfo b" "service \<noteq> []" "length service \<le> 255"
  shows "processMessage now order [i, [], WorkerProtocol, WorkerReady, service] b =
    Some (Ok (case bworkers b i of Some p \<Rightarrow> disconnectWorker now p True b
      | None \<Rightarrow> register_worker now i service b))"
proof -
  have "analyzeMessageStructure [i, [], WorkerProtocol, WorkerReady, service] =
      (messageTypeWorker, WorkerProtocol, [[], WorkerProtocol, WorkerReady, service])"
    using analyze_worker(1) [of "[[]]" "[WorkerProtocol, WorkerReady, service]" WorkerReady "[service]"
        "[]" i] assms(3)
    by (simp add: empties_def)
  moreover have "ParseWorkerMessage now [[], WorkerProtocol, WorkerReady, service] =
      Ok (zero_Message\<lparr>Frames := [[], WorkerProtocol, WorkerReady, service], Command := WorkerReady,
        Timestamp := now, Service := service\<rparr>)"
    using assms(3,4) ParseWorkerMessage_unfold [of "[]" now WorkerReady "[service]"]
    by (simp add: ParseWorker_fields_simple ServiceName_Validate_def zero_Message_def)
  ultimately show ?thesis
    using assms(2) processWorkerMessage_eq [OF assms(1)]
    by (simp add: processMessage_def handle_worker_def zero_Message_def split: option.splits)
qed

lemma stalled_state:
  "services stalled = [[101] \<mapsto> (new_Service [101])\<lparr>Requests := [sample_pending], TotalRequests := 1,
     AvailableWorkers := [0], ActiveWorkers := 1\<rparr>]"
  "bworkers stalled = [[119] \<mapsto> 0]" "sock stalled = good_net" "LogInfo stalled = False"
  "WService (heap stalled 0) = [101]" "Identity (heap stalled 0) = [119]"
  "Expiry (heap stalled 0) = 7500000000"
  by (simp_all add: stalled_def register_worker_def queued_def new_Service_def Let_def)

lemma stalled_reachable: "broker_reachable queued" "broker_reachable stalled"
proof -
  have one: "broker_step (NewBroker good_net None) queued"
    by (rule recv [OF _ process_early]) simp
  then have inv: "broker_inv queued" using broker_step_inv NewBroker_inv by blast
  have "processMessage 0 [] [[119], [], WorkerProtocol, WorkerReady, [101]] queued = Some (Ok stalled)"
    using process_worker_ready [OF inv, of "[101]" 0 "[]" "[119]"] by (simp add: queued_def stalled_def)
  then have "broker_step queued stalled"
    by (rule recv [rotated]) (simp add: queued_def)
  with one show "broker_reachable queued" "broker_reachable stalled"
    unfolding broker_reachable_def by (meson r_into_rtranclp rtranclp.rtrancl_into_rtrancl)+
qed

theorem dispatch_in_order_witness:
  "\<exists>b' ds s'. dispatchRequests 0 [101] stalled = Some b' \<and> [sample_pending] = map snd ds @ Requests s' \<and>
     services b' [101] = Some s' \<and>
     wire (sock b') = map (\<lambda>(p, r). request_msg (heap stalled) p r) ds \<and>
     (Requests s' = [] \<or> AvailableWorkers s' = [])"
proof -
  let ?s = "(new_Service [101])\<lparr>Requests := [sample_pending], TotalRequests := 1,
     AvailableWorkers := [0], ActiveWorkers := 1\<rparr>"
  have s: "services stalled [101] = Some ?s" by (simp add: stalled_state)
  note main = dispatch_in_order [OF stalled_reachable(2) s refl, of 0]
  have "\<forall>i\<ge>0. outcome (sock stalled) i = None" by (simp add: stalled_state good_net_def)
  then obtain b' where b': "dispatchRequests 0 [101] stalled = Some b'"
    using main [of undefined, THEN conjunct2, THEN conjunct1] by blast
  then obtain ds s' where "services b' = (services stalled)([101] \<mapsto> s')"
    "Requests ?s = map snd ds @ Requests s'"
    "wire (sock b') = wire (sock stalled) @ map (\<lambda>(p, r). request_msg (heap stalled) p r) ds"
    "Requests s' = [] \<or> AvailableWorkers s' = []"
    using main [of b', THEN conjunct1] by metis
  with b' show ?thesis
    by (intro exI [of _ b'] exI [of _ ds] exI [of _ s']) (simp add: stalled_state good_net_def)
qed

text \<open>One request for one free worker.\<close>

lemma dispatch_single:
  assumes "services b name = Some s" "Requests s = [r]" "lists_disjoint s"
    and live: "live_workers now (heap b) (AvailableWorkers s) = p # ps" and "\<not> fails_now (sock b)"
  shows "dispatchRequests now name b = Some (b\<lparr>
      services := (services b)(name \<mapsto> s\<lparr>Requests := [], AvailableWorkers := ps,
        BusyWorkers := BusyWorkers s @ [p]\<rparr>),
      sock := (sock b)\<lparr>sends := sends (sock b) + 1, wire := wire (sock b) @ [request_msg (heap b) p r]\<rparr>\<rparr>)"
proof -
  let ?s = "s\<lparr>AvailableWorkers := p # ps\<rparr>"
  have "lists_disjoint ?s"
    using assms(3) live [symmetric] by (auto simp: lists_disjoint_def live_workers_def)
  then have one: "dispatch_one now (heap b) ?s (sock b) =
      (s\<lparr>Requests := [], AvailableWorkers := ps, BusyWorkers := BusyWorkers s @ [p]\<rparr>,
       (sock b)\<lparr>sends := sends (sock b) + 1, wire := wire (sock b) @ [request_msg (heap b) p r]\<rparr>)"
    using assms(2,5) by (simp add: dispatch_one_cases)
  have "dispatch_loop now (heap b) ?s (sock b) =
      Some (s\<lparr>Requests := [], AvailableWorkers := ps, BusyWorkers := BusyWorkers s @ [p]\<rparr>,
       (sock b)\<lparr>sends := sends (sock b) + 1, wire := wire (sock b) @ [request_msg (heap b) p r]\<rparr>)"
    using assms(2) by (subst dispatch_loop.simps) (simp add: one, subst dispatch_loop.simps, simp)
  then show ?thesis using assms(1) live by (simp add: dispatchRequests_def)
qed

lemma dispatch_reply_back:
  assumes "lists_disjoint s" "live_workers now h (AvailableWorkers s) = p # ps"
  shows "moveWorkerToAvailable p (s\<lparr>TotalRequests := n, Requests := rs, AvailableWorkers := ps,
      BusyWorkers := BusyWorkers s @ [p]\<rparr>) =
    s\<lparr>TotalRequests := n, Requests := rs, AvailableWorkers := ps @ [p]\<rparr>"
proof -
  have "p \<in> set (AvailableWorkers s)" using assms(2) by (auto simp: live_workers_def dest: filter_eq_ConsD)
  moreover have "distinct (p # ps)"
    using assms unfolding lists_disjoint_def live_workers_def by (metis distinct_append distinct_filter)
  ultimately have "p \<notin> set (BusyWorkers s)" "p \<notin> set ps"
    using assms(1) by (auto simp: lists_disjoint_def)
  then show ?thesis
    by (simp add: moveWorkerToAvailable_def isWorkerInAvailableList_def list_ex_iff remove1_append)
qed

text \<open>The broker after it passed the request on, and the message the worker reads.\<close>

definition serving_state :: "int \<Rightarrow> bytes \<Rightarrow> bytes \<Rightarrow> Service \<Rightarrow> nat \<Rightarrow> nat list \<Rightarrow> Broker \<Rightarrow> Broker" where
  "serving_state now client body s p ps b =
     b\<lparr>totalRequests := totalRequests b + 1,
       services := (services b)(SName s \<mapsto> s\<lparr>TotalRequests := TotalRequests s + 1,
         Requests := [], AvailableWorkers := ps, BusyWorkers := BusyWorkers s @ [p]\<rparr>),
       sock := (sock b)\<lparr>sends := sends (sock b) + 1, wire := wire (sock b) @
         [Identity (heap b p) # FormatWorkerMessage (NewWorkerMessage now WorkerRequest client body)]\<rparr>\<rparr>"

lemma process_served_request:
  assumes "broker_inv b" "\<not> LogInfo b" "empties es" "service \<noteq> []" "length service \<le> 255"
    and s: "services b service = Some s" "Requests s = []"
    and live: "live_workers now (heap b) (AvailableWorkers s) = p # ps"
    and net: "\<forall>i. outcome (sock b) i = None"
  shows "processMessage now order (client # es @ FormatClientRequest (NewClientRequest t service body)) b =
      Some (Ok (serving_state now client body s p ps b))"
proof -
  let ?r = "\<lparr>Client = client, RService = service, RBody = body, Created = now\<rparr>"
  let ?s = "s\<lparr>Requests := [?r], TotalRequests := TotalRequests s + 1\<rparr>"
  let ?b0 = "b\<lparr>services := (services b)(service \<mapsto> ?s), totalRequests := totalRequests b + 1\<rparr>"
  have b0: "enqueue_request now client (NewClientRequest now service body) b = ?b0"
    using s by (simp add: enqueue_request_eq NewClientRequest_def zero_Message_def)
  have dj: "lists_disjoint ?s" and name: "SName s = service"
    using broker_invD(4) [OF assms(1) s(1)] by (auto simp: service_inv_def lists_disjoint_def)
  have fmt: "request_msg (heap b) p ?r =
      Identity (heap b p) # FormatWorkerMessage (NewWorkerMessage now WorkerRequest client body)"
    by (simp add: request_msg_def FormatWorkerMessage_cases NewWorkerMessage_def zero_Message_def
        sent_envelope_def)
  have "dispatchRequests now service ?b0 = Some (serving_state now client body s p ps b)"
    using dispatch_single [of ?b0 service ?s ?r now p ps] dj live net
    by (simp add: serving_state_def name fmt fails_now_def)
  then show ?thesis
    using process_client_request [OF assms(1-5)] s b0 by simp
qed

lemma worker_reads_request:
  assumes "client \<noteq> []"
  obtains m where "Frames m = FormatWorkerMessage (NewWorkerMessage now WorkerRequest client body)"
    "ParseWorkerMessage now (Frames m) = Ok m"
    "Command m = WorkerRequest" "ClientAddr m = client" "Body m = body"
proof -
  let ?w = "NewWorkerMessage now WorkerRequest client body"
  let ?m = "(received_worker ?w)\<lparr>Frames := FormatWorkerMessage ?w, RoutingEnvelope := [], Timestamp := now\<rparr>"
  have "ParseWorkerMessage now (Frames ?m) = Ok ?m"
    using worker.parse_fmt_plain [of ?w now]
    by (simp add: worker_ok_def NewWorkerMessage_def zero_Message_def)
  moreover have "Command ?m = WorkerRequest" "ClientAddr ?m = client" "Body ?m = body"
    using assms by (simp_all add: received_worker_def NewWorkerMessage_def zero_Message_def sent_envelope_def)
  ultimately show thesis by (intro that [of ?m]) simp_all
qed

text \<open>
  A request is answered. Let a client's request for a service arrive, behind any delimiters
  of its socket, when the service has an empty queue and a first unexpired available worker
  \<open>p\<close>, and let sends succeed. The broker then sends one message, to \<open>p\<close>, which the worker
  parses to a REQUEST with the client's identity and the body. When the worker answers it with
  a REPLY to that client that has a body, the broker sends one message, to the client, which
  parses to the reply body under the same service, and \<open>p\<close> is available again with the queue
  and the busy list as before.
\<close>

theorem request_is_answered:
  assumes "broker_reachable b" "\<not> LogInfo b" "empties es" "service \<noteq> []" "length service \<le> 255"
    and s: "services b service = Some s" "Requests s = []"
    and live: "live_workers now (heap b) (AvailableWorkers s) = p # ps"
    and net: "\<forall>i. outcome (sock b) i = None" and "client \<noteq> []" "answer \<noteq> []"
  shows "\<exists>b1 b2 m.
    processMessage now order (client # es @ FormatClientRequest (NewClientRequest t service body)) b =
      Some (Ok b1) \<and>
    wire (sock b1) = wire (sock b) @ [Identity (heap b p) # Frames m] \<and>
    ParseWorkerMessage now (Frames m) = Ok m \<and>
    Command m = WorkerRequest \<and> ClientAddr m = client \<and> Body m = body \<and>
    processMessage now2 order2 (Identity (heap b p) #
        FormatWorkerMessage (NewWorkerMessage t2 WorkerReply (ClientAddr m) answer)) b1 = Some (Ok b2) \<and>
    wire (sock b2) = wire (sock b1) @ [client # FormatClientReply (NewClientReply now2 service answer)] \<and>
    (\<exists>r. ParseClientMessage now2 (FormatClientReply (NewClientReply now2 service answer)) = Ok r \<and>
       Message.Service r = service \<and> Body r = answer) \<and>
    (\<exists>s'. services b2 service = Some s' \<and> Requests s' = [] \<and> BusyWorkers s' = BusyWorkers s \<and>
       AvailableWorkers s' = ps @ [p])"
proof -
  note inv = reachable_inv [OF assms(1)]
  let ?b1 = "serving_state now client body s p ps b"
  have one: "processMessage now order
      (client # es @ FormatClientRequest (NewClientRequest t service body)) b = Some (Ok ?b1)"
    by (rule process_served_request [OF inv assms(2-9)])
  obtain m where m: "Frames m = FormatWorkerMessage (NewWorkerMessage now WorkerRequest client body)"
    "ParseWorkerMessage now (Frames m) = Ok m"
    "Command m = WorkerRequest" "ClientAddr m = client" "Body m = body"
    using worker_reads_request [OF assms(10)] by blast
  have sinv: "service_inv (bworkers b) (heap b) service s" using broker_invD(4) [OF inv s(1)] .
  have "p \<in> set (AvailableWorkers s)" using live by (auto simp: live_workers_def dest: filter_eq_ConsD)
  with sinv have reg: "bworkers b (Identity (heap b p)) = Some p" "WService (heap b p) = service"
    and dj: "lists_disjoint s" and name: "SName s = service"
    by (auto simp: service_inv_def)
  let ?b2 = "worker_reply now2 p (NewWorkerMessage now2 WorkerReply client answer) ?b1"
  have two: "processMessage now2 order2 (Identity (heap b p) #
        FormatWorkerMessage (NewWorkerMessage t2 WorkerReply client answer)) ?b1 = Some (Ok ?b2)"
    using process_worker_reply(1) [OF processMessage_inv [OF inv one] _ assms(10,11)] assms(2) reg
    by (simp add: serving_state_def handle_worker_def NewWorkerMessage_def zero_Message_def)
  have wire2: "wire (sock ?b2) = wire (sock ?b1) @ [client # FormatClientReply (NewClientReply now2 service answer)]"
    using net reg by (simp add: serving_state_def worker_reply_def sendToClient_def mdp_Send_def
        NewWorkerMessage_def zero_Message_def Let_def name)
  have again: "\<exists>s'. services ?b2 service = Some s' \<and> Requests s' = [] \<and> BusyWorkers s' = BusyWorkers s \<and>
       AvailableWorkers s' = ps @ [p]"
    using dispatch_reply_back [OF dj live] reg
    by (simp add: serving_state_def worker_reply_def Let_def name)
  have client: "\<exists>r. ParseClientMessage now2 (FormatClientReply (NewClientReply now2 service answer)) = Ok r \<and>
       Message.Service r = service \<and> Body r = answer"
    using reply.parse_fmt_plain [of "NewClientReply now2 service answer" now2] assms(5)
    by (simp add: NewClientReply_def zero_Message_def received_reply_def)
  have "wire (sock ?b1) = wire (sock b) @ [Identity (heap b p) # Frames m]"
    by (simp add: serving_state_def m(1))
  then show ?thesis
    using one m(2-) two wire2 again client
    by (intro exI [of _ ?b1] exI [of _ ?b2] exI [of _ m]) simp
qed

lemma one_worker_live: "live_workers 0 (heap one_worker) [0] = [0]"
  by (simp add: live_workers_def BrokerWorker_IsExpired_def one_worker_state)

theorem request_is_answered_witness:
  "\<exists>b1 b2 m.
    processMessage 0 [[119]] ([99] # [[]] @ FormatClientRequest (NewClientRequest 0 [101] [65])) one_worker =
      Some (Ok b1) \<and>
    wire (sock b1) = wire (sock one_worker) @ [Identity (heap one_worker 0) # Frames m] \<and>
    ParseWorkerMessage 0 (Frames m) = Ok m \<and> ClientAddr m = [99] \<and> Body m = [65] \<and>
    processMessage 1 [[119]] (Identity (heap one_worker 0) #
        FormatWorkerMessage (NewWorkerMessage 1 WorkerReply (ClientAddr m) [66])) b1 = Some (Ok b2) \<and>
    wire (sock b2) = wire (sock b1) @ [[99] # FormatClientReply (NewClientReply 1 [101] [66])]"
proof -
  let ?s = "(new_Service [101])\<lparr>AvailableWorkers := [0], ActiveWorkers := 1\<rparr>"
  have s: "services one_worker [101] = Some ?s" "Requests ?s = []"
    and live: "live_workers 0 (heap one_worker) (AvailableWorkers ?s) = [0]"
    and log: "\<not> LogInfo one_worker" and es: "empties [[]]"
    and net: "\<forall>i. outcome (sock one_worker) i = None"
    by (simp_all add: one_worker_state new_Service_def empties_def good_net_def one_worker_live)
  have name: "[101 :: byte] \<noteq> []" "length [101 :: byte] \<le> 255" "[99 :: byte] \<noteq> []" "[66 :: byte] \<noteq> []"
    by simp_all
  show ?thesis
    using request_is_answered [OF one_worker_reachable log es name(1,2) s live net name(3,4),
        of "[[119]]" 0 "[65]" 1 "[[119]]" 1]
    by blast
qed

end
