(* ===== verification/Mdp_Broker_Faults.thy ===== *)
theory Mdp_Broker_Faults
  imports Mdp_Broker
begin

text \<open>
  Where the Majordomo broker removes, keeps or loses workers and requests: the cleanup, the
  handlers that never dispatch, the workers that fall out of the lists, replies without a body,
  and the ways in which the process panics.
\<close>

section \<open>Cleanup\<close>

lemma unregister_frame [simp]:
  "heap (unregister k p b) = heap b" "requestTimeout (unregister k p b) = requestTimeout b"
  "sock (unregister k p b) = sock b" "bworkers (unregister k p b) = (bworkers b)(k := None)"
  by (auto simp: unregister_def Let_def split: option.splits)

lemma cleanup_worker_frame [simp]:
  "heap (cleanup_worker now k b) = heap b"
  "requestTimeout (cleanup_worker now k b) = requestTimeout b"
  "sock (cleanup_worker now k b) = sock b"
  by (auto simp: cleanup_worker_def split: option.splits)

definition live_registry :: "int \<Rightarrow> (nat \<Rightarrow> BrokerWorker) \<Rightarrow> (bytes \<rightharpoonup> nat) \<Rightarrow> bytes set \<Rightarrow> bytes \<rightharpoonup> nat" where
  "live_registry now h ws ks = (\<lambda>k. case ws k of None \<Rightarrow> None
     | Some p \<Rightarrow> if k \<in> ks \<and> BrokerWorker_IsExpired now (h p) then None else Some p)"

definition removed :: "int \<Rightarrow> bytes set \<Rightarrow> Broker \<Rightarrow> nat set" where
  "removed now ks b = {p. \<exists>k \<in> ks. bworkers b k = Some p \<and> BrokerWorker_IsExpired now (heap b p)}"

definition lists_of :: "nat set \<Rightarrow> Service \<Rightarrow> PendingRequest list \<times> nat list \<times> nat list" where
  "lists_of D s = (Requests s, filter (\<lambda>p. p \<notin> D) (AvailableWorkers s), filter (\<lambda>p. p \<notin> D) (BusyWorkers s))"

text \<open>
  The state after the keys \<open>ks\<close> have been visited: the expired workers among them are gone from
  the registry and from the lists of their services.
\<close>

definition cleaned :: "int \<Rightarrow> bytes set \<Rightarrow> Broker \<Rightarrow> Broker \<Rightarrow> bool" where
  "cleaned now ks b b' \<longleftrightarrow>
     bworkers b' = live_registry now (heap b) (bworkers b) ks \<and>
     heap b' = heap b \<and> requestTimeout b' = requestTimeout b \<and> sock b' = sock b \<and>
     (\<forall>name. map_option (lists_of {}) (services b' name) =
        map_option (lists_of (removed now ks b)) (services b name))"

lemma lists_of_drop:
  assumes "lists_disjoint s" "lists_of {} s' = lists_of D s"
  shows "lists_of {} (drop_worker p s') = lists_of (insert p D) s"
  using assms by (simp add: lists_of_def drop_worker_def lists_disjoint_def distinct_remove1_removeAll
      removeAll_filter_not_eq) (auto intro!: filter_cong)

lemma lists_of_other:
  assumes "service_inv ws (heap b) name s" "WService (heap b p) \<noteq> name"
  shows "lists_of (insert p D) s = lists_of D s"
  using assms by (auto simp: lists_of_def service_inv_def intro!: filter_cong)

lemma cleaned_step:
  assumes inv: "broker_inv b" and c: "cleaned now ks b b'"
  shows "cleaned now (insert k ks) b (cleanup_worker now k b')"
proof (cases "\<exists>p. bworkers b k = Some p \<and> BrokerWorker_IsExpired now (heap b p) \<and> k \<notin> ks")
  case False
  then have "live_registry now (heap b) (bworkers b) (insert k ks) = bworkers b'"
    "removed now (insert k ks) b = removed now ks b" "cleanup_worker now k b' = b'"
    using c by (auto simp: live_registry_def removed_def cleaned_def cleanup_worker_def fun_eq_iff
        split: option.splits)
  then show ?thesis using c by (simp add: cleaned_def)
next
  case True
  then obtain p where p: "bworkers b k = Some p" "BrokerWorker_IsExpired now (heap b p)" "k \<notin> ks"
    by blast
  then have p': "bworkers b' k = Some p" and h: "heap b' = heap b"
    using c by (auto simp: cleaned_def live_registry_def)
  have rem: "removed now (insert k ks) b = insert p (removed now ks b)"
    using p by (auto simp: removed_def)
  have "map_option (lists_of {}) (services (cleanup_worker now k b') name) =
      map_option (lists_of (removed now (insert k ks) b)) (services b name)" for name
  proof (cases "services b name")
    case None
    then have "services b' name = None" using c by (auto simp: cleaned_def dest: spec [of _ name])
    then show ?thesis using None p p' h
      by (auto simp: cleanup_worker_def unregister_def Let_def split: option.splits)
  next
    case (Some s)
    then obtain s' where s': "services b' name = Some s'" "lists_of {} s' = lists_of (removed now ks b) s"
      using c by (auto simp: cleaned_def dest!: spec [of _ name])
    have sinv: "service_inv (bworkers b) (heap b) name s" using broker_invD(4) [OF inv Some] .
    then show ?thesis
      using p p' h s' Some lists_of_drop [of s s' "removed now ks b" p] lists_of_other [OF sinv, of p]
      by (cases "name = WService (heap b p)")
        (auto simp: cleanup_worker_def unregister_def rem service_inv_def Let_def split: option.splits)
  qed
  moreover have "bworkers (cleanup_worker now k b') = live_registry now (heap b) (bworkers b) (insert k ks)"
    using c p p' h by (auto simp: cleanup_worker_def cleaned_def live_registry_def fun_eq_iff
        split: option.splits)
  ultimately show ?thesis using c by (simp add: cleaned_def)
qed

lemma cleaned_fold:
  assumes inv: "broker_inv b"
  shows "cleaned now (set ks) b (fold (cleanup_worker now) ks b)"
proof (induction ks rule: rev_induct)
  case Nil
  show ?case by (auto simp: cleaned_def live_registry_def removed_def fun_eq_iff split: option.splits)
next
  case (snoc k ks)
  then show ?case using cleaned_step [OF inv, of now "set ks" _ k] by simp
qed

text \<open>
  A cleanup removes exactly what has expired. In a reachable state, whatever the order in
  which the registry is visited, the workers registered afterwards are those that were
  registered and have not expired, both lists of every service keep exactly their unexpired
  workers in order, the queue of every service keeps exactly the requests younger than the
  timeout in order, and nothing is sent.
\<close>

theorem cleanup_removes_expired:
  assumes "broker_reachable b" "set order = dom (bworkers b)"
  shows "(bworkers (cleanup now order b) k = Some p \<longleftrightarrow>
       bworkers b k = Some p \<and> \<not> BrokerWorker_IsExpired now (heap b p)) \<and>
    sock (cleanup now order b) = sock b \<and>
    (services b name = Some s \<longrightarrow>
      (\<exists>s'. services (cleanup now order b) name = Some s' \<and>
        AvailableWorkers s' = filter (\<lambda>p. \<not> BrokerWorker_IsExpired now (heap b p)) (AvailableWorkers s) \<and>
        BusyWorkers s' = filter (\<lambda>p. \<not> BrokerWorker_IsExpired now (heap b p)) (BusyWorkers s) \<and>
        Requests s' = filter (\<lambda>r. now - Created r \<le> requestTimeout b) (Requests s)))"
proof -
  note inv = reachable_inv [OF assms(1)]
  let ?b = "fold (cleanup_worker now) order b"
  have c: "cleaned now (dom (bworkers b)) b ?b" using cleaned_fold [OF inv, of now order] assms(2) by simp
  then have "bworkers (cleanup now order b) k = Some p \<longleftrightarrow>
      bworkers b k = Some p \<and> \<not> BrokerWorker_IsExpired now (heap b p)" "sock (cleanup now order b) = sock b"
    by (auto simp: cleanup_def cleaned_def live_registry_def Let_def split: option.splits if_splits)
  moreover have "\<exists>s'. services (cleanup now order b) name = Some s' \<and>
        AvailableWorkers s' = filter (\<lambda>p. \<not> BrokerWorker_IsExpired now (heap b p)) (AvailableWorkers s) \<and>
        BusyWorkers s' = filter (\<lambda>p. \<not> BrokerWorker_IsExpired now (heap b p)) (BusyWorkers s) \<and>
        Requests s' = filter (\<lambda>r. now - Created r \<le> requestTimeout b) (Requests s)"
    if s: "services b name = Some s"
  proof -
    obtain s' where s': "services ?b name = Some s'"
        "lists_of {} s' = lists_of (removed now (dom (bworkers b)) b) s" "requestTimeout ?b = requestTimeout b"
      using c s by (auto simp: cleaned_def dest!: spec [of _ name])
    have "p \<in> removed now (dom (bworkers b)) b \<longleftrightarrow> BrokerWorker_IsExpired now (heap b p)"
      if "p \<in> set (AvailableWorkers s) \<union> set (BusyWorkers s)" for p
      using that broker_invD(4) [OF inv s] by (auto simp: removed_def service_inv_def)
    then have "filter (\<lambda>p. p \<notin> removed now (dom (bworkers b)) b) xs =
        filter (\<lambda>p. \<not> BrokerWorker_IsExpired now (heap b p)) xs"
      if "set xs \<subseteq> set (AvailableWorkers s) \<union> set (BusyWorkers s)" for xs
      using that by (intro filter_cong) auto
    with s' show ?thesis
      by (auto simp: cleanup_def expire_requests_def lists_of_def PendingRequest_IsExpired_def Let_def not_less)
  qed
  ultimately show ?thesis by blast
qed

theorem cleanup_removes_expired_witness:
  "bworkers (cleanup 8000000000 [[119]] stalled) [119] = None \<and>
   (\<exists>s'. services (cleanup 8000000000 [[119]] stalled) [101] = Some s' \<and> AvailableWorkers s' = [] \<and>
      Requests s' = [sample_pending])"
proof -
  let ?s = "(new_Service [101])\<lparr>Requests := [sample_pending], TotalRequests := 1,
     AvailableWorkers := [0], ActiveWorkers := 1\<rparr>"
  have ord: "set [[119]] = dom (bworkers stalled)" by (simp add: stalled_state)
  have t: "requestTimeout stalled = 30000000000"
    by (simp add: stalled_def register_worker_def queued_def NewBroker_def DefaultBrokerOptions_def Let_def)
  have exp: "BrokerWorker_IsExpired 8000000000 (heap stalled 0)"
    by (simp add: BrokerWorker_IsExpired_def stalled_state)
  note main = cleanup_removes_expired [OF stalled_reachable(2) ord, of 8000000000 "[119]" p "[101]" ?s for p]
  have "bworkers stalled [119] = Some 0" by (simp add: stalled_state)
  then have "\<forall>p. bworkers (cleanup 8000000000 [[119]] stalled) [119] \<noteq> Some p"
    using exp main [THEN conjunct1] by (metis option.inject)
  moreover have s: "services stalled [101] = Some ?s" by (simp add: stalled_state)
  obtain s' where "services (cleanup 8000000000 [[119]] stalled) [101] = Some s'"
      "AvailableWorkers s' = filter (\<lambda>p. \<not> BrokerWorker_IsExpired 8000000000 (heap stalled p)) (AvailableWorkers ?s)"
      "Requests s' = filter (\<lambda>r. 8000000000 - Created r \<le> requestTimeout stalled) (Requests ?s)"
    using main [THEN conjunct2, THEN conjunct2, rule_format, OF s] by metis
  ultimately show ?thesis
    using exp by (auto simp: t sample_pending_def)
qed

section \<open>Only a client message dispatches\<close>

text \<open>A message on the wire that carries a request to a worker.\<close>

definition is_request :: "frames \<Rightarrow> bool" where
  "is_request m \<longleftrightarrow> length m \<ge> 4 \<and> m ! 2 = WorkerProtocol \<and> m ! 3 = WorkerRequest"

text \<open>The sends of a step contain no request, and the queues are as before.\<close>

definition no_dispatch :: "Broker \<Rightarrow> Broker \<Rightarrow> bool" where
  "no_dispatch b b' \<longleftrightarrow>
     (\<exists>ms. wire (sock b') = wire (sock b) @ ms \<and> (\<forall>m \<in> set ms. \<not> is_request m)) \<and>
     (\<forall>name s. services b name = Some s \<longrightarrow>
        (\<exists>s'. services b' name = Some s' \<and> Requests s' = Requests s))"

lemma quiet_sendToWorker:
  assumes "c \<in> {WorkerHeartbeat, WorkerDisconnect}"
  shows "\<exists>ms. wire (snd (sendToWorker now i c [] [] n)) = wire n @ ms \<and> (\<forall>m \<in> set ms. \<not> is_request m)"
proof (cases "outcome n (sends n)")
  case None
  have "c \<notin> {WorkerReady, WorkerRequest, WorkerReply}" using assms by auto
  then have "FormatWorkerMessage (NewWorkerMessage now c [] []) = [[], WorkerProtocol, c]"
    using assms by (auto simp: FormatWorkerMessage_cases NewWorkerMessage_def zero_Message_def)
  then show ?thesis
    using None assms
    by (intro exI [of _ "[[i, [], WorkerProtocol, c]]"])
      (auto simp: sendToWorker_def mdp_Send_def is_request_def)
qed (simp add: sendToWorker_def mdp_Send_def)

lemma quiet_sendToClient:
  "\<exists>ms. wire (sendToClient now i service body n) = wire n @ ms \<and> (\<forall>m \<in> set ms. \<not> is_request m)"
proof (cases "outcome n (sends n)")
  case None
  then show ?thesis
    by (intro exI [of _ "[i # FormatClientReply (NewClientReply now service body)]"])
      (simp add: sendToClient_def mdp_Send_def is_request_def FormatClientReply_eq NewClientReply_def
        zero_Message_def)
qed (simp add: sendToClient_def mdp_Send_def)

lemma no_dispatch_refl [simp]: "no_dispatch b b"
  by (simp add: no_dispatch_def)

lemma no_dispatch_send:
  "c \<in> {WorkerHeartbeat, WorkerDisconnect} \<Longrightarrow>
     no_dispatch b (b\<lparr>sock := snd (sendToWorker now i c [] [] (sock b))\<rparr>)"
  using quiet_sendToWorker [of c now i "sock b"] by (simp add: no_dispatch_def)

lemma no_dispatch_trans: "no_dispatch a b \<Longrightarrow> no_dispatch b c \<Longrightarrow> no_dispatch a c"
  unfolding no_dispatch_def
proof (elim conjE exE, intro conjI allI impI)
  fix ms ms'
  assume "wire (sock b) = wire (sock a) @ ms" "\<forall>m \<in> set ms. \<not> is_request m"
    "wire (sock c) = wire (sock b) @ ms'" "\<forall>m \<in> set ms'. \<not> is_request m"
  then show "\<exists>ms. wire (sock c) = wire (sock a) @ ms \<and> (\<forall>m \<in> set ms. \<not> is_request m)"
    by (intro exI [of _ "ms @ ms'"]) auto
qed fastforce

lemma no_dispatch_unregister: "no_dispatch b (unregister k p b)"
  by (auto simp: no_dispatch_def unregister_def drop_worker_def Let_def split: option.splits)

lemma no_dispatch_disconnect: "no_dispatch b (disconnectWorker now p sending b)"
  using no_dispatch_send [of WorkerDisconnect b now "Identity (heap b p)"] no_dispatch_unregister no_dispatch_trans
  by (auto simp: disconnectWorker_def Let_def)

lemma no_dispatch_register: "no_dispatch b (register_worker now i name b)"
  by (cases "services b name") (auto simp: no_dispatch_def register_worker_def getOrCreateService_def Let_def)

lemma no_dispatch_reply: "no_dispatch b (worker_reply now p msg b)"
  using quiet_sendToClient [of now "ClientAddr msg" "WService (heap b p)" "Body msg" "sock b"]
  by (cases "services b (WService (heap b p))")
    (auto simp: no_dispatch_def worker_reply_def getOrCreateService_def moveWorkerToAvailable_def Let_def)

lemma no_dispatch_handle_worker: "no_dispatch b (handle_worker now i msg b)"
  using no_dispatch_disconnect no_dispatch_register no_dispatch_reply
    no_dispatch_send [of WorkerDisconnect b now i]
  by (auto simp: handle_worker_def disconnect_unknown_def worker_heartbeat_def no_dispatch_def
      split: option.splits)

lemma no_dispatch_worker:
  assumes "broker_inv b" "processWorkerMessage now i fs b = Ok b'"
  shows "no_dispatch b b'"
proof (cases "ParseWorkerMessage now fs")
  case (Ok msg)
  with assms show ?thesis
    using no_dispatch_handle_worker by (auto simp: processWorkerMessage_eq split: if_splits)
qed (use assms in \<open>simp_all add: processWorkerMessage_def\<close>)

lemma no_dispatch_heartbeats: "no_dispatch b (sendHeartbeats now order b)"
proof -
  have "\<exists>ms. wire (fold (\<lambda>p n. snd (sendToWorker now (Identity (heap b p)) WorkerHeartbeat [] [] n)) ps n) =
      wire n @ ms \<and> (\<forall>m \<in> set ms. \<not> is_request m)" for ps n
  proof (induction ps arbitrary: n)
    case (Cons p ps)
    let ?n = "snd (sendToWorker now (Identity (heap b p)) WorkerHeartbeat [] [] n)"
    obtain ms where "wire ?n = wire n @ ms" "\<forall>m \<in> set ms. \<not> is_request m"
      using quiet_sendToWorker by blast
    moreover obtain ms' where "wire (fold (\<lambda>p n. snd (sendToWorker now (Identity (heap b p))
        WorkerHeartbeat [] [] n)) ps ?n) = wire ?n @ ms'" "\<forall>m \<in> set ms'. \<not> is_request m"
      using Cons [of ?n] by blast
    ultimately show ?case by (intro exI [of _ "ms @ ms'"]) auto
  qed simp
  then show ?thesis by (simp add: no_dispatch_def sendHeartbeats_def)
qed

text \<open>
  A queued request waits for the next client. No worker message, READY and REPLY included,
  and no heartbeat round sends a REQUEST or takes a request from a queue, in any reachable
  state: a request that finds no free worker is not passed on when a worker registers or
  becomes free, but only when another client message for the same service arrives, or it
  expires.
\<close>

theorem queued_request_waits:
  assumes "broker_reachable b" "services b name = Some s"
    and "analyzeMessageStructure msg = (messageTypeWorker, WorkerProtocol, fs)"
    and "processMessage now order msg b = Some (Ok b')"
  shows "(\<exists>ms s'. wire (sock b') = wire (sock b) @ ms \<and> (\<forall>m \<in> set ms. \<not> is_request m) \<and>
       services b' name = Some s' \<and> Requests s' = Requests s) \<and>
    (\<exists>ms s'. wire (sock (sendHeartbeats now order b)) = wire (sock b) @ ms \<and>
       (\<forall>m \<in> set ms. \<not> is_request m) \<and>
       services (sendHeartbeats now order b) name = Some s' \<and> Requests s' = Requests s)"
proof -
  have "no_dispatch b b'"
    using no_dispatch_worker [OF reachable_inv [OF assms(1)], of now "msg ! 0" fs b'] assms(3,4)
    by (auto simp: processMessage_def Let_def split: if_splits)
  then show ?thesis
    using no_dispatch_heartbeats [of b now order] assms(2) unfolding no_dispatch_def by blast
qed

theorem queued_request_waits_witness:
  "\<exists>ms s'. wire (sock stalled) = wire (sock queued) @ ms \<and> (\<forall>m \<in> set ms. \<not> is_request m) \<and>
     services stalled [101] = Some s' \<and> Requests s' = [sample_pending] \<and> AvailableWorkers s' = [0]"
proof -
  let ?s = "(new_Service [101])\<lparr>Requests := [sample_pending], TotalRequests := 1\<rparr>"
  have s: "services queued [101] = Some ?s" "\<not> LogInfo queued" "bworkers queued [119] = None"
    by (simp_all add: queued_def)
  have an: "analyzeMessageStructure [[119], [], WorkerProtocol, WorkerReady, [101]] =
      (messageTypeWorker, WorkerProtocol, [[], WorkerProtocol, WorkerReady, [101]])"
    using detect_ready by (simp add: ready_msg_def)
  have "processMessage 0 [] [[119], [], WorkerProtocol, WorkerReady, [101]] queued = Some (Ok stalled)"
    using process_worker_ready [OF reachable_inv [OF stalled_reachable(1)], of "[101]" 0 "[]" "[119]"] s
    by (simp add: stalled_def)
  from queued_request_waits [OF stalled_reachable(1) s(1) an this, THEN conjunct1] show ?thesis
    by (auto simp: stalled_state)
qed

section \<open>Workers and replies that are lost\<close>

text \<open>A registered worker in neither list of any service.\<close>

definition stranded :: "Broker \<Rightarrow> bytes \<Rightarrow> nat \<Rightarrow> bool" where
  "stranded b k p \<longleftrightarrow> bworkers b k = Some p \<and>
     (\<forall>name s. services b name = Some s \<longrightarrow> p \<notin> set (AvailableWorkers s @ BusyWorkers s))"

text \<open>Dispatching a service only moves workers that were in its lists, and no expired one.\<close>

lemma dispatch_strands:
  assumes inv: "broker_inv b" and ret: "dispatchRequests now name b = Some b'"
    and s: "services b name = Some s" "p \<in> set (AvailableWorkers s)"
    and exp: "BrokerWorker_IsExpired now (heap b p)"
  shows "stranded b' (Identity (heap b p)) p"
proof -
  obtain ds s' where b': "b' = b\<lparr>services := (services b)(name \<mapsto> s'), sock := sock b'\<rparr>"
    and ds: "dispatched (heap b) (s\<lparr>AvailableWorkers := live_workers now (heap b) (AvailableWorkers s)\<rparr>)
      (sock b) ds s' (sock b')"
    using dispatchRequests_Some [OF inv ret] s(1) by (metis fst_conv getOrCreateService_known)
  have sinv: "service_inv (bworkers b) (heap b) name s" using broker_invD(4) [OF inv s(1)] .
  then have wp: "WService (heap b p) = name" using s(2) by (simp add: service_inv_def)
  have "p \<notin> set (AvailableWorkers s') \<union> set (BusyWorkers s')"
  proof -
    have "p \<notin> set (map fst ds @ AvailableWorkers s')"
      using ds exp by (simp only: dispatched_def) (simp add: live_workers_def)
    moreover have "p \<notin> set (BusyWorkers s)"
      using sinv s(2) by (auto simp: service_inv_def lists_disjoint_def)
    ultimately show ?thesis using ds by (simp add: dispatched_def)
  qed
  moreover have "p \<notin> set (AvailableWorkers t) \<union> set (BusyWorkers t)"
    if "services b n = Some t" "n \<noteq> name" for n t
    using that(2) broker_invD(4) [OF inv that(1)] wp by (auto simp: service_inv_def)
  moreover have "bworkers b (Identity (heap b p)) = Some p" using sinv s(2) by (simp add: service_inv_def)
  moreover have "bworkers b' = bworkers b" "services b' = (services b)(name \<mapsto> s')"
    using arg_cong [OF b', of bworkers] arg_cong [OF b', of services] by simp_all
  ultimately show ?thesis by (auto simp: stranded_def split: if_splits)
qed

lemma dispatch_keeps_stranded:
  assumes inv: "broker_inv b" and ret: "dispatchRequests now name b = Some b'" and st: "stranded b k p"
  shows "stranded b' k p"
proof -
  let ?s = "fst (getOrCreateService name b)"
  obtain ds s' where b': "b' = b\<lparr>services := (services b)(name \<mapsto> s'), sock := sock b'\<rparr>"
    and ds: "dispatched (heap b) (?s\<lparr>AvailableWorkers := live_workers now (heap b) (AvailableWorkers ?s)\<rparr>)
      (sock b) ds s' (sock b')"
    using dispatchRequests_Some [OF inv ret] by metis
  have "p \<notin> set (AvailableWorkers ?s @ BusyWorkers ?s)"
    using st by (cases "services b name") (auto simp: stranded_def getOrCreateService_def new_Service_def)
  then have "p \<notin> set (AvailableWorkers s' @ BusyWorkers s')"
    using ds by (auto simp: dispatched_def live_workers_def)
  moreover have "bworkers b' = bworkers b" "services b' = (services b)(name \<mapsto> s')"
    using arg_cong [OF b', of bworkers] arg_cong [OF b', of services] by simp_all
  ultimately show ?thesis using st by (auto simp: stranded_def split: if_splits)
qed

lemma client_keeps_stranded:
  assumes inv: "broker_inv b" and ret: "processClientMessage now order i fs b = Some (Ok b')"
    and st: "stranded b k p"
  shows "stranded b' k p"
proof (cases "ParseClientMessage now fs")
  case (Ok msg)
  let ?b = "snd (getOrCreateService (Message.Service msg) b)"
  have inv': "broker_inv ?b" using getOrCreateService_inv(1) [OF inv] .
  then have "dispatchRequests now (Message.Service msg) (enqueue_request now i msg ?b) = Some b'"
    using ret Ok by (auto simp: processClientMessage_def log_workers_eq Let_def split: if_splits)
  moreover have "stranded (enqueue_request now i msg ?b) k p"
    using st by (cases "services b (Message.Service msg)")
      (auto simp: stranded_def enqueue_request_eq getOrCreateService_def new_Service_def split: if_splits)
  ultimately show ?thesis
    using dispatch_keeps_stranded enqueue_request_inv [OF inv'] by blast
qed (use assms in \<open>simp_all add: processClientMessage_def\<close>)

lemma process_heartbeat:
  assumes "broker_inv b" "\<not> LogInfo b" "bworkers b k = Some p"
  shows "processMessage now order [k, [], WorkerProtocol, WorkerHeartbeat] b =
    Some (Ok (worker_heartbeat now p b))"
proof -
  have "analyzeMessageStructure [k, [], WorkerProtocol, WorkerHeartbeat] =
      (messageTypeWorker, WorkerProtocol, [[], WorkerProtocol, WorkerHeartbeat])"
    using analyze_worker(1) [of "[[]]" "[WorkerProtocol, WorkerHeartbeat]" WorkerHeartbeat "[]" "[]" k]
    by (simp add: empties_def)
  moreover have "ParseWorkerMessage now [[], WorkerProtocol, WorkerHeartbeat] =
      Ok (zero_Message\<lparr>Frames := [[], WorkerProtocol, WorkerHeartbeat], RoutingEnvelope := [],
        Command := WorkerHeartbeat, Timestamp := now\<rparr>)"
    using ParseWorkerMessage_unfold [of "[]" now WorkerHeartbeat "[]"]
    by (simp add: ParseWorker_fields_simple)
  ultimately show ?thesis
    using assms processWorkerMessage_eq [OF assms(1)]
    by (simp add: processMessage_def handle_worker_def zero_Message_def)
qed

text \<open>
  A worker whose expiry passes just before a request arrives is stranded. The dispatcher
  takes it off the available list but leaves it registered. Its next heartbeat renews its
  expiry, so that the cleanup keeps it, but does not put it back on a list, and no client
  message does either: the worker stays connected, alive and unused until it sends a REPLY (which it
  has no request for) or registers again.
\<close>

theorem expired_worker_is_stranded:
  assumes "broker_reachable b"
  shows "(services b name = Some s \<and> p \<in> set (AvailableWorkers s) \<and>
       BrokerWorker_IsExpired now (heap b p) \<and> dispatchRequests now name b = Some b' \<longrightarrow>
       stranded b' (Identity (heap b p)) p) \<and>
    (stranded b k p \<and> processClientMessage now order i fs b = Some (Ok b'') \<longrightarrow> stranded b'' k p) \<and>
    (stranded b k p \<and> \<not> LogInfo b \<longrightarrow>
       (\<exists>c. processMessage now order [k, [], WorkerProtocol, WorkerHeartbeat] b = Some (Ok c) \<and>
          stranded c k p \<and> Expiry (heap c p) = now + heartbeatExpiry b))"
proof (intro conjI impI; elim conjE)
  note inv = reachable_inv [OF assms]
  show "stranded b' (Identity (heap b p)) p"
    if "services b name = Some s" "p \<in> set (AvailableWorkers s)"
      "BrokerWorker_IsExpired now (heap b p)" "dispatchRequests now name b = Some b'"
    using dispatch_strands [OF inv that(4,1,2,3)] .
  show "stranded b'' k p" if "stranded b k p" "processClientMessage now order i fs b = Some (Ok b'')"
    using client_keeps_stranded [OF inv that(2,1)] .
  show "\<exists>c. processMessage now order [k, [], WorkerProtocol, WorkerHeartbeat] b = Some (Ok c) \<and>
      stranded c k p \<and> Expiry (heap c p) = now + heartbeatExpiry b"
    if "stranded b k p" "\<not> LogInfo b"
    using that process_heartbeat [OF inv that(2), of k p now order]
    by (auto simp: stranded_def worker_heartbeat_def)
qed

theorem expired_worker_is_stranded_witness:
  "\<exists>b'. dispatchRequests 8000000000 [101] stalled = Some b' \<and> stranded b' [119] 0"
proof -
  let ?s = "(new_Service [101])\<lparr>Requests := [sample_pending], TotalRequests := 1,
     AvailableWorkers := [0], ActiveWorkers := 1\<rparr>"
  have exp: "BrokerWorker_IsExpired 8000000000 (heap stalled 0)"
    by (simp add: BrokerWorker_IsExpired_def stalled_state)
  have s: "services stalled [101] = Some ?s" "0 \<in> set (AvailableWorkers ?s)"
    by (simp_all add: stalled_state)
  have "live_workers 8000000000 (heap stalled) (AvailableWorkers ?s) = []"
    using exp by (simp add: live_workers_def)
  then obtain b' where b': "dispatchRequests 8000000000 [101] stalled = Some b'"
    using dispatch_idle [OF s(1)] by blast
  then have "stranded b' (Identity (heap stalled 0)) 0"
    using expired_worker_is_stranded [OF stalled_reachable(2), THEN conjunct1] s exp b' by blast
  with b' show ?thesis by (simp add: stalled_state)
qed

text \<open>
  A reply without a body is lost. When a registered worker answers with an empty body, the
  broker finds no separator in the frames it has put together again, and ignores the message:
  nothing is sent to the client, the worker stays on the busy list and its expiry is not
  renewed. With a body the reply goes to the client the worker names.
\<close>

theorem empty_reply_is_lost:
  assumes "broker_reachable b" "\<not> LogInfo b" "client \<noteq> []" "bworkers b k = Some p"
    and "outcome (sock b) (sends (sock b)) = None"
  shows "processMessage now order
      (k # FormatWorkerMessage (NewWorkerMessage t WorkerReply client body)) b =
      Some (Ok (if body = [] then b
        else worker_reply now p (NewWorkerMessage now WorkerReply client body) b)) \<and>
    (body \<noteq> [] \<longrightarrow>
      wire (sock (worker_reply now p (NewWorkerMessage now WorkerReply client body) b)) =
        wire (sock b) @ [client # FormatClientReply (NewClientReply now (WService (heap b p)) body)])"
proof (cases "body = []")
  case True
  then show ?thesis
    using process_worker_reply(2) [OF reachable_inv [OF assms(1)] assms(2,3)] by simp
next
  case False
  then have "processMessage now order
      (k # FormatWorkerMessage (NewWorkerMessage t WorkerReply client body)) b =
      Some (Ok (worker_reply now p (NewWorkerMessage now WorkerReply client body) b))"
    using process_worker_reply(1) [OF reachable_inv [OF assms(1)] assms(2,3) False] assms(4)
    by (simp add: handle_worker_def NewWorkerMessage_def zero_Message_def)
  moreover have "wire (sock (worker_reply now p (NewWorkerMessage now WorkerReply client body) b)) =
        wire (sock b) @ [client # FormatClientReply (NewClientReply now (WService (heap b p)) body)]"
    using assms(5) by (simp add: worker_reply_def sendToClient_def mdp_Send_def NewWorkerMessage_def
        zero_Message_def Let_def case_prod_beta)
  ultimately show ?thesis using False by simp
qed

theorem empty_reply_is_lost_witness:
  "processMessage 1 [[119]]
      ([119] # FormatWorkerMessage (NewWorkerMessage 1 WorkerReply [99] [])) one_worker = Some (Ok one_worker)"
  using empty_reply_is_lost [OF one_worker_reachable, of "[99]" "[119]" 0 1 "[[119]]" 1 "[]"]
  by (simp add: one_worker_state good_net_def)

section \<open>Panics\<close>

text \<open>
  The broker's process can be made to panic in two ways. With the information log enabled,
  any valid worker message from an identity shorter than eight bytes, and any valid client
  message while a worker with such an identity is registered, slices the identity out of range.
  And a broker that was stopped can be started again, but stopping it a second time closes a
  closed channel.
\<close>

theorem broker_panics:
  assumes "broker_reachable b"
  shows "(LogInfo b \<and> length k < 8 \<and> ParseWorkerMessage now fs = Ok m \<longrightarrow>
      (\<exists>e. processWorkerMessage now k fs b = Panic e)) \<and>
    (LogInfo b \<and> length k < 8 \<and> bworkers b k = Some p \<and> set order = dom (bworkers b) \<and>
       ParseClientMessage now fs = Ok m \<longrightarrow>
      (\<exists>e. processClientMessage now order i fs b = Some (Panic e))) \<and>
    (running b \<and> \<not> stopped b \<longrightarrow>
      (\<exists>e. fst (Start None (snd (Stop closing b))) = Ok () \<and>
         fst (Stop closing' (snd (Start None (snd (Stop closing b))))) = Panic e))"
proof (intro conjI impI; elim conjE)
  note inv = reachable_inv [OF assms]
  show "\<exists>e. processWorkerMessage now k fs b = Panic e"
    if "LogInfo b" "length k < 8" "ParseWorkerMessage now fs = Ok m"
    using that processWorkerMessage_eq [OF inv] by simp
  show "\<exists>e. processClientMessage now order i fs b = Some (Panic e)"
    if "LogInfo b" "length k < 8" "bworkers b k = Some p" "set order = dom (bworkers b)"
      "ParseClientMessage now fs = Ok m"
  proof -
    have "\<exists>k \<in> set order. k \<in> dom (bworkers b) \<and> length k < 8" using that by (auto simp: domI)
    then show ?thesis
      using that(1,5) log_workers_eq [OF getOrCreateService_inv(1) [OF inv], of order]
      by (simp add: processClientMessage_def Let_def)
  qed
  show "\<exists>e. fst (Start None (snd (Stop closing b))) = Ok () \<and>
         fst (Stop closing' (snd (Start None (snd (Stop closing b))))) = Panic e"
    if "running b" "\<not> stopped b"
    using that by (auto simp: Stop_def Start_def Let_def split: option.splits)
qed

theorem broker_panics_witness:
  "\<exists>e. fst (Stop None (snd (Start None (snd (Stop None (snd (Start None (NewBroker good_net None)))))))) =
     Panic e"
proof -
  let ?b = "snd (Start None (NewBroker good_net None))"
  have "broker_step (NewBroker good_net None) ?b"
    by (rule start [where listen = None and r = "fst (Start None (NewBroker good_net None))"]) simp
  then have "broker_reachable ?b" unfolding broker_reachable_def by blast
  moreover have "running ?b" "\<not> stopped ?b"
    by (simp_all add: Start_def NewBroker_def Let_def)
  ultimately show ?thesis
    using broker_panics [of ?b, THEN conjunct2, THEN conjunct2] by blast
qed

end
