(* ===== verification/Mdp_Client.thy ===== *)
theory Mdp_Client
  imports Mdp_Message
begin

text \<open>
  The Majordomo clients (\<^verbatim>\<open>majordomo/client.go\<close>): the synchronous \<^verbatim>\<open>Client\<close>, which sends a request
  over a REQ socket and retries on a fresh socket, and the \<^verbatim>\<open>AsyncClient\<close>, which keeps its pending
  requests in a map and answers each on a channel of its own.

  The sockets are what the network does with them: the outcomes of the dials, sends and
  receives are arguments. Log output is left out.
\<close>

section \<open>Data\<close>

record ClientOptions =
  co_Timeout :: int
  co_Retries :: int
  co_LogErrors :: bool

definition DefaultClientOptions :: ClientOptions where
  "DefaultClientOptions = \<lparr>co_Timeout = 30 * 1000000000, co_Retries = 3, co_LogErrors = True\<rparr>"

text \<open>
  What happens to the \<open>i\<close>-th attempt: the error of \<^verbatim>\<open>Send\<close>; which of the three channels \<^verbatim>\<open>select\<close>
  chooses (a reply, an error of \<^verbatim>\<open>Recv\<close>, the timeout); and the error of the \<^verbatim>\<open>Dial\<close> that follows a
  failed attempt.
\<close>

datatype recv_outcome = Received frames | RecvFailed go_error | TimedOut

record client_net =
  send_err :: "nat \<Rightarrow> go_error option"
  recv_out :: "nat \<Rightarrow> recv_outcome"
  dial_err :: "nat \<Rightarrow> go_error option"

text \<open>
  Sockets are numbered in the order in which they are dialled; \<open>c_closed\<close> are those closed by the
  client, and \<open>c_sent\<close> the messages with the socket that carried them.
\<close>

record MdpClient =
  c_options :: ClientOptions
  c_running :: bool
  c_socket :: "nat option"
  c_dialled :: nat
  c_closed :: "nat set"
  c_cancelled :: bool
  c_attempts :: nat
  c_sent :: "(nat \<times> frames) list"
  c_totalRequests :: "64 word"
  c_totalReplies :: "64 word"
  c_totalErrors :: "64 word"

definition NewClient :: "ClientOptions option \<Rightarrow> MdpClient" where
  "NewClient options = \<lparr>c_options = (case options of None \<Rightarrow> DefaultClientOptions | Some o' \<Rightarrow> o'),
     c_running = False, c_socket = None, c_dialled = 0, c_closed = {}, c_cancelled = False, c_attempts = 0,
     c_sent = [], c_totalRequests = 0, c_totalReplies = 0, c_totalErrors = 0\<rparr>"

section \<open>The synchronous client\<close>

definition Connect :: "go_error option \<Rightarrow> MdpClient \<Rightarrow> unit result \<times> MdpClient" where
  "Connect err c =
     (if c_running c then (Err (Errorf ''mdp: client already connected''), c)
      else case err of
          Some e \<Rightarrow> (Err (Wrapf ''mdp: failed to connect to broker'' e), c\<lparr>c_dialled := c_dialled c + 1\<rparr>)
        | None \<Rightarrow> (Ok (), c\<lparr>c_socket := Some (c_dialled c), c_dialled := c_dialled c + 1, c_running := True\<rparr>))"

definition Disconnect :: "go_error option \<Rightarrow> MdpClient \<Rightarrow> unit result \<times> MdpClient" where
  "Disconnect err c =
     (if \<not> c_running c then (Err (Errorf ''mdp: client not connected''), c)
      else
        let c = c\<lparr>c_running := False, c_cancelled := True\<rparr> in
        case c_socket c of
          None \<Rightarrow> (Ok (), c)
        | Some s \<Rightarrow>
            let c = c\<lparr>c_closed := insert s (c_closed c)\<rparr> in
            (case err of Some e \<Rightarrow> (Err (Wrapf ''mdp: failed to close client socket'' e), c) | None \<Rightarrow> (Ok (), c)))"

definition client_processReply :: "int \<Rightarrow> frames \<Rightarrow> bytes \<Rightarrow> bytes result" where
  "client_processReply now fs expectedService =
     and_then (wrap_err ''mdp: invalid reply message'' (ParseClientMessage now fs)) (\<lambda>reply.
       if Service reply \<noteq> expectedService then Err (Errorf ''mdp: service mismatch in reply'')
       else Ok (Body reply))"

definition doRequest :: "client_net \<Rightarrow> int \<Rightarrow> bytes \<Rightarrow> bytes \<Rightarrow> MdpClient \<Rightarrow> bytes result \<times> MdpClient" where
  "doRequest net now service request c =
     (let i = c_attempts c; c = c\<lparr>c_attempts := i + 1\<rparr>;
          fs = FormatClientRequest (NewClientRequest now service request) in
      case c_socket c of
        None \<Rightarrow> (Panic ''invalid memory address or nil pointer dereference'', c)
      | Some s \<Rightarrow>
          (case send_err net i of
             Some e \<Rightarrow> (Err (Wrapf ''mdp: failed to send request'' e), c)
           | None \<Rightarrow>
               let c = c\<lparr>c_sent := c_sent c @ [(s, fs)]\<rparr> in
               (case recv_out net i of
                  Received reply \<Rightarrow> (client_processReply now reply service, c)
                | RecvFailed e \<Rightarrow> (Err (Wrapf ''mdp: failed to receive reply'' e), c)
                | TimedOut \<Rightarrow> (Err (Errorf ''mdp: request timeout''), c))))"

definition reconnect :: "go_error option \<Rightarrow> MdpClient \<Rightarrow> MdpClient" where
  "reconnect err c =
     (let c = (case c_socket c of Some s \<Rightarrow> c\<lparr>c_closed := insert s (c_closed c)\<rparr> | None \<Rightarrow> c);
          n = c_dialled c; c = c\<lparr>c_dialled := n + 1\<rparr> in
      case err of Some e \<Rightarrow> c | None \<Rightarrow> c\<lparr>c_socket := Some n\<rparr>)"

text \<open>The loop of \<^verbatim>\<open>Request\<close> with \<open>left\<close> attempts still to make.\<close>

fun request_loop ::
    "client_net \<Rightarrow> int \<Rightarrow> bytes \<Rightarrow> bytes \<Rightarrow> nat \<Rightarrow> go_error option \<Rightarrow> MdpClient \<Rightarrow> bytes result \<times> MdpClient" where
  "request_loop net now service request 0 lastErr c =
     (case lastErr of
        Some e \<Rightarrow> (Err (Wrapf ''mdp: request failed after attempts'' e), c)
      | None \<Rightarrow> (Err (Errorf ''mdp: request failed after attempts''), c))"
| "request_loop net now service request (Suc left) lastErr c =
     (let i = c_attempts c in
      case doRequest net now service request c of
        (Ok reply, c) \<Rightarrow>
          (Ok reply, c\<lparr>c_totalRequests := c_totalRequests c + 1, c_totalReplies := c_totalReplies c + 1\<rparr>)
      | (Panic m, c) \<Rightarrow> (Panic m, c)
      | (Err e, c) \<Rightarrow>
          let c = c\<lparr>c_totalErrors := c_totalErrors c + 1\<rparr>;
              c = (if left > 0 then reconnect (dial_err net i) c else c) in
          request_loop net now service request left (Some e) c)"

definition Request :: "client_net \<Rightarrow> int \<Rightarrow> bytes \<Rightarrow> bytes \<Rightarrow> MdpClient \<Rightarrow> bytes result \<times> MdpClient" where
  "Request net now service request c =
     (if \<not> c_running c then (Err (Errorf ''mdp: client not connected''), c)
      else case wrap_err ''mdp'' (ServiceName_Validate service) of
          Err e \<Rightarrow> (Err e, c)
        | Panic m \<Rightarrow> (Panic m, c)
        | Ok _ \<Rightarrow> request_loop net now service request (nat (co_Retries (c_options c) + 1)) None c)"

section \<open>The asynchronous client\<close>

record AsyncReply =
  ar_Service :: bytes
  ar_Body :: bytes
  ar_Error :: "go_error option"

text \<open>
  A reply channel with one place: the values sent on it so far, how many of them have been
  received, and whether it is closed.
\<close>

record reply_chan =
  ch_sent :: "AsyncReply list"
  ch_taken :: nat
  ch_closed :: bool

record pendingRequest =
  pr_Service :: bytes
  pr_Body :: bytes
  pr_Timestamp :: int
  pr_ReplyCh :: nat

text \<open>
  Channels are references into \<open>a_chans\<close>; \<open>a_next\<close> is the next unused one. \<open>a_reply\<close> is the request
  that \<^verbatim>\<open>processReply\<close> has taken from the map and not answered yet, with the frames of the reply.
\<close>

record AsyncClient =
  a_options :: ClientOptions
  a_running :: bool
  a_stopped :: bool
  a_pending :: "bytes \<rightharpoonup> pendingRequest"
  a_requestID :: "64 word"
  a_chans :: "nat \<Rightarrow> reply_chan"
  a_next :: nat
  a_reply :: "(pendingRequest \<times> frames) option"
  a_sent :: "frames list"
  a_totalRequests :: "64 word"
  a_totalReplies :: "64 word"
  a_totalErrors :: "64 word"

definition new_chan :: reply_chan where
  "new_chan = \<lparr>ch_sent = [], ch_taken = 0, ch_closed = False\<rparr>"

definition NewAsyncClient :: "ClientOptions option \<Rightarrow> AsyncClient" where
  "NewAsyncClient options = \<lparr>a_options = (case options of None \<Rightarrow> DefaultClientOptions | Some o' \<Rightarrow> o'),
     a_running = False, a_stopped = False, a_pending = Map.empty, a_requestID = 0, a_chans = (\<lambda>_. new_chan),
     a_next = 0, a_reply = None, a_sent = [], a_totalRequests = 0, a_totalReplies = 0, a_totalErrors = 0\<rparr>"

text \<open>
  Sending one value on a channel and closing it. A send on a closed channel and a second close
  panic; a send that finds the place taken waits for the receiver (\<open>None\<close>).
\<close>

definition send_and_close :: "nat \<Rightarrow> AsyncReply \<Rightarrow> AsyncClient \<Rightarrow> AsyncClient result option" where
  "send_and_close r v c =
     (let ch = a_chans c r in
      if ch_closed ch then Some (Panic ''send on closed channel'')
      else if length (ch_sent ch) > ch_taken ch then None
      else Some (Ok (c\<lparr>a_chans := (a_chans c)(r := ch\<lparr>ch_sent := ch_sent ch @ [v], ch_closed := True\<rparr>)\<rparr>)))"

definition error_reply :: "go_error \<Rightarrow> AsyncReply" where
  "error_reply e = \<lparr>ar_Service = [], ar_Body = [], ar_Error = Some e\<rparr>"

definition async_Connect :: "go_error option \<Rightarrow> AsyncClient \<Rightarrow> unit result \<times> AsyncClient" where
  "async_Connect err c =
     (if a_running c then (Err (Errorf ''mdp: async client already connected''), c)
      else case err of
          Some e \<Rightarrow> (Err (Wrapf ''mdp: failed to connect to broker'' e), c)
        | None \<Rightarrow> (Ok (), c\<lparr>a_running := True\<rparr>))"

text \<open>A loop over the pending requests in the order \<open>keys\<close>, which stops at a panic or a wait.\<close>

fun over_pending ::
    "(bytes \<Rightarrow> pendingRequest \<Rightarrow> AsyncClient \<Rightarrow> AsyncClient result option) \<Rightarrow> bytes list \<Rightarrow> AsyncClient \<Rightarrow>
     AsyncClient result option" where
  "over_pending f [] c = Some (Ok c)"
| "over_pending f (k # ks) c =
     (case a_pending c k of
        None \<Rightarrow> over_pending f ks c
      | Some p \<Rightarrow>
          (case f k p c of
             None \<Rightarrow> None
           | Some (Ok c) \<Rightarrow> over_pending f ks c
           | Some (Err e) \<Rightarrow> Some (Err e)
           | Some (Panic m) \<Rightarrow> Some (Panic m)))"

definition async_Disconnect ::
    "bytes list \<Rightarrow> go_error option \<Rightarrow> AsyncClient \<Rightarrow> (unit result \<times> AsyncClient) result option" where
  "async_Disconnect keys err c =
     (if \<not> a_running c then Some (Ok (Err (Errorf ''mdp: async client not connected''), c))
      else
        let c = c\<lparr>a_running := False\<rparr> in
        if a_stopped c then Some (Panic ''close of closed channel'')
        else
          let c = c\<lparr>a_stopped := True\<rparr> in
          case err of
            Some e \<Rightarrow> Some (Ok (Err (Wrapf ''mdp: failed to close async client socket'' e), c))
          | None \<Rightarrow>
              (case over_pending (\<lambda>k p. send_and_close (pr_ReplyCh p) (error_reply (Errorf ''mdp: client disconnected'')))
                 keys c of
                 None \<Rightarrow> None
               | Some (Panic m) \<Rightarrow> Some (Panic m)
               | Some (Err e) \<Rightarrow> Some (Err e)
               | Some (Ok c) \<Rightarrow> Some (Ok (Ok (), c\<lparr>a_pending := Map.empty\<rparr>))))"

text \<open>\<open>err\<close> is the error of \<^verbatim>\<open>socket.Send\<close>; the result is the channel.\<close>

definition RequestAsync ::
    "int \<Rightarrow> go_error option \<Rightarrow> bytes \<Rightarrow> bytes \<Rightarrow> AsyncClient \<Rightarrow> nat result \<times> AsyncClient" where
  "RequestAsync now err service request c =
     (if \<not> a_running c then (Err (Errorf ''mdp: async client not connected''), c)
      else case wrap_err ''mdp'' (ServiceName_Validate service) of
          Err e \<Rightarrow> (Err e, c)
        | Panic m \<Rightarrow> (Panic m, c)
        | Ok _ \<Rightarrow>
            let c = c\<lparr>a_requestID := a_requestID c + 1\<rparr>;
                reqID = decimal (unat (a_requestID c));
                replyCh = a_next c;
                pending = \<lparr>pr_Service = service, pr_Body = request, pr_Timestamp = now, pr_ReplyCh = replyCh\<rparr>;
                c = c\<lparr>a_next := replyCh + 1, a_chans := (a_chans c)(replyCh := new_chan),
                      a_pending := (a_pending c)(reqID \<mapsto> pending)\<rparr>;
                allFrames = reqID # FormatClientRequest (NewClientRequest now service request) in
            (case err of
               Some e \<Rightarrow>
                 (Err (Wrapf ''mdp: failed to send async request'' e),
                  c\<lparr>a_pending := (a_pending c)(reqID := None),
                    a_chans := (a_chans c)(replyCh := (a_chans c replyCh)\<lparr>ch_closed := True\<rparr>)\<rparr>)
             | None \<Rightarrow>
                 (Ok replyCh, c\<lparr>a_sent := a_sent c @ [allFrames], a_totalRequests := a_totalRequests c + 1\<rparr>)))"

text \<open>
  \<^verbatim>\<open>processReply\<close> in its two critical parts: it takes the request out of the map under the lock,
  and answers it without the lock.
\<close>

definition processReply_take :: "frames \<Rightarrow> AsyncClient \<Rightarrow> AsyncClient" where
  "processReply_take fs c =
     (if length fs < 1 then c
      else case a_pending c (fs ! 0) of
          None \<Rightarrow> c
        | Some p \<Rightarrow> c\<lparr>a_pending := (a_pending c)(fs ! 0 := None), a_reply := Some (p, drop 1 fs)\<rparr>)"

definition processReply_answer :: "int \<Rightarrow> AsyncClient \<Rightarrow> AsyncClient result option" where
  "processReply_answer now c =
     (case a_reply c of
        None \<Rightarrow> Some (Ok c)
      | Some (p, fs) \<Rightarrow>
          let c = c\<lparr>a_reply := None\<rparr>;
              failed = (\<lambda>e. map_option (\<lambda>r. and_then r (\<lambda>c. Ok (c\<lparr>a_totalErrors := a_totalErrors c + 1\<rparr>)))
                 (send_and_close (pr_ReplyCh p) (error_reply e) c)) in
          (case ParseClientMessage now fs of
             Panic m \<Rightarrow> Some (Panic m)
           | Err e \<Rightarrow> failed (Wrapf ''mdp: invalid reply message'' e)
           | Ok reply \<Rightarrow>
               if Service reply \<noteq> pr_Service p then failed (Errorf ''mdp: service mismatch in reply'')
               else map_option (\<lambda>r. and_then r (\<lambda>c. Ok (c\<lparr>a_totalReplies := a_totalReplies c + 1\<rparr>)))
                 (send_and_close (pr_ReplyCh p)
                    \<lparr>ar_Service = Service reply, ar_Body = Body reply, ar_Error = None\<rparr> c)))"

definition async_cleanup :: "int \<Rightarrow> bytes list \<Rightarrow> AsyncClient \<Rightarrow> AsyncClient result option" where
  "async_cleanup now keys c =
     over_pending (\<lambda>k p c.
       if now - pr_Timestamp p > co_Timeout (a_options c) then
         map_option (\<lambda>r. and_then r (\<lambda>c. Ok (c\<lparr>a_pending := (a_pending c)(k := None), a_totalErrors := a_totalErrors c + 1\<rparr>)))
           (send_and_close (pr_ReplyCh p) (error_reply (Errorf ''mdp: request timeout'')) c)
       else Some (Ok c)) keys c"

text \<open>The caller receives from a channel that holds a value.\<close>

definition receive_reply :: "nat \<Rightarrow> AsyncClient \<Rightarrow> AsyncClient" where
  "receive_reply r c =
     (let ch = a_chans c r in
      if ch_taken ch < length (ch_sent ch) then c\<lparr>a_chans := (a_chans c)(r := ch\<lparr>ch_taken := ch_taken ch + 1\<rparr>)\<rparr> else c)"

section \<open>Runs of the asynchronous client\<close>

text \<open>
  The steps of the user, of the message loop and of the cleanup loop, in any order; \<open>issued\<close> are
  the channels returned to the user, with the service asked. The message loop takes a reply only
  after it has answered the one before.
\<close>

inductive async_run :: "(nat \<times> bytes) list \<Rightarrow> AsyncClient \<Rightarrow> bool" where
  new: "async_run [] (NewAsyncClient options)"
| connect: "async_run issued (snd (async_Connect err c))" if "async_run issued c" "\<not> a_stopped c"
| request: "async_run (issued @ [(r, service)]) c'"
    if "async_run issued c" "RequestAsync t err service body c = (Ok r, c')"
| request_failed: "async_run issued c'"
    if "async_run issued c" "RequestAsync t err service body c = (Err e, c')"
| take_reply: "async_run issued (processReply_take fs c)" if "async_run issued c" "a_reply c = None"
| answer: "async_run issued c'" if "async_run issued c" "processReply_answer t c = Some (Ok c')"
| clean: "async_run issued c'"
    if "async_run issued c" "distinct keys" "set keys = dom (a_pending c)" "async_cleanup t keys c = Some (Ok c')"
| disconnect: "async_run issued c'"
    if "async_run issued c" "distinct keys" "set keys = dom (a_pending c)"
      "async_Disconnect keys err c = Some (Ok (res, c'))"
| receive: "async_run issued (receive_reply r c)" if "async_run issued c"

section \<open>Lemmas: the retry loop\<close>

definition attempt :: "client_net \<Rightarrow> int \<Rightarrow> bytes \<Rightarrow> nat \<Rightarrow> bytes result" where
  "attempt net now service i =
     (case send_err net i of
        Some e \<Rightarrow> Err (Wrapf ''mdp: failed to send request'' e)
      | None \<Rightarrow>
          (case recv_out net i of
             Received reply \<Rightarrow> client_processReply now reply service
           | RecvFailed e \<Rightarrow> Err (Wrapf ''mdp: failed to receive reply'' e)
           | TimedOut \<Rightarrow> Err (Errorf ''mdp: request timeout'')))"

lemma client_processReply_no_panic: "client_processReply now fs s \<noteq> Panic m"
  using ParseClientMessage_no_panic [of now fs]
  by (cases "ParseClientMessage now fs") (auto simp: client_processReply_def)

lemma attempt_no_panic: "attempt net now service i \<noteq> Panic m"
  by (auto simp: attempt_def client_processReply_no_panic split: option.splits recv_outcome.splits)

lemma doRequest_eq:
  "c_socket c = Some s \<Longrightarrow> doRequest net now service request c =
     (attempt net now service (c_attempts c),
      c\<lparr>c_attempts := c_attempts c + 1, c_sent := c_sent c @
         (if send_err net (c_attempts c) = None then [(s, FormatClientRequest (NewClientRequest now service request))] else [])\<rparr>)"
  by (auto simp: doRequest_def attempt_def Let_def split: option.splits recv_outcome.splits)

lemma reconnect_frame [simp]:
  "c_attempts (reconnect err c) = c_attempts c" "c_sent (reconnect err c) = c_sent c"
  "c_totalRequests (reconnect err c) = c_totalRequests c" "c_totalReplies (reconnect err c) = c_totalReplies c"
  "c_totalErrors (reconnect err c) = c_totalErrors c" "c_socket (reconnect err c) = None \<longleftrightarrow> c_socket c = None \<and> err \<noteq> None"
  by (auto simp: reconnect_def Let_def split: option.splits)

text \<open>How a call of \<^verbatim>\<open>Request\<close> with at most \<open>n\<close> attempts ends.\<close>

definition retried :: "client_net \<Rightarrow> int \<Rightarrow> bytes \<Rightarrow> bytes \<Rightarrow> nat \<Rightarrow> MdpClient \<Rightarrow> bytes result \<times> MdpClient \<Rightarrow> bool" where
  "retried net now service request n c R \<longleftrightarrow> (case R of (res, c') \<Rightarrow>
     \<exists>k \<le> n. (\<forall>j < k. \<exists>e. attempt net now service (c_attempts c + j) = Err e) \<and>
       (\<exists>ss. length ss \<le> n \<and> c_sent c' = c_sent c @ map (\<lambda>s. (s, FormatClientRequest (NewClientRequest now service request))) ss) \<and>
       c_totalErrors c' = c_totalErrors c + of_nat k \<and>
       (if k < n
        then (\<exists>reply. res = Ok reply \<and> attempt net now service (c_attempts c + k) = Ok reply) \<and>
          c_attempts c' = c_attempts c + k + 1 \<and> c_totalReplies c' = c_totalReplies c + 1 \<and>
          c_totalRequests c' = c_totalRequests c + 1
        else (\<exists>e. res = Err e) \<and> c_attempts c' = c_attempts c + n \<and> c_totalReplies c' = c_totalReplies c \<and>
          c_totalRequests c' = c_totalRequests c))"

lemma retried_again:
  assumes "attempt net now service (c_attempts c) = Err e" "retried net now service request n c1 R"
    and c1: "c_attempts c1 = c_attempts c + 1" "c_totalErrors c1 = c_totalErrors c + 1" "c_totalReplies c1 = c_totalReplies c"
      "c_totalRequests c1 = c_totalRequests c"
      "c_sent c1 = c_sent c \<or> c_sent c1 = c_sent c @ [(s, FormatClientRequest (NewClientRequest now service request))]"
  shows "retried net now service request (Suc n) c R"
proof -
  obtain res c' where R: "R = (res, c')" by fastforce
  then obtain k ss where k: "k \<le> n" "\<forall>j < k. \<exists>e. attempt net now service (c_attempts c1 + j) = Err e"
    "length ss \<le> n" "c_sent c' = c_sent c1 @ map (\<lambda>s. (s, FormatClientRequest (NewClientRequest now service request))) ss"
    "c_totalErrors c' = c_totalErrors c1 + of_nat k"
    and fin: "if k < n
        then (\<exists>reply. res = Ok reply \<and> attempt net now service (c_attempts c1 + k) = Ok reply) \<and>
          c_attempts c' = c_attempts c1 + k + 1 \<and> c_totalReplies c' = c_totalReplies c1 + 1 \<and>
          c_totalRequests c' = c_totalRequests c1 + 1
        else (\<exists>e. res = Err e) \<and> c_attempts c' = c_attempts c1 + n \<and> c_totalReplies c' = c_totalReplies c1 \<and>
          c_totalRequests c' = c_totalRequests c1"
    using assms(2) by (auto simp: retried_def)
  have all: "\<forall>j < Suc k. \<exists>e. attempt net now service (c_attempts c + j) = Err e"
  proof (intro allI impI)
    fix j assume "j < Suc k"
    then show "\<exists>e. attempt net now service (c_attempts c + j) = Err e"
      using assms(1) k(2) c1(1) by (cases j) auto
  qed
  have sent: "\<exists>ss. length ss \<le> Suc n \<and> c_sent c' = c_sent c @ map (\<lambda>s. (s, FormatClientRequest (NewClientRequest now service request))) ss"
    using c1(5)
  proof
    assume "c_sent c1 = c_sent c"
    then show ?thesis using k(3,4) by (intro exI [of _ ss]) simp
  next
    assume "c_sent c1 = c_sent c @ [(s, FormatClientRequest (NewClientRequest now service request))]"
    then show ?thesis using k(3,4) by (intro exI [of _ "s # ss"]) simp
  qed
  show ?thesis
    unfolding retried_def R prod.case
    by (intro exI [of _ "Suc k"] conjI) (use k(1,5) all sent fin c1(1-4) in \<open>auto split: if_splits\<close>)
qed

lemma request_loop_retried:
  "c_socket c \<noteq> None \<Longrightarrow> retried net now service request n c (request_loop net now service request n lastErr c)"
proof (induction n arbitrary: lastErr c)
  case 0
  then show ?case by (auto simp: retried_def split: option.splits)
next
  case (Suc n)
  obtain s where s: "c_socket c = Some s" using Suc.prems by blast
  let ?a = "attempt net now service (c_attempts c)" and ?fs = "FormatClientRequest (NewClientRequest now service request)"
  let ?c = "c\<lparr>c_attempts := c_attempts c + 1, c_sent := c_sent c @
      (if send_err net (c_attempts c) = None then [(s, ?fs)] else [])\<rparr>"
  show ?case
  proof (cases ?a)
    case (Ok reply)
    have "request_loop net now service request (Suc n) lastErr c =
        (Ok reply, ?c\<lparr>c_totalRequests := c_totalRequests c + 1, c_totalReplies := c_totalReplies c + 1\<rparr>)"
      using Ok by (simp add: doRequest_eq [OF s])
    moreover have "send_err net (c_attempts c) = None" using Ok by (auto simp: attempt_def split: option.splits)
    ultimately show ?thesis using Ok by (auto simp: retried_def intro!: exI [of _ 0] exI [of _ "[s]"])
  next
    case (Err e)
    define c1 where "c1 = (if n > 0 then reconnect (dial_err net (c_attempts c)) (?c\<lparr>c_totalErrors := c_totalErrors c + 1\<rparr>)
      else ?c\<lparr>c_totalErrors := c_totalErrors c + 1\<rparr>)"
    have loop: "request_loop net now service request (Suc n) lastErr c = request_loop net now service request n (Some e) c1"
      using Err by (simp add: doRequest_eq [OF s] c1_def Let_def)
    have "c_socket (reconnect err c') \<noteq> None" if "c_socket c' = Some s" for err and c' :: MdpClient
      using that by simp
    then have "c_socket c1 \<noteq> None" by (simp add: c1_def s del: not_None_eq reconnect_frame(6))
    then have ret: "retried net now service request n c1 (request_loop net now service request n (Some e) c1)" by (rule Suc.IH)
    show ?thesis
      unfolding loop by (rule retried_again [OF Err ret, of s]) (auto simp: c1_def)
  next
    case (Panic m)
    then show ?thesis by (simp add: attempt_no_panic)
  qed
qed

section \<open>Lemmas: reply channels\<close>

fun decimal_value :: "nat \<Rightarrow> bytes \<Rightarrow> nat" where
  "decimal_value v [] = v"
| "decimal_value v (d # ds) = decimal_value (v * 10 + (unat d - 48)) ds"

lemma decimal_value_append: "decimal_value v (xs @ ys) = decimal_value (decimal_value v xs) ys"
  by (induction xs arbitrary: v) simp_all

lemma decimal_value_decimal: "decimal_value 0 (decimal n) = n"
proof (induction n rule: less_induct)
  case (less n)
  have digit: "unat (of_nat (48 + k) :: byte) = 48 + k" if "k < 10" for k
    using that by (simp only: unat_of_nat) simp
  show ?case
  proof (cases "n < 10")
    case True
    then show ?thesis using digit [OF True] by (simp add: decimal.simps)
  next
    case False
    then have "decimal n = decimal (n div 10) @ [of_nat (48 + n mod 10)]" by (subst decimal.simps) simp
    then show ?thesis using less [of "n div 10"] False digit [of "n mod 10"] by (simp add: decimal_value_append)
  qed
qed

lemma decimal_inj: "decimal m = decimal n \<longleftrightarrow> m = n"
  by (metis decimal_value_decimal)

lemma decimal_not_Nil: "decimal n \<noteq> []"
  by (subst decimal.simps) simp

definition outstanding :: "AsyncClient \<Rightarrow> pendingRequest set" where
  "outstanding c = ran (a_pending c) \<union> (case a_reply c of None \<Rightarrow> {} | Some (p, fs) \<Rightarrow> {p})"

definition async_inv :: "(nat \<times> bytes) list \<Rightarrow> AsyncClient \<Rightarrow> bool" where
  "async_inv issued c \<longleftrightarrow> a_requestID c = of_nat (a_next c) \<and> finite (dom (a_pending c)) \<and>
     (\<forall>k p. a_pending c k = Some p \<longrightarrow> k = decimal (pr_ReplyCh p + 1) \<and>
        (\<forall>q fs. a_reply c = Some (q, fs) \<longrightarrow> pr_ReplyCh q \<noteq> pr_ReplyCh p)) \<and>
     (\<forall>p \<in> outstanding c. pr_ReplyCh p < a_next c \<and> a_chans c (pr_ReplyCh p) = new_chan) \<and>
     (\<forall>r s. (r, s) \<in> set issued \<longrightarrow> r < a_next c \<and>
        ((\<exists>p \<in> outstanding c. pr_ReplyCh p = r \<and> pr_Service p = s) \<or>
         ch_closed (a_chans c r) \<and> (\<exists>v. ch_sent (a_chans c r) = [v] \<and> (ar_Error v = None \<longrightarrow> ar_Service v = s))))"

lemma async_inv_chan:
  assumes "async_inv issued c" "a_pending c' = a_pending c" "a_reply c' = a_reply c" "a_chans c' = a_chans c"
    "a_next c' = a_next c" "a_requestID c' = a_requestID c"
  shows "async_inv issued c'"
  using assms by (simp add: async_inv_def outstanding_def)

lemma send_new: "a_chans c r = new_chan \<Longrightarrow>
    send_and_close r v c = Some (Ok (c\<lparr>a_chans := (a_chans c)(r := \<lparr>ch_sent = [v], ch_taken = 0, ch_closed = True\<rparr>)\<rparr>))"
  by (simp add: send_and_close_def new_chan_def)

lemma pending_outstanding: "a_pending c k = Some p \<Longrightarrow> p \<in> outstanding c"
  by (auto simp: outstanding_def ran_def)

lemma pending_chans_distinct:
  "async_inv issued c \<Longrightarrow> a_pending c k = Some p \<Longrightarrow> a_pending c k' = Some p' \<Longrightarrow> pr_ReplyCh p = pr_ReplyCh p' \<Longrightarrow> k = k'"
  unfolding async_inv_def by metis

text \<open>Answering an outstanding request, which is then no longer outstanding.\<close>

lemma async_inv_close:
  assumes inv: "async_inv issued c" and p: "p \<in> outstanding c"
    and out: "outstanding c = insert p (outstanding c')" and other: "\<forall>q \<in> outstanding c'. pr_ReplyCh q \<noteq> pr_ReplyCh p"
    and c': "a_next c' = a_next c" "a_requestID c' = a_requestID c" "a_pending c' \<subseteq>\<^sub>m a_pending c"
      "a_reply c' = a_reply c \<or> a_reply c' = None"
      "a_chans c' = (a_chans c)(pr_ReplyCh p := \<lparr>ch_sent = [v], ch_taken = 0, ch_closed = True\<rparr>)"
    and v: "ar_Error v = None \<longrightarrow> ar_Service v = pr_Service p"
  shows "async_inv issued c'"
proof -
  have "r < a_next c' \<and> ((\<exists>p \<in> outstanding c'. pr_ReplyCh p = r \<and> pr_Service p = s) \<or>
         ch_closed (a_chans c' r) \<and> (\<exists>v. ch_sent (a_chans c' r) = [v] \<and> (ar_Error v = None \<longrightarrow> ar_Service v = s)))"
    if "(r, s) \<in> set issued" for r s
  proof -
    have old: "r < a_next c" "(\<exists>p \<in> outstanding c. pr_ReplyCh p = r \<and> pr_Service p = s) \<or>
         ch_closed (a_chans c r) \<and> (\<exists>v. ch_sent (a_chans c r) = [v] \<and> (ar_Error v = None \<longrightarrow> ar_Service v = s))"
      using inv that unfolding async_inv_def by blast+
    have "a_chans c (pr_ReplyCh p) = new_chan" using inv p unfolding async_inv_def by blast
    then have open_p: "\<not> ch_closed (a_chans c (pr_ReplyCh p))" by (simp add: new_chan_def)
    show ?thesis
    proof (cases "r = pr_ReplyCh p")
      case True
      then obtain p' where p': "p' \<in> outstanding c" "pr_ReplyCh p' = pr_ReplyCh p" "pr_Service p' = s" using old open_p by auto
      then have "p' = p" using out other by blast
      then show ?thesis using old(1) v p' True c' by simp
    next
      case False
      then show ?thesis using old c' unfolding out by auto
    qed
  qed
  moreover have "\<forall>q \<in> outstanding c'. pr_ReplyCh q < a_next c' \<and> a_chans c' (pr_ReplyCh q) = new_chan"
    using inv other c' unfolding async_inv_def out by simp
  moreover have pend: "a_pending c k' = Some q" if "a_pending c' k' = Some q" for k' q
    using c'(3) that unfolding map_le_def by (metis domI)
  have "\<forall>k' q. a_pending c' k' = Some q \<longrightarrow> k' = decimal (pr_ReplyCh q + 1) \<and>
        (\<forall>q' fs. a_reply c' = Some (q', fs) \<longrightarrow> pr_ReplyCh q' \<noteq> pr_ReplyCh q)"
    using inv c'(4) pend unfolding async_inv_def by (metis option.distinct(1))
  moreover have "a_requestID c' = of_nat (a_next c')" using inv c' by (simp add: async_inv_def)
  moreover have "finite (dom (a_pending c'))"
    using inv map_le_implies_dom_le [OF c'(3)] finite_subset unfolding async_inv_def by blast
  ultimately show ?thesis unfolding async_inv_def by blast
qed

lemma async_inv_answered:
  assumes inv: "async_inv issued c" and p: "a_pending c k = Some p" and v: "ar_Error v = None \<longrightarrow> ar_Service v = pr_Service p"
  shows "async_inv issued (c\<lparr>a_chans := (a_chans c)(pr_ReplyCh p := \<lparr>ch_sent = [v], ch_taken = 0, ch_closed = True\<rparr>),
    a_pending := (a_pending c)(k := None)\<rparr>)" (is "async_inv issued ?c")
proof (rule async_inv_close [OF inv pending_outstanding [OF p], where v = v])
  have "((a_pending c)(k := None))(k \<mapsto> p) = a_pending c" using p by (auto simp: fun_eq_iff)
  then have "ran (a_pending c) = insert p (ran (a_pending ?c))"
    using ran_map_upd [of "(a_pending c)(k := None)" k p] by simp
  then show "outstanding c = insert p (outstanding ?c)" by (auto simp: outstanding_def)
  show "\<forall>q \<in> outstanding ?c. pr_ReplyCh q \<noteq> pr_ReplyCh p"
  proof
    fix q assume q: "q \<in> outstanding ?c"
    consider k' where "k' \<noteq> k" "a_pending c k' = Some q" | fs where "a_reply c = Some (q, fs)"
      using q by (auto simp: outstanding_def ran_def split: option.splits if_splits)
    then show "pr_ReplyCh q \<noteq> pr_ReplyCh p"
    proof cases
      case 1
      then show ?thesis using pending_chans_distinct [OF inv p 1(2)] by auto
    next
      case 2
      then show ?thesis using inv p unfolding async_inv_def by blast
    qed
  qed
qed (use v in \<open>auto simp: map_le_def\<close>)

lemma async_inv_replied:
  assumes inv: "async_inv issued c" and r: "a_reply c = Some (p, fs)" and v: "ar_Error v = None \<longrightarrow> ar_Service v = pr_Service p"
  shows "async_inv issued (c\<lparr>a_reply := None, a_chans := (a_chans c)(pr_ReplyCh p := \<lparr>ch_sent = [v], ch_taken = 0, ch_closed = True\<rparr>)\<rparr>)"
    (is "async_inv issued ?c")
proof (rule async_inv_close [OF inv, where v = v])
  show "p \<in> outstanding c" "outstanding c = insert p (outstanding ?c)" using r by (simp_all add: outstanding_def)
  show "\<forall>q \<in> outstanding ?c. pr_ReplyCh q \<noteq> pr_ReplyCh p"
    using inv r unfolding async_inv_def by (fastforce simp: outstanding_def ran_def)
qed (use v in auto)

section \<open>Lemmas: runs of the asynchronous client\<close>

lemma over_pending_ok:
  assumes "\<And>D k p c. I D c \<Longrightarrow> k \<notin> D \<Longrightarrow> a_pending c k = Some p \<Longrightarrow> \<exists>c'. f k p c = Some (Ok c') \<and> I (insert k D) c'"
    and "\<And>D k c. I D c \<Longrightarrow> a_pending c k = None \<Longrightarrow> I (insert k D) c"
  shows "I D c \<Longrightarrow> distinct ks \<Longrightarrow> set ks \<inter> D = {} \<Longrightarrow> \<exists>c'. over_pending f ks c = Some (Ok c') \<and> I (D \<union> set ks) c'"
proof (induction ks arbitrary: D c)
  case (Cons k ks)
  have ks: "distinct ks" "set ks \<inter> insert k D = {}" "k \<notin> D" using Cons.prems by auto
  show ?case
  proof (cases "a_pending c k")
    case None
    then show ?thesis using Cons.IH [OF assms(2) [OF Cons.prems(1) None] ks(1,2)] by simp
  next
    case (Some p)
    obtain c' where c': "f k p c = Some (Ok c')" "I (insert k D) c'" using assms(1) [OF Cons.prems(1) ks(3) Some] by blast
    then show ?thesis using Cons.IH [OF c'(2) ks(1,2)] Some by simp
  qed
qed simp

lemma cleanup_runs:
  assumes "async_inv issued c" "distinct keys"
  shows "\<exists>c'. async_cleanup t keys c = Some (Ok c') \<and> async_inv issued c' \<and> a_next c' = a_next c \<and>
    a_running c' = a_running c \<and> a_stopped c' = a_stopped c"
proof -
  let ?I = "\<lambda>D :: bytes set. \<lambda>c'. async_inv issued c' \<and> a_next c' = a_next c \<and> a_running c' = a_running c \<and> a_stopped c' = a_stopped c"
  have "\<exists>c'. async_cleanup t keys c = Some (Ok c') \<and> ?I ({} \<union> set keys) c'"
    unfolding async_cleanup_def
  proof (rule over_pending_ok)
    fix D :: "bytes set" and k p c1 assume I: "?I D c1" and p: "a_pending c1 k = Some p"
    have new: "a_chans c1 (pr_ReplyCh p) = new_chan" using I pending_outstanding [OF p] unfolding async_inv_def by blast
    let ?v = "error_reply (Errorf ''mdp: request timeout'')"
    have "async_inv issued (c1\<lparr>a_chans := (a_chans c1)(pr_ReplyCh p := \<lparr>ch_sent = [?v], ch_taken = 0, ch_closed = True\<rparr>),
        a_pending := (a_pending c1)(k := None)\<rparr>)" (is "async_inv issued ?c2")
      using I by (intro async_inv_answered [OF _ p]) (simp_all add: error_reply_def)
    then have "?I (insert k D) (?c2\<lparr>a_totalErrors := a_totalErrors c1 + 1\<rparr>)"
      using I by (auto intro: async_inv_chan)
    then show "\<exists>c'. (if t - pr_Timestamp p > co_Timeout (a_options c1) then
         map_option (\<lambda>r. and_then r (\<lambda>c. Ok (c\<lparr>a_pending := (a_pending c)(k := None), a_totalErrors := a_totalErrors c + 1\<rparr>)))
           (send_and_close (pr_ReplyCh p) ?v c1) else Some (Ok c1)) = Some (Ok c') \<and> ?I (insert k D) c'"
      using I by (auto simp: send_new [OF new])
  qed (use assms in auto)
  then show ?thesis by blast
qed

lemma disconnect_loop:
  assumes "async_inv issued c" "distinct keys" "set keys = dom (a_pending c)"
  shows "\<exists>c'. over_pending (\<lambda>k p. send_and_close (pr_ReplyCh p) (error_reply e)) keys c = Some (Ok c') \<and>
    async_inv issued (c'\<lparr>a_pending := Map.empty\<rparr>) \<and> a_next c' = a_next c \<and> a_running c' = a_running c \<and> a_stopped c' = a_stopped c"
proof -
  let ?I = "\<lambda>D c'. async_inv issued (c'\<lparr>a_pending := (a_pending c') |` (- D)\<rparr>) \<and> a_next c' = a_next c \<and>
    a_running c' = a_running c \<and> a_stopped c' = a_stopped c \<and> a_pending c' = a_pending c"
  have "\<exists>c'. over_pending (\<lambda>k p. send_and_close (pr_ReplyCh p) (error_reply e)) keys c = Some (Ok c') \<and> ?I ({} \<union> set keys) c'"
  proof (rule over_pending_ok)
    fix D k p c1 assume I: "?I D c1" and k: "k \<notin> D" and p: "a_pending c1 k = Some p"
    let ?d = "c1\<lparr>a_pending := (a_pending c1) |` (- D)\<rparr>" and ?v = "error_reply e"
    have pd: "a_pending ?d k = Some p" using p k by (simp add: restrict_map_def)
    have inv: "async_inv issued ?d" by (rule conjunct1 [OF I])
    have "a_chans ?d (pr_ReplyCh p) = new_chan" using inv pending_outstanding [OF pd] unfolding async_inv_def by blast
    then have new: "a_chans c1 (pr_ReplyCh p) = new_chan" by simp
    let ?c2 = "c1\<lparr>a_chans := (a_chans c1)(pr_ReplyCh p := \<lparr>ch_sent = [?v], ch_taken = 0, ch_closed = True\<rparr>)\<rparr>"
    have "((a_pending c1) |` (- D))(k := None) = (a_pending c1) |` (- insert k D)" by (auto simp: restrict_map_def)
    then have "async_inv issued (?c2\<lparr>a_pending := (a_pending ?c2) |` (- insert k D)\<rparr>)"
      using async_inv_answered [OF inv pd, of ?v] by (simp add: error_reply_def)
    then show "\<exists>c'. send_and_close (pr_ReplyCh p) ?v c1 = Some (Ok c') \<and> ?I (insert k D) c'"
      using I by (simp add: send_new [OF new])
  next
    fix D k c1 assume I: "?I D c1" and k: "a_pending c1 k = None"
    have eq: "(a_pending c1) |` (- insert k D) = (a_pending c1) |` (- D)" using k by (auto simp: restrict_map_def)
    show "?I (insert k D) c1" unfolding eq by (rule I)
  qed (use assms in auto)
  moreover have "(a_pending c) |` (- set keys) = Map.empty" using assms(3) by (auto simp: restrict_map_def)
  ultimately show ?thesis by auto
qed

lemma answer_runs:
  assumes "async_inv issued c"
  shows "\<exists>c'. processReply_answer t c = Some (Ok c') \<and> async_inv issued c' \<and> a_next c' = a_next c \<and>
    a_running c' = a_running c \<and> a_stopped c' = a_stopped c"
proof (cases "a_reply c")
  case None
  then show ?thesis using assms by (simp add: processReply_answer_def)
next
  case (Some pf)
  obtain p fs where pf: "a_reply c = Some (p, fs)" using Some by (cases pf) simp
  have "p \<in> outstanding c" using pf by (simp add: outstanding_def)
  then have "a_chans (c\<lparr>a_reply := None\<rparr>) (pr_ReplyCh p) = new_chan" using assms unfolding async_inv_def by simp
  note send = send_new [OF this]
  have inv: "async_inv issued c'" if "ar_Error v = None \<longrightarrow> ar_Service v = pr_Service p" "a_pending c' = a_pending c"
    "a_reply c' = None" "a_next c' = a_next c" "a_requestID c' = a_requestID c"
    "a_chans c' = (a_chans c)(pr_ReplyCh p := \<lparr>ch_sent = [v], ch_taken = 0, ch_closed = True\<rparr>)" for v c'
    by (rule async_inv_chan [OF async_inv_replied [OF assms pf that(1)]]) (use that in simp_all)
  show ?thesis
  proof (cases "ParseClientMessage t fs")
    case (Ok reply)
    show ?thesis
    proof (cases "Service reply = pr_Service p")
      case True
      then show ?thesis
        by (simp add: processReply_answer_def pf Let_def send Ok
            inv [where v = "\<lparr>ar_Service = Service reply, ar_Body = Body reply, ar_Error = None\<rparr>"])
    next
      case False
      then show ?thesis
        by (simp add: processReply_answer_def pf Let_def send Ok
            inv [where v = "error_reply (Errorf ''mdp: service mismatch in reply'')"] error_reply_def)
    qed
  next
    case (Err e)
    then show ?thesis
      by (simp add: processReply_answer_def pf Let_def send
          inv [where v = "error_reply (Wrapf ''mdp: invalid reply message'' e)"] error_reply_def)
  next
    case (Panic m)
    then show ?thesis by (simp add: ParseClientMessage_no_panic)
  qed
qed

lemma async_request_inv:
  assumes inv: "async_inv issued c" and n: "a_next c + 1 < 2 ^ 64" and r: "RequestAsync t err service body c = (res, c')"
  shows "async_inv (case res of Ok ch \<Rightarrow> issued @ [(ch, service)] | _ \<Rightarrow> issued) c' \<and> a_running c' = a_running c \<and> a_stopped c' = a_stopped c"
proof (cases "a_running c \<and> service \<noteq> [] \<and> length service \<le> 255")
  case False
  then have "\<not> a_running c \<or> (\<exists>e. wrap_err ''mdp'' (ServiceName_Validate service) = Err e)"
    by (auto simp: ServiceName_Validate_def)
  then have "c' = c \<and> (\<exists>e. res = Err e)" using r by (auto simp: RequestAsync_def split: if_splits)
  then show ?thesis using inv by auto
next
  case True
  define p where "p = \<lparr>pr_Service = service, pr_Body = body, pr_Timestamp = t, pr_ReplyCh = a_next c\<rparr>"
  let ?k = "decimal (a_next c + 1)"
  have id: "a_requestID c + 1 = of_nat (a_next c + 1)" using inv by (simp add: async_inv_def)
  have "unat (of_nat (a_next c + 1) :: 64 word) = a_next c + 1" using n by (simp only: unat_of_nat) simp
  then have k: "decimal (unat (a_requestID c + 1)) = ?k" unfolding id by simp
  have old: "\<forall>q \<in> outstanding c. pr_ReplyCh q < a_next c" using inv by (simp add: async_inv_def)
  have none: "a_pending c ?k = None"
  proof (rule ccontr)
    assume "a_pending c ?k \<noteq> None"
    then obtain q where q: "a_pending c ?k = Some q" by blast
    then have "?k = decimal (pr_ReplyCh q + 1)" using inv unfolding async_inv_def by blast
    then have "a_next c = pr_ReplyCh q" by (simp add: decimal_inj)
    then show False using old pending_outstanding [OF q] by force
  qed
  show ?thesis
  proof (cases err)
    case (Some e)
    let ?ch = "(a_chans c)(a_next c := new_chan\<lparr>ch_closed := True\<rparr>)"
    have c': "res = Err (Wrapf ''mdp: failed to send async request'' e)" "a_pending c' = a_pending c" "a_reply c' = a_reply c"
      "a_next c' = a_next c + 1" "a_requestID c' = of_nat (a_next c')" "a_chans c' = ?ch" "a_running c' = a_running c" "a_stopped c' = a_stopped c"
      using r True Some none k id by (auto simp: RequestAsync_def ServiceName_Validate_def Let_def fun_upd_idem)
    have out: "outstanding c' = outstanding c" using c' by (simp add: outstanding_def)
    have "\<forall>q \<in> outstanding c'. pr_ReplyCh q < a_next c' \<and> a_chans c' (pr_ReplyCh q) = new_chan"
      using inv c' old unfolding async_inv_def out by auto
    moreover have "ch < a_next c' \<and> ((\<exists>p \<in> outstanding c'. pr_ReplyCh p = ch \<and> pr_Service p = s) \<or>
         ch_closed (a_chans c' ch) \<and> (\<exists>v. ch_sent (a_chans c' ch) = [v] \<and> (ar_Error v = None \<longrightarrow> ar_Service v = s)))"
      if "(ch, s) \<in> set issued" for ch s
    proof -
      have "ch < a_next c" "(\<exists>p \<in> outstanding c. pr_ReplyCh p = ch \<and> pr_Service p = s) \<or>
         ch_closed (a_chans c ch) \<and> (\<exists>v. ch_sent (a_chans c ch) = [v] \<and> (ar_Error v = None \<longrightarrow> ar_Service v = s))"
        using inv that unfolding async_inv_def by blast+
      then show ?thesis unfolding out c'(4,6) by simp
    qed
    moreover have "\<forall>k' q. a_pending c' k' = Some q \<longrightarrow> k' = decimal (pr_ReplyCh q + 1) \<and>
        (\<forall>q' fs. a_reply c' = Some (q', fs) \<longrightarrow> pr_ReplyCh q' \<noteq> pr_ReplyCh q)"
      using inv unfolding async_inv_def c'(2,3) by blast
    moreover have "finite (dom (a_pending c'))" using inv unfolding async_inv_def c'(2) by blast
    ultimately have "async_inv issued c'" using c'(5) unfolding async_inv_def by blast
    then show ?thesis using c'(1,7,8) by simp
  next
    case None
    have c': "res = Ok (a_next c)" "a_pending c' = (a_pending c)(?k \<mapsto> p)" "a_reply c' = a_reply c"
      "a_next c' = a_next c + 1" "a_requestID c' = of_nat (a_next c')" "a_chans c' = (a_chans c)(a_next c := new_chan)"
      "a_running c' = a_running c" "a_stopped c' = a_stopped c"
      using r True None k id by (auto simp: RequestAsync_def ServiceName_Validate_def Let_def p_def)
    have out: "outstanding c' = insert p (outstanding c)"
      using none c' by (auto simp: outstanding_def ran_map_upd)
    have p: "pr_ReplyCh p = a_next c" "pr_Service p = service" by (simp_all add: p_def)
    have "\<forall>k' q. a_pending c' k' = Some q \<longrightarrow> k' = decimal (pr_ReplyCh q + 1) \<and>
        (\<forall>q' fs. a_reply c' = Some (q', fs) \<longrightarrow> pr_ReplyCh q' \<noteq> pr_ReplyCh q)"
    proof (intro allI impI conjI)
      fix k' q assume q: "a_pending c' k' = Some q"
      show "k' = decimal (pr_ReplyCh q + 1)"
        using q inv c'(2) p(1) unfolding async_inv_def by (metis fun_upd_apply option.inject)
      fix q' fs assume q': "a_reply c' = Some (q', fs)"
      then have "q' \<in> outstanding c" using c'(3) by (simp add: outstanding_def)
      then have "pr_ReplyCh q' < a_next c" using old by blast
      then show "pr_ReplyCh q' \<noteq> pr_ReplyCh q"
        using q q' inv c'(2,3) p(1) unfolding async_inv_def by (metis fun_upd_apply less_irrefl option.inject)
    qed
    moreover have "\<forall>q \<in> outstanding c'. pr_ReplyCh q < a_next c' \<and> a_chans c' (pr_ReplyCh q) = new_chan"
      using inv c' p old unfolding async_inv_def out by auto
    moreover have "ch < a_next c' \<and> ((\<exists>p \<in> outstanding c'. pr_ReplyCh p = ch \<and> pr_Service p = s) \<or>
         ch_closed (a_chans c' ch) \<and> (\<exists>v. ch_sent (a_chans c' ch) = [v] \<and> (ar_Error v = None \<longrightarrow> ar_Service v = s)))"
      if "(ch, s) \<in> set (issued @ [(a_next c, service)])" for ch s
    proof (cases "(ch, s) \<in> set issued")
      case True
      then have "ch < a_next c" "(\<exists>p \<in> outstanding c. pr_ReplyCh p = ch \<and> pr_Service p = s) \<or>
         ch_closed (a_chans c ch) \<and> (\<exists>v. ch_sent (a_chans c ch) = [v] \<and> (ar_Error v = None \<longrightarrow> ar_Service v = s))"
        using inv unfolding async_inv_def by blast+
      then show ?thesis using c' unfolding out by auto
    next
      case False
      then show ?thesis using that c' p unfolding out by auto
    qed
    moreover have "finite (dom (a_pending c'))" using inv c' by (simp add: async_inv_def)
    ultimately have "async_inv (issued @ [(a_next c, service)]) c'"
      using c'(5) unfolding async_inv_def by blast
    then show ?thesis using c' by simp
  qed
qed

lemma receive_inv:
  assumes inv: "async_inv issued c"
  shows "async_inv issued (receive_reply r c)"
proof (cases "ch_taken (a_chans c r) < length (ch_sent (a_chans c r))")
  case False
  then show ?thesis using inv by (simp add: receive_reply_def)
next
  case True
  let ?c = "receive_reply r c"
  have c: "a_pending ?c = a_pending c" "a_reply ?c = a_reply c" "a_next ?c = a_next c" "a_requestID ?c = a_requestID c"
    "outstanding ?c = outstanding c"
    "\<And>x. ch_sent (a_chans ?c x) = ch_sent (a_chans c x)" "\<And>x. ch_closed (a_chans ?c x) = ch_closed (a_chans c x)"
    "\<And>x. x \<noteq> r \<Longrightarrow> a_chans ?c x = a_chans c x"
    by (simp_all add: receive_reply_def outstanding_def Let_def)
  have "a_chans ?c (pr_ReplyCh q) = new_chan" if "q \<in> outstanding c" for q
  proof -
    have "a_chans c (pr_ReplyCh q) = new_chan" using inv that unfolding async_inv_def by blast
    moreover have "pr_ReplyCh q \<noteq> r" using True calculation by (auto simp: new_chan_def)
    ultimately show ?thesis using c(8) by simp
  qed
  then show ?thesis using inv unfolding async_inv_def c by blast
qed

lemma take_inv:
  assumes inv: "async_inv issued c" and "a_reply c = None"
  shows "async_inv issued (processReply_take fs c)"
proof (cases "fs = [] \<or> a_pending c (fs ! 0) = None")
  case True
  then show ?thesis using inv by (auto simp: processReply_take_def)
next
  case False
  then obtain p where p: "a_pending c (fs ! 0) = Some p" and fs: "fs \<noteq> []" by auto
  let ?k = "fs ! 0" and ?c = "processReply_take fs c"
  have c: "a_pending ?c = (a_pending c)(?k := None)" "a_reply ?c = Some (p, drop 1 fs)" "a_next ?c = a_next c"
    "a_requestID ?c = a_requestID c" "a_chans ?c = a_chans c"
    using fs p by (simp_all add: processReply_take_def)
  have "((a_pending c)(?k := None))(?k \<mapsto> p) = a_pending c" using p by (auto simp: fun_eq_iff)
  then have "ran (a_pending c) = insert p (ran (a_pending ?c))"
    using ran_map_upd [of "(a_pending c)(?k := None)" ?k p] c(1) by simp
  then have out: "outstanding ?c = outstanding c" using assms(2) c(2) by (simp add: outstanding_def)
  have "\<forall>k q. a_pending ?c k = Some q \<longrightarrow> k = decimal (pr_ReplyCh q + 1) \<and>
        (\<forall>q' fs'. a_reply ?c = Some (q', fs') \<longrightarrow> pr_ReplyCh q' \<noteq> pr_ReplyCh q)"
  proof (intro allI impI conjI)
    fix k q assume q: "a_pending ?c k = Some q"
    then have kq: "k \<noteq> ?k" "a_pending c k = Some q" using c(1) by (auto split: if_splits)
    then show "k = decimal (pr_ReplyCh q + 1)" using inv unfolding async_inv_def by blast
    fix q' fs' assume "a_reply ?c = Some (q', fs')"
    then have "q' = p" using c(2) by simp
    then show "pr_ReplyCh q' \<noteq> pr_ReplyCh q" using pending_chans_distinct [OF inv p kq(2)] kq(1) by metis
  qed
  moreover have "finite (dom (a_pending ?c))" using inv c(1) by (simp add: async_inv_def)
  ultimately show ?thesis using inv unfolding async_inv_def c(3-5) out by blast
qed

lemma disconnect_inv:
  assumes inv: "async_inv issued c" and "distinct keys" "set keys = dom (a_pending c)" and "\<not> (a_running c \<and> a_stopped c)"
  shows "\<exists>res c'. async_Disconnect keys err c = Some (Ok (res, c')) \<and> async_inv issued c' \<and> a_next c' = a_next c \<and>
    \<not> (a_running c' \<and> a_stopped c')"
proof (cases "a_running c")
  case False
  then show ?thesis using inv by (simp add: async_Disconnect_def)
next
  case True
  let ?c = "c\<lparr>a_running := False, a_stopped := True\<rparr>"
  have inv': "async_inv issued ?c" by (rule async_inv_chan [OF inv]) simp_all
  show ?thesis
  proof (cases err)
    case (Some e)
    then show ?thesis using True assms(4) inv' by (simp add: async_Disconnect_def Let_def)
  next
    case None
    obtain c1 where c1: "over_pending (\<lambda>k p. send_and_close (pr_ReplyCh p) (error_reply (Errorf ''mdp: client disconnected''))) keys ?c = Some (Ok c1)"
      "async_inv issued (c1\<lparr>a_pending := Map.empty\<rparr>)" "a_next c1 = a_next ?c" "a_running c1 = a_running ?c"
      using disconnect_loop [OF inv' assms(2)] assms(3) by force
    then show ?thesis using True None assms(4) by (simp add: async_Disconnect_def Let_def)
  qed
qed

lemma over_pending_next:
  "over_pending f ks c = Some (Ok c') \<Longrightarrow> (\<And>k p c c'. f k p c = Some (Ok c') \<Longrightarrow> a_next c' = a_next c) \<Longrightarrow> a_next c' = a_next c"
  by (induction ks arbitrary: c) (auto split: option.splits result.splits)

lemma send_and_close_next: "send_and_close r v c = Some (Ok c') \<Longrightarrow> a_next c' = a_next c"
  by (auto simp: send_and_close_def Let_def split: if_splits)

lemma async_run_inv:
  "async_run issued c \<Longrightarrow> a_next c < 2 ^ 64 \<Longrightarrow> async_inv issued c \<and> \<not> (a_running c \<and> a_stopped c)"
proof (induction rule: async_run.induct)
  case (new options)
  then show ?case by (simp add: async_inv_def NewAsyncClient_def outstanding_def)
next
  case (connect issued c err)
  have "a_next (snd (async_Connect err c)) = a_next c" "a_stopped (snd (async_Connect err c)) = a_stopped c"
    by (auto simp: async_Connect_def split: option.splits)
  moreover have "async_inv issued c" using connect calculation by simp
  then have "async_inv issued (snd (async_Connect err c))"
    by (rule async_inv_chan) (auto simp: async_Connect_def split: option.splits)
  ultimately show ?case using connect.hyps by simp
next
  case (request issued c t err service body r c')
  have next_c: "a_next c' = a_next c + 1"
    using request.hyps(2) by (auto simp: RequestAsync_def Let_def split: if_splits result.splits option.splits)
  then have "a_next c < 2 ^ 64" "a_next c + 1 < 2 ^ 64" using request.prems by simp_all
  then show ?case using request.IH async_request_inv [OF _ _ request.hyps(2)] by fastforce
next
  case (request_failed issued c t err service body e c')
  have next_c: "a_next c' = a_next c + 1 \<or> c' = c"
    using request_failed.hyps(2) by (auto simp: RequestAsync_def Let_def split: if_splits result.splits option.splits)
  then show ?case
  proof
    assume "c' = c"
    then show ?thesis using request_failed by simp
  next
    assume "a_next c' = a_next c + 1"
    then have "a_next c < 2 ^ 64" "a_next c + 1 < 2 ^ 64" using request_failed.prems by simp_all
    then show ?thesis using request_failed.IH async_request_inv [OF _ _ request_failed.hyps(2)] by fastforce
  qed
next
  case (take_reply issued c fs)
  have "a_next (processReply_take fs c) = a_next c" "a_running (processReply_take fs c) = a_running c"
    "a_stopped (processReply_take fs c) = a_stopped c"
    by (auto simp: processReply_take_def split: option.splits)
  then show ?case using take_reply take_inv by simp
next
  case (answer issued c t c')
  have "a_next c' = a_next c"
    using answer.hyps(2)
    by (auto simp: processReply_answer_def send_and_close_def Let_def split: option.splits prod.splits result.splits if_splits)
  then show ?case using answer answer_runs [of issued c t] by auto
next
  case (clean issued c keys t c')
  have "a_next c' = a_next c"
    using clean.hyps(4) unfolding async_cleanup_def
    by (rule over_pending_next) (auto dest: send_and_close_next split: if_splits)
  then show ?case using clean cleanup_runs [of issued c keys t] by auto
next
  case (disconnect issued c keys err res c')
  have "a_next c' = a_next c"
    using disconnect.hyps(4)
    by (auto simp: async_Disconnect_def Let_def split: if_splits option.splits result.splits
        dest!: over_pending_next dest: send_and_close_next)
  then show ?case
    using disconnect disconnect_inv [OF _ disconnect.hyps(2,3), of issued err] by auto
next
  case (receive issued c r)
  have "a_next (receive_reply r c) = a_next c" "a_running (receive_reply r c) = a_running c" "a_stopped (receive_reply r c) = a_stopped c"
    by (simp_all add: receive_reply_def Let_def)
  then show ?case using receive receive_inv by simp
qed

section \<open>Theorems\<close>

text \<open>
  C27: An asynchronous request is answered exactly once. In every interleaving of the user, the
  message loop and the cleanup loop, with fewer than 2^64 requests and no new connection after
  \<^verbatim>\<open>Disconnect\<close>: the channel of a request that is still outstanding is open and empty, and the
  channel of any other request has been sent exactly one reply and closed; a reply without an
  error is for the service that was asked. Answering, cleaning up and disconnecting neither
  panic nor wait.
\<close>

theorem async_answers_once:
  assumes "async_run issued c" "a_next c < 2 ^ 64"
  shows "((r, service) \<in> set issued \<longrightarrow>
      (if \<exists>p \<in> outstanding c. pr_ReplyCh p = r
       then ch_sent (a_chans c r) = [] \<and> \<not> ch_closed (a_chans c r)
       else ch_closed (a_chans c r) \<and> (\<exists>v. ch_sent (a_chans c r) = [v] \<and> (ar_Error v = None \<longrightarrow> ar_Service v = service)))) \<and>
    (\<exists>c'. processReply_answer t c = Some (Ok c')) \<and>
    (distinct keys \<longrightarrow> set keys = dom (a_pending c) \<longrightarrow>
      (\<exists>c'. async_cleanup t keys c = Some (Ok c')) \<and> (\<exists>res c'. async_Disconnect keys err c = Some (Ok (res, c'))))"
proof (intro conjI impI)
  have inv: "async_inv issued c" and run: "\<not> (a_running c \<and> a_stopped c)" using async_run_inv [OF assms] by blast+
  show "\<exists>c'. processReply_answer t c = Some (Ok c')" using answer_runs [OF inv] by blast
  show "\<exists>c'. async_cleanup t keys c = Some (Ok c')" if "distinct keys" using cleanup_runs [OF inv that] by blast
  show "\<exists>res c'. async_Disconnect keys err c = Some (Ok (res, c'))" if "distinct keys" "set keys = dom (a_pending c)"
    using disconnect_inv [OF inv that run] by blast
  assume r: "(r, service) \<in> set issued"
  show "if \<exists>p \<in> outstanding c. pr_ReplyCh p = r
       then ch_sent (a_chans c r) = [] \<and> \<not> ch_closed (a_chans c r)
       else ch_closed (a_chans c r) \<and> (\<exists>v. ch_sent (a_chans c r) = [v] \<and> (ar_Error v = None \<longrightarrow> ar_Service v = service))"
  proof (cases "\<exists>p \<in> outstanding c. pr_ReplyCh p = r")
    case True
    then have "a_chans c r = new_chan" using inv unfolding async_inv_def by blast
    then show ?thesis using True by (simp add: new_chan_def)
  next
    case False
    have "(\<exists>p \<in> outstanding c. pr_ReplyCh p = r \<and> pr_Service p = service) \<or>
         ch_closed (a_chans c r) \<and> (\<exists>v. ch_sent (a_chans c r) = [v] \<and> (ar_Error v = None \<longrightarrow> ar_Service v = service))"
      using inv r unfolding async_inv_def by blast
    then show ?thesis using False by (simp only: if_False) blast
  qed
qed

definition sample_async :: AsyncClient where
  "sample_async = snd (RequestAsync 0 None [101] [65] (snd (async_Connect None (NewAsyncClient None))))"

lemma sample_async_run: "async_run [(0, [101])] sample_async"
proof -
  let ?c = "snd (async_Connect None (NewAsyncClient None))"
  have run: "async_run [] ?c" by (rule async_run.connect [OF async_run.new]) (simp add: NewAsyncClient_def)
  have "RequestAsync 0 None [101] [65] ?c = (Ok 0, sample_async)"
    by (simp add: sample_async_def RequestAsync_def async_Connect_def NewAsyncClient_def ServiceName_Validate_def Let_def)
  from async_run.request [OF run this] show ?thesis by simp
qed

theorem async_answers_once_witness:
  "\<exists>c. async_run [(0, [101])] c \<and> outstanding c = {} \<and>
     ch_sent (a_chans c 0) = [\<lparr>ar_Service = [101], ar_Body = [66], ar_Error = None\<rparr>]"
proof -
  let ?fs = "decimal 1 # FormatClientReply (NewClientReply 0 [101] [66])"
  have pend: "a_pending sample_async = [decimal 1 \<mapsto> \<lparr>pr_Service = [101], pr_Body = [65], pr_Timestamp = 0, pr_ReplyCh = 0\<rparr>]"
    "a_reply sample_async = None" "a_next sample_async = 1" "a_chans sample_async 0 = new_chan"
    by (simp_all add: sample_async_def RequestAsync_def async_Connect_def NewAsyncClient_def ServiceName_Validate_def Let_def)
  define c1 where "c1 = processReply_take ?fs sample_async"
  have run1: "async_run [(0, [101])] c1"
    unfolding c1_def by (rule async_run.take_reply [OF sample_async_run pend(2)])
  have taken: "a_reply c1 =
      Some (\<lparr>pr_Service = [101], pr_Body = [65], pr_Timestamp = 0, pr_ReplyCh = 0\<rparr>, FormatClientReply (NewClientReply 0 [101] [66]))"
    "a_pending c1 = Map.empty" "a_next c1 = 1"
    "a_chans c1 0 = new_chan"
    using pend by (auto simp: processReply_take_def c1_def)
  have less: "a_next c1 < 2 ^ 64" using taken by simp
  obtain c where c: "processReply_answer 0 c1 = Some (Ok c)"
    using async_answers_once [OF run1 less] by blast
  have parse: "ParseClientMessage 0 (FormatClientReply (NewClientReply 0 [101] [66])) =
      Ok ((received_reply (NewClientReply 0 [101] [66]))\<lparr>Frames := FormatClientReply (NewClientReply 0 [101] [66]),
        RoutingEnvelope := [], Timestamp := 0\<rparr>)"
    by (rule reply.parse_fmt_plain) (simp_all add: NewClientReply_def zero_Message_def)
  let ?c = "c1\<lparr>a_reply := None\<rparr>"
  let ?v = "\<lparr>ar_Service = [101], ar_Body = [66], ar_Error = None\<rparr>"
  have "a_chans ?c 0 = new_chan" using taken(4) by simp
  note send = send_new [OF this]
  have fields: "Service (received_reply (NewClientReply 0 [101] [66])) = [101]" "Body (received_reply (NewClientReply 0 [101] [66])) = [66]"
    by (simp_all add: received_reply_def NewClientReply_def zero_Message_def)
  have "\<exists>c'. processReply_answer 0 c1 = Some (Ok c') \<and> a_reply c' = None \<and>
      a_pending c' = Map.empty \<and> ch_sent (a_chans c' 0) = [?v]"
    by (simp add: processReply_answer_def taken parse Let_def send fields)
  then have "a_reply c = None" "a_pending c = Map.empty" and sent: "ch_sent (a_chans c 0) = [?v]" using c by simp_all
  then have "outstanding c = {}" by (simp add: outstanding_def)
  then show ?thesis using async_run.answer [OF run1 c] sent by blast
qed

text \<open>
  A second life of an asynchronous client ends in a panic: \<^verbatim>\<open>Connect\<close> accepts a client that was
  disconnected, but \<^verbatim>\<open>stopCh\<close> is closed already and the next \<^verbatim>\<open>Disconnect\<close> closes it again.
\<close>

theorem async_reuse_panics:
  assumes "async_run issued c" "a_next c < 2 ^ 64" "a_running c" "distinct keys" "set keys = dom (a_pending c)"
  shows "\<exists>res c1. async_Disconnect keys None c = Some (Ok (res, c1)) \<and>
    fst (async_Connect None c1) = Ok () \<and>
    async_Disconnect keys' err (snd (async_Connect None c1)) = Some (Panic ''close of closed channel'')"
proof -
  have inv: "async_inv issued c" and run: "\<not> (a_running c \<and> a_stopped c)" using async_run_inv [OF assms(1,2)] by blast+
  let ?c = "c\<lparr>a_running := False, a_stopped := True\<rparr>"
  have inv': "async_inv issued ?c" by (rule async_inv_chan [OF inv]) simp_all
  obtain c1 where c1: "over_pending (\<lambda>k p. send_and_close (pr_ReplyCh p) (error_reply (Errorf ''mdp: client disconnected''))) keys ?c = Some (Ok c1)"
    "a_running c1 = a_running ?c" "a_stopped c1 = a_stopped ?c"
    using disconnect_loop [OF inv' assms(4)] assms(5) by force
  then show ?thesis using assms(3) run by (simp add: async_Disconnect_def async_Connect_def Let_def)
qed

text \<open>
  A request is retried until it succeeds. A connected client makes at most \<^verbatim>\<open>Retries\<close> + 1
  attempts, one after the other, and returns the reply of the first that succeeds; if none does
  it returns an error. Every message it sends is the request, at most one per attempt; failed
  attempts and answered requests are counted.
\<close>

theorem client_request_retries:
  assumes "c_running c" "c_socket c \<noteq> None" "service \<noteq> []" "length service \<le> 255" "n = nat (co_Retries (c_options c) + 1)"
  shows "\<exists>k res c' ss. Request net now service body c = (res, c') \<and> k \<le> n \<and>
    (\<forall>j < k. \<exists>e. attempt net now service (c_attempts c + j) = Err e) \<and>
    length ss \<le> n \<and> c_sent c' = c_sent c @ map (\<lambda>s. (s, FormatClientRequest (NewClientRequest now service body))) ss \<and>
    c_totalErrors c' = c_totalErrors c + of_nat k \<and>
    (if k < n
     then (\<exists>reply. res = Ok reply \<and> attempt net now service (c_attempts c + k) = Ok reply) \<and>
       c_attempts c' = c_attempts c + k + 1 \<and> c_totalReplies c' = c_totalReplies c + 1
     else (\<exists>e. res = Err e) \<and> c_attempts c' = c_attempts c + n \<and> c_totalReplies c' = c_totalReplies c)"
proof -
  obtain res c' where r: "Request net now service body c = (res, c')" by fastforce
  have "Request net now service body c = request_loop net now service body n None c"
    using assms by (simp add: Request_def ServiceName_Validate_def)
  then have "retried net now service body n c (res, c')" using request_loop_retried [OF assms(2)] r by metis
  then show ?thesis unfolding retried_def prod.case using r by (metis (no_types, lifting))
qed

theorem client_request_retries_witness:
  "\<exists>res c'. Request \<lparr>send_err = (\<lambda>_. None),
       recv_out = (\<lambda>i. if i = 0 then TimedOut else Received (FormatClientReply (NewClientReply 0 [101] [66]))), dial_err = (\<lambda>_. None)\<rparr>
     0 [101] [65] (snd (Connect None (NewClient None))) = (res, c') \<and> res = Ok [66] \<and> c_attempts c' = 2"
proof -
  let ?net = "\<lparr>send_err = (\<lambda>_. None),
       recv_out = (\<lambda>i. if i = 0 then TimedOut else Received (FormatClientReply (NewClientReply 0 [101] [66]))), dial_err = (\<lambda>_. None)\<rparr>"
  let ?c = "snd (Connect None (NewClient None))"
  have c: "c_running ?c" "c_socket ?c \<noteq> None" "4 = nat (co_Retries (c_options ?c) + 1)" "c_attempts ?c = 0"
    by (simp_all add: Connect_def NewClient_def DefaultClientOptions_def)
  have parse: "ParseClientMessage 0 (FormatClientReply (NewClientReply 0 [101] [66])) =
      Ok ((received_reply (NewClientReply 0 [101] [66]))\<lparr>Frames := FormatClientReply (NewClientReply 0 [101] [66]),
        RoutingEnvelope := [], Timestamp := 0\<rparr>)"
    by (rule reply.parse_fmt_plain) (simp_all add: NewClientReply_def zero_Message_def)
  have fields: "Service (received_reply (NewClientReply 0 [101] [66])) = [101]" "Body (received_reply (NewClientReply 0 [101] [66])) = [66]"
    by (simp_all add: received_reply_def NewClientReply_def zero_Message_def)
  have one: "attempt ?net 0 [101] (c_attempts ?c + Suc i) = Ok [66]" for i
    by (simp add: attempt_def client_processReply_def parse fields c(4))
  have zero: "\<exists>e. attempt ?net 0 [101] (c_attempts ?c) = Err e" by (simp add: attempt_def c(4))
  have svc: "[101] \<noteq> ([] :: bytes)" "length ([101] :: bytes) \<le> 255" by simp_all
  from client_request_retries [OF c(1,2) svc c(3), of ?net 0 "[65]"]
  obtain k res c' where k: "Request ?net 0 [101] [65] ?c = (res, c')" "k \<le> 4"
    "\<forall>j < k. \<exists>e. attempt ?net 0 [101] (c_attempts ?c + j) = Err e"
    "if k < 4 then (\<exists>reply. res = Ok reply \<and> attempt ?net 0 [101] (c_attempts ?c + k) = Ok reply) \<and>
       c_attempts c' = c_attempts ?c + k + 1 \<and> c_totalReplies c' = c_totalReplies ?c + 1
     else (\<exists>e. res = Err e) \<and> c_attempts c' = c_attempts ?c + 4 \<and> c_totalReplies c' = c_totalReplies ?c"
    by (elim exE conjE) (rule that)
  have "k = 1"
  proof (cases k)
    case 0
    then show ?thesis using k(4) zero by auto
  next
    case (Suc i)
    then show ?thesis using k(3) one [of 0] by (cases i) auto
  qed
  then show ?thesis using k(1,4) one [of 0] c(4) by auto
qed

end
