(* ===== verification/Mdp_Worker.thy ===== *)
theory Mdp_Worker
  imports Mdp_Broker "HOL-Library.State_Monad"
begin

text \<open>
  The Majordomo worker (\<^verbatim>\<open>majordomo/worker.go\<close>). Three goroutines share it: the state manager, which
  owns the state and is reached through buffered channels; a socket manager per session, which
  does all socket operations; and the worker loop, which processes the messages and the ticks.

  The operations are programs of the state monad over the record \<open>Worker\<close>. A state update is queued
  for the state manager, and dropped when the queue is full; how far the manager has got when it
  answers a query is a choice of the scheduler: \<open>w_choices\<close> lists the choices to come, \<open>None\<close> for a
  query that is not answered within 100 ms (or whose caller sees \<^verbatim>\<open>stopCh\<close> closed) and
  \<open>Some (n, k)\<close> for an answer after \<open>n\<close> of the queued state updates and \<open>k\<close> of the queued counter
  updates. When the list is exhausted the manager is prompt. The clock is \<open>w_now\<close>; log output is left
  out.
\<close>

section \<open>Data\<close>

record workerMessage =
  wm_command :: bytes
  wm_clientAddr :: bytes
  wm_body :: bytes

datatype stateUpdate =
    stateConnected
  | stateDisconnected
  | stateExpectReply bytes
  | stateReplyComplete
  | stateSetReplyTo
  | stateSetLiveness int
  | stateDecreaseLiveness
  | stateSetHeartbeatTime int
  | stateSetRunning bool
  | stateSetSocketReady bool
  | stateSetSocketClosed

datatype statsUpdate = statsIncRequests | statsIncReplies | statsIncErrors | statsIncReconnects

datatype queryType =
    queryIsConnected
  | queryIsRunning
  | queryGetStats
  | queryGetExpectReply
  | queryGetReplyTo
  | queryGetHeartbeatTime
  | queryGetLiveness
  | queryIsSocketReady

text \<open>
  What a configured security mechanism offers besides the handshake, asserted at run time: a check
  of its own, a flag, or neither. The answers may depend on the time.
\<close>

datatype worker_security =
    ValidateMessageReadiness "int \<Rightarrow> go_error option"
  | IsReady "int \<Rightarrow> bool"
  | NoReadiness

record WorkerOptions =
  wo_HeartbeatLiveness :: int
  wo_HeartbeatInterval :: int
  wo_ReconnectInterval :: int
  wo_Security :: "worker_security option"

definition DefaultWorkerOptions :: WorkerOptions where
  "DefaultWorkerOptions = \<lparr>wo_HeartbeatLiveness = DefaultHeartbeatLiveness,
     wo_HeartbeatInterval = DefaultHeartbeatInterval, wo_ReconnectInterval = 2500 * 1000000, wo_Security = None\<rparr>"

text \<open>The local variables of the state manager.\<close>

record stateVars =
  m_connected :: bool
  m_running :: bool
  m_expectReply :: bool
  m_replyTo :: bytes
  m_liveness :: int
  m_heartbeatAt :: int
  m_socketReady :: bool
  m_totalRequests :: "64 word"
  m_totalReplies :: "64 word"
  m_totalErrors :: "64 word"
  m_reconnects :: "64 word"

text \<open>
  Where the socket manager of a session is: at the head of its loop, in \<^verbatim>\<open>Recv\<close> on a socket, waiting
  for room in the \<^verbatim>\<open>recvCh\<close> of a session, or gone.
\<close>

datatype recv_result = RecvOk frames | RecvErr go_error

datatype sm_state = AtLoop | InRecv nat | Forwarding "64 word" frames | Gone

text \<open>Where a worker loop is: about to connect, in \<^verbatim>\<open>processMessages\<close> with its health check counter, or gone.\<close>

datatype loop_state = Connecting | Processing nat | Ended

record Worker =
  w_service :: bytes
  w_options :: WorkerOptions
  w_handler :: "bytes \<Rightarrow> bytes + bytes"
  w_state :: stateVars
  w_stateUpdateCh :: "stateUpdate list"
  w_statsUpdateCh :: "statsUpdate list"
  w_stateClosed :: bool
  w_stateStopped :: bool
  w_stopped :: bool
  w_cancelled :: bool
  w_socket :: "nat option"
  w_dialled :: nat
  w_closed :: "nat set"
  w_socketManagerID :: "64 word"
  w_managers :: "(64 word \<times> sm_state) list"
  w_socketDone :: "64 word set"
  w_sendCh :: "workerMessage list"
  w_recvCh :: "frames list"
  w_errorCh :: "go_error list"
  w_loops :: "loop_state list"
  w_sent :: "(nat \<times> frames) list"
  w_now :: int
  w_choices :: "(nat \<times> nat) option list"
  w_panic :: "string option"

type_synonym 'a prog = "(Worker, 'a) state"

text \<open>
  Nothing happens after a panic, which ends the process. \<open>modify\<close> and \<open>look\<close> are direct accesses to the
  struct; \<open>next_choice\<close> takes the next choice.
\<close>

definition modify :: "(Worker \<Rightarrow> Worker) \<Rightarrow> unit prog" where
  "modify f = State_Monad.update (\<lambda>w. if w_panic w = None then f w else w)"

definition look :: "(Worker \<Rightarrow> 'a) \<Rightarrow> 'a prog" where
  "look f = do { w \<leftarrow> State_Monad.get; State_Monad.return (f w) }"

definition go_panic :: "string \<Rightarrow> unit prog" where
  "go_panic m = modify (\<lambda>w. w\<lparr>w_panic := Some m\<rparr>)"

definition next_choice :: "(nat \<times> nat) option prog" where
  "next_choice = do {
     w \<leftarrow> State_Monad.get;
     (case w_choices w of
        [] \<Rightarrow> State_Monad.return (Some (length (w_stateUpdateCh w), length (w_statsUpdateCh w)))
      | x # xs \<Rightarrow> do { modify (\<lambda>w. w\<lparr>w_choices := xs\<rparr>); State_Monad.return x })
   }"

section \<open>The state manager\<close>

definition init_stateVars :: "WorkerOptions \<Rightarrow> int \<Rightarrow> stateVars" where
  "init_stateVars opts now = \<lparr>m_connected = False, m_running = False, m_expectReply = False, m_replyTo = [],
     m_liveness = wo_HeartbeatLiveness opts, m_heartbeatAt = now + wo_HeartbeatInterval opts, m_socketReady = False,
     m_totalRequests = 0, m_totalReplies = 0, m_totalErrors = 0, m_reconnects = 0\<rparr>"

fun apply_state :: "WorkerOptions \<Rightarrow> int \<Rightarrow> stateUpdate \<Rightarrow> stateVars \<Rightarrow> stateVars" where
  "apply_state opts now stateConnected m = m\<lparr>m_connected := True, m_liveness := wo_HeartbeatLiveness opts,
     m_heartbeatAt := now + wo_HeartbeatInterval opts\<rparr>"
| "apply_state opts now stateDisconnected m =
     m\<lparr>m_connected := False, m_socketReady := False, m_expectReply := False, m_replyTo := []\<rparr>"
| "apply_state opts now (stateExpectReply addr) m = m\<lparr>m_expectReply := True, m_replyTo := addr\<rparr>"
| "apply_state opts now stateReplyComplete m = m\<lparr>m_expectReply := False, m_replyTo := []\<rparr>"
| "apply_state opts now stateSetReplyTo m = m"
| "apply_state opts now (stateSetLiveness v) m = m\<lparr>m_liveness := v\<rparr>"
| "apply_state opts now stateDecreaseLiveness m = m\<lparr>m_liveness := m_liveness m - 1\<rparr>"
| "apply_state opts now (stateSetHeartbeatTime t) m = m\<lparr>m_heartbeatAt := t\<rparr>"
| "apply_state opts now (stateSetRunning b) m = m\<lparr>m_running := b\<rparr>"
| "apply_state opts now (stateSetSocketReady b) m = m\<lparr>m_socketReady := b\<rparr>"
| "apply_state opts now stateSetSocketClosed m = m\<lparr>m_socketReady := False\<rparr>"

fun apply_stats :: "statsUpdate \<Rightarrow> stateVars \<Rightarrow> stateVars" where
  "apply_stats statsIncRequests m = m\<lparr>m_totalRequests := m_totalRequests m + 1\<rparr>"
| "apply_stats statsIncReplies m = m\<lparr>m_totalReplies := m_totalReplies m + 1\<rparr>"
| "apply_stats statsIncErrors m = m\<lparr>m_totalErrors := m_totalErrors m + 1\<rparr>"
| "apply_stats statsIncReconnects m = m\<lparr>m_reconnects := m_reconnects m + 1\<rparr>"

text \<open>
  The values sent on a response channel. A \<^verbatim>\<open>nil\<close> slice in an interface is not the \<^verbatim>\<open>nil\<close> interface:
  an answer is never \<^verbatim>\<open>nil\<close>.
\<close>

datatype answer =
    ABool bool
  | ABytes bytes
  | ATime int
  | AInt int
  | AStats bytes "64 word" "64 word" "64 word" "64 word" bool bool int

fun answer_query :: "bytes \<Rightarrow> queryType \<Rightarrow> stateVars \<Rightarrow> answer" where
  "answer_query service queryIsConnected m = ABool (m_connected m)"
| "answer_query service queryIsRunning m = ABool (m_running m)"
| "answer_query service queryGetExpectReply m = ABool (m_expectReply m)"
| "answer_query service queryGetReplyTo m = ABytes (m_replyTo m)"
| "answer_query service queryGetHeartbeatTime m = ATime (m_heartbeatAt m)"
| "answer_query service queryGetLiveness m = AInt (m_liveness m)"
| "answer_query service queryIsSocketReady m = ABool (m_socketReady m)"
| "answer_query service queryGetStats m =
     AStats service (m_totalRequests m) (m_totalReplies m) (m_totalErrors m) (m_reconnects m)
       (m_connected m) (m_running m) (m_liveness m)"

text \<open>The manager takes \<open>n\<close> state updates and \<open>k\<close> counter updates from its channels.\<close>

definition manager_runs :: "nat \<Rightarrow> nat \<Rightarrow> Worker \<Rightarrow> Worker" where
  "manager_runs n k w =
     w\<lparr>w_state := fold apply_stats (take k (w_statsUpdateCh w))
         (fold (apply_state (w_options w) (w_now w)) (take n (w_stateUpdateCh w)) (w_state w)),
       w_stateUpdateCh := drop n (w_stateUpdateCh w), w_statsUpdateCh := drop k (w_statsUpdateCh w)\<rparr>"

definition updateState :: "stateUpdate \<Rightarrow> unit prog" where
  "updateState u = do {
     w \<leftarrow> State_Monad.get;
     chosen \<leftarrow> (if w_stopped w then next_choice else State_Monad.return (Some (0, 0)));
     if chosen = None then State_Monad.return ()
     else if w_stateClosed w then go_panic ''send on closed channel''
     else modify (\<lambda>w. if length (w_stateUpdateCh w) < 10
       then w\<lparr>w_stateUpdateCh := w_stateUpdateCh w @ [u]\<rparr> else w)
   }"

definition updateStats :: "statsUpdate \<Rightarrow> unit prog" where
  "updateStats u = do {
     w \<leftarrow> State_Monad.get;
     chosen \<leftarrow> (if w_stopped w then next_choice else State_Monad.return (Some (0, 0)));
     if chosen = None then State_Monad.return ()
     else modify (\<lambda>w. if length (w_statsUpdateCh w) < 10
       then w\<lparr>w_statsUpdateCh := w_statsUpdateCh w @ [u]\<rparr> else w)
   }"

text \<open>A manager that has returned answers nothing: the query times out.\<close>

definition queryState :: "queryType \<Rightarrow> answer option prog" where
  "queryState q = do {
     chosen \<leftarrow> next_choice;
     w \<leftarrow> State_Monad.get;
     if w_stateClosed w \<or> w_panic w \<noteq> None then State_Monad.return None
     else (case chosen of
        None \<Rightarrow> State_Monad.return None
      | Some (n, k) \<Rightarrow> do {
          modify (manager_runs n k);
          look (\<lambda>w. Some (answer_query (w_service w) q (w_state w)))
        })
   }"

text \<open>\<^verbatim>\<open>stopStateManager\<close>: the manager empties its channel and returns.\<close>

definition stopStateManager :: "unit prog" where
  "stopStateManager = modify (\<lambda>w. if w_stateStopped w then w
     else (manager_runs (length (w_stateUpdateCh w)) 0 w)\<lparr>w_stateStopped := True, w_stateClosed := True\<rparr>)"

definition GetStats :: "answer option prog" where
  "GetStats = queryState queryGetStats"

definition SetHandler :: "(bytes \<Rightarrow> bytes + bytes) option \<Rightarrow> unit result prog" where
  "SetHandler handler = (case handler of
       None \<Rightarrow> State_Monad.return (Err (Errorf ''mdp: request handler cannot be nil''))
     | Some h \<Rightarrow> do { modify (\<lambda>w. w\<lparr>w_handler := h\<rparr>); State_Monad.return (Ok ()) })"

definition IsConnected :: "bool prog" where
  "IsConnected = do { connected \<leftarrow> queryState queryIsConnected; State_Monad.return (connected = Some (ABool True)) }"

definition IsRunning :: "bool prog" where
  "IsRunning = do { running \<leftarrow> queryState queryIsRunning; State_Monad.return (running = Some (ABool True)) }"

section \<open>Creation and the socket channels\<close>

definition init_channels :: "Worker \<Rightarrow> Worker" where
  "init_channels w = w\<lparr>w_socketManagerID := w_socketManagerID w + 1, w_sendCh := [], w_recvCh := [], w_errorCh := []\<rparr>"

definition initSocketChannels :: "unit prog" where
  "initSocketChannels = modify init_channels"

definition NewWorker ::
    "int \<Rightarrow> bytes \<Rightarrow> (bytes \<Rightarrow> bytes + bytes) option \<Rightarrow> WorkerOptions option \<Rightarrow> Worker result" where
  "NewWorker now service handler options =
     and_then (wrap_err ''mdp'' (ServiceName_Validate service)) (\<lambda>_.
       case handler of
         None \<Rightarrow> Err (Errorf ''mdp: request handler cannot be nil'')
       | Some h \<Rightarrow>
           let options = (case options of None \<Rightarrow> DefaultWorkerOptions | Some o' \<Rightarrow> o') in
           Ok (init_channels \<lparr>w_service = service, w_options = options, w_handler = h,
             w_state = init_stateVars options now, w_stateUpdateCh = [], w_statsUpdateCh = [], w_stateClosed = False,
             w_stateStopped = False, w_stopped = False, w_cancelled = False, w_socket = None, w_dialled = 0, w_closed = {},
             w_socketManagerID = 0, w_managers = [], w_socketDone = {}, w_sendCh = [], w_recvCh = [], w_errorCh = [], w_loops = [],
             w_sent = [], w_now = now, w_choices = [], w_panic = None\<rparr>))"

text \<open>
  The end of a socket manager closes the \<^verbatim>\<open>socketDone\<close> of its session; two managers of one session
  close it twice.
\<close>

definition manager_exits :: "nat \<Rightarrow> unit prog" where
  "manager_exits i = do {
     w \<leftarrow> State_Monad.get;
     let session = fst (w_managers w ! i);
     modify (\<lambda>w. w\<lparr>w_managers := (w_managers w)[i := (session, Gone)], w_socketDone := insert session (w_socketDone w)\<rparr>);
     if session \<in> w_socketDone w then go_panic ''close of closed channel'' else State_Monad.return ()
   }"

text \<open>
  The signal on the unbuffered \<^verbatim>\<open>closeCh\<close>, never waiting for a receiver: only a manager that waits for
  room in the \<^verbatim>\<open>recvCh\<close> of the session receives it. Everywhere else the manager polls \<^verbatim>\<open>closeCh\<close>, and a
  poll and a send that do not wait never meet.
\<close>

fun waits_in :: "64 word \<Rightarrow> sm_state \<Rightarrow> bool" where
  "waits_in session (Forwarding s fs) = (s = session)"
| "waits_in session _ = False"

definition signal_close :: "unit prog" where
  "signal_close = do {
     w \<leftarrow> State_Monad.get;
     (case find (\<lambda>i. waits_in (w_socketManagerID w) (snd (w_managers w ! i))) [0..<length (w_managers w)] of
        None \<Rightarrow> State_Monad.return ()
      | Some i \<Rightarrow> manager_exits i)
   }"

text \<open>\<^verbatim>\<open>closeSocketChannels\<close> then waits for the manager, at most a second.\<close>

definition closeSocketChannels :: "unit prog" where
  "closeSocketChannels = signal_close"

definition close_socket :: "unit prog" where
  "close_socket = modify (\<lambda>w. case w_socket w of None \<Rightarrow> w
     | Some s \<Rightarrow> w\<lparr>w_socket := None, w_closed := insert s (w_closed w)\<rparr>)"

section \<open>Sending\<close>

definition sendToBroker :: "bytes \<Rightarrow> bytes \<Rightarrow> bytes \<Rightarrow> unit prog" where
  "sendToBroker command clientAddr body = do {
     socketReady \<leftarrow> queryState queryIsSocketReady;
     if socketReady \<noteq> Some (ABool True) then updateState stateDecreaseLiveness
     else do {
       let msg = \<lparr>wm_command = command, wm_clientAddr = clientAddr, wm_body = body\<rparr>;
       w \<leftarrow> State_Monad.get;
       chosen \<leftarrow> (if w_stopped w then next_choice else State_Monad.return (Some (0, 0)));
       if length (w_sendCh w) < 10 then
         (if chosen = None then State_Monad.return () else modify (\<lambda>w. w\<lparr>w_sendCh := w_sendCh w @ [msg]\<rparr>))
       else if w_stopped w then State_Monad.return ()
       else updateState stateDecreaseLiveness
     }
   }"

text \<open>\<open>err\<close> is the error of \<^verbatim>\<open>socket.Send\<close> on the socket \<open>s\<close>.\<close>

definition doSendToBroker :: "go_error option \<Rightarrow> nat \<Rightarrow> bytes \<Rightarrow> bytes \<Rightarrow> bytes \<Rightarrow> unit prog" where
  "doSendToBroker err s command clientAddr body = do {
     now \<leftarrow> look w_now;
     let msg = NewWorkerMessage now command clientAddr body;
     let msg = (if command = WorkerReady then msg\<lparr>Message.Service := body, Body := []\<rparr> else msg);
     let frames = FormatWorkerMessage msg;
     (case err of
        Some e \<Rightarrow> updateState stateDecreaseLiveness
      | None \<Rightarrow> modify (\<lambda>w. w\<lparr>w_sent := w_sent w @ [(s, frames)]\<rparr>))
   }"

definition sendHeartbeat :: "unit prog" where
  "sendHeartbeat = do {
     connected \<leftarrow> queryState queryIsConnected;
     if connected \<noteq> Some (ABool True) then State_Monad.return ()
     else do {
       sendToBroker WorkerHeartbeat [] [];
       w \<leftarrow> State_Monad.get;
       updateState (stateSetHeartbeatTime (w_now w + wo_HeartbeatInterval (w_options w)))
     }
   }"

definition worker_disconnect :: "unit prog" where
  "worker_disconnect = do {
     connected \<leftarrow> queryState queryIsConnected;
     if connected \<noteq> Some (ABool True) then State_Monad.return ()
     else do {
       updateState stateSetSocketClosed;
       updateState stateDisconnected;
       signal_close
     }
   }"

section \<open>Requests\<close>

definition sendReply :: "bytes \<Rightarrow> unit prog" where
  "sendReply reply = do {
     expectReply \<leftarrow> queryState queryGetExpectReply;
     if expectReply \<noteq> Some (ABool True) then State_Monad.return ()
     else do {
       replyTo \<leftarrow> queryState queryGetReplyTo;
       (case replyTo of
          Some (ABytes replyAddr) \<Rightarrow> do {
            sendToBroker WorkerReply replyAddr reply;
            updateState stateReplyComplete;
            updateStats statsIncReplies
          }
        | _ \<Rightarrow> State_Monad.return ())
     }
   }"

definition worker_processRequest :: "Message \<Rightarrow> unit prog" where
  "worker_processRequest workerMsg = do {
     expectReply \<leftarrow> queryState queryGetExpectReply;
     if expectReply = Some (ABool True) then State_Monad.return ()
     else do {
       updateState (stateExpectReply (ClientAddr workerMsg));
       updateStats statsIncRequests;
       handler \<leftarrow> look w_handler;
       (case handler (Body workerMsg) of
          Inr reply \<Rightarrow> sendReply reply
        | Inl err \<Rightarrow> do { updateStats statsIncErrors; sendReply (str ''Error: '' @ err) })
     }
   }"

definition worker_processMessage :: "frames \<Rightarrow> unit prog" where
  "worker_processMessage frames = do {
     w \<leftarrow> State_Monad.get;
     updateState (stateSetLiveness (wo_HeartbeatLiveness (w_options w)));
     (case ParseWorkerMessage (w_now w) frames of
        Ok workerMsg \<Rightarrow>
          (if Command workerMsg = WorkerRequest then worker_processRequest workerMsg
           else if Command workerMsg = WorkerHeartbeat then State_Monad.return ()
           else if Command workerMsg = WorkerDisconnect then worker_disconnect
           else State_Monad.return ())
      | Err e \<Rightarrow> State_Monad.return ()
      | Panic m \<Rightarrow> go_panic m)
   }"

section \<open>Connection\<close>

definition validateSecurityReadiness :: "Worker \<Rightarrow> go_error option" where
  "validateSecurityReadiness w =
     (case wo_Security (w_options w) of
        None \<Rightarrow> None
      | Some (ValidateMessageReadiness check) \<Rightarrow> check (w_now w)
      | Some (IsReady ready) \<Rightarrow> if \<not> ready (w_now w) then Some (Errorf ''security mechanism not ready'') else None
      | Some NoReadiness \<Rightarrow> None)"

text \<open>\<open>err\<close> is the error of \<^verbatim>\<open>Dial\<close>.\<close>

definition connectToBroker :: "go_error option \<Rightarrow> bool prog" where
  "connectToBroker err = do {
     connected \<leftarrow> queryState queryIsConnected;
     if connected = Some (ABool True) then State_Monad.return True
     else do {
       close_socket;
       initSocketChannels;
       n \<leftarrow> look w_dialled;
       modify (\<lambda>w. w\<lparr>w_dialled := n + 1\<rparr>);
       if err \<noteq> None then State_Monad.return False
       else do {
         modify (\<lambda>w. w\<lparr>w_socket := Some n\<rparr>);
         updateState stateConnected;
         updateStats statsIncReconnects;
         secErr \<leftarrow> look validateSecurityReadiness;
         if secErr \<noteq> None then do {
           close_socket;
           updateState stateSetSocketClosed;
           State_Monad.return False
         }
         else do {
           updateState (stateSetSocketReady True);
           service \<leftarrow> look w_service;
           sendToBroker WorkerReady [] service;
           State_Monad.return True
         }
       }
     }
   }"

definition validateConnectionState :: "go_error option prog" where
  "validateConnectionState = do {
     connected \<leftarrow> queryState queryIsConnected;
     if connected \<noteq> Some (ABool True) then State_Monad.return (Some (Errorf ''worker not connected to broker''))
     else do {
       socketReady \<leftarrow> queryState queryIsSocketReady;
       if socketReady \<noteq> Some (ABool True) then State_Monad.return (Some (Errorf ''socket not ready for operations''))
       else do {
         w \<leftarrow> State_Monad.get;
         if w_socket w = None then State_Monad.return (Some (Errorf ''socket is nil''))
         else if w_socketManagerID w = 0 then State_Monad.return (Some (Errorf ''socket manager not initialized''))
         else (case validateSecurityReadiness w of
             Some e \<Rightarrow> State_Monad.return (Some (Wrapf ''security validation failed'' e))
           | None \<Rightarrow> do {
               liveness \<leftarrow> queryState queryGetLiveness;
               State_Monad.return (case liveness of
                  Some (AInt l) \<Rightarrow> if l \<le> 0 then Some (Errorf ''broker liveness exhausted'') else None
                | _ \<Rightarrow> None)
             })
       }
     }
   }"

definition isHealthy :: "bool prog" where
  "isHealthy = do { err \<leftarrow> validateConnectionState; State_Monad.return (err = None) }"

section \<open>The socket manager\<close>

text \<open>
  One iteration of the manager \<open>i\<close>: \<open>err\<close> is the error of \<^verbatim>\<open>Send\<close> if there is a message to send. It sends
  the queued messages first and receives only when there are none.
\<close>

definition set_manager :: "nat \<Rightarrow> sm_state \<Rightarrow> unit prog" where
  "set_manager i st = modify (\<lambda>w. w\<lparr>w_managers := (w_managers w)[i := (fst (w_managers w ! i), st)]\<rparr>)"

definition socketManager_loop :: "go_error option \<Rightarrow> nat \<Rightarrow> unit prog" where
  "socketManager_loop err i = do {
     w \<leftarrow> State_Monad.get;
     if fst (w_managers w ! i) \<noteq> w_socketManagerID w then manager_exits i
     else (case w_sendCh w of
         msg # rest \<Rightarrow> do {
           modify (\<lambda>w. w\<lparr>w_sendCh := rest\<rparr>);
           (case w_socket w of
              Some s \<Rightarrow> doSendToBroker err s (wm_command msg) (wm_clientAddr msg) (wm_body msg)
            | None \<Rightarrow> State_Monad.return ())
         }
       | [] \<Rightarrow>
           (case w_socket w of
              Some s \<Rightarrow> set_manager i (InRecv s)
            | None \<Rightarrow> State_Monad.return ()))
   }"

text \<open>
  \<^verbatim>\<open>Recv\<close> returns. The channels are those of the session that is current by then, which need not be
  the session of the manager.
\<close>

definition socketManager_received :: "recv_result \<Rightarrow> nat \<Rightarrow> unit prog" where
  "socketManager_received out i = do {
     w \<leftarrow> State_Monad.get;
     (case out of
        RecvErr e \<Rightarrow> do {
          modify (\<lambda>w. if w_errorCh w = [] then w\<lparr>w_errorCh := [e]\<rparr> else w);
          set_manager i AtLoop
        }
      | RecvOk fs \<Rightarrow>
          (if length (w_recvCh w) < 10 then do {
             modify (\<lambda>w. w\<lparr>w_recvCh := w_recvCh w @ [fs]\<rparr>);
             set_manager i AtLoop
           }
           else set_manager i (Forwarding (w_socketManagerID w) fs)))
   }"

text \<open>A manager that waits for room goes on when there is room in the channel it waits for.\<close>

definition socketManager_forward :: "nat \<Rightarrow> unit prog" where
  "socketManager_forward i = do {
     w \<leftarrow> State_Monad.get;
     (case snd (w_managers w ! i) of
        Forwarding session fs \<Rightarrow>
          (if session = w_socketManagerID w \<and> length (w_recvCh w) < 10 then do {
             modify (\<lambda>w. w\<lparr>w_recvCh := w_recvCh w @ [fs]\<rparr>);
             set_manager i AtLoop
           }
           else State_Monad.return ())
      | _ \<Rightarrow> State_Monad.return ())
   }"

section \<open>The worker loop\<close>

definition set_loop :: "nat \<Rightarrow> loop_state \<Rightarrow> unit prog" where
  "set_loop j st = modify (\<lambda>w. w\<lparr>w_loops := (w_loops w)[j := st]\<rparr>)"

definition workerLoop_connect :: "go_error option \<Rightarrow> nat \<Rightarrow> unit prog" where
  "workerLoop_connect err j = do {
     w \<leftarrow> State_Monad.get;
     closeSocketChannels;
     if w_stopped w then set_loop j Ended
     else do {
       ok \<leftarrow> connectToBroker err;
       if \<not> ok then State_Monad.return ()
       else do {
         modify (\<lambda>w. w\<lparr>w_managers := w_managers w @ [(w_socketManagerID w, AtLoop)]\<rparr>);
         set_loop j (Processing 0)
       }
     }
   }"

text \<open>After \<^verbatim>\<open>processMessages\<close>, and after at most two seconds of waiting for the socket manager.\<close>

definition workerLoop_next :: "nat \<Rightarrow> unit prog" where
  "workerLoop_next j = do {
     running \<leftarrow> queryState queryIsRunning;
     if running \<noteq> Some (ABool True) then do { closeSocketChannels; set_loop j Ended }
     else set_loop j Connecting
   }"

text \<open>The cases of the \<^verbatim>\<open>select\<close> in \<^verbatim>\<open>processMessages\<close>; the result says whether the loop goes on.\<close>

definition tick_health :: "nat \<Rightarrow> bool prog" where
  "tick_health counter = (if counter \<ge> 50 then do {
       err \<leftarrow> validateConnectionState;
       if err \<noteq> None then do { worker_disconnect; State_Monad.return False } else State_Monad.return True
     }
     else State_Monad.return True)"

definition tick_heartbeat :: "unit prog" where
  "tick_heartbeat = do {
     heartbeatTime \<leftarrow> queryState queryGetHeartbeatTime;
     now \<leftarrow> look w_now;
     (case heartbeatTime of
        Some (ATime t) \<Rightarrow> if now > t then sendHeartbeat else State_Monad.return ()
      | _ \<Rightarrow> State_Monad.return ())
   }"

definition tick_liveness :: "bool prog" where
  "tick_liveness = do {
     liveness \<leftarrow> queryState queryGetLiveness;
     (case liveness of
        Some (AInt l) \<Rightarrow> if l \<le> 0 then do { worker_disconnect; State_Monad.return False } else State_Monad.return True
      | _ \<Rightarrow> State_Monad.return True)
   }"

definition processMessages_tick :: "nat \<Rightarrow> (bool \<times> nat) prog" where
  "processMessages_tick counter = do {
     healthy \<leftarrow> tick_health (counter + 1);
     let counter = (if counter + 1 \<ge> 50 then 0 else counter + 1);
     if \<not> healthy then State_Monad.return (False, counter)
     else do {
       tick_heartbeat;
       alive \<leftarrow> tick_liveness;
       State_Monad.return (alive, counter)
     }
   }"

definition processMessages_recv :: "bool prog" where
  "processMessages_recv = do {
     w \<leftarrow> State_Monad.get;
     (case w_recvCh w of
        [] \<Rightarrow> State_Monad.return True
      | fs # rest \<Rightarrow> do {
          modify (\<lambda>w. w\<lparr>w_recvCh := rest\<rparr>);
          err \<leftarrow> validateConnectionState;
          if err \<noteq> None then do { worker_disconnect; State_Monad.return False }
          else do { worker_processMessage fs; State_Monad.return True }
        })
   }"

definition processMessages_error :: "bool prog" where
  "processMessages_error = do {
     w \<leftarrow> State_Monad.get;
     (case w_errorCh w of
        [] \<Rightarrow> State_Monad.return True
      | e # rest \<Rightarrow> do {
          modify (\<lambda>w. w\<lparr>w_errorCh := rest\<rparr>);
          worker_disconnect;
          State_Monad.return False
        })
   }"

definition processMessages_stop :: "bool prog" where
  "processMessages_stop = do {
     w \<leftarrow> State_Monad.get;
     if w_stopped w then do { signal_close; State_Monad.return False } else State_Monad.return True
   }"

datatype loop_event = Tick | MessageReady | ErrorReady | StopClosed

definition processMessages :: "loop_event \<Rightarrow> nat \<Rightarrow> unit prog" where
  "processMessages ev j = do {
     w \<leftarrow> State_Monad.get;
     (case w_loops w ! j of
        Processing counter \<Rightarrow> do {
          (goes_on, counter) \<leftarrow> (case ev of
             Tick \<Rightarrow> processMessages_tick counter
           | MessageReady \<Rightarrow> do { b \<leftarrow> processMessages_recv; State_Monad.return (b, counter) }
           | ErrorReady \<Rightarrow> do { b \<leftarrow> processMessages_error; State_Monad.return (b, counter) }
           | StopClosed \<Rightarrow> do { b \<leftarrow> processMessages_stop; State_Monad.return (b, counter) });
          if goes_on then set_loop j (Processing counter) else workerLoop_next j
        }
      | _ \<Rightarrow> State_Monad.return ())
   }"

section \<open>Start and Stop\<close>

definition worker_Start :: "unit result prog" where
  "worker_Start = do {
     running \<leftarrow> queryState queryIsRunning;
     if running = Some (ABool True) then State_Monad.return (Err (Errorf ''mdp: worker already running''))
     else do {
       updateState (stateSetRunning True);
       modify (\<lambda>w. w\<lparr>w_loops := w_loops w @ [Connecting]\<rparr>);
       State_Monad.return (Ok ())
     }
   }"

text \<open>\<open>err\<close> is the error of \<^verbatim>\<open>socket.Close\<close>.\<close>

definition worker_Stop :: "go_error option \<Rightarrow> unit result prog" where
  "worker_Stop err = do {
     running \<leftarrow> queryState queryIsRunning;
     if running \<noteq> Some (ABool True) then do {
       stopStateManager;
       State_Monad.return (Err (Errorf ''mdp: worker not running''))
     }
     else do {
       connected \<leftarrow> queryState queryIsConnected;
       (if connected = Some (ABool True) then sendToBroker WorkerDisconnect [] [] else State_Monad.return ());
       updateState (stateSetRunning False);
       w \<leftarrow> State_Monad.get;
       (if w_stopped w then go_panic ''close of closed channel''
        else modify (\<lambda>w. w\<lparr>w_cancelled := True, w_stopped := True\<rparr>));
       closeSocketChannels;
       socket \<leftarrow> look w_socket;
       (case (socket, err) of
          (Some s, Some e) \<Rightarrow> do {
            modify (\<lambda>w. w\<lparr>w_closed := insert s (w_closed w)\<rparr>);
            State_Monad.return (Err (Wrapf ''mdp: failed to close worker socket'' e))
          }
        | _ \<Rightarrow> do {
            close_socket;
            stopStateManager;
            State_Monad.return (Ok ())
          })
     }
   }"

section \<open>Runs\<close>

text \<open>
  The steps of the goroutines and of the environment, in any order: time passes and the scheduler
  changes its mind at any moment. A manager that is in \<^verbatim>\<open>Recv\<close> may stay there for any time.
\<close>

inductive worker_step :: "Worker \<Rightarrow> Worker \<Rightarrow> bool" where
  environment: "worker_step w (w\<lparr>w_now := t, w_choices := cs\<rparr>)" if "w_now w \<le> t" "w_panic w = None"
| start: "worker_step w (snd (run_state worker_Start w))"
| stop: "worker_step w (snd (run_state (worker_Stop err) w))"
| connect: "worker_step w (snd (run_state (workerLoop_connect err j) w))" if "j < length (w_loops w)" "w_loops w ! j = Connecting"
| process: "worker_step w (snd (run_state (processMessages ev j) w))" if "j < length (w_loops w)"
| manage: "worker_step w (snd (run_state (socketManager_loop err i) w))"
    if "i < length (w_managers w)" "snd (w_managers w ! i) = AtLoop"
| received: "worker_step w (snd (run_state (socketManager_received out i) w))"
    if "i < length (w_managers w)" "snd (w_managers w ! i) = InRecv s"
| forward: "worker_step w (snd (run_state (socketManager_forward i) w))" if "i < length (w_managers w)"

definition worker_reachable :: "Worker \<Rightarrow> bool" where
  "worker_reachable w \<longleftrightarrow> (\<exists>now service h opts w0. NewWorker now service (Some h) opts = Ok w0 \<and> worker_step\<^sup>*\<^sup>* w0 w)"

section \<open>Lemmas: running the primitives\<close>

lemma run_state_modify [simp]: "run_state (modify f) w = ((), if w_panic w = None then f w else w)"
  by (simp add: modify_def State_Monad.update_def)

lemma run_state_look [simp]: "run_state (look f) w = (f w, w)"
  by (simp add: look_def)

lemma run_state_go_panic [simp]: "run_state (go_panic m) w = ((), if w_panic w = None then w\<lparr>w_panic := Some m\<rparr> else w)"
  by (simp add: go_panic_def)

lemma run_state_next_choice:
  "run_state next_choice w = (case w_choices w of
     [] \<Rightarrow> (Some (length (w_stateUpdateCh w), length (w_statsUpdateCh w)), w)
   | x # xs \<Rightarrow> (x, if w_panic w = None then w\<lparr>w_choices := xs\<rparr> else w))"
  by (simp add: next_choice_def split: list.split)

text \<open>The state once the manager has caught up, and a worker whose manager is prompt.\<close>

definition settle :: "Worker \<Rightarrow> Worker" where
  "settle w = manager_runs (length (w_stateUpdateCh w)) (length (w_statsUpdateCh w)) w"

definition prompt :: "Worker \<Rightarrow> bool" where
  "prompt w \<longleftrightarrow> w_choices w = [] \<and> w_panic w = None \<and> \<not> w_stopped w \<and> \<not> w_stateClosed w"

lemma manager_runs_frame [simp]:
  "w_service (manager_runs n k w) = w_service w" "w_options (manager_runs n k w) = w_options w"
  "w_handler (manager_runs n k w) = w_handler w" "w_stateClosed (manager_runs n k w) = w_stateClosed w"
  "w_stateStopped (manager_runs n k w) = w_stateStopped w" "w_stopped (manager_runs n k w) = w_stopped w"
  "w_socket (manager_runs n k w) = w_socket w" "w_dialled (manager_runs n k w) = w_dialled w"
  "w_socketManagerID (manager_runs n k w) = w_socketManagerID w" "w_managers (manager_runs n k w) = w_managers w"
  "w_socketDone (manager_runs n k w) = w_socketDone w" "w_sendCh (manager_runs n k w) = w_sendCh w"
  "w_recvCh (manager_runs n k w) = w_recvCh w" "w_errorCh (manager_runs n k w) = w_errorCh w"
  "w_loops (manager_runs n k w) = w_loops w" "w_sent (manager_runs n k w) = w_sent w" "w_now (manager_runs n k w) = w_now w"
  "w_choices (manager_runs n k w) = w_choices w" "w_panic (manager_runs n k w) = w_panic w"
  by (simp_all add: manager_runs_def)

lemma settle_frame [simp]:
  "w_service (settle w) = w_service w" "w_options (settle w) = w_options w" "w_handler (settle w) = w_handler w"
  "w_socket (settle w) = w_socket w" "w_socketManagerID (settle w) = w_socketManagerID w" "w_managers (settle w) = w_managers w"
  "w_sendCh (settle w) = w_sendCh w" "w_recvCh (settle w) = w_recvCh w" "w_errorCh (settle w) = w_errorCh w"
  "w_loops (settle w) = w_loops w" "w_sent (settle w) = w_sent w" "w_now (settle w) = w_now w" "w_dialled (settle w) = w_dialled w"
  "w_stateUpdateCh (settle w) = []" "w_statsUpdateCh (settle w) = []" "prompt (settle w) = prompt w"
  "w_panic (settle w) = w_panic w" "w_stopped (settle w) = w_stopped w" "w_choices (settle w) = w_choices w"
  "w_stateClosed (settle w) = w_stateClosed w"
  by (simp_all add: settle_def prompt_def) (simp_all add: manager_runs_def)

lemma settle_settled [simp]: "w_stateUpdateCh w = [] \<Longrightarrow> w_statsUpdateCh w = [] \<Longrightarrow> settle w = w"
  by (simp add: settle_def manager_runs_def)

lemma settle_state:
  "w_state (settle w) = fold apply_stats (w_statsUpdateCh w) (fold (apply_state (w_options w) (w_now w)) (w_stateUpdateCh w) (w_state w))"
  by (simp add: settle_def manager_runs_def)

lemma query_prompt:
  "prompt w \<Longrightarrow> run_state (queryState q) w = (Some (answer_query (w_service w) q (w_state (settle w))), settle w)"
  by (simp add: queryState_def run_state_next_choice prompt_def settle_def)

definition push_state :: "stateUpdate \<Rightarrow> Worker \<Rightarrow> Worker" where
  "push_state u w = (if length (w_stateUpdateCh w) < 10 then w\<lparr>w_stateUpdateCh := w_stateUpdateCh w @ [u]\<rparr> else w)"

definition push_stats :: "statsUpdate \<Rightarrow> Worker \<Rightarrow> Worker" where
  "push_stats u w = (if length (w_statsUpdateCh w) < 10 then w\<lparr>w_statsUpdateCh := w_statsUpdateCh w @ [u]\<rparr> else w)"

lemma push_frame [simp]:
  "w_service (push_state u w) = w_service w" "w_options (push_state u w) = w_options w" "w_handler (push_state u w) = w_handler w"
  "w_socket (push_state u w) = w_socket w" "w_socketManagerID (push_state u w) = w_socketManagerID w"
  "w_managers (push_state u w) = w_managers w" "w_sendCh (push_state u w) = w_sendCh w" "w_recvCh (push_state u w) = w_recvCh w"
  "w_errorCh (push_state u w) = w_errorCh w" "w_loops (push_state u w) = w_loops w" "w_sent (push_state u w) = w_sent w"
  "w_now (push_state u w) = w_now w" "w_dialled (push_state u w) = w_dialled w" "prompt (push_state u w) = prompt w"
  "w_statsUpdateCh (push_state u w) = w_statsUpdateCh w"
  "w_service (push_stats v w) = w_service w" "w_options (push_stats v w) = w_options w" "w_handler (push_stats v w) = w_handler w"
  "w_socket (push_stats v w) = w_socket w" "w_socketManagerID (push_stats v w) = w_socketManagerID w"
  "w_managers (push_stats v w) = w_managers w" "w_sendCh (push_stats v w) = w_sendCh w" "w_recvCh (push_stats v w) = w_recvCh w"
  "w_errorCh (push_stats v w) = w_errorCh w" "w_loops (push_stats v w) = w_loops w" "w_sent (push_stats v w) = w_sent w"
  "w_now (push_stats v w) = w_now w" "w_dialled (push_stats v w) = w_dialled w" "prompt (push_stats v w) = prompt w"
  "w_stateUpdateCh (push_stats v w) = w_stateUpdateCh w"
  by (simp_all add: push_state_def push_stats_def prompt_def)

lemma update_prompt: "prompt w \<Longrightarrow> run_state (updateState u) w = ((), push_state u w)"
  by (simp add: updateState_def prompt_def push_state_def)

lemma stats_prompt: "prompt w \<Longrightarrow> run_state (updateStats u) w = ((), push_stats u w)"
  by (simp add: updateStats_def prompt_def push_stats_def)

lemma apply_stats_state [simp]:
  "m_connected (fold apply_stats us m) = m_connected m" "m_running (fold apply_stats us m) = m_running m"
  "m_expectReply (fold apply_stats us m) = m_expectReply m" "m_replyTo (fold apply_stats us m) = m_replyTo m"
  "m_liveness (fold apply_stats us m) = m_liveness m" "m_heartbeatAt (fold apply_stats us m) = m_heartbeatAt m"
  "m_socketReady (fold apply_stats us m) = m_socketReady m"
proof -
  have "m_connected (fold apply_stats us m) = m_connected m \<and> m_running (fold apply_stats us m) = m_running m \<and>
    m_expectReply (fold apply_stats us m) = m_expectReply m \<and> m_replyTo (fold apply_stats us m) = m_replyTo m \<and>
    m_liveness (fold apply_stats us m) = m_liveness m \<and> m_heartbeatAt (fold apply_stats us m) = m_heartbeatAt m \<and>
    m_socketReady (fold apply_stats us m) = m_socketReady m"
  proof (induction us arbitrary: m)
    case (Cons u us)
    then show ?case by (cases u) simp_all
  qed simp
  then show "m_connected (fold apply_stats us m) = m_connected m" "m_running (fold apply_stats us m) = m_running m"
    "m_expectReply (fold apply_stats us m) = m_expectReply m" "m_replyTo (fold apply_stats us m) = m_replyTo m"
    "m_liveness (fold apply_stats us m) = m_liveness m" "m_heartbeatAt (fold apply_stats us m) = m_heartbeatAt m"
    "m_socketReady (fold apply_stats us m) = m_socketReady m" by blast+
qed

lemmas prompt_simps = query_prompt update_prompt stats_prompt settle_state

text \<open>What the manager's variables are once it has caught up, without the counters.\<close>

definition vars :: "Worker \<Rightarrow> stateVars" where
  "vars w = fold (apply_state (w_options w) (w_now w)) (w_stateUpdateCh w) (w_state w)"

lemma sendToBroker_prompt:
  assumes "prompt w" "m_socketReady (vars w)" "length (w_sendCh w) < 10"
  shows "run_state (sendToBroker command addr body) w =
    ((), (settle w)\<lparr>w_sendCh := w_sendCh w @ [\<lparr>wm_command = command, wm_clientAddr = addr, wm_body = body\<rparr>]\<rparr>)"
proof -
  have p: "\<not> w_stopped (settle w)" "w_panic (settle w) = None"
    using assms(1) by (simp_all add: prompt_def)
  have "run_state (queryState queryIsSocketReady) w = (Some (ABool True), settle w)"
    using assms by (simp add: query_prompt settle_state vars_def)
  then show ?thesis using assms(3) p by (simp add: sendToBroker_def Let_def)
qed

lemma vars_push [simp]:
  "length (w_stateUpdateCh w) < 10 \<Longrightarrow> vars (push_state u w) = apply_state (w_options w) (w_now w) u (vars w)"
  "vars (push_stats v w) = vars w" "vars (w\<lparr>w_sendCh := x\<rparr>) = vars w"
  by (simp_all add: vars_def push_state_def push_stats_def)

lemma vars_settle: "w_state (settle w) = fold apply_stats (w_statsUpdateCh w) (vars w)" "vars (settle w) = fold apply_stats (w_statsUpdateCh w) (vars w)"
  by (simp_all add: vars_def settle_state)

lemma sendReply_prompt:
  assumes "prompt w" "m_socketReady (vars w)" "length (w_sendCh w) < 10" "m_expectReply (vars w)"
  shows "\<exists>w'. run_state (sendReply reply) w = ((), w') \<and> prompt w' \<and> w_sent w' = w_sent w \<and>
    w_sendCh w' = w_sendCh w @ [\<lparr>wm_command = WorkerReply, wm_clientAddr = m_replyTo (vars w), wm_body = reply\<rparr>] \<and>
    vars w' = (w_state (settle w))\<lparr>m_expectReply := False, m_replyTo := []\<rparr> \<and>
    w_statsUpdateCh w' = [statsIncReplies] \<and> w_stateUpdateCh w' = [stateReplyComplete] \<and> w_socket w' = w_socket w \<and> w_options w' = w_options w \<and>
    w_managers w' = w_managers w \<and> w_socketManagerID w' = w_socketManagerID w \<and> w_now w' = w_now w"
proof -
  let ?s = "settle w"
  have q: "run_state (queryState queryGetExpectReply) w = (Some (ABool True), ?s)"
    "run_state (queryState queryGetReplyTo) ?s = (Some (ABytes (m_replyTo (vars w))), ?s)"
    using assms by (simp_all add: query_prompt vars_settle)
  have send: "run_state (sendToBroker WorkerReply (m_replyTo (vars w)) reply) ?s = ((), ?s\<lparr>w_sendCh := w_sendCh w @
      [\<lparr>wm_command = WorkerReply, wm_clientAddr = m_replyTo (vars w), wm_body = reply\<rparr>]\<rparr>)" (is "_ = ((), ?w1)")
    using assms by (subst sendToBroker_prompt) (simp_all add: vars_settle)
  have p: "prompt ?w1" using assms(1) by (simp add: prompt_def)
  have vars: "vars ?w1 = w_state ?s" by (simp add: vars_def)
  have "run_state (sendReply reply) w = ((), push_stats statsIncReplies (push_state stateReplyComplete ?w1))"
    using p by (simp add: sendReply_def q send update_prompt stats_prompt)
  then show ?thesis using p vars by (simp add: push_state_def push_stats_def vars_def prompt_def)
qed

section \<open>Lemmas: what every schedule keeps\<close>

text \<open>A program keeps a property of the state; the rules follow the structure of the programs.\<close>

definition prog_keeps :: "(Worker \<Rightarrow> bool) \<Rightarrow> 'a prog \<Rightarrow> bool" where
  "prog_keeps I m \<longleftrightarrow> (\<forall>w. I w \<longrightarrow> I (snd (run_state m w)))"

named_theorems keeps "programs that keep an invariant"

lemma keepsI: "(\<And>w. I w \<Longrightarrow> I (snd (run_state m w))) \<Longrightarrow> prog_keeps I m"
  by (simp add: prog_keeps_def)

lemma keepsD: "prog_keeps I m \<Longrightarrow> I w \<Longrightarrow> I (snd (run_state m w))"
  by (simp add: prog_keeps_def)

lemma keeps_return [keeps]: "prog_keeps I (State_Monad.return x)"
  by (simp add: prog_keeps_def)

lemma keeps_get [keeps]: "prog_keeps I State_Monad.get"
  by (simp add: prog_keeps_def)

lemma keeps_look [keeps]: "prog_keeps I (look f)"
  by (simp add: prog_keeps_def)

lemma keeps_bind [keeps]: "prog_keeps I m \<Longrightarrow> (\<And>x. prog_keeps I (f x)) \<Longrightarrow> prog_keeps I (State_Monad.bind m f)"
  by (fastforce simp: prog_keeps_def split: prod.split)

lemma keeps_if [keeps]: "(b \<Longrightarrow> prog_keeps I m) \<Longrightarrow> (\<not> b \<Longrightarrow> prog_keeps I n) \<Longrightarrow> prog_keeps I (if b then m else n)"
  by simp

lemma keeps_case_option [keeps]:
  "prog_keeps I m \<Longrightarrow> (\<And>x. prog_keeps I (f x)) \<Longrightarrow> prog_keeps I (case v of None \<Rightarrow> m | Some x \<Rightarrow> f x)"
  by (cases v) simp_all

lemma keeps_case_prod [keeps]: "(\<And>x y. prog_keeps I (f x y)) \<Longrightarrow> prog_keeps I (case v of (x, y) \<Rightarrow> f x y)"
  by (cases v) simp

lemma keeps_case_sum [keeps]:
  "(\<And>x. prog_keeps I (f x)) \<Longrightarrow> (\<And>x. prog_keeps I (g x)) \<Longrightarrow> prog_keeps I (case v of Inl x \<Rightarrow> f x | Inr x \<Rightarrow> g x)"
  by (cases v) simp_all

lemma keeps_case_list [keeps]:
  "prog_keeps I m \<Longrightarrow> (\<And>x xs. prog_keeps I (f x xs)) \<Longrightarrow> prog_keeps I (case v of [] \<Rightarrow> m | x # xs \<Rightarrow> f x xs)"
  by (cases v) simp_all

lemma keeps_case_answer [keeps]:
  "(\<And>b. prog_keeps I (f1 b)) \<Longrightarrow> (\<And>b. prog_keeps I (f2 b)) \<Longrightarrow> (\<And>b. prog_keeps I (f3 b)) \<Longrightarrow> (\<And>b. prog_keeps I (f4 b)) \<Longrightarrow>
   (\<And>a b c d e f g h. prog_keeps I (f5 a b c d e f g h)) \<Longrightarrow>
   prog_keeps I (case v of ABool b \<Rightarrow> f1 b | ABytes b \<Rightarrow> f2 b | ATime b \<Rightarrow> f3 b | AInt b \<Rightarrow> f4 b | AStats a b c d e f g h \<Rightarrow> f5 a b c d e f g h)"
  by (cases v) simp_all

lemma keeps_case_result [keeps]:
  "(\<And>x. prog_keeps I (f x)) \<Longrightarrow> (\<And>x. prog_keeps I (g x)) \<Longrightarrow> (\<And>x. prog_keeps I (h x)) \<Longrightarrow>
   prog_keeps I (case v of Ok x \<Rightarrow> f x | Err x \<Rightarrow> g x | Panic x \<Rightarrow> h x)"
  by (cases v) simp_all

lemma keeps_case_loop [keeps]:
  "prog_keeps I m \<Longrightarrow> (\<And>x. prog_keeps I (f x)) \<Longrightarrow> prog_keeps I n \<Longrightarrow> prog_keeps I (case v of Connecting \<Rightarrow> m | Processing x \<Rightarrow> f x | Ended \<Rightarrow> n)"
  by (cases v) simp_all

lemma keeps_case_event [keeps]:
  "prog_keeps I m \<Longrightarrow> prog_keeps I n \<Longrightarrow> prog_keeps I p \<Longrightarrow> prog_keeps I q \<Longrightarrow>
   prog_keeps I (case v of Tick \<Rightarrow> m | MessageReady \<Rightarrow> n | ErrorReady \<Rightarrow> p | StopClosed \<Rightarrow> q)"
  by (cases v) simp_all

lemma keeps_modify: "(\<And>w. I w \<Longrightarrow> I (f w)) \<Longrightarrow> prog_keeps I (modify f)"
  by (simp add: prog_keeps_def)

text \<open>
  The frames of a queued message, and the messages a worker of a service sends: READY with the
  service, REPLY, HEARTBEAT and DISCONNECT.
\<close>

definition message_frames :: "int \<Rightarrow> workerMessage \<Rightarrow> frames" where
  "message_frames now m =
     (let msg = NewWorkerMessage now (wm_command m) (wm_clientAddr m) (wm_body m)
      in FormatWorkerMessage (if wm_command m = WorkerReady then msg\<lparr>Message.Service := wm_body m, Body := []\<rparr> else msg))"

definition proper :: "bytes \<Rightarrow> workerMessage \<Rightarrow> bool" where
  "proper service m \<longleftrightarrow> wm_command m = WorkerReady \<and> wm_body m = service \<or>
     wm_command m \<in> {WorkerReply, WorkerHeartbeat, WorkerDisconnect}"

definition worker_inv :: "Worker \<Rightarrow> bool" where
  "worker_inv w \<longleftrightarrow> w_service w \<noteq> [] \<and> length (w_service w) \<le> 255 \<and>
     length (w_stateUpdateCh w) \<le> 10 \<and> length (w_statsUpdateCh w) \<le> 10 \<and> length (w_sendCh w) \<le> 10 \<and>
     length (w_recvCh w) \<le> 10 \<and> length (w_errorCh w) \<le> 1 \<and>
     (\<forall>m \<in> set (w_sendCh w). proper (w_service w) m) \<and>
     (\<forall>s. w_socket w = Some s \<longrightarrow> s < w_dialled w) \<and>
     (\<forall>s fs. (s, fs) \<in> set (w_sent w) \<longrightarrow> s < w_dialled w \<and> (\<exists>now m. proper (w_service w) m \<and> fs = message_frames now m))"

lemma worker_inv_env [simp]:
  "worker_inv (w\<lparr>w_choices := cs\<rparr>) = worker_inv w" "worker_inv (w\<lparr>w_panic := p\<rparr>) = worker_inv w"
  "worker_inv (w\<lparr>w_now := t\<rparr>) = worker_inv w"
  "worker_inv (w\<lparr>w_now := t, w_choices := cs\<rparr>) = worker_inv w" "worker_inv (w\<lparr>w_loops := ls\<rparr>) = worker_inv w"
  "worker_inv (w\<lparr>w_managers := ms\<rparr>) = worker_inv w" "worker_inv (w\<lparr>w_managers := ms, w_socketDone := d\<rparr>) = worker_inv w"
  "worker_inv (w\<lparr>w_cancelled := b1, w_stopped := b2\<rparr>) = worker_inv w" "worker_inv (w\<lparr>w_closed := cl\<rparr>) = worker_inv w"
  "worker_inv (w\<lparr>w_stateStopped := b1, w_stateClosed := b2\<rparr>) = worker_inv w"
  by (simp_all add: worker_inv_def)

lemma manager_runs_inv: "worker_inv w \<Longrightarrow> worker_inv (manager_runs n k w)"
  by (auto simp: worker_inv_def manager_runs_def)

lemma next_choice_inv [keeps]: "prog_keeps worker_inv next_choice"
  by (rule keepsI) (simp add: run_state_next_choice split: list.split)

lemma go_panic_inv [keeps]: "prog_keeps worker_inv (go_panic m)"
  by (rule keepsI) simp

lemma updateState_inv [keeps]: "prog_keeps worker_inv (updateState u)"
  unfolding updateState_def by (intro keeps keeps_modify) (simp add: worker_inv_def)

lemma updateStats_inv [keeps]: "prog_keeps worker_inv (updateStats u)"
  unfolding updateStats_def by (intro keeps keeps_modify) (simp add: worker_inv_def)

lemma queryState_inv [keeps]: "prog_keeps worker_inv (queryState q)"
  unfolding queryState_def by (intro keeps keeps_modify manager_runs_inv)

lemma stopStateManager_inv [keeps]: "prog_keeps worker_inv stopStateManager"
  unfolding stopStateManager_def by (intro keeps keeps_modify) (simp add: manager_runs_inv)

lemma initSocketChannels_inv [keeps]: "prog_keeps worker_inv initSocketChannels"
  unfolding initSocketChannels_def by (intro keeps keeps_modify) (simp add: worker_inv_def init_channels_def)

lemma manager_exits_inv [keeps]: "prog_keeps worker_inv (manager_exits i)"
  unfolding manager_exits_def Let_def by (intro keeps keeps_modify) simp

lemma signal_close_inv [keeps]: "prog_keeps worker_inv signal_close"
  unfolding signal_close_def by (intro keeps)

lemma close_socket_inv [keeps]: "prog_keeps worker_inv close_socket"
  unfolding close_socket_def by (intro keeps keeps_modify) (auto simp: worker_inv_def split: option.split)

lemma next_choice_sendCh: "run_state next_choice w = (x, w') \<Longrightarrow> w_sendCh w' = w_sendCh w \<and> w_service w' = w_service w"
  by (auto simp: run_state_next_choice split: list.splits)

lemma queryState_service: "run_state (queryState q) w = (x, w') \<Longrightarrow> w_service w' = w_service w"
  by (auto simp: queryState_def run_state_next_choice split: list.splits option.splits prod.splits if_splits)

lemma sendToBroker_service: "run_state (updateState u) w = (x, w') \<Longrightarrow> w_service w' = w_service w"
  by (auto simp: updateState_def run_state_next_choice split: list.splits option.splits prod.splits if_splits)

text \<open>Sending keeps the invariant when the message is one the worker of this service sends.\<close>

lemma sendToBroker_inv:
  assumes "worker_inv w" "proper (w_service w) \<lparr>wm_command = command, wm_clientAddr = addr, wm_body = body\<rparr>"
  shows "worker_inv (snd (run_state (sendToBroker command addr body) w))"
proof -
  obtain a w1 where q: "run_state (queryState queryIsSocketReady) w = (a, w1)" by fastforce
  have inv: "worker_inv w1" and service: "w_service w1 = w_service w"
    using keepsD [OF queryState_inv assms(1), of queryIsSocketReady] queryState_service [OF q] by (simp_all add: q)
  obtain c w2 where c: "run_state (if w_stopped w1 then next_choice else State_Monad.return (Some (0, 0))) w1 = (c, w2)" by fastforce
  have "prog_keeps worker_inv (if w_stopped w1 then next_choice else State_Monad.return (Some (0, 0)))" by (intro keeps)
  from keepsD [OF this inv] have inv2: "worker_inv w2" by (simp only: c snd_conv)
  have w2: "w_sendCh w2 = w_sendCh w1" "w_service w2 = w_service w"
    using c next_choice_sendCh service by (fastforce split: if_splits)+
  have upd: "worker_inv (snd (run_state (updateState stateDecreaseLiveness) w'))" if "worker_inv w'" for w'
    by (rule keepsD [OF updateState_inv that])
  show ?thesis
    using inv inv2 w2 assms(2) by (auto simp: sendToBroker_def q c upd Let_def) (auto simp: worker_inv_def)
qed

lemma proper_simps [simp]:
  "proper service \<lparr>wm_command = WorkerReply, wm_clientAddr = a, wm_body = b\<rparr>"
  "proper service \<lparr>wm_command = WorkerHeartbeat, wm_clientAddr = a, wm_body = b\<rparr>"
  "proper service \<lparr>wm_command = WorkerDisconnect, wm_clientAddr = a, wm_body = b\<rparr>"
  "proper service \<lparr>wm_command = WorkerReady, wm_clientAddr = a, wm_body = service\<rparr>"
  by (simp_all add: proper_def)

lemma send_reply_inv [keeps]: "prog_keeps worker_inv (sendToBroker WorkerReply a b)"
  "prog_keeps worker_inv (sendToBroker WorkerHeartbeat a b)" "prog_keeps worker_inv (sendToBroker WorkerDisconnect a b)"
  by (rule keepsI, erule sendToBroker_inv, simp)+

lemma sendHeartbeat_inv [keeps]: "prog_keeps worker_inv sendHeartbeat"
  unfolding sendHeartbeat_def by (intro keeps)

lemma worker_disconnect_inv [keeps]: "prog_keeps worker_inv worker_disconnect"
  unfolding worker_disconnect_def by (intro keeps)

lemma sendReply_inv [keeps]: "prog_keeps worker_inv (sendReply reply)"
  unfolding sendReply_def by (intro keeps)

lemma worker_processRequest_inv [keeps]: "prog_keeps worker_inv (worker_processRequest msg)"
  unfolding worker_processRequest_def by (intro keeps)

lemma worker_processMessage_inv [keeps]: "prog_keeps worker_inv (worker_processMessage fs)"
  unfolding worker_processMessage_def by (intro keeps)

lemma validateConnectionState_inv [keeps]: "prog_keeps worker_inv validateConnectionState"
  unfolding validateConnectionState_def by (intro keeps)

lemma closeSocketChannels_inv [keeps]: "prog_keeps worker_inv closeSocketChannels"
  unfolding closeSocketChannels_def by (rule keeps)

lemma set_loop_inv [keeps]: "prog_keeps worker_inv (set_loop j st)" "prog_keeps worker_inv (set_manager i sm)"
  unfolding set_loop_def set_manager_def by (rule keeps_modify, simp)+

lemma workerLoop_next_inv [keeps]: "prog_keeps worker_inv (workerLoop_next j)"
  unfolding workerLoop_next_def by (intro keeps)

lemma processMessages_tick_inv [keeps]: "prog_keeps worker_inv (processMessages_tick counter)"
  unfolding processMessages_tick_def tick_health_def tick_heartbeat_def tick_liveness_def Let_def by (intro keeps)

lemma processMessages_stop_inv [keeps]: "prog_keeps worker_inv processMessages_stop"
  unfolding processMessages_stop_def by (intro keeps)

lemma keeps_get_then: "(\<And>w. I w \<Longrightarrow> I (snd (run_state (f w) w))) \<Longrightarrow> prog_keeps I (State_Monad.bind State_Monad.get f)"
  by (simp add: prog_keeps_def)

lemma run_modify_then: "w_panic w = None \<Longrightarrow> run_state (State_Monad.bind (modify g) f) w = run_state (f ()) (g w)"
  by simp

lemma modify_then_inv:
  "I w \<Longrightarrow> I (g w) \<Longrightarrow> prog_keeps I (f ()) \<Longrightarrow> I (snd (run_state (State_Monad.bind (modify g) f) w))"
  by (simp add: prog_keeps_def)

lemma processMessages_recv_inv [keeps]: "prog_keeps worker_inv processMessages_recv"
  unfolding processMessages_recv_def
proof (rule keeps_get_then)
  fix w assume inv: "worker_inv w"
  then have "worker_inv (w\<lparr>w_recvCh := rest\<rparr>)" if "w_recvCh w = fs # rest" for fs rest
    using that by (simp add: worker_inv_def)
  then show "worker_inv (snd (run_state (case w_recvCh w of [] \<Rightarrow> State_Monad.return True
      | fs # rest \<Rightarrow> do { modify (\<lambda>w. w\<lparr>w_recvCh := rest\<rparr>); err \<leftarrow> validateConnectionState;
          if err \<noteq> None then do { worker_disconnect; State_Monad.return False }
          else do { worker_processMessage fs; State_Monad.return True } }) w))"
    using inv by (cases "w_recvCh w") (auto intro!: modify_then_inv keeps simp del: run_state_bind)
qed

lemma processMessages_error_inv [keeps]: "prog_keeps worker_inv processMessages_error"
  unfolding processMessages_error_def
proof (rule keeps_get_then)
  fix w assume inv: "worker_inv w"
  then have "worker_inv (w\<lparr>w_errorCh := rest\<rparr>)" if "w_errorCh w = e # rest" for e rest
    using that by (simp add: worker_inv_def)
  then show "worker_inv (snd (run_state (case w_errorCh w of [] \<Rightarrow> State_Monad.return True
      | e # rest \<Rightarrow> do { modify (\<lambda>w. w\<lparr>w_errorCh := rest\<rparr>); worker_disconnect; State_Monad.return False }) w))"
    using inv by (cases "w_errorCh w") (auto intro!: modify_then_inv keeps simp del: run_state_bind)
qed

lemma processMessages_inv [keeps]: "prog_keeps worker_inv (processMessages ev j)"
  unfolding processMessages_def by (intro keeps)

lemma forward_inv:
  assumes "worker_inv w" "length (w_recvCh w) < 10"
  shows "worker_inv (snd (run_state (do { modify (\<lambda>w. w\<lparr>w_recvCh := w_recvCh w @ [fs]\<rparr>); set_manager i AtLoop }) w))"
  by (rule modify_then_inv [where I = worker_inv]) (use assms in \<open>simp_all add: worker_inv_def keeps\<close>)

lemma socketManager_received_inv [keeps]: "prog_keeps worker_inv (socketManager_received out i)"
proof (cases out)
  case (RecvOk fs)
  show ?thesis unfolding socketManager_received_def RecvOk recv_result.case
    by (rule keeps_get_then) (simp del: run_state_bind add: forward_inv keepsD [OF set_loop_inv(2)])
next
  case (RecvErr e)
  show ?thesis unfolding socketManager_received_def RecvErr recv_result.case
    by (intro keeps keeps_modify) (simp add: worker_inv_def)
qed

lemma socketManager_forward_inv [keeps]: "prog_keeps worker_inv (socketManager_forward i)"
  unfolding socketManager_forward_def
proof (rule keeps_get_then)
  fix w assume "worker_inv w"
  then show "worker_inv (snd (run_state (case snd (w_managers w ! i) of
        Forwarding session fs \<Rightarrow>
          (if session = w_socketManagerID w \<and> length (w_recvCh w) < 10 then do {
             modify (\<lambda>w. w\<lparr>w_recvCh := w_recvCh w @ [fs]\<rparr>);
             set_manager i AtLoop
           }
           else State_Monad.return ())
      | _ \<Rightarrow> State_Monad.return ()) w))"
    by (cases "snd (w_managers w ! i)") (simp_all del: run_state_bind add: forward_inv)
qed

lemma doSendToBroker_frames:
  "run_state (doSendToBroker None s (wm_command m) (wm_clientAddr m) (wm_body m)) w =
     ((), if w_panic w = None then w\<lparr>w_sent := w_sent w @ [(s, message_frames (w_now w) m)]\<rparr> else w)"
  by (simp add: doSendToBroker_def message_frames_def Let_def)

lemma socketManager_loop_inv [keeps]: "prog_keeps worker_inv (socketManager_loop err i)"
  unfolding socketManager_loop_def
proof (rule keeps_get_then)
  fix w assume inv: "worker_inv w"
  have "worker_inv (snd (run_state (do { modify (\<lambda>w. w\<lparr>w_sendCh := rest\<rparr>);
        (case w_socket w of Some s \<Rightarrow> doSendToBroker err s (wm_command msg) (wm_clientAddr msg) (wm_body msg)
         | None \<Rightarrow> State_Monad.return ()) }) w))" if "w_sendCh w = msg # rest" for msg rest
  proof -
    define w1 where "w1 = (if w_panic w = None then w\<lparr>w_sendCh := rest\<rparr> else w)"
    have inv1: "worker_inv w1" "w_socket w1 = w_socket w" "w_panic w1 = w_panic w" "w_service w1 = w_service w"
      using inv that by (simp_all add: w1_def worker_inv_def)
    have "prog_keeps worker_inv (doSendToBroker (Some e) s c a b)" for e s c a b
      unfolding doSendToBroker_def Let_def by (auto intro: keeps)
    moreover have "proper (w_service w) msg" using inv that by (simp add: worker_inv_def)
    then have "worker_inv (snd (run_state (doSendToBroker None s (wm_command msg) (wm_clientAddr msg) (wm_body msg)) w1))"
      if "w_socket w = Some s" for s
      using inv1 that unfolding doSendToBroker_frames by (auto simp: worker_inv_def)
    ultimately show ?thesis
      using inv1(1) by (cases err) (auto simp: w1_def prog_keeps_def split: option.split)
  qed
  then show "worker_inv (snd (run_state (if fst (w_managers w ! i) \<noteq> w_socketManagerID w then manager_exits i
     else (case w_sendCh w of
         msg # rest \<Rightarrow> do { modify (\<lambda>w. w\<lparr>w_sendCh := rest\<rparr>);
           (case w_socket w of Some s \<Rightarrow> doSendToBroker err s (wm_command msg) (wm_clientAddr msg) (wm_body msg)
            | None \<Rightarrow> State_Monad.return ()) }
       | [] \<Rightarrow> (case w_socket w of Some s \<Rightarrow> set_manager i (InRecv s) | None \<Rightarrow> State_Monad.return ()))) w))"
    using inv keepsD [OF manager_exits_inv inv] keepsD [OF set_loop_inv(2) inv]
    by (cases "w_sendCh w") (auto simp del: run_state_bind split: option.split)
qed

lemma run_look_then: "run_state (State_Monad.bind (look g) f) w = run_state (f (g w)) w"
  by simp

lemma connectToBroker_inv [keeps]: "prog_keeps worker_inv (connectToBroker err)"
proof -
  have dial: "prog_keeps worker_inv (State_Monad.bind (look w_dialled) (\<lambda>n. State_Monad.bind (modify (\<lambda>w. w\<lparr>w_dialled := n + 1\<rparr>))
      (\<lambda>_. if err \<noteq> None then State_Monad.return False else State_Monad.bind (modify (\<lambda>w. w\<lparr>w_socket := Some n\<rparr>)) f)))"
    if "prog_keeps worker_inv (f ())" for f :: "unit \<Rightarrow> bool prog"
  proof (rule keepsI)
    fix w assume inv: "worker_inv w"
    then have "worker_inv (w\<lparr>w_dialled := w_dialled w + 1\<rparr>)" "worker_inv (w\<lparr>w_dialled := w_dialled w + 1, w_socket := Some (w_dialled w)\<rparr>)"
      by (auto simp: worker_inv_def less_Suc_eq)
    then show "worker_inv (snd (run_state (State_Monad.bind (look w_dialled) (\<lambda>n. State_Monad.bind (modify (\<lambda>w. w\<lparr>w_dialled := n + 1\<rparr>))
      (\<lambda>_. if err \<noteq> None then State_Monad.return False else State_Monad.bind (modify (\<lambda>w. w\<lparr>w_socket := Some n\<rparr>)) f))) w))"
      using inv keepsD [OF that] by simp
  qed
  have ready: "prog_keeps worker_inv (State_Monad.bind (look w_service) (\<lambda>service. State_Monad.bind (sendToBroker WorkerReady [] service) g))"
    if "prog_keeps worker_inv (g ())" for g :: "unit \<Rightarrow> bool prog"
  proof (rule keepsI)
    fix w assume inv: "worker_inv w"
    then have "worker_inv (snd (run_state (sendToBroker WorkerReady [] (w_service w)) w))" by (rule sendToBroker_inv) simp
    then show "worker_inv (snd (run_state (State_Monad.bind (look w_service) (\<lambda>service. State_Monad.bind (sendToBroker WorkerReady [] service) g)) w))"
      using keepsD [OF that] by (cases "run_state (sendToBroker WorkerReady [] (w_service w)) w") simp
  qed
  show ?thesis unfolding connectToBroker_def by (intro keeps_return keeps_if queryState_inv keeps_bind [OF queryState_inv]
      keeps_bind [OF close_socket_inv] keeps_bind [OF initSocketChannels_inv] dial keeps_bind [OF updateState_inv]
      keeps_bind [OF updateStats_inv] keeps_bind [OF keeps_look] ready)
qed

lemma workerLoop_connect_inv [keeps]: "prog_keeps worker_inv (workerLoop_connect err j)"
  unfolding workerLoop_connect_def by (intro keeps keeps_modify) simp

lemma worker_Start_inv [keeps]: "prog_keeps worker_inv worker_Start"
  unfolding worker_Start_def by (intro keeps keeps_modify) simp

lemma worker_Stop_inv [keeps]: "prog_keeps worker_inv (worker_Stop err)"
  unfolding worker_Stop_def by (intro keeps keeps_modify) simp_all

lemma worker_step_inv: "worker_step w w' \<Longrightarrow> worker_inv w \<Longrightarrow> worker_inv w'"
  by (induction rule: worker_step.induct) (simp_all add: keepsD keeps)

lemma worker_reachable_inv: "worker_reachable w \<Longrightarrow> worker_inv w"
proof -
  assume "worker_reachable w"
  then obtain now service h opts w0 where w0: "NewWorker now service (Some h) opts = Ok w0" and steps: "worker_step\<^sup>*\<^sup>* w0 w"
    by (auto simp: worker_reachable_def)
  have "worker_inv w0" using w0 by (auto simp: NewWorker_def worker_inv_def init_channels_def Let_def)
  with steps show ?thesis by (induction rule: rtranclp_induct) (auto intro: worker_step_inv)
qed

lemma reachable_new: "NewWorker now service (Some h) opts = Ok w \<Longrightarrow> worker_reachable w"
  unfolding worker_reachable_def by blast

lemma worker_reachable_step: "worker_reachable w \<Longrightarrow> worker_step w w' \<Longrightarrow> worker_reachable w'"
  unfolding worker_reachable_def by (meson rtranclp.rtrancl_into_rtrancl)

lemma stats_settled: "vars w = m \<Longrightarrow> w_statsUpdateCh w = [] \<Longrightarrow> w_stateUpdateCh w = [] \<Longrightarrow> w_state w = m"
  by (simp add: vars_def)

lemma settled_vars: "w_stateUpdateCh w = [] \<Longrightarrow> vars w = w_state w"
  by (simp add: vars_def)

lemma worker_processRequest_prompt:
  assumes p: "prompt w" and r: "m_socketReady (vars w)" and s: "length (w_sendCh w) < 10" and e: "\<not> m_expectReply (vars w)"
  shows "\<exists>w'. run_state (worker_processRequest msg) w = ((), w') \<and> prompt w' \<and> w_sent w' = w_sent w \<and> w_socket w' = w_socket w \<and>
    w_options w' = w_options w \<and> w_managers w' = w_managers w \<and> w_socketManagerID w' = w_socketManagerID w \<and> w_now w' = w_now w \<and>
    w_sendCh w' = w_sendCh w @ [\<lparr>wm_command = WorkerReply, wm_clientAddr = ClientAddr msg,
      wm_body = (case w_handler w (Body msg) of Inr reply \<Rightarrow> reply | Inl err \<Rightarrow> str ''Error: '' @ err)\<rparr>] \<and>
    \<not> m_expectReply (vars w') \<and> m_socketReady (vars w') \<and> m_liveness (vars w') = m_liveness (vars w) \<and>
    m_connected (vars w') = m_connected (vars w)"
proof -
  let ?s = "settle w"
  have q: "run_state (queryState queryGetExpectReply) w = (Some (ABool False), ?s)"
    using p e by (simp add: query_prompt vars_settle)
  define w1 where "w1 = push_stats statsIncRequests (push_state (stateExpectReply (ClientAddr msg)) ?s)"
  define w2 where "w2 = (case w_handler w (Body msg) of Inr reply \<Rightarrow> w1 | Inl err \<Rightarrow> push_stats statsIncErrors w1)"
  let ?reply = "case w_handler w (Body msg) of Inr reply \<Rightarrow> reply | Inl err \<Rightarrow> str ''Error: '' @ err"
  have w1: "vars w1 = (w_state ?s)\<lparr>m_expectReply := True, m_replyTo := ClientAddr msg\<rparr>" "prompt w1" "w_sendCh w1 = w_sendCh w"
    "w_handler w1 = w_handler w"
    using p by (simp_all add: w1_def settled_vars)
  have w2: "vars w2 = vars w1" "prompt w2" "w_sendCh w2 = w_sendCh w" "w_sent w2 = w_sent w" "w_socket w2 = w_socket w" "w_options w2 = w_options w"
    "w_managers w2 = w_managers w" "w_socketManagerID w2 = w_socketManagerID w" "w_now w2 = w_now w"
    using w1 by (simp_all add: w2_def w1_def split: sum.split)
  have run: "run_state (worker_processRequest msg) w = run_state (sendReply ?reply) w2"
    using w1 p by (simp add: worker_processRequest_def q update_prompt stats_prompt w2_def w1_def split: sum.split)
  have "m_socketReady (vars w2)" "m_expectReply (vars w2)" "m_replyTo (vars w2) = ClientAddr msg" "length (w_sendCh w2) < 10"
    using r s by (simp_all add: w2 w1 vars_settle)
  from sendReply_prompt [OF w2(2) this(1,4,2), of ?reply] this(3)
  show ?thesis unfolding run by (auto simp: w2 w1 vars_settle r)
qed

text \<open>Processing a REQUEST, and the iteration of the socket manager that sends the reply.\<close>

lemma request_replied:
  assumes "prompt w" "m_socketReady (vars w)" "\<not> m_expectReply (vars w)" "length (w_sendCh w) < 10"
    and "ParseWorkerMessage (w_now w) fs = Ok msg" "Command msg = WorkerRequest"
    and reply: "reply = (case w_handler w (Body msg) of Inr r \<Rightarrow> r | Inl err \<Rightarrow> str ''Error: '' @ err)"
  shows "\<exists>w'. run_state (worker_processMessage fs) w = ((), w') \<and>
    w_sendCh w' = w_sendCh w @ [\<lparr>wm_command = WorkerReply, wm_clientAddr = ClientAddr msg, wm_body = reply\<rparr>] \<and>
    prompt w' \<and> m_socketReady (vars w') \<and> \<not> m_expectReply (vars w') \<and> w_sent w' = w_sent w \<and> w_socket w' = w_socket w \<and>
    w_managers w' = w_managers w \<and> w_socketManagerID w' = w_socketManagerID w \<and> w_now w' = w_now w"
proof -
  define w1 where "w1 = push_state (stateSetLiveness (wo_HeartbeatLiveness (w_options w))) w"
  have w1: "prompt w1" "m_socketReady (vars w1)" "\<not> m_expectReply (vars w1)" "length (w_sendCh w1) < 10" "w_sendCh w1 = w_sendCh w"
    "w_handler w1 = w_handler w" "w_sent w1 = w_sent w" "w_socket w1 = w_socket w" "w_options w1 = w_options w"
    "w_managers w1 = w_managers w" "w_socketManagerID w1 = w_socketManagerID w" "w_now w1 = w_now w"
    using assms(1-4) by (simp_all add: w1_def) (simp_all add: push_state_def vars_def)
  have run: "run_state (worker_processMessage fs) w = run_state (worker_processRequest msg) w1"
    using assms(1,5,6) by (simp add: worker_processMessage_def update_prompt w1_def)
  show ?thesis using worker_processRequest_prompt [OF w1(1,2,4,3), of msg] unfolding run by (auto simp: w1 reply)
qed

lemma reply_sent:
  assumes "w_panic w = None" "w_sendCh w = \<lparr>wm_command = WorkerReply, wm_clientAddr = addr, wm_body = reply\<rparr> # rest"
    "w_socket w = Some s" "fst (w_managers w ! i) = w_socketManagerID w"
  shows "w_sent (snd (run_state (socketManager_loop None i) w)) =
    w_sent w @ [(s, FormatWorkerMessage (NewWorkerMessage (w_now w) WorkerReply addr reply))]"
  using assms by (simp add: socketManager_loop_def doSendToBroker_def Let_def)

text \<open>
  C28: A request is answered once, and to the right client. If the state manager is prompt, a
  connected worker that is not busy and has room in its send queue answers a REQUEST from the
  broker by queueing exactly one REPLY, for the client of the request, with the result of the
  handler (or the text of its error), and is ready for the next request; and the next iteration
  of the socket manager that finds it first in the queue sends it to the broker, as frames that
  parse to it. The address of the client is not empty.
\<close>

theorem worker_answers_request:
  assumes "prompt w" "m_socketReady (vars w)" "\<not> m_expectReply (vars w)" "length (w_sendCh w) < 10"
    and "ParseWorkerMessage (w_now w) fs = Ok msg" "Command msg = WorkerRequest" "ClientAddr msg \<noteq> []"
    and reply: "reply = (case w_handler w (Body msg) of Inr r \<Rightarrow> r | Inl err \<Rightarrow> str ''Error: '' @ err)"
  shows "\<exists>w'. run_state (worker_processMessage fs) w = ((), w') \<and>
    w_sendCh w' = w_sendCh w @ [\<lparr>wm_command = WorkerReply, wm_clientAddr = ClientAddr msg, wm_body = reply\<rparr>] \<and>
    prompt w' \<and> m_socketReady (vars w') \<and> \<not> m_expectReply (vars w') \<and>
    (w_sendCh w = [] \<and> w_socket w = Some s \<and> fst (w_managers w ! i) = w_socketManagerID w \<longrightarrow>
      (\<exists>frames m. w_sent (snd (run_state (socketManager_loop None i) w')) = w_sent w @ [(s, frames)] \<and>
        ParseWorkerMessage now frames = Ok m \<and> Command m = WorkerReply \<and> ClientAddr m = ClientAddr msg \<and> Body m = reply))"
proof -
  obtain w' where w': "run_state (worker_processMessage fs) w = ((), w')" "prompt w'" "w_sent w' = w_sent w" "w_socket w' = w_socket w"
    "w_sendCh w' = w_sendCh w @ [\<lparr>wm_command = WorkerReply, wm_clientAddr = ClientAddr msg, wm_body = reply\<rparr>]"
    "\<not> m_expectReply (vars w')" "m_socketReady (vars w')" "w_managers w' = w_managers w" "w_socketManagerID w' = w_socketManagerID w"
    using request_replied [OF assms(1-6) reply] by blast
  let ?m = "NewWorkerMessage (w_now w') WorkerReply (ClientAddr msg) reply"
  have parse: "ParseWorkerMessage now (FormatWorkerMessage ?m) =
      Ok ((received_worker ?m)\<lparr>Frames := FormatWorkerMessage ?m, RoutingEnvelope := [], Timestamp := now\<rparr>)"
    by (rule worker.parse_fmt_plain) (simp_all add: worker_ok_def NewWorkerMessage_def zero_Message_def)
  have fields: "Command (received_worker ?m) = WorkerReply" "ClientAddr (received_worker ?m) = ClientAddr msg" "Body (received_worker ?m) = reply"
    using assms(7) by (simp_all add: received_worker_def sent_envelope_def NewWorkerMessage_def zero_Message_def)
  have "w_sent (snd (run_state (socketManager_loop None i) w')) = w_sent w @ [(s, FormatWorkerMessage ?m)]"
    if "w_sendCh w = []" "w_socket w = Some s" "fst (w_managers w ! i) = w_socketManagerID w"
    using reply_sent [of w' "ClientAddr msg" reply "[]" s i] that w' by (simp add: prompt_def)
  then show ?thesis using w' parse fields by auto
qed

section \<open>Lemmas: connecting\<close>

lemma connect_prompt:
  assumes p: "prompt w" and c: "\<not> m_connected (vars w)" and sec: "wo_Security (w_options w) = None"
  shows "\<exists>w'. run_state (connectToBroker None) w = (True, w') \<and> prompt w' \<and> w_sent w' = w_sent w \<and> w_loops w' = w_loops w \<and>
    w_sendCh w' = [\<lparr>wm_command = WorkerReady, wm_clientAddr = [], wm_body = w_service w\<rparr>] \<and>
    w_socket w' = Some (w_dialled w) \<and> w_dialled w' = w_dialled w + 1 \<and> w_managers w' = w_managers w \<and> w_recvCh w' = [] \<and>
    w_socketManagerID w' = w_socketManagerID w + 1 \<and> w_service w' = w_service w \<and> w_handler w' = w_handler w \<and>
    m_connected (vars w') \<and> m_socketReady (vars w') \<and> m_expectReply (vars w') = m_expectReply (vars w) \<and>
    m_liveness (vars w') = wo_HeartbeatLiveness (w_options w) \<and> w_now w' = w_now w \<and> w_options w' = w_options w"
proof -
  let ?s = "settle w"
  define a where "a = snd (run_state close_socket ?s)"
  have a: "run_state close_socket ?s = ((), a)" "w_panic a = None" "w_dialled a = w_dialled w" "prompt (init_channels a)"
    "w_stateUpdateCh a = []" "w_statsUpdateCh a = []" "w_socketManagerID a = w_socketManagerID w" "w_service a = w_service w"
    "w_handler a = w_handler w" "w_state a = w_state ?s" "w_sent a = w_sent w" "w_managers a = w_managers w" "w_loops a = w_loops w"
    "w_options a = w_options w" "w_now a = w_now w"
    using p by (auto simp: a_def close_socket_def prompt_def init_channels_def split: option.split)
  define w1 where "w1 = (init_channels a)\<lparr>w_dialled := Suc (w_dialled w), w_socket := Some (w_dialled w)\<rparr>"
  have w1: "prompt w1" "w_stateUpdateCh w1 = []" "w_statsUpdateCh w1 = []" "w_sendCh w1 = []" "w_socket w1 = Some (w_dialled w)"
    "w_dialled w1 = w_dialled w + 1" "w_socketManagerID w1 = w_socketManagerID w + 1" "w_service w1 = w_service w"
    "w_handler w1 = w_handler w" "w_state w1 = w_state ?s" "w_sent w1 = w_sent w" "w_managers w1 = w_managers w" "w_loops w1 = w_loops w"
    "w_options w1 = w_options w" "w_recvCh w1 = []" "w_now w1 = w_now w"
    using a by (simp_all add: w1_def init_channels_def prompt_def)
  have q: "run_state (queryState queryIsConnected) w = (Some (ABool False), ?s)" using p c by (simp add: query_prompt vars_settle)
  define w2 where "w2 = push_state (stateSetSocketReady True) (push_stats statsIncReconnects (push_state stateConnected w1))"
  have w2: "prompt w2" "w_sendCh w2 = []" "w_options w2 = w_options w" "w_service w2 = w_service w" using w1 by (simp_all add: w2_def)
  have v: "vars w2 = (w_state ?s)\<lparr>m_connected := True, m_liveness := wo_HeartbeatLiveness (w_options w),
      m_heartbeatAt := w_now w + wo_HeartbeatInterval (w_options w), m_socketReady := True\<rparr>"
    using w1 by (simp add: w2_def push_state_def push_stats_def vars_def)
  have sec2: "validateSecurityReadiness (push_stats statsIncReconnects (push_state stateConnected w1)) = None"
    using sec w1 by (simp add: validateSecurityReadiness_def)
  have init: "run_state initSocketChannels a = ((), init_channels a)" "w_dialled (init_channels a) = w_dialled w" "w_panic (init_channels a) = None"
    using a(2,3) by (simp_all add: initSocketChannels_def init_channels_def)
  have run: "run_state (connectToBroker None) w = (case run_state (sendToBroker WorkerReady [] (w_service w)) w2 of (x, w') \<Rightarrow> (True, w'))"
    using w1 w2(4) sec2
    by (simp add: connectToBroker_def q a(1) init w1_def [symmetric] update_prompt stats_prompt w2_def)
  have "run_state (sendToBroker WorkerReady [] (w_service w)) w2 =
      ((), (settle w2)\<lparr>w_sendCh := [\<lparr>wm_command = WorkerReady, wm_clientAddr = [], wm_body = w_service w\<rparr>]\<rparr>)"
    using sendToBroker_prompt [OF w2(1), of WorkerReady "[]" "w_service w"] w2(2) v by simp
  then show ?thesis
    unfolding run using w2 by (simp add: vars_settle v prompt_def) (simp add: w2_def w1 vars_settle)
qed

section \<open>Theorems\<close>

text \<open>
  C29: Whatever the schedule, the channels of a worker stay within their capacities and it speaks
  the protocol: every message it sent went over a socket it had dialled and parses, on the side
  of the broker, as READY with its service, or as REPLY, HEARTBEAT or DISCONNECT.
\<close>

theorem worker_sends_valid:
  assumes "worker_reachable w"
  shows "length (w_stateUpdateCh w) \<le> 10 \<and> length (w_statsUpdateCh w) \<le> 10 \<and> length (w_sendCh w) \<le> 10 \<and>
    length (w_recvCh w) \<le> 10 \<and> length (w_errorCh w) \<le> 1 \<and>
    ((s, fs) \<in> set (w_sent w) \<longrightarrow> s < w_dialled w \<and>
      (\<exists>m. ParseWorkerMessage now fs = Ok m \<and>
        (Command m = WorkerReady \<and> Message.Service m = w_service w \<or>
         Command m \<in> {WorkerReply, WorkerHeartbeat, WorkerDisconnect})))"
proof -
  have inv: "worker_inv w" by (rule worker_reachable_inv [OF assms])
  have "\<exists>m. ParseWorkerMessage now fs = Ok m \<and>
        (Command m = WorkerReady \<and> Message.Service m = w_service w \<or>
         Command m \<in> {WorkerReply, WorkerHeartbeat, WorkerDisconnect})" if sent: "(s, fs) \<in> set (w_sent w)"
  proof -
    obtain t m where m: "proper (w_service w) m" "fs = message_frames t m" using inv sent unfolding worker_inv_def by blast
    define msg where "msg = (let msg = NewWorkerMessage t (wm_command m) (wm_clientAddr m) (wm_body m)
      in if wm_command m = WorkerReady then msg\<lparr>Message.Service := wm_body m, Body := []\<rparr> else msg)"
    have service: "w_service w \<noteq> []" "length (w_service w) \<le> 255" using inv by (auto simp: worker_inv_def)
    have fs: "fs = FormatWorkerMessage msg" by (simp add: m(2) message_frames_def msg_def Let_def)
    have msg: "worker_ok msg" "RoutingEnvelope msg = []" "Command msg = wm_command m"
      "wm_command m = WorkerReady \<longrightarrow> Message.Service msg = w_service w"
      using m(1) service by (auto simp: msg_def worker_ok_def proper_def NewWorkerMessage_def zero_Message_def Let_def)
    have "Command (received_worker msg) = wm_command m"
      "wm_command m = WorkerReady \<longrightarrow> Message.Service (received_worker msg) = w_service w"
      using msg by (auto simp: received_worker_def)
    then show ?thesis using worker.parse_fmt_plain [OF msg(1,2), of now] m(1) unfolding fs proper_def by auto
  qed
  then show ?thesis using inv by (auto simp: worker_inv_def)
qed

definition sample_mdp_worker :: Worker where
  "sample_mdp_worker = (case NewWorker 0 [101] (Some Inr) None of Ok w \<Rightarrow> w)"

lemma sample_mdp_worker_new: "NewWorker 0 [101] (Some Inr) None = Ok sample_mdp_worker"
  by (simp add: sample_mdp_worker_def NewWorker_def ServiceName_Validate_def Let_def)

lemma sample_mdp_worker_fields:
  "prompt sample_mdp_worker" "w_service sample_mdp_worker = [101]" "w_socketManagerID sample_mdp_worker = 1" "w_dialled sample_mdp_worker = 0"
  "w_options sample_mdp_worker = DefaultWorkerOptions" "w_sent sample_mdp_worker = []" "w_managers sample_mdp_worker = []" "w_now sample_mdp_worker = 0"
  "w_handler sample_mdp_worker = Inr" "w_stateUpdateCh sample_mdp_worker = []" "w_statsUpdateCh sample_mdp_worker = []"
  "w_loops sample_mdp_worker = []" "vars sample_mdp_worker = init_stateVars DefaultWorkerOptions 0"
  by (simp_all add: sample_mdp_worker_def NewWorker_def ServiceName_Validate_def Let_def init_channels_def prompt_def vars_def)

text \<open>A worker that was started and has connected.\<close>

lemma start_connects:
  assumes "NewWorker now service (Some h) opts = Ok w0" "wo_Security (w_options w0) = None"
  shows "\<exists>w. worker_reachable w \<and> prompt w \<and> w_service w = service \<and> w_handler w = h \<and> w_socket w = Some 0 \<and> w_dialled w = 1 \<and>
    w_sendCh w = [\<lparr>wm_command = WorkerReady, wm_clientAddr = [], wm_body = service\<rparr>] \<and> w_sent w = [] \<and> w_recvCh w = [] \<and>
    w_managers w = [(2, AtLoop)] \<and> w_socketManagerID w = 2 \<and> w_loops w = [Processing 0] \<and> w_now w = now \<and>
    m_connected (vars w) \<and> m_socketReady (vars w) \<and> \<not> m_expectReply (vars w) \<and> m_liveness (vars w) = wo_HeartbeatLiveness (w_options w)"
proof -
  have w0: "prompt w0" "w_stateUpdateCh w0 = []" "w_statsUpdateCh w0 = []" "w_loops w0 = []" "w_sent w0 = []" "w_managers w0 = []"
    "w_dialled w0 = 0" "w_socketManagerID w0 = 1" "w_service w0 = service" "w_handler w0 = h" "w_now w0 = now"
    "vars w0 = init_stateVars (w_options w0) now"
    using assms(1) by (auto simp: NewWorker_def Let_def init_channels_def prompt_def vars_def)
  define w1 where "w1 = snd (run_state worker_Start w0)"
  have "run_state (queryState queryIsRunning) w0 = (Some (ABool False), w0)"
    using w0 by (simp add: query_prompt) (simp add: vars_def init_stateVars_def)
  then have start: "w1 = (push_state (stateSetRunning True) w0)\<lparr>w_loops := [Connecting]\<rparr>"
    using w0(1,4) by (simp add: w1_def worker_Start_def update_prompt) (simp add: prompt_def push_state_def)
  have w1: "prompt w1" "vars w1 = (init_stateVars (w_options w0) now)\<lparr>m_running := True\<rparr>" "w_loops w1 = [Connecting]"
    using w0 by (simp_all add: start prompt_def push_state_def vars_def)
  have w1': "w_managers w1 = []" "w_options w1 = w_options w0" "w_service w1 = service" "w_dialled w1 = 0" "w_socketManagerID w1 = 1"
    "w_sent w1 = []" "w_handler w1 = h" "w_now w1 = now"
    using w0 by (simp_all add: start)
  have "\<not> m_connected (vars w1)" using w1 by (simp add: init_stateVars_def)
  then have "\<exists>w'. run_state (connectToBroker None) w1 = (True, w') \<and> prompt w' \<and> w_sent w' = w_sent w1 \<and> w_loops w' = w_loops w1 \<and>
    w_sendCh w' = [\<lparr>wm_command = WorkerReady, wm_clientAddr = [], wm_body = w_service w1\<rparr>] \<and>
    w_socket w' = Some (w_dialled w1) \<and> w_dialled w' = w_dialled w1 + 1 \<and> w_managers w' = w_managers w1 \<and> w_recvCh w' = [] \<and>
    w_socketManagerID w' = w_socketManagerID w1 + 1 \<and> w_service w' = w_service w1 \<and> w_handler w' = w_handler w1 \<and>
    m_connected (vars w') \<and> m_socketReady (vars w') \<and> m_expectReply (vars w') = m_expectReply (vars w1) \<and>
    m_liveness (vars w') = wo_HeartbeatLiveness (w_options w1) \<and> w_now w' = w_now w1 \<and> w_options w' = w_options w1"
    using assms(2) w1'(2) by (intro connect_prompt [OF w1(1)]) simp_all
  then obtain w2 where w2: "run_state (connectToBroker None) w1 = (True, w2)" "prompt w2" "w_sent w2 = []" "w_loops w2 = [Connecting]"
    "w_sendCh w2 = [\<lparr>wm_command = WorkerReady, wm_clientAddr = [], wm_body = service\<rparr>]" "w_socket w2 = Some 0" "w_dialled w2 = 1"
    "w_managers w2 = []" "w_recvCh w2 = []" "w_socketManagerID w2 = 1 + 1" "w_service w2 = service" "w_handler w2 = h"
    "m_connected (vars w2)" "m_socketReady (vars w2)" "m_expectReply (vars w2) = m_expectReply (vars w1)"
    "m_liveness (vars w2) = wo_HeartbeatLiveness (w_options w0)" "w_now w2 = now" "w_options w2 = w_options w0"
    unfolding w1' w1(3) by auto
  have close: "run_state closeSocketChannels w1 = ((), w1)"
    using w1' by (simp add: closeSocketChannels_def signal_close_def)
  let ?w = "w2\<lparr>w_managers := [(w_socketManagerID w2, AtLoop)], w_loops := [Processing 0]\<rparr>"
  have run: "snd (run_state (workerLoop_connect None 0) w1) = ?w"
    using w1(1,3) w2(1,2,4,8) by (simp add: workerLoop_connect_def close set_loop_def prompt_def)
  have "worker_step w0 w1" unfolding w1_def by (rule worker_step.start)
  moreover have "worker_step w1 ?w" unfolding run [symmetric] by (rule worker_step.connect) (simp_all add: w1)
  ultimately have "worker_reachable ?w" by (meson reachable_new [OF assms(1)] worker_reachable_step)
  moreover have "vars ?w = vars w2" "prompt ?w = prompt w2" by (simp_all add: vars_def prompt_def)
  ultimately show ?thesis using w2 w1(2) by (intro exI [of _ ?w]) (simp add: init_stateVars_def)
qed

theorem worker_sends_valid_witness:
  "\<exists>w fs m. worker_reachable w \<and> w_sent w = [(0, fs)] \<and> ParseWorkerMessage 0 fs = Ok m \<and> length (w_sendCh w) \<le> 10"
proof -
  obtain w where w: "worker_reachable w" "prompt w" "w_socket w = Some 0" "w_sendCh w = [\<lparr>wm_command = WorkerReady, wm_clientAddr = [], wm_body = [101]\<rparr>]"
    "w_sent w = []" "w_managers w = [(2, AtLoop)]" "w_socketManagerID w = 2"
    using start_connects [OF sample_mdp_worker_new] by (auto simp: sample_mdp_worker_fields DefaultWorkerOptions_def)
  let ?w = "snd (run_state (socketManager_loop None 0) w)"
  have "worker_step w ?w" by (rule worker_step.manage) (simp_all add: w)
  then have reach: "worker_reachable ?w" by (rule worker_reachable_step [OF w(1)])
  obtain fs where sent: "w_sent ?w = [(0, fs)]"
    using w by (simp add: socketManager_loop_def doSendToBroker_def Let_def prompt_def)
  from worker_sends_valid [OF reach, of 0 fs 0] sent show ?thesis using reach by auto
qed

text \<open>A REQUEST of the client 99 for a worker that has just connected.\<close>

definition sample_mdp_request :: frames where
  "sample_mdp_request = FormatWorkerMessage (NewWorkerMessage 0 WorkerRequest [99] [65])"

lemma sample_mdp_request_parse: "\<exists>m. ParseWorkerMessage now sample_mdp_request = Ok m \<and> Command m = WorkerRequest \<and> ClientAddr m = [99] \<and> Body m = [65]"
proof -
  let ?m = "NewWorkerMessage 0 WorkerRequest [99] [65]"
  have "ParseWorkerMessage now (FormatWorkerMessage ?m) =
      Ok ((received_worker ?m)\<lparr>Frames := FormatWorkerMessage ?m, RoutingEnvelope := [], Timestamp := now\<rparr>)"
    by (rule worker.parse_fmt_plain) (simp_all add: worker_ok_def NewWorkerMessage_def zero_Message_def)
  then show ?thesis
    by (simp add: sample_mdp_request_def received_worker_def sent_envelope_def) (simp add: NewWorkerMessage_def zero_Message_def)
qed

theorem worker_answers_request_witness:
  "\<exists>w w'. worker_reachable w \<and> run_state (worker_processMessage sample_mdp_request) w = ((), w') \<and>
    w_sendCh w' = w_sendCh w @ [\<lparr>wm_command = WorkerReply, wm_clientAddr = [99], wm_body = [65]\<rparr>]"
proof -
  obtain w where w: "worker_reachable w" "prompt w" "w_handler w = Inr" "w_sendCh w = [\<lparr>wm_command = WorkerReady, wm_clientAddr = [], wm_body = [101]\<rparr>]"
    "m_socketReady (vars w)" "\<not> m_expectReply (vars w)"
    using start_connects [OF sample_mdp_worker_new] by (auto simp: sample_mdp_worker_fields DefaultWorkerOptions_def)
  obtain m where m: "ParseWorkerMessage (w_now w) sample_mdp_request = Ok m" "Command m = WorkerRequest" "ClientAddr m = [99]" "Body m = [65]"
    using sample_mdp_request_parse by blast
  have "length (w_sendCh w) < 10" "ClientAddr m \<noteq> []" by (simp_all add: w m)
  note answers = worker_answers_request [OF w(2,5,6) this(1) m(1,2) this(2) refl, of 0 0 0]
  obtain w' where "run_state (worker_processMessage sample_mdp_request) w = ((), w')"
    "w_sendCh w' = w_sendCh w @ [\<lparr>wm_command = WorkerReply, wm_clientAddr = [99], wm_body = [65]\<rparr>]"
    using answers by (auto simp: m w(3))
  then show ?thesis using w(1) by blast
qed

section \<open>What goes wrong when the state manager lags\<close>

lemma busy_ignores:
  assumes "prompt w" "m_expectReply (vars w)" "\<forall>m. ParseWorkerMessage (w_now w) fs = Ok m \<longrightarrow> Command m \<noteq> WorkerDisconnect"
  shows "\<exists>w'. run_state (worker_processMessage fs) w = ((), w') \<and> prompt w' \<and> m_expectReply (vars w') \<and> w_sendCh w' = w_sendCh w \<and>
    w_now w' = w_now w"
proof -
  define w1 where "w1 = push_state (stateSetLiveness (wo_HeartbeatLiveness (w_options w))) w"
  have w1: "prompt w1" "m_expectReply (vars w1)" "w_sendCh w1 = w_sendCh w" "w_now w1 = w_now w"
    using assms by (simp_all add: w1_def) (simp add: push_state_def vars_def)
  have q: "run_state (queryState queryGetExpectReply) w1 = (Some (ABool True), settle w1)"
    using w1 by (simp add: query_prompt vars_settle)
  have "run_state (worker_processRequest m) w1 = ((), settle w1)" for m by (simp add: worker_processRequest_def q)
  then have "run_state (worker_processMessage fs) w \<in> {((), w1), ((), settle w1)}"
    using assms(1,3) ParseWorkerMessage_no_panic [of "w_now w" fs]
    by (auto simp: worker_processMessage_def update_prompt w1_def [symmetric] split: result.split)
  then show ?thesis using w1 by (auto simp: vars_settle)
qed

fun process_all :: "frames list \<Rightarrow> Worker \<Rightarrow> Worker" where
  "process_all [] w = w"
| "process_all (fs # fss) w = process_all fss (snd (run_state (worker_processMessage fs) w))"

lemma busy_forever:
  "prompt w \<Longrightarrow> m_expectReply (vars w) \<Longrightarrow>
   (\<forall>fs \<in> set fss. \<forall>m. ParseWorkerMessage (w_now w) fs = Ok m \<longrightarrow> Command m \<noteq> WorkerDisconnect) \<Longrightarrow>
   w_sendCh (process_all fss w) = w_sendCh w"
proof (induction fss arbitrary: w)
  case (Cons fs fss)
  obtain w' where w': "run_state (worker_processMessage fs) w = ((), w')" "prompt w'" "m_expectReply (vars w')" "w_sendCh w' = w_sendCh w" "w_now w' = w_now w"
    using busy_ignores [OF Cons.prems(1,2), of fs] Cons.prems(3) by auto
  then show ?case using Cons.IH [OF w'(2,3)] Cons.prems(3) by simp
qed simp

lemma query_choice:
  assumes "w_choices w = Some (n, k) # cs" "w_panic w = None" "\<not> w_stateClosed w"
  shows "run_state (queryState q) w =
    (Some (answer_query (w_service w) q (w_state (manager_runs n k w))), (manager_runs n k w)\<lparr>w_choices := cs\<rparr>)"
  using assms by (simp add: queryState_def run_state_next_choice manager_runs_def)

lemma query_closed:
  "w_stateClosed w \<Longrightarrow> w_panic w = None \<Longrightarrow> \<exists>w'. run_state (queryState q) w = (None, w') \<and> w_panic w' = None \<and>
     w_stopped w' = w_stopped w \<and> w_stateClosed w' \<and> w_loops w' = w_loops w"
  by (cases "w_choices w") (simp_all add: queryState_def run_state_next_choice)

lemma update_room:
  assumes "\<not> w_stopped w" "w_panic w = None" "\<not> w_stateClosed w"
  shows "run_state (updateState u) w = ((), push_state u w)" "run_state (updateStats v) w = ((), push_stats v w)"
  using assms by (simp_all add: updateState_def updateStats_def push_state_def push_stats_def)

text \<open>
  A worker can stop serving: if the manager answers the query of \<^verbatim>\<open>sendReply\<close> before it has seen the
  update of \<^verbatim>\<open>processRequest\<close>, the reply is dropped, and when the update is applied the worker expects
  a reply that is never sent: although its manager is prompt from then on, it drops every further
  request, until the broker disconnects it.
\<close>

theorem worker_race_stops_service:
  assumes "prompt w" "w_stateUpdateCh w = []" "w_statsUpdateCh w = []" "\<not> m_expectReply (w_state w)"
    and fs: "ParseWorkerMessage (w_now w) fs = Ok msg" "Command msg = WorkerRequest"
    and w1: "w1 = snd (run_state (worker_processMessage fs) (w\<lparr>w_choices := [Some (1, 0), Some (0, 0)]\<rparr>))"
    and fss: "\<forall>fs \<in> set fss. \<forall>m. ParseWorkerMessage (w_now w) fs = Ok m \<longrightarrow> Command m \<noteq> WorkerDisconnect"
  shows "w_sendCh w1 = w_sendCh w \<and> prompt w1 \<and> w_sendCh (process_all fss w1) = w_sendCh w"
proof -
  define reply where "reply = (case w_handler w (Body msg) of Inr r \<Rightarrow> r | Inl err \<Rightarrow> str ''Error: '' @ err)"
  define m1 where "m1 = (w_state w)\<lparr>m_liveness := wo_HeartbeatLiveness (w_options w)\<rparr>"
  define a where "a = w\<lparr>w_choices := [Some (0, 0)], w_state := m1, w_stateUpdateCh := [stateExpectReply (ClientAddr msg)]\<rparr>"
  define b where "b = a\<lparr>w_statsUpdateCh := (case w_handler w (Body msg) of Inr r \<Rightarrow> [statsIncRequests] | Inl err \<Rightarrow> [statsIncRequests, statsIncErrors])\<rparr>"
  have p: "w_choices w = []" "w_panic w = None" "\<not> w_stopped w" "\<not> w_stateClosed w" using assms(1) by (simp_all add: prompt_def)
  define w0 where "w0 = w\<lparr>w_choices := [Some (1, 0), Some (0, 0)], w_stateUpdateCh := [stateSetLiveness (wo_HeartbeatLiveness (w_options w))]\<rparr>"
  have q: "run_state (queryState queryGetExpectReply) w0 = (Some (ABool False), a\<lparr>w_stateUpdateCh := []\<rparr>)"
    using assms(2-4) p by (subst query_choice [where n = 1 and k = 0 and cs = "[Some (0, 0)]"]) (simp_all add: w0_def manager_runs_def a_def m1_def)
  have "run_state (worker_processMessage fs) (w\<lparr>w_choices := [Some (1, 0), Some (0, 0)]\<rparr>) = run_state (worker_processRequest msg) w0"
    using assms(2) fs p by (simp add: worker_processMessage_def update_room push_state_def w0_def)
  also have "\<dots> = run_state (sendReply reply) b"
  proof -
    have e: "run_state (updateState (stateExpectReply (ClientAddr msg))) (a\<lparr>w_stateUpdateCh := []\<rparr>) = ((), a)"
      using p by (subst update_room) (simp_all add: a_def push_state_def)
    have r: "run_state (updateStats statsIncRequests) a = ((), a\<lparr>w_statsUpdateCh := [statsIncRequests]\<rparr>)"
      using p assms(3) by (subst update_room) (simp_all add: a_def push_stats_def)
    have f: "run_state (updateStats statsIncErrors) (a\<lparr>w_statsUpdateCh := [statsIncRequests]\<rparr>) =
        ((), a\<lparr>w_statsUpdateCh := [statsIncRequests, statsIncErrors]\<rparr>)"
      using p by (subst update_room) (simp_all add: a_def push_stats_def)
    have "w_handler a = w_handler w" by (simp add: a_def)
    then show ?thesis by (simp add: worker_processRequest_def q e r f b_def reply_def split: sum.split)
  qed
  also have "\<dots> = ((), b\<lparr>w_choices := []\<rparr>)"
  proof -
    have "w_choices b = Some (0, 0) # []" "w_panic b = None" "\<not> w_stateClosed b" using p by (simp_all add: b_def a_def)
    from query_choice [OF this, of queryGetExpectReply] show ?thesis
      using assms(4) by (simp add: sendReply_def manager_runs_def) (simp add: b_def a_def m1_def)
  qed
  finally have w1_eq: "w1 = b\<lparr>w_choices := []\<rparr>" by (simp add: w1)
  have w1_facts: "prompt w1" "m_expectReply (vars w1)" "w_sendCh w1 = w_sendCh w" "w_now w1 = w_now w"
    using p by (simp_all add: w1_eq b_def a_def prompt_def vars_def)
  then show ?thesis using busy_forever [of w1 fss] fss by simp
qed

text \<open>
  A stopped worker cannot be started: \<^verbatim>\<open>Stop\<close> of a worker that does not run closes \<^verbatim>\<open>stateUpdateCh\<close>, and
  \<^verbatim>\<open>Start\<close> sends on it.
\<close>

theorem worker_stop_start_panics:
  assumes "NewWorker now service (Some h) opts = Ok w"
  shows "\<exists>w1 w2 e. run_state (worker_Stop err) (w\<lparr>w_choices := cs\<rparr>) = (Err e, w1) \<and>
    run_state worker_Start w1 = (Ok (), w2) \<and> w_panic w2 = Some ''send on closed channel'' \<and> w_loops w2 = []"
proof -
  let ?w = "w\<lparr>w_choices := cs\<rparr>"
  have w: "w_panic w = None" "\<not> w_stopped w" "\<not> w_stateClosed w" "\<not> w_stateStopped w" "w_stateUpdateCh w = []" "w_loops w = []" "\<not> m_running (w_state w)" "w_statsUpdateCh w = []"
    using assms by (auto simp: NewWorker_def Let_def init_channels_def init_stateVars_def)
  obtain a w0 where q: "run_state (queryState queryIsRunning) ?w = (a, w0)" by fastforce
  have w0: "a \<noteq> Some (ABool True)" "w_panic w0 = None" "\<not> w_stopped w0" "\<not> w_stateStopped w0" "w_loops w0 = []"
    using q w by (auto simp: queryState_def run_state_next_choice manager_runs_def split: list.splits option.splits)
  let ?w1 = "(manager_runs (length (w_stateUpdateCh w0)) 0 w0)\<lparr>w_stateStopped := True, w_stateClosed := True\<rparr>"
  have stop: "run_state (worker_Stop err) ?w = (Err (Errorf ''mdp: worker not running''), ?w1)"
    using w0 by (simp add: worker_Stop_def q stopStateManager_def)
  obtain w1' where q1: "run_state (queryState queryIsRunning) ?w1 = (None, w1')" "w_panic w1' = None" "\<not> w_stopped w1'" "w_stateClosed w1'" "w_loops w1' = []"
    using query_closed [of ?w1 queryIsRunning] w0 by auto
  then have "run_state worker_Start ?w1 = (Ok (), w1'\<lparr>w_panic := Some ''send on closed channel''\<rparr>)"
    by (simp add: worker_Start_def updateState_def)
  then show ?thesis using stop q1 by simp
qed

section \<open>Heartbeats and a silent broker\<close>

definition heartbeat_msg :: workerMessage where
  "heartbeat_msg = \<lparr>wm_command = WorkerHeartbeat, wm_clientAddr = [], wm_body = []\<rparr>"

text \<open>A prompt worker whose manager has nothing to do, connected and with a heartbeat due.\<close>

definition due :: "Worker \<Rightarrow> bool" where
  "due w \<longleftrightarrow> prompt w \<and> w_stateUpdateCh w = [] \<and> w_statsUpdateCh w = [] \<and> m_connected (w_state w) \<and> m_socketReady (w_state w) \<and>
     m_heartbeatAt (w_state w) < w_now w"

lemma query_settled:
  "prompt w \<Longrightarrow> w_stateUpdateCh w = [] \<Longrightarrow> w_statsUpdateCh w = [] \<Longrightarrow>
     run_state (queryState q) w = (Some (answer_query (w_service w) q (w_state w)), w)"
  by (simp add: query_prompt)

lemma settle_one:
  "w_stateUpdateCh w = [] \<Longrightarrow> w_statsUpdateCh w = [] \<Longrightarrow>
     settle (push_state u w) = w\<lparr>w_state := apply_state (w_options w) (w_now w) u (w_state w)\<rparr>"
  by (simp add: settle_def manager_runs_def push_state_def)

lemma tick_heartbeat_due:
  assumes "due w"
  shows "snd (run_state tick_heartbeat w) = push_state (stateSetHeartbeatTime (w_now w + wo_HeartbeatInterval (w_options w)))
    (if length (w_sendCh w) < 10 then w\<lparr>w_sendCh := w_sendCh w @ [heartbeat_msg]\<rparr> else push_state stateDecreaseLiveness w)"
proof -
  have d: "prompt w" "w_stateUpdateCh w = []" "w_statsUpdateCh w = []" "m_connected (w_state w)" "m_socketReady (w_state w)"
    "m_heartbeatAt (w_state w) < w_now w" "w_panic w = None" "\<not> w_stopped w"
    using assms by (simp_all add: due_def prompt_def)
  note q = query_settled [OF d(1-3)]
  have "prompt (w\<lparr>w_sendCh := x\<rparr>)" for x using d(1) by (simp add: prompt_def)
  then show ?thesis
    using d by (simp add: tick_heartbeat_def sendHeartbeat_def sendToBroker_def q Let_def update_prompt heartbeat_msg_def)
qed

lemma worker_disconnect_prompt:
  assumes "prompt w" "w_stateUpdateCh w = []" "w_statsUpdateCh w = []" "m_connected (w_state w)"
  shows "\<not> m_connected (vars (snd (run_state worker_disconnect w)))"
proof -
  define w1 where "w1 = push_state stateDisconnected (push_state stateSetSocketClosed w)"
  have "run_state worker_disconnect w = run_state signal_close w1"
    using assms by (simp add: worker_disconnect_def query_settled update_prompt w1_def)
  moreover have "\<not> m_connected (vars w1)" using assms(2) by (simp add: w1_def push_state_def vars_def)
  moreover have "vars (snd (run_state signal_close w1)) = vars w1"
    by (simp add: signal_close_def manager_exits_def Let_def split: option.split) (simp add: vars_def)
  ultimately show ?thesis by simp
qed

lemma tick_due:
  assumes "due w" "counter + 1 < 50" "0 < m_liveness (w_state w)"
  shows "length (w_sendCh w) < 10 \<Longrightarrow> run_state (processMessages_tick counter) w = ((True, counter + 1),
      w\<lparr>w_sendCh := w_sendCh w @ [heartbeat_msg],
        w_state := (w_state w)\<lparr>m_heartbeatAt := w_now w + wo_HeartbeatInterval (w_options w)\<rparr>\<rparr>)"
    and "\<not> length (w_sendCh w) < 10 \<Longrightarrow> 1 < m_liveness (w_state w) \<Longrightarrow> run_state (processMessages_tick counter) w = ((True, counter + 1),
      w\<lparr>w_state := (w_state w)\<lparr>m_liveness := m_liveness (w_state w) - 1, m_heartbeatAt := w_now w + wo_HeartbeatInterval (w_options w)\<rparr>\<rparr>)"
    and "\<not> length (w_sendCh w) < 10 \<Longrightarrow> m_liveness (w_state w) = 1 \<Longrightarrow>
      fst (run_state (processMessages_tick counter) w) = (False, counter + 1) \<and>
      \<not> m_connected (vars (snd (run_state (processMessages_tick counter) w)))"
proof -
  have d: "prompt w" "w_stateUpdateCh w = []" "w_statsUpdateCh w = []" "m_connected (w_state w)" "w_panic w = None" "\<not> w_stopped w" "\<not> w_stateClosed w"
    using assms by (simp_all add: due_def prompt_def)
  define h where "h = snd (run_state tick_heartbeat w)"
  note h = tick_heartbeat_due [OF assms(1), folded h_def]
  have run: "run_state (processMessages_tick counter) w = (case run_state tick_liveness h of (alive, w') \<Rightarrow> ((alive, counter + 1), w'))"
    using assms(2) by (simp add: processMessages_tick_def tick_health_def h_def split: prod.split)
  have ph: "prompt h" using d(1) by (simp add: h) (simp add: prompt_def)
  have live: "run_state tick_liveness h = (if m_liveness (w_state (settle h)) \<le> 0
      then (False, snd (run_state worker_disconnect (settle h))) else (True, settle h))"
    using ph by (simp add: tick_liveness_def query_prompt split: prod.split)
  have sh: "settle h = (if length (w_sendCh w) < 10 then w\<lparr>w_sendCh := w_sendCh w @ [heartbeat_msg],
        w_state := (w_state w)\<lparr>m_heartbeatAt := w_now w + wo_HeartbeatInterval (w_options w)\<rparr>\<rparr>
      else w\<lparr>w_state := (w_state w)\<lparr>m_liveness := m_liveness (w_state w) - 1, m_heartbeatAt := w_now w + wo_HeartbeatInterval (w_options w)\<rparr>\<rparr>)"
    using d by (simp add: h settle_def manager_runs_def push_state_def)
  show "length (w_sendCh w) < 10 \<Longrightarrow> run_state (processMessages_tick counter) w = ((True, counter + 1),
      w\<lparr>w_sendCh := w_sendCh w @ [heartbeat_msg],
        w_state := (w_state w)\<lparr>m_heartbeatAt := w_now w + wo_HeartbeatInterval (w_options w)\<rparr>\<rparr>)"
    using assms(3) by (simp add: run live sh)
  show "\<not> length (w_sendCh w) < 10 \<Longrightarrow> 1 < m_liveness (w_state w) \<Longrightarrow> run_state (processMessages_tick counter) w = ((True, counter + 1),
      w\<lparr>w_state := (w_state w)\<lparr>m_liveness := m_liveness (w_state w) - 1, m_heartbeatAt := w_now w + wo_HeartbeatInterval (w_options w)\<rparr>\<rparr>)"
    by (simp add: run live sh)
  show "\<not> length (w_sendCh w) < 10 \<Longrightarrow> m_liveness (w_state w) = 1 \<Longrightarrow>
      fst (run_state (processMessages_tick counter) w) = (False, counter + 1) \<and>
      \<not> m_connected (vars (snd (run_state (processMessages_tick counter) w)))"
  proof -
    assume full: "\<not> length (w_sendCh w) < 10" "m_liveness (w_state w) = 1"
    have "m_liveness (w_state (settle h)) \<le> 0" "m_connected (w_state (settle h))" using full d(4) by (simp_all add: sh)
    moreover have "\<not> m_connected (vars (snd (run_state worker_disconnect (settle h))))"
      using ph calculation by (intro worker_disconnect_prompt) simp_all
    ultimately show ?thesis by (simp add: run live)
  qed
qed

text \<open>
  The ticks at which a heartbeat is due, while the socket manager stays in \<^verbatim>\<open>Recv\<close>: each at its time
  and with its value of the health check counter. The result is whether the loop went on.
\<close>

fun silent_ticks :: "(nat \<times> int) list \<Rightarrow> Worker \<Rightarrow> bool \<times> Worker" where
  "silent_ticks [] w = (True, w)"
| "silent_ticks ((counter, t) # ts) w =
     (case run_state (processMessages_tick counter) (w\<lparr>w_now := t\<rparr>) of
        ((goes_on, _), w') \<Rightarrow> if goes_on then silent_ticks ts w' else (False, w'))"

text \<open>Times at which a heartbeat is due, one interval after the other.\<close>

fun due_times :: "int \<Rightarrow> int \<Rightarrow> (nat \<times> int) list \<Rightarrow> bool" where
  "due_times interval t0 [] = True"
| "due_times interval t0 ((counter, t) # ts) = (counter + 1 < 50 \<and> t0 < t \<and> due_times interval (t + interval) ts)"

definition silent_outcome :: "nat \<Rightarrow> (nat \<times> int) list \<Rightarrow> Worker \<Rightarrow> bool" where
  "silent_outcome k ts w \<longleftrightarrow>
     (int (k + length ts) < 10 + m_liveness (w_state w) \<longrightarrow>
       (\<exists>w'. silent_ticks ts w = (True, w') \<and> w_sent w' = w_sent w \<and>
         w_sendCh w' = w_sendCh w @ replicate (min (k + length ts) 10 - k) heartbeat_msg \<and>
         m_liveness (w_state w') = m_liveness (w_state w) - int (k + length ts - 10))) \<and>
     (int (k + length ts) = 10 + m_liveness (w_state w) \<longrightarrow>
       (\<exists>w'. silent_ticks ts w = (False, w') \<and> \<not> m_connected (vars w')))"

lemma silent_room:
  assumes run: "run_state (processMessages_tick c) (w\<lparr>w_now := t\<rparr>) = ((True, n), w')" and out: "silent_outcome (Suc k) ts w'" and "k < 10"
    and w': "w_sendCh w' = w_sendCh w @ [heartbeat_msg]" "w_sent w' = w_sent w" "m_liveness (w_state w') = m_liveness (w_state w)"
  shows "silent_outcome k ((c, t) # ts) w"
proof -
  have "heartbeat_msg # replicate (min (Suc k + length ts) 10 - Suc k) heartbeat_msg = replicate (min (Suc (k + length ts)) 10 - k) heartbeat_msg"
    using \<open>k < 10\<close> by (simp add: Suc_diff_Suc flip: replicate_Suc)
  then show ?thesis using out by (simp add: silent_outcome_def run w')
qed

lemma silent_full:
  assumes run: "run_state (processMessages_tick c) (w\<lparr>w_now := t\<rparr>) = ((True, n), w')" and out: "silent_outcome 10 ts w'"
    and w': "w_sendCh w' = w_sendCh w" "w_sent w' = w_sent w" "m_liveness (w_state w') = m_liveness (w_state w) - 1"
  shows "silent_outcome 10 ((c, t) # ts) w"
  using out by (simp add: silent_outcome_def run w' algebra_simps)

lemma silent_steps:
  assumes "prompt w" "w_stateUpdateCh w = []" "w_statsUpdateCh w = []" "m_connected (w_state w)" "m_socketReady (w_state w)"
    and "due_times (wo_HeartbeatInterval (w_options w)) (m_heartbeatAt (w_state w)) ts" "0 < m_liveness (w_state w)"
    and "length (w_sendCh w) = k" "k \<le> 10"
  shows "silent_outcome k ts w"
  using assms
proof (induction ts arbitrary: w k)
  case (Cons ct ts)
  obtain c t where ct: "ct = (c, t)" by fastforce
  let ?w = "w\<lparr>w_now := t\<rparr>"
  have due: "due ?w" "c + 1 < 50" "0 < m_liveness (w_state ?w)" using Cons.prems by (simp_all add: ct due_def prompt_def)
  have prompt: "prompt (w\<lparr>w_now := t, w_sendCh := x, w_state := y\<rparr>)" "prompt (w\<lparr>w_now := t, w_state := y\<rparr>)" for x y
    using Cons.prems(1) by (simp_all add: prompt_def)
  consider "k < 10" | "k = 10" "1 < m_liveness (w_state w)" | "k = 10" "m_liveness (w_state w) = 1"
    using Cons.prems(7,9) by linarith
  then show ?case
  proof cases
    case 1
    let ?w' = "?w\<lparr>w_sendCh := w_sendCh w @ [heartbeat_msg], w_state := (w_state w)\<lparr>m_heartbeatAt := t + wo_HeartbeatInterval (w_options w)\<rparr>\<rparr>"
    have run: "run_state (processMessages_tick c) ?w = ((True, c + 1), ?w')" using tick_due(1) [OF due] 1 Cons.prems(8) by simp
    have "silent_outcome (Suc k) ts ?w'" by (rule Cons.IH) (use Cons.prems 1 prompt in \<open>simp_all add: ct\<close>)
    then show ?thesis unfolding ct by (rule silent_room [OF run _ 1]) simp_all
  next
    case 2
    let ?w' = "?w\<lparr>w_state := (w_state w)\<lparr>m_liveness := m_liveness (w_state w) - 1, m_heartbeatAt := t + wo_HeartbeatInterval (w_options w)\<rparr>\<rparr>"
    have run: "run_state (processMessages_tick c) ?w = ((True, c + 1), ?w')" using tick_due(2) [OF due] 2 Cons.prems(8) by simp
    have "silent_outcome 10 ts ?w'" by (rule Cons.IH) (use Cons.prems 2 prompt in \<open>simp_all add: ct\<close>)
    then show ?thesis unfolding ct 2(1) by (rule silent_full [OF run]) simp_all
  next
    case 3
    have stop: "fst (run_state (processMessages_tick c) ?w) = (False, c + 1)" "\<not> m_connected (vars (snd (run_state (processMessages_tick c) ?w)))"
      using tick_due(3) [OF due] 3 Cons.prems(8) by simp_all
    obtain w' where "run_state (processMessages_tick c) ?w = ((False, c + 1), w')" using stop(1) by (metis prod.collapse)
    then show ?thesis using stop(2) 3 by (simp add: silent_outcome_def ct)
  qed
qed (simp add: silent_outcome_def)

text \<open>
  A silent broker is noticed, but late. While the broker sends nothing the socket manager
  waits in \<^verbatim>\<open>Recv\<close> and the heartbeats only fill the send queue: ten are queued and none is sent.
  Only the heartbeats after that lower the liveness, so with a liveness of \<open>L\<close> the loop goes on for
  9 + \<open>L\<close> heartbeats, and it gives up and disconnects at the next.
\<close>

theorem silent_broker_noticed:
  assumes "prompt w" "w_stateUpdateCh w = []" "w_statsUpdateCh w = []" "m_connected (w_state w)" "m_socketReady (w_state w)"
    and "w_sendCh w = []" "0 < m_liveness (w_state w)"
    and "due_times (wo_HeartbeatInterval (w_options w)) (m_heartbeatAt (w_state w)) ts"
  shows "(int (length ts) < 10 + m_liveness (w_state w) \<longrightarrow>
      (\<exists>w'. silent_ticks ts w = (True, w') \<and> w_sent w' = w_sent w \<and>
        w_sendCh w' = replicate (min (length ts) 10) heartbeat_msg \<and>
        m_liveness (w_state w') = m_liveness (w_state w) - int (length ts - 10))) \<and>
    (int (length ts) = 10 + m_liveness (w_state w) \<longrightarrow>
      (\<exists>w'. silent_ticks ts w = (False, w') \<and> \<not> m_connected (vars w')))"
  using silent_steps [OF assms(1-5,8,7), of 0] assms(6) by (simp add: silent_outcome_def)

text \<open>A worker that is connected, has sent its READY and has nothing pending.\<close>

lemma idle_worker:
  "\<exists>w. prompt w \<and> w_stateUpdateCh w = [] \<and> w_statsUpdateCh w = [] \<and> m_connected (w_state w) \<and> m_socketReady (w_state w) \<and>
     w_sendCh w = [] \<and> m_liveness (w_state w) = 3 \<and> wo_HeartbeatInterval (w_options w) = 2500 * 1000000 \<and>
     m_heartbeatAt (w_state w) = 2500 * 1000000"
proof -
  let ?w = "sample_mdp_worker\<lparr>w_state := (w_state sample_mdp_worker)\<lparr>m_connected := True, m_socketReady := True\<rparr>, w_sendCh := []\<rparr>"
  have "w_state sample_mdp_worker = init_stateVars DefaultWorkerOptions 0"
    using sample_mdp_worker_fields(10,13) by (simp add: vars_def)
  then show ?thesis
    using sample_mdp_worker_fields
    by (intro exI [of _ ?w]) (simp add: prompt_def init_stateVars_def DefaultWorkerOptions_def DefaultHeartbeatLiveness_def DefaultHeartbeatInterval_def)
qed

theorem silent_broker_noticed_witness:
  "\<exists>w w'. silent_ticks (map (\<lambda>i. (25, int i * 2600 * 1000000)) [1..<14]) w = (False, w') \<and> m_connected (w_state w) \<and> \<not> m_connected (vars w')"
proof -
  obtain w where w: "prompt w" "w_stateUpdateCh w = []" "w_statsUpdateCh w = []" "m_connected (w_state w)" "m_socketReady (w_state w)"
    "w_sendCh w = []" "m_liveness (w_state w) = 3" "wo_HeartbeatInterval (w_options w) = 2500 * 1000000" "m_heartbeatAt (w_state w) = 2500 * 1000000"
    using idle_worker by blast
  let ?ts = "map (\<lambda>i. (25 :: nat, int i * 2600 * 1000000)) [1..<14]"
  have "due_times (wo_HeartbeatInterval (w_options w)) (m_heartbeatAt (w_state w)) ?ts" by (simp add: w upt_rec)
  moreover have "0 < m_liveness (w_state w)" "int (length ?ts) = 10 + m_liveness (w_state w)" by (simp_all add: w)
  ultimately show ?thesis using silent_broker_noticed [OF w(1-6)] w(4) by blast
qed
end
