(* ===== verification/Mdp_System.thy ===== *)
theory Mdp_System
  imports Mdp_Client Mdp_Worker
begin

text \<open>
  The three parts of Majordomo together: what a client sends, the broker passes on, the worker
  answers and the client returns to its caller. A REQ socket puts an empty frame in front of what
  the client sends and takes it off what it receives; the ROUTER socket of the broker puts the
  identity of the sender in front and takes it off; the DEALER socket of the worker and the
  asynchronous client changes nothing.
\<close>

section \<open>The messages as the other side reads them\<close>

text \<open>The time of parsing only matters for the time stamp.\<close>

lemma ParseWorkerMessage_time:
  assumes "ParseWorkerMessage t fs = Ok m"
  shows "ParseWorkerMessage t' fs = Ok (m\<lparr>Timestamp := t'\<rparr>)"
proof -
  have "ParseWorker_fields t' fs env ps = Ok (m\<lparr>Timestamp := t'\<rparr>)" if "ParseWorker_fields t fs env ps = Ok m" for env ps
    using that by (auto simp: ParseWorker_fields_def Let_def split: if_splits option.splits)
  then show ?thesis using assms by (auto simp: ParseWorkerMessage_def split: if_splits option.splits)
qed

lemma client_reads_reply:
  assumes "service \<noteq> []" "length service \<le> 255" "answer \<noteq> []"
  shows "client_processReply now (tl (FormatClientReply (NewClientReply t service answer))) service = Ok answer"
proof -
  have fs: "tl (FormatClientReply (NewClientReply t service answer)) = [ClientProtocol, REPLY, service, answer]"
    using assms(3) by (simp add: FormatClientReply_def NewClientReply_def zero_Message_def Let_def)
  have "findDelimiterFrame [ClientProtocol, REPLY, service, answer] = None"
    using assms by (simp add: findDelimiterFrame_None mdp_consts)
  then show ?thesis
    using assms by (simp add: fs client_processReply_def ParseClientMessage_def ParseClient_fields_def Let_def zero_Message_def)
qed

lemma first_attempt_succeeds:
  assumes "c_running c" "c_socket c = Some k" "service \<noteq> []" "length service \<le> 255" "0 \<le> co_Retries (c_options c)"
    and "attempt net now service (c_attempts c) = Ok answer" "send_err net (c_attempts c) = None"
  shows "\<exists>c'. Request net now service body c = (Ok answer, c') \<and>
    c_sent c' = c_sent c @ [(k, FormatClientRequest (NewClientRequest now service body))] \<and> c_totalReplies c' = c_totalReplies c + 1"
proof -
  obtain n where n: "nat (co_Retries (c_options c) + 1) = Suc n" using assms(5) by (metis Suc_nat_eq_nat_zadd1 add.commute)
  have "Request net now service body c = request_loop net now service body (Suc n) None c"
    using assms(1,3,4) n by (simp add: Request_def ServiceName_Validate_def)
  then show ?thesis using assms(6,7) by (simp add: doRequest_eq [OF assms(2)])
qed

section \<open>Theorems\<close>

text \<open>
  C10: A request goes from the client to a worker and back. A connected client asks for a service
  whose request queue is empty and which has a live worker at the front of its list. The broker
  passes the request to that worker; the worker, if connected, not busy and with a prompt state
  manager, calls its handler and sends the reply; the broker sends it to the client that asked, and
  the client returns exactly the result of the handler at the first attempt. (An empty result is
  excluded: it is lost.) The sends of the broker do not fail, and it does not log.
\<close>

theorem majordomo_end_to_end:
  assumes fs: "fs = FormatClientRequest (NewClientRequest now service body)"
    and client: "c_running c" "c_socket c = Some k" "0 \<le> co_Retries (c_options c)"
    and name: "service \<noteq> []" "length service \<le> 255"
    and broker: "broker_reachable b" "\<not> LogInfo b" "services b service = Some s" "Requests s = []"
      "live_workers t1 (heap b) (AvailableWorkers s) = p # ps" "\<forall>i. outcome (sock b) i = None" "client_id \<noteq> []"
    and worker: "prompt w" "m_socketReady (vars w)" "\<not> m_expectReply (vars w)" "w_sendCh w = []" "w_socket w = Some d"
      "fst (w_managers w ! i) = w_socketManagerID w" "w_handler w body = Inr answer" "answer \<noteq> []"
  shows "\<exists>b1 req w1 rep b2 reply.
    Mdp_Broker.processMessage t1 order1 (client_id # [] # fs) b = Some (Ok b1) \<and>
    wire (sock b1) = wire (sock b) @ [Identity (heap b p) # req] \<and>
    run_state (worker_processMessage req) w = ((), w1) \<and>
    w_sent (snd (run_state (socketManager_loop None i) w1)) = w_sent w @ [(d, rep)] \<and>
    Mdp_Broker.processMessage t2 order2 (Identity (heap b p) # rep) b1 = Some (Ok b2) \<and>
    wire (sock b2) = wire (sock b1) @ [client_id # [] # reply] \<and>
    (\<forall>net. send_err net (c_attempts c) = None \<and> recv_out net (c_attempts c) = Received reply \<longrightarrow>
      (\<exists>c'. Request net now service body c = (Ok answer, c') \<and> c_sent c' = c_sent c @ [(k, fs)]))"
proof -
  obtain b1 b2 m where b1: "Mdp_Broker.processMessage t1 order1 (client_id # [[]] @ FormatClientRequest (NewClientRequest now service body)) b = Some (Ok b1)"
    and wire1: "wire (sock b1) = wire (sock b) @ [Identity (heap b p) # Frames m]"
    and m: "ParseWorkerMessage t1 (Frames m) = Ok m" "Command m = WorkerRequest" "ClientAddr m = client_id" "Body m = body"
    and b2: "Mdp_Broker.processMessage t2 order2 (Identity (heap b p) #
        FormatWorkerMessage (NewWorkerMessage (w_now w) WorkerReply (ClientAddr m) answer)) b1 = Some (Ok b2)"
    and wire2: "wire (sock b2) = wire (sock b1) @ [client_id # FormatClientReply (NewClientReply t2 service answer)]"
    using request_is_answered [OF broker(1,2) _ name broker(3-7) worker(8), of "[[]]" order1 now body t2 order2 "w_now w"]
    by (auto simp: empties_def)
  have "\<exists>m'. ParseWorkerMessage (w_now w) (Frames m) = Ok m' \<and> Command m' = WorkerRequest \<and> ClientAddr m' = client_id \<and> Body m' = body"
    using ParseWorkerMessage_time [OF m(1), of "w_now w"] m by simp
  then obtain m' where m': "ParseWorkerMessage (w_now w) (Frames m) = Ok m'" "Command m' = WorkerRequest" "ClientAddr m' = client_id" "Body m' = body"
    by blast
  have room: "length (w_sendCh w) < 10" using worker(4) by simp
  obtain w1 where w1: "run_state (worker_processMessage (Frames m)) w = ((), w1)" "prompt w1" "w_sent w1 = w_sent w" "w_socket w1 = w_socket w"
    "w_sendCh w1 = [\<lparr>wm_command = WorkerReply, wm_clientAddr = client_id, wm_body = answer\<rparr>]"
    "w_managers w1 = w_managers w" "w_socketManagerID w1 = w_socketManagerID w" "w_now w1 = w_now w"
    using request_replied [OF worker(1-3) room m'(1,2) refl] worker(4,7) m'(3,4) by auto
  have sent: "w_sent (snd (run_state (socketManager_loop None i) w1)) =
      w_sent w @ [(d, FormatWorkerMessage (NewWorkerMessage (w_now w) WorkerReply client_id answer))]"
    using reply_sent [of w1 client_id answer "[]" d i] w1 worker(5,6) by (simp add: prompt_def)
  let ?reply = "tl (FormatClientReply (NewClientReply t2 service answer))"
  have reply: "FormatClientReply (NewClientReply t2 service answer) = [] # ?reply"
    by (simp add: FormatClientReply_def NewClientReply_def zero_Message_def Let_def)
  have returns: "\<exists>c'. Request net now service body c = (Ok answer, c') \<and> c_sent c' = c_sent c @ [(k, fs)]"
    if "send_err net (c_attempts c) = None" "recv_out net (c_attempts c) = Received ?reply" for net
    using first_attempt_succeeds [OF client(1,2) name client(3), of net now answer body] that
      client_reads_reply [OF name worker(8), of now t2] by (auto simp: attempt_def fs)
  have "Mdp_Broker.processMessage t1 order1 (client_id # [] # fs) b = Some (Ok b1)" using b1 by (simp add: fs)
  moreover have "Mdp_Broker.processMessage t2 order2 (Identity (heap b p) #
        FormatWorkerMessage (NewWorkerMessage (w_now w) WorkerReply client_id answer)) b1 = Some (Ok b2)" using b2 m(3) by simp
  moreover have "wire (sock b2) = wire (sock b1) @ [client_id # [] # ?reply]" using wire2 reply by simp
  ultimately show ?thesis using wire1 w1(1) sent returns by blast
qed

lemma ready_worker:
  "\<exists>w. worker_reachable w \<and> prompt w \<and> m_socketReady (vars w) \<and> \<not> m_expectReply (vars w) \<and> w_sendCh w = [] \<and> w_socket w = Some 0 \<and>
     w_managers w = [(2, AtLoop)] \<and> w_socketManagerID w = 2 \<and> w_handler w = Inr"
proof -
  obtain w where w: "worker_reachable w" "prompt w" "w_socket w = Some 0" "w_sendCh w = [\<lparr>wm_command = WorkerReady, wm_clientAddr = [], wm_body = [101]\<rparr>]"
    "w_handler w = Inr" "w_managers w = [(2, AtLoop)]" "w_socketManagerID w = 2" "m_socketReady (vars w)" "\<not> m_expectReply (vars w)"
    using start_connects [OF sample_mdp_worker_new] by (auto simp: sample_mdp_worker_fields DefaultWorkerOptions_def)
  let ?w = "snd (run_state (socketManager_loop None 0) w)"
  have "worker_step w ?w" by (rule worker_step.manage) (simp_all add: w)
  then have "worker_reachable ?w" by (rule worker_reachable_step [OF w(1)])
  moreover have "prompt ?w" "vars ?w = vars w" "w_sendCh ?w = []" "w_socket ?w = Some 0" "w_managers ?w = [(2, AtLoop)]" "w_socketManagerID ?w = 2" "w_handler ?w = Inr"
    using w by (simp_all add: socketManager_loop_def doSendToBroker_def Let_def prompt_def vars_def)
  ultimately show ?thesis using w(8,9) by (intro exI [of _ ?w]) simp
qed

theorem majordomo_end_to_end_witness:
  "\<exists>b1 req w w1 rep b2 reply.
    Mdp_Broker.processMessage 0 [] ([99] # [] # FormatClientRequest (NewClientRequest 0 [101] [65])) one_worker = Some (Ok b1) \<and>
    wire (sock b1) = wire (sock one_worker) @ [Identity (heap one_worker 0) # req] \<and>
    worker_reachable w \<and> run_state (worker_processMessage req) w = ((), w1) \<and>
    w_sent (snd (run_state (socketManager_loop None 0) w1)) = w_sent w @ [(0, rep)] \<and>
    Mdp_Broker.processMessage 1 [] (Identity (heap one_worker 0) # rep) b1 = Some (Ok b2) \<and>
    wire (sock b2) = wire (sock b1) @ [[99] # [] # reply] \<and>
    (\<exists>c'. Request \<lparr>send_err = (\<lambda>_. None), recv_out = (\<lambda>_. Received reply), dial_err = (\<lambda>_. None)\<rparr> 0 [101] [65]
       (snd (Connect None (NewClient None))) = (Ok [65], c'))"
proof -
  let ?c = "snd (Connect None (NewClient None))"
  have c: "c_running ?c" "c_socket ?c = Some 0" "0 \<le> co_Retries (c_options ?c)"
    by (simp_all add: Connect_def NewClient_def DefaultClientOptions_def)
  obtain w where w: "worker_reachable w" "prompt w" "m_socketReady (vars w)" "\<not> m_expectReply (vars w)" "w_sendCh w = []" "w_socket w = Some 0"
    "w_managers w = [(2, AtLoop)]" "w_socketManagerID w = 2" "w_handler w = Inr"
    using ready_worker by blast
  let ?s = "(new_Service [101])\<lparr>AvailableWorkers := [0], ActiveWorkers := 1\<rparr>"
  have s: "services one_worker [101] = Some ?s" "Requests ?s = []"
    and live: "live_workers 0 (heap one_worker) (AvailableWorkers ?s) = [0]"
    and log: "\<not> LogInfo one_worker" and net: "\<forall>i. outcome (sock one_worker) i = None"
    by (simp_all add: one_worker_state new_Service_def good_net_def one_worker_live)
  have name: "[101 :: byte] \<noteq> []" "length [101 :: byte] \<le> 255" "[99 :: byte] \<noteq> []" "[65 :: byte] \<noteq> []" by simp_all
  have mgr: "fst (w_managers w ! 0) = w_socketManagerID w" "w_handler w [65] = Inr [65]" by (simp_all add: w)
  obtain b1 req w1 rep b2 reply where
    r: "Mdp_Broker.processMessage 0 [] ([99] # [] # FormatClientRequest (NewClientRequest 0 [101] [65])) one_worker = Some (Ok b1)"
    "wire (sock b1) = wire (sock one_worker) @ [Identity (heap one_worker 0) # req]"
    "run_state (worker_processMessage req) w = ((), w1)"
    "w_sent (snd (run_state (socketManager_loop None 0) w1)) = w_sent w @ [(0, rep)]"
    "Mdp_Broker.processMessage 1 [] (Identity (heap one_worker 0) # rep) b1 = Some (Ok b2)"
    "wire (sock b2) = wire (sock b1) @ [[99] # [] # reply]"
    "\<forall>net. send_err net (c_attempts ?c) = None \<and> recv_out net (c_attempts ?c) = Received reply \<longrightarrow>
      (\<exists>c'. Request net 0 [101] [65] ?c = (Ok [65], c') \<and> c_sent c' = c_sent ?c @ [(0, FormatClientRequest (NewClientRequest 0 [101] [65]))])"
    using majordomo_end_to_end [OF refl c name(1,2) one_worker_reachable log s live net name(3) w(2-6) mgr(1,2) name(4),
        where now = 0 and ?order1.0 = "[]" and ?t2.0 = 1 and ?order2.0 = "[]"] by blast
  from r(7) obtain c' where "Request \<lparr>send_err = (\<lambda>_. None), recv_out = (\<lambda>_. Received reply), dial_err = (\<lambda>_. None)\<rparr> 0 [101] [65] ?c = (Ok [65], c')"
    by force
  then show ?thesis using r(1-6) w(1) by blast
qed

text \<open>
  An asynchronous request is never answered by this broker. The ROUTER socket takes the identity
  of the client off the reply, whose first frame is then the empty delimiter, and \<^verbatim>\<open>processReply\<close>
  takes the first frame for the ID of the request; no request has an empty ID. Every request of
  an asynchronous client ends in a timeout or with the disconnection.
\<close>

theorem async_reply_ignored:
  assumes "async_run issued c" "a_next c < 2 ^ 64"
  shows "processReply_take (FormatClientReply (NewClientReply t service body)) c = c \<and>
    wire (sendToClient t client service body n) \<in> {wire n, wire n @ [client # FormatClientReply (NewClientReply t service body)]}"
proof -
  have fs: "\<exists>fs. FormatClientReply (NewClientReply t service body) = [] # fs"
    by (simp add: FormatClientReply_def NewClientReply_def zero_Message_def Let_def)
  have "a_pending c [] = None"
  proof (rule ccontr)
    assume "a_pending c [] \<noteq> None"
    then obtain p where "a_pending c [] = Some p" by blast
    then have "[] = decimal (pr_ReplyCh p + 1)" using async_run_inv [OF assms] unfolding async_inv_def by blast
    then show False using decimal_not_Nil by metis
  qed
  then have "processReply_take (FormatClientReply (NewClientReply t service body)) c = c"
    using fs by (auto simp: processReply_take_def)
  then show ?thesis by (simp add: sendToClient_def mdp_Send_def Let_def split: option.split)
qed

end
