(* ===== verification/Curve_Security.thy ===== *)
theory Curve_Security
  imports Security_Mech Z85
begin

text \<open>
  The CURVE mechanism, first part (\<^verbatim>\<open>src/security/curve/curve.go\<close>): keys, the state of a
  connection's security, and the encryption of messages. The handshake is in \<open>Curve_Handshake\<close>.

  \<^verbatim>\<open>golang.org/x/crypto/nacl/box\<close> is the parameter \<open>Nacl\<close>: \<open>Seal\<close> and \<open>Open\<close> on a message, a
  nonce, the public key of the peer and the own secret key. What is used of its documentation is
  \<open>box_ok\<close>: \<open>Seal\<close> adds 16 bytes, and \<open>Open\<close> inverts \<open>Seal\<close> between the holders of two key
  pairs (\<open>pairs\<close> says which public key belongs to which secret key).

  A \<^verbatim>\<open>[32]byte\<close> is a list of bytes; \<open>key_ok\<close> is its length. The fields that no operation uses
  (\<^verbatim>\<open>sendNonce\<close>, \<^verbatim>\<open>recvNonce\<close> and the two shared secrets) and the trace output are left out.
\<close>

section \<open>The box\<close>

record Nacl =
  box_Seal :: "bytes \<Rightarrow> bytes \<Rightarrow> bytes \<Rightarrow> bytes \<Rightarrow> bytes"
  box_Open :: "bytes \<Rightarrow> bytes \<Rightarrow> bytes \<Rightarrow> bytes \<Rightarrow> bytes option"
  pairs :: "bytes \<Rightarrow> bytes \<Rightarrow> bool"

definition box_ok :: "Nacl \<Rightarrow> bool" where
  "box_ok nacl \<longleftrightarrow>
     (\<forall>m n p s. length (box_Seal nacl m n p s) = length m + 16) \<and>
     (\<forall>m n pa sa pb sb. pairs nacl pa sa \<longrightarrow> pairs nacl pb sb \<longrightarrow>
        box_Open nacl (box_Seal nacl m n pb sa) n pa sb = Some m)"

section \<open>Keys\<close>

definition KeySize :: nat where "KeySize = 32"
definition NonceSize :: nat where "NonceSize = 24"
definition BoxOverhead :: nat where "BoxOverhead = 16"
definition HelloBodySize :: nat where "HelloBodySize = 200"
definition WelcomeBodySize :: nat where "WelcomeBodySize = 168"
definition InitiateBodySize :: nat where "InitiateBodySize = 256"
definition ReadyBodySize :: nat where "ReadyBodySize = 56"

lemmas curve_sizes = KeySize_def NonceSize_def BoxOverhead_def HelloBodySize_def WelcomeBodySize_def
  InitiateBodySize_def ReadyBodySize_def

definition ErrDecryptionFailed :: go_error where "ErrDecryptionFailed = Errorf ''curve: decryption failed''"
definition ErrInvalidCommand :: go_error where "ErrInvalidCommand = Errorf ''curve: invalid command format''"
definition ErrInvalidCommandSize :: go_error where
  "ErrInvalidCommandSize = Errorf ''curve: invalid command size''"

definition ValidateCommandSize :: "bytes \<Rightarrow> nat \<Rightarrow> go_error option" where
  "ValidateCommandSize command bodySize =
     (let bad = Some (Wrapf ''command body size'' ErrInvalidCommandSize) in
      if command = str ''HELLO'' then if bodySize \<noteq> HelloBodySize then bad else None
      else if command = str ''WELCOME'' then if bodySize \<noteq> WelcomeBodySize then bad else None
      else if command = str ''INITIATE'' then if bodySize < InitiateBodySize then bad else None
      else if command = str ''READY'' then if bodySize < ReadyBodySize then bad else None
      else if command = str ''MESSAGE'' then if bodySize < 1 + 8 + BoxOverhead then bad else None
      else Some (Errorf ''curve: unknown command''))"

record KeyPair =
  Public :: bytes
  Secret :: bytes

definition key_ok :: "bytes \<Rightarrow> bool" where
  "key_ok k \<longleftrightarrow> length k = KeySize"

definition zero_KeyPair :: KeyPair where
  "zero_KeyPair = \<lparr>Public = replicate KeySize 0, Secret = replicate KeySize 0\<rparr>"

definition PublicKeyZ85 :: "KeyPair \<Rightarrow> bytes result" where
  "PublicKeyZ85 kp = EncodeToString (Public kp)"

definition SecretKeyZ85 :: "KeyPair \<Rightarrow> bytes result" where
  "SecretKeyZ85 kp = EncodeToString (Secret kp)"

definition decode_key :: "string \<Rightarrow> bytes \<Rightarrow> bytes result" where
  "decode_key what s =
     and_then (wrap_err (''curve: invalid '' @ what @ '' key Z85 encoding'') (DecodeString s)) (\<lambda>b.
       if length b \<noteq> KeySize then Err (Errorf (''curve: '' @ what @ '' key must be 32 bytes'')) else Ok b)"

definition NewKeyPairFromZ85 :: "bytes \<Rightarrow> bytes \<Rightarrow> KeyPair result" where
  "NewKeyPairFromZ85 publicZ85 secretZ85 =
     and_then (decode_key ''public'' publicZ85) (\<lambda>public.
       and_then (decode_key ''secret'' secretZ85) (\<lambda>secret.
         Ok \<lparr>Public = public, Secret = secret\<rparr>))"

definition ValidateZ85Key :: "bytes \<Rightarrow> unit result" where
  "ValidateZ85Key keyZ85 =
     and_then (wrap_err ''curve: invalid Z85 key format'' (ValidateString keyZ85)) (\<lambda>_.
       and_then (wrap_err ''curve: Z85 key decode error'' (DecodeString keyZ85)) (\<lambda>keyBytes.
         if length keyBytes \<noteq> KeySize then Err (Errorf ''curve: Z85 key must decode to 32 bytes'') else Ok ()))"

section \<open>The state of a connection's security\<close>

datatype HandshakeState =
    HandshakeInit | HandshakeHello | HandshakeWelcome | HandshakeInitiate | HandshakeReady | HandshakeComplete

fun state_num :: "HandshakeState \<Rightarrow> int" where
  "state_num HandshakeInit = 0"
| "state_num HandshakeHello = 1"
| "state_num HandshakeWelcome = 2"
| "state_num HandshakeInitiate = 3"
| "state_num HandshakeReady = 4"
| "state_num HandshakeComplete = 5"

record curve_sec =
  keyPair :: KeyPair
  serverKey :: bytes
  isServer :: bool
  clientTransient :: "KeyPair option"
  serverTransient :: "KeyPair option"
  cookie :: bytes
  clientNonce :: "64 word"
  serverNonce :: "64 word"
  messageEncryptionReady :: bool
  handshakeState :: HandshakeState

definition NewClientSecurity :: "KeyPair \<Rightarrow> bytes \<Rightarrow> curve_sec" where
  "NewClientSecurity clientKeys serverPublicKey =
     \<lparr>keyPair = clientKeys, serverKey = serverPublicKey, isServer = False, clientTransient = None,
      serverTransient = None, cookie = [], clientNonce = 0, serverNonce = 0,
      messageEncryptionReady = False, handshakeState = HandshakeInit\<rparr>"

definition NewServerSecurity :: "KeyPair \<Rightarrow> curve_sec" where
  "NewServerSecurity serverKeys =
     \<lparr>keyPair = serverKeys, serverKey = replicate KeySize 0, isServer = True, clientTransient = None,
      serverTransient = None, cookie = [], clientNonce = 0, serverNonce = 0,
      messageEncryptionReady = False, handshakeState = HandshakeInit\<rparr>"

definition curve_HandshakeState :: "curve_sec \<Rightarrow> int" where
  "curve_HandshakeState s = state_num (handshakeState s)"

definition IsReady :: "curve_sec \<Rightarrow> bool" where
  "IsReady s \<longleftrightarrow> handshakeState s = HandshakeComplete \<and> clientTransient s \<noteq> None \<and> serverTransient s \<noteq> None"

definition ValidateMessageReadiness :: "curve_sec \<Rightarrow> go_error option" where
  "ValidateMessageReadiness s =
     (if handshakeState s \<noteq> HandshakeComplete then Some (Errorf ''curve: handshake not complete'')
      else
        case clientTransient s of
          None \<Rightarrow> Some (Errorf ''curve: client transient keys not available'')
        | Some ct \<Rightarrow>
            (case serverTransient s of
               None \<Rightarrow> Some (Errorf ''curve: server transient keys not available'')
             | Some st \<Rightarrow>
                 if length (Public ct) \<noteq> KeySize \<or> length (Secret ct) \<noteq> KeySize then
                   Some (Errorf ''curve: invalid client transient key size'')
                 else if length (Public st) \<noteq> KeySize \<or> length (Secret st) \<noteq> KeySize then
                   Some (Errorf ''curve: invalid server transient key size'')
                 else None))"

text \<open>\<open>closed\<close> is the flag of the connection; the connection is never nil.\<close>

definition validateTCPConnection :: "curve_sec \<Rightarrow> bool \<Rightarrow> go_error option" where
  "validateTCPConnection s closed =
     (if closed then Some (Errorf ''connection is marked as closed'')
      else if handshakeState s \<noteq> HandshakeComplete then Some (Errorf ''handshake not complete'')
      else
        case clientTransient s of
          None \<Rightarrow> Some (Errorf ''client transient keys not available'')
        | Some ct \<Rightarrow>
            (case serverTransient s of
               None \<Rightarrow> Some (Errorf ''server transient keys not available'')
             | Some st \<Rightarrow>
                 if length (Public ct) \<noteq> KeySize \<or> length (Public st) \<noteq> KeySize then
                   Some (Errorf ''invalid transient key sizes'')
                 else None))"

definition EnsureMessageReadiness :: "curve_sec \<Rightarrow> bool \<Rightarrow> go_error option" where
  "EnsureMessageReadiness s closed =
     (case ValidateMessageReadiness s of
        Some err \<Rightarrow> Some err
      | None \<Rightarrow>
          if closed then Some (Errorf ''curve: connection is closed'')
          else
            (case validateTCPConnection s closed of
               Some err \<Rightarrow> Some (Wrapf ''curve: TCP connection validation failed'' err)
             | None \<Rightarrow>
                 if \<not> messageEncryptionReady s then Some (Errorf ''curve: MESSAGE encryption not ready'')
                 else None))"

section \<open>Messages\<close>

text \<open>\<^verbatim>\<open>binary.LittleEndian.PutUint64\<close>.\<close>

definition put_le64 :: "64 word \<Rightarrow> bytes" where
  "put_le64 v = rev (put_be 8 (unat v))"

definition nextSendNonce :: "curve_sec \<Rightarrow> bytes \<times> curve_sec" where
  "nextSendNonce s =
     (if isServer s then
        (let n = (if serverNonce s = 0 then 1 else serverNonce s + 2)
         in (put_le64 n, s\<lparr>serverNonce := n\<rparr>))
      else
        (let n = (if clientNonce s = 0 then 2 else clientNonce s + 2)
         in (put_le64 n, s\<lparr>clientNonce := n\<rparr>)))"

definition message_nonce :: "bytes \<Rightarrow> bytes" where
  "message_nonce nonce8 = nonce8 @ str ''CurveZMQMESSAGE-''"

definition EncryptWithFlags :: "Nacl \<Rightarrow> bool \<Rightarrow> curve_sec crypt" where
  "EncryptWithFlags nacl hasM s data =
     (case ValidateMessageReadiness s of
        Some err \<Rightarrow> (Inl (Wrapf ''curve: MESSAGE encryption validation failed'' err), s)
      | None \<Rightarrow>
          let (nonce, s) = nextSendNonce s in
          (case (clientTransient s, serverTransient s) of
            (Some ct, Some st) \<Rightarrow>
              let (recipientKey, senderKey) =
                    (if isServer s then (Public ct, Secret st) else (Public st, Secret ct));
                  encrypted = box_Seal nacl data (message_nonce nonce) recipientKey senderKey
              in (Inr ((if hasM then 1 else 0) # nonce @ encrypted), s)
          | _ \<Rightarrow> (Inl (Errorf ''curve: transient keys not available for message encryption''), s)))"

definition curve_Encrypt :: "Nacl \<Rightarrow> curve_sec crypt" where
  "curve_Encrypt nacl = EncryptWithFlags nacl False"

definition DecryptWithFlags :: "Nacl \<Rightarrow> curve_sec \<Rightarrow> bytes \<Rightarrow> go_error + (bytes \<times> bool)" where
  "DecryptWithFlags nacl s data =
     (case ValidateMessageReadiness s of
        Some err \<Rightarrow> Inl (Wrapf ''curve: MESSAGE decryption validation failed'' err)
      | None \<Rightarrow>
          if length data < 1 + 8 + BoxOverhead then Inl ErrInvalidCommand
          else
            let flags = data ! 0; hasM = (flags AND 1 \<noteq> 0);
                nonce8 = take 8 (drop 1 data); encrypted = drop 9 data in
            if flags > 1 then Inl (Errorf ''curve: invalid flags byte'')
            else
              (case (clientTransient s, serverTransient s) of
                (Some ct, Some st) \<Rightarrow>
                  let (senderKey, recipientKey) =
                        (if isServer s then (Public ct, Secret st) else (Public st, Secret ct)) in
                  (case box_Open nacl encrypted (message_nonce nonce8) senderKey recipientKey of
                     None \<Rightarrow> Inl ErrDecryptionFailed
                   | Some decrypted \<Rightarrow> Inr (decrypted, hasM))
              | _ \<Rightarrow> Inl (Errorf ''curve: transient keys not available for message decryption'')))"

definition curve_Decrypt :: "Nacl \<Rightarrow> curve_sec crypt" where
  "curve_Decrypt nacl s data = (map_sum id fst (DecryptWithFlags nacl s data), s)"

text \<open>The handshake commands are written and read as they are; an unknown name is an error.\<close>

definition EncryptHandshakeCommand :: "bytes \<Rightarrow> curve_sec crypt" where
  "EncryptHandshakeCommand command s data =
     (if command \<in> {str ''HELLO'', str ''WELCOME'', str ''INITIATE'', str ''READY''} then (Inr data, s)
      else (Inl (Errorf ''curve: unknown handshake command''), s))"

definition DecryptHandshakeCommand :: "bytes \<Rightarrow> curve_sec crypt" where
  "DecryptHandshakeCommand command s data =
     (if command \<in> {str ''HELLO'', str ''WELCOME'', str ''INITIATE'', str ''READY''} then (Inr data, s)
      else (Inl (Errorf ''curve: unknown handshake command''), s))"

definition curve_ops :: "Nacl \<Rightarrow> curve_sec SecOps" where
  "curve_ops nacl = \<lparr>sType = CurveSecurity, sEncrypt = curve_Encrypt nacl, sDecrypt = curve_Decrypt nacl,
     sEncryptHandshakeCommand = Some EncryptHandshakeCommand,
     sEnsureMessageReadiness = Some EnsureMessageReadiness,
     sEncryptWithFlags = Some (EncryptWithFlags nacl), sHandshakeState = Some curve_HandshakeState\<rparr>"

section \<open>Lemmas: peers with matching keys\<close>

definition own_secret :: "curve_sec \<Rightarrow> bytes" where
  "own_secret s = Secret (the (if isServer s then serverTransient s else clientTransient s))"

definition peer_public :: "curve_sec \<Rightarrow> bytes" where
  "peer_public s = Public (the (if isServer s then clientTransient s else serverTransient s))"

definition ready :: "curve_sec \<Rightarrow> bool" where
  "ready s \<longleftrightarrow> EnsureMessageReadiness s False = None"

text \<open>Two ready states of opposite roles in which each holds the public key of the other.\<close>

definition matched :: "Nacl \<Rightarrow> curve_sec \<Rightarrow> curve_sec \<Rightarrow> bool" where
  "matched nacl s t \<longleftrightarrow>
     ready s \<and> ready t \<and> isServer s \<noteq> isServer t \<and>
     pairs nacl (peer_public t) (own_secret s) \<and> pairs nacl (peer_public s) (own_secret t)"

lemma ready_valid: "ready s \<Longrightarrow> ValidateMessageReadiness s = None"
  by (simp add: ready_def EnsureMessageReadiness_def split: option.splits)

lemma ready_keys:
  assumes "ready s"
  obtains ct st where "clientTransient s = Some ct" "serverTransient s = Some st"
  using ready_valid [OF assms] that
  by (auto simp: ValidateMessageReadiness_def split: if_splits option.splits)

lemma nonce_upd [simp]:
  "ready (s\<lparr>serverNonce := n\<rparr>) = ready s" "ready (s\<lparr>clientNonce := n\<rparr>) = ready s"
  "own_secret (s\<lparr>serverNonce := n\<rparr>) = own_secret s" "own_secret (s\<lparr>clientNonce := n\<rparr>) = own_secret s"
  "peer_public (s\<lparr>serverNonce := n\<rparr>) = peer_public s" "peer_public (s\<lparr>clientNonce := n\<rparr>) = peer_public s"
proof -
  have "ValidateMessageReadiness (s\<lparr>serverNonce := n\<rparr>) = ValidateMessageReadiness s"
    "ValidateMessageReadiness (s\<lparr>clientNonce := n\<rparr>) = ValidateMessageReadiness s"
    "validateTCPConnection (s\<lparr>serverNonce := n\<rparr>) = validateTCPConnection s"
    "validateTCPConnection (s\<lparr>clientNonce := n\<rparr>) = validateTCPConnection s"
    by (simp_all add: ValidateMessageReadiness_def validateTCPConnection_def fun_eq_iff cong: option.case_cong)
  then show "ready (s\<lparr>serverNonce := n\<rparr>) = ready s" "ready (s\<lparr>clientNonce := n\<rparr>) = ready s"
    by (simp_all add: ready_def EnsureMessageReadiness_def cong: option.case_cong)
qed (simp_all add: own_secret_def peer_public_def)

lemma nextSendNonce_cases:
  obtains n where "nextSendNonce s = (put_le64 n, s\<lparr>serverNonce := n\<rparr>)"
  | n where "nextSendNonce s = (put_le64 n, s\<lparr>clientNonce := n\<rparr>)"
  by (cases "isServer s") (auto simp: nextSendNonce_def Let_def)

lemma nextSendNonce_frame:
  assumes "nextSendNonce s = (nonce, s')"
  shows "length nonce = 8" "ready s' = ready s" "isServer s' = isServer s" "own_secret s' = own_secret s"
    "peer_public s' = peer_public s" "clientTransient s' = clientTransient s"
    "serverTransient s' = serverTransient s"
  using assms by (cases s rule: nextSendNonce_cases; auto simp: put_le64_def)+

lemma matched_sym: "matched nacl s t \<longleftrightarrow> matched nacl t s"
  by (auto simp: matched_def)

lemma Encrypt_ready:
  assumes "ready s" "nextSendNonce s = (nonce, s')"
  shows "EncryptWithFlags nacl m s data =
    (Inr ((if m then 1 else 0) # nonce @
       box_Seal nacl data (message_nonce nonce) (peer_public s) (own_secret s)), s')"
  using assms(2) ready_valid [OF assms(1)] nextSendNonce_frame [OF assms(2)]
  by (rule_tac ready_keys [OF assms(1)])
    (simp add: EncryptWithFlags_def own_secret_def peer_public_def)

lemma Decrypt_ready:
  assumes "ready t" "length nonce = 8" "16 \<le> length enc"
  shows "DecryptWithFlags nacl t ((if m then 1 else 0) # nonce @ enc) =
    (case box_Open nacl enc (message_nonce nonce) (peer_public t) (own_secret t) of
       None \<Rightarrow> Inl ErrDecryptionFailed | Some b \<Rightarrow> Inr (b, m))"
  using ready_valid [OF assms(1)] assms(2,3)
  by (rule_tac ready_keys [OF assms(1)])
    (auto simp: DecryptWithFlags_def own_secret_def peer_public_def BoxOverhead_def Let_def split: option.splits)

text \<open>One message: the peer decrypts what was encrypted, and the two stay matched.\<close>

lemma curve_message:
  assumes "box_ok nacl" "matched nacl s t"
  obtains out s' where "EncryptWithFlags nacl m s b = (Inr out, s')" "length out = length b + 25"
    "DecryptWithFlags nacl t out = Inr (b, m)" "matched nacl s' t"
proof -
  obtain nonce s' where n: "nextSendNonce s = (nonce, s')" by fastforce
  note fr = nextSendNonce_frame [OF n]
  have r: "ready s" "ready t" using assms(2) by (simp_all add: matched_def)
  let ?enc = "box_Seal nacl b (message_nonce nonce) (peer_public s) (own_secret s)"
  have len: "length ?enc = length b + 16" using assms(1) by (simp add: box_ok_def)
  have "box_Open nacl ?enc (message_nonce nonce) (peer_public t) (own_secret t) = Some b"
    using assms by (simp add: box_ok_def matched_def)
  then have "DecryptWithFlags nacl t ((if m then 1 else 0) # nonce @ ?enc) = Inr (b, m)"
    using Decrypt_ready [OF r(2) fr(1), of ?enc nacl m] len by simp
  moreover have "matched nacl s' t" using assms(2) fr by (simp add: matched_def)
  ultimately show thesis
    using that Encrypt_ready [OF r(1) n, of nacl m b] fr(1) len by simp
qed

section \<open>Lemmas: messages on a connection\<close>

lemma curve_ops_sel [simp]:
  "sType (curve_ops nacl) = CurveSecurity" "sEncrypt (curve_ops nacl) = EncryptWithFlags nacl False"
  "sDecrypt (curve_ops nacl) = curve_Decrypt nacl"
  "sEncryptHandshakeCommand (curve_ops nacl) = Some EncryptHandshakeCommand"
  "sEnsureMessageReadiness (curve_ops nacl) = Some EnsureMessageReadiness"
  "sEncryptWithFlags (curve_ops nacl) = Some (EncryptWithFlags nacl)"
  "sHandshakeState (curve_ops nacl) = Some curve_HandshakeState"
  by (simp_all add: curve_ops_def curve_Encrypt_def)

lemma CurveSecurity_not_Null [simp]: "CurveSecurity \<noteq> NullSecurity"
  by (simp add: security_types wire_simps)

text \<open>What \<open>read_frame\<close> does on a header and the bytes it announces.\<close>

lemma curve_read_frame:
  assumes "isLong fl = (length out > 255)" "length out \<le> maxAlloc"
    and "rx (rw d) = frame_header fl (length out) @ out @ rest" "\<not> rw_closed (rw d)"
  shows "read_frame (curve_ops nacl) seen d =
    (if (seen \<or> isCommand fl) \<and> curve_HandshakeState (sec d) < 5 then
       (Ok (out, hasMore fl, seen \<or> isCommand fl), got rest (sec d) d)
     else
       case DecryptWithFlags nacl (sec d) out of
         Inl e \<Rightarrow> (Err e, got rest (sec d) d)
       | Inr (b, m) \<Rightarrow> (Ok (b, hasMore fl, seen \<or> isCommand fl), got rest (sec d) d))"
proof -
  obtain b1 ext where hdr: "frame_header fl (length out) = fl # b1 # ext"
    using frame_header_Cons by blast
  have small: "length out < 2 ^ 64" "\<not> length out > maxInt64" "\<not> length out > maxAlloc"
    using assms(2) by (simp_all add: maxAlloc_def maxInt64_def)
  have two: "rw_ReadFull 2 d = (Ok [fl, b1], got (ext @ out @ rest) (sec d) d)"
    using rw_ReadFull_got [of d "[fl, b1]" "ext @ out @ rest" 2] assms hdr by simp
  have sz: "read_size fl b1 (got (ext @ out @ rest) (sec d) d) =
      (Ok (length out), got (out @ rest) (sec d) d)"
    using read_size_header [OF hdr assms(1) small(1), of "got (ext @ out @ rest) (sec d) d" "out @ rest"]
      assms(4) by simp
  have bd: "rw_ReadFull (length out) (got (out @ rest) (sec d) d) = (Ok out, got rest (sec d) d)"
    using rw_ReadFull_got [of "got (out @ rest) (sec d) d" out rest] assms(4) by simp
  show ?thesis
    using small by (auto simp: read_frame_def two sz bd Let_def isCurveHandshake_def curve_Decrypt_def
        split: sum.splits)
qed

lemma curve_send:
  assumes "up c" "ready (sec c)" "f \<noteq> []" "EncryptWithFlags nacl m (sec c) f = (Inr out, s')"
    "length out = length f + 25"
  shows "send (curve_ops nacl) False f (more_flag m) c =
    (None, wrote (frame_header (wire_flag (more_flag m) (length out > 255) False) (length out) @ out) s' c)"
proof -
  have "hasMore (wire_flag (more_flag m) (length out > 255) False) = m" by simp
  then have m: "(wire_flag (more_flag m) (length out > 255) False AND 1 \<noteq> 0) = m"
    by (simp add: wire_flag_def more_flag_def)
  have "EnsureMessageReadiness (sec c) (Closed c) = None"
    using assms(1,2) by (simp add: ready_def up_def Closed_def)
  then show ?thesis
    using assms m by (simp add: send_def rw_Write_up crypt_to_up Let_def wire_flag_def)
qed

definition curve_frame :: "bytes \<Rightarrow> bool" where
  "curve_frame f \<longleftrightarrow> f \<noteq> [] \<and> length f + 25 \<le> maxAlloc"

definition curve_sendable :: "Msg \<Rightarrow> bool" where
  "curve_sendable msg \<longleftrightarrow> Frames msg \<noteq> [] \<and> list_all curve_frame (Frames msg) \<and> \<not> multipart msg"

text \<open>The bytes \<open>w\<close> are read as the frames \<open>fs\<close> by a peer in state \<open>t\<close>, which stays the same.\<close>

definition curve_delivers :: "Nacl \<Rightarrow> frames \<Rightarrow> curve_sec \<Rightarrow> bytes \<Rightarrow> bool" where
  "curve_delivers nacl fs t w \<longleftrightarrow>
     (\<forall>d msg rest. rx (rw d) = w @ rest \<longrightarrow> \<not> rw_closed (rw d) \<longrightarrow> sec d = t \<longrightarrow>
        read_loop (curve_ops nacl) msg False d = (Ok (msg\<lparr>Frames := Frames msg @ fs\<rparr>), got rest t d))"

lemma curve_send_frame:
  assumes "box_ok nacl" "matched nacl (sec c) t" "up c" "curve_frame f"
  obtains w s' where "send (curve_ops nacl) False f (more_flag m) c = (None, wrote w s' c)"
    "matched nacl s' t"
    "\<And>d rest. rx (rw d) = w @ rest \<Longrightarrow> \<not> rw_closed (rw d) \<Longrightarrow> sec d = t \<Longrightarrow>
       read_frame (curve_ops nacl) False d = (Ok (f, m, False), got rest t d)"
proof -
  obtain out s' where o: "EncryptWithFlags nacl m (sec c) f = (Inr out, s')" "length out = length f + 25"
    "DecryptWithFlags nacl t out = Inr (f, m)" "matched nacl s' t"
    using curve_message [OF assms(1,2)] by blast
  let ?fl = "wire_flag (more_flag m) (length out > 255) False"
  have "read_frame (curve_ops nacl) False d = (Ok (f, m, False), got rest t d)"
    if "rx (rw d) = (frame_header ?fl (length out) @ out) @ rest" "\<not> rw_closed (rw d)" "sec d = t" for d rest
    using curve_read_frame [of ?fl out d rest nacl False] that o assms(4) by (simp add: curve_frame_def)
  moreover have "send (curve_ops nacl) False f (more_flag m) c =
      (None, wrote (frame_header ?fl (length out) @ out) s' c)"
    using curve_send [OF assms(3) _ _ o(1,2)] assms by (simp add: matched_def curve_frame_def)
  ultimately show thesis using that o(4) by blast
qed

lemma curve_loop:
  assumes "box_ok nacl" "fs \<noteq> []" "matched nacl (sec c) t" "up c" "list_all curve_frame fs"
  shows "\<exists>w s'. SendMsg_loop (curve_ops nacl) fs c = (None, wrote w s' c) \<and> matched nacl s' t \<and>
    curve_delivers nacl fs t w"
  using assms(2-)
proof (induction fs arbitrary: c)
  case (Cons f fs)
  obtain w s' where one: "send (curve_ops nacl) False f (more_flag (fs \<noteq> [])) c = (None, wrote w s' c)"
    "matched nacl s' t"
    "\<And>d rest. rx (rw d) = w @ rest \<Longrightarrow> \<not> rw_closed (rw d) \<Longrightarrow> sec d = t \<Longrightarrow>
       read_frame (curve_ops nacl) False d = (Ok (f, fs \<noteq> [], False), got rest t d)"
    by (rule curve_send_frame [where m = "fs \<noteq> []", OF assms(1) Cons.prems(2,3)])
      (use Cons.prems(4) that in auto)
  show ?case
  proof (cases "fs = []")
    case True
    then have "curve_delivers nacl [f] t w"
      using one(3) by (simp add: curve_delivers_def read_loop.simps)
    then show ?thesis using one True by (auto simp: more_flag_def)
  next
    case False
    obtain w' s'' where two: "SendMsg_loop (curve_ops nacl) fs (wrote w s' c) = (None, wrote w' s'' (wrote w s' c))"
      "matched nacl s'' t" "curve_delivers nacl fs t w'"
      using Cons.IH [OF False, of "wrote w s' c"] Cons.prems one by auto
    have "curve_delivers nacl (f # fs) t (w @ w')"
      unfolding curve_delivers_def
    proof (intro allI impI)
      fix d :: "curve_sec Conn" and msg rest
      assume d: "rx (rw d) = (w @ w') @ rest" "\<not> rw_closed (rw d)" "sec d = t"
      then have "read_frame (curve_ops nacl) False d = (Ok (f, True, False), got (w' @ rest) t d)"
        using one(3) [of d "w' @ rest"] False by simp
      then show "read_loop (curve_ops nacl) msg False d =
          (Ok (msg\<lparr>Frames := Frames msg @ f # fs\<rparr>), got rest t d)"
        using two(3) d by (subst read_loop.simps) (simp add: curve_delivers_def)
    qed
    then show ?thesis using one two False by (auto simp: more_flag_def)
  qed
qed simp

lemma curve_RecvMsg:
  assumes "curve_delivers nacl fs (sec d) w" "rx (rw d) = w @ rest" "\<not> rw_closed (rw d)" "\<not> cclosed d"
  shows "RecvMsg (curve_ops nacl) d =
    (Ok (NewMsgFrom fs, None), got rest (sec d) (heartbeat_notify ''activity'' d))"
proof -
  have "Conn_read (curve_ops nacl) (heartbeat_notify ''activity'' d) =
      (Ok (NewMsgFrom fs), got rest (sec d) (heartbeat_notify ''activity'' d))"
    using assms by (simp add: Conn_read_def curve_delivers_def NewMsgFrom_def)
  then show ?thesis
    using assms by (simp add: RecvMsg_def Closed_def isCmd_def NewMsgFrom_def zeroMsg_def)
qed

definition curve_delivers_all :: "Nacl \<Rightarrow> Msg list \<Rightarrow> curve_sec \<Rightarrow> bytes \<Rightarrow> bool" where
  "curve_delivers_all nacl msgs t w \<longleftrightarrow>
     (\<forall>d rest. rx (rw d) = w @ rest \<longrightarrow> \<not> rw_closed (rw d) \<longrightarrow> \<not> cclosed d \<longrightarrow> sec d = t \<longrightarrow>
       (\<exists>d'. RecvAll (curve_ops nacl) (length msgs) d = (Ok (map (\<lambda>m. NewMsgFrom (Frames m)) msgs), d') \<and>
         rx (rw d') = rest \<and> sec d' = t \<and> \<not> rw_closed (rw d') \<and> \<not> cclosed d'))"

lemma curve_delivers_all_Cons:
  assumes "curve_delivers nacl (Frames msg) t w" "curve_delivers_all nacl msgs t w'"
  shows "curve_delivers_all nacl (msg # msgs) t (w @ w')"
  unfolding curve_delivers_all_def
proof (intro allI impI)
  fix d :: "curve_sec Conn" and rest
  assume d: "rx (rw d) = (w @ w') @ rest" "\<not> rw_closed (rw d)" "\<not> cclosed d" "sec d = t"
  let ?d = "got (w' @ rest) t (heartbeat_notify ''activity'' d)"
  have "RecvMsg (curve_ops nacl) d = (Ok (NewMsgFrom (Frames msg), None), ?d)"
    using curve_RecvMsg [of nacl "Frames msg" d w "w' @ rest"] assms(1) d by simp
  moreover have "rx (rw ?d) = w' @ rest" "\<not> rw_closed (rw ?d)" "\<not> cclosed ?d" "sec ?d = t"
    using d by simp_all
  then obtain d' where "RecvAll (curve_ops nacl) (length msgs) ?d = (Ok (map (\<lambda>m. NewMsgFrom (Frames m)) msgs), d')"
    "rx (rw d') = rest" "sec d' = t" "\<not> rw_closed (rw d')" "\<not> cclosed d'"
    using assms(2) unfolding curve_delivers_all_def by meson
  ultimately show "\<exists>d'. RecvAll (curve_ops nacl) (length (msg # msgs)) d =
      (Ok (map (\<lambda>m. NewMsgFrom (Frames m)) (msg # msgs)), d') \<and>
      rx (rw d') = rest \<and> sec d' = t \<and> \<not> rw_closed (rw d') \<and> \<not> cclosed d'"
    by simp
qed

lemma curve_stream:
  assumes "box_ok nacl" "list_all curve_sendable msgs" "up c" "matched nacl (sec c) t"
  shows "\<exists>w s'. SendAll (curve_ops nacl) msgs c = (None, wrote w s' c) \<and> matched nacl s' t \<and>
    curve_delivers_all nacl msgs t w"
  using assms(2-)
proof (induction msgs arbitrary: c)
  case Nil
  show ?case using Nil by (intro exI [of _ "[]"] exI [of _ "sec c"]) (simp add: curve_delivers_all_def)
next
  case (Cons msg msgs)
  have fs: "Frames msg \<noteq> []" "list_all curve_frame (Frames msg)" "\<not> multipart msg" "\<not> Closed c"
    using Cons.prems by (simp_all add: curve_sendable_def Closed_def up_def)
  obtain w s' where one: "SendMsg_loop (curve_ops nacl) (Frames msg) c = (None, wrote w s' c)"
    "matched nacl s' t" "curve_delivers nacl (Frames msg) t w"
    using curve_loop [OF assms(1) fs(1) Cons.prems(3,2) fs(2)] by blast
  obtain w' s'' where two: "SendAll (curve_ops nacl) msgs (wrote w s' c) = (None, wrote w' s'' (wrote w s' c))"
    "matched nacl s'' t" "curve_delivers_all nacl msgs t w'"
    using Cons.IH [of "wrote w s' c"] Cons.prems one by auto
  then show ?case
    using one fs curve_delivers_all_Cons [OF one(3) two(3)] by (auto simp: SendMsg_def)
qed

text \<open>A connection that announces \<open>n\<close> bytes and is given others.\<close>

lemma ready_state: "ready s \<Longrightarrow> \<not> curve_HandshakeState s < 5"
  by (auto simp: ValidateMessageReadiness_def curve_HandshakeState_def split: if_splits dest!: ready_valid)

lemma curve_short_frame:
  assumes "\<not> isLong fl" "length out < 25" "ready (sec d)"
    and "rx (rw d) = [fl, of_nat (length out)] @ out @ rest" "\<not> rw_closed (rw d)" "\<not> cclosed d"
  shows "\<exists>msg d'. RecvMsg (curve_ops nacl) d =
      (Ok (msg, Some (Wrapf ''zmq4: could not read recv msg'' ErrInvalidCommand)), d') \<and> rx (rw d') = rest"
proof -
  let ?d = "heartbeat_notify ''activity'' d"
  have "DecryptWithFlags nacl (sec d) out = Inl ErrInvalidCommand"
    using ready_valid [OF assms(3)] assms(2) by (simp add: DecryptWithFlags_def BoxOverhead_def)
  moreover have "[fl, of_nat (length out)] = frame_header fl (length out)"
    using assms(2) by (simp add: frame_header_def)
  ultimately have "read_frame (curve_ops nacl) False ?d = (Err ErrInvalidCommand, got rest (sec d) ?d)"
    using curve_read_frame [of fl out ?d rest nacl False] assms ready_state [OF assms(3)] by (simp add: maxAlloc_def)
  then have "Conn_read (curve_ops nacl) ?d =
      (Ok (zeroMsg\<lparr>msgErr := Some ErrInvalidCommand\<rparr>), got rest (sec d) ?d)"
    by (simp add: Conn_read_def read_loop.simps)
  then show ?thesis using assms(6) by (simp add: RecvMsg_def Closed_def)
qed

text \<open>The nonces of \<open>n\<close> messages in a row.\<close>

fun send_nonces :: "nat \<Rightarrow> curve_sec \<Rightarrow> bytes list" where
  "send_nonces 0 s = []"
| "send_nonces (Suc n) s = (let (nonce, s') = nextSendNonce s in nonce # send_nonces n s')"

definition nonce_counter :: "curve_sec \<Rightarrow> 64 word" where
  "nonce_counter s = (if isServer s then serverNonce s else clientNonce s)"

definition first_nonce :: "curve_sec \<Rightarrow> nat" where
  "first_nonce s = (if isServer s then 1 else 2)"

lemma nextSendNonce_next:
  "nextSendNonce s = (nonce, s') \<Longrightarrow>
     nonce = put_le64 (if nonce_counter s = 0 then of_nat (first_nonce s) else nonce_counter s + 2) \<and>
     nonce_counter s' = (if nonce_counter s = 0 then of_nat (first_nonce s) else nonce_counter s + 2) \<and>
     isServer s' = isServer s"
  by (auto simp: nextSendNonce_def nonce_counter_def first_nonce_def Let_def split: if_splits)

lemma of_nat64_inj:
  assumes "a < 2 ^ 64" "b < 2 ^ 64"
  shows "(of_nat a :: 64 word) = of_nat b \<longleftrightarrow> a = b"
proof -
  have "unat (of_nat a :: 64 word) = a" "unat (of_nat b :: 64 word) = b"
    using assms by (simp_all add: unat_of_nat)
  then show ?thesis by metis
qed

lemma send_nonces_from:
  assumes "nonce_counter s = of_nat k" "0 < k" "k + 2 * n < 2 ^ 64"
  shows "send_nonces n s = map (\<lambda>i. put_le64 (of_nat (k + 2 * Suc i))) [0..<n]"
  using assms
proof (induction n arbitrary: s k)
  case (Suc n)
  obtain nonce s' where nx: "nextSendNonce s = (nonce, s')" by fastforce
  have "(of_nat k :: 64 word) \<noteq> 0"
    using of_nat64_inj [of k 0] Suc.prems by simp
  then have s': "nonce = put_le64 (of_nat (k + 2))" "nonce_counter s' = of_nat (k + 2)"
    using nextSendNonce_next [OF nx] Suc.prems(1) by (simp_all add: ac_simps)
  have "send_nonces n s' = map (\<lambda>i. put_le64 (of_nat (k + 2 + 2 * Suc i))) [0..<n]"
    using Suc.IH [OF s'(2)] Suc.prems by simp
  moreover have "[0..<Suc n] = 0 # map Suc [0..<n]"
    by (simp add: map_Suc_upt upt_conv_Cons del: upt_Suc)
  ultimately show ?case
    using nx s'(1) by (simp add: comp_def ac_simps del: upt_Suc)
qed simp

lemma send_nonces_fresh:
  assumes "nonce_counter s = 0" "n < 2 ^ 63"
  shows "send_nonces n s = map (\<lambda>i. put_le64 (of_nat (first_nonce s + 2 * i))) [0..<n]"
proof (cases n)
  case (Suc m)
  obtain nonce s' where nx: "nextSendNonce s = (nonce, s')" by fastforce
  have s': "nonce = put_le64 (of_nat (first_nonce s))" "nonce_counter s' = of_nat (first_nonce s)"
    using nextSendNonce_next [OF nx] assms(1) by simp_all
  have "send_nonces m s' = map (\<lambda>i. put_le64 (of_nat (first_nonce s + 2 * Suc i))) [0..<m]"
    using send_nonces_from [OF s'(2)] assms(2) Suc by (simp add: first_nonce_def)
  moreover have "[0..<Suc m] = 0 # map Suc [0..<m]"
    by (simp add: map_Suc_upt upt_conv_Cons del: upt_Suc)
  ultimately show ?thesis
    using nx s'(1) Suc by (simp add: comp_def ac_simps del: upt_Suc)
qed simp

lemma put_le64_inj: "put_le64 v = put_le64 w \<longleftrightarrow> v = w"
proof -
  have "get_be (rev (put_le64 u)) = unat u" for u
    using unsigned_less [where 'a = nat, of u] by (simp add: put_le64_def)
  then show ?thesis by (metis unsigned_word_eqI)
qed

section \<open>Theorems\<close>

text \<open>
  C32: Over CURVE, two peers with matching transient keys exchange messages faithfully: any
  sequence of messages with non-empty frames that are sent one by one is received as the same
  sequence, with exactly the bytes written consumed, in both directions. The reader keeps no
  state, so the same bytes are accepted a second time as the same messages: a replay is not
  detected.
\<close>

theorem curve_message_stream:
  assumes "box_ok nacl" "matched nacl (sec c) t" "up c" "list_all curve_sendable msgs"
  shows "\<exists>w c'. SendAll (curve_ops nacl) msgs c = (None, c') \<and> tx (rw c') = tx (rw c) @ w \<and>
    matched nacl (sec c') t \<and> matched nacl t (sec c') \<and>
    (\<forall>d rest. rx (rw d) = w @ rest \<longrightarrow> \<not> rw_closed (rw d) \<longrightarrow> \<not> cclosed d \<longrightarrow> sec d = t \<longrightarrow>
      (\<exists>d'. RecvAll (curve_ops nacl) (length msgs) d = (Ok (map (\<lambda>m. NewMsgFrom (Frames m)) msgs), d') \<and>
        rx (rw d') = rest)) \<and>
    (\<forall>d rest. rx (rw d) = w @ w @ rest \<longrightarrow> \<not> rw_closed (rw d) \<longrightarrow> \<not> cclosed d \<longrightarrow> sec d = t \<longrightarrow>
      (\<exists>d' d''. RecvAll (curve_ops nacl) (length msgs) d = (Ok (map (\<lambda>m. NewMsgFrom (Frames m)) msgs), d') \<and>
        RecvAll (curve_ops nacl) (length msgs) d' = (Ok (map (\<lambda>m. NewMsgFrom (Frames m)) msgs), d'') \<and>
        rx (rw d'') = rest))"
proof -
  obtain w s' where s: "SendAll (curve_ops nacl) msgs c = (None, wrote w s' c)" "matched nacl s' t"
    and w: "curve_delivers_all nacl msgs t w"
    using curve_stream [OF assms(1,4,3,2)] by blast
  note read = w [unfolded curve_delivers_all_def, rule_format]
  have "\<exists>d'. RecvAll (curve_ops nacl) (length msgs) d = (Ok (map (\<lambda>m. NewMsgFrom (Frames m)) msgs), d') \<and>
      rx (rw d') = rest"
    if "rx (rw d) = w @ rest" "\<not> rw_closed (rw d)" "\<not> cclosed d" "sec d = t" for d rest
    using read [OF that] by blast
  moreover have "\<exists>d' d''. RecvAll (curve_ops nacl) (length msgs) d =
        (Ok (map (\<lambda>m. NewMsgFrom (Frames m)) msgs), d') \<and>
        RecvAll (curve_ops nacl) (length msgs) d' = (Ok (map (\<lambda>m. NewMsgFrom (Frames m)) msgs), d'') \<and>
        rx (rw d'') = rest"
    if d: "rx (rw d) = w @ w @ rest" "\<not> rw_closed (rw d)" "\<not> cclosed d" "sec d = t" for d rest
  proof -
    obtain d' where d': "RecvAll (curve_ops nacl) (length msgs) d = (Ok (map (\<lambda>m. NewMsgFrom (Frames m)) msgs), d')"
      "rx (rw d') = w @ rest" "sec d' = t" "\<not> rw_closed (rw d')" "\<not> cclosed d'"
      using read [OF d] by blast
    show ?thesis using d'(1) read [OF d'(2,4,5,3)] by blast
  qed
  moreover have "tx (rw (wrote w s' c)) = tx (rw c) @ w" "sec (wrote w s' c) = s'" by simp_all
  moreover have "matched nacl t s'" using s(2) matched_sym by blast
  ultimately show ?thesis
    using s by (intro exI [of _ w], intro exI [of _ "wrote w s' c"]) simp
qed

text \<open>A box for the witnesses: every key is its own partner, and the tag is zero.\<close>

definition sample_box :: Nacl where
  "sample_box = \<lparr>box_Seal = (\<lambda>m n p s. m @ replicate 16 0),
     box_Open = (\<lambda>c n p s. if length c < 16 then None else Some (take (length c - 16) c)),
     pairs = (\<lambda>p s. p = s)\<rparr>"

definition sample_peer :: "bool \<Rightarrow> curve_sec" where
  "sample_peer server = \<lparr>keyPair = zero_KeyPair, serverKey = replicate 32 0, isServer = server,
     clientTransient = Some zero_KeyPair, serverTransient = Some zero_KeyPair, cookie = [],
     clientNonce = 0, serverNonce = 0, messageEncryptionReady = True, handshakeState = HandshakeComplete\<rparr>"

definition sample_curve_conn :: "curve_sec \<Rightarrow> curve_sec Conn" where
  "sample_curve_conn s =
     new_Conn \<lparr>rx = [], rx_end = EOF, tx = [], wplan = [], rw_closed = False\<rparr> s SockPair [] False False"

lemma sample_box_ok: "box_ok sample_box"
  by (simp add: box_ok_def sample_box_def)

lemma sample_ready: "ready (sample_peer b)"
  by (simp add: ready_def EnsureMessageReadiness_def ValidateMessageReadiness_def validateTCPConnection_def
      sample_peer_def zero_KeyPair_def)

lemma sample_matched: "matched sample_box (sample_peer b) (sample_peer (\<not> b))"
  using sample_ready
  by (auto simp: matched_def own_secret_def peer_public_def sample_peer_def sample_box_def zero_KeyPair_def)

theorem curve_message_stream_witness:
  "\<exists>w c'. SendAll (curve_ops sample_box) [NewMsgFrom [[1, 2], [3]]] (sample_curve_conn (sample_peer False)) =
      (None, c') \<and> tx (rw c') = w \<and> matched sample_box (sec c') (sample_peer True)"
proof -
  let ?c = "sample_curve_conn (sample_peer False)"
  have "sec ?c = sample_peer False" "up ?c" "tx (rw ?c) = []"
    by (simp_all add: sample_curve_conn_def new_Conn_def up_def)
  moreover have "list_all curve_sendable [NewMsgFrom [[1, 2], [3]]]"
    by (simp add: curve_sendable_def curve_frame_def maxAlloc_def NewMsgFrom_def)
  ultimately show ?thesis
    using curve_message_stream [OF sample_box_ok, of ?c "sample_peer True" "[NewMsgFrom [[1, 2], [3]]]"]
      sample_matched [of False] by auto
qed

text \<open>
  C37: The nonces of a CURVE connection do not repeat. After a handshake the first \<open>2^63 - 1\<close>
  messages of a peer carry pairwise different nonces, and a client and a server, which encrypt
  under the same shared key, never use the same one.
\<close>

theorem curve_nonces_unique:
  assumes "nonce_counter s = 0" "n < 2 ^ 63"
  shows "distinct (send_nonces n s) \<and> length (send_nonces n s) = n \<and>
    (nonce_counter t = 0 \<longrightarrow> k < 2 ^ 63 \<longrightarrow> isServer s \<noteq> isServer t \<longrightarrow>
      set (send_nonces n s) \<inter> set (send_nonces k t) = {})"
proof (intro conjI impI)
  have range: "first_nonce u + 2 * i < 2 ^ 64" if "i < l" "l < 2 ^ 63" for u i and l :: nat
    using that by (simp add: first_nonce_def)
  have same: "put_le64 (of_nat (first_nonce u + 2 * i)) = put_le64 (of_nat (first_nonce v + 2 * j)) \<longleftrightarrow>
      first_nonce u + 2 * i = first_nonce v + 2 * j" if "i < n" "j < l" "l < 2 ^ 63" for u v i j and l :: nat
    using that range assms(2) by (simp only: put_le64_inj of_nat64_inj)
  show "distinct (send_nonces n s)"
    unfolding send_nonces_fresh [OF assms] distinct_map
    using same [of _ _ n s s] assms(2) by (auto simp: inj_on_def)
  show "length (send_nonces n s) = n"
    unfolding send_nonces_fresh [OF assms] by simp
  assume t: "nonce_counter t = 0" "k < 2 ^ 63" and role: "isServer s \<noteq> isServer t"
  have odd: "first_nonce s + 2 * i \<noteq> first_nonce t + 2 * j" for i j
    using role by (auto simp: first_nonce_def split: if_splits) presburger+
  show "set (send_nonces n s) \<inter> set (send_nonces k t) = {}"
    unfolding send_nonces_fresh [OF assms] send_nonces_fresh [OF t]
    using same [of _ _ k s t] t(2) odd by fastforce
qed

theorem curve_nonces_unique_witness:
  "set (send_nonces 5 (sample_peer True)) \<inter> set (send_nonces 7 (sample_peer False)) = {} \<and>
   distinct (send_nonces 5 (sample_peer True))"
  using curve_nonces_unique [of "sample_peer True" 5 "sample_peer False" 7]
  by (simp add: nonce_counter_def sample_peer_def)

definition rejected :: "Nacl \<Rightarrow> curve_sec Conn \<Rightarrow> bytes \<Rightarrow> bool" where
  "rejected nacl d rest \<longleftrightarrow>
     (\<exists>msg d'. RecvMsg (curve_ops nacl) d =
        (Ok (msg, Some (Wrapf ''zmq4: could not read recv msg'' ErrInvalidCommand)), d') \<and> rx (rw d') = rest)"

lemma curve_cut_frame:
  assumes "\<not> isLong fl" "n < 25" "n \<le> length out" "ready (sec d)"
    and "rx (rw d) = [fl, of_nat n] @ out @ rest" "\<not> rw_closed (rw d)" "\<not> cclosed d"
  shows "rejected nacl d (drop n out @ rest)"
  using curve_short_frame [of fl "take n out" d "drop n out @ rest" nacl] assms
  by (simp add: rejected_def append_assoc [symmetric] del: append_assoc)

lemma curve_multi_wire:
  assumes "box_ok nacl" "matched nacl (sec c) t" "up c" "length f \<le> 255"
  shows "\<exists>out s'. SendMsg (curve_ops nacl) ((NewMsgFrom [f])\<lparr>multipart := True\<rparr>) c =
    (None, wrote ([0, of_nat (length f)] @ out) s' c) \<and> length out = length f + 25"
proof -
  obtain out s' where o: "EncryptWithFlags nacl False (sec c) f = (Inr out, s')" "length out = length f + 25"
    using curve_message [OF assms(1,2)] by blast
  have "c\<lparr>sec := s'\<rparr> = wrote [] s' c" by (simp add: wrote_def)
  then have "SendMsg (curve_ops nacl) ((NewMsgFrom [f])\<lparr>multipart := True\<rparr>) c =
      (None, wrote ([0, of_nat (length f)] @ out) s' c)"
    using o assms(3,4)
    by (simp add: SendMsg_def sendMulti_def NewMsgFrom_def Closed_def up_open frame_header_def
        rw_Write_up Let_def)
  then show ?thesis using o(2) by blast
qed

lemma curve_ping_wire:
  assumes "box_ok nacl" "matched nacl (sec c) t" "up c" "length p \<le> 250"
  shows "\<exists>out s'. SendCmd (curve_ops nacl) CmdPing p c =
    (None, wrote ([4, of_nat (5 + length p)] @ out) s' c) \<and> length out = 5 + length p + 25"
proof -
  let ?buf = "4 # CmdPing @ p"
  have buf: "marshalZMTP \<lparr>cmdName = CmdPing, cmdBody = p\<rparr> = Ok ?buf" "length ?buf = 5 + length p"
    by (simp_all add: marshalZMTP_def CmdPing_def)
  obtain out s' where o: "EncryptWithFlags nacl False (sec c) ?buf = (Inr out, s')" "length out = length ?buf + 25"
    using curve_message [OF assms(1,2)] by blast
  have "\<not> isCurveHandshakeCommand CmdPing"
    by (simp add: isCurveHandshakeCommand_def cmd_names wire_simps)
  then have "SendCmd (curve_ops nacl) CmdPing p c = send (curve_ops nacl) True ?buf 0 c"
    using assms(3) buf by (simp add: SendCmd_def sendCmd_def Closed_def up_def)
  also have "\<dots> = (None, wrote ([4, of_nat (5 + length p)] @ out) s' c)"
    using o assms(3,4) buf(2) by (simp add: send_def frame_header_def rw_Write_up crypt_to_up Let_def)
  finally show ?thesis using o(2) buf(2) by (intro exI [of _ out] exI [of _ s']) simp
qed

text \<open>
  What does not fit the CURVE framing. An empty frame, such as the delimiter of a REQ
  request, is sent in clear as an empty frame, and the peer answers it with an error. A frame of
  a multipart message, and the frame of a command such as PING, are announced with the length of
  the plain text, but 25 bytes more are written: the peer reads a part of the encrypted frame,
  reports an error when the announced length is below 25, and continues in the middle of it.
\<close>

theorem curve_frames_out_of_step:
  assumes "box_ok nacl" "matched nacl (sec c) t" "up c"
    and d: "\<not> rw_closed (rw d)" "\<not> cclosed d" "sec d = t"
    and f: "length f < 25" "length p < 20"
  shows "SendMsg (curve_ops nacl) (NewMsgFrom [[]]) c = (None, wrote [0, 0] (sec c) c) \<and>
    (rx (rw d) = [0, 0] @ rest \<longrightarrow> rejected nacl d rest) \<and>
    (\<exists>out s'. SendMsg (curve_ops nacl) ((NewMsgFrom [f])\<lparr>multipart := True\<rparr>) c =
        (None, wrote ([0, of_nat (length f)] @ out) s' c) \<and> length out = length f + 25 \<and>
      (rx (rw d) = [0, of_nat (length f)] @ out @ rest \<longrightarrow> rejected nacl d (drop (length f) out @ rest))) \<and>
    (\<exists>out s'. SendCmd (curve_ops nacl) CmdPing p c =
        (None, wrote ([4, of_nat (5 + length p)] @ out) s' c) \<and> length out = 5 + length p + 25 \<and>
      (rx (rw d) = [4, of_nat (5 + length p)] @ out @ rest \<longrightarrow>
        rejected nacl d (drop (5 + length p) out @ rest)))"
proof (intro conjI)
  have ready: "ready (sec d)" using assms(2) d(3) by (simp add: matched_def)
  have small: "\<not> isLong 0" "\<not> isLong 4" by (simp_all add: flag_defs)
  show "SendMsg (curve_ops nacl) (NewMsgFrom [[]]) c = (None, wrote [0, 0] (sec c) c)"
    using assms(2,3)
    by (simp add: SendMsg_def NewMsgFrom_def zeroMsg_def Closed_def up_def [of c] send_def ready_def matched_def
        frame_header_def rw_Write_up)
  show "rx (rw d) = [0, 0] @ rest \<longrightarrow> rejected nacl d rest"
    using curve_cut_frame [OF small(1), of 0 "[]" d rest nacl] ready d by simp
  show "\<exists>out s'. SendMsg (curve_ops nacl) ((NewMsgFrom [f])\<lparr>multipart := True\<rparr>) c =
        (None, wrote ([0, of_nat (length f)] @ out) s' c) \<and> length out = length f + 25 \<and>
      (rx (rw d) = [0, of_nat (length f)] @ out @ rest \<longrightarrow> rejected nacl d (drop (length f) out @ rest))"
    using curve_multi_wire [OF assms(1-3), of f] curve_cut_frame [OF small(1), of "length f" _ d rest nacl]
      f ready d by force
  show "\<exists>out s'. SendCmd (curve_ops nacl) CmdPing p c =
        (None, wrote ([4, of_nat (5 + length p)] @ out) s' c) \<and> length out = 5 + length p + 25 \<and>
      (rx (rw d) = [4, of_nat (5 + length p)] @ out @ rest \<longrightarrow>
        rejected nacl d (drop (5 + length p) out @ rest))"
    using curve_ping_wire [OF assms(1-3), of p] curve_cut_frame [OF small(2), of "5 + length p" _ d rest nacl]
      f ready d by force
qed

theorem curve_frames_out_of_step_witness:
  "SendMsg (curve_ops sample_box) (NewMsgFrom [[]]) (sample_curve_conn (sample_peer False)) =
     (None, wrote [0, 0] (sample_peer False) (sample_curve_conn (sample_peer False))) \<and>
   rejected sample_box
     ((sample_curve_conn (sample_peer True))\<lparr>rw := \<lparr>rx = [0, 0], rx_end = EOF, tx = [], wplan = [], rw_closed = False\<rparr>\<rparr>) []"
proof -
  let ?c = "sample_curve_conn (sample_peer False)"
  let ?d = "(sample_curve_conn (sample_peer True))\<lparr>rw := \<lparr>rx = [0, 0], rx_end = EOF, tx = [], wplan = [], rw_closed = False\<rparr>\<rparr>"
  have c: "sec ?c = sample_peer False" "up ?c" "sec ?d = sample_peer True" "\<not> rw_closed (rw ?d)" "\<not> cclosed ?d"
    "rx (rw ?d) = [0, 0]"
    by (simp_all add: sample_curve_conn_def new_Conn_def up_def)
  show ?thesis
    using curve_frames_out_of_step [OF sample_box_ok, of ?c "sample_peer True" ?d "[]" "[]" "[]"] c
      sample_matched [of False] by auto
qed

text \<open>
  Keys as Z85 text. The two texts of a key pair are read back exactly as the pair they were
  made from, and no other texts are accepted; a text is a valid key if and only if it is the
  encoding of 32 bytes.
\<close>

theorem curve_keys_z85:
  "(NewKeyPairFromZ85 p s = Ok kp \<longleftrightarrow>
      key_ok (Public kp) \<and> key_ok (Secret kp) \<and> PublicKeyZ85 kp = Ok p \<and> SecretKeyZ85 kp = Ok s) \<and>
   (ValidateZ85Key k = Ok () \<longleftrightarrow> (\<exists>b. key_ok b \<and> EncodeToString b = Ok k))"
proof -
  have four: "length b mod 4 = 0" if "length b = KeySize" for b :: bytes
    using that by (simp add: KeySize_def)
  have dec: "DecodeString t = Ok b \<and> length b = KeySize \<longleftrightarrow> key_ok b \<and> EncodeToString b = Ok t" for t b
    using DecodeString_inverse [of t b] DecodeString_z85_spec [of b] EncodeToString_spec [of b]
    by (metis key_ok_def KeySize_def four result.inject(1))
  have key: "decode_key what t = Ok b \<longleftrightarrow> key_ok b \<and> EncodeToString b = Ok t" for what t b
    unfolding dec [symmetric] by (auto simp: decode_key_def)
  have "ValidateZ85Key k = Ok () \<longleftrightarrow> (\<exists>b. DecodeString k = Ok b \<and> length b = KeySize)"
    using ValidateString_accepts_more [of k] by (auto simp: ValidateZ85Key_def)
  also have "\<dots> \<longleftrightarrow> (\<exists>b. key_ok b \<and> EncodeToString b = Ok k)" by (simp only: dec)
  finally have valid: "ValidateZ85Key k = Ok () \<longleftrightarrow> (\<exists>b. key_ok b \<and> EncodeToString b = Ok k)" .
  obtain pub secr where kp: "kp = \<lparr>Public = pub, Secret = secr\<rparr>" by (cases kp)
  have "NewKeyPairFromZ85 p s = Ok kp \<longleftrightarrow> decode_key ''public'' p = Ok pub \<and> decode_key ''secret'' s = Ok secr"
    by (simp add: NewKeyPairFromZ85_def kp)
  also have "\<dots> \<longleftrightarrow> key_ok pub \<and> key_ok secr \<and> EncodeToString pub = Ok p \<and> EncodeToString secr = Ok s"
    unfolding key by blast
  finally show ?thesis using valid by (simp add: kp PublicKeyZ85_def SecretKeyZ85_def)
qed

end
