(* ===== verification/Curve_Handshake.thy ===== *)
theory Curve_Handshake
  imports Curve_Security
begin

text \<open>
  The CURVE handshake (\<^verbatim>\<open>src/security/curve/handshake.go\<close>): HELLO, WELCOME, INITIATE and READY,
  on a connection of \<open>Zmtp_Conn\<close>. The outcome of \<^verbatim>\<open>GenerateKeyPair\<close> and the clock are
  arguments (\<open>gen\<close>; \<open>now\<close> in seconds at WELCOME and at INITIATE), \<open>env\<close> has the parameters of
  the metadata codec. Since \<^verbatim>\<open>box.Seal\<close> adds exactly \<^verbatim>\<open>box.Overhead\<close> bytes, the pieces that the
  code copies into a command body of the computed size are the pieces one after the other.
\<close>

section \<open>Commands\<close>

text \<open>A 24-byte nonce of 16 letters; the remaining bytes of the array are zero.\<close>

definition hs_nonce :: "string \<Rightarrow> bytes" where
  "hs_nonce s = str s @ replicate (NonceSize - length s) 0"

definition nil_deref :: string where "nil_deref = ''invalid memory address or nil pointer dereference''"

definition hello_body :: "Nacl \<Rightarrow> curve_sec \<Rightarrow> bytes result" where
  "hello_body nacl s =
     (case clientTransient s of
        None \<Rightarrow> Panic nil_deref
      | Some ct \<Rightarrow>
          let signatureBox = box_Seal nacl (replicate 64 0) (hs_nonce ''CurveZMQHELLO---'') (serverKey s) (Secret ct);
              body = replicate 64 0 @ Public ct @ replicate 64 0 @ take 40 signatureBox in
          if length signatureBox \<noteq> 80 then Err (Errorf ''curve: invalid signature box size'')
          else if length body \<noteq> HelloBodySize then Err (Errorf ''curve: invalid HELLO body size'')
          else Ok body)"

definition sendHello :: "Nacl \<Rightarrow> curve_sec Conn \<Rightarrow> unit result \<times> curve_sec Conn" where
  "sendHello nacl c =
     sbind (hello_body nacl (sec c), c) (\<lambda>body c. to_result (SendCmd (curve_ops nacl) CmdHello body c))"

definition recvHello_cmd :: "Cmd \<Rightarrow> curve_sec \<Rightarrow> unit result \<times> curve_sec" where
  "recvHello_cmd cmd s =
     (if cmdName cmd \<noteq> CmdHello then (Err (Errorf ''curve: expected HELLO''), s)
      else if length (cmdBody cmd) \<noteq> HelloBodySize then (Err (Errorf ''curve: invalid HELLO body size''), s)
      else
        let body = cmdBody cmd in
        if take 64 body \<noteq> replicate 64 0 then (Err (Errorf ''curve: invalid HELLO signature''), s)
        else
          let s = s\<lparr>clientTransient := Some (zero_KeyPair\<lparr>Public := take 32 (drop 64 body)\<rparr>)\<rparr> in
          if take 64 (drop 96 body) \<noteq> replicate 64 0 then (Err (Errorf ''curve: invalid HELLO padding''), s)
          else if length (take 40 (drop 160 body)) \<noteq> 40 then
            (Err (Errorf ''curve: invalid signature box size''), s)
          else (Ok (), s))"

text \<open>A handler that only changes the security state, on a connection.\<close>

definition on_sec :: "(curve_sec \<Rightarrow> unit result \<times> curve_sec) \<Rightarrow> curve_sec Conn \<Rightarrow> unit result \<times> curve_sec Conn" where
  "on_sec f c = (case f (sec c) of (r, s) \<Rightarrow> (r, c\<lparr>sec := s\<rparr>))"

definition recvHello :: "Nacl \<Rightarrow> curve_sec Conn \<Rightarrow> unit result \<times> curve_sec Conn" where
  "recvHello nacl c =
     sbind (swrap ''curve: could not receive HELLO'' (RecvCmd (curve_ops nacl) c))
       (\<lambda>cmd c. on_sec (recvHello_cmd cmd) c)"

definition welcome_body :: "Nacl \<Rightarrow> int \<Rightarrow> curve_sec \<Rightarrow> bytes result" where
  "welcome_body nacl now s =
     (case (clientTransient s, serverTransient s) of
        (Some ct, Some st) \<Rightarrow>
          let cookiePlain = Public ct @ Secret st @ put_be 8 (unat (word_of_int now :: 64 word));
              cookie = box_Seal nacl cookiePlain (hs_nonce ''CurveZMQCOOKIE--'')
                         (Public (keyPair s)) (Secret (keyPair s)) in
          if length cookie \<noteq> 88 then Err (Errorf ''curve: invalid cookie size'')
          else
            let body = Public st @ (cookie @ replicate 8 0) @ replicate 40 0 in
            if length body \<noteq> WelcomeBodySize then Err (Errorf ''curve: invalid WELCOME body size'') else Ok body
      | _ \<Rightarrow> Panic nil_deref)"

definition sendWelcome :: "Nacl \<Rightarrow> int \<Rightarrow> curve_sec Conn \<Rightarrow> unit result \<times> curve_sec Conn" where
  "sendWelcome nacl now c =
     sbind (welcome_body nacl now (sec c), c) (\<lambda>body c. to_result (SendCmd (curve_ops nacl) CmdWelcome body c))"

definition recvWelcome_cmd :: "Cmd \<Rightarrow> curve_sec \<Rightarrow> unit result \<times> curve_sec" where
  "recvWelcome_cmd cmd s =
     (if cmdName cmd \<noteq> CmdWelcome then (Err (Errorf ''curve: expected WELCOME''), s)
      else if length (cmdBody cmd) \<noteq> WelcomeBodySize then (Err (Errorf ''curve: invalid WELCOME body size''), s)
      else
        let body = cmdBody cmd;
            s = s\<lparr>serverTransient := Some (zero_KeyPair\<lparr>Public := take 32 body\<rparr>),
                  cookie := take 96 (drop 32 body)\<rparr> in
        if take 40 (drop 128 body) \<noteq> replicate 40 0 then (Err (Errorf ''curve: invalid WELCOME padding''), s)
        else (Ok (), s))"

definition recvWelcome :: "Nacl \<Rightarrow> curve_sec Conn \<Rightarrow> unit result \<times> curve_sec Conn" where
  "recvWelcome nacl c =
     sbind (swrap ''curve: could not receive WELCOME'' (RecvCmd (curve_ops nacl) c))
       (\<lambda>cmd c. on_sec (recvWelcome_cmd cmd) c)"

definition conn_metadata :: "Env \<Rightarrow> curve_sec Conn \<Rightarrow> bytes result" where
  "conn_metadata env c =
     wrap_err ''curve: could not serialize metadata''
       (Metadata_MarshalZMTP (e_toTitle env) (e_room env) (e_iter env (Meta c)))"

definition initiate_body :: "Nacl \<Rightarrow> bytes \<Rightarrow> curve_sec \<Rightarrow> bytes result" where
  "initiate_body nacl metadata s =
     (case (clientTransient s, serverTransient s) of
        (Some ct, Some st) \<Rightarrow>
          let metadataPlain = Public st @ Public (keyPair s) @ metadata;
              metadataBox = box_Seal nacl metadataPlain (hs_nonce ''CurveZMQINITIATE'') (Public st) (Secret ct);
              vouchBox = box_Seal nacl (Public (keyPair s)) (hs_nonce ''CurveZMQVOUCH---'') (serverKey s) (Secret ct) in
          if length vouchBox \<noteq> 48 then Err (Errorf ''curve: invalid vouch box size'')
          else Ok (cookie s @ Public ct @ metadataBox @ vouchBox)
      | _ \<Rightarrow> Panic nil_deref)"

definition sendInitiate :: "Env \<Rightarrow> Nacl \<Rightarrow> curve_sec Conn \<Rightarrow> unit result \<times> curve_sec Conn" where
  "sendInitiate env nacl c =
     (if length (cookie (sec c)) \<noteq> 96 then (Err (Errorf ''curve: no valid cookie available for INITIATE''), c)
      else
        sbind (conn_metadata env c, c) (\<lambda>metadata c.
        sbind (initiate_body nacl metadata (sec c), c) (\<lambda>body c.
          to_result (SendCmd (curve_ops nacl) CmdInitiate body c))))"

text \<open>
  The end of the cookie: the loop looks for the last byte among the first 88 that is not zero,
  and the result is raised to 88 again.
\<close>

definition cookie_end :: "bytes \<Rightarrow> nat" where
  "cookie_end ck =
     (let actualEnd = (case dropWhile (\<lambda>i. ck ! i = 0) (rev [0..<88]) of [] \<Rightarrow> 88 | i # _ \<Rightarrow> i + 1)
      in if actualEnd < 88 then 88 else actualEnd)"

text \<open>\<^verbatim>\<open>recvInitiate\<close> in three parts: the cookie, the metadata box, the vouch.\<close>

definition recvInitiate_cookie :: "Nacl \<Rightarrow> int \<Rightarrow> bytes \<Rightarrow> curve_sec \<Rightarrow> unit result \<times> curve_sec" where
  "recvInitiate_cookie nacl now body s =
     (let ck = take 96 body in
      case box_Open nacl (take (cookie_end ck) ck) (hs_nonce ''CurveZMQCOOKIE--'')
             (Public (keyPair s)) (Secret (keyPair s)) of
        None \<Rightarrow> (Err (Errorf ''curve: failed to decrypt cookie - invalid or expired''), s)
      | Some dec \<Rightarrow>
          if length dec \<noteq> 72 then (Err (Errorf ''curve: invalid cookie content size''), s)
          else
            (case (clientTransient s, serverTransient s) of
               (Some ct, Some st) \<Rightarrow>
                 let s = s\<lparr>serverTransient := Some (st\<lparr>Secret := take 32 (drop 32 dec)\<rparr>)\<rparr>;
                     timestamp = (of_nat (get_be (take 8 (drop 64 dec))) :: 64 word);
                     fromMsg = take 32 (drop 96 body) in
                 if sint (word_of_int now - timestamp) > 60 then (Err (Errorf ''curve: cookie expired''), s)
                 else if take 32 dec \<noteq> fromMsg then
                   (Err (Errorf ''curve: client transient key mismatch between cookie and message''), s)
                 else if fromMsg \<noteq> Public ct then
                   (Err (Errorf ''curve: client transient key mismatch with HELLO''), s)
                 else (Ok (), s)
             | _ \<Rightarrow> (Panic nil_deref, s)))"

definition recvInitiate_metadata ::
    "Env \<Rightarrow> Nacl \<Rightarrow> bytes \<Rightarrow> curve_sec Conn \<Rightarrow> bytes result \<times> curve_sec Conn" where
  "recvInitiate_metadata env nacl body c =
     (case (clientTransient (sec c), serverTransient (sec c)) of
        (Some ct, Some st) \<Rightarrow>
          (case box_Open nacl (drop 128 (take (length body - 48) body)) (hs_nonce ''CurveZMQINITIATE'')
                  (Public ct) (Secret st) of
             None \<Rightarrow> (Err (Errorf ''curve: failed to decrypt INITIATE metadata box''), c)
           | Some dec \<Rightarrow>
               if length dec < 2 * KeySize then (Err (Errorf ''curve: invalid metadata box content: too short''), c)
               else if take KeySize dec \<noteq> Public st then
                 (Err (Errorf ''curve: server transient key mismatch in INITIATE''), c)
               else
                 let metadata = drop (2 * KeySize) dec in
                 (case Metadata_UnmarshalZMTP (e_toTitle env) (e_spare env metadata) metadata (PeerMeta c) of
                    Panic m \<Rightarrow> (Panic m, c)
                  | Err e \<Rightarrow> (Err (Wrapf ''curve: could not unmarshal peer metadata'' e), c)
                  | Ok md \<Rightarrow> (Ok (take KeySize (drop KeySize dec)), c\<lparr>PeerMeta := md\<rparr>)))
      | _ \<Rightarrow> (Panic nil_deref, c))"

definition recvInitiate_vouch :: "Nacl \<Rightarrow> bytes \<Rightarrow> bytes \<Rightarrow> curve_sec \<Rightarrow> unit result \<times> curve_sec" where
  "recvInitiate_vouch nacl body clientPermanentKey s =
     (let vouchBox = drop (length body - 48) body in
      if length vouchBox \<noteq> 48 then (Err (Errorf ''curve: invalid vouch box size''), s)
      else
        case clientTransient s of
          None \<Rightarrow> (Panic nil_deref, s)
        | Some ct \<Rightarrow>
            (case box_Open nacl vouchBox (hs_nonce ''CurveZMQVOUCH---'') (Public ct) (Secret (keyPair s)) of
               None \<Rightarrow> (Err (Errorf ''curve: failed to verify vouch box''), s)
             | Some vouch \<Rightarrow>
                 if length vouch \<noteq> KeySize then (Err (Errorf ''curve: invalid vouch content size''), s)
                 else if vouch \<noteq> clientPermanentKey then
                   (Err (Errorf ''curve: vouch verification failed - key mismatch''), s)
                 else (Ok (), s\<lparr>serverKey := clientPermanentKey\<rparr>)))"

definition recvInitiate_cmd ::
    "Env \<Rightarrow> Nacl \<Rightarrow> int \<Rightarrow> Cmd \<Rightarrow> curve_sec Conn \<Rightarrow> unit result \<times> curve_sec Conn" where
  "recvInitiate_cmd env nacl now cmd c =
     (let body = cmdBody cmd in
      if cmdName cmd \<noteq> CmdInitiate then (Err (Errorf ''curve: expected INITIATE''), c)
      else if length body < InitiateBodySize then (Err (Errorf ''curve: INITIATE body too small''), c)
      else
        sbind (on_sec (recvInitiate_cookie nacl now body) c) (\<lambda>_ c.
        sbind (recvInitiate_metadata env nacl body c) (\<lambda>clientPermanentKey c.
          on_sec (recvInitiate_vouch nacl body clientPermanentKey) c)))"

definition recvInitiate :: "Env \<Rightarrow> Nacl \<Rightarrow> int \<Rightarrow> curve_sec Conn \<Rightarrow> unit result \<times> curve_sec Conn" where
  "recvInitiate env nacl now c =
     sbind (swrap ''curve: could not receive INITIATE'' (RecvCmd (curve_ops nacl) c))
       (\<lambda>cmd c. recvInitiate_cmd env nacl now cmd c)"

definition ready_body :: "Nacl \<Rightarrow> bytes \<Rightarrow> curve_sec \<Rightarrow> bytes result" where
  "ready_body nacl metadata s =
     (case (clientTransient s, serverTransient s) of
        (Some ct, Some st) \<Rightarrow> Ok (box_Seal nacl metadata (hs_nonce ''CurveZMQREADY---'') (Public ct) (Secret st))
      | _ \<Rightarrow> Panic nil_deref)"

definition sendReady :: "Env \<Rightarrow> Nacl \<Rightarrow> curve_sec Conn \<Rightarrow> unit result \<times> curve_sec Conn" where
  "sendReady env nacl c =
     sbind (conn_metadata env c, c) (\<lambda>metadata c.
     sbind (ready_body nacl metadata (sec c), c) (\<lambda>body c.
       to_result (SendCmd (curve_ops nacl) CmdReady body c)))"

definition recvReady_cmd :: "Env \<Rightarrow> Nacl \<Rightarrow> Cmd \<Rightarrow> curve_sec Conn \<Rightarrow> unit result \<times> curve_sec Conn" where
  "recvReady_cmd env nacl cmd c =
     (if cmdName cmd \<noteq> CmdReady then (Err (Errorf ''curve: expected READY''), c)
      else
        case (clientTransient (sec c), serverTransient (sec c)) of
          (Some ct, Some st) \<Rightarrow>
            (case box_Open nacl (cmdBody cmd) (hs_nonce ''CurveZMQREADY---'') (Public st) (Secret ct) of
               None \<Rightarrow> (Err (Errorf ''curve: failed to decrypt READY box''), c)
             | Some metadata \<Rightarrow>
                 (case Metadata_UnmarshalZMTP (e_toTitle env) (e_spare env metadata) metadata (PeerMeta c) of
                    Panic m \<Rightarrow> (Panic m, c)
                  | Err e \<Rightarrow> (Err (Wrapf ''curve: could not unmarshal peer metadata'' e), c)
                  | Ok md \<Rightarrow> (Ok (), c\<lparr>PeerMeta := md\<rparr>)))
        | _ \<Rightarrow> (Panic nil_deref, c))"

definition recvReady :: "Env \<Rightarrow> Nacl \<Rightarrow> curve_sec Conn \<Rightarrow> unit result \<times> curve_sec Conn" where
  "recvReady env nacl c =
     sbind (swrap ''curve: could not receive READY'' (RecvCmd (curve_ops nacl) c))
       (\<lambda>cmd c. recvReady_cmd env nacl cmd c)"

section \<open>The two sides\<close>

definition set_state :: "HandshakeState \<Rightarrow> curve_sec Conn \<Rightarrow> curve_sec Conn" where
  "set_state st c = c\<lparr>sec := (sec c)\<lparr>handshakeState := st\<rparr>\<rparr>"

definition complete :: "curve_sec Conn \<Rightarrow> curve_sec Conn" where
  "complete c = c\<lparr>sec := (sec c)\<lparr>handshakeState := HandshakeComplete, serverNonce := 0, clientNonce := 0,
     messageEncryptionReady := True\<rparr>\<rparr>"

definition clientHandshake ::
    "Env \<Rightarrow> Nacl \<Rightarrow> KeyPair result \<Rightarrow> curve_sec Conn \<Rightarrow> unit result \<times> curve_sec Conn" where
  "clientHandshake env nacl gen c =
     (case gen of
        Panic m \<Rightarrow> (Panic m, set_state HandshakeInit c)
      | Err e \<Rightarrow>
          (Err (Wrapf ''curve: failed to generate client transient keys'' e),
           c\<lparr>sec := (sec c)\<lparr>handshakeState := HandshakeInit, clientTransient := None\<rparr>\<rparr>)
      | Ok kp \<Rightarrow>
          let c = c\<lparr>sec := (sec c)\<lparr>clientTransient := Some kp, handshakeState := HandshakeHello\<rparr>\<rparr> in
          sbind (swrap ''curve: failed to send HELLO'' (sendHello nacl c)) (\<lambda>_ c.
          sbind (swrap ''curve: failed to receive WELCOME'' (recvWelcome nacl c)) (\<lambda>_ c.
          sbind (swrap ''curve: failed to send INITIATE''
                   (sendInitiate env nacl (set_state HandshakeInitiate (set_state HandshakeWelcome c)))) (\<lambda>_ c.
          sbind (swrap ''curve: failed to receive READY'' (recvReady env nacl c)) (\<lambda>_ c.
            (Ok (), complete (set_state HandshakeReady c)))))))"

definition serverHandshake ::
    "Env \<Rightarrow> Nacl \<Rightarrow> KeyPair result \<Rightarrow> int \<Rightarrow> int \<Rightarrow> curve_sec Conn \<Rightarrow> unit result \<times> curve_sec Conn" where
  "serverHandshake env nacl gen now now' c =
     sbind (swrap ''curve: failed to receive HELLO'' (recvHello nacl (set_state HandshakeInit c))) (\<lambda>_ c.
       let c = set_state HandshakeHello c in
       case gen of
         Panic m \<Rightarrow> (Panic m, c)
       | Err e \<Rightarrow>
           (Err (Wrapf ''curve: failed to generate server transient keys'' e),
            c\<lparr>sec := (sec c)\<lparr>serverTransient := None\<rparr>\<rparr>)
       | Ok kp \<Rightarrow>
           let c = c\<lparr>sec := (sec c)\<lparr>serverTransient := Some kp, handshakeState := HandshakeWelcome\<rparr>\<rparr> in
           sbind (swrap ''curve: failed to send WELCOME'' (sendWelcome nacl now c)) (\<lambda>_ c.
           sbind (swrap ''curve: failed to receive INITIATE'' (recvInitiate env nacl now' c)) (\<lambda>_ c.
           sbind (swrap ''curve: failed to send READY''
                    (sendReady env nacl (set_state HandshakeReady (set_state HandshakeInitiate c)))) (\<lambda>_ c.
             (Ok (), complete c)))))"

definition curve_Handshake :: "Env \<Rightarrow> Nacl \<Rightarrow> KeyPair result \<Rightarrow> int \<Rightarrow> int \<Rightarrow> curve_sec handshake" where
  "curve_Handshake env nacl gen now now' c server =
     (if server then serverHandshake env nacl gen now now' c else clientHandshake env nacl gen c)"

section \<open>Lemmas: commands on a connection\<close>

text \<open>What the connection writes for a handshake command: the body without the name.\<close>

definition raw_wire :: "bytes \<Rightarrow> bytes" where
  "raw_wire body = frame_header (wire_flag 0 (length body > 255) True) (length body) @ body"

lemma handshake_names:
  "isCurveHandshakeCommand CmdHello" "isCurveHandshakeCommand CmdWelcome"
  "isCurveHandshakeCommand CmdInitiate" "isCurveHandshakeCommand CmdReady"
  by (simp_all add: isCurveHandshakeCommand_def)

lemma SendCmd_raw:
  assumes "up c" "isCurveHandshakeCommand name"
  shows "SendCmd (curve_ops nacl) name body c = (None, wrote (raw_wire body) (sec c) c)"
proof -
  have "EncryptHandshakeCommand name s body = (Inr body, s)" for s
    using assms(2) by (auto simp: EncryptHandshakeCommand_def isCurveHandshakeCommand_def cmd_names)
  then show ?thesis
    using assms
    by (simp add: SendCmd_def sendCmd_def Closed_def up_open sendWithCurveHandshakeEncryption_def rw_Write_up
        crypt_to_up raw_wire_def wire_flag_def Let_def)
qed

lemma RecvCmd_raw:
  assumes "curve_HandshakeState (sec d) < 5" "\<not> rw_closed (rw d)" "\<not> cclosed d" "length body \<le> maxAlloc"
    and "rx (rw d) = raw_wire body @ rest"
  shows "RecvCmd (curve_ops nacl) d =
    swrap ''zmq4: could not unmarshal ZMTP recv cmd'' (unmarshalZMTP body, got rest (sec d) d)"
proof -
  let ?fl = "wire_flag 0 (length body > 255) True"
  have fl: "isLong ?fl = (length body > 255)" "isCommand ?fl" "\<not> hasMore ?fl"
    using wire_flag_sel [of False "length body > 255" True] by (simp_all add: more_flag_def)
  then have "read_frame (curve_ops nacl) False d = (Ok (body, False, True), got rest (sec d) d)"
    using curve_read_frame [of ?fl body d rest nacl False] assms by (simp add: raw_wire_def)
  then show ?thesis
    using assms(3) by (simp add: RecvCmd_def Closed_def Conn_read_def read_loop.simps isCmd_def)
qed

lemma cmd_wire_raw:
  "cmd_wire name body = raw_wire ([of_nat (length name)] @ name @ body)"
  by (simp add: cmd_wire_def raw_wire_def more_flag_def)

lemma RecvCmd_named:
  assumes "curve_HandshakeState (sec d) < 5" "up d" "length name \<le> 255" "length body < maxAlloc - 256"
    and "rx (rw d) = cmd_wire name body @ rest"
  shows "RecvCmd (curve_ops nacl) d = (Ok \<lparr>cmdName = name, cmdBody = body\<rparr>, got rest (sec d) d)"
proof -
  let ?buf = "[of_nat (length name)] @ name @ body"
  have "unmarshalZMTP ?buf = Ok \<lparr>cmdName = name, cmdBody = body\<rparr>"
    using unmarshalZMTP_marshalZMTP [of "\<lparr>cmdName = name, cmdBody = body\<rparr>" ?buf] assms(3)
    by (simp add: marshalZMTP_def)
  then show ?thesis
    using RecvCmd_raw [of d ?buf rest nacl] assms up_open [OF assms(2)]
    by (simp add: cmd_wire_raw maxAlloc_def)
qed

section \<open>Lemmas: the bodies of the commands\<close>

definition kp_ok :: "Nacl \<Rightarrow> KeyPair \<Rightarrow> bool" where
  "kp_ok nacl kp \<longleftrightarrow> key_ok (Public kp) \<and> key_ok (Secret kp) \<and> pairs nacl (Public kp) (Secret kp)"

definition hello_of :: "Nacl \<Rightarrow> KeyPair \<Rightarrow> bytes \<Rightarrow> bytes" where
  "hello_of nacl ct spub = replicate 64 0 @ Public ct @ replicate 64 0 @
     take 40 (box_Seal nacl (replicate 64 0) (hs_nonce ''CurveZMQHELLO---'') spub (Secret ct))"

definition cookie_of :: "Nacl \<Rightarrow> int \<Rightarrow> KeyPair \<Rightarrow> KeyPair \<Rightarrow> bytes \<Rightarrow> bytes" where
  "cookie_of nacl now sk st cpub =
     box_Seal nacl (cpub @ Secret st @ put_be 8 (unat (word_of_int now :: 64 word)))
       (hs_nonce ''CurveZMQCOOKIE--'') (Public sk) (Secret sk) @ replicate 8 0"

definition welcome_of :: "bytes \<Rightarrow> bytes \<Rightarrow> bytes" where
  "welcome_of spub ck = spub @ ck @ replicate 40 0"

definition initiate_of :: "Nacl \<Rightarrow> bytes \<Rightarrow> KeyPair \<Rightarrow> bytes \<Rightarrow> bytes \<Rightarrow> bytes \<Rightarrow> bytes \<Rightarrow> bytes" where
  "initiate_of nacl ck ct stpub spub perm md =
     ck @ Public ct @
     box_Seal nacl (stpub @ perm @ md) (hs_nonce ''CurveZMQINITIATE'') stpub (Secret ct) @
     box_Seal nacl perm (hs_nonce ''CurveZMQVOUCH---'') spub (Secret ct)"

definition ready_of :: "Nacl \<Rightarrow> bytes \<Rightarrow> bytes \<Rightarrow> bytes \<Rightarrow> bytes" where
  "ready_of nacl md cpub ssec = box_Seal nacl md (hs_nonce ''CurveZMQREADY---'') cpub ssec"

lemma length_Seal: "box_ok nacl \<Longrightarrow> length (box_Seal nacl m n p s) = length m + 16"
  by (simp add: box_ok_def)

lemma Open_Seal:
  "box_ok nacl \<Longrightarrow> pairs nacl pa sa \<Longrightarrow> pairs nacl pb sb \<Longrightarrow>
     box_Open nacl (box_Seal nacl m n pb sa) n pa sb = Some m"
  by (simp add: box_ok_def)

lemma hello_body_of:
  assumes "box_ok nacl" "clientTransient s = Some ct" "key_ok (Public ct)"
  shows "hello_body nacl s = Ok (hello_of nacl ct (serverKey s))"
  using assms by (simp add: hello_body_def hello_of_def length_Seal Let_def key_ok_def curve_sizes)

lemma recvHello_of:
  assumes "box_ok nacl" "key_ok (Public ct)"
  shows "recvHello_cmd \<lparr>cmdName = CmdHello, cmdBody = hello_of nacl ct spub\<rparr> s =
    (Ok (), s\<lparr>clientTransient := Some (zero_KeyPair\<lparr>Public := Public ct\<rparr>)\<rparr>)"
  using assms by (simp add: recvHello_cmd_def hello_of_def length_Seal key_ok_def curve_sizes Let_def)

lemma length_cookie_of:
  "box_ok nacl \<Longrightarrow> key_ok cpub \<Longrightarrow> key_ok (Secret st) \<Longrightarrow> length (cookie_of nacl now sk st cpub) = 96"
  by (simp add: cookie_of_def length_Seal key_ok_def KeySize_def)

lemma welcome_body_of:
  assumes "box_ok nacl" "clientTransient s = Some ct" "serverTransient s = Some st"
    "key_ok (Public ct)" "key_ok (Public st)" "key_ok (Secret st)"
  shows "welcome_body nacl now s = Ok (welcome_of (Public st) (cookie_of nacl now (keyPair s) st (Public ct)))"
  using assms
  by (simp add: welcome_body_def welcome_of_def cookie_of_def length_Seal key_ok_def curve_sizes Let_def)

lemma recvWelcome_of:
  assumes "key_ok spub" "length ck = 96"
  shows "recvWelcome_cmd \<lparr>cmdName = CmdWelcome, cmdBody = welcome_of spub ck\<rparr> s =
    (Ok (), s\<lparr>serverTransient := Some (zero_KeyPair\<lparr>Public := spub\<rparr>), cookie := ck\<rparr>)"
  using assms by (simp add: recvWelcome_cmd_def welcome_of_def key_ok_def curve_sizes Let_def)

lemma initiate_body_of:
  assumes "box_ok nacl" "clientTransient s = Some ct" "serverTransient s = Some st" "key_ok (Public (keyPair s))"
  shows "initiate_body nacl md s =
    Ok (initiate_of nacl (cookie s) ct (Public st) (serverKey s) (Public (keyPair s)) md)"
  using assms by (simp add: initiate_body_def initiate_of_def length_Seal key_ok_def curve_sizes Let_def)

lemma cookie_end_88: "cookie_end ck = 88"
proof -
  define xs where "xs = rev [0..<88::nat]"
  have "\<forall>i \<in> set xs. i < 88" unfolding xs_def set_rev set_upt by simp
  then have "i < 88" if "dropWhile (\<lambda>i. ck ! i = 0) xs = i # is" for i "is"
    using that set_dropWhileD [of i "\<lambda>i. ck ! i = 0" xs] by simp
  then have "i + 1 \<le> 88" if "dropWhile (\<lambda>i. ck ! i = 0) xs = i # is" for i "is"
    using that by fastforce
  then show ?thesis
    unfolding cookie_end_def xs_def [symmetric] by (auto simp: Let_def le_antisym split: list.splits)
qed

definition fresh :: "int \<Rightarrow> int \<Rightarrow> bool" where
  "fresh now now' \<longleftrightarrow> now \<le> now' \<and> now' \<le> now + 60"

lemma fresh_stamp:
  assumes "fresh now now'"
  shows "\<not> sint (word_of_int now' - of_nat (get_be (put_be 8 (unat (word_of_int now :: 64 word)))) :: 64 word) > 60"
proof -
  have "get_be (put_be 8 (unat (word_of_int now :: 64 word))) = unat (word_of_int now :: 64 word)"
    using unsigned_less [where 'a = nat, of "word_of_int now :: 64 word"] by simp
  then have "word_of_int now' - of_nat (get_be (put_be 8 (unat (word_of_int now :: 64 word)))) =
      (word_of_int (now' - now) :: 64 word)" by simp
  moreover have "sint (word_of_int x :: 64 word) = x" if "0 \<le> x" "x \<le> 60" for x
    using that by (simp add: signed_of_int signed_take_bit_int_eq_self)
  then have "sint (word_of_int (now' - now) :: 64 word) = now' - now"
    using assms by (simp only: fresh_def) (metis diff_ge_0_iff_ge diff_le_eq add.commute)
  ultimately show ?thesis using assms by (simp only: fresh_def) linarith
qed

lemma recvInitiate_cookie_of:
  assumes "box_ok nacl" "kp_ok nacl (keyPair s)" "key_ok (Public a)" "key_ok (Secret st)" "fresh now now'"
    and "clientTransient s = Some ct" "Public ct = Public a" "serverTransient s = Some st"
  shows "recvInitiate_cookie nacl now' (cookie_of nacl now (keyPair s) st (Public a) @ Public a @ end_part) s = (Ok (), s)"
proof -
  let ?sk = "keyPair s"
  let ?plain = "Public a @ Secret st @ put_be 8 (unat (word_of_int now :: 64 word))"
  let ?ck = "cookie_of nacl now ?sk st (Public a)"
  have ck: "length ?ck = 96" "take 88 ?ck = box_Seal nacl ?plain (hs_nonce ''CurveZMQCOOKIE--'') (Public ?sk) (Secret ?sk)"
    using assms(1,3,4) by (simp_all add: length_cookie_of) (simp add: cookie_of_def length_Seal key_ok_def KeySize_def)
  have "box_Open nacl (take 88 ?ck) (hs_nonce ''CurveZMQCOOKIE--'') (Public ?sk) (Secret ?sk) = Some ?plain"
    using assms(1,2) ck(2) by (simp add: Open_Seal kp_ok_def)
  moreover have "s\<lparr>serverTransient := Some (st\<lparr>Secret := Secret st\<rparr>)\<rparr> = s"
    using assms(8) by (cases s; cases st) simp
  moreover have "length ?plain = 72" "take 32 (drop 32 ?plain) = Secret st" "take 32 ?plain = Public a"
    "take 8 (drop 64 ?plain) = put_be 8 (unat (word_of_int now :: 64 word))"
    using assms(3,4) by (simp_all add: key_ok_def KeySize_def)
  moreover have "take 96 (?ck @ Public a @ end_part) = ?ck" "take 32 (drop 96 (?ck @ Public a @ end_part)) = Public a"
    using ck(1) assms(3) by (simp_all add: key_ok_def KeySize_def)
  ultimately show ?thesis
    using assms(6-8) fresh_stamp [OF assms(5)] by (simp add: recvInitiate_cookie_def cookie_end_88 Let_def)
qed

lemma recvInitiate_metadata_of:
  assumes "box_ok nacl" "pairs nacl (Public a) (Secret a)" "pairs nacl (Public st) (Secret st)"
    "key_ok (Public st)" "key_ok perm" "key_ok (Public a)" "length ck = 96"
    and "clientTransient (sec c) = Some ct" "Public ct = Public a" "serverTransient (sec c) = Some st"
    and "Metadata_UnmarshalZMTP (e_toTitle env) (e_spare env md) md (PeerMeta c) = Ok pm"
  shows "recvInitiate_metadata env nacl (initiate_of nacl ck a (Public st) spub perm md) c =
    (Ok perm, c\<lparr>PeerMeta := pm\<rparr>)"
proof -
  let ?body = "initiate_of nacl ck a (Public st) spub perm md"
  let ?plain = "Public st @ perm @ md"
  have "drop 128 (take (length ?body - 48) ?body) =
      box_Seal nacl ?plain (hs_nonce ''CurveZMQINITIATE'') (Public st) (Secret a)"
    using assms(1,4-7) by (simp add: initiate_of_def length_Seal key_ok_def KeySize_def)
  moreover have "box_Open nacl (box_Seal nacl ?plain (hs_nonce ''CurveZMQINITIATE'') (Public st) (Secret a))
      (hs_nonce ''CurveZMQINITIATE'') (Public ct) (Secret st) = Some ?plain"
    using assms(1-3,9) by (simp add: Open_Seal)
  ultimately show ?thesis
    using assms(4,5,8,10,11) by (simp add: recvInitiate_metadata_def key_ok_def KeySize_def Let_def)
qed

lemma recvInitiate_vouch_of:
  assumes "box_ok nacl" "pairs nacl (Public a) (Secret a)" "kp_ok nacl (keyPair s)" "key_ok perm"
    and "clientTransient s = Some ct" "Public ct = Public a"
  shows "recvInitiate_vouch nacl (initiate_of nacl ck a stpub (Public (keyPair s)) perm md) perm s =
    (Ok (), s\<lparr>serverKey := perm\<rparr>)"
proof -
  let ?body = "initiate_of nacl ck a stpub (Public (keyPair s)) perm md"
  have "drop (length ?body - 48) ?body =
      box_Seal nacl perm (hs_nonce ''CurveZMQVOUCH---'') (Public (keyPair s)) (Secret a)"
    using assms(1,4) by (simp add: initiate_of_def length_Seal key_ok_def KeySize_def)
  moreover have "box_Open nacl (box_Seal nacl perm (hs_nonce ''CurveZMQVOUCH---'') (Public (keyPair s)) (Secret a))
      (hs_nonce ''CurveZMQVOUCH---'') (Public ct) (Secret (keyPair s)) = Some perm"
    using assms by (simp add: Open_Seal kp_ok_def)
  ultimately show ?thesis
    using assms(1,4,5) by (simp add: recvInitiate_vouch_def length_Seal key_ok_def KeySize_def)
qed

lemma on_sec_Ok: "f (sec c) = (Ok (), s) \<Longrightarrow> on_sec f c = (Ok (), c\<lparr>sec := s\<rparr>)"
  by (simp add: on_sec_def)

lemma recvInitiate_of:
  assumes "box_ok nacl" "kp_ok nacl (keyPair (sec c))" "kp_ok nacl st" "kp_ok nacl a" "key_ok perm" "fresh now now'"
    and "clientTransient (sec c) = Some ct" "Public ct = Public a" "serverTransient (sec c) = Some st"
    and "Metadata_UnmarshalZMTP (e_toTitle env) (e_spare env md) md (PeerMeta c) = Ok pm"
  defines "body \<equiv> initiate_of nacl (cookie_of nacl now (keyPair (sec c)) st (Public a)) a (Public st)
    (Public (keyPair (sec c))) perm md"
  shows "recvInitiate_cmd env nacl now' \<lparr>cmdName = CmdInitiate, cmdBody = body\<rparr> c =
    (Ok (), c\<lparr>PeerMeta := pm, sec := (sec c)\<lparr>serverKey := perm\<rparr>\<rparr>)"
proof -
  let ?ck = "cookie_of nacl now (keyPair (sec c)) st (Public a)"
  have keys: "key_ok (Public a)" "pairs nacl (Public a) (Secret a)" "key_ok (Public st)" "key_ok (Secret st)"
    "pairs nacl (Public st) (Secret st)"
    using assms(3,4) by (simp_all add: kp_ok_def)
  have ck: "length ?ck = 96" using assms(1) keys by (simp add: length_cookie_of)
  have "\<not> length body < InitiateBodySize"
    using assms(1,5) keys ck by (simp add: body_def initiate_of_def length_Seal key_ok_def curve_sizes)
  moreover have "on_sec (recvInitiate_cookie nacl now' body) c = (Ok (), c)"
    using recvInitiate_cookie_of [OF assms(1,2) keys(1,4) assms(6-9), folded initiate_of_def]
    by (simp add: on_sec_def body_def initiate_of_def)
  moreover have "recvInitiate_metadata env nacl body c = (Ok perm, c\<lparr>PeerMeta := pm\<rparr>)"
    unfolding body_def
    by (rule recvInitiate_metadata_of [OF assms(1) keys(2,5,3) assms(5) keys(1) ck assms(7-10)])
  moreover have "on_sec (recvInitiate_vouch nacl body perm) (c\<lparr>PeerMeta := pm\<rparr>) =
      (Ok (), c\<lparr>PeerMeta := pm, sec := (sec c)\<lparr>serverKey := perm\<rparr>\<rparr>)"
    using recvInitiate_vouch_of [OF assms(1) keys(2) assms(2,5,7,8)] by (simp add: on_sec_def body_def)
  ultimately show ?thesis by (simp add: recvInitiate_cmd_def)
qed

section \<open>Lemmas: the two runs\<close>

definition client_done :: "KeyPair \<Rightarrow> bytes \<Rightarrow> bytes \<Rightarrow> curve_sec \<Rightarrow> curve_sec" where
  "client_done ct stpub ck s = s\<lparr>clientTransient := Some ct,
     serverTransient := Some (zero_KeyPair\<lparr>Public := stpub\<rparr>), cookie := ck,
     handshakeState := HandshakeComplete, serverNonce := 0, clientNonce := 0, messageEncryptionReady := True\<rparr>"

definition server_done :: "bytes \<Rightarrow> KeyPair \<Rightarrow> bytes \<Rightarrow> curve_sec \<Rightarrow> curve_sec" where
  "server_done cpub st perm s = s\<lparr>clientTransient := Some (zero_KeyPair\<lparr>Public := cpub\<rparr>),
     serverTransient := Some st, serverKey := perm,
     handshakeState := HandshakeComplete, serverNonce := 0, clientNonce := 0, messageEncryptionReady := True\<rparr>"

lemma sec_upd [simp]:
  "up (c\<lparr>sec := s\<rparr>) = up c" "up (set_state st c) = up c"
  "rx (rw (set_state st c)) = rx (rw c)" "Meta (set_state st c) = Meta c" "PeerMeta (set_state st c) = PeerMeta c"
  "tx (rw (set_state st c)) = tx (rw c)" "ctyp (set_state st c) = ctyp c"
  "sec (set_state st c) = (sec c)\<lparr>handshakeState := st\<rparr>"
  "up (got y t c) = up c" "wrote w s' (c\<lparr>sec := s\<rparr>) = wrote w s' c" "(wrote w s' c)\<lparr>sec := s\<rparr> = wrote w s c"
  "got y s' (c\<lparr>sec := s\<rparr>) = got y s' c" "set_state st (got y s c) = got y (s\<lparr>handshakeState := st\<rparr>) c"
  "set_state st (wrote w s c) = wrote w (s\<lparr>handshakeState := st\<rparr>) c"
  by (simp_all add: up_def set_state_def wrote_def got_def)

lemma conn_metadata_sys:
  assumes "env_ok env" "length t \<le> 400" "Meta c = sys_meta t i"
  shows "conn_metadata env c = Ok (meta_wire env t i)"
  using meta_marshal [OF assms(1,2), of i] assms(3) by (simp add: conn_metadata_def)

lemma body_lengths:
  assumes "box_ok nacl" "key_ok (Public a)" "key_ok stpub" "key_ok perm" "length ck = 96" "length md \<le> 1024"
  shows "length (hello_of nacl a spub) < maxAlloc - 256" "length (welcome_of stpub ck) < maxAlloc - 256"
    "length (initiate_of nacl ck a stpub spub perm md) < maxAlloc - 256"
    "length (ready_of nacl md spub x) < maxAlloc - 256"
  using assms
  by (simp_all add: hello_of_def welcome_of_def initiate_of_def ready_of_def length_Seal key_ok_def KeySize_def
      maxAlloc_def)

lemma client_run:
  assumes box: "box_ok nacl" and env: "env_ok env" "env_ok env'" and len: "length t \<le> 400" "length t' \<le> 400"
    and c: "up c" "Meta c = sys_meta t i" "PeerMeta c = Map.empty"
    and keys: "kp_ok nacl ct" "key_ok stpub" "pairs nacl stpub ssec" "key_ok (Public (keyPair (sec c)))"
    and ck: "length ck = 96"
    and rx: "rx (rw c) = cmd_wire CmdWelcome (welcome_of stpub ck) @
      cmd_wire CmdReady (ready_of nacl (meta_wire env' t' i') (Public ct) ssec) @ rest"
  shows "\<exists>c'. clientHandshake env nacl (Ok ct) c = (Ok (), c') \<and> rx (rw c') = rest \<and>
    tx (rw c') = tx (rw c) @ raw_wire (hello_of nacl ct (serverKey (sec c))) @
      raw_wire (initiate_of nacl ck ct stpub (serverKey (sec c)) (Public (keyPair (sec c))) (meta_wire env t i)) \<and>
    PeerMeta c' sysSockType = Some t' \<and> PeerMeta c' sysSockID = Some (Identity_String i') \<and>
    sec c' = client_done ct stpub ck (sec c)"
proof -
  let ?md' = "meta_wire env' t' i'" and ?md = "meta_wire env t i"
  obtain pm where pm: "Metadata_UnmarshalZMTP (e_toTitle env) (e_spare env ?md') ?md' Map.empty = Ok pm"
    "pm sysSockType = Some t'" "pm sysSockID = Some (Identity_String i')"
    using meta_unmarshal [OF env len(2)] by blast
  have ct: "key_ok (Public ct)" "pairs nacl (Public ct) (Secret ct)" using keys by (simp_all add: kp_ok_def)
  have md: "length ?md \<le> 1024" "length ?md' \<le> 1024"
    using length_meta_wire_le [OF env(1) len(1)] length_meta_wire_le [OF env(2) len(2)] by auto
  note lens = body_lengths [OF box ct(1) keys(2) keys(4) ck]
  let ?ready = "cmd_wire CmdReady (ready_of nacl ?md' (Public ct) ssec) @ rest"
  let ?s1 = "(sec c)\<lparr>clientTransient := Some ct, handshakeState := HandshakeHello\<rparr>"
  let ?hello = "raw_wire (hello_of nacl ct (serverKey (sec c)))"
  let ?init = "initiate_of nacl ck ct stpub (serverKey (sec c)) (Public (keyPair (sec c))) ?md"
  let ?c2 = "wrote ?hello ?s1 c"
  let ?s3 = "?s1\<lparr>serverTransient := Some (zero_KeyPair\<lparr>Public := stpub\<rparr>), cookie := ck\<rparr>"
  let ?c3 = "got ?ready ?s3 ?c2"
  let ?s4 = "?s3\<lparr>handshakeState := HandshakeInitiate\<rparr>"
  let ?c4 = "wrote (raw_wire ?init) ?s4 (got ?ready ?s4 ?c2)"
  let ?c5 = "(got rest ?s4 ?c4)\<lparr>PeerMeta := pm\<rparr>"
  have "sendHello nacl (c\<lparr>sec := ?s1\<rparr>) = (Ok (), ?c2)"
    using c(1) by (simp add: sendHello_def hello_body_of [OF box _ ct(1)] SendCmd_raw handshake_names)
  moreover have "recvWelcome nacl ?c2 = (Ok (), ?c3)"
    using RecvCmd_named [of ?c2 CmdWelcome "welcome_of stpub ck" ?ready nacl] c(1) rx lens(2) [OF md(1)]
      recvWelcome_of [OF keys(2) ck]
    by (simp add: recvWelcome_def curve_HandshakeState_def on_sec_def)
  moreover have "sendInitiate env nacl (set_state HandshakeInitiate (set_state HandshakeWelcome ?c3)) = (Ok (), ?c4)"
    using c ck conn_metadata_sys [OF env(1) len(1), of "got ?ready ?s4 ?c2" i]
      initiate_body_of [OF box, of ?s4 ct "zero_KeyPair\<lparr>Public := stpub\<rparr>" ?md] keys(4)
    by (simp add: sendInitiate_def SendCmd_raw handshake_names)
  moreover have "recvReady env nacl ?c4 = (Ok (), ?c5)"
    using RecvCmd_named [of ?c4 CmdReady "ready_of nacl ?md' (Public ct) ssec" rest nacl] c lens(4) [OF md(2)]
      Open_Seal [OF box keys(3) ct(2)] pm(1)
    by (simp add: recvReady_def recvReady_cmd_def curve_HandshakeState_def ready_of_def)
  ultimately show ?thesis
    using pm(2,3) by (simp add: clientHandshake_def complete_def client_done_def set_state_def)
qed

text \<open>
  The server's run. The client is whoever holds the transient key pair \<open>a\<close>; nothing is assumed
  of a secret that belongs to the permanent key \<open>perm\<close> it names.
\<close>

lemma server_run:
  assumes box: "box_ok nacl" and env: "env_ok env" "env_ok env'" and len: "length t \<le> 400" "length t' \<le> 400"
    and d: "up d" "Meta d = sys_meta t i" "PeerMeta d = Map.empty"
    and keys: "kp_ok nacl (keyPair (sec d))" "kp_ok nacl st" "kp_ok nacl a" "key_ok perm" and fresh: "fresh now now'"
    and rx: "rx (rw d) = cmd_wire CmdHello (hello_of nacl a spub) @
      cmd_wire CmdInitiate (initiate_of nacl (cookie_of nacl now (keyPair (sec d)) st (Public a)) a (Public st)
        (Public (keyPair (sec d))) perm (meta_wire env' t' i')) @ rest"
  shows "\<exists>d'. serverHandshake env nacl (Ok st) now now' d = (Ok (), d') \<and> rx (rw d') = rest \<and>
    tx (rw d') = tx (rw d) @ raw_wire (welcome_of (Public st) (cookie_of nacl now (keyPair (sec d)) st (Public a))) @
      raw_wire (ready_of nacl (meta_wire env t i) (Public a) (Secret st)) \<and>
    PeerMeta d' sysSockType = Some t' \<and> PeerMeta d' sysSockID = Some (Identity_String i') \<and>
    sec d' = server_done (Public a) st perm (sec d)"
proof -
  let ?md' = "meta_wire env' t' i'" and ?md = "meta_wire env t i" and ?sk = "keyPair (sec d)"
  let ?ck = "cookie_of nacl now ?sk st (Public a)"
  obtain pm where pm: "Metadata_UnmarshalZMTP (e_toTitle env) (e_spare env ?md') ?md' Map.empty = Ok pm"
    "pm sysSockType = Some t'" "pm sysSockID = Some (Identity_String i')"
    using meta_unmarshal [OF env len(2)] by blast
  have k: "key_ok (Public a)" "key_ok (Public st)" "key_ok (Secret st)" using keys by (simp_all add: kp_ok_def)
  have ck: "length ?ck = 96" using box k by (simp add: length_cookie_of)
  have md: "length ?md' \<le> 1024" using length_meta_wire_le [OF env(2) len(2)] by auto
  note lens = body_lengths [OF box k(1,2) keys(4) ck md]
  let ?init = "initiate_of nacl ?ck a (Public st) (Public ?sk) perm ?md'"
  let ?ct = "zero_KeyPair\<lparr>Public := Public a\<rparr>"
  let ?s0 = "(sec d)\<lparr>handshakeState := HandshakeInit\<rparr>"
  let ?s1 = "?s0\<lparr>clientTransient := Some ?ct\<rparr>"
  let ?d1 = "got (cmd_wire CmdInitiate ?init @ rest) ?s1 (set_state HandshakeInit d)"
  let ?s2 = "?s1\<lparr>serverTransient := Some st, handshakeState := HandshakeWelcome\<rparr>"
  let ?d2 = "got (cmd_wire CmdInitiate ?init @ rest) ?s2 (set_state HandshakeInit d)"
  let ?d3 = "wrote (raw_wire (welcome_of (Public st) ?ck)) ?s2 ?d2"
  let ?s4 = "?s2\<lparr>serverKey := perm\<rparr>"
  let ?d4 = "(got rest ?s2 ?d3)\<lparr>PeerMeta := pm, sec := ?s4\<rparr>"
  let ?s5 = "?s4\<lparr>handshakeState := HandshakeReady\<rparr>"
  let ?d5 = "wrote (raw_wire (ready_of nacl ?md (Public a) (Secret st))) ?s5 ?d4"
  have "recvHello nacl (set_state HandshakeInit d) = (Ok (), ?d1)"
    using RecvCmd_named [of "set_state HandshakeInit d" CmdHello "hello_of nacl a spub"
        "cmd_wire CmdInitiate ?init @ rest" nacl] d(1) rx lens(1) recvHello_of [OF box k(1)]
    by (simp add: recvHello_def curve_HandshakeState_def on_sec_def)
  moreover have "sendWelcome nacl now ?d2 = (Ok (), ?d3)"
    using d(1) welcome_body_of [OF box, of ?s2 ?ct st now] k
    by (simp add: sendWelcome_def SendCmd_raw handshake_names)
  moreover have "recvInitiate env nacl now' ?d3 = (Ok (), ?d4)"
    using RecvCmd_named [of ?d3 CmdInitiate ?init rest nacl] d lens(3) pm(1) keys fresh
      recvInitiate_of [OF box, of "got rest ?s2 ?d3" st a perm now now' ?ct env ?md' pm]
    by (simp add: recvInitiate_def curve_HandshakeState_def)
  moreover have "sendReady env nacl (set_state HandshakeReady (set_state HandshakeInitiate ?d4)) = (Ok (), ?d5)"
    using d conn_metadata_sys [OF env(1) len(1), of "?d4\<lparr>sec := ?s5\<rparr>" i]
    by (simp add: sendReady_def SendCmd_raw handshake_names ready_body_def ready_of_def set_state_def)
  ultimately show ?thesis
    using pm(2,3) by (simp add: serverHandshake_def complete_def server_done_def)
qed

lemma done_ready:
  assumes "kp_ok nacl ct" "kp_ok nacl st"
  shows "ready (client_done ct (Public st) ck s)" "ready (server_done (Public ct) st perm s)"
  using assms
  by (simp_all add: ready_def EnsureMessageReadiness_def ValidateMessageReadiness_def validateTCPConnection_def
      client_done_def server_done_def kp_ok_def key_ok_def zero_KeyPair_def)

lemma done_matched:
  assumes "kp_ok nacl ct" "kp_ok nacl st" "\<not> isServer s" "isServer s'"
  shows "matched nacl (client_done ct (Public st) ck s) (server_done (Public ct) st perm s')"
  using assms done_ready [OF assms(1,2)]
  by (simp add: matched_def own_secret_def peer_public_def kp_ok_def) (simp add: client_done_def server_done_def)

text \<open>The first byte of a HELLO body is zero, which is read as the length of an empty name.\<close>

lemma hello_unnamed: "\<exists>body. unmarshalZMTP (hello_of nacl ct spub) = Ok \<lparr>cmdName = [], cmdBody = body\<rparr>"
  by (simp add: hello_of_def unmarshalZMTP_def replicate_Suc [of 63, simplified])

lemma serverHandshake_unnamed:
  assumes "up d" "box_ok nacl" "key_ok (Public ct)" "rx (rw d) = raw_wire (hello_of nacl ct spub) @ rest"
  shows "\<exists>d'. serverHandshake env nacl gen now now' d =
      (Err (Wrapf ''curve: failed to receive HELLO'' (Errorf ''curve: expected HELLO'')), d') \<and>
    tx (rw d') = tx (rw d)"
proof -
  let ?d = "set_state HandshakeInit d"
  obtain body where body: "unmarshalZMTP (hello_of nacl ct spub) = Ok \<lparr>cmdName = [], cmdBody = body\<rparr>"
    using hello_unnamed by blast
  have "length (hello_of nacl ct spub) \<le> maxAlloc"
    using assms(2,3) by (simp add: hello_of_def length_Seal key_ok_def KeySize_def maxAlloc_def)
  then have "RecvCmd (curve_ops nacl) ?d = (Ok \<lparr>cmdName = [], cmdBody = body\<rparr>, got rest (sec ?d) ?d)"
    using RecvCmd_raw [of ?d "hello_of nacl ct spub" rest nacl] assms(1,4) body up_open [of ?d]
    by (simp add: curve_HandshakeState_def)
  then show ?thesis
    by (simp add: serverHandshake_def recvHello_def on_sec_def recvHello_cmd_def cmd_names wire_simps)
qed

section \<open>Theorems\<close>

text \<open>
  C31: The CURVE handshake, with each command delivered under its name. A client and a server
  whose permanent key the client knows complete it, whatever their transient keys, within the
  60 seconds a cookie lives: each reads exactly the four command bodies the other produces,
  learns the socket type and identity of the other, the server learns the permanent key of the
  client, and the two end up ready with matching transient keys, so that messages flow.
\<close>

theorem curve_handshake_agreement:
  assumes box: "box_ok nacl" and env: "env_ok env" "env_ok env'" and len: "length t \<le> 400" "length t' \<le> 400"
    and keys: "kp_ok nacl ct" "kp_ok nacl st" "kp_ok nacl sk" "key_ok (Public ckp)" and fresh: "fresh now now'"
    and c: "up c" "Meta c = sys_meta t i" "PeerMeta c = Map.empty" "sec c = NewClientSecurity ckp (Public sk)"
    and d: "up d" "Meta d = sys_meta t' i'" "PeerMeta d = Map.empty" "sec d = NewServerSecurity sk"
    and bodies: "hello = hello_of nacl ct (Public sk)" "ck = cookie_of nacl now sk st (Public ct)"
      "initiate = initiate_of nacl ck ct (Public st) (Public sk) (Public ckp) (meta_wire env t i)"
      "rdy = ready_of nacl (meta_wire env' t' i') (Public ct) (Secret st)"
    and rx: "rx (rw c) = cmd_wire CmdWelcome (welcome_of (Public st) ck) @ cmd_wire CmdReady rdy"
      "rx (rw d) = cmd_wire CmdHello hello @ cmd_wire CmdInitiate initiate"
  shows "\<exists>c' d'. clientHandshake env nacl (Ok ct) c = (Ok (), c') \<and>
    serverHandshake env' nacl (Ok st) now now' d = (Ok (), d') \<and>
    tx (rw c') = tx (rw c) @ raw_wire hello @ raw_wire initiate \<and>
    tx (rw d') = tx (rw d) @ raw_wire (welcome_of (Public st) ck) @ raw_wire rdy \<and>
    PeerMeta c' sysSockType = Some t' \<and> PeerMeta c' sysSockID = Some (Identity_String i') \<and>
    PeerMeta d' sysSockType = Some t \<and> PeerMeta d' sysSockID = Some (Identity_String i) \<and>
    serverKey (sec d') = Public ckp \<and> matched nacl (sec c') (sec d')"
proof -
  have sel: "serverKey (sec c) = Public sk" "keyPair (sec c) = ckp" "keyPair (sec d) = sk"
    "\<not> isServer (sec c)" "isServer (sec d)"
    by (simp_all add: c(4) d(4) NewClientSecurity_def NewServerSecurity_def)
  have st: "key_ok (Public st)" "pairs nacl (Public st) (Secret st)" "length ck = 96"
    using keys(1,2) box by (simp_all add: kp_ok_def bodies(2) length_cookie_of)
  obtain c' where c': "clientHandshake env nacl (Ok ct) c = (Ok (), c')"
    "tx (rw c') = tx (rw c) @ raw_wire hello @ raw_wire initiate"
    "PeerMeta c' sysSockType = Some t'" "PeerMeta c' sysSockID = Some (Identity_String i')"
    "sec c' = client_done ct (Public st) ck (sec c)"
    using client_run [OF box env len c(1-3) keys(1) st(1,2) _ st(3), of i' "[]"] keys(4) rx(1) sel bodies by auto
  obtain d' where d': "serverHandshake env' nacl (Ok st) now now' d = (Ok (), d')"
    "tx (rw d') = tx (rw d) @ raw_wire (welcome_of (Public st) ck) @ raw_wire rdy"
    "PeerMeta d' sysSockType = Some t" "PeerMeta d' sysSockID = Some (Identity_String i)"
    "sec d' = server_done (Public ct) st (Public ckp) (sec d)"
    using server_run [OF box env(2,1) len(2,1) d(1-3) _ keys(2,1,4) fresh, of "Public sk" i "[]"] keys(3) rx(2) sel bodies
    by auto
  have "serverKey (sec d') = Public ckp" by (simp add: d'(5) server_done_def)
  moreover have "matched nacl (sec c') (sec d')"
    using done_matched [OF keys(1,2) sel(4,5)] by (simp add: c'(5) d'(5))
  ultimately show ?thesis using c' d' by blast
qed

definition hs_conn :: "bytes \<Rightarrow> curve_sec \<Rightarrow> bool \<Rightarrow> curve_sec Conn" where
  "hs_conn bs s server = new_Conn (open_net bs) s SockPair [] server True"

lemma hs_conn_sel [simp]:
  "up (hs_conn bs s server)" "Meta (hs_conn bs s server) = sys_meta SockPair []"
  "PeerMeta (hs_conn bs s server) = Map.empty" "sec (hs_conn bs s server) = s"
  "rx (rw (hs_conn bs s server)) = bs" "tx (rw (hs_conn bs s server)) = []" "cServer (hs_conn bs s server) = server"
  by (simp_all add: hs_conn_def new_Conn_def open_net_def up_def sys_meta_def)

lemma zero_kp_ok: "kp_ok sample_box zero_KeyPair" "key_ok (Public zero_KeyPair)"
  by (simp_all add: kp_ok_def key_ok_def zero_KeyPair_def sample_box_def)

lemma SockPair_length: "length SockPair \<le> 400"
  by (simp add: SockPair_def)

theorem curve_handshake_agreement_witness:
  "\<exists>welcome hello c' d'.
    clientHandshake sample_env sample_box (Ok zero_KeyPair)
      (hs_conn welcome (NewClientSecurity zero_KeyPair (Public zero_KeyPair)) False) = (Ok (), c') \<and>
    serverHandshake sample_env sample_box (Ok zero_KeyPair) 0 5 (hs_conn hello (NewServerSecurity zero_KeyPair) True) =
      (Ok (), d') \<and>
    matched sample_box (sec c') (sec d')"
proof -
  have "fresh 0 5" by (simp add: fresh_def)
  then show ?thesis
    using curve_handshake_agreement [OF sample_box_ok sample_env_ok sample_env_ok SockPair_length SockPair_length
        zero_kp_ok(1) zero_kp_ok(1) zero_kp_ok(1,2) _ hs_conn_sel(1,2,3,4) hs_conn_sel(1,2,3,4) refl refl refl refl
        hs_conn_sel(5) hs_conn_sel(5), of 0 5 False True] by blast
qed

text \<open>
  C38: No CURVE connection between two peers of this package can be opened. The connection
  writes the body of a handshake command without the name of the command, but reads the name in
  front of the body: the zero byte that a HELLO body starts with is read as an empty name. The
  server refuses every client, before it has sent anything but its greeting, whatever the keys
  on both sides.
\<close>

theorem curve_handshake_refused:
  assumes "box_ok nacl" "key_ok (Public ct)" "up c" "clientTransient (sec c) = Some ct"
    and "up d" "cServer d"
    and "rx (rw d) = greeting_marshal (hello_greeting CurveSecurity) @
      raw_wire (hello_of nacl ct (serverKey (sec c))) @ rest"
  shows "sendHello nacl c = (Ok (), wrote (raw_wire (hello_of nacl ct (serverKey (sec c)))) (sec c) c) \<and>
    (\<exists>d'. Conn_init (curve_ops nacl) (curve_Handshake env nacl gen now now') d =
       (Err (Wrapf ''zmq4: could not perform security handshake'' (Wrapf ''curve: failed to receive HELLO''
          (Errorf ''curve: expected HELLO''))), d') \<and>
     tx (rw d') = tx (rw d) @ greeting_marshal (hello_greeting CurveSecurity))"
proof
  show "sendHello nacl c = (Ok (), wrote (raw_wire (hello_of nacl ct (serverKey (sec c)))) (sec c) c)"
    using assms(3) by (simp add: sendHello_def hello_body_of [OF assms(1,4,2)] SendCmd_raw handshake_names)
  let ?g = "greeting_marshal (hello_greeting CurveSecurity)"
  let ?hello = "raw_wire (hello_of nacl ct (serverKey (sec c))) @ rest"
  let ?d = "(got ?hello (sec d) (wrote ?g (sec d) d))\<lparr>PeerServer := False\<rparr>"
  have "length CurveSecurity \<le> 20" "0 \<notin> set CurveSecurity" by (simp_all add: CurveSecurity_def wire_simps)
  then have greet: "greet (curve_ops nacl) d = (Ok (), ?d)"
    using greet_up [OF assms(5), of "curve_ops nacl" ?hello] assms(7) by simp
  obtain d' where "serverHandshake env nacl gen now now' ?d =
      (Err (Wrapf ''curve: failed to receive HELLO'' (Errorf ''curve: expected HELLO'')), d')" "tx (rw d') = tx (rw ?d)"
    using serverHandshake_unnamed [of ?d nacl ct "serverKey (sec c)" rest env gen now now'] assms(1,2,5) by auto
  then show "\<exists>d'. Conn_init (curve_ops nacl) (curve_Handshake env nacl gen now now') d =
       (Err (Wrapf ''zmq4: could not perform security handshake'' (Wrapf ''curve: failed to receive HELLO''
          (Errorf ''curve: expected HELLO''))), d') \<and>
     tx (rw d') = tx (rw d) @ ?g"
    using greet assms(6) by (simp add: Conn_init_def curve_Handshake_def)
qed

theorem curve_handshake_refused_witness:
  "\<exists>hello d'. Conn_init (curve_ops sample_box) (curve_Handshake sample_env sample_box (Ok zero_KeyPair) 0 5)
      (hs_conn hello (NewServerSecurity zero_KeyPair) True) =
    (Err (Wrapf ''zmq4: could not perform security handshake'' (Wrapf ''curve: failed to receive HELLO''
       (Errorf ''curve: expected HELLO''))), d')"
proof -
  let ?s = "(NewClientSecurity zero_KeyPair (Public zero_KeyPair))\<lparr>clientTransient := Some zero_KeyPair\<rparr>"
  let ?h = "greeting_marshal (hello_greeting CurveSecurity) @
    raw_wire (hello_of sample_box zero_KeyPair (serverKey ?s)) @ []"
  show ?thesis
    using curve_handshake_refused [OF sample_box_ok zero_kp_ok(2), of "hs_conn [] ?s False"
        "hs_conn ?h (NewServerSecurity zero_KeyPair) True" "[]" sample_env "Ok zero_KeyPair" 0 5]
    by simp blast
qed

text \<open>
  The handshake authenticates nobody. Whoever holds any transient key pair \<open>a\<close> completes it
  as the server of a client that expects any server key, without the secret of that key, and
  shares message keys with the client; and completes it as a client under any permanent key
  \<open>perm\<close>, without the secret of that key: the server records \<open>perm\<close> as its peer.
\<close>

theorem curve_peers_not_authenticated:
  assumes box: "box_ok nacl" and env: "env_ok env" "env_ok env'" and len: "length t \<le> 400" "length t' \<le> 400"
    and keys: "kp_ok nacl a" "kp_ok nacl ct" "kp_ok nacl st" "key_ok perm" "key_ok (Public (keyPair (sec c)))"
      "kp_ok nacl (keyPair (sec d))" and fresh: "fresh now now'"
    and c: "up c" "Meta c = sys_meta t i" "PeerMeta c = Map.empty" "\<not> isServer (sec c)"
    and d: "up d" "Meta d = sys_meta t i" "PeerMeta d = Map.empty"
    and rx: "rx (rw c) = cmd_wire CmdWelcome (welcome_of (Public a) (replicate 96 0)) @
        cmd_wire CmdReady (ready_of nacl (meta_wire env' t' i') (Public ct) (Secret a))"
      "rx (rw d) = cmd_wire CmdHello (hello_of nacl a (Public (keyPair (sec d)))) @
        cmd_wire CmdInitiate (initiate_of nacl (cookie_of nacl now (keyPair (sec d)) st (Public a)) a (Public st)
          (Public (keyPair (sec d))) perm (meta_wire env' t' i'))"
  shows "(\<exists>c'. clientHandshake env nacl (Ok ct) c = (Ok (), c') \<and> serverKey (sec c') = serverKey (sec c) \<and>
      own_secret (sec c') = Secret ct \<and> peer_public (sec c') = Public a) \<and>
    (\<exists>d'. serverHandshake env nacl (Ok st) now now' d = (Ok (), d') \<and> serverKey (sec d') = perm)"
proof
  have a: "key_ok (Public a)" "pairs nacl (Public a) (Secret a)" using keys(1) by (simp_all add: kp_ok_def)
  obtain c' where "clientHandshake env nacl (Ok ct) c = (Ok (), c')"
    "sec c' = client_done ct (Public a) (replicate 96 0) (sec c)"
    using client_run [OF box env len c(1-3) keys(2) a keys(5), of "replicate 96 0" i' "[]"] rx(1) by auto
  then show "\<exists>c'. clientHandshake env nacl (Ok ct) c = (Ok (), c') \<and> serverKey (sec c') = serverKey (sec c) \<and>
      own_secret (sec c') = Secret ct \<and> peer_public (sec c') = Public a"
    using c(4) by (simp add: client_done_def own_secret_def peer_public_def)
  obtain d' where "serverHandshake env nacl (Ok st) now now' d = (Ok (), d')"
    "sec d' = server_done (Public a) st perm (sec d)"
    using server_run [OF box env len d keys(6,3,1,4) fresh, of "Public (keyPair (sec d))" i' "[]"] rx(2) by auto
  then show "\<exists>d'. serverHandshake env nacl (Ok st) now now' d = (Ok (), d') \<and> serverKey (sec d') = perm"
    by (simp add: server_done_def)
qed

theorem curve_peers_not_authenticated_witness:
  "\<exists>welcome hello c' d'.
    clientHandshake sample_env sample_box (Ok zero_KeyPair)
      (hs_conn welcome (NewClientSecurity zero_KeyPair (replicate 32 7)) False) = (Ok (), c') \<and>
    serverHandshake sample_env sample_box (Ok zero_KeyPair) 0 5 (hs_conn hello (NewServerSecurity zero_KeyPair) True) =
      (Ok (), d') \<and>
    serverKey (sec d') = replicate 32 9"
proof -
  let ?z = zero_KeyPair and ?md = "meta_wire sample_env SockPair []"
  let ?w = "cmd_wire CmdWelcome (welcome_of (Public ?z) (replicate 96 0)) @
    cmd_wire CmdReady (ready_of sample_box ?md (Public ?z) (Secret ?z))"
  let ?h = "cmd_wire CmdHello (hello_of sample_box ?z (Public ?z)) @
    cmd_wire CmdInitiate (initiate_of sample_box (cookie_of sample_box 0 ?z ?z (Public ?z)) ?z (Public ?z)
      (Public ?z) (replicate 32 9) ?md)"
  let ?c = "hs_conn ?w (NewClientSecurity ?z (replicate 32 7)) False"
  let ?d = "hs_conn ?h (NewServerSecurity ?z) True"
  have k: "fresh 0 5" "key_ok (replicate 32 9)" "\<not> isServer (sec ?c)" "keyPair (sec ?c) = ?z" "keyPair (sec ?d) = ?z"
    by (simp_all add: fresh_def key_ok_def KeySize_def NewClientSecurity_def NewServerSecurity_def)
  show ?thesis
    using curve_peers_not_authenticated [OF sample_box_ok sample_env_ok sample_env_ok SockPair_length SockPair_length
        zero_kp_ok(1) zero_kp_ok(1) zero_kp_ok(1) k(2) _ _ k(1), of ?c ?d "[]" "[]"] k zero_kp_ok
    by (metis hs_conn_sel(1,2,3,5))
qed

end
