(* ===== verification/Lp_Codec.thy ===== *)
theory Lp_Codec
  imports Prelude
begin

text \<open>
  The pieces from which the message packages \<^verbatim>\<open>malamute\<close>, \<^verbatim>\<open>zyre\<close> and \<^verbatim>\<open>dafka\<close> build their
  wire formats, in each package with the same lines: length-prefixed strings with a limit, maps
  of strings with a count, and byte blocks behind a big-endian length.

  A \<^verbatim>\<open>Marshal\<close> method checks and writes one piece after the other and gives up at the first
  limit that is exceeded: \<open>write_all\<close> on the list of pieces. The order in which \<^verbatim>\<open>range\<close> visits
  a map is the argument \<open>ord\<close>, any function that lists the keys of its map without repetition
  (\<open>ord_ok\<close>).
\<close>

section \<open>Writing\<close>

fun write_all :: "bytes result list \<Rightarrow> bytes result" where
  "write_all [] = Ok []"
| "write_all (r # rs) = and_then r (\<lambda>a. and_then (write_all rs) (\<lambda>b. Ok (a @ b)))"

definition writeString :: "string \<Rightarrow> nat \<Rightarrow> bytes \<Rightarrow> bytes result" where
  "writeString what maxLen s =
     (if length s > maxLen then Err (Errorf (what @ '' too long'')) else Ok (put_lp s))"

definition writeEntry :: "bytes \<times> bytes \<Rightarrow> bytes result" where
  "writeEntry kv =
     (if length (fst kv) > 255 \<or> length (snd kv) > 255 then Err (Errorf ''key or value too long'')
      else Ok (put_lp (fst kv) @ put_lp (snd kv)))"

type_synonym key_order = "(bytes \<rightharpoonup> bytes) \<Rightarrow> bytes list"

definition ord_ok :: "key_order \<Rightarrow> (bytes \<rightharpoonup> bytes) \<Rightarrow> bool" where
  "ord_ok ord m \<longleftrightarrow> distinct (ord m) \<and> set (ord m) = dom m"

definition entries :: "key_order \<Rightarrow> (bytes \<rightharpoonup> bytes) \<Rightarrow> (bytes \<times> bytes) list" where
  "entries ord m = List.map_filter (\<lambda>k. map_option (Pair k) (m k)) (ord m)"

definition writeMap :: "string \<Rightarrow> key_order \<Rightarrow> (bytes \<rightharpoonup> bytes) \<Rightarrow> bytes result" where
  "writeMap what ord m =
     (let kvs = entries ord m in
      if length kvs > 255 then Err (Errorf (''too many '' @ what))
      else write_all (Ok [of_nat (length kvs)] # map writeEntry kvs))"

text \<open>A block of bytes behind its length in \<open>w\<close> bytes.\<close>

definition writeBlock :: "string \<Rightarrow> nat \<Rightarrow> nat \<Rightarrow> bytes \<Rightarrow> bytes result" where
  "writeBlock what w maxLen b =
     (if length b > maxLen then Err (Errorf (what @ '' too large'')) else Ok (put_be w (length b) @ b))"

lemma length_put_lp [simp]: "length (put_lp s) = Suc (length s)"
  by (simp add: put_lp_def)

lemma write_all_Ok: "write_all (map Ok bs) = Ok (concat bs)"
  by (induction bs) simp_all

lemma write_all_Ok_iff:
  "(\<exists>b. write_all rs = Ok b) \<longleftrightarrow> (\<forall>r \<in> set rs. \<exists>b. r = Ok b)"
  by (induction rs) auto

lemma writeString_Ok [codec_simps]: "length s \<le> n \<Longrightarrow> writeString what n s = Ok (put_lp s)"
  by (simp add: writeString_def)

lemma writeBlock_Ok [codec_simps]: "length b \<le> n \<Longrightarrow> writeBlock what w n b = Ok (put_be w (length b) @ b)"
  by (simp add: writeBlock_def)

lemma writeString_Ok_iff: "(\<exists>b. writeString what n s = Ok b) \<longleftrightarrow> length s \<le> n"
  by (simp add: writeString_def)

lemma writeBlock_Ok_iff: "(\<exists>b. writeBlock what w n s = Ok b) \<longleftrightarrow> length s \<le> n"
  by (simp add: writeBlock_def)

text \<open>The entries of a map in iteration order.\<close>

lemma map_fst_entries: "ord_ok ord m \<Longrightarrow> map fst (entries ord m) = ord m"
proof -
  assume "ord_ok ord m"
  then have "set (ord m) \<subseteq> dom m" by (simp add: ord_ok_def)
  then have "map fst (List.map_filter (\<lambda>k. map_option (Pair k) (m k)) ks) = ks" if "set ks \<subseteq> set (ord m)" for ks
    using that by (induction ks) (auto simp: domIff)
  then show ?thesis by (simp add: entries_def)
qed

lemma set_entries: "ord_ok ord m \<Longrightarrow> (k, v) \<in> set (entries ord m) \<longleftrightarrow> m k = Some v"
  by (auto simp: entries_def ord_ok_def map_filter_def domI intro!: image_eqI [where x = k])

lemma map_of_entries:
  assumes "ord_ok ord m"
  shows "map_of (entries ord m) = m"
proof
  fix k
  have "distinct (map fst (entries ord m))" using assms by (simp add: map_fst_entries ord_ok_def)
  then show "map_of (entries ord m) k = m k"
    using set_entries [OF assms] by (metis map_of_SomeD map_of_eq_Some_iff not_Some_eq)
qed

definition map_ok :: "key_order \<Rightarrow> (bytes \<rightharpoonup> bytes) \<Rightarrow> bool" where
  "map_ok ord m \<longleftrightarrow> ord_ok ord m \<and> card (dom m) \<le> 255 \<and>
     (\<forall>k v. m k = Some v \<longrightarrow> length k \<le> 255 \<and> length v \<le> 255)"

definition entry_fits :: "bytes \<times> bytes \<Rightarrow> bool" where
  "entry_fits kv \<longleftrightarrow> length (fst kv) \<le> 255 \<and> length (snd kv) \<le> 255"

definition put_entry :: "bytes \<times> bytes \<Rightarrow> bytes" where
  "put_entry kv = put_lp (fst kv) @ put_lp (snd kv)"

lemma length_entries: "ord_ok ord m \<Longrightarrow> length (entries ord m) = card (dom m)"
  using map_fst_entries [of ord m] by (metis distinct_card length_map ord_ok_def)

lemma map_ok_entries:
  assumes "map_ok ord m"
  shows "length (entries ord m) \<le> 255" "list_all entry_fits (entries ord m)"
  using assms by (auto simp: map_ok_def length_entries entry_fits_def list_all_iff set_entries)

lemma writeMap_Ok [codec_simps]:
  assumes "map_ok ord m"
  shows "writeMap what ord m =
    Ok (of_nat (length (entries ord m)) # concat (map put_entry (entries ord m)))"
proof -
  have "map writeEntry (entries ord m) = map Ok (map put_entry (entries ord m))"
    using map_ok_entries(2) [OF assms]
    by (auto simp: writeEntry_def put_entry_def entry_fits_def list_all_iff)
  then show ?thesis
    using map_ok_entries(1) [OF assms] by (simp add: writeMap_def write_all_Ok Let_def del: map_map)
qed

lemma writeMap_Ok_iff:
  assumes "ord_ok ord m"
  shows "(\<exists>b. writeMap what ord m = Ok b) \<longleftrightarrow> map_ok ord m"
proof
  assume "\<exists>b. writeMap what ord m = Ok b"
  then have "length (entries ord m) \<le> 255" "\<forall>r \<in> writeEntry ` set (entries ord m). \<exists>b. r = Ok b"
    using write_all_Ok_iff [of "map writeEntry (entries ord m)"]
    by (auto simp: writeMap_def Let_def split: if_splits)
  moreover have "length k \<le> 255 \<and> length v \<le> 255" if "m k = Some v" for k v
  proof -
    have "(k, v) \<in> set (entries ord m)" using that assms by (simp add: set_entries)
    then obtain b where "writeEntry (k, v) = Ok b" using calculation(2) by blast
    then show ?thesis by (auto simp: writeEntry_def split: if_splits)
  qed
  ultimately show "map_ok ord m"
    using assms by (simp add: map_ok_def length_entries)
qed (use writeMap_Ok in blast)

section \<open>Reading\<close>

definition readEntry :: "string \<Rightarrow> (bytes \<times> bytes) decoder" where
  "readEntry what r =
     and_then (wrap_err (''failed to read '' @ what @ '' key'') (get_lp r)) (\<lambda>(key, r).
       and_then (wrap_err (''failed to read '' @ what @ '' value'') (get_lp r)) (\<lambda>(value, r).
         Ok ((key, value), r)))"

definition put_in :: "(bytes \<rightharpoonup> bytes) \<Rightarrow> bytes \<times> bytes \<Rightarrow> (bytes \<rightharpoonup> bytes)" where
  "put_in m kv = m(fst kv \<mapsto> snd kv)"

definition readMap :: "string \<Rightarrow> (bytes \<rightharpoonup> bytes) decoder" where
  "readMap what r =
     and_then (wrap_err (''failed to read '' @ what @ '' count'') (ReadByte r)) (\<lambda>(count, r).
       and_then (get_many (readEntry what) (unat count) r) (\<lambda>(kvs, r).
         Ok (foldl put_in Map.empty kvs, r)))"

text \<open>A block: its length, then \<open>n\<close> bytes when there are any; a short read is no error.\<close>

definition readBlock :: "string \<Rightarrow> nat \<Rightarrow> bytes \<Rightarrow> bytes decoder" where
  "readBlock what w old r =
     and_then (wrap_err (''failed to read '' @ what @ '' length'') (binary_Read w r)) (\<lambda>(n, r).
       if n > 0 then wrap_err (''failed to read '' @ what) (Reader_Read n r) else Ok (old, r))"

lemma get_lp_put [codec_simps]: "length s \<le> 255 \<Longrightarrow> get_lp (put_lp s @ rest) = Ok (s, rest)"
  by (rule get_lp_put_lp)

interpretation entry: prefix_codec put_entry "readEntry what" entry_fits
  by unfold_locales (auto simp: put_entry_def readEntry_def entry_fits_def codec_simps)

lemma foldl_put_in: "distinct (map fst kvs) \<Longrightarrow> foldl put_in m kvs = m ++ map_of kvs"
proof (induction kvs arbitrary: m)
  case (Cons kv kvs)
  then have "fst kv \<notin> dom (map_of kvs)" by (simp add: dom_map_of_conv_image_fst)
  with Cons show ?case
    by (auto simp: put_in_def map_add_def fun_eq_iff split: option.splits)
qed simp

lemma readMap_put [codec_simps]:
  assumes "map_ok ord m"
  shows "readMap what (of_nat (length (entries ord m)) # concat (map put_entry (entries ord m)) @ rest) =
    Ok (m, rest)"
proof -
  have "unat (of_nat (length (entries ord m)) :: byte) = length (entries ord m)"
    using map_ok_entries(1) [OF assms] by (rule unat_length_byte)
  moreover have "foldl put_in Map.empty (entries ord m) = m"
    using assms by (simp add: foldl_put_in map_fst_entries map_of_entries map_ok_def ord_ok_def)
  ultimately show ?thesis
    using entry.get_many_put [OF map_ok_entries(2) [OF assms]] by (simp add: readMap_def)
qed

lemma readBlock_put [codec_simps]:
  assumes "0 < w" "length b < 256 ^ w"
  shows "readBlock what w [] (put_be w (length b) @ b @ rest) = Ok (b, rest)"
  using assms by (auto simp: readBlock_def)

text \<open>A block cut off at its end, when some of it is left: the rest of the buffer is zero.\<close>

lemma readBlock_cut:
  assumes "0 < w" "length b < 256 ^ w" "0 < n" "n \<le> length b"
  shows "readBlock what w [] (put_be w (length b) @ take n b) =
    Ok (take n b @ replicate (length b - n) 0, [])"
  using assms by (auto simp: readBlock_def Reader_Read_def)

lemma binary_Read_word [codec_simps]:
  "binary_Read 2 (put_be 2 (unat (x :: 16 word)) @ r) = Ok (unat x, r)"
  "binary_Read 4 (put_be 4 (unat (y :: 32 word)) @ r) = Ok (unat y, r)"
  "binary_Read 8 (put_be 8 (unat (z :: 64 word)) @ r) = Ok (unat z, r)"
  using unsigned_less [where 'a = nat, of x] unsigned_less [where 'a = nat, of y]
    unsigned_less [where 'a = nat, of z] by simp_all

end
