(* ===== verification/Malamute_Message.thy ===== *)
theory Malamute_Message
  imports Lp_Codec
begin

text \<open>
  The messages of the Malamute broker (\<^verbatim>\<open>malamute/message.go\<close>, types in
  \<^verbatim>\<open>malamute/protocol.go\<close>). Each type has its \<^verbatim>\<open>Marshal\<close> and \<^verbatim>\<open>Unmarshal\<close>; an \<^verbatim>\<open>Unmarshal\<close>
  takes the struct it fills, whose \<^verbatim>\<open>Body\<close> it leaves alone when the message has none. A failed
  \<^verbatim>\<open>Unmarshal\<close> returns its error only. \<^verbatim>\<open>int32\<close> and \<^verbatim>\<open>int64\<close> values are the words of
  that width; a Go \<^verbatim>\<open>int\<close> is an \<open>int\<close>, and \<^verbatim>\<open>uint32(x)\<close> of it wraps.

  Every codec is an interpretation of \<open>total_codec\<close>.
\<close>

definition MaxMessageSize :: nat where "MaxMessageSize = 16 * 1024 * 1024"
definition MaxStreamName :: nat where "MaxStreamName = 255"
definition MaxMailboxName :: nat where "MaxMailboxName = 255"
definition MaxServiceName :: nat where "MaxServiceName = 255"
definition MaxClientID :: nat where "MaxClientID = 255"
definition ProtocolVersion :: byte where "ProtocolVersion = 1"
definition MessageTypeError :: byte where "MessageTypeError = 99"

lemmas mlm_limits = MaxMessageSize_def MaxStreamName_def MaxMailboxName_def MaxServiceName_def
  MaxClientID_def

record MlmMessage =
  Type :: byte
  Version :: byte
  Sequence :: "32 word"
  ClientID :: bytes
  Attributes :: "bytes \<rightharpoonup> bytes"
  Body :: bytes

record ConnectionOpenMessage =
  co_ClientID :: bytes
  co_ClientType :: int
  co_Attributes :: "bytes \<rightharpoonup> bytes"

record StreamWriteMessage =
  sw_Stream :: bytes
  sw_Subject :: bytes
  sw_Attributes :: "bytes \<rightharpoonup> bytes"
  sw_Body :: bytes

record StreamReadMessage =
  sr_Stream :: bytes
  sr_Pattern :: bytes
  sr_Attributes :: "bytes \<rightharpoonup> bytes"

record MailboxSendMessage =
  ms_Address :: bytes
  ms_Subject :: bytes
  ms_Tracker :: bytes
  ms_Timeout :: "64 word"
  ms_Attributes :: "bytes \<rightharpoonup> bytes"
  ms_Body :: bytes

record ServiceOfferMessage =
  so_Service :: bytes
  so_Pattern :: bytes
  so_Attributes :: "bytes \<rightharpoonup> bytes"

record CreditRequestMessage =
  cr_Credit :: "32 word"

record ErrorMessage =
  er_Code :: int
  er_Reason :: bytes
  er_Attributes :: "bytes \<rightharpoonup> bytes"

section \<open>Marshal and Unmarshal\<close>

definition Message_Marshal :: "key_order \<Rightarrow> MlmMessage \<Rightarrow> bytes result" where
  "Message_Marshal ord m = write_all
     [Ok [Type m, Version m], Ok (put_be 4 (unat (Sequence m))),
      writeString ''client ID'' MaxClientID (ClientID m), writeMap ''attributes'' ord (Attributes m),
      writeBlock ''message body'' 4 MaxMessageSize (Body m)]"

definition Message_Unmarshal :: "MlmMessage \<Rightarrow> bytes \<Rightarrow> MlmMessage result" where
  "Message_Unmarshal m data =
     (if length data < 8 then Err (Errorf ''message too short'')
      else
        and_then (ReadByte data) (\<lambda>(ty, r).
        and_then (ReadByte r) (\<lambda>(version, r).
        and_then (binary_Read 4 r) (\<lambda>(sequence, r).
        and_then (wrap_err ''failed to read client ID'' (get_lp r)) (\<lambda>(clientID, r).
        and_then (readMap ''attribute'' r) (\<lambda>(attributes, r).
        and_then (readBlock ''body'' 4 (Body m) r) (\<lambda>(body, r).
          Ok \<lparr>Type = ty, Version = version, Sequence = of_nat sequence, ClientID = clientID,
              Attributes = attributes, Body = body\<rparr>)))))))"

definition ConnectionOpen_Marshal :: "key_order \<Rightarrow> ConnectionOpenMessage \<Rightarrow> bytes result" where
  "ConnectionOpen_Marshal ord c = write_all
     [writeString ''client ID'' MaxClientID (co_ClientID c),
      Ok (put_be 4 (unat (word_of_int (co_ClientType c) :: 32 word))),
      writeMap ''attributes'' ord (co_Attributes c)]"

definition ConnectionOpen_Unmarshal :: "bytes \<Rightarrow> ConnectionOpenMessage result" where
  "ConnectionOpen_Unmarshal data =
     and_then (wrap_err ''failed to read client ID'' (get_lp data)) (\<lambda>(clientID, r).
     and_then (wrap_err ''failed to read client type'' (binary_Read 4 r)) (\<lambda>(clientType, r).
     and_then (readMap ''attribute'' r) (\<lambda>(attributes, r).
       Ok \<lparr>co_ClientID = clientID, co_ClientType = int clientType, co_Attributes = attributes\<rparr>)))"

definition StreamWrite_Marshal :: "key_order \<Rightarrow> StreamWriteMessage \<Rightarrow> bytes result" where
  "StreamWrite_Marshal ord s = write_all
     [writeString ''stream name'' MaxStreamName (sw_Stream s), writeString ''subject'' 255 (sw_Subject s),
      writeMap ''attributes'' ord (sw_Attributes s),
      writeBlock ''message body'' 4 MaxMessageSize (sw_Body s)]"

definition StreamWrite_Unmarshal :: "StreamWriteMessage \<Rightarrow> bytes \<Rightarrow> StreamWriteMessage result" where
  "StreamWrite_Unmarshal s data =
     and_then (wrap_err ''failed to read stream'' (get_lp data)) (\<lambda>(stream, r).
     and_then (wrap_err ''failed to read subject'' (get_lp r)) (\<lambda>(subject, r).
     and_then (readMap ''attribute'' r) (\<lambda>(attributes, r).
     and_then (readBlock ''body'' 4 (sw_Body s) r) (\<lambda>(body, r).
       Ok \<lparr>sw_Stream = stream, sw_Subject = subject, sw_Attributes = attributes, sw_Body = body\<rparr>))))"

definition StreamRead_Marshal :: "key_order \<Rightarrow> StreamReadMessage \<Rightarrow> bytes result" where
  "StreamRead_Marshal ord s = write_all
     [writeString ''stream name'' MaxStreamName (sr_Stream s), writeString ''pattern'' 255 (sr_Pattern s),
      writeMap ''attributes'' ord (sr_Attributes s)]"

definition StreamRead_Unmarshal :: "bytes \<Rightarrow> StreamReadMessage result" where
  "StreamRead_Unmarshal data =
     and_then (wrap_err ''failed to read stream'' (get_lp data)) (\<lambda>(stream, r).
     and_then (wrap_err ''failed to read pattern'' (get_lp r)) (\<lambda>(pattern, r).
     and_then (readMap ''attribute'' r) (\<lambda>(attributes, r).
       Ok \<lparr>sr_Stream = stream, sr_Pattern = pattern, sr_Attributes = attributes\<rparr>)))"

definition MailboxSend_Marshal :: "key_order \<Rightarrow> MailboxSendMessage \<Rightarrow> bytes result" where
  "MailboxSend_Marshal ord m = write_all
     [writeString ''address'' MaxMailboxName (ms_Address m), writeString ''subject'' 255 (ms_Subject m),
      writeString ''tracker'' 255 (ms_Tracker m), Ok (put_be 8 (unat (ms_Timeout m))),
      writeMap ''attributes'' ord (ms_Attributes m),
      writeBlock ''message body'' 4 MaxMessageSize (ms_Body m)]"

definition MailboxSend_Unmarshal :: "MailboxSendMessage \<Rightarrow> bytes \<Rightarrow> MailboxSendMessage result" where
  "MailboxSend_Unmarshal m data =
     and_then (wrap_err ''failed to read address'' (get_lp data)) (\<lambda>(address, r).
     and_then (wrap_err ''failed to read subject'' (get_lp r)) (\<lambda>(subject, r).
     and_then (wrap_err ''failed to read tracker'' (get_lp r)) (\<lambda>(tracker, r).
     and_then (wrap_err ''failed to read timeout'' (binary_Read 8 r)) (\<lambda>(timeout, r).
     and_then (readMap ''attribute'' r) (\<lambda>(attributes, r).
     and_then (readBlock ''body'' 4 (ms_Body m) r) (\<lambda>(body, r).
       Ok \<lparr>ms_Address = address, ms_Subject = subject, ms_Tracker = tracker,
           ms_Timeout = of_nat timeout, ms_Attributes = attributes, ms_Body = body\<rparr>))))))"

definition ServiceOffer_Marshal :: "key_order \<Rightarrow> ServiceOfferMessage \<Rightarrow> bytes result" where
  "ServiceOffer_Marshal ord s = write_all
     [writeString ''service name'' MaxServiceName (so_Service s), writeString ''pattern'' 255 (so_Pattern s),
      writeMap ''attributes'' ord (so_Attributes s)]"

definition ServiceOffer_Unmarshal :: "bytes \<Rightarrow> ServiceOfferMessage result" where
  "ServiceOffer_Unmarshal data =
     and_then (wrap_err ''failed to read service'' (get_lp data)) (\<lambda>(service, r).
     and_then (wrap_err ''failed to read pattern'' (get_lp r)) (\<lambda>(pattern, r).
     and_then (readMap ''attribute'' r) (\<lambda>(attributes, r).
       Ok \<lparr>so_Service = service, so_Pattern = pattern, so_Attributes = attributes\<rparr>)))"

definition CreditRequest_Marshal :: "CreditRequestMessage \<Rightarrow> bytes result" where
  "CreditRequest_Marshal c = Ok (put_be 4 (unat (cr_Credit c)))"

definition CreditRequest_Unmarshal :: "bytes \<Rightarrow> CreditRequestMessage result" where
  "CreditRequest_Unmarshal data =
     and_then (binary_Read 4 data) (\<lambda>(credit, r). Ok \<lparr>cr_Credit = of_nat credit\<rparr>)"

definition ErrorMessage_Marshal :: "key_order \<Rightarrow> ErrorMessage \<Rightarrow> bytes result" where
  "ErrorMessage_Marshal ord e = write_all
     [Ok (put_be 4 (unat (word_of_int (er_Code e) :: 32 word))), writeString ''reason'' 255 (er_Reason e),
      writeMap ''attributes'' ord (er_Attributes e)]"

definition ErrorMessage_Unmarshal :: "bytes \<Rightarrow> ErrorMessage result" where
  "ErrorMessage_Unmarshal data =
     and_then (wrap_err ''failed to read error code'' (binary_Read 4 data)) (\<lambda>(code, r).
     and_then (wrap_err ''failed to read reason'' (get_lp r)) (\<lambda>(reason, r).
     and_then (readMap ''attribute'' r) (\<lambda>(attributes, r).
       Ok \<lparr>er_Code = int code, er_Reason = reason, er_Attributes = attributes\<rparr>)))"

definition CreateMessage :: "byte \<Rightarrow> bytes \<Rightarrow> 32 word \<Rightarrow> MlmMessage" where
  "CreateMessage msgType clientID sequence = \<lparr>Type = msgType, Version = ProtocolVersion,
     Sequence = sequence, ClientID = clientID, Attributes = Map.empty, Body = []\<rparr>"

text \<open>\<^verbatim>\<open>CreateErrorMessage\<close> ignores an error of \<^verbatim>\<open>Marshal\<close> and then sends an empty body.\<close>

definition CreateErrorMessage :: "key_order \<Rightarrow> int \<Rightarrow> bytes \<Rightarrow> bytes \<Rightarrow> 32 word \<Rightarrow> MlmMessage" where
  "CreateErrorMessage ord code reason clientID sequence =
     (let errorMsg = \<lparr>er_Code = code, er_Reason = reason, er_Attributes = Map.empty\<rparr>;
          body = (case ErrorMessage_Marshal ord errorMsg of Ok b \<Rightarrow> b | _ \<Rightarrow> [])
      in \<lparr>Type = MessageTypeError, Version = ProtocolVersion, Sequence = sequence,
          ClientID = clientID, Attributes = Map.empty, Body = body\<rparr>)"

section \<open>The round trips\<close>

text \<open>The messages within the limits of their fields.\<close>

definition Message_ok :: "key_order \<Rightarrow> MlmMessage \<Rightarrow> bool" where
  "Message_ok ord m \<longleftrightarrow> length (ClientID m) \<le> 255 \<and> map_ok ord (Attributes m) \<and>
     length (Body m) \<le> MaxMessageSize"

definition ConnectionOpen_ok :: "key_order \<Rightarrow> ConnectionOpenMessage \<Rightarrow> bool" where
  "ConnectionOpen_ok ord c \<longleftrightarrow> length (co_ClientID c) \<le> 255 \<and> map_ok ord (co_Attributes c) \<and>
     0 \<le> co_ClientType c \<and> co_ClientType c < 2 ^ 32"

definition StreamWrite_ok :: "key_order \<Rightarrow> StreamWriteMessage \<Rightarrow> bool" where
  "StreamWrite_ok ord s \<longleftrightarrow> length (sw_Stream s) \<le> 255 \<and> length (sw_Subject s) \<le> 255 \<and>
     map_ok ord (sw_Attributes s) \<and> length (sw_Body s) \<le> MaxMessageSize"

definition StreamRead_ok :: "key_order \<Rightarrow> StreamReadMessage \<Rightarrow> bool" where
  "StreamRead_ok ord s \<longleftrightarrow> length (sr_Stream s) \<le> 255 \<and> length (sr_Pattern s) \<le> 255 \<and>
     map_ok ord (sr_Attributes s)"

definition MailboxSend_ok :: "key_order \<Rightarrow> MailboxSendMessage \<Rightarrow> bool" where
  "MailboxSend_ok ord m \<longleftrightarrow> length (ms_Address m) \<le> 255 \<and> length (ms_Subject m) \<le> 255 \<and>
     length (ms_Tracker m) \<le> 255 \<and> map_ok ord (ms_Attributes m) \<and> length (ms_Body m) \<le> MaxMessageSize"

definition ServiceOffer_ok :: "key_order \<Rightarrow> ServiceOfferMessage \<Rightarrow> bool" where
  "ServiceOffer_ok ord s \<longleftrightarrow> length (so_Service s) \<le> 255 \<and> length (so_Pattern s) \<le> 255 \<and>
     map_ok ord (so_Attributes s)"

definition ErrorMessage_ok :: "key_order \<Rightarrow> ErrorMessage \<Rightarrow> bool" where
  "ErrorMessage_ok ord e \<longleftrightarrow> length (er_Reason e) \<le> 255 \<and> map_ok ord (er_Attributes e) \<and>
     0 \<le> er_Code e \<and> er_Code e < 2 ^ 32"

lemmas mlm_ok_defs = Message_ok_def ConnectionOpen_ok_def StreamWrite_ok_def StreamRead_ok_def
  MailboxSend_ok_def ServiceOffer_ok_def ErrorMessage_ok_def

lemmas mlm_marshal_defs = Message_Marshal_def ConnectionOpen_Marshal_def StreamWrite_Marshal_def
  StreamRead_Marshal_def MailboxSend_Marshal_def ServiceOffer_Marshal_def CreditRequest_Marshal_def
  ErrorMessage_Marshal_def

lemmas mlm_unmarshal_defs = Message_Unmarshal_def ConnectionOpen_Unmarshal_def
  StreamWrite_Unmarshal_def StreamRead_Unmarshal_def MailboxSend_Unmarshal_def
  ServiceOffer_Unmarshal_def CreditRequest_Unmarshal_def ErrorMessage_Unmarshal_def

lemma int_of_code: "0 \<le> i \<Longrightarrow> i < 2 ^ 32 \<Longrightarrow> int (unat (word_of_int i :: 32 word)) = i"
  by (simp add: unsigned_of_int take_bit_int_eq_self)

lemma readBody [codec_simps]:
  "length b \<le> MaxMessageSize \<Longrightarrow> readBlock what 4 [] (put_be 4 (length b) @ b) = Ok (b, [])"
  using readBlock_put [of 4 b what "[]"] by (simp add: MaxMessageSize_def)

interpretation mlm_message: total_codec "Message_Marshal ord" "Message_Unmarshal (m0\<lparr>Body := []\<rparr>)" "Message_ok ord"
  for ord m0
proof
  fix m b assume "Message_ok ord m"
  then show "\<exists>b. Message_Marshal ord m = Ok b"
    by (simp add: Message_Marshal_def Message_ok_def mlm_limits codec_simps)
  assume "Message_Marshal ord m = Ok b"
  with \<open>Message_ok ord m\<close> show "Message_Unmarshal (m0\<lparr>Body := []\<rparr>) b = Ok m"
    by (auto simp: Message_Marshal_def Message_ok_def Message_Unmarshal_def codec_simps MaxClientID_def)
qed

interpretation connection_open: total_codec "ConnectionOpen_Marshal ord" ConnectionOpen_Unmarshal "ConnectionOpen_ok ord"
  for ord
proof
  fix c b assume ok: "ConnectionOpen_ok ord c"
  then show "\<exists>b. ConnectionOpen_Marshal ord c = Ok b"
    by (simp add: ConnectionOpen_Marshal_def ConnectionOpen_ok_def mlm_limits codec_simps)
  assume "ConnectionOpen_Marshal ord c = Ok b"
  then show "ConnectionOpen_Unmarshal b = Ok c"
    using ok int_of_code [of "co_ClientType c"] readMap_put [of ord "co_Attributes c" _ "[]"]
    by (auto simp: ConnectionOpen_Marshal_def ConnectionOpen_ok_def ConnectionOpen_Unmarshal_def codec_simps MaxClientID_def)
qed

interpretation stream_write: total_codec "StreamWrite_Marshal ord" "StreamWrite_Unmarshal (m0\<lparr>sw_Body := []\<rparr>)" "StreamWrite_ok ord"
  for ord m0
proof
  fix m b assume ok: "StreamWrite_ok ord m"
  then show "\<exists>b. StreamWrite_Marshal ord m = Ok b"
    by (simp add: StreamWrite_Marshal_def StreamWrite_ok_def mlm_limits codec_simps)
  assume "StreamWrite_Marshal ord m = Ok b"
  then show "StreamWrite_Unmarshal (m0\<lparr>sw_Body := []\<rparr>) b = Ok m"
    using ok
    by (auto simp: StreamWrite_Marshal_def StreamWrite_ok_def StreamWrite_Unmarshal_def codec_simps MaxStreamName_def)
qed

interpretation stream_read: total_codec "StreamRead_Marshal ord" StreamRead_Unmarshal "StreamRead_ok ord"
  for ord
proof
  fix m b assume ok: "StreamRead_ok ord m"
  then show "\<exists>b. StreamRead_Marshal ord m = Ok b"
    by (simp add: StreamRead_Marshal_def StreamRead_ok_def mlm_limits codec_simps)
  assume "StreamRead_Marshal ord m = Ok b"
  then show "StreamRead_Unmarshal b = Ok m"
    using ok readMap_put [of ord "sr_Attributes m" _ "[]"]
    by (auto simp: StreamRead_Marshal_def StreamRead_ok_def StreamRead_Unmarshal_def codec_simps MaxStreamName_def)
qed

interpretation mailbox_send: total_codec "MailboxSend_Marshal ord" "MailboxSend_Unmarshal (m0\<lparr>ms_Body := []\<rparr>)" "MailboxSend_ok ord"
  for ord m0
proof
  fix m b assume ok: "MailboxSend_ok ord m"
  then show "\<exists>b. MailboxSend_Marshal ord m = Ok b"
    by (simp add: MailboxSend_Marshal_def MailboxSend_ok_def mlm_limits codec_simps)
  assume "MailboxSend_Marshal ord m = Ok b"
  then show "MailboxSend_Unmarshal (m0\<lparr>ms_Body := []\<rparr>) b = Ok m"
    using ok
    by (auto simp: MailboxSend_Marshal_def MailboxSend_ok_def MailboxSend_Unmarshal_def codec_simps MaxMailboxName_def)
qed

interpretation service_offer: total_codec "ServiceOffer_Marshal ord" ServiceOffer_Unmarshal "ServiceOffer_ok ord"
  for ord
proof
  fix m b assume ok: "ServiceOffer_ok ord m"
  then show "\<exists>b. ServiceOffer_Marshal ord m = Ok b"
    by (simp add: ServiceOffer_Marshal_def ServiceOffer_ok_def mlm_limits codec_simps)
  assume "ServiceOffer_Marshal ord m = Ok b"
  then show "ServiceOffer_Unmarshal b = Ok m"
    using ok readMap_put [of ord "so_Attributes m" _ "[]"]
    by (auto simp: ServiceOffer_Marshal_def ServiceOffer_ok_def ServiceOffer_Unmarshal_def codec_simps MaxServiceName_def)
qed

interpretation credit_request: total_codec CreditRequest_Marshal CreditRequest_Unmarshal "\<lambda>_. True"
  using binary_Read_word(2) [of _ "[]"]
  by unfold_locales (auto simp: CreditRequest_Marshal_def CreditRequest_Unmarshal_def)

interpretation error_message: total_codec "ErrorMessage_Marshal ord" ErrorMessage_Unmarshal "ErrorMessage_ok ord"
  for ord
proof
  fix e b assume ok: "ErrorMessage_ok ord e"
  then show "\<exists>b. ErrorMessage_Marshal ord e = Ok b"
    by (simp add: ErrorMessage_Marshal_def ErrorMessage_ok_def mlm_limits codec_simps)
  assume "ErrorMessage_Marshal ord e = Ok b"
  then show "ErrorMessage_Unmarshal b = Ok e"
    using ok int_of_code [of "er_Code e"] readMap_put [of ord "er_Attributes e" _ "[]"]
    by (auto simp: ErrorMessage_Marshal_def ErrorMessage_ok_def ErrorMessage_Unmarshal_def codec_simps)
qed

text \<open>
  C30: Every Malamute message within the limits of its fields is marshalled, and unmarshalling
  the bytes into a struct without a body gives the same message: the frame message,
  CONNECTION-OPEN, STREAM-WRITE, STREAM-READ, MAILBOX-SEND, SERVICE-OFFER, CREDIT-REQUEST and
  ERROR, whatever the order in which the attribute maps are visited.
\<close>

theorem malamute_roundtrip:
  "(Message_ok ord m \<longrightarrow>
      (\<exists>b. Message_Marshal ord m = Ok b \<and> Message_Unmarshal (m0\<lparr>Body := []\<rparr>) b = Ok m)) \<and>
   (ConnectionOpen_ok ord co \<longrightarrow>
      (\<exists>b. ConnectionOpen_Marshal ord co = Ok b \<and> ConnectionOpen_Unmarshal b = Ok co)) \<and>
   (StreamWrite_ok ord sw \<longrightarrow>
      (\<exists>b. StreamWrite_Marshal ord sw = Ok b \<and> StreamWrite_Unmarshal (sw0\<lparr>sw_Body := []\<rparr>) b = Ok sw)) \<and>
   (StreamRead_ok ord sr \<longrightarrow>
      (\<exists>b. StreamRead_Marshal ord sr = Ok b \<and> StreamRead_Unmarshal b = Ok sr)) \<and>
   (MailboxSend_ok ord ms \<longrightarrow>
      (\<exists>b. MailboxSend_Marshal ord ms = Ok b \<and> MailboxSend_Unmarshal (ms0\<lparr>ms_Body := []\<rparr>) b = Ok ms)) \<and>
   (ServiceOffer_ok ord so \<longrightarrow>
      (\<exists>b. ServiceOffer_Marshal ord so = Ok b \<and> ServiceOffer_Unmarshal b = Ok so)) \<and>
   (\<exists>b. CreditRequest_Marshal cr = Ok b \<and> CreditRequest_Unmarshal b = Ok cr) \<and>
   (ErrorMessage_ok ord er \<longrightarrow>
      (\<exists>b. ErrorMessage_Marshal ord er = Ok b \<and> ErrorMessage_Unmarshal b = Ok er))"
  by (intro conjI impI mlm_message.roundtrip connection_open.roundtrip stream_write.roundtrip
      stream_read.roundtrip mailbox_send.roundtrip service_offer.roundtrip credit_request.roundtrip
      error_message.roundtrip; simp)

text \<open>An order for maps with at most the keys \<open>a\<close> and \<open>b\<close>.\<close>

definition sample_order :: key_order where
  "sample_order m = filter (\<lambda>k. m k \<noteq> None) [[97], [98]]"

definition sample_send :: MailboxSendMessage where
  "sample_send = \<lparr>ms_Address = [120], ms_Subject = [], ms_Tracker = [116], ms_Timeout = 5,
     ms_Attributes = [[98] \<mapsto> [1], [97] \<mapsto> []], ms_Body = [7, 8]\<rparr>"

lemma sample_send_ok: "MailboxSend_ok sample_order sample_send"
proof -
  have "dom (ms_Attributes sample_send) = {[97], [98]}" by (auto simp: sample_send_def)
  moreover have "ord_ok sample_order (ms_Attributes sample_send)"
    using calculation by (auto simp: ord_ok_def sample_order_def sample_send_def)
  ultimately show ?thesis
    by (auto simp: MailboxSend_ok_def map_ok_def sample_send_def MaxMessageSize_def split: if_splits)
qed

theorem malamute_roundtrip_witness:
  "\<exists>b. MailboxSend_Marshal sample_order sample_send = Ok b \<and>
     MailboxSend_Unmarshal (sample_send\<lparr>ms_Body := []\<rparr>) b = Ok sample_send"
  using malamute_roundtrip sample_send_ok by blast

text \<open>
  Marshalling enforces the limits exactly: a frame message, STREAM-WRITE, STREAM-READ,
  MAILBOX-SEND or SERVICE-OFFER is marshalled if and only if every string has at most 255
  bytes, there are at most 255 attributes, and the body has at most 16 MiB; otherwise an error
  is returned, and there is no panic.
\<close>

theorem malamute_limits:
  assumes "ord_ok ord (Attributes m)" "ord_ok ord (sw_Attributes sw)" "ord_ok ord (sr_Attributes sr)"
    "ord_ok ord (ms_Attributes ms)" "ord_ok ord (so_Attributes so)"
  shows "((\<exists>b. Message_Marshal ord m = Ok b) \<longleftrightarrow> Message_ok ord m) \<and>
    ((\<exists>b. StreamWrite_Marshal ord sw = Ok b) \<longleftrightarrow> StreamWrite_ok ord sw) \<and>
    ((\<exists>b. StreamRead_Marshal ord sr = Ok b) \<longleftrightarrow> StreamRead_ok ord sr) \<and>
    ((\<exists>b. MailboxSend_Marshal ord ms = Ok b) \<longleftrightarrow> MailboxSend_ok ord ms) \<and>
    ((\<exists>b. ServiceOffer_Marshal ord so = Ok b) \<longleftrightarrow> ServiceOffer_ok ord so)"
  unfolding mlm_marshal_defs mlm_ok_defs
  using assms by (simp only: write_all_Ok_iff)
    (auto simp: writeString_Ok_iff writeBlock_Ok_iff writeMap_Ok_iff mlm_limits)

theorem malamute_limits_witness:
  "\<not> (\<exists>b. MailboxSend_Marshal sample_order (sample_send\<lparr>ms_Subject := replicate 256 0\<rparr>) = Ok b) \<and>
   (\<exists>b. StreamRead_Marshal sample_order
      \<lparr>sr_Stream = replicate 255 0, sr_Pattern = [], sr_Attributes = Map.empty\<rparr> = Ok b)"
proof -
  have "ord_ok sample_order Map.empty" by (simp add: ord_ok_def sample_order_def)
  moreover have "ord_ok sample_order (ms_Attributes (sample_send\<lparr>ms_Subject := replicate 256 0\<rparr>))"
    using sample_send_ok by (simp add: MailboxSend_ok_def map_ok_def)
  ultimately show ?thesis
    using malamute_limits [of sample_order "CreateMessage 0 [] 0"
        "\<lparr>sw_Stream = [], sw_Subject = [], sw_Attributes = Map.empty, sw_Body = []\<rparr>"
        "\<lparr>sr_Stream = replicate 255 0, sr_Pattern = [], sr_Attributes = Map.empty\<rparr>"
        "sample_send\<lparr>ms_Subject := replicate 256 0\<rparr>"
        "\<lparr>so_Service = [], so_Pattern = [], so_Attributes = Map.empty\<rparr>"]
    by (simp add: CreateMessage_def StreamRead_ok_def MailboxSend_ok_def map_ok_def)
qed

text \<open>
  A truncated message is accepted. When a frame message, STREAM-WRITE or MAILBOX-SEND loses
  the end of its body on the way, but not all of it, unmarshalling succeeds, and the lost bytes
  of the body are zero.
\<close>

theorem malamute_truncated_accepted:
  assumes "0 < n"
  shows "(Message_ok ord m \<and> n < length (Body m) \<and> Message_Marshal ord m = Ok b \<longrightarrow>
      Message_Unmarshal (m0\<lparr>Body := []\<rparr>) (take (length b - n) b) =
        Ok (m\<lparr>Body := take (length (Body m) - n) (Body m) @ replicate n 0\<rparr>)) \<and>
    (StreamWrite_ok ord sw \<and> n < length (sw_Body sw) \<and> StreamWrite_Marshal ord sw = Ok b \<longrightarrow>
      StreamWrite_Unmarshal (sw0\<lparr>sw_Body := []\<rparr>) (take (length b - n) b) =
        Ok (sw\<lparr>sw_Body := take (length (sw_Body sw) - n) (sw_Body sw) @ replicate n 0\<rparr>)) \<and>
    (MailboxSend_ok ord ms \<and> n < length (ms_Body ms) \<and> MailboxSend_Marshal ord ms = Ok b \<longrightarrow>
      MailboxSend_Unmarshal (ms0\<lparr>ms_Body := []\<rparr>) (take (length b - n) b) =
        Ok (ms\<lparr>ms_Body := take (length (ms_Body ms) - n) (ms_Body ms) @ replicate n 0\<rparr>))"
proof (intro conjI impI; elim conjE)
  have cut: "readBlock what 4 [] (put_be 4 (length c) @ take (length c - n) c) =
      Ok (take (length c - n) c @ replicate n 0, [])"
    if "length c \<le> MaxMessageSize" "n < length c" for c what
    using readBlock_cut [of 4 c "length c - n" what] that assms by (simp add: MaxMessageSize_def)
  show "Message_Unmarshal (m0\<lparr>Body := []\<rparr>) (take (length b - n) b) =
      Ok (m\<lparr>Body := take (length (Body m) - n) (Body m) @ replicate n 0\<rparr>)"
    if "Message_ok ord m" "n < length (Body m)" "Message_Marshal ord m = Ok b"
    using that cut by (auto simp: Message_Marshal_def Message_ok_def Message_Unmarshal_def MaxClientID_def
        take_Cons' codec_simps)
  show "StreamWrite_Unmarshal (sw0\<lparr>sw_Body := []\<rparr>) (take (length b - n) b) =
      Ok (sw\<lparr>sw_Body := take (length (sw_Body sw) - n) (sw_Body sw) @ replicate n 0\<rparr>)"
    if "StreamWrite_ok ord sw" "n < length (sw_Body sw)" "StreamWrite_Marshal ord sw = Ok b"
    using that cut by (auto simp: StreamWrite_Marshal_def StreamWrite_ok_def StreamWrite_Unmarshal_def
        MaxStreamName_def take_Cons' codec_simps)
  show "MailboxSend_Unmarshal (ms0\<lparr>ms_Body := []\<rparr>) (take (length b - n) b) =
      Ok (ms\<lparr>ms_Body := take (length (ms_Body ms) - n) (ms_Body ms) @ replicate n 0\<rparr>)"
    if "MailboxSend_ok ord ms" "n < length (ms_Body ms)" "MailboxSend_Marshal ord ms = Ok b"
    using that cut by (auto simp: MailboxSend_Marshal_def MailboxSend_ok_def MailboxSend_Unmarshal_def
        MaxMailboxName_def take_Cons' codec_simps)
qed

theorem malamute_truncated_accepted_witness:
  "\<exists>b. MailboxSend_Marshal sample_order sample_send = Ok b \<and>
     MailboxSend_Unmarshal (sample_send\<lparr>ms_Body := []\<rparr>) (take (length b - 1) b) =
       Ok (sample_send\<lparr>ms_Body := [7, 0]\<rparr>)"
proof -
  obtain b where b: "MailboxSend_Marshal sample_order sample_send = Ok b"
    using mailbox_send.enc_valid [OF sample_send_ok] by blast
  moreover have "ms_Body sample_send = [7, 8]" by (simp add: sample_send_def)
  ultimately show ?thesis
    using malamute_truncated_accepted [of 1 sample_order _ _ _ _ _ sample_send sample_send] sample_send_ok
    by auto
qed

end
