(* ===== verification/Run_Order.thy ===== *)
theory Run_Order
  imports "HOL-Library.Sublist"
begin

text \<open>
  Order of delivery along a run: what was delivered, followed by what is still pending, is a
  subsequence of what was sent. The lemmas carry this invariant over the steps of a run; the
  mailboxes, streams and services of the Malamute broker use them.
\<close>

lemma subseq_tl: "subseq (tl xs) xs"
  by (cases xs) auto

lemma order_step:
  assumes "subseq (r @ p) s" "subseq (x @ p') (p @ y)"
  shows "subseq ((r @ x) @ p') (s @ y)"
proof -
  have "subseq (r @ x @ p') (r @ p @ y)"
    using assms(2) by (rule list_emb_append_mono [OF subseq_order.order_refl])
  moreover have "subseq ((r @ p) @ y) (s @ y)"
    using assms(1) by (rule list_emb_append_mono) simp
  ultimately show ?thesis by (simp only: append_assoc subseq_order.order_trans)
qed

lemma subseq_step:
  assumes "subseq (r @ p) s" "subseq (x @ p') p"
  shows "subseq (r @ x @ p') s"
  using order_step [OF assms(1), of x p' "[]"] assms(2) by simp

lemma subseq_keep: "subseq (r @ p) s \<Longrightarrow> subseq p' p \<Longrightarrow> subseq (r @ p') s"
  using subseq_step [of r p s "[]" p'] by simp

lemma subseq_append_left: "subseq p q \<Longrightarrow> subseq (p @ r) (q @ r)"
  by (rule list_emb_append_mono) simp_all

end
