(* ===== verification/Malamute_Mailbox.thy ===== *)
theory Malamute_Mailbox
  imports Malamute_Message Run_Order
begin

text \<open>
  The mailboxes of the Malamute broker (\<^verbatim>\<open>malamute/mailbox.go\<close>): messages wait in a mailbox
  until a client fetches them, a newer message pushes them out, or they expire.

  The goroutines take deliveries and commands from their channels and hold the mutex while they
  process one: each is an atomic step on the manager. Times are integers (nanoseconds); a step
  reads the clock once. A mailbox is only reached through the map, so it is its value there.
\<close>

section \<open>Data\<close>

definition MaxMailboxBacklog :: nat where "MaxMailboxBacklog = 10000"

record MailboxMessage =
  mx_ID :: "64 word"
  mx_Subject :: bytes
  mx_Sender :: bytes
  mx_Tracker :: bytes
  mx_Attributes :: "bytes \<rightharpoonup> bytes"
  mx_Body :: bytes
  mx_Timestamp :: int
  mx_Timeout :: int
  mx_Retries :: int

record Mailbox =
  mb_Address :: bytes
  mb_Messages :: "MailboxMessage list"
  mb_Owner :: bytes
  mb_Attributes :: "bytes \<rightharpoonup> bytes"
  mb_CreatedAt :: int
  mb_LastActivity :: int
  mb_MessageCount :: "64 word"
  mb_BytesStored :: "64 word"

record MailboxDelivery =
  dl_Address :: bytes
  dl_Subject :: bytes
  dl_Sender :: bytes
  dl_Tracker :: bytes
  dl_Body :: bytes
  dl_Attributes :: "bytes \<rightharpoonup> bytes"
  dl_Timeout :: int
  dl_Timestamp :: int

record MailboxManager =
  maxMailboxes :: int
  retention :: int
  mailboxes :: "bytes \<rightharpoonup> Mailbox"
  deliveries :: "MailboxDelivery list"
  mm_cancelled :: bool
  messageID :: "64 word"

definition NewMailboxManager :: "int \<Rightarrow> int \<Rightarrow> MailboxManager" where
  "NewMailboxManager n r = \<lparr>maxMailboxes = n, retention = r, mailboxes = Map.empty, deliveries = [],
     mm_cancelled = False, messageID = 0\<rparr>"

section \<open>Operations\<close>

text \<open>
  \<^verbatim>\<open>SendMessage\<close>: the delivery has the time stamp \<open>now\<close>. Its \<^verbatim>\<open>select\<close> does not wait; with a free
  place in the channel and a cancelled context either may be chosen (\<open>pick\<close>).
\<close>

definition SendMessage ::
    "int \<Rightarrow> bool \<Rightarrow> MailboxDelivery \<Rightarrow> MailboxManager \<Rightarrow> unit result \<times> MailboxManager" where
  "SendMessage now pick d mm =
     (if length (dl_Address d) = 0 \<or> length (dl_Address d) > MaxMailboxName then
        (Err (Errorf ''invalid mailbox address length''), mm)
      else if length (dl_Body d) > MaxMessageSize then (Err (Errorf ''message too large''), mm)
      else
        let delivery = d\<lparr>dl_Timestamp := now\<rparr> in
        if length (deliveries mm) < 10000 \<and> (\<not> mm_cancelled mm \<or> pick) then
          (Ok (), mm\<lparr>deliveries := deliveries mm @ [delivery]\<rparr>)
        else if mm_cancelled mm then (Err CtxDone, mm)
        else (Err (Errorf ''delivery queue full''), mm))"

definition new_mailbox :: "int \<Rightarrow> bytes \<Rightarrow> bytes \<Rightarrow> (bytes \<rightharpoonup> bytes) \<Rightarrow> Mailbox" where
  "new_mailbox now address owner attributes = \<lparr>mb_Address = address, mb_Messages = [], mb_Owner = owner,
     mb_Attributes = attributes, mb_CreatedAt = now, mb_LastActivity = now, mb_MessageCount = 0,
     mb_BytesStored = 0\<rparr>"

definition delivered :: "64 word \<Rightarrow> MailboxDelivery \<Rightarrow> MailboxMessage" where
  "delivered i d = \<lparr>mx_ID = i, mx_Subject = dl_Subject d, mx_Sender = dl_Sender d, mx_Tracker = dl_Tracker d,
     mx_Attributes = dl_Attributes d, mx_Body = dl_Body d, mx_Timestamp = dl_Timestamp d,
     mx_Timeout = dl_Timestamp d + dl_Timeout d, mx_Retries = 0\<rparr>"

definition store_message :: "int \<Rightarrow> MailboxMessage \<Rightarrow> Mailbox \<Rightarrow> Mailbox" where
  "store_message now m mb =
     (let mb = mb\<lparr>mb_Messages := mb_Messages mb @ [m], mb_MessageCount := mb_MessageCount mb + 1,
                 mb_BytesStored := mb_BytesStored mb + of_nat (length (mx_Body m)), mb_LastActivity := now\<rparr> in
      if length (mb_Messages mb) > MaxMailboxBacklog then
        mb\<lparr>mb_BytesStored := mb_BytesStored mb - of_nat (length (mx_Body (hd (mb_Messages mb)))),
           mb_Messages := tl (mb_Messages mb)\<rparr>
      else mb)"

definition processDelivery :: "int \<Rightarrow> MailboxDelivery \<Rightarrow> MailboxManager \<Rightarrow> MailboxManager" where
  "processDelivery now d mm =
     (let store = (\<lambda>mb. mm\<lparr>messageID := messageID mm + 1, mailboxes := (mailboxes mm)(dl_Address d \<mapsto>
            store_message now (delivered (messageID mm + 1) d) mb)\<rparr>) in
      case mailboxes mm (dl_Address d) of
        Some mb \<Rightarrow> store mb
      | None \<Rightarrow>
          if int (card (dom (mailboxes mm))) \<ge> maxMailboxes mm then mm
          else store (new_mailbox now (dl_Address d) [] Map.empty))"

text \<open>The first message that has not expired, and the others.\<close>

fun take_live :: "int \<Rightarrow> MailboxMessage list \<Rightarrow> (MailboxMessage \<times> MailboxMessage list) option" where
  "take_live now [] = None"
| "take_live now (m # ms) =
     (if mx_Timeout m > now then Some (m, ms) else map_option (\<lambda>(x, rest). (x, m # rest)) (take_live now ms))"

text \<open>\<open>Ok None\<close> is the answer nil: no message available.\<close>

definition handleReceive ::
    "int \<Rightarrow> bytes \<Rightarrow> bytes \<Rightarrow> MailboxManager \<Rightarrow> MailboxMessage option result \<times> MailboxManager" where
  "handleReceive now clientID address mm =
     (case mailboxes mm address of
        None \<Rightarrow> (Err (Errorf ''mailbox not found''), mm)
      | Some mb \<Rightarrow>
          if mb_Owner mb \<noteq> [] \<and> mb_Owner mb \<noteq> clientID then (Err (Errorf ''access denied to mailbox''), mm)
          else
            let mb = (if mb_Owner mb = [] then mb\<lparr>mb_Owner := clientID\<rparr> else mb) in
            (case take_live now (mb_Messages mb) of
               None \<Rightarrow> (Ok None, mm\<lparr>mailboxes := (mailboxes mm)(address \<mapsto> mb)\<rparr>)
             | Some (m, rest) \<Rightarrow>
                 (Ok (Some m), mm\<lparr>mailboxes := (mailboxes mm)(address \<mapsto>
                    mb\<lparr>mb_Messages := rest, mb_BytesStored := mb_BytesStored mb - of_nat (length (mx_Body m)),
                       mb_LastActivity := now\<rparr>)\<rparr>)))"

definition handleCreate ::
    "int \<Rightarrow> bytes \<Rightarrow> bytes \<Rightarrow> (bytes \<rightharpoonup> bytes) \<Rightarrow> MailboxManager \<Rightarrow> unit result \<times> MailboxManager" where
  "handleCreate now address owner attributes mm =
     (if int (card (dom (mailboxes mm))) \<ge> maxMailboxes mm then (Err (Errorf ''maximum mailboxes exceeded''), mm)
      else if mailboxes mm address \<noteq> None then (Err (Errorf ''mailbox already exists''), mm)
      else (Ok (), mm\<lparr>mailboxes := (mailboxes mm)(address \<mapsto> new_mailbox now address owner attributes)\<rparr>))"

definition handleRemoveClient :: "bytes \<Rightarrow> MailboxManager \<Rightarrow> MailboxManager" where
  "handleRemoveClient clientID mm =
     mm\<lparr>mailboxes := (\<lambda>a. case mailboxes mm a of
        Some mb \<Rightarrow> if mb_Owner mb = clientID then None else Some mb
      | None \<Rightarrow> None)\<rparr>"

definition expire_messages :: "int \<Rightarrow> Mailbox \<Rightarrow> Mailbox" where
  "expire_messages now mb =
     foldl (\<lambda>mb m. if mx_Timeout m > now then mb\<lparr>mb_Messages := mb_Messages mb @ [m]\<rparr>
                  else mb\<lparr>mb_BytesStored := mb_BytesStored mb - of_nat (length (mx_Body m))\<rparr>)
       (mb\<lparr>mb_Messages := []\<rparr>) (mb_Messages mb)"

definition cleanupExpiredMessages :: "int \<Rightarrow> MailboxManager \<Rightarrow> MailboxManager" where
  "cleanupExpiredMessages now mm =
     mm\<lparr>mailboxes := (\<lambda>a. case mailboxes mm a of
        None \<Rightarrow> None
      | Some mb \<Rightarrow>
          let mb = expire_messages now mb in
          if length (mb_Messages mb) = 0 \<and> now - mb_LastActivity mb > retention mm then None else Some mb)\<rparr>"

definition GetMailbox :: "bytes \<Rightarrow> MailboxManager \<Rightarrow> Mailbox result" where
  "GetMailbox address mm =
     (case mailboxes mm address of Some mb \<Rightarrow> Ok mb | None \<Rightarrow> Err (Errorf ''mailbox not found''))"

definition Mailbox_Stop :: "MailboxManager \<Rightarrow> MailboxManager" where
  "Mailbox_Stop mm = mm\<lparr>mm_cancelled := True\<rparr>"

section \<open>Runs\<close>

text \<open>
  A run of the manager under a clock that does not go back: the deliveries accepted by
  \<^verbatim>\<open>SendMessage\<close> so far, in order, and the messages clients have received, with their mailbox.
\<close>

inductive mailbox_run ::
    "int \<Rightarrow> MailboxDelivery list \<Rightarrow> (bytes \<times> MailboxMessage) list \<Rightarrow> MailboxManager \<Rightarrow> bool" where
  new: "mailbox_run t [] [] (NewMailboxManager n r)"
| send: "mailbox_run t' (sent @ [d\<lparr>dl_Timestamp := t'\<rparr>]) rcv mm'"
    if "mailbox_run t sent rcv mm" "t \<le> t'" "SendMessage t' pick d mm = (Ok (), mm')"
| deliver: "mailbox_run t' sent rcv (processDelivery t' d (mm\<lparr>deliveries := ds\<rparr>))"
    if "mailbox_run t sent rcv mm" "t \<le> t'" "deliveries mm = d # ds"
| receive: "mailbox_run t' sent (rcv @ [(a, m)]) mm'"
    if "mailbox_run t sent rcv mm" "t \<le> t'" "handleReceive t' i a mm = (Ok (Some m), mm')"
| receive_none: "mailbox_run t' sent rcv mm'"
    if "mailbox_run t sent rcv mm" "t \<le> t'" "handleReceive t' i a mm = (Ok None, mm')"
| create: "mailbox_run t' sent rcv (snd (handleCreate t' a i attrs mm))"
    if "mailbox_run t sent rcv mm" "t \<le> t'"
| remove: "mailbox_run t' sent rcv (handleRemoveClient i mm)"
    if "mailbox_run t sent rcv mm" "t \<le> t'"
| clean: "mailbox_run t' sent rcv (cleanupExpiredMessages t' mm)"
    if "mailbox_run t sent rcv mm" "t \<le> t'"
| stop: "mailbox_run t' sent rcv (Mailbox_Stop mm)"
    if "mailbox_run t sent rcv mm" "t \<le> t'"

section \<open>Lemmas: accounting\<close>

definition live :: "int \<Rightarrow> MailboxMessage \<Rightarrow> bool" where
  "live t m \<longleftrightarrow> mx_Timeout m > t"

definition stored :: "MailboxMessage list \<Rightarrow> nat" where
  "stored ms = sum_list (map (\<lambda>m. length (mx_Body m)) ms)"

lemma stored_simps [simp]:
  "stored [] = 0" "stored (m # ms) = length (mx_Body m) + stored ms" "stored (ms @ ns) = stored ms + stored ns"
  by (simp_all add: stored_def)

definition mailbox_inv :: "bytes \<Rightarrow> Mailbox \<Rightarrow> bool" where
  "mailbox_inv a mb \<longleftrightarrow> mb_Address mb = a \<and> length (mb_Messages mb) \<le> MaxMailboxBacklog \<and>
     mb_BytesStored mb = of_nat (stored (mb_Messages mb)) \<and>
     (\<forall>m \<in> set (mb_Messages mb). length (mx_Body m) \<le> MaxMessageSize)"

definition manager_inv :: "MailboxManager \<Rightarrow> bool" where
  "manager_inv mm \<longleftrightarrow> (\<forall>a mb. mailboxes mm a = Some mb \<longrightarrow> mailbox_inv a mb) \<and>
     finite (dom (mailboxes mm)) \<and> int (card (dom (mailboxes mm))) \<le> max 0 (maxMailboxes mm) \<and>
     length (deliveries mm) \<le> 10000 \<and> (\<forall>d \<in> set (deliveries mm). length (dl_Body d) \<le> MaxMessageSize)"

lemma take_live_Some:
  assumes "take_live t ms = Some (m, rest)"
  shows "\<exists>pre post. ms = pre @ m # post \<and> rest = pre @ post \<and> live t m \<and> (\<forall>x \<in> set pre. \<not> live t x)"
  using assms
proof (induction ms arbitrary: rest)
  case (Cons x ms)
  show ?case
  proof (cases "mx_Timeout x > t")
    case True
    then have "x # ms = [] @ m # ms \<and> rest = [] @ ms \<and> live t m" using Cons.prems by (simp add: live_def)
    then show ?thesis by fastforce
  next
    case False
    then obtain r where "take_live t ms = Some (m, r)" "rest = x # r" using Cons.prems by auto
    then obtain pre post where "ms = pre @ m # post" "r = pre @ post" "live t m" "\<forall>y \<in> set pre. \<not> live t y"
      using Cons.IH by blast
    then have "x # ms = (x # pre) @ m # post \<and> rest = (x # pre) @ post \<and> live t m \<and> (\<forall>y \<in> set (x # pre). \<not> live t y)"
      using False \<open>rest = x # r\<close> by (simp add: live_def)
    then show ?thesis by blast
  qed
qed simp

lemma take_live_None: "take_live t ms = None \<longleftrightarrow> (\<forall>m \<in> set ms. \<not> live t m)"
  by (induction ms) (auto simp: live_def)

lemma expire_messages_eq:
  "expire_messages t mb = mb\<lparr>mb_Messages := filter (live t) (mb_Messages mb),
     mb_BytesStored := mb_BytesStored mb - of_nat (stored (filter (\<lambda>m. \<not> live t m) (mb_Messages mb)))\<rparr>"
proof -
  have "foldl (\<lambda>mb m. if mx_Timeout m > t then mb\<lparr>mb_Messages := mb_Messages mb @ [m]\<rparr>
        else mb\<lparr>mb_BytesStored := mb_BytesStored mb - of_nat (length (mx_Body m))\<rparr>) mb0 ms =
      mb0\<lparr>mb_Messages := mb_Messages mb0 @ filter (live t) ms,
        mb_BytesStored := mb_BytesStored mb0 - of_nat (stored (filter (\<lambda>m. \<not> live t m) ms))\<rparr>" for mb0 :: Mailbox and ms
    by (induction ms arbitrary: mb0) (simp_all add: live_def)
  then show ?thesis by (simp add: expire_messages_def)
qed

lemma stored_filter: "stored (filter P ms) + stored (filter (\<lambda>m. \<not> P m) ms) = stored ms"
  by (induction ms) auto

lemma expire_messages_inv:
  assumes "mailbox_inv a mb"
  shows "mailbox_inv a (expire_messages t mb)"
proof -
  let ?ms = "mb_Messages mb"
  have "mb_BytesStored mb - of_nat (stored (filter (\<lambda>m. \<not> live t m) ?ms)) =
      (of_nat (stored (filter (live t) ?ms) + stored (filter (\<lambda>m. \<not> live t m) ?ms)) :: 64 word) -
      of_nat (stored (filter (\<lambda>m. \<not> live t m) ?ms))"
    using assms by (simp only: stored_filter mailbox_inv_def)
  then have "mb_BytesStored mb - of_nat (stored (filter (\<lambda>m. \<not> live t m) ?ms)) = of_nat (stored (filter (live t) ?ms))"
    by simp
  moreover have "length (filter (live t) ?ms) \<le> MaxMailboxBacklog"
    using assms le_trans [OF length_filter_le [of "live t" ?ms]] by (simp add: mailbox_inv_def)
  ultimately show ?thesis using assms by (simp add: mailbox_inv_def expire_messages_eq)
qed

lemma store_message_inv:
  assumes "mailbox_inv a mb" "length (mx_Body m) \<le> MaxMessageSize"
  shows "mailbox_inv a (store_message t m mb)"
proof -
  have "0 < MaxMailboxBacklog" by (simp add: MaxMailboxBacklog_def)
  then show ?thesis
    using assms by (cases "mb_Messages mb") (auto simp: mailbox_inv_def store_message_def Let_def)
qed

lemma new_mailbox_inv: "mailbox_inv a (new_mailbox t a owner attrs)"
  by (simp add: mailbox_inv_def new_mailbox_def)

lemma manager_inv_put:
  assumes "manager_inv mm" "mailbox_inv a mb"
    and room: "mailboxes mm a \<noteq> None \<or> int (card (dom (mailboxes mm))) < maxMailboxes mm"
    and mm': "mailboxes mm' = (mailboxes mm)(a \<mapsto> mb)" "maxMailboxes mm' = maxMailboxes mm" "deliveries mm' = deliveries mm"
  shows "manager_inv mm'"
proof -
  have fin: "finite (dom (mailboxes mm))" "int (card (dom (mailboxes mm))) \<le> max 0 (maxMailboxes mm)"
    using assms(1) by (simp_all add: manager_inv_def)
  have "int (card (dom (mailboxes mm'))) \<le> max 0 (maxMailboxes mm)"
    using fin room by (auto simp: mm' card_insert_if domIff)
  moreover have "mailbox_inv b x" if "mailboxes mm' b = Some x" for b x
    using that assms(1,2) by (auto simp: mm' manager_inv_def split: if_splits)
  ultimately show ?thesis
    using assms(1) by (simp add: manager_inv_def mm')
qed

lemma manager_inv_fewer:
  assumes "manager_inv mm" "\<And>a mb. mailboxes mm' a = Some mb \<Longrightarrow> mailbox_inv a mb \<and> mailboxes mm a \<noteq> None"
    and "maxMailboxes mm' = maxMailboxes mm" "deliveries mm' = deliveries mm"
  shows "manager_inv mm'"
proof -
  have sub: "dom (mailboxes mm') \<subseteq> dom (mailboxes mm)" using assms(2) by auto
  have "finite (dom (mailboxes mm))" using assms(1) by (simp add: manager_inv_def)
  from finite_subset [OF sub this] card_mono [OF this sub] show ?thesis
    using assms by (auto simp: manager_inv_def)
qed

lemma processDelivery_inv:
  assumes "manager_inv mm" "length (dl_Body d) \<le> MaxMessageSize"
  shows "manager_inv (processDelivery t d mm)"
proof -
  let ?m = "delivered (messageID mm + 1) d" and ?a = "dl_Address d"
  have m: "length (mx_Body ?m) \<le> MaxMessageSize" using assms(2) by (simp add: delivered_def)
  show ?thesis
  proof (cases "mailboxes mm ?a")
    case None
    then show ?thesis
      using assms(1) store_message_inv [OF new_mailbox_inv m, of ?a t t "[]" Map.empty]
      by (auto simp: processDelivery_def Let_def
          intro!: manager_inv_put [OF assms(1), of ?a "store_message t ?m (new_mailbox t ?a [] Map.empty)"])
  next
    case (Some mb)
    then have "mailbox_inv ?a mb" using assms(1) by (simp add: manager_inv_def)
    then show ?thesis
      using Some store_message_inv [OF _ m, of ?a mb t]
      by (auto simp: processDelivery_def Let_def intro!: manager_inv_put [OF assms(1), of ?a "store_message t ?m mb"])
  qed
qed

lemma handleReceive_cases:
  assumes "handleReceive t i a mm = (Ok r, mm')"
  obtains mb mb' where "mailboxes mm a = Some mb" "mb_Owner mb = [] \<or> mb_Owner mb = i"
    "mm' = mm\<lparr>mailboxes := (mailboxes mm)(a \<mapsto> mb')\<rparr>" "mb_Owner mb' = i"
    "(r = None \<and> (\<forall>m \<in> set (mb_Messages mb). \<not> live t m) \<and> mb' = mb\<lparr>mb_Owner := i\<rparr>) \<or>
     (\<exists>m pre post. r = Some m \<and> mb_Messages mb = pre @ m # post \<and> live t m \<and> (\<forall>x \<in> set pre. \<not> live t x) \<and>
        mb' = mb\<lparr>mb_Owner := i, mb_Messages := pre @ post,
          mb_BytesStored := mb_BytesStored mb - of_nat (length (mx_Body m)), mb_LastActivity := t\<rparr>)"
proof -
  obtain mb where mb: "mailboxes mm a = Some mb" using assms by (auto simp: handleReceive_def split: option.splits)
  then have own: "mb_Owner mb = [] \<or> mb_Owner mb = i"
    using assms by (auto simp: handleReceive_def split: if_splits)
  let ?mb = "mb\<lparr>mb_Owner := i\<rparr>"
  have eq: "(if mb_Owner mb = [] then mb\<lparr>mb_Owner := i\<rparr> else mb) = ?mb"
    using own by (cases mb) auto
  have ok: "(mb_Owner mb \<noteq> [] \<and> mb_Owner mb \<noteq> i) = False" using own by blast
  have H: "handleReceive t i a mm = (case take_live t (mb_Messages mb) of
      None \<Rightarrow> (Ok None, mm\<lparr>mailboxes := (mailboxes mm)(a \<mapsto> ?mb)\<rparr>)
    | Some (m, rest) \<Rightarrow> (Ok (Some m), mm\<lparr>mailboxes := (mailboxes mm)(a \<mapsto>
        ?mb\<lparr>mb_Messages := rest, mb_BytesStored := mb_BytesStored ?mb - of_nat (length (mx_Body m)),
          mb_LastActivity := t\<rparr>)\<rparr>))"
    by (simp only: handleReceive_def mb option.case Let_def eq ok if_False) simp
  show thesis
  proof (cases "take_live t (mb_Messages mb)")
    case None
    then have "r = None" "mm' = mm\<lparr>mailboxes := (mailboxes mm)(a \<mapsto> ?mb)\<rparr>" using assms H by simp_all
    moreover have "\<forall>m \<in> set (mb_Messages mb). \<not> live t m" using None by (simp only: take_live_None)
    ultimately show thesis using that [of mb ?mb] mb own by auto
  next
    case (Some p)
    obtain m rest where p: "p = (m, rest)" by fastforce
    then obtain pre post where q: "mb_Messages mb = pre @ m # post" "rest = pre @ post" "live t m"
      "\<forall>x \<in> set pre. \<not> live t x"
      using take_live_Some Some by blast
    let ?mb' = "mb\<lparr>mb_Owner := i, mb_Messages := pre @ post,
          mb_BytesStored := mb_BytesStored mb - of_nat (length (mx_Body m)), mb_LastActivity := t\<rparr>"
    have "r = Some m" "mm' = mm\<lparr>mailboxes := (mailboxes mm)(a \<mapsto> ?mb')\<rparr>"
      using assms H Some p q(2) by simp_all
    then show thesis using that [of mb ?mb'] mb own q by auto
  qed
qed

lemma handleReceive_Some:
  assumes "handleReceive t i a mm = (Ok (Some m), mm')"
  shows "\<exists>mb mb' pre post. mailboxes mm a = Some mb \<and> mm' = mm\<lparr>mailboxes := (mailboxes mm)(a \<mapsto> mb')\<rparr> \<and>
    mb_Messages mb = pre @ m # post \<and> live t m \<and> (\<forall>x \<in> set pre. \<not> live t x) \<and> mb_Messages mb' = pre @ post"
proof (rule handleReceive_cases [OF assms])
  fix mb mb' assume mb: "mailboxes mm a = Some mb" "mm' = mm\<lparr>mailboxes := (mailboxes mm)(a \<mapsto> mb')\<rparr>"
    and "(Some m = None \<and> (\<forall>m \<in> set (mb_Messages mb). \<not> live t m) \<and> mb' = mb\<lparr>mb_Owner := i\<rparr>) \<or>
     (\<exists>x pre post. Some m = Some x \<and> mb_Messages mb = pre @ x # post \<and> live t x \<and> (\<forall>x \<in> set pre. \<not> live t x) \<and>
        mb' = mb\<lparr>mb_Owner := i, mb_Messages := pre @ post,
          mb_BytesStored := mb_BytesStored mb - of_nat (length (mx_Body x)), mb_LastActivity := t\<rparr>)"
  then obtain pre post where "mb_Messages mb = pre @ m # post" "live t m" "\<forall>x \<in> set pre. \<not> live t x"
    "mb_Messages mb' = pre @ post" by fastforce
  then show ?thesis using mb by blast
qed

lemma handleReceive_inv:
  assumes "manager_inv mm" "handleReceive t i a mm = (Ok r, mm')"
  shows "manager_inv mm'"
proof (rule handleReceive_cases [OF assms(2)])
  fix mb mb' assume mb: "mailboxes mm a = Some mb" "mm' = mm\<lparr>mailboxes := (mailboxes mm)(a \<mapsto> mb')\<rparr>"
    and mb': "(r = None \<and> (\<forall>m \<in> set (mb_Messages mb). \<not> live t m) \<and> mb' = mb\<lparr>mb_Owner := i\<rparr>) \<or>
     (\<exists>m pre post. r = Some m \<and> mb_Messages mb = pre @ m # post \<and> live t m \<and> (\<forall>x \<in> set pre. \<not> live t x) \<and>
        mb' = mb\<lparr>mb_Owner := i, mb_Messages := pre @ post,
          mb_BytesStored := mb_BytesStored mb - of_nat (length (mx_Body m)), mb_LastActivity := t\<rparr>)"
  have "mailbox_inv a mb" using mb assms(1) by (simp add: manager_inv_def)
  then have "mailbox_inv a mb'" using mb' by (auto simp: mailbox_inv_def)
  then show "manager_inv mm'"
    using manager_inv_put [OF assms(1), of a mb' mm'] mb by simp
qed

lemma mailbox_run_inv: "mailbox_run t sent rcv mm \<Longrightarrow> manager_inv mm"
proof (induction rule: mailbox_run.induct)
  case (new t n r)
  then show ?case by (simp add: manager_inv_def NewMailboxManager_def)
next
  case (send t sent rcv mm t' pick d mm')
  then show ?case by (auto simp: SendMessage_def manager_inv_def Let_def split: if_splits)
next
  case (deliver t sent rcv mm t' d ds)
  then have "manager_inv (mm\<lparr>deliveries := ds\<rparr>)" "length (dl_Body d) \<le> MaxMessageSize"
    by (auto simp: manager_inv_def)
  then show ?case by (rule processDelivery_inv)
next
  case (create t sent rcv mm t' a i attrs)
  then show ?case
    using manager_inv_put [OF create.IH new_mailbox_inv [of a t' i attrs]] by (auto simp: handleCreate_def)
next
  case (remove t sent rcv mm t' i)
  then show ?case
    by (intro manager_inv_fewer [OF remove.IH])
      (auto simp: handleRemoveClient_def manager_inv_def split: option.splits if_splits)
next
  case (clean t sent rcv mm t')
  then show ?case
    by (intro manager_inv_fewer [OF clean.IH])
      (auto simp: cleanupExpiredMessages_def manager_inv_def Let_def expire_messages_inv split: option.splits if_splits)
next
  case (stop t sent rcv mm t')
  then show ?case by (simp add: manager_inv_def Mailbox_Stop_def)
qed (auto intro: handleReceive_inv)

section \<open>Lemmas: order\<close>

definition content :: "MailboxMessage \<Rightarrow> MailboxMessage" where
  "content m = m\<lparr>mx_ID := 0\<rparr>"

definition queue :: "bytes \<Rightarrow> MailboxManager \<Rightarrow> MailboxMessage list" where
  "queue a mm = (case mailboxes mm a of Some mb \<Rightarrow> mb_Messages mb | None \<Rightarrow> [])"

definition to_addr :: "bytes \<Rightarrow> MailboxDelivery list \<Rightarrow> MailboxMessage list" where
  "to_addr a ds = map (delivered 0) (filter (\<lambda>d. dl_Address d = a) ds)"

definition from_addr :: "bytes \<Rightarrow> (bytes \<times> MailboxMessage) list \<Rightarrow> MailboxMessage list" where
  "from_addr a rcv = map (content \<circ> snd) (filter (\<lambda>p. fst p = a) rcv)"

text \<open>What can still be received from a mailbox: the live messages in it, then the deliveries under way.\<close>

definition pending :: "int \<Rightarrow> bytes \<Rightarrow> MailboxManager \<Rightarrow> MailboxMessage list" where
  "pending t a mm = map content (filter (live t) (queue a mm)) @ to_addr a (deliveries mm)"

lemma content_delivered: "content (delivered i d) = delivered 0 d"
  by (simp add: content_def delivered_def)

lemma live_later: "t \<le> t' \<Longrightarrow> subseq (filter (live t') ms) (filter (live t) ms)"
  by (induction ms) (auto simp: live_def)

lemma subseq_live: "t \<le> t' \<Longrightarrow> subseq ms ns \<Longrightarrow> subseq (map content (filter (live t') ms)) (map content (filter (live t) ns))"
  by (intro subseq_map) (meson live_later subseq_filter subseq_order.order_trans)

lemma pending_mono:
  assumes "t \<le> t'" "subseq (queue a mm') (queue a mm)" "deliveries mm' = deliveries mm"
  shows "subseq (pending t' a mm') (pending t a mm)"
  unfolding pending_def using assms subseq_live by (auto intro: list_emb_append_mono)

lemma queue_put: "queue a (mm\<lparr>mailboxes := (mailboxes mm)(b \<mapsto> mb)\<rparr>) = (if a = b then mb_Messages mb else queue a mm)"
  by (simp add: queue_def)

lemma queue_processDelivery:
  "subseq (queue a (processDelivery t d mm)) (queue a mm @ (if dl_Address d = a then [delivered (messageID mm + 1) d] else []))"
proof -
  have store: "subseq (mb_Messages (store_message t m mb)) (mb_Messages mb @ [m])" for m mb
    using subseq_tl [of "mb_Messages mb @ [m]"] by (simp add: store_message_def Let_def)
  show ?thesis
  proof (cases "mailboxes mm (dl_Address d)")
    case None
    then show ?thesis
      using store [of "delivered (messageID mm + 1) d" "new_mailbox t (dl_Address d) [] Map.empty"]
      by (auto simp: processDelivery_def queue_def Let_def new_mailbox_def)
  next
    case (Some mb)
    then show ?thesis
      using store [of "delivered (messageID mm + 1) d" mb] by (auto simp: processDelivery_def queue_def Let_def)
  qed
qed

lemma deliveries_frame [simp]:
  "deliveries (processDelivery t d mm) = deliveries mm" "deliveries (snd (handleCreate t a i attrs mm)) = deliveries mm"
  "deliveries (handleRemoveClient i mm) = deliveries mm" "deliveries (cleanupExpiredMessages t mm) = deliveries mm"
  by (auto simp: processDelivery_def handleCreate_def handleRemoveClient_def cleanupExpiredMessages_def Let_def
      split: option.splits)

lemma pending_deliver:
  assumes "t \<le> t'" "deliveries mm = d # ds"
  shows "subseq (pending t' a (processDelivery t' d (mm\<lparr>deliveries := ds\<rparr>))) (pending t a mm)"
proof -
  let ?q' = "queue a (processDelivery t' d (mm\<lparr>deliveries := ds\<rparr>))"
  let ?x = "if dl_Address d = a then [delivered (messageID mm + 1) d] else []"
  have "subseq ?q' (queue a mm @ ?x)"
    using queue_processDelivery [of a t' d "mm\<lparr>deliveries := ds\<rparr>"] by (cases "dl_Address d = a") (simp_all add: queue_def)
  then have "subseq (map content (filter (live t') ?q')) (map content (filter (live t) (queue a mm @ ?x)))"
    by (rule subseq_live [OF assms(1)])
  moreover have "subseq (map content (filter (live t) (queue a mm @ ?x)))
      (map content (filter (live t) (queue a mm)) @ to_addr a [d])"
    by (auto simp: to_addr_def content_delivered)
  ultimately have "subseq (map content (filter (live t') ?q'))
      (map content (filter (live t) (queue a mm)) @ to_addr a [d])"
    by (rule subseq_order.order_trans)
  then have "subseq (map content (filter (live t') ?q') @ to_addr a ds)
      ((map content (filter (live t) (queue a mm)) @ to_addr a [d]) @ to_addr a ds)"
    by (rule list_emb_append_mono) simp
  moreover have "to_addr a [d] @ to_addr a ds = to_addr a (d # ds)" by (simp add: to_addr_def)
  ultimately show ?thesis by (simp only: pending_def assms(2) append_assoc deliveries_frame) simp
qed

lemma pending_receive:
  assumes "t \<le> t'" "handleReceive t' i b mm = (Ok r, mm')"
  shows "subseq (from_addr a (case r of Some m \<Rightarrow> [(b, m)] | None \<Rightarrow> []) @ pending t' a mm') (pending t a mm)"
proof (rule handleReceive_cases [OF assms(2)])
  fix mb mb' assume mb: "mailboxes mm b = Some mb" "mm' = mm\<lparr>mailboxes := (mailboxes mm)(b \<mapsto> mb')\<rparr>"
    and mb': "(r = None \<and> (\<forall>m \<in> set (mb_Messages mb). \<not> live t' m) \<and> mb' = mb\<lparr>mb_Owner := i\<rparr>) \<or>
     (\<exists>m pre post. r = Some m \<and> mb_Messages mb = pre @ m # post \<and> live t' m \<and> (\<forall>x \<in> set pre. \<not> live t' x) \<and>
        mb' = mb\<lparr>mb_Owner := i, mb_Messages := pre @ post,
          mb_BytesStored := mb_BytesStored mb - of_nat (length (mx_Body m)), mb_LastActivity := t'\<rparr>)"
  have q: "queue a mm' = (if a = b then mb_Messages mb' else queue a mm)" "queue b mm = mb_Messages mb"
    "deliveries mm' = deliveries mm"
    using mb by (simp_all add: queue_put) (simp add: queue_def)
  show ?thesis
  proof (cases "a = b \<and> r \<noteq> None")
    case True
    then obtain m pre post where m: "r = Some m" "mb_Messages mb = pre @ m # post" "live t' m"
      "\<forall>x \<in> set pre. \<not> live t' x" "mb_Messages mb' = pre @ post"
      using mb' by auto
    then have "filter (live t') pre = []" by (simp add: filter_empty_conv)
    then have "content m # map content (filter (live t') (queue b mm')) = map content (filter (live t') (queue b mm))"
      using m q True by simp
    moreover have "subseq (map content (filter (live t') (queue b mm))) (map content (filter (live t) (queue b mm)))"
      using subseq_live [OF assms(1), of "queue b mm" "queue b mm"] by simp
    ultimately have "subseq (content m # map content (filter (live t') (queue b mm')))
        (map content (filter (live t) (queue b mm)))" by metis
    then have "subseq ((content m # map content (filter (live t') (queue b mm'))) @ to_addr b (deliveries mm))
        (map content (filter (live t) (queue b mm)) @ to_addr b (deliveries mm))"
      by (rule list_emb_append_mono) simp
    then show ?thesis using m(1) q True by (simp add: pending_def from_addr_def)
  next
    case False
    then have "subseq (queue a mm') (queue a mm)" using q mb' by auto
    moreover have "from_addr a (case r of Some m \<Rightarrow> [(b, m)] | None \<Rightarrow> []) = []"
      using False by (auto simp: from_addr_def split: option.splits)
    ultimately show ?thesis using pending_mono [OF assms(1) _ q(3)] by simp
  qed
qed

lemma mailbox_run_order:
  "mailbox_run t sent rcv mm \<Longrightarrow> subseq (from_addr a rcv @ pending t a mm) (to_addr a sent)"
proof (induction rule: mailbox_run.induct)
  case (new t n r)
  then show ?case by (simp add: from_addr_def pending_def queue_def to_addr_def NewMailboxManager_def)
next
  case (send t sent rcv mm t' pick d mm')
  then have mm': "deliveries mm' = deliveries mm @ [d\<lparr>dl_Timestamp := t'\<rparr>]" "queue a mm' = queue a mm"
    by (auto simp: SendMessage_def queue_def Let_def split: if_splits)
  let ?new = "to_addr a [d\<lparr>dl_Timestamp := t'\<rparr>]"
  have "subseq (pending t' a mm') (pending t a mm @ ?new)"
    using subseq_live [OF send.hyps(2), of "queue a mm" "queue a mm"]
    by (auto simp: pending_def mm' to_addr_def intro: list_emb_append_mono)
  then have "subseq (from_addr a rcv @ pending t' a mm') (from_addr a rcv @ pending t a mm @ ?new)"
    by (rule list_emb_append_mono [OF subseq_order.order_refl])
  moreover have "subseq ((from_addr a rcv @ pending t a mm) @ ?new) (to_addr a sent @ ?new)"
    using send.IH by (rule list_emb_append_mono) simp
  ultimately have "subseq (from_addr a rcv @ pending t' a mm') (to_addr a sent @ ?new)"
    by (simp only: append_assoc subseq_order.order_trans)
  then show ?case by (simp add: to_addr_def)
next
  case (deliver t sent rcv mm t' d ds)
  show ?case
    by (rule subseq_keep [OF deliver.IH pending_deliver [OF deliver.hyps(2,3)]])
next
  case (receive t sent rcv mm t' i b m mm')
  have "from_addr a (rcv @ [(b, m)]) = from_addr a rcv @ from_addr a [(b, m)]" by (simp add: from_addr_def)
  then show ?case
    using subseq_step [OF receive.IH pending_receive [OF receive.hyps(2,3), of a]] by simp
next
  case (receive_none t sent rcv mm t' i b mm')
  show ?case
    using subseq_step [OF receive_none.IH pending_receive [OF receive_none.hyps(2,3), of a]] by (simp add: from_addr_def)
next
  case (create t sent rcv mm t' b i attrs)
  have "subseq (queue a (snd (handleCreate t' b i attrs mm))) (queue a mm)"
    by (auto simp: handleCreate_def queue_def new_mailbox_def)
  then show ?case
    by (intro subseq_keep [OF create.IH] pending_mono [OF create.hyps(2)]) simp_all
next
  case (remove t sent rcv mm t' i)
  have "subseq (queue a (handleRemoveClient i mm)) (queue a mm)"
    by (auto simp: handleRemoveClient_def queue_def split: option.splits)
  then show ?case
    by (intro subseq_keep [OF remove.IH] pending_mono [OF remove.hyps(2)]) simp_all
next
  case (clean t sent rcv mm t')
  have "subseq (queue a (cleanupExpiredMessages t' mm)) (queue a mm)"
    by (auto simp: cleanupExpiredMessages_def queue_def expire_messages_eq Let_def split: option.splits)
  then show ?case
    by (intro subseq_keep [OF clean.IH] pending_mono [OF clean.hyps(2)]) simp_all
next
  case (stop t sent rcv mm t')
  have "queue a (Mailbox_Stop mm) = queue a mm" "deliveries (Mailbox_Stop mm) = deliveries mm"
    by (simp_all add: Mailbox_Stop_def queue_def)
  then show ?case
    by (intro subseq_keep [OF stop.IH] pending_mono [OF stop.hyps(2)]) simp_all
qed

section \<open>Theorems\<close>

text \<open>
  C33: Mailboxes deliver in order. Under a clock that does not go back, and in every
  interleaving of sending, delivery, receiving, creation and removal of mailboxes and clean-up,
  the messages received from a mailbox are, in this order and each at most once, messages that
  \<^verbatim>\<open>SendMessage\<close> accepted for it; the messages that can still be received follow them in the
  order of sending.
\<close>

theorem mailbox_delivers_in_order:
  assumes "mailbox_run t sent rcv mm"
  shows "subseq (from_addr a rcv @ pending t a mm) (to_addr a sent) \<and>
    (handleReceive t i a mm = (Ok (Some m), mm') \<longrightarrow>
      mailboxes mm a \<noteq> None \<and> pending t a mm = content m # pending t a mm' \<and> live t m)"
proof (intro conjI impI)
  show "subseq (from_addr a rcv @ pending t a mm) (to_addr a sent)"
    by (rule mailbox_run_order [OF assms])
  assume r: "handleReceive t i a mm = (Ok (Some m), mm')"
  obtain mb mb' pre post where mb: "mailboxes mm a = Some mb" "mm' = mm\<lparr>mailboxes := (mailboxes mm)(a \<mapsto> mb')\<rparr>"
    "mb_Messages mb = pre @ m # post" "live t m" "\<forall>x \<in> set pre. \<not> live t x" "mb_Messages mb' = pre @ post"
    using handleReceive_Some [OF r] by blast
  then have "filter (live t) pre = []" by (simp add: filter_empty_conv)
  then show "pending t a mm = content m # pending t a mm'"
    using mb by (simp add: pending_def queue_def)
  show "mailboxes mm a \<noteq> None" "live t m" using mb by simp_all
qed

definition sample_delivery :: MailboxDelivery where
  "sample_delivery = \<lparr>dl_Address = [1], dl_Subject = [2], dl_Sender = [3], dl_Tracker = [], dl_Body = [4, 5],
     dl_Attributes = Map.empty, dl_Timeout = 100, dl_Timestamp = 0\<rparr>"

definition sample_manager :: MailboxManager where
  "sample_manager = processDelivery 1 sample_delivery (NewMailboxManager 10 10)"

lemma sample_manager_run: "mailbox_run 1 [sample_delivery] [] sample_manager"
proof -
  let ?m0 = "NewMailboxManager 10 10"
  have d: "sample_delivery\<lparr>dl_Timestamp := 0\<rparr> = sample_delivery" by (simp add: sample_delivery_def)
  have "SendMessage 0 True sample_delivery ?m0 = (Ok (), ?m0\<lparr>deliveries := [sample_delivery]\<rparr>)"
    unfolding SendMessage_def d
    by (simp add: NewMailboxManager_def sample_delivery_def MaxMailboxName_def MaxMessageSize_def)
  then have "mailbox_run 0 [sample_delivery] [] (?m0\<lparr>deliveries := [sample_delivery]\<rparr>)"
    using mailbox_run.send [OF mailbox_run.new [of 0 10 10], of 0 True sample_delivery] d by simp
  then show ?thesis
    using mailbox_run.deliver [of 0 "[sample_delivery]" "[]" "?m0\<lparr>deliveries := [sample_delivery]\<rparr>" 1 sample_delivery "[]"]
    by (simp add: sample_manager_def NewMailboxManager_def)
qed

lemma sample_manager_state:
  "\<exists>mb. mailboxes sample_manager [1] = Some mb \<and> mb_Messages mb = [delivered 1 sample_delivery] \<and> mb_Owner mb = []"
  by (simp add: sample_manager_def processDelivery_def NewMailboxManager_def sample_delivery_def store_message_def
      new_mailbox_def MaxMailboxBacklog_def)

theorem mailbox_delivers_in_order_witness:
  "\<exists>mm'. handleReceive 1 [9] [1] sample_manager = (Ok (Some (delivered 1 sample_delivery)), mm') \<and>
     pending 1 [1] sample_manager = [delivered 0 sample_delivery] \<and> pending 1 [1] mm' = []"
proof -
  obtain mb where mb: "mailboxes sample_manager [1] = Some mb" "mb_Messages mb = [delivered 1 sample_delivery]"
    "mb_Owner mb = []"
    using sample_manager_state by blast
  have "mx_Timeout (delivered 1 sample_delivery) > 1" by (simp add: delivered_def sample_delivery_def)
  then obtain mm' where r: "handleReceive 1 [9] [1] sample_manager = (Ok (Some (delivered 1 sample_delivery)), mm')"
    using mb by (simp add: handleReceive_def)
  have "deliveries sample_manager = []" by (simp add: sample_manager_def NewMailboxManager_def)
  then have "pending 1 [1] sample_manager = [delivered 0 sample_delivery]"
    using mb \<open>mx_Timeout (delivered 1 sample_delivery) > 1\<close>
    by (simp add: pending_def queue_def live_def content_delivered to_addr_def)
  then show ?thesis
    using mailbox_delivers_in_order [OF sample_manager_run, of "[1]" "[9]" "delivered 1 sample_delivery" mm'] r by simp
qed

text \<open>
  Mailboxes stay within their limits. In every reachable state there are at most
  \<^verbatim>\<open>maxMailboxes\<close> mailboxes, each holds at most 10000 messages, and \<^verbatim>\<open>BytesStored\<close> is exactly the
  number of bytes in the bodies it holds: the 64-bit counter never wraps around.
\<close>

theorem mailbox_limits:
  assumes "mailbox_run t sent rcv mm"
  shows "int (card (dom (mailboxes mm))) \<le> max 0 (maxMailboxes mm) \<and>
    (mailboxes mm a = Some mb \<longrightarrow>
      mb_Address mb = a \<and> length (mb_Messages mb) \<le> 10000 \<and>
      unat (mb_BytesStored mb) = sum_list (map (\<lambda>m. length (mx_Body m)) (mb_Messages mb)))"
proof (intro conjI impI)
  have inv: "manager_inv mm" by (rule mailbox_run_inv [OF assms])
  then show "int (card (dom (mailboxes mm))) \<le> max 0 (maxMailboxes mm)" by (simp add: manager_inv_def)
  assume "mailboxes mm a = Some mb"
  then have mb: "mailbox_inv a mb" using inv by (simp add: manager_inv_def)
  then show "mb_Address mb = a" "length (mb_Messages mb) \<le> 10000"
    by (simp_all add: mailbox_inv_def MaxMailboxBacklog_def)
  have "stored ms \<le> length ms * MaxMessageSize" if "\<forall>m \<in> set ms. length (mx_Body m) \<le> MaxMessageSize" for ms
    using that by (induction ms) auto
  then have "stored (mb_Messages mb) \<le> length (mb_Messages mb) * MaxMessageSize" using mb by (simp add: mailbox_inv_def)
  also have "\<dots> \<le> 10000 * MaxMessageSize"
    using \<open>length (mb_Messages mb) \<le> 10000\<close> by (rule mult_le_mono1)
  finally have "stored (mb_Messages mb) < 2 ^ 64" by (simp add: MaxMessageSize_def)
  then show "unat (mb_BytesStored mb) = sum_list (map (\<lambda>m. length (mx_Body m)) (mb_Messages mb))"
    using mb by (simp add: mailbox_inv_def stored_def unat_of_nat)
qed

theorem mailbox_limits_witness:
  "\<exists>mb. mailboxes sample_manager [1] = Some mb \<and> unat (mb_BytesStored mb) = 2"
proof -
  obtain mb where mb: "mailboxes sample_manager [1] = Some mb" "mb_Messages mb = [delivered 1 sample_delivery]"
    using sample_manager_state by blast
  then show ?thesis
    using mailbox_limits [OF sample_manager_run, of "[1]" mb] by (simp add: delivered_def sample_delivery_def)
qed

end
