(* ===== verification/Malamute_Credit.thy ===== *)
theory Malamute_Credit
  imports Prelude
begin

text \<open>
  The credit controller of the Malamute broker (\<^verbatim>\<open>malamute/credit.go\<close>). \<^verbatim>\<open>int32\<close> values are
  integers, and every arithmetic operation on them wraps (\<open>i32\<close>). The goroutines take
  requests, confirmations and commands from their channels and hold the mutex while they process
  one: each is one atomic step on the controller. A client's \<^verbatim>\<open>ClientCredit\<close> is only reached
  through the map, so it is its value there.
\<close>

section \<open>Data\<close>

definition i32 :: "int \<Rightarrow> int" where
  "i32 x = sint (word_of_int x :: 32 word)"

definition DefaultCreditWindow :: int where "DefaultCreditWindow = 1000"
definition MinCreditWindow :: int where "MinCreditWindow = 10"
definition MaxCreditWindow :: int where "MaxCreditWindow = 100000"

record ClientCredit =
  Available :: int
  Total :: int
  Used :: int
  Reserved :: int
  LastRequest :: int
  LastConfirm :: int
  RequestCount :: "64 word"
  ConfirmCount :: "64 word"
  DenialCount :: "64 word"

record CreditRequest =
  rq_ClientID :: bytes
  rq_Amount :: int

record CreditResponse =
  Granted :: int
  rs_Available :: int
  rs_Error :: "go_error option"

record CreditConfirmation =
  cf_ClientID :: bytes
  cf_Amount :: int

record CreditStatistics =
  st_TotalRequests :: "64 word"
  st_TotalConfirmations :: "64 word"
  st_TotalGranted :: "64 word"
  st_TotalDenied :: "64 word"
  st_TotalReturned :: "64 word"

record CreditController =
  windowSize :: int
  lowWatermark :: int
  highWatermark :: int
  clientCredits :: "bytes \<rightharpoonup> ClientCredit"
  requests :: "CreditRequest list"
  confirmations :: "CreditConfirmation list"
  cancelled :: bool
  statistics :: CreditStatistics

text \<open>Go's division of an \<^verbatim>\<open>int32\<close> by a positive constant truncates towards zero.\<close>

definition quot :: "int \<Rightarrow> int \<Rightarrow> int" where
  "quot a b = sgn a * (\<bar>a\<bar> div b)"

definition set_window :: "int \<Rightarrow> CreditController \<Rightarrow> CreditController" where
  "set_window sz cc = cc\<lparr>windowSize := sz, lowWatermark := quot sz 4,
     highWatermark := quot (i32 (sz * 3)) 4\<rparr>"

definition NewCreditController :: "int \<Rightarrow> CreditController" where
  "NewCreditController w =
     (let w = (if w \<le> 0 then DefaultCreditWindow else w)
      in \<lparr>windowSize = w, lowWatermark = quot w 4, highWatermark = quot (i32 (w * 3)) 4,
          clientCredits = Map.empty, requests = [], confirmations = [], cancelled = False,
          statistics = \<lparr>st_TotalRequests = 0, st_TotalConfirmations = 0, st_TotalGranted = 0,
            st_TotalDenied = 0, st_TotalReturned = 0\<rparr>\<rparr>)"

section \<open>Operations\<close>

text \<open>
  The \<^verbatim>\<open>select\<close> statements of \<^verbatim>\<open>RequestCredit\<close> and \<^verbatim>\<open>ConfirmCredit\<close>, which do not wait: with
  both a free place in the channel and a cancelled context either may be chosen (\<open>pick\<close>).
\<close>

definition offer_chan :: "bool \<Rightarrow> bool \<Rightarrow> string \<Rightarrow> 'a \<Rightarrow> 'a list \<Rightarrow> unit result \<times> 'a list" where
  "offer_chan ctxDone pick what x ch =
     (if length ch < 1000 \<and> (\<not> ctxDone \<or> pick) then (Ok (), ch @ [x])
      else if ctxDone then (Err CtxDone, ch)
      else (Err (Errorf (what @ '' queue full'')), ch))"

definition RequestCredit_send ::
    "bool \<Rightarrow> bytes \<Rightarrow> int \<Rightarrow> CreditController \<Rightarrow> unit result \<times> CreditController" where
  "RequestCredit_send pick clientID amount cc =
     (let (r, ch) = offer_chan (cancelled cc) pick ''credit request''
            \<lparr>rq_ClientID = clientID, rq_Amount = amount\<rparr> (requests cc)
      in (r, cc\<lparr>requests := ch\<rparr>))"

definition ConfirmCredit ::
    "bool \<Rightarrow> bytes \<Rightarrow> int \<Rightarrow> CreditController \<Rightarrow> unit result \<times> CreditController" where
  "ConfirmCredit pick clientID amount cc =
     (let (r, ch) = offer_chan (cancelled cc) pick ''credit confirmation''
            \<lparr>cf_ClientID = clientID, cf_Amount = amount\<rparr> (confirmations cc)
      in (r, cc\<lparr>confirmations := ch\<rparr>))"

definition ReturnCredit ::
    "bool \<Rightarrow> bytes \<Rightarrow> int \<Rightarrow> CreditController \<Rightarrow> unit result \<times> CreditController" where
  "ReturnCredit pick clientID amount cc = ConfirmCredit pick clientID amount cc"

definition calculateGrantedCredit :: "CreditController \<Rightarrow> ClientCredit \<Rightarrow> int \<Rightarrow> int" where
  "calculateGrantedCredit cc c requested =
     (if Available c \<ge> highWatermark cc then 0
      else if Total c \<ge> windowSize cc then 0
      else
        (let available = i32 (windowSize cc - Total c);
             granted = (if requested > available then available else requested)
         in if granted > quot (windowSize cc) 2 then quot (windowSize cc) 2 else granted))"

definition new_client :: "int \<Rightarrow> ClientCredit" where
  "new_client now = \<lparr>Available = 0, Total = 0, Used = 0, Reserved = 0, LastRequest = now,
     LastConfirm = 0, RequestCount = 0, ConfirmCount = 0, DenialCount = 0\<rparr>"

definition grant :: "int \<Rightarrow> int \<Rightarrow> ClientCredit \<Rightarrow> ClientCredit" where
  "grant now granted c = c\<lparr>Available := i32 (Available c + granted), Total := i32 (Total c + granted),
     LastConfirm := now, ConfirmCount := ConfirmCount c + 1\<rparr>"

definition processRequest ::
    "int \<Rightarrow> CreditRequest \<Rightarrow> CreditController \<Rightarrow> CreditResponse \<times> CreditController" where
  "processRequest now rq cc =
     (let c = (case clientCredits cc (rq_ClientID rq) of Some c \<Rightarrow> c | None \<Rightarrow> new_client now);
          c = c\<lparr>LastRequest := now, RequestCount := RequestCount c + 1\<rparr>;
          st = (statistics cc)\<lparr>st_TotalRequests := st_TotalRequests (statistics cc) + 1\<rparr>;
          granted = calculateGrantedCredit cc c (rq_Amount rq)
      in if granted > 0 then
           (let c = grant now granted c;
                st = st\<lparr>st_TotalGranted := st_TotalGranted st + word_of_int granted,
                        st_TotalConfirmations := st_TotalConfirmations st + 1\<rparr>
            in (\<lparr>Granted = granted, rs_Available = Available c, rs_Error = None\<rparr>,
                cc\<lparr>clientCredits := (clientCredits cc)(rq_ClientID rq \<mapsto> c), statistics := st\<rparr>))
         else
           (let c = c\<lparr>DenialCount := DenialCount c + 1\<rparr>;
                st = st\<lparr>st_TotalDenied := st_TotalDenied st + 1\<rparr>
            in (\<lparr>Granted = 0, rs_Available = Available c,
                 rs_Error = Some (Errorf ''insufficient credit available'')\<rparr>,
                cc\<lparr>clientCredits := (clientCredits cc)(rq_ClientID rq \<mapsto> c), statistics := st\<rparr>)))"

definition processConfirmation :: "CreditConfirmation \<Rightarrow> CreditController \<Rightarrow> CreditController" where
  "processConfirmation cf cc =
     (case clientCredits cc (cf_ClientID cf) of
        None \<Rightarrow> cc
      | Some c \<Rightarrow>
          if cf_Amount cf > 0 then
            (let used = i32 (Used c - cf_Amount cf);
                 used = (if used < 0 then 0 else used)
             in cc\<lparr>clientCredits := (clientCredits cc)(cf_ClientID cf \<mapsto> c\<lparr>Used := used\<rparr>),
                  statistics := (statistics cc)\<lparr>st_TotalReturned :=
                    st_TotalReturned (statistics cc) + word_of_int (cf_Amount cf)\<rparr>\<rparr>)
          else cc)"

text \<open>The commands, as \<^verbatim>\<open>handleCommand\<close> executes them, behind their public methods.\<close>

definition GetClientCredit :: "bytes \<Rightarrow> CreditController \<Rightarrow> ClientCredit result" where
  "GetClientCredit clientID cc =
     (case clientCredits cc clientID of Some c \<Rightarrow> Ok c | None \<Rightarrow> Err (Errorf ''client not found''))"

definition SetWindowSize :: "int \<Rightarrow> CreditController \<Rightarrow> unit result \<times> CreditController" where
  "SetWindowSize sz cc =
     (if sz < MinCreditWindow \<or> sz > MaxCreditWindow then (Err (Errorf ''invalid window size''), cc)
      else (Ok (), set_window sz cc))"

definition RemoveClient :: "bytes \<Rightarrow> CreditController \<Rightarrow> CreditController" where
  "RemoveClient clientID cc = cc\<lparr>clientCredits := (clientCredits cc)(clientID := None)\<rparr>"

definition inactive :: "int \<Rightarrow> ClientCredit \<Rightarrow> bool" where
  "inactive now c \<longleftrightarrow>
     LastRequest c < now - 60 * 60 * 1000000000 \<and> Available c = 0 \<and> Used c = 0"

definition cleanupInactiveClients :: "int \<Rightarrow> CreditController \<Rightarrow> CreditController" where
  "cleanupInactiveClients now cc =
     cc\<lparr>clientCredits := (\<lambda>k. case clientCredits cc k of
        Some c \<Rightarrow> if inactive now c then None else Some c
      | None \<Rightarrow> None)\<rparr>"

definition UseCredit :: "bytes \<Rightarrow> int \<Rightarrow> CreditController \<Rightarrow> unit result \<times> CreditController" where
  "UseCredit clientID amount cc =
     (case clientCredits cc clientID of
        None \<Rightarrow> (Err (Errorf ''client not found''), cc)
      | Some c \<Rightarrow>
          if Available c < amount then (Err (Errorf ''insufficient credit''), cc)
          else (Ok (), cc\<lparr>clientCredits := (clientCredits cc)(clientID \<mapsto>
            c\<lparr>Available := i32 (Available c - amount), Used := i32 (Used c + amount)\<rparr>)\<rparr>))"

definition CheckCredit :: "bytes \<Rightarrow> int \<Rightarrow> CreditController \<Rightarrow> bool" where
  "CheckCredit clientID amount cc =
     (case clientCredits cc clientID of None \<Rightarrow> False | Some c \<Rightarrow> Available c \<ge> amount)"

definition GetAvailableCredit :: "bytes \<Rightarrow> CreditController \<Rightarrow> int" where
  "GetAvailableCredit clientID cc =
     (case clientCredits cc clientID of None \<Rightarrow> 0 | Some c \<Rightarrow> Available c)"

definition Credit_Stop :: "CreditController \<Rightarrow> CreditController" where
  "Credit_Stop cc = cc\<lparr>cancelled := True\<rparr>"

section \<open>Runs\<close>

text \<open>
  The steps of the goroutines and of callers, with any \<^verbatim>\<open>int32\<close> values as arguments; \<open>amounts\<close>
  says which of them callers pass to \<^verbatim>\<open>UseCredit\<close>.
\<close>

inductive credit_step :: "(int \<Rightarrow> bool) \<Rightarrow> CreditController \<Rightarrow> CreditController \<Rightarrow> bool" for amounts where
  request: "credit_step amounts cc (snd (RequestCredit_send pick i (i32 a) cc))"
| confirm: "credit_step amounts cc (snd (ConfirmCredit pick i (i32 a) cc))"
| serve: "requests cc = rq # rest \<Longrightarrow>
    credit_step amounts cc ((snd (processRequest now rq cc))\<lparr>requests := rest\<rparr>)"
| confirmed: "confirmations cc = cf # rest \<Longrightarrow>
    credit_step amounts cc ((processConfirmation cf cc)\<lparr>confirmations := rest\<rparr>)"
| window: "credit_step amounts cc (snd (SetWindowSize w cc))"
| remove: "credit_step amounts cc (RemoveClient i cc)"
| clean: "credit_step amounts cc (cleanupInactiveClients now cc)"
| consume: "amounts (i32 a) \<Longrightarrow> credit_step amounts cc (snd (UseCredit i (i32 a) cc))"
| halt: "credit_step amounts cc (Credit_Stop cc)"

inductive_cases credit_stepE: "credit_step amounts cc cc'"

section \<open>The credit of a client\<close>

lemma i32_id [simp]: "- 2147483648 \<le> x \<Longrightarrow> x \<le> 2147483647 \<Longrightarrow> i32 x = x"
  by (simp add: i32_def signed_of_int signed_take_bit_int_eq_self)

lemma i32_range: "- 2147483648 \<le> i32 x \<and> i32 x \<le> 2147483647"
  using sint_lt [of "word_of_int x :: 32 word"] sint_ge [of "word_of_int x :: 32 word"]
  by (simp add: i32_def)

definition client_inv :: "ClientCredit \<Rightarrow> bool" where
  "client_inv c \<longleftrightarrow> 0 \<le> Available c \<and> 0 \<le> Used c \<and> Available c + Used c \<le> Total c \<and>
     Total c \<le> 2147483647"

definition credit_inv :: "CreditController \<Rightarrow> bool" where
  "credit_inv cc \<longleftrightarrow> 0 < windowSize cc \<and> windowSize cc \<le> 2147483647 \<and>
     (\<forall>cf \<in> set (confirmations cc). cf_Amount cf \<le> 2147483647) \<and>
     (\<forall>i c. clientCredits cc i = Some c \<longrightarrow> client_inv c)"

lemma quot_half: "0 \<le> w \<Longrightarrow> quot w 2 = w div 2"
  by (simp add: quot_def sgn_if)

text \<open>What is granted is within the request, the rest of the window and half the window.\<close>

lemma granted_bounds:
  assumes "credit_inv cc" "client_inv c" "0 < calculateGrantedCredit cc c a"
  shows "calculateGrantedCredit cc c a \<le> a" "Total c + calculateGrantedCredit cc c a \<le> windowSize cc"
    "calculateGrantedCredit cc c a \<le> windowSize cc div 2"
  using assms
  by (auto simp: calculateGrantedCredit_def credit_inv_def client_inv_def quot_half Let_def split: if_splits)

lemma client_inv_new [simp]: "client_inv (new_client now)"
  by (simp add: client_inv_def new_client_def)

lemma client_inv_frame [simp]:
  "client_inv (c\<lparr>LastRequest := t, RequestCount := n\<rparr>) = client_inv c"
  "client_inv (c\<lparr>DenialCount := n\<rparr>) = client_inv c"
  by (simp_all add: client_inv_def)

lemma client_inv_grant:
  assumes "credit_inv cc" "client_inv c" "0 < calculateGrantedCredit cc c a"
  shows "client_inv (grant now (calculateGrantedCredit cc c a) c)"
    "Total (grant now (calculateGrantedCredit cc c a) c) = Total c + calculateGrantedCredit cc c a"
    "Available (grant now (calculateGrantedCredit cc c a) c) = Available c + calculateGrantedCredit cc c a"
  using granted_bounds(2) [OF assms] assms
  by (auto simp: grant_def client_inv_def credit_inv_def)

lemma credit_inv_update:
  "credit_inv cc \<Longrightarrow> client_inv c \<Longrightarrow>
     credit_inv (cc\<lparr>clientCredits := (clientCredits cc)(i \<mapsto> c), statistics := st\<rparr>)"
  "credit_inv cc \<Longrightarrow> client_inv c \<Longrightarrow> credit_inv (cc\<lparr>clientCredits := (clientCredits cc)(i \<mapsto> c)\<rparr>)"
  by (auto simp: credit_inv_def)

lemma credit_inv_frame [simp]:
  "credit_inv (cc\<lparr>requests := rqs\<rparr>) = credit_inv cc"
  "credit_inv (cc\<lparr>cancelled := x\<rparr>) = credit_inv cc"
  by (simp_all add: credit_inv_def)

lemma processRequest_inv:
  assumes "credit_inv cc"
  shows "credit_inv (snd (processRequest now rq cc))"
proof -
  let ?c = "case clientCredits cc (rq_ClientID rq) of Some c \<Rightarrow> c | None \<Rightarrow> new_client now"
  have "client_inv ?c" using assms by (auto simp: credit_inv_def split: option.splits)
  then show ?thesis
    using assms client_inv_grant(1) [OF assms, of "?c\<lparr>LastRequest := now, RequestCount := RequestCount ?c + 1\<rparr>"]
    by (simp add: processRequest_def Let_def credit_inv_update)
qed

lemma processConfirmation_inv:
  assumes inv: "credit_inv cc" and "cf_Amount cf \<le> 2147483647"
  shows "credit_inv (processConfirmation cf cc)"
proof (cases "clientCredits cc (cf_ClientID cf)")
  case (Some c)
  then have c: "client_inv c" using inv by (auto simp: credit_inv_def)
  then have "client_inv (c\<lparr>Used := (if i32 (Used c - cf_Amount cf) < 0 then 0 else i32 (Used c - cf_Amount cf))\<rparr>)"
    if "0 < cf_Amount cf"
    using that assms(2) by (auto simp: client_inv_def)
  then show ?thesis
    using inv Some by (simp add: processConfirmation_def Let_def credit_inv_update)
qed (simp add: inv processConfirmation_def)

lemma UseCredit_inv:
  assumes inv: "credit_inv cc" and "0 \<le> a"
  shows "credit_inv (snd (UseCredit i a cc))"
proof (cases "clientCredits cc i")
  case (Some c)
  then have "client_inv c" using inv by (auto simp: credit_inv_def)
  then have "client_inv (c\<lparr>Available := i32 (Available c - a), Used := i32 (Used c + a)\<rparr>)" if "a \<le> Available c"
    using that assms(2) by (auto simp: client_inv_def)
  then show ?thesis
    using inv Some by (auto simp: UseCredit_def credit_inv_update)
qed (simp add: inv UseCredit_def)

lemma credit_step_inv:
  assumes "credit_step amounts cc cc'" "credit_inv cc" "\<And>a. amounts a \<Longrightarrow> 0 \<le> a"
  shows "credit_inv cc'"
  using assms
proof (cases rule: credit_step.cases)
  case (confirm pick i a)
  then show ?thesis
    using assms(2) i32_range [of a]
    by (auto simp: ConfirmCredit_def offer_chan_def credit_inv_def Let_def)
next
  case (serve rq rest now)
  then show ?thesis using assms(2) by (simp add: processRequest_inv)
next
  case (confirmed cf rest)
  then have "credit_inv (processConfirmation cf cc)"
    using assms(2) by (intro processConfirmation_inv) (auto simp: credit_inv_def)
  with confirmed show ?thesis
    using assms(2) by (auto simp: credit_inv_def processConfirmation_def Let_def split: option.splits if_splits)
next
  case (consume a i)
  then show ?thesis using assms by (simp add: UseCredit_inv)
qed (auto simp: RequestCredit_send_def SetWindowSize_def set_window_def RemoveClient_def
      cleanupInactiveClients_def Credit_Stop_def credit_inv_def MinCreditWindow_def MaxCreditWindow_def
      Let_def case_prod_beta split: option.splits if_splits)

definition credit_reachable :: "(int \<Rightarrow> bool) \<Rightarrow> CreditController \<Rightarrow> bool" where
  "credit_reachable amounts cc \<longleftrightarrow>
     (\<exists>w \<le> 2147483647. (credit_step amounts)\<^sup>*\<^sup>* (NewCreditController w) cc)"

lemma NewCreditController_inv: "w \<le> 2147483647 \<Longrightarrow> credit_inv (NewCreditController w)"
  by (simp add: NewCreditController_def credit_inv_def DefaultCreditWindow_def Let_def)

lemma credit_reachable_inv:
  assumes "credit_reachable (\<lambda>a. 0 \<le> a) cc"
  shows "credit_inv cc"
proof -
  obtain w where "w \<le> 2147483647" "(credit_step (\<lambda>a. 0 \<le> a))\<^sup>*\<^sup>* (NewCreditController w) cc"
    using assms by (auto simp: credit_reachable_def)
  from this(2) show ?thesis
    by induction (use \<open>w \<le> 2147483647\<close> credit_step_inv in \<open>auto simp: NewCreditController_inv\<close>)
qed

text \<open>
  C8: Credit accounting is sound when callers use non-negative amounts. In every reachable state
  of the controller, for every client, the available and the used credit are not negative and
  together at most what was granted in total, and no 32-bit operation wraps around. A grant is
  positive, at most the amount requested, at most half the window, and never takes the total of
  the client above the window; and a client can use exactly the amounts up to what it has available.
\<close>

theorem credit_bounds:
  assumes "credit_reachable (\<lambda>a. 0 \<le> a) cc"
  shows "(clientCredits cc i = Some c \<longrightarrow>
       0 \<le> Available c \<and> 0 \<le> Used c \<and> Available c + Used c \<le> Total c \<and> Total c \<le> 2147483647) \<and>
    (processRequest now \<lparr>rq_ClientID = i, rq_Amount = a\<rparr> cc = (rs, cc') \<and> rs_Error rs = None \<longrightarrow>
       0 < Granted rs \<and> Granted rs \<le> a \<and> Granted rs \<le> windowSize cc div 2 \<and>
       (\<exists>c'. clientCredits cc' i = Some c' \<and> Total c' \<le> windowSize cc \<and>
          Available c' = GetAvailableCredit i cc + Granted rs)) \<and>
    (0 \<le> a \<longrightarrow> (fst (UseCredit i a cc) = Ok () \<longleftrightarrow> CheckCredit i a cc) \<and>
       (CheckCredit i a cc \<longrightarrow> GetAvailableCredit i (snd (UseCredit i a cc)) = GetAvailableCredit i cc - a))"
proof (intro conjI impI)
  note inv = credit_reachable_inv [OF assms]
  have ci: "client_inv c" if "clientCredits cc i = Some c" for c using that inv by (auto simp: credit_inv_def)
  show "0 \<le> Available c" "0 \<le> Used c" "Available c + Used c \<le> Total c" "Total c \<le> 2147483647"
    if "clientCredits cc i = Some c" using ci [OF that] by (auto simp: client_inv_def)
  show "fst (UseCredit i a cc) = Ok () \<longleftrightarrow> CheckCredit i a cc" if "0 \<le> a"
    by (auto simp: UseCredit_def CheckCredit_def split: option.splits)
  show "GetAvailableCredit i (snd (UseCredit i a cc)) = GetAvailableCredit i cc - a"
    if "0 \<le> a" "CheckCredit i a cc"
    using that ci by (fastforce simp: UseCredit_def CheckCredit_def GetAvailableCredit_def client_inv_def split: option.splits)
  assume A: "processRequest now \<lparr>rq_ClientID = i, rq_Amount = a\<rparr> cc = (rs, cc') \<and> rs_Error rs = None"
  let ?c0 = "case clientCredits cc i of Some c \<Rightarrow> c | None \<Rightarrow> new_client now"
  let ?c = "?c0\<lparr>LastRequest := now, RequestCount := RequestCount ?c0 + 1\<rparr>"
  let ?g = "calculateGrantedCredit cc ?c a"
  have cinv: "client_inv ?c" using ci by (auto split: option.splits)
  from A have g: "0 < ?g" and rs: "Granted rs = ?g" and c': "clientCredits cc' i = Some (grant now ?g ?c)"
    by (auto simp: processRequest_def Let_def split: if_splits)
  note bounds = granted_bounds [OF inv cinv g] client_inv_grant [OF inv cinv g, of now]
  show "0 < Granted rs" "Granted rs \<le> a" "Granted rs \<le> windowSize cc div 2"
    using g rs bounds by simp_all
  have "Available ?c = GetAvailableCredit i cc"
    by (simp add: GetAvailableCredit_def new_client_def split: option.splits)
  then show "\<exists>c'. clientCredits cc' i = Some c' \<and> Total c' \<le> windowSize cc \<and>
          Available c' = GetAvailableCredit i cc + Granted rs"
    using c' rs bounds by simp
qed

text \<open>A window of 10: a client asks for 8 and gets half the window.\<close>

definition one_client :: CreditController where
  "one_client = snd (processRequest 0 \<lparr>rq_ClientID = [1], rq_Amount = 8\<rparr> (NewCreditController 10))"

lemma one_client_reachable: "credit_reachable (\<lambda>a. 0 \<le> a) one_client"
proof -
  let ?rq = "\<lparr>rq_ClientID = [1], rq_Amount = 8\<rparr>"
  let ?q = "(NewCreditController 10)\<lparr>requests := [?rq]\<rparr>"
  have "snd (RequestCredit_send True [1] (i32 8) (NewCreditController 10)) = ?q"
    by (simp add: RequestCredit_send_def offer_chan_def NewCreditController_def Let_def)
  then have "credit_step (\<lambda>a. 0 \<le> a) (NewCreditController 10) ?q"
    by (metis credit_step.request)
  moreover have "credit_step (\<lambda>a. 0 \<le> a) ?q ((snd (processRequest 0 ?rq ?q))\<lparr>requests := []\<rparr>)"
    by (rule credit_step.serve) simp
  moreover have "(snd (processRequest 0 ?rq ?q))\<lparr>requests := []\<rparr> = one_client"
    by (simp add: one_client_def processRequest_def calculateGrantedCredit_def NewCreditController_def Let_def)
  ultimately show ?thesis
    unfolding credit_reachable_def
    by (intro exI [of _ 10]) (auto intro: rtranclp.rtrancl_into_rtrancl)
qed

lemma one_client_state:
  "clientCredits one_client = [[1] \<mapsto> \<lparr>Available = 5, Total = 5, Used = 0, Reserved = 0, LastRequest = 0,
     LastConfirm = 0, RequestCount = 1, ConfirmCount = 1, DenialCount = 0\<rparr>]"
  "windowSize one_client = 10"
  by (simp_all add: one_client_def processRequest_def calculateGrantedCredit_def NewCreditController_def
      new_client_def grant_def quot_def Let_def)

theorem credit_bounds_witness:
  "(0::int) \<le> 5 \<and> fst (UseCredit [1] 3 one_client) = Ok () \<and>
   GetAvailableCredit [1] (snd (UseCredit [1] 3 one_client)) = 2"
  using credit_bounds [OF one_client_reachable, of "[1]" _ _ 3]
  by (simp add: one_client_state CheckCredit_def GetAvailableCredit_def)

text \<open>
  Credit is never replenished. Using credit and returning it leave the total of a client as
  it is, and returning credit does not make it available again. So once the total has reached
  the window, every request of the client is denied, however much it has returned, until the
  client is forgotten or the window is enlarged.
\<close>

theorem credit_not_replenished:
  assumes "credit_reachable (\<lambda>a. 0 \<le> a) cc" "clientCredits cc i = Some c"
  shows "(\<exists>c'. clientCredits (processConfirmation cf cc) i = Some c' \<and>
       Total c' = Total c \<and> Available c' = Available c) \<and>
    (\<exists>c'. clientCredits (snd (UseCredit j a cc)) i = Some c' \<and> Total c' = Total c) \<and>
    (windowSize cc \<le> Total c \<longrightarrow>
      Granted (fst (processRequest now \<lparr>rq_ClientID = i, rq_Amount = n\<rparr> cc)) = 0 \<and>
      rs_Error (fst (processRequest now \<lparr>rq_ClientID = i, rq_Amount = n\<rparr> cc)) =
        Some (Errorf ''insufficient credit available'') \<and>
      (\<exists>c'. clientCredits (snd (processRequest now \<lparr>rq_ClientID = i, rq_Amount = n\<rparr> cc)) i = Some c' \<and>
         Total c' = Total c))"
proof (intro conjI impI)
  show "\<exists>c'. clientCredits (processConfirmation cf cc) i = Some c' \<and> Total c' = Total c \<and>
      Available c' = Available c"
    using assms(2) by (auto simp: processConfirmation_def Let_def split: option.splits)
  show "\<exists>c'. clientCredits (snd (UseCredit j a cc)) i = Some c' \<and> Total c' = Total c"
    using assms(2) by (auto simp: UseCredit_def split: option.splits)
  assume "windowSize cc \<le> Total c"
  then have "calculateGrantedCredit cc (c\<lparr>LastRequest := now, RequestCount := RequestCount c + 1\<rparr>) n = 0"
    by (simp add: calculateGrantedCredit_def)
  then show "Granted (fst (processRequest now \<lparr>rq_ClientID = i, rq_Amount = n\<rparr> cc)) = 0"
    "rs_Error (fst (processRequest now \<lparr>rq_ClientID = i, rq_Amount = n\<rparr> cc)) =
        Some (Errorf ''insufficient credit available'')"
    "\<exists>c'. clientCredits (snd (processRequest now \<lparr>rq_ClientID = i, rq_Amount = n\<rparr> cc)) i = Some c' \<and>
         Total c' = Total c"
    using assms(2) by (simp_all add: processRequest_def Let_def)
qed

text \<open>The client of \<open>one_client\<close> with its window used up.\<close>

definition full_client :: CreditController where
  "full_client = snd (processRequest 0 \<lparr>rq_ClientID = [1], rq_Amount = 8\<rparr> one_client)"

lemma full_client_reachable: "credit_reachable (\<lambda>a. 0 \<le> a) full_client"
proof -
  let ?rq = "\<lparr>rq_ClientID = [1], rq_Amount = 8\<rparr>"
  let ?q = "one_client\<lparr>requests := [?rq]\<rparr>"
  have "requests one_client = []" "cancelled one_client = False"
    by (simp_all add: one_client_def processRequest_def NewCreditController_def Let_def)
  then have "snd (RequestCredit_send True [1] (i32 8) one_client) = ?q"
    by (simp add: RequestCredit_send_def offer_chan_def)
  then have "credit_step (\<lambda>a. 0 \<le> a) one_client ?q"
    by (metis credit_step.request)
  moreover have "credit_step (\<lambda>a. 0 \<le> a) ?q ((snd (processRequest 0 ?rq ?q))\<lparr>requests := []\<rparr>)"
    by (rule credit_step.serve) simp
  moreover have "(snd (processRequest 0 ?rq ?q))\<lparr>requests := []\<rparr> = full_client"
    using \<open>requests one_client = []\<close>
    by (simp add: full_client_def processRequest_def calculateGrantedCredit_def Let_def)
  ultimately show ?thesis
    using one_client_reachable unfolding credit_reachable_def
    by (metis rtranclp.rtrancl_into_rtrancl)
qed

theorem credit_not_replenished_witness:
  "rs_Error (fst (processRequest 1 \<lparr>rq_ClientID = [1], rq_Amount = 1\<rparr> full_client)) =
     Some (Errorf ''insufficient credit available'')"
proof -
  have high: "highWatermark one_client = 7"
    by (simp add: one_client_def processRequest_def calculateGrantedCredit_def NewCreditController_def
        quot_def Let_def)
  then obtain c where c: "clientCredits full_client [1] = Some c" "Total c = 10"
    by (simp add: full_client_def processRequest_def calculateGrantedCredit_def grant_def quot_def
        one_client_state Let_def)
  have "windowSize full_client = 10"
    by (simp add: full_client_def processRequest_def one_client_state Let_def)
  then show ?thesis
    using credit_not_replenished [OF full_client_reachable c(1)] c(2) by simp
qed

text \<open>
  Two ways in which the accounting breaks: a negative amount passed to \<^verbatim>\<open>UseCredit\<close> creates
  credit, and a controller made with a very large window has a negative high watermark, because
  the product by three wraps around, and denies every request.
\<close>

theorem credit_misuse:
  "GetAvailableCredit [1] (snd (UseCredit [1] (- 1000) one_client)) = 1005"
  "rs_Error (fst (processRequest 0 \<lparr>rq_ClientID = [1], rq_Amount = 1\<rparr> (NewCreditController 1073741824))) \<noteq> None"
proof -
  show "GetAvailableCredit [1] (snd (UseCredit [1] (- 1000) one_client)) = 1005"
    by (simp add: GetAvailableCredit_def UseCredit_def one_client_state)
  have "i32 3221225472 = - 1073741824"
    by (simp add: i32_def signed_of_int signed_take_bit_eq_if_negative)
  then show "rs_Error (fst (processRequest 0 \<lparr>rq_ClientID = [1], rq_Amount = 1\<rparr> (NewCreditController 1073741824))) \<noteq> None"
    by (simp add: processRequest_def calculateGrantedCredit_def NewCreditController_def new_client_def
        quot_def Let_def)
qed

end
