(* ===== verification/Malamute_Stream.thy ===== *)
theory Malamute_Stream
  imports Malamute_Message Malamute_Credit Run_Order
begin

text \<open>
  The streams of the Malamute broker (\<^verbatim>\<open>malamute/stream.go\<close>, types in \<^verbatim>\<open>malamute/protocol.go\<close>):
  publications are stored and delivered to the subscribers whose pattern matches the subject,
  as long as they have credit.

  As for the mailboxes, each goroutine holds the mutex while it processes one item: publications,
  commands and clean-ups are atomic steps, which read the clock once. A delivery is the line the
  code prints for it; the steps return the deliveries as triples of client, stream and message.
  The results of \<^verbatim>\<open>filepath.Match\<close> (\<open>None\<close> is \<^verbatim>\<open>ErrBadPattern\<close>) and \<^verbatim>\<open>time.ParseDuration\<close> (\<open>None\<close> is an
  error) are arguments, about which nothing is assumed.
\<close>

section \<open>Data\<close>

definition MaxStreamBacklog :: nat where "MaxStreamBacklog = 100000"
definition StreamAttrTimeToLive :: bytes where "StreamAttrTimeToLive = str ''ttl''"

record StreamMessage =
  sg_ID :: "64 word"
  sg_Subject :: bytes
  sg_Sender :: bytes
  sg_Attributes :: "bytes \<rightharpoonup> bytes"
  sg_Body :: bytes
  sg_Timestamp :: int
  sg_TTL :: int
  sg_Priority :: int

record StreamSubscription =
  ss_ClientID :: bytes
  ss_Pattern :: bytes
  ss_Credit :: int
  ss_Attributes :: "bytes \<rightharpoonup> bytes"
  ss_CreatedAt :: int
  ss_LastRead :: "64 word"

record Stream =
  stm_Name :: bytes
  stm_Messages :: "StreamMessage list"
  stm_Subscribers :: "bytes \<rightharpoonup> StreamSubscription"
  stm_Attributes :: "bytes \<rightharpoonup> bytes"
  stm_CreatedAt :: int
  stm_LastActivity :: int
  stm_MessageCount :: "64 word"
  stm_BytesStored :: "64 word"

record StreamPub =
  sp_Stream :: bytes
  sp_Subject :: bytes
  sp_Sender :: bytes
  sp_Body :: bytes
  sp_Attributes :: "bytes \<rightharpoonup> bytes"
  sp_Timestamp :: int

record subscribeRequest =
  su_ClientID :: bytes
  su_Stream :: bytes
  su_Pattern :: bytes
  su_Attributes :: "bytes \<rightharpoonup> bytes"

record StreamManager =
  maxStreams :: int
  sm_retention :: int
  streams :: "bytes \<rightharpoonup> Stream"
  publications :: "StreamPub list"
  sm_cancelled :: bool

type_synonym glob = "bytes \<Rightarrow> bytes \<Rightarrow> bool option"
type_synonym stream_delivery = "bytes \<times> bytes \<times> StreamMessage"

definition NewStreamManager :: "int \<Rightarrow> int \<Rightarrow> StreamManager" where
  "NewStreamManager n r = \<lparr>maxStreams = n, sm_retention = r, streams = Map.empty, publications = [],
     sm_cancelled = False\<rparr>"

text \<open>The commands of the manager by their \<^verbatim>\<open>action\<close>, and the values sent on their reply channel.\<close>

datatype streamCmd =
    CmdSubscribe subscribeRequest
  | CmdUnsubscribe bytes bytes
  | CmdRemoveClient bytes
  | CmdGetStream bytes
  | CmdGetStreams
  | CmdRestoreCredit bytes bytes int

datatype stream_reply =
    RNil
  | RError go_error
  | RStream Stream
  | RStreams "bytes \<rightharpoonup> Stream"

section \<open>Operations\<close>

definition WriteMessage ::
    "int \<Rightarrow> bool \<Rightarrow> StreamPub \<Rightarrow> StreamManager \<Rightarrow> unit result \<times> StreamManager" where
  "WriteMessage now pick p sm =
     (if length (sp_Stream p) = 0 \<or> length (sp_Stream p) > MaxStreamName then
        (Err (Errorf ''invalid stream name length''), sm)
      else if length (sp_Body p) > MaxMessageSize then (Err (Errorf ''message too large''), sm)
      else
        let publication = p\<lparr>sp_Timestamp := now\<rparr> in
        if length (publications sm) < 10000 \<and> (\<not> sm_cancelled sm \<or> pick) then
          (Ok (), sm\<lparr>publications := publications sm @ [publication]\<rparr>)
        else if sm_cancelled sm then (Err CtxDone, sm)
        else (Err (Errorf ''publication queue full''), sm))"

definition matchesPattern :: "glob \<Rightarrow> bytes \<Rightarrow> bytes \<Rightarrow> bool" where
  "matchesPattern glob subject pattern =
     (if pattern = str ''*'' then True
      else case glob pattern subject of None \<Rightarrow> subject = pattern | Some matched \<Rightarrow> matched)"

text \<open>The body of the loop of \<^verbatim>\<open>deliverToSubscribers\<close>; \<open>ord\<close> is the order in which \<^verbatim>\<open>range\<close> visits the map.\<close>

definition deliver_one ::
    "glob \<Rightarrow> StreamMessage \<Rightarrow> Stream \<times> stream_delivery list \<Rightarrow> bytes \<Rightarrow> Stream \<times> stream_delivery list" where
  "deliver_one glob message acc clientID =
     (case acc of (stream, out) \<Rightarrow>
        case stm_Subscribers stream clientID of
          None \<Rightarrow> acc
        | Some subscription \<Rightarrow>
            if matchesPattern glob (sg_Subject message) (ss_Pattern subscription) \<and> ss_Credit subscription > 0 then
              (stream\<lparr>stm_Subscribers := (stm_Subscribers stream)(clientID \<mapsto>
                 subscription\<lparr>ss_Credit := ss_Credit subscription - 1, ss_LastRead := sg_ID message\<rparr>)\<rparr>,
               out @ [(clientID, stm_Name stream, message)])
            else acc)"

definition deliverToSubscribers ::
    "glob \<Rightarrow> bytes list \<Rightarrow> Stream \<Rightarrow> StreamMessage \<Rightarrow> Stream \<times> stream_delivery list" where
  "deliverToSubscribers glob ord stream message = foldl (deliver_one glob message) (stream, []) ord"

definition new_stream :: "int \<Rightarrow> bytes \<Rightarrow> Stream" where
  "new_stream now name = \<lparr>stm_Name = name, stm_Messages = [], stm_Subscribers = Map.empty,
     stm_Attributes = Map.empty, stm_CreatedAt = now, stm_LastActivity = now, stm_MessageCount = 0,
     stm_BytesStored = 0\<rparr>"

text \<open>Get or create a stream: \<open>None\<close> when there are too many.\<close>

definition get_or_create :: "int \<Rightarrow> bytes \<Rightarrow> StreamManager \<Rightarrow> Stream option" where
  "get_or_create now name sm =
     (case streams sm name of
        Some stream \<Rightarrow> Some stream
      | None \<Rightarrow> if int (card (dom (streams sm))) \<ge> maxStreams sm then None else Some (new_stream now name))"

definition publication_message :: "(bytes \<Rightarrow> int option) \<Rightarrow> int \<Rightarrow> 64 word \<Rightarrow> StreamPub \<Rightarrow> StreamMessage" where
  "publication_message parseDuration retention ID p =
     (let message = \<lparr>sg_ID = ID, sg_Subject = sp_Subject p, sg_Sender = sp_Sender p,
            sg_Attributes = sp_Attributes p, sg_Body = sp_Body p, sg_Timestamp = sp_Timestamp p,
            sg_TTL = retention, sg_Priority = 0\<rparr> in
      case sp_Attributes p StreamAttrTimeToLive of
        None \<Rightarrow> message
      | Some ttlStr \<Rightarrow> (case parseDuration ttlStr of None \<Rightarrow> message | Some ttl \<Rightarrow> message\<lparr>sg_TTL := ttl\<rparr>))"

definition append_message :: "int \<Rightarrow> StreamMessage \<Rightarrow> Stream \<Rightarrow> Stream" where
  "append_message now m s =
     (let s = s\<lparr>stm_Messages := stm_Messages s @ [m], stm_MessageCount := stm_MessageCount s + 1,
            stm_BytesStored := stm_BytesStored s + of_nat (length (sg_Body m)), stm_LastActivity := now\<rparr> in
      if length (stm_Messages s) > MaxStreamBacklog then s\<lparr>stm_Messages := tl (stm_Messages s)\<rparr> else s)"

definition processPublication ::
    "glob \<Rightarrow> (bytes \<Rightarrow> int option) \<Rightarrow> int \<Rightarrow> bytes list \<Rightarrow> StreamPub \<Rightarrow> StreamManager \<Rightarrow>
     stream_delivery list \<times> StreamManager" where
  "processPublication glob parseDuration now ord p sm =
     (case get_or_create now (sp_Stream p) sm of
        None \<Rightarrow> ([], sm)
      | Some stream \<Rightarrow>
          let message = publication_message parseDuration (sm_retention sm) (stm_MessageCount stream + 1) p;
              (stream, out) = deliverToSubscribers glob ord (append_message now message stream) message in
          (out, sm\<lparr>streams := (streams sm)(sp_Stream p \<mapsto> stream)\<rparr>))"

definition handleSubscribe :: "int \<Rightarrow> subscribeRequest \<Rightarrow> StreamManager \<Rightarrow> go_error option \<times> StreamManager" where
  "handleSubscribe now request sm =
     (case get_or_create now (su_Stream request) sm of
        None \<Rightarrow> (Some (Errorf ''maximum streams exceeded''), sm)
      | Some stream \<Rightarrow>
          let subscription = \<lparr>ss_ClientID = su_ClientID request, ss_Pattern = su_Pattern request,
                ss_Credit = DefaultCreditWindow, ss_Attributes = su_Attributes request, ss_CreatedAt = now,
                ss_LastRead = stm_MessageCount stream\<rparr> in
          (None, sm\<lparr>streams := (streams sm)(su_Stream request \<mapsto>
             stream\<lparr>stm_Subscribers := (stm_Subscribers stream)(su_ClientID request \<mapsto> subscription)\<rparr>)\<rparr>))"

definition Hour :: int where "Hour = 3600 * 1000000000"

text \<open>Removing a client from a stream, which \<^verbatim>\<open>handleUnsubscribe\<close> and \<^verbatim>\<open>handleRemoveClient\<close> repeat.\<close>

definition drop_subscriber :: "int \<Rightarrow> bytes \<Rightarrow> Stream \<Rightarrow> Stream option" where
  "drop_subscriber now clientID stream =
     (let stream = stream\<lparr>stm_Subscribers := (stm_Subscribers stream)(clientID := None)\<rparr> in
      if dom (stm_Subscribers stream) = {} \<and> now - stm_LastActivity stream > Hour then None else Some stream)"

definition handleUnsubscribe :: "int \<Rightarrow> bytes \<Rightarrow> bytes \<Rightarrow> StreamManager \<Rightarrow> StreamManager" where
  "handleUnsubscribe now clientID streamName sm =
     (case streams sm streamName of
        None \<Rightarrow> sm
      | Some stream \<Rightarrow> sm\<lparr>streams := (streams sm)(streamName := drop_subscriber now clientID stream)\<rparr>)"

definition stream_RemoveClient :: "int \<Rightarrow> bytes \<Rightarrow> StreamManager \<Rightarrow> StreamManager" where
  "stream_RemoveClient now clientID sm =
     sm\<lparr>streams := (\<lambda>n. Option.bind (streams sm n) (drop_subscriber now clientID))\<rparr>"

text \<open>\<open>None\<close> in place of a reply: no case handles the action, and nothing is sent.\<close>

definition stream_handleCommand :: "int \<Rightarrow> streamCmd \<Rightarrow> StreamManager \<Rightarrow> stream_reply option \<times> StreamManager" where
  "stream_handleCommand now cmd sm =
     (case cmd of
        CmdSubscribe request \<Rightarrow>
          (case handleSubscribe now request sm of
             (None, sm) \<Rightarrow> (Some RNil, sm) | (Some err, sm) \<Rightarrow> (Some (RError err), sm))
      | CmdUnsubscribe clientID stream \<Rightarrow> (Some RNil, handleUnsubscribe now clientID stream sm)
      | CmdRemoveClient clientID \<Rightarrow> (Some RNil, stream_RemoveClient now clientID sm)
      | CmdGetStream streamName \<Rightarrow>
          (case streams sm streamName of Some stream \<Rightarrow> (Some (RStream stream), sm) | None \<Rightarrow> (Some RNil, sm))
      | CmdGetStreams \<Rightarrow> (Some (RStreams (streams sm)), sm)
      | CmdRestoreCredit clientID streamName credit \<Rightarrow> (None, sm))"

definition message_expired :: "int \<Rightarrow> StreamMessage \<Rightarrow> bool" where
  "message_expired now m \<longleftrightarrow> sg_TTL m > 0 \<and> now - sg_Timestamp m > sg_TTL m"

definition expire_stream :: "int \<Rightarrow> Stream \<Rightarrow> Stream" where
  "expire_stream now s =
     foldl (\<lambda>s m. if message_expired now m then s\<lparr>stm_BytesStored := stm_BytesStored s - of_nat (length (sg_Body m))\<rparr>
                 else s\<lparr>stm_Messages := stm_Messages s @ [m]\<rparr>)
       (s\<lparr>stm_Messages := []\<rparr>) (stm_Messages s)"

definition stream_cleanup :: "int \<Rightarrow> StreamManager \<Rightarrow> StreamManager" where
  "stream_cleanup now sm =
     sm\<lparr>streams := (\<lambda>n. case streams sm n of
        None \<Rightarrow> None
      | Some s \<Rightarrow>
          let s = expire_stream now s in
          if dom (stm_Subscribers s) = {} \<and> length (stm_Messages s) = 0 \<and> now - stm_LastActivity s > 24 * Hour
          then None else Some s)\<rparr>"

definition Stream_Stop :: "StreamManager \<Rightarrow> StreamManager" where
  "Stream_Stop sm = sm\<lparr>sm_cancelled := True\<rparr>"

text \<open>
  A method that sends a command and waits for the reply. Once the context is cancelled, \<^verbatim>\<open>select\<close>
  may still send the command (\<open>pick\<close>), and the command loop may have ended before it takes it
  (\<open>served\<close>). \<open>None\<close>: the method never returns.
\<close>

definition stream_call ::
    "bool \<Rightarrow> bool \<Rightarrow> int \<Rightarrow> streamCmd \<Rightarrow> StreamManager \<Rightarrow> stream_reply result option \<times> StreamManager" where
  "stream_call pick served now cmd sm =
     (if sm_cancelled sm \<and> \<not> pick then (Some (Err CtxDone), sm)
      else if sm_cancelled sm \<and> \<not> served then (None, sm)
      else
        case stream_handleCommand now cmd sm of (r, sm) \<Rightarrow> (map_option Ok r, sm))"

definition Subscribe ::
    "bool \<Rightarrow> bool \<Rightarrow> int \<Rightarrow> subscribeRequest \<Rightarrow> StreamManager \<Rightarrow> unit result option \<times> StreamManager" where
  "Subscribe pick served now request sm =
     (case stream_call pick served now (CmdSubscribe request) sm of
        (None, sm) \<Rightarrow> (None, sm)
      | (Some (Ok (RError err)), sm) \<Rightarrow> (Some (Err err), sm)
      | (Some (Ok _), sm) \<Rightarrow> (Some (Ok ()), sm)
      | (Some (Err e), sm) \<Rightarrow> (Some (Err e), sm)
      | (Some (Panic m), sm) \<Rightarrow> (Some (Panic m), sm))"

text \<open>\<^verbatim>\<open>Unsubscribe\<close>, \<^verbatim>\<open>RemoveClient\<close> (which has no result) and \<^verbatim>\<open>RestoreCredit\<close> ignore what the reply is.\<close>

definition stream_command ::
    "bool \<Rightarrow> bool \<Rightarrow> int \<Rightarrow> streamCmd \<Rightarrow> StreamManager \<Rightarrow> unit result option \<times> StreamManager" where
  "stream_command pick served now cmd sm =
     (case stream_call pick served now cmd sm of
        (None, sm) \<Rightarrow> (None, sm)
      | (Some (Ok _), sm) \<Rightarrow> (Some (Ok ()), sm)
      | (Some (Err e), sm) \<Rightarrow> (Some (Err e), sm)
      | (Some (Panic m), sm) \<Rightarrow> (Some (Panic m), sm))"

definition Unsubscribe where
  "Unsubscribe pick served now clientID streamName =
     stream_command pick served now (CmdUnsubscribe clientID streamName)"

definition RestoreCredit where
  "RestoreCredit pick served now clientID streamName credit =
     stream_command pick served now (CmdRestoreCredit clientID streamName credit)"

definition GetStream ::
    "bool \<Rightarrow> bool \<Rightarrow> int \<Rightarrow> bytes \<Rightarrow> StreamManager \<Rightarrow> Stream result option \<times> StreamManager" where
  "GetStream pick served now streamName sm =
     (case stream_call pick served now (CmdGetStream streamName) sm of
        (None, sm) \<Rightarrow> (None, sm)
      | (Some (Ok (RStream stream)), sm) \<Rightarrow> (Some (Ok stream), sm)
      | (Some (Ok _), sm) \<Rightarrow> (Some (Err (Errorf ''stream not found'')), sm)
      | (Some (Err e), sm) \<Rightarrow> (Some (Err e), sm)
      | (Some (Panic m), sm) \<Rightarrow> (Some (Panic m), sm))"

section \<open>Runs\<close>

definition visits :: "bytes list \<Rightarrow> (bytes \<rightharpoonup> 'a) \<Rightarrow> bool" where
  "visits ord m \<longleftrightarrow> distinct ord \<and> set ord = dom m"

definition subscribers :: "bytes \<Rightarrow> StreamManager \<Rightarrow> bytes \<rightharpoonup> StreamSubscription" where
  "subscribers n sm = (case streams sm n of None \<Rightarrow> Map.empty | Some s \<Rightarrow> stm_Subscribers s)"

text \<open>
  A run of the manager: the publications accepted by \<^verbatim>\<open>WriteMessage\<close>, the deliveries, and the
  subscriptions (client and stream) made so far, each in order.
\<close>

inductive stream_run ::
    "glob \<Rightarrow> (bytes \<Rightarrow> int option) \<Rightarrow> StreamPub list \<Rightarrow> stream_delivery list \<Rightarrow> (bytes \<times> bytes) list \<Rightarrow>
     StreamManager \<Rightarrow> bool" for glob pd where
  new: "stream_run glob pd [] [] [] (NewStreamManager n r)"
| accept: "stream_run glob pd (pubs @ [p\<lparr>sp_Timestamp := t\<rparr>]) out subs sm'"
    if "stream_run glob pd pubs out subs sm" "WriteMessage t pick p sm = (Ok (), sm')"
| publish: "stream_run glob pd pubs (out @ ds) subs sm'"
    if "stream_run glob pd pubs out subs sm" "publications sm = p # ps"
      "visits ord (subscribers (sp_Stream p) sm)"
      "processPublication glob pd t ord p (sm\<lparr>publications := ps\<rparr>) = (ds, sm')"
| subscribe: "stream_run glob pd pubs out (subs @ [(su_ClientID q, su_Stream q)]) sm'"
    if "stream_run glob pd pubs out subs sm" "stream_handleCommand t (CmdSubscribe q) sm = (Some RNil, sm')"
| command: "stream_run glob pd pubs out subs sm'"
    if "stream_run glob pd pubs out subs sm" "stream_handleCommand t c sm = (r, sm')"
      "\<not> (\<exists>q. c = CmdSubscribe q \<and> r = Some RNil)"
| clean: "stream_run glob pd pubs out subs (stream_cleanup t sm)"
    if "stream_run glob pd pubs out subs sm"
| stop: "stream_run glob pd pubs out subs (Stream_Stop sm)"
    if "stream_run glob pd pubs out subs sm"

section \<open>Lemmas: one publication\<close>

definition receives :: "glob \<Rightarrow> StreamMessage \<Rightarrow> StreamSubscription \<Rightarrow> bool" where
  "receives glob m sub \<longleftrightarrow> matchesPattern glob (sg_Subject m) (ss_Pattern sub) \<and> ss_Credit sub > 0"

definition charge :: "glob \<Rightarrow> StreamMessage \<Rightarrow> StreamSubscription \<Rightarrow> StreamSubscription" where
  "charge glob m sub = (if receives glob m sub then sub\<lparr>ss_Credit := ss_Credit sub - 1, ss_LastRead := sg_ID m\<rparr> else sub)"

definition receivers :: "glob \<Rightarrow> StreamMessage \<Rightarrow> (bytes \<rightharpoonup> StreamSubscription) \<Rightarrow> bytes set" where
  "receivers glob m S = {c. \<exists>sub. S c = Some sub \<and> receives glob m sub}"

lemma deliver_one_eq:
  "deliver_one glob m (s, out) c =
     (s\<lparr>stm_Subscribers := (stm_Subscribers s)(c := map_option (charge glob m) (stm_Subscribers s c))\<rparr>,
      out @ (if c \<in> receivers glob m (stm_Subscribers s) then [(c, stm_Name s, m)] else []))"
  by (auto simp: deliver_one_def receives_def receivers_def charge_def fun_upd_idem split: option.splits)

lemma deliver_loop:
  "distinct ord \<Longrightarrow> foldl (deliver_one glob m) (s, out) ord =
     (s\<lparr>stm_Subscribers := (\<lambda>c. if c \<in> set ord then map_option (charge glob m) (stm_Subscribers s c) else stm_Subscribers s c)\<rparr>,
      out @ map (\<lambda>c. (c, stm_Name s, m)) (filter (\<lambda>c. c \<in> receivers glob m (stm_Subscribers s)) ord))"
proof (induction ord arbitrary: s out)
  case Nil
  then show ?case by simp
next
  case (Cons c ord)
  let ?S = "(stm_Subscribers s)(c := map_option (charge glob m) (stm_Subscribers s c))"
  have f: "filter (\<lambda>x. x \<in> receivers glob m ?S) ord = filter (\<lambda>x. x \<in> receivers glob m (stm_Subscribers s)) ord"
    using Cons.prems by (intro filter_cong) (auto simp: receivers_def)
  have S: "(\<lambda>x. if x \<in> set ord then map_option (charge glob m) (?S x) else ?S x) =
      (\<lambda>x. if x \<in> set (c # ord) then map_option (charge glob m) (stm_Subscribers s x) else stm_Subscribers s x)"
    using Cons.prems by (auto simp: fun_eq_iff)
  define s1 where "s1 = s\<lparr>stm_Subscribers := ?S\<rparr>"
  have s1: "stm_Subscribers s1 = ?S" "stm_Name s1 = stm_Name s" "s1\<lparr>stm_Subscribers := X\<rparr> = s\<lparr>stm_Subscribers := X\<rparr>" for X
    by (simp_all add: s1_def)
  let ?o = "if c \<in> receivers glob m (stm_Subscribers s) then [(c, stm_Name s, m)] else []"
  have "foldl (deliver_one glob m) (s, out) (c # ord) = foldl (deliver_one glob m) (s1, out @ ?o) ord"
    by (simp add: deliver_one_eq s1_def)
  also have "\<dots> = (s\<lparr>stm_Subscribers := (\<lambda>x. if x \<in> set ord then map_option (charge glob m) (?S x) else ?S x)\<rparr>,
      (out @ ?o) @ map (\<lambda>c. (c, stm_Name s, m)) (filter (\<lambda>x. x \<in> receivers glob m ?S) ord))"
    using Cons.IH [of s1 "out @ ?o"] Cons.prems by (simp only: s1 distinct.simps)
  finally show ?case unfolding S f by simp
qed

definition charge_all :: "glob \<Rightarrow> StreamMessage \<Rightarrow> (bytes \<rightharpoonup> StreamSubscription) \<Rightarrow> (bytes \<rightharpoonup> StreamSubscription)" where
  "charge_all glob m S = (\<lambda>c. map_option (charge glob m) (S c))"

lemma deliverToSubscribers_eq:
  assumes "visits ord (stm_Subscribers s)"
  shows "deliverToSubscribers glob ord s m =
    (s\<lparr>stm_Subscribers := charge_all glob m (stm_Subscribers s)\<rparr>,
     map (\<lambda>c. (c, stm_Name s, m)) (filter (\<lambda>c. c \<in> receivers glob m (stm_Subscribers s)) ord))"
proof -
  have "(\<lambda>c. if c \<in> set ord then map_option (charge glob m) (stm_Subscribers s c) else stm_Subscribers s c) =
      charge_all glob m (stm_Subscribers s)"
    using assms by (auto simp: visits_def charge_all_def fun_eq_iff)
  then show ?thesis
    using assms deliver_loop [of ord glob m s "[]"] by (simp add: visits_def deliverToSubscribers_def)
qed

lemma append_message_frame [simp]:
  "stm_Name (append_message t m s) = stm_Name s" "stm_Subscribers (append_message t m s) = stm_Subscribers s"
  by (simp_all add: append_message_def Let_def)

lemma get_or_create_cases:
  "get_or_create t n sm = Some s \<Longrightarrow> stm_Subscribers s = subscribers n sm \<and>
     (streams sm n = Some s \<or> (streams sm n = None \<and> s = new_stream t n \<and> int (card (dom (streams sm))) < maxStreams sm))"
  by (auto simp: get_or_create_def subscribers_def new_stream_def split: option.splits if_splits)

lemma processPublication_cases:
  assumes "processPublication glob pd t ord p sm = (ds, sm')" "visits ord (subscribers (sp_Stream p) sm)"
  obtains (full) "get_or_create t (sp_Stream p) sm = None" "ds = []" "sm' = sm"
  | (stored) s m where "get_or_create t (sp_Stream p) sm = Some s"
      "m = publication_message pd (sm_retention sm) (stm_MessageCount s + 1) p"
      "ds = map (\<lambda>c. (c, stm_Name s, m)) (filter (\<lambda>c. c \<in> receivers glob m (subscribers (sp_Stream p) sm)) ord)"
      "sm' = sm\<lparr>streams := (streams sm)(sp_Stream p \<mapsto>
         (append_message t m s)\<lparr>stm_Subscribers := charge_all glob m (subscribers (sp_Stream p) sm)\<rparr>)\<rparr>"
proof (cases "get_or_create t (sp_Stream p) sm")
  case None
  then show ?thesis using full assms by (simp add: processPublication_def)
next
  case (Some s)
  have S: "stm_Subscribers s = subscribers (sp_Stream p) sm" using get_or_create_cases [OF Some] by simp
  let ?m = "publication_message pd (sm_retention sm) (stm_MessageCount s + 1) p"
  show ?thesis
    using stored [OF Some, of ?m] assms S deliverToSubscribers_eq [of ord "append_message t ?m s" glob ?m]
    by (simp add: processPublication_def Some Let_def)
qed

section \<open>Lemmas: the invariant\<close>

definition stream_inv :: "bytes \<Rightarrow> Stream \<Rightarrow> bool" where
  "stream_inv n s \<longleftrightarrow> stm_Name s = n \<and> length (stm_Messages s) \<le> MaxStreamBacklog \<and>
     (\<forall>c sub. stm_Subscribers s c = Some sub \<longrightarrow> ss_ClientID sub = c \<and> 0 \<le> ss_Credit sub \<and> ss_Credit sub \<le> DefaultCreditWindow)"

definition streams_inv :: "StreamManager \<Rightarrow> bool" where
  "streams_inv sm \<longleftrightarrow> (\<forall>n s. streams sm n = Some s \<longrightarrow> stream_inv n s) \<and>
     finite (dom (streams sm)) \<and> int (card (dom (streams sm))) \<le> max 0 (maxStreams sm) \<and>
     length (publications sm) \<le> 10000"

lemma get_or_create_inv:
  assumes "streams_inv sm" "get_or_create t n sm = Some s"
  shows "stream_inv n s"
  using assms by (auto simp: get_or_create_def streams_inv_def stream_inv_def new_stream_def split: option.splits if_splits)

lemma streams_inv_put:
  assumes "streams_inv sm" "get_or_create t n sm = Some s" "stream_inv n s'"
  shows "streams_inv (sm\<lparr>streams := (streams sm)(n \<mapsto> s')\<rparr>)"
proof -
  have "card (insert n (dom (streams sm))) \<le> max 0 (nat (maxStreams sm))"
    using assms(1) get_or_create_cases [OF assms(2)]
    by (cases "n \<in> dom (streams sm)") (auto simp: streams_inv_def card_insert_if insert_absorb)
  then show ?thesis using assms(1,3) by (auto simp: streams_inv_def)
qed

lemma streams_inv_shrink:
  assumes "streams_inv sm" "\<And>n s'. f n = Some s' \<Longrightarrow> streams sm n \<noteq> None \<and> stream_inv n s'"
  shows "streams_inv (sm\<lparr>streams := f\<rparr>)"
proof -
  have sub: "dom f \<subseteq> dom (streams sm)" using assms(2) by blast
  then have "finite (dom f)" "card (dom f) \<le> card (dom (streams sm))"
    using assms(1) by (auto simp: streams_inv_def finite_subset card_mono)
  then show ?thesis using assms by (auto simp: streams_inv_def)
qed

lemma charge_all_Some: "charge_all glob m S c = Some sub \<longleftrightarrow> (\<exists>sub0. S c = Some sub0 \<and> sub = charge glob m sub0)"
  by (auto simp: charge_all_def)

lemma charge_frame:
  "ss_ClientID (charge glob m sub) = ss_ClientID sub"
  "0 \<le> ss_Credit sub \<Longrightarrow> 0 \<le> ss_Credit (charge glob m sub)" "ss_Credit (charge glob m sub) \<le> ss_Credit sub"
  by (auto simp: charge_def receives_def)

lemma publish_inv:
  assumes "streams_inv sm" "processPublication glob pd t ord p sm = (ds, sm')" "visits ord (subscribers (sp_Stream p) sm)"
  shows "streams_inv sm'"
  using assms(2,3)
proof (cases rule: processPublication_cases)
  case full
  then show ?thesis using assms by simp
next
  case (stored s m)
  have s: "stream_inv (sp_Stream p) s" by (rule get_or_create_inv [OF assms(1) stored(1)])
  have "length (stm_Messages (append_message t m s)) \<le> MaxStreamBacklog"
    using s by (auto simp: append_message_def stream_inv_def Let_def)
  then have "stream_inv (sp_Stream p) ((append_message t m s)\<lparr>stm_Subscribers := charge_all glob m (subscribers (sp_Stream p) sm)\<rparr>)"
    using s get_or_create_cases [OF stored(1)]
    by (auto simp: stream_inv_def charge_all_Some charge_frame intro: order_trans [OF charge_frame(3)])
  then show ?thesis unfolding stored(4) by (rule streams_inv_put [OF assms(1) stored(1)])
qed

lemma drop_subscriber_Some:
  "drop_subscriber t c s = Some s' \<Longrightarrow> s' = s\<lparr>stm_Subscribers := (stm_Subscribers s)(c := None)\<rparr>"
  by (auto simp: drop_subscriber_def Let_def split: if_splits)

lemma drop_subscriber_inv: "stream_inv n s \<Longrightarrow> drop_subscriber t c s = Some s' \<Longrightarrow> stream_inv n s'"
  by (auto simp: stream_inv_def dest!: drop_subscriber_Some split: if_splits)

definition stored_bytes :: "StreamMessage list \<Rightarrow> nat" where
  "stored_bytes ms = sum_list (map (\<lambda>m. length (sg_Body m)) ms)"

lemma expire_stream_eq:
  "expire_stream t s = s\<lparr>stm_Messages := filter (\<lambda>m. \<not> message_expired t m) (stm_Messages s),
     stm_BytesStored := stm_BytesStored s - of_nat (stored_bytes (filter (message_expired t) (stm_Messages s)))\<rparr>"
proof -
  have "foldl (\<lambda>s m. if message_expired t m then s\<lparr>stm_BytesStored := stm_BytesStored s - of_nat (length (sg_Body m))\<rparr>
        else s\<lparr>stm_Messages := stm_Messages s @ [m]\<rparr>) s0 ms =
      s0\<lparr>stm_Messages := stm_Messages s0 @ filter (\<lambda>m. \<not> message_expired t m) ms,
        stm_BytesStored := stm_BytesStored s0 - of_nat (stored_bytes (filter (message_expired t) ms))\<rparr>" for s0 :: Stream and ms
    by (induction ms arbitrary: s0) (simp_all add: stored_bytes_def)
  then show ?thesis by (simp add: expire_stream_def)
qed

lemma cleanup_Some:
  "streams (stream_cleanup t sm) n = Some s' \<Longrightarrow> \<exists>s. streams sm n = Some s \<and> s' = expire_stream t s"
  by (auto simp: stream_cleanup_def Let_def split: option.splits if_splits)

lemma stream_cleanup_inv:
  assumes "streams_inv sm"
  shows "streams_inv (stream_cleanup t sm)"
proof -
  have inv: "stream_inv n s \<Longrightarrow> stream_inv n (expire_stream t s)" for n s
    by (auto simp: stream_inv_def expire_stream_eq intro: le_trans [OF length_filter_le])
  have "streams_inv (sm\<lparr>streams := streams (stream_cleanup t sm)\<rparr>)"
    using assms inv by (intro streams_inv_shrink) (auto simp: streams_inv_def dest!: cleanup_Some)
  then show ?thesis by (simp add: stream_cleanup_def)
qed

lemma handleSubscribe_cases:
  assumes "handleSubscribe t q sm = (None, sm')"
  obtains s where "get_or_create t (su_Stream q) sm = Some s"
    "sm' = sm\<lparr>streams := (streams sm)(su_Stream q \<mapsto> s\<lparr>stm_Subscribers := (subscribers (su_Stream q) sm)(su_ClientID q \<mapsto>
       \<lparr>ss_ClientID = su_ClientID q, ss_Pattern = su_Pattern q, ss_Credit = DefaultCreditWindow,
        ss_Attributes = su_Attributes q, ss_CreatedAt = t, ss_LastRead = stm_MessageCount s\<rparr>)\<rparr>)\<rparr>"
  using assms get_or_create_cases [of t "su_Stream q" sm]
  by (auto simp: handleSubscribe_def Let_def split: option.splits)

lemma subscribe_inv:
  assumes "streams_inv sm" "handleSubscribe t q sm = (None, sm')"
  shows "streams_inv sm'"
  using assms(2)
proof (cases rule: handleSubscribe_cases)
  case (1 s)
  have "stream_inv (su_Stream q) s" by (rule get_or_create_inv [OF assms(1) 1(1)])
  then show ?thesis
    unfolding 1(2) using get_or_create_cases [OF 1(1)]
    by (intro streams_inv_put [OF assms(1) 1(1)]) (auto simp: stream_inv_def DefaultCreditWindow_def)
qed

text \<open>A command other than an accepted subscription keeps the manager, or drops subscribers.\<close>

lemma command_cases:
  assumes "stream_handleCommand t c sm = (r, sm')" "\<not> (\<exists>q. c = CmdSubscribe q \<and> r = Some RNil)"
  obtains (same) "sm' = sm"
  | (drop) f where "sm' = sm\<lparr>streams := f\<rparr>" "\<And>n s'. f n = Some s' \<Longrightarrow> (\<exists>s. streams sm n = Some s \<and>
      (s' = s \<or> (\<exists>cl. drop_subscriber t cl s = Some s')))"
proof (cases c)
  case (CmdSubscribe q)
  then have "sm' = sm"
    using assms by (auto simp: stream_handleCommand_def handleSubscribe_def Let_def split: option.splits prod.splits)
  then show ?thesis by (rule same)
next
  case (CmdUnsubscribe cl n)
  show ?thesis
  proof (cases "streams sm n")
    case None
    then show ?thesis using same assms CmdUnsubscribe by (simp add: stream_handleCommand_def handleUnsubscribe_def)
  next
    case (Some s)
    then have sm': "sm' = sm\<lparr>streams := (streams sm)(n := drop_subscriber t cl s)\<rparr>"
      using assms CmdUnsubscribe by (simp add: stream_handleCommand_def handleUnsubscribe_def)
    show ?thesis by (rule drop [OF sm']) (use Some in \<open>auto split: if_splits\<close>)
  qed
next
  case (CmdRemoveClient cl)
  then have sm': "sm' = sm\<lparr>streams := (\<lambda>n. Option.bind (streams sm n) (drop_subscriber t cl))\<rparr>"
    using assms by (simp add: stream_handleCommand_def stream_RemoveClient_def)
  show ?thesis by (rule drop [OF sm']) (auto simp: bind_eq_Some_conv)
qed (use assms same in \<open>auto simp: stream_handleCommand_def split: option.splits\<close>)

lemma command_inv:
  assumes "streams_inv sm" "stream_handleCommand t c sm = (r, sm')" "\<not> (\<exists>q. c = CmdSubscribe q \<and> r = Some RNil)"
  shows "streams_inv sm'"
  using assms(2,3)
proof (cases rule: command_cases)
  case (drop f)
  have "streams sm n \<noteq> None \<and> stream_inv n s'" if "f n = Some s'" for n s'
  proof -
    obtain s where s: "streams sm n = Some s" "s' = s \<or> (\<exists>cl. drop_subscriber t cl s = Some s')"
      using drop(2) [OF \<open>f n = Some s'\<close>] by blast
    then have "stream_inv n s" using assms(1) by (simp add: streams_inv_def)
    then show ?thesis using s drop_subscriber_inv by blast
  qed
  then show ?thesis unfolding drop(1) by (rule streams_inv_shrink [OF assms(1)])
qed (use assms in simp)

lemma subscribe_command: "stream_handleCommand t (CmdSubscribe q) sm = (Some RNil, sm') \<Longrightarrow> handleSubscribe t q sm = (None, sm')"
  by (auto simp: stream_handleCommand_def split: prod.splits option.splits)

lemma subscribers_publications [simp]: "subscribers n (sm\<lparr>publications := ps\<rparr>) = subscribers n sm"
  by (simp add: subscribers_def)

lemma WriteMessage_Ok:
  "WriteMessage t pick p sm = (Ok (), sm') \<Longrightarrow> sm' = sm\<lparr>publications := publications sm @ [p\<lparr>sp_Timestamp := t\<rparr>]\<rparr> \<and>
     length (publications sm) < 10000"
  by (auto simp: WriteMessage_def Let_def split: if_splits)

lemma stream_run_inv: "stream_run glob pd pubs out subs sm \<Longrightarrow> streams_inv sm"
proof (induction rule: stream_run.induct)
  case (new n r)
  then show ?case by (simp add: streams_inv_def NewStreamManager_def)
next
  case (accept pubs out subs sm t pick p sm')
  then show ?case using WriteMessage_Ok [OF accept.hyps(2)] by (simp add: streams_inv_def)
next
  case (publish pubs out subs sm p ps ord t ds sm')
  have "streams_inv (sm\<lparr>publications := ps\<rparr>)" using publish by (simp add: streams_inv_def)
  then show ?case using publish_inv publish by simp
next
  case (subscribe pubs out subs sm t q sm')
  then show ?case using subscribe_inv subscribe_command by blast
next
  case (command pubs out subs sm t c r sm')
  then show ?case using command_inv by blast
next
  case (clean pubs out subs sm t)
  then show ?case by (simp add: stream_cleanup_inv)
next
  case (stop pubs out subs sm)
  then show ?case by (simp add: streams_inv_def Stream_Stop_def)
qed

section \<open>Lemmas: order and credit\<close>

text \<open>What a subscriber sees of a message, and of a publication; identifier and time to live aside.\<close>

definition stream_content :: "StreamMessage \<Rightarrow> StreamMessage" where
  "stream_content m = m\<lparr>sg_ID := 0, sg_TTL := 0\<rparr>"

definition pub_content :: "StreamPub \<Rightarrow> StreamMessage" where
  "pub_content p = \<lparr>sg_ID = 0, sg_Subject = sp_Subject p, sg_Sender = sp_Sender p, sg_Attributes = sp_Attributes p,
     sg_Body = sp_Body p, sg_Timestamp = sp_Timestamp p, sg_TTL = 0, sg_Priority = 0\<rparr>"

definition published :: "bytes \<Rightarrow> StreamPub list \<Rightarrow> StreamMessage list" where
  "published n pubs = map pub_content (filter (\<lambda>p. sp_Stream p = n) pubs)"

definition got :: "bytes \<Rightarrow> bytes \<Rightarrow> stream_delivery list \<Rightarrow> StreamMessage list" where
  "got c n out = map (\<lambda>(c', n', m). stream_content m) (filter (\<lambda>(c', n', m). c' = c \<and> n' = n) out)"

definition credit :: "bytes \<Rightarrow> bytes \<Rightarrow> StreamManager \<Rightarrow> int" where
  "credit c n sm = (case subscribers n sm c of None \<Rightarrow> 0 | Some sub \<Rightarrow> ss_Credit sub)"

lemma got_append: "got c n (xs @ ys) = got c n xs @ got c n ys"
  by (simp add: got_def)

lemma published_append: "published n (xs @ ys) = published n xs @ published n ys"
  by (simp add: published_def)

lemma publication_message_content [simp]:
  "stream_content (publication_message pd r i p) = pub_content p" "sg_ID (publication_message pd r i p) = i"
  "sg_Subject (publication_message pd r i p) = sp_Subject p"
  by (simp_all add: stream_content_def publication_message_def pub_content_def Let_def split: option.splits)

lemma filter_eq_distinct: "distinct xs \<Longrightarrow> filter (\<lambda>x. x = c) xs = (if c \<in> set xs then [c] else [])"
  by (induction xs) auto

lemma publish_effect:
  assumes inv: "streams_inv sm" and p: "processPublication glob pd t ord p sm = (ds, sm')"
    and v: "visits ord (subscribers (sp_Stream p) sm)"
  shows "got c n ds = [] \<and> credit c n sm' = credit c n sm \<or>
     n = sp_Stream p \<and> got c n ds = [pub_content p] \<and> credit c n sm' = credit c n sm - 1"
  using p v
proof (cases rule: processPublication_cases)
  case full
  then show ?thesis by (simp add: got_def)
next
  case (stored s m)
  let ?S = "subscribers (sp_Stream p) sm" and ?R = "receivers glob m (subscribers (sp_Stream p) sm)"
  have name: "stm_Name s = sp_Stream p"
    using get_or_create_inv [OF inv stored(1)] by (simp add: stream_inv_def)
  have content: "stream_content m = pub_content p" using stored(2) by simp
  have filt: "filter (\<lambda>x. x = c) (filter (\<lambda>x. x \<in> ?R) ord) = (if c \<in> ?R then [c] else [])"
    using v filter_eq_distinct [of "filter (\<lambda>x. x \<in> ?R) ord" c] by (auto simp: visits_def receivers_def dom_def)
  have S': "subscribers n sm' c = (if n = sp_Stream p then map_option (charge glob m) (?S c) else subscribers n sm c)"
    by (simp add: stored(4) subscribers_def charge_all_def)
  show ?thesis
  proof (cases "n = sp_Stream p")
    case True
    have "got c n ds = map (\<lambda>_. pub_content p) (filter (\<lambda>x. x = c) (filter (\<lambda>x. x \<in> ?R) ord))"
      by (simp add: got_def stored(3) name content True filter_map comp_def del: filter_filter)
    then have "got c n ds = (if c \<in> ?R then [pub_content p] else [])" unfolding filt by simp
    moreover have "credit c n sm' = credit c n sm - (if c \<in> ?R then 1 else 0)"
      using S' True by (auto simp: credit_def receivers_def charge_def split: option.splits)
    ultimately show ?thesis using True by simp
  next
    case False
    then have "got c n ds = []" by (simp add: got_def stored(3) name filter_empty_conv)
    then show ?thesis using S' False by (simp add: credit_def)
  qed
qed

lemma credit_nonneg: "streams_inv sm \<Longrightarrow> 0 \<le> credit c n sm \<and> credit c n sm \<le> DefaultCreditWindow"
  by (auto simp: credit_def subscribers_def streams_inv_def stream_inv_def DefaultCreditWindow_def split: option.splits)

lemma credit_mono:
  assumes "streams_inv sm" "\<And>s'. streams sm' n = Some s' \<Longrightarrow>
      \<exists>s. streams sm n = Some s \<and> (stm_Subscribers s' c = None \<or> stm_Subscribers s' c = stm_Subscribers s c)"
  shows "credit c n sm' \<le> credit c n sm"
proof (cases "streams sm' n")
  case None
  then show ?thesis using credit_nonneg [OF assms(1)] by (simp add: credit_def subscribers_def)
next
  case (Some s')
  then obtain s where "streams sm n = Some s" "stm_Subscribers s' c = None \<or> stm_Subscribers s' c = stm_Subscribers s c"
    using assms(2) by blast
  then show ?thesis using Some credit_nonneg [OF assms(1), of c n] by (auto simp: credit_def subscribers_def)
qed

lemma command_credit:
  assumes "streams_inv sm" "stream_handleCommand t c sm = (r, sm')" "\<not> (\<exists>q. c = CmdSubscribe q \<and> r = Some RNil)"
  shows "credit cl n sm' \<le> credit cl n sm"
  using assms(2,3)
proof (cases rule: command_cases)
  case (drop f)
  show ?thesis
    unfolding drop(1)
  proof (rule credit_mono [OF assms(1)])
    fix s' assume "streams (sm\<lparr>streams := f\<rparr>) n = Some s'"
    then obtain s where s: "streams sm n = Some s" "s' = s \<or> (\<exists>cl. drop_subscriber t cl s = Some s')"
      using drop(2) [of n s'] by auto
    then have "stm_Subscribers s' cl = None \<or> stm_Subscribers s' cl = stm_Subscribers s cl"
      by (auto dest!: drop_subscriber_Some)
    then show "\<exists>s. streams sm n = Some s \<and> (stm_Subscribers s' cl = None \<or> stm_Subscribers s' cl = stm_Subscribers s cl)"
      using s by blast
  qed
qed simp

lemma subscribe_credit:
  assumes "handleSubscribe t q sm = (None, sm')"
  shows "credit c n sm' = (if c = su_ClientID q \<and> n = su_Stream q then DefaultCreditWindow else credit c n sm)"
  using assms by (cases rule: handleSubscribe_cases) (simp add: credit_def subscribers_def)

lemma cleanup_credit: "streams_inv sm \<Longrightarrow> credit c n (stream_cleanup t sm) \<le> credit c n sm"
  by (rule credit_mono) (auto dest!: cleanup_Some simp: expire_stream_eq)

lemma publications_frame:
  "processPublication glob pd t ord p sm = (ds, sm') \<Longrightarrow> publications sm' = publications sm"
  "stream_handleCommand t c sm = (r, sm') \<Longrightarrow> publications sm' = publications sm"
  by (auto simp: processPublication_def stream_handleCommand_def handleSubscribe_def handleUnsubscribe_def
      stream_RemoveClient_def Let_def split: option.splits prod.splits streamCmd.splits)

definition accounted :: "bytes \<Rightarrow> bytes \<Rightarrow> StreamPub list \<Rightarrow> stream_delivery list \<Rightarrow> (bytes \<times> bytes) list \<Rightarrow>
    StreamManager \<Rightarrow> bool" where
  "accounted c n pubs out subs sm \<longleftrightarrow>
     subseq (got c n out @ published n (publications sm)) (published n pubs) \<and>
     int (length (got c n out)) + credit c n sm \<le> DefaultCreditWindow * int (count_list subs (c, n))"

lemma accounted_keep:
  assumes "accounted c n pubs out subs sm" "publications sm' = publications sm" "credit c n sm' \<le> credit c n sm"
  shows "accounted c n pubs out subs sm'"
  using assms by (auto simp: accounted_def)

lemma accounted_publish:
  assumes inv: "streams_inv sm" and acc: "accounted c n pubs out subs sm" and q: "publications sm = p # ps"
    and v: "visits ord (subscribers (sp_Stream p) sm)"
    and p: "processPublication glob pd t ord p (sm\<lparr>publications := ps\<rparr>) = (ds, sm')"
  shows "accounted c n pubs (out @ ds) subs sm'"
proof -
  have ps: "publications sm' = ps" using publications_frame(1) [OF p] by simp
  have credit: "credit c n (sm\<lparr>publications := ps\<rparr>) = credit c n sm" by (simp add: credit_def)
  have "streams_inv (sm\<lparr>publications := ps\<rparr>)" using inv q by (simp add: streams_inv_def)
  from publish_effect [OF this p, of c n] v credit
  consider "got c n ds = []" "credit c n sm' = credit c n sm"
    | "n = sp_Stream p" "got c n ds = [pub_content p]" "credit c n sm' = credit c n sm - 1"
    by auto
  then show ?thesis
  proof cases
    case 1
    have "subseq (published n ps) (published n (publications sm))" by (auto simp: published_def q)
    then show ?thesis using acc 1 subseq_keep ps by (auto simp: accounted_def got_append)
  next
    case 2
    then have "published n (publications sm) = got c n ds @ published n ps" by (simp add: published_def q)
    then show ?thesis using acc 2 ps by (simp add: accounted_def got_append)
  qed
qed

lemma stream_run_accounted: "stream_run glob pd pubs out subs sm \<Longrightarrow> accounted c n pubs out subs sm"
proof (induction rule: stream_run.induct)
  case (new k r)
  then show ?case by (simp add: accounted_def got_def published_def credit_def subscribers_def NewStreamManager_def)
next
  case (accept pubs out subs sm t pick p sm')
  have sm': "publications sm' = publications sm @ [p\<lparr>sp_Timestamp := t\<rparr>]" "credit c n sm' = credit c n sm"
    using WriteMessage_Ok [OF accept.hyps(2)] by (simp_all add: credit_def)
  have "subseq (got c n out @ published n (publications sm)) (published n pubs)" using accept.IH by (simp add: accounted_def)
  from subseq_append_left [OF this, of "published n [p\<lparr>sp_Timestamp := t\<rparr>]"] show ?case
    using accept.IH sm' by (simp add: accounted_def published_append)
next
  case (publish pubs out subs sm p ps ord t ds sm')
  then show ?case using accounted_publish stream_run_inv by blast
next
  case (subscribe pubs out subs sm t q sm')
  then have "accounted c n pubs out subs sm" "streams_inv sm" by (simp_all add: stream_run_inv)
  moreover have "credit c n sm' = (if c = su_ClientID q \<and> n = su_Stream q then DefaultCreditWindow else credit c n sm)"
    by (rule subscribe_credit [OF subscribe_command [OF subscribe.hyps(2)]])
  moreover have "0 \<le> credit c n sm" using credit_nonneg calculation(2) by blast
  ultimately show ?case
    using publications_frame(2) [OF subscribe.hyps(2)] by (auto simp: accounted_def DefaultCreditWindow_def)
next
  case (command pubs out subs sm t cmd r sm')
  then show ?case using accounted_keep command_credit publications_frame(2) stream_run_inv by metis
next
  case (clean pubs out subs sm t)
  have "publications (stream_cleanup t sm) = publications sm" by (simp add: stream_cleanup_def)
  then show ?case using accounted_keep cleanup_credit stream_run_inv clean by metis
next
  case (stop pubs out subs sm)
  then show ?case by (simp add: accounted_def Stream_Stop_def credit_def subscribers_def)
qed

section \<open>Theorems\<close>

text \<open>
  Streams deliver in order and within credit. In every interleaving of publishing,
  delivering, subscribing and unsubscribing clients and clean-up, the messages delivered to a
  client from a stream, followed by the publications for that stream still waiting, are
  publications accepted for it, in the order in which they were accepted and each at most once.
  The client received at most 1000 messages for every time it subscribed to the stream, less the
  credit it has left, which is between 0 and 1000. At most \<^verbatim>\<open>maxStreams\<close> streams exist and each
  keeps at most 100000 messages.
\<close>

theorem stream_delivers_in_order:
  assumes "stream_run glob pd pubs out subs sm"
  shows "subseq (got c n out @ published n (publications sm)) (published n pubs) \<and>
    int (length (got c n out)) + credit c n sm \<le> 1000 * int (count_list subs (c, n)) \<and>
    0 \<le> credit c n sm \<and> credit c n sm \<le> 1000 \<and>
    int (card (dom (streams sm))) \<le> max 0 (maxStreams sm) \<and>
    (\<forall>s. streams sm n = Some s \<longrightarrow> stm_Name s = n \<and> length (stm_Messages s) \<le> 100000)"
proof -
  have inv: "streams_inv sm" by (rule stream_run_inv [OF assms])
  then have "int (card (dom (streams sm))) \<le> max 0 (maxStreams sm)"
    "\<forall>s. streams sm n = Some s \<longrightarrow> stm_Name s = n \<and> length (stm_Messages s) \<le> 100000"
    by (auto simp: streams_inv_def stream_inv_def MaxStreamBacklog_def)
  then show ?thesis
    using stream_run_accounted [OF assms, of c n] credit_nonneg [OF inv, of c n]
    by (simp add: accounted_def DefaultCreditWindow_def)
qed

definition sample_request :: subscribeRequest where
  "sample_request = \<lparr>su_ClientID = [7], su_Stream = [1], su_Pattern = str ''*'', su_Attributes = Map.empty\<rparr>"

definition sample_pub :: StreamPub where
  "sample_pub = \<lparr>sp_Stream = [1], sp_Subject = [2], sp_Sender = [3], sp_Body = [4, 5], sp_Attributes = Map.empty,
     sp_Timestamp = 6\<rparr>"

definition sample_subscribed :: StreamManager where
  "sample_subscribed = snd (stream_handleCommand 5 (CmdSubscribe sample_request) (NewStreamManager 10 0))"

lemma sample_subscribed_state:
  "stream_handleCommand 5 (CmdSubscribe sample_request) (NewStreamManager 10 0) = (Some RNil, sample_subscribed)"
  "subscribers [1] sample_subscribed = [[7] \<mapsto> \<lparr>ss_ClientID = [7], ss_Pattern = str ''*'', ss_Credit = 1000,
     ss_Attributes = Map.empty, ss_CreatedAt = 5, ss_LastRead = 0\<rparr>]"
  "publications sample_subscribed = []" "\<not> sm_cancelled sample_subscribed"
  by (simp_all add: sample_subscribed_def stream_handleCommand_def handleSubscribe_def get_or_create_def new_stream_def
      NewStreamManager_def sample_request_def subscribers_def DefaultCreditWindow_def)

lemma sample_published_run:
  "stream_run (\<lambda>_ _. None) (\<lambda>_. None) [sample_pub] [] [([7], [1])] (sample_subscribed\<lparr>publications := [sample_pub]\<rparr>)"
proof -
  have "stream_run (\<lambda>_ _. None) (\<lambda>_. None) [] [] ([] @ [(su_ClientID sample_request, su_Stream sample_request)]) sample_subscribed"
    by (rule stream_run.subscribe [OF stream_run.new sample_subscribed_state(1)])
  then have run: "stream_run (\<lambda>_ _. None) (\<lambda>_. None) [] [] [([7], [1])] sample_subscribed"
    by (simp add: sample_request_def)
  have "WriteMessage 6 True sample_pub sample_subscribed = (Ok (), sample_subscribed\<lparr>publications := [sample_pub]\<rparr>)"
    using sample_subscribed_state(3,4)
    by (simp add: WriteMessage_def sample_pub_def MaxStreamName_def MaxMessageSize_def)
  from stream_run.accept [OF run this] show ?thesis by (simp add: sample_pub_def)
qed

definition sample_out :: "stream_delivery list" where
  "sample_out = [([7], [1], publication_message (\<lambda>_. None) 0 1 sample_pub)]"

definition sample_sm :: StreamManager where
  "sample_sm = snd (processPublication (\<lambda>_ _. None) (\<lambda>_. None) 6 [[7]] sample_pub sample_subscribed)"

lemma sample_publish:
  "processPublication (\<lambda>_ _. None) (\<lambda>_. None) 6 [[7]] sample_pub sample_subscribed = (sample_out, sample_sm)"
proof -
  have "fst (processPublication (\<lambda>_ _. None) (\<lambda>_. None) 6 [[7]] sample_pub sample_subscribed) = sample_out"
    by (simp add: processPublication_def get_or_create_def sample_subscribed_def stream_handleCommand_def
        handleSubscribe_def NewStreamManager_def sample_request_def new_stream_def sample_pub_def append_message_def
        deliverToSubscribers_def deliver_one_def matchesPattern_def publication_message_def DefaultCreditWindow_def
        MaxStreamBacklog_def sample_out_def Let_def)
  then show ?thesis by (simp add: sample_sm_def prod_eq_iff)
qed

lemma sample_out_run: "stream_run (\<lambda>_ _. None) (\<lambda>_. None) [sample_pub] sample_out [([7], [1])] sample_sm"
proof -
  have "sample_subscribed\<lparr>publications := [sample_pub], publications := []\<rparr> = sample_subscribed"
    using sample_subscribed_state(3) by (metis StreamManager.surjective StreamManager.update_convs(4) StreamManager.select_convs(4))
  then have "stream_run (\<lambda>_ _. None) (\<lambda>_. None) [sample_pub] ([] @ sample_out) [([7], [1])] sample_sm"
    using sample_publish sample_subscribed_state(2)
    by (intro stream_run.publish [OF sample_published_run, of sample_pub "[]" "[[7]]" 6])
      (simp_all add: visits_def sample_pub_def)
  then show ?thesis by simp
qed

theorem stream_delivers_in_order_witness:
  "got [7] [1] sample_out = [pub_content sample_pub] \<and> credit [7] [1] sample_sm \<le> 999"
proof -
  have "got [7] [1] sample_out = [pub_content sample_pub]" by (simp add: got_def sample_out_def)
  then show ?thesis using stream_delivers_in_order [OF sample_out_run, of "[7]" "[1]"] by simp
qed

text \<open>
  A publication reaches exactly its subscribers. In a reachable state, whatever the order in
  which the subscribers are visited, the next publication is delivered once to every client that
  subscribed to its stream with a matching pattern and has credit, and to nobody else; exactly
  these clients pay one credit and have the new message as their last one read. The message
  carries the next number of the stream and is stored behind the others. A publication for a new
  stream beyond the limit is dropped.
\<close>

theorem publication_reaches_subscribers:
  assumes "stream_run glob pd pubs out subs sm" "publications sm = p # ps" "visits ord (subscribers (sp_Stream p) sm)"
    and "processPublication glob pd t ord p (sm\<lparr>publications := ps\<rparr>) = (ds, sm')"
  shows "(if streams sm (sp_Stream p) = None \<and> maxStreams sm \<le> int (card (dom (streams sm)))
     then ds = [] \<and> sm' = sm\<lparr>publications := ps\<rparr>
     else \<exists>m s'. streams sm' (sp_Stream p) = Some s' \<and> last (stm_Messages s') = m \<and> stream_content m = pub_content p \<and>
       sg_ID m = (case streams sm (sp_Stream p) of None \<Rightarrow> 0 | Some s \<Rightarrow> stm_MessageCount s) + 1 \<and>
       distinct ds \<and> set ds = {(c, sp_Stream p, m) | c. \<exists>sub. subscribers (sp_Stream p) sm c = Some sub \<and>
         matchesPattern glob (sp_Subject p) (ss_Pattern sub) \<and> 0 < ss_Credit sub} \<and>
       (\<forall>c. stm_Subscribers s' c = map_option (\<lambda>sub. if (c, sp_Stream p, m) \<in> set ds
         then sub\<lparr>ss_Credit := ss_Credit sub - 1, ss_LastRead := sg_ID m\<rparr> else sub) (subscribers (sp_Stream p) sm c)))"
proof -
  have inv: "streams_inv (sm\<lparr>publications := ps\<rparr>)"
    using stream_run_inv [OF assms(1)] assms(2) by (simp add: streams_inv_def)
  have v: "visits ord (subscribers (sp_Stream p) (sm\<lparr>publications := ps\<rparr>))" using assms(3) by simp
  show ?thesis using assms(4) v
  proof (cases rule: processPublication_cases)
    case full
    then show ?thesis by (auto simp: get_or_create_def split: option.splits if_splits)
  next
    case (stored s m)
    let ?S = "subscribers (sp_Stream p) sm" and ?s' = "(append_message t m s)\<lparr>stm_Subscribers := charge_all glob m (subscribers (sp_Stream p) sm)\<rparr>"
    have name: "stm_Name s = sp_Stream p"
      using get_or_create_inv [OF inv stored(1)] by (simp add: stream_inv_def)
    have no: "\<not> (streams sm (sp_Stream p) = None \<and> maxStreams sm \<le> int (card (dom (streams sm))))"
      using stored(1) by (auto simp: get_or_create_def split: option.splits if_splits)
    have ID: "sg_ID m = (case streams sm (sp_Stream p) of None \<Rightarrow> 0 | Some s \<Rightarrow> stm_MessageCount s) + 1"
      using stored(2) get_or_create_cases [OF stored(1)] by (auto simp: new_stream_def)
    have ds: "set ds = {(c, sp_Stream p, m) | c. \<exists>sub. ?S c = Some sub \<and>
         matchesPattern glob (sp_Subject p) (ss_Pattern sub) \<and> 0 < ss_Credit sub}"
      using assms(3) stored(2) by (auto simp: stored(3) name visits_def receivers_def receives_def)
    have subj: "sg_Subject m = sp_Subject p" using stored(2) by simp
    have S': "\<forall>c. charge_all glob m ?S c = map_option (\<lambda>sub. if (c, sp_Stream p, m) \<in> set ds
         then sub\<lparr>ss_Credit := ss_Credit sub - 1, ss_LastRead := sg_ID m\<rparr> else sub) (?S c)"
    proof
      fix c
      show "charge_all glob m ?S c = map_option (\<lambda>sub. if (c, sp_Stream p, m) \<in> set ds
         then sub\<lparr>ss_Credit := ss_Credit sub - 1, ss_LastRead := sg_ID m\<rparr> else sub) (?S c)"
        by (cases "?S c") (simp_all add: charge_all_def charge_def receives_def ds subj)
    qed
    have "distinct ds" using assms(3) by (simp add: stored(3) visits_def distinct_map inj_on_def)
    moreover have "last (stm_Messages ?s') = m" 
      by (cases "stm_Messages s") (simp_all add: append_message_def Let_def MaxStreamBacklog_def)
    moreover have "stream_content m = pub_content p" using stored(2) by simp
    moreover have "streams sm' (sp_Stream p) = Some ?s'" using stored(4) by simp
    ultimately show ?thesis unfolding if_not_P [OF no] using ID ds S' by (intro exI [of _ m] exI [of _ ?s']) simp
  qed
qed

theorem publication_reaches_subscribers_witness:
  "\<exists>s'. streams sample_sm [1] = Some s' \<and> set sample_out = {([7], [1], last (stm_Messages s'))} \<and>
     map_option ss_Credit (stm_Subscribers s' [7]) = Some 999"
proof -
  let ?sm = "sample_subscribed\<lparr>publications := [sample_pub]\<rparr>"
  have eq: "?sm\<lparr>publications := []\<rparr> = sample_subscribed"
    using sample_subscribed_state(3) by (metis StreamManager.surjective StreamManager.update_convs(4) StreamManager.select_convs(4))
  have S: "sp_Stream sample_pub = [1]" "streams sample_subscribed [1] \<noteq> None"
    using fun_cong [OF sample_subscribed_state(2), of "[7]"]
    by (auto simp: sample_pub_def subscribers_def split: option.splits)
  obtain m s' where s': "streams sample_sm [1] = Some s'" "last (stm_Messages s') = m"
    and ds: "set sample_out = {(c, [1], m) | c. \<exists>sub. subscribers [1] sample_subscribed c = Some sub \<and>
         matchesPattern (\<lambda>_ _. None) (sp_Subject sample_pub) (ss_Pattern sub) \<and> 0 < ss_Credit sub}"
    and S': "\<forall>c. stm_Subscribers s' c = map_option (\<lambda>sub. if (c, [1], m) \<in> set sample_out
         then sub\<lparr>ss_Credit := ss_Credit sub - 1, ss_LastRead := sg_ID m\<rparr> else sub) (subscribers [1] sample_subscribed c)"
    using publication_reaches_subscribers [OF sample_published_run, of sample_pub "[]" "[[7]]" 6 sample_out sample_sm]
      sample_publish sample_subscribed_state(2) S
    by (auto simp: eq visits_def)
  have out: "([7], [1], m) \<in> set sample_out" unfolding ds using sample_subscribed_state(2) by (simp add: matchesPattern_def)
  then have "set sample_out = {([7], [1], m)}" by (simp add: sample_out_def)
  then show ?thesis using s' S' out sample_subscribed_state(2) by simp
qed

text \<open>
  \<^verbatim>\<open>RestoreCredit\<close> never succeeds: while the manager runs the call does not return, because no case
  of \<^verbatim>\<open>handleCommand\<close> answers it, and after \<^verbatim>\<open>Stop\<close> it fails or does not return either. It changes
  nothing. The other commands return as long as the manager runs.
\<close>

theorem stream_credit_not_restored:
  "snd (RestoreCredit pick served t c n k sm) = sm \<and>
   fst (RestoreCredit pick served t c n k sm) \<in> {None, Some (Err CtxDone)} \<and>
   (\<not> sm_cancelled sm \<longrightarrow> fst (RestoreCredit pick served t c n k sm) = None \<and>
      fst (Unsubscribe pick served t c n sm) = Some (Ok ()) \<and> fst (Subscribe pick served t q sm) \<noteq> None \<and>
      fst (GetStream pick served t n sm) \<noteq> None)"
  by (auto simp: RestoreCredit_def Unsubscribe_def Subscribe_def GetStream_def stream_command_def stream_call_def
      stream_handleCommand_def split: option.splits prod.splits stream_reply.splits)

text \<open>
  \<^verbatim>\<open>BytesStored\<close> drifts: a message pushed out of a full stream is not subtracted, so the counter
  stays too large by its size forever.
\<close>

theorem stream_bytes_drift:
  "length (stm_Messages s) = 100000 \<Longrightarrow>
     stm_BytesStored (append_message t m s) = stm_BytesStored s + of_nat (length (sg_Body m)) \<and>
     stored_bytes (stm_Messages (append_message t m s)) + length (sg_Body (hd (stm_Messages s))) =
       stored_bytes (stm_Messages s) + length (sg_Body m)"
  by (cases "stm_Messages s") (auto simp: append_message_def MaxStreamBacklog_def stored_bytes_def Let_def)

end
