(* ===== verification/Malamute_Service.thy ===== *)
theory Malamute_Service
  imports Malamute_Stream
begin

text \<open>
  The services of the Malamute broker (\<^verbatim>\<open>malamute/service.go\<close>, types in \<^verbatim>\<open>malamute/protocol.go\<close>):
  requests go to a worker that has credit and whose pattern matches the method, or wait in the
  queue of the service until a worker registers.

  The conventions are those of the streams: atomic steps, one reading of the clock per step, and
  deliveries (the lines the code prints) as results, here triples of service, worker and
  request. \<^verbatim>\<open>findAvailableWorker\<close> takes the first suitable worker in the order in which \<^verbatim>\<open>range\<close> visits
  the map; the orders are arguments.
\<close>

section \<open>Data\<close>

definition MaxServiceBacklog :: nat where "MaxServiceBacklog = 10000"

record ServiceWorker =
  wk_ClientID :: bytes
  wk_Pattern :: bytes
  wk_Credit :: int
  wk_Attributes :: "bytes \<rightharpoonup> bytes"
  wk_RegisteredAt :: int
  wk_LastRequest :: "int option"
  wk_RequestCount :: "64 word"

record ServiceRequest =
  sq_ID :: "64 word"
  sq_Service :: bytes
  sq_Method :: bytes
  sq_Sender :: bytes
  sq_Tracker :: bytes
  sq_Attributes :: "bytes \<rightharpoonup> bytes"
  sq_Body :: bytes
  sq_Timestamp :: int
  sq_Timeout :: int
  sq_Retries :: int

record MlmService =
  sv_Name :: bytes
  sv_Workers :: "bytes \<rightharpoonup> ServiceWorker"
  sv_Queue :: "ServiceRequest list"
  sv_Attributes :: "bytes \<rightharpoonup> bytes"
  sv_CreatedAt :: int
  sv_LastActivity :: int
  sv_RequestCount :: "64 word"
  sv_ReplyCount :: "64 word"

record ServiceReq =
  rr_Service :: bytes
  rr_Method :: bytes
  rr_Sender :: bytes
  rr_Tracker :: bytes
  rr_Body :: bytes
  rr_Attributes :: "bytes \<rightharpoonup> bytes"
  rr_Timeout :: int
  rr_Timestamp :: int

record ServiceReply =
  rp_Tracker :: bytes
  rp_Status :: int
  rp_Body :: bytes
  rp_Attributes :: "bytes \<rightharpoonup> bytes"
  rp_Timestamp :: int

record workerRequest =
  wr_Service :: bytes
  wr_ClientID :: bytes
  wr_Pattern :: bytes
  wr_Attributes :: "bytes \<rightharpoonup> bytes"

record ServiceManager =
  maxServices :: int
  serviceTimeout :: int
  services :: "bytes \<rightharpoonup> MlmService"
  sv_requests :: "ServiceReq list"
  sv_replies :: "ServiceReply list"
  sv_cancelled :: bool
  requestID :: "64 word"

type_synonym service_delivery = "bytes \<times> bytes \<times> ServiceReq"

definition NewServiceManager :: "int \<Rightarrow> int \<Rightarrow> ServiceManager" where
  "NewServiceManager n t = \<lparr>maxServices = n, serviceTimeout = t, services = Map.empty, sv_requests = [],
     sv_replies = [], sv_cancelled = False, requestID = 0\<rparr>"

datatype serviceCmd =
    CmdRegister workerRequest
  | CmdUnregister bytes bytes
  | CmdRemove bytes
  | CmdGetService bytes
  | CmdGetServices
  | CmdRestore bytes bytes int

datatype service_reply =
    SNil
  | SError go_error
  | SService MlmService
  | SServices "bytes \<rightharpoonup> MlmService"

section \<open>Operations\<close>

definition ProcessRequest ::
    "int \<Rightarrow> bool \<Rightarrow> ServiceReq \<Rightarrow> ServiceManager \<Rightarrow> unit result \<times> ServiceManager" where
  "ProcessRequest now pick r sm =
     (if length (rr_Body r) > MaxMessageSize then (Err (Errorf ''request too large''), sm)
      else
        let request = r\<lparr>rr_Timestamp := now\<rparr> in
        if length (sv_requests sm) < 10000 \<and> (\<not> sv_cancelled sm \<or> pick) then
          (Ok (), sm\<lparr>sv_requests := sv_requests sm @ [request]\<rparr>)
        else if sv_cancelled sm then (Err CtxDone, sm)
        else (Err (Errorf ''request queue full''), sm))"

definition ProcessReply ::
    "int \<Rightarrow> bool \<Rightarrow> ServiceReply \<Rightarrow> ServiceManager \<Rightarrow> unit result \<times> ServiceManager" where
  "ProcessReply now pick r sm =
     (let reply = r\<lparr>rp_Timestamp := now\<rparr> in
      if length (sv_replies sm) < 10000 \<and> (\<not> sv_cancelled sm \<or> pick) then
        (Ok (), sm\<lparr>sv_replies := sv_replies sm @ [reply]\<rparr>)
      else if sv_cancelled sm then (Err CtxDone, sm)
      else (Err (Errorf ''reply queue full''), sm))"

definition worker_matchesPattern :: "glob \<Rightarrow> bytes \<Rightarrow> bytes \<Rightarrow> bool" where
  "worker_matchesPattern glob method_name pattern =
     (if pattern = str ''*'' then True
      else case glob pattern method_name of None \<Rightarrow> method_name = pattern | Some matched \<Rightarrow> matched)"

definition can_serve :: "glob \<Rightarrow> bytes \<Rightarrow> ServiceWorker \<Rightarrow> bool" where
  "can_serve glob method_name w \<longleftrightarrow> wk_Credit w > 0 \<and> worker_matchesPattern glob method_name (wk_Pattern w)"

text \<open>The worker is named by its key in the map, which is its \<^verbatim>\<open>ClientID\<close>.\<close>

definition findAvailableWorker :: "glob \<Rightarrow> bytes list \<Rightarrow> MlmService \<Rightarrow> bytes \<Rightarrow> bytes option" where
  "findAvailableWorker glob ord service method_name =
     find (\<lambda>c. case sv_Workers service c of None \<Rightarrow> False | Some w \<Rightarrow> can_serve glob method_name w) ord"

text \<open>Handing a request to a worker, which \<^verbatim>\<open>processRequest\<close> and \<^verbatim>\<open>dispatchQueuedRequests\<close> repeat.\<close>

definition give_request :: "int \<Rightarrow> bytes \<Rightarrow> MlmService \<Rightarrow> MlmService" where
  "give_request now c s =
     s\<lparr>sv_Workers := (sv_Workers s)(c := map_option (\<lambda>w. w\<lparr>wk_Credit := wk_Credit w - 1, wk_LastRequest := Some now,
          wk_RequestCount := wk_RequestCount w + 1\<rparr>) (sv_Workers s c)),
       sv_RequestCount := sv_RequestCount s + 1, sv_LastActivity := now\<rparr>"

definition queue_request :: "64 word \<Rightarrow> ServiceReq \<Rightarrow> MlmService \<Rightarrow> MlmService" where
  "queue_request ID r s =
     (let q = sv_Queue s @ [\<lparr>sq_ID = ID, sq_Service = rr_Service r, sq_Method = rr_Method r, sq_Sender = rr_Sender r,
            sq_Tracker = rr_Tracker r, sq_Attributes = rr_Attributes r, sq_Body = rr_Body r,
            sq_Timestamp = rr_Timestamp r, sq_Timeout = rr_Timestamp r + rr_Timeout r, sq_Retries = 0\<rparr>] in
      if length q > MaxServiceBacklog then s\<lparr>sv_Queue := tl q\<rparr> else s\<lparr>sv_Queue := q\<rparr>)"

definition service_processRequest ::
    "glob \<Rightarrow> int \<Rightarrow> bytes list \<Rightarrow> ServiceReq \<Rightarrow> ServiceManager \<Rightarrow> service_delivery list \<times> ServiceManager" where
  "service_processRequest glob now ord r sm =
     (case services sm (rr_Service r) of
        None \<Rightarrow> ([], sm)
      | Some s \<Rightarrow>
          (case findAvailableWorker glob ord s (rr_Method r) of
             None \<Rightarrow>
               ([], sm\<lparr>requestID := requestID sm + 1,
                  services := (services sm)(rr_Service r \<mapsto> queue_request (requestID sm + 1) r s)\<rparr>)
           | Some c \<Rightarrow>
               ([(rr_Service r, c, r)], sm\<lparr>services := (services sm)(rr_Service r \<mapsto> give_request now c s)\<rparr>)))"

definition processReply :: "ServiceReply \<Rightarrow> ServiceManager \<Rightarrow> ServiceManager" where
  "processReply reply sm =
     sm\<lparr>services := (\<lambda>n. map_option (\<lambda>s. s\<lparr>sv_ReplyCount := sv_ReplyCount s + 1\<rparr>) (services sm n))\<rparr>"

text \<open>The request that a queued request was made from.\<close>

definition request_of :: "ServiceRequest \<Rightarrow> ServiceReq" where
  "request_of q = \<lparr>rr_Service = sq_Service q, rr_Method = sq_Method q, rr_Sender = sq_Sender q,
     rr_Tracker = sq_Tracker q, rr_Body = sq_Body q, rr_Attributes = sq_Attributes q,
     rr_Timeout = sq_Timeout q - sq_Timestamp q, rr_Timestamp = sq_Timestamp q\<rparr>"

text \<open>
  The loop of \<^verbatim>\<open>dispatchQueuedRequests\<close>: the requests kept, the deliveries, and the service. The
  \<open>i\<close>-th search for a worker visits the map in the order \<open>ords i\<close>.
\<close>

fun dispatch_queued ::
    "glob \<Rightarrow> int \<Rightarrow> (nat \<Rightarrow> bytes list) \<Rightarrow> nat \<Rightarrow> ServiceRequest list \<Rightarrow> MlmService \<Rightarrow>
     ServiceRequest list \<times> service_delivery list \<times> MlmService" where
  "dispatch_queued glob now ords i [] s = ([], [], s)"
| "dispatch_queued glob now ords i (q # qs) s =
     (if sq_Timeout q > now then
        (case findAvailableWorker glob (ords i) s (sq_Method q) of
           Some c \<Rightarrow>
             (case dispatch_queued glob now ords (i + 1) qs (give_request now c s) of
                (valid, out, s') \<Rightarrow> (valid, (sv_Name s, c, request_of q) # out, s'))
         | None \<Rightarrow>
             (case dispatch_queued glob now ords (i + 1) qs s of (valid, out, s') \<Rightarrow> (q # valid, out, s')))
      else dispatch_queued glob now ords (i + 1) qs s)"

definition dispatchQueuedRequests ::
    "glob \<Rightarrow> int \<Rightarrow> (nat \<Rightarrow> bytes list) \<Rightarrow> MlmService \<Rightarrow> service_delivery list \<times> MlmService" where
  "dispatchQueuedRequests glob now ords s =
     (case dispatch_queued glob now ords 0 (sv_Queue s) s of (valid, out, s') \<Rightarrow> (out, s'\<lparr>sv_Queue := valid\<rparr>))"

definition new_service :: "int \<Rightarrow> bytes \<Rightarrow> MlmService" where
  "new_service now name = \<lparr>sv_Name = name, sv_Workers = Map.empty, sv_Queue = [], sv_Attributes = Map.empty,
     sv_CreatedAt = now, sv_LastActivity = now, sv_RequestCount = 0, sv_ReplyCount = 0\<rparr>"

definition get_or_create_service :: "int \<Rightarrow> bytes \<Rightarrow> ServiceManager \<Rightarrow> MlmService option" where
  "get_or_create_service now name sm =
     (case services sm name of
        Some s \<Rightarrow> Some s
      | None \<Rightarrow> if int (card (dom (services sm))) \<ge> maxServices sm then None else Some (new_service now name))"

definition new_worker :: "int \<Rightarrow> workerRequest \<Rightarrow> ServiceWorker" where
  "new_worker now q = \<lparr>wk_ClientID = wr_ClientID q, wk_Pattern = wr_Pattern q, wk_Credit = DefaultCreditWindow,
     wk_Attributes = wr_Attributes q, wk_RegisteredAt = now, wk_LastRequest = None, wk_RequestCount = 0\<rparr>"

definition handleRegisterWorker ::
    "glob \<Rightarrow> int \<Rightarrow> (nat \<Rightarrow> bytes list) \<Rightarrow> workerRequest \<Rightarrow> ServiceManager \<Rightarrow>
     go_error option \<times> service_delivery list \<times> ServiceManager" where
  "handleRegisterWorker glob now ords q sm =
     (case get_or_create_service now (wr_Service q) sm of
        None \<Rightarrow> (Some (Errorf ''maximum services exceeded''), [], sm)
      | Some s \<Rightarrow>
          let s = s\<lparr>sv_Workers := (sv_Workers s)(wr_ClientID q \<mapsto> new_worker now q), sv_LastActivity := now\<rparr>;
              (out, s) = dispatchQueuedRequests glob now ords s in
          (None, out, sm\<lparr>services := (services sm)(wr_Service q \<mapsto> s)\<rparr>))"

text \<open>Removing a worker from a service, in \<^verbatim>\<open>handleUnregisterWorker\<close> and \<^verbatim>\<open>handleRemoveClient\<close>.\<close>

definition drop_service_worker :: "bytes \<Rightarrow> MlmService \<Rightarrow> MlmService option" where
  "drop_service_worker c s =
     (let s = s\<lparr>sv_Workers := (sv_Workers s)(c := None)\<rparr> in
      if dom (sv_Workers s) = {} \<and> length (sv_Queue s) = 0 then None else Some s)"

definition handleUnregisterWorker :: "bytes \<Rightarrow> bytes \<Rightarrow> ServiceManager \<Rightarrow> ServiceManager" where
  "handleUnregisterWorker serviceName clientID sm =
     (case services sm serviceName of
        None \<Rightarrow> sm
      | Some s \<Rightarrow> sm\<lparr>services := (services sm)(serviceName := drop_service_worker clientID s)\<rparr>)"

definition service_RemoveClient :: "bytes \<Rightarrow> ServiceManager \<Rightarrow> ServiceManager" where
  "service_RemoveClient clientID sm =
     sm\<lparr>services := (\<lambda>n. Option.bind (services sm n) (drop_service_worker clientID))\<rparr>"

definition service_handleCommand ::
    "glob \<Rightarrow> int \<Rightarrow> (nat \<Rightarrow> bytes list) \<Rightarrow> serviceCmd \<Rightarrow> ServiceManager \<Rightarrow>
     service_reply option \<times> service_delivery list \<times> ServiceManager" where
  "service_handleCommand glob now ords cmd sm =
     (case cmd of
        CmdRegister q \<Rightarrow>
          (case handleRegisterWorker glob now ords q sm of
             (None, out, sm) \<Rightarrow> (Some SNil, out, sm) | (Some err, out, sm) \<Rightarrow> (Some (SError err), out, sm))
      | CmdUnregister serviceName clientID \<Rightarrow> (Some SNil, [], handleUnregisterWorker serviceName clientID sm)
      | CmdRemove clientID \<Rightarrow> (Some SNil, [], service_RemoveClient clientID sm)
      | CmdGetService serviceName \<Rightarrow>
          (case services sm serviceName of Some s \<Rightarrow> (Some (SService s), [], sm) | None \<Rightarrow> (Some SNil, [], sm))
      | CmdGetServices \<Rightarrow> (Some (SServices (services sm)), [], sm)
      | CmdRestore serviceName clientID amount \<Rightarrow> (None, [], sm))"

definition expire_service :: "int \<Rightarrow> MlmService \<Rightarrow> MlmService" where
  "expire_service now s = s\<lparr>sv_Queue := filter (\<lambda>q. sq_Timeout q > now) (sv_Queue s)\<rparr>"

definition cleanupExpiredRequests :: "int \<Rightarrow> ServiceManager \<Rightarrow> ServiceManager" where
  "cleanupExpiredRequests now sm =
     sm\<lparr>services := (\<lambda>n. case services sm n of
        None \<Rightarrow> None
      | Some s \<Rightarrow>
          let s = expire_service now s in
          if dom (sv_Workers s) = {} \<and> length (sv_Queue s) = 0 \<and> now - sv_LastActivity s > serviceTimeout sm
          then None else Some s)\<rparr>"

definition Service_Stop :: "ServiceManager \<Rightarrow> ServiceManager" where
  "Service_Stop sm = sm\<lparr>sv_cancelled := True\<rparr>"

text \<open>
  The methods that send a command and wait for the reply, with the choices of \<^verbatim>\<open>select\<close> after a
  cancellation as for the streams; \<open>None\<close>: the method never returns.
\<close>

definition service_call ::
    "glob \<Rightarrow> bool \<Rightarrow> bool \<Rightarrow> int \<Rightarrow> (nat \<Rightarrow> bytes list) \<Rightarrow> serviceCmd \<Rightarrow> ServiceManager \<Rightarrow>
     service_reply result option \<times> service_delivery list \<times> ServiceManager" where
  "service_call glob pick served now ords cmd sm =
     (if sv_cancelled sm \<and> \<not> pick then (Some (Err CtxDone), [], sm)
      else if sv_cancelled sm \<and> \<not> served then (None, [], sm)
      else
        case service_handleCommand glob now ords cmd sm of (r, out, sm) \<Rightarrow> (map_option Ok r, out, sm))"

definition RegisterWorker ::
    "glob \<Rightarrow> bool \<Rightarrow> bool \<Rightarrow> int \<Rightarrow> (nat \<Rightarrow> bytes list) \<Rightarrow> workerRequest \<Rightarrow> ServiceManager \<Rightarrow>
     unit result option \<times> service_delivery list \<times> ServiceManager" where
  "RegisterWorker glob pick served now ords q sm =
     (if length (wr_Service q) = 0 \<or> length (wr_Service q) > MaxServiceName then
        (Some (Err (Errorf ''invalid service name length'')), [], sm)
      else
        case service_call glob pick served now ords (CmdRegister q) sm of
          (None, out, sm) \<Rightarrow> (None, out, sm)
        | (Some (Ok (SError err)), out, sm) \<Rightarrow> (Some (Err err), out, sm)
        | (Some (Ok _), out, sm) \<Rightarrow> (Some (Ok ()), out, sm)
        | (Some (Err e), out, sm) \<Rightarrow> (Some (Err e), out, sm)
        | (Some (Panic m), out, sm) \<Rightarrow> (Some (Panic m), out, sm))"

text \<open>\<^verbatim>\<open>UnregisterWorker\<close> and \<^verbatim>\<open>RestoreCredit\<close> ignore what the reply is; they search no worker and read no clock.\<close>

definition service_command ::
    "bool \<Rightarrow> bool \<Rightarrow> serviceCmd \<Rightarrow> ServiceManager \<Rightarrow> unit result option \<times> ServiceManager" where
  "service_command pick served cmd sm =
     (case service_call (\<lambda>_ _. None) pick served 0 (\<lambda>_. []) cmd sm of
        (None, out, sm) \<Rightarrow> (None, sm)
      | (Some (Ok _), out, sm) \<Rightarrow> (Some (Ok ()), sm)
      | (Some (Err e), out, sm) \<Rightarrow> (Some (Err e), sm)
      | (Some (Panic m), out, sm) \<Rightarrow> (Some (Panic m), sm))"

definition UnregisterWorker where
  "UnregisterWorker pick served serviceName clientID = service_command pick served (CmdUnregister serviceName clientID)"

definition service_RestoreCredit where
  "service_RestoreCredit pick served serviceName clientID amount =
     service_command pick served (CmdRestore serviceName clientID amount)"

section \<open>Runs\<close>

definition workers :: "bytes \<Rightarrow> ServiceManager \<Rightarrow> bytes \<rightharpoonup> ServiceWorker" where
  "workers n sm = (case services sm n of None \<Rightarrow> Map.empty | Some s \<Rightarrow> sv_Workers s)"

text \<open>
  A run of the manager: the requests accepted by \<^verbatim>\<open>ProcessRequest\<close>, the deliveries, and the
  registrations (worker and service) made so far, each in order.
\<close>

inductive service_run ::
    "glob \<Rightarrow> ServiceReq list \<Rightarrow> service_delivery list \<Rightarrow> (bytes \<times> bytes) list \<Rightarrow> ServiceManager \<Rightarrow> bool" for glob where
  new: "service_run glob [] [] [] (NewServiceManager n t)"
| accept: "service_run glob (reqs @ [r\<lparr>rr_Timestamp := t\<rparr>]) out regs sm'"
    if "service_run glob reqs out regs sm" "ProcessRequest t pick r sm = (Ok (), sm')"
| request: "service_run glob reqs (out @ ds) regs sm'"
    if "service_run glob reqs out regs sm" "sv_requests sm = r # rs" "visits ord (workers (rr_Service r) sm)"
      "service_processRequest glob t ord r (sm\<lparr>sv_requests := rs\<rparr>) = (ds, sm')"
| accept_reply: "service_run glob reqs out regs sm'"
    if "service_run glob reqs out regs sm" "ProcessReply t pick reply sm = (Ok (), sm')"
| reply: "service_run glob reqs out regs (processReply reply (sm\<lparr>sv_replies := replies\<rparr>))"
    if "service_run glob reqs out regs sm" "sv_replies sm = reply # replies"
| register: "service_run glob reqs (out @ ds) (regs @ [(wr_ClientID q, wr_Service q)]) sm'"
    if "service_run glob reqs out regs sm"
      "\<And>i. visits (ords i) ((workers (wr_Service q) sm)(wr_ClientID q \<mapsto> new_worker t q))"
      "service_handleCommand glob t ords (CmdRegister q) sm = (Some SNil, ds, sm')"
| command: "service_run glob reqs out regs sm'"
    if "service_run glob reqs out regs sm" "service_handleCommand glob t ords c sm = (rep, ds, sm')"
      "\<not> (\<exists>q. c = CmdRegister q \<and> rep = Some SNil)"
| clean: "service_run glob reqs out regs (cleanupExpiredRequests t sm)"
    if "service_run glob reqs out regs sm"
| stop: "service_run glob reqs out regs (Service_Stop sm)"
    if "service_run glob reqs out regs sm"

section \<open>Lemmas: workers and credit\<close>

definition available :: "glob \<Rightarrow> bytes \<Rightarrow> (bytes \<rightharpoonup> ServiceWorker) \<Rightarrow> bool" where
  "available glob m W \<longleftrightarrow> (\<exists>c w. W c = Some w \<and> can_serve glob m w)"

lemma findAvailableWorker_None:
  "visits ord (sv_Workers s) \<Longrightarrow> findAvailableWorker glob ord s m = None \<longleftrightarrow> \<not> available glob m (sv_Workers s)"
  by (auto simp: findAvailableWorker_def find_None_iff visits_def available_def split: option.splits)

lemma findAvailableWorker_Some:
  "findAvailableWorker glob ord s m = Some c \<Longrightarrow> \<exists>w. sv_Workers s c = Some w \<and> can_serve glob m w"
  by (auto simp: findAvailableWorker_def find_Some_iff split: option.splits)

definition use_worker :: "int \<Rightarrow> ServiceWorker \<Rightarrow> ServiceWorker" where
  "use_worker t w = w\<lparr>wk_Credit := wk_Credit w - 1, wk_LastRequest := Some t, wk_RequestCount := wk_RequestCount w + 1\<rparr>"

lemma give_request_frame [simp]:
  "sv_Name (give_request t c s) = sv_Name s" "sv_Queue (give_request t c s) = sv_Queue s"
  "sv_Workers (give_request t c s) = (sv_Workers s)(c := map_option (use_worker t) (sv_Workers s c))"
  by (simp_all add: give_request_def use_worker_def [abs_def])

text \<open>The workers of a service after some of their credit has been used.\<close>

definition used_up :: "(bytes \<rightharpoonup> ServiceWorker) \<Rightarrow> (bytes \<rightharpoonup> ServiceWorker) \<Rightarrow> bool" where
  "used_up W W' \<longleftrightarrow> dom W' = dom W \<and> (\<forall>c w w'. W c = Some w \<longrightarrow> W' c = Some w' \<longrightarrow>
     wk_ClientID w' = wk_ClientID w \<and> wk_Pattern w' = wk_Pattern w \<and> wk_Credit w' \<le> wk_Credit w \<and>
     (0 \<le> wk_Credit w \<longrightarrow> 0 \<le> wk_Credit w'))"

lemma used_up_refl [simp]: "used_up W W"
  by (simp add: used_up_def)

lemma used_up_trans:
  assumes "used_up V W" "used_up W X"
  shows "used_up V X"
  unfolding used_up_def
proof (intro conjI allI impI)
  show "dom X = dom V" using assms by (simp add: used_up_def)
  fix c v x assume v: "V c = Some v" and x: "X c = Some x"
  then obtain w where w: "W c = Some w" using assms(1) unfolding used_up_def by blast
  have a: "wk_ClientID w = wk_ClientID v" "wk_Pattern w = wk_Pattern v" "wk_Credit w \<le> wk_Credit v" "0 \<le> wk_Credit v \<longrightarrow> 0 \<le> wk_Credit w"
    using assms(1) v w unfolding used_up_def by blast+
  have b: "wk_ClientID x = wk_ClientID w" "wk_Pattern x = wk_Pattern w" "wk_Credit x \<le> wk_Credit w" "0 \<le> wk_Credit w \<longrightarrow> 0 \<le> wk_Credit x"
    using assms(2) x w unfolding used_up_def by blast+
  show "wk_ClientID x = wk_ClientID v" "wk_Pattern x = wk_Pattern v" "wk_Credit x \<le> wk_Credit v" using a b by simp_all
  assume "0 \<le> wk_Credit v" then show "0 \<le> wk_Credit x" using a b by simp
qed

lemma used_up_give:
  "sv_Workers s c = Some w \<Longrightarrow> can_serve glob m w \<Longrightarrow> used_up (sv_Workers s) (sv_Workers (give_request t c s))"
  by (auto simp: used_up_def use_worker_def can_serve_def split: if_splits)

lemma available_used_up:
  assumes "used_up W W'" "available glob m W'"
  shows "available glob m W"
proof -
  obtain c w' where w': "W' c = Some w'" "can_serve glob m w'" using assms(2) by (auto simp: available_def)
  then obtain w where w: "W c = Some w" using assms(1) unfolding used_up_def by blast
  then have "wk_Pattern w' = wk_Pattern w" "wk_Credit w' \<le> wk_Credit w" using assms(1) w' unfolding used_up_def by blast+
  then have "can_serve glob m w" using w' by (simp add: can_serve_def)
  then show ?thesis using w by (auto simp: available_def)
qed

lemma visits_used_up: "used_up W W' \<Longrightarrow> visits ord W' \<longleftrightarrow> visits ord W"
  by (simp add: used_up_def visits_def)

section \<open>Lemmas: dispatching the queue\<close>

definition of_method :: "bytes \<Rightarrow> ServiceRequest list \<Rightarrow> ServiceReq list" where
  "of_method m qs = map request_of (filter (\<lambda>q. sq_Method q = m) qs)"

definition sent_to :: "bytes \<Rightarrow> bytes \<Rightarrow> service_delivery list \<Rightarrow> ServiceReq list" where
  "sent_to n m out = map (\<lambda>(n', c, r). r) (filter (\<lambda>(n', c, r). n' = n \<and> rr_Method r = m) out)"

definition taken_by :: "bytes \<Rightarrow> bytes \<Rightarrow> service_delivery list \<Rightarrow> ServiceReq list" where
  "taken_by c n out = map (\<lambda>(n', c', r). r) (filter (\<lambda>(n', c', r). n' = n \<and> c' = c) out)"

definition worker_credit :: "(bytes \<rightharpoonup> ServiceWorker) \<Rightarrow> bytes \<Rightarrow> int" where
  "worker_credit W c = (case W c of None \<Rightarrow> 0 | Some w \<Rightarrow> wk_Credit w)"

lemma of_method_simps [simp]:
  "of_method m [] = []" "of_method m (q # qs) = (if sq_Method q = m then [request_of q] else []) @ of_method m qs"
  "of_method m (ps @ qs) = of_method m ps @ of_method m qs"
  by (simp_all add: of_method_def)

lemma sent_to_simps [simp]:
  "sent_to n m [] = []" "sent_to n m ((n', c, r) # out) = (if n' = n \<and> rr_Method r = m then [r] else []) @ sent_to n m out"
  "sent_to n m (out @ out') = sent_to n m out @ sent_to n m out'"
  by (simp_all add: sent_to_def)

lemma taken_by_simps [simp]:
  "taken_by c n [] = []" "taken_by c n ((n', c', r) # out) = (if n' = n \<and> c' = c then [r] else []) @ taken_by c n out"
  "taken_by c n (out @ out') = taken_by c n out @ taken_by c n out'"
  by (simp_all add: taken_by_def)

lemma request_of_method [simp]: "rr_Method (request_of q) = sq_Method q"
  by (simp add: request_of_def)

lemma worker_credit_give:
  "sv_Workers s c = Some w \<Longrightarrow> worker_credit (sv_Workers (give_request t c s)) c' =
     worker_credit (sv_Workers s) c' - (if c' = c then 1 else 0)"
  by (simp add: worker_credit_def use_worker_def split: option.splits)

text \<open>
  What the loop guarantees: name and workers are kept up to used credit, nothing of a method is
  delivered that no worker can take, every request kept is one that no worker can take any more,
  deliveries and kept requests of a method are in the order of the queue, every request that has
  not expired is delivered or kept, and every delivery costs its worker one credit.
\<close>

definition dispatched ::
    "glob \<Rightarrow> int \<Rightarrow> ServiceRequest list \<Rightarrow> MlmService \<Rightarrow> ServiceRequest list \<times> service_delivery list \<times> MlmService \<Rightarrow> bool" where
  "dispatched glob t qs s R \<longleftrightarrow> (case R of (valid, out, s') \<Rightarrow>
     sv_Name s' = sv_Name s \<and> used_up (sv_Workers s) (sv_Workers s') \<and> subseq valid qs \<and>
     (\<forall>q \<in> set valid. \<not> available glob (sq_Method q) (sv_Workers s')) \<and>
     (\<forall>m. \<not> available glob m (sv_Workers s) \<longrightarrow> sent_to (sv_Name s) m out = []) \<and>
     (\<forall>m. subseq (sent_to (sv_Name s) m out @ of_method m valid) (of_method m qs)) \<and>
     (\<forall>d \<in> set out. fst d = sv_Name s) \<and>
     (\<forall>q \<in> set qs. sq_Timeout q > t \<longrightarrow> q \<in> set valid \<or> (\<exists>c. (sv_Name s, c, request_of q) \<in> set out)) \<and>
     (\<forall>c. worker_credit (sv_Workers s') c = worker_credit (sv_Workers s) c - int (length (taken_by c (sv_Name s) out))))"

lemma dispatched_give:
  assumes "findAvailableWorker glob ord s (sq_Method q) = Some c"
    and "dispatched glob t qs (give_request t c s) (valid, out, s')"
  shows "dispatched glob t (q # qs) s (valid, (sv_Name s, c, request_of q) # out, s')"
proof -
  obtain w where w: "sv_Workers s c = Some w" "can_serve glob (sq_Method q) w"
    using findAvailableWorker_Some [OF assms(1)] by blast
  let ?s = "give_request t c s"
  have up: "used_up (sv_Workers s) (sv_Workers ?s)" by (rule used_up_give [OF w])
  have "available glob (sq_Method q) (sv_Workers s)" using w by (auto simp: available_def)
  moreover have "\<not> available glob m (sv_Workers s) \<Longrightarrow> \<not> available glob m (sv_Workers ?s)" for m
    using available_used_up [OF up] by blast
  ultimately have none: "\<not> available glob m (sv_Workers s) \<longrightarrow> sent_to (sv_Name s) m ((sv_Name s, c, request_of q) # out) = []" for m
    using assms(2) by (auto simp: dispatched_def simp del: give_request_frame(3))
  have order: "subseq (sent_to (sv_Name s) m ((sv_Name s, c, request_of q) # out) @ of_method m valid) (of_method m (q # qs))" for m
    using assms(2) by (auto simp: dispatched_def)
  have credit: "worker_credit (sv_Workers s') c' = worker_credit (sv_Workers s) c' -
      int (length (taken_by c' (sv_Name s) ((sv_Name s, c, request_of q) # out)))" for c'
    using assms(2) worker_credit_give [OF w(1), of t c'] by (auto simp: dispatched_def simp del: give_request_frame(3))
  have "used_up (sv_Workers s) (sv_Workers s')"
    using assms(2) used_up_trans [OF up] by (simp add: dispatched_def)
  moreover have "subseq valid (q # qs)" "sv_Name s' = sv_Name s" "\<forall>q \<in> set valid. \<not> available glob (sq_Method q) (sv_Workers s')"
    "\<forall>d \<in> set out. fst d = sv_Name s"
    "\<forall>x \<in> set (q # qs). sq_Timeout x > t \<longrightarrow> x \<in> set valid \<or> (\<exists>c'. (sv_Name s, c', request_of x) \<in> set ((sv_Name s, c, request_of q) # out))"
    using assms(2) by (auto simp: dispatched_def)
  ultimately show ?thesis using none order credit by (simp add: dispatched_def del: sent_to_simps taken_by_simps of_method_simps)
qed

lemma dispatched_keep:
  assumes "\<not> available glob (sq_Method q) (sv_Workers s)" "dispatched glob t qs s (valid, out, s')"
  shows "dispatched glob t (q # qs) s (q # valid, out, s')"
proof -
  have "used_up (sv_Workers s) (sv_Workers s')" using assms(2) by (simp add: dispatched_def)
  then have "\<not> available glob (sq_Method q) (sv_Workers s')" using assms(1) available_used_up by blast
  moreover have "subseq (sent_to (sv_Name s) m out @ of_method m (q # valid)) (of_method m (q # qs))" for m
  proof (cases "sq_Method q = m")
    case True
    then have "sent_to (sv_Name s) m out = []" using assms by (simp add: dispatched_def)
    moreover have "subseq (of_method m valid) (of_method m qs)"
      using assms(2) calculation by (auto simp: dispatched_def) (metis append_Nil)
    ultimately show ?thesis using True by simp
  next
    case False
    then show ?thesis using assms(2) by (simp add: dispatched_def)
  qed
  ultimately show ?thesis using assms(2) by (simp add: dispatched_def)
qed

lemma dispatched_drop:
  assumes "\<not> sq_Timeout q > t" "dispatched glob t qs s (valid, out, s')"
  shows "dispatched glob t (q # qs) s (valid, out, s')"
proof -
  have "subseq (sent_to (sv_Name s) m out @ of_method m valid) (of_method m (q # qs))" for m
    using assms by (auto simp: dispatched_def)
  then show ?thesis using assms by (auto simp: dispatched_def simp del: of_method_simps)
qed

lemma dispatch_queued_dispatched:
  "(\<And>i. visits (ords i) (sv_Workers s)) \<Longrightarrow> dispatched glob t qs s (dispatch_queued glob t ords i qs s)"
proof (induction qs arbitrary: i s)
  case Nil
  then show ?case by (simp add: dispatched_def)
next
  case (Cons q qs)
  show ?case
  proof (cases "sq_Timeout q > t")
    case False
    obtain valid out s' where d: "dispatch_queued glob t ords (i + 1) qs s = (valid, out, s')" by (metis prod_cases3)
    then show ?thesis using Cons.IH [OF Cons.prems, of "i + 1"] False dispatched_drop by simp
  next
    case True
    show ?thesis
    proof (cases "findAvailableWorker glob (ords i) s (sq_Method q)")
      case None
      obtain valid out s' where d: "dispatch_queued glob t ords (i + 1) qs s = (valid, out, s')" by (metis prod_cases3)
      have "\<not> available glob (sq_Method q) (sv_Workers s)" using None findAvailableWorker_None [OF Cons.prems] by blast
      then show ?thesis using Cons.IH [OF Cons.prems, of "i + 1"] True None d dispatched_keep by simp
    next
      case (Some c)
      obtain w where w: "sv_Workers s c = Some w" "can_serve glob (sq_Method q) w"
        using findAvailableWorker_Some [OF Some] by blast
      have v: "visits (ords j) (sv_Workers (give_request t c s))" for j
        using visits_used_up [OF used_up_give [OF w]] Cons.prems by blast
      obtain valid out s' where d: "dispatch_queued glob t ords (i + 1) qs (give_request t c s) = (valid, out, s')"
        by (metis prod_cases3)
      have "dispatched glob t qs (give_request t c s) (valid, out, s')" using Cons.IH [of "give_request t c s" "i + 1", OF v] d by simp
      from dispatched_give [OF Some this] show ?thesis using True Some d by simp
    qed
  qed
qed

section \<open>Lemmas: the invariant\<close>

definition service_inv :: "glob \<Rightarrow> bytes \<Rightarrow> MlmService \<Rightarrow> bool" where
  "service_inv glob n s \<longleftrightarrow> sv_Name s = n \<and> length (sv_Queue s) \<le> MaxServiceBacklog \<and>
     (\<forall>q \<in> set (sv_Queue s). sq_Service q = n \<and> \<not> available glob (sq_Method q) (sv_Workers s)) \<and>
     (\<forall>c w. sv_Workers s c = Some w \<longrightarrow> wk_ClientID w = c \<and> 0 \<le> wk_Credit w \<and> wk_Credit w \<le> DefaultCreditWindow)"

definition services_inv :: "glob \<Rightarrow> ServiceManager \<Rightarrow> bool" where
  "services_inv glob sm \<longleftrightarrow> (\<forall>n s. services sm n = Some s \<longrightarrow> service_inv glob n s) \<and>
     finite (dom (services sm)) \<and> int (card (dom (services sm))) \<le> max 0 (maxServices sm) \<and>
     length (sv_requests sm) \<le> 10000"

definition service_queue :: "bytes \<Rightarrow> ServiceManager \<Rightarrow> ServiceRequest list" where
  "service_queue n sm = (case services sm n of None \<Rightarrow> [] | Some s \<Rightarrow> sv_Queue s)"

lemma get_or_create_service_cases:
  assumes "services_inv glob sm" "get_or_create_service t n sm = Some s"
  shows "service_inv glob n s" "sv_Workers s = workers n sm" "sv_Queue s = service_queue n sm"
    "services sm n = Some s \<or> int (card (dom (services sm))) < maxServices sm"
  using assms
  by (auto simp: get_or_create_service_def services_inv_def service_inv_def new_service_def workers_def service_queue_def
      split: option.splits if_splits)

lemma services_inv_put:
  assumes "services_inv glob sm" "service_inv glob n s'"
    and "services sm n \<noteq> None \<or> int (card (dom (services sm))) < maxServices sm"
  shows "services_inv glob (sm\<lparr>services := (services sm)(n \<mapsto> s')\<rparr>)"
proof -
  have "card (insert n (dom (services sm))) \<le> max 0 (nat (maxServices sm))"
    using assms(1,3) by (cases "n \<in> dom (services sm)") (auto simp: services_inv_def card_insert_if insert_absorb)
  then show ?thesis using assms(1,2) by (auto simp: services_inv_def)
qed

lemma services_inv_shrink:
  assumes "services_inv glob sm" "\<And>n s'. f n = Some s' \<Longrightarrow> services sm n \<noteq> None \<and> service_inv glob n s'"
  shows "services_inv glob (sm\<lparr>services := f\<rparr>)"
proof -
  have "dom f \<subseteq> dom (services sm)" using assms(2) by blast
  then have "finite (dom f)" "card (dom f) \<le> card (dom (services sm))"
    using assms(1) by (auto simp: services_inv_def finite_subset card_mono)
  then show ?thesis using assms by (auto simp: services_inv_def)
qed

lemma service_inv_used_up:
  assumes "service_inv glob n s" "used_up (sv_Workers s) (sv_Workers s')" "sv_Name s' = sv_Name s"
    and "length (sv_Queue s') \<le> MaxServiceBacklog"
    and "\<forall>q \<in> set (sv_Queue s'). sq_Service q = n \<and> \<not> available glob (sq_Method q) (sv_Workers s')"
  shows "service_inv glob n s'"
proof -
  have "wk_ClientID w' = c \<and> 0 \<le> wk_Credit w' \<and> wk_Credit w' \<le> DefaultCreditWindow" if w': "sv_Workers s' c = Some w'" for c w'
  proof -
    obtain w where w: "sv_Workers s c = Some w" using w' assms(2) unfolding used_up_def by blast
    then have "wk_ClientID w' = wk_ClientID w" "wk_Credit w' \<le> wk_Credit w" "0 \<le> wk_Credit w \<longrightarrow> 0 \<le> wk_Credit w'"
      using w' assms(2) unfolding used_up_def by blast+
    moreover have "wk_ClientID w = c \<and> 0 \<le> wk_Credit w \<and> wk_Credit w \<le> DefaultCreditWindow"
      using assms(1) w unfolding service_inv_def by blast
    ultimately show ?thesis by simp
  qed
  then show ?thesis using assms by (simp add: service_inv_def)
qed

lemma queue_request_frame [simp]:
  "sv_Name (queue_request i r s) = sv_Name s" "sv_Workers (queue_request i r s) = sv_Workers s"
  by (simp_all add: queue_request_def Let_def)

lemma queue_request_queue:
  obtains q where "request_of q = r" "sq_Service q = rr_Service r" "sq_Method q = rr_Method r"
    "subseq (sv_Queue (queue_request i r s)) (sv_Queue s @ [q])"
    "length (sv_Queue s) \<le> MaxServiceBacklog \<longrightarrow> length (sv_Queue (queue_request i r s)) \<le> MaxServiceBacklog"
proof -
  define q where "q = \<lparr>sq_ID = i, sq_Service = rr_Service r, sq_Method = rr_Method r, sq_Sender = rr_Sender r,
            sq_Tracker = rr_Tracker r, sq_Attributes = rr_Attributes r, sq_Body = rr_Body r,
            sq_Timestamp = rr_Timestamp r, sq_Timeout = rr_Timestamp r + rr_Timeout r, sq_Retries = 0\<rparr>"
  have "sv_Queue (queue_request i r s) = (if length (sv_Queue s @ [q]) > MaxServiceBacklog then tl (sv_Queue s @ [q]) else sv_Queue s @ [q])"
    by (simp add: queue_request_def q_def Let_def)
  then show thesis
    using subseq_tl [of "sv_Queue s @ [q]"] by (intro that [of q]) (auto simp: q_def request_of_def)
qed

lemma request_cases:
  assumes "service_processRequest glob t ord r sm = (ds, sm')" "visits ord (workers (rr_Service r) sm)"
  obtains (absent) "services sm (rr_Service r) = None" "ds = []" "sm' = sm"
  | (queued) s where "services sm (rr_Service r) = Some s" "\<not> available glob (rr_Method r) (sv_Workers s)" "ds = []"
      "sm' = sm\<lparr>requestID := requestID sm + 1, services := (services sm)(rr_Service r \<mapsto> queue_request (requestID sm + 1) r s)\<rparr>"
  | (given) s c w where "services sm (rr_Service r) = Some s" "sv_Workers s c = Some w" "can_serve glob (rr_Method r) w"
      "ds = [(rr_Service r, c, r)]" "sm' = sm\<lparr>services := (services sm)(rr_Service r \<mapsto> give_request t c s)\<rparr>"
proof (cases "services sm (rr_Service r)")
  case None
  then show ?thesis using absent assms by (simp add: service_processRequest_def)
next
  case (Some s)
  have v: "visits ord (sv_Workers s)" using assms(2) Some by (simp add: workers_def)
  show ?thesis
  proof (cases "findAvailableWorker glob ord s (rr_Method r)")
    case None
    then have "\<not> available glob (rr_Method r) (sv_Workers s)" using findAvailableWorker_None [OF v] by blast
    then show ?thesis using queued [OF Some] assms(1) Some None by (simp add: service_processRequest_def)
  next
    case (Some c)
    then show ?thesis
      using given [OF \<open>services sm (rr_Service r) = Some s\<close>] findAvailableWorker_Some [OF Some] assms \<open>services sm (rr_Service r) = Some s\<close>
      by (auto simp: service_processRequest_def)
  qed
qed

lemma subseq_subset: "subseq xs ys \<Longrightarrow> set xs \<subseteq> set ys"
  by (auto dest: list_emb_set)

lemma request_inv:
  assumes "services_inv glob sm" "service_processRequest glob t ord r sm = (ds, sm')" "visits ord (workers (rr_Service r) sm)"
  shows "services_inv glob sm'"
  using assms(2,3)
proof (cases rule: request_cases)
  case absent
  then show ?thesis using assms by simp
next
  case (queued s)
  have s: "service_inv glob (rr_Service r) s" using assms(1) queued(1) by (simp add: services_inv_def)
  obtain q where q: "sq_Service q = rr_Service r" "sq_Method q = rr_Method r"
    "subseq (sv_Queue (queue_request (requestID sm + 1) r s)) (sv_Queue s @ [q])"
    "length (sv_Queue s) \<le> MaxServiceBacklog \<longrightarrow> length (sv_Queue (queue_request (requestID sm + 1) r s)) \<le> MaxServiceBacklog"
    using queue_request_queue [of r "requestID sm + 1" s] by blast
  have "set (sv_Queue (queue_request (requestID sm + 1) r s)) \<subseteq> set (sv_Queue s @ [q])"
    by (rule subseq_subset [OF q(3)])
  then have "service_inv glob (rr_Service r) (queue_request (requestID sm + 1) r s)"
    using s q queued(2) by (intro service_inv_used_up [OF s]) (auto simp: service_inv_def)
  then have "services_inv glob (sm\<lparr>services := (services sm)(rr_Service r \<mapsto> queue_request (requestID sm + 1) r s)\<rparr>)"
    using assms(1) queued(1) by (intro services_inv_put) auto
  then show ?thesis by (simp add: queued(4) services_inv_def)
next
  case (given s c w)
  have s: "service_inv glob (rr_Service r) s" using assms(1) given(1) by (simp add: services_inv_def)
  have up: "used_up (sv_Workers s) (sv_Workers (give_request t c s))" by (rule used_up_give [OF given(2,3)])
  then have "service_inv glob (rr_Service r) (give_request t c s)"
    using s available_used_up [OF up] by (intro service_inv_used_up [OF s up]) (auto simp: service_inv_def simp del: give_request_frame(3))
  then show ?thesis unfolding given(5) using assms(1) given(1) by (intro services_inv_put) auto
qed

lemma register_cases:
  assumes "services_inv glob sm" "service_handleCommand glob t ords (CmdRegister q) sm = (Some SNil, ds, sm')"
    and "\<And>i. visits (ords i) ((workers (wr_Service q) sm)(wr_ClientID q \<mapsto> new_worker t q))"
  obtains s valid s' where "get_or_create_service t (wr_Service q) sm = Some s"
    "dispatched glob t (service_queue (wr_Service q) sm)
       (s\<lparr>sv_Workers := (workers (wr_Service q) sm)(wr_ClientID q \<mapsto> new_worker t q), sv_LastActivity := t\<rparr>) (valid, ds, s')"
    "sm' = sm\<lparr>services := (services sm)(wr_Service q \<mapsto> s'\<lparr>sv_Queue := valid\<rparr>)\<rparr>"
proof (cases "get_or_create_service t (wr_Service q) sm")
  case None
  then show ?thesis using assms(2) by (simp add: service_handleCommand_def handleRegisterWorker_def)
next
  case (Some s)
  note s = get_or_create_service_cases [OF assms(1) Some]
  let ?s = "s\<lparr>sv_Workers := (workers (wr_Service q) sm)(wr_ClientID q \<mapsto> new_worker t q), sv_LastActivity := t\<rparr>"
  obtain valid out s' where d: "dispatch_queued glob t ords 0 (sv_Queue s) ?s = (valid, out, s')" by (metis prod_cases3)
  have "dispatched glob t (sv_Queue s) ?s (valid, out, s')"
    using dispatch_queued_dispatched [of ords ?s glob t "sv_Queue s" 0] assms(3) d by simp
  moreover have "ds = out" "sm' = sm\<lparr>services := (services sm)(wr_Service q \<mapsto> s'\<lparr>sv_Queue := valid\<rparr>)\<rparr>"
    using assms(2) Some s(2) d
    by (auto simp: service_handleCommand_def handleRegisterWorker_def dispatchQueuedRequests_def Let_def)
  ultimately show ?thesis using that [OF Some] s(3) by simp
qed

lemma register_inv:
  assumes "services_inv glob sm" "service_handleCommand glob t ords (CmdRegister q) sm = (Some SNil, ds, sm')"
    and "\<And>i. visits (ords i) ((workers (wr_Service q) sm)(wr_ClientID q \<mapsto> new_worker t q))"
  shows "services_inv glob sm'"
proof (rule register_cases [OF assms])
  let ?W = "(workers (wr_Service q) sm)(wr_ClientID q \<mapsto> new_worker t q)"
  fix s valid s' assume s: "get_or_create_service t (wr_Service q) sm = Some s"
    and d: "dispatched glob t (service_queue (wr_Service q) sm) (s\<lparr>sv_Workers := ?W, sv_LastActivity := t\<rparr>) (valid, ds, s')"
    and sm': "sm' = sm\<lparr>services := (services sm)(wr_Service q \<mapsto> s'\<lparr>sv_Queue := valid\<rparr>)\<rparr>"
  note s0 = get_or_create_service_cases [OF assms(1) s]
  have sub: "subseq valid (sv_Queue s)" using d s0(3) by (simp add: dispatched_def)
  let ?s1 = "s\<lparr>sv_Workers := ?W, sv_LastActivity := t, sv_Queue := []\<rparr>"
  have s1: "service_inv glob (wr_Service q) ?s1"
    using s0(1,2) by (auto simp: service_inv_def new_worker_def DefaultCreditWindow_def)
  have "length valid \<le> MaxServiceBacklog"
    using s0(1) list_emb_length [OF sub] by (simp add: service_inv_def)
  then have "service_inv glob (wr_Service q) (s'\<lparr>sv_Queue := valid\<rparr>)"
    using d s0(1) subseq_subset [OF sub]
    by (intro service_inv_used_up [OF s1]) (auto simp: dispatched_def service_inv_def)
  then show "services_inv glob sm'"
    unfolding sm' using s0(4) by (intro services_inv_put [OF assms(1)]) auto
qed

text \<open>Other commands and the clean-up only take away: a smaller queue, fewer workers.\<close>

definition shrunk :: "MlmService \<Rightarrow> MlmService \<Rightarrow> bool" where
  "shrunk s s' \<longleftrightarrow> sv_Name s' = sv_Name s \<and> subseq (sv_Queue s') (sv_Queue s) \<and>
     (\<forall>c. sv_Workers s' c = None \<or> sv_Workers s' c = sv_Workers s c)"

lemma shrunk_inv:
  assumes "service_inv glob n s" "shrunk s s'"
  shows "service_inv glob n s'"
proof -
  have sub: "subseq (sv_Queue s') (sv_Queue s)" using assms(2) by (simp add: shrunk_def)
  have W: "sv_Workers s' c = Some w \<Longrightarrow> sv_Workers s c = Some w" for c w
    using assms(2) by (metis option.distinct(1) shrunk_def)
  then have "available glob m (sv_Workers s') \<Longrightarrow> available glob m (sv_Workers s)" for m by (auto simp: available_def)
  then have "\<forall>q \<in> set (sv_Queue s'). sq_Service q = n \<and> \<not> available glob (sq_Method q) (sv_Workers s')"
    using assms(1) subseq_subset [OF sub] unfolding service_inv_def by blast
  moreover have "\<forall>c w. sv_Workers s' c = Some w \<longrightarrow> wk_ClientID w = c \<and> 0 \<le> wk_Credit w \<and> wk_Credit w \<le> DefaultCreditWindow"
    using assms(1) W unfolding service_inv_def by blast
  ultimately show ?thesis
    using assms list_emb_length [OF sub] by (simp add: service_inv_def shrunk_def)
qed

lemma drop_service_worker_shrunk: "drop_service_worker c s = Some s' \<Longrightarrow> shrunk s s'"
  by (auto simp: drop_service_worker_def shrunk_def Let_def split: if_splits)

lemma take_away_cases:
  assumes "service_handleCommand glob t ords c sm = (rep, ds, sm')" "\<not> (\<exists>q. c = CmdRegister q \<and> rep = Some SNil)"
  obtains f where "sm' = sm\<lparr>services := f\<rparr>" "\<And>n s'. f n = Some s' \<Longrightarrow> \<exists>s. services sm n = Some s \<and> shrunk s s'"
proof -
  have refl: "shrunk s s" for s by (simp add: shrunk_def)
  show thesis
  proof (cases c)
    case (CmdRegister q)
    then have "sm' = sm\<lparr>services := services sm\<rparr>"
      using assms by (auto simp: service_handleCommand_def handleRegisterWorker_def Let_def split: option.splits prod.splits)
    then show ?thesis by (rule that) (use refl in auto)
  next
    case (CmdUnregister n cl)
    have "sm' = sm\<lparr>services := (services sm)(n := Option.bind (services sm n) (drop_service_worker cl))\<rparr>"
      using assms CmdUnregister
      by (auto simp: service_handleCommand_def handleUnregisterWorker_def fun_upd_idem split: option.splits)
    then show ?thesis
      by (rule that) (use refl drop_service_worker_shrunk in \<open>auto simp: bind_eq_Some_conv split: if_splits\<close>)
  next
    case (CmdRemove cl)
    then have "sm' = sm\<lparr>services := (\<lambda>n. Option.bind (services sm n) (drop_service_worker cl))\<rparr>"
      using assms by (simp add: service_handleCommand_def service_RemoveClient_def)
    then show ?thesis by (rule that) (use drop_service_worker_shrunk in \<open>auto simp: bind_eq_Some_conv\<close>)
  qed (use assms refl that [of "services sm"] in \<open>auto simp: service_handleCommand_def split: option.splits\<close>)
qed

lemma cleanup_take_away:
  "\<exists>f. cleanupExpiredRequests t sm = sm\<lparr>services := f\<rparr> \<and>
     (\<forall>n s'. f n = Some s' \<longrightarrow> (\<exists>s. services sm n = Some s \<and> shrunk s s'))"
  unfolding cleanupExpiredRequests_def
  by (intro exI conjI, rule refl) (auto simp: shrunk_def expire_service_def Let_def split: option.splits if_splits)

lemma reply_take_away:
  "\<exists>f. processReply r sm = sm\<lparr>services := f\<rparr> \<and>
     (\<forall>n s'. f n = Some s' \<longrightarrow> (\<exists>s. services sm n = Some s \<and> shrunk s s'))"
  unfolding processReply_def by (intro exI conjI, rule refl) (auto simp: shrunk_def)

lemma take_away_inv:
  assumes "services_inv glob sm" "\<And>n s'. f n = Some s' \<Longrightarrow> \<exists>s. services sm n = Some s \<and> shrunk s s'"
  shows "services_inv glob (sm\<lparr>services := f\<rparr>)"
proof (rule services_inv_shrink [OF assms(1)])
  fix n s' assume "f n = Some s'"
  then obtain s where "services sm n = Some s" "shrunk s s'" using assms(2) by blast
  moreover have "service_inv glob n s" using assms(1) calculation(1) by (simp add: services_inv_def)
  ultimately show "services sm n \<noteq> None \<and> service_inv glob n s'" using shrunk_inv by simp
qed

lemma ProcessRequest_Ok:
  "ProcessRequest t pick r sm = (Ok (), sm') \<Longrightarrow> sm' = sm\<lparr>sv_requests := sv_requests sm @ [r\<lparr>rr_Timestamp := t\<rparr>]\<rparr> \<and>
     length (sv_requests sm) < 10000"
  by (auto simp: ProcessRequest_def Let_def split: if_splits)

lemma ProcessReply_Ok:
  "ProcessReply t pick r sm = (Ok (), sm') \<Longrightarrow> sm' = sm\<lparr>sv_replies := sv_replies sm @ [r\<lparr>rp_Timestamp := t\<rparr>]\<rparr>"
  by (auto simp: ProcessReply_def Let_def split: if_splits)

lemma workers_requests [simp]: "workers n (sm\<lparr>sv_requests := rs\<rparr>) = workers n sm"
  by (simp add: workers_def)

lemma service_run_inv: "service_run glob reqs out regs sm \<Longrightarrow> services_inv glob sm"
proof (induction rule: service_run.induct)
  case (new n t)
  then show ?case by (simp add: services_inv_def NewServiceManager_def)
next
  case (accept reqs out regs sm t pick r sm')
  then show ?case using ProcessRequest_Ok [OF accept.hyps(2)] by (simp add: services_inv_def)
next
  case (request reqs out regs sm r rs ord t ds sm')
  have "services_inv glob (sm\<lparr>sv_requests := rs\<rparr>)" using request by (simp add: services_inv_def)
  then show ?case using request_inv request by simp
next
  case (accept_reply reqs out regs sm t pick reply sm')
  then show ?case using ProcessReply_Ok [OF accept_reply.hyps(2)] by (simp add: services_inv_def)
next
  case (reply reqs out regs sm r replies)
  have "services_inv glob (sm\<lparr>sv_replies := replies\<rparr>)" using reply by (simp add: services_inv_def)
  moreover obtain f where "processReply r (sm\<lparr>sv_replies := replies\<rparr>) = (sm\<lparr>sv_replies := replies\<rparr>)\<lparr>services := f\<rparr>"
    "\<forall>n s'. f n = Some s' \<longrightarrow> (\<exists>s. services (sm\<lparr>sv_replies := replies\<rparr>) n = Some s \<and> shrunk s s')"
    using reply_take_away by blast
  ultimately show ?case using take_away_inv by metis
next
  case (register reqs out regs sm ords q t ds sm')
  then show ?case using register_inv by blast
next
  case (command reqs out regs sm t ords c rep ds sm')
  show ?case by (rule take_away_cases [OF command.hyps(2,3)]) (use take_away_inv [OF command.IH] in blast)
next
  case (clean reqs out regs sm t)
  obtain f where "cleanupExpiredRequests t sm = sm\<lparr>services := f\<rparr>"
    "\<forall>n s'. f n = Some s' \<longrightarrow> (\<exists>s. services sm n = Some s \<and> shrunk s s')"
    using cleanup_take_away by blast
  then show ?case using take_away_inv [OF clean.IH] by simp
next
  case (stop reqs out regs sm)
  then show ?case by (simp add: services_inv_def Service_Stop_def)
qed

section \<open>Lemmas: order and credit\<close>

definition requests_for :: "bytes \<Rightarrow> bytes \<Rightarrow> ServiceReq list \<Rightarrow> ServiceReq list" where
  "requests_for n m rs = filter (\<lambda>r. rr_Service r = n \<and> rr_Method r = m) rs"

text \<open>The requests for a method of a service that still wait: in the queue, then in the channel.\<close>

definition waiting :: "bytes \<Rightarrow> bytes \<Rightarrow> ServiceManager \<Rightarrow> ServiceReq list" where
  "waiting n m sm = of_method m (service_queue n sm) @ requests_for n m (sv_requests sm)"

definition accounted_for :: "bytes \<Rightarrow> bytes \<Rightarrow> bytes \<Rightarrow> ServiceReq list \<Rightarrow> service_delivery list \<Rightarrow>
    (bytes \<times> bytes) list \<Rightarrow> ServiceManager \<Rightarrow> bool" where
  "accounted_for c n m reqs out regs sm \<longleftrightarrow>
     subseq (sent_to n m out @ waiting n m sm) (requests_for n m reqs) \<and>
     int (length (taken_by c n out)) + worker_credit (workers n sm) c \<le> DefaultCreditWindow * int (count_list regs (c, n))"

lemma requests_for_simps [simp]:
  "requests_for n m [] = []"
  "requests_for n m (r # rs) = (if rr_Service r = n \<and> rr_Method r = m then [r] else []) @ requests_for n m rs"
  "requests_for n m (rs @ rs') = requests_for n m rs @ requests_for n m rs'"
  by (simp_all add: requests_for_def)

lemma worker_credit_nonneg: "services_inv glob sm \<Longrightarrow> 0 \<le> worker_credit (workers n sm) c \<and> worker_credit (workers n sm) c \<le> DefaultCreditWindow"
  by (auto simp: worker_credit_def workers_def services_inv_def service_inv_def DefaultCreditWindow_def split: option.splits)

lemma subseq_of_method: "subseq ps qs \<Longrightarrow> subseq (of_method m ps) (of_method m qs)"
  unfolding of_method_def by (intro subseq_map subseq_filter)

lemma accounted_take_away:
  assumes "services_inv glob sm" "accounted_for c n m reqs out regs sm"
    and f: "\<And>n s'. f n = Some s' \<Longrightarrow> \<exists>s. services sm n = Some s \<and> shrunk s s'"
  shows "accounted_for c n m reqs out regs (sm\<lparr>services := f\<rparr>)"
proof -
  have q: "subseq (service_queue n (sm\<lparr>services := f\<rparr>)) (service_queue n sm)"
    using f [of n] by (cases "f n") (auto simp: service_queue_def shrunk_def)
  have "worker_credit (workers n (sm\<lparr>services := f\<rparr>)) c \<le> worker_credit (workers n sm) c"
  proof (cases "f n")
    case None
    then show ?thesis using worker_credit_nonneg [OF assms(1)] by (simp add: workers_def worker_credit_def)
  next
    case (Some s')
    then obtain s where "services sm n = Some s" "sv_Workers s' c = None \<or> sv_Workers s' c = sv_Workers s c"
      using f [OF Some] by (auto simp: shrunk_def)
    then show ?thesis using Some worker_credit_nonneg [OF assms(1), of n c] by (auto simp: workers_def worker_credit_def)
  qed
  moreover have "subseq (waiting n m (sm\<lparr>services := f\<rparr>)) (waiting n m sm)"
    using subseq_of_method [OF q] by (simp add: waiting_def subseq_append_left)
  ultimately show ?thesis using assms(2) subseq_keep by (auto simp: accounted_for_def)
qed

lemma queue_of_method_empty:
  assumes "service_inv glob n s" "available glob m (sv_Workers s)"
  shows "of_method m (sv_Queue s) = []"
  using assms by (auto simp: of_method_def service_inv_def filter_empty_conv)

lemma request_waiting:
  assumes inv: "services_inv glob sm" and q: "sv_requests sm = r # rs" and v: "visits ord (workers (rr_Service r) sm)"
    and p: "service_processRequest glob t ord r (sm\<lparr>sv_requests := rs\<rparr>) = (ds, sm')"
  shows "subseq (sent_to n m ds @ waiting n m sm') (waiting n m sm) \<and>
    worker_credit (workers n sm') c = worker_credit (workers n sm) c - int (length (taken_by c n ds))"
proof -
  have v': "visits ord (workers (rr_Service r) (sm\<lparr>sv_requests := rs\<rparr>))" using v by simp
  show ?thesis using p v'
  proof (cases rule: request_cases)
    case absent
    then show ?thesis by (auto simp: waiting_def q service_queue_def workers_def intro: list_emb_append_mono)
  next
    case (queued s)
    obtain x where x: "request_of x = r" "sq_Service x = rr_Service r" "sq_Method x = rr_Method r"
      "subseq (sv_Queue (queue_request (requestID sm + 1) r s)) (sv_Queue s @ [x])"
      using queue_request_queue [of r "requestID sm + 1" s] by blast
    have s: "services sm (rr_Service r) = Some s" using queued(1) by simp
    have "service_queue n sm' = (if n = rr_Service r then sv_Queue (queue_request (requestID sm + 1) r s) else service_queue n sm)"
      "sv_requests sm' = rs" "workers n sm' = workers n sm"
      using queued(4) s by (simp_all add: service_queue_def workers_def)
    moreover have "subseq (of_method m (sv_Queue (queue_request (requestID sm + 1) r s)) @ requests_for n m rs)
        ((of_method m (sv_Queue s) @ (if rr_Method r = m then [r] else [])) @ requests_for n m rs)"
      using subseq_of_method [OF x(4), of m] x(1,3) by (intro subseq_append_left) (auto split: if_splits)
    ultimately show ?thesis using queued(3) s by (auto simp: waiting_def q service_queue_def)
  next
    case (given s c' w)
    have s: "services sm (rr_Service r) = Some s" using given(1) by simp
    have "service_inv glob (rr_Service r) s" using inv s by (simp add: services_inv_def)
    moreover have "available glob (rr_Method r) (sv_Workers s)" using given(2,3) by (auto simp: available_def)
    ultimately have e: "of_method (rr_Method r) (sv_Queue s) = []" by (rule queue_of_method_empty)
    have "service_queue n sm' = service_queue n sm" "sv_requests sm' = rs"
      using given(5) s by (simp_all add: service_queue_def)
    then have "subseq (sent_to n m ds @ waiting n m sm') (waiting n m sm)"
      using e s by (auto simp: waiting_def given(4) q service_queue_def)
    moreover have "worker_credit (workers n sm') c = worker_credit (workers n sm) c - int (length (taken_by c n ds))"
      using given(5) s worker_credit_give [OF given(2), of t c] by (auto simp: workers_def given(4) simp del: give_request_frame(3))
    ultimately show ?thesis by blast
  qed
qed

lemma register_waiting:
  assumes inv: "services_inv glob sm" and r: "service_handleCommand glob t ords (CmdRegister q) sm = (Some SNil, ds, sm')"
    and v: "\<And>i. visits (ords i) ((workers (wr_Service q) sm)(wr_ClientID q \<mapsto> new_worker t q))"
  shows "subseq (sent_to n m ds @ waiting n m sm') (waiting n m sm) \<and>
    worker_credit (workers n sm') c + int (length (taken_by c n ds)) \<le>
      worker_credit (workers n sm) c + (if c = wr_ClientID q \<and> n = wr_Service q then DefaultCreditWindow else 0)"
proof (rule register_cases [OF inv r v])
  let ?W = "(workers (wr_Service q) sm)(wr_ClientID q \<mapsto> new_worker t q)"
  fix s valid s' assume s: "get_or_create_service t (wr_Service q) sm = Some s"
    and d: "dispatched glob t (service_queue (wr_Service q) sm) (s\<lparr>sv_Workers := ?W, sv_LastActivity := t\<rparr>) (valid, ds, s')"
    and sm': "sm' = sm\<lparr>services := (services sm)(wr_Service q \<mapsto> s'\<lparr>sv_Queue := valid\<rparr>)\<rparr>"
  have name: "sv_Name s = wr_Service q" using get_or_create_service_cases(1) [OF inv s] by (simp add: service_inv_def)
  have nonneg: "0 \<le> worker_credit (workers n sm) c" using worker_credit_nonneg [OF inv] by blast
  show ?thesis
  proof (cases "n = wr_Service q")
    case True
    have "subseq ((sent_to n m ds @ of_method m valid) @ requests_for n m (sv_requests sm))
        (of_method m (service_queue n sm) @ requests_for n m (sv_requests sm))"
      using d True name by (intro subseq_append_left) (simp add: dispatched_def)
    then have "subseq (sent_to n m ds @ waiting n m sm') (waiting n m sm)"
      using True by (simp add: waiting_def service_queue_def sm')
    moreover have "worker_credit (workers n sm') c = worker_credit ?W c - int (length (taken_by c n ds))"
      using d True name by (simp add: dispatched_def workers_def sm')
    moreover have "worker_credit ?W c = (if c = wr_ClientID q then DefaultCreditWindow else worker_credit (workers n sm) c)"
      using True by (simp add: worker_credit_def new_worker_def)
    ultimately show ?thesis using True nonneg by auto
  next
    case False
    have out: "\<forall>x \<in> set ds. fst x \<noteq> n" using d False name by (simp add: dispatched_def)
    then have "sent_to n m ds = []" "taken_by c n ds = []"
      by (auto simp: sent_to_def taken_by_def filter_empty_conv)
    then show ?thesis using False by (simp add: waiting_def service_queue_def workers_def sm')
  qed
qed

lemma accounted_step:
  assumes "accounted_for c n m reqs out regs sm" "subseq (sent_to n m ds @ waiting n m sm') (waiting n m sm)"
    and "worker_credit (workers n sm') c + int (length (taken_by c n ds)) \<le>
      worker_credit (workers n sm) c + DefaultCreditWindow * int (count_list regs' (c, n))"
  shows "accounted_for c n m reqs (out @ ds) (regs @ regs') sm'"
proof -
  have o: "subseq (sent_to n m out @ waiting n m sm) (requests_for n m reqs)" using assms(1) by (simp add: accounted_for_def)
  have "count_list (regs @ regs') (c, n) = count_list regs (c, n) + count_list regs' (c, n)" by simp
  then show ?thesis
    using assms(1,3) subseq_step [OF o assms(2)] by (simp add: accounted_for_def algebra_simps)
qed

lemma service_run_accounted: "service_run glob reqs out regs sm \<Longrightarrow> accounted_for c n m reqs out regs sm"
proof (induction rule: service_run.induct)
  case (new k t)
  then show ?case
    by (simp add: accounted_for_def waiting_def service_queue_def workers_def worker_credit_def NewServiceManager_def)
next
  case (accept reqs out regs sm t pick r sm')
  have sm': "waiting n m sm' = waiting n m sm @ requests_for n m [r\<lparr>rr_Timestamp := t\<rparr>]" "workers n sm' = workers n sm"
    using ProcessRequest_Ok [OF accept.hyps(2)] by (simp_all add: waiting_def service_queue_def workers_def)
  have "subseq (sent_to n m out @ waiting n m sm) (requests_for n m reqs)" using accept.IH by (simp add: accounted_for_def)
  from subseq_append_left [OF this, of "requests_for n m [r\<lparr>rr_Timestamp := t\<rparr>]"] show ?case
    using accept.IH sm' by (simp add: accounted_for_def)
next
  case (request reqs out regs sm r rs ord t ds sm')
  show ?case
    using request_waiting [OF service_run_inv [OF request.hyps(1)] request.hyps(2-4), of n m c]
      accounted_step [OF request.IH, of ds sm' "[]"] by simp
next
  case (accept_reply reqs out regs sm t pick reply sm')
  then show ?case
    using ProcessReply_Ok [OF accept_reply.hyps(2)] by (simp add: accounted_for_def waiting_def service_queue_def workers_def)
next
  case (reply reqs out regs sm r replies)
  let ?sm = "sm\<lparr>sv_replies := replies\<rparr>"
  have "services_inv glob ?sm" "accounted_for c n m reqs out regs ?sm"
    using service_run_inv [OF reply.hyps(1)] reply.IH
    by (simp_all add: services_inv_def accounted_for_def waiting_def service_queue_def workers_def)
  then show ?case using reply_take_away [of r ?sm] accounted_take_away by metis
next
  case (register reqs out regs sm ords q t ds sm')
  show ?case
    using register_waiting [OF service_run_inv [OF register.hyps(1)] register.hyps(3,2), of n m c]
      accounted_step [OF register.IH, of ds sm' "[(wr_ClientID q, wr_Service q)]"] by (auto split: if_splits)
next
  case (command reqs out regs sm t ords cmd rep ds sm')
  show ?case
    by (rule take_away_cases [OF command.hyps(2,3)])
      (use accounted_take_away [OF service_run_inv [OF command.hyps(1)] command.IH] in blast)
next
  case (clean reqs out regs sm t)
  show ?case
    using cleanup_take_away [of t sm] accounted_take_away [OF service_run_inv [OF clean.hyps] clean.IH] by metis
next
  case (stop reqs out regs sm)
  then show ?case by (simp add: accounted_for_def waiting_def service_queue_def workers_def Service_Stop_def)
qed

section \<open>Theorems\<close>

text \<open>
  Services serve the requests for a method in order. In every interleaving, whatever
  workers register and withdraw and in whichever order they are considered, the requests
  delivered for a method of a service, followed by those waiting in its queue and in the channel,
  are accepted requests for that method, in the order of acceptance and each at most once. A
  worker has received at most 1000 requests for every time it registered, less the credit it has
  left.
\<close>

theorem service_delivers_in_order:
  assumes "service_run glob reqs out regs sm"
  shows "subseq (sent_to n m out @ waiting n m sm) (requests_for n m reqs) \<and>
    int (length (taken_by c n out)) + worker_credit (workers n sm) c \<le> 1000 * int (count_list regs (c, n)) \<and>
    0 \<le> worker_credit (workers n sm) c \<and> worker_credit (workers n sm) c \<le> 1000"
  using service_run_accounted [OF assms, of c n m] worker_credit_nonneg [OF service_run_inv [OF assms], of n c]
  by (simp add: accounted_for_def DefaultCreditWindow_def)

definition sample_worker :: workerRequest where
  "sample_worker = \<lparr>wr_Service = [1], wr_ClientID = [7], wr_Pattern = str ''*'', wr_Attributes = Map.empty\<rparr>"

definition sample_req :: ServiceReq where
  "sample_req = \<lparr>rr_Service = [1], rr_Method = [2], rr_Sender = [3], rr_Tracker = [], rr_Body = [4],
     rr_Attributes = Map.empty, rr_Timeout = 50, rr_Timestamp = 6\<rparr>"

definition sample_registered :: ServiceManager where
  "sample_registered = snd (snd (service_handleCommand (\<lambda>_ _. None) 5 (\<lambda>_. [[7]]) (CmdRegister sample_worker) (NewServiceManager 10 100)))"

definition sample_served :: ServiceManager where
  "sample_served = snd (service_processRequest (\<lambda>_ _. None) 6 [[7]] sample_req sample_registered)"

lemma sample_registered_state:
  "service_handleCommand (\<lambda>_ _. None) 5 (\<lambda>_. [[7]]) (CmdRegister sample_worker) (NewServiceManager 10 100) =
     (Some SNil, [], sample_registered)"
  "sample_registered = (NewServiceManager 10 100)\<lparr>services := [[1] \<mapsto> (new_service 5 [1])\<lparr>sv_Workers := [[7] \<mapsto> new_worker 5 sample_worker]\<rparr>]\<rparr>"
  by (simp_all add: sample_registered_def service_handleCommand_def handleRegisterWorker_def get_or_create_service_def
      new_service_def NewServiceManager_def sample_worker_def dispatchQueuedRequests_def)

lemma sample_registered_run: "service_run (\<lambda>_ _. None) [] [] [([7], [1])] sample_registered"
proof -
  have "service_run (\<lambda>_ _. None) [] ([] @ []) ([] @ [(wr_ClientID sample_worker, wr_Service sample_worker)]) sample_registered"
    by (rule service_run.register [OF service_run.new _ sample_registered_state(1)])
      (simp add: visits_def workers_def NewServiceManager_def sample_worker_def)
  then show ?thesis by (simp add: sample_worker_def)
qed

lemma sample_served_run:
  "service_run (\<lambda>_ _. None) [sample_req] [([1], [7], sample_req)] [([7], [1])] sample_served"
proof -
  let ?sm = "sample_registered\<lparr>sv_requests := [sample_req]\<rparr>"
  have empty: "sv_requests sample_registered = []" "\<not> sv_cancelled sample_registered"
    by (simp_all add: sample_registered_state(2) NewServiceManager_def)
  have "ProcessRequest 6 True sample_req sample_registered = (Ok (), ?sm)"
    using empty by (simp add: ProcessRequest_def sample_req_def MaxMessageSize_def)
  from service_run.accept [OF sample_registered_run this]
  have run: "service_run (\<lambda>_ _. None) [sample_req] [] [([7], [1])] ?sm" by (simp add: sample_req_def)
  have eq: "?sm\<lparr>sv_requests := []\<rparr> = sample_registered" by (simp add: sample_registered_state(2) NewServiceManager_def)
  have p: "service_processRequest (\<lambda>_ _. None) 6 [[7]] sample_req (?sm\<lparr>sv_requests := []\<rparr>) = ([([1], [7], sample_req)], sample_served)"
    unfolding eq sample_served_def
    by (simp add: service_processRequest_def sample_registered_state(2) NewServiceManager_def sample_req_def
        findAvailableWorker_def can_serve_def worker_matchesPattern_def new_worker_def sample_worker_def DefaultCreditWindow_def)
  have "service_run (\<lambda>_ _. None) [sample_req] ([] @ [([1], [7], sample_req)]) [([7], [1])] sample_served"
    by (rule service_run.request [OF run _ _ p])
      (simp_all add: visits_def workers_def sample_registered_state(2) NewServiceManager_def sample_req_def)
  then show ?thesis by simp
qed

theorem service_delivers_in_order_witness:
  "sent_to [1] [2] [([1], [7], sample_req)] = [sample_req] \<and> worker_credit (workers [1] sample_served) [7] \<le> 999"
  using service_delivers_in_order [OF sample_served_run, of "[1]" "[2]" "[7]"] by (simp add: sample_req_def)

text \<open>
  No request waits beside a worker that could take it. In every reachable state, no worker
  of a service has credit and a pattern matching a request in the queue of that service; queue
  and number of services are within their limits. When a worker registers, every queued request
  that has not expired is delivered or stays in the queue, in order; and again none stays that a
  worker could take.
\<close>

theorem service_work_conserving:
  assumes "service_run glob reqs out regs sm"
  shows "(\<forall>s q c w. services sm n = Some s \<longrightarrow> q \<in> set (sv_Queue s) \<longrightarrow> sv_Workers s c = Some w \<longrightarrow>
      \<not> (wk_Credit w > 0 \<and> worker_matchesPattern glob (sq_Method q) (wk_Pattern w))) \<and>
    (\<forall>s. services sm n = Some s \<longrightarrow> length (sv_Queue s) \<le> 10000) \<and>
    int (card (dom (services sm))) \<le> max 0 (maxServices sm) \<and>
    ((\<forall>i. visits (ords i) ((workers (wr_Service q) sm)(wr_ClientID q \<mapsto> new_worker t q))) \<longrightarrow>
      service_handleCommand glob t ords (CmdRegister q) sm = (Some SNil, ds, sm') \<longrightarrow>
      (subseq (service_queue (wr_Service q) sm') (service_queue (wr_Service q) sm) \<and>
       (\<forall>x \<in> set (service_queue (wr_Service q) sm). sq_Timeout x > t \<longrightarrow>
          x \<in> set (service_queue (wr_Service q) sm') \<or> (\<exists>c. (wr_Service q, c, request_of x) \<in> set ds)) \<and>
       (\<forall>x \<in> set (service_queue (wr_Service q) sm'). \<not> available glob (sq_Method x) (workers (wr_Service q) sm'))))"
proof (intro conjI impI)
  have inv: "services_inv glob sm" by (rule service_run_inv [OF assms])
  show "\<forall>s q c w. services sm n = Some s \<longrightarrow> q \<in> set (sv_Queue s) \<longrightarrow> sv_Workers s c = Some w \<longrightarrow>
      \<not> (wk_Credit w > 0 \<and> worker_matchesPattern glob (sq_Method q) (wk_Pattern w))"
    using inv unfolding services_inv_def service_inv_def available_def can_serve_def by blast
  show "\<forall>s. services sm n = Some s \<longrightarrow> length (sv_Queue s) \<le> 10000"
    using inv by (auto simp: services_inv_def service_inv_def MaxServiceBacklog_def)
  show "int (card (dom (services sm))) \<le> max 0 (maxServices sm)" using inv by (simp add: services_inv_def)
  assume v: "\<forall>i. visits (ords i) ((workers (wr_Service q) sm)(wr_ClientID q \<mapsto> new_worker t q))"
    and r: "service_handleCommand glob t ords (CmdRegister q) sm = (Some SNil, ds, sm')"
  show "subseq (service_queue (wr_Service q) sm') (service_queue (wr_Service q) sm)"
    by (rule register_cases [OF inv r]) (use v in \<open>auto simp: dispatched_def service_queue_def\<close>)
  show "\<forall>x \<in> set (service_queue (wr_Service q) sm). sq_Timeout x > t \<longrightarrow>
      x \<in> set (service_queue (wr_Service q) sm') \<or> (\<exists>c. (wr_Service q, c, request_of x) \<in> set ds)"
  proof (rule register_cases [OF inv r])
    fix s valid s' assume s: "get_or_create_service t (wr_Service q) sm = Some s"
      and d: "dispatched glob t (service_queue (wr_Service q) sm)
        (s\<lparr>sv_Workers := (workers (wr_Service q) sm)(wr_ClientID q \<mapsto> new_worker t q), sv_LastActivity := t\<rparr>) (valid, ds, s')"
      and sm': "sm' = sm\<lparr>services := (services sm)(wr_Service q \<mapsto> s'\<lparr>sv_Queue := valid\<rparr>)\<rparr>"
    have "sv_Name s = wr_Service q" "service_queue (wr_Service q) sm' = valid"
      using get_or_create_service_cases(1) [OF inv s] sm' by (simp_all add: service_inv_def service_queue_def)
    then show ?thesis using d by (simp add: dispatched_def)
  qed (use v in blast)
  have "services_inv glob sm'" by (rule register_inv [OF inv r]) (use v in blast)
  then show "\<forall>x \<in> set (service_queue (wr_Service q) sm'). \<not> available glob (sq_Method x) (workers (wr_Service q) sm')"
    by (auto simp: services_inv_def service_inv_def service_queue_def workers_def split: option.splits)
qed

theorem service_work_conserving_witness:
  "\<exists>ds sm'. service_handleCommand (\<lambda>_ _. None) 5 (\<lambda>_. [[7]]) (CmdRegister sample_worker) (NewServiceManager 10 100) =
       (Some SNil, ds, sm') \<and> service_queue [1] sm' = []"
proof -
  have run: "service_run (\<lambda>_ _. None) [] [] [] (NewServiceManager 10 100)" by (rule service_run.new)
  have v: "\<forall>i. visits [[7]] ((workers (wr_Service sample_worker) (NewServiceManager 10 100))(wr_ClientID sample_worker \<mapsto> new_worker 5 sample_worker))"
    by (simp add: visits_def workers_def NewServiceManager_def sample_worker_def)
  have n: "wr_Service sample_worker = [1]" by (simp add: sample_worker_def)
  have "subseq (service_queue (wr_Service sample_worker) sample_registered) (service_queue (wr_Service sample_worker) (NewServiceManager 10 100))"
    using service_work_conserving [OF run, of "[1]" "\<lambda>_. [[7]]" sample_worker 5 "[]" sample_registered] v
      sample_registered_state(1) by blast
  then have "service_queue [1] sample_registered = []" unfolding n by (simp add: service_queue_def NewServiceManager_def)
  then show ?thesis using sample_registered_state(1) by blast
qed

text \<open>
  \<^verbatim>\<open>RestoreCredit\<close> of a worker never succeeds either: no case of \<^verbatim>\<open>handleCommand\<close> answers it.
\<close>

theorem worker_credit_not_restored:
  "snd (service_RestoreCredit pick served n c k sm) = sm \<and>
   fst (service_RestoreCredit pick served n c k sm) \<in> {None, Some (Err CtxDone)} \<and>
   (\<not> sv_cancelled sm \<longrightarrow> fst (service_RestoreCredit pick served n c k sm) = None \<and>
      fst (UnregisterWorker pick served n c sm) = Some (Ok ()) \<and> fst (RegisterWorker glob pick served t ords q sm) \<noteq> None)"
  by (auto simp: service_RestoreCredit_def UnregisterWorker_def RegisterWorker_def service_command_def service_call_def
      service_handleCommand_def split: option.splits prod.splits service_reply.splits)

end
