(* ===== verification/Malamute_Broker.thy ===== *)
theory Malamute_Broker
  imports Zmtp_Msg Malamute_Mailbox Malamute_Service
begin

text \<open>
  The Malamute broker (\<^verbatim>\<open>malamute/broker.go\<close>): the table of clients, the dispatch of their messages to the
  managers of credit, streams, mailboxes and services, the queues between its loops, and the statistics.
  The broker stops its managers only after its own loops, so that the contexts of the managers are not cancelled while
  a message is handled. \<open>MlmEnv\<close> collects what is not in the repository or is left open by the language: the methods of
  messages that no file defines, the order of a map, the text of an error, and the glob library.
\<close>

section \<open>Data\<close>

record BrokerConfig =
  bc_Name :: bytes
  bc_Endpoint :: bytes
  bc_CreditWindow :: int
  bc_HeartbeatInterval :: int
  bc_ClientTimeout :: int
  bc_ServiceTimeout :: int
  bc_MaxConnections :: int
  bc_MaxStreams :: int
  bc_MaxMailboxes :: int
  bc_MaxServices :: int
  bc_StreamRetention :: int
  bc_MailboxRetention :: int

record MlmClient =
  mc_ID :: bytes
  mc_Type :: int
  mc_Address :: bytes
  mc_Credit :: int
  mc_Attributes :: "bytes \<rightharpoonup> bytes"
  mc_ConnectedAt :: int
  mc_LastActivity :: int

record BrokerStatistics =
  bs_TotalConnections :: "64 word"
  bs_ActiveConnections :: "64 word"
  bs_MessagesReceived :: "64 word"
  bs_MessagesSent :: "64 word"
  bs_BytesReceived :: "64 word"
  bs_BytesSent :: "64 word"
  bs_StreamMessages :: "64 word"
  bs_StreamBytes :: "64 word"
  bs_MailboxMessages :: "64 word"
  bs_MailboxBytes :: "64 word"
  bs_ServicesRegistered :: "64 word"
  bs_ServiceRequests :: "64 word"
  bs_ServiceReplies :: "64 word"
  bs_StartTime :: int
  bs_LastUpdate :: int

record HeartbeatEvent =
  hv_ClientID :: bytes
  hv_Timestamp :: int
  hv_Type :: bytes

record MlmBroker =
  mlb_config :: BrokerConfig
  mlb_credit :: CreditController
  mlb_streams :: StreamManager
  mlb_mailboxes :: MailboxManager
  mlb_services :: ServiceManager
  mlb_clients :: "bytes \<rightharpoonup> MlmClient"
  mlb_messages :: "(bytes \<times> MlmMessage) list"
  mlb_responses :: "(bytes \<times> MlmMessage) list"
  mlb_heartbeats :: "HeartbeatEvent list"
  mlb_state :: nat
  mlb_statistics :: BrokerStatistics
  mlb_sequence :: "32 word"
  mlb_sent :: "Msg list"

record ServiceRequestMessage =
  sq_Service :: bytes
  sq_Method :: bytes
  sq_Tracker :: bytes
  sq_Timeout :: "64 word"
  sq_Attributes :: "bytes \<rightharpoonup> bytes"
  sq_Body :: bytes

record MlmEnv =
  ping_Unmarshal :: "bytes \<Rightarrow> int result"
  pong_Marshal :: "int \<Rightarrow> bytes result"
  request_Unmarshal :: "bytes \<Rightarrow> ServiceRequestMessage result"
  confirm_Marshal :: "int \<Rightarrow> bytes result"
  map_order :: key_order
  error_text :: "go_error \<Rightarrow> bytes"
  glob_match :: glob

definition zero_statistics :: "int \<Rightarrow> BrokerStatistics" where
  "zero_statistics now = \<lparr>bs_TotalConnections = 0, bs_ActiveConnections = 0, bs_MessagesReceived = 0, bs_MessagesSent = 0, bs_BytesReceived = 0,
     bs_BytesSent = 0, bs_StreamMessages = 0, bs_StreamBytes = 0, bs_MailboxMessages = 0, bs_MailboxBytes = 0, bs_ServicesRegistered = 0,
     bs_ServiceRequests = 0, bs_ServiceReplies = 0, bs_StartTime = now, bs_LastUpdate = 0\<rparr>"

definition DefaultBrokerConfig :: BrokerConfig where
  "DefaultBrokerConfig = \<lparr>bc_Name = str ''malamute'', bc_Endpoint = str ''tcp://localhost:9999'', bc_CreditWindow = DefaultCreditWindow,
     bc_HeartbeatInterval = 5000 * 1000000, bc_ClientTimeout = 60000 * 1000000, bc_ServiceTimeout = 30000 * 1000000,
     bc_MaxConnections = 1000, bc_MaxStreams = 1000, bc_MaxMailboxes = 10000, bc_MaxServices = 1000,
     bc_StreamRetention = 24 * Hour, bc_MailboxRetention = 7 * 24 * Hour\<rparr>"

definition NewMlmBroker :: "int \<Rightarrow> BrokerConfig option \<Rightarrow> MlmBroker" where
  "NewMlmBroker now config =
     (let config = (case config of None \<Rightarrow> DefaultBrokerConfig | Some c \<Rightarrow> c) in
      \<lparr>mlb_config = config, mlb_credit = NewCreditController (bc_CreditWindow config),
       mlb_streams = NewStreamManager (bc_MaxStreams config) (bc_StreamRetention config),
       mlb_mailboxes = NewMailboxManager (bc_MaxMailboxes config) (bc_MailboxRetention config),
       mlb_services = NewServiceManager (bc_MaxServices config) (bc_ServiceTimeout config),
       mlb_clients = Map.empty, mlb_messages = [], mlb_responses = [], mlb_heartbeats = [], mlb_state = 0,
       mlb_statistics = zero_statistics now, mlb_sequence = 0, mlb_sent = []\<rparr>)"

text \<open>The zero values into which messages are unmarshalled.\<close>

definition zero_MlmMessage :: MlmMessage where
  "zero_MlmMessage = \<lparr>Type = 0, Version = 0, Sequence = 0, ClientID = [], Attributes = Map.empty, Body = []\<rparr>"

definition zero_StreamWrite :: StreamWriteMessage where
  "zero_StreamWrite = \<lparr>sw_Stream = [], sw_Subject = [], sw_Attributes = Map.empty, sw_Body = []\<rparr>"

definition zero_MailboxSend :: MailboxSendMessage where
  "zero_MailboxSend = \<lparr>ms_Address = [], ms_Subject = [], ms_Tracker = [], ms_Timeout = 0, ms_Attributes = Map.empty, ms_Body = []\<rparr>"

section \<open>Helpers\<close>

definition mlb_stats :: "(BrokerStatistics \<Rightarrow> BrokerStatistics) \<Rightarrow> MlmBroker \<Rightarrow> MlmBroker" where
  "mlb_stats f b = b\<lparr>mlb_statistics := f (mlb_statistics b)\<rparr>"

definition queueResponse :: "bytes \<Rightarrow> MlmMessage \<Rightarrow> MlmBroker \<Rightarrow> MlmBroker" where
  "queueResponse clientID message b =
     (if length (mlb_responses b) < 10000 then b\<lparr>mlb_responses := mlb_responses b @ [(clientID, message)]\<rparr> else b)"

definition mlb_sendError :: "MlmEnv \<Rightarrow> bytes \<Rightarrow> int \<Rightarrow> bytes \<Rightarrow> 32 word \<Rightarrow> MlmBroker \<Rightarrow> MlmBroker" where
  "mlb_sendError env clientID code reason seqno b = queueResponse clientID (CreateErrorMessage (map_order env) code reason clientID seqno) b"

definition mlb_nextSequence :: "MlmBroker \<Rightarrow> 32 word \<times> MlmBroker" where
  "mlb_nextSequence b = (mlb_sequence b + 1, b\<lparr>mlb_sequence := mlb_sequence b + 1\<rparr>)"

definition updateClientActivity :: "int \<Rightarrow> bytes \<Rightarrow> MlmBroker \<Rightarrow> MlmBroker" where
  "updateClientActivity now clientID b =
     (case mlb_clients b clientID of
        None \<Rightarrow> b
      | Some client \<Rightarrow> b\<lparr>mlb_clients := (mlb_clients b)(clientID \<mapsto> client\<lparr>mc_LastActivity := now\<rparr>)\<rparr>)"

definition removeClient :: "int \<Rightarrow> bytes \<Rightarrow> MlmBroker \<Rightarrow> MlmBroker" where
  "removeClient now clientID b =
     (case mlb_clients b clientID of
        None \<Rightarrow> b
      | Some _ \<Rightarrow>
          (mlb_stats (\<lambda>st. st\<lparr>bs_ActiveConnections := bs_ActiveConnections st - 1\<rparr>) b)
            \<lparr>mlb_clients := (mlb_clients b)(clientID := None),
             mlb_credit := RemoveClient clientID (mlb_credit b),
             mlb_streams := snd (stream_command True True now (CmdRemoveClient clientID) (mlb_streams b)),
             mlb_mailboxes := handleRemoveClient clientID (mlb_mailboxes b),
             mlb_services := snd (service_command True True (CmdRemove clientID) (mlb_services b))\<rparr>)"

text \<open>
  \<^verbatim>\<open>RequestCredit\<close>: the request is queued and the loop of the controller serves the queue up to it; \<open>slow\<close>: not within
  five seconds.
\<close>

fun serve_requests :: "int \<Rightarrow> CreditRequest list \<Rightarrow> CreditController \<Rightarrow> CreditResponse option \<times> CreditController" where
  "serve_requests now [] cc = (None, cc\<lparr>requests := []\<rparr>)"
| "serve_requests now (rq # rqs) cc =
     (case processRequest now rq cc of (response, cc) \<Rightarrow>
        if rqs = [] then (Some response, cc\<lparr>requests := []\<rparr>) else serve_requests now rqs cc)"

definition RequestCredit :: "int \<Rightarrow> bool \<Rightarrow> bytes \<Rightarrow> int \<Rightarrow> CreditController \<Rightarrow> CreditResponse result \<times> CreditController" where
  "RequestCredit now slow clientID amount cc =
     (case RequestCredit_send True clientID amount cc of
        (Err e, cc) \<Rightarrow> (Err e, cc)
      | (Panic m, cc) \<Rightarrow> (Panic m, cc)
      | (Ok _, cc) \<Rightarrow>
          if slow then (Err (Errorf ''credit request timeout''), cc)
          else case serve_requests now (requests cc) cc of
              (None, cc) \<Rightarrow> (Err (Errorf ''credit request timeout''), cc)
            | (Some response, cc) \<Rightarrow>
                (case rs_Error response of None \<Rightarrow> Ok response | Some e \<Rightarrow> Err e, cc))"

section \<open>Messages of clients\<close>

definition handleConnectionOpen :: "MlmEnv \<Rightarrow> int \<Rightarrow> bytes \<Rightarrow> MlmMessage \<Rightarrow> MlmBroker \<Rightarrow> MlmBroker" where
  "handleConnectionOpen env now clientID message b =
     (case ConnectionOpen_Unmarshal (Body message) of
        Ok openMsg \<Rightarrow>
          if int (card (dom (mlb_clients b))) \<ge> bc_MaxConnections (mlb_config b)
          then mlb_sendError env clientID 8 (str ''Maximum connections exceeded'') (Sequence message) b
          else
            mlb_stats (\<lambda>st. st\<lparr>bs_TotalConnections := bs_TotalConnections st + 1, bs_ActiveConnections := bs_ActiveConnections st + 1\<rparr>)
              (b\<lparr>mlb_clients := (mlb_clients b)(clientID \<mapsto> \<lparr>mc_ID = co_ClientID openMsg, mc_Type = co_ClientType openMsg,
                 mc_Address = clientID, mc_Credit = 0, mc_Attributes = co_Attributes openMsg, mc_ConnectedAt = now, mc_LastActivity = now\<rparr>)\<rparr>)
      | _ \<Rightarrow> mlb_sendError env clientID 1 (str ''Invalid connection open message'') (Sequence message) b)"

definition handleConnectionPing :: "MlmEnv \<Rightarrow> int \<Rightarrow> bytes \<Rightarrow> MlmMessage \<Rightarrow> MlmBroker \<Rightarrow> MlmBroker" where
  "handleConnectionPing env now clientID message b =
     (case ping_Unmarshal env (Body message) of
        Ok stamp \<Rightarrow>
          let body = (case pong_Marshal env stamp of Ok bs \<Rightarrow> bs | _ \<Rightarrow> []);
              (n, b) = mlb_nextSequence b;
              b = queueResponse clientID ((CreateMessage 3 clientID n)\<lparr>Body := body\<rparr>) b in
          if length (mlb_heartbeats b) < 1000
          then b\<lparr>mlb_heartbeats := mlb_heartbeats b @ [\<lparr>hv_ClientID = clientID, hv_Timestamp = now, hv_Type = str ''ping''\<rparr>]\<rparr>
          else b
      | _ \<Rightarrow> b)"

definition handleConnectionClose :: "int \<Rightarrow> bytes \<Rightarrow> MlmMessage \<Rightarrow> MlmBroker \<Rightarrow> MlmBroker" where
  "handleConnectionClose now clientID message b = removeClient now clientID b"

text \<open>The credit is used before the message is handed on, and not given back when that fails.\<close>

definition handleStreamWrite :: "MlmEnv \<Rightarrow> int \<Rightarrow> bytes \<Rightarrow> MlmMessage \<Rightarrow> MlmBroker \<Rightarrow> MlmBroker" where
  "handleStreamWrite env now clientID message b =
     (if \<not> CheckCredit clientID 1 (mlb_credit b)
      then mlb_sendError env clientID 8 (str ''Insufficient credit'') (Sequence message) b
      else case StreamWrite_Unmarshal zero_StreamWrite (Body message) of
          Ok writeMsg \<Rightarrow>
            let b = b\<lparr>mlb_credit := snd (UseCredit clientID 1 (mlb_credit b))\<rparr> in
            (case WriteMessage now True \<lparr>sp_Stream = sw_Stream writeMsg, sp_Subject = sw_Subject writeMsg, sp_Sender = clientID,
                    sp_Body = sw_Body writeMsg, sp_Attributes = sw_Attributes writeMsg, sp_Timestamp = now\<rparr> (mlb_streams b) of
               (Ok _, sm) \<Rightarrow>
                 mlb_stats (\<lambda>st. st\<lparr>bs_StreamMessages := bs_StreamMessages st + 1, bs_StreamBytes := bs_StreamBytes st + of_nat (length (sw_Body writeMsg))\<rparr>)
                   (b\<lparr>mlb_streams := sm\<rparr>)
             | (Err e, sm) \<Rightarrow> mlb_sendError env clientID 5 (error_text env e) (Sequence message) (b\<lparr>mlb_streams := sm\<rparr>)
             | (Panic m, sm) \<Rightarrow> b\<lparr>mlb_streams := sm\<rparr>)
        | _ \<Rightarrow> mlb_sendError env clientID 1 (str ''Invalid stream write message'') (Sequence message) b)"

definition handleStreamRead :: "MlmEnv \<Rightarrow> int \<Rightarrow> bytes \<Rightarrow> MlmMessage \<Rightarrow> MlmBroker \<Rightarrow> MlmBroker" where
  "handleStreamRead env now clientID message b =
     (case StreamRead_Unmarshal (Body message) of
        Ok readMsg \<Rightarrow>
          (case Subscribe True True now \<lparr>su_ClientID = clientID, su_Stream = sr_Stream readMsg, su_Pattern = sr_Pattern readMsg,
                  su_Attributes = sr_Attributes readMsg\<rparr> (mlb_streams b) of
             (Some (Err e), sm) \<Rightarrow> mlb_sendError env clientID 5 (error_text env e) (Sequence message) (b\<lparr>mlb_streams := sm\<rparr>)
           | (_, sm) \<Rightarrow> b\<lparr>mlb_streams := sm\<rparr>)
      | _ \<Rightarrow> mlb_sendError env clientID 1 (str ''Invalid stream read message'') (Sequence message) b)"

definition handleMailboxSend :: "MlmEnv \<Rightarrow> int \<Rightarrow> bytes \<Rightarrow> MlmMessage \<Rightarrow> MlmBroker \<Rightarrow> MlmBroker" where
  "handleMailboxSend env now clientID message b =
     (case MailboxSend_Unmarshal zero_MailboxSend (Body message) of
        Ok sendMsg \<Rightarrow>
          (case SendMessage now True \<lparr>dl_Address = ms_Address sendMsg, dl_Subject = ms_Subject sendMsg, dl_Sender = clientID,
                  dl_Tracker = ms_Tracker sendMsg, dl_Body = ms_Body sendMsg, dl_Attributes = ms_Attributes sendMsg,
                  dl_Timeout = sint (ms_Timeout sendMsg * 1000000), dl_Timestamp = now\<rparr> (mlb_mailboxes b) of
             (Ok _, mm) \<Rightarrow>
               mlb_stats (\<lambda>st. st\<lparr>bs_MailboxMessages := bs_MailboxMessages st + 1, bs_MailboxBytes := bs_MailboxBytes st + of_nat (length (ms_Body sendMsg))\<rparr>)
                 (b\<lparr>mlb_mailboxes := mm\<rparr>)
           | (Err e, mm) \<Rightarrow> mlb_sendError env clientID 5 (error_text env e) (Sequence message) (b\<lparr>mlb_mailboxes := mm\<rparr>)
           | (Panic m, mm) \<Rightarrow> b\<lparr>mlb_mailboxes := mm\<rparr>)
      | _ \<Rightarrow> mlb_sendError env clientID 1 (str ''Invalid mailbox send message'') (Sequence message) b)"

text \<open>\<open>ords\<close>: the orders in which the search for a worker visits the workers of the service.\<close>

definition handleServiceOffer :: "MlmEnv \<Rightarrow> int \<Rightarrow> (nat \<Rightarrow> bytes list) \<Rightarrow> bytes \<Rightarrow> MlmMessage \<Rightarrow> MlmBroker \<Rightarrow> MlmBroker" where
  "handleServiceOffer env now ords clientID message b =
     (case ServiceOffer_Unmarshal (Body message) of
        Ok offerMsg \<Rightarrow>
          (case RegisterWorker (glob_match env) True True now ords \<lparr>wr_Service = so_Service offerMsg, wr_ClientID = clientID,
                  wr_Pattern = so_Pattern offerMsg, wr_Attributes = so_Attributes offerMsg\<rparr> (mlb_services b) of
             (Some (Err e), _, sm) \<Rightarrow> mlb_sendError env clientID 5 (error_text env e) (Sequence message) (b\<lparr>mlb_services := sm\<rparr>)
           | (_, _, sm) \<Rightarrow> mlb_stats (\<lambda>st. st\<lparr>bs_ServicesRegistered := bs_ServicesRegistered st + 1\<rparr>) (b\<lparr>mlb_services := sm\<rparr>))
      | _ \<Rightarrow> mlb_sendError env clientID 1 (str ''Invalid service offer message'') (Sequence message) b)"

definition handleServiceRequest :: "MlmEnv \<Rightarrow> int \<Rightarrow> bytes \<Rightarrow> MlmMessage \<Rightarrow> MlmBroker \<Rightarrow> MlmBroker" where
  "handleServiceRequest env now clientID message b =
     (case request_Unmarshal env (Body message) of
        Ok requestMsg \<Rightarrow>
          (case ProcessRequest now True \<lparr>rr_Service = sq_Service requestMsg, rr_Method = sq_Method requestMsg, rr_Sender = clientID,
                  rr_Tracker = sq_Tracker requestMsg, rr_Body = sq_Body requestMsg, rr_Attributes = sq_Attributes requestMsg,
                  rr_Timeout = sint (sq_Timeout requestMsg * 1000000), rr_Timestamp = now\<rparr> (mlb_services b) of
             (Ok _, sm) \<Rightarrow> mlb_stats (\<lambda>st. st\<lparr>bs_ServiceRequests := bs_ServiceRequests st + 1\<rparr>) (b\<lparr>mlb_services := sm\<rparr>)
           | (Err e, sm) \<Rightarrow> mlb_sendError env clientID 5 (error_text env e) (Sequence message) (b\<lparr>mlb_services := sm\<rparr>)
           | (Panic m, sm) \<Rightarrow> b\<lparr>mlb_services := sm\<rparr>)
      | _ \<Rightarrow> mlb_sendError env clientID 1 (str ''Invalid service request message'') (Sequence message) b)"

definition handleServiceReply :: "bytes \<Rightarrow> MlmMessage \<Rightarrow> MlmBroker \<Rightarrow> MlmBroker" where
  "handleServiceReply clientID message b = mlb_stats (\<lambda>st. st\<lparr>bs_ServiceReplies := bs_ServiceReplies st + 1\<rparr>) b"

definition handleCreditRequest :: "MlmEnv \<Rightarrow> int \<Rightarrow> bool \<Rightarrow> bytes \<Rightarrow> MlmMessage \<Rightarrow> MlmBroker \<Rightarrow> MlmBroker" where
  "handleCreditRequest env now slow clientID message b =
     (case CreditRequest_Unmarshal (Body message) of
        Ok creditMsg \<Rightarrow>
          (case RequestCredit now slow clientID (sint (cr_Credit creditMsg)) (mlb_credit b) of
             (Ok response, cc) \<Rightarrow>
               let b = b\<lparr>mlb_credit := cc\<rparr>;
                   body = (case confirm_Marshal env (Granted response) of Ok bs \<Rightarrow> bs | _ \<Rightarrow> []);
                   (n, b) = mlb_nextSequence b in
               queueResponse clientID ((CreateMessage 41 clientID n)\<lparr>Body := body\<rparr>) b
           | (Err e, cc) \<Rightarrow> mlb_sendError env clientID 5 (error_text env e) (Sequence message) (b\<lparr>mlb_credit := cc\<rparr>)
           | (Panic m, cc) \<Rightarrow> b\<lparr>mlb_credit := cc\<rparr>)
      | _ \<Rightarrow> mlb_sendError env clientID 1 (str ''Invalid credit request message'') (Sequence message) b)"

text \<open>The types 13, 21 and 31 (cancel, receive, withdraw) have handlers that do nothing.\<close>

definition mlb_processClientMessage :: "MlmEnv \<Rightarrow> int \<Rightarrow> bool \<Rightarrow> (nat \<Rightarrow> bytes list) \<Rightarrow> bytes \<Rightarrow> MlmMessage \<Rightarrow> MlmBroker \<Rightarrow> MlmBroker" where
  "mlb_processClientMessage env now slow ords clientID message b =
     (let b = updateClientActivity now clientID b; t = MlmMessage.Type message in
      if t = 1 then handleConnectionOpen env now clientID message b
      else if t = 2 then handleConnectionPing env now clientID message b
      else if t = 4 then handleConnectionClose now clientID message b
      else if t = 10 then handleStreamWrite env now clientID message b
      else if t = 11 then handleStreamRead env now clientID message b
      else if t = 13 then b
      else if t = 20 then handleMailboxSend env now clientID message b
      else if t = 21 then b
      else if t = 30 then handleServiceOffer env now ords clientID message b
      else if t = 31 then b
      else if t = 32 then handleServiceRequest env now clientID message b
      else if t = 33 then handleServiceReply clientID message b
      else if t = 40 then handleCreditRequest env now slow clientID message b
      else mlb_sendError env clientID 6 (str ''Message type not implemented'') (Sequence message) b)"

section \<open>The loops\<close>

text \<open>One message from the ROUTER socket.\<close>

definition mlb_socket_round :: "MlmEnv \<Rightarrow> Msg result \<Rightarrow> MlmBroker \<Rightarrow> MlmBroker" where
  "mlb_socket_round env received b =
     (case received of
        Ok msg \<Rightarrow>
          (case Frames msg of
             clientID # messageData # _ \<Rightarrow>
               (case Message_Unmarshal zero_MlmMessage messageData of
                  Ok message \<Rightarrow>
                    if length (mlb_messages b) < 10000
                    then mlb_stats (\<lambda>st. st\<lparr>bs_MessagesReceived := bs_MessagesReceived st + 1, bs_BytesReceived := bs_BytesReceived st + of_nat (length messageData)\<rparr>)
                      (b\<lparr>mlb_messages := mlb_messages b @ [(clientID, message)]\<rparr>)
                    else mlb_sendError env clientID 5 (str ''Message queue full'') (Sequence message) b
                | _ \<Rightarrow> mlb_sendError env clientID 1 (str ''Invalid message format'') 0 b)
           | _ \<Rightarrow> b)
      | _ \<Rightarrow> b)"

definition mlb_message_round :: "MlmEnv \<Rightarrow> int \<Rightarrow> bool \<Rightarrow> (nat \<Rightarrow> bytes list) \<Rightarrow> MlmBroker \<Rightarrow> MlmBroker" where
  "mlb_message_round env now slow ords b =
     (case mlb_messages b of
        [] \<Rightarrow> b
      | (clientID, message) # rest \<Rightarrow> mlb_processClientMessage env now slow ords clientID message (b\<lparr>mlb_messages := rest\<rparr>))"

text \<open>\<open>sent\<close>: what \<^verbatim>\<open>SendMulti\<close> returns.\<close>

definition mlb_sendResponse :: "MlmEnv \<Rightarrow> go_error option \<Rightarrow> MlmBroker \<Rightarrow> MlmBroker" where
  "mlb_sendResponse env sent b =
     (case mlb_responses b of
        [] \<Rightarrow> b
      | (clientID, message) # rest \<Rightarrow>
          let b = b\<lparr>mlb_responses := rest\<rparr> in
          (case (Message_Marshal (map_order env) message, sent) of
             (Ok data, None) \<Rightarrow>
               mlb_stats (\<lambda>st. st\<lparr>bs_MessagesSent := bs_MessagesSent st + 1, bs_BytesSent := bs_BytesSent st + of_nat (length data)\<rparr>)
                 (b\<lparr>mlb_sent := mlb_sent b @ [NewMsgFrom [clientID, data]]\<rparr>)
           | _ \<Rightarrow> b))"

definition mlb_heartbeat_round :: "int \<Rightarrow> MlmBroker \<Rightarrow> MlmBroker" where
  "mlb_heartbeat_round now b =
     (case mlb_heartbeats b of
        [] \<Rightarrow> b
      | hb # rest \<Rightarrow> updateClientActivity now (hv_ClientID hb) (b\<lparr>mlb_heartbeats := rest\<rparr>))"

definition timed_out :: "int \<Rightarrow> MlmBroker \<Rightarrow> bytes \<Rightarrow> bool" where
  "timed_out now b clientID \<longleftrightarrow> (case mlb_clients b clientID of
     None \<Rightarrow> False | Some client \<Rightarrow> mc_LastActivity client < now - bc_ClientTimeout (mlb_config b))"

text \<open>\<open>keys\<close>: the clients in the order of \<^verbatim>\<open>range\<close>.\<close>

definition checkClientTimeouts :: "int \<Rightarrow> bytes list \<Rightarrow> MlmBroker \<Rightarrow> MlmBroker" where
  "checkClientTimeouts now keys b =
     foldl (\<lambda>b clientID. if timed_out now b clientID
        then (mlb_stats (\<lambda>st. st\<lparr>bs_ActiveConnections := bs_ActiveConnections st - 1\<rparr>) b)\<lparr>mlb_clients := (mlb_clients b)(clientID := None)\<rparr>
        else b) b keys"

definition calculateStatistics :: "int \<Rightarrow> MlmBroker \<Rightarrow> BrokerStatistics" where
  "calculateStatistics now b = (mlb_statistics b)\<lparr>bs_ActiveConnections := of_nat (card (dom (mlb_clients b))), bs_LastUpdate := now\<rparr>"

text \<open>\<open>bound\<close>: what \<^verbatim>\<open>Listen\<close> returns.\<close>

definition mlb_Start :: "go_error option \<Rightarrow> MlmBroker \<Rightarrow> go_error option \<times> MlmBroker" where
  "mlb_Start bound b =
     (if mlb_state b \<noteq> 0 then (Some (Errorf ''broker already started''), b)
      else case bound of
          Some e \<Rightarrow> (Some (Wrapf ''failed to bind ROUTER socket'' e), b\<lparr>mlb_state := 1\<rparr>)
        | None \<Rightarrow> (None, b\<lparr>mlb_state := 2\<rparr>))"

definition mlb_Stop :: "MlmBroker \<Rightarrow> MlmBroker" where
  "mlb_Stop b =
     (if mlb_state b = 0 then b
      else b\<lparr>mlb_credit := Credit_Stop (mlb_credit b), mlb_streams := Stream_Stop (mlb_streams b), mlb_mailboxes := Mailbox_Stop (mlb_mailboxes b),
             mlb_services := Service_Stop (mlb_services b), mlb_state := 0\<rparr>)"

section \<open>Runs\<close>

text \<open>\<open>ords_ok\<close>: the orders visit the workers of the service the message offers, the new one among them.\<close>

definition offer_request :: "bytes \<Rightarrow> ServiceOfferMessage \<Rightarrow> workerRequest" where
  "offer_request clientID offer = \<lparr>wr_Service = so_Service offer, wr_ClientID = clientID, wr_Pattern = so_Pattern offer, wr_Attributes = so_Attributes offer\<rparr>"

definition ords_ok :: "int \<Rightarrow> (nat \<Rightarrow> bytes list) \<Rightarrow> bytes \<Rightarrow> MlmMessage \<Rightarrow> MlmBroker \<Rightarrow> bool" where
  "ords_ok now ords clientID message b \<longleftrightarrow> (\<forall>offer i. ServiceOffer_Unmarshal (Body message) = Ok offer \<longrightarrow>
     visits (ords i) ((workers (so_Service offer) (mlb_services b))(clientID \<mapsto> new_worker now (offer_request clientID offer))))"

text \<open>
  A run of the broker under a clock that does not go back: its loops, while it runs, and the loops of the managers.
\<close>

inductive mlm_run :: "MlmEnv \<Rightarrow> (bytes \<Rightarrow> int option) \<Rightarrow> int \<Rightarrow> MlmBroker \<Rightarrow> bool" for env pd where
  new: "mlm_run env pd t (NewMlmBroker t config)" if "\<forall>c. config = Some c \<longrightarrow> bc_CreditWindow c \<le> 2147483647"
| start: "mlm_run env pd t (snd (mlb_Start bound b))" if "mlm_run env pd t b"
| stop: "mlm_run env pd t (mlb_Stop b)" if "mlm_run env pd t b"
| socket: "mlm_run env pd t' (mlb_socket_round env received b)" if "mlm_run env pd t b" "t \<le> t'" "mlb_state b = 2"
| message: "mlm_run env pd t' (mlb_message_round env t' slow ords b)"
    if "mlm_run env pd t b" "t \<le> t'" "mlb_state b = 2" "\<forall>c m rest. mlb_messages b = (c, m) # rest \<longrightarrow> ords_ok t' ords c m b"
| response: "mlm_run env pd t' (mlb_sendResponse env sent b)" if "mlm_run env pd t b" "t \<le> t'" "mlb_state b = 2"
| heartbeat: "mlm_run env pd t' (mlb_heartbeat_round t' b)" if "mlm_run env pd t b" "t \<le> t'" "mlb_state b = 2"
| timeouts: "mlm_run env pd t' (checkClientTimeouts t' keys b)" if "mlm_run env pd t b" "t \<le> t'" "mlb_state b = 2"
| credit: "mlm_run env pd t' (b\<lparr>mlb_credit := cc\<rparr>)" if "mlm_run env pd t b" "t \<le> t'" "credit_step (\<lambda>a. 0 \<le> a) (mlb_credit b) cc"
| publish: "mlm_run env pd t' (b\<lparr>mlb_streams := sm\<rparr>)"
    if "mlm_run env pd t b" "t \<le> t'" "publications (mlb_streams b) = p # ps" "visits ord (subscribers (sp_Stream p) (mlb_streams b))"
      "processPublication (glob_match env) pd t' ord p ((mlb_streams b)\<lparr>publications := ps\<rparr>) = (ds, sm)"
| clean_streams: "mlm_run env pd t' (b\<lparr>mlb_streams := stream_cleanup t' (mlb_streams b)\<rparr>)" if "mlm_run env pd t b" "t \<le> t'"
| deliver: "mlm_run env pd t' (b\<lparr>mlb_mailboxes := processDelivery t' d ((mlb_mailboxes b)\<lparr>deliveries := ds\<rparr>)\<rparr>)"
    if "mlm_run env pd t b" "t \<le> t'" "deliveries (mlb_mailboxes b) = d # ds"
| clean_mailboxes: "mlm_run env pd t' (b\<lparr>mlb_mailboxes := cleanupExpiredMessages t' (mlb_mailboxes b)\<rparr>)" if "mlm_run env pd t b" "t \<le> t'"
| serve: "mlm_run env pd t' (b\<lparr>mlb_services := sm\<rparr>)"
    if "mlm_run env pd t b" "t \<le> t'" "sv_requests (mlb_services b) = r # rs" "visits ord (workers (rr_Service r) (mlb_services b))"
      "service_processRequest (glob_match env) t' ord r ((mlb_services b)\<lparr>sv_requests := rs\<rparr>) = (ds, sm)"
| clean_services: "mlm_run env pd t' (b\<lparr>mlb_services := cleanupExpiredRequests t' (mlb_services b)\<rparr>)" if "mlm_run env pd t b" "t \<le> t'"

section \<open>The managers inside the broker\<close>

definition credit_ok :: "CreditController \<Rightarrow> bool" where
  "credit_ok cc \<longleftrightarrow> credit_reachable (\<lambda>a. 0 \<le> a) cc"

definition stream_ok :: "glob \<Rightarrow> (bytes \<Rightarrow> int option) \<Rightarrow> StreamManager \<Rightarrow> bool" where
  "stream_ok glob pd sm \<longleftrightarrow> (\<exists>pubs out subs. stream_run glob pd pubs out subs sm)"

definition mailbox_ok :: "int \<Rightarrow> MailboxManager \<Rightarrow> bool" where
  "mailbox_ok t mm \<longleftrightarrow> (\<exists>t0 sent rcv. t0 \<le> t \<and> mailbox_run t0 sent rcv mm)"

definition service_ok :: "glob \<Rightarrow> ServiceManager \<Rightarrow> bool" where
  "service_ok glob sm \<longleftrightarrow> (\<exists>reqs out regs. service_run glob reqs out regs sm)"

lemma credit_ok_step: "credit_ok cc \<Longrightarrow> credit_step (\<lambda>a. 0 \<le> a) cc cc' \<Longrightarrow> credit_ok cc'"
  unfolding credit_ok_def credit_reachable_def by (blast intro: rtranclp.rtrancl_into_rtrancl)

lemma credit_ok_steps: "credit_ok cc \<Longrightarrow> (credit_step (\<lambda>a. 0 \<le> a))\<^sup>*\<^sup>* cc cc' \<Longrightarrow> credit_ok cc'"
  unfolding credit_ok_def credit_reachable_def by (blast intro: rtranclp_trans)

lemma processRequest_requests:
  "snd (processRequest now rq (cc\<lparr>requests := x\<rparr>)) = (snd (processRequest now rq cc))\<lparr>requests := x\<rparr>"
  by (simp add: processRequest_def calculateGrantedCredit_def Let_def)

lemma serve_requests_steps: "(credit_step (\<lambda>a. 0 \<le> a))\<^sup>*\<^sup>* (cc\<lparr>requests := rqs\<rparr>) (snd (serve_requests now rqs cc))"
proof (induction rqs arbitrary: cc)
  case (Cons rq rqs)
  obtain response cc' where p: "processRequest now rq cc = (response, cc')" by fastforce
  have "credit_step (\<lambda>a. 0 \<le> a) (cc\<lparr>requests := rq # rqs\<rparr>) (cc'\<lparr>requests := rqs\<rparr>)"
    using credit_step.serve [of "cc\<lparr>requests := rq # rqs\<rparr>" rq rqs "\<lambda>a. 0 \<le> a" now] p by (simp add: processRequest_requests)
  moreover have "(credit_step (\<lambda>a. 0 \<le> a))\<^sup>*\<^sup>* (cc'\<lparr>requests := rqs\<rparr>) (snd (serve_requests now (rq # rqs) cc))"
    using Cons.IH [of cc'] p by (cases "rqs = []") simp_all
  ultimately show ?case by (rule converse_rtranclp_into_rtranclp)
qed simp

lemma RequestCredit_ok:
  assumes "credit_ok cc"
  shows "credit_ok (snd (RequestCredit now slow clientID (sint (w :: 32 word)) cc))"
proof -
  obtain r cc1 where send: "RequestCredit_send True clientID (sint w) cc = (r, cc1)" by fastforce
  have "i32 (sint w) = sint w" by (simp add: i32_def)
  then have ok: "credit_ok cc1" using credit_ok_step [OF assms credit_step.request [of _ cc True clientID "sint w"]] send by simp
  have "credit_ok (snd (serve_requests now (requests cc1) cc1))"
    using credit_ok_steps [OF ok] serve_requests_steps [where cc = cc1 and rqs = "requests cc1" and now = now] by simp
  then show ?thesis using ok send by (cases r) (auto simp: RequestCredit_def split: option.split prod.split)
qed

lemma UseCredit_ok: "credit_ok cc \<Longrightarrow> credit_ok (snd (UseCredit i 1 cc))"
  using credit_ok_step [OF _ credit_step.consume [of _ 1 cc i]] by simp

lemma stream_ok_command: "stream_ok glob pd sm \<Longrightarrow> stream_ok glob pd (snd (stream_handleCommand t c sm))"
  unfolding stream_ok_def by (metis stream_run.subscribe stream_run.command surjective_pairing)

lemma stream_call_snd: "snd (stream_call True True t c sm) = snd (stream_handleCommand t c sm)"
  by (simp add: stream_call_def split: prod.split)

lemma Subscribe_ok: "stream_ok glob pd sm \<Longrightarrow> stream_ok glob pd (snd (Subscribe True True t q sm))"
  using stream_ok_command [of glob pd sm t "CmdSubscribe q"] stream_call_snd [of t "CmdSubscribe q" sm]
  by (auto simp: Subscribe_def split: prod.splits option.splits result.splits stream_reply.splits)

lemma stream_command_ok: "stream_ok glob pd sm \<Longrightarrow> stream_ok glob pd (snd (stream_command True True t c sm))"
  using stream_ok_command [of glob pd sm t c] stream_call_snd [of t c sm]
  by (auto simp: stream_command_def split: prod.splits option.splits result.splits)

lemma WriteMessage_ok:
  assumes "stream_ok glob pd sm"
  shows "stream_ok glob pd (snd (WriteMessage t pick p sm))"
proof (cases "WriteMessage t pick p sm")
  case (Pair r sm')
  show ?thesis
  proof (cases r)
    case (Ok u)
    obtain pubs out subs where "stream_run glob pd pubs out subs sm" using assms by (auto simp: stream_ok_def)
    from stream_run.accept [OF this, of t pick p sm'] show ?thesis using Ok Pair by (auto simp: stream_ok_def)
  qed (use assms Pair in \<open>auto simp: WriteMessage_def Let_def split: if_splits\<close>)
qed

lemma mailbox_ok_later: "mailbox_ok t mm \<Longrightarrow> t \<le> t' \<Longrightarrow> mailbox_ok t' mm"
  unfolding mailbox_ok_def by (meson order_trans)

lemma SendMessage_ok:
  assumes "mailbox_ok t mm" "t \<le> t'"
  shows "mailbox_ok t' (snd (SendMessage t' pick d mm))"
proof (cases "SendMessage t' pick d mm")
  case (Pair r mm')
  show ?thesis
  proof (cases r)
    case (Ok u)
    obtain t0 sent rcv where "t0 \<le> t" "mailbox_run t0 sent rcv mm" using assms(1) by (auto simp: mailbox_ok_def)
    then have "mailbox_run t' (sent @ [d\<lparr>dl_Timestamp := t'\<rparr>]) rcv mm'" using mailbox_run.send [of t0 sent rcv mm t' pick d mm'] assms(2) Ok Pair by simp
    then show ?thesis using Pair by (auto simp: mailbox_ok_def)
  qed (use mailbox_ok_later [OF assms] Pair in \<open>auto simp: SendMessage_def Let_def split: if_splits\<close>)
qed

lemma service_ok_command:
  assumes "service_ok glob sm" "\<And>q i. c = CmdRegister q \<Longrightarrow> visits (ords i) ((workers (wr_Service q) sm)(wr_ClientID q \<mapsto> new_worker t q))"
  shows "service_ok glob (snd (snd (service_handleCommand glob t ords c sm)))"
proof -
  obtain r out sm' where h: "service_handleCommand glob t ords c sm = (r, out, sm')" by (metis prod_cases3)
  obtain reqs o1 regs where run: "service_run glob reqs o1 regs sm" using assms(1) by (auto simp: service_ok_def)
  show ?thesis
  proof (cases "\<exists>q. c = CmdRegister q \<and> r = Some SNil")
    case True
    then show ?thesis using service_run.register [OF run] assms(2) h unfolding service_ok_def by fastforce
  next
    case False
    then show ?thesis using service_run.command [OF run h] h unfolding service_ok_def by auto
  qed
qed

lemma service_call_snd: "snd (snd (service_call glob True True t ords c sm)) = snd (snd (service_handleCommand glob t ords c sm))"
  by (simp add: service_call_def split: prod.split)

lemma RegisterWorker_ok:
  assumes "service_ok glob sm" "\<And>i. visits (ords i) ((workers (wr_Service q) sm)(wr_ClientID q \<mapsto> new_worker t q))"
  shows "service_ok glob (snd (snd (RegisterWorker glob True True t ords q sm)))"
proof -
  have "service_ok glob (snd (snd (service_handleCommand glob t ords (CmdRegister q) sm)))"
    by (rule service_ok_command [OF assms(1)]) (use assms(2) in auto)
  then show ?thesis
    using assms(1) service_call_snd [of glob t ords "CmdRegister q" sm]
    by (auto simp: RegisterWorker_def split: prod.splits option.splits result.splits service_reply.splits)
qed

lemma service_remove_ok:
  assumes "service_ok glob sm"
  shows "service_ok glob (snd (service_command True True (CmdRemove i) sm))"
proof -
  have "service_ok glob (service_RemoveClient i sm)"
    using service_ok_command [OF assms, of "CmdRemove i"] by (simp add: service_handleCommand_def)
  then show ?thesis by (simp add: service_command_def service_call_def service_handleCommand_def)
qed

lemma ProcessRequest_ok:
  assumes "service_ok glob sm"
  shows "service_ok glob (snd (ProcessRequest t pick r sm))"
proof (cases "ProcessRequest t pick r sm")
  case (Pair res sm')
  show ?thesis
  proof (cases res)
    case (Ok u)
    obtain reqs out regs where "service_run glob reqs out regs sm" using assms by (auto simp: service_ok_def)
    from service_run.accept [OF this, of t pick r sm'] show ?thesis using Ok Pair by (auto simp: service_ok_def)
  qed (use assms Pair in \<open>auto simp: ProcessRequest_def Let_def split: if_splits\<close>)
qed

lemma mailbox_remove_ok:
  assumes "mailbox_ok t mm"
  shows "mailbox_ok t (handleRemoveClient i mm)"
proof -
  obtain t0 sent rcv where "t0 \<le> t" "mailbox_run t0 sent rcv mm" using assms by (auto simp: mailbox_ok_def)
  then show ?thesis using mailbox_run.remove [of t0 sent rcv mm t0 i] by (auto simp: mailbox_ok_def)
qed

text \<open>The broker keeps its managers in reachable states, and its table of clients within its limit.\<close>

definition clients_ok :: "MlmBroker \<Rightarrow> bool" where
  "clients_ok b \<longleftrightarrow> finite (dom (mlb_clients b)) \<and> int (card (dom (mlb_clients b))) \<le> max 0 (bc_MaxConnections (mlb_config b)) \<and>
     (\<forall>i client. mlb_clients b i = Some client \<longrightarrow> mc_Address client = i)"

definition mlm_ok :: "MlmEnv \<Rightarrow> (bytes \<Rightarrow> int option) \<Rightarrow> int \<Rightarrow> MlmBroker \<Rightarrow> bool" where
  "mlm_ok env pd t b \<longleftrightarrow> credit_ok (mlb_credit b) \<and> stream_ok (glob_match env) pd (mlb_streams b) \<and> mailbox_ok t (mlb_mailboxes b) \<and>
     service_ok (glob_match env) (mlb_services b) \<and> clients_ok b"

text \<open>The helpers that leave managers and clients alone.\<close>

lemma queueResponse_ok [simp]: "mlm_ok env pd t (queueResponse i m b) = mlm_ok env pd t b"
  by (simp add: queueResponse_def mlm_ok_def clients_ok_def)

lemma sendError_ok [simp]: "mlm_ok env pd t (mlb_sendError env i code reason n b) = mlm_ok env pd t b"
  by (simp add: mlb_sendError_def)

lemma stats_ok [simp]: "mlm_ok env pd t (mlb_stats f b) = mlm_ok env pd t b"
  by (simp add: mlb_stats_def mlm_ok_def clients_ok_def)

lemma queue_updates_ok [simp]:
  "mlm_ok env pd t (b\<lparr>mlb_sequence := n\<rparr>) = mlm_ok env pd t b" "mlm_ok env pd t (b\<lparr>mlb_heartbeats := hs\<rparr>) = mlm_ok env pd t b"
  "mlm_ok env pd t (b\<lparr>mlb_messages := ms\<rparr>) = mlm_ok env pd t b" "mlm_ok env pd t (b\<lparr>mlb_responses := rs\<rparr>) = mlm_ok env pd t b"
  "mlm_ok env pd t (b\<lparr>mlb_sent := xs\<rparr>) = mlm_ok env pd t b" "mlm_ok env pd t (b\<lparr>mlb_state := st\<rparr>) = mlm_ok env pd t b"
  by (simp_all add: mlm_ok_def clients_ok_def)

lemma manager_updates_ok:
  assumes "mlm_ok env pd t b"
  shows "credit_ok cc \<Longrightarrow> mlm_ok env pd t (b\<lparr>mlb_credit := cc\<rparr>)"
    "stream_ok (glob_match env) pd sm \<Longrightarrow> mlm_ok env pd t (b\<lparr>mlb_streams := sm\<rparr>)"
    "mailbox_ok t mm \<Longrightarrow> mlm_ok env pd t (b\<lparr>mlb_mailboxes := mm\<rparr>)"
    "service_ok (glob_match env) sv \<Longrightarrow> mlm_ok env pd t (b\<lparr>mlb_services := sv\<rparr>)"
  using assms by (simp_all add: mlm_ok_def clients_ok_def)

lemma mlm_okD:
  assumes "mlm_ok env pd t b"
  shows "credit_ok (mlb_credit b)" "stream_ok (glob_match env) pd (mlb_streams b)" "mailbox_ok t (mlb_mailboxes b)"
    "service_ok (glob_match env) (mlb_services b)" "clients_ok b"
  using assms by (simp_all add: mlm_ok_def)

lemma mlm_ok_later: "mlm_ok env pd t b \<Longrightarrow> t \<le> t' \<Longrightarrow> mlm_ok env pd t' b"
  using mailbox_ok_later by (auto simp: mlm_ok_def)

lemma clients_fewer:
  assumes "clients_ok b" "mlb_clients b' = (mlb_clients b)(i := None)" "mlb_config b' = mlb_config b"
  shows "clients_ok b'"
proof -
  have "card (dom (mlb_clients b) - {i}) \<le> card (dom (mlb_clients b))" using assms(1) by (simp add: clients_ok_def card_mono)
  then show ?thesis using assms by (auto simp: clients_ok_def)
qed

lemma updateClientActivity_ok: "mlm_ok env pd t b \<Longrightarrow> mlm_ok env pd t (updateClientActivity now i b)"
  by (auto simp: updateClientActivity_def mlm_ok_def clients_ok_def insert_absorb domIff split: option.split)

lemma removeClient_ok:
  assumes "mlm_ok env pd t b"
  shows "mlm_ok env pd t (removeClient now i b)"
proof (cases "mlb_clients b i")
  case (Some client)
  have "clients_ok (removeClient now i b)"
    using clients_fewer [OF mlm_okD(5) [OF assms], of "removeClient now i b" i] Some by (simp add: removeClient_def mlb_stats_def)
  then show ?thesis
    using Some mlm_okD [OF assms] credit_ok_step [OF _ credit_step.remove] stream_command_ok mailbox_remove_ok service_remove_ok
    by (simp add: mlm_ok_def removeClient_def mlb_stats_def)
qed (use assms in \<open>simp add: removeClient_def\<close>)

lemma handleConnectionOpen_ok:
  assumes "mlm_ok env pd t b"
  shows "mlm_ok env pd t (handleConnectionOpen env now i m b)"
proof (cases "\<exists>openMsg. ConnectionOpen_Unmarshal (Body m) = Ok openMsg \<and> int (card (dom (mlb_clients b))) < bc_MaxConnections (mlb_config b)")
  case True
  then obtain openMsg where o: "ConnectionOpen_Unmarshal (Body m) = Ok openMsg" "int (card (dom (mlb_clients b))) < bc_MaxConnections (mlb_config b)" by blast
  have "card (insert i (dom (mlb_clients b))) \<le> Suc (card (dom (mlb_clients b)))"
    using mlm_okD(5) [OF assms] by (simp add: clients_ok_def card_insert_le_m1 card_insert_if)
  then have "clients_ok (handleConnectionOpen env now i m b)"
    using o mlm_okD(5) [OF assms] by (auto simp: handleConnectionOpen_def clients_ok_def mlb_stats_def)
  then show ?thesis using o mlm_okD [OF assms] by (simp add: handleConnectionOpen_def mlm_ok_def mlb_stats_def)
next
  case False
  then show ?thesis using assms by (auto simp: handleConnectionOpen_def split: result.split)
qed

lemma handleStreamWrite_ok:
  assumes "mlm_ok env pd t b"
  shows "mlm_ok env pd t (handleStreamWrite env now i m b)"
proof -
  let ?b = "b\<lparr>mlb_credit := snd (UseCredit i 1 (mlb_credit b))\<rparr>"
  have "mlm_ok env pd t ?b" using manager_updates_ok(1) [OF assms UseCredit_ok [OF mlm_okD(1) [OF assms]]] .
  then have written: "mlm_ok env pd t (?b\<lparr>mlb_streams := sm\<rparr>)" if "WriteMessage now True p (mlb_streams b) = (r, sm)" for p r sm
    using manager_updates_ok(2) WriteMessage_ok [OF mlm_okD(2) [OF assms], of now True p] that by simp
  then show ?thesis using assms by (auto simp: handleStreamWrite_def Let_def split: result.split prod.split)
qed

lemma handleStreamRead_ok:
  assumes "mlm_ok env pd t b"
  shows "mlm_ok env pd t (handleStreamRead env now i m b)"
proof -
  have "mlm_ok env pd t (b\<lparr>mlb_streams := sm\<rparr>)" if "Subscribe True True now q (mlb_streams b) = (r, sm)" for q r sm
    using manager_updates_ok(2) [OF assms] Subscribe_ok [OF mlm_okD(2) [OF assms], of now q] that by simp
  then show ?thesis using assms by (auto simp: handleStreamRead_def split: result.split option.split prod.split)
qed

lemma handleMailboxSend_ok:
  assumes "mlm_ok env pd t b"
  shows "mlm_ok env pd t (handleMailboxSend env t i m b)"
proof -
  have "mlm_ok env pd t (b\<lparr>mlb_mailboxes := mm\<rparr>)" if "SendMessage t True d (mlb_mailboxes b) = (r, mm)" for d r mm
    using manager_updates_ok(3) [OF assms] SendMessage_ok [OF mlm_okD(3) [OF assms], of t True d] that by simp
  then show ?thesis using assms by (auto simp: handleMailboxSend_def split: result.split prod.split)
qed

lemma handleServiceOffer_ok:
  assumes "mlm_ok env pd t b" "ords_ok now ords i m b"
  shows "mlm_ok env pd t (handleServiceOffer env now ords i m b)"
proof (cases "ServiceOffer_Unmarshal (Body m)")
  case (Ok offer)
  let ?q = "offer_request i offer"
  have vis: "visits (ords k) ((workers (wr_Service ?q) (mlb_services b))(wr_ClientID ?q \<mapsto> new_worker now ?q))" for k
    using assms(2) Ok by (auto simp: ords_ok_def offer_request_def)
  obtain r out sm where reg: "RegisterWorker (glob_match env) True True now ords ?q (mlb_services b) = (r, out, sm)" by (metis prod_cases3)
  have "service_ok (glob_match env) sm" using RegisterWorker_ok [where ords = ords, OF mlm_okD(4) [OF assms(1)] vis] reg by simp
  then have "mlm_ok env pd t (b\<lparr>mlb_services := sm\<rparr>)" using manager_updates_ok(4) [OF assms(1)] by blast
  then show ?thesis using Ok reg by (auto simp: handleServiceOffer_def offer_request_def split: option.split result.split)
qed (use assms(1) in \<open>auto simp: handleServiceOffer_def\<close>)

lemma handleServiceRequest_ok:
  assumes "mlm_ok env pd t b"
  shows "mlm_ok env pd t (handleServiceRequest env now i m b)"
proof -
  have "mlm_ok env pd t (b\<lparr>mlb_services := sm\<rparr>)" if "ProcessRequest now True q (mlb_services b) = (r, sm)" for q r sm
    using manager_updates_ok(4) [OF assms] ProcessRequest_ok [OF mlm_okD(4) [OF assms], of now True q] that by simp
  then show ?thesis using assms by (auto simp: handleServiceRequest_def split: result.split prod.split)
qed

lemma handleCreditRequest_ok:
  assumes "mlm_ok env pd t b"
  shows "mlm_ok env pd t (handleCreditRequest env now slow i m b)"
proof -
  have "mlm_ok env pd t (b\<lparr>mlb_credit := cc\<rparr>)" if "RequestCredit now slow i (sint w) (mlb_credit b) = (r, cc)" for w :: "32 word" and r cc
    using manager_updates_ok(1) [OF assms] RequestCredit_ok [OF mlm_okD(1) [OF assms], of now slow i w] that by simp
  then show ?thesis
    using assms by (auto simp: handleCreditRequest_def mlb_nextSequence_def Let_def split: result.split prod.split)
qed

lemma handleConnectionPing_ok:
  assumes "mlm_ok env pd t b"
  shows "mlm_ok env pd t (handleConnectionPing env now i m b)"
  using assms by (auto simp: handleConnectionPing_def mlb_nextSequence_def Let_def split: result.split)

lemma processClientMessage_ok:
  assumes "mlm_ok env pd t b" "ords_ok t ords i m b"
  shows "mlm_ok env pd t (mlb_processClientMessage env t slow ords i m b)"
proof -
  let ?b = "updateClientActivity t i b"
  have ok: "mlm_ok env pd t ?b" using updateClientActivity_ok [OF assms(1)] .
  have "ords_ok t ords i m ?b" using assms(2) by (simp add: ords_ok_def updateClientActivity_def split: option.split)
  then show ?thesis
    using ok handleConnectionOpen_ok [OF ok] handleConnectionPing_ok [OF ok] removeClient_ok [OF ok] handleStreamWrite_ok [OF ok]
      handleStreamRead_ok [OF ok] handleMailboxSend_ok [OF ok] handleServiceOffer_ok [OF ok] handleServiceRequest_ok [OF ok] handleCreditRequest_ok [OF ok]
    by (simp add: mlb_processClientMessage_def Let_def handleConnectionClose_def handleServiceReply_def)
qed

lemma checkClientTimeouts_ok:
  assumes "mlm_ok env pd t b"
  shows "mlm_ok env pd t (checkClientTimeouts now keys b)"
  unfolding checkClientTimeouts_def
proof (rule foldl_keeps)
  fix b i
  assume ok: "mlm_ok env pd t b"
  let ?b = "(mlb_stats (\<lambda>st. st\<lparr>bs_ActiveConnections := bs_ActiveConnections st - 1\<rparr>) b)\<lparr>mlb_clients := (mlb_clients b)(i := None)\<rparr>"
  have "clients_ok ?b" using clients_fewer [OF mlm_okD(5) [OF ok], of ?b i] by (simp add: mlb_stats_def)
  then show "mlm_ok env pd t (if timed_out now b i then ?b else b)" using ok by (simp add: mlm_ok_def mlb_stats_def)
qed (rule assms)

lemma NewMlmBroker_ok:
  assumes "\<forall>c. config = Some c \<longrightarrow> bc_CreditWindow c \<le> 2147483647"
  shows "mlm_ok env pd t (NewMlmBroker t config)"
proof -
  have "credit_ok (NewCreditController w)" if "w \<le> 2147483647" for w
    using that unfolding credit_ok_def credit_reachable_def by blast
  moreover have "stream_ok g pd (NewStreamManager n r)" for g n r unfolding stream_ok_def using stream_run.new by blast
  moreover have "mailbox_ok t (NewMailboxManager n r)" for n r unfolding mailbox_ok_def using mailbox_run.new by blast
  moreover have "service_ok g (NewServiceManager n r)" for g n r unfolding service_ok_def using service_run.new by blast
  ultimately show ?thesis
    using assms by (auto simp: mlm_ok_def NewMlmBroker_def Let_def clients_ok_def DefaultBrokerConfig_def DefaultCreditWindow_def split: option.split)
qed

lemma mlb_Stop_ok:
  assumes "mlm_ok env pd t b"
  shows "mlm_ok env pd t (mlb_Stop b)"
proof -
  have "credit_ok (Credit_Stop (mlb_credit b))" using credit_ok_step [OF mlm_okD(1) [OF assms] credit_step.halt] .
  moreover have "stream_ok (glob_match env) pd (Stream_Stop (mlb_streams b))"
    using mlm_okD(2) [OF assms] stream_run.stop unfolding stream_ok_def by blast
  moreover have "mailbox_ok t (Mailbox_Stop (mlb_mailboxes b))"
    using mlm_okD(3) [OF assms] mailbox_run.stop [OF _ order_refl] unfolding mailbox_ok_def by blast
  moreover have "service_ok (glob_match env) (Service_Stop (mlb_services b))"
    using mlm_okD(4) [OF assms] service_run.stop unfolding service_ok_def by blast
  ultimately show ?thesis using assms by (simp add: mlb_Stop_def mlm_ok_def clients_ok_def)
qed

lemma manager_steps_ok:
  "stream_ok glob pd sm \<Longrightarrow> publications sm = p # ps \<Longrightarrow> visits ord (subscribers (sp_Stream p) sm) \<Longrightarrow>
    processPublication glob pd t ord p (sm\<lparr>publications := ps\<rparr>) = (ds, sm') \<Longrightarrow> stream_ok glob pd sm'"
  "stream_ok glob pd sm \<Longrightarrow> stream_ok glob pd (stream_cleanup t sm)"
  "service_ok glob sv \<Longrightarrow> sv_requests sv = r # rs \<Longrightarrow> visits ord (workers (rr_Service r) sv) \<Longrightarrow>
    service_processRequest glob t ord r (sv\<lparr>sv_requests := rs\<rparr>) = (out, sv') \<Longrightarrow> service_ok glob sv'"
  "service_ok glob sv \<Longrightarrow> service_ok glob (cleanupExpiredRequests t sv)"
  unfolding stream_ok_def service_ok_def
  by (blast intro: stream_run.publish stream_run.clean service_run.request service_run.clean)+

lemma mailbox_steps_ok:
  assumes "mailbox_ok t mm" "t \<le> t'"
  shows "deliveries mm = d # ds \<Longrightarrow> mailbox_ok t' (processDelivery t' d (mm\<lparr>deliveries := ds\<rparr>))"
    "mailbox_ok t' (cleanupExpiredMessages t' mm)"
proof -
  obtain t0 sent rcv where run: "mailbox_run t0 sent rcv mm" "t0 \<le> t'" using assms unfolding mailbox_ok_def by force
  show "deliveries mm = d # ds \<Longrightarrow> mailbox_ok t' (processDelivery t' d (mm\<lparr>deliveries := ds\<rparr>))"
    using mailbox_run.deliver [OF run] unfolding mailbox_ok_def by blast
  show "mailbox_ok t' (cleanupExpiredMessages t' mm)" using mailbox_run.clean [OF run] unfolding mailbox_ok_def by blast
qed

lemma socket_rounds_ok:
  assumes "mlm_ok env pd t b"
  shows "mlm_ok env pd t (mlb_socket_round env received b)" "mlm_ok env pd t (mlb_sendResponse env sent b)"
    "mlm_ok env pd t (mlb_heartbeat_round now b)" "mlm_ok env pd t (snd (mlb_Start bound b))"
  using assms updateClientActivity_ok
  by (auto simp: mlb_socket_round_def mlb_sendResponse_def mlb_heartbeat_round_def mlb_Start_def Let_def split: result.split list.split option.split)

lemma mlm_run_ok: "mlm_run env pd t b \<Longrightarrow> mlm_ok env pd t b"
proof (induction rule: mlm_run.induct)
  case (new config t)
  then show ?case by (rule NewMlmBroker_ok)
next
  case (message t b t' ords slow)
  then have ok: "mlm_ok env pd t' b" using mlm_ok_later by blast
  show ?case
  proof (cases "mlb_messages b")
    case (Cons cm rest)
    obtain c m where cm: "cm = (c, m)" by fastforce
    have "ords_ok t' ords c m (b\<lparr>mlb_messages := rest\<rparr>)" using message(4) Cons cm by (simp add: ords_ok_def)
    then show ?thesis using processClientMessage_ok [of env pd t' "b\<lparr>mlb_messages := rest\<rparr>"] ok Cons cm by (simp add: mlb_message_round_def)
  qed (use ok in \<open>simp add: mlb_message_round_def\<close>)
next
  case (credit t b t' cc)
  then show ?case using manager_updates_ok(1) [OF mlm_ok_later] credit_ok_step mlm_okD(1) by blast
next
  case (publish t b t' p ps ord ds sm)
  then show ?case using manager_updates_ok(2) [OF mlm_ok_later] manager_steps_ok(1) mlm_okD(2) by blast
next
  case (clean_streams t b t')
  then show ?case using manager_updates_ok(2) [OF mlm_ok_later] manager_steps_ok(2) mlm_okD(2) by blast
next
  case (deliver t b t' d ds)
  then show ?case using manager_updates_ok(3) [OF mlm_ok_later] mailbox_steps_ok(1) mlm_okD(3) by blast
next
  case (clean_mailboxes t b t')
  then show ?case using manager_updates_ok(3) [OF mlm_ok_later] mailbox_steps_ok(2) mlm_okD(3) by blast
next
  case (serve t b t' r rs ord ds sm)
  then show ?case using manager_updates_ok(4) [OF mlm_ok_later] manager_steps_ok(3) mlm_okD(4) by blast
next
  case (clean_services t b t')
  then show ?case using manager_updates_ok(4) [OF mlm_ok_later] manager_steps_ok(4) mlm_okD(4) by blast
qed (metis mlb_Stop_ok socket_rounds_ok checkClientTimeouts_ok mlm_ok_later)+

text \<open>
  C14: the broker keeps its managers within their own rules. Whatever clients send, in any interleaving of the loops of the
  broker with those of its managers and with starts and stops, the credit controller, the stream, mailbox
  and service managers are each in a state that their own operations reach, so that what is proved of them alone holds inside the broker;
  and the table of clients never exceeds the limit on connections, each client standing under the identity it was registered with.
\<close>

theorem malamute_broker_composes:
  assumes "mlm_run env pd t b"
  shows "credit_reachable (\<lambda>a. 0 \<le> a) (mlb_credit b) \<and>
    (\<exists>pubs out subs. stream_run (glob_match env) pd pubs out subs (mlb_streams b)) \<and>
    (\<exists>t0 sent rcv. t0 \<le> t \<and> mailbox_run t0 sent rcv (mlb_mailboxes b)) \<and>
    (\<exists>reqs out regs. service_run (glob_match env) reqs out regs (mlb_services b)) \<and>
    int (card (dom (mlb_clients b))) \<le> max 0 (bc_MaxConnections (mlb_config b)) \<and>
    (\<forall>i client. mlb_clients b i = Some client \<longrightarrow> mc_Address client = i)"
  using mlm_run_ok [OF assms] by (simp add: mlm_ok_def credit_ok_def stream_ok_def mailbox_ok_def service_ok_def clients_ok_def)

definition sample_mlm_env :: MlmEnv where
  "sample_mlm_env = \<lparr>ping_Unmarshal = (\<lambda>_. Ok 0), pong_Marshal = (\<lambda>_. Ok []), request_Unmarshal = (\<lambda>_. Err EOF), confirm_Marshal = (\<lambda>_. Ok []),
     map_order = (\<lambda>_. []), error_text = (\<lambda>_. []), glob_match = (\<lambda>_ _. None)\<rparr>"

theorem malamute_broker_composes_witness:
  "mlb_state (snd (mlb_Start None (NewMlmBroker 0 None))) = 2 \<and>
   (\<exists>t0 sent rcv. t0 \<le> (0 :: int) \<and> mailbox_run t0 sent rcv (mlb_mailboxes (snd (mlb_Start None (NewMlmBroker 0 None)))))"
proof -
  have "mlm_run sample_mlm_env (\<lambda>_. None) 0 (snd (mlb_Start None (NewMlmBroker 0 None)))" by (intro mlm_run.start mlm_run.new) simp
  from malamute_broker_composes [OF this] show ?thesis by (simp add: mlb_Start_def NewMlmBroker_def Let_def)
qed

section \<open>Answers\<close>

text \<open>At most one response is queued, for the client \<open>i\<close>, and the entries of other clients stay as they are.\<close>

definition answers_only :: "bytes \<Rightarrow> MlmBroker \<Rightarrow> MlmBroker \<Rightarrow> bool" where
  "answers_only i b b' \<longleftrightarrow> (mlb_responses b' = mlb_responses b \<or> (\<exists>m. mlb_responses b' = mlb_responses b @ [(i, m)])) \<and>
     (\<forall>j. j \<noteq> i \<longrightarrow> mlb_clients b' j = mlb_clients b j)"

lemma answers_simps [simp]:
  "answers_only i b b" "answers_only i b (mlb_stats f b') = answers_only i b b'" "answers_only i b (b'\<lparr>mlb_credit := cc\<rparr>) = answers_only i b b'"
  "answers_only i b (b'\<lparr>mlb_streams := sm\<rparr>) = answers_only i b b'" "answers_only i b (b'\<lparr>mlb_mailboxes := mm\<rparr>) = answers_only i b b'"
  "answers_only i b (b'\<lparr>mlb_services := sv\<rparr>) = answers_only i b b'" "answers_only i b (b'\<lparr>mlb_sequence := n\<rparr>) = answers_only i b b'"
  "answers_only i b (b'\<lparr>mlb_heartbeats := hs\<rparr>) = answers_only i b b'"
  by (simp_all add: answers_only_def mlb_stats_def)

lemma answers_respond:
  "mlb_responses b' = mlb_responses b \<Longrightarrow> (\<And>j. j \<noteq> i \<Longrightarrow> mlb_clients b' j = mlb_clients b j) \<Longrightarrow> answers_only i b (queueResponse i m b')"
  "mlb_responses b' = mlb_responses b \<Longrightarrow> (\<And>j. j \<noteq> i \<Longrightarrow> mlb_clients b' j = mlb_clients b j) \<Longrightarrow> answers_only i b (mlb_sendError env i c r n b')"
  by (auto simp: answers_only_def queueResponse_def mlb_sendError_def)

lemma stats_sel [simp]: "mlb_responses (mlb_stats f b) = mlb_responses b" "mlb_clients (mlb_stats f b) = mlb_clients b"
  by (simp_all add: mlb_stats_def)

lemma handlers_answer:
  "answers_only i b (handleConnectionOpen env now i m b)" "answers_only i b (handleConnectionPing env now i m b)" "answers_only i b (handleStreamWrite env now i m b)"
  "answers_only i b (handleStreamRead env now i m b)" "answers_only i b (handleMailboxSend env now i m b)" "answers_only i b (handleServiceOffer env now ords i m b)"
  "answers_only i b (handleServiceRequest env now i m b)" "answers_only i b (handleCreditRequest env now slow i m b)" "answers_only i b (handleServiceReply i m b)"
  "answers_only i b (removeClient now i b)"
  by (auto simp: handleConnectionOpen_def answers_respond split: result.split)
    (auto simp: handleConnectionPing_def mlb_nextSequence_def Let_def answers_respond split: result.split,
     auto simp: handleStreamWrite_def Let_def answers_respond split: result.split prod.split,
     auto simp: handleStreamRead_def answers_respond split: result.split option.split prod.split,
     auto simp: handleMailboxSend_def answers_respond split: result.split prod.split,
     auto simp: handleServiceOffer_def answers_respond split: result.split option.split prod.split,
     auto simp: handleServiceRequest_def answers_respond split: result.split prod.split,
     auto simp: handleCreditRequest_def mlb_nextSequence_def Let_def answers_respond split: result.split prod.split,
     auto simp: handleServiceReply_def,
     auto simp: removeClient_def answers_only_def split: option.split)

text \<open>
  C26: a message of one client answers at most that client: whatever its type and content, at most one response is
  queued, addressed to the identity the message came from, and the registrations of all other clients stay as they are.
\<close>

theorem broker_answers_sender:
  "(mlb_responses (mlb_processClientMessage env now slow ords i m b) = mlb_responses b \<or>
    (\<exists>answer. mlb_responses (mlb_processClientMessage env now slow ords i m b) = mlb_responses b @ [(i, answer)])) \<and>
   (\<exists>cl. mlb_clients (mlb_processClientMessage env now slow ords i m b) = (mlb_clients b)(i := cl))"
proof -
  let ?b = "updateClientActivity now i b"
  have up: "mlb_responses ?b = mlb_responses b" "j \<noteq> i \<Longrightarrow> mlb_clients ?b j = mlb_clients b j" for j
    by (auto simp: updateClientActivity_def split: option.split)
  have "answers_only i ?b (mlb_processClientMessage env now slow ords i m b)"
    by (simp add: mlb_processClientMessage_def Let_def handlers_answer handleConnectionClose_def answers_respond)
  then have ans: "answers_only i b (mlb_processClientMessage env now slow ords i m b)" using up by (simp add: answers_only_def)
  have "mlb_clients (mlb_processClientMessage env now slow ords i m b) =
      (mlb_clients b)(i := mlb_clients (mlb_processClientMessage env now slow ords i m b) i)"
    using ans by (auto simp: answers_only_def fun_eq_iff)
  then show ?thesis using ans by (auto simp: answers_only_def)
qed

section \<open>Clients that go and clients that never came\<close>

text \<open>A client that closes its connection leaves nothing in the managers of credit and mailboxes.\<close>

lemma closed_client_leaves_nothing:
  assumes "mlb_clients b i \<noteq> None"
  shows "clientCredits (mlb_credit (handleConnectionClose now i m b)) i = None"
    "mailboxes (mlb_mailboxes (handleConnectionClose now i m b)) a = Some mb \<Longrightarrow> mb_Owner mb \<noteq> i"
  using assms by (auto simp: handleConnectionClose_def removeClient_def RemoveClient_def handleRemoveClient_def split: option.splits if_splits)

text \<open>A client that times out is only taken from the table: its credit, subscriptions, mailboxes and workers stay.\<close>

lemma timeout_keeps_resources:
  "mlb_credit (checkClientTimeouts now keys b) = mlb_credit b" "mlb_streams (checkClientTimeouts now keys b) = mlb_streams b"
  "mlb_mailboxes (checkClientTimeouts now keys b) = mlb_mailboxes b" "mlb_services (checkClientTimeouts now keys b) = mlb_services b"
proof -
  let ?same = "\<lambda>b'. mlb_credit b' = mlb_credit b \<and> mlb_streams b' = mlb_streams b \<and> mlb_mailboxes b' = mlb_mailboxes b \<and> mlb_services b' = mlb_services b"
  have "?same (checkClientTimeouts now keys b)"
    unfolding checkClientTimeouts_def by (rule foldl_keeps) (simp_all add: mlb_stats_def)
  then show "mlb_credit (checkClientTimeouts now keys b) = mlb_credit b" "mlb_streams (checkClientTimeouts now keys b) = mlb_streams b"
    "mlb_mailboxes (checkClientTimeouts now keys b) = mlb_mailboxes b" "mlb_services (checkClientTimeouts now keys b) = mlb_services b" by simp_all
qed

text \<open>
  No handler asks whether the client is registered: a mailbox message of an unknown client is accepted, and a client that
  opens its connection again is counted once more as active.
\<close>

lemma unknown_client_accepted:
  assumes "mlb_clients b i = None" "MailboxSend_Unmarshal zero_MailboxSend (Body m) = Ok msg" "MlmMessage.Type m = 20"
    "ms_Address msg \<noteq> []" "length (ms_Address msg) \<le> MaxMailboxName" "length (ms_Body msg) \<le> MaxMessageSize"
    "length (deliveries (mlb_mailboxes b)) < 10000" "\<not> mm_cancelled (mlb_mailboxes b)"
  shows "length (deliveries (mlb_mailboxes (mlb_processClientMessage env now slow ords i m b))) = Suc (length (deliveries (mlb_mailboxes b)))"
  using assms by (simp add: mlb_processClientMessage_def Let_def updateClientActivity_def handleMailboxSend_def SendMessage_def mlb_stats_def)

lemma reopened_counted_twice:
  assumes "mlb_clients b i \<noteq> None" "ConnectionOpen_Unmarshal (Body m) = Ok msg" "int (card (dom (mlb_clients b))) < bc_MaxConnections (mlb_config b)"
  shows "dom (mlb_clients (handleConnectionOpen env now i m b)) = dom (mlb_clients b)"
    "bs_ActiveConnections (mlb_statistics (handleConnectionOpen env now i m b)) = bs_ActiveConnections (mlb_statistics b) + 1"
  using assms by (auto simp: handleConnectionOpen_def mlb_stats_def)

end
