(* ===== verification/Malamute_Client.thy ===== *)
theory Malamute_Client
  imports Malamute_Broker
begin

text \<open>
  The Malamute client (\<^verbatim>\<open>malamute/client.go\<close>) and what becomes of its messages at the broker. The context of a client is
  cancelled only in \<^verbatim>\<open>Disconnect\<close>, behind a call that does not return. The mutex of the client is part of its state: a call that
  finds it held by a caller that never returns waits for ever, and has the value None.
  \<open>ClientEnv\<close> has the methods of messages that no file defines.
\<close>

section \<open>Data\<close>

record ClientConfig =
  cg_ClientID :: bytes
  cg_BrokerEndpoint :: bytes
  cg_HeartbeatInterval :: int
  cg_Timeout :: int
  cg_CreditWindow :: int
  cg_MaxRetries :: int
  cg_RetryInterval :: int

record MalamuteClient =
  ml_config :: ClientConfig
  ml_clientID :: bytes
  ml_clientType :: int
  ml_outgoing :: "MlmMessage list"
  ml_incoming :: "MlmMessage list"
  ml_state :: nat
  ml_sequence :: "32 word"
  ml_credit :: int
  ml_creditChan :: "int list"
  ml_pending :: "32 word set"
  ml_answers :: "(32 word \<times> MlmMessage) list"
  ml_sent :: "Msg list"
  ml_locked :: bool
  ml_running :: bool

record ServiceReplyMessage =
  sy_Tracker :: bytes
  sy_Status :: int
  sy_Attributes :: "bytes \<rightharpoonup> bytes"
  sy_Body :: bytes

record ClientEnv =
  ce_order :: key_order
  ce_ping_Marshal :: "int \<Rightarrow> bytes result"
  ce_confirm_Unmarshal :: "bytes \<Rightarrow> int result"
  ce_reply_Marshal :: "ServiceReplyMessage \<Rightarrow> bytes result"
  ce_request_Marshal :: "ServiceRequestMessage \<Rightarrow> bytes result"

text \<open>
  \<open>ml_pending\<close>: the numbers with a response channel; \<open>ml_answers\<close>: what was sent on those channels; \<open>ml_locked\<close>: a call holds the mutex;
  \<open>ml_running\<close>: \<^verbatim>\<open>Connect\<close> has started the loops. \<open>random\<close>: the eight bytes of \<^verbatim>\<open>rand.Read\<close>.\<close>

definition generateClientID :: "bytes \<Rightarrow> bytes" where
  "generateClientID random = str ''client-'' @ hex random"

definition NewMalamuteClient :: "bytes \<Rightarrow> ClientConfig option \<Rightarrow> MalamuteClient" where
  "NewMalamuteClient random config =
     (let config = (case config of
            None \<Rightarrow> \<lparr>cg_ClientID = generateClientID random, cg_BrokerEndpoint = str ''tcp://localhost:9999'', cg_HeartbeatInterval = 5000 * 1000000,
              cg_Timeout = 60000 * 1000000, cg_CreditWindow = DefaultCreditWindow, cg_MaxRetries = 3, cg_RetryInterval = 1000 * 1000000\<rparr>
          | Some c \<Rightarrow> c);
          config = (if cg_ClientID config = [] then config\<lparr>cg_ClientID := generateClientID random\<rparr> else config) in
      \<lparr>ml_config = config, ml_clientID = cg_ClientID config, ml_clientType = 0, ml_outgoing = [], ml_incoming = [], ml_state = 0, ml_sequence = 0,
       ml_credit = 0, ml_creditChan = [], ml_pending = {}, ml_answers = [], ml_sent = [], ml_locked = False, ml_running = False\<rparr>)"

text \<open>A call with its error, or None when it waits for ever, and the client as it leaves it.\<close>

type_synonym ml_call = "go_error option option \<times> MalamuteClient"

section \<open>Connecting\<close>

text \<open>\<^verbatim>\<open>nextSequence\<close> locks the mutex of the client, which is not reentrant.\<close>

definition ml_nextSequence :: "MalamuteClient \<Rightarrow> (32 word \<times> MalamuteClient) option" where
  "ml_nextSequence c = (if ml_locked c then None else Some (ml_sequence c + 1, c\<lparr>ml_sequence := ml_sequence c + 1\<rparr>))"

text \<open>
  \<^verbatim>\<open>Connect\<close>, which holds the mutex until it returns: the dialling, the start of the loops, the number of the message, the registration of the response
  channel (which locks the mutex once more), the message, and the wait for the response, whose outcome is \<open>answer\<close>.
\<close>

definition ml_Connect :: "ClientEnv \<Rightarrow> go_error option \<Rightarrow> go_error option \<Rightarrow> MalamuteClient \<Rightarrow> ml_call" where
  "ml_Connect env dialled answer c =
     (if ml_locked c then (None, c)
      else if ml_state c \<noteq> 0 then (Some (Some (Errorf ''client already connected'')), c)
      else let c = c\<lparr>ml_state := 1, ml_locked := True\<rparr> in
      case dialled of
        Some e \<Rightarrow> (Some (Some (Wrapf ''failed to connect to broker'' e)), c\<lparr>ml_locked := False\<rparr>)
      | None \<Rightarrow>
          let c = c\<lparr>ml_running := True\<rparr> in
          (case ml_nextSequence c of
             None \<Rightarrow> (None, c)
           | Some (n, c) \<Rightarrow>
               if ml_locked c then (None, c)
               else
                 let body = (case ConnectionOpen_Marshal (ce_order env) \<lparr>co_ClientID = ml_clientID c, co_ClientType = ml_clientType c, co_Attributes = Map.empty\<rparr> of
                       Ok bs \<Rightarrow> bs | _ \<Rightarrow> []);
                     c = c\<lparr>ml_pending := insert n (ml_pending c), ml_outgoing := ml_outgoing c @ [(CreateMessage 1 (ml_clientID c) n)\<lparr>Body := body\<rparr>]\<rparr> in
                 (case answer of
                    Some e \<Rightarrow> (Some (Some e), c\<lparr>ml_locked := False\<rparr>)
                  | None \<Rightarrow> (Some None, c\<lparr>ml_state := 2, ml_locked := False\<rparr>))))"

definition ml_Disconnect :: "MalamuteClient \<Rightarrow> ml_call" where
  "ml_Disconnect c =
     (if ml_locked c then (None, c)
      else if ml_state c = 0 then (Some None, c)
      else let c = c\<lparr>ml_state := 3, ml_locked := True\<rparr> in
      case ml_nextSequence c of
        None \<Rightarrow> (None, c)
      | Some (n, c) \<Rightarrow> (Some None, c\<lparr>ml_state := 0, ml_outgoing := [], ml_running := False, ml_locked := False\<rparr>))"

definition ml_GetCredit :: "MalamuteClient \<Rightarrow> int option" where
  "ml_GetCredit c = (if ml_locked c then None else Some (ml_credit c))"

section \<open>Sending\<close>

text \<open>
  Every method takes a number, for which it needs the mutex, makes a message and offers it to the outgoing queue; errors of \<^verbatim>\<open>Marshal\<close> leave the body
  empty.
\<close>

definition ml_offer :: "byte \<Rightarrow> bytes result \<Rightarrow> MalamuteClient \<Rightarrow> ml_call" where
  "ml_offer t body c =
     (case ml_nextSequence c of
        None \<Rightarrow> (None, c)
      | Some (n, c) \<Rightarrow>
          let message = (CreateMessage t (ml_clientID c) n)\<lparr>Body := case body of Ok bs \<Rightarrow> bs | _ \<Rightarrow> []\<rparr> in
          if length (ml_outgoing c) < 1000 then (Some None, c\<lparr>ml_outgoing := ml_outgoing c @ [message]\<rparr>)
          else (Some (Some (Errorf ''outgoing queue full'')), c))"

definition client_RequestCredit :: "32 word \<Rightarrow> MalamuteClient \<Rightarrow> ml_call" where
  "client_RequestCredit amount = ml_offer 40 (CreditRequest_Marshal \<lparr>cr_Credit = amount\<rparr>)"



definition client_Subscribe :: "ClientEnv \<Rightarrow> bytes \<Rightarrow> bytes \<Rightarrow> MalamuteClient \<Rightarrow> ml_call" where
  "client_Subscribe env stream pattern =
     ml_offer 11 (StreamRead_Marshal (ce_order env) \<lparr>sr_Stream = stream, sr_Pattern = pattern, sr_Attributes = Map.empty\<rparr>)"

definition SendWithTracker :: "ClientEnv \<Rightarrow> bytes \<Rightarrow> bytes \<Rightarrow> bytes \<Rightarrow> bytes \<Rightarrow> int \<Rightarrow> MalamuteClient \<Rightarrow> ml_call" where
  "SendWithTracker env address subject body tracker timeout =
     ml_offer 20 (MailboxSend_Marshal (ce_order env) \<lparr>ms_Address = address, ms_Subject = subject, ms_Tracker = tracker,
       ms_Timeout = word_of_int (quot timeout 1000000), ms_Attributes = Map.empty, ms_Body = body\<rparr>)"

definition mailbox_Send :: "ClientEnv \<Rightarrow> bytes \<Rightarrow> bytes \<Rightarrow> bytes \<Rightarrow> MalamuteClient \<Rightarrow> ml_call" where
  "mailbox_Send env address subject body = SendWithTracker env address subject body [] 0"

definition mlm_worker_Start :: "ClientEnv \<Rightarrow> bytes \<Rightarrow> bytes \<Rightarrow> MalamuteClient \<Rightarrow> ml_call" where
  "mlm_worker_Start env service pattern =
     ml_offer 30 (ServiceOffer_Marshal (ce_order env) \<lparr>so_Service = service, so_Pattern = pattern, so_Attributes = Map.empty\<rparr>)"

definition mlm_worker_Reply :: "ClientEnv \<Rightarrow> bytes \<Rightarrow> int \<Rightarrow> bytes \<Rightarrow> MalamuteClient \<Rightarrow> ml_call" where
  "mlm_worker_Reply env tracker status body =
     ml_offer 33 (ce_reply_Marshal env \<lparr>sy_Tracker = tracker, sy_Status = status, sy_Attributes = Map.empty, sy_Body = body\<rparr>)"

definition service_Request :: "ClientEnv \<Rightarrow> bytes \<Rightarrow> bytes \<Rightarrow> bytes \<Rightarrow> bytes \<Rightarrow> int \<Rightarrow> MalamuteClient \<Rightarrow> ml_call" where
  "service_Request env service method tracker body timeout =
     ml_offer 32 (ce_request_Marshal env \<lparr>sq_Service = service, sq_Method = method, sq_Tracker = tracker,
       sq_Timeout = word_of_int (quot timeout 1000000), sq_Attributes = Map.empty, sq_Body = body\<rparr>)"

text \<open>A heartbeat that finds the queue full is dropped.\<close>

definition ml_sendHeartbeat :: "ClientEnv \<Rightarrow> int \<Rightarrow> MalamuteClient \<Rightarrow> unit option \<times> MalamuteClient" where
  "ml_sendHeartbeat env now c =
     (if ml_state c \<noteq> 2 then (Some (), c) else apfst (map_option (\<lambda>_. ())) (ml_offer 2 (ce_ping_Marshal env now) c))"

section \<open>The loops\<close>

text \<open>The loops run once \<^verbatim>\<open>Connect\<close> has started them; the two that use the socket do not need the mutex.\<close>

definition ml_outgoing_round :: "ClientEnv \<Rightarrow> MalamuteClient \<Rightarrow> MalamuteClient" where
  "ml_outgoing_round env c =
     (if \<not> ml_running c then c
      else case ml_outgoing c of
        [] \<Rightarrow> c
      | message # rest \<Rightarrow>
          let c = c\<lparr>ml_outgoing := rest\<rparr> in
          (case Message_Marshal (ce_order env) message of
             Ok data \<Rightarrow> c\<lparr>ml_sent := ml_sent c @ [NewMsg data]\<rparr>
           | _ \<Rightarrow> c))"

definition ml_socket_round :: "Msg result \<Rightarrow> MalamuteClient \<Rightarrow> MalamuteClient" where
  "ml_socket_round received c =
     (if \<not> ml_running c then c
      else case received of
        Ok msg \<Rightarrow>
          (case Frames msg of
             data # _ \<Rightarrow>
               (case Message_Unmarshal zero_MlmMessage data of
                  Ok message \<Rightarrow> if length (ml_incoming c) < 1000 then c\<lparr>ml_incoming := ml_incoming c @ [message]\<rparr> else c
                | _ \<Rightarrow> c)
           | _ \<Rightarrow> c)
      | _ \<Rightarrow> c)"

text \<open>Pongs, deliveries from streams, mailboxes and services, and errors are dropped; the other messages need the mutex.\<close>

definition processIncoming :: "ClientEnv \<Rightarrow> MlmMessage \<Rightarrow> MalamuteClient \<Rightarrow> MalamuteClient option" where
  "processIncoming env message c =
     (let t = MlmMessage.Type message in
      if t = 3 then Some c
      else if t = 41 then
        (case ce_confirm_Unmarshal env (Body message) of
           Ok amount \<Rightarrow>
             if ml_locked c then None
             else
               let c = c\<lparr>ml_credit := i32 (ml_credit c + amount)\<rparr> in
               Some (if length (ml_creditChan c) < 100 then c\<lparr>ml_creditChan := ml_creditChan c @ [amount]\<rparr> else c)
         | _ \<Rightarrow> Some c)
      else if t \<in> {12, 22, 34, MessageTypeError} then Some c
      else if ml_locked c then None
      else if Sequence message \<in> ml_pending c
        then Some (c\<lparr>ml_pending := ml_pending c - {Sequence message}, ml_answers := ml_answers c @ [(Sequence message, message)]\<rparr>)
      else Some c)"

section \<open>A client does not connect\<close>

text \<open>
  \<^verbatim>\<open>Connect\<close> and \<^verbatim>\<open>Disconnect\<close> hold the mutex when they ask for a sequence number: once the broker is dialled neither returns,
  the loops run and the mutex is held for ever; and a client whose dialling failed is neither connected nor can it connect again.
\<close>

lemma client_never_connects:
  "fst (ml_Connect env dialled answer c) \<noteq> Some None"
  "ml_state c = 0 \<Longrightarrow> \<not> ml_locked c \<Longrightarrow> ml_Connect env None answer c = (None, c\<lparr>ml_state := 1, ml_locked := True, ml_running := True\<rparr>)"
  "ml_state c \<noteq> 0 \<Longrightarrow> fst (ml_Disconnect c) = None"
  "ml_state c = 0 \<Longrightarrow> \<not> ml_locked c \<Longrightarrow>
     ml_Connect env (Some e) answer c = (Some (Some (Wrapf ''failed to connect to broker'' e)), c\<lparr>ml_state := 1, ml_locked := False\<rparr>)"
  by (auto simp: ml_Connect_def ml_Disconnect_def ml_nextSequence_def Let_def split: option.split)


section \<open>From a client to the managers of the broker\<close>

text \<open>What the client sends in one frame the broker queues behind the identity the ROUTER socket puts in front.\<close>

lemma message_received:
  assumes "Message_ok ord m" "Message_Marshal ord m = Ok data" "mlb_messages b = []"
  shows "mlb_socket_round env (Ok (NewMsgFrom [ident, data])) b =
    mlb_stats (\<lambda>st. st\<lparr>bs_MessagesReceived := bs_MessagesReceived st + 1, bs_BytesReceived := bs_BytesReceived st + of_nat (length data)\<rparr>)
      (b\<lparr>mlb_messages := [(ident, m)]\<rparr>)"
proof -
  have "zero_MlmMessage\<lparr>Body := []\<rparr> = zero_MlmMessage" by (simp add: zero_MlmMessage_def)
  then have "Message_Unmarshal zero_MlmMessage data = Ok m" using mlm_message.dec_enc [OF assms(1,2), of zero_MlmMessage] by simp
  then show ?thesis using assms(3) by (simp add: mlb_socket_round_def NewMsgFrom_def zeroMsg_def)
qed

text \<open>One message from the client to the broker and through its message loop.\<close>

definition through_broker :: "MlmEnv \<Rightarrow> int \<Rightarrow> bytes \<Rightarrow> Msg \<Rightarrow> MlmBroker \<Rightarrow> MlmBroker" where
  "through_broker env now ident msg b = mlb_message_round env now False (\<lambda>_. []) (mlb_socket_round env (Ok (NewMsgFrom (ident # Frames msg))) b)"

lemma offered_message_processed:
  assumes "body = Ok bs" "length bs \<le> MaxMessageSize" "length (ml_clientID c) \<le> 255" "map_ok (ce_order cenv) Map.empty" "ml_outgoing c = []" "mlb_messages b = []"
    "ml_state c = 0" "\<not> ml_locked c"
  shows "\<exists>c1 c2 msg f. ml_offer t body c = (Some None, c1) \<and> ml_Connect cenv None answer c1 = (None, c2) \<and> ml_locked c2 \<and>
    ml_sent (ml_outgoing_round cenv c2) = ml_sent c @ [msg] \<and>
    through_broker env now ident msg b =
      mlb_processClientMessage env now False (\<lambda>_. []) ident ((CreateMessage t (ml_clientID c) (ml_sequence c + 1))\<lparr>Body := bs\<rparr>) (mlb_stats f b)"
proof -
  let ?m = "(CreateMessage t (ml_clientID c) (ml_sequence c + 1))\<lparr>Body := bs\<rparr>"
  have ok: "Message_ok (ce_order cenv) ?m" using assms(2,3,4) by (simp add: Message_ok_def CreateMessage_def)
  then obtain data where data: "Message_Marshal (ce_order cenv) ?m = Ok data" using mlm_message.roundtrip by blast
  let ?c1 = "c\<lparr>ml_sequence := ml_sequence c + 1, ml_outgoing := [?m]\<rparr>"
  have offer: "ml_offer t body c = (Some None, ?c1)" using assms(1,5,8) by (simp add: ml_offer_def ml_nextSequence_def Let_def)
  let ?c2 = "?c1\<lparr>ml_state := 1, ml_locked := True, ml_running := True\<rparr>"
  have connect: "ml_Connect cenv None answer ?c1 = (None, ?c2)" using assms(7,8) by (simp add: client_never_connects)
  have sent: "ml_sent (ml_outgoing_round cenv ?c2) = ml_sent c @ [NewMsg data]" using data by (simp add: ml_outgoing_round_def)
  let ?f = "\<lambda>st. st\<lparr>bs_MessagesReceived := bs_MessagesReceived st + 1, bs_BytesReceived := bs_BytesReceived st + of_nat (length data)\<rparr>"
  have "mlb_socket_round env (Ok (NewMsgFrom (ident # Frames (NewMsg data)))) b = mlb_stats ?f (b\<lparr>mlb_messages := [(ident, ?m)]\<rparr>)"
    using message_received [OF ok data assms(6)] by (simp add: NewMsg_def zeroMsg_def)
  moreover have "(mlb_stats ?f (b\<lparr>mlb_messages := [(ident, ?m)]\<rparr>))\<lparr>mlb_messages := []\<rparr> = mlb_stats ?f b"
    using assms(6) by (simp add: mlb_stats_def)
  ultimately have "through_broker env now ident (NewMsg data) b = mlb_processClientMessage env now False (\<lambda>_. []) ident ?m (mlb_stats ?f b)"
    by (simp add: through_broker_def mlb_message_round_def mlb_stats_def)
  then show ?thesis using offer connect sent by (intro exI [of _ ?c1] exI [of _ ?c2] exI [of _ "NewMsg data"] exI [of _ ?f]) simp
qed

lemma stats_managers [simp]:
  "mlb_credit (mlb_stats f b) = mlb_credit b" "mlb_streams (mlb_stats f b) = mlb_streams b" "mlb_mailboxes (mlb_stats f b) = mlb_mailboxes b"
  by (simp_all add: mlb_stats_def)

lemma activity_managers [simp]:
  "mlb_credit (updateClientActivity now i b) = mlb_credit b" "mlb_streams (updateClientActivity now i b) = mlb_streams b"
  "mlb_mailboxes (updateClientActivity now i b) = mlb_mailboxes b" "mlb_responses (updateClientActivity now i b) = mlb_responses b"
  by (simp_all add: updateClientActivity_def split: option.split)


text \<open>
  A mailbox message queued before \<^verbatim>\<open>Connect\<close> reaches the mailbox manager of the broker as it was sent, whatever credit the sender has: with its subject,
  tracker and body, the identity of the connection as its sender, and its timeout in whole milliseconds.
\<close>

theorem malamute_mailbox_end_to_end:
  assumes "MailboxSend_ok (ce_order cenv) \<lparr>ms_Address = address, ms_Subject = subject, ms_Tracker = tracker,
      ms_Timeout = word_of_int (quot timeout 1000000), ms_Attributes = Map.empty, ms_Body = body\<rparr>" "address \<noteq> []"
    "MailboxSend_Marshal (ce_order cenv) \<lparr>ms_Address = address, ms_Subject = subject, ms_Tracker = tracker,
      ms_Timeout = word_of_int (quot timeout 1000000), ms_Attributes = Map.empty, ms_Body = body\<rparr> = Ok bs"
    "length bs \<le> MaxMessageSize" "length (ml_clientID c) \<le> 255" "map_ok (ce_order cenv) Map.empty" "ml_outgoing c = []" "mlb_messages b = []"
    "ml_state c = 0" "\<not> ml_locked c"
    "length (deliveries (mlb_mailboxes b)) < 10000" "\<not> mm_cancelled (mlb_mailboxes b)"
  shows "\<exists>c1 c2 msg. SendWithTracker cenv address subject body tracker timeout c = (Some None, c1) \<and>
    ml_Connect cenv None answer c1 = (None, c2) \<and> ml_sent (ml_outgoing_round cenv c2) = ml_sent c @ [msg] \<and>
    deliveries (mlb_mailboxes (through_broker env now ident msg b)) = deliveries (mlb_mailboxes b) @
      [\<lparr>dl_Address = address, dl_Subject = subject, dl_Sender = ident, dl_Tracker = tracker, dl_Body = body, dl_Attributes = Map.empty,
        dl_Timeout = sint (word_of_int (quot timeout 1000000) * 1000000 :: 64 word), dl_Timestamp = now\<rparr>] \<and>
    mlb_responses (through_broker env now ident msg b) = mlb_responses b"
proof -
  let ?w = "\<lparr>ms_Address = address, ms_Subject = subject, ms_Tracker = tracker,
      ms_Timeout = word_of_int (quot timeout 1000000), ms_Attributes = Map.empty, ms_Body = body\<rparr>"
  have "zero_MailboxSend\<lparr>ms_Body := []\<rparr> = zero_MailboxSend" by (simp add: zero_MailboxSend_def)
  then have dec: "MailboxSend_Unmarshal zero_MailboxSend bs = Ok ?w" using mailbox_send.dec_enc [OF assms(1,3), of zero_MailboxSend] by simp
  have lim: "length address \<le> 255" "length body \<le> MaxMessageSize" using assms(1) by (simp_all add: MailboxSend_ok_def)
  obtain c1 c2 msg f where sent: "SendWithTracker cenv address subject body tracker timeout c = (Some None, c1)"
      "ml_Connect cenv None answer c1 = (None, c2)" "ml_sent (ml_outgoing_round cenv c2) = ml_sent c @ [msg]"
    and through: "through_broker env now ident msg b =
      mlb_processClientMessage env now False (\<lambda>_. []) ident ((CreateMessage 20 (ml_clientID c) (ml_sequence c + 1))\<lparr>Body := bs\<rparr>) (mlb_stats f b)"
    using offered_message_processed [OF assms(3-10), of 20 answer env now ident] by (auto simp: SendWithTracker_def)
  show ?thesis
    using sent through dec lim assms(2,11,12)
    by (simp add: mlb_processClientMessage_def Let_def CreateMessage_def handleMailboxSend_def SendMessage_def MaxMailboxName_def)
qed

section \<open>A sample client\<close>

definition sample_cenv :: ClientEnv where
  "sample_cenv = \<lparr>ce_order = (\<lambda>_. []), ce_ping_Marshal = (\<lambda>_. Ok []), ce_confirm_Unmarshal = (\<lambda>_. Ok 1), ce_reply_Marshal = (\<lambda>_. Ok []),
     ce_request_Marshal = (\<lambda>_. Ok [])\<rparr>"

text \<open>A started broker that has granted the client behind the identity 9 the credit of 8 it asked for.\<close>

definition sample_mlm_broker :: MlmBroker where
  "sample_mlm_broker = (let b = snd (mlb_Start None (NewMlmBroker 0 None)) in
     b\<lparr>mlb_credit := snd (processRequest 0 \<lparr>rq_ClientID = [9], rq_Amount = 8\<rparr> (mlb_credit b))\<rparr>)"



lemma sample_map_ok: "map_ok (ce_order sample_cenv) Map.empty"
  by (simp add: map_ok_def ord_ok_def sample_cenv_def)

lemma sample_broker_sel:
  "mlb_messages sample_mlm_broker = []" "publications (mlb_streams sample_mlm_broker) = []" "\<not> sm_cancelled (mlb_streams sample_mlm_broker)"
  "deliveries (mlb_mailboxes sample_mlm_broker) = []" "\<not> mm_cancelled (mlb_mailboxes sample_mlm_broker)"
  by (simp_all add: sample_mlm_broker_def mlb_Start_def NewMlmBroker_def Let_def NewStreamManager_def NewMailboxManager_def)


lemma sample_client:
  "length (ml_clientID (NewMalamuteClient [7] None)) \<le> 255" "ml_outgoing (NewMalamuteClient [7] None) = []"
  "ml_state (NewMalamuteClient [7] None) = 0" "\<not> ml_locked (NewMalamuteClient [7] None)"
  by (simp_all add: NewMalamuteClient_def Let_def generateClientID_def hex_def)


theorem malamute_mailbox_end_to_end_witness:
  "\<exists>c1 msg (d :: MailboxDelivery). mailbox_Send sample_cenv [109] [] [1] (NewMalamuteClient [7] None) = (Some None, c1) \<and>
     deliveries (mlb_mailboxes (through_broker sample_mlm_env 5 [9] msg sample_mlm_broker)) = [d] \<and> dl_Body d = [1]"
proof -
  let ?w = "\<lparr>ms_Address = [109], ms_Subject = [], ms_Tracker = [], ms_Timeout = word_of_int (quot 0 1000000), ms_Attributes = Map.empty, ms_Body = [1]\<rparr>"
  have ok: "MailboxSend_ok (ce_order sample_cenv) ?w" using sample_map_ok by (simp add: MailboxSend_ok_def MaxMessageSize_def)
  obtain bs where bs: "MailboxSend_Marshal (ce_order sample_cenv) ?w = Ok bs" "length bs \<le> MaxMessageSize"
    using sample_map_ok by (simp add: MailboxSend_Marshal_def codec_simps mlm_limits entries_def sample_cenv_def map_filter_def put_lp_def)
  from malamute_mailbox_end_to_end [OF ok _ bs sample_client(1) sample_map_ok sample_client(2) sample_broker_sel(1) sample_client(3,4),
      of None sample_mlm_env 5 "[9]"]
  show ?thesis by (fastforce simp: sample_broker_sel mailbox_Send_def)
qed

end
