(* ===== verification/Malamute_Security.thy ===== *)
theory Malamute_Security
  imports Malamute_Client
begin

text \<open>
  The security of Malamute (\<^verbatim>\<open>malamute/security.go\<close>): mechanisms and their configuration, certificates, authorisation, and the broker
  and client that apply a mechanism to their socket. \<open>setopt\<close> stands for \<^verbatim>\<open>SetOption\<close> of a socket; the socket is None when it is nil.
  The module defines neither the options nor the type of mechanisms these functions use.
\<close>

section \<open>Mechanisms\<close>

datatype MlmMechanism = PlainSecurity bytes bytes | CurveSecurity bytes bytes bytes | NullSecurity

datatype sec_option = OptionPlainUsername | OptionPlainPassword | OptionCurveServerKey | OptionCurvePublicKey | OptionCurveSecretKey

type_synonym 's set_option = "sec_option \<Rightarrow> bytes \<Rightarrow> 's \<Rightarrow> go_error option \<times> 's"

text \<open>Options set one after the other, up to the first error; on the nil socket the first call panics.\<close>

fun set_options :: "'s set_option \<Rightarrow> (string \<times> sec_option \<times> bytes) list \<Rightarrow> 's option \<Rightarrow> unit result \<times> 's option" where
  "set_options setopt [] s = (Ok (), s)"
| "set_options setopt ((what, opt, val) # opts) None = (Panic ''nil pointer dereference'', None)"
| "set_options setopt ((what, opt, val) # opts) (Some s) =
     (case setopt opt val s of
        (Some e, s) \<Rightarrow> (Err (Wrapf (''failed to set '' @ what) e), Some s)
      | (None, s) \<Rightarrow> set_options setopt opts (Some s))"

fun Apply :: "'s set_option \<Rightarrow> MlmMechanism \<Rightarrow> 's option \<Rightarrow> unit result \<times> 's option" where
  "Apply setopt (PlainSecurity username password) s =
     set_options setopt [(''PLAIN username'', OptionPlainUsername, username), (''PLAIN password'', OptionPlainPassword, password)] s"
| "Apply setopt (CurveSecurity serverKey publicKey secretKey) s =
     set_options setopt [(''CURVE server key'', OptionCurveServerKey, serverKey), (''CURVE public key'', OptionCurvePublicKey, publicKey),
       (''CURVE secret key'', OptionCurveSecretKey, secretKey)] s"
| "Apply setopt NullSecurity s = (Ok (), s)"

fun GetCredentials :: "MlmMechanism \<Rightarrow> bytes \<rightharpoonup> bytes" where
  "GetCredentials (PlainSecurity username password) = [str ''username'' \<mapsto> username, str ''password'' \<mapsto> password]"
| "GetCredentials (CurveSecurity serverKey publicKey secretKey) =
     [str ''server_key'' \<mapsto> serverKey, str ''public_key'' \<mapsto> publicKey, str ''secret_key'' \<mapsto> secretKey]"
| "GetCredentials NullSecurity = Map.empty"

definition ApplyToSocket :: "'s set_option \<Rightarrow> MlmMechanism option \<Rightarrow> 's option \<Rightarrow> unit result \<times> 's option" where
  "ApplyToSocket setopt mechanism s =
     (case mechanism of None \<Rightarrow> (Err (Errorf ''no security mechanism configured''), s) | Some m \<Rightarrow> Apply setopt m s)"

definition SecureBroker_Start ::
    "'s set_option \<Rightarrow> MlmMechanism option \<Rightarrow> 's option \<Rightarrow> go_error option \<Rightarrow> MlmBroker \<Rightarrow> unit result \<times> MlmBroker" where
  "SecureBroker_Start setopt mechanism routerSocket bound b =
     (case fst (ApplyToSocket setopt mechanism routerSocket) of
        Err e \<Rightarrow> (Err (Wrapf ''failed to apply security to broker socket'' e), b)
      | Panic m \<Rightarrow> (Panic m, b)
      | Ok _ \<Rightarrow> (case mlb_Start bound b of (None, b) \<Rightarrow> (Ok (), b) | (Some e, b) \<Rightarrow> (Err e, b)))"

section \<open>Configuration\<close>

record MlmSecurityConfig =
  mg_Mechanism :: bytes
  mg_PlainUsername :: bytes
  mg_PlainPassword :: bytes
  mg_CurveServerKey :: bytes
  mg_CurvePublicKey :: bytes
  mg_CurveSecretKey :: bytes

definition CreateSecurityFromConfig :: "MlmSecurityConfig option \<Rightarrow> MlmMechanism result" where
  "CreateSecurityFromConfig config =
     (case config of
        None \<Rightarrow> Ok NullSecurity
      | Some c \<Rightarrow>
          if mg_Mechanism c = str ''null'' \<or> mg_Mechanism c = [] then Ok NullSecurity
          else if mg_Mechanism c = str ''plain'' then
            if mg_PlainUsername c = [] then Err (Errorf ''PLAIN username required'')
            else Ok (PlainSecurity (mg_PlainUsername c) (mg_PlainPassword c))
          else if mg_Mechanism c = str ''curve'' then
            if mg_CurveServerKey c = [] \<or> mg_CurvePublicKey c = [] \<or> mg_CurveSecretKey c = [] then Err (Errorf ''CURVE keys required'')
            else Ok (CurveSecurity (mg_CurveServerKey c) (mg_CurvePublicKey c) (mg_CurveSecretKey c))
          else Err (Errorf ''unsupported security mechanism''))"

definition ValidateSecurityConfig :: "MlmSecurityConfig option \<Rightarrow> go_error option" where
  "ValidateSecurityConfig config =
     (case config of
        None \<Rightarrow> None
      | Some c \<Rightarrow>
          if mg_Mechanism c = str ''null'' \<or> mg_Mechanism c = [] then None
          else if mg_Mechanism c = str ''plain'' then
            if mg_PlainUsername c = [] then Some (Errorf ''PLAIN username is required'') else None
          else if mg_Mechanism c = str ''curve'' then
            if mg_CurveServerKey c = [] then Some (Errorf ''CURVE server key is required'')
            else if mg_CurvePublicKey c = [] then Some (Errorf ''CURVE public key is required'')
            else if mg_CurveSecretKey c = [] then Some (Errorf ''CURVE secret key is required'')
            else if length (mg_CurveServerKey c) \<noteq> 40 then Some (Errorf ''CURVE server key must be 40 characters'')
            else if length (mg_CurvePublicKey c) \<noteq> 40 then Some (Errorf ''CURVE public key must be 40 characters'')
            else if length (mg_CurveSecretKey c) \<noteq> 40 then Some (Errorf ''CURVE secret key must be 40 characters'')
            else None
          else Some (Errorf ''unsupported security mechanism''))"

section \<open>Certificates and authorisation\<close>

record CurveCertificate =
  ct_PublicKey :: bytes
  ct_SecretKey :: bytes
  ct_Metadata :: "bytes \<rightharpoonup> bytes"
  ct_CreatedAt :: int
  ct_ExpiresAt :: int

record AuthenticationHandler =
  ah_authorizedClients :: "bytes set"
  ah_certificates :: "bytes \<rightharpoonup> CurveCertificate"

definition AddCertificate :: "bytes \<Rightarrow> CurveCertificate \<Rightarrow> AuthenticationHandler \<Rightarrow> AuthenticationHandler" where
  "AddCertificate i cert ah = ah\<lparr>ah_certificates := (ah_certificates ah)(i \<mapsto> cert)\<rparr>"

definition RemoveCertificate :: "bytes \<Rightarrow> AuthenticationHandler \<Rightarrow> AuthenticationHandler" where
  "RemoveCertificate i ah = ah\<lparr>ah_certificates := (ah_certificates ah)(i := None)\<rparr>"

definition ValidateCertificate :: "int \<Rightarrow> bytes \<Rightarrow> AuthenticationHandler \<Rightarrow> bool" where
  "ValidateCertificate now i ah =
     (case ah_certificates ah i of
        None \<Rightarrow> False
      | Some cert \<Rightarrow> if ct_ExpiresAt cert > 0 \<and> now > ct_ExpiresAt cert then False else True)"

definition AuthorizeClient :: "bytes \<Rightarrow> AuthenticationHandler \<Rightarrow> AuthenticationHandler" where
  "AuthorizeClient i ah = ah\<lparr>ah_authorizedClients := insert i (ah_authorizedClients ah)\<rparr>"

definition RevokeClient :: "bytes \<Rightarrow> AuthenticationHandler \<Rightarrow> AuthenticationHandler" where
  "RevokeClient i ah = ah\<lparr>ah_authorizedClients := ah_authorizedClients ah - {i}\<rparr>"

definition IsAuthorized :: "bytes \<Rightarrow> AuthenticationHandler \<Rightarrow> bool" where
  "IsAuthorized i ah \<longleftrightarrow> i \<in> ah_authorizedClients ah"

section \<open>Properties\<close>

text \<open>
  a configuration that validates gives a mechanism, with exactly the credentials of the configuration for its kind; and a configuration
  that gives a mechanism validates, unless it is a CURVE configuration with a key whose length is not 40.
\<close>

theorem security_config_agreement:
  "(ValidateSecurityConfig (Some c) = None \<longrightarrow> (\<exists>m. CreateSecurityFromConfig (Some c) = Ok m \<and>
      GetCredentials m = (if mg_Mechanism c = str ''plain'' then [str ''username'' \<mapsto> mg_PlainUsername c, str ''password'' \<mapsto> mg_PlainPassword c]
        else if mg_Mechanism c = str ''curve'' then [str ''server_key'' \<mapsto> mg_CurveServerKey c, str ''public_key'' \<mapsto> mg_CurvePublicKey c,
          str ''secret_key'' \<mapsto> mg_CurveSecretKey c]
        else Map.empty))) \<and>
   (CreateSecurityFromConfig (Some c) = Ok m \<longrightarrow> ValidateSecurityConfig (Some c) = None \<or>
      mg_Mechanism c = str ''curve'' \<and> (\<exists>k \<in> {mg_CurveServerKey c, mg_CurvePublicKey c, mg_CurveSecretKey c}. length k \<noteq> 40))"
proof -
  have "str ''plain'' \<noteq> str ''null''" "str ''curve'' \<noteq> str ''null''" "str ''curve'' \<noteq> str ''plain''" "str ''plain'' \<noteq> []" "str ''curve'' \<noteq> []"
    by (simp_all add: str_Cons)
  then consider "mg_Mechanism c = str ''plain''" | "mg_Mechanism c = str ''curve''" | "mg_Mechanism c = str ''null'' \<or> mg_Mechanism c = []"
      "mg_Mechanism c \<noteq> str ''plain''" "mg_Mechanism c \<noteq> str ''curve''"
    | "mg_Mechanism c \<notin> {str ''plain'', str ''curve'', str ''null'', []}"
    by auto
  then show ?thesis
  proof cases
    case 1
    then show ?thesis using \<open>str ''plain'' \<noteq> str ''null''\<close> by (simp add: ValidateSecurityConfig_def CreateSecurityFromConfig_def)
  next
    case 2
    then show ?thesis
      using \<open>str ''curve'' \<noteq> str ''null''\<close> \<open>str ''curve'' \<noteq> str ''plain''\<close> by (simp add: ValidateSecurityConfig_def CreateSecurityFromConfig_def)
  next
    case 3
    then show ?thesis by (simp add: ValidateSecurityConfig_def CreateSecurityFromConfig_def)
  next
    case 4
    then show ?thesis by (simp add: ValidateSecurityConfig_def CreateSecurityFromConfig_def)
  qed
qed

theorem security_config_agreement_witness:
  "\<exists>m. CreateSecurityFromConfig (Some \<lparr>mg_Mechanism = str ''plain'', mg_PlainUsername = [117], mg_PlainPassword = [], mg_CurveServerKey = [],
       mg_CurvePublicKey = [], mg_CurveSecretKey = []\<rparr>) = Ok m \<and> GetCredentials m (str ''username'') = Some [117]"
proof -
  let ?c = "\<lparr>mg_Mechanism = str ''plain'', mg_PlainUsername = [117], mg_PlainPassword = [], mg_CurveServerKey = [], mg_CurvePublicKey = [], mg_CurveSecretKey = []\<rparr>"
  have "ValidateSecurityConfig (Some ?c) = None" by (simp add: ValidateSecurityConfig_def str_Cons)
  then show ?thesis using security_config_agreement [of ?c NullSecurity] by (auto simp: str_Cons)
qed

text \<open>
  A broker makes its socket in \<^verbatim>\<open>Start\<close>, and the secure broker applies its mechanism before: with PLAIN or CURVE the first start panics.
\<close>

lemma secure_broker_panics:
  assumes "m \<noteq> NullSecurity"
  shows "SecureBroker_Start setopt (Some m) None bound b = (Panic ''nil pointer dereference'', b)"
  using assms by (cases m) (simp_all add: SecureBroker_Start_def ApplyToSocket_def)

text \<open>A client is authorised exactly after the last of its authorisations and revocations was an authorisation; certificates hold until they expire.\<close>

lemma authorisation_last:
  "IsAuthorized i (AuthorizeClient j ah) \<longleftrightarrow> i = j \<or> IsAuthorized i ah"
  "IsAuthorized i (RevokeClient j ah) \<longleftrightarrow> i \<noteq> j \<and> IsAuthorized i ah"
  by (auto simp: IsAuthorized_def AuthorizeClient_def RevokeClient_def)

lemma certificate_holds:
  "ValidateCertificate now i (AddCertificate j cert ah) \<longleftrightarrow>
     (if i = j then ct_ExpiresAt cert \<le> 0 \<or> now \<le> ct_ExpiresAt cert else ValidateCertificate now i ah)"
  "ValidateCertificate now i (RemoveCertificate j ah) \<longleftrightarrow> i \<noteq> j \<and> ValidateCertificate now i ah"
  by (auto simp: ValidateCertificate_def AddCertificate_def RemoveCertificate_def)

end
