(* ===== verification/Zyre_Message.thy ===== *)
theory Zyre_Message
  imports Lp_Codec
begin

text \<open>
  The messages of the Zyre peer protocol (\<^verbatim>\<open>zyre/message.go\<close>, types in \<^verbatim>\<open>zyre/protocol.go\<close>)
  and the discovery beacon (\<^verbatim>\<open>zyre/beacon.go\<close>). \<^verbatim>\<open>Unmarshal\<close> fills a fresh struct; an array
  \<^verbatim>\<open>[16]byte\<close> is a list of 16 bytes. The UDP socket is the list of datagrams written.
\<close>

section \<open>Messages\<close>

definition ProtocolSignature1 :: byte where "ProtocolSignature1 = 0xAA"
definition ProtocolSignature2 :: byte where "ProtocolSignature2 = 0xA1"

record ZreMessage =
  zVersion :: byte
  zType :: byte
  zSequence :: "16 word"
  SenderUUID :: bytes
  zBody :: bytes

record HelloMessage =
  hVersion :: byte
  hSequence :: "16 word"
  hEndpoint :: bytes
  hGroups :: "bytes list"
  hStatus :: byte
  hName :: bytes
  hHeaders :: "bytes \<rightharpoonup> bytes"

record WhisperMessage =
  wContent :: frames

record ShoutMessage =
  sGroup :: bytes
  sContent :: frames

record JoinMessage =
  jGroup :: bytes
  jStatus :: byte

record LeaveMessage =
  lGroup :: bytes
  lStatus :: byte

definition Zre_Marshal :: "ZreMessage \<Rightarrow> bytes result" where
  "Zre_Marshal m = Ok ([ProtocolSignature1, ProtocolSignature2, zVersion m, zType m] @
     put_be 2 (unat (zSequence m)) @ SenderUUID m @ zBody m)"

text \<open>The reads whose errors are ignored: a short UUID is filled with the zeros of the array.\<close>

definition Zre_Unmarshal :: "bytes \<Rightarrow> ZreMessage result" where
  "Zre_Unmarshal data =
     (if length data < 21 then Err (Errorf ''message too short'')
      else if data ! 0 \<noteq> ProtocolSignature1 \<or> data ! 1 \<noteq> ProtocolSignature2
        then Err (Errorf ''invalid protocol signature'')
      else Ok \<lparr>zVersion = data ! 2, zType = data ! 3, zSequence = of_nat (get_be (take 2 (drop 4 data))),
             SenderUUID = take 16 (drop 6 data) @ replicate (16 - length (drop 6 data)) 0,
             zBody = drop 22 data\<rparr>)"

definition marshalMultipart :: "frames \<Rightarrow> bytes result" where
  "marshalMultipart frames =
     (if length frames > 255 then Err (Errorf ''too many frames'')
      else write_all (Ok [of_nat (length frames)] # map (writeBlock ''frame'' 2 65535) frames))"

definition readFrame :: "bytes decoder" where
  "readFrame r =
     and_then (wrap_err ''failed to read frame length'' (binary_Read 2 r)) (\<lambda>(frameLength, r).
       wrap_err ''failed to read frame data'' (Reader_Read frameLength r))"

definition unmarshalMultipart :: "bytes \<Rightarrow> frames result" where
  "unmarshalMultipart data =
     and_then (wrap_err ''failed to read frame count'' (ReadByte data)) (\<lambda>(frameCount, r).
       and_then (get_many readFrame (unat frameCount) r) (\<lambda>(frames, r). Ok frames))"

text \<open>A list of strings behind its count, as in HELLO.\<close>

definition writeGroups :: "bytes list \<Rightarrow> bytes result" where
  "writeGroups gs =
     (if length gs > 255 then Err (Errorf ''too many groups'')
      else write_all (Ok [of_nat (length gs)] # map (writeString ''group name'' 255) gs))"

definition readGroups :: "bytes list decoder" where
  "readGroups r =
     and_then (wrap_err ''failed to read group count'' (ReadByte r)) (\<lambda>(groupCount, r).
       get_many (\<lambda>r. wrap_err ''failed to read group'' (get_lp r)) (unat groupCount) r)"

definition Hello_Marshal :: "key_order \<Rightarrow> HelloMessage \<Rightarrow> bytes result" where
  "Hello_Marshal ord h = write_all
     [Ok [hVersion h], Ok (put_be 2 (unat (hSequence h))), writeString ''endpoint'' 255 (hEndpoint h),
      writeGroups (hGroups h), Ok [hStatus h], writeString ''name'' 255 (hName h),
      writeMap ''headers'' ord (hHeaders h)]"

definition Hello_Unmarshal :: "bytes \<Rightarrow> HelloMessage result" where
  "Hello_Unmarshal data =
     and_then (wrap_err ''failed to read version'' (ReadByte data)) (\<lambda>(version, r).
     and_then (wrap_err ''failed to read sequence'' (binary_Read 2 r)) (\<lambda>(sequence, r).
     and_then (wrap_err ''failed to read endpoint'' (get_lp r)) (\<lambda>(endpoint, r).
     and_then (readGroups r) (\<lambda>(groups, r).
     and_then (wrap_err ''failed to read status'' (ReadByte r)) (\<lambda>(status, r).
     and_then (wrap_err ''failed to read name'' (get_lp r)) (\<lambda>(name, r).
     and_then (readMap ''header'' r) (\<lambda>(headers, r).
       Ok \<lparr>hVersion = version, hSequence = of_nat sequence, hEndpoint = endpoint, hGroups = groups,
           hStatus = status, hName = name, hHeaders = headers\<rparr>)))))))"

definition Whisper_Marshal :: "WhisperMessage \<Rightarrow> bytes result" where
  "Whisper_Marshal w = marshalMultipart (wContent w)"

definition Whisper_Unmarshal :: "bytes \<Rightarrow> WhisperMessage result" where
  "Whisper_Unmarshal data = and_then (unmarshalMultipart data) (\<lambda>content. Ok \<lparr>wContent = content\<rparr>)"

definition Shout_Marshal :: "ShoutMessage \<Rightarrow> bytes result" where
  "Shout_Marshal s = write_all [writeString ''group name'' 255 (sGroup s), marshalMultipart (sContent s)]"

definition Shout_Unmarshal :: "bytes \<Rightarrow> ShoutMessage result" where
  "Shout_Unmarshal data =
     and_then (wrap_err ''failed to read group'' (get_lp data)) (\<lambda>(group, remaining).
     and_then (unmarshalMultipart remaining) (\<lambda>content. Ok \<lparr>sGroup = group, sContent = content\<rparr>))"

definition Join_Marshal :: "JoinMessage \<Rightarrow> bytes result" where
  "Join_Marshal j = write_all [writeString ''group name'' 255 (jGroup j), Ok [jStatus j]]"

definition Join_Unmarshal :: "bytes \<Rightarrow> JoinMessage result" where
  "Join_Unmarshal data =
     and_then (wrap_err ''failed to read group'' (get_lp data)) (\<lambda>(group, r).
     and_then (wrap_err ''failed to read status'' (ReadByte r)) (\<lambda>(status, r).
       Ok \<lparr>jGroup = group, jStatus = status\<rparr>))"

definition Leave_Marshal :: "LeaveMessage \<Rightarrow> bytes result" where
  "Leave_Marshal l = write_all [writeString ''group name'' 255 (lGroup l), Ok [lStatus l]]"

definition Leave_Unmarshal :: "bytes \<Rightarrow> LeaveMessage result" where
  "Leave_Unmarshal data =
     and_then (wrap_err ''failed to read group'' (get_lp data)) (\<lambda>(group, r).
     and_then (wrap_err ''failed to read status'' (ReadByte r)) (\<lambda>(status, r).
       Ok \<lparr>lGroup = group, lStatus = status\<rparr>))"

section \<open>Beacon\<close>

definition BeaconVersion :: byte where "BeaconVersion = 1"
definition BeaconPrefix :: bytes where "BeaconPrefix = str ''ZRE''"
definition BeaconSize :: nat where "BeaconSize = 22"
definition DefaultBeaconInterval :: int where "DefaultBeaconInterval = 1000 * 1000000"

record Beacon =
  b_uuid :: bytes
  b_port :: "16 word"
  b_interval :: int
  b_sent :: "bytes list"

record Discovery =
  d_UUID :: bytes
  d_Port :: "16 word"
  d_Addr :: bytes
  d_Time :: int

definition NewBeacon :: "bytes \<Rightarrow> 16 word \<Rightarrow> int \<Rightarrow> Beacon" where
  "NewBeacon uuid port interval = \<lparr>b_uuid = uuid, b_port = port,
     b_interval = (if interval = 0 then DefaultBeaconInterval else interval),
     b_sent = []\<rparr>"

definition Beacon_SetPort :: "16 word \<Rightarrow> Beacon \<Rightarrow> Beacon" where
  "Beacon_SetPort port b = b\<lparr>b_port := port\<rparr>"

definition beacon_bytes :: "bytes \<Rightarrow> 16 word \<Rightarrow> bytes" where
  "beacon_bytes uuid port = BeaconPrefix @ [BeaconVersion] @ uuid @ put_be 2 (unat port)"

definition sendBeacon :: "Beacon \<Rightarrow> Beacon" where
  "sendBeacon b = b\<lparr>b_sent := b_sent b @ [beacon_bytes (b_uuid b) (b_port b)]\<rparr>"

text \<open>One tick of the broadcast loop: nothing is sent in silent mode, that is with port 0.\<close>

definition broadcast_tick :: "Beacon \<Rightarrow> Beacon" where
  "broadcast_tick b = (if b_port b > 0 then sendBeacon b else b)"

definition parseBeacon :: "int \<Rightarrow> bytes \<Rightarrow> bytes \<Rightarrow> Beacon \<Rightarrow> Discovery option" where
  "parseBeacon now data sourceIP b =
     (if length data \<noteq> BeaconSize then None
      else if take 3 data \<noteq> BeaconPrefix \<or> data ! 3 \<noteq> BeaconVersion then None
      else
        (let uuid = take 16 (drop 4 data); port = of_nat (get_be (take 2 (drop 20 data)))
         in if uuid = b_uuid b then None
            else Some \<lparr>d_UUID = uuid, d_Port = port, d_Addr = sourceIP, d_Time = now\<rparr>))"

text \<open>
  One datagram in the listen loop: it is read into a buffer of \<^verbatim>\<open>BeaconSize\<close> bytes, so that the
  end of a longer one is cut off, and a discovery is dropped when the channel of 100 is full.
\<close>

definition listen_datagram :: "int \<Rightarrow> bytes \<Rightarrow> bytes \<Rightarrow> Beacon \<Rightarrow> Discovery list \<Rightarrow> Discovery list" where
  "listen_datagram now data sourceIP b discoveries =
     (case parseBeacon now (take BeaconSize data) sourceIP b of
        None \<Rightarrow> discoveries
      | Some d \<Rightarrow> if length discoveries < 100 then discoveries @ [d] else discoveries)"

section \<open>Round trips\<close>

definition put_frame :: "bytes \<Rightarrow> bytes" where
  "put_frame f = put_be 2 (length f) @ f"

definition frame_fits :: "bytes \<Rightarrow> bool" where
  "frame_fits f \<longleftrightarrow> length f \<le> 65535"

lemma put_frame_not_Nil [simp]: "put_frame f \<noteq> []"
  by (simp add: put_frame_def wire_simps)

lemma readFrame_put:
  "frame_fits f \<Longrightarrow> readFrame (put_frame f @ rest) =
     (if f @ rest = [] then Err (Wrapf ''failed to read frame data'' EOF) else Ok (f, rest))"
  by (auto simp: readFrame_def put_frame_def frame_fits_def Reader_Read_def)

text \<open>All frames are read back, unless the last one is empty: reading it finds the end of the data.\<close>

lemma get_frames_put:
  assumes "list_all frame_fits fs"
  shows "get_many readFrame (length fs) (concat (map put_frame fs)) =
    (if fs \<noteq> [] \<and> last fs = [] then Err (Wrapf ''failed to read frame data'' EOF) else Ok (fs, []))"
  using assms
proof (induction fs)
  case (Cons f fs)
  show ?case
  proof (cases "fs = []")
    case True
    then show ?thesis using Cons.prems readFrame_put [of f "[]"] by simp
  next
    case False
    then have "f @ concat (map put_frame fs) \<noteq> []" by (cases fs) auto
    then show ?thesis using Cons False readFrame_put [of f "concat (map put_frame fs)"] by auto
  qed
qed simp

definition frames_fit :: "frames \<Rightarrow> bool" where
  "frames_fit fs \<longleftrightarrow> length fs \<le> 255 \<and> list_all frame_fits fs"

lemma marshalMultipart_Ok [codec_simps]:
  assumes "frames_fit fs"
  shows "marshalMultipart fs = Ok (of_nat (length fs) # concat (map put_frame fs))"
proof -
  have "map (writeBlock ''frame'' 2 65535) fs = map Ok (map put_frame fs)"
    using assms by (auto simp: frames_fit_def list_all_iff frame_fits_def put_frame_def writeBlock_def)
  then show ?thesis
    using assms by (simp add: marshalMultipart_def frames_fit_def write_all_Ok del: map_map)
qed

lemma unmarshalMultipart_put [codec_simps]:
  assumes "frames_fit fs"
  shows "unmarshalMultipart (of_nat (length fs) # concat (map put_frame fs)) =
    (if fs \<noteq> [] \<and> last fs = [] then Err (Wrapf ''failed to read frame data'' EOF) else Ok fs)"
  using assms get_frames_put [of fs]
  by (simp add: unmarshalMultipart_def frames_fit_def unat_length_byte)

definition groups_fit :: "bytes list \<Rightarrow> bool" where
  "groups_fit gs \<longleftrightarrow> length gs \<le> 255 \<and> list_all (\<lambda>g. length g \<le> 255) gs"

lemma writeGroups_Ok [codec_simps]:
  assumes "groups_fit gs"
  shows "writeGroups gs = Ok (of_nat (length gs) # concat (map put_lp gs))"
proof -
  have "map (writeString ''group name'' 255) gs = map Ok (map put_lp gs)"
    using assms by (auto simp: groups_fit_def list_all_iff writeString_def)
  then show ?thesis
    using assms by (simp add: writeGroups_def groups_fit_def write_all_Ok del: map_map)
qed

interpretation group: prefix_codec put_lp "\<lambda>r. wrap_err e (get_lp r)" "\<lambda>s. length s \<le> 255"
  by unfold_locales (simp add: codec_simps)

lemma readGroups_put [codec_simps]:
  "groups_fit gs \<Longrightarrow> readGroups (of_nat (length gs) # concat (map put_lp gs) @ rest) = Ok (gs, rest)"
  using group.get_many_put [of gs "''failed to read group''" rest]
  by (simp add: readGroups_def groups_fit_def unat_length_byte)

definition Hello_ok :: "key_order \<Rightarrow> HelloMessage \<Rightarrow> bool" where
  "Hello_ok ord h \<longleftrightarrow> length (hEndpoint h) \<le> 255 \<and> groups_fit (hGroups h) \<and> length (hName h) \<le> 255 \<and>
     map_ok ord (hHeaders h)"

definition content_ok :: "frames \<Rightarrow> bool" where
  "content_ok fs \<longleftrightarrow> frames_fit fs \<and> (fs = [] \<or> last fs \<noteq> [])"

interpretation zre: total_codec Zre_Marshal Zre_Unmarshal "\<lambda>m. length (SenderUUID m) = 16"
proof
  fix m :: ZreMessage and b
  assume uuid: "length (SenderUUID m) = 16"
  show "\<exists>b. Zre_Marshal m = Ok b" by (simp add: Zre_Marshal_def)
  assume "Zre_Marshal m = Ok b"
  moreover have "unat (zSequence m) mod 65536 = unat (zSequence m)"
    using unsigned_less [where 'a = nat, of "zSequence m"] by simp
  ultimately show "Zre_Unmarshal b = Ok m"
    using uuid by (auto simp: Zre_Marshal_def Zre_Unmarshal_def)
qed

interpretation hello: total_codec "Hello_Marshal ord" Hello_Unmarshal "Hello_ok ord" for ord
proof
  fix h b assume ok: "Hello_ok ord h"
  then show "\<exists>b. Hello_Marshal ord h = Ok b"
    by (simp add: Hello_Marshal_def Hello_ok_def codec_simps)
  assume "Hello_Marshal ord h = Ok b"
  then show "Hello_Unmarshal b = Ok h"
    using ok readMap_put [of ord "hHeaders h" _ "[]"]
    by (auto simp: Hello_Marshal_def Hello_ok_def Hello_Unmarshal_def codec_simps)
qed

lemma Whisper_exact:
  "frames_fit (wContent w) \<Longrightarrow> \<exists>b. Whisper_Marshal w = Ok b \<and> Whisper_Unmarshal b =
     (if wContent w \<noteq> [] \<and> last (wContent w) = [] then Err (Wrapf ''failed to read frame data'' EOF)
      else Ok w)"
  using unmarshalMultipart_put [of "wContent w"]
  by (simp add: Whisper_Marshal_def Whisper_Unmarshal_def marshalMultipart_Ok)

lemma Shout_exact:
  "length (sGroup s) \<le> 255 \<Longrightarrow> frames_fit (sContent s) \<Longrightarrow>
     \<exists>b. Shout_Marshal s = Ok b \<and> Shout_Unmarshal b =
     (if sContent s \<noteq> [] \<and> last (sContent s) = [] then Err (Wrapf ''failed to read frame data'' EOF)
      else Ok s)"
  using unmarshalMultipart_put [of "sContent s"]
  by (simp add: Shout_Marshal_def Shout_Unmarshal_def marshalMultipart_Ok writeString_Ok get_lp_put)

interpretation whisper: total_codec Whisper_Marshal Whisper_Unmarshal "\<lambda>w. content_ok (wContent w)"
  using Whisper_exact by unfold_locales (fastforce simp: content_ok_def split: if_splits)+

interpretation shout: total_codec Shout_Marshal Shout_Unmarshal
    "\<lambda>s. length (sGroup s) \<le> 255 \<and> content_ok (sContent s)"
  using Shout_exact by unfold_locales (fastforce simp: content_ok_def split: if_splits)+

interpretation join: total_codec Join_Marshal Join_Unmarshal "\<lambda>j. length (jGroup j) \<le> 255"
  by unfold_locales (auto simp: Join_Marshal_def Join_Unmarshal_def codec_simps)

interpretation leave: total_codec Leave_Marshal Leave_Unmarshal "\<lambda>l. length (lGroup l) \<le> 255"
  by unfold_locales (auto simp: Leave_Marshal_def Leave_Unmarshal_def codec_simps)

text \<open>
  Every Zyre message within its limits is marshalled and unmarshals to itself: the frame
  message with its 16-byte UUID, HELLO, JOIN and LEAVE. WHISPER and SHOUT do so exactly when
  the last frame of their content is not empty: otherwise the receiver reports an unexpected
  end of the data and the message is lost.
\<close>

theorem zyre_roundtrip:
  "(length (SenderUUID m) = 16 \<longrightarrow> (\<exists>b. Zre_Marshal m = Ok b \<and> Zre_Unmarshal b = Ok m)) \<and>
   (Hello_ok ord h \<longrightarrow> (\<exists>b. Hello_Marshal ord h = Ok b \<and> Hello_Unmarshal b = Ok h)) \<and>
   (length (jGroup j) \<le> 255 \<longrightarrow> (\<exists>b. Join_Marshal j = Ok b \<and> Join_Unmarshal b = Ok j)) \<and>
   (length (lGroup l) \<le> 255 \<longrightarrow> (\<exists>b. Leave_Marshal l = Ok b \<and> Leave_Unmarshal b = Ok l)) \<and>
   (frames_fit (wContent w) \<longrightarrow> (\<exists>b. Whisper_Marshal w = Ok b \<and> Whisper_Unmarshal b =
      (if wContent w \<noteq> [] \<and> last (wContent w) = [] then Err (Wrapf ''failed to read frame data'' EOF)
       else Ok w))) \<and>
   (length (sGroup s) \<le> 255 \<and> frames_fit (sContent s) \<longrightarrow>
      (\<exists>b. Shout_Marshal s = Ok b \<and> Shout_Unmarshal b =
      (if sContent s \<noteq> [] \<and> last (sContent s) = [] then Err (Wrapf ''failed to read frame data'' EOF)
       else Ok s)))"
  using zre.roundtrip [of m] hello.roundtrip [of ord h] join.roundtrip [of j] leave.roundtrip [of l]
    Whisper_exact [of w] Shout_exact [of s]
  by blast

definition sample_hello :: HelloMessage where
  "sample_hello = \<lparr>hVersion = 2, hSequence = 1, hEndpoint = [116], hGroups = [[97], []], hStatus = 0,
     hName = [110], hHeaders = Map.empty\<rparr>"

theorem zyre_roundtrip_witness:
  "(\<exists>b. Hello_Marshal (\<lambda>_. []) sample_hello = Ok b \<and> Hello_Unmarshal b = Ok sample_hello) \<and>
   (\<exists>b. Whisper_Marshal \<lparr>wContent = [[1], []]\<rparr> = Ok b \<and>
      Whisper_Unmarshal b = Err (Wrapf ''failed to read frame data'' EOF)) \<and>
   (\<exists>b. Whisper_Marshal \<lparr>wContent = [[], [1]]\<rparr> = Ok b \<and> Whisper_Unmarshal b = Ok \<lparr>wContent = [[], [1]]\<rparr>)"
proof -
  have "Hello_ok (\<lambda>_. []) sample_hello"
    by (simp add: Hello_ok_def sample_hello_def groups_fit_def map_ok_def ord_ok_def)
  moreover have "frames_fit [[1], []]" "frames_fit [[], [1]]"
    by (simp_all add: frames_fit_def frame_fits_def)
  ultimately show ?thesis
    using zyre_roundtrip [of _ "\<lambda>_. []" sample_hello _ _ "\<lparr>wContent = [[1], []]\<rparr>"]
      zyre_roundtrip [of _ "\<lambda>_. []" sample_hello _ _ "\<lparr>wContent = [[], [1]]\<rparr>"]
    by simp
qed

lemma parseBeacon_sound:
  assumes "parseBeacon now data ip b = Some d"
  shows "data = beacon_bytes (d_UUID d) (d_Port d)"
proof -
  from assms have len: "length data = 22" and pre: "take 3 data = BeaconPrefix" "data ! 3 = BeaconVersion"
    and d: "d_UUID d = take 16 (drop 4 data)" "d_Port d = of_nat (get_be (take 2 (drop 20 data)))"
    by (auto simp: parseBeacon_def BeaconSize_def Let_def split: if_splits)
  have "get_be (take 2 (drop 20 data)) < 65536" using get_be_less_pow [of "take 2 (drop 20 data)" 2] by simp
  then have "unat (d_Port d) = get_be (take 2 (drop 20 data))" by (simp add: d unat_of_nat)
  then have "put_be 2 (unat (d_Port d)) = take 2 (drop 20 data)"
    using put_be_get_be [of "take 2 (drop 20 data)"] len by simp
  moreover have "data = take 3 data @ [data ! 3] @ take 16 (drop 4 data) @ take 2 (drop 20 data)"
    using len by (simp add: list_eq_iff_nth_eq nth_append nth_Cons' less_Suc_eq_0_disj)
  ultimately show ?thesis by (simp add: beacon_bytes_def d(1) pre)
qed

lemma beacon_heard:
  assumes "length uuid = 16"
  shows "listen_datagram now (beacon_bytes uuid port @ extra) ip b [] =
      (if uuid = b_uuid b then [] else [\<lparr>d_UUID = uuid, d_Port = port, d_Addr = ip, d_Time = now\<rparr>])"
proof -
  have port: "unat port mod 65536 = unat port"
    using unsigned_less [where 'a = nat, of port] by simp
  have len: "length (beacon_bytes uuid port) = BeaconSize" and pre: "length BeaconPrefix = 3"
    using assms by (simp_all add: beacon_bytes_def BeaconPrefix_def BeaconSize_def)
  have "parseBeacon now (beacon_bytes uuid port) ip b =
      (if uuid = b_uuid b then None
       else Some \<lparr>d_UUID = uuid, d_Port = port, d_Addr = ip, d_Time = now\<rparr>)"
    using assms len pre port by (simp add: parseBeacon_def beacon_bytes_def nth_append)
  then show ?thesis using len by (simp add: listen_datagram_def)
qed

text \<open>
  The discovery beacon. A node learns of a peer from exactly the 22-byte datagrams the peer
  broadcasts, with the peer's UUID and port, and never of itself; in a longer datagram only the first 22
  bytes count. A node that has set its port to 0, by which peers would recognise that it is
  leaving, broadcasts nothing.
\<close>

theorem beacon_discovery:
  assumes "length uuid = 16"
  shows "parseBeacon now (beacon_bytes uuid port) ip b =
      (if uuid = b_uuid b then None
       else Some \<lparr>d_UUID = uuid, d_Port = port, d_Addr = ip, d_Time = now\<rparr>) \<and>
    (parseBeacon now data ip b = Some d \<longrightarrow>
       data = beacon_bytes (d_UUID d) (d_Port d) \<and> d_UUID d \<noteq> b_uuid b) \<and>
    listen_datagram now (beacon_bytes uuid port @ extra) ip b [] =
      (if uuid = b_uuid b then [] else [\<lparr>d_UUID = uuid, d_Port = port, d_Addr = ip, d_Time = now\<rparr>]) \<and>
    broadcast_tick (Beacon_SetPort 0 b) = Beacon_SetPort 0 b"
proof (intro conjI impI)
  have port: "unat port mod 65536 = unat port"
    using unsigned_less [where 'a = nat, of port] by simp
  have len: "length (beacon_bytes uuid port) = BeaconSize" and pre: "length BeaconPrefix = 3"
    using assms by (simp_all add: beacon_bytes_def BeaconPrefix_def BeaconSize_def)
  show parse: "parseBeacon now (beacon_bytes uuid port) ip b =
      (if uuid = b_uuid b then None
       else Some \<lparr>d_UUID = uuid, d_Port = port, d_Addr = ip, d_Time = now\<rparr>)"
    using assms len pre port by (simp add: parseBeacon_def beacon_bytes_def nth_append)
  show "listen_datagram now (beacon_bytes uuid port @ extra) ip b [] =
      (if uuid = b_uuid b then [] else [\<lparr>d_UUID = uuid, d_Port = port, d_Addr = ip, d_Time = now\<rparr>])"
    by (rule beacon_heard [OF assms])
  show "broadcast_tick (Beacon_SetPort 0 b) = Beacon_SetPort 0 b"
    by (simp add: broadcast_tick_def Beacon_SetPort_def)
  assume d: "parseBeacon now data ip b = Some d"
  then show "d_UUID d \<noteq> b_uuid b"
    by (auto simp: parseBeacon_def Let_def split: if_splits)
  from d show "data = beacon_bytes (d_UUID d) (d_Port d)"
    by (rule parseBeacon_sound)
qed

theorem beacon_discovery_witness:
  "parseBeacon 0 (beacon_bytes (replicate 16 1) 5) [127] (NewBeacon (replicate 16 2) 7 0) =
     Some \<lparr>d_UUID = replicate 16 1, d_Port = 5, d_Addr = [127], d_Time = 0\<rparr>"
proof -
  have "replicate 16 (1 :: byte) \<noteq> replicate 16 2" by (simp add: replicate_eq_replicate)
  then show ?thesis
    using beacon_discovery [of "replicate 16 1" 0 5 "[127]" "NewBeacon (replicate 16 2) 7 0"]
    by (simp add: NewBeacon_def)
qed

end
