(* ===== verification/Zyre_Events.thy ===== *)
theory Zyre_Events
  imports Prelude
begin

text \<open>
  The events of a Zyre node (\<^verbatim>\<open>zyre/event.go\<close>): a queue of events that a goroutine distributes to the
  listeners. A listener whose channel is full is removed from the slice of listeners while the
  loop ranges over it, so the model of one distribution carries the backing array of the slice
  beside its length.
\<close>

section \<open>Data\<close>

definition EventTypeEnter :: bytes where "EventTypeEnter = str ''ENTER''"
definition EventTypeExit :: bytes where "EventTypeExit = str ''EXIT''"
definition EventTypeJoin :: bytes where "EventTypeJoin = str ''JOIN''"
definition EventTypeLeave :: bytes where "EventTypeLeave = str ''LEAVE''"
definition EventTypeWhisper :: bytes where "EventTypeWhisper = str ''WHISPER''"
definition EventTypeShout :: bytes where "EventTypeShout = str ''SHOUT''"

record Event =
  ev_Type :: bytes
  ev_PeerUUID :: bytes
  ev_PeerName :: bytes
  ev_PeerAddr :: bytes
  ev_Headers :: "bytes \<rightharpoonup> bytes"
  ev_Group :: bytes
  ev_Message :: frames
  ev_Timestamp :: int

definition NewEnterEvent :: "int \<Rightarrow> bytes \<Rightarrow> bytes \<Rightarrow> bytes \<Rightarrow> (bytes \<rightharpoonup> bytes) \<Rightarrow> Event" where
  "NewEnterEvent now uuid name addr headers = \<lparr>ev_Type = EventTypeEnter, ev_PeerUUID = uuid, ev_PeerName = name, ev_PeerAddr = addr,
     ev_Headers = headers, ev_Group = [], ev_Message = [], ev_Timestamp = now\<rparr>"

definition NewExitEvent :: "int \<Rightarrow> bytes \<Rightarrow> bytes \<Rightarrow> bytes \<Rightarrow> Event" where
  "NewExitEvent now uuid name addr = \<lparr>ev_Type = EventTypeExit, ev_PeerUUID = uuid, ev_PeerName = name, ev_PeerAddr = addr,
     ev_Headers = Map.empty, ev_Group = [], ev_Message = [], ev_Timestamp = now\<rparr>"

definition NewJoinEvent :: "int \<Rightarrow> bytes \<Rightarrow> bytes \<Rightarrow> bytes \<Rightarrow> Event" where
  "NewJoinEvent now uuid name grp = \<lparr>ev_Type = EventTypeJoin, ev_PeerUUID = uuid, ev_PeerName = name, ev_PeerAddr = [],
     ev_Headers = Map.empty, ev_Group = grp, ev_Message = [], ev_Timestamp = now\<rparr>"

definition NewLeaveEvent :: "int \<Rightarrow> bytes \<Rightarrow> bytes \<Rightarrow> bytes \<Rightarrow> Event" where
  "NewLeaveEvent now uuid name grp = \<lparr>ev_Type = EventTypeLeave, ev_PeerUUID = uuid, ev_PeerName = name, ev_PeerAddr = [],
     ev_Headers = Map.empty, ev_Group = grp, ev_Message = [], ev_Timestamp = now\<rparr>"

definition NewWhisperEvent :: "int \<Rightarrow> bytes \<Rightarrow> bytes \<Rightarrow> frames \<Rightarrow> Event" where
  "NewWhisperEvent now uuid name message = \<lparr>ev_Type = EventTypeWhisper, ev_PeerUUID = uuid, ev_PeerName = name, ev_PeerAddr = [],
     ev_Headers = Map.empty, ev_Group = [], ev_Message = message, ev_Timestamp = now\<rparr>"

definition NewShoutEvent :: "int \<Rightarrow> bytes \<Rightarrow> bytes \<Rightarrow> bytes \<Rightarrow> frames \<Rightarrow> Event" where
  "NewShoutEvent now uuid name grp message = \<lparr>ev_Type = EventTypeShout, ev_PeerUUID = uuid, ev_PeerName = name, ev_PeerAddr = [],
     ev_Headers = Map.empty, ev_Group = grp, ev_Message = message, ev_Timestamp = now\<rparr>"

text \<open>A listener is a number; its channel has a capacity and a content. \<^verbatim>\<open>None\<close> is the nil event.\<close>

record EventChannel =
  ec_size :: nat
  ec_events :: "Event list"
  ec_listeners :: "nat list"
  ec_caps :: "nat \<Rightarrow> nat"
  ec_chans :: "nat \<Rightarrow> Event option list"
  ec_closing :: bool

definition NewEventChannel :: "nat \<Rightarrow> EventChannel" where
  "NewEventChannel bufferSize = \<lparr>ec_size = bufferSize, ec_events = [], ec_listeners = [], ec_caps = (\<lambda>_. 0), ec_chans = (\<lambda>_. []),
     ec_closing = False\<rparr>"

section \<open>Operations\<close>

text \<open>\<open>l\<close> is the new channel.\<close>

definition ec_Subscribe :: "nat \<Rightarrow> nat \<Rightarrow> EventChannel \<Rightarrow> EventChannel" where
  "ec_Subscribe l bufferSize ec = ec\<lparr>ec_listeners := ec_listeners ec @ [l], ec_caps := (ec_caps ec)(l := bufferSize),
     ec_chans := (ec_chans ec)(l := [])\<rparr>"

definition ec_Publish :: "Event \<Rightarrow> EventChannel \<Rightarrow> EventChannel" where
  "ec_Publish event ec =
     (if ec_closing ec then ec
      else if length (ec_events ec) < ec_size ec then ec\<lparr>ec_events := ec_events ec @ [event]\<rparr>
      else ec)"

text \<open>
  The inner loop with \<open>n\<close> rounds to go: \<open>arr\<close> is the backing array over which \<^verbatim>\<open>range\<close> runs, \<open>len\<close> the length of
  \<^verbatim>\<open>ec.listeners\<close>. Removing element \<open>i\<close> moves the elements behind it within the array.
\<close>

fun distribute :: "Event option \<Rightarrow> (nat \<Rightarrow> nat) \<Rightarrow> nat \<Rightarrow> nat \<Rightarrow> nat list \<Rightarrow> nat \<Rightarrow> (nat \<Rightarrow> Event option list) \<Rightarrow>
    (nat list \<times> (nat \<Rightarrow> Event option list)) result" where
  "distribute event caps 0 i arr len chans = Ok (take len arr, chans)"
| "distribute event caps (Suc n) i arr len chans =
     (let l = arr ! i in
      if length (chans l) < caps l then distribute event caps n (Suc i) arr len (chans(l := chans l @ [event]))
      else if len < i + 1 then Panic ''slice bounds out of range''
      else distribute event caps n (Suc i) (take i arr @ drop (Suc i) (take len arr) @ drop (len - 1) arr) (len - 1) chans)"

definition distribute_event :: "Event option \<Rightarrow> EventChannel \<Rightarrow> EventChannel result" where
  "distribute_event event ec =
     (let n = length (ec_listeners ec) in
      and_then (distribute event (ec_caps ec) n 0 (ec_listeners ec) n (ec_chans ec)) (\<lambda>(ls, chans).
        Ok (ec\<lparr>ec_listeners := ls, ec_chans := chans\<rparr>)))"

text \<open>
  One round of the goroutine: \<^verbatim>\<open>None\<close> when it waits. A closed channel of events yields nil events
  without end, since \<^verbatim>\<open>ec.closed\<close> is only closed by the goroutine itself.
\<close>

definition Start_round :: "EventChannel \<Rightarrow> EventChannel result option" where
  "Start_round ec =
     (case ec_events ec of
        ev # evs \<Rightarrow> Some (distribute_event (Some ev) (ec\<lparr>ec_events := evs\<rparr>))
      | [] \<Rightarrow> if ec_closing ec then Some (distribute_event None ec) else None)"

definition ec_Close :: "EventChannel \<Rightarrow> EventChannel" where
  "ec_Close ec = ec\<lparr>ec_closing := True\<rparr>"

section \<open>Lemmas\<close>

definition add_event :: "Event option \<Rightarrow> nat list \<Rightarrow> (nat \<Rightarrow> Event option list) \<Rightarrow> nat \<Rightarrow> Event option list" where
  "add_event event ls chans = (\<lambda>l. if l \<in> set ls then chans l @ [event] else chans l)"

lemma distribute_room:
  assumes "distinct ls" "i + n \<le> length ls" "\<forall>l \<in> set (drop i ls). length (chans l) < caps l"
  shows "distribute event caps n i ls (length ls) chans = Ok (ls, add_event event (take n (drop i ls)) chans)"
  using assms(2,3)
proof (induction n arbitrary: i chans)
  case 0
  then show ?case by (simp add: add_event_def)
next
  case (Suc n)
  let ?l = "ls ! i"
  have drop: "drop i ls = ?l # drop (Suc i) ls" using Suc.prems(1) by (simp add: Cons_nth_drop_Suc)
  then have fresh: "?l \<notin> set (drop (Suc i) ls)" using assms(1) by (metis distinct.simps(2) distinct_drop)
  have room: "\<forall>l \<in> set (drop (Suc i) ls). length ((chans(?l := chans ?l @ [event])) l) < caps l"
    using Suc.prems(2) fresh drop by auto
  have "add_event event (take n (drop (Suc i) ls)) (chans(?l := chans ?l @ [event])) = add_event event (take (Suc n) (drop i ls)) chans"
    using fresh in_set_takeD by (fastforce simp: drop add_event_def fun_eq_iff)
  then show ?case
    using Suc.IH [OF _ room] Suc.prems drop by (simp add: Let_def fun_upd_def)
qed

lemma distribute_event_room:
  assumes "distinct (ec_listeners ec)" "\<forall>l \<in> set (ec_listeners ec). length (ec_chans ec l) < ec_caps ec l"
  shows "distribute_event event ec = Ok (ec\<lparr>ec_chans := add_event event (ec_listeners ec) (ec_chans ec)\<rparr>)"
  using distribute_room [OF assms(1), of 0 "length (ec_listeners ec)" "ec_chans ec" "ec_caps ec" event] assms(2) by (simp add: distribute_event_def Let_def)

section \<open>Runs\<close>

text \<open>
  The runs in which every listener keeps up: it has room whenever an event is distributed. Beside
  the state: the events accepted by \<^verbatim>\<open>Publish\<close>, the events distributed, and for every listener
  how many events had been distributed when it subscribed and what it has received.
\<close>

inductive kept_up :: "nat \<Rightarrow> Event list \<Rightarrow> Event list \<Rightarrow> (nat \<rightharpoonup> nat) \<Rightarrow> (nat \<Rightarrow> Event list) \<Rightarrow> EventChannel \<Rightarrow> bool" for bufsize where
  new: "kept_up bufsize [] [] Map.empty (\<lambda>_. []) (NewEventChannel bufsize)"
| subscribe: "kept_up bufsize acc dist (since(l \<mapsto> length dist)) got (ec_Subscribe l bufferSize ec)"
    if "kept_up bufsize acc dist since got ec" "since l = None"
| publish: "kept_up bufsize (acc @ (if length (ec_events ec) < ec_size ec then [ev] else [])) dist since got (ec_Publish ev ec)"
    if "kept_up bufsize acc dist since got ec"
| round: "kept_up bufsize acc (dist @ [hd (ec_events ec)]) since got ec'"
    if "kept_up bufsize acc dist since got ec" "\<forall>l \<in> set (ec_listeners ec). length (ec_chans ec l) < ec_caps ec l"
      "ec_events ec \<noteq> []" "Start_round ec = Some (Ok ec')"
| receive: "kept_up bufsize acc dist since (got(l := got l @ [ev])) (ec\<lparr>ec_chans := (ec_chans ec)(l := rest)\<rparr>)"
    if "kept_up bufsize acc dist since got ec" "ec_chans ec l = Some ev # rest"

fun listener_ok :: "Event list \<Rightarrow> nat option \<Rightarrow> Event list \<Rightarrow> Event option list \<Rightarrow> bool" where
  "listener_ok dist None got chan \<longleftrightarrow> got = [] \<and> chan = []"
| "listener_ok dist (Some k) got chan \<longleftrightarrow> k \<le> length dist \<and> map Some got @ chan = map Some (drop k dist)"

definition kept_up_inv :: "nat \<Rightarrow> Event list \<Rightarrow> Event list \<Rightarrow> (nat \<rightharpoonup> nat) \<Rightarrow> (nat \<Rightarrow> Event list) \<Rightarrow> EventChannel \<Rightarrow> bool" where
  "kept_up_inv bufsize acc dist since got ec \<longleftrightarrow> \<not> ec_closing ec \<and> ec_size ec = bufsize \<and> length (ec_events ec) \<le> bufsize \<and> acc = dist @ ec_events ec \<and>
     distinct (ec_listeners ec) \<and> set (ec_listeners ec) = dom since \<and>
     (\<forall>l. listener_ok dist (since l) (got l) (ec_chans ec l))"

lemma kept_up_invariant:
  assumes "kept_up bufsize acc dist since got ec"
  shows "kept_up_inv bufsize acc dist since got ec"
  using assms
proof (induction rule: kept_up.induct)
  case new
  show ?case by (simp add: kept_up_inv_def NewEventChannel_def)
next
  case (subscribe acc dist since got ec l bufferSize)
  have "listener_ok dist (since l) (got l) (ec_chans ec l)" using subscribe.IH unfolding kept_up_inv_def by blast
  then show ?case using subscribe by (auto simp: kept_up_inv_def ec_Subscribe_def)
next
  case (publish acc dist since got ec ev)
  then show ?case by (auto simp: kept_up_inv_def ec_Publish_def)
next
  case (round acc dist since got ec ec')
  obtain ev evs where evs: "ec_events ec = ev # evs" using round.hyps(3) by (cases "ec_events ec") auto
  have "distinct (ec_listeners ec)" using round.IH by (simp add: kept_up_inv_def)
  then have ec': "ec' = ec\<lparr>ec_events := evs, ec_chans := add_event (Some ev) (ec_listeners ec) (ec_chans ec)\<rparr>"
    using distribute_event_room [of "ec\<lparr>ec_events := evs\<rparr>" "Some ev"] round.hyps(2,4) evs by (simp add: Start_round_def)
  have "listener_ok (dist @ [ev]) (since l) (got l) (ec_chans ec' l)" for l
  proof -
    have old: "listener_ok dist (since l) (got l) (ec_chans ec l)" "set (ec_listeners ec) = dom since"
      using round.IH by (simp_all add: kept_up_inv_def)
    show ?thesis
    proof (cases "since l")
      case None
      then have "l \<notin> set (ec_listeners ec)" using old(2) by auto
      then show ?thesis using old(1) None by (simp add: ec' add_event_def)
    next
      case (Some k)
      then have "l \<in> set (ec_listeners ec)" using old(2) by auto
      then show ?thesis using old(1) Some by (simp add: ec' add_event_def flip: append_assoc)
    qed
  qed
  then show ?case using round.IH evs by (simp add: kept_up_inv_def ec')
next
  case (receive acc dist since got ec l ev rest)
  have "listener_ok dist (since l) (got l) (ec_chans ec l)" using receive.IH by (simp add: kept_up_inv_def)
  then have "listener_ok dist (since l) (got l @ [ev]) rest" using receive.hyps(2) by (cases "since l") simp_all
  then show ?case using receive.IH by (simp add: kept_up_inv_def)
qed

section \<open>Theorems\<close>

text \<open>
  C40: Events reach the listeners. As long as every listener has room when an event is distributed, a listener
  receives exactly the events distributed since it subscribed, in the order in which they were published and each
  once; what is not distributed yet is queued, and \<^verbatim>\<open>Publish\<close> drops an event only when the
  queue is full. The distribution never panics.
\<close>

theorem events_reach_listeners:
  assumes "kept_up bufsize acc dist since got ec"
  shows "acc = dist @ ec_events ec \<and>
    (\<forall>l k. since l = Some k \<longrightarrow> map Some (got l) @ ec_chans ec l = map Some (drop k dist)) \<and>
    (ec_events ec \<noteq> [] \<longrightarrow> (\<forall>l \<in> set (ec_listeners ec). length (ec_chans ec l) < ec_caps ec l) \<longrightarrow> (\<exists>ec'. Start_round ec = Some (Ok ec')))"
proof -
  have inv: "kept_up_inv bufsize acc dist since got ec" by (rule kept_up_invariant [OF assms])
  have "map Some (got l) @ ec_chans ec l = map Some (drop k dist)" if "since l = Some k" for l k
  proof -
    have "listener_ok dist (since l) (got l) (ec_chans ec l)" using inv by (simp add: kept_up_inv_def)
    then show ?thesis using that by simp
  qed
  moreover have "\<exists>ec'. Start_round ec = Some (Ok ec')"
    if nonempty: "ec_events ec \<noteq> []" and room: "\<forall>l \<in> set (ec_listeners ec). length (ec_chans ec l) < ec_caps ec l"
  proof -
    obtain ev evs where evs: "ec_events ec = ev # evs" using nonempty by (cases "ec_events ec") auto
    show ?thesis
      using distribute_event_room [of "ec\<lparr>ec_events := evs\<rparr>" "Some ev"] room inv evs by (simp add: Start_round_def kept_up_inv_def)
  qed
  ultimately show ?thesis using inv by (simp add: kept_up_inv_def)
qed

definition sample_event :: Event where
  "sample_event = NewExitEvent 1 (str ''a'') [] (str ''tcp'')"

theorem events_reach_listeners_witness:
  "\<exists>(got :: nat \<Rightarrow> Event list) (ec :: EventChannel). map Some (got 7) @ ec_chans ec 7 = [Some sample_event] \<and> ec_events ec = []"
proof -
  let ?ec1 = "ec_Subscribe 7 100 (NewEventChannel 1000)"
  have 1: "kept_up 1000 [] [] [7 \<mapsto> 0] (\<lambda>_. []) ?ec1" using kept_up.subscribe [OF kept_up.new [of 1000], where l = 7 and bufferSize = 100] by simp
  have 2: "kept_up 1000 [sample_event] [] [7 \<mapsto> 0] (\<lambda>_. []) (?ec1\<lparr>ec_events := [sample_event]\<rparr>)"
    using kept_up.publish [OF 1, of sample_event] by (simp add: ec_Subscribe_def NewEventChannel_def ec_Publish_def)
  obtain ec' where ec': "Start_round (?ec1\<lparr>ec_events := [sample_event]\<rparr>) = Some (Ok ec')" "ec_events ec' = []"
    by (simp add: Start_round_def distribute_event_def ec_Subscribe_def NewEventChannel_def)
  have 3: "kept_up 1000 [sample_event] [sample_event] [7 \<mapsto> 0] (\<lambda>_. []) ec'"
    using kept_up.round [OF 2 _ _ ec'(1)] by (simp add: ec_Subscribe_def NewEventChannel_def)
  have "map Some ((\<lambda>_. []) (7 :: nat)) @ ec_chans ec' 7 = map Some (drop 0 [sample_event])"
    using events_reach_listeners [OF 3] by (elim conjE allE [of _ 7] allE [of _ 0]) simp
  then show ?thesis using ec'(2) by (intro exI [of _ "\<lambda>_. []"] exI [of _ ec']) simp
qed

text \<open>
  A full listener disturbs the others: the one behind it is skipped and the last one gets the event
  twice. When the last two are full, the second removal panics.
\<close>

lemma full_listener_disturbs:
  assumes "length (chans a) \<ge> caps a" "length (chans b) < caps b" "Suc (length (chans c)) < caps c" "distinct [a, b, c]"
  shows "distribute ev caps 3 0 [a, b, c] 3 chans = Ok ([b, c], chans(c := chans c @ [ev, ev]))"
  using assms by (simp add: numeral_3_eq_3)

lemma two_full_listeners_panic:
  assumes "length (chans a) \<ge> caps a" "length (chans b) \<ge> caps b" "a \<noteq> b"
  shows "distribute ev caps 2 0 [a, b] 2 chans = Panic ''slice bounds out of range''"
  using assms by (simp add: numeral_2_eq_2)

text \<open>
  After \<^verbatim>\<open>Close\<close> the goroutine does not end: when the queue is empty it hands nil events to the
  listeners, for as long as it does not panic. The channel \<^verbatim>\<open>closed\<close> is never closed, and \<^verbatim>\<open>Wait\<close> does not return.
\<close>

lemma close_does_not_stop: "Start_round (ec_Close ec) \<noteq> None"
  by (auto simp: Start_round_def ec_Close_def split: list.split)

end
