(* ===== verification/Zyre_Peers.thy ===== *)
theory Zyre_Peers
  imports Zyre_Message Zyre_Events
begin

text \<open>
  The peers and groups of a Zyre node (\<^verbatim>\<open>zyre/peer.go\<close>, \<^verbatim>\<open>zyre/group.go\<close>) and the discovery engine that
  drives them (\<^verbatim>\<open>zyre/discovery.go\<close>). The peer manager and the groups share \<^verbatim>\<open>Peer\<close> objects, so peers
  live in a heap and both hold references. What the mutexes protect and what a caller waits for
  (a command of a group) is one step; the loops interleave. \<open>zy_published\<close> are the events given to
  \<^verbatim>\<open>Publish\<close>, in order.
\<close>

section \<open>Data\<close>

text \<open>\<open>zp_stopped\<close>: the context is cancelled and the channels are closed.\<close>

record Peer =
  zp_UUID :: bytes
  zp_Name :: bytes
  zp_Endpoint :: bytes
  zp_Headers :: "bytes \<rightharpoonup> bytes"
  zp_Groups :: "bytes set"
  zp_LastSeen :: int
  zp_Connected :: bool
  zp_stopped :: bool
  zp_Sequence :: "16 word"
  zp_outgoing :: "ZreMessage list"
  zp_sent :: "bytes list"

record Group =
  zg_name :: bytes
  zg_members :: "bytes \<rightharpoonup> nat"
  zg_messages :: "ZreMessage list"

record ZyreManagers =
  zy_heap :: "nat \<rightharpoonup> Peer"
  zy_limit :: nat
  zy_peers :: "bytes \<rightharpoonup> nat"
  zy_expiration :: int
  zy_groups :: "bytes \<rightharpoonup> Group"
  zy_published :: "Event list"

definition NewPeer :: "int \<Rightarrow> bytes \<Rightarrow> bytes \<Rightarrow> Peer" where
  "NewPeer now uuid endpoint = \<lparr>zp_UUID = uuid, zp_Name = [], zp_Endpoint = endpoint, zp_Headers = Map.empty, zp_Groups = {},
     zp_LastSeen = now, zp_Connected = False, zp_stopped = False, zp_Sequence = 0, zp_outgoing = [], zp_sent = []\<rparr>"

text \<open>\<^verbatim>\<open>NewPeerManager\<close> and \<^verbatim>\<open>NewGroupManager\<close>; the expiration is 5 seconds in nanoseconds.\<close>

definition NewManagers :: ZyreManagers where
  "NewManagers = \<lparr>zy_heap = Map.empty, zy_limit = 0, zy_peers = Map.empty, zy_expiration = 5000 * 1000000, zy_groups = Map.empty,
     zy_published = []\<rparr>"

definition NewGroup :: "bytes \<Rightarrow> Group" where
  "NewGroup name = \<lparr>zg_name = name, zg_members = Map.empty, zg_messages = []\<rparr>"

section \<open>A peer\<close>

text \<open>\<open>dialled\<close> says whether \<^verbatim>\<open>Dial\<close> succeeded.\<close>

definition Peer_Start :: "go_error option \<Rightarrow> Peer \<Rightarrow> unit result \<times> Peer" where
  "Peer_Start dialled p =
     (if zp_Connected p then (Err (Errorf ''peer already started''), p)
      else case dialled of
          Some e \<Rightarrow> (Err (Wrapf ''failed to connect to peer'' e), p)
        | None \<Rightarrow> (Ok (), p\<lparr>zp_Connected := True\<rparr>))"

definition Peer_Stop :: "Peer \<Rightarrow> Peer" where
  "Peer_Stop p = (if \<not> zp_Connected p then p else p\<lparr>zp_Connected := False, zp_stopped := True\<rparr>)"

text \<open>
  \<^verbatim>\<open>select\<close> chooses between the cancelled context and the send on the closed channel, which panics: \<open>choice\<close>.
\<close>

definition Peer_Send :: "bool \<Rightarrow> ZreMessage \<Rightarrow> Peer \<Rightarrow> unit result \<times> Peer" where
  "Peer_Send choice msg p =
     (if zp_stopped p then (if choice then Panic ''send on closed channel'' else Err CtxDone, p)
      else if length (zp_outgoing p) < 100 then (Ok (), p\<lparr>zp_outgoing := zp_outgoing p @ [msg]\<rparr>)
      else (Err (Errorf ''peer message queue full''), p))"

definition UpdateLastSeen :: "int \<Rightarrow> Peer \<Rightarrow> Peer" where
  "UpdateLastSeen now p = p\<lparr>zp_LastSeen := now\<rparr>"

definition IsExpired :: "int \<Rightarrow> int \<Rightarrow> Peer \<Rightarrow> bool" where
  "IsExpired now timeout p \<longleftrightarrow> now - zp_LastSeen p > timeout"

definition Peer_JoinGroup :: "bytes \<Rightarrow> Peer \<Rightarrow> Peer" where
  "Peer_JoinGroup name p = p\<lparr>zp_Groups := insert name (zp_Groups p)\<rparr>"

definition Peer_LeaveGroup :: "bytes \<Rightarrow> Peer \<Rightarrow> Peer" where
  "Peer_LeaveGroup name p = p\<lparr>zp_Groups := zp_Groups p - {name}\<rparr>"

definition InGroup :: "bytes \<Rightarrow> Peer \<Rightarrow> bool" where
  "InGroup name p \<longleftrightarrow> name \<in> zp_Groups p"

text \<open>One round of the outgoing loop: \<open>sent\<close> is what the socket reports.\<close>

definition outgoing_round :: "go_error option \<Rightarrow> Peer \<Rightarrow> Peer" where
  "outgoing_round sent p =
     (case zp_outgoing p of
        [] \<Rightarrow> p
      | msg # rest \<Rightarrow>
          let p = p\<lparr>zp_outgoing := rest\<rparr> in
          (case (Zre_Marshal msg, sent) of
             (Ok data, None) \<Rightarrow> p\<lparr>zp_sent := zp_sent p @ [data]\<rparr>
           | _ \<Rightarrow> p))"

definition nextSequence :: "Peer \<Rightarrow> 16 word \<times> Peer" where
  "nextSequence p = (zp_Sequence p + 1, p\<lparr>zp_Sequence := zp_Sequence p + 1\<rparr>)"

definition sendPing :: "bool \<Rightarrow> Peer \<Rightarrow> unit result \<times> Peer" where
  "sendPing choice p =
     (case nextSequence p of (n, p) \<Rightarrow>
        Peer_Send choice \<lparr>zVersion = 2, zType = 6, zSequence = n, SenderUUID = replicate 16 0, zBody = []\<rparr> p)"

section \<open>The peer manager\<close>

definition upd_peer :: "nat \<Rightarrow> (Peer \<Rightarrow> Peer) \<Rightarrow> ZyreManagers \<Rightarrow> ZyreManagers" where
  "upd_peer r f z = (case zy_heap z r of None \<Rightarrow> z | Some p \<Rightarrow> z\<lparr>zy_heap := (zy_heap z)(r \<mapsto> f p)\<rparr>)"

definition publish :: "Event \<Rightarrow> ZyreManagers \<Rightarrow> ZyreManagers" where
  "publish ev z = z\<lparr>zy_published := zy_published z @ [ev]\<rparr>"

text \<open>A peer that goes: stopped, removed, and reported.\<close>

definition remove_peer :: "int \<Rightarrow> bytes \<Rightarrow> ZyreManagers \<Rightarrow> ZyreManagers" where
  "remove_peer now uuid z =
     (case zy_peers z uuid of
        None \<Rightarrow> z
      | Some r \<Rightarrow>
          (case zy_heap z r of
             None \<Rightarrow> z
           | Some p \<Rightarrow> publish (NewExitEvent now uuid (zp_Name p) (zp_Endpoint p))
               ((upd_peer r Peer_Stop z)\<lparr>zy_peers := (zy_peers z)(uuid := None)\<rparr>)))"

text \<open>\<open>addr\<close> is the printed address of the discovery.\<close>

definition handleDiscovery :: "bytes \<Rightarrow> go_error option \<Rightarrow> int \<Rightarrow> Discovery \<Rightarrow> ZyreManagers \<Rightarrow> ZyreManagers" where
  "handleDiscovery addr dialled now d z =
     (let uuid = hex (d_UUID d) in
      if d_Port d = 0 then remove_peer now uuid z
      else case zy_peers z uuid of
          Some r \<Rightarrow> upd_peer r (UpdateLastSeen now) z
        | None \<Rightarrow>
            let endpoint = str ''tcp://'' @ addr @ str '':'' @ decimal (unat (d_Port d)) in
            (case Peer_Start dialled (NewPeer now (d_UUID d) endpoint) of
               (Ok _, p) \<Rightarrow> publish (NewEnterEvent now uuid (zp_Name p) (zp_Endpoint p) (zp_Headers p))
                 (z\<lparr>zy_heap := (zy_heap z)(zy_limit z \<mapsto> p), zy_limit := zy_limit z + 1, zy_peers := (zy_peers z)(uuid \<mapsto> zy_limit z)\<rparr>)
             | _ \<Rightarrow> z))"

definition peer_expired :: "int \<Rightarrow> int \<Rightarrow> ZyreManagers \<Rightarrow> bytes \<Rightarrow> bool" where
  "peer_expired now timeout z uuid \<longleftrightarrow> (case zy_peers z uuid of
     None \<Rightarrow> False
   | Some r \<Rightarrow> (case zy_heap z r of None \<Rightarrow> False | Some p \<Rightarrow> IsExpired now timeout p))"

text \<open>\<open>keys\<close>: the peers in the order in which \<^verbatim>\<open>range\<close> visits them.\<close>

definition checkExpiredPeers :: "int \<Rightarrow> bytes list \<Rightarrow> ZyreManagers \<Rightarrow> ZyreManagers" where
  "checkExpiredPeers now keys z =
     foldl (\<lambda>z uuid. if peer_expired now (zy_expiration z) z uuid then remove_peer now uuid z else z) z keys"

section \<open>Groups\<close>

datatype managerCmd =
    get_group bytes
  | create_group bytes
  | delete_group bytes
  | list_groups
  | join_group bytes nat
  | leave_group bytes bytes
  | send_to_group bytes ZreMessage

datatype managerReply = GroupReply bytes | ErrReply "go_error option" | ListReply "bytes \<rightharpoonup> (bytes \<rightharpoonup> nat)"

definition ensure_group :: "bytes \<Rightarrow> ZyreManagers \<Rightarrow> ZyreManagers" where
  "ensure_group name z = (if zy_groups z name = None then z\<lparr>zy_groups := (zy_groups z)(name \<mapsto> NewGroup name)\<rparr> else z)"

definition upd_group :: "bytes \<Rightarrow> (Group \<Rightarrow> Group) \<Rightarrow> ZyreManagers \<Rightarrow> ZyreManagers" where
  "upd_group name f z = z\<lparr>zy_groups := (zy_groups z)(name := map_option f (zy_groups z name))\<rparr>"

text \<open>The commands \<^verbatim>\<open>add_member\<close> and \<^verbatim>\<open>remove_member\<close> of a group.\<close>

definition add_member :: "bytes \<Rightarrow> nat \<Rightarrow> Peer \<Rightarrow> ZyreManagers \<Rightarrow> ZyreManagers" where
  "add_member name r p z =
     upd_peer r (Peer_JoinGroup name) (upd_group name (\<lambda>g. g\<lparr>zg_members := (zg_members g)(hex (zp_UUID p) \<mapsto> r)\<rparr>) z)"

definition remove_member :: "bytes \<Rightarrow> bytes \<Rightarrow> ZyreManagers \<Rightarrow> ZyreManagers" where
  "remove_member name uuid z =
     (case zy_groups z name of
        None \<Rightarrow> z
      | Some g \<Rightarrow>
          (case zg_members g uuid of
             None \<Rightarrow> z
           | Some r \<Rightarrow> upd_peer r (Peer_LeaveGroup name) (upd_group name (\<lambda>g. g\<lparr>zg_members := (zg_members g)(uuid := None)\<rparr>) z)))"

fun group_handleCommand :: "int \<Rightarrow> managerCmd \<Rightarrow> ZyreManagers \<Rightarrow> managerReply \<times> ZyreManagers" where
  "group_handleCommand now (get_group name) z = (GroupReply name, ensure_group name z)"
| "group_handleCommand now (create_group name) z = (GroupReply name, ensure_group name z)"
| "group_handleCommand now (delete_group name) z =
     (if zy_groups z name = None then (ErrReply (Some (Errorf ''group not found'')), z)
      else (ErrReply None, z\<lparr>zy_groups := (zy_groups z)(name := None)\<rparr>))"
| "group_handleCommand now list_groups z = (ListReply (\<lambda>name. map_option zg_members (zy_groups z name)), z)"
| "group_handleCommand now (join_group name r) z =
     (case zy_heap z r of
        None \<Rightarrow> (ErrReply None, z)
      | Some p \<Rightarrow> (ErrReply None, publish (NewJoinEvent now (hex (zp_UUID p)) (zp_Name p) name) (add_member name r p (ensure_group name z))))"
| "group_handleCommand now (leave_group name uuid) z =
     (case zy_groups z name of
        None \<Rightarrow> (ErrReply (Some (Errorf ''group not found'')), z)
      | Some _ \<Rightarrow>
          let z = publish (NewLeaveEvent now uuid [] name) (remove_member name uuid z) in
          (ErrReply None,
           if (case zy_groups z name of None \<Rightarrow> False | Some g \<Rightarrow> zg_members g = Map.empty) then z\<lparr>zy_groups := (zy_groups z)(name := None)\<rparr> else z))"
| "group_handleCommand now (send_to_group name msg) z =
     (case zy_groups z name of
        None \<Rightarrow> (ErrReply (Some (Errorf ''group not found'')), z)
      | Some g \<Rightarrow>
          if length (zg_messages g) < 1000
          then (ErrReply None, upd_group name (\<lambda>g. g\<lparr>zg_messages := zg_messages g @ [msg]\<rparr>) z)
          else (ErrReply (Some (Errorf ''group message queue full'')), z))"

text \<open>
  \<^verbatim>\<open>broadcastMessage\<close> to the members in the order \<open>rs\<close>; errors of \<^verbatim>\<open>Send\<close> are ignored. \<open>choice\<close> resolves the
  \<^verbatim>\<open>select\<close> of a stopped peer.
\<close>

fun broadcast :: "(nat \<Rightarrow> bool) \<Rightarrow> ZreMessage \<Rightarrow> nat list \<Rightarrow> ZyreManagers \<Rightarrow> ZyreManagers result" where
  "broadcast choice msg [] z = Ok z"
| "broadcast choice msg (r # rs) z =
     (case zy_heap z r of
        None \<Rightarrow> broadcast choice msg rs z
      | Some p \<Rightarrow>
          (case Peer_Send (choice r) msg p of
             (Panic m, _) \<Rightarrow> Panic m
           | (_, p') \<Rightarrow> broadcast choice msg rs (z\<lparr>zy_heap := (zy_heap z)(r \<mapsto> p')\<rparr>)))"

definition message_round :: "(nat \<Rightarrow> bool) \<Rightarrow> bytes \<Rightarrow> nat list \<Rightarrow> ZyreManagers \<Rightarrow> ZyreManagers result" where
  "message_round choice name rs z =
     (case zy_groups z name of
        None \<Rightarrow> Ok z
      | Some g \<Rightarrow>
          (case zg_messages g of
             [] \<Rightarrow> Ok z
           | msg # rest \<Rightarrow> broadcast choice msg rs (upd_group name (\<lambda>g. g\<lparr>zg_messages := rest\<rparr>) z)))"

text \<open>\<open>names\<close> and \<open>uuids\<close>: the groups and the expired peers in the order of \<^verbatim>\<open>range\<close>.\<close>

definition CleanupExpiredPeers :: "bytes list \<Rightarrow> bytes list \<Rightarrow> ZyreManagers \<Rightarrow> ZyreManagers" where
  "CleanupExpiredPeers names uuids z = foldl (\<lambda>z name. foldl (\<lambda>z uuid. remove_member name uuid z) z uuids) z names"

section \<open>The discovery engine\<close>

definition processHeartbeat :: "int \<Rightarrow> bytes \<Rightarrow> ZyreManagers \<Rightarrow> ZyreManagers" where
  "processHeartbeat now uuid z =
     (case zy_peers z (hex uuid) of None \<Rightarrow> z | Some r \<Rightarrow> upd_peer r (UpdateLastSeen now) z)"

definition ping_peer :: "bool \<Rightarrow> nat \<Rightarrow> ZyreManagers \<Rightarrow> ZyreManagers" where
  "ping_peer choice r z =
     (case zy_heap z r of
        None \<Rightarrow> z
      | Some p \<Rightarrow> if zp_Connected p then z\<lparr>zy_heap := (zy_heap z)(r \<mapsto> snd (sendPing choice p))\<rparr> else z)"

definition engine_checkExpiredPeers :: "int \<Rightarrow> int \<Rightarrow> bytes list \<Rightarrow> bytes list \<Rightarrow> ZyreManagers \<Rightarrow> ZyreManagers" where
  "engine_checkExpiredPeers now peerTimeout names keys z =
     CleanupExpiredPeers names (filter (peer_expired now peerTimeout z) keys) z"

section \<open>Runs\<close>

text \<open>The steps of the loops, and a run of them.\<close>

datatype zyre_op =
    Discovered bytes "go_error option" int Discovery
  | Expire int "bytes list"
  | Command int managerCmd
  | Broadcast "nat \<Rightarrow> bool" bytes "nat list"
  | Outgoing "go_error option" nat
  | Heartbeat int bytes
  | Ping bool nat
  | Cleanup int int "bytes list" "bytes list"

fun zyre_step :: "zyre_op \<Rightarrow> ZyreManagers \<Rightarrow> ZyreManagers result" where
  "zyre_step (Discovered addr dialled now d) z = Ok (handleDiscovery addr dialled now d z)"
| "zyre_step (Expire now keys) z = Ok (checkExpiredPeers now keys z)"
| "zyre_step (Command now cmd) z = Ok (snd (group_handleCommand now cmd z))"
| "zyre_step (Broadcast choice name rs) z = message_round choice name rs z"
| "zyre_step (Outgoing sent r) z = Ok (upd_peer r (outgoing_round sent) z)"
| "zyre_step (Heartbeat now uuid) z = Ok (processHeartbeat now uuid z)"
| "zyre_step (Ping choice r) z = Ok (ping_peer choice r z)"
| "zyre_step (Cleanup now peerTimeout names keys) z = Ok (engine_checkExpiredPeers now peerTimeout names keys z)"

inductive zyre_run :: "zyre_op list \<Rightarrow> ZyreManagers \<Rightarrow> bool" where
  nil: "zyre_run [] NewManagers"
| snoc: "zyre_run (ops @ [op]) z'" if "zyre_run ops z" "zyre_step op z = Ok z'"

section \<open>The registry is consistent\<close>

definition zlive :: "ZyreManagers \<Rightarrow> bytes \<Rightarrow> nat \<Rightarrow> bool" where
  "zlive z uuid r \<longleftrightarrow> (\<exists>p. zy_heap z r = Some p \<and> uuid = hex (zp_UUID p) \<and> zp_Connected p \<and> \<not> zp_stopped p)"

definition member :: "ZyreManagers \<Rightarrow> bytes \<Rightarrow> bytes \<Rightarrow> nat \<Rightarrow> bool" where
  "member z name uuid r \<longleftrightarrow> (\<exists>p. zy_heap z r = Some p \<and> uuid = hex (zp_UUID p) \<and> InGroup name p)"

definition zyre_inv :: "ZyreManagers \<Rightarrow> bool" where
  "zyre_inv z \<longleftrightarrow> (\<forall>uuid r. zy_peers z uuid = Some r \<longrightarrow> zlive z uuid r) \<and>
     (\<forall>name g. zy_groups z name = Some g \<longrightarrow> zg_name g = name \<and> (\<forall>uuid r. zg_members g uuid = Some r \<longrightarrow> member z name uuid r)) \<and>
     (\<forall>r. zy_limit z \<le> r \<longrightarrow> zy_heap z r = None) \<and> zy_expiration z = 5000 * 1000000"

lemma zyre_invI:
  assumes "\<And>uuid r. zy_peers z uuid = Some r \<Longrightarrow> zlive z uuid r"
    "\<And>name g. zy_groups z name = Some g \<Longrightarrow> zg_name g = name \<and> (\<forall>uuid r. zg_members g uuid = Some r \<longrightarrow> member z name uuid r)"
    "\<And>r. zy_limit z \<le> r \<Longrightarrow> zy_heap z r = None" "zy_expiration z = 5000 * 1000000"
  shows "zyre_inv z"
  unfolding zyre_inv_def using assms by blast

lemma zyre_invD:
  assumes "zyre_inv z"
  shows "zy_peers z uuid = Some r \<Longrightarrow> zlive z uuid r"
    "zy_groups z name = Some g \<Longrightarrow> zg_name g = name"
    "zy_groups z name = Some g \<Longrightarrow> zg_members g uuid = Some r \<Longrightarrow> member z name uuid r"
    "zy_limit z \<le> r \<Longrightarrow> zy_heap z r = None" "zy_expiration z = 5000 * 1000000"
  using assms unfolding zyre_inv_def by blast+

text \<open>Updates of a peer that keep what the invariant looks at.\<close>

definition peer_frame :: "Peer \<Rightarrow> Peer \<Rightarrow> bool" where
  "peer_frame p p' \<longleftrightarrow> zp_UUID p' = zp_UUID p \<and> zp_Connected p' = zp_Connected p \<and> zp_stopped p' = zp_stopped p \<and> zp_Groups p \<subseteq> zp_Groups p'"

lemma peer_frames:
  "peer_frame p (UpdateLastSeen now p)" "peer_frame p (outgoing_round sent p)" "peer_frame p (Peer_JoinGroup name p)"
  "peer_frame p (snd (Peer_Send choice msg p))" "peer_frame p (snd (sendPing choice p))" "peer_frame p p"
  by (auto simp: peer_frame_def UpdateLastSeen_def outgoing_round_def Peer_JoinGroup_def Peer_Send_def sendPing_def nextSequence_def Let_def
      split: list.split result.split option.split)

lemma frame_inv:
  assumes "zyre_inv z" "zy_heap z r = Some p" "peer_frame p p'"
  shows "zyre_inv (z\<lparr>zy_heap := (zy_heap z)(r \<mapsto> p')\<rparr>)"
proof -
  let ?z = "z\<lparr>zy_heap := (zy_heap z)(r \<mapsto> p')\<rparr>"
  have "zlive ?z uuid s" if "zlive z uuid s" for uuid s using that assms(2,3) by (auto simp: zlive_def peer_frame_def)
  moreover have "member ?z name uuid s" if "member z name uuid s" for name uuid s
    using that assms(2,3) by (auto simp: member_def peer_frame_def InGroup_def)
  moreover have "zy_heap ?z s = None" if "zy_limit z \<le> s" for s using that assms(1,2) by (auto simp: zyre_inv_def)
  ultimately show ?thesis using assms(1) unfolding zyre_inv_def by simp
qed

lemma upd_peer_inv:
  assumes "zyre_inv z" "\<And>p. peer_frame p (f p)"
  shows "zyre_inv (upd_peer r f z)"
  using assms frame_inv by (auto simp: upd_peer_def split: option.split)

lemma zyre_inv_publish [simp]: "zyre_inv (publish ev z) = zyre_inv z"
  by (simp add: publish_def zyre_inv_def zlive_def member_def)

lemma zyre_inv_groups:
  assumes "zyre_inv z" "\<And>name g. groups name = Some g \<Longrightarrow> zg_name g = name \<and> (\<forall>uuid r. zg_members g uuid = Some r \<longrightarrow> member z name uuid r)"
  shows "zyre_inv (z\<lparr>zy_groups := groups\<rparr>)"
proof -
  have "zlive (z\<lparr>zy_groups := groups\<rparr>) = zlive z" "member (z\<lparr>zy_groups := groups\<rparr>) = member z" by (simp_all add: zlive_def member_def fun_eq_iff)
  then show ?thesis using assms by (simp add: zyre_inv_def)
qed

lemma remove_peer_inv:
  assumes "zyre_inv z"
  shows "zyre_inv (remove_peer now uuid z)"
proof (cases "zy_peers z uuid")
  case (Some r)
  then obtain p where p: "zy_heap z r = Some p" "uuid = hex (zp_UUID p)" using assms by (auto simp: zyre_inv_def zlive_def)
  let ?z = "(z\<lparr>zy_heap := (zy_heap z)(r \<mapsto> Peer_Stop p)\<rparr>)\<lparr>zy_peers := (zy_peers z)(uuid := None)\<rparr>"
  have "zlive ?z u s" if "zy_peers ?z u = Some s" for u s
  proof -
    have "u \<noteq> uuid" "zy_peers z u = Some s" using that by (auto split: if_splits)
    then have l: "zlive z u s" using assms by (simp add: zyre_inv_def)
    then have "s \<noteq> r" using \<open>u \<noteq> uuid\<close> p by (auto simp: zlive_def)
    then show ?thesis using l by (simp add: zlive_def)
  qed
  moreover have "member ?z name u s" if "member z name u s" for name u s
    using that p(1) by (auto simp: member_def InGroup_def Peer_Stop_def)
  moreover have "zy_heap ?z s = None" if "zy_limit z \<le> s" for s using that assms p(1) by (auto simp: zyre_inv_def)
  ultimately have "zyre_inv ?z" using assms unfolding zyre_inv_def by simp
  then show ?thesis using Some p(1) by (simp add: remove_peer_def upd_peer_def)
qed (simp add: remove_peer_def assms)

lemma discovery_inv:
  assumes "zyre_inv z"
  shows "zyre_inv (handleDiscovery addr dialled now d z)"
proof -
  let ?p = "(NewPeer now (d_UUID d) (str ''tcp://'' @ addr @ str '':'' @ decimal (unat (d_Port d))))\<lparr>zp_Connected := True\<rparr>"
  let ?z = "z\<lparr>zy_heap := (zy_heap z)(zy_limit z \<mapsto> ?p), zy_limit := zy_limit z + 1, zy_peers := (zy_peers z)(hex (d_UUID d) \<mapsto> zy_limit z)\<rparr>"
  have free: "zy_heap z (zy_limit z) = None" using assms by (simp add: zyre_inv_def)
  have "zlive ?z u s" if "zy_peers ?z u = Some s" for u s
  proof (cases "u = hex (d_UUID d)")
    case True
    then show ?thesis using that by (simp add: zlive_def NewPeer_def)
  next
    case False
    then have "zlive z u s" using that assms by (simp add: zyre_inv_def)
    then show ?thesis using free by (auto simp: zlive_def)
  qed
  moreover have "member ?z name u s" if "member z name u s" for name u s using that free by (auto simp: member_def)
  ultimately have "zyre_inv ?z" using assms unfolding zyre_inv_def by simp
  then show ?thesis
    using assms remove_peer_inv [OF assms] upd_peer_inv [OF assms peer_frames(1)]
    by (auto simp: handleDiscovery_def Let_def Peer_Start_def NewPeer_def split: option.split)
qed

lemma ensure_group_inv: "zyre_inv z \<Longrightarrow> zyre_inv (ensure_group name z)"
  by (auto simp: ensure_group_def NewGroup_def intro!: zyre_inv_groups) (auto simp: zyre_inv_def split: if_splits)

lemma add_member_inv:
  assumes "zyre_inv z" "zy_heap z r = Some p"
  shows "zyre_inv (add_member name r p z)"
proof -
  let ?z = "z\<lparr>zy_heap := (zy_heap z)(r \<mapsto> Peer_JoinGroup name p)\<rparr>"
  have "zyre_inv ?z" using frame_inv [OF assms peer_frames(3)] .
  moreover have "member ?z name (hex (zp_UUID p)) r" by (simp add: member_def Peer_JoinGroup_def InGroup_def)
  ultimately have "zyre_inv (upd_group name (\<lambda>g. g\<lparr>zg_members := (zg_members g)(hex (zp_UUID p) \<mapsto> r)\<rparr>) ?z)"
    unfolding upd_group_def by (intro zyre_inv_groups) (auto simp: zyre_inv_def split: if_splits)
  moreover have "add_member name r p z = upd_group name (\<lambda>g. g\<lparr>zg_members := (zg_members g)(hex (zp_UUID p) \<mapsto> r)\<rparr>) ?z"
    using assms(2) by (simp add: add_member_def upd_peer_def upd_group_def)
  ultimately show ?thesis by simp
qed

lemma remove_member_inv:
  assumes "zyre_inv z"
  shows "zyre_inv (remove_member name uuid z)"
proof (cases "\<exists>g r. zy_groups z name = Some g \<and> zg_members g uuid = Some r")
  case True
  then obtain g r where g: "zy_groups z name = Some g" "zg_members g uuid = Some r" by blast
  then have "member z name uuid r" using assms by (simp add: zyre_inv_def)
  then obtain p where p: "zy_heap z r = Some p" "uuid = hex (zp_UUID p)" by (auto simp: member_def)
  let ?p = "Peer_LeaveGroup name p"
  let ?z = "z\<lparr>zy_heap := (zy_heap z)(r \<mapsto> ?p)\<rparr>"
  let ?gs = "(zy_groups z)(name := Some (g\<lparr>zg_members := (zg_members g)(uuid := None)\<rparr>))"
  have mem: "member ?z n u s" if "member z n u s" "(n, u) \<noteq> (name, uuid)" for n u s
    using that p by (auto simp: member_def Peer_LeaveGroup_def InGroup_def)
  have groups: "zg_name h = n \<and> (\<forall>u s. zg_members h u = Some s \<longrightarrow> member ?z n u s)" if h: "?gs n = Some h" for n h
  proof (cases "n = name")
    case True
    then have "h = g\<lparr>zg_members := (zg_members g)(uuid := None)\<rparr>" using h by simp
    then show ?thesis using True zyre_invD(2,3) [OF assms g(1)] mem by simp
  next
    case False
    then show ?thesis using h zyre_invD(2,3) [OF assms, of n h] mem by simp
  qed
  have zlive: "zlive ?z u s" if "zy_peers z u = Some s" for u s
    using zyre_invD(1) [OF assms that] p(1) by (auto simp: zlive_def Peer_LeaveGroup_def)
  have same: "zlive (?z\<lparr>zy_groups := ?gs\<rparr>) = zlive ?z" "member (?z\<lparr>zy_groups := ?gs\<rparr>) = member ?z" by (simp_all add: zlive_def member_def fun_eq_iff)
  have "zyre_inv (?z\<lparr>zy_groups := ?gs\<rparr>)"
  proof (rule zyre_invI)
    show "zy_heap (?z\<lparr>zy_groups := ?gs\<rparr>) s = None" if "zy_limit (?z\<lparr>zy_groups := ?gs\<rparr>) \<le> s" for s
      using that zyre_invD(4) [OF assms, of s] p(1) by auto
  qed (use zlive groups same zyre_invD(5) [OF assms] in simp_all)
  moreover have "remove_member name uuid z = ?z\<lparr>zy_groups := ?gs\<rparr>" using g p(1) by (simp add: remove_member_def upd_peer_def upd_group_def)
  ultimately show ?thesis by simp
next
  case False
  then show ?thesis using assms by (auto simp: remove_member_def split: option.split)
qed

lemma group_command_inv:
  assumes "zyre_inv z"
  shows "zyre_inv (snd (group_handleCommand now cmd z))"
proof (cases cmd)
  case (join_group name r)
  have e: "zyre_inv (ensure_group name z)" "zy_heap (ensure_group name z) = zy_heap z" using ensure_group_inv [OF assms] by (simp_all add: ensure_group_def)
  show ?thesis
  proof (cases "zy_heap z r")
    case (Some p)
    then show ?thesis using add_member_inv [OF e(1)] e(2) join_group by simp
  qed (use assms join_group in simp)
next
  case (leave_group name uuid)
  let ?z = "publish (NewLeaveEvent now uuid [] name) (remove_member name uuid z)"
  have "zyre_inv ?z" using remove_member_inv [OF assms] by simp
  moreover from this have "zyre_inv (?z\<lparr>zy_groups := (zy_groups ?z)(name := None)\<rparr>)"
    by (intro zyre_inv_groups) (auto simp: zyre_inv_def split: if_splits)
  ultimately show ?thesis using assms leave_group by (auto simp: Let_def split: option.split)
next
  case (delete_group name)
  have "zyre_inv (z\<lparr>zy_groups := (zy_groups z)(name := None)\<rparr>)"
    using assms by (intro zyre_inv_groups) (auto simp: zyre_inv_def split: if_splits)
  then show ?thesis using assms delete_group by simp
next
  case (send_to_group name msg)
  have "zyre_inv (upd_group name (\<lambda>g. g\<lparr>zg_messages := zg_messages g @ [msg]\<rparr>) z)"
    unfolding upd_group_def using assms by (intro zyre_inv_groups) (auto simp: zyre_inv_def split: if_splits)
  then show ?thesis using assms send_to_group by (auto split: option.split)
qed (use assms ensure_group_inv in simp_all)

lemma broadcast_inv: "zyre_inv z \<Longrightarrow> broadcast choice msg rs z = Ok z' \<Longrightarrow> zyre_inv z'"
proof (induction choice msg rs z rule: broadcast.induct)
  case (2 choice msg r rs z)
  show ?case
  proof (cases "zy_heap z r")
    case (Some p)
    obtain res p' where send: "Peer_Send (choice r) msg p = (res, p')" by fastforce
    then have "zyre_inv (z\<lparr>zy_heap := (zy_heap z)(r \<mapsto> p')\<rparr>)" using frame_inv [OF "2.prems"(1) Some, of p'] peer_frames(4) [of p "choice r" msg] by simp
    then show ?thesis using "2.IH" "2.prems"(2) Some send by (cases res) auto
  qed (use 2 in simp)
qed simp

lemma message_round_inv: "zyre_inv z \<Longrightarrow> message_round choice name rs z = Ok z' \<Longrightarrow> zyre_inv z'"
proof -
  assume z: "zyre_inv z" and run: "message_round choice name rs z = Ok z'"
  have upd: "zyre_inv (upd_group name (\<lambda>g. g\<lparr>zg_messages := rest\<rparr>) z)" for rest
    unfolding upd_group_def using z by (intro zyre_inv_groups) (auto simp: zyre_inv_def split: if_splits)
  show ?thesis
  proof (cases "\<exists>g msg rest. zy_groups z name = Some g \<and> zg_messages g = msg # rest")
    case True
    then obtain g msg rest where "zy_groups z name = Some g" "zg_messages g = msg # rest" by blast
    then show ?thesis using run broadcast_inv [OF upd [of rest]] by (simp add: message_round_def)
  next
    case False
    then show ?thesis using run z by (auto simp: message_round_def split: option.splits list.splits)
  qed
qed

lemma zyre_step_inv:
  assumes "zyre_inv z" "zyre_step op z = Ok z'"
  shows "zyre_inv z'"
proof (cases op)
  case (Expire now keys)
  have "zyre_inv (checkExpiredPeers now keys z)"
    unfolding checkExpiredPeers_def by (rule foldl_keeps) (use assms remove_peer_inv in auto)
  then show ?thesis using assms(2) Expire by simp
next
  case (Cleanup now peerTimeout names keys)
  have "zyre_inv (foldl (\<lambda>z uuid. remove_member name uuid z) z uuids)" if "zyre_inv z" for name uuids z
    by (rule foldl_keeps) (use that remove_member_inv in auto)
  then have "zyre_inv (engine_checkExpiredPeers now peerTimeout names keys z)"
    unfolding engine_checkExpiredPeers_def CleanupExpiredPeers_def by (rule foldl_keeps) (use assms in auto)
  then show ?thesis using assms(2) Cleanup by simp
next
  case (Ping choice r)
  have "zyre_inv (ping_peer choice r z)"
    using assms(1) frame_inv [OF assms(1) _ peer_frames(5)] by (auto simp: ping_peer_def split: option.split)
  then show ?thesis using assms(2) Ping by simp
next
  case (Heartbeat now uuid)
  then show ?thesis using assms upd_peer_inv [OF assms(1) peer_frames(1)] by (auto simp: processHeartbeat_def split: option.splits)
qed (use assms discovery_inv group_command_inv message_round_inv upd_peer_inv [OF assms(1) peer_frames(2)] in auto)

lemma zyre_run_inv: "zyre_run ops z \<Longrightarrow> zyre_inv z"
proof (induction rule: zyre_run.induct)
  case nil
  show ?case by (simp add: zyre_inv_def NewManagers_def)
next
  case (snoc ops z op z')
  then show ?case using zyre_step_inv by blast
qed

text \<open>
  in every state the managers reach, the registry is consistent: a known peer is connected, not
  stopped and registered under its own UUID in hex; a group is registered under its own name; a member
  of a group stands there under its own UUID and has the group in its own list; and the expiration is
  five seconds.
\<close>

theorem zyre_registry_consistent:
  assumes "zyre_run ops z"
  shows "(zy_peers z uuid = Some r \<longrightarrow>
      (\<exists>p. zy_heap z r = Some p \<and> uuid = hex (zp_UUID p) \<and> zp_Connected p \<and> \<not> zp_stopped p)) \<and>
    (zy_groups z name = Some g \<longrightarrow> zg_name g = name \<and>
      (zg_members g uuid = Some r \<longrightarrow> (\<exists>p. zy_heap z r = Some p \<and> uuid = hex (zp_UUID p) \<and> InGroup name p)))"
  using zyre_invD [OF zyre_run_inv [OF assms]] by (auto simp: zlive_def member_def)

section \<open>Events follow the peers\<close>

text \<open>
  What the events say of a peer, read in order: whether it is there; None when an ENTER comes for a
  peer that is there or an EXIT for one that is not.
\<close>

fun presence :: "bytes \<Rightarrow> bool \<Rightarrow> Event list \<Rightarrow> bool option" where
  "presence uuid here [] = Some here"
| "presence uuid here (ev # evs) =
     (if ev_PeerUUID ev \<noteq> uuid then presence uuid here evs
      else if ev_Type ev = EventTypeEnter then if here then None else presence uuid True evs
      else if ev_Type ev = EventTypeExit then if here then presence uuid False evs else None
      else presence uuid here evs)"

lemma presence_snoc: "presence uuid here (evs @ [ev]) = Option.bind (presence uuid here evs) (\<lambda>h. presence uuid h [ev])"
  by (induction uuid here evs rule: presence.induct) simp_all

definition tracked :: "ZyreManagers \<Rightarrow> bool" where
  "tracked z \<longleftrightarrow> (\<forall>uuid. presence uuid False (zy_published z) = Some (zy_peers z uuid \<noteq> None))"

lemma event_types [simp]:
  "ev_Type (NewEnterEvent now u n a h) = EventTypeEnter" "ev_PeerUUID (NewEnterEvent now u n a h) = u"
  "ev_Type (NewExitEvent now u n a) = EventTypeExit" "ev_PeerUUID (NewExitEvent now u n a) = u"
  "ev_Type (NewJoinEvent now u n m) = EventTypeJoin" "ev_Type (NewLeaveEvent now u n m) = EventTypeLeave"
  "EventTypeEnter \<noteq> EventTypeExit" "EventTypeExit \<noteq> EventTypeEnter" "EventTypeJoin \<noteq> EventTypeEnter" "EventTypeJoin \<noteq> EventTypeExit"
  "EventTypeLeave \<noteq> EventTypeEnter" "EventTypeLeave \<noteq> EventTypeExit"
  by (simp_all add: NewEnterEvent_def NewExitEvent_def NewJoinEvent_def NewLeaveEvent_def EventTypeEnter_def EventTypeExit_def
      EventTypeJoin_def EventTypeLeave_def str_Cons)

lemma upd_peer_sel [simp]:
  "zy_peers (upd_peer r f z) = zy_peers z" "zy_published (upd_peer r f z) = zy_published z" "zy_groups (upd_peer r f z) = zy_groups z"
  "zy_expiration (upd_peer r f z) = zy_expiration z"
  "zy_heap (upd_peer r f z) = (zy_heap z)(r := map_option f (zy_heap z r))"
  by (auto simp: upd_peer_def split: option.split)

lemma upd_group_sel [simp]:
  "zy_peers (upd_group n k z) = zy_peers z" "zy_published (upd_group n k z) = zy_published z" "zy_heap (upd_group n k z) = zy_heap z"
  "zy_expiration (upd_group n k z) = zy_expiration z"
  "zy_groups (upd_group n k z) = (zy_groups z)(n := map_option k (zy_groups z n))"
  by (simp_all add: upd_group_def)

lemma publish_sel [simp]:
  "zy_peers (publish ev z) = zy_peers z" "zy_published (publish ev z) = zy_published z @ [ev]" "zy_heap (publish ev z) = zy_heap z"
  "zy_groups (publish ev z) = zy_groups z" "zy_expiration (publish ev z) = zy_expiration z"
  by (simp_all add: publish_def)

text \<open>Steps that touch neither the peers nor their events.\<close>

definition quiet :: "ZyreManagers \<Rightarrow> ZyreManagers \<Rightarrow> bool" where
  "quiet z z' \<longleftrightarrow> zy_peers z' = zy_peers z \<and> zy_published z' = zy_published z"

lemma quiet_refl [simp]: "quiet z z"
  by (simp add: quiet_def)

lemma quiet_tracked: "quiet z z' \<Longrightarrow> tracked z' = tracked z"
  by (simp add: quiet_def tracked_def)

lemma ensure_group_quiet: "quiet z (ensure_group name z)"
  by (simp add: quiet_def ensure_group_def)

lemma remove_member_quiet: "quiet z (remove_member name uuid z)"
  by (auto simp: quiet_def remove_member_def split: option.split)

lemma broadcast_quiet: "broadcast choice msg rs z = Ok z' \<Longrightarrow> quiet z z'"
proof (induction choice msg rs z rule: broadcast.induct)
  case (2 choice msg r rs z)
  show ?case
  proof (cases "zy_heap z r")
    case (Some p)
    obtain res p' where send: "Peer_Send (choice r) msg p = (res, p')" by fastforce
    have "quiet (z\<lparr>zy_heap := (zy_heap z)(r \<mapsto> p')\<rparr>) z'" using "2.IH" "2.prems" Some send by (cases res) auto
    then show ?thesis by (simp add: quiet_def)
  qed (use 2 in simp)
qed simp

lemma message_round_quiet:
  assumes "message_round choice name rs z = Ok z'"
  shows "quiet z z'"
proof (cases "\<exists>g msg rest. zy_groups z name = Some g \<and> zg_messages g = msg # rest")
  case True
  then obtain g msg rest where "zy_groups z name = Some g" "zg_messages g = msg # rest" by blast
  then have "quiet (upd_group name (\<lambda>g. g\<lparr>zg_messages := rest\<rparr>) z) z'" using assms broadcast_quiet by (simp add: message_round_def)
  then show ?thesis by (simp add: quiet_def)
next
  case False
  then show ?thesis using assms by (auto simp: message_round_def split: option.splits list.splits)
qed

lemma tracked_other_event:
  assumes "tracked z" "ev_Type ev \<noteq> EventTypeEnter" "ev_Type ev \<noteq> EventTypeExit"
  shows "tracked (publish ev z)"
  using assms by (simp add: tracked_def presence_snoc)

lemma remove_peer_tracked:
  assumes "tracked z"
  shows "tracked (remove_peer now uuid z)"
proof (cases "\<exists>r p. zy_peers z uuid = Some r \<and> zy_heap z r = Some p")
  case True
  then obtain r p where "zy_peers z uuid = Some r" "zy_heap z r = Some p" by blast
  then show ?thesis using assms by (auto simp: remove_peer_def tracked_def presence_snoc)
next
  case False
  then show ?thesis using assms by (auto simp: remove_peer_def split: option.split)
qed

lemma discovery_tracked:
  assumes "tracked z"
  shows "tracked (handleDiscovery addr dialled now d z)"
proof -
  have "tracked (publish (NewEnterEvent now u n a h) (z\<lparr>zy_heap := hp, zy_limit := l, zy_peers := (zy_peers z)(u \<mapsto> r)\<rparr>))"
    if "zy_peers z u = None" for u n a h hp l r
    using assms that by (auto simp: tracked_def presence_snoc)
  moreover have "tracked (upd_peer r f z)" for r f using assms by (simp add: tracked_def)
  ultimately show ?thesis
    using assms remove_peer_tracked [OF assms] by (auto simp: handleDiscovery_def Let_def Peer_Start_def split: option.split)
qed

lemma command_tracked:
  assumes "tracked z"
  shows "tracked (snd (group_handleCommand now cmd z))"
proof (cases cmd)
  case (join_group name r)
  have "tracked (add_member name r p (ensure_group name z))" for p
    using assms by (simp add: tracked_def add_member_def ensure_group_def)
  then show ?thesis using assms join_group tracked_other_event by (auto split: option.split)
next
  case (leave_group name uuid)
  have "tracked (publish (NewLeaveEvent now uuid [] name) (remove_member name uuid z))"
    using tracked_other_event assms quiet_tracked [OF remove_member_quiet] by simp
  then show ?thesis using assms leave_group by (auto simp: Let_def tracked_def split: option.split)
qed (use assms in \<open>auto simp: tracked_def ensure_group_def split: option.split\<close>)

lemma zyre_step_tracked:
  assumes "tracked z" "zyre_step op z = Ok z'"
  shows "tracked z'"
proof (cases op)
  case (Expire now keys)
  have "tracked (checkExpiredPeers now keys z)"
    unfolding checkExpiredPeers_def by (rule foldl_keeps) (use assms remove_peer_tracked in auto)
  then show ?thesis using assms(2) Expire by simp
next
  case (Cleanup now peerTimeout names keys)
  have step: "tracked (remove_member name uuid z)" if "tracked z" for name uuid z using that quiet_tracked [OF remove_member_quiet] by simp
  have "tracked (foldl (\<lambda>z uuid. remove_member name uuid z) z uuids)" if "tracked z" for name uuids z
    by (rule foldl_keeps) (use that step in auto)
  then have "tracked (engine_checkExpiredPeers now peerTimeout names keys z)"
    unfolding engine_checkExpiredPeers_def CleanupExpiredPeers_def by (rule foldl_keeps) (use assms in auto)
  then show ?thesis using assms(2) Cleanup by simp
next
  case (Broadcast choice name rs)
  then show ?thesis using assms quiet_tracked [OF message_round_quiet] by auto
next
  case (Outgoing sent r)
  then show ?thesis using assms by (auto simp: tracked_def)
next
  case (Heartbeat now uuid)
  then show ?thesis using assms by (auto simp: tracked_def processHeartbeat_def split: option.splits)
next
  case (Ping choice r)
  then show ?thesis using assms by (auto simp: tracked_def ping_peer_def split: option.splits if_splits)
qed (use assms discovery_tracked command_tracked in auto)

lemma zyre_run_tracked: "zyre_run ops z \<Longrightarrow> tracked z"
proof (induction rule: zyre_run.induct)
  case nil
  show ?case by (simp add: tracked_def NewManagers_def)
next
  case (snoc ops z op z')
  then show ?case using zyre_step_tracked by blast
qed

text \<open>
  C17: the published events follow the peer manager exactly. For every UUID, ENTER and EXIT alternate
  and begin with ENTER, and the last of them says whether the peer manager knows the peer, whatever
  discoveries, expirations, group commands, broadcasts, heartbeats and pings came in between.
\<close>

theorem events_track_peers:
  assumes "zyre_run ops z"
  shows "presence uuid False (zy_published z) = Some (zy_peers z uuid \<noteq> None)"
  using zyre_run_tracked [OF assms] by (simp add: tracked_def)

section \<open>Expiration\<close>

definition exit_event :: "int \<Rightarrow> ZyreManagers \<Rightarrow> bytes \<Rightarrow> Event" where
  "exit_event now z uuid = (case zy_peers z uuid of
     None \<Rightarrow> sample_event
   | Some r \<Rightarrow> (case zy_heap z r of None \<Rightarrow> sample_event | Some p \<Rightarrow> NewExitEvent now uuid (zp_Name p) (zp_Endpoint p)))"

text \<open>Removing one peer changes neither what expires nor what is reported of another one.\<close>

lemma Peer_Stop_sel [simp]:
  "zp_LastSeen (Peer_Stop p) = zp_LastSeen p" "zp_Name (Peer_Stop p) = zp_Name p" "zp_Endpoint (Peer_Stop p) = zp_Endpoint p"
  by (simp_all add: Peer_Stop_def)

lemma remove_peer_others:
  assumes "u \<noteq> uuid"
  shows "peer_expired now t (remove_peer now' uuid z) u = peer_expired now t z u"
    "exit_event now (remove_peer now' uuid z) u = exit_event now z u"
    "zy_peers (remove_peer now' uuid z) u = zy_peers z u"
  using assms by (auto simp: remove_peer_def peer_expired_def exit_event_def IsExpired_def split: option.split)

lemma remove_peer_self:
  assumes "peer_expired now t z uuid"
  shows "zy_peers (remove_peer now uuid z) = (zy_peers z)(uuid := None)"
    "zy_published (remove_peer now uuid z) = zy_published z @ [exit_event now z uuid]"
  using assms by (auto simp: remove_peer_def peer_expired_def exit_event_def split: option.splits)

lemma remove_peer_frame:
  "zy_groups (remove_peer now uuid z) = zy_groups z" "zy_expiration (remove_peer now uuid z) = zy_expiration z"
  by (auto simp: remove_peer_def split: option.split)

lemma checkExpiredPeers_keys:
  assumes "distinct keys"
  shows "zy_peers (checkExpiredPeers now keys z) =
      (\<lambda>u. if u \<in> set keys \<and> peer_expired now (zy_expiration z) z u then None else zy_peers z u) \<and>
    zy_published (checkExpiredPeers now keys z) =
      zy_published z @ map (exit_event now z) (filter (peer_expired now (zy_expiration z) z) keys) \<and>
    zy_groups (checkExpiredPeers now keys z) = zy_groups z"
  using assms
proof (induction keys arbitrary: z)
  case (Cons uuid keys)
  let ?e = "peer_expired now (zy_expiration z) z"
  define z1 where z1: "z1 = (if ?e uuid then remove_peer now uuid z else z)"
  have unfold: "checkExpiredPeers now (uuid # keys) z = checkExpiredPeers now keys z1" by (simp add: checkExpiredPeers_def z1)
  have exp: "zy_expiration z1 = zy_expiration z" by (simp add: remove_peer_frame z1)
  have others: "peer_expired now (zy_expiration z) z1 u = ?e u" "exit_event now z1 u = exit_event now z u" "zy_peers z1 u = zy_peers z u"
    if "u \<noteq> uuid" for u using remove_peer_others [OF that] by (simp_all add: z1)
  have neq: "u \<noteq> uuid" if "u \<in> set keys" for u using that Cons.prems by auto
  have self: "zy_peers z1 uuid = (if ?e uuid then None else zy_peers z uuid)" by (simp add: remove_peer_self z1)
  have IH: "zy_peers (checkExpiredPeers now keys z1) = (\<lambda>u. if u \<in> set keys \<and> peer_expired now (zy_expiration z) z1 u then None else zy_peers z1 u)"
    "zy_published (checkExpiredPeers now keys z1) = zy_published z1 @ map (exit_event now z1) (filter (peer_expired now (zy_expiration z) z1) keys)"
    "zy_groups (checkExpiredPeers now keys z1) = zy_groups z1"
    using Cons.IH [of z1] Cons.prems unfolding exp by simp_all
  have "zy_peers (checkExpiredPeers now keys z1) u = (if u \<in> set (uuid # keys) \<and> ?e u then None else zy_peers z u)" for u
    using others [of u] neq [of u] self unfolding IH(1) by (cases "u = uuid") auto
  moreover have "filter (peer_expired now (zy_expiration z) z1) keys = filter ?e keys" using others(1) neq by (intro filter_cong) auto
  moreover have "map (exit_event now z1) (filter ?e keys) = map (exit_event now z) (filter ?e keys)" using others(2) neq by auto
  moreover have "zy_published z1 = zy_published z @ (if ?e uuid then [exit_event now z uuid] else [])" "zy_groups z1 = zy_groups z"
    by (simp_all add: remove_peer_self remove_peer_frame z1)
  ultimately show ?case unfolding unfold IH(2,3) by (simp add: fun_eq_iff)
qed (simp_all add: checkExpiredPeers_def)

text \<open>
  in every state the managers reach, one round of the expiration loop removes exactly the peers
  that were not seen for more than five seconds, in whatever order \<^verbatim>\<open>range\<close> visits them, keeps the
  others, and publishes one EXIT event with the name and endpoint of each removed peer in that order. It leaves the groups as they are.
\<close>

theorem expiration_exact:
  assumes "zyre_run ops z" "distinct keys" "set keys = dom (zy_peers z)"
  shows "zy_peers (checkExpiredPeers now keys z) = (\<lambda>u. case zy_peers z u of
      None \<Rightarrow> None
    | Some r \<Rightarrow> if now - zp_LastSeen (the (zy_heap z r)) > 5000 * 1000000 then None else Some r) \<and>
    zy_published (checkExpiredPeers now keys z) =
      zy_published z @ map (exit_event now z) (filter (\<lambda>u. zy_peers (checkExpiredPeers now keys z) u = None) keys) \<and>
    zy_groups (checkExpiredPeers now keys z) = zy_groups z"
proof -
  let ?z = "checkExpiredPeers now keys z" and ?e = "peer_expired now (zy_expiration z) z"
  have inv: "zyre_inv z" using zyre_run_inv [OF assms(1)] .
  have expired: "?e u \<longleftrightarrow> (\<exists>r. zy_peers z u = Some r \<and> now - zp_LastSeen (the (zy_heap z r)) > 5000 * 1000000)" for u
  proof (cases "zy_peers z u")
    case (Some r)
    then obtain p where "zy_heap z r = Some p" using zyre_invD(1) [OF inv] by (auto simp: zlive_def)
    then show ?thesis using Some zyre_invD(5) [OF inv] by (simp add: peer_expired_def IsExpired_def)
  qed (simp add: peer_expired_def)
  have peers: "zy_peers ?z u = (if u \<in> set keys \<and> ?e u then None else zy_peers z u)" for u
    using checkExpiredPeers_keys [OF assms(2), of now z] by simp
  have "zy_peers ?z u = (case zy_peers z u of None \<Rightarrow> None
    | Some r \<Rightarrow> if now - zp_LastSeen (the (zy_heap z r)) > 5000 * 1000000 then None else Some r)" for u
    using assms(3) unfolding peers expired by (cases "zy_peers z u") auto
  moreover have "filter ?e keys = filter (\<lambda>u. zy_peers ?z u = None) keys"
    using assms(3) unfolding peers by (intro filter_cong) auto
  ultimately show ?thesis using checkExpiredPeers_keys [OF assms(2), of now z] by (simp add: fun_eq_iff)
qed

section \<open>Delivery to a group\<close>

lemma Peer_Send_live:
  assumes "\<not> zp_stopped p"
  shows "\<exists>res. Peer_Send c msg p = (res, snd (Peer_Send False msg p)) \<and> (\<forall>m. res \<noteq> Panic m)"
  using assms by (auto simp: Peer_Send_def)

text \<open>Every member is asked once; a full queue drops the message for that member only.\<close>

lemma broadcast_all:
  assumes "distinct rs" "\<forall>r \<in> set rs. \<exists>p. zy_heap z r = Some p \<and> \<not> zp_stopped p"
  shows "broadcast choice msg rs z =
    Ok (z\<lparr>zy_heap := \<lambda>r. if r \<in> set rs then map_option (\<lambda>p. snd (Peer_Send False msg p)) (zy_heap z r) else zy_heap z r\<rparr>)"
  using assms
proof (induction rs arbitrary: z)
  case (Cons r rs)
  then obtain p where p: "zy_heap z r = Some p" "\<not> zp_stopped p" by auto
  let ?p = "snd (Peer_Send False msg p)"
  let ?z = "z\<lparr>zy_heap := (zy_heap z)(r \<mapsto> ?p)\<rparr>"
  obtain res where res: "Peer_Send (choice r) msg p = (res, ?p)" "\<forall>m. res \<noteq> Panic m" using Peer_Send_live [OF p(2)] by blast
  then have "broadcast choice msg (r # rs) z = broadcast choice msg rs ?z" using p(1) by (cases res) simp_all
  moreover have "\<forall>s \<in> set rs. \<exists>p. zy_heap ?z s = Some p \<and> \<not> zp_stopped p" using Cons.prems by auto
  then have "broadcast choice msg rs ?z =
      Ok (?z\<lparr>zy_heap := \<lambda>r. if r \<in> set rs then map_option (\<lambda>p. snd (Peer_Send False msg p)) (zy_heap ?z r) else zy_heap ?z r\<rparr>)"
    using Cons.prems(1) Cons.IH [of ?z] by simp
  moreover have "(\<lambda>s. if s \<in> set rs then map_option (\<lambda>p. snd (Peer_Send False msg p)) (zy_heap ?z s) else zy_heap ?z s) =
      (\<lambda>s. if s \<in> set (r # rs) then map_option (\<lambda>p. snd (Peer_Send False msg p)) (zy_heap z s) else zy_heap z s)"
    using p(1) Cons.prems(1) by (auto simp: fun_eq_iff)
  ultimately show ?case by simp
qed simp

text \<open>
  C18: a message sent to a group whose own queue is empty and whose members are alive reaches the queue of every member once, behind
  what was queued before, for every member whose queue of 100 has room; a member whose queue is full loses it. No other peer changes,
  and the group's own queue is empty again. The message loop does not panic, whatever its \<^verbatim>\<open>select\<close> statements choose.
\<close>

theorem group_delivery:
  assumes "zy_groups z name = Some g" "zg_messages g = []" "distinct rs" "set rs = ran (zg_members g)"
    "\<forall>r \<in> set rs. \<exists>p. zy_heap z r = Some p \<and> \<not> zp_stopped p"
  shows "fst (group_handleCommand now (send_to_group name msg) z) = ErrReply None \<and>
    (\<exists>z'. message_round choice name rs (snd (group_handleCommand now (send_to_group name msg) z)) = Ok z' \<and>
      zy_groups z' = zy_groups z \<and> zy_peers z' = zy_peers z \<and>
      (\<forall>r p. zy_heap z r = Some p \<longrightarrow> zy_heap z' r = Some
        (if r \<in> ran (zg_members g) \<and> length (zp_outgoing p) < 100 then p\<lparr>zp_outgoing := zp_outgoing p @ [msg]\<rparr> else p)))"
proof -
  let ?z = "upd_group name (\<lambda>g. g\<lparr>zg_messages := zg_messages g @ [msg]\<rparr>) z"
  let ?z' = "upd_group name (\<lambda>g. g\<lparr>zg_messages := []\<rparr>) ?z"
  have cmd: "group_handleCommand now (send_to_group name msg) z = (ErrReply None, ?z)" using assms(1,2) by simp
  have grp: "zy_groups ?z' = zy_groups z" using assms(1,2) by auto
  have "message_round choice name rs ?z = broadcast choice msg rs ?z'" using assms(1,2) by (simp add: message_round_def)
  also have "\<dots> = Ok (?z'\<lparr>zy_heap := \<lambda>r. if r \<in> set rs then map_option (\<lambda>p. snd (Peer_Send False msg p)) (zy_heap ?z' r) else zy_heap ?z' r\<rparr>)"
    using assms(3,5) by (intro broadcast_all) simp_all
  finally have run: "message_round choice name rs ?z = \<dots>" .
  have "snd (Peer_Send False msg p) = (if length (zp_outgoing p) < 100 then p\<lparr>zp_outgoing := zp_outgoing p @ [msg]\<rparr> else p)"
    if "zy_heap z r = Some p" "r \<in> set rs" for r p using assms(5) that by (auto simp: Peer_Send_def)
  then show ?thesis using cmd run grp assms(4) by auto
qed

section \<open>A sample run\<close>

text \<open>A peer is discovered, joins a group, leaves the network, and a message is sent to the group.\<close>

definition sample_discovery :: "16 word \<Rightarrow> Discovery" where
  "sample_discovery port = \<lparr>d_UUID = replicate 16 1, d_Port = port, d_Addr = str ''10.0.0.1'', d_Time = 0\<rparr>"

definition sample_id :: bytes where
  "sample_id = hex (replicate 16 1)"

definition sample_ping :: ZreMessage where
  "sample_ping = \<lparr>zVersion = 2, zType = 6, zSequence = 1, SenderUUID = replicate 16 0, zBody = []\<rparr>"

definition sample_zpeer :: Peer where
  "sample_zpeer = (NewPeer 0 (replicate 16 1) (str ''tcp://'' @ str ''10.0.0.1'' @ str '':'' @ decimal 5670))\<lparr>zp_Connected := True\<rparr>"

definition entered :: ZyreManagers where
  "entered = NewManagers\<lparr>zy_heap := [0 \<mapsto> sample_zpeer], zy_limit := 1, zy_peers := [sample_id \<mapsto> 0],
     zy_published := [NewEnterEvent 0 sample_id [] (zp_Endpoint sample_zpeer) Map.empty]\<rparr>"

definition joined :: ZyreManagers where
  "joined = snd (group_handleCommand 0 (join_group (str ''g'') 0) entered)"

lemma sample_zpeer_sel [simp]:
  "zp_UUID sample_zpeer = replicate 16 1" "zp_stopped sample_zpeer = False" "zp_Name sample_zpeer = []" "zp_Connected sample_zpeer"
  "zp_LastSeen sample_zpeer = 0" "zp_outgoing sample_zpeer = []"
  by (simp_all add: sample_zpeer_def NewPeer_def)

lemma entered_run: "zyre_run [Discovered (str ''10.0.0.1'') None 0 (sample_discovery 5670)] entered"
proof -
  have "handleDiscovery (str ''10.0.0.1'') None 0 (sample_discovery 5670) NewManagers = entered"
    by (simp add: handleDiscovery_def Let_def sample_discovery_def NewManagers_def Peer_Start_def NewPeer_def entered_def sample_zpeer_def
        sample_id_def publish_def)
  then show ?thesis using zyre_run.snoc [OF zyre_run.nil] by simp
qed

lemma joined_run: "zyre_run [Discovered (str ''10.0.0.1'') None 0 (sample_discovery 5670), Command 0 (join_group (str ''g'') 0)] joined"
  using zyre_run.snoc [OF entered_run, of "Command 0 (join_group (str ''g'') 0)" joined] by (simp add: joined_def)

lemma joined_sel [simp]:
  "zy_groups joined = [str ''g'' \<mapsto> \<lparr>zg_name = str ''g'', zg_members = [sample_id \<mapsto> 0], zg_messages = []\<rparr>]"
  "zy_heap joined = [0 \<mapsto> Peer_JoinGroup (str ''g'') sample_zpeer]" "zy_peers joined = [sample_id \<mapsto> 0]"
  by (auto simp: joined_def entered_def add_member_def ensure_group_def NewManagers_def NewGroup_def sample_id_def)

theorem zyre_registry_consistent_witness:
  "zy_peers joined sample_id = Some 0 \<and> zg_members (the (zy_groups joined (str ''g''))) sample_id = Some 0 \<and>
   (\<exists>p. zy_heap joined 0 = Some p \<and> sample_id = hex (zp_UUID p) \<and> InGroup (str ''g'') p)"
  using zyre_registry_consistent [OF joined_run, of sample_id 0 "str ''g''" "the (zy_groups joined (str ''g''))"] by simp

theorem events_track_peers_witness: "presence sample_id False (zy_published joined) = Some True"
  using events_track_peers [OF joined_run, of sample_id] by simp

theorem expiration_exact_witness:
  "zy_peers (checkExpiredPeers 5000000001 [sample_id] joined) = Map.empty \<and>
   zy_groups (checkExpiredPeers 5000000001 [sample_id] joined) = zy_groups joined"
  using expiration_exact [OF joined_run, of "[sample_id]" 5000000001]
  by (simp add: peer_expired_def IsExpired_def Peer_JoinGroup_def fun_eq_iff)

theorem group_delivery_witness:
  "\<exists>(z' :: ZyreManagers) p. message_round (\<lambda>_. True) (str ''g'') [0] (snd (group_handleCommand 0 (send_to_group (str ''g'') sample_ping) joined)) = Ok z' \<and>
     zy_heap z' 0 = Some p \<and> zp_outgoing p = [sample_ping]"
  using group_delivery [of joined "str ''g''" _ "[0]" 0 sample_ping "\<lambda>_. True"] by (auto simp: Peer_JoinGroup_def)

section \<open>A peer that leaves stays in its groups\<close>

text \<open>
  Neither a leaving peer nor an expired one is taken out of the groups, and the engine, which cleans
  the groups, looks only at the peers the manager still knows. A message to the group is then sent
  to the stopped peer, whose channel is closed: one choice of \<^verbatim>\<open>select\<close> panics.
\<close>

definition departed :: ZyreManagers where
  "departed = handleDiscovery [] None 1 (sample_discovery 0) joined"

definition shouted :: ZyreManagers where
  "shouted = snd (group_handleCommand 2 (send_to_group (str ''g'') sample_ping) departed)"

lemma cleanup_misses_removed:
  assumes "\<forall>uuid \<in> set keys. zy_peers z uuid = None"
  shows "engine_checkExpiredPeers now peerTimeout names keys z = z"
proof -
  have "filter (peer_expired now peerTimeout z) keys = []" using assms by (auto simp: peer_expired_def filter_empty_conv)
  moreover have "foldl (\<lambda>z name. z) z names = z" by (induction names) simp_all
  ultimately show ?thesis by (simp add: engine_checkExpiredPeers_def CleanupExpiredPeers_def)
qed

lemma departed_sel:
  "zy_peers departed = Map.empty" "zy_groups departed = zy_groups joined"
  "zy_heap departed = [0 \<mapsto> Peer_Stop (Peer_JoinGroup (str ''g'') sample_zpeer)]"
  by (auto simp: departed_def handleDiscovery_def Let_def sample_discovery_def remove_peer_def sample_id_def [symmetric])

lemma departed_member_panics:
  "\<exists>ops. zyre_run ops shouted \<and> zy_peers shouted = Map.empty \<and>
     message_round (\<lambda>_. True) (str ''g'') [0] shouted = Panic ''send on closed channel''"
proof -
  have "zyre_run ([Discovered (str ''10.0.0.1'') None 0 (sample_discovery 5670), Command 0 (join_group (str ''g'') 0)] @
      [Discovered [] None 1 (sample_discovery 0)]) departed"
    using zyre_run.snoc [OF joined_run] by (simp add: departed_def)
  from zyre_run.snoc [OF this, of "Command 2 (send_to_group (str ''g'') sample_ping)" shouted] have "\<exists>ops. zyre_run ops shouted"
    by (auto simp: shouted_def)
  moreover have "zy_peers shouted = Map.empty" by (simp add: shouted_def departed_sel)
  moreover have "message_round (\<lambda>_. True) (str ''g'') [0] shouted = Panic ''send on closed channel''"
    by (simp add: shouted_def departed_sel message_round_def Peer_Send_def Peer_Stop_def Peer_JoinGroup_def)
  ultimately show ?thesis by blast
qed

text \<open>Deleting a group does not touch its members; a peer that is not a member is reported as leaving.\<close>

lemma delete_group_keeps_peers: "zy_heap (snd (group_handleCommand now (delete_group name) z)) = zy_heap z"
  by simp

lemma leave_reports_non_member:
  assumes "zy_groups z name = Some g" "zg_members g uuid = None"
  shows "zy_published (snd (group_handleCommand now (leave_group name uuid) z)) = zy_published z @ [NewLeaveEvent now uuid [] name]"
  using assms by (simp add: Let_def remove_member_def)

end
