(* ===== verification/Zyre_Security.thy ===== *)
theory Zyre_Security
  imports Prelude
begin

text \<open>
  The security manager of a Zyre node (\<^verbatim>\<open>zyre/security.go\<close>): the mechanisms of a configuration, the
  validation of peers, and the white and black lists. \<open>newClient\<close> stands for \<^verbatim>\<open>curve.NewSecurityClient\<close>,
  which no package of the repository defines.
\<close>

section \<open>Data\<close>

datatype ZyreSecurityType = SecurityTypeNull | SecurityTypePlain | SecurityTypeCurve

record SecurityConfig =
  sc_Type :: ZyreSecurityType
  sc_Username :: bytes
  sc_Password :: bytes
  sc_PublicKey :: bytes
  sc_SecretKey :: bytes
  sc_ServerKey :: bytes
  sc_CertDir :: bytes
  sc_Whitelist :: "bytes list"
  sc_Blacklist :: "bytes list"
  sc_Headers :: "bytes \<rightharpoonup> bytes"

datatype 'c mechanism = NullMech | PlainMech bytes bytes | CurveMech 'c

record 'c SecurityManager =
  sm_config :: SecurityConfig
  sm_mechanisms :: "bytes \<rightharpoonup> 'c mechanism"

type_synonym 'c new_curve_client = "bytes \<Rightarrow> bytes \<Rightarrow> bytes \<Rightarrow> 'c result"

definition null_config :: SecurityConfig where
  "null_config = \<lparr>sc_Type = SecurityTypeNull, sc_Username = [], sc_Password = [], sc_PublicKey = [], sc_SecretKey = [],
     sc_ServerKey = [], sc_CertDir = [], sc_Whitelist = [], sc_Blacklist = [], sc_Headers = Map.empty\<rparr>"

section \<open>Operations\<close>

definition initializeMechanisms :: "'c new_curve_client \<Rightarrow> SecurityConfig \<Rightarrow> (bytes \<rightharpoonup> 'c mechanism) result" where
  "initializeMechanisms newClient config =
     (let ms = [str ''NULL'' \<mapsto> NullMech];
          ms = (if sc_Username config \<noteq> [] \<and> sc_Password config \<noteq> []
                then ms(str ''PLAIN'' \<mapsto> PlainMech (sc_Username config) (sc_Password config)) else ms) in
      if sc_PublicKey config \<noteq> [] \<and> sc_SecretKey config \<noteq> []
      then and_then (wrap_err ''failed to create CURVE client security'' (newClient (sc_PublicKey config) (sc_SecretKey config) (sc_ServerKey config)))
             (\<lambda>c. Ok (ms(str ''CURVE'' \<mapsto> CurveMech c)))
      else Ok ms)"

definition NewSecurityManager :: "'c new_curve_client \<Rightarrow> SecurityConfig option \<Rightarrow> 'c SecurityManager result" where
  "NewSecurityManager newClient config =
     (let config = (case config of None \<Rightarrow> null_config | Some c \<Rightarrow> c) in
      and_then (wrap_err ''failed to initialize security mechanisms'' (initializeMechanisms newClient config))
        (\<lambda>ms. Ok \<lparr>sm_config = config, sm_mechanisms = ms\<rparr>))"

text \<open>None is the nil mechanism of a missing key.\<close>

definition GetSecurityMechanism :: "'c SecurityManager \<Rightarrow> 'c mechanism option" where
  "GetSecurityMechanism sm =
     (case sc_Type (sm_config sm) of
        SecurityTypePlain \<Rightarrow> sm_mechanisms sm (str ''PLAIN'')
      | SecurityTypeCurve \<Rightarrow> sm_mechanisms sm (str ''CURVE'')
      | SecurityTypeNull \<Rightarrow> sm_mechanisms sm (str ''NULL''))"

definition validateCurvePeer :: "bytes \<Rightarrow> SecurityConfig \<Rightarrow> go_error option" where
  "validateCurvePeer peerKey config =
     (if peerKey \<in> set (sc_Blacklist config) then Some (Errorf ''peer key is blacklisted'')
      else if sc_Whitelist config \<noteq> [] then
        if peerKey \<in> set (sc_Whitelist config) then None else Some (Errorf ''peer key not in whitelist'')
      else None)"

definition validatePlainPeer :: "(bytes \<rightharpoonup> bytes) \<Rightarrow> SecurityConfig \<Rightarrow> go_error option" where
  "validatePlainPeer headers config =
     (case (headers (str ''username''), headers (str ''password'')) of
        (Some username, Some password) \<Rightarrow>
          if username = sc_Username config \<and> password = sc_Password config then None
          else Some (Errorf ''invalid PLAIN authentication credentials'')
      | _ \<Rightarrow> Some (Errorf ''missing PLAIN authentication credentials''))"

definition ValidatePeer :: "bytes \<Rightarrow> (bytes \<rightharpoonup> bytes) \<Rightarrow> 'c SecurityManager \<Rightarrow> go_error option" where
  "ValidatePeer peerKey peerHeaders sm =
     (case sc_Type (sm_config sm) of
        SecurityTypeCurve \<Rightarrow> validateCurvePeer peerKey (sm_config sm)
      | SecurityTypePlain \<Rightarrow> validatePlainPeer peerHeaders (sm_config sm)
      | SecurityTypeNull \<Rightarrow> None)"

text \<open>The keys are stored before the mechanism is made, also when that fails.\<close>

definition SetCurveKeys :: "'c new_curve_client \<Rightarrow> bytes \<Rightarrow> bytes \<Rightarrow> bytes \<Rightarrow> 'c SecurityManager \<Rightarrow> go_error option \<times> 'c SecurityManager" where
  "SetCurveKeys newClient publicKey secretKey serverKey sm =
     (let sm = sm\<lparr>sm_config := (sm_config sm)\<lparr>sc_PublicKey := publicKey, sc_SecretKey := secretKey, sc_ServerKey := serverKey\<rparr>\<rparr> in
      case newClient publicKey secretKey serverKey of
        Ok c \<Rightarrow> (None, sm\<lparr>sm_mechanisms := (sm_mechanisms sm)(str ''CURVE'' \<mapsto> CurveMech c)\<rparr>)
      | Err e \<Rightarrow> (Some (Wrapf ''failed to update CURVE security'' e), sm)
      | Panic m \<Rightarrow> (Some (Errorf m), sm))"

definition SetPlainCredentials :: "bytes \<Rightarrow> bytes \<Rightarrow> 'c SecurityManager \<Rightarrow> 'c SecurityManager" where
  "SetPlainCredentials username password sm =
     sm\<lparr>sm_config := (sm_config sm)\<lparr>sc_Username := username, sc_Password := password\<rparr>,
        sm_mechanisms := (sm_mechanisms sm)(str ''PLAIN'' \<mapsto> PlainMech username password)\<rparr>"

definition AddToWhitelist :: "bytes \<Rightarrow> SecurityConfig \<Rightarrow> SecurityConfig" where
  "AddToWhitelist key config = config\<lparr>sc_Whitelist := sc_Whitelist config @ [key]\<rparr>"

definition RemoveFromWhitelist :: "bytes \<Rightarrow> SecurityConfig \<Rightarrow> SecurityConfig" where
  "RemoveFromWhitelist key config = config\<lparr>sc_Whitelist := remove1 key (sc_Whitelist config)\<rparr>"

definition AddToBlacklist :: "bytes \<Rightarrow> SecurityConfig \<Rightarrow> SecurityConfig" where
  "AddToBlacklist key config = config\<lparr>sc_Blacklist := sc_Blacklist config @ [key]\<rparr>"

definition RemoveFromBlacklist :: "bytes \<Rightarrow> SecurityConfig \<Rightarrow> SecurityConfig" where
  "RemoveFromBlacklist key config = config\<lparr>sc_Blacklist := remove1 key (sc_Blacklist config)\<rparr>"

section \<open>Who is accepted\<close>

datatype list_op = AllowKey bytes | DisallowKey bytes | BlockKey bytes | UnblockKey bytes

fun list_step :: "SecurityConfig \<Rightarrow> list_op \<Rightarrow> SecurityConfig" where
  "list_step config (AllowKey k) = AddToWhitelist k config"
| "list_step config (DisallowKey k) = RemoveFromWhitelist k config"
| "list_step config (BlockKey k) = AddToBlacklist k config"
| "list_step config (UnblockKey k) = RemoveFromBlacklist k config"

text \<open>How often a key stands on a list after a history of updates: a removal takes away one entry.\<close>

fun list_entries :: "(bytes \<Rightarrow> list_op) \<Rightarrow> (bytes \<Rightarrow> list_op) \<Rightarrow> bytes \<Rightarrow> nat \<Rightarrow> list_op list \<Rightarrow> nat" where
  "list_entries add rem k n [] = n"
| "list_entries add rem k n (op # ops) = list_entries add rem k (if op = add k then n + 1 else if op = rem k then n - 1 else n) ops"

lemma count_remove1: "count_list (remove1 x xs) k = (if k = x then count_list xs k - 1 else count_list xs k)"
proof (induction xs)
  case (Cons y xs)
  then show ?case by (cases "k = y") (auto simp: count_list_0_iff intro: gr0I)
qed simp

lemma list_steps_count:
  "count_list (sc_Whitelist (foldl list_step config ops)) k = list_entries AllowKey DisallowKey k (count_list (sc_Whitelist config) k) ops"
  "count_list (sc_Blacklist (foldl list_step config ops)) k = list_entries BlockKey UnblockKey k (count_list (sc_Blacklist config) k) ops"
proof (induction ops arbitrary: config)
  case (Cons op ops)
  { case 1 show ?case using Cons(1) [of "list_step config op"]
      by (cases op) (auto simp: AddToWhitelist_def RemoveFromWhitelist_def AddToBlacklist_def RemoveFromBlacklist_def count_remove1) }
  { case 2 show ?case using Cons(2) [of "list_step config op"]
      by (cases op) (auto simp: AddToWhitelist_def RemoveFromWhitelist_def AddToBlacklist_def RemoveFromBlacklist_def count_remove1) }
qed simp_all

lemma list_steps_type: "sc_Type (foldl list_step config ops) = sc_Type config"
proof (induction ops arbitrary: config)
  case (Cons op ops)
  then show ?case by (cases op) (simp_all add: AddToWhitelist_def RemoveFromWhitelist_def AddToBlacklist_def RemoveFromBlacklist_def)
qed simp

lemma in_list_count: "k \<in> set xs \<longleftrightarrow> 0 < count_list xs k"
  using count_list_0_iff [of xs k] by auto

lemma list_Nil_count: "xs = [] \<longleftrightarrow> (\<forall>k. count_list xs k = 0)"
proof
  assume "\<forall>k. count_list xs k = 0"
  then have "k \<notin> set xs" for k by (simp add: in_list_count)
  then show "xs = []" by (cases xs) auto
qed simp

text \<open>
  after any history of additions to and removals from the two lists of a CURVE node that starts with
  empty lists, a peer key is accepted exactly when no entry of it is left on the blacklist and either
  one is left on the whitelist or the whitelist has no entry at all. Each removal undoes one addition.
\<close>

theorem curve_access_control:
  assumes "sc_Type config = SecurityTypeCurve" "sc_Whitelist config = []" "sc_Blacklist config = []"
  shows "ValidatePeer key headers \<lparr>sm_config = foldl list_step config ops, sm_mechanisms = ms\<rparr> = None \<longleftrightarrow>
    list_entries BlockKey UnblockKey key 0 ops = 0 \<and>
    (0 < list_entries AllowKey DisallowKey key 0 ops \<or> (\<forall>k. list_entries AllowKey DisallowKey k 0 ops = 0))"
proof -
  have black: "key \<in> set (sc_Blacklist (foldl list_step config ops)) \<longleftrightarrow> 0 < list_entries BlockKey UnblockKey key 0 ops"
    using assms(3) list_steps_count(2) [of config ops key] by (simp add: in_list_count)
  have white: "k \<in> set (sc_Whitelist (foldl list_step config ops)) \<longleftrightarrow> 0 < list_entries AllowKey DisallowKey k 0 ops" for k
    using assms(2) list_steps_count(1) [of config ops k] by (simp add: in_list_count)
  have "sc_Whitelist (foldl list_step config ops) = [] \<longleftrightarrow> (\<forall>k. list_entries AllowKey DisallowKey k 0 ops = 0)"
    using assms(2) list_steps_count(1) [of config ops] by (simp add: list_Nil_count)
  then show ?thesis
    using assms(1) black white [of key] by (auto simp: ValidatePeer_def validateCurvePeer_def list_steps_type)
qed

theorem curve_access_control_witness:
  "ValidatePeer [1] Map.empty
     \<lparr>sm_config = foldl list_step (null_config\<lparr>sc_Type := SecurityTypeCurve\<rparr>) [AllowKey [1], BlockKey [2]], sm_mechanisms = Map.empty\<rparr> = None \<and>
   ValidatePeer [3] Map.empty
     \<lparr>sm_config = foldl list_step (null_config\<lparr>sc_Type := SecurityTypeCurve\<rparr>) [AllowKey [1], BlockKey [2]], sm_mechanisms = Map.empty\<rparr> \<noteq> None"
proof -
  let ?c = "null_config\<lparr>sc_Type := SecurityTypeCurve\<rparr>" and ?ops = "[AllowKey [1], BlockKey [2]]"
  have acc: "ValidatePeer key Map.empty \<lparr>sm_config = foldl list_step ?c ?ops, sm_mechanisms = Map.empty\<rparr> = None \<longleftrightarrow>
      list_entries BlockKey UnblockKey key 0 ?ops = 0 \<and> (0 < list_entries AllowKey DisallowKey key 0 ?ops \<or> (\<forall>k. list_entries AllowKey DisallowKey k 0 ?ops = 0))" for key
    by (rule curve_access_control) (simp_all add: null_config_def)
  have "\<not> (\<forall>k. list_entries AllowKey DisallowKey k 0 ?ops = 0)"
  proof
    assume "\<forall>k. list_entries AllowKey DisallowKey k 0 ?ops = 0"
    then have "list_entries AllowKey DisallowKey [1] 0 ?ops = 0" ..
    then show False by simp
  qed
  moreover have "\<not> 0 < list_entries AllowKey DisallowKey [3] 0 ?ops" "0 < list_entries AllowKey DisallowKey [1] 0 ?ops" "list_entries BlockKey UnblockKey [1] 0 ?ops = 0"
    by simp_all
  ultimately show ?thesis unfolding acc by blast
qed

text \<open>
  Taking the last key off the whitelist opens the node to every peer that is not blacklisted, and a key
  blacklisted twice stays blocked after one removal.
\<close>

lemma empty_whitelist_opens:
  assumes "sc_Whitelist config = [k]" "key \<noteq> k" "key \<notin> set (sc_Blacklist config)"
  shows "validateCurvePeer key config \<noteq> None" "validateCurvePeer key (RemoveFromWhitelist k config) = None"
  using assms by (simp_all add: validateCurvePeer_def RemoveFromWhitelist_def)

lemma blocked_twice:
  "validateCurvePeer k (RemoveFromBlacklist k (AddToBlacklist k (AddToBlacklist k config))) \<noteq> None"
  by (simp add: validateCurvePeer_def RemoveFromBlacklist_def AddToBlacklist_def in_list_count count_remove1)

text \<open>
  PLAIN without a user name or password has no mechanism: the node gets the nil mechanism, while its
  own check accepts peers with the empty credentials.
\<close>

lemma plain_without_password:
  assumes "NewSecurityManager newClient (Some config) = Ok sm" "sc_Type config = SecurityTypePlain" "sc_Password config = []"
  shows "GetSecurityMechanism sm = None"
    "ValidatePeer key [str ''username'' \<mapsto> sc_Username config, str ''password'' \<mapsto> []] sm = None"
proof -
  have sm: "sm_config sm = config" "sm_mechanisms sm (str ''PLAIN'') = None"
    using assms(1,3)
    by (auto simp: NewSecurityManager_def Let_def and_then_Ok_iff wrap_err_Ok_iff initializeMechanisms_def str_Cons split: if_splits)
  show "GetSecurityMechanism sm = None" using assms(2) sm by (simp add: GetSecurityMechanism_def)
  show "ValidatePeer key [str ''username'' \<mapsto> sc_Username config, str ''password'' \<mapsto> []] sm = None"
    using assms(2,3) sm(1) by (simp add: ValidatePeer_def validatePlainPeer_def str_Cons)
qed

end
