(* ===== verification/Zyre_Node.thy ===== *)
theory Zyre_Node
  imports Zmtp_Msg Zyre_Peers Zyre_Security
begin

text \<open>
  The Zyre node (\<^verbatim>\<open>zyre/node.go\<close>) and the queues and commands of the discovery engine
  (\<^verbatim>\<open>zyre/discovery.go\<close>). A call that waits for ever has the value None. The beacon answers \<^verbatim>\<open>SetPort\<close>
  from its command loop, which runs between \<^verbatim>\<open>Start\<close> and \<^verbatim>\<open>Stop\<close> of the beacon: \<open>running\<close>.
\<close>

section \<open>Data\<close>

datatype NodeState = NodeStateStopped | NodeStateStarting | NodeStateRunning | NodeStateStopping

record 'c ZNode =
  zn_uuid :: bytes
  zn_name :: bytes
  zn_headers :: "bytes \<rightharpoonup> bytes"
  zn_groups :: "bytes set"
  zn_port :: "16 word"
  zn_endpoint :: bytes
  zn_beacon :: Beacon
  zn_running :: bool
  zn_managers :: ZyreManagers
  zn_security :: "'c SecurityManager"
  zn_state :: NodeState
  zn_sequence :: "16 word"

record NodeConfig =
  nc_Name :: bytes
  nc_Headers :: "(bytes \<rightharpoonup> bytes) option"
  nc_Port :: "16 word"
  nc_Interval :: int
  nc_Security :: "SecurityConfig option"

definition zero_NodeConfig :: NodeConfig where
  "zero_NodeConfig = \<lparr>nc_Name = [], nc_Headers = None, nc_Port = 0, nc_Interval = 0, nc_Security = None\<rparr>"

text \<open>\<open>random\<close> is what \<^verbatim>\<open>rand.Read\<close> gives.\<close>

definition NewNode :: "'c new_curve_client \<Rightarrow> bytes result \<Rightarrow> NodeConfig option \<Rightarrow> 'c ZNode result" where
  "NewNode newClient random config =
     and_then (wrap_err ''failed to generate UUID'' random) (\<lambda>uuid.
       let config = (case config of None \<Rightarrow> zero_NodeConfig | Some c \<Rightarrow> c);
           name = (if nc_Name config = [] then str ''node-'' @ hex (take 4 uuid) else nc_Name config);
           headers = (case nc_Headers config of None \<Rightarrow> Map.empty | Some h \<Rightarrow> h);
           interval = (if nc_Interval config = 0 then DefaultBeaconInterval else nc_Interval config) in
       and_then (wrap_err ''failed to create security manager'' (NewSecurityManager newClient (nc_Security config))) (\<lambda>sm.
         Ok \<lparr>zn_uuid = uuid, zn_name = name, zn_headers = headers, zn_groups = {}, zn_port = nc_Port config, zn_endpoint = [],
             zn_beacon = NewBeacon uuid (nc_Port config) interval, zn_running = False, zn_managers = NewManagers, zn_security = sm,
             zn_state = NodeStateStopped, zn_sequence = 0\<rparr>))"

section \<open>Start and stop\<close>

text \<open>\<^verbatim>\<open>SetPort\<close> queues its command and waits for the answer of the command loop.\<close>

definition SetPort :: "16 word \<Rightarrow> 'c ZNode \<Rightarrow> 'c ZNode option" where
  "SetPort port n = (if zn_running n then Some (n\<lparr>zn_beacon := Beacon_SetPort port (zn_beacon n)\<rparr>) else None)"

definition Beacon_Start :: "go_error option \<Rightarrow> 'c ZNode \<Rightarrow> go_error option \<times> 'c ZNode" where
  "Beacon_Start udp n =
     (if zn_running n then (Some (Errorf ''beacon already running''), n)
      else case udp of
          Some e \<Rightarrow> (Some (Wrapf ''failed to setup UDP'' e), n)
        | None \<Rightarrow> (None, n\<lparr>zn_running := True\<rparr>))"

text \<open>\<open>freePort\<close>, \<open>bound\<close> and \<open>udp\<close>: what the system answers to the search for a port, \<^verbatim>\<open>Listen\<close> and the UDP socket.\<close>

definition Node_Start :: "(16 word) result \<Rightarrow> go_error option \<Rightarrow> go_error option \<Rightarrow> 'c ZNode \<Rightarrow> (go_error option \<times> 'c ZNode) option" where
  "Node_Start freePort bound udp n =
     (if zn_state n \<noteq> NodeStateStopped then Some (Some (Errorf ''node already started''), n)
      else let n = n\<lparr>zn_state := NodeStateStarting\<rparr> in
      case (if zn_port n = 0 then freePort else Ok (zn_port n)) of
        Err e \<Rightarrow> Some (Some (Wrapf ''failed to find available port'' e), n)
      | Panic m \<Rightarrow> Some (Some (Errorf m), n)
      | Ok port \<Rightarrow>
          let n = n\<lparr>zn_port := port, zn_endpoint := str ''tcp://*:'' @ decimal (unat port)\<rparr> in
          (case bound of
             Some e \<Rightarrow> Some (Some (Wrapf ''failed to bind socket'' e), n)
           | None \<Rightarrow>
               (case SetPort port n of
                  None \<Rightarrow> None
                | Some n \<Rightarrow>
                    (case Beacon_Start udp n of
                       (Some e, n) \<Rightarrow> Some (Some (Wrapf ''failed to start beacon'' e), n)
                     | (None, n) \<Rightarrow> Some (None, n\<lparr>zn_state := NodeStateRunning\<rparr>)))))"

text \<open>The peers stop with the manager; the channels of the events are closed.\<close>

definition stop_peers :: "ZyreManagers \<Rightarrow> ZyreManagers" where
  "stop_peers z = z\<lparr>zy_heap := \<lambda>r. if r \<in> ran (zy_peers z) then map_option Peer_Stop (zy_heap z r) else zy_heap z r\<rparr>"

definition Node_Stop :: "'c ZNode \<Rightarrow> 'c ZNode option" where
  "Node_Stop n =
     (if zn_state n = NodeStateStopped then Some n
      else map_option (\<lambda>n. n\<lparr>zn_running := False, zn_managers := stop_peers (zn_managers n), zn_state := NodeStateStopped\<rparr>)
        (SetPort 0 (n\<lparr>zn_state := NodeStateStopping\<rparr>)))"

section \<open>Commands\<close>

datatype nodeCmd =
    set_name bytes
  | set_header bytes bytes
  | join_cmd bytes
  | leave_cmd bytes
  | whisper_cmd bytes frames
  | shout_cmd bytes frames

definition sendWhisper :: "bytes \<Rightarrow> frames \<Rightarrow> 'c ZNode \<Rightarrow> go_error option \<times> 'c ZNode" where
  "sendWhisper peerUUID message n = (None, n)"

definition sendShout :: "bytes \<Rightarrow> frames \<Rightarrow> 'c ZNode \<Rightarrow> go_error option \<times> 'c ZNode" where
  "sendShout name message n = (None, n)"

definition broadcastJoin :: "bytes \<Rightarrow> 'c ZNode \<Rightarrow> 'c ZNode" where
  "broadcastJoin name n = n"

definition broadcastLeave :: "bytes \<Rightarrow> 'c ZNode \<Rightarrow> 'c ZNode" where
  "broadcastLeave name n = n"

definition node_sendHeartbeats :: "'c ZNode \<Rightarrow> 'c ZNode" where
  "node_sendHeartbeats n = n"

fun node_handleCommand :: "nodeCmd \<Rightarrow> 'c ZNode \<Rightarrow> go_error option \<times> 'c ZNode" where
  "node_handleCommand (set_name name) n = (None, n\<lparr>zn_name := name\<rparr>)"
| "node_handleCommand (set_header k v) n = (None, n\<lparr>zn_headers := (zn_headers n)(k \<mapsto> v)\<rparr>)"
| "node_handleCommand (join_cmd name) n = (None, broadcastJoin name (n\<lparr>zn_groups := insert name (zn_groups n)\<rparr>))"
| "node_handleCommand (leave_cmd name) n = (None, broadcastLeave name (n\<lparr>zn_groups := zn_groups n - {name}\<rparr>))"
| "node_handleCommand (whisper_cmd peerUUID message) n = sendWhisper peerUUID message n"
| "node_handleCommand (shout_cmd name message) n = sendShout name message n"

section \<open>Incoming messages\<close>

definition node_publish :: "Event \<Rightarrow> 'c ZNode \<Rightarrow> 'c ZNode" where
  "node_publish ev n = n\<lparr>zn_managers := publish ev (zn_managers n)\<rparr>"

definition node_nextSequence :: "'c ZNode \<Rightarrow> 16 word \<times> 'c ZNode" where
  "node_nextSequence n = (zn_sequence n + 1, n\<lparr>zn_sequence := zn_sequence n + 1\<rparr>)"

definition handleHello :: "ZreMessage \<Rightarrow> 'c ZNode \<Rightarrow> 'c ZNode" where
  "handleHello msg n = (case Hello_Unmarshal (zBody msg) of Ok _ \<Rightarrow> n | _ \<Rightarrow> n)"

definition handleWhisper :: "int \<Rightarrow> ZreMessage \<Rightarrow> 'c ZNode \<Rightarrow> 'c ZNode" where
  "handleWhisper now msg n =
     (case Whisper_Unmarshal (zBody msg) of
        Ok whisper \<Rightarrow> node_publish (NewWhisperEvent now (hex (SenderUUID msg)) [] (wContent whisper)) n
      | _ \<Rightarrow> n)"

definition handleShout :: "int \<Rightarrow> ZreMessage \<Rightarrow> 'c ZNode \<Rightarrow> 'c ZNode" where
  "handleShout now msg n =
     (case Shout_Unmarshal (zBody msg) of
        Ok shout \<Rightarrow> node_publish (NewShoutEvent now (hex (SenderUUID msg)) [] (sGroup shout) (sContent shout)) n
      | _ \<Rightarrow> n)"

definition handleJoin :: "int \<Rightarrow> ZreMessage \<Rightarrow> 'c ZNode \<Rightarrow> 'c ZNode" where
  "handleJoin now msg n =
     (case Join_Unmarshal (zBody msg) of
        Ok join \<Rightarrow> node_publish (NewJoinEvent now (hex (SenderUUID msg)) [] (jGroup join)) n
      | _ \<Rightarrow> n)"

definition handleLeave :: "int \<Rightarrow> ZreMessage \<Rightarrow> 'c ZNode \<Rightarrow> 'c ZNode" where
  "handleLeave now msg n =
     (case Leave_Unmarshal (zBody msg) of
        Ok leave \<Rightarrow> node_publish (NewLeaveEvent now (hex (SenderUUID msg)) [] (lGroup leave)) n
      | _ \<Rightarrow> n)"

text \<open>The answer to a PING is made, which takes a sequence number, and not sent.\<close>

definition handlePing :: "ZreMessage \<Rightarrow> 'c ZNode \<Rightarrow> 'c ZNode" where
  "handlePing msg n = snd (node_nextSequence n)"

definition handlePingOK :: "ZreMessage \<Rightarrow> 'c ZNode \<Rightarrow> 'c ZNode" where
  "handlePingOK msg n = n"

definition handleIncomingMessage :: "int \<Rightarrow> ZreMessage \<Rightarrow> 'c ZNode \<Rightarrow> 'c ZNode" where
  "handleIncomingMessage now msg n =
     (if zType msg = 1 then handleHello msg n
      else if zType msg = 2 then handleWhisper now msg n
      else if zType msg = 3 then handleShout now msg n
      else if zType msg = 4 then handleJoin now msg n
      else if zType msg = 5 then handleLeave now msg n
      else if zType msg = 6 then handlePing msg n
      else if zType msg = 7 then handlePingOK msg n
      else n)"

text \<open>One message received by the ROUTER socket of the node.\<close>

definition incoming_round :: "int \<Rightarrow> Msg result \<Rightarrow> 'c ZNode \<Rightarrow> 'c ZNode" where
  "incoming_round now received n =
     (case received of
        Ok msg \<Rightarrow> (case Zre_Unmarshal (Msg_Bytes msg) of Ok zreMsg \<Rightarrow> handleIncomingMessage now zreMsg n | _ \<Rightarrow> n)
      | _ \<Rightarrow> n)"

section \<open>The discovery engine\<close>

record HeartbeatMsg =
  hb_PeerUUID :: bytes
  hb_Timestamp :: int
  hb_Source :: bytes

record DiscoveryEngine =
  de_nodePort :: "16 word"
  de_beacon :: Beacon
  de_beaconDiscoveries :: "Discovery list"
  de_discoveries :: "Discovery list"
  de_heartbeats :: "HeartbeatMsg list"
  de_peerDiscoveries :: "Discovery list"
  de_managers :: ZyreManagers

definition SendHeartbeat :: "int \<Rightarrow> bytes \<Rightarrow> bytes \<Rightarrow> DiscoveryEngine \<Rightarrow> DiscoveryEngine" where
  "SendHeartbeat now peerUUID source de =
     (if length (de_heartbeats de) < 1000
      then de\<lparr>de_heartbeats := de_heartbeats de @ [\<lparr>hb_PeerUUID = peerUUID, hb_Timestamp = now, hb_Source = source\<rparr>]\<rparr>
      else de)"

text \<open>
  A round of the discovery loop forwards one discovery, from the beacon or a manual one, to the peer
  manager and queues a heartbeat. It waits while the queue of the peer manager is full: None.
\<close>

definition forward_discovery :: "int \<Rightarrow> bytes \<Rightarrow> Discovery \<Rightarrow> DiscoveryEngine \<Rightarrow> DiscoveryEngine option" where
  "forward_discovery now source d de =
     (if length (de_peerDiscoveries de) < 100
      then Some (SendHeartbeat now (d_UUID d) source (de\<lparr>de_peerDiscoveries := de_peerDiscoveries de @ [d]\<rparr>))
      else None)"

definition beacon_round :: "int \<Rightarrow> DiscoveryEngine \<Rightarrow> DiscoveryEngine option" where
  "beacon_round now de =
     (case de_beaconDiscoveries de of
        [] \<Rightarrow> None
      | d # ds \<Rightarrow> forward_discovery now (str ''beacon'') d (de\<lparr>de_beaconDiscoveries := ds\<rparr>))"

definition manual_round :: "int \<Rightarrow> DiscoveryEngine \<Rightarrow> DiscoveryEngine option" where
  "manual_round now de =
     (case de_discoveries de of
        [] \<Rightarrow> None
      | d # ds \<Rightarrow> forward_discovery now (str ''manual'') d (de\<lparr>de_discoveries := ds\<rparr>))"

definition peer_round :: "(bytes \<Rightarrow> bytes) \<Rightarrow> go_error option \<Rightarrow> int \<Rightarrow> DiscoveryEngine \<Rightarrow> DiscoveryEngine option" where
  "peer_round printed dialled now de =
     (case de_peerDiscoveries de of
        [] \<Rightarrow> None
      | d # ds \<Rightarrow> Some (de\<lparr>de_peerDiscoveries := ds, de_managers := handleDiscovery (printed (d_Addr d)) dialled now d (de_managers de)\<rparr>))"

definition heartbeat_round :: "int \<Rightarrow> DiscoveryEngine \<Rightarrow> DiscoveryEngine option" where
  "heartbeat_round now de =
     (case de_heartbeats de of
        [] \<Rightarrow> None
      | hb # hbs \<Rightarrow> Some (de\<lparr>de_heartbeats := hbs, de_managers := processHeartbeat now (hb_PeerUUID hb) (de_managers de)\<rparr>))"

text \<open>\<open>DiscoverPeer\<close> makes a discovery with no address, whatever address it is given.\<close>

definition DiscoverPeer :: "int \<Rightarrow> bytes \<Rightarrow> bytes \<Rightarrow> 16 word \<Rightarrow> DiscoveryEngine \<Rightarrow> go_error option \<times> DiscoveryEngine" where
  "DiscoverPeer now uuid addr port de =
     (let d = \<lparr>d_UUID = uuid, d_Port = port, d_Addr = [], d_Time = now\<rparr> in
      if length (de_discoveries de) < 500 then (None, de\<lparr>de_discoveries := de_discoveries de @ [d]\<rparr>)
      else (Some (Errorf ''discovery queue full''), de))"

definition SetBeaconPort :: "16 word \<Rightarrow> DiscoveryEngine \<Rightarrow> go_error option \<times> DiscoveryEngine" where
  "SetBeaconPort port de = (None, de\<lparr>de_beacon := Beacon_SetPort port (de_beacon de), de_nodePort := port\<rparr>)"

section \<open>A node does not start\<close>

text \<open>The life of a node: every call that returns, and every step of its loops.\<close>

inductive node_run :: "'c ZNode \<Rightarrow> bool" where
  new: "node_run n" if "NewNode newClient random config = Ok n"
| start: "node_run n'" if "node_run n" "Node_Start freePort bound udp n = Some (e, n')"
| stop: "node_run n'" if "node_run n" "Node_Stop n = Some n'"
| command: "node_run (snd (node_handleCommand cmd n))" if "node_run n"
| incoming: "node_run (incoming_round now received n)" if "node_run n"
| managers: "node_run (n\<lparr>zn_managers := z\<rparr>)" if "node_run n" "zyre_step op (zn_managers n) = Ok z"

lemma command_frame [simp]:
  "zn_running (snd (node_handleCommand cmd n)) = zn_running n" "zn_state (snd (node_handleCommand cmd n)) = zn_state n"
  by (cases cmd; simp add: broadcastJoin_def broadcastLeave_def sendWhisper_def sendShout_def)+

lemma handlers_frame:
  "handleHello msg n = n" "\<exists>z. handleWhisper now msg n = n\<lparr>zn_managers := z\<rparr>"
  "\<exists>z. handleShout now msg n = n\<lparr>zn_managers := z\<rparr>"
  "\<exists>z. handleJoin now msg n = n\<lparr>zn_managers := z\<rparr>"
  "\<exists>z. handleLeave now msg n = n\<lparr>zn_managers := z\<rparr>"
  by (auto simp: handleHello_def handleWhisper_def handleShout_def handleJoin_def handleLeave_def node_publish_def
      intro: exI [of _ "zn_managers n"] split: result.split)

lemma incoming_frame [simp]:
  "zn_running (incoming_round now received n) = zn_running n" "zn_state (incoming_round now received n) = zn_state n"
proof -
  have "zn_running (handleIncomingMessage now msg n) = zn_running n \<and> zn_state (handleIncomingMessage now msg n) = zn_state n" for msg
    using handlers_frame(1) [of msg n] handlers_frame(2-) [of now msg n]
    by (auto simp: handleIncomingMessage_def handlePing_def handlePingOK_def node_nextSequence_def)
  then show "zn_running (incoming_round now received n) = zn_running n" "zn_state (incoming_round now received n) = zn_state n"
    by (simp_all add: incoming_round_def split: result.split)
qed

lemma Node_Start_idle:
  assumes "\<not> zn_running n" "Node_Start freePort bound udp n = Some (e, n')"
  shows "e \<noteq> None \<and> \<not> zn_running n' \<and> zn_state n' \<in> {zn_state n, NodeStateStarting}"
  using assms by (auto simp: Node_Start_def SetPort_def Let_def split: if_splits result.splits option.splits)

lemma node_run_idle: "node_run n \<Longrightarrow> \<not> zn_running n \<and> zn_state n \<in> {NodeStateStopped, NodeStateStarting}"
proof (induction rule: node_run.induct)
  case (new newClient random config n)
  then show ?case by (auto simp: NewNode_def and_then_Ok_iff Let_def)
next
  case (start n freePort bound udp e n')
  then show ?case using Node_Start_idle [of n freePort bound udp e n'] by auto
next
  case (stop n n')
  then show ?case by (auto simp: Node_Stop_def SetPort_def split: if_splits)
qed simp_all

text \<open>
  no node ever runs. \<^verbatim>\<open>Start\<close> gives the beacon its port before it starts the beacon and so waits for ever
  for the answer of a loop that is not there: whatever came before, it returns only with an error, and once the
  socket is bound it does not return. A node whose \<^verbatim>\<open>Start\<close> failed stays in the state Starting: it cannot be
  started again, and \<^verbatim>\<open>Stop\<close> does not return.
\<close>

theorem node_never_starts:
  assumes "node_run n"
  shows "zn_state n \<noteq> NodeStateRunning \<and> (\<forall>freePort bound udp n'. Node_Start freePort bound udp n \<noteq> Some (None, n')) \<and>
    (zn_state n = NodeStateStopped \<longrightarrow> (\<forall>port udp. Node_Start (Ok port) None udp n = None)) \<and>
    (zn_state n \<noteq> NodeStateStopped \<longrightarrow> Node_Stop n = None \<and>
      (\<forall>freePort bound udp. Node_Start freePort bound udp n = Some (Some (Errorf ''node already started''), n)))"
proof -
  have idle: "\<not> zn_running n" "zn_state n \<in> {NodeStateStopped, NodeStateStarting}" using node_run_idle [OF assms] by simp_all
  have "Node_Start freePort bound udp n \<noteq> Some (None, n')" for freePort bound udp n' using Node_Start_idle [OF idle(1)] by blast
  then show ?thesis using idle by (auto simp: Node_Start_def Node_Stop_def SetPort_def Let_def)
qed

definition sample_node :: "unit ZNode" where
  "sample_node = \<lparr>zn_uuid = replicate 16 2, zn_name = str ''n'', zn_headers = Map.empty, zn_groups = {}, zn_port = 0, zn_endpoint = [],
     zn_beacon = NewBeacon (replicate 16 2) 0 DefaultBeaconInterval, zn_running = False, zn_managers = NewManagers,
     zn_security = \<lparr>sm_config = null_config, sm_mechanisms = [str ''NULL'' \<mapsto> NullMech]\<rparr>,
     zn_state = NodeStateStopped, zn_sequence = 0\<rparr>"

lemma sample_node_new: "NewNode (\<lambda>_ _ _. Ok ()) (Ok (replicate 16 2)) (Some (zero_NodeConfig\<lparr>nc_Name := str ''n''\<rparr>)) = Ok sample_node"
  by (simp add: NewNode_def Let_def zero_NodeConfig_def NewSecurityManager_def initializeMechanisms_def null_config_def sample_node_def)

theorem node_never_starts_witness: "Node_Start (Ok 5670) None None sample_node = None"
  using node_never_starts [OF node_run.new [OF sample_node_new]] by (simp add: sample_node_def)

section \<open>What a node makes of a message\<close>

text \<open>The frame a peer sends: the message in the form \<^verbatim>\<open>Marshal\<close> gives it.\<close>

definition envelope :: "16 word \<Rightarrow> bytes \<Rightarrow> byte \<Rightarrow> bytes \<Rightarrow> Msg" where
  "envelope sq uuid t body =
     (case Zre_Marshal \<lparr>zVersion = 2, zType = t, zSequence = sq, SenderUUID = uuid, zBody = body\<rparr> of Ok data \<Rightarrow> NewMsg data | _ \<Rightarrow> zeroMsg)"

lemma incoming_envelope:
  assumes "length uuid = 16"
  shows "incoming_round now (Ok (envelope sq uuid t body)) n =
    handleIncomingMessage now \<lparr>zVersion = 2, zType = t, zSequence = sq, SenderUUID = uuid, zBody = body\<rparr> n"
proof -
  let ?m = "\<lparr>zVersion = 2, zType = t, zSequence = sq, SenderUUID = uuid, zBody = body\<rparr>"
  obtain data where "Zre_Marshal ?m = Ok data" "Zre_Unmarshal data = Ok ?m" using zre.roundtrip [of ?m] assms by auto
  then show ?thesis by (simp add: envelope_def incoming_round_def NewMsg_def zeroMsg_def)
qed

text \<open>
  a WHISPER, SHOUT, JOIN or LEAVE that a peer marshals within the limits of the format and that
  arrives as one frame becomes exactly one event, with the UUID of the sender in hex, the group and the
  content, behind the events published before; a PING only takes a sequence number, and HELLO and PING-OK change nothing.
\<close>

theorem message_becomes_event:
  assumes "length uuid = 16" "content_ok content" "length name \<le> 255"
  shows "(\<exists>body. Whisper_Marshal \<lparr>wContent = content\<rparr> = Ok body \<and>
      incoming_round now (Ok (envelope sq uuid 2 body)) n = node_publish (NewWhisperEvent now (hex uuid) [] content) n) \<and>
    (\<exists>body. Shout_Marshal \<lparr>sGroup = name, sContent = content\<rparr> = Ok body \<and>
      incoming_round now (Ok (envelope sq uuid 3 body)) n = node_publish (NewShoutEvent now (hex uuid) [] name content) n) \<and>
    (\<exists>body. Join_Marshal \<lparr>jGroup = name, jStatus = st\<rparr> = Ok body \<and>
      incoming_round now (Ok (envelope sq uuid 4 body)) n = node_publish (NewJoinEvent now (hex uuid) [] name) n) \<and>
    (\<exists>body. Leave_Marshal \<lparr>lGroup = name, lStatus = st\<rparr> = Ok body \<and>
      incoming_round now (Ok (envelope sq uuid 5 body)) n = node_publish (NewLeaveEvent now (hex uuid) [] name) n) \<and>
    incoming_round now (Ok (envelope sq uuid 6 body)) n = n\<lparr>zn_sequence := zn_sequence n + 1\<rparr> \<and>
    incoming_round now (Ok (envelope sq uuid 1 body)) n = n \<and> incoming_round now (Ok (envelope sq uuid 7 body)) n = n"
proof -
  obtain w where w: "Whisper_Marshal \<lparr>wContent = content\<rparr> = Ok w" "Whisper_Unmarshal w = Ok \<lparr>wContent = content\<rparr>"
    using whisper.roundtrip [of "\<lparr>wContent = content\<rparr>"] assms(2) by auto
  obtain s where s: "Shout_Marshal \<lparr>sGroup = name, sContent = content\<rparr> = Ok s" "Shout_Unmarshal s = Ok \<lparr>sGroup = name, sContent = content\<rparr>"
    using shout.roundtrip [of "\<lparr>sGroup = name, sContent = content\<rparr>"] assms(2,3) by auto
  obtain j where j: "Join_Marshal \<lparr>jGroup = name, jStatus = st\<rparr> = Ok j" "Join_Unmarshal j = Ok \<lparr>jGroup = name, jStatus = st\<rparr>"
    using join.roundtrip [of "\<lparr>jGroup = name, jStatus = st\<rparr>"] assms(3) by auto
  obtain l where l: "Leave_Marshal \<lparr>lGroup = name, lStatus = st\<rparr> = Ok l" "Leave_Unmarshal l = Ok \<lparr>lGroup = name, lStatus = st\<rparr>"
    using leave.roundtrip [of "\<lparr>lGroup = name, lStatus = st\<rparr>"] assms(3) by auto
  show ?thesis
    unfolding incoming_envelope [OF assms(1)] using w s j l
    by (intro conjI exI [of _ w] exI [of _ s] exI [of _ j] exI [of _ l])
      (simp_all add: handleIncomingMessage_def handleWhisper_def handleShout_def handleJoin_def handleLeave_def handlePing_def
        node_nextSequence_def handleHello_def handlePingOK_def split: result.split)
qed

theorem message_becomes_event_witness:
  "\<exists>body. Whisper_Marshal \<lparr>wContent = [[1, 2]]\<rparr> = Ok body \<and>
     zy_published (zn_managers (incoming_round 7 (Ok (envelope 1 (replicate 16 1) 2 body)) sample_node)) =
       [NewWhisperEvent 7 (hex (replicate 16 1)) [] [[1, 2]]]"
proof -
  have "content_ok [[1, 2]]" by (simp add: content_ok_def frames_fit_def frame_fits_def)
  then have "\<exists>body. Whisper_Marshal \<lparr>wContent = [[1, 2]]\<rparr> = Ok body \<and> incoming_round 7 (Ok (envelope 1 (replicate 16 1) 2 body)) sample_node =
      node_publish (NewWhisperEvent 7 (hex (replicate 16 1)) [] [[1, 2]]) sample_node"
    using message_becomes_event [of "replicate 16 1" "[[1, 2]]" "[]" 7 1 sample_node 0 "[]"] by simp
  then show ?thesis by (auto simp: node_publish_def sample_node_def NewManagers_def)
qed

text \<open>
  the ROUTER socket puts the identity of the sender in front of what it receives, and the node
  parses all frames together: unless the identity begins with the two signature bytes, every message of
  every peer is dropped, whatever its type and content.
\<close>

theorem router_messages_dropped:
  assumes "2 \<le> length ident" "take 2 ident \<noteq> [ProtocolSignature1, ProtocolSignature2]"
  shows "incoming_round now (Ok (NewMsgFrom (ident # rest))) n = n"
proof -
  obtain a b xs where ident: "ident = a # b # xs" using assms(1) by (cases ident; cases "tl ident") auto
  have "\<forall>m. Zre_Unmarshal (concat (ident # rest)) \<noteq> Ok m" using assms(2) ident by (auto simp: Zre_Unmarshal_def)
  then show ?thesis by (auto simp: incoming_round_def NewMsgFrom_def zeroMsg_def split: result.split)
qed

theorem router_messages_dropped_witness: "incoming_round 1 (Ok (NewMsgFrom [str ''ab'', [0xAA, 0xA1] @ replicate 20 0])) sample_node = sample_node"
  using router_messages_dropped [of "str ''ab''"] by (simp add: str_Cons ProtocolSignature1_def)

section \<open>From a beacon to a peer\<close>

text \<open>
  C24: one beacon of an unknown node with a port makes it a known peer. From empty queues, and when the dial of the peer succeeds, the datagram is parsed,
  forwarded by the discovery loop, taken up by the peer manager, and followed by a heartbeat; afterwards the peer is
  registered, connected to the source address and the port of the beacon, seen at the time of the heartbeat,
  and exactly one ENTER event has been published.
\<close>

theorem beacon_makes_peer:
  assumes "length uuid = 16" "uuid \<noteq> b_uuid (de_beacon de)" "port \<noteq> 0" "zy_peers (de_managers de) (hex uuid) = None"
    "de_beaconDiscoveries de = []" "de_peerDiscoveries de = []" "de_heartbeats de = []"
  shows "\<exists>de1 de2 de3 r p.
    beacon_round t1 (de\<lparr>de_beaconDiscoveries := listen_datagram t0 (beacon_bytes uuid port) ip (de_beacon de) []\<rparr>) = Some de1 \<and>
    peer_round printed None t2 de1 = Some de2 \<and> heartbeat_round t3 de2 = Some de3 \<and>
    zy_peers (de_managers de3) = (zy_peers (de_managers de))(hex uuid \<mapsto> r) \<and> zy_heap (de_managers de3) r = Some p \<and>
    zp_UUID p = uuid \<and> zp_Endpoint p = str ''tcp://'' @ printed ip @ str '':'' @ decimal (unat port) \<and> zp_Connected p \<and> zp_LastSeen p = t3 \<and>
    zy_published (de_managers de3) = zy_published (de_managers de) @ [NewEnterEvent t2 (hex uuid) [] (zp_Endpoint p) Map.empty] \<and>
    de_heartbeats de3 = [] \<and> de_peerDiscoveries de3 = [] \<and> de_beaconDiscoveries de3 = []"
proof -
  let ?d = "\<lparr>d_UUID = uuid, d_Port = port, d_Addr = ip, d_Time = t0\<rparr>"
  have heard: "listen_datagram t0 (beacon_bytes uuid port) ip (de_beacon de) [] = [?d]"
    using beacon_heard [OF assms(1), of t0 port "[]" ip "de_beacon de"] assms(2) by simp
  show ?thesis
    unfolding heard using assms(3-7)
    by (simp add: beacon_round_def forward_discovery_def SendHeartbeat_def peer_round_def heartbeat_round_def handleDiscovery_def Let_def
        Peer_Start_def NewPeer_def processHeartbeat_def UpdateLastSeen_def exI [of _ "zy_limit (de_managers de)"])
qed

definition sample_engine :: DiscoveryEngine where
  "sample_engine = \<lparr>de_nodePort = 5671, de_beacon = NewBeacon (replicate 16 2) 5671 0, de_beaconDiscoveries = [], de_discoveries = [],
     de_heartbeats = [], de_peerDiscoveries = [], de_managers = NewManagers\<rparr>"

theorem beacon_makes_peer_witness:
  "\<exists>(de1 :: DiscoveryEngine) (de2 :: DiscoveryEngine).
    beacon_round 1 (sample_engine\<lparr>de_beaconDiscoveries := listen_datagram 0 (beacon_bytes (replicate 16 1) 5670) [] (de_beacon sample_engine) []\<rparr>) = Some de1 \<and>
    peer_round (\<lambda>ip. ip) None 2 de1 = Some de2"
  using beacon_makes_peer [of "replicate 16 1" sample_engine 5670 1 0 "[]" "\<lambda>ip. ip" 2 3]
  by (fastforce simp: sample_engine_def NewBeacon_def NewManagers_def)

text \<open>
  A manual discovery forgets the address it is given: the peer manager dials what the nil address prints as.
\<close>

lemma DiscoverPeer_ignores_address: "DiscoverPeer now uuid addr port de = DiscoverPeer now uuid addr' port de"
  by (simp add: DiscoverPeer_def)

text \<open>Messages and group changes of the node reach nobody, and are reported as sent.\<close>

lemma sends_reach_nobody:
  "zn_managers (snd (node_handleCommand cmd n)) = zn_managers n" "fst (node_handleCommand cmd n) = None"
  by (cases cmd; simp add: broadcastJoin_def broadcastLeave_def sendWhisper_def sendShout_def)+

end
