(* ===== verification/Dafka_Message.thy ===== *)
theory Dafka_Message
  imports Lp_Codec
begin

text \<open>
  The messages of Dafka (\<^verbatim>\<open>dafka/message.go\<close>, types in \<^verbatim>\<open>dafka/protocol.go\<close>), built from the pieces of
  \<open>Lp_Codec\<close>. \<^verbatim>\<open>Unmarshal\<close> fills a fresh struct, as in all its uses.
\<close>

section \<open>Data\<close>

definition dafka_ProtocolVersion :: byte where "dafka_ProtocolVersion = 1"
definition dafka_ProtocolSignature1 :: byte where "dafka_ProtocolSignature1 = 0xAA"
definition dafka_ProtocolSignature2 :: byte where "dafka_ProtocolSignature2 = 0xA0"
definition MaxTopicLength :: nat where "MaxTopicLength = 255"
definition MaxRecordSize :: nat where "MaxRecordSize = 1024 * 1024"

definition MessageTypeRecord :: byte where "MessageTypeRecord = 3"
definition MessageTypeAck :: byte where "MessageTypeAck = 4"
definition MessageTypeHead :: byte where "MessageTypeHead = 5"
definition MessageTypeFetch :: byte where "MessageTypeFetch = 6"

lemmas dafka_consts = dafka_ProtocolVersion_def dafka_ProtocolSignature1_def dafka_ProtocolSignature2_def
  MaxTopicLength_def MaxRecordSize_def MessageTypeRecord_def MessageTypeAck_def MessageTypeHead_def MessageTypeFetch_def

record DafkaRecord =
  r_Topic :: bytes
  r_Partition :: bytes
  r_Offset :: "64 word"
  r_Key :: bytes
  r_Value :: bytes
  r_Headers :: "bytes \<rightharpoonup> bytes"
  r_Timestamp :: int

record DafkaMessage =
  dm_Signature :: "byte \<times> byte"
  dm_Version :: byte
  dm_Type :: byte
  dm_Topic :: bytes
  dm_Body :: bytes

text \<open>STORE-HELLO and CONSUMER-HELLO have the same fields and the same code, as have RECORD and DIRECT-RECORD, and HEAD, DIRECT-HEAD and ACK.\<close>

record StoreHelloMessage =
  sh_Address :: bytes
  sh_Headers :: "bytes \<rightharpoonup> bytes"

record ConsumerHelloMessage =
  ch_Address :: bytes
  ch_Headers :: "bytes \<rightharpoonup> bytes"

record RecordMessage =
  rm_Partition :: bytes
  rm_Offset :: "64 word"
  rm_Key :: bytes
  rm_Value :: bytes
  rm_Headers :: "bytes \<rightharpoonup> bytes"

record DirectRecordMessage =
  dr_Partition :: bytes
  dr_Offset :: "64 word"
  dr_Key :: bytes
  dr_Value :: bytes
  dr_Headers :: "bytes \<rightharpoonup> bytes"

record AckMessage =
  am_Partition :: bytes
  am_Offset :: "64 word"

record HeadMessage =
  hm_Partition :: bytes
  hm_Offset :: "64 word"

record DirectHeadMessage =
  dh_Partition :: bytes
  dh_Offset :: "64 word"

record FetchMessage =
  fm_Partition :: bytes
  fm_Offset :: "64 word"
  fm_Count :: "32 word"

section \<open>The envelope\<close>

definition Dafka_Marshal :: "DafkaMessage \<Rightarrow> bytes result" where
  "Dafka_Marshal m = write_all
     [Ok [dafka_ProtocolSignature1, dafka_ProtocolSignature2, dm_Version m, dm_Type m],
      writeString ''topic'' MaxTopicLength (dm_Topic m), Ok (dm_Body m)]"

definition Dafka_Unmarshal :: "bytes \<Rightarrow> DafkaMessage result" where
  "Dafka_Unmarshal data =
     (if length data < 5 then Err (Errorf ''message too short'')
      else if data ! 0 \<noteq> dafka_ProtocolSignature1 \<or> data ! 1 \<noteq> dafka_ProtocolSignature2
        then Err (Errorf ''invalid protocol signature'')
      else
        let topicLen = unat (data ! 4); buf = drop 5 data in
        and_then (if topicLen > 0 then wrap_err ''failed to read topic'' (Reader_Read topicLen buf) else Ok ([], buf))
          (\<lambda>(topic, remaining).
            Ok \<lparr>dm_Signature = (0, 0), dm_Version = data ! 2, dm_Type = data ! 3, dm_Topic = topic, dm_Body = remaining\<rparr>))"

section \<open>The bodies\<close>

definition StoreHello_Marshal :: "key_order \<Rightarrow> StoreHelloMessage \<Rightarrow> bytes result" where
  "StoreHello_Marshal ord s = write_all [writeString ''address'' 255 (sh_Address s), writeMap ''headers'' ord (sh_Headers s)]"

definition StoreHello_Unmarshal :: "bytes \<Rightarrow> StoreHelloMessage result" where
  "StoreHello_Unmarshal data =
     and_then (wrap_err ''failed to read address'' (get_lp data)) (\<lambda>(address, r).
     and_then (readMap ''header'' r) (\<lambda>(headers, r).
       Ok \<lparr>sh_Address = address, sh_Headers = headers\<rparr>))"

definition ConsumerHello_Marshal :: "key_order \<Rightarrow> ConsumerHelloMessage \<Rightarrow> bytes result" where
  "ConsumerHello_Marshal ord c = write_all [writeString ''address'' 255 (ch_Address c), writeMap ''headers'' ord (ch_Headers c)]"

definition ConsumerHello_Unmarshal :: "bytes \<Rightarrow> ConsumerHelloMessage result" where
  "ConsumerHello_Unmarshal data =
     and_then (wrap_err ''failed to read address'' (get_lp data)) (\<lambda>(address, r).
     and_then (readMap ''header'' r) (\<lambda>(headers, r).
       Ok \<lparr>ch_Address = address, ch_Headers = headers\<rparr>))"

definition RecordMessage_Marshal :: "key_order \<Rightarrow> RecordMessage \<Rightarrow> bytes result" where
  "RecordMessage_Marshal ord r = write_all
     [writeString ''partition'' 255 (rm_Partition r), Ok (put_be 8 (unat (rm_Offset r))),
      writeBlock ''key'' 2 65535 (rm_Key r), writeBlock ''value'' 4 MaxRecordSize (rm_Value r),
      writeMap ''headers'' ord (rm_Headers r)]"

definition RecordMessage_Unmarshal :: "bytes \<Rightarrow> RecordMessage result" where
  "RecordMessage_Unmarshal data =
     and_then (wrap_err ''failed to read partition'' (get_lp data)) (\<lambda>(partition, r).
     and_then (wrap_err ''failed to read offset'' (binary_Read 8 r)) (\<lambda>(offset, r).
     and_then (readBlock ''key'' 2 [] r) (\<lambda>(key, r).
     and_then (readBlock ''value'' 4 [] r) (\<lambda>(value, r).
     and_then (readMap ''header'' r) (\<lambda>(headers, r).
       Ok \<lparr>rm_Partition = partition, rm_Offset = of_nat offset, rm_Key = key, rm_Value = value, rm_Headers = headers\<rparr>)))))"

definition AckMessage_Marshal :: "AckMessage \<Rightarrow> bytes result" where
  "AckMessage_Marshal a = write_all [writeString ''partition'' 255 (am_Partition a), Ok (put_be 8 (unat (am_Offset a)))]"

definition AckMessage_Unmarshal :: "bytes \<Rightarrow> AckMessage result" where
  "AckMessage_Unmarshal data =
     and_then (wrap_err ''failed to read partition'' (get_lp data)) (\<lambda>(partition, r).
     and_then (wrap_err ''failed to read offset'' (binary_Read 8 r)) (\<lambda>(offset, r).
       Ok \<lparr>am_Partition = partition, am_Offset = of_nat offset\<rparr>))"

definition HeadMessage_Marshal :: "HeadMessage \<Rightarrow> bytes result" where
  "HeadMessage_Marshal h = write_all [writeString ''partition'' 255 (hm_Partition h), Ok (put_be 8 (unat (hm_Offset h)))]"

definition HeadMessage_Unmarshal :: "bytes \<Rightarrow> HeadMessage result" where
  "HeadMessage_Unmarshal data =
     and_then (wrap_err ''failed to read partition'' (get_lp data)) (\<lambda>(partition, r).
     and_then (wrap_err ''failed to read offset'' (binary_Read 8 r)) (\<lambda>(offset, r).
       Ok \<lparr>hm_Partition = partition, hm_Offset = of_nat offset\<rparr>))"

definition FetchMessage_Marshal :: "FetchMessage \<Rightarrow> bytes result" where
  "FetchMessage_Marshal f = write_all [writeString ''partition'' 255 (fm_Partition f), Ok (put_be 8 (unat (fm_Offset f))),
     Ok (put_be 4 (unat (fm_Count f)))]"

definition FetchMessage_Unmarshal :: "bytes \<Rightarrow> FetchMessage result" where
  "FetchMessage_Unmarshal data =
     and_then (wrap_err ''failed to read partition'' (get_lp data)) (\<lambda>(partition, r).
     and_then (wrap_err ''failed to read offset'' (binary_Read 8 r)) (\<lambda>(offset, r).
     and_then (wrap_err ''failed to read count'' (binary_Read 4 r)) (\<lambda>(count, r).
       Ok \<lparr>fm_Partition = partition, fm_Offset = of_nat offset, fm_Count = of_nat count\<rparr>)))"

definition DirectRecord_Marshal :: "key_order \<Rightarrow> DirectRecordMessage \<Rightarrow> bytes result" where
  "DirectRecord_Marshal ord d = RecordMessage_Marshal ord \<lparr>rm_Partition = dr_Partition d, rm_Offset = dr_Offset d,
     rm_Key = dr_Key d, rm_Value = dr_Value d, rm_Headers = dr_Headers d\<rparr>"

definition DirectRecord_Unmarshal :: "bytes \<Rightarrow> DirectRecordMessage result" where
  "DirectRecord_Unmarshal data = and_then (RecordMessage_Unmarshal data) (\<lambda>r.
     Ok \<lparr>dr_Partition = rm_Partition r, dr_Offset = rm_Offset r, dr_Key = rm_Key r, dr_Value = rm_Value r,
         dr_Headers = rm_Headers r\<rparr>)"

definition DirectHead_Marshal :: "DirectHeadMessage \<Rightarrow> bytes result" where
  "DirectHead_Marshal d = HeadMessage_Marshal \<lparr>hm_Partition = dh_Partition d, hm_Offset = dh_Offset d\<rparr>"

definition DirectHead_Unmarshal :: "bytes \<Rightarrow> DirectHeadMessage result" where
  "DirectHead_Unmarshal data = and_then (HeadMessage_Unmarshal data) (\<lambda>h.
     Ok \<lparr>dh_Partition = hm_Partition h, dh_Offset = hm_Offset h\<rparr>)"

definition GetHeads_Marshal :: "unit \<Rightarrow> bytes result" where
  "GetHeads_Marshal g = Ok []"

definition GetHeads_Unmarshal :: "bytes \<Rightarrow> unit result" where
  "GetHeads_Unmarshal data = Ok ()"

section \<open>Whole messages\<close>

definition dafka_message :: "byte \<Rightarrow> bytes \<Rightarrow> bytes result \<Rightarrow> DafkaMessage result" where
  "dafka_message type topic body = and_then body (\<lambda>body.
     Ok \<lparr>dm_Signature = (dafka_ProtocolSignature1, dafka_ProtocolSignature2), dm_Version = dafka_ProtocolVersion,
         dm_Type = type, dm_Topic = topic, dm_Body = body\<rparr>)"

definition CreateRecordMessage :: "key_order \<Rightarrow> bytes \<Rightarrow> DafkaRecord \<Rightarrow> DafkaMessage result" where
  "CreateRecordMessage ord topic record = dafka_message MessageTypeRecord topic
     (RecordMessage_Marshal ord \<lparr>rm_Partition = r_Partition record, rm_Offset = r_Offset record, rm_Key = r_Key record,
        rm_Value = r_Value record, rm_Headers = r_Headers record\<rparr>)"

definition CreateAckMessage :: "bytes \<Rightarrow> bytes \<Rightarrow> 64 word \<Rightarrow> DafkaMessage result" where
  "CreateAckMessage topic part offset = dafka_message MessageTypeAck topic
     (AckMessage_Marshal \<lparr>am_Partition = part, am_Offset = offset\<rparr>)"

definition CreateHeadMessage :: "bytes \<Rightarrow> bytes \<Rightarrow> 64 word \<Rightarrow> DafkaMessage result" where
  "CreateHeadMessage topic part offset = dafka_message MessageTypeHead topic
     (HeadMessage_Marshal \<lparr>hm_Partition = part, hm_Offset = offset\<rparr>)"

definition CreateFetchMessage :: "bytes \<Rightarrow> bytes \<Rightarrow> 64 word \<Rightarrow> 32 word \<Rightarrow> DafkaMessage result" where
  "CreateFetchMessage topic part offset count = dafka_message MessageTypeFetch topic
     (FetchMessage_Marshal \<lparr>fm_Partition = part, fm_Offset = offset, fm_Count = count\<rparr>)"

section \<open>Round trips\<close>

definition RecordMessage_ok :: "key_order \<Rightarrow> RecordMessage \<Rightarrow> bool" where
  "RecordMessage_ok ord r \<longleftrightarrow> length (rm_Partition r) \<le> 255 \<and> length (rm_Key r) \<le> 65535 \<and> length (rm_Value r) \<le> MaxRecordSize \<and>
     map_ok ord (rm_Headers r)"

interpretation dafka: total_codec Dafka_Marshal
    "\<lambda>b. and_then (Dafka_Unmarshal b) (\<lambda>m. Ok (m\<lparr>dm_Signature := (dafka_ProtocolSignature1, dafka_ProtocolSignature2)\<rparr>))"
    "\<lambda>m. length (dm_Topic m) \<le> MaxTopicLength \<and> dm_Signature m = (dafka_ProtocolSignature1, dafka_ProtocolSignature2)"
proof
  fix m :: DafkaMessage and b
  assume ok: "length (dm_Topic m) \<le> MaxTopicLength \<and> dm_Signature m = (dafka_ProtocolSignature1, dafka_ProtocolSignature2)"
  then show "\<exists>b. Dafka_Marshal m = Ok b" by (simp add: Dafka_Marshal_def codec_simps)
  have len: "unat (of_nat (length (dm_Topic m)) :: byte) = length (dm_Topic m)"
    using ok by (intro unat_length_byte) (simp add: MaxTopicLength_def)
  assume "Dafka_Marshal m = Ok b"
  then have "b = [dafka_ProtocolSignature1, dafka_ProtocolSignature2, dm_Version m, dm_Type m] @ put_lp (dm_Topic m) @ dm_Body m"
    using ok by (simp add: Dafka_Marshal_def codec_simps)
  then show "and_then (Dafka_Unmarshal b) (\<lambda>m. Ok (m\<lparr>dm_Signature := (dafka_ProtocolSignature1, dafka_ProtocolSignature2)\<rparr>)) = Ok m"
    using ok len by (auto simp: Dafka_Unmarshal_def put_lp_def Let_def)
qed

interpretation store_hello: total_codec "StoreHello_Marshal ord" StoreHello_Unmarshal
    "\<lambda>s. length (sh_Address s) \<le> 255 \<and> map_ok ord (sh_Headers s)" for ord
proof
  fix s :: StoreHelloMessage and b assume ok: "length (sh_Address s) \<le> 255 \<and> map_ok ord (sh_Headers s)"
  then show "\<exists>b. StoreHello_Marshal ord s = Ok b" by (simp add: StoreHello_Marshal_def codec_simps)
  assume "StoreHello_Marshal ord s = Ok b"
  then show "StoreHello_Unmarshal b = Ok s"
    using ok readMap_put [of ord "sh_Headers s" _ "[]"] by (auto simp: StoreHello_Marshal_def StoreHello_Unmarshal_def codec_simps)
qed

interpretation consumer_hello: total_codec "ConsumerHello_Marshal ord" ConsumerHello_Unmarshal
    "\<lambda>s. length (ch_Address s) \<le> 255 \<and> map_ok ord (ch_Headers s)" for ord
proof
  fix s :: ConsumerHelloMessage and b assume ok: "length (ch_Address s) \<le> 255 \<and> map_ok ord (ch_Headers s)"
  then show "\<exists>b. ConsumerHello_Marshal ord s = Ok b" by (simp add: ConsumerHello_Marshal_def codec_simps)
  assume "ConsumerHello_Marshal ord s = Ok b"
  then show "ConsumerHello_Unmarshal b = Ok s"
    using ok readMap_put [of ord "ch_Headers s" _ "[]"] by (auto simp: ConsumerHello_Marshal_def ConsumerHello_Unmarshal_def codec_simps)
qed

interpretation record_msg: total_codec "RecordMessage_Marshal ord" RecordMessage_Unmarshal "RecordMessage_ok ord" for ord
proof
  fix r b assume ok: "RecordMessage_ok ord r"
  then show "\<exists>b. RecordMessage_Marshal ord r = Ok b"
    by (simp add: RecordMessage_Marshal_def RecordMessage_ok_def codec_simps)
  have sizes: "length (rm_Key r) < 256 ^ 2" "length (rm_Value r) < 256 ^ 4"
    using ok by (simp_all add: RecordMessage_ok_def MaxRecordSize_def)
  assume "RecordMessage_Marshal ord r = Ok b"
  then show "RecordMessage_Unmarshal b = Ok r"
    using ok readMap_put [of ord "rm_Headers r" _ "[]"] readBlock_put [OF _ sizes(1)] readBlock_put [OF _ sizes(2)]
    by (auto simp: RecordMessage_Marshal_def RecordMessage_ok_def RecordMessage_Unmarshal_def codec_simps)
qed

interpretation ack_msg: total_codec AckMessage_Marshal AckMessage_Unmarshal "\<lambda>a. length (am_Partition a) \<le> 255"
  by unfold_locales (use binary_Read_word(3) [where r = "[]"] in \<open>auto simp: AckMessage_Marshal_def AckMessage_Unmarshal_def codec_simps\<close>)

interpretation head_msg: total_codec HeadMessage_Marshal HeadMessage_Unmarshal "\<lambda>a. length (hm_Partition a) \<le> 255"
  by unfold_locales (use binary_Read_word(3) [where r = "[]"] in \<open>auto simp: HeadMessage_Marshal_def HeadMessage_Unmarshal_def codec_simps\<close>)

interpretation fetch_msg: total_codec FetchMessage_Marshal FetchMessage_Unmarshal "\<lambda>a. length (fm_Partition a) \<le> 255"
  by unfold_locales (use binary_Read_word(2) [where r = "[]"] in \<open>auto simp: FetchMessage_Marshal_def FetchMessage_Unmarshal_def codec_simps\<close>)

text \<open>
  Every Dafka message within its limits is marshalled, and unmarshals to itself: the envelope
  (whose signature field is not read back), the two HELLOs, RECORD and DIRECT-RECORD, ACK, HEAD,
  DIRECT-HEAD and FETCH, with any order of iteration over the headers.
\<close>

theorem dafka_roundtrip:
  "(length (dm_Topic m) \<le> MaxTopicLength \<longrightarrow>
     (\<exists>b. Dafka_Marshal m = Ok b \<and> Dafka_Unmarshal b = Ok (m\<lparr>dm_Signature := (0, 0)\<rparr>))) \<and>
   (length (sh_Address s) \<le> 255 \<and> map_ok ord (sh_Headers s) \<longrightarrow>
     (\<exists>b. StoreHello_Marshal ord s = Ok b \<and> StoreHello_Unmarshal b = Ok s)) \<and>
   (length (ch_Address c) \<le> 255 \<and> map_ok ord (ch_Headers c) \<longrightarrow>
     (\<exists>b. ConsumerHello_Marshal ord c = Ok b \<and> ConsumerHello_Unmarshal b = Ok c)) \<and>
   (RecordMessage_ok ord r \<longrightarrow> (\<exists>b. RecordMessage_Marshal ord r = Ok b \<and> RecordMessage_Unmarshal b = Ok r)) \<and>
   (length (am_Partition a) \<le> 255 \<longrightarrow> (\<exists>b. AckMessage_Marshal a = Ok b \<and> AckMessage_Unmarshal b = Ok a)) \<and>
   (length (hm_Partition h) \<le> 255 \<longrightarrow> (\<exists>b. HeadMessage_Marshal h = Ok b \<and> HeadMessage_Unmarshal b = Ok h)) \<and>
   (length (fm_Partition f) \<le> 255 \<longrightarrow> (\<exists>b. FetchMessage_Marshal f = Ok b \<and> FetchMessage_Unmarshal b = Ok f))"
proof -
  have "\<exists>b. Dafka_Marshal m = Ok b \<and> Dafka_Unmarshal b = Ok (m\<lparr>dm_Signature := (0, 0)\<rparr>)" if topic: "length (dm_Topic m) \<le> MaxTopicLength"
  proof -
    let ?m = "m\<lparr>dm_Signature := (dafka_ProtocolSignature1, dafka_ProtocolSignature2)\<rparr>"
    obtain b m' where b: "Dafka_Marshal ?m = Ok b" "Dafka_Unmarshal b = Ok m'"
      "m'\<lparr>dm_Signature := (dafka_ProtocolSignature1, dafka_ProtocolSignature2)\<rparr> = ?m"
      using dafka.roundtrip [of ?m] topic by auto
    have "Dafka_Marshal m = Ok b" using b(1) by (simp add: Dafka_Marshal_def)
    moreover have "dm_Signature m' = (0, 0)" using b(2) by (auto simp: Dafka_Unmarshal_def Let_def split: if_splits)
    then have "m' = m\<lparr>dm_Signature := (0, 0)\<rparr>" using b(3) by (cases m'; cases m) simp
    ultimately show ?thesis using b(2) by simp
  qed
  then show ?thesis
    using store_hello.roundtrip [of s ord] consumer_hello.roundtrip [of c ord] record_msg.roundtrip [of ord r]
      ack_msg.roundtrip [of a] head_msg.roundtrip [of h] fetch_msg.roundtrip [of f]
    by blast
qed

definition sample_record_msg :: RecordMessage where
  "sample_record_msg = \<lparr>rm_Partition = [112], rm_Offset = 7, rm_Key = [], rm_Value = [1, 2], rm_Headers = Map.empty\<rparr>"

theorem dafka_roundtrip_witness:
  "(\<exists>b. RecordMessage_Marshal (\<lambda>_. []) sample_record_msg = Ok b \<and> RecordMessage_Unmarshal b = Ok sample_record_msg) \<and>
   (\<exists>b. FetchMessage_Marshal \<lparr>fm_Partition = [112], fm_Offset = 7, fm_Count = 2\<rparr> = Ok b \<and>
      FetchMessage_Unmarshal b = Ok \<lparr>fm_Partition = [112], fm_Offset = 7, fm_Count = 2\<rparr>)"
proof -
  have "RecordMessage_ok (\<lambda>_. []) sample_record_msg"
    by (simp add: RecordMessage_ok_def sample_record_msg_def MaxRecordSize_def map_ok_def ord_ok_def)
  then show ?thesis
    using dafka_roundtrip [of _ _ "\<lambda>_. []" _ sample_record_msg _ _ "\<lparr>fm_Partition = [112], fm_Offset = 7, fm_Count = 2\<rparr>"] by simp
qed

text \<open>
  A subscription to a topic filters out every message of the topic: a SUB socket compares the
  topic with the first bytes of the message, and those are the protocol signature.
\<close>

theorem dafka_topic_filter_mismatch:
  "Dafka_Marshal m = Ok b \<Longrightarrow> topic \<noteq> [] \<Longrightarrow> hd topic \<noteq> dafka_ProtocolSignature1 \<Longrightarrow> take (length topic) b \<noteq> topic"
  by (cases topic) (auto simp: Dafka_Marshal_def)

end
