(* ===== verification/Dafka_Producer.thy ===== *)
theory Dafka_Producer
  imports Dafka_Message Run_Order
begin

text \<open>
  The producer of Dafka (\<^verbatim>\<open>dafka/producer.go\<close>): requests are numbered per topic, collected in a
  pending batch per topic, queued for publishing when the batch is full or old, and published
  record by record on the PUB socket. The goroutines \<^verbatim>\<open>recordLoop\<close>, \<^verbatim>\<open>flushLoop\<close>, \<^verbatim>\<open>commandLoop\<close>
  and \<^verbatim>\<open>batchLoop\<close> interleave; a step is a section under the mutex, so \<^verbatim>\<open>processProduceRequest\<close>
  is several steps and \<open>dp_pc\<close> says where it stands. Times are in nanoseconds.
\<close>

section \<open>Data\<close>

record RecordBatch =
  rb_Topic :: bytes
  rb_Partition :: bytes
  rb_Records :: "DafkaRecord list"
  rb_BaseOffset :: "64 word"
  rb_BatchSize :: int
  rb_Timestamp :: int

record TopicState =
  ts_Name :: bytes
  ts_NextOffset :: "64 word"
  ts_PendingBatch :: "RecordBatch option"
  ts_LastFlush :: int

record ProduceRequest =
  pq_Topic :: bytes
  pq_Key :: bytes
  pq_Value :: bytes
  pq_Headers :: "bytes \<rightharpoonup> bytes"
  pq_Timestamp :: int

datatype record_pc = Waiting | Responding DafkaRecord | Checking DafkaRecord | Flushing DafkaRecord | Counting DafkaRecord

record Producer =
  dp_uuid :: bytes
  dp_BatchSize :: int
  dp_LingerMs :: int
  dp_topics :: "bytes \<rightharpoonup> TopicState"
  dp_records :: "ProduceRequest list"
  dp_batches :: "RecordBatch list"
  dp_pc :: record_pc
  dp_out :: "bytes list"
  dp_RecordsProduced :: "64 word"
  dp_BytesProduced :: "64 word"
  dp_ProduceErrors :: "64 word"
  dp_MessagesOut :: "64 word"
  dp_BytesOut :: "64 word"

definition NewProducer :: "bytes \<Rightarrow> bytes \<Rightarrow> int \<Rightarrow> int \<Rightarrow> Producer" where
  "NewProducer generateUUID uuid batchSize lingerMs =
     \<lparr>dp_uuid = (if uuid = [] then generateUUID else uuid), dp_BatchSize = (if batchSize \<le> 0 then 100 else batchSize),
      dp_LingerMs = (if lingerMs \<le> 0 then 100 else lingerMs), dp_topics = Map.empty, dp_records = [], dp_batches = [], dp_pc = Waiting,
      dp_out = [], dp_RecordsProduced = 0, dp_BytesProduced = 0, dp_ProduceErrors = 0, dp_MessagesOut = 0, dp_BytesOut = 0\<rparr>"

section \<open>Operations\<close>

text \<open>\<^verbatim>\<open>Produce\<close> and \<^verbatim>\<open>ProduceAsync\<close> queue the request if there is room, and then wait for the response.\<close>

definition Produce_enqueue :: "ProduceRequest \<Rightarrow> Producer \<Rightarrow> unit result \<times> Producer" where
  "Produce_enqueue q p =
     (if length (dp_records p) < 10000 then (Ok (), p\<lparr>dp_records := dp_records p @ [q]\<rparr>)
      else (Err (Errorf ''producer queue full''), p))"

text \<open>The first section of \<^verbatim>\<open>processProduceRequest\<close>, under the lock: the offset is taken, the record joins the batch.\<close>

definition assign_request :: "int \<Rightarrow> ProduceRequest \<Rightarrow> Producer \<Rightarrow> Producer" where
  "assign_request now q p =
     (let topicState = (case dp_topics p (pq_Topic q) of
            Some ts \<Rightarrow> ts
          | None \<Rightarrow> \<lparr>ts_Name = pq_Topic q, ts_NextOffset = 0, ts_PendingBatch = None, ts_LastFlush = 0\<rparr>);
          record = \<lparr>r_Topic = pq_Topic q, r_Partition = dp_uuid p, r_Offset = ts_NextOffset topicState, r_Key = pq_Key q,
            r_Value = pq_Value q, r_Headers = pq_Headers q, r_Timestamp = pq_Timestamp q\<rparr>;
          batch = (case ts_PendingBatch topicState of
            Some b \<Rightarrow> b
          | None \<Rightarrow> \<lparr>rb_Topic = pq_Topic q, rb_Partition = dp_uuid p, rb_Records = [], rb_BaseOffset = r_Offset record,
              rb_BatchSize = 0, rb_Timestamp = now\<rparr>);
          batch = batch\<lparr>rb_Records := rb_Records batch @ [record], rb_BatchSize := rb_BatchSize batch + 1\<rparr> in
      p\<lparr>dp_topics := (dp_topics p)(pq_Topic q \<mapsto> topicState\<lparr>ts_NextOffset := ts_NextOffset topicState + 1, ts_PendingBatch := Some batch\<rparr>),
        dp_pc := Responding record\<rparr>)"

text \<open>The second section, under the read lock: \<^verbatim>\<open>topicState.PendingBatch.BatchSize\<close> of a nil batch panics.\<close>

definition check_batch :: "DafkaRecord \<Rightarrow> Producer \<Rightarrow> Producer result" where
  "check_batch record p =
     (case dp_topics p (r_Topic record) of
        None \<Rightarrow> Panic ''nil pointer dereference''
      | Some ts \<Rightarrow>
          (case ts_PendingBatch ts of
             None \<Rightarrow> Panic ''nil pointer dereference''
           | Some b \<Rightarrow> Ok (p\<lparr>dp_pc := (if rb_BatchSize b \<ge> dp_BatchSize p then Flushing record else Counting record)\<rparr>)))"

definition flushTopicBatchLocked :: "int \<Rightarrow> bytes \<Rightarrow> TopicState \<Rightarrow> Producer \<Rightarrow> Producer" where
  "flushTopicBatchLocked now topic ts p =
     (case ts_PendingBatch ts of
        None \<Rightarrow> p
      | Some b \<Rightarrow>
          if rb_Records b = [] then p
          else if length (dp_batches p) < 1000
            then p\<lparr>dp_batches := dp_batches p @ [b], dp_topics := (dp_topics p)(topic \<mapsto> ts\<lparr>ts_PendingBatch := None, ts_LastFlush := now\<rparr>)\<rparr>
          else p\<lparr>dp_ProduceErrors := dp_ProduceErrors p + 1\<rparr>)"

definition flushTopicBatch :: "int \<Rightarrow> bytes \<Rightarrow> Producer \<Rightarrow> Producer" where
  "flushTopicBatch now topic p =
     (case dp_topics p topic of
        None \<Rightarrow> p
      | Some ts \<Rightarrow> if ts_PendingBatch ts = None then p else flushTopicBatchLocked now topic ts p)"

text \<open>The last section: the statistics.\<close>

definition count_record :: "DafkaRecord \<Rightarrow> Producer \<Rightarrow> Producer" where
  "count_record record p = p\<lparr>dp_RecordsProduced := dp_RecordsProduced p + 1,
     dp_BytesProduced := dp_BytesProduced p + of_nat (length (r_Key record) + length (r_Value record)), dp_pc := Waiting\<rparr>"

text \<open>The loops over the topics, in the order \<open>keys\<close> in which \<^verbatim>\<open>range\<close> visits them.\<close>

definition flush_old :: "int \<Rightarrow> bytes \<Rightarrow> Producer \<Rightarrow> Producer" where
  "flush_old now topic p =
     (case dp_topics p topic of
        None \<Rightarrow> p
      | Some ts \<Rightarrow>
          (case ts_PendingBatch ts of
             None \<Rightarrow> p
           | Some b \<Rightarrow> if now - rb_Timestamp b > dp_LingerMs p * 1000000 then flushTopicBatchLocked now topic ts p else p))"

definition flushPendingBatches :: "int \<Rightarrow> bytes list \<Rightarrow> Producer \<Rightarrow> Producer" where
  "flushPendingBatches now keys p = fold (flush_old now) keys p"

definition flushAllBatches :: "int \<Rightarrow> bytes list \<Rightarrow> Producer \<Rightarrow> Producer" where
  "flushAllBatches now keys p = fold (flushTopicBatch now) keys p"

text \<open>\<open>send\<close> is what the PUB socket reports for the message of a record.\<close>

definition publish_record :: "key_order \<Rightarrow> (DafkaRecord \<Rightarrow> go_error option) \<Rightarrow> DafkaRecord \<Rightarrow> Producer \<Rightarrow> Producer" where
  "publish_record ord send record p =
     (case and_then (CreateRecordMessage ord (r_Topic record) record) Dafka_Marshal of
        Ok data \<Rightarrow>
          (case send record of
             Some e \<Rightarrow> p\<lparr>dp_ProduceErrors := dp_ProduceErrors p + 1\<rparr>
           | None \<Rightarrow> p\<lparr>dp_out := dp_out p @ [data], dp_MessagesOut := dp_MessagesOut p + 1,
               dp_BytesOut := dp_BytesOut p + of_nat (length data)\<rparr>)
      | _ \<Rightarrow> p\<lparr>dp_ProduceErrors := dp_ProduceErrors p + 1\<rparr>)"

definition publishBatch :: "key_order \<Rightarrow> (DafkaRecord \<Rightarrow> go_error option) \<Rightarrow> RecordBatch \<Rightarrow> Producer \<Rightarrow> Producer" where
  "publishBatch ord send b p = fold (publish_record ord send) (rb_Records b) p"

text \<open>
  \<^verbatim>\<open>processProduceRequest\<close> when nothing comes between its sections, for a request that heads the
  queue: the response, and the producer afterwards.
\<close>

definition processProduceRequest :: "int \<Rightarrow> Producer \<Rightarrow> (64 word \<times> Producer) result" where
  "processProduceRequest now p =
     (case dp_records p of
        [] \<Rightarrow> Err (Errorf ''no request'')
      | q # qs \<Rightarrow>
          let p1 = assign_request now q (p\<lparr>dp_records := qs\<rparr>) in
          (case dp_pc p1 of
             Responding record \<Rightarrow>
               and_then (check_batch record p1) (\<lambda>p2.
                 let p3 = (if dp_pc p2 = Flushing record then flushTopicBatch now (r_Topic record) p2 else p2) in
                 Ok (r_Offset record, count_record record p3))
           | _ \<Rightarrow> Err (Errorf ''no request'')))"

section \<open>Runs\<close>

text \<open>
  The interleavings of the goroutines. Beside the state: the requests taken from the queue, the
  offsets of the responses sent, and the batches taken for publishing.
\<close>

inductive producing :: "key_order \<Rightarrow> Producer \<Rightarrow> ProduceRequest list \<Rightarrow> 64 word list \<Rightarrow> RecordBatch list \<Rightarrow> Producer \<Rightarrow> bool" for ord p0 where
  start: "producing ord p0 [] [] [] p0"
| produce: "producing ord p0 qs os bs p'" if "producing ord p0 qs os bs p" "Produce_enqueue q p = (res, p')"
| assign: "producing ord p0 (qs @ [q]) os bs (assign_request now q (p\<lparr>dp_records := rest\<rparr>))"
    if "producing ord p0 qs os bs p" "dp_pc p = Waiting" "dp_records p = q # rest"
| respond: "producing ord p0 qs (os @ [r_Offset record]) bs (p\<lparr>dp_pc := Checking record\<rparr>)"
    if "producing ord p0 qs os bs p" "dp_pc p = Responding record"
| check: "producing ord p0 qs os bs p'" if "producing ord p0 qs os bs p" "dp_pc p = Checking record" "check_batch record p = Ok p'"
| flush: "producing ord p0 qs os bs ((flushTopicBatch now (r_Topic record) p)\<lparr>dp_pc := Counting record\<rparr>)"
    if "producing ord p0 qs os bs p" "dp_pc p = Flushing record"
| count: "producing ord p0 qs os bs (count_record record p)" if "producing ord p0 qs os bs p" "dp_pc p = Counting record"
| linger: "producing ord p0 qs os bs (flushPendingBatches now keys p)" if "producing ord p0 qs os bs p"
| flush_all: "producing ord p0 qs os bs (flushAllBatches now keys p)" if "producing ord p0 qs os bs p"
| publish: "producing ord p0 qs os (bs @ [b]) (publishBatch ord send b (p\<lparr>dp_batches := rest\<rparr>))"
    if "producing ord p0 qs os bs p" "dp_batches p = b # rest"

section \<open>What a run should have done\<close>

definition to_topic :: "bytes \<Rightarrow> ProduceRequest list \<Rightarrow> ProduceRequest list" where
  "to_topic t = filter (\<lambda>q. pq_Topic q = t)"

text \<open>The records of the requests to one topic, numbered from \<open>n\<close>.\<close>

fun number :: "bytes \<Rightarrow> 64 word \<Rightarrow> ProduceRequest list \<Rightarrow> DafkaRecord list" where
  "number uuid n [] = []"
| "number uuid n (q # qs) =
     \<lparr>r_Topic = pq_Topic q, r_Partition = uuid, r_Offset = n, r_Key = pq_Key q, r_Value = pq_Value q, r_Headers = pq_Headers q,
      r_Timestamp = pq_Timestamp q\<rparr> # number uuid (n + 1) qs"

text \<open>The offsets the responses should carry: the number of earlier requests to the same topic.\<close>

definition answers :: "ProduceRequest list \<Rightarrow> 64 word list" where
  "answers qs = map (\<lambda>i. of_nat (length (to_topic (pq_Topic (qs ! i)) (take i qs)))) [0..<length qs]"

definition batch_records :: "bytes \<Rightarrow> RecordBatch list \<Rightarrow> DafkaRecord list" where
  "batch_records t bs = concat (map rb_Records (filter (\<lambda>b. rb_Topic b = t) bs))"

definition pending_records :: "bytes \<Rightarrow> Producer \<Rightarrow> DafkaRecord list" where
  "pending_records t p = (case dp_topics p t of
     None \<Rightarrow> []
   | Some ts \<Rightarrow> (case ts_PendingBatch ts of None \<Rightarrow> [] | Some b \<Rightarrow> rb_Records b))"

definition batch_ok :: "bytes \<Rightarrow> bytes \<Rightarrow> RecordBatch \<Rightarrow> bool" where
  "batch_ok uuid t b \<longleftrightarrow> rb_Topic b = t \<and> rb_Partition b = uuid \<and> rb_Records b \<noteq> [] \<and> rb_BatchSize b = int (length (rb_Records b)) \<and>
     rb_BaseOffset b = r_Offset (hd (rb_Records b))"

fun topic_ok :: "bytes \<Rightarrow> bytes \<Rightarrow> nat \<Rightarrow> TopicState option \<Rightarrow> bool" where
  "topic_ok uuid t n None \<longleftrightarrow> n = 0"
| "topic_ok uuid t n (Some ts) \<longleftrightarrow> ts_NextOffset ts = of_nat n \<and> (\<forall>b. ts_PendingBatch ts = Some b \<longrightarrow> batch_ok uuid t b)"

definition producer_inv :: "bytes \<Rightarrow> ProduceRequest list \<Rightarrow> RecordBatch list \<Rightarrow> Producer \<Rightarrow> bool" where
  "producer_inv uuid qs bs p \<longleftrightarrow> dp_uuid p = uuid \<and>
     (\<forall>t. batch_records t (bs @ dp_batches p) @ pending_records t p = number uuid 0 (to_topic t qs)) \<and>
     (\<forall>t. topic_ok uuid t (length (to_topic t qs)) (dp_topics p t)) \<and>
     (\<forall>b \<in> set (bs @ dp_batches p). batch_ok uuid (rb_Topic b) b)"

section \<open>Lemmas\<close>

lemma number_snoc:
  "number uuid n (qs @ [q]) = number uuid n qs @
     [\<lparr>r_Topic = pq_Topic q, r_Partition = uuid, r_Offset = n + of_nat (length qs), r_Key = pq_Key q, r_Value = pq_Value q,
       r_Headers = pq_Headers q, r_Timestamp = pq_Timestamp q\<rparr>]"
  by (induction qs arbitrary: n) (simp_all add: algebra_simps)

lemma length_number [simp]: "length (number uuid n qs) = length qs"
  by (induction qs arbitrary: n) simp_all

lemma number_nth: "i < length qs \<Longrightarrow> r_Offset (number uuid n qs ! i) = n + of_nat i \<and> r_Partition (number uuid n qs ! i) = uuid \<and>
    r_Topic (number uuid n qs ! i) = pq_Topic (qs ! i)"
  by (induction qs arbitrary: n i) (auto simp: nth_Cons algebra_simps split: nat.split)

lemma to_topic_snoc: "to_topic t (qs @ [q]) = to_topic t qs @ (if pq_Topic q = t then [q] else [])"
  by (simp add: to_topic_def)

lemma answers_snoc: "answers (qs @ [q]) = answers qs @ [of_nat (length (to_topic (pq_Topic q) qs))]"
  by (auto simp: answers_def nth_append)

lemma batch_records_append: "batch_records t (bs @ cs) = batch_records t bs @ batch_records t cs"
  by (simp add: batch_records_def)

lemma producer_inv_cong:
  assumes "producer_inv uuid qs bs p" "dp_uuid p' = dp_uuid p" "dp_topics p' = dp_topics p" "dp_batches p' = dp_batches p"
  shows "producer_inv uuid qs bs p'"
  using assms by (simp add: producer_inv_def pending_records_def)

lemma producer_inv_topic: "producer_inv uuid qs bs p \<Longrightarrow> topic_ok uuid t (length (to_topic t qs)) (dp_topics p t)"
  by (simp add: producer_inv_def)

lemma flush_locked_inv:
  assumes "producer_inv uuid qs bs p" "dp_topics p topic = Some ts"
  shows "producer_inv uuid qs bs (flushTopicBatchLocked now topic ts p)"
proof (cases "ts_PendingBatch ts")
  case None
  then show ?thesis using assms(1) by (simp add: flushTopicBatchLocked_def)
next
  case (Some b)
  have ok: "batch_ok uuid topic b" using producer_inv_topic [OF assms(1), of topic] assms(2) Some by simp
  let ?p = "p\<lparr>dp_batches := dp_batches p @ [b], dp_topics := (dp_topics p)(topic \<mapsto> ts\<lparr>ts_PendingBatch := None, ts_LastFlush := now\<rparr>)\<rparr>"
  have "batch_records t (bs @ dp_batches ?p) @ pending_records t ?p = batch_records t (bs @ dp_batches p) @ pending_records t p" for t
    using ok Some assms(2) by (auto simp: batch_records_def pending_records_def batch_ok_def)
  moreover have "topic_ok uuid t (length (to_topic t qs)) (dp_topics ?p t)" for t
    using producer_inv_topic [OF assms(1), of t] assms(2) by (cases "t = topic") simp_all
  moreover have "batch_ok uuid (rb_Topic b) b" using ok by (simp add: batch_ok_def)
  ultimately have "producer_inv uuid qs bs ?p" using assms(1) unfolding producer_inv_def by simp
  then show ?thesis
    using Some assms(1) producer_inv_cong by (fastforce simp: flushTopicBatchLocked_def)
qed

lemma flush_topic_inv: "producer_inv uuid qs bs p \<Longrightarrow> producer_inv uuid qs bs (flushTopicBatch now topic p)"
  by (auto simp: flushTopicBatch_def flush_locked_inv split: option.split)

lemma flush_old_inv: "producer_inv uuid qs bs p \<Longrightarrow> producer_inv uuid qs bs (flush_old now topic p)"
  by (auto simp: flush_old_def flush_locked_inv split: option.split)

lemma fold_inv: "(\<And>x p. P p \<Longrightarrow> P (f x p)) \<Longrightarrow> P p \<Longrightarrow> P (fold f xs p)"
  by (induction xs arbitrary: p) simp_all

lemma publish_frame:
  "dp_uuid (publishBatch ord send b p) = dp_uuid p" "dp_topics (publishBatch ord send b p) = dp_topics p"
  "dp_batches (publishBatch ord send b p) = dp_batches p" "dp_pc (publishBatch ord send b p) = dp_pc p"
proof -
  define P where "P p' \<longleftrightarrow> dp_uuid p' = dp_uuid p \<and> dp_topics p' = dp_topics p \<and> dp_batches p' = dp_batches p \<and> dp_pc p' = dp_pc p" for p' :: Producer
  have "P (publishBatch ord send b p)"
    unfolding publishBatch_def
    by (rule fold_inv) (auto simp: P_def publish_record_def split: result.split option.split)
  then show "dp_uuid (publishBatch ord send b p) = dp_uuid p" "dp_topics (publishBatch ord send b p) = dp_topics p"
    "dp_batches (publishBatch ord send b p) = dp_batches p" "dp_pc (publishBatch ord send b p) = dp_pc p"
    by (simp_all add: P_def)
qed

lemma flush_pc:
  "dp_pc (flushTopicBatch now topic p) = dp_pc p" "dp_pc (flush_old now topic p) = dp_pc p"
  by (auto simp: flushTopicBatch_def flush_old_def flushTopicBatchLocked_def split: option.split)

lemma assign_inv:
  assumes inv: "producer_inv uuid qs bs p"
  shows "producer_inv uuid (qs @ [q]) bs (assign_request now q p) \<and>
    (\<exists>record. dp_pc (assign_request now q p) = Responding record \<and> r_Offset record = of_nat (length (to_topic (pq_Topic q) qs)) \<and>
       r_Topic record = pq_Topic q)"
proof -
  let ?t = "pq_Topic q" and ?n = "of_nat (length (to_topic (pq_Topic q) qs)) :: 64 word"
  let ?r = "\<lparr>r_Topic = ?t, r_Partition = uuid, r_Offset = ?n, r_Key = pq_Key q, r_Value = pq_Value q, r_Headers = pq_Headers q,
    r_Timestamp = pq_Timestamp q\<rparr>"
  have uuid: "dp_uuid p = uuid" using inv by (simp add: producer_inv_def)
  obtain ts where ts: "(case dp_topics p ?t of Some ts \<Rightarrow> ts
      | None \<Rightarrow> \<lparr>ts_Name = ?t, ts_NextOffset = 0, ts_PendingBatch = None, ts_LastFlush = 0\<rparr>) = ts" by blast
  have n: "ts_NextOffset ts = ?n"
    using ts producer_inv_topic [OF inv, of ?t] by (cases "dp_topics p ?t") auto
  obtain b where b: "(case ts_PendingBatch ts of Some b \<Rightarrow> b
      | None \<Rightarrow> \<lparr>rb_Topic = ?t, rb_Partition = uuid, rb_Records = [], rb_BaseOffset = ?n, rb_BatchSize = 0, rb_Timestamp = now\<rparr>) = b" by blast
  have pend: "pending_records ?t p = rb_Records b"
    using ts b by (auto simp: pending_records_def split: option.splits)
  let ?b = "b\<lparr>rb_Records := rb_Records b @ [?r], rb_BatchSize := rb_BatchSize b + 1\<rparr>"
  have ok: "batch_ok uuid ?t ?b"
  proof (cases "ts_PendingBatch ts")
    case None
    then show ?thesis using b by (auto simp: batch_ok_def)
  next
    case (Some b')
    then have "dp_topics p ?t = Some ts" using ts by (auto split: option.splits)
    then have "batch_ok uuid ?t b" using producer_inv_topic [OF inv, of ?t] Some b by simp
    then show ?thesis by (simp add: batch_ok_def)
  qed
  let ?p = "p\<lparr>dp_topics := (dp_topics p)(?t \<mapsto> ts\<lparr>ts_NextOffset := ?n + 1, ts_PendingBatch := Some ?b\<rparr>), dp_pc := Responding ?r\<rparr>"
  have p: "assign_request now q p = ?p" by (cases "ts_PendingBatch ts") (use b in \<open>auto simp: assign_request_def Let_def ts n uuid\<close>)
  have "batch_records t (bs @ dp_batches ?p) @ pending_records t ?p = number uuid 0 (to_topic t (qs @ [q]))" for t
  proof -
    have old: "batch_records t (bs @ dp_batches p) @ pending_records t p = number uuid 0 (to_topic t qs)"
      using inv by (simp add: producer_inv_def)
    have "pending_records t ?p = pending_records t p @ (if ?t = t then [?r] else [])"
      using pend by (auto simp: pending_records_def)
    then have "batch_records t (bs @ dp_batches ?p) @ pending_records t ?p =
        (batch_records t (bs @ dp_batches p) @ pending_records t p) @ (if ?t = t then [?r] else [])" by simp
    then show ?thesis unfolding old by (auto simp: to_topic_snoc number_snoc)
  qed
  moreover have "topic_ok uuid t (length (to_topic t (qs @ [q]))) (dp_topics ?p t)" for t
    using ok producer_inv_topic [OF inv, of t] by (cases "t = ?t") (simp_all add: to_topic_snoc)
  ultimately have "producer_inv uuid (qs @ [q]) bs ?p" using inv unfolding producer_inv_def by simp
  then show ?thesis by (simp add: p)
qed

text \<open>What is sent on the PUB socket.\<close>

definition encode_record :: "key_order \<Rightarrow> DafkaRecord \<Rightarrow> bytes result" where
  "encode_record ord r = and_then (CreateRecordMessage ord (r_Topic r) r) Dafka_Marshal"

definition sent_from :: "key_order \<Rightarrow> DafkaRecord list \<Rightarrow> bytes list \<Rightarrow> bool" where
  "sent_from ord rs out \<longleftrightarrow> (\<exists>ss. subseq ss rs \<and> list_all2 (\<lambda>m r. encode_record ord r = Ok m) out ss)"

lemma sent_from_snoc:
  assumes "sent_from ord rs out"
  shows "sent_from ord (rs @ [r]) out" "encode_record ord r = Ok m \<Longrightarrow> sent_from ord (rs @ [r]) (out @ [m])"
proof -
  obtain ss where ss: "subseq ss rs" "list_all2 (\<lambda>m r. encode_record ord r = Ok m) out ss" using assms by (auto simp: sent_from_def)
  then show "sent_from ord (rs @ [r]) out" unfolding sent_from_def using subseq_order.order_trans [OF ss(1)] by blast
  assume "encode_record ord r = Ok m"
  then show "sent_from ord (rs @ [r]) (out @ [m])"
    unfolding sent_from_def using ss by (intro exI [of _ "ss @ [r]"]) (simp add: list_all2_appendI)
qed

lemma publish_record_out:
  "dp_out (publish_record ord send r p) = dp_out p @ (case encode_record ord r of Ok m \<Rightarrow> if send r = None then [m] else [] | _ \<Rightarrow> [])"
  by (auto simp: publish_record_def encode_record_def split: result.split option.split)

lemma publish_sent:
  assumes "sent_from ord rs (dp_out p)"
  shows "sent_from ord (rs @ rb_Records b) (dp_out (publishBatch ord send b p))"
proof -
  have "sent_from ord (rs @ xs) (dp_out (fold (publish_record ord send) xs p))" for xs
  proof (induction xs rule: rev_induct)
    case (snoc r xs)
    then show ?case
      using sent_from_snoc [OF snoc, of r]
      by (cases "encode_record ord r"; cases "send r") (simp_all add: publish_record_out)
  qed (use assms in simp)
  then show ?thesis by (simp add: publishBatch_def)
qed

lemma flush_out:
  "dp_out (flushTopicBatch now topic p) = dp_out p" "dp_out (flush_old now topic p) = dp_out p"
  by (auto simp: flushTopicBatch_def flush_old_def flushTopicBatchLocked_def split: option.split)

lemma fold_flush_out:
  "dp_out (flushPendingBatches now keys p) = dp_out p" "dp_out (flushAllBatches now keys p) = dp_out p"
  unfolding flushPendingBatches_def flushAllBatches_def
  by (rule fold_inv [where P = "\<lambda>p'. dp_out p' = dp_out p"], simp_all add: flush_out)+

lemma producing_sent:
  assumes "producing ord p0 qs os bs p" "dp_out p0 = []"
  shows "sent_from ord (concat (map rb_Records bs)) (dp_out p)"
  using assms(1)
proof (induction rule: producing.induct)
  case start
  show ?case using assms(2) by (simp add: sent_from_def)
next
  case (produce qs os bs p q res p')
  then show ?case by (auto simp: Produce_enqueue_def split: if_splits)
next
  case (publish qs os bs p b rest send)
  then show ?case using publish_sent [of ord _ "p\<lparr>dp_batches := rest\<rparr>" b send] by simp
qed (auto simp: assign_request_def Let_def check_batch_def count_record_def flush_out fold_flush_out split: option.splits)

section \<open>Theorems\<close>

definition answered :: "ProduceRequest list \<Rightarrow> 64 word list \<Rightarrow> Producer \<Rightarrow> bool" where
  "answered qs os p \<longleftrightarrow> (case dp_pc p of Responding record \<Rightarrow> os @ [r_Offset record] | _ \<Rightarrow> os) = answers qs"

lemma fold_flush_pc:
  "dp_pc (flushPendingBatches now keys p) = dp_pc p" "dp_pc (flushAllBatches now keys p) = dp_pc p"
  unfolding flushPendingBatches_def flushAllBatches_def
  by (rule fold_inv [where P = "\<lambda>p'. dp_pc p' = dp_pc p"], simp_all add: flush_pc)+

lemma fold_flush_inv:
  assumes "producer_inv uuid qs bs p"
  shows "producer_inv uuid qs bs (flushPendingBatches now keys p)" "producer_inv uuid qs bs (flushAllBatches now keys p)"
  using assms unfolding flushPendingBatches_def flushAllBatches_def
  by (auto intro: fold_inv [where P = "producer_inv uuid qs bs"] flush_old_inv flush_topic_inv)

lemma producing_inv:
  assumes "producing ord p0 qs os bs p" "producer_inv u [] [] p0" "dp_pc p0 = Waiting"
  shows "producer_inv u qs bs p \<and> answered qs os p"
  using assms(1)
proof (induction rule: producing.induct)
  case start
  show ?case using assms(2,3) by (simp add: answered_def answers_def)
next
  case (produce qs os bs p q res p')
  then have p': "p' = p\<lparr>dp_records := dp_records p @ [q]\<rparr> \<or> p' = p" by (auto simp: Produce_enqueue_def split: if_splits)
  then have "producer_inv u qs bs p'" using produce.IH by (elim disjE) (auto intro: producer_inv_cong)
  then show ?case using produce.IH p' by (auto simp: answered_def)
next
  case (assign qs os bs p q rest now)
  have "producer_inv u qs bs (p\<lparr>dp_records := rest\<rparr>)"
    using assign.IH by (auto intro: producer_inv_cong)
  from assign_inv [OF this, of q now] show ?case
    using assign.IH assign.hyps by (auto simp: answered_def answers_snoc)
next
  case (respond qs os bs p r)
  then show ?case by (auto simp: answered_def intro: producer_inv_cong)
next
  case (check qs os bs p r p')
  then obtain pc where "p' = p\<lparr>dp_pc := pc\<rparr>" "pc = Flushing r \<or> pc = Counting r"
    by (auto simp: check_batch_def split: option.splits if_splits)
  then show ?case using check by (auto simp: answered_def intro: producer_inv_cong)
next
  case (flush qs os bs p r now)
  then show ?case by (auto simp: answered_def flush_pc intro: producer_inv_cong [OF flush_topic_inv])
next
  case (count qs os bs p r)
  then show ?case by (auto simp: answered_def count_record_def intro: producer_inv_cong)
next
  case (linger qs os bs p now keys)
  then show ?case by (simp add: answered_def fold_flush_pc fold_flush_inv)
next
  case (flush_all qs os bs p now keys)
  then show ?case by (simp add: answered_def fold_flush_pc fold_flush_inv)
next
  case (publish qs os bs p b rest send)
  let ?p = "publishBatch ord send b (p\<lparr>dp_batches := rest\<rparr>)"
  have "pending_records t ?p = pending_records t p" for t by (simp add: pending_records_def publish_frame)
  then show ?case using publish by (simp add: producer_inv_def publish_frame answered_def)
qed

lemma NewProducer_inv:
  "producer_inv (if uuid = [] then gen else uuid) [] [] (NewProducer gen uuid batchSize lingerMs)"
  "dp_pc (NewProducer gen uuid batchSize lingerMs) = Waiting"
  by (simp_all add: producer_inv_def NewProducer_def batch_records_def pending_records_def to_topic_def)

text \<open>
  C16: The producer loses, repeats and reorders nothing. In every interleaving of its goroutines, the
  batches taken for publishing, the batches queued and the pending batch hold together, topic by
  topic, the records of the requests taken from the queue, in the order of the requests and with
  the offsets 0, 1, 2 and so on; every request was answered, in order, with its offset; and the PUB
  socket was given the messages of a subsequence of the records taken for publishing, in order.
\<close>

theorem producer_numbers_records:
  assumes "producing ord (NewProducer gen uuid batchSize lingerMs) qs os bs p"
  shows "batch_records t (bs @ dp_batches p) @ pending_records t p = number (if uuid = [] then gen else uuid) 0 (to_topic t qs) \<and>
    (dp_pc p = Waiting \<longrightarrow> os = answers qs) \<and> sent_from ord (concat (map rb_Records bs)) (dp_out p)"
  using producing_inv [OF assms NewProducer_inv] producing_sent [OF assms] by (auto simp: producer_inv_def answered_def NewProducer_def)

text \<open>A run of a producer with batches of two records: the second request fills the batch, which is published.\<close>

definition dafka_request :: "string \<Rightarrow> ProduceRequest" where
  "dafka_request key = \<lparr>pq_Topic = str ''t'', pq_Key = str key, pq_Value = str ''value'', pq_Headers = Map.empty, pq_Timestamp = 3\<rparr>"

lemma processProduceRequest_run:
  assumes p: "producing ord p0 qs os bs p" "dp_pc p = Waiting" "dp_records p = q # rest"
    and run: "processProduceRequest now p = Ok (offset, p')"
  shows "producing ord p0 (qs @ [q]) (os @ [offset]) bs p' \<and> dp_pc p' = Waiting"
proof -
  let ?p1 = "assign_request now q (p\<lparr>dp_records := rest\<rparr>)"
  have p1: "producing ord p0 (qs @ [q]) os bs ?p1" using p by (rule producing.assign)
  obtain r where r: "dp_pc ?p1 = Responding r" by (auto simp: assign_request_def Let_def)
  obtain p2 where p2: "check_batch r ?p1 = Ok p2" "offset = r_Offset r"
    "p' = count_record r (if dp_pc p2 = Flushing r then flushTopicBatch now (r_Topic r) p2 else p2)"
    using run p(3) r by (auto simp: processProduceRequest_def Let_def)
  have "check_batch r (?p1\<lparr>dp_pc := Checking r\<rparr>) = Ok p2" "dp_pc p2 = Flushing r \<or> dp_pc p2 = Counting r"
    using p2(1) by (auto simp: check_batch_def split: option.splits if_splits)
  note checked = producing.check [OF producing.respond [OF p1 r] _ this(1)] this(2)
  show ?thesis
  proof (cases "dp_pc p2 = Flushing r")
    case True
    from producing.count [OF producing.flush [OF checked(1) True]] show ?thesis
      using True p2 by (simp add: count_record_def)
  next
    case False
    then show ?thesis using producing.count [OF checked(1)] checked(2) p2 by (simp add: count_record_def)
  qed
qed

lemmas producer_eval = processProduceRequest_def Let_def assign_request_def NewProducer_def dafka_request_def check_batch_def
  flushTopicBatch_def flushTopicBatchLocked_def count_record_def

lemma sample_producer_run:
  "\<exists>p b. producing (\<lambda>_. []) (NewProducer [] (str ''u'') 2 100) [dafka_request ''a'', dafka_request ''b''] [0, 1] [b] p \<and>
     dp_pc p = Waiting \<and> dp_batches p = [] \<and> pending_records (str ''t'') p = [] \<and> length (dp_out p) = 2 \<and> rb_Topic b = str ''t''"
proof -
  let ?p0 = "NewProducer [] (str ''u'') 2 100" and ?q = "dafka_request ''a''" and ?q' = "dafka_request ''b''"
  have "producing (\<lambda>_. []) ?p0 [] [] [] (?p0\<lparr>dp_records := [?q]\<rparr>)"
    using producing.produce [OF producing.start, where q = ?q] by (simp add: Produce_enqueue_def NewProducer_def)
  from producing.produce [OF this, where q = ?q'] have q: "producing (\<lambda>_. []) ?p0 [] [] [] (?p0\<lparr>dp_records := [?q, ?q']\<rparr>)"
    by (simp add: Produce_enqueue_def)
  obtain p1 p2 b where p12: "processProduceRequest 5 (?p0\<lparr>dp_records := [?q, ?q']\<rparr>) = Ok (0, p1)" "dp_records p1 = [?q']"
    "processProduceRequest 6 p1 = Ok (1, p2)" "dp_batches p2 = [b]" "length (rb_Records b) = 2" "dp_out p2 = []"
    "pending_records (str ''t'') p2 = []" "rb_Topic b = str ''t''" "rb_Records b = number (str ''u'') 0 [?q, ?q']"
    by (simp add: producer_eval pending_records_def)
  have "producing (\<lambda>_. []) ?p0 [?q] [0] [] p1 \<and> dp_pc p1 = Waiting"
    using processProduceRequest_run [OF q _ _ p12(1)] by (simp add: NewProducer_def)
  then have "producing (\<lambda>_. []) ?p0 [?q, ?q'] [0, 1] [] p2 \<and> dp_pc p2 = Waiting"
    using processProduceRequest_run [OF _ _ p12(2,3)] by fastforce
  from producing.publish [OF conjunct1 [OF this], of b "[]" "\<lambda>_. None"]
  have run: "producing (\<lambda>_. []) ?p0 [?q, ?q'] [0, 1] [b] (publishBatch (\<lambda>_. []) (\<lambda>_. None) b (p2\<lparr>dp_batches := []\<rparr>))"
    using p12(4) by simp
  have enc: "\<exists>m. encode_record (\<lambda>_. []) r = Ok m" if "r \<in> set (number (str ''u'') 0 [?q, ?q'])" for r
    using that by (auto simp: encode_record_def CreateRecordMessage_def dafka_message_def RecordMessage_Marshal_def Dafka_Marshal_def
      writeString_def writeBlock_def writeMap_def Let_def dafka_request_def wire_simps entries_def map_filter_simps MaxRecordSize_def MaxTopicLength_def)
  have "length (dp_out (fold (publish_record (\<lambda>_. []) (\<lambda>_. None)) rs p)) = length (dp_out p) + length rs"
    if "\<forall>r \<in> set rs. \<exists>m. encode_record (\<lambda>_. []) r = Ok m" for rs p
    using that by (induction rs arbitrary: p) (auto simp: publish_record_out)
  from this [of "rb_Records b" "p2\<lparr>dp_batches := []\<rparr>"]
  have "length (dp_out (publishBatch (\<lambda>_. []) (\<lambda>_. None) b (p2\<lparr>dp_batches := []\<rparr>))) = 2"
    using enc p12(5,6,9) by (simp add: publishBatch_def)
  moreover have "pending_records (str ''t'') (publishBatch (\<lambda>_. []) (\<lambda>_. None) b (p2\<lparr>dp_batches := []\<rparr>)) = []"
    using p12(7) by (simp add: pending_records_def publish_frame)
  ultimately show ?thesis
    using run p12(8) \<open>_ \<and> dp_pc p2 = Waiting\<close> by (intro exI conjI) (simp_all add: publish_frame)
qed

theorem producer_numbers_records_witness:
  "\<exists>p b. batch_records (str ''t'') ([b] @ dp_batches p) @ pending_records (str ''t'') p =
     number (str ''u'') 0 (to_topic (str ''t'') [dafka_request ''a'', dafka_request ''b'']) \<and> length (dp_out p) = 2"
proof -
  obtain p b where p: "producing (\<lambda>_. []) (NewProducer [] (str ''u'') 2 100) [dafka_request ''a'', dafka_request ''b''] [0, 1] [b] p"
    "length (dp_out p) = 2"
    using sample_producer_run by blast
  show ?thesis using producer_numbers_records [OF p(1), of "str ''t''"] p(2) by (auto simp: wire_simps)
qed

text \<open>
  The section that checks the size of the batch assumes that the batch is still there: when the
  flush loop queues the batch after the response was sent, the producer panics.
\<close>

lemma flush_race_panics:
  "\<exists>qs os bs p r. producing ord (NewProducer gen uuid batchSize lingerMs) qs os bs p \<and> dp_pc p = Checking r \<and>
     (\<exists>m. check_batch r p = Panic m)"
proof -
  let ?p0 = "NewProducer gen uuid batchSize lingerMs" and ?q = "dafka_request ''a''"
  let ?p1 = "assign_request 0 ?q ?p0"
  have "producing ord ?p0 [] [] [] (?p0\<lparr>dp_records := [?q]\<rparr>)"
    using producing.produce [OF producing.start, where q = ?q] by (simp add: Produce_enqueue_def NewProducer_def)
  from producing.assign [OF this, of ?q "[]" 0]
  have "producing ord ?p0 [?q] [] [] ?p1" by (simp add: NewProducer_def)
  moreover obtain r where r: "dp_pc ?p1 = Responding r" "r_Topic r = pq_Topic ?q" by (simp add: assign_request_def Let_def)
  ultimately have "producing ord ?p0 [?q] [r_Offset r] [] (?p1\<lparr>dp_pc := Checking r\<rparr>)" using producing.respond by fastforce
  note run = producing.linger [OF this, of "dp_LingerMs ?p0 * 1000000 + 1" "[pq_Topic ?q]"]
  let ?p = "flushPendingBatches (dp_LingerMs ?p0 * 1000000 + 1) [pq_Topic ?q] (?p1\<lparr>dp_pc := Checking r\<rparr>)"
  have "dp_pc ?p = Checking r" by (simp add: fold_flush_pc)
  moreover have "check_batch r ?p = Panic ''nil pointer dereference''"
    using r(2) by (simp add: flushPendingBatches_def flush_old_def flushTopicBatchLocked_def check_batch_def assign_request_def Let_def NewProducer_def)
  ultimately show ?thesis using run by blast
qed

end
