(* ===== verification/Dafka_Store.thy ===== *)
theory Dafka_Store
  imports Dafka_Message
begin

text \<open>
  The store of Dafka (\<^verbatim>\<open>dafka/store.go\<close>): one log file per partition, to which records are appended,
  with an index from offsets to file positions that is rebuilt from the file when the partition
  is opened. The disk is a map from cleaned paths to contents, shared by all partitions, so that two
  partitions with one path alias: topics \<open>t\<close> and \<open>./t\<close> do. Opening a file and seeking in it may be refused,
  and a write may fail after any number of bytes; reads of an open file do not fail. The goroutines
  that store and fetch are serialised by the partition's mutex: each operation is one step.
\<close>

section \<open>Data\<close>

record PartitionStore =
  ps_Topic :: bytes
  ps_Partition :: bytes
  ps_HeadOffset :: "64 word"
  ps_File :: bytes
  ps_Index :: "64 word \<rightharpoonup> nat"
  ps_LastSync :: int
  ps_RecordCount :: "64 word"

record LogEntry =
  le_Offset :: "64 word"
  le_Timestamp :: "64 word"
  le_KeySize :: "32 word"
  le_ValueSize :: "32 word"
  le_HeaderCount :: byte

record DafkaStore =
  st_dataDir :: bytes
  st_partitions :: "bytes \<rightharpoonup> PartitionStore"
  st_disk :: "bytes \<rightharpoonup> bytes"
  st_records :: "DafkaRecord list"
  st_MessagesIn :: "64 word"
  st_BytesIn :: "64 word"
  st_RecordsStored :: "64 word"
  st_BytesStored :: "64 word"
  st_StoreErrors :: "64 word"

text \<open>\<open>mkdir_err\<close> is the answer of \<^verbatim>\<open>os.MkdirAll\<close>; an empty directory is replaced by the default.\<close>

definition NewStore :: "go_error option \<Rightarrow> bytes \<Rightarrow> (bytes \<rightharpoonup> bytes) \<Rightarrow> DafkaStore result" where
  "NewStore mkdir_err dataDir disk =
     (case mkdir_err of
        Some e \<Rightarrow> Err (Wrapf ''failed to create data directory'' e)
      | None \<Rightarrow> Ok \<lparr>st_dataDir = (if dataDir = [] then str ''./dafka-store'' else dataDir), st_partitions = Map.empty,
          st_disk = disk, st_records = [], st_MessagesIn = 0, st_BytesIn = 0,
          st_RecordsStored = 0, st_BytesStored = 0, st_StoreErrors = 0\<rparr>)"

definition partitionKey :: "bytes \<Rightarrow> bytes \<Rightarrow> bytes" where
  "partitionKey topic part = topic @ str '':'' @ part"

definition partition_filename :: "bytes \<Rightarrow> bytes \<Rightarrow> bytes" where
  "partition_filename topic part = topic @ str ''-'' @ part @ str ''.log''"

text \<open>
  \<^verbatim>\<open>filepath.Clean\<close> and \<^verbatim>\<open>filepath.Join\<close> on Unix, component by component: empty components and dots vanish,
  two dots remove the component before them, at the root vanish, and at the beginning of a relative
  path stay. The components kept so far are on a stack.
\<close>

fun split_slash :: "bytes \<Rightarrow> bytes list" where
  "split_slash [] = [[]]"
| "split_slash (b # bs) = (if b = 47 then [] # split_slash bs else (b # hd (split_slash bs)) # tl (split_slash bs))"

fun join_slash :: "bytes list \<Rightarrow> bytes" where
  "join_slash [] = []"
| "join_slash [c] = c"
| "join_slash (c # cs) = c @ 47 # join_slash cs"

definition clean_step :: "bool \<Rightarrow> bytes list \<Rightarrow> bytes \<Rightarrow> bytes list" where
  "clean_step rooted stack c =
     (if c = [] \<or> c = str ''.'' then stack
      else if c = str ''..'' then
        (case stack of
           prev # below \<Rightarrow> if prev \<noteq> str ''..'' then below else c # stack
         | [] \<Rightarrow> if rooted then [] else [c])
      else c # stack)"

definition filepath_Clean :: "bytes \<Rightarrow> bytes" where
  "filepath_Clean path =
     (let rooted = (path \<noteq> [] \<and> hd path = 47);
          body = join_slash (rev (foldl (clean_step rooted) [] (split_slash path))) in
      if rooted then 47 # body else if body = [] then str ''.'' else body)"

definition filepath_Join :: "bytes \<Rightarrow> bytes \<Rightarrow> bytes" where
  "filepath_Join dir name =
     (if dir = [] \<and> name = [] then []
      else filepath_Clean (if dir = [] then name else if name = [] then dir else dir @ 47 # name))"

definition partition_path :: "bytes \<Rightarrow> bytes \<Rightarrow> bytes \<Rightarrow> bytes" where
  "partition_path dataDir topic part = filepath_Join dataDir (partition_filename topic part)"

text \<open>What the file system may refuse while a record is stored: opening, seeking, or writing after \<open>n\<close> more bytes.\<close>

datatype io_fault =
    Open_fails go_error
  | Seek_fails go_error
  | Write_fails nat go_error

fun open_fault :: "io_fault option \<Rightarrow> go_error option" where
  "open_fault (Some (Open_fails e)) = Some e"
| "open_fault _ = None"

fun seek_fault :: "io_fault option \<Rightarrow> go_error option" where
  "seek_fault (Some (Seek_fails e)) = Some e"
| "seek_fault _ = None"

fun write_fault :: "io_fault option \<Rightarrow> (nat \<times> go_error) option" where
  "write_fault (Some (Write_fails n e)) = Some (n, e)"
| "write_fault _ = None"

section \<open>Writing\<close>

definition put_LogEntry :: "LogEntry \<Rightarrow> bytes" where
  "put_LogEntry e = put_be 8 (unat (le_Offset e)) @ put_be 8 (unat (le_Timestamp e)) @ put_be 4 (unat (le_KeySize e)) @
     put_be 4 (unat (le_ValueSize e)) @ [le_HeaderCount e]"

text \<open>The writes of \<^verbatim>\<open>writeRecord\<close> one after the other, with the message of the error each would return.\<close>

definition header_writes :: "bytes \<times> bytes \<Rightarrow> (string \<times> bytes) list" where
  "header_writes kv =
     [(''failed to write header key length'', put_be 2 (length (fst kv))), (''failed to write header key'', fst kv),
      (''failed to write header value length'', put_be 2 (length (snd kv))), (''failed to write header value'', snd kv)]"

definition record_entry :: "key_order \<Rightarrow> int \<Rightarrow> DafkaRecord \<Rightarrow> LogEntry" where
  "record_entry ord now r = \<lparr>le_Offset = r_Offset r, le_Timestamp = of_int now, le_KeySize = of_nat (length (r_Key r)),
     le_ValueSize = of_nat (length (r_Value r)), le_HeaderCount = of_nat (length (entries ord (r_Headers r)))\<rparr>"

definition record_writes :: "key_order \<Rightarrow> int \<Rightarrow> DafkaRecord \<Rightarrow> (string \<times> bytes) list" where
  "record_writes ord now r =
     (''failed to write log entry'', put_LogEntry (record_entry ord now r)) # (''failed to write key'', r_Key r) #
     (''failed to write value'', r_Value r) # concat (map header_writes (entries ord (r_Headers r)))"

text \<open>\<open>fault = Some (n, e)\<close>: the file takes \<open>n\<close> more bytes and then reports \<open>e\<close>.\<close>

fun write_file :: "(nat \<times> go_error) option \<Rightarrow> (string \<times> bytes) list \<Rightarrow> bytes \<times> go_error option" where
  "write_file fault [] = ([], None)"
| "write_file fault ((what, b) # ws) =
     (case fault of
        None \<Rightarrow> (case write_file None ws of (bs, err) \<Rightarrow> (b @ bs, err))
      | Some (n, e) \<Rightarrow>
          if length b \<le> n then (case write_file (Some (n - length b, e)) ws of (bs, err) \<Rightarrow> (b @ bs, err))
          else (take n b, Some (Wrapf what e)))"

definition writeRecord ::
    "key_order \<Rightarrow> int \<Rightarrow> io_fault option \<Rightarrow> PartitionStore \<Rightarrow> DafkaRecord \<Rightarrow> (bytes \<rightharpoonup> bytes) \<Rightarrow>
     go_error option \<times> PartitionStore \<times> (bytes \<rightharpoonup> bytes)" where
  "writeRecord ord now fault p r disk =
     (case seek_fault fault of
        Some e \<Rightarrow> (Some (Wrapf ''failed to seek to end'' e), p, disk)
      | None \<Rightarrow>
     (let content = (case disk (ps_File p) of None \<Rightarrow> [] | Some c \<Rightarrow> c);
          pos = length content;
          (bs, err) = write_file (write_fault fault) (record_writes ord now r);
          disk = disk(ps_File p \<mapsto> content @ bs) in
      case err of
        Some e \<Rightarrow> (Some e, p, disk)
      | None \<Rightarrow> (None, p\<lparr>ps_Index := (ps_Index p)(r_Offset r \<mapsto> pos),
            ps_HeadOffset := (if r_Offset r > ps_HeadOffset p then r_Offset r else ps_HeadOffset p),
            ps_RecordCount := ps_RecordCount p + 1\<rparr>, disk)))"

section \<open>Reading\<close>

text \<open>\<^verbatim>\<open>os.File.Read\<close>: reading nothing succeeds, also at the end; a short read is no error.\<close>

definition File_Read :: "nat \<Rightarrow> bytes decoder" where
  "File_Read n r = (if n = 0 then Ok ([], r) else Reader_Read n r)"

text \<open>\<^verbatim>\<open>binary.Read\<close> of a \<^verbatim>\<open>LogEntry\<close>, 25 bytes.\<close>

definition get_LogEntry :: "LogEntry decoder" where
  "get_LogEntry r =
     (if r = [] then Err EOF
      else if length r < 25 then Err ErrUnexpectedEOF
      else Ok (\<lparr>le_Offset = of_nat (get_be (take 8 r)), le_Timestamp = of_nat (get_be (take 8 (drop 8 r))),
             le_KeySize = of_nat (get_be (take 4 (drop 16 r))), le_ValueSize = of_nat (get_be (take 4 (drop 20 r))),
             le_HeaderCount = r ! 24\<rparr>, drop 25 r))"

definition readHeader :: "(bytes \<times> bytes) decoder" where
  "readHeader r =
     and_then (wrap_err ''failed to read header key length'' (binary_Read 2 r)) (\<lambda>(keyLen, r).
     and_then (wrap_err ''failed to read header key'' (File_Read keyLen r)) (\<lambda>(key, r).
     and_then (wrap_err ''failed to read header value length'' (binary_Read 2 r)) (\<lambda>(valueLen, r).
     and_then (wrap_err ''failed to read header value'' (File_Read valueLen r)) (\<lambda>(value, r).
       Ok ((key, value), r)))))"

definition readRecord :: "bytes \<Rightarrow> bytes \<Rightarrow> DafkaRecord decoder" where
  "readRecord topic part r =
     and_then (wrap_err ''failed to read log entry'' (get_LogEntry r)) (\<lambda>(entry, r).
     and_then (wrap_err ''failed to read key'' (File_Read (unat (le_KeySize entry)) r)) (\<lambda>(key, r).
     and_then (wrap_err ''failed to read value'' (File_Read (unat (le_ValueSize entry)) r)) (\<lambda>(value, r).
     and_then (get_many readHeader (unat (le_HeaderCount entry)) r) (\<lambda>(kvs, r).
       Ok (\<lparr>r_Topic = topic, r_Partition = part, r_Offset = le_Offset entry, r_Key = key, r_Value = value,
            r_Headers = foldl put_in Map.empty kvs, r_Timestamp = sint (le_Timestamp entry)\<rparr>, r)))))"

text \<open>The loop of \<^verbatim>\<open>readRecords\<close> with \<open>count\<close> records to go; the records read so far are returned with an error.\<close>

fun readRecords :: "bytes \<Rightarrow> PartitionStore \<Rightarrow> 64 word \<Rightarrow> nat \<Rightarrow> DafkaRecord list \<times> go_error option" where
  "readRecords content p offset 0 = ([], None)"
| "readRecords content p offset (Suc count) =
     (case ps_Index p offset of
        None \<Rightarrow> ([], None)
      | Some pos \<Rightarrow>
          (case readRecord (ps_Topic p) (ps_Partition p) (drop pos content) of
             Ok (record, _) \<Rightarrow>
               (case readRecords content p (offset + 1) count of (records, err) \<Rightarrow> (record # records, err))
           | Err e \<Rightarrow> ([], Some (Wrapf ''failed to read record'' e))
           | Panic m \<Rightarrow> ([], Some (Errorf m))))"

section \<open>Opening a partition\<close>

text \<open>
  \<^verbatim>\<open>loadPartitionIndex\<close> from position \<open>pos\<close>. The lengths of the headers are read right behind the entry,
  where the key and the value are; the lengths are added in 16 bits, and key and value size in 32.
\<close>

definition skip_header :: "(nat \<times> nat) decoder" where
  "skip_header r =
     and_then (wrap_err ''failed to read header key length'' (binary_Read 2 r)) (\<lambda>(keyLen, r).
     and_then (wrap_err ''failed to read header value length'' (binary_Read 2 r)) (\<lambda>(valueLen, r).
       Ok ((keyLen, valueLen), r)))"

definition header_skip :: "nat \<times> nat \<Rightarrow> nat" where
  "header_skip l = (fst l + snd l + 4) mod 65536"

definition index_entry :: "LogEntry \<Rightarrow> nat \<Rightarrow> PartitionStore \<Rightarrow> PartitionStore" where
  "index_entry entry pos p = p\<lparr>ps_Index := (ps_Index p)(le_Offset entry \<mapsto> pos),
     ps_HeadOffset := (if le_Offset entry > ps_HeadOffset p then le_Offset entry else ps_HeadOffset p),
     ps_RecordCount := ps_RecordCount p + 1\<rparr>"

function loadPartitionIndex :: "bytes \<Rightarrow> nat \<Rightarrow> PartitionStore \<Rightarrow> PartitionStore result" where
  "loadPartitionIndex content pos p =
     (case get_LogEntry (drop pos content) of
        Err e \<Rightarrow> if e = EOF then Ok p else Err (Wrapf ''failed to read log entry'' e)
      | Panic m \<Rightarrow> Panic m
      | Ok (entry, r) \<Rightarrow>
          (case get_many skip_header (unat (le_HeaderCount entry)) r of
             Err e \<Rightarrow> Err e
           | Panic m \<Rightarrow> Panic m
           | Ok (lens, r') \<Rightarrow>
               loadPartitionIndex content
                 (length content - length r' + unat (le_KeySize entry + le_ValueSize entry) + sum_list (map header_skip lens))
                 (index_entry entry pos p)))"
  by pat_completeness auto

lemma skip_header_shrinks: "skip_header r = Ok (x, r') \<Longrightarrow> length r' \<le> length r"
  by (auto simp: skip_header_def binary_Read_def split: if_splits prod.splits)

lemma get_many_shrinks:
  assumes "\<And>r x r'. get r = Ok (x, r') \<Longrightarrow> length r' \<le> length r"
  shows "get_many get n r = Ok (xs, r') \<Longrightarrow> length r' \<le> length r"
proof (induction n arbitrary: r xs r')
  case (Suc n)
  then obtain x r1 xs1 where "get r = Ok (x, r1)" "get_many get n r1 = Ok (xs1, r')" by auto
  then show ?case using assms Suc.IH by (meson le_trans)
qed simp

lemma get_LogEntry_rest: "get_LogEntry r = Ok (e, r') \<Longrightarrow> r' = drop 25 r \<and> 25 \<le> length r"
  by (auto simp: get_LogEntry_def split: if_splits)

termination loadPartitionIndex
proof (relation "measure (\<lambda>(content, pos, p). length content - pos)")
  fix content pos p and er :: "LogEntry \<times> bytes" and entry r lr lens r'
  assume "get_LogEntry (drop pos content) = Ok er" "(entry, r) = er"
    "get_many skip_header (unat (le_HeaderCount entry)) r = Ok lr" "(lens, r') = lr"
  then have "r = drop 25 (drop pos content)" "25 \<le> length (drop pos content)" "length r' \<le> length r"
    using get_LogEntry_rest get_many_shrinks [of skip_header] skip_header_shrinks by (metis, metis, metis)
  then show "((content, length content - length r' + unat (le_KeySize entry + le_ValueSize entry) + sum_list (map header_skip lens),
      index_entry entry pos p), (content, pos, p)) \<in> measure (\<lambda>(content, pos, p). length content - pos)"
    by (simp add: less_diff_conv)
qed simp

text \<open>\<^verbatim>\<open>os.OpenFile\<close> may be refused, as it is when the path leads into a directory that does not exist.\<close>

definition createPartition ::
    "go_error option \<Rightarrow> int \<Rightarrow> bytes \<Rightarrow> bytes \<Rightarrow> bytes \<Rightarrow> (bytes \<rightharpoonup> bytes) \<Rightarrow> PartitionStore result \<times> (bytes \<rightharpoonup> bytes)" where
  "createPartition open_err now dataDir topic part disk =
     (case open_err of
        Some e \<Rightarrow> (Err (Wrapf ''failed to create partition file'' e), disk)
      | None \<Rightarrow>
     (let path = partition_path dataDir topic part;
          content = (case disk path of None \<Rightarrow> [] | Some c \<Rightarrow> c);
          disk = disk(path \<mapsto> content);
          p = \<lparr>ps_Topic = topic, ps_Partition = part, ps_HeadOffset = 0, ps_File = path, ps_Index = Map.empty,
               ps_LastSync = now, ps_RecordCount = 0\<rparr> in
      (wrap_err ''failed to load partition index'' (loadPartitionIndex content 0 p), disk)))"

section \<open>Operations of the store\<close>

definition store_in ::
    "key_order \<Rightarrow> int \<Rightarrow> io_fault option \<Rightarrow> bytes \<Rightarrow> PartitionStore \<Rightarrow> DafkaRecord \<Rightarrow> DafkaStore \<Rightarrow> unit result \<times> DafkaStore" where
  "store_in ord now fault key p r s =
     (case writeRecord ord now fault p r (st_disk s) of
        (Some e, p', disk) \<Rightarrow>
          (Err e, s\<lparr>st_partitions := (st_partitions s)(key \<mapsto> p'), st_disk := disk, st_StoreErrors := st_StoreErrors s + 1\<rparr>)
      | (None, p', disk) \<Rightarrow>
          (Ok (), s\<lparr>st_partitions := (st_partitions s)(key \<mapsto> p'), st_disk := disk, st_RecordsStored := st_RecordsStored s + 1,
             st_BytesStored := st_BytesStored s + of_nat (length (r_Key r) + length (r_Value r))\<rparr>))"

definition storeRecord ::
    "key_order \<Rightarrow> int \<Rightarrow> io_fault option \<Rightarrow> DafkaRecord \<Rightarrow> DafkaStore \<Rightarrow> unit result \<times> DafkaStore" where
  "storeRecord ord now fault r s =
     (let key = partitionKey (r_Topic r) (r_Partition r) in
      case st_partitions s key of
        Some p \<Rightarrow> store_in ord now fault key p r s
      | None \<Rightarrow>
          (case createPartition (open_fault fault) now (st_dataDir s) (r_Topic r) (r_Partition r) (st_disk s) of
             (Ok p, disk) \<Rightarrow> store_in ord now fault key p r (s\<lparr>st_partitions := (st_partitions s)(key \<mapsto> p), st_disk := disk\<rparr>)
           | (Err e, disk) \<Rightarrow> (Err e, s\<lparr>st_disk := disk\<rparr>)
           | (Panic m, disk) \<Rightarrow> (Panic m, s\<lparr>st_disk := disk\<rparr>)))"

definition processFetchRequest :: "bytes \<Rightarrow> bytes \<Rightarrow> 64 word \<Rightarrow> 32 word \<Rightarrow> DafkaStore \<Rightarrow> DafkaRecord list \<times> go_error option" where
  "processFetchRequest topic part offset count s =
     (case st_partitions s (partitionKey topic part) of
        None \<Rightarrow> ([], Some (Errorf ''partition not found''))
      | Some p \<Rightarrow> readRecords (case st_disk s (ps_File p) of None \<Rightarrow> [] | Some c \<Rightarrow> c) p offset (unat count))"

text \<open>The heads in the order \<open>keys\<close> in which \<^verbatim>\<open>range\<close> visits the partitions; an empty argument matches all.\<close>

definition processHeadRequest :: "bytes list \<Rightarrow> bytes \<Rightarrow> bytes \<Rightarrow> DafkaStore \<Rightarrow> (bytes \<times> bytes \<times> 64 word) list" where
  "processHeadRequest keys topic part s =
     List.map_filter (\<lambda>key.
       case st_partitions s key of
         None \<Rightarrow> None
       | Some p \<Rightarrow>
           if topic \<noteq> [] \<and> ps_Topic p \<noteq> topic then None
           else if part \<noteq> [] \<and> ps_Partition p \<noteq> part then None
           else Some (ps_Topic p, ps_Partition p, ps_HeadOffset p)) keys"

definition syncPartitions :: "int \<Rightarrow> bytes \<Rightarrow> bytes \<Rightarrow> DafkaStore \<Rightarrow> DafkaStore" where
  "syncPartitions now topic part s = s\<lparr>st_partitions := (\<lambda>key.
     map_option (\<lambda>p. if (topic \<noteq> [] \<and> ps_Topic p \<noteq> topic) \<or> (part \<noteq> [] \<and> ps_Partition p \<noteq> part) then p
       else p\<lparr>ps_LastSync := now\<rparr>) (st_partitions s key))\<rparr>"

text \<open>A message of a producer: a RECORD is queued for the record loop, if the queue of 10000 has room.\<close>

definition store_processSubscriptionMessage :: "int \<Rightarrow> bytes \<Rightarrow> DafkaStore \<Rightarrow> DafkaStore" where
  "store_processSubscriptionMessage now data s =
     (case Dafka_Unmarshal data of
        Ok msg \<Rightarrow>
          (if dm_Type msg \<noteq> MessageTypeRecord then s
           else case RecordMessage_Unmarshal (dm_Body msg) of
               Ok m \<Rightarrow>
                 let record = \<lparr>r_Topic = dm_Topic msg, r_Partition = rm_Partition m, r_Offset = rm_Offset m, r_Key = rm_Key m,
                       r_Value = rm_Value m, r_Headers = rm_Headers m, r_Timestamp = now\<rparr>;
                     s = (if length (st_records s) < 10000 then s\<lparr>st_records := st_records s @ [record]\<rparr>
                          else s\<lparr>st_StoreErrors := st_StoreErrors s + 1\<rparr>) in
                 s\<lparr>st_MessagesIn := st_MessagesIn s + 1, st_BytesIn := st_BytesIn s + of_nat (length data)\<rparr>
             | _ \<Rightarrow> s\<lparr>st_StoreErrors := st_StoreErrors s + 1\<rparr>)
      | _ \<Rightarrow> s\<lparr>st_StoreErrors := st_StoreErrors s + 1\<rparr>)"

text \<open>One round of the record loop.\<close>

definition recordLoop_step :: "key_order \<Rightarrow> int \<Rightarrow> io_fault option \<Rightarrow> DafkaStore \<Rightarrow> DafkaStore" where
  "recordLoop_step ord now fault s =
     (case st_records s of
        [] \<Rightarrow> s
      | r # rs \<Rightarrow> snd (storeRecord ord now fault r (s\<lparr>st_records := rs\<rparr>)))"

section \<open>Lemmas: a record on the file\<close>

lemma File_Read_append [simp]: "length s = n \<Longrightarrow> File_Read n (s @ r) = Ok (s, r)"
  by (auto simp: File_Read_def)

lemma length_put_LogEntry [simp]: "length (put_LogEntry e) = 25"
  by (simp add: put_LogEntry_def)

lemma word_of_be:
  "(of_nat (unat (a :: 64 word) mod 18446744073709551616) :: 64 word) = a" "(of_nat (unat (b :: 32 word) mod 4294967296) :: 32 word) = b"
  using unsigned_less [where 'a = nat, of a] unsigned_less [where 'a = nat, of b] by simp_all

lemma get_LogEntry_put: "get_LogEntry (put_LogEntry e @ rest) = Ok (e, rest)"
proof -
  let ?o = "put_be 8 (unat (le_Offset e))" and ?t = "put_be 8 (unat (le_Timestamp e))"
    and ?k = "put_be 4 (unat (le_KeySize e))" and ?v = "put_be 4 (unat (le_ValueSize e))"
  have split: "put_LogEntry e @ rest = ?o @ ?t @ ?k @ ?v @ [le_HeaderCount e] @ rest" by (simp add: put_LogEntry_def)
  have "take 8 (put_LogEntry e @ rest) = ?o" "take 8 (drop 8 (put_LogEntry e @ rest)) = ?t"
    "take 4 (drop 16 (put_LogEntry e @ rest)) = ?k" "take 4 (drop 20 (put_LogEntry e @ rest)) = ?v"
    "(put_LogEntry e @ rest) ! 24 = le_HeaderCount e" "drop 25 (put_LogEntry e @ rest) = rest"
    unfolding split by (simp_all add: nth_append)
  moreover have "put_LogEntry e @ rest \<noteq> []" using length_put_LogEntry [of e] by (metis append_is_Nil_conv list.size(3) zero_neq_numeral)
  ultimately show ?thesis by (simp add: get_LogEntry_def word_of_be)
qed

definition put_header :: "bytes \<times> bytes \<Rightarrow> bytes" where
  "put_header kv = put_be 2 (length (fst kv)) @ fst kv @ put_be 2 (length (snd kv)) @ snd kv"

definition header_fits :: "bytes \<times> bytes \<Rightarrow> bool" where
  "header_fits kv \<longleftrightarrow> length (fst kv) \<le> 65535 \<and> length (snd kv) \<le> 65535"

interpretation log_header: prefix_codec put_header readHeader header_fits
  by unfold_locales (auto simp: put_header_def readHeader_def header_fits_def)

definition record_bytes :: "key_order \<Rightarrow> int \<Rightarrow> DafkaRecord \<Rightarrow> bytes" where
  "record_bytes ord now r = put_LogEntry (record_entry ord now r) @ r_Key r @ r_Value r @
     concat (map put_header (entries ord (r_Headers r)))"

lemma concat_writes: "concat (map snd (record_writes ord now r)) = record_bytes ord now r"
proof -
  have "concat (map snd (concat (map header_writes kvs))) = concat (map put_header kvs)" for kvs
    by (induction kvs) (simp_all add: header_writes_def put_header_def)
  then show ?thesis by (simp add: record_writes_def record_bytes_def)
qed

lemma write_file_prefix:
  "write_file fault ws = (bs, err) \<Longrightarrow> \<exists>ext. concat (map snd ws) = bs @ ext \<and> (err = None \<longrightarrow> ext = [])"
proof (induction fault ws arbitrary: bs err rule: write_file.induct)
  case (2 fault what b ws)
  show ?case
  proof (cases fault)
    case None
    then obtain bs' where "write_file None ws = (bs', err)" "bs = b @ bs'" using "2.prems" by (auto split: prod.splits)
    then show ?thesis using "2.IH"(1) [OF None] by auto
  next
    case (Some ne)
    obtain n e where ne: "ne = (n, e)" by fastforce
    show ?thesis
    proof (cases "length b \<le> n")
      case True
      then obtain bs' where "write_file (Some (n - length b, e)) ws = (bs', err)" "bs = b @ bs'"
        using "2.prems" Some ne by (auto split: prod.splits)
      then show ?thesis using "2.IH"(2) [OF Some ne [symmetric] True] by auto
    next
      case False
      then show ?thesis using "2.prems" Some ne by (auto intro: exI [of _ "drop n b @ concat (map snd ws)"])
    qed
  qed
qed simp

lemma write_file_ok: "write_file None ws = (concat (map snd ws), None)"
proof (induction ws)
  case (Cons w ws)
  then show ?case by (cases w) simp
qed simp

text \<open>What fits into the fields of a log entry.\<close>

definition record_fits :: "key_order \<Rightarrow> DafkaRecord \<Rightarrow> bool" where
  "record_fits ord r \<longleftrightarrow> length (r_Key r) + length (r_Value r) < 2 ^ 32 \<and> ord_ok ord (r_Headers r) \<and> card (dom (r_Headers r)) \<le> 255 \<and>
     (\<forall>k v. r_Headers r k = Some v \<longrightarrow> length k \<le> 65535 \<and> length v \<le> 65535)"

definition stored_record :: "int \<times> DafkaRecord \<Rightarrow> DafkaRecord" where
  "stored_record nr = (snd nr)\<lparr>r_Timestamp := sint (of_int (fst nr) :: 64 word)\<rparr>"

lemma record_fits_entries:
  assumes "record_fits ord r"
  shows "list_all header_fits (entries ord (r_Headers r))" "length (entries ord (r_Headers r)) \<le> 255"
  using assms by (auto simp: record_fits_def list_all_iff header_fits_def set_entries length_entries)

lemma record_entry_sizes:
  assumes "record_fits ord r"
  shows "unat (le_KeySize (record_entry ord now r)) = length (r_Key r)" "unat (le_ValueSize (record_entry ord now r)) = length (r_Value r)"
    "unat (le_KeySize (record_entry ord now r) + le_ValueSize (record_entry ord now r)) = length (r_Key r) + length (r_Value r)"
    "unat (le_HeaderCount (record_entry ord now r)) = length (entries ord (r_Headers r))"
proof -
  have sizes: "length (r_Key r) < 2 ^ 32" "length (r_Value r) < 2 ^ 32" "length (r_Key r) + length (r_Value r) < 2 ^ 32"
    using assms by (simp_all add: record_fits_def)
  have conv: "unat (of_nat n :: 32 word) = n" if "n < 2 ^ 32" for n using that by (simp only: unat_of_nat) simp
  show "unat (le_KeySize (record_entry ord now r)) = length (r_Key r)" "unat (le_ValueSize (record_entry ord now r)) = length (r_Value r)"
    using conv sizes by (simp_all add: record_entry_def)
  show "unat (le_KeySize (record_entry ord now r) + le_ValueSize (record_entry ord now r)) = length (r_Key r) + length (r_Value r)"
    using conv [OF sizes(3)] by (simp add: record_entry_def)
  show "unat (le_HeaderCount (record_entry ord now r)) = length (entries ord (r_Headers r))"
    using unat_length_byte [OF record_fits_entries(2) [OF assms]] by (simp add: record_entry_def)
qed

lemma readRecord_put:
  assumes "record_fits ord r"
  shows "readRecord (r_Topic r) (r_Partition r) (record_bytes ord now r @ rest) = Ok (stored_record (now, r), rest)"
proof -
  have "foldl put_in Map.empty (entries ord (r_Headers r)) = r_Headers r"
    using assms by (simp add: foldl_put_in map_fst_entries map_of_entries record_fits_def ord_ok_def)
  then show ?thesis
    using log_header.get_many_put [OF record_fits_entries(1) [OF assms], of rest] record_entry_sizes [OF assms]
    by (simp add: readRecord_def record_bytes_def get_LogEntry_put) (simp add: record_entry_def stored_record_def)
qed

section \<open>Lemmas: runs of the store\<close>

text \<open>
  Topics without colon, dash and slash and partitions without slash: then key and path determine topic and
  partition. A slash makes the path depend on directories and dots.
\<close>

definition plain_topic :: "bytes \<Rightarrow> bool" where
  "plain_topic t \<longleftrightarrow> set (str '':'') \<inter> set t = {} \<and> set (str ''-'') \<inter> set t = {} \<and> set (str ''/'') \<inter> set t = {}"

definition plain_partition :: "bytes \<Rightarrow> bytes \<Rightarrow> bool" where
  "plain_partition t q \<longleftrightarrow> plain_topic t \<and> set (str ''/'') \<inter> set q = {}"

definition plain_record :: "DafkaRecord \<Rightarrow> bool" where
  "plain_record r \<longleftrightarrow> plain_partition (r_Topic r) (r_Partition r)"

lemma split_at_sep:
  "x \<notin> set a \<Longrightarrow> x \<notin> set b \<Longrightarrow> a @ x # p = b @ x # q \<Longrightarrow> a = b \<and> p = q"
proof (induction a arbitrary: b)
  case Nil
  then show ?case by (cases b) auto
next
  case (Cons y a)
  then show ?case by (cases b) auto
qed

lemma split_slash_ne [simp]: "split_slash p \<noteq> []"
  by (cases p) auto

lemma split_slash_append: "split_slash (p @ 47 # q) = split_slash p @ split_slash q"
  by (induction p) auto

lemma split_slash_single: "47 \<notin> set f \<Longrightarrow> split_slash f = [f]"
  by (induction f) auto

lemma join_slash_snoc: "join_slash (cs @ [f]) = concat (map (\<lambda>c. c @ [47]) cs) @ f"
proof (induction cs)
  case (Cons c cs)
  then show ?case by (cases "cs @ [f]") auto
qed simp

text \<open>A name without slash that is no run of dots is the last component of the path, behind one prefix for each directory.\<close>

definition dir_prefix :: "bytes \<Rightarrow> bytes" where
  "dir_prefix dir =
     (let rooted = (dir \<noteq> [] \<and> hd dir = 47) in
      (if rooted then [47] else []) @ concat (map (\<lambda>c. c @ [47]) (rev (foldl (clean_step rooted) [] (if dir = [] then [] else split_slash dir)))))"

lemma Join_plain:
  assumes "47 \<notin> set f" "f \<notin> {[], str ''.'', str ''..''}"
  shows "filepath_Join dir f = dir_prefix dir @ f"
proof -
  have ne: "f \<noteq> []" "hd f \<noteq> 47" using assms by (cases f; auto)+
  have keep: "clean_step rooted stack f = f # stack" for rooted stack using assms(2) by (simp add: clean_step_def)
  show ?thesis
    using ne by (simp add: filepath_Join_def filepath_Clean_def dir_prefix_def split_slash_append split_slash_single [OF assms(1)] keep
        join_slash_snoc Let_def)
qed

lemma partition_path_plain:
  assumes "plain_partition t q"
  shows "partition_path dir t q = dir_prefix dir @ partition_filename t q"
  unfolding partition_path_def
proof (rule Join_plain)
  show "47 \<notin> set (partition_filename t q)"
    using assms by (auto simp: partition_filename_def plain_partition_def plain_topic_def wire_simps)
  have "length (partition_filename t q) \<ge> 5" by (simp add: partition_filename_def wire_simps)
  then show "partition_filename t q \<notin> {[], str ''.'', str ''..''}" by (auto simp: wire_simps)
qed

lemma names_inj:
  assumes "plain_partition t p" "plain_partition t' p'"
  shows "partitionKey t p = partitionKey t' p' \<longleftrightarrow> t = t' \<and> p = p'"
    "partition_path d t p = partition_path d t' p' \<longleftrightarrow> t = t' \<and> p = p'"
  using assms split_at_sep [of 58 t t' p p'] split_at_sep [of 45 t t' "p @ str ''.log''" "p' @ str ''.log''"]
  by (auto simp: partition_path_plain partitionKey_def partition_filename_def plain_partition_def plain_topic_def wire_simps)

text \<open>With slashes two topics may share one file: cleaning the path removes a dot.\<close>

lemma dotted_topic_aliases:
  assumes "dir \<noteq> []"
  shows "partition_path dir (str ''./'' @ t) q = partition_path dir t q"
proof -
  have "partition_filename (str ''./'' @ t) q = str ''.'' @ 47 # partition_filename t q" "partition_filename t q \<noteq> []"
    by (simp_all add: partition_filename_def wire_simps)
  moreover have "clean_step rooted stack (str ''.'') = stack" for rooted stack by (simp add: clean_step_def)
  moreover have "split_slash (str ''.'') = [str ''.'']" by (simp add: wire_simps)
  ultimately show ?thesis using assms split_slash_append [of dir "str ''.'' @ 47 # partition_filename t q"]
    by (simp add: partition_path_def filepath_Join_def filepath_Clean_def split_slash_append Let_def)
qed

text \<open>A refused open leaves the store as it was and reports the error.\<close>

lemma refused_open:
  assumes "st_partitions s (partitionKey (r_Topic r) (r_Partition r)) = None"
  shows "storeRecord ord now (Some (Open_fails e)) r s = (Err (Wrapf ''failed to create partition file'' e), s)"
  using assms by (simp add: storeRecord_def createPartition_def)

text \<open>
  The runs of a store that starts on an empty disk: \<open>log\<close> are the records stored with success, with
  the time, and \<open>torn\<close> says whether storing a record has failed.
\<close>

inductive store_run :: "key_order \<Rightarrow> bool \<Rightarrow> (int \<times> DafkaRecord) list \<Rightarrow> DafkaStore \<Rightarrow> bool" for ord where
  new: "store_run ord False [] s" if "NewStore None dataDir Map.empty = Ok s"
| ok: "store_run ord torn (log @ [(now, r)]) s'"
    if "store_run ord torn log s" "record_fits ord r" "plain_record r" "storeRecord ord now fault r s = (Ok (), s')"
| failed: "store_run ord True log s'"
    if "store_run ord torn log s" "plain_record r" "storeRecord ord now fault r s = (Err e, s')"
| message: "store_run ord torn log (store_processSubscriptionMessage now data s)" if "store_run ord torn log s"
| taken: "store_run ord torn log (s\<lparr>st_records := rs\<rparr>)" if "store_run ord torn log s"
| sync: "store_run ord torn log (syncPartitions now topic part s)" if "store_run ord torn log s"

definition of_partition :: "bytes \<Rightarrow> bytes \<Rightarrow> (int \<times> DafkaRecord) list \<Rightarrow> (int \<times> DafkaRecord) list" where
  "of_partition t p = filter (\<lambda>(now, r). r_Topic r = t \<and> r_Partition r = p)"

definition latest :: "(int \<times> DafkaRecord) list \<Rightarrow> bytes \<Rightarrow> bytes \<Rightarrow> 64 word \<Rightarrow> (int \<times> DafkaRecord) option" where
  "latest log t p offset = find (\<lambda>(now, r). r_Topic r = t \<and> r_Partition r = p \<and> r_Offset r = offset) (rev log)"

definition head_of :: "(int \<times> DafkaRecord) list \<Rightarrow> 64 word" where
  "head_of log = foldl (\<lambda>h (now, r). if r_Offset r > h then r_Offset r else h) 0 log"

definition file_of :: "DafkaStore \<Rightarrow> bytes \<Rightarrow> bytes" where
  "file_of s f = (case st_disk s f of None \<Rightarrow> [] | Some c \<Rightarrow> c)"

definition written_at :: "key_order \<Rightarrow> bytes \<Rightarrow> nat \<Rightarrow> int \<times> DafkaRecord \<Rightarrow> bool" where
  "written_at ord content pos nr \<longleftrightarrow> record_fits ord (snd nr) \<and>
     (\<exists>pre post. content = pre @ record_bytes ord (fst nr) (snd nr) @ post \<and> length pre = pos)"

definition index_ok :: "key_order \<Rightarrow> bytes \<Rightarrow> (64 word \<rightharpoonup> nat) \<Rightarrow> (64 word \<rightharpoonup> int \<times> DafkaRecord) \<Rightarrow> bool" where
  "index_ok ord content ind recs \<longleftrightarrow> (\<forall>off. case recs off of
     None \<Rightarrow> ind off = None
   | Some nr \<Rightarrow> \<exists>pos. ind off = Some pos \<and> written_at ord content pos nr)"

text \<open>The position of the last record at each offset, in a file that holds the records of \<open>log\<close> and nothing else.\<close>

definition log_bytes :: "key_order \<Rightarrow> (int \<times> DafkaRecord) list \<Rightarrow> bytes" where
  "log_bytes ord log = concat (map (\<lambda>(now, r). record_bytes ord now r) log)"

definition log_index :: "key_order \<Rightarrow> (int \<times> DafkaRecord) list \<Rightarrow> 64 word \<rightharpoonup> nat" where
  "log_index ord log = snd (foldl (\<lambda>(pos, m) (now, r). (pos + length (record_bytes ord now r), m(r_Offset r \<mapsto> pos))) (0, Map.empty) log)"

definition partition_ok :: "key_order \<Rightarrow> bool \<Rightarrow> (int \<times> DafkaRecord) list \<Rightarrow> DafkaStore \<Rightarrow> bytes \<Rightarrow> PartitionStore \<Rightarrow> bool" where
  "partition_ok ord torn log s key p \<longleftrightarrow> plain_partition (ps_Topic p) (ps_Partition p) \<and> key = partitionKey (ps_Topic p) (ps_Partition p) \<and>
     ps_File p = partition_path (st_dataDir s) (ps_Topic p) (ps_Partition p) \<and>
     index_ok ord (file_of s (ps_File p)) (ps_Index p) (latest log (ps_Topic p) (ps_Partition p)) \<and>
     ps_HeadOffset p = head_of (of_partition (ps_Topic p) (ps_Partition p) log) \<and>
     ps_RecordCount p = of_nat (length (of_partition (ps_Topic p) (ps_Partition p) log)) \<and>
     (\<not> torn \<longrightarrow> ps_Index p = log_index ord (of_partition (ps_Topic p) (ps_Partition p) log))"

definition store_inv :: "key_order \<Rightarrow> bool \<Rightarrow> (int \<times> DafkaRecord) list \<Rightarrow> DafkaStore \<Rightarrow> bool" where
  "store_inv ord torn log s \<longleftrightarrow>
     (\<forall>key p. st_partitions s key = Some p \<longrightarrow> partition_ok ord torn log s key p) \<and>
     (\<forall>t p. plain_partition t p \<longrightarrow> st_partitions s (partitionKey t p) = None \<longrightarrow> file_of s (partition_path (st_dataDir s) t p) = [] \<and> of_partition t p log = []) \<and>
     (\<not> torn \<longrightarrow> (\<forall>t p. plain_partition t p \<longrightarrow>
        file_of s (partition_path (st_dataDir s) t p) = log_bytes ord (of_partition t p log)))"

lemma written_at_append: "written_at ord content pos nr \<Longrightarrow> written_at ord (content @ ext) pos nr"
  unfolding written_at_def by (metis append.assoc)

lemma written_at_end: "record_fits ord r \<Longrightarrow> written_at ord (content @ record_bytes ord now r) (length content) (now, r)"
  unfolding written_at_def by (metis append.right_neutral fst_conv snd_conv)

lemma index_ok_append: "index_ok ord content ind recs \<Longrightarrow> index_ok ord (content @ ext) ind recs"
  unfolding index_ok_def by (fastforce split: option.splits intro: written_at_append)

lemma index_ok_add:
  assumes "index_ok ord content ind recs" "record_fits ord r"
  shows "index_ok ord (content @ record_bytes ord now r) (ind(r_Offset r \<mapsto> length content)) (recs(r_Offset r \<mapsto> (now, r)))"
proof -
  have old: "index_ok ord (content @ record_bytes ord now r) ind recs" by (rule index_ok_append [OF assms(1)])
  show ?thesis
    unfolding index_ok_def
  proof
    fix off
    show "case (recs(r_Offset r \<mapsto> (now, r))) off of None \<Rightarrow> (ind(r_Offset r \<mapsto> length content)) off = None
      | Some nr \<Rightarrow> \<exists>pos. (ind(r_Offset r \<mapsto> length content)) off = Some pos \<and> written_at ord (content @ record_bytes ord now r) pos nr"
      using old written_at_end [OF assms(2)]
      by (cases "off = r_Offset r"; cases "recs off") (auto simp: index_ok_def dest: spec [of _ off])
  qed
qed

lemma latest_snoc:
  "latest (log @ [(now, r)]) t p = (if r_Topic r = t \<and> r_Partition r = p then (latest log t p)(r_Offset r \<mapsto> (now, r)) else latest log t p)"
  by (auto simp: latest_def fun_eq_iff)

lemma of_partition_snoc:
  "of_partition t p (log @ [(now, r)]) = of_partition t p log @ (if r_Topic r = t \<and> r_Partition r = p then [(now, r)] else [])"
  by (simp add: of_partition_def)

lemma head_of_snoc: "head_of (log @ [(now, r)]) = (if r_Offset r > head_of log then r_Offset r else head_of log)"
  by (simp add: head_of_def)

lemma log_bytes_snoc [simp]: "log_bytes ord (log @ [(now, r)]) = log_bytes ord log @ record_bytes ord now r"
  by (simp add: log_bytes_def)

lemma log_index_snoc: "log_index ord (log @ [(now, r)]) = (log_index ord log)(r_Offset r \<mapsto> length (log_bytes ord log))"
proof -
  let ?step = "\<lambda>(pos, m) (now, r). (pos + length (record_bytes ord now r), m(r_Offset r \<mapsto> pos))"
  have "fst (foldl ?step (0, Map.empty) log) = length (log_bytes ord log)"
    by (induction log rule: rev_induct) (auto simp: log_bytes_def split: prod.splits)
  then show ?thesis by (auto simp: log_index_def split: prod.splits)
qed

declare loadPartitionIndex.simps [simp del]

lemma load_end: "length content \<le> pos \<Longrightarrow> loadPartitionIndex content pos p = Ok p"
  by (subst loadPartitionIndex.simps) (simp add: get_LogEntry_def)

lemma file_of_upd: "file_of (s\<lparr>st_partitions := ps, st_disk := (st_disk s)(f \<mapsto> c)\<rparr>) g = (if g = f then c else file_of s g)"
  by (simp add: file_of_def)

lemma partition_ok_names:
  assumes "partition_ok ord torn log s key p" "key = partitionKey t q" "plain_partition t q"
  shows "ps_Topic p = t" "ps_Partition p = q" "ps_File p = partition_path (st_dataDir s) t q"
  using assms names_inj(1) [of t q "ps_Topic p" "ps_Partition p"] by (auto simp: partition_ok_def)

lemma partition_ok_cong:
  assumes "partition_ok ord torn log s key p" "file_of s' (ps_File p) = file_of s (ps_File p)"
    "latest log' (ps_Topic p) (ps_Partition p) = latest log (ps_Topic p) (ps_Partition p)"
    "of_partition (ps_Topic p) (ps_Partition p) log' = of_partition (ps_Topic p) (ps_Partition p) log"
    "\<not> torn' \<Longrightarrow> \<not> torn" "st_dataDir s' = st_dataDir s"
  shows "partition_ok ord torn' log' s' key p"
  using assms(1,5) unfolding partition_ok_def assms(2-4) assms(6) by blast

text \<open>Opening a partition that has no file yet.\<close>

lemma create_inv:
  assumes inv: "store_inv ord torn log s" and t: "plain_partition t q" and none: "st_partitions s (partitionKey t q) = None"
  shows "\<exists>p. createPartition None now (st_dataDir s) t q (st_disk s) = (Ok p, (st_disk s)(partition_path (st_dataDir s) t q \<mapsto> [])) \<and>
    store_inv ord torn log (s\<lparr>st_partitions := (st_partitions s)(partitionKey t q \<mapsto> p),
      st_disk := (st_disk s)(partition_path (st_dataDir s) t q \<mapsto> [])\<rparr>)" (is "\<exists>p. _ \<and> store_inv ord torn log (?s p)")
proof -
  let ?p = "\<lparr>ps_Topic = t, ps_Partition = q, ps_HeadOffset = 0, ps_File = partition_path (st_dataDir s) t q, ps_Index = Map.empty,
    ps_LastSync = now, ps_RecordCount = 0\<rparr>"
  have empty: "file_of s (partition_path (st_dataDir s) t q) = []" "of_partition t q log = []" using inv none t by (auto simp: store_inv_def)
  then have none_latest: "latest log t q off = None" for off
    by (auto simp: latest_def of_partition_def filter_empty_conv find_None_iff)
  have fl: "file_of (?s ?p) g = file_of s g" for g using empty(1) by (simp add: file_of_upd)
  have "partition_ok ord torn log (?s ?p) (partitionKey t q) ?p"
    using t empty(2) none_latest by (simp add: partition_ok_def index_ok_def head_of_def log_index_def)
  then have "partition_ok ord torn log (?s ?p) key x" if "st_partitions (?s ?p) key = Some x" for key x
    using that inv partition_ok_cong [OF _ fl refl refl, where torn = torn and torn' = torn] by (cases "key = partitionKey t q") (auto simp: store_inv_def)
  moreover have "st_partitions (?s ?p) (partitionKey t' q') = None \<Longrightarrow> st_partitions s (partitionKey t' q') = None" for t' q'
    by (simp split: if_splits)
  moreover have dir: "st_dataDir (?s ?p) = st_dataDir s" by simp
  ultimately have "store_inv ord torn log (?s ?p)" using inv unfolding store_inv_def fl dir by blast
  moreover have "createPartition None now (st_dataDir s) t q (st_disk s) = (Ok ?p, (st_disk s)(partition_path (st_dataDir s) t q \<mapsto> []))"
    using empty(1) by (simp add: createPartition_def file_of_def Let_def load_end)
  ultimately show ?thesis by blast
qed

text \<open>An append to the file of one partition, which adds the record to its index or not.\<close>

lemma append_inv:
  assumes inv: "store_inv ord torn log s" and t: "plain_partition t q" and p: "st_partitions s (partitionKey t q) = Some p"
    and s': "st_partitions s' = (st_partitions s)(partitionKey t q \<mapsto> p')" "st_disk s' = (st_disk s)(ps_File p \<mapsto> file_of s (ps_File p) @ bs)"
      "st_dataDir s' = st_dataDir s"
    and p': "partition_ok ord torn' log' s' (partitionKey t q) p'"
    and other: "\<And>t' q'. (t', q') \<noteq> (t, q) \<Longrightarrow> latest log' t' q' = latest log t' q' \<and> of_partition t' q' log' = of_partition t' q' log"
    and exact: "\<not> torn' \<Longrightarrow> \<not> torn \<and> log_bytes ord (of_partition t q log') = log_bytes ord (of_partition t q log) @ bs"
  shows "store_inv ord torn' log' s'"
proof -
  have pok: "partition_ok ord torn log s (partitionKey t q) p" using inv p by (simp add: store_inv_def)
  note file_p = partition_ok_names(3) [OF pok refl t]
  have fl: "file_of s' g = (if g = partition_path (st_dataDir s) t q then file_of s g @ bs else file_of s g)" for g
    using s'(2) file_p by (simp add: file_of_def)
  have "partition_ok ord torn' log' s' key x" if "st_partitions s' key = Some x" for key x
  proof (cases "key = partitionKey t q")
    case True
    then show ?thesis using that p' s'(1) by simp
  next
    case False
    then have x: "partition_ok ord torn log s key x" using that inv s'(1) by (simp add: store_inv_def)
    then have ne: "(ps_Topic x, ps_Partition x) \<noteq> (t, q)" using False by (auto simp: partition_ok_def)
    moreover have "ps_File x \<noteq> partition_path (st_dataDir s) t q"
      using x ne t names_inj(2) [of "ps_Topic x" "ps_Partition x" t q "st_dataDir s"] by (auto simp: partition_ok_def)
    ultimately show ?thesis using other [OF ne] fl exact x s'(3) by (intro partition_ok_cong [OF x]) (simp_all add: partition_ok_def)
  qed
  moreover have "file_of s' (partition_path (st_dataDir s) t' q') = [] \<and> of_partition t' q' log' = []"
    if "plain_partition t' q'" "st_partitions s' (partitionKey t' q') = None" for t' q'
  proof -
    have ne: "(t', q') \<noteq> (t, q)" and none: "st_partitions s (partitionKey t' q') = None" using that(2) s'(1) by (auto split: if_splits)
    moreover have "partition_path (st_dataDir s) t' q' \<noteq> partition_path (st_dataDir s) t q" using ne t that(1) names_inj(2) by blast
    ultimately show ?thesis using inv that(1) other [OF ne] fl by (auto simp: store_inv_def)
  qed
  moreover have "file_of s' (partition_path (st_dataDir s) t' q') = log_bytes ord (of_partition t' q' log')"
    if "\<not> torn'" "plain_partition t' q'" for t' q'
  proof (cases "(t', q') = (t, q)")
    case True
    then show ?thesis using exact [OF that(1)] inv t fl by (auto simp: store_inv_def)
  next
    case False
    moreover have "partition_path (st_dataDir s) t' q' \<noteq> partition_path (st_dataDir s) t q" using False t that(2) names_inj(2) by blast
    ultimately show ?thesis using exact [OF that(1)] inv that(2) other [OF False] fl by (auto simp: store_inv_def)
  qed
  ultimately show ?thesis unfolding store_inv_def s'(3) by blast
qed

text \<open>A state that differs in neither disk, nor partitions, nor directory; after a failure less is known.\<close>

lemma store_inv_cong:
  assumes "store_inv ord torn log s" "st_disk s' = st_disk s" "st_partitions s' = st_partitions s" "st_dataDir s' = st_dataDir s" "torn \<Longrightarrow> torn'"
  shows "store_inv ord torn' log s'"
proof -
  have fl: "file_of s' f = file_of s f" for f by (simp add: file_of_def assms(2))
  have "partition_ok ord torn' log s' key p" if "st_partitions s' key = Some p" for key p
  proof (rule partition_ok_cong)
    show "partition_ok ord torn log s key p" using assms(1) that unfolding store_inv_def assms(3) by blast
  qed (use assms(4,5) fl in auto)
  then show ?thesis using assms(1,5) unfolding store_inv_def fl assms(3,4) by blast
qed

lemma store_in_inv:
  assumes inv: "store_inv ord torn log s" and plain: "plain_record r"
    and p: "st_partitions s (partitionKey (r_Topic r) (r_Partition r)) = Some p"
    and run: "store_in ord now fault (partitionKey (r_Topic r) (r_Partition r)) p r s = (res, s')"
  shows "(res = Ok () \<longrightarrow> record_fits ord r \<longrightarrow> store_inv ord torn (log @ [(now, r)]) s') \<and> (\<forall>e. res = Err e \<longrightarrow> store_inv ord True log s')"
proof (cases "seek_fault fault")
  case (Some e)
  have same: "(st_partitions s)(partitionKey (r_Topic r) (r_Partition r) \<mapsto> p) = st_partitions s" using p by auto
  have "\<exists>e. res = Err e" "s' = s\<lparr>st_partitions := st_partitions s, st_disk := st_disk s, st_StoreErrors := st_StoreErrors s + 1\<rparr>"
    using run Some by (auto simp: store_in_def writeRecord_def same)
  then show ?thesis using store_inv_cong [OF inv, of s' True] by auto
next
  case seek: None
  let ?key = "partitionKey (r_Topic r) (r_Partition r)" and ?c = "file_of s (ps_File p)"
  have t: "plain_partition (r_Topic r) (r_Partition r)" using plain by (simp add: plain_record_def)
  have pok: "partition_ok ord torn log s ?key p" using inv p by (simp add: store_inv_def)
  note names = partition_ok_names [OF pok refl t]
  obtain bs err where w: "write_file (write_fault fault) (record_writes ord now r) = (bs, err)" by fastforce
  obtain ext where bs: "record_bytes ord now r = bs @ ext" "err = None \<longrightarrow> ext = []"
    using write_file_prefix [OF w] by (auto simp: concat_writes)
  have fl: "file_of s' (ps_File p) = ?c @ bs" if "st_disk s' = (st_disk s)(ps_File p \<mapsto> ?c @ bs)" for s'
    using that by (simp add: file_of_def)
  show ?thesis
  proof (cases err)
    case None
    let ?p' = "p\<lparr>ps_Index := (ps_Index p)(r_Offset r \<mapsto> length ?c),
      ps_HeadOffset := (if r_Offset r > ps_HeadOffset p then r_Offset r else ps_HeadOffset p), ps_RecordCount := ps_RecordCount p + 1\<rparr>"
    have s': "res = Ok ()" "st_partitions s' = (st_partitions s)(?key \<mapsto> ?p')" "st_disk s' = (st_disk s)(ps_File p \<mapsto> ?c @ bs)"
        "st_dataDir s' = st_dataDir s"
      using run w seek None by (auto simp: store_in_def writeRecord_def file_of_def Let_def)
    have "store_inv ord torn (log @ [(now, r)]) s'" if fits: "record_fits ord r"
    proof (rule append_inv [OF inv t p s'(2-4)])
      have exact_file: "\<not> torn \<Longrightarrow> ?c = log_bytes ord (of_partition (r_Topic r) (r_Partition r) log)"
        using inv t names(3) by (simp add: store_inv_def)
      have bytes: "bs = record_bytes ord now r" using bs None by simp
      have "index_ok ord ?c (ps_Index p) (latest log (r_Topic r) (r_Partition r))" using pok names by (simp add: partition_ok_def)
      from index_ok_add [OF this fits, of now]
      show "partition_ok ord torn (log @ [(now, r)]) s' ?key ?p'"
        using pok names fl [OF s'(3)] s'(4) bytes t exact_file
        by (simp add: partition_ok_def latest_snoc of_partition_snoc head_of_snoc log_index_snoc add.commute)
      show "latest (log @ [(now, r)]) t' q' = latest log t' q' \<and> of_partition t' q' (log @ [(now, r)]) = of_partition t' q' log"
        if "(t', q') \<noteq> (r_Topic r, r_Partition r)" for t' q'
        using that by (auto simp: latest_snoc of_partition_snoc)
      show "\<not> torn \<and> log_bytes ord (of_partition (r_Topic r) (r_Partition r) (log @ [(now, r)])) =
          log_bytes ord (of_partition (r_Topic r) (r_Partition r) log) @ bs" if "\<not> torn"
        using that bytes by (simp add: of_partition_snoc)
    qed
    then show ?thesis using s'(1) by simp
  next
    case (Some e)
    have s': "res = Err e" "st_partitions s' = (st_partitions s)(?key \<mapsto> p)" "st_disk s' = (st_disk s)(ps_File p \<mapsto> ?c @ bs)"
        "st_dataDir s' = st_dataDir s"
      using run w seek Some by (auto simp: store_in_def writeRecord_def file_of_def Let_def)
    have "store_inv ord True log s'"
    proof (rule append_inv [OF inv t p s'(2-4)])
      show "partition_ok ord True log s' ?key p"
        using pok index_ok_append unfolding partition_ok_def fl [OF s'(3)] s'(4) by blast
    qed simp_all
    then show ?thesis using s'(1) by simp
  qed
qed

lemma storeRecord_inv:
  assumes inv: "store_inv ord torn log s" and plain: "plain_record r" and run: "storeRecord ord now fault r s = (res, s')"
  shows "(res = Ok () \<longrightarrow> record_fits ord r \<longrightarrow> store_inv ord torn (log @ [(now, r)]) s') \<and> (\<forall>e. res = Err e \<longrightarrow> store_inv ord True log s')"
proof (cases "st_partitions s (partitionKey (r_Topic r) (r_Partition r))")
  case (Some p)
  then have "store_in ord now fault (partitionKey (r_Topic r) (r_Partition r)) p r s = (res, s')"
    using run by (simp add: storeRecord_def)
  then show ?thesis by (rule store_in_inv [OF inv plain Some])
next
  case None
  let ?key = "partitionKey (r_Topic r) (r_Partition r)" and ?path = "partition_path (st_dataDir s) (r_Topic r) (r_Partition r)"
  show ?thesis
  proof (cases "open_fault fault")
    case (Some e)
    then have "\<exists>e. res = Err e" "s' = s\<lparr>st_disk := st_disk s\<rparr>" using run None by (auto simp: storeRecord_def createPartition_def)
    then show ?thesis using store_inv_cong [OF inv, of s' True] by auto
  next
    case opened: None
    have t: "plain_partition (r_Topic r) (r_Partition r)" using plain by (simp add: plain_record_def)
    obtain p where p: "createPartition None now (st_dataDir s) (r_Topic r) (r_Partition r) (st_disk s) = (Ok p, (st_disk s)(?path \<mapsto> []))"
      "store_inv ord torn log (s\<lparr>st_partitions := (st_partitions s)(?key \<mapsto> p), st_disk := (st_disk s)(?path \<mapsto> [])\<rparr>)"
      using create_inv [OF inv t None] by blast
    let ?s = "s\<lparr>st_partitions := (st_partitions s)(?key \<mapsto> p), st_disk := (st_disk s)(?path \<mapsto> [])\<rparr>"
    have "store_in ord now fault ?key p r ?s = (res, s')" using run p(1) None opened by (simp add: storeRecord_def Let_def)
    moreover have "st_partitions ?s ?key = Some p" by simp
    ultimately show ?thesis by (rule store_in_inv [OF p(2) plain, rotated])
  qed
qed

lemma message_frame:
  "st_disk (store_processSubscriptionMessage now data s) = st_disk s"
  "st_partitions (store_processSubscriptionMessage now data s) = st_partitions s"
  "st_dataDir (store_processSubscriptionMessage now data s) = st_dataDir s"
  by (auto simp: store_processSubscriptionMessage_def Let_def split: result.split)

lemma sync_inv:
  assumes "store_inv ord torn log s"
  shows "store_inv ord torn log (syncPartitions now topic part s)"
proof -
  let ?s = "syncPartitions now topic part s"
  have fl: "file_of ?s f = file_of s f" for f by (simp add: file_of_def syncPartitions_def)
  have dir: "st_dataDir ?s = st_dataDir s" by (simp add: syncPartitions_def)
  have "partition_ok ord torn log ?s key p" if sp: "st_partitions ?s key = Some p" for key p
  proof -
    obtain q where q: "st_partitions s key = Some q" "p = q \<or> p = q\<lparr>ps_LastSync := now\<rparr>"
      using sp by (auto simp: syncPartitions_def split: if_splits)
    then have "partition_ok ord torn log s key q" using assms by (simp add: store_inv_def)
    then show ?thesis using q(2) by (auto simp: partition_ok_def fl dir)
  qed
  moreover have "st_partitions ?s key = None \<longleftrightarrow> st_partitions s key = None" for key by (simp add: syncPartitions_def)
  ultimately show ?thesis using assms unfolding store_inv_def fl dir by blast
qed

lemma stored_inv: "store_run ord torn log s \<Longrightarrow> store_inv ord torn log s"
proof (induction rule: store_run.induct)
  case (new dataDir s)
  then show ?case by (auto simp: store_inv_def NewStore_def file_of_def of_partition_def log_bytes_def)
next
  case (ok torn log s r now fault s')
  then show ?case using storeRecord_inv by blast
next
  case (failed torn log s r now fault e s')
  then show ?case using storeRecord_inv by blast
next
  case (message torn log s now data)
  show ?case by (rule store_inv_cong [OF message.IH]) (simp_all add: message_frame)
next
  case (taken torn log s rs)
  show ?case by (rule store_inv_cong [OF taken.IH]) simp_all
next
  case (sync torn log s now topic part)
  then show ?case by (simp add: sync_inv)
qed

section \<open>Theorems\<close>

text \<open>The records a fetch should return: the latest stored at each offset, up to the first offset without one.\<close>

fun fetched :: "(int \<times> DafkaRecord) list \<Rightarrow> bytes \<Rightarrow> bytes \<Rightarrow> 64 word \<Rightarrow> nat \<Rightarrow> DafkaRecord list" where
  "fetched log t p offset 0 = []"
| "fetched log t p offset (Suc count) =
     (case latest log t p offset of
        None \<Rightarrow> []
      | Some nr \<Rightarrow> stored_record nr # fetched log t p (offset + 1) count)"

lemma latest_match: "latest log t p off = Some (now, r) \<Longrightarrow> r_Topic r = t \<and> r_Partition r = p"
  by (auto simp: latest_def find_Some_iff)

lemma readRecords_fetched:
  assumes "index_ok ord content (ps_Index p) (latest log (ps_Topic p) (ps_Partition p))"
  shows "readRecords content p offset count = (fetched log (ps_Topic p) (ps_Partition p) offset count, None)"
proof (induction count arbitrary: offset)
  case (Suc count)
  show ?case
  proof (cases "latest log (ps_Topic p) (ps_Partition p) offset")
    case None
    then have "ps_Index p offset = None" using assms by (auto simp: index_ok_def dest: spec [of _ offset])
    then show ?thesis using None by simp
  next
    case (Some nr)
    obtain now r where nr: "nr = (now, r)" by fastforce
    obtain pos where pos: "ps_Index p offset = Some pos" "written_at ord content pos (now, r)"
      using assms [unfolded index_ok_def, THEN spec, of offset] Some nr by auto
    then obtain post where "record_fits ord r" "drop pos content = record_bytes ord now r @ post"
      by (auto simp: written_at_def)
    then have "readRecord (ps_Topic p) (ps_Partition p) (drop pos content) = Ok (stored_record (now, r), post)"
      using readRecord_put [of ord r now post] latest_match [OF Some [unfolded nr]] by simp
    then show ?thesis using pos(1) Some nr Suc by simp
  qed
qed simp

lemma fetch_stored:
  assumes "store_run ord torn log s" "plain_partition t q"
  shows "processFetchRequest t q offset count s =
      (if st_partitions s (partitionKey t q) = None then ([], Some (Errorf ''partition not found''))
       else (fetched log t q offset (unat count), None)) \<and>
    (of_partition t q log \<noteq> [] \<longrightarrow> st_partitions s (partitionKey t q) \<noteq> None) \<and>
    (\<forall>p. st_partitions s (partitionKey t q) = Some p \<longrightarrow> ps_HeadOffset p = head_of (of_partition t q log))"
proof -
  note inv = stored_inv [OF assms(1)]
  have ok: "partition_ok ord torn log s (partitionKey t q) p" if "st_partitions s (partitionKey t q) = Some p" for p
    using inv that by (simp add: store_inv_def)
  note names = partition_ok_names [OF ok refl assms(2)]
  have "processFetchRequest t q offset count s = (fetched log t q offset (unat count), None)"
    if p: "st_partitions s (partitionKey t q) = Some p" for p
    using readRecords_fetched [of ord "file_of s (ps_File p)" p log offset "unat count"] ok [OF p] names [OF p] p
    by (simp add: partition_ok_def processFetchRequest_def file_of_def)
  moreover have "ps_HeadOffset p = head_of (of_partition t q log)" if p: "st_partitions s (partitionKey t q) = Some p" for p
    using ok [OF p] names [OF p] by (simp add: partition_ok_def)
  moreover have "of_partition t q log \<noteq> [] \<longrightarrow> st_partitions s (partitionKey t q) \<noteq> None"
    using inv assms(2) unfolding store_inv_def by blast
  moreover have "processFetchRequest t q offset count s = ([], Some (Errorf ''partition not found''))"
    if "st_partitions s (partitionKey t q) = None"
    using that by (simp add: processFetchRequest_def)
  ultimately show ?thesis by (cases "st_partitions s (partitionKey t q)") auto
qed


text \<open>
  C15: The store returns what was stored. The run starts on an empty disk and takes any steps: incoming
  messages, syncs, and records to store, where opening the file, seeking and writing may fail and a
  failed write leaves a part of a record in the file. Fetching from a partition then returns, from the
  requested offset on and up to the requested number, the latest record stored at each offset, stopping at
  the first offset that has none; the records are those stored, except that the time stamp is the
  time of storing. The head of a partition is the highest offset stored. In the run, and for the partition
  that is fetched, topics have no colon, dash or slash and partitions have no slash (otherwise
  partitions share keys or files, see \<open>dotted_topic_aliases\<close>), and the records
  stored with success fit the fields of the log entry (\<open>record_fits\<close>: key and value together under \<open>2 ^ 32\<close> bytes, at most
  255 headers, names and values of headers at most 65535 bytes).
\<close>

theorem store_returns_stored:
  assumes "store_run ord torn log s" "plain_partition t q"
  shows "processFetchRequest t q offset count s =
      (if st_partitions s (partitionKey t q) = None then ([], Some (Errorf ''partition not found''))
       else (fetched log t q offset (unat count), None)) \<and>
    (of_partition t q log \<noteq> [] \<longrightarrow> st_partitions s (partitionKey t q) \<noteq> None) \<and>
    (\<forall>p. st_partitions s (partitionKey t q) = Some p \<longrightarrow> ps_HeadOffset p = head_of (of_partition t q log))"
  by (rule fetch_stored [OF assms])

text \<open>A write that does not fail stores the record, and then the partition is open.\<close>

lemma storeRecord_succeeds:
  assumes "store_run ord torn log s" "plain_record r"
  obtains s' where "storeRecord ord now None r s = (Ok (), s')" "st_partitions s' (partitionKey (r_Topic r) (r_Partition r)) \<noteq> None"
proof (cases "st_partitions s (partitionKey (r_Topic r) (r_Partition r))")
  case None
  then obtain p where "createPartition None now (st_dataDir s) (r_Topic r) (r_Partition r) (st_disk s) =
      (Ok p, (st_disk s)(partition_path (st_dataDir s) (r_Topic r) (r_Partition r) \<mapsto> []))"
    using create_inv [OF stored_inv [OF assms(1)] assms(2) [unfolded plain_record_def]] by blast
  then show thesis using that None by (simp add: storeRecord_def store_in_def writeRecord_def write_file_ok Let_def)
next
  case (Some p)
  then show thesis using that by (simp add: storeRecord_def store_in_def writeRecord_def write_file_ok Let_def)
qed

definition sample_record :: "64 word \<Rightarrow> DafkaRecord" where
  "sample_record offset = \<lparr>r_Topic = str ''t'', r_Partition = str ''0'', r_Offset = offset, r_Key = str ''k'', r_Value = str ''value'',
     r_Headers = Map.empty, r_Timestamp = 3\<rparr>"

lemma NewStore_ok: obtains s where "NewStore None dataDir disk = Ok s" "st_records s = []"
  by (simp add: NewStore_def)

lemma sample_record_ok:
  "record_fits (\<lambda>_. []) (sample_record offset)" "plain_record (sample_record offset)" "plain_partition (str ''t'') (str ''0'')"
  "r_Topic (sample_record offset) = str ''t''" "r_Partition (sample_record offset) = str ''0''" "r_Offset (sample_record offset) = offset"
  by (simp_all add: record_fits_def sample_record_def ord_ok_def plain_record_def plain_partition_def plain_topic_def wire_simps)

lemma sample_stored:
  obtains s where "store_run (\<lambda>_. []) False [(5, sample_record 0), (6, sample_record 1)] s" "st_partitions s (partitionKey (str ''t'') (str ''0'')) \<noteq> None"
proof -
  note smp = sample_record_ok
  obtain s0 where s0: "NewStore None [] Map.empty = Ok s0" by (rule NewStore_ok)
  note st0 = store_run.new [OF s0]
  obtain s1 where s1: "storeRecord (\<lambda>_. []) 5 None (sample_record 0) s0 = (Ok (), s1)"
    by (rule storeRecord_succeeds [OF st0 smp(2)])
  have st1: "store_run (\<lambda>_. []) False [(5, sample_record 0)] s1"
    using store_run.ok [OF st0 smp(1,2) s1] by simp
  obtain s2 where s2: "storeRecord (\<lambda>_. []) 6 None (sample_record 1) s1 = (Ok (), s2)"
    "st_partitions s2 (partitionKey (r_Topic (sample_record 1)) (r_Partition (sample_record 1))) \<noteq> None"
    by (rule storeRecord_succeeds [OF st1 smp(2)])
  show thesis using that store_run.ok [OF st1 smp(1,2) s2(1)] s2(2) by (simp add: smp)
qed

theorem store_returns_stored_witness:
  "\<exists>s. processFetchRequest (str ''t'') (str ''0'') 0 5 s = ([(sample_record 0)\<lparr>r_Timestamp := 5\<rparr>, (sample_record 1)\<lparr>r_Timestamp := 6\<rparr>], None)"
proof -
  obtain s where s: "store_run (\<lambda>_. []) False [(5, sample_record 0), (6, sample_record 1)] s" "st_partitions s (partitionKey (str ''t'') (str ''0'')) \<noteq> None"
    by (rule sample_stored)
  have "fetched [(5, sample_record 0), (6, sample_record 1)] (str ''t'') (str ''0'') 0 5 =
      [(sample_record 0)\<lparr>r_Timestamp := 5\<rparr>, (sample_record 1)\<lparr>r_Timestamp := 6\<rparr>]"
    by (simp add: eval_nat_numeral latest_def sample_record_ok stored_record_def)
  then have "processFetchRequest (str ''t'') (str ''0'') 0 5 s = ([(sample_record 0)\<lparr>r_Timestamp := 5\<rparr>, (sample_record 1)\<lparr>r_Timestamp := 6\<rparr>], None)"
    using store_returns_stored [OF s(1) sample_record_ok(3), of 0 5] s(2) by simp
  then show ?thesis by blast
qed

section \<open>Reopening a partition\<close>

text \<open>What \<^verbatim>\<open>loadPartitionIndex\<close> makes of a list of records without headers that begins at position \<open>pos\<close>.\<close>

fun load_log :: "key_order \<Rightarrow> nat \<Rightarrow> (int \<times> DafkaRecord) list \<Rightarrow> PartitionStore \<Rightarrow> PartitionStore" where
  "load_log ord pos [] p = p"
| "load_log ord pos ((now, r) # log) p =
     load_log ord (pos + length (record_bytes ord now r)) log (index_entry (record_entry ord now r) pos p)"

definition no_headers :: "key_order \<Rightarrow> int \<times> DafkaRecord \<Rightarrow> bool" where
  "no_headers ord nr \<longleftrightarrow> entries ord (r_Headers (snd nr)) = [] \<and> record_fits ord (snd nr)"

lemma load_record:
  assumes "no_headers ord (now, r)"
  shows "loadPartitionIndex (pre @ record_bytes ord now r @ rest) (length pre) p =
    loadPartitionIndex (pre @ record_bytes ord now r @ rest) (length pre + length (record_bytes ord now r))
      (index_entry (record_entry ord now r) (length pre) p)"
proof -
  have fits: "record_fits ord r" and none: "entries ord (r_Headers r) = []" using assms by (simp_all add: no_headers_def)
  have "unat (le_HeaderCount (record_entry ord now r)) = 0" using record_entry_sizes(4) [OF fits] none by simp
  moreover have "length (record_bytes ord now r) =
      25 + unat (le_KeySize (record_entry ord now r) + le_ValueSize (record_entry ord now r))"
    using record_entry_sizes(3) [OF fits] none by (simp add: record_bytes_def)
  moreover have "drop (length pre) (pre @ record_bytes ord now r @ rest) =
      put_LogEntry (record_entry ord now r) @ r_Key r @ r_Value r @ rest"
    using none by (simp add: record_bytes_def)
  ultimately show ?thesis
    by (subst loadPartitionIndex.simps) (simp add: get_LogEntry_put, simp add: record_bytes_def none add.assoc)
qed

lemma load_log_eq:
  assumes "list_all (no_headers ord) log"
  shows "loadPartitionIndex (pre @ log_bytes ord log) (length pre) p = Ok (load_log ord (length pre) log p)"
  using assms
proof (induction log arbitrary: pre p)
  case Nil
  then show ?case by (simp add: log_bytes_def load_end)
next
  case (Cons nr log)
  obtain now r where nr: "nr = (now, r)" by fastforce
  have "log_bytes ord (nr # log) = record_bytes ord now r @ log_bytes ord log" by (simp add: nr log_bytes_def)
  then show ?case using load_record [of ord now r pre "log_bytes ord log" p] Cons.IH [of "pre @ record_bytes ord now r"] Cons.prems
    by (simp add: nr)
qed

lemma load_log_append: "load_log ord pos (l1 @ l2) p = load_log ord (pos + length (log_bytes ord l1)) l2 (load_log ord pos l1 p)"
  by (induction l1 arbitrary: pos p) (auto simp: log_bytes_def add.assoc)

lemma load_log_fields:
  assumes "ps_HeadOffset p = 0" "ps_Index p = Map.empty" "ps_RecordCount p = 0"
  shows "load_log ord 0 log p = p\<lparr>ps_Index := log_index ord log, ps_HeadOffset := head_of log, ps_RecordCount := of_nat (length log)\<rparr>"
proof (induction log rule: rev_induct)
  case Nil
  show ?case using assms by (cases p) (simp add: log_index_def head_of_def)
next
  case (snoc nr log)
  obtain now r where nr: "nr = (now, r)" by fastforce
  show ?case by (simp add: nr load_log_append snoc index_entry_def log_index_snoc head_of_snoc record_entry_def add.commute fun_upd_def)
qed

text \<open>
  The log file is enough to recover. After any run without a failed write, opening a partition whose records
  have no headers again, from the disk alone, gives the partition back: the same index, head and
  number of records; only the time of the last sync is new. The disk is not changed.
\<close>

theorem store_recovers:
  assumes "store_run ord False log s" "plain_partition t q" "st_partitions s (partitionKey t q) = Some p"
    "list_all (no_headers ord) (of_partition t q log)"
  shows "\<exists>disk. createPartition None now (st_dataDir s) t q (st_disk s) = (Ok (p\<lparr>ps_LastSync := now\<rparr>), disk) \<and>
    (\<forall>f. disk f = Some (file_of s f) \<or> disk f = st_disk s f)"
proof -
  have inv: "store_inv ord False log s" by (rule stored_inv [OF assms(1)])
  then have ok: "partition_ok ord False log s (partitionKey t q) p" using assms(3) by (simp add: store_inv_def)
  note names = partition_ok_names [OF ok refl assms(2)]
  let ?p = "\<lparr>ps_Topic = t, ps_Partition = q, ps_HeadOffset = 0, ps_File = partition_path (st_dataDir s) t q, ps_Index = Map.empty,
    ps_LastSync = now, ps_RecordCount = 0\<rparr>"
  have "file_of s (partition_path (st_dataDir s) t q) = log_bytes ord (of_partition t q log)" using inv assms(2) by (simp add: store_inv_def)
  then have "loadPartitionIndex (file_of s (partition_path (st_dataDir s) t q)) 0 ?p = Ok (load_log ord 0 (of_partition t q log) ?p)"
    using load_log_eq [OF assms(4), of "[]"] by simp
  also have "load_log ord 0 (of_partition t q log) ?p = p\<lparr>ps_LastSync := now\<rparr>"
    by (subst load_log_fields) (use ok names in \<open>simp_all add: partition_ok_def\<close>)
  finally show ?thesis by (auto simp: createPartition_def Let_def file_of_def)
qed

theorem store_recovers_witness:
  "\<exists>(s :: DafkaStore) p disk. createPartition None 9 (st_dataDir s) (str ''t'') (str ''0'') (st_disk s) = (Ok (p\<lparr>ps_LastSync := 9\<rparr>), disk) \<and>
     ps_HeadOffset p = 1 \<and> ps_RecordCount p = 2"
proof -
  let ?log = "[(5, sample_record 0), (6, sample_record 1)]"
  obtain s p where s: "store_run (\<lambda>_. []) False ?log s" "st_partitions s (partitionKey (str ''t'') (str ''0'')) = Some p"
    by (rule sample_stored) blast
  have log: "of_partition (str ''t'') (str ''0'') ?log = ?log" by (simp add: of_partition_def sample_record_ok)
  have "list_all (no_headers (\<lambda>_. [])) (of_partition (str ''t'') (str ''0'') ?log)"
    by (simp add: log no_headers_def sample_record_ok entries_def map_filter_simps)
  note reopened = store_recovers [OF s(1) sample_record_ok(3) s(2) this, of 9]
  have "partition_ok (\<lambda>_. []) False ?log s (partitionKey (str ''t'') (str ''0'')) p"
    using stored_inv [OF s(1)] s(2) by (simp add: store_inv_def)
  note ok = this partition_ok_names [OF this refl sample_record_ok(3)]
  have "ps_HeadOffset p = 1 \<and> ps_RecordCount p = 2"
    using ok log by (simp add: partition_ok_def head_of_def sample_record_ok)
  moreover obtain disk where "createPartition None 9 (st_dataDir s) (str ''t'') (str ''0'') (st_disk s) = (Ok (p\<lparr>ps_LastSync := 9\<rparr>), disk)"
    using reopened by (elim exE conjE)
  ultimately show ?thesis by blast
qed

text \<open>
  A partition with a record that has headers is not recovered: the index is built with the wrong
  position of the next record, and what follows is lost although it is in the file.
\<close>

definition header_record :: DafkaRecord where
  "header_record = (sample_record 0)\<lparr>r_Key := [], r_Value := [], r_Headers := [str ''k'' \<mapsto> str ''v'']\<rparr>"

lemma header_record_bytes:
  "record_bytes (\<lambda>m. if m = Map.empty then [] else [str ''k'']) now header_record =
     put_LogEntry \<lparr>le_Offset = 0, le_Timestamp = of_int now, le_KeySize = 0, le_ValueSize = 0, le_HeaderCount = 1\<rparr> @ [0, 1, 107, 0, 1, 118]"
  by (simp add: record_bytes_def record_entry_def header_record_def sample_record_def entries_def map_filter_simps put_header_def wire_simps)

lemma load_header_record:
  assumes "content = record_bytes (\<lambda>m. if m = Map.empty then [] else [str ''k'']) now header_record @ rest" "length rest < 1000"
  shows "\<exists>entry. loadPartitionIndex content 0 p = Ok (index_entry entry 0 p) \<and> le_Offset entry = 0"
proof -
  let ?e = "\<lparr>le_Offset = 0, le_Timestamp = of_int now, le_KeySize = 0, le_ValueSize = 0, le_HeaderCount = 1\<rparr> :: LogEntry"
  have c: "content = put_LogEntry ?e @ 0 # 1 # 107 # 0 # 1 # 118 # rest" using assms(1) header_record_bytes by simp
  have "get_many skip_header 1 (0 # 1 # 107 # 0 # 1 # 118 # rest) = Ok ([(1, 27392)], 1 # 118 # rest)"
    by (simp add: skip_header_def binary_Read_def get_be_def)
  then have "loadPartitionIndex content 0 p = loadPartitionIndex content (29 + 27397) (index_entry ?e 0 p)"
    by (subst loadPartitionIndex.simps) (simp add: c get_LogEntry_put header_skip_def)
  also have "\<dots> = Ok (index_entry ?e 0 p)" using assms(2) c by (simp add: load_end)
  finally show ?thesis by (intro exI [of _ ?e]) simp
qed

lemma reload_loses_records:
  "\<exists>ord log s p p' disk. store_run ord False log s \<and> st_partitions s (partitionKey (str ''t'') (str ''0'')) = Some p \<and> ps_Index p 1 \<noteq> None \<and>
     createPartition None 9 (st_dataDir s) (str ''t'') (str ''0'') (st_disk s) = (Ok p', disk) \<and> ps_Index p' 1 = None"
proof -
  let ?ord = "\<lambda>m. if m = Map.empty then [] else [str ''k'']" and ?log = "[(5, header_record), (6, sample_record 1)]"
  have names: "r_Topic header_record = str ''t''" "r_Partition header_record = str ''0''" by (simp_all add: header_record_def sample_record_def)
  have fits: "record_fits ?ord header_record" "record_fits ?ord (sample_record 1)"
    by (simp_all add: header_record_def sample_record_def record_fits_def ord_ok_def wire_simps)
  have plain: "plain_record header_record" by (simp add: plain_record_def names sample_record_ok)
  obtain s0 where s0: "NewStore None [] Map.empty = Ok s0" by (rule NewStore_ok)
  note st0 = store_run.new [OF s0]
  obtain s1 where s1: "storeRecord ?ord 5 None header_record s0 = (Ok (), s1)"
    by (rule storeRecord_succeeds [OF st0 plain])
  have st1: "store_run ?ord False [(5, header_record)] s1" using store_run.ok [OF st0 fits(1) plain s1] by simp
  obtain s2 where s2: "storeRecord ?ord 6 None (sample_record 1) s1 = (Ok (), s2)"
    "st_partitions s2 (partitionKey (r_Topic (sample_record 1)) (r_Partition (sample_record 1))) \<noteq> None"
    by (rule storeRecord_succeeds [OF st1 sample_record_ok(2)])
  have st: "store_run ?ord False ?log s2" using store_run.ok [OF st1 fits(2) sample_record_ok(2) s2(1)] by simp
  obtain p where p: "st_partitions s2 (partitionKey (str ''t'') (str ''0'')) = Some p" using s2(2) by (auto simp: sample_record_ok)
  have log: "of_partition (str ''t'') (str ''0'') ?log = ?log" by (simp add: of_partition_def sample_record_ok names)
  have ok: "partition_ok ?ord False ?log s2 (partitionKey (str ''t'') (str ''0'')) p"
    using stored_inv [OF st] p by (simp only: store_inv_def)
  have index: "ps_Index p 1 \<noteq> None"
    using ok partition_ok_names [OF ok refl sample_record_ok(3)] log by (simp add: partition_ok_def log_index_def sample_record_ok split: prod.split)
  have "file_of s2 (partition_path (st_dataDir s2) (str ''t'') (str ''0'')) = log_bytes ?ord ?log"
    using stored_inv [OF st] sample_record_ok(3) log by (simp only: store_inv_def) simp
  then have content: "file_of s2 (partition_path (st_dataDir s2) (str ''t'') (str ''0'')) = record_bytes ?ord 5 header_record @ record_bytes ?ord 6 (sample_record 1)"
    by (simp only: log_bytes_def list.map prod.case concat.simps append_Nil2)
  have short: "length (record_bytes ?ord 6 (sample_record 1)) < 1000"
    by (simp add: record_bytes_def sample_record_def entries_def map_filter_simps wire_simps)
  let ?p = "\<lparr>ps_Topic = str ''t'', ps_Partition = str ''0'', ps_HeadOffset = 0, ps_File = partition_path (st_dataDir s2) (str ''t'') (str ''0''), ps_Index = Map.empty,
    ps_LastSync = 9, ps_RecordCount = 0\<rparr>"
  obtain entry where "loadPartitionIndex (file_of s2 (partition_path (st_dataDir s2) (str ''t'') (str ''0''))) 0 ?p = Ok (index_entry entry 0 ?p)" "le_Offset entry = 0"
    using load_header_record [OF content short] by blast
  then obtain p' disk where "createPartition None 9 (st_dataDir s2) (str ''t'') (str ''0'') (st_disk s2) = (Ok p', disk)" "ps_Index p' 1 = None"
    by (simp add: createPartition_def Let_def file_of_def) (simp add: index_entry_def)
  then show ?thesis using st p index by blast
qed

end
