(* ===== verification/Dafka_System.thy ===== *)
theory Dafka_System
  imports Dafka_Producer Dafka_Store
begin

text \<open>
  A Dafka producer and a store together: what was produced is what the store returns. The messages
  that the producer gave to its PUB socket arrive at the store in order; the subscription loop and
  the record loop of the store interleave freely. Files can be opened and written.
\<close>

section \<open>Runs of the store on incoming messages\<close>

inductive storing :: "key_order \<Rightarrow> bytes list \<Rightarrow> DafkaStore \<Rightarrow> bool" for ord where
  start: "storing ord [] s" if "NewStore None dataDir Map.empty = Ok s"
| receive: "storing ord (inbox @ [data]) (store_processSubscriptionMessage now data s)"
    if "storing ord inbox s" "length (st_records s) < 10000"
| store: "storing ord inbox (recordLoop_step ord now None s)" if "storing ord inbox s"

definition untimed :: "DafkaRecord \<Rightarrow> DafkaRecord" where
  "untimed r = r\<lparr>r_Timestamp := 0\<rparr>"

definition record_sendable :: "key_order \<Rightarrow> DafkaRecord \<Rightarrow> bool" where
  "record_sendable ord r \<longleftrightarrow> length (r_Topic r) \<le> MaxTopicLength \<and> plain_record r \<and> length (r_Partition r) \<le> 255 \<and>
     length (r_Key r) \<le> 65535 \<and> length (r_Value r) \<le> MaxRecordSize \<and> map_ok ord (r_Headers r)"

lemma untimed_fields [simp]:
  "r_Topic (untimed r) = r_Topic r" "r_Partition (untimed r) = r_Partition r" "r_Offset (untimed r) = r_Offset r"
  "r_Key (untimed r) = r_Key r" "r_Value (untimed r) = r_Value r" "r_Headers (untimed r) = r_Headers r"
  by (simp_all add: untimed_def)

lemma untimed_stored [simp]: "untimed (stored_record nr) = untimed (snd nr)"
  by (simp add: untimed_def stored_record_def)

lemma sendable_fits: "record_sendable ord r \<Longrightarrow> record_fits ord r"
  by (fastforce simp: record_sendable_def record_fits_def map_ok_def MaxRecordSize_def)

lemma sendable_untimed: "untimed r = untimed r' \<Longrightarrow> record_sendable ord r \<longleftrightarrow> record_sendable ord r'"
  by (metis record_sendable_def plain_record_def untimed_fields)

lemma record_eq:
  "x\<lparr>dm_Signature := sig\<rparr> = \<lparr>dm_Signature = sig, dm_Version = v, dm_Type = k, dm_Topic = t, dm_Body = b\<rparr> \<Longrightarrow>
     dm_Type x = k \<and> dm_Topic x = t \<and> dm_Body x = b"
  by (cases x) simp

lemma storeRecord_records: "storeRecord ord now fault r s = (res, s') \<Longrightarrow> st_records s' = st_records s"
  by (auto simp: storeRecord_def store_in_def Let_def split: option.splits prod.splits result.splits)

lemma encoded_record_stored:
  assumes "record_sendable ord r" "encode_record ord r = Ok data" "length (st_records s) < 10000"
  shows "\<exists>x. st_records (store_processSubscriptionMessage now data s) = st_records s @ [x] \<and> untimed x = untimed r"
proof -
  let ?m = "\<lparr>rm_Partition = r_Partition r, rm_Offset = r_Offset r, rm_Key = r_Key r, rm_Value = r_Value r, rm_Headers = r_Headers r\<rparr>"
  have "RecordMessage_ok ord ?m" using assms(1) by (simp add: RecordMessage_ok_def record_sendable_def)
  then obtain b where b: "RecordMessage_Marshal ord ?m = Ok b" "RecordMessage_Unmarshal b = Ok ?m" using record_msg.roundtrip by blast
  let ?msg = "\<lparr>dm_Signature = (dafka_ProtocolSignature1, dafka_ProtocolSignature2), dm_Version = dafka_ProtocolVersion,
    dm_Type = MessageTypeRecord, dm_Topic = r_Topic r, dm_Body = b\<rparr>"
  have "Dafka_Marshal ?msg = Ok data"
    using assms(2) b(1) by (simp add: encode_record_def CreateRecordMessage_def dafka_message_def)
  from dafka.dec_enc [OF _ this] obtain msg where "Dafka_Unmarshal data = Ok msg" "dm_Type msg = MessageTypeRecord" "dm_Topic msg = r_Topic r" "dm_Body msg = b"
    using assms(1) by (cases "Dafka_Unmarshal data") (auto simp: record_sendable_def dest!: record_eq)
  then show ?thesis using b(2) assms(3)
    by (simp add: store_processSubscriptionMessage_def Let_def untimed_def)
qed

lemma storing_stored:
  assumes "storing ord inbox s" "list_all2 (\<lambda>data r. encode_record ord r = Ok data \<and> record_sendable ord r) inbox rs"
  shows "\<exists>log. store_run ord False log s \<and> map (\<lambda>nr. untimed (snd nr)) log @ map untimed (st_records s) = map untimed rs"
  using assms
proof (induction arbitrary: rs rule: storing.induct)
  case (start dataDir s)
  then have "st_records s = []" "rs = []" by (auto simp: NewStore_def)
  then show ?case using store_run.new [OF start.hyps] by (intro exI [of _ "[]"]) simp
next
  case (receive inbox s data now)
  then obtain rs' r where rs: "rs = rs' @ [r]" "list_all2 (\<lambda>data r. encode_record ord r = Ok data \<and> record_sendable ord r) inbox rs'"
    "encode_record ord r = Ok data" "record_sendable ord r"
    by (auto simp: list_all2_append1 list_all2_Cons1)
  then obtain log where log: "store_run ord False log s" "map (\<lambda>nr. untimed (snd nr)) log @ map untimed (st_records s) = map untimed rs'"
    using receive.IH by blast
  obtain x where x: "st_records (store_processSubscriptionMessage now data s) = st_records s @ [x]" "untimed x = untimed r"
    using encoded_record_stored [OF rs(4,3) receive.hyps(2)] by blast
  show ?case using store_run.message [OF log(1)] log(2) x rs(1) by (intro exI [of _ log]) (simp flip: log(2))
next
  case (store inbox s now)
  then obtain log where log: "store_run ord False log s" "map (\<lambda>nr. untimed (snd nr)) log @ map untimed (st_records s) = map untimed rs" by blast
  show ?case
  proof (cases "st_records s")
    case Nil
    then show ?thesis using log by (intro exI [of _ log]) (simp add: recordLoop_step_def)
  next
    case (Cons r queue)
    have "untimed r \<in> set (map untimed rs)" unfolding log(2) [symmetric] using Cons by simp
    then obtain r' where "r' \<in> set rs" "untimed r = untimed r'" by auto
    moreover have "record_sendable ord r'" if "r' \<in> set rs" for r' using store.prems that by (auto simp: list_all2_conv_all_nth in_set_conv_nth)
    ultimately have ok: "record_sendable ord r" using sendable_untimed by blast
    then have plain: "plain_record r" by (simp add: record_sendable_def)
    have taken: "store_run ord False log (s\<lparr>st_records := queue\<rparr>)" by (rule store_run.taken [OF log(1)])
    obtain s' where s': "storeRecord ord now None r (s\<lparr>st_records := queue\<rparr>) = (Ok (), s')" by (rule storeRecord_succeeds [OF taken plain])
    have "st_records s' = queue" using storeRecord_records [OF s'] by simp
    then show ?thesis
      using store_run.ok [OF taken sendable_fits [OF ok] plain s'] log(2) Cons s'
      by (intro exI [of _ "log @ [(now, r)]"]) (simp add: recordLoop_step_def)
  qed
qed

text \<open>The record loop can always catch up.\<close>

lemma storing_drains:
  assumes "list_all2 (\<lambda>data r. encode_record ord r = Ok data \<and> record_sendable ord r) inbox rs"
  shows "\<exists>s. storing ord inbox s \<and> st_records s = []"
  using assms
proof (induction inbox arbitrary: rs rule: rev_induct)
  case Nil
  obtain s where "NewStore None [] Map.empty = Ok s" "st_records s = []" by (rule NewStore_ok)
  then show ?case using storing.start by blast
next
  case (snoc data inbox)
  then obtain rs' r where rs: "list_all2 (\<lambda>data r. encode_record ord r = Ok data \<and> record_sendable ord r) inbox rs'"
    "encode_record ord r = Ok data" "record_sendable ord r"
    by (auto simp: list_all2_append1 list_all2_Cons1)
  then obtain s where s: "storing ord inbox s" "st_records s = []" using snoc.IH by blast
  let ?s = "store_processSubscriptionMessage 0 data s"
  obtain x where x: "st_records ?s = [x]"
    using encoded_record_stored [OF rs(3,2), of s 0] s(2) by auto
  have run: "storing ord (inbox @ [data]) ?s" using storing.receive [OF s(1)] s(2) by simp
  have "st_records (recordLoop_step ord 0 None ?s) = []"
    using storeRecord_records [of ord 0 None x "?s\<lparr>st_records := []\<rparr>"] x by (cases "storeRecord ord 0 None x (?s\<lparr>st_records := []\<rparr>)") (simp add: recordLoop_step_def)
  then show ?case using storing.store [OF run] by blast
qed

section \<open>A partition numbered from 0\<close>

lemma latest_partition: "latest log t q off = find (\<lambda>nr. r_Offset (snd nr) = off) (rev (of_partition t q log))"
proof (induction log rule: rev_induct)
  case (snoc nr log)
  then show ?case by (cases nr) (simp add: latest_def of_partition_def)
qed (simp add: latest_def of_partition_def)

lemma find_in: "find P xs = Some x \<Longrightarrow> x \<in> set xs \<and> P x"
  by (induction xs) (auto split: if_splits)

lemma find_rev_nth:
  assumes "\<And>i. i < length L \<Longrightarrow> f (L ! i) = (of_nat i :: 64 word)" "length L \<le> 2 ^ 64" "k < 2 ^ 64"
  shows "find (\<lambda>x. f x = of_nat k) (rev L) = (if k < length L then Some (L ! k) else None)"
proof -
  have eq: "f (L ! i) = of_nat k \<longleftrightarrow> i = k" if "i < length L" for i
  proof -
    have "i < 2 ^ 64" using that assms(2) by simp
    then have "(of_nat i :: 64 word) = of_nat k \<longleftrightarrow> i = k" using assms(3) by (simp add: word_of_nat_eq_iff take_bit_nat_eq_self)
    then show ?thesis using assms(1) [OF that] by simp
  qed
  show ?thesis
  proof (cases "k < length L")
    case False
    then have "\<not> (\<exists>x. x \<in> set (rev L) \<and> f x = of_nat k)" using eq by (auto simp: in_set_conv_nth)
    then show ?thesis using False by (simp add: find_None_iff)
  next
    case True
    then have "L ! k \<in> set (rev L) \<and> f (L ! k) = of_nat k" using eq by simp
    then obtain x where x: "find (\<lambda>x. f x = of_nat k) (rev L) = Some x" by (metis (mono_tags, lifting) find_None_iff not_None_eq)
    then have "x \<in> set L" "f x = of_nat k" using find_in [OF x] by simp_all
    then have "x = L ! k" using eq by (auto simp: in_set_conv_nth)
    then show ?thesis using x True by simp
  qed
qed

lemma fetched_numbered:
  assumes "\<And>i. i < length (of_partition t q log) \<Longrightarrow> r_Offset (snd (of_partition t q log ! i)) = of_nat i" "length (of_partition t q log) < 2 ^ 64"
    "k \<le> length (of_partition t q log)"
  shows "fetched log t q (of_nat k) n = map stored_record (take n (drop k (of_partition t q log)))"
  using assms(3)
proof (induction n arbitrary: k)
  case (Suc n)
  let ?L = "of_partition t q log"
  have k: "latest log t q (of_nat k) = (if k < length ?L then Some (?L ! k) else None)"
    unfolding latest_partition using assms(1,2) Suc.prems by (intro find_rev_nth) simp_all
  show ?case
  proof (cases "k < length ?L")
    case True
    then have "fetched log t q (of_nat (Suc k)) n = map stored_record (take n (drop (Suc k) ?L))" by (intro Suc.IH) simp
    then show ?thesis using k True by (simp add: Cons_nth_drop_Suc [symmetric] add.commute)
  qed (use k in simp)
qed simp

section \<open>From the producer to the store\<close>

lemma batches_partition:
  assumes inv: "producer_inv u qs bs p"
  shows "filter (\<lambda>r. r_Topic r = t \<and> r_Partition r = u) (concat (map rb_Records bs)) = batch_records t bs"
proof -
  have rec: "r_Topic r = rb_Topic b \<and> r_Partition r = u" if "b \<in> set bs" "r \<in> set (rb_Records b)" for b r
  proof -
    have "r \<in> set (batch_records (rb_Topic b) (bs @ dp_batches p) @ pending_records (rb_Topic b) p)"
      using that by (auto simp: batch_records_def)
    moreover have "batch_records (rb_Topic b) (bs @ dp_batches p) @ pending_records (rb_Topic b) p = number u 0 (to_topic (rb_Topic b) qs)"
      using inv by (simp add: producer_inv_def)
    ultimately have "r \<in> set (number u 0 (to_topic (rb_Topic b) qs))" by (simp only:)
    then obtain i where i: "i < length (to_topic (rb_Topic b) qs)" "r = number u 0 (to_topic (rb_Topic b) qs) ! i"
      by (auto simp: in_set_conv_nth)
    have "to_topic (rb_Topic b) qs ! i \<in> set (to_topic (rb_Topic b) qs)" using i(1) by simp
    then have "pq_Topic (to_topic (rb_Topic b) qs ! i) = rb_Topic b" by (auto simp: to_topic_def)
    then show ?thesis using number_nth [OF i(1), of u 0] i(2) by simp
  qed
  have "filter (\<lambda>r. r_Topic r = t \<and> r_Partition r = u) (concat (map rb_Records cs)) = batch_records t cs" if "set cs \<subseteq> set bs" for cs
    using that
  proof (induction cs)
    case (Cons b cs)
    have "filter (\<lambda>r. r_Topic r = t \<and> r_Partition r = u) (rb_Records b) = (if rb_Topic b = t then rb_Records b else [])"
      using rec [of b] Cons.prems by (auto simp: filter_empty_conv intro!: filter_True)
    then show ?case using Cons by (simp add: batch_records_def)
  qed (simp add: batch_records_def)
  then show ?thesis by simp
qed

definition request_valid :: "key_order \<Rightarrow> ProduceRequest \<Rightarrow> bool" where
  "request_valid ord q \<longleftrightarrow> length (pq_Topic q) \<le> MaxTopicLength \<and> plain_topic (pq_Topic q) \<and> length (pq_Key q) \<le> 65535 \<and>
     length (pq_Value q) \<le> MaxRecordSize \<and> map_ok ord (pq_Headers q)"

definition producer_name_ok :: "bytes \<Rightarrow> bool" where
  "producer_name_ok u \<longleftrightarrow> length u \<le> 255 \<and> set (str ''/'') \<inter> set u = {}"

lemma number_sendable:
  assumes "\<forall>q \<in> set qs. request_valid ord q" "producer_name_ok u" "r \<in> set (number u n qs)"
  shows "record_sendable ord r"
  using assms by (induction qs arbitrary: n) (auto simp: request_valid_def record_sendable_def producer_name_ok_def plain_record_def plain_partition_def)

lemma batch_record_numbered:
  assumes "producer_inv u qs bs p" "r \<in> set (concat (map rb_Records bs))"
  shows "\<exists>t. r \<in> set (number u 0 (to_topic t qs))"
proof -
  obtain b where "b \<in> set bs" "r \<in> set (rb_Records b)" using assms(2) by auto
  then have "r \<in> set (batch_records (rb_Topic b) (bs @ dp_batches p) @ pending_records (rb_Topic b) p)" by (auto simp: batch_records_def)
  moreover have "batch_records (rb_Topic b) (bs @ dp_batches p) @ pending_records (rb_Topic b) p = number u 0 (to_topic (rb_Topic b) qs)"
    using assms(1) by (simp add: producer_inv_def)
  ultimately show ?thesis by metis
qed

lemma produced_is_stored:
  assumes run: "producing ord p0 qs os bs p" "producer_inv u [] [] p0" "dp_pc p0 = Waiting" "dp_out p0 = []"
    and sent: "length (dp_out p) = length (concat (map rb_Records bs))"
    and drained: "dp_batches p = []" "pending_records t p = []"
    and valid: "\<forall>q \<in> set qs. request_valid ord q" "producer_name_ok u"
    and arrived: "storing ord (dp_out p) s" "st_records s = []"
  shows "\<exists>log. store_run ord False log s \<and> map (\<lambda>nr. untimed (snd nr)) (of_partition t u log) = map untimed (number u 0 (to_topic t qs))"
proof -
  have inv: "producer_inv u qs bs p" using producing_inv [OF run(1-3)] by simp
  let ?rs = "concat (map rb_Records bs)"
  obtain ss where "subseq ss ?rs" "list_all2 (\<lambda>m r. encode_record ord r = Ok m) (dp_out p) ss"
    using producing_sent [OF run(1,4)] by (auto simp: sent_from_def)
  then have enc: "list_all2 (\<lambda>m r. encode_record ord r = Ok m) (dp_out p) ?rs"
    using subseq_same_length [of ss ?rs] sent list_all2_lengthD by metis
  have ok: "record_sendable ord r" if r: "r \<in> set ?rs" for r
  proof -
    obtain t where "r \<in> set (number u 0 (to_topic t qs))" using batch_record_numbered [OF inv r] by blast
    then show ?thesis using valid by (intro number_sendable [of "to_topic t qs"]) (auto simp: to_topic_def)
  qed
  have "list_all2 (\<lambda>m r. encode_record ord r = Ok m \<and> record_sendable ord r) (dp_out p) ?rs"
    using enc ok [OF nth_mem] by (auto simp: list_all2_conv_all_nth)
  then obtain log where log: "store_run ord False log s" "map (\<lambda>nr. untimed (snd nr)) log = map untimed ?rs"
    using storing_stored [OF arrived(1)] arrived(2) by fastforce
  have "map (\<lambda>nr. untimed (snd nr)) (of_partition t u log) =
      filter (\<lambda>r. r_Topic r = t \<and> r_Partition r = u) (map (\<lambda>nr. untimed (snd nr)) log)"
    by (simp add: of_partition_def filter_map o_def case_prod_unfold)
  also have "\<dots> = map untimed (filter (\<lambda>r. r_Topic r = t \<and> r_Partition r = u) ?rs)"
    unfolding log(2) by (simp add: filter_map o_def)
  also have "\<dots> = map untimed (number u 0 (to_topic t qs))"
  proof -
    have "batch_records t (bs @ dp_batches p) @ pending_records t p = number u 0 (to_topic t qs)" using inv by (simp add: producer_inv_def)
    then show ?thesis using batches_partition [OF inv, of t] drained by simp
  qed
  finally show ?thesis using log(1) by blast
qed

text \<open>
  C11: What was produced is what the store returns. For every interleaving of the goroutines of
  the producer and of the store, when every message was sent, everything flushed and everything
  stored, a fetch from offset 0 of the producer's partition of a topic returns the records that
  were produced to the topic, in the order of the requests, up to the requested number; only the
  time stamps are those of the store. This is for requests within the limits of the wire format,
  topics without colon, dash and slash, a name of the producer (its partition) without slash, fewer than
  \<open>2 ^ 64\<close> records, a record queue of the store that is never full, and a disk on which the files can be opened and written.
\<close>

theorem dafka_end_to_end:
  assumes "producing ord (NewProducer gen uuid batchSize lingerMs) qs os bs p" "u = (if uuid = [] then gen else uuid)"
    "length (dp_out p) = length (concat (map rb_Records bs))" "dp_batches p = []" "pending_records t p = []"
    "\<forall>q \<in> set qs. request_valid ord q" "producer_name_ok u" "plain_topic t" "to_topic t qs \<noteq> []" "length (to_topic t qs) < 2 ^ 64"
    "storing ord (dp_out p) s" "st_records s = []"
  shows "\<exists>records. processFetchRequest t u 0 count s = (records, None) \<and>
    map untimed records = take (unat count) (map untimed (number u 0 (to_topic t qs)))"
proof -
  have "producer_inv u [] [] (NewProducer gen uuid batchSize lingerMs)" "dp_out (NewProducer gen uuid batchSize lingerMs) = []"
    using NewProducer_inv(1) assms(2) by (simp_all add: NewProducer_def)
  then obtain log where log: "store_run ord False log s" "map (\<lambda>nr. untimed (snd nr)) (of_partition t u log) = map untimed (number u 0 (to_topic t qs))"
    using produced_is_stored [OF assms(1) _ NewProducer_inv(2) _ assms(3-7) assms(11,12)] by blast
  have plain: "plain_partition t u" using assms(7,8) by (simp add: producer_name_ok_def plain_partition_def)
  let ?L = "of_partition t u log"
  have len: "length ?L = length (to_topic t qs)" using arg_cong [OF log(2), of length] by simp
  have offset: "r_Offset (snd (?L ! i)) = of_nat i" if i: "i < length ?L" for i
  proof -
    have "untimed (snd (?L ! i)) = untimed (number u 0 (to_topic t qs) ! i)" using arg_cong [OF log(2), of "\<lambda>l. l ! i"] i len by simp
    then have "r_Offset (snd (?L ! i)) = r_Offset (number u 0 (to_topic t qs) ! i)" by (metis untimed_fields(3))
    then show ?thesis using number_nth [of i "to_topic t qs" u 0] i len by simp
  qed
  have "fetched log t u 0 (unat count) = map stored_record (take (unat count) ?L)"
    using fetched_numbered [of t u log 0 "unat count", OF offset] len assms(10) by simp
  moreover have "st_partitions s (partitionKey t u) \<noteq> None" "processFetchRequest t u 0 count s =
      (if st_partitions s (partitionKey t u) = None then ([], Some (Errorf ''partition not found'')) else (fetched log t u 0 (unat count), None))"
    using fetch_stored [OF log(1) plain, of 0 count] len assms(9) by auto
  ultimately have "processFetchRequest t u 0 count s = (map stored_record (take (unat count) ?L), None)" by simp
  moreover have "map untimed (map stored_record (take (unat count) ?L)) = take (unat count) (map untimed (number u 0 (to_topic t qs)))"
    unfolding log(2) [symmetric] by (simp add: take_map)
  ultimately show ?thesis by blast
qed

theorem dafka_end_to_end_witness:
  "\<exists>s records. processFetchRequest (str ''t'') (str ''u'') 0 10 s = (records, None) \<and>
     map untimed records = map untimed (number (str ''u'') 0 [dafka_request ''a'', dafka_request ''b''])"
proof -
  let ?ord = "\<lambda>_. []" and ?qs = "[dafka_request ''a'', dafka_request ''b'']"
  obtain p b where p: "producing ?ord (NewProducer [] (str ''u'') 2 100) ?qs [0, 1] [b] p" "dp_batches p = []"
    "pending_records (str ''t'') p = []" "length (dp_out p) = 2" "rb_Topic b = str ''t''"
    using sample_producer_run by blast
  have qs: "to_topic (str ''t'') ?qs = ?qs" "\<forall>q \<in> set ?qs. request_valid ?ord q" "plain_topic (str ''t'')" "(if str ''u'' = [] then [] else str ''u'') = str ''u''"
    by (simp_all add: to_topic_def dafka_request_def request_valid_def MaxTopicLength_def MaxRecordSize_def map_ok_def ord_ok_def plain_topic_def wire_simps)
  have inv: "producer_inv (str ''u'') ?qs [b] p"
    using producing_inv [OF p(1) NewProducer_inv(1) NewProducer_inv(2)] qs(4) by simp
  have recs: "rb_Records b = number (str ''u'') 0 ?qs"
    using inv p(2,3,5) qs(1) by (auto simp: producer_inv_def batch_records_def dest!: spec [of _ "str ''t''"])
  have sent: "length (dp_out p) = length (concat (map rb_Records [b]))" using p(4) recs by simp
  obtain ss where ss: "subseq ss (rb_Records b)" "list_all2 (\<lambda>m r. encode_record ?ord r = Ok m) (dp_out p) ss"
    using producing_sent [OF p(1)] by (auto simp: sent_from_def NewProducer_def)
  then have "list_all2 (\<lambda>m r. encode_record ?ord r = Ok m) (dp_out p) (number (str ''u'') 0 ?qs)"
    using subseq_same_length [of ss "rb_Records b"] sent list_all2_lengthD [OF ss(2)] recs by simp
  moreover have ok: "record_sendable ?ord r" if "r \<in> set (number (str ''u'') 0 ?qs)" for r
    using number_sendable [OF qs(2) _ that] by (simp add: producer_name_ok_def wire_simps)
  ultimately have "list_all2 (\<lambda>m r. encode_record ?ord r = Ok m \<and> record_sendable ?ord r) (dp_out p) (number (str ''u'') 0 ?qs)"
    using ok [OF nth_mem] by (auto simp: list_all2_conv_all_nth)
  then obtain s where s: "storing ?ord (dp_out p) s" "st_records s = []" using storing_drains by blast
  have "\<exists>records. processFetchRequest (str ''t'') (str ''u'') 0 10 s = (records, None) \<and>
      map untimed records = take (unat (10 :: 32 word)) (map untimed (number (str ''u'') 0 (to_topic (str ''t'') ?qs)))"
    by (rule dafka_end_to_end [OF p(1) qs(4) [symmetric] sent p(2,3) qs(2) _ qs(3) _ _ s]) (simp add: producer_name_ok_def wire_simps, simp_all add: qs(1))
  moreover have "take (unat (10 :: 32 word)) (map untimed (number (str ''u'') 0 (to_topic (str ''t'') ?qs))) = map untimed (number (str ''u'') 0 ?qs)"
    by (simp add: qs(1))
  ultimately show ?thesis by metis
qed

end
