(* ===== verification/Dafka_Consumer.thy ===== *)
theory Dafka_Consumer
  imports Dafka_Store Run_Order
begin

text \<open>
  The consumer of Dafka (\<^verbatim>\<open>dafka/consumer.go\<close>): it decodes the messages of the SUB socket, queues the
  records of the subscribed topics, asks for records it seems to have missed, hands the records
  out through \<^verbatim>\<open>Poll\<close>, \<^verbatim>\<open>Consume\<close> and the channel of \<^verbatim>\<open>Records\<close>, and commits offsets. Each step is a section that no other
  goroutine interrupts; the runs interleave them freely.
\<close>

section \<open>Data\<close>

record PartitionState =
  cp_Topic :: bytes
  cp_Partition :: bytes
  cp_LastOffset :: "64 word"
  cp_CommittedOffset :: "64 word"
  cp_HighWatermark :: "64 word"
  cp_LastFetch :: int
  cp_Lagging :: bool

record FetchRequest =
  fr_Topic :: bytes
  fr_Partition :: bytes
  fr_Offset :: "64 word"
  fr_Count :: "32 word"

type_synonym offsets = "bytes \<rightharpoonup> bytes \<rightharpoonup> 64 word"

record Consumer =
  dc_FetchSize :: int
  dc_AutoCommit :: bool
  dc_subscriptions :: "bytes \<rightharpoonup> int"
  dc_options :: "(bool \<times> bytes) list"
  dc_partitions :: "bytes \<rightharpoonup> PartitionState"
  dc_records :: "DafkaRecord list"
  dc_fetchRequests :: "FetchRequest list"
  dc_acks :: "AckMessage list"
  dc_commits :: "offsets list"
  dc_dealer :: "bytes list"
  dc_MessagesIn :: "64 word"
  dc_BytesIn :: "64 word"
  dc_RecordsConsumed :: "64 word"
  dc_BytesConsumed :: "64 word"
  dc_ConsumeErrors :: "64 word"

definition NewConsumer :: "int \<Rightarrow> bool \<Rightarrow> Consumer" where
  "NewConsumer fetchSize autoCommit =
     \<lparr>dc_FetchSize = (if fetchSize \<le> 0 then 1000 else fetchSize), dc_AutoCommit = autoCommit, dc_subscriptions = Map.empty,
      dc_options = [], dc_partitions = Map.empty, dc_records = [], dc_fetchRequests = [], dc_acks = [], dc_commits = [], dc_dealer = [],
      dc_MessagesIn = 0, dc_BytesIn = 0, dc_RecordsConsumed = 0, dc_BytesConsumed = 0, dc_ConsumeErrors = 0\<rparr>"

section \<open>Subscriptions\<close>

text \<open>\<open>dc_options\<close> are the options set on the SUB socket: \<^verbatim>\<open>True\<close> for subscribe.\<close>

definition subscribeToTopics :: "int \<Rightarrow> bytes list \<Rightarrow> Consumer \<Rightarrow> Consumer" where
  "subscribeToTopics now topics c = foldl (\<lambda>c topic.
     c\<lparr>dc_subscriptions := (dc_subscriptions c)(topic \<mapsto> now), dc_options := dc_options c @ [(True, topic)]\<rparr>) c topics"

definition unsubscribeFromTopics :: "bytes list \<Rightarrow> Consumer \<Rightarrow> Consumer" where
  "unsubscribeFromTopics topics c = foldl (\<lambda>c topic.
     c\<lparr>dc_subscriptions := (dc_subscriptions c)(topic := None), dc_options := dc_options c @ [(False, topic)],
       dc_partitions := (\<lambda>key. case dc_partitions c key of
          None \<Rightarrow> None
        | Some st \<Rightarrow> if cp_Topic st = topic then None else Some st)\<rparr>) c topics"

section \<open>Incoming messages\<close>

text \<open>The count is the gap in 32 bits, limited to the fetch size in 32 bits.\<close>

definition requestMissingRecords :: "bytes \<Rightarrow> bytes \<Rightarrow> 64 word \<Rightarrow> 64 word \<Rightarrow> Consumer \<Rightarrow> Consumer" where
  "requestMissingRecords topic part startOffset endOffset c =
     (if startOffset \<ge> endOffset then c
      else
        let count = ucast (endOffset - startOffset) :: 32 word;
            limit = of_int (dc_FetchSize c) :: 32 word;
            count = (if count > limit then limit else count);
            request = \<lparr>fr_Topic = topic, fr_Partition = part, fr_Offset = startOffset, fr_Count = count\<rparr> in
        if length (dc_fetchRequests c) < 1000 then c\<lparr>dc_fetchRequests := dc_fetchRequests c @ [request]\<rparr> else c)"

definition expectedOffset :: "bytes \<Rightarrow> bytes \<Rightarrow> Consumer \<Rightarrow> 64 word" where
  "expectedOffset topic part c =
     (case dc_partitions c (partitionKey topic part) of None \<Rightarrow> 0 | Some st \<Rightarrow> cp_LastOffset st + 1)"

definition deliver_record :: "DafkaRecord \<Rightarrow> Consumer \<Rightarrow> Consumer" where
  "deliver_record record c =
     (if length (dc_records c) < 10000
      then c\<lparr>dc_records := dc_records c @ [record], dc_RecordsConsumed := dc_RecordsConsumed c + 1,
             dc_BytesConsumed := dc_BytesConsumed c + of_nat (length (r_Key record) + length (r_Value record))\<rparr>
      else c\<lparr>dc_ConsumeErrors := dc_ConsumeErrors c + 1\<rparr>)"

definition record_of :: "int \<Rightarrow> bytes \<Rightarrow> RecordMessage \<Rightarrow> DafkaRecord" where
  "record_of now topic m = \<lparr>r_Topic = topic, r_Partition = rm_Partition m, r_Offset = rm_Offset m, r_Key = rm_Key m,
     r_Value = rm_Value m, r_Headers = rm_Headers m, r_Timestamp = now\<rparr>"

definition processRecordMessage :: "int \<Rightarrow> DafkaMessage \<Rightarrow> Consumer \<Rightarrow> Consumer" where
  "processRecordMessage now msg c =
     (case RecordMessage_Unmarshal (dm_Body msg) of
        Ok m \<Rightarrow>
          let record = record_of now (dm_Topic msg) m;
              expected = expectedOffset (dm_Topic msg) (rm_Partition m) c;
              c = (if r_Offset record \<noteq> expected
                   then requestMissingRecords (dm_Topic msg) (rm_Partition m) expected (r_Offset record) c else c) in
          deliver_record record c
      | _ \<Rightarrow> c\<lparr>dc_ConsumeErrors := dc_ConsumeErrors c + 1\<rparr>)"

definition processHeadMessage :: "DafkaMessage \<Rightarrow> Consumer \<Rightarrow> Consumer" where
  "processHeadMessage msg c =
     (case HeadMessage_Unmarshal (dm_Body msg) of
        Ok m \<Rightarrow>
          let key = partitionKey (dm_Topic msg) (hm_Partition m) in
          (case dc_partitions c key of
             None \<Rightarrow> c
           | Some st \<Rightarrow> c\<lparr>dc_partitions := (dc_partitions c)(key \<mapsto>
               st\<lparr>cp_HighWatermark := hm_Offset m, cp_Lagging := (cp_LastOffset st < hm_Offset m)\<rparr>)\<rparr>)
      | _ \<Rightarrow> c\<lparr>dc_ConsumeErrors := dc_ConsumeErrors c + 1\<rparr>)"

definition consumer_processSubscriptionMessage :: "int \<Rightarrow> bytes \<Rightarrow> Consumer \<Rightarrow> Consumer" where
  "consumer_processSubscriptionMessage now data c =
     (case Dafka_Unmarshal data of
        Ok msg \<Rightarrow>
          if dc_subscriptions c (dm_Topic msg) = None then c
          else
            let c = (if dm_Type msg = MessageTypeRecord then processRecordMessage now msg c
                     else if dm_Type msg = MessageTypeHead then processHeadMessage msg c
                     else c) in
            c\<lparr>dc_MessagesIn := dc_MessagesIn c + 1, dc_BytesIn := dc_BytesIn c + of_nat (length data)\<rparr>
      | _ \<Rightarrow> c\<lparr>dc_ConsumeErrors := dc_ConsumeErrors c + 1\<rparr>)"

section \<open>Handing out\<close>

definition updatePartitionState :: "int \<Rightarrow> DafkaRecord \<Rightarrow> Consumer \<Rightarrow> Consumer" where
  "updatePartitionState now record c =
     (let key = partitionKey (r_Topic record) (r_Partition record);
          st = (case dc_partitions c key of
            None \<Rightarrow> \<lparr>cp_Topic = r_Topic record, cp_Partition = r_Partition record, cp_LastOffset = r_Offset record,
              cp_CommittedOffset = 0, cp_HighWatermark = r_Offset record, cp_LastFetch = now, cp_Lagging = False\<rparr>
          | Some st \<Rightarrow> st\<lparr>cp_LastOffset := r_Offset record, cp_LastFetch := now\<rparr>) in
      c\<lparr>dc_partitions := (dc_partitions c)(key \<mapsto> st)\<rparr>)"

text \<open>\<^verbatim>\<open>None\<close>: the time is over and there is no record.\<close>

definition Poll :: "int \<Rightarrow> Consumer \<Rightarrow> DafkaRecord option \<times> Consumer" where
  "Poll now c =
     (case dc_records c of
        [] \<Rightarrow> (None, c)
      | record # rs \<Rightarrow> (Some record, updatePartitionState now record (c\<lparr>dc_records := rs\<rparr>)))"

text \<open>One round of \<^verbatim>\<open>Consume\<close>: the record handed to the handler, and the error with which \<^verbatim>\<open>Consume\<close> returns.\<close>

definition Consume_round :: "(DafkaRecord \<Rightarrow> go_error option) \<Rightarrow> int \<Rightarrow> Consumer \<Rightarrow> (DafkaRecord option \<times> go_error option) \<times> Consumer" where
  "Consume_round handler now c =
     (case dc_records c of
        [] \<Rightarrow> ((None, None), c)
      | record # rs \<Rightarrow>
          let c = updatePartitionState now record (c\<lparr>dc_records := rs\<rparr>) in
          (case handler record of
             Some e \<Rightarrow> ((Some record, Some (Wrapf ''handler error'' e)), c\<lparr>dc_ConsumeErrors := dc_ConsumeErrors c + 1\<rparr>)
           | None \<Rightarrow> ((Some record, None),
               if \<not> dc_AutoCommit c \<and> length (dc_acks c) < 10000
               then c\<lparr>dc_acks := dc_acks c @ [\<lparr>am_Partition = r_Partition record, am_Offset = r_Offset record\<rparr>]\<rparr> else c)))"

section \<open>Fetching and committing\<close>

text \<open>\<open>send\<close> is what the DEALER socket reports; the response channel of the request has no reader.\<close>

definition consumer_processFetchRequest :: "go_error option \<Rightarrow> FetchRequest \<Rightarrow> Consumer \<Rightarrow> (DafkaRecord list \<times> go_error option) \<times> Consumer" where
  "consumer_processFetchRequest send request c =
     (case and_then (CreateFetchMessage (fr_Topic request) (fr_Partition request) (fr_Offset request) (fr_Count request)) Dafka_Marshal of
        Ok data \<Rightarrow>
          (case send of
             Some e \<Rightarrow> (([], Some e), c)
           | None \<Rightarrow> (([], None), c\<lparr>dc_dealer := dc_dealer c @ [data]\<rparr>))
      | Err e \<Rightarrow> (([], Some e), c)
      | Panic m \<Rightarrow> (([], Some (Errorf m)), c))"

definition current_offsets :: "bytes list \<Rightarrow> Consumer \<Rightarrow> offsets" where
  "current_offsets keys c = foldl (\<lambda>m key.
     case dc_partitions c key of
       None \<Rightarrow> m
     | Some st \<Rightarrow>
         let topicOffsets = (case m (cp_Topic st) of None \<Rightarrow> Map.empty | Some t \<Rightarrow> t) in
         m(cp_Topic st \<mapsto> topicOffsets(cp_Partition st \<mapsto> cp_LastOffset st))) Map.empty keys"

definition Commit_enqueue :: "bytes list \<Rightarrow> Consumer \<Rightarrow> unit result \<times> Consumer" where
  "Commit_enqueue keys c =
     (if length (dc_commits c) < 100 then (Ok (), c\<lparr>dc_commits := dc_commits c @ [current_offsets keys c]\<rparr>)
      else (Err (Errorf ''commit queue full''), c))"

definition commitOffsets :: "bytes list \<Rightarrow> Consumer \<Rightarrow> Consumer" where
  "commitOffsets keys c =
     (if current_offsets keys c = Map.empty then c
      else if length (dc_commits c) < 100 then c\<lparr>dc_commits := dc_commits c @ [current_offsets keys c]\<rparr>
      else c)"

definition commit_offset :: "offsets \<Rightarrow> Consumer \<Rightarrow> bytes \<times> bytes \<Rightarrow> Consumer" where
  "commit_offset offs c tp =
     (case offs (fst tp) of
        None \<Rightarrow> c
      | Some m \<Rightarrow>
          (case m (snd tp) of
             None \<Rightarrow> c
           | Some offset \<Rightarrow>
               let key = partitionKey (fst tp) (snd tp) in
               (case dc_partitions c key of
                  None \<Rightarrow> c
                | Some st \<Rightarrow> c\<lparr>dc_partitions := (dc_partitions c)(key \<mapsto> st\<lparr>cp_CommittedOffset := offset\<rparr>)\<rparr>)))"

text \<open>The topics and partitions of the request are visited in the order \<open>pairs\<close>.\<close>

definition processCommitRequest :: "(bytes \<times> bytes) list \<Rightarrow> offsets \<Rightarrow> Consumer \<Rightarrow> Consumer" where
  "processCommitRequest pairs offs c = foldl (commit_offset offs) c pairs"

section \<open>Runs\<close>

text \<open>
  A record taken from the channel that \<^verbatim>\<open>Records\<close> returns; the state of its partition is not changed.
\<close>

definition Records_receive :: "Consumer \<Rightarrow> (DafkaRecord \<times> Consumer) option" where
  "Records_receive c = (case dc_records c of [] \<Rightarrow> None | record # rs \<Rightarrow> Some (record, c\<lparr>dc_records := rs\<rparr>))"

text \<open>
  Beside the state: the records received on subscribed topics, each with the number of records that had
  been handed out when it arrived, and the records handed out.
\<close>

definition received_record :: "int \<Rightarrow> bytes \<Rightarrow> Consumer \<Rightarrow> DafkaRecord list" where
  "received_record now data c =
     (case Dafka_Unmarshal data of
        Ok msg \<Rightarrow>
          if dc_subscriptions c (dm_Topic msg) = None \<or> dm_Type msg \<noteq> MessageTypeRecord then []
          else (case RecordMessage_Unmarshal (dm_Body msg) of Ok m \<Rightarrow> [record_of now (dm_Topic msg) m] | _ \<Rightarrow> [])
      | _ \<Rightarrow> [])"

inductive consuming :: "Consumer \<Rightarrow> (nat \<times> DafkaRecord) list \<Rightarrow> DafkaRecord list \<Rightarrow> Consumer \<Rightarrow> bool" for c0 where
  start: "consuming c0 [] [] c0"
| subscribe: "consuming c0 rin out (subscribeToTopics now topics c)" if "consuming c0 rin out c"
| unsubscribe: "consuming c0 rin out (unsubscribeFromTopics topics c)" if "consuming c0 rin out c"
| message: "consuming c0 (rin @ map (Pair (length out)) (received_record now data c)) out (consumer_processSubscriptionMessage now data c)"
    if "consuming c0 rin out c"
| poll: "consuming c0 rin (out @ [r]) c'" if "consuming c0 rin out c" "Poll now c = (Some r, c')"
| consume: "consuming c0 rin (out @ [r]) c'" if "consuming c0 rin out c" "Consume_round handler now c = ((Some r, err), c')"
| records: "consuming c0 rin (out @ [r]) c'" if "consuming c0 rin out c" "Records_receive c = Some (r, c')"
| fetch: "consuming c0 rin out (snd (consumer_processFetchRequest send req (c\<lparr>dc_fetchRequests := rest\<rparr>)))"
    if "consuming c0 rin out c" "dc_fetchRequests c = req # rest"
| ack: "consuming c0 rin out (c\<lparr>dc_acks := rest\<rparr>)" if "consuming c0 rin out c" "dc_acks c = a # rest"
| commit: "consuming c0 rin out c'" if "consuming c0 rin out c" "Commit_enqueue keys c = (res, c')"
| autocommit: "consuming c0 rin out (commitOffsets keys c)" if "consuming c0 rin out c"
| committed: "consuming c0 rin out (processCommitRequest pairs offs (c\<lparr>dc_commits := rest\<rparr>))"
    if "consuming c0 rin out c" "dc_commits c = offs # rest"

section \<open>Lemmas: order\<close>

lemma request_frame [simp]:
  "dc_records (requestMissingRecords t q a b c) = dc_records c" "dc_partitions (requestMissingRecords t q a b c) = dc_partitions c"
  "dc_commits (requestMissingRecords t q a b c) = dc_commits c" "dc_subscriptions (requestMissingRecords t q a b c) = dc_subscriptions c"
  by (simp_all add: requestMissingRecords_def Let_def)

lemma deliver_frame [simp]:
  "dc_partitions (deliver_record r c) = dc_partitions c" "dc_commits (deliver_record r c) = dc_commits c"
  "dc_fetchRequests (deliver_record r c) = dc_fetchRequests c" "dc_subscriptions (deliver_record r c) = dc_subscriptions c"
  by (simp_all add: deliver_record_def)

lemma record_message_records:
  "dc_records (processRecordMessage now msg c) =
     (case RecordMessage_Unmarshal (dm_Body msg) of
        Ok m \<Rightarrow> if length (dc_records c) < 10000 then dc_records c @ [record_of now (dm_Topic msg) m] else dc_records c
      | _ \<Rightarrow> dc_records c)"
  by (auto simp: processRecordMessage_def Let_def deliver_record_def split: result.split)

lemma head_message_records: "dc_records (processHeadMessage msg c) = dc_records c" "dc_commits (processHeadMessage msg c) = dc_commits c"
  by (auto simp: processHeadMessage_def Let_def split: result.split option.split)

lemma record_message_frame [simp]:
  "dc_partitions (processRecordMessage now msg c) = dc_partitions c" "dc_commits (processRecordMessage now msg c) = dc_commits c"
  by (auto simp: processRecordMessage_def Let_def split: result.split)

lemma types_differ: "MessageTypeHead \<noteq> MessageTypeRecord"
  by (simp add: MessageTypeHead_def MessageTypeRecord_def)

lemma message_records:
  "dc_records (consumer_processSubscriptionMessage now data c) =
     (if length (dc_records c) < 10000 then dc_records c @ received_record now data c else dc_records c)"
proof (cases "Dafka_Unmarshal data")
  case (Ok msg)
  show ?thesis
  proof (cases "dm_Type msg = MessageTypeRecord")
    case True
    then show ?thesis
      by (cases "RecordMessage_Unmarshal (dm_Body msg)")
        (auto simp: consumer_processSubscriptionMessage_def received_record_def Ok Let_def record_message_records)
  next
    case False
    then show ?thesis
      by (auto simp: consumer_processSubscriptionMessage_def received_record_def Ok Let_def head_message_records)
  qed
qed (simp_all add: consumer_processSubscriptionMessage_def received_record_def)

lemma update_records [simp]:
  "dc_records (updatePartitionState now r c) = dc_records c" "dc_commits (updatePartitionState now r c) = dc_commits c"
  "dc_AutoCommit (updatePartitionState now r c) = dc_AutoCommit c"
  by (simp_all add: updatePartitionState_def Let_def)

lemma foldl_inv: "(\<And>c x. P c \<Longrightarrow> P (f c x)) \<Longrightarrow> P c \<Longrightarrow> P (foldl f c xs)"
  by (induction xs arbitrary: c) simp_all

lemma subscribe_frame:
  "dc_records (subscribeToTopics now topics c) = dc_records c" "dc_partitions (subscribeToTopics now topics c) = dc_partitions c"
  "dc_commits (subscribeToTopics now topics c) = dc_commits c"
proof -
  define P where "P c' \<longleftrightarrow> dc_records c' = dc_records c \<and> dc_partitions c' = dc_partitions c \<and> dc_commits c' = dc_commits c" for c' :: Consumer
  have "P (subscribeToTopics now topics c)" unfolding subscribeToTopics_def by (rule foldl_inv) (auto simp: P_def)
  then show "dc_records (subscribeToTopics now topics c) = dc_records c" "dc_partitions (subscribeToTopics now topics c) = dc_partitions c"
    "dc_commits (subscribeToTopics now topics c) = dc_commits c" by (simp_all add: P_def)
qed

lemma unsubscribe_frame:
  "dc_records (unsubscribeFromTopics topics c) = dc_records c" "dc_commits (unsubscribeFromTopics topics c) = dc_commits c"
  "dc_partitions (unsubscribeFromTopics topics c) key = Some st \<Longrightarrow> dc_partitions c key = Some st"
proof -
  define P where "P c' \<longleftrightarrow> dc_records c' = dc_records c \<and> dc_commits c' = dc_commits c \<and>
    (\<forall>key st. dc_partitions c' key = Some st \<longrightarrow> dc_partitions c key = Some st)" for c' :: Consumer
  have "P (unsubscribeFromTopics topics c)"
    unfolding unsubscribeFromTopics_def by (rule foldl_inv) (auto simp: P_def split: option.splits if_splits)
  then show "dc_records (unsubscribeFromTopics topics c) = dc_records c" "dc_commits (unsubscribeFromTopics topics c) = dc_commits c"
    "dc_partitions (unsubscribeFromTopics topics c) key = Some st \<Longrightarrow> dc_partitions c key = Some st" by (simp_all add: P_def)
qed

lemma commit_records:
  "dc_records (processCommitRequest pairs offs c) = dc_records c" "dc_commits (processCommitRequest pairs offs c) = dc_commits c"
proof -
  define P where "P c' \<longleftrightarrow> dc_records c' = dc_records c \<and> dc_commits c' = dc_commits c" for c' :: Consumer
  have "P (processCommitRequest pairs offs c)"
    unfolding processCommitRequest_def by (rule foldl_inv) (auto simp: P_def commit_offset_def Let_def split: option.split)
  then show "dc_records (processCommitRequest pairs offs c) = dc_records c" "dc_commits (processCommitRequest pairs offs c) = dc_commits c"
    by (simp_all add: P_def)
qed

lemma fetch_frame [simp]:
  "dc_records (snd (consumer_processFetchRequest send req c)) = dc_records c"
  "dc_partitions (snd (consumer_processFetchRequest send req c)) = dc_partitions c"
  "dc_commits (snd (consumer_processFetchRequest send req c)) = dc_commits c"
  by (auto simp: consumer_processFetchRequest_def split: result.split option.split)

lemma handed_out:
  "Poll now c = (Some r, c') \<Longrightarrow> \<exists>rs. dc_records c = r # rs \<and> dc_records c' = rs \<and> dc_commits c' = dc_commits c \<and>
     dc_partitions c' = dc_partitions (updatePartitionState now r c)"
  "Consume_round handler now c = ((Some r, err), c') \<Longrightarrow> \<exists>rs. dc_records c = r # rs \<and> dc_records c' = rs \<and> dc_commits c' = dc_commits c \<and>
     dc_partitions c' = dc_partitions (updatePartitionState now r c)"
  by (auto simp: Poll_def Consume_round_def Let_def updatePartitionState_def split: list.splits option.splits if_splits)

lemma commit_frame:
  "Commit_enqueue keys c = (res, c') \<Longrightarrow> dc_records c' = dc_records c \<and> dc_partitions c' = dc_partitions c \<and>
     set (dc_commits c') \<subseteq> insert (current_offsets keys c) (set (dc_commits c))"
  "dc_records (commitOffsets keys c) = dc_records c \<and> dc_partitions (commitOffsets keys c) = dc_partitions c \<and>
     set (dc_commits (commitOffsets keys c)) \<subseteq> insert (current_offsets keys c) (set (dc_commits c))"
  by (auto simp: Commit_enqueue_def commitOffsets_def split: if_splits)

text \<open>
  The queue from outside: a record is accepted when fewer than 10000 of those accepted before it have not
  been handed out when it arrives, and is lost otherwise.
\<close>

definition accept_record :: "DafkaRecord list \<Rightarrow> nat \<times> DafkaRecord \<Rightarrow> DafkaRecord list" where
  "accept_record acc kr = (if length acc < fst kr + 10000 then acc @ [snd kr] else acc)"

definition accepted :: "(nat \<times> DafkaRecord) list \<Rightarrow> DafkaRecord list" where
  "accepted rin = foldl accept_record [] rin"

lemma accepted_append: "accepted (rin @ rin') = foldl accept_record (accepted rin) rin'"
  by (simp add: accepted_def)

lemma received_once: obtains "received_record now data c = []" | r where "received_record now data c = [r]"
proof -
  have "received_record now data c = [] \<or> (\<exists>r. received_record now data c = [r])"
    by (simp add: received_record_def split: result.split)
  then show thesis using that by blast
qed

lemma accepted_subseq: "subseq (accepted rin) (map snd rin)"
proof (induction rin rule: rev_induct)
  case (snoc kr rin)
  then show ?case by (auto simp: accepted_append accept_record_def intro: list_emb_append2)
qed (simp add: accepted_def)

lemma consuming_order:
  assumes "consuming c0 rin out c" "dc_records c0 = []"
  shows "out @ dc_records c = accepted rin"
  using assms(1)
proof (induction rule: consuming.induct)
  case (message rin out c now data)
  have "length (accepted rin) = length out + length (dc_records c)" using arg_cong [OF message.IH, of length] by simp
  then show ?case using message.IH
    by (cases rule: received_once [of now data c]) (auto simp: message_records accepted_append accept_record_def)
next
  case (poll rin out c now r c')
  then show ?case using handed_out(1) [OF poll.hyps(2)] by auto
next
  case (consume rin out c handler now r err c')
  then show ?case using handed_out(2) [OF consume.hyps(2)] by auto
next
  case (records rin out c r c')
  then show ?case by (auto simp: Records_receive_def split: list.splits)
qed (use assms(2) commit_frame in \<open>auto simp: accepted_def subscribe_frame unsubscribe_frame commit_records\<close>)

section \<open>Lemmas: committed offsets\<close>

definition colon_free :: "bytes \<Rightarrow> bool" where
  "colon_free t \<longleftrightarrow> set (str '':'') \<inter> set t = {}"

lemma key_inj: "colon_free t \<Longrightarrow> colon_free t' \<Longrightarrow> partitionKey t q = partitionKey t' q' \<longleftrightarrow> t = t' \<and> q = q'"
  using split_at_sep [of 58 t t' q q'] by (auto simp: partitionKey_def colon_free_def wire_simps)

text \<open>The offsets of the records of a partition in a list.\<close>

definition offsets_of :: "DafkaRecord list \<Rightarrow> bytes \<Rightarrow> bytes \<Rightarrow> 64 word set" where
  "offsets_of rs t q = r_Offset ` {r \<in> set rs. r_Topic r = t \<and> r_Partition r = q \<and> colon_free t}"

definition state_ok :: "DafkaRecord list \<Rightarrow> bytes \<Rightarrow> PartitionState \<Rightarrow> bool" where
  "state_ok out key st \<longleftrightarrow> key = partitionKey (cp_Topic st) (cp_Partition st) \<and> colon_free (cp_Topic st) \<and>
     cp_LastOffset st \<in> offsets_of out (cp_Topic st) (cp_Partition st) \<and>
     (cp_CommittedOffset st = 0 \<or> cp_CommittedOffset st \<in> offsets_of out (cp_Topic st) (cp_Partition st))"

definition request_ok :: "DafkaRecord list \<Rightarrow> offsets \<Rightarrow> bool" where
  "request_ok out offs \<longleftrightarrow> (\<forall>t m q off. offs t = Some m \<longrightarrow> m q = Some off \<longrightarrow> off \<in> offsets_of out t q)"

definition consumer_inv :: "DafkaRecord list \<Rightarrow> Consumer \<Rightarrow> bool" where
  "consumer_inv out c \<longleftrightarrow> (\<forall>key st. dc_partitions c key = Some st \<longrightarrow> state_ok out key st) \<and> (\<forall>offs \<in> set (dc_commits c). request_ok out offs)"

lemma offsets_of_mono: "off \<in> offsets_of out t q \<Longrightarrow> off \<in> offsets_of (out @ rs) t q"
  by (auto simp: offsets_of_def)

lemma consumer_inv_mono:
  assumes "consumer_inv out c"
  shows "consumer_inv (out @ rs) c"
proof -
  have "state_ok (out @ rs) key st" if "state_ok out key st" for key st
    using that offsets_of_mono unfolding state_ok_def by blast
  moreover have "request_ok (out @ rs) offs" if "request_ok out offs" for offs
    using that offsets_of_mono unfolding request_ok_def by blast
  ultimately show ?thesis using assms unfolding consumer_inv_def by blast
qed

lemma update_inv:
  assumes inv: "consumer_inv out c" and r: "colon_free (r_Topic r)"
  shows "consumer_inv (out @ [r]) (updatePartitionState now r c)"
proof -
  let ?key = "partitionKey (r_Topic r) (r_Partition r)"
  have inv': "consumer_inv (out @ [r]) c" by (rule consumer_inv_mono [OF inv])
  have off: "r_Offset r \<in> offsets_of (out @ [r]) (r_Topic r) (r_Partition r)" using r by (auto simp: offsets_of_def)
  have "state_ok (out @ [r]) key st" if st: "dc_partitions (updatePartitionState now r c) key = Some st" for key st
  proof (cases "key = ?key")
    case False
    then show ?thesis using st inv' by (simp add: updatePartitionState_def Let_def consumer_inv_def)
  next
    case True
    show ?thesis
    proof (cases "dc_partitions c ?key")
      case None
      then show ?thesis using st True off r by (auto simp: updatePartitionState_def Let_def state_ok_def)
    next
      case (Some old)
      then have ok: "state_ok (out @ [r]) ?key old" using inv' by (simp add: consumer_inv_def)
      then have "cp_Topic old = r_Topic r" "cp_Partition old = r_Partition r"
        using key_inj [OF r, of "cp_Topic old" "r_Partition r" "cp_Partition old"] by (simp_all add: state_ok_def)
      then show ?thesis using st True Some off ok by (auto simp: updatePartitionState_def Let_def state_ok_def)
    qed
  qed
  then show ?thesis using inv' by (simp add: consumer_inv_def)
qed

lemma current_offsets_ok:
  assumes "consumer_inv out c"
  shows "request_ok out (current_offsets keys c)"
  unfolding current_offsets_def
proof (rule foldl_inv [where P = "request_ok out"])
  fix m key
  assume m: "request_ok out m"
  show "request_ok out (case dc_partitions c key of None \<Rightarrow> m
    | Some st \<Rightarrow> let topicOffsets = (case m (cp_Topic st) of None \<Rightarrow> Map.empty | Some t \<Rightarrow> t) in
        m(cp_Topic st \<mapsto> topicOffsets(cp_Partition st \<mapsto> cp_LastOffset st)))"
  proof (cases "dc_partitions c key")
    case (Some st)
    then have "cp_LastOffset st \<in> offsets_of out (cp_Topic st) (cp_Partition st)" using assms by (simp add: consumer_inv_def state_ok_def)
    then show ?thesis using m Some by (auto simp: request_ok_def Let_def split: option.splits if_splits)
  qed (use m in simp)
qed (simp add: request_ok_def)

lemma commit_inv:
  assumes "consumer_inv out c" "request_ok out offs"
  shows "consumer_inv out (processCommitRequest pairs offs c)"
  unfolding processCommitRequest_def
proof (rule foldl_inv)
  fix c and tp :: "bytes \<times> bytes"
  assume inv: "consumer_inv out c"
  obtain t q where tp: "tp = (t, q)" by fastforce
  show "consumer_inv out (commit_offset offs c tp)"
  proof (cases "\<exists>m off st. offs t = Some m \<and> m q = Some off \<and> dc_partitions c (partitionKey t q) = Some st")
    case True
    then obtain m off st where x: "offs t = Some m" "m q = Some off" "dc_partitions c (partitionKey t q) = Some st" by blast
    have off: "off \<in> offsets_of out t q" using x assms(2) by (auto simp: request_ok_def)
    then have t: "colon_free t" by (auto simp: offsets_of_def)
    have ok: "state_ok out (partitionKey t q) st" using inv x(3) by (simp add: consumer_inv_def)
    then have "cp_Topic st = t" "cp_Partition st = q" using key_inj [OF t, of "cp_Topic st" q "cp_Partition st"] by (simp_all add: state_ok_def)
    then have "state_ok out (partitionKey t q) (st\<lparr>cp_CommittedOffset := off\<rparr>)" using ok off by (simp add: state_ok_def)
    then show ?thesis using inv x by (simp add: commit_offset_def tp consumer_inv_def Let_def)
  next
    case False
    then have "commit_offset offs c tp = c" by (auto simp: commit_offset_def tp Let_def split: option.split)
    then show ?thesis using inv by simp
  qed
qed (rule assms(1))

lemma head_message_inv:
  assumes "consumer_inv out c"
  shows "consumer_inv out (processHeadMessage msg c)"
proof -
  have "state_ok out key st" if st: "dc_partitions (processHeadMessage msg c) key = Some st" for key st
  proof -
    obtain old where "dc_partitions c key = Some old" "cp_Topic st = cp_Topic old" "cp_Partition st = cp_Partition old"
      "cp_LastOffset st = cp_LastOffset old" "cp_CommittedOffset st = cp_CommittedOffset old"
      using st by (auto simp: processHeadMessage_def Let_def split: result.splits option.splits if_splits)
    then show ?thesis using assms by (simp add: consumer_inv_def state_ok_def)
  qed
  then show ?thesis using assms by (simp add: consumer_inv_def head_message_records)
qed

lemma message_inv:
  assumes "consumer_inv out c"
  shows "consumer_inv out (consumer_processSubscriptionMessage now data c)"
proof -
  have "consumer_inv out (processRecordMessage now msg c)" for msg using assms by (simp add: consumer_inv_def)
  moreover note head_message_inv [OF assms]
  ultimately show ?thesis
    using assms by (cases "Dafka_Unmarshal data") (simp_all add: consumer_processSubscriptionMessage_def Let_def consumer_inv_def)
qed

lemma consuming_inv:
  assumes "consuming c0 rin out c" "dc_partitions c0 = Map.empty" "dc_commits c0 = []"
  shows "(\<forall>r \<in> set out. colon_free (r_Topic r)) \<longrightarrow> consumer_inv out c"
  using assms(1)
proof (induction rule: consuming.induct)
  case start
  show ?case using assms(2,3) by (simp add: consumer_inv_def)
next
  case (subscribe rin out c now topics)
  then show ?case by (simp add: consumer_inv_def subscribe_frame)
next
  case (unsubscribe rin out c topics)
  then show ?case using unsubscribe_frame(3) unfolding consumer_inv_def unsubscribe_frame(2) by blast
next
  case (message rin out c now data)
  then show ?case using message_inv by blast
next
  case (poll rin out c now r c')
  then show ?case using handed_out(1) [OF poll.hyps(2)] update_inv [of out c r now] by (auto simp: consumer_inv_def)
next
  case (consume rin out c handler now r err c')
  then show ?case using handed_out(2) [OF consume.hyps(2)] update_inv [of out c r now] by (auto simp: consumer_inv_def)
next
  case (records rin out c r c')
  then obtain rs where "c' = c\<lparr>dc_records := rs\<rparr>" by (auto simp: Records_receive_def split: list.splits)
  then have "consumer_inv (out @ [r]) c' = consumer_inv (out @ [r]) c" by (simp add: consumer_inv_def)
  then show ?case using records.IH consumer_inv_mono [of out c "[r]"] by auto
next
  case (commit rin out c keys res c')
  then show ?case using commit_frame(1) [OF commit.hyps(2)] current_offsets_ok [of out c keys] by (auto simp: consumer_inv_def)
next
  case (autocommit rin out c keys)
  then show ?case using commit_frame(2) [of keys c] current_offsets_ok [of out c keys] by (auto simp: consumer_inv_def)
next
  case (committed rin out c offs rest pairs)
  then have "(\<forall>r \<in> set out. colon_free (r_Topic r)) \<longrightarrow> consumer_inv out (c\<lparr>dc_commits := rest\<rparr>) \<and> request_ok out offs"
    by (simp add: consumer_inv_def)
  then show ?case using commit_inv by blast
qed (simp_all add: consumer_inv_def)

section \<open>Theorems\<close>

text \<open>
  C39: A consumer hands out records in the order of their arrival and loses none but those that arrive at a full
  queue. In every run of subscribing, unsubscribing, arriving messages, \<^verbatim>\<open>Poll\<close>, \<^verbatim>\<open>Consume\<close>, receives from \<^verbatim>\<open>Records\<close>,
  fetches, acknowledgements and commits, what was handed out followed by what is queued is exactly the list of the
  accepted records: those received on subscribed topics, in the order of arrival, without the ones that arrived while
  10000 accepted records had not been handed out. So it is a subsequence of what was received, and nothing is repeated,
  reordered, made up, or discarded after it was queued; a record that was asked for with a FETCH is not handed out
  unless it arrives as a RECORD.
\<close>

theorem consumer_in_order:
  assumes "consuming (NewConsumer fetchSize autoCommit) rin out c"
  shows "out @ dc_records c = accepted rin \<and> subseq (out @ dc_records c) (map snd rin)"
  using consuming_order [OF assms] accepted_subseq by (simp add: NewConsumer_def)

text \<open>
  What is committed was consumed. In every run over topics without a colon, with commits delayed
  and interleaved in any way and across unsubscribing and subscribing again, the last offset of a
  partition is the offset of a record of that partition that was handed out, and so is the
  committed offset unless it is still 0.
\<close>

theorem committed_was_consumed:
  assumes "consuming (NewConsumer fetchSize autoCommit) rin out c" "\<forall>r \<in> set out. colon_free (r_Topic r)"
    "dc_partitions c (partitionKey t q) = Some st" "colon_free t"
  shows "(\<exists>r \<in> set out. r_Topic r = t \<and> r_Partition r = q \<and> r_Offset r = cp_LastOffset st) \<and>
    (cp_CommittedOffset st = 0 \<or> (\<exists>r \<in> set out. r_Topic r = t \<and> r_Partition r = q \<and> r_Offset r = cp_CommittedOffset st))"
proof -
  have "consumer_inv out c" using consuming_inv [OF assms(1)] assms(2) by (simp add: NewConsumer_def)
  then have ok: "state_ok out (partitionKey t q) st" using assms(3) by (simp add: consumer_inv_def)
  then have "cp_Topic st = t" "cp_Partition st = q" using key_inj [OF assms(4), of "cp_Topic st" q "cp_Partition st"] by (simp_all add: state_ok_def)
  then show ?thesis using ok by (auto simp: state_ok_def offsets_of_def)
qed

text \<open>
  A gap is noticed. When a record of a subscribed topic arrives with an offset beyond the expected one,
  a fetch from the expected offset on is queued (if the queue has room); its count is the size of
  the gap in 32 bits, limited to the fetch size. When the record is the expected one or an older
  one, nothing is queued.
\<close>

theorem gap_requests_fetch:
  assumes "RecordMessage_Unmarshal (dm_Body msg) = Ok m" "0 < dc_FetchSize c" "dc_FetchSize c < 2 ^ 32"
  shows "dc_fetchRequests (processRecordMessage now msg c) = dc_fetchRequests c @
    (if expectedOffset (dm_Topic msg) (rm_Partition m) c < rm_Offset m \<and> length (dc_fetchRequests c) < 1000
     then [\<lparr>fr_Topic = dm_Topic msg, fr_Partition = rm_Partition m, fr_Offset = expectedOffset (dm_Topic msg) (rm_Partition m) c,
       fr_Count = of_nat (min (unat (rm_Offset m - expectedOffset (dm_Topic msg) (rm_Partition m) c) mod 2 ^ 32) (nat (dc_FetchSize c)))\<rparr>]
     else [])"
proof -
  have count: "(if ucast gap > (of_int n :: 32 word) then of_int n else ucast gap) = (of_nat (min (unat gap mod 2 ^ 32) (nat n)) :: 32 word)"
    if n: "0 < n" "n < 2 ^ 32" for gap :: "64 word" and n
  proof -
    have un: "unat (of_int n :: 32 word) = nat n" using n by (simp add: unat_eq_nat_uint uint_word_of_int)
    have ug: "unat (ucast gap :: 32 word) = unat gap mod 2 ^ 32" by (simp add: unsigned_ucast_eq take_bit_eq_mod)
    have words: "(ucast gap :: 32 word) = of_nat (unat gap mod 2 ^ 32)" "(of_int n :: 32 word) = of_nat (nat n)"
      unfolding ug [symmetric] un [symmetric] by simp_all
    have "(of_int n :: 32 word) < ucast gap \<longleftrightarrow> nat n < unat gap mod 2 ^ 32" by (simp only: word_less_nat_alt un ug)
    then show ?thesis using words by (simp add: min_def)
  qed
  show ?thesis
    using count [OF assms(2,3)] assms(1)
    by (auto simp: processRecordMessage_def Let_def requestMissingRecords_def record_of_def)
qed

text \<open>A run: a subscription, two records in one batch of messages, both polled and committed.\<close>

definition wire_record :: "64 word \<Rightarrow> bytes" where
  "wire_record offset = [0xAA, 0xA0, 1, 3, 1, 116, 1, 48] @ put_be 8 (unat offset) @ [0, 0, 0, 0, 0, 1, 118, 0]"

definition polled_record :: "64 word \<Rightarrow> DafkaRecord" where
  "polled_record offset = \<lparr>r_Topic = str ''t'', r_Partition = str ''0'', r_Offset = offset, r_Key = [], r_Value = str ''v'',
     r_Headers = Map.empty, r_Timestamp = 7\<rparr>"

lemma wire_record_msg:
  "RecordMessage_Marshal (\<lambda>_. []) \<lparr>rm_Partition = str ''0'', rm_Offset = offset, rm_Key = [], rm_Value = str ''v'', rm_Headers = Map.empty\<rparr> =
     Ok (1 # 48 # put_be 8 (unat offset) @ [0, 0, 0, 0, 0, 1, 118, 0])"
  by (simp add: RecordMessage_Marshal_def writeString_def writeBlock_def writeMap_def Let_def entries_def map_filter_simps wire_simps MaxRecordSize_def put_lp_def)

lemma wire_record_decodes:
  "Dafka_Unmarshal (wire_record offset) = Ok \<lparr>dm_Signature = (0, 0), dm_Version = 1, dm_Type = 3, dm_Topic = str ''t'',
     dm_Body = 1 # 48 # put_be 8 (unat offset) @ [0, 0, 0, 0, 0, 1, 118, 0]\<rparr>"
  "RecordMessage_Unmarshal (1 # 48 # put_be 8 (unat offset) @ [0, 0, 0, 0, 0, 1, 118, 0]) =
     Ok \<lparr>rm_Partition = str ''0'', rm_Offset = offset, rm_Key = [], rm_Value = str ''v'', rm_Headers = Map.empty\<rparr>"
proof -
  show "Dafka_Unmarshal (wire_record offset) = Ok \<lparr>dm_Signature = (0, 0), dm_Version = 1, dm_Type = 3, dm_Topic = str ''t'',
     dm_Body = 1 # 48 # put_be 8 (unat offset) @ [0, 0, 0, 0, 0, 1, 118, 0]\<rparr>"
    by (simp add: Dafka_Unmarshal_def wire_record_def Let_def dafka_ProtocolSignature1_def dafka_ProtocolSignature2_def Reader_Read_def wire_simps)
  have "RecordMessage_ok (\<lambda>_. []) \<lparr>rm_Partition = str ''0'', rm_Offset = offset, rm_Key = [], rm_Value = str ''v'', rm_Headers = Map.empty\<rparr>"
    by (simp add: RecordMessage_ok_def MaxRecordSize_def map_ok_def ord_ok_def wire_simps)
  from record_msg.dec_enc [OF this wire_record_msg]
  show "RecordMessage_Unmarshal (1 # 48 # put_be 8 (unat offset) @ [0, 0, 0, 0, 0, 1, 118, 0]) =
     Ok \<lparr>rm_Partition = str ''0'', rm_Offset = offset, rm_Key = [], rm_Value = str ''v'', rm_Headers = Map.empty\<rparr>" .
qed

definition sample_consumer :: Consumer where
  "sample_consumer = foldl (\<lambda>c offset. consumer_processSubscriptionMessage 7 (wire_record offset) c)
     (subscribeToTopics 5 [str ''t''] (NewConsumer 10 True)) [0, 1]"

lemma wire_record_step:
  assumes "dc_subscriptions c (str ''t'') = Some t0"
  shows "received_record 7 (wire_record offset) c = [polled_record offset]"
    "consumer_processSubscriptionMessage 7 (wire_record offset) c =
       (let expected = expectedOffset (str ''t'') (str ''0'') c;
            c = deliver_record (polled_record offset) (if offset \<noteq> expected
              then requestMissingRecords (str ''t'') (str ''0'') expected offset c else c) in
        c\<lparr>dc_MessagesIn := dc_MessagesIn c + 1, dc_BytesIn := dc_BytesIn c + of_nat (length (wire_record offset))\<rparr>)"
  using assms
  by (simp_all add: received_record_def consumer_processSubscriptionMessage_def processRecordMessage_def wire_record_decodes record_of_def
      polled_record_def MessageTypeRecord_def Let_def)

lemma sample_consumer_run:
  "consuming (NewConsumer 10 True) [(0, polled_record 0), (0, polled_record 1)] [] sample_consumer"
  "dc_records sample_consumer = [polled_record 0, polled_record 1]" "dc_partitions sample_consumer = Map.empty" "dc_commits sample_consumer = []"
proof -
  let ?c = "subscribeToTopics 5 [str ''t''] (NewConsumer 10 True)" and ?m = "consumer_processSubscriptionMessage 7"
  have sub: "dc_subscriptions ?c (str ''t'') = Some 5" by (simp add: subscribeToTopics_def)
  then have sub': "dc_subscriptions (?m (wire_record 0) ?c) (str ''t'') = Some 5" by (simp add: wire_record_step Let_def)
  have "consuming (NewConsumer 10 True) [] [] ?c" by (intro consuming.subscribe consuming.start)
  from consuming.message [OF consuming.message [OF this, of 7 "wire_record 0"], of 7 "wire_record 1"]
  show "consuming (NewConsumer 10 True) [(0, polled_record 0), (0, polled_record 1)] [] sample_consumer"
    by (simp add: wire_record_step(1) [OF sub] wire_record_step(1) [OF sub'] sample_consumer_def)
  have "dc_records ?c = [] \<and> dc_partitions ?c = Map.empty \<and> dc_commits ?c = []" by (simp add: subscribe_frame NewConsumer_def)
  then show "dc_records sample_consumer = [polled_record 0, polled_record 1]" "dc_partitions sample_consumer = Map.empty" "dc_commits sample_consumer = []"
    using message_records [of 7 "wire_record 0" ?c] message_records [of 7 "wire_record 1" "?m (wire_record 0) ?c"] sub sub'
    by (simp_all add: sample_consumer_def wire_record_step(1)) (simp_all add: wire_record_step(2) Let_def)
qed

theorem consumer_in_order_witness:
  "\<exists>c. consuming (NewConsumer 10 True) [(0, polled_record 0), (0, polled_record 1)] [polled_record 0] c \<and>
     [polled_record 0] @ dc_records c = accepted [(0, polled_record 0), (0, polled_record 1)] \<and> dc_records c = [polled_record 1]"
proof -
  obtain c where c: "Poll 8 sample_consumer = (Some (polled_record 0), c)" "dc_records c = [polled_record 1]"
    using sample_consumer_run(2) by (simp add: Poll_def)
  have run: "consuming (NewConsumer 10 True) [(0, polled_record 0), (0, polled_record 1)] [polled_record 0] c"
    using consuming.poll [OF sample_consumer_run(1) c(1)] by simp
  then show ?thesis using consumer_in_order [OF run] c(2) by blast
qed

theorem committed_was_consumed_witness:
  "\<exists>(c :: Consumer) (st :: PartitionState). dc_partitions c (partitionKey (str ''t'') (str ''0'')) = Some st \<and> cp_LastOffset st = 1 \<and> cp_CommittedOffset st = 1 \<and>
     (\<exists>r \<in> set [polled_record 0, polled_record 1]. r_Topic r = str ''t'' \<and> r_Partition r = str ''0'' \<and> r_Offset r = cp_CommittedOffset st)"
proof -
  let ?in = "[(0, polled_record 0), (0, polled_record 1)]" and ?out = "[polled_record 0, polled_record 1]" and ?key = "partitionKey (str ''t'') (str ''0'')"
  obtain c1 where c1: "Poll 8 sample_consumer = (Some (polled_record 0), c1)" "dc_records c1 = [polled_record 1]" "dc_commits c1 = []"
      "c1 = updatePartitionState 8 (polled_record 0) (sample_consumer\<lparr>dc_records := [polled_record 1]\<rparr>)"
    using sample_consumer_run by (simp add: Poll_def)
  obtain c2 where c2: "Poll 9 c1 = (Some (polled_record 1), c2)" "dc_commits c2 = []"
      "c2 = updatePartitionState 9 (polled_record 1) (c1\<lparr>dc_records := []\<rparr>)"
    using c1 by (simp add: Poll_def)
  have run2: "consuming (NewConsumer 10 True) ?in ?out c2"
    using consuming.poll [OF consuming.poll [OF sample_consumer_run(1) c1(1)] c2(1)] by simp
  have offs: "current_offsets [?key] c2 = [str ''t'' \<mapsto> [str ''0'' \<mapsto> 1]]"
    using c1(4) c2(3) sample_consumer_run(3) by (simp add: current_offsets_def updatePartitionState_def Let_def polled_record_def)
  let ?c3 = "commitOffsets [?key] c2"
  have c3: "dc_commits ?c3 = [[str ''t'' \<mapsto> [str ''0'' \<mapsto> 1]]]" "dc_partitions ?c3 = dc_partitions c2"
    using c2(2) offs by (simp_all add: commitOffsets_def)
  let ?c4 = "processCommitRequest [(str ''t'', str ''0'')] [str ''t'' \<mapsto> [str ''0'' \<mapsto> 1]] (?c3\<lparr>dc_commits := []\<rparr>)"
  have run4: "consuming (NewConsumer 10 True) ?in ?out ?c4"
    by (rule consuming.committed [OF consuming.autocommit [OF run2] c3(1)])
  obtain st where st: "dc_partitions ?c4 ?key = Some st" "cp_LastOffset st = 1" "cp_CommittedOffset st = 1"
    using c1(4) c2(3) c3(2) sample_consumer_run(3)
    by (simp add: processCommitRequest_def commit_offset_def updatePartitionState_def Let_def polled_record_def)
  have "\<forall>r \<in> set ?out. colon_free (r_Topic r)" "colon_free (str ''t'')" by (simp_all add: polled_record_def colon_free_def wire_simps)
  from committed_was_consumed [OF run4 this(1) st(1) this(2)]
  have "\<exists>r \<in> set ?out. r_Topic r = str ''t'' \<and> r_Partition r = str ''0'' \<and> r_Offset r = cp_CommittedOffset st" using st(3) by (elim conjE disjE) simp_all
  then show ?thesis using st by blast
qed

theorem gap_requests_fetch_witness:
  "dc_fetchRequests (processRecordMessage 7 \<lparr>dm_Signature = (0, 0), dm_Version = 1, dm_Type = 3, dm_Topic = str ''t'',
       dm_Body = 1 # 48 # put_be 8 (unat (25 :: 64 word)) @ [0, 0, 0, 0, 0, 1, 118, 0]\<rparr> (NewConsumer 10 True)) =
     [\<lparr>fr_Topic = str ''t'', fr_Partition = str ''0'', fr_Offset = 0, fr_Count = 10\<rparr>]"
  by (subst gap_requests_fetch [OF _ , where m = "\<lparr>rm_Partition = str ''0'', rm_Offset = 25, rm_Key = [], rm_Value = str ''v'', rm_Headers = Map.empty\<rparr>"])
    (simp_all add: wire_record_decodes(2) [of 25, simplified] NewConsumer_def expectedOffset_def)

text \<open>
  Only \<^verbatim>\<open>Poll\<close> and \<^verbatim>\<open>Consume\<close> advance the expected offset. Two records that arrive in order before
  the application asks for the first look like a gap, and a record that is queued is fetched.
\<close>

lemma queued_record_is_fetched:
  "polled_record 0 \<in> set (dc_records sample_consumer) \<and>
   dc_fetchRequests sample_consumer = [\<lparr>fr_Topic = str ''t'', fr_Partition = str ''0'', fr_Offset = 0, fr_Count = 1\<rparr>]"
proof -
  let ?c = "subscribeToTopics 5 [str ''t''] (NewConsumer 10 True)"
  have sub: "dc_subscriptions ?c (str ''t'') = Some 5" by (simp add: subscribeToTopics_def)
  then have sub': "dc_subscriptions (consumer_processSubscriptionMessage 7 (wire_record 0) ?c) (str ''t'') = Some 5" by (simp add: wire_record_step Let_def)
  have "dc_fetchRequests sample_consumer = [\<lparr>fr_Topic = str ''t'', fr_Partition = str ''0'', fr_Offset = 0, fr_Count = 1\<rparr>]"
    unfolding sample_consumer_def foldl.simps wire_record_step(2) [OF sub'] unfolding wire_record_step(2) [OF sub]
    by (simp add: Let_def expectedOffset_def subscribeToTopics_def NewConsumer_def deliver_record_def requestMissingRecords_def)
  then show ?thesis using sample_consumer_run(2) by simp
qed

text \<open>A handler that fails: the offset of its record counts as consumed, and the next commit commits it.\<close>

lemma failed_record_is_committed:
  assumes "dc_records c = r # rs" "handler r = Some e"
  shows "\<exists>c' st. Consume_round handler now c = ((Some r, Some (Wrapf ''handler error'' e)), c') \<and>
    dc_partitions c' (partitionKey (r_Topic r) (r_Partition r)) = Some st \<and> cp_LastOffset st = r_Offset r"
  using assms by (auto simp: Consume_round_def Let_def updatePartitionState_def split: option.split)

end
