(* ===== verification/Dafka_Tower.thy ===== *)
theory Dafka_Tower
  imports Lp_Codec "HOL-Library.Sublist"
begin

text \<open>
  The tower of Dafka (\<^verbatim>\<open>dafka/tower.go\<close>): the registry of nodes and topics with its broadcasts, and
  the UDP beacon by which towers announce themselves, which is built and parsed byte by byte.
\<close>

section \<open>Data\<close>

record NodeInfo =
  ni_UUID :: bytes
  ni_Type :: int
  ni_Address :: bytes
  ni_Topics :: "bytes list"
  ni_Headers :: "bytes \<rightharpoonup> bytes"
  ni_LastSeen :: int
  ni_Connected :: bool

record TopicInfo =
  ti_Name :: bytes
  ti_Partitions :: "bytes \<rightharpoonup> bytes"
  ti_CreatedAt :: int
  ti_UpdatedAt :: int

record TowerBeacon =
  tb_UUID :: bytes
  tb_Address :: bytes
  tb_Topics :: "bytes list"
  tb_Timestamp :: int

record Tower =
  tw_uuid :: bytes
  tw_address :: bytes
  tw_nodes :: "bytes \<rightharpoonup> NodeInfo"
  tw_topics :: "bytes \<rightharpoonup> TopicInfo"
  tw_published :: "bytes list"
  tw_Connections :: "64 word"
  tw_Reconnects :: "64 word"
  tw_MessagesIn :: "64 word"
  tw_MessagesOut :: "64 word"

definition NewTower :: "bytes \<Rightarrow> bytes \<Rightarrow> Tower" where
  "NewTower uuid address = \<lparr>tw_uuid = uuid, tw_address = (if address = [] then str ''tcp://*:5670'' else address), tw_nodes = Map.empty,
     tw_topics = Map.empty, tw_published = [], tw_Connections = 0, tw_Reconnects = 0, tw_MessagesIn = 0, tw_MessagesOut = 0\<rparr>"

section \<open>The registry\<close>

definition broadcastNodeRegistration :: "NodeInfo \<Rightarrow> Tower \<Rightarrow> Tower" where
  "broadcastNodeRegistration node t = t\<lparr>tw_published := tw_published t @ [str ''NODE_REGISTER:'' @ ni_UUID node @ str '':'' @ ni_Address node],
     tw_MessagesOut := tw_MessagesOut t + 1\<rparr>"

definition broadcastNodeUnregistration :: "bytes \<Rightarrow> Tower \<Rightarrow> Tower" where
  "broadcastNodeUnregistration uuid t = t\<lparr>tw_published := tw_published t @ [str ''NODE_UNREGISTER:'' @ uuid], tw_MessagesOut := tw_MessagesOut t + 1\<rparr>"

datatype towerCmd = register_node NodeInfo | unregister_node bytes | get_nodes | get_topics

datatype tower_reply = NilReply | NodesReply "bytes \<rightharpoonup> NodeInfo" | TopicsReply "bytes \<rightharpoonup> TopicInfo"

fun tower_handleCommand :: "towerCmd \<Rightarrow> Tower \<Rightarrow> tower_reply \<times> Tower" where
  "tower_handleCommand (register_node node) t =
     (NilReply, broadcastNodeRegistration node (t\<lparr>tw_nodes := (tw_nodes t)(ni_UUID node \<mapsto> node)\<rparr>))"
| "tower_handleCommand (unregister_node uuid) t =
     (NilReply, broadcastNodeUnregistration uuid (t\<lparr>tw_nodes := (tw_nodes t)(uuid := None)\<rparr>))"
| "tower_handleCommand get_nodes t = (NodesReply (tw_nodes t), t)"
| "tower_handleCommand get_topics t = (TopicsReply (tw_topics t), t)"

definition touch_topic :: "int \<Rightarrow> Tower \<Rightarrow> bytes \<Rightarrow> Tower" where
  "touch_topic now t name =
     (let topic = (case tw_topics t name of
            Some ti \<Rightarrow> ti
          | None \<Rightarrow> \<lparr>ti_Name = name, ti_Partitions = Map.empty, ti_CreatedAt = now, ti_UpdatedAt = 0\<rparr>) in
      t\<lparr>tw_topics := (tw_topics t)(name \<mapsto> topic\<lparr>ti_UpdatedAt := now\<rparr>)\<rparr>)"

definition processNodeUpdate :: "int \<Rightarrow> NodeInfo \<Rightarrow> Tower \<Rightarrow> Tower" where
  "processNodeUpdate now node t =
     (let existing = tw_nodes t (ni_UUID node);
          t = t\<lparr>tw_nodes := (tw_nodes t)(ni_UUID node \<mapsto> node)\<rparr>;
          t = (case existing of
            None \<Rightarrow> t\<lparr>tw_Connections := tw_Connections t + 1\<rparr>
          | Some old \<Rightarrow> if \<not> ni_Connected old \<and> ni_Connected node then t\<lparr>tw_Reconnects := tw_Reconnects t + 1\<rparr> else t) in
      foldl (touch_topic now) t (ni_Topics node))"

definition processTopicUpdate :: "TopicInfo \<Rightarrow> Tower \<Rightarrow> Tower" where
  "processTopicUpdate ti t = t\<lparr>tw_topics := (tw_topics t)(ti_Name ti \<mapsto> ti)\<rparr>"

definition processSubscription :: "bytes \<Rightarrow> Tower \<Rightarrow> Tower" where
  "processSubscription data t =
     (if data = [] then t else if data ! 0 = 1 then t\<lparr>tw_MessagesIn := tw_MessagesIn t + 1\<rparr> else t)"

section \<open>The beacon\<close>

text \<open>\<open>order\<close> lists the topics in the order in which \<^verbatim>\<open>range\<close> visits them.\<close>

definition createBeacon :: "int \<Rightarrow> bytes list \<Rightarrow> Tower \<Rightarrow> TowerBeacon" where
  "createBeacon now order t = \<lparr>tb_UUID = tw_uuid t, tb_Address = tw_address t, tb_Topics = order, tb_Timestamp = now\<rparr>"

definition wire_uuid :: "bytes \<Rightarrow> bytes" where
  "wire_uuid uuid = take 16 uuid @ replicate (16 - length uuid) 0"

definition marshalBeacon :: "TowerBeacon \<Rightarrow> bytes" where
  "marshalBeacon b = str ''DAFKA'' @ wire_uuid (tb_UUID b) @ put_lp (tb_Address b) @ [of_nat (length (tb_Topics b))] @
     concat (map (\<lambda>topic. put_lp (take 255 topic)) (tb_Topics b))"

text \<open>The loop over the topics, with \<open>n\<close> topics to go, on the rest of the data.\<close>

fun parse_topics :: "nat \<Rightarrow> bytes \<Rightarrow> bytes list" where
  "parse_topics 0 r = []"
| "parse_topics (Suc n) [] = []"
| "parse_topics (Suc n) (l # r) =
     (if unat l > length r then [] else take (unat l) r # parse_topics n (drop (unat l) r))"

definition tower_parseBeacon :: "bytes \<Rightarrow> int \<Rightarrow> bytes \<Rightarrow> TowerBeacon option" where
  "tower_parseBeacon own now data =
     (if length data < 22 then None
      else if take 5 data \<noteq> str ''DAFKA'' then None
      else
        let uuid = take 16 (drop 5 data); r = drop 21 data in
        if uuid = own then None
        else if r = [] then None
        else
          let addrLen = unat (r ! 0); r = drop 1 r in
          if addrLen > length r then None
          else
            let address = take addrLen r; r = drop addrLen r in
            if r = [] then None
            else Some \<lparr>tb_UUID = uuid, tb_Address = address, tb_Topics = parse_topics (unat (r ! 0)) (drop 1 r), tb_Timestamp = now\<rparr>)"

section \<open>Lemmas\<close>

lemma parse_step:
  assumes "length t \<le> 255"
  shows "parse_topics (Suc k) (put_lp t @ r) = t # parse_topics k r"
  using unat_length_byte [OF assms] by (simp add: put_lp_def)

lemma parse_topics_prefix:
  assumes "\<forall>t \<in> set ts. length t \<le> 255"
  shows "prefix (parse_topics k (take n (concat (map put_lp ts)))) (take k ts)"
    "length (concat (map put_lp ts)) \<le> n \<Longrightarrow> parse_topics k (take n (concat (map put_lp ts))) = take k ts"
proof -
  have "prefix (parse_topics k (take n (concat (map put_lp ts)))) (take k ts) \<and>
      (length (concat (map put_lp ts)) \<le> n \<longrightarrow> parse_topics k (take n (concat (map put_lp ts))) = take k ts)"
    using assms
  proof (induction ts arbitrary: k n)
    case Nil
    then show ?case by (cases k) simp_all
  next
    case (Cons t ts)
    have len: "unat (of_nat (length t) :: byte) = length t" using Cons.prems by (intro unat_length_byte) simp
    have IH: "prefix (parse_topics k (take n (concat (map put_lp ts)))) (take k ts) \<and>
      (length (concat (map put_lp ts)) \<le> n \<longrightarrow> parse_topics k (take n (concat (map put_lp ts))) = take k ts)" for k n
      using Cons by simp
    show ?case
    proof (cases k; cases n)
      fix k' n' assume "k = Suc k'" "n = Suc n'"
      have "take n (concat (map put_lp (t # ts))) = (if length t \<le> n' then put_lp t @ take (n' - length t) (concat (map put_lp ts))
          else of_nat (length t) # take n' t)"
        using \<open>n = Suc n'\<close> by (simp add: put_lp_def)
      then show ?thesis using parse_step [of t] Cons.prems len IH [of k' "n' - length t"] \<open>k = Suc k'\<close> \<open>n = Suc n'\<close> by simp
    qed simp_all
  qed
  then show "prefix (parse_topics k (take n (concat (map put_lp ts)))) (take k ts)"
    "length (concat (map put_lp ts)) \<le> n \<Longrightarrow> parse_topics k (take n (concat (map put_lp ts))) = take k ts" by blast+
qed

lemma length_wire_uuid [simp]: "length (wire_uuid uuid) = 16"
  by (simp add: wire_uuid_def)

section \<open>Theorems\<close>

lemma parsed_beacon:
  assumes "length (tb_Address b) \<le> 255" "23 + length (tb_Address b) \<le> n" "length (tb_Topics b) \<le> 255"
  shows "if wire_uuid (tb_UUID b) = own then tower_parseBeacon own now (take n (marshalBeacon b)) = None
    else \<exists>topics. tower_parseBeacon own now (take n (marshalBeacon b)) =
        Some \<lparr>tb_UUID = wire_uuid (tb_UUID b), tb_Address = tb_Address b, tb_Topics = topics, tb_Timestamp = now\<rparr> \<and>
      prefix topics (map (take 255) (tb_Topics b)) \<and>
      (length (marshalBeacon b) \<le> n \<longrightarrow> topics = map (take 255) (tb_Topics b))"
proof -
  let ?ts = "map (take 255) (tb_Topics b)" and ?a = "tb_Address b" and ?k = "length (tb_Topics b)"
  let ?body = "concat (map put_lp ?ts)" and ?n = "n - (23 + length (tb_Address b))"
  have m: "marshalBeacon b = (str ''DAFKA'' @ wire_uuid (tb_UUID b) @ put_lp ?a @ [of_nat ?k]) @ ?body"
    by (simp add: marshalBeacon_def o_def)
  have cut: "take n (marshalBeacon b) = str ''DAFKA'' @ wire_uuid (tb_UUID b) @ put_lp ?a @ [of_nat ?k] @ take ?n ?body"
    unfolding m take_append using assms(2) by (simp add: wire_simps)
  have sizes: "unat (of_nat (length ?a) :: byte) = length ?a" "unat (of_nat ?k :: byte) = ?k"
    using assms(1,3) by (simp_all add: unat_length_byte)
  have parse: "tower_parseBeacon own now (take n (marshalBeacon b)) = (if wire_uuid (tb_UUID b) = own then None
      else Some \<lparr>tb_UUID = wire_uuid (tb_UUID b), tb_Address = ?a, tb_Topics = parse_topics ?k (take ?n ?body), tb_Timestamp = now\<rparr>)"
    unfolding cut tower_parseBeacon_def using sizes by (simp add: Let_def wire_simps put_lp_def)
  have "\<forall>t \<in> set ?ts. length t \<le> 255" by auto
  note topics = parse_topics_prefix [OF this, where k = ?k and n = ?n]
  have "length (marshalBeacon b) = 23 + length ?a + length ?body" by (simp add: m wire_simps)
  then show ?thesis using parse topics by simp
qed

text \<open>
  A beacon that is cut off, as the 1024 bytes of the receive buffer cut it, is read as far as it
  goes: when the address arrived, the tower's address is right and the topics are a prefix of those
  announced, each cut to 255 bytes; they are all there when nothing was cut off and at most 255
  topics were announced. An own beacon is dropped.
\<close>

theorem beacon_roundtrip:
  assumes "length (tb_Address b) \<le> 255" "23 + length (tb_Address b) \<le> n" "length (tb_Topics b) \<le> 255"
  shows "if wire_uuid (tb_UUID b) = own then tower_parseBeacon own now (take n (marshalBeacon b)) = None
    else \<exists>topics. tower_parseBeacon own now (take n (marshalBeacon b)) =
        Some \<lparr>tb_UUID = wire_uuid (tb_UUID b), tb_Address = tb_Address b, tb_Topics = topics, tb_Timestamp = now\<rparr> \<and>
      prefix topics (map (take 255) (tb_Topics b)) \<and>
      (length (marshalBeacon b) \<le> n \<longrightarrow> topics = map (take 255) (tb_Topics b))"
  by (rule parsed_beacon [OF assms])

theorem beacon_roundtrip_witness:
  "\<exists>topics. tower_parseBeacon [1] 9 (take 1024 (marshalBeacon \<lparr>tb_UUID = str ''tower-1'', tb_Address = str ''a'', tb_Topics = [str ''x'', str ''y''], tb_Timestamp = 0\<rparr>)) =
     Some \<lparr>tb_UUID = wire_uuid (str ''tower-1''), tb_Address = str ''a'', tb_Topics = topics, tb_Timestamp = 9\<rparr> \<and> topics = [str ''x'', str ''y'']"
  using beacon_roundtrip [of "\<lparr>tb_UUID = str ''tower-1'', tb_Address = str ''a'', tb_Topics = [str ''x'', str ''y''], tb_Timestamp = 0\<rparr>" 1024 "[1]" 9]
  by (simp add: wire_simps wire_uuid_def marshalBeacon_def put_lp_def)

text \<open>
  \<^verbatim>\<open>generateUUID\<close> makes names longer than 16 bytes, and the beacon carries 16: a tower takes its own
  beacon for that of another tower.
\<close>

lemma own_beacon_accepted:
  assumes "16 < length (tw_uuid t)" "length (tw_address t) \<le> 255" "length order \<le> 255"
  shows "tower_parseBeacon (tw_uuid t) now (marshalBeacon (createBeacon now order t)) \<noteq> None"
proof -
  let ?b = "createBeacon now order t"
  have "wire_uuid (tb_UUID ?b) \<noteq> tw_uuid t" using assms(1) length_wire_uuid [of "tb_UUID ?b"] by (metis less_irrefl)
  moreover have "23 + length (tb_Address ?b) \<le> length (marshalBeacon ?b)" by (simp add: marshalBeacon_def wire_simps)
  ultimately show ?thesis
    using parsed_beacon [of ?b "length (marshalBeacon ?b)" "tw_uuid t" now] assms(2,3) by (auto simp: createBeacon_def)
qed

end
