(* ===== verification/Transports.thy ===== *)
theory Transports
  imports Prelude "HOL-Library.List_Lexorder"
begin

text \<open>
  The table of transports (\<^verbatim>\<open>core_transport.go\<close>), the endpoint addresses (\<^verbatim>\<open>transport/transport.go\<close>,
  \<^verbatim>\<open>internal/inproc/transport.go\<close>, \<^verbatim>\<open>core_utils.go\<close>) and random socket identities. \<open>SplitHostPort\<close>, \<open>JoinHostPort\<close> and
  \<open>strings_Split\<close> are the functions of the Go library with these names; dialling and listening on a network are not modelled.
\<close>

section \<open>Host and port\<close>

fun IndexByte :: "byte \<Rightarrow> bytes \<Rightarrow> nat option" where
  "IndexByte b [] = None"
| "IndexByte b (x # xs) = (if x = b then Some 0 else map_option Suc (IndexByte b xs))"

fun LastIndexByte :: "byte \<Rightarrow> bytes \<Rightarrow> nat option" where
  "LastIndexByte b [] = None"
| "LastIndexByte b (x # xs) =
     (case LastIndexByte b xs of Some i \<Rightarrow> Some (Suc i) | None \<Rightarrow> if x = b then Some 0 else None)"

abbreviation colon :: byte where "colon \<equiv> 58"
abbreviation lbracket :: byte where "lbracket \<equiv> 91"
abbreviation rbracket :: byte where "rbracket \<equiv> 93"

definition host_port :: "nat \<Rightarrow> nat \<Rightarrow> nat \<Rightarrow> bytes \<Rightarrow> bytes \<Rightarrow> (bytes \<times> bytes) result" where
  "host_port i j k host hostport =
     (if lbracket \<in> set (drop j hostport) then Err (Errorf ''unexpected '[' in address'')
      else if rbracket \<in> set (drop k hostport) then Err (Errorf ''unexpected ']' in address'')
      else Ok (host, drop (i + 1) hostport))"

definition SplitHostPort :: "bytes \<Rightarrow> (bytes \<times> bytes) result" where
  "SplitHostPort hostport =
     (case LastIndexByte colon hostport of
        None \<Rightarrow> Err (Errorf ''missing port in address'')
      | Some i \<Rightarrow>
          if hostport ! 0 = lbracket
          then (case IndexByte rbracket hostport of
                  None \<Rightarrow> Err (Errorf ''missing ']' in address'')
                | Some e \<Rightarrow>
                    if e + 1 = length hostport then Err (Errorf ''missing port in address'')
                    else if e + 1 = i then host_port i 1 (e + 1) (drop 1 (take e hostport)) hostport
                    else if hostport ! (e + 1) = colon then Err (Errorf ''too many colons in address'')
                    else Err (Errorf ''missing port in address''))
          else if colon \<in> set (take i hostport) then Err (Errorf ''too many colons in address'')
          else host_port i 0 0 (take i hostport) hostport)"

definition JoinHostPort :: "bytes \<Rightarrow> bytes \<Rightarrow> bytes" where
  "JoinHostPort host port = (if colon \<in> set host then [lbracket] @ host @ [rbracket, colon] @ port else host @ [colon] @ port)"

section \<open>Transports\<close>

datatype transport = netTransport bytes | InprocTransport

definition any_port :: "bytes \<Rightarrow> bytes" where
  "any_port port = (if port = str ''0'' \<or> port = str ''*'' \<or> port = [] then str ''0'' else port)"

definition any_host :: "bytes \<Rightarrow> bytes" where
  "any_host host = (if host = [] \<or> host = str ''*'' then str ''0.0.0.0'' else host)"

definition netTransport_Addr :: "bytes \<Rightarrow> bytes \<Rightarrow> bytes result" where
  "netTransport_Addr prot ep =
     (if prot = str ''tcp'' \<or> prot = str ''udp''
      then and_then (SplitHostPort ep) (\<lambda>(host, port). Ok (JoinHostPort (any_host host) (any_port port)))
      else if prot = str ''unix'' then Ok ep
      else Err (Errorf ''zmq4: unknown protocol''))"

definition inprocTransport_Addr :: "bytes \<Rightarrow> bytes result" where
  "inprocTransport_Addr ep = Ok ep"

fun trans_Addr :: "transport \<Rightarrow> bytes \<Rightarrow> bytes result" where
  "trans_Addr (netTransport prot) ep = netTransport_Addr prot ep"
| "trans_Addr InprocTransport ep = inprocTransport_Addr ep"

text \<open>The table, as the list of its entries.\<close>

type_synonym transports = "(bytes \<times> transport) list"

definition transports_get :: "bytes \<Rightarrow> transports \<Rightarrow> transport option" where
  "transports_get name ts = map_of ts name"

definition transports_add :: "bytes \<Rightarrow> transport \<Rightarrow> transports \<Rightarrow> transports result" where
  "transports_add name driver ts =
     (case map_of ts name of Some old \<Rightarrow> Err (Errorf ''zmq4: duplicate transport'') | None \<Rightarrow> Ok (ts @ [(name, driver)]))"

definition transports_names :: "transports \<Rightarrow> bytes list" where
  "transports_names ts = sort (map fst ts)"

definition must :: "'a result \<Rightarrow> 'a result" where
  "must r = (case r of Err e \<Rightarrow> Panic ''init'' | _ \<Rightarrow> r)"

definition drivers_init :: "transports result" where
  "drivers_init =
     and_then (must (transports_add (str ''ipc'') (netTransport (str ''unix'')) [])) (\<lambda>ts.
     and_then (must (transports_add (str ''tcp'') (netTransport (str ''tcp'')) ts)) (\<lambda>ts.
     and_then (must (transports_add (str ''udp'') (netTransport (str ''udp'')) ts)) (\<lambda>ts.
     must (transports_add (str ''inproc'') InprocTransport ts))))"

text \<open>\<^verbatim>\<open>strings.Split(s, sep)\<close>; \<open>acc\<close> is the part before, in reverse.\<close>

function strings_Split :: "bytes \<Rightarrow> bytes \<Rightarrow> bytes \<Rightarrow> bytes list" where
  "strings_Split sep acc [] = [rev acc]"
| "strings_Split sep acc (b # s) =
     (if take (length sep) (b # s) = sep then rev acc # strings_Split sep [] (drop (length sep - 1) s)
      else strings_Split sep (b # acc) s)"
  by pat_completeness auto
termination by (relation "measure (\<lambda>(sep, acc, s). length s)") (auto simp: less_Suc_eq_le)

definition errInvalidAddress :: go_error where "errInvalidAddress = Errorf ''zmq4: invalid address''"

text \<open>The network, the address and the error.\<close>

definition splitAddr :: "transports \<Rightarrow> bytes \<Rightarrow> bytes \<times> bytes \<times> go_error option" where
  "splitAddr drivers v =
     (let ep = strings_Split (str ''://'') [] v in
      if length ep \<noteq> 2 then ([], [], Some errInvalidAddress)
      else
        let network = ep ! 0 in
        case transports_get network drivers of
          None \<Rightarrow> (network, [], Some (Errorf ''zmq4: unknown transport''))
        | Some driver \<Rightarrow>
            (case trans_Addr driver (ep ! 1) of
               Ok addr \<Rightarrow> (network, addr, None)
             | Err e \<Rightarrow> (network, [], Some e)
             | Panic m \<Rightarrow> (network, [], Some (Errorf m))))"

text \<open>\<^verbatim>\<open>newUUID\<close> from sixteen random bytes; the process ends when there are none.\<close>

definition newUUID :: "bytes \<Rightarrow> bytes" where
  "newUUID rand =
     (let uuid = rand[8 := (rand ! 8 AND NOT 0xc0) OR 0x80];
          uuid = uuid[6 := (uuid ! 6 AND NOT 0xf0) OR 0x40] in
      hex (take 4 uuid) @ str ''-'' @ hex (take 2 (drop 4 uuid)) @ str ''-'' @ hex (take 2 (drop 6 uuid)) @ str ''-'' @
      hex (take 2 (drop 8 uuid)) @ str ''-'' @ hex (drop 10 uuid))"

section \<open>Addresses are normal forms\<close>

lemma IndexByte_None: "IndexByte b xs = None \<longleftrightarrow> b \<notin> set xs"
  by (induction xs) auto

lemma IndexByte_Some: "IndexByte b xs = Some i \<longleftrightarrow> i < length xs \<and> xs ! i = b \<and> b \<notin> set (take i xs)"
proof (induction xs arbitrary: i)
  case (Cons x xs)
  then show ?case by (cases i) auto
qed simp

lemma LastIndexByte_None: "LastIndexByte b xs = None \<longleftrightarrow> b \<notin> set xs"
  by (induction xs) (auto split: option.splits)

lemma LastIndexByte_append: "b \<notin> set zs \<Longrightarrow> LastIndexByte b (ys @ b # zs) = Some (length ys)"
proof (induction ys)
  case Nil
  then show ?case by (simp add: LastIndexByte_None [THEN iffD2] split: option.split)
qed simp

lemma LastIndexByte_Some: "LastIndexByte b xs = Some i \<Longrightarrow> \<exists>ys zs. xs = ys @ b # zs \<and> i = length ys \<and> b \<notin> set zs"
proof (induction xs arbitrary: i)
  case (Cons x xs)
  show ?case
  proof (cases "LastIndexByte b xs")
    case None
    then have "x = b" "i = 0" "b \<notin> set xs" using Cons.prems LastIndexByte_None [of b xs] by (auto split: if_splits)
    then show ?thesis by (intro exI [of _ "[]"] exI [of _ xs]) simp
  next
    case (Some j)
    then obtain ys zs where "xs = ys @ b # zs" "j = length ys" "b \<notin> set zs" using Cons.IH by blast
    then show ?thesis using Some Cons.prems by (intro exI [of _ "x # ys"] exI [of _ zs]) auto
  qed
qed simp

text \<open>What a host and a port look like after splitting.\<close>

definition plain_parts :: "bytes \<Rightarrow> bytes \<Rightarrow> bool" where
  "plain_parts host port \<longleftrightarrow> lbracket \<notin> set host \<and> rbracket \<notin> set host \<and> set port \<inter> {colon, lbracket, rbracket} = {}"

lemma SplitHostPort_Join:
  assumes "plain_parts host port"
  shows "SplitHostPort (JoinHostPort host port) = Ok (host, port)"
proof (cases "colon \<in> set host")
  case True
  let ?hp = "lbracket # host @ rbracket # colon # port"
  have last: "LastIndexByte colon ?hp = Some (length host + 2)"
    using LastIndexByte_append [of colon port "lbracket # host @ [rbracket]"] assms by (auto simp: plain_parts_def)
  have "IndexByte rbracket ?hp = Some (length host + 1)" using assms by (auto simp: IndexByte_Some nth_append plain_parts_def)
  then show ?thesis
    using True last assms by (auto simp: SplitHostPort_def JoinHostPort_def host_port_def plain_parts_def)
next
  case False
  let ?hp = "host @ colon # port"
  have last: "LastIndexByte colon ?hp = Some (length host)"
    using LastIndexByte_append [of colon port host] assms by (auto simp: plain_parts_def)
  have "?hp ! 0 \<noteq> lbracket" using assms by (cases host) (auto simp: plain_parts_def)
  then show ?thesis
    using False last assms by (auto simp: SplitHostPort_def JoinHostPort_def host_port_def plain_parts_def)
qed

lemma SplitHostPort_parts:
  assumes "SplitHostPort hp = Ok (host, port)"
  shows "plain_parts host port"
proof -
  obtain i where i: "LastIndexByte colon hp = Some i" using assms by (auto simp: SplitHostPort_def split: option.splits)
  obtain ys zs where hp: "hp = ys @ colon # zs" "i = length ys" "colon \<notin> set zs" using LastIndexByte_Some [OF i] by blast
  have zs: "drop (i + 1) hp = zs" using hp by simp
  show ?thesis
  proof (cases "hp ! 0 = lbracket")
    case True
    then obtain e where e: "IndexByte rbracket hp = Some e" "e + 1 = i" "host_port i 1 (e + 1) (drop 1 (take e hp)) hp = Ok (host, port)"
      using assms i by (auto simp: SplitHostPort_def split: option.splits if_splits)
    have r: "rbracket \<notin> set (take e hp)" using e(1) by (simp add: IndexByte_Some)
    have parts: "host = drop 1 (take e hp)" "port = zs" "lbracket \<notin> set (drop 1 hp)" "rbracket \<notin> set (drop (e + 1) hp)"
      using e(3) zs by (auto simp: host_port_def split: if_splits)
    have "set zs \<subseteq> set (drop (e + 1) hp)" using zs e(2) set_drop_subset_set_drop [of "e + 1" "i + 1" hp] by simp
    moreover have "set zs \<subseteq> set (drop 1 hp)" using zs set_drop_subset_set_drop [of 1 "i + 1" hp] by simp
    moreover have "set host \<subseteq> set (drop 1 hp)" using parts(1) by (simp add: drop_take set_take_subset)
    moreover have "set host \<subseteq> set (take e hp)" using parts(1) by (simp add: set_drop_subset)
    ultimately show ?thesis using parts r hp(3) by (auto simp: plain_parts_def)
  next
    case False
    then have "host_port i 0 0 (take i hp) hp = Ok (host, port)"
      using assms i by (auto simp: SplitHostPort_def split: if_splits)
    then show ?thesis using zs hp by (auto simp: host_port_def plain_parts_def split: if_splits)
  qed
qed

lemma any_parts: "plain_parts host port \<Longrightarrow> plain_parts (any_host host) (any_port port)"
  by (auto simp: plain_parts_def any_host_def any_port_def wire_simps)

lemma any_idem: "any_host (any_host h) = any_host h" "any_port (any_port p) = any_port p"
  by (simp_all add: any_host_def any_port_def wire_simps)

text \<open>
  the TCP or UDP address of an endpoint is a normal form: it splits again into the host and port of the endpoint, with
  wildcards replaced by 0.0.0.0 and 0, and taking its address once more changes nothing.
\<close>

theorem tcp_addr_normal:
  assumes "prot = str ''tcp'' \<or> prot = str ''udp''" "netTransport_Addr prot ep = Ok addr"
  shows "\<exists>host port. SplitHostPort ep = Ok (host, port) \<and> SplitHostPort addr = Ok (any_host host, any_port port) \<and>
    netTransport_Addr prot addr = Ok addr"
proof -
  obtain host port where hp: "SplitHostPort ep = Ok (host, port)" "addr = JoinHostPort (any_host host) (any_port port)"
    using assms by (auto simp: netTransport_Addr_def split: if_splits)
  then have "SplitHostPort addr = Ok (any_host host, any_port port)"
    using SplitHostPort_Join [OF any_parts [OF SplitHostPort_parts]] by simp
  then show ?thesis using hp assms(1) by (auto simp: netTransport_Addr_def any_idem)
qed

theorem tcp_addr_normal_witness:
  "netTransport_Addr (str ''tcp'') (str ''0.0.0.0:0'') = Ok (str ''0.0.0.0:0'')"
proof -
  have "netTransport_Addr (str ''tcp'') (str ''*:*'') = Ok (str ''0.0.0.0:0'')" by code_simp
  from tcp_addr_normal [OF _ this] show ?thesis by blast
qed

section \<open>Splitting endpoints\<close>

lemma Split_none: "\<forall>i < length s. take (length sep) (drop i s) \<noteq> sep \<Longrightarrow> strings_Split sep acc s = [rev acc @ s]"
proof (induction s arbitrary: acc)
  case (Cons b s)
  have "take (length sep) (b # s) \<noteq> sep" using Cons.prems by force
  moreover have "\<forall>i < length s. take (length sep) (drop i s) \<noteq> sep" using Cons.prems by (metis Suc_less_eq drop_Suc_Cons length_Cons)
  ultimately show ?case using Cons.IH by simp
qed simp

lemma Split_first: "sep \<noteq> [] \<Longrightarrow> hd sep \<notin> set net \<Longrightarrow> strings_Split sep acc (net @ sep @ s) = (rev acc @ net) # strings_Split sep [] s"
proof (induction net arbitrary: acc)
  case Nil
  then obtain b sep' where "sep = b # sep'" by (cases sep) auto
  then show ?case by simp
next
  case (Cons b net)
  then obtain x sep' where "sep = x # sep'" by (cases sep) auto
  then have "take (length sep) (b # net @ sep @ s) \<noteq> sep" using Cons.prems by auto
  then show ?case using Cons by simp
qed

text \<open>
  an endpoint of a registered transport splits into its network and the address the transport computes: for every network
  name without a colon and every rest without \<^verbatim>\<open>://\<close>, and with an error otherwise when the name is not registered.
\<close>

theorem splitAddr_correct:
  assumes "colon \<notin> set net" "\<forall>i < length ep. take 3 (drop i ep) \<noteq> str ''://''"
  shows "splitAddr drivers (net @ str ''://'' @ ep) =
    (case transports_get net drivers of
       None \<Rightarrow> (net, [], Some (Errorf ''zmq4: unknown transport''))
     | Some driver \<Rightarrow> (case trans_Addr driver ep of Ok addr \<Rightarrow> (net, addr, None) | Err e \<Rightarrow> (net, [], Some e) | Panic m \<Rightarrow> (net, [], Some (Errorf m))))"
proof -
  have "strings_Split (str ''://'') [] (net @ str ''://'' @ ep) = [net, ep]"
    using Split_first [of "str ''://''" net "[]" ep] Split_none [of ep "str ''://''" "[]"] assms by (simp add: wire_simps numeral_3_eq_3)
  then show ?thesis by (simp add: splitAddr_def split: option.split)
qed

text \<open>The endpoints of \<^verbatim>\<open>core_utils_test.go\<close>.\<close>

lemma splitAddr_examples:
  assumes "drivers_init = Ok drivers"
  shows "splitAddr drivers (str ''tcp://*:5000'') = (str ''tcp'', str ''0.0.0.0:5000'', None)"
    "splitAddr drivers (str ''tcp://[::1]:7000'') = (str ''tcp'', str ''[::1]:7000'', None)"
    "splitAddr drivers (str ''ipc://some-ep'') = (str ''ipc'', str ''some-ep'', None)"
    "splitAddr drivers (str ''inproc://some-ep'') = (str ''inproc'', str ''some-ep'', None)"
proof -
  define ds where "ds = (case drivers_init of Ok ds \<Rightarrow> ds | _ \<Rightarrow> [])"
  have d: "drivers = ds" unfolding ds_def assms by simp
  show "splitAddr drivers (str ''tcp://*:5000'') = (str ''tcp'', str ''0.0.0.0:5000'', None)"
    "splitAddr drivers (str ''tcp://[::1]:7000'') = (str ''tcp'', str ''[::1]:7000'', None)"
    "splitAddr drivers (str ''ipc://some-ep'') = (str ''ipc'', str ''some-ep'', None)"
    "splitAddr drivers (str ''inproc://some-ep'') = (str ''inproc'', str ''some-ep'', None)"
    unfolding d ds_def by code_simp+
qed

section \<open>The table\<close>

lemma transports_add_distinct: "distinct (map fst ts) \<Longrightarrow> transports_add name driver ts = Ok ts' \<Longrightarrow> distinct (map fst ts')"
  by (auto simp: transports_add_def map_of_eq_None_iff split: option.splits)

text \<open>Registration succeeds once for a name, changes that name only, and the list of names is sorted.\<close>

lemma transports_add_get:
  "transports_add name driver ts = Ok ts' \<Longrightarrow>
     transports_get name ts = None \<and> transports_get other ts' = (if other = name then Some driver else transports_get other ts) \<and>
     sorted (transports_names ts') \<and> set (transports_names ts') = insert name (set (transports_names ts))"
  by (auto simp: transports_add_def transports_get_def transports_names_def map_add_def split: option.splits)

section \<open>Identities\<close>

lemma length_hex [simp]: "length (hex bs) = 2 * length bs"
  by (induction bs) (simp_all add: hex_def)

lemma high_nibble: "unat (b :: byte) div 16 = unat (drop_bit 4 b)"
  by (simp add: drop_bit_eq_div unat_div_distrib)

lemma version_nibble: "unat ((b AND NOT 0xf0) OR 0x40 :: byte) div 16 = 4"
proof -
  have "NOT 0xf0 = (15 :: byte)" by simp
  moreover have "drop_bit 4 (15 :: byte) = 0" "drop_bit 4 (64 :: byte) = 4" by code_simp+
  ultimately have "drop_bit 4 ((b AND NOT 0xf0) OR 0x40) = 4" by (simp only: drop_bit_or drop_bit_and and_zero_eq or.left_neutral)
  then show ?thesis by (simp add: high_nibble)
qed

lemma variant_nibble: "unat ((b AND NOT 0xc0) OR 0x80 :: byte) div 16 \<in> {8, 9, 10, 11}"
proof -
  have "NOT 0xc0 = (63 :: byte)" by simp
  moreover have "drop_bit 4 (63 :: byte) = 3" "drop_bit 4 (128 :: byte) = 8" by code_simp+
  ultimately have eq: "drop_bit 4 ((b AND NOT 0xc0) OR 0x80) = (drop_bit 4 b AND 3) OR 8" by (simp only: drop_bit_or drop_bit_and)
  define m where "m = (drop_bit 4 b AND 3 :: byte)"
  have "m = take_bit 2 (drop_bit 4 b)" by (simp add: m_def take_bit_eq_mask mask_eq_exp_minus_1)
  then have "unat m < 4" using take_bit_nat_less_exp [of 2 "unat (drop_bit 4 b)"] by (simp add: unsigned_take_bit_eq)
  then have "unat m = 0 \<or> unat m = 1 \<or> unat m = 2 \<or> unat m = 3" by linarith
  then have "m = 0 \<or> m = 1 \<or> m = 2 \<or> m = 3"
    using word_unat_eq_iff [of m 0] word_unat_eq_iff [of m 1] word_unat_eq_iff [of m 2] word_unat_eq_iff [of m 3] by simp
  then have "m OR 8 \<in> {8, 9, 10, 11}" by auto
  then show ?thesis by (auto simp: high_nibble eq m_def)
qed

text \<open>A random identity has the layout of a version 4 UUID: 36 characters with the version and the variant in their places.\<close>

lemma newUUID_version:
  assumes "length rand = 16"
  shows "length (newUUID rand) = 36 \<and> newUUID rand ! 14 = 52 \<and> newUUID rand ! 19 \<in> {56, 57, 97, 98}"
proof -
  let ?v = "(rand ! 6 AND NOT 0xf0) OR 0x40" let ?r = "(rand ! 8 AND NOT 0xc0) OR 0x80"
  let ?u = "rand[8 := ?r, 6 := ?v]"
  have u: "length ?u = 16" using assms by simp
  have eight: "drop 8 ?u = ?r # drop 9 ?u" and six: "drop 6 ?u = ?v # drop 7 ?u"
    using Cons_nth_drop_Suc [of 8 ?u] Cons_nth_drop_Suc [of 6 ?u] assms by simp_all
  have new: "newUUID rand = hex (take 4 ?u) @ str ''-'' @ hex (take 2 (drop 4 ?u)) @ str ''-'' @ hex (take 2 (drop 6 ?u)) @ str ''-'' @
      hex (take 2 (drop 8 ?u)) @ str ''-'' @ hex (drop 10 ?u)"
    using assms by (simp add: newUUID_def Let_def)
  have "newUUID rand ! 14 = hex (take 2 (drop 6 ?u)) ! 0" "newUUID rand ! 19 = hex (take 2 (drop 8 ?u)) ! 0"
    unfolding new using u by (simp_all add: nth_append)
  moreover have "hex (take 2 (drop 6 ?u)) ! 0 = hex_digit 4" "hex (take 2 (drop 8 ?u)) ! 0 = hex_digit (unat ?r div 16)"
    unfolding six eight using version_nibble by (simp_all add: hex_def take_Cons')
  moreover have "hex_digit 4 = 52" "hex_digit (unat ?r div 16) \<in> {56, 57, 97, 98}"
    using variant_nibble [of "rand ! 8"] by (auto simp: hex_digit_def)
  moreover have "length (newUUID rand) = 36" unfolding new using u by simp
  ultimately show ?thesis by simp
qed

end
