(* ===== verification/Socket_Endpoint.thy ===== *)
theory Socket_Endpoint
  imports Core_Socket Transports
begin

text \<open>
  Listening, accepting, dialling and automatic reconnection of the socket core (\<^verbatim>\<open>core_socket.go\<close>), over the table of
  transports and \<^verbatim>\<open>Open\<close>. What the transport answers to the \<open>k\<close>-th dial is a parameter. A connection that \<^verbatim>\<open>Open\<close> or the
  sending of subscriptions finds dead calls \<^verbatim>\<open>scheduleRmConn\<close> from within, which may dial again: \<^verbatim>\<open>Dial\<close> is a partial
  function, \<^verbatim>\<open>None\<close> when it does not return.
\<close>

section \<open>State\<close>

record 's DialEnv =
  d_drivers :: transports
  d_dial :: "nat \<Rightarrow> net option result"
  d_ctxErr :: "nat \<Rightarrow> bool"
  d_ops :: "'s SecOps"
  d_handshake :: "'s handshake"
  d_sec :: "'s option"
  d_addr :: "nat \<Rightarrow> bytes"
  d_uuid :: "nat \<Rightarrow> bytes"
  d_now :: "nat \<Rightarrow> int"

text \<open>
  The socket core with its endpoint fields, the heap of connections, the next handle, the number of dials so far, whether
  the goroutine holds \<^verbatim>\<open>sck.mu\<close>, and whether the goroutine of the reaper, once started, has returned.
\<close>

record 's Endpoint =
  w_sck :: socket
  w_ep :: bytes
  w_maxRetries :: int
  w_autoReconnect :: bool
  w_listener :: "nat option"
  w_reaperStarted :: bool
  w_reaperReturned :: bool
  w_locked :: bool
  w_heap :: "'s heap"
  w_next :: nat
  w_dials :: nat

definition UnknownTransportError :: go_error where "UnknownTransportError = Errorf ''zmq4: unknown transport''"

section \<open>Dialling\<close>

text \<open>The loop at the label \<^verbatim>\<open>connect\<close>: the answer of the transport and the number of dials.\<close>

partial_function (option) dial_loop :: "'s DialEnv \<Rightarrow> int \<Rightarrow> nat \<Rightarrow> nat \<Rightarrow> (net option result \<times> nat) option" where
  "dial_loop env maxRetries retries k =
     (case d_dial env k of
        Err e \<Rightarrow>
          if (maxRetries = -1 \<or> int retries < maxRetries) \<and> \<not> d_ctxErr env k
          then dial_loop env maxRetries (retries + 1) (k + 1)
          else Some (Err e, k + 1)
      | r \<Rightarrow> Some (r, k + 1))"

text \<open>\<^verbatim>\<open>sck.addConn\<close>, and whether the connection was lost while its subscriptions were sent.\<close>

definition register_conn :: "'s DialEnv \<Rightarrow> nat \<Rightarrow> 's Conn \<Rightarrow> 's Endpoint \<Rightarrow> bool \<times> 's Endpoint" where
  "register_conn env c conn w =
     (let (sck, h) = socket_addConn (d_ops env) (d_addr env c) (d_uuid env c) (d_now env c) c (w_sck w) ((w_heap w)(c := conn)) in
      (notified (h c) \<noteq> notified conn, w\<lparr>w_sck := sck, w_heap := h\<rparr>))"

definition schedule_conn :: "nat \<Rightarrow> 's Endpoint \<Rightarrow> 's Endpoint" where
  "schedule_conn c w = w\<lparr>w_sck := scheduleRmConn c (w_sck w)\<rparr>"

definition start_reaper :: "'s Endpoint \<Rightarrow> 's Endpoint" where
  "start_reaper w = w\<lparr>w_reaperStarted := True\<rparr>"

definition reaper_running :: "'s Endpoint \<Rightarrow> bool" where
  "reaper_running w \<longleftrightarrow> w_reaperStarted w \<and> \<not> w_reaperReturned w"

text \<open>A round of \<^verbatim>\<open>connReaper\<close>, which returns when the context of the socket is done.\<close>

definition reaper_round :: "(nat \<Rightarrow> bytes) \<Rightarrow> int \<Rightarrow> 's Endpoint \<Rightarrow> 's Endpoint" where
  "reaper_round addr now w =
     (if s_ctxDone (w_sck w) then w\<lparr>w_reaperReturned := True\<rparr> else w\<lparr>w_sck := connReaper_round addr now (w_sck w)\<rparr>)"

definition was_notified :: "'s Conn option \<Rightarrow> bool" where
  "was_notified oc = (case oc of None \<Rightarrow> False | Some c \<Rightarrow> notified c \<noteq> 0)"

definition is_panic :: "'a result \<Rightarrow> bool" where
  "is_panic r = (case r of Panic m \<Rightarrow> True | _ \<Rightarrow> False)"

text \<open>\<^verbatim>\<open>Dial\<close> up to a connection of the transport, or what it returns without one.\<close>

definition dial_raw :: "'s DialEnv \<Rightarrow> bytes \<Rightarrow> 's Endpoint \<Rightarrow> ((go_error option result + net) \<times> 's Endpoint) option" where
  "dial_raw env endpoint w =
     (let w = w\<lparr>w_ep := endpoint\<rparr>; (network, addr, err) = splitAddr (d_drivers env) endpoint in
      if err \<noteq> None then Some (Inl (Ok err), w)
      else if transports_get network (d_drivers env) = None then Some (Inl (Ok (Some UnknownTransportError)), w)
      else
        case dial_loop env (w_maxRetries w) 0 (w_dials w) of
          None \<Rightarrow> None
        | Some (r, k) \<Rightarrow>
            let w = w\<lparr>w_dials := k\<rparr> in
            case r of
              Panic m \<Rightarrow> Some (Inl (Panic m), w)
            | Err e \<Rightarrow> Some (Inl (Ok (Some (Wrapf ''zmq4: could not dial'' e))), w)
            | Ok None \<Rightarrow> Some (Inl (Ok (Some (Errorf ''zmq4: got a nil dial-conn''))), w)
            | Ok (Some raw) \<Rightarrow> Some (Inr raw, w))"

text \<open>
  What follows \<^verbatim>\<open>Open\<close>: an error, or the registration of the connection, which waits for ever for a mutex that the goroutine holds. The
  third component tells that the connection was lost meanwhile and \<^verbatim>\<open>scheduleRmConn\<close> was called.
\<close>

definition after_open :: "'s DialEnv \<Rightarrow> bool \<Rightarrow> nat \<Rightarrow> unit result \<Rightarrow> 's Conn option \<Rightarrow> 's Endpoint \<Rightarrow> (go_error option result \<times> bool \<times> 's Endpoint) option" where
  "after_open env server c o1 oc w =
     (case o1 of
        Panic m \<Rightarrow> Some (Panic m, False, w)
      | Err e \<Rightarrow> Some (Ok (Some (Wrapf ''zmq4: could not open a ZMTP connection'' e)), False, w)
      | Ok _ \<Rightarrow>
          if w_locked w then None
          else
            let (lost, w) = register_conn env c (the oc) (if server then w else start_reaper w) in
            Some (Ok None, lost, if lost then schedule_conn c w else w))"

text \<open>
  \<^verbatim>\<open>Dial\<close>; the result is the error it returns. The two inner calls are those of \<^verbatim>\<open>scheduleRmConn\<close>, with automatic reconnection, on behalf of
  the connection being opened and of the one being registered; the latter runs while \<^verbatim>\<open>addConn\<close> holds the mutex.
\<close>

partial_function (option) ep_Dial :: "'s DialEnv \<Rightarrow> bytes \<Rightarrow> 's Endpoint \<Rightarrow> (go_error option result \<times> 's Endpoint) option" where
  "ep_Dial env endpoint w =
     Option.bind (dial_raw env endpoint w) (\<lambda>(x, w).
       case x of
         Inl r \<Rightarrow> Some (r, w)
       | Inr raw \<Rightarrow>
           let (o1, oc) = Open (Some raw) (d_ops env) (d_handshake env) (d_sec env) (s_typ (w_sck w)) (s_id (w_sck w)) False True;
               c = w_next w; w = w\<lparr>w_next := c + 1\<rparr>; w = (if was_notified oc then schedule_conn c w else w) in
           Option.bind (if was_notified oc \<and> w_autoReconnect w then ep_Dial env (w_ep w) w else Some (Ok None, w)) (\<lambda>(p, w).
             if is_panic p then Some (p, w)
             else
               Option.bind (after_open env False c o1 oc w) (\<lambda>(r, lost, w).
                 if lost \<and> w_autoReconnect w
                 then Option.bind (ep_Dial env (w_ep w) (w\<lparr>w_locked := True\<rparr>)) (\<lambda>(p, w).
                   Some (if is_panic p then p else r, w\<lparr>w_locked := False\<rparr>))
                 else Some (r, w))))"

text \<open>\<^verbatim>\<open>scheduleRmConn\<close> in full.\<close>

definition ep_scheduleRmConn :: "'s DialEnv \<Rightarrow> nat \<Rightarrow> 's Endpoint \<Rightarrow> (go_error option result \<times> 's Endpoint) option" where
  "ep_scheduleRmConn env c w =
     (let w = schedule_conn c w in if w_autoReconnect w then ep_Dial env (w_ep w) w else Some (Ok None, w))"

section \<open>Listening\<close>

text \<open>\<open>listen\<close> is the listener or the error of the transport. The goroutines that accept read \<^verbatim>\<open>sck.listener\<close> anew in every round.\<close>

definition ep_Listen :: "'s DialEnv \<Rightarrow> nat result \<Rightarrow> bytes \<Rightarrow> 's Endpoint \<Rightarrow> go_error option \<times> 's Endpoint" where
  "ep_Listen env listen endpoint w =
     (let w = w\<lparr>w_ep := endpoint\<rparr>; (network, addr, err) = splitAddr (d_drivers env) endpoint in
      if err \<noteq> None then (err, w)
      else if transports_get network (d_drivers env) = None then (Some UnknownTransportError, w)
      else
        case listen of
          Ok l \<Rightarrow> (None, start_reaper (w\<lparr>w_listener := Some l\<rparr>))
        | Err e \<Rightarrow> (Some (Wrapf ''zmq4: could not listen'' e), w)
        | Panic m \<Rightarrow> (Some (Errorf m), w))"

text \<open>One round of \<^verbatim>\<open>accept\<close>; \<open>acc\<close> is what \<^verbatim>\<open>Accept\<close> returned. Failures are dropped.\<close>

definition accept_round :: "'s DialEnv \<Rightarrow> net option result \<Rightarrow> 's Endpoint \<Rightarrow> (go_error option result \<times> 's Endpoint) option" where
  "accept_round env acc w =
     (if s_ctxDone (w_sck w) then Some (Ok None, w)
      else
        case acc of
          Panic m \<Rightarrow> Some (Panic m, w)
        | Err e \<Rightarrow> Some (Ok None, w)
        | Ok raw \<Rightarrow>
            let (o1, oc) = Open raw (d_ops env) (d_handshake env) (d_sec env) (s_typ (w_sck w)) (s_id (w_sck w)) True True;
                c = w_next w; w = w\<lparr>w_next := c + 1\<rparr>; w = (if was_notified oc then schedule_conn c w else w) in
            Option.bind (if was_notified oc \<and> w_autoReconnect w then ep_Dial env (w_ep w) w else Some (Ok None, w)) (\<lambda>(p, w).
              if is_panic p then Some (p, w)
              else
                Option.bind (after_open env True c o1 oc w) (\<lambda>(r, lost, w).
                  if lost \<and> w_autoReconnect w
                  then Option.bind (ep_Dial env (w_ep w) (w\<lparr>w_locked := True\<rparr>)) (\<lambda>(p, w).
                    Some (if is_panic p then p else Ok None, w\<lparr>w_locked := False\<rparr>))
                  else Some (if is_panic r then r else Ok None, w))))"

section \<open>How often a dial is repeated\<close>

definition dial_again :: "'s DialEnv \<Rightarrow> int \<Rightarrow> nat \<Rightarrow> nat \<Rightarrow> bool" where
  "dial_again env maxRetries retries k \<longleftrightarrow>
     (\<exists>e. d_dial env k = Err e) \<and> (maxRetries = -1 \<or> int retries < maxRetries) \<and> \<not> d_ctxErr env k"

lemma dial_loop_again: "dial_again env m r k \<Longrightarrow> dial_loop env m r k = dial_loop env m (r + 1) (k + 1)"
  by (subst dial_loop.simps) (auto simp: dial_again_def)

lemma dial_loop_stop: "\<not> dial_again env m r k \<Longrightarrow> dial_loop env m r k = Some (d_dial env k, k + 1)"
  by (subst dial_loop.simps) (auto simp: dial_again_def split: result.split)

lemma dial_loop_steps: "\<forall>i < n. dial_again env m (r + i) (k + i) \<Longrightarrow> dial_loop env m r k = dial_loop env m (r + n) (k + n)"
proof (induction n)
  case (Suc n)
  then have "dial_loop env m r k = dial_loop env m (r + n) (k + n)" by simp
  then show ?case using Suc.prems dial_loop_again [of env m "r + n" "k + n"] by simp
qed simp

text \<open>
  with a limit on the retries a dial returns: after at most the limit plus one attempts it returns the answer of the last one, and
  all attempts before it failed.
\<close>

theorem dial_terminates:
  assumes "0 \<le> maxRetries"
  shows "\<exists>n \<le> nat maxRetries. dial_loop env maxRetries 0 k = Some (d_dial env (k + n), k + n + 1) \<and>
    (\<forall>i < n. \<exists>e. d_dial env (k + i) = Err e)"
proof -
  let ?stop = "\<lambda>n. \<not> dial_again env maxRetries n (k + n)"
  have "?stop (nat maxRetries)" using assms by (simp add: dial_again_def)
  then have n: "?stop (LEAST n. ?stop n)" "(LEAST n. ?stop n) \<le> nat maxRetries" by (rule LeastI, rule Least_le)
  define n where "n = (LEAST n. ?stop n)"
  have before: "\<forall>i < n. dial_again env maxRetries (0 + i) (k + i)" unfolding n_def using not_less_Least by fastforce
  have "dial_loop env maxRetries 0 k = Some (d_dial env (k + n), k + n + 1)"
    using dial_loop_steps [OF before] dial_loop_stop [OF n(1)] by (simp add: n_def)
  moreover have "n \<le> nat maxRetries" using n(2) by (simp add: n_def)
  ultimately show ?thesis using before by (auto simp: dial_again_def)
qed

definition demo_env :: "unit DialEnv" where
  "demo_env = \<lparr>d_drivers = [(str ''inproc'', InprocTransport)], d_dial = (\<lambda>k. if k < 2 then Err EOF else Ok None), d_ctxErr = (\<lambda>_. False),
     d_ops = null_ops, d_handshake = (\<lambda>c server. (Ok (), c)), d_sec = Some (), d_addr = (\<lambda>_. []), d_uuid = (\<lambda>_. []), d_now = int\<rparr>"

theorem dial_terminates_witness:
  "\<exists>n \<le> nat 5. dial_loop demo_env 5 0 0 = Some (d_dial demo_env (0 + n), 0 + n + 1) \<and> (\<forall>i < n. \<exists>e. d_dial demo_env (0 + i) = Err e)"
  using dial_terminates [of 5 demo_env 0] by simp

text \<open>Without a limit it goes on for ever while every attempt fails and the socket is open.\<close>

definition all_fail :: "'s DialEnv \<Rightarrow> bool" where
  "all_fail env \<longleftrightarrow> (\<forall>k. (\<exists>e. d_dial env k = Err e) \<and> \<not> d_ctxErr env k)"

lemma dial_forever:
  fixes env :: "'s DialEnv"
  assumes "all_fail env"
  shows "dial_loop env (-1) r k = None"
proof (rule ccontr)
  let ?P = "\<lambda>(env :: 's DialEnv) (m :: int) (r :: nat) (k :: nat) (y :: net option result \<times> nat). m = -1 \<longrightarrow> all_fail env \<longrightarrow> False"
  assume "dial_loop env (-1) r k \<noteq> None"
  then obtain y where y: "dial_loop env (-1) r k = Some y" by blast
  have "?P env (-1) r k y"
  proof (rule dial_loop.raw_induct [where P = ?P, OF _ y], intro impI)
    fix loop and env :: "'s DialEnv" and m r k y
    assume IH: "\<And>env m r k y. loop env m r k = Some y \<Longrightarrow> m = -1 \<longrightarrow> all_fail env \<longrightarrow> False"
      and body: "(case d_dial env k of
          Ok x \<Rightarrow> Some (Ok x, k + 1)
        | Err e \<Rightarrow>
            if (m = -1 \<or> int r < m) \<and> \<not> d_ctxErr env k then loop env m (r + 1) (k + 1) else Some (Err e, k + 1)
        | Panic p \<Rightarrow> Some (Panic p, k + 1)) = Some y"
      and m: "m = -1" and fail: "all_fail env"
    obtain e where "d_dial env k = Err e" "\<not> d_ctxErr env k" using fail by (auto simp: all_fail_def)
    then have "loop env m (r + 1) (k + 1) = Some y" using body m by simp
    then show False using IH m fail by blast
  qed
  then show False using assms by simp
qed

section \<open>Registered connections\<close>

text \<open>
  The pools hold the connections of the socket, handles are used once, the reaper is started as soon as there is a connection or a listener, and it
  returns only when the socket is closed.
\<close>

definition endpoint_ok :: "'s Endpoint \<Rightarrow> bool" where
  "endpoint_ok w \<longleftrightarrow> socket_inv (w_sck w) \<and> (\<forall>c \<in> set (conns (w_sck w)). c < w_next w) \<and>
     (conns (w_sck w) \<noteq> [] \<or> w_listener w \<noteq> None \<longrightarrow> w_reaperStarted w) \<and> (w_reaperReturned w \<longrightarrow> s_ctxDone (w_sck w))"

text \<open>What a dial may do: register connections under new handles.\<close>

definition grows :: "'s Endpoint \<Rightarrow> 's Endpoint \<Rightarrow> bool" where
  "grows w w' \<longleftrightarrow> endpoint_ok w' \<and> w_next w \<le> w_next w' \<and> (w_reaperStarted w \<longrightarrow> w_reaperStarted w') \<and> w_listener w' = w_listener w \<and>
     w_reaperReturned w' = w_reaperReturned w \<and>
     set (conns (w_sck w')) \<subseteq> set (conns (w_sck w)) \<union> {w_next w..<w_next w'}"

lemma grows_trans: "grows w w' \<Longrightarrow> grows w' w'' \<Longrightarrow> grows w w''"
  by (fastforce simp: grows_def)

lemma grows_fields:
  assumes "endpoint_ok w" "w_sck w' = w_sck w \<or> (\<exists>c. w_sck w' = scheduleRmConn c (w_sck w))" "w_next w \<le> w_next w'"
    "w_listener w' = w_listener w" "w_reaperStarted w \<longrightarrow> w_reaperStarted w'" "w_reaperReturned w' = w_reaperReturned w"
  shows "grows w w'"
  using assms by (fastforce simp: grows_def endpoint_ok_def scheduleRmConn_def socket_inv_def)

lemma grows_from:
  "grows w w' \<Longrightarrow> w_sck v = w_sck w \<or> (\<exists>c. w_sck w = scheduleRmConn c (w_sck v)) \<Longrightarrow> w_next v \<le> w_next w \<Longrightarrow>
     w_listener v = w_listener w \<Longrightarrow> (w_reaperStarted v \<longrightarrow> w_reaperStarted w) \<Longrightarrow> w_reaperReturned v = w_reaperReturned w \<Longrightarrow> grows v w'"
  by (fastforce simp: grows_def scheduleRmConn_def)

lemma conns_addConn:
  "conns (fst (socket_addConn ops addr uuid now c sck h)) = conns sck @ [c]" "s_ctxDone (fst (socket_addConn ops addr uuid now c sck h)) = s_ctxDone sck"
  by (simp_all add: socket_addConn_def Let_def updateHeartbeatState_def)

lemma register_grows:
  assumes "grows w v" "register_conn env (w_next w) conn v = (lost, v')" "w_next w < w_next v" "w_reaperStarted v"
    "w_next w \<notin> set (conns (w_sck v))" "endpoint_ok w"
  shows "grows w v'"
proof -
  let ?c = "w_next w"
  obtain sck h where add: "socket_addConn (d_ops env) (d_addr env ?c) (d_uuid env ?c) (d_now env ?c) ?c (w_sck v) ((w_heap v)(?c := conn)) = (sck, h)"
    by fastforce
  have v': "v' = v\<lparr>w_sck := sck, w_heap := h\<rparr>" using assms(2) add by (simp add: register_conn_def)
  have "socket_inv sck"
    using socket_addConn_inv [of "w_sck v" ?c "d_ops env" "d_addr env ?c" "d_uuid env ?c" "d_now env ?c" "(w_heap v)(?c := conn)"] add assms(1,5)
    by (simp add: grows_def endpoint_ok_def)
  moreover have "conns sck = conns (w_sck v) @ [?c]" "s_ctxDone sck = s_ctxDone (w_sck v)" using conns_addConn add by (metis fst_conv)+
  ultimately show ?thesis using assms v' by (auto simp: grows_def endpoint_ok_def)
qed

lemma register_reaper: "register_conn env c conn w = (lost, w') \<Longrightarrow> w_reaperStarted w' = w_reaperStarted w"
  by (auto simp: register_conn_def split: prod.splits)

lemma dial_raw_grows: "endpoint_ok w \<Longrightarrow> dial_raw env ep w = Some (x, w') \<Longrightarrow> grows w w'"
  by (rule grows_fields) (auto simp: dial_raw_def Let_def split: prod.splits if_splits option.splits result.splits)

definition growing :: "('s DialEnv \<Rightarrow> bytes \<Rightarrow> 's Endpoint \<Rightarrow> (go_error option result \<times> 's Endpoint) option) \<Rightarrow> bool" where
  "growing f \<longleftrightarrow> (\<forall>env ep w y. f env ep w = Some y \<longrightarrow> endpoint_ok w \<longrightarrow> grows w (snd y))"

text \<open>From \<^verbatim>\<open>Open\<close> to the end, given that the recursive calls grow the endpoint.\<close>

lemma opened_grows:
  assumes IH: "growing f" and ok: "endpoint_ok w" and server: "server \<longrightarrow> w_reaperStarted w"
    and v: "v = (if b then schedule_conn (w_next w) (w\<lparr>w_next := w_next w + 1\<rparr>) else w\<lparr>w_next := w_next w + 1\<rparr>)"
    and one: "(if b \<and> w_autoReconnect v then f env (w_ep v) v else Some (Ok None, v)) = Some (p, w1)"
    and two: "after_open env server (w_next w) o1 oc w1 = Some (r, lost, w2)"
    and three: "if lost \<and> w_autoReconnect w2 then f env (w_ep w2) (w2\<lparr>w_locked := True\<rparr>) = Some (q, w3) else w3 = w2"
  shows "grows w w1" "grows w w2" "grows w w3" "grows w (w3\<lparr>w_locked := False\<rparr>)"
proof -
  have v_ok: "grows w v" using ok v by (intro grows_fields) (auto simp: schedule_conn_def)
  then have "grows v w1" using IH one by (fastforce simp: growing_def grows_def split: if_splits)
  then show w1: "grows w w1" using v_ok grows_trans by blast
  have "w_next v = w_next w + 1" "conns (w_sck v) = conns (w_sck w)" using v by (simp_all add: schedule_conn_def scheduleRmConn_def)
  then have "w_next w < w_next w1" "set (conns (w_sck w1)) \<subseteq> set (conns (w_sck w)) \<union> {w_next w + 1..<w_next w1}"
    using \<open>grows v w1\<close> by (auto simp: grows_def)
  moreover have "w_next w \<notin> set (conns (w_sck w))" using ok by (auto simp: endpoint_ok_def)
  ultimately have fresh: "w_next w < w_next w1" "w_next w \<notin> set (conns (w_sck w1))" by auto
  show w2: "grows w w2"
  proof (cases o1)
    case (Ok u)
    let ?s = "if server then w1 else start_reaper w1"
    obtain l' w' where reg: "register_conn env (w_next w) (the oc) ?s = (l', w')" by fastforce
    have w2_def: "w2 = (if l' then schedule_conn (w_next w) w' else w')" using two Ok reg by (auto simp: after_open_def split: if_splits)
    have s: "grows w ?s" "w_reaperStarted ?s" "w_next ?s = w_next w1" "w_sck ?s = w_sck w1"
      using w1 server by (auto simp: grows_def endpoint_ok_def start_reaper_def)
    have "grows w w'" by (rule register_grows [OF s(1) reg _ s(2) _ ok]) (use fresh s in auto)
    moreover have "grows w' w2" using \<open>grows w w'\<close> w2_def by (intro grows_fields) (auto simp: grows_def schedule_conn_def)
    ultimately show ?thesis by (rule grows_trans)
  qed (use two w1 in \<open>auto simp: after_open_def\<close>)
  show w3: "grows w w3"
  proof (cases "lost \<and> w_autoReconnect w2")
    case True
    have "endpoint_ok (w2\<lparr>w_locked := True\<rparr>)" using w2 by (simp add: grows_def endpoint_ok_def)
    then have "grows (w2\<lparr>w_locked := True\<rparr>) w3" using IH three True by (fastforce simp: growing_def)
    then have "grows w2 w3" by (rule grows_from) auto
    then show ?thesis using w2 grows_trans by blast
  qed (use three w2 in auto)
  then show "grows w (w3\<lparr>w_locked := False\<rparr>)" by (simp add: grows_def endpoint_ok_def)
qed

lemma after_open_panic: "after_open env server c (Panic m) oc w = Some (Panic m, False, w)"
  by (simp add: after_open_def)

lemma ep_Dial_step:
  assumes IH: "growing f" and ok: "endpoint_ok w" and server: "server \<longrightarrow> w_reaperStarted w"
    and v: "v = (if b then schedule_conn (w_next w) (w\<lparr>w_next := w_next w + 1\<rparr>) else w\<lparr>w_next := w_next w + 1\<rparr>)"
    and body: "Option.bind (if b \<and> w_autoReconnect v then f env (w_ep v) v else Some (Ok None, v)) (\<lambda>(p, w1).
        if is_panic p then Some (p, w1)
        else
          Option.bind (after_open env server (w_next w) o1 oc w1) (\<lambda>(r, lost, w2).
            if lost \<and> w_autoReconnect w2
            then Option.bind (f env (w_ep w2) (w2\<lparr>w_locked := True\<rparr>)) (\<lambda>(p, w3). Some (g1 p r, w3\<lparr>w_locked := False\<rparr>))
            else Some (g2 r, w2))) = Some y"
  shows "grows w (snd y)"
proof -
  obtain p w1 where one: "(if b \<and> w_autoReconnect v then f env (w_ep v) v else Some (Ok None, v)) = Some (p, w1)"
    using body by (auto simp: bind_eq_Some_conv)
  show ?thesis
  proof (cases "is_panic p")
    case True
    have three: "if False \<and> w_autoReconnect w1 then f env (w_ep w1) (w1\<lparr>w_locked := True\<rparr>) = Some (q, w1) else w1 = w1" for q by simp
    show ?thesis
      using opened_grows(1) [where f = f, OF IH ok server v one after_open_panic three] True body one by auto
  next
    case False
    then obtain r lost w2 where two: "after_open env server (w_next w) o1 oc w1 = Some (r, lost, w2)"
      using body one by (auto simp: bind_eq_Some_conv)
    show ?thesis
    proof (cases "lost \<and> w_autoReconnect w2")
      case True
      then obtain q w3 where dial: "f env (w_ep w2) (w2\<lparr>w_locked := True\<rparr>) = Some (q, w3)" and y: "snd y = w3\<lparr>w_locked := False\<rparr>"
        using body one two False by (auto simp: bind_eq_Some_conv)
      then have three: "if lost \<and> w_autoReconnect w2 then f env (w_ep w2) (w2\<lparr>w_locked := True\<rparr>) = Some (q, w3) else w3 = w2" using True by simp
      show ?thesis using opened_grows(4) [where f = f, OF IH ok server v one two three] y by simp
    next
      case no: False
      have three: "if lost \<and> w_autoReconnect w2 then f env (w_ep w2) (w2\<lparr>w_locked := True\<rparr>) = Some (q, w2) else w2 = w2" for q using no by auto
      have "snd y = w2" using body one two False no by auto
      then show ?thesis using opened_grows(2) [where f = f, OF IH ok server v one two three] by simp
    qed
  qed
qed

lemma ep_Dial_grows:
  assumes "ep_Dial env ep w = Some y"
  shows "endpoint_ok w \<longrightarrow> grows w (snd y)"
proof (rule ep_Dial.raw_induct [where P = "\<lambda>env ep w y. endpoint_ok w \<longrightarrow> grows w (snd y)", OF _ assms], intro impI, goal_cases)
  case (1 f env ep w y)
  have IH: "growing f" using 1(1) by (auto simp: growing_def)
  obtain x v where raw: "dial_raw env ep w = Some (x, v)" using 1(2) by (auto simp: bind_eq_Some_conv)
  have gv: "grows w v" using dial_raw_grows [OF 1(3) raw] .
  show ?case
  proof (cases x)
    case (Inl r)
    then show ?thesis using 1(2) raw gv by auto
  next
    case (Inr net)
    obtain o1 oc where op: "Open (Some net) (d_ops env) (d_handshake env) (d_sec env) (s_typ (w_sck v)) (s_id (w_sck v)) False True = (o1, oc)"
      by fastforce
    define u where "u = (if was_notified oc then schedule_conn (w_next v) (v\<lparr>w_next := w_next v + 1\<rparr>) else v\<lparr>w_next := w_next v + 1\<rparr>)"
    have "grows v (snd y)"
      by (rule ep_Dial_step [where f = f and server = False, OF IH _ _ u_def]) (use 1(2) raw Inr op gv in \<open>auto simp: Let_def u_def grows_def\<close>)
    then show ?thesis using gv grows_trans by blast
  qed
qed

lemma ep_Dial_growing: "growing ep_Dial"
  unfolding growing_def using ep_Dial_grows by blast

lemma accept_round_grows:
  assumes "endpoint_ok w" "w_reaperStarted w" "accept_round env acc w = Some y"
  shows "grows w (snd y)"
proof (cases "s_ctxDone (w_sck w) \<or> (\<forall>raw. acc \<noteq> Ok raw)")
  case True
  then show ?thesis
    using assms by (intro grows_fields) (auto simp: accept_round_def split: if_splits result.splits)
next
  case False
  then obtain raw where acc: "acc = Ok raw" by blast
  obtain o1 oc where op: "Open raw (d_ops env) (d_handshake env) (d_sec env) (s_typ (w_sck w)) (s_id (w_sck w)) True True = (o1, oc)"
    by fastforce
  define u where "u = (if was_notified oc then schedule_conn (w_next w) (w\<lparr>w_next := w_next w + 1\<rparr>) else w\<lparr>w_next := w_next w + 1\<rparr>)"
  show ?thesis
    by (rule ep_Dial_step [where f = ep_Dial and server = True, OF ep_Dial_growing assms(1) _ u_def])
      (use assms False acc op in \<open>auto simp: accept_round_def Let_def u_def\<close>)
qed

text \<open>
  The life of an endpoint: dials, rounds of the goroutines that accept, listening, rounds of the reaper, connections that die, and closing.
  \<open>env\<close> may change from step to step.
\<close>

inductive ep_step :: "'s Endpoint \<Rightarrow> 's Endpoint \<Rightarrow> bool" where
  step_dial: "ep_Dial env endpoint w = Some (r, w') \<Longrightarrow> ep_step w w'"
| step_accept: "w_listener w \<noteq> None \<Longrightarrow> accept_round env acc w = Some (r, w') \<Longrightarrow> ep_step w w'"
| step_listen: "ep_Listen env listen endpoint w = (r, w') \<Longrightarrow> ep_step w w'"
| step_lost: "ep_scheduleRmConn env c w = Some (r, w') \<Longrightarrow> ep_step w w'"
| step_reap: "reaper_running w \<Longrightarrow> ep_step w (reaper_round addr now w)"
| step_close: "socket_Close (w_sck w) (w_heap w) = (sck, h) \<Longrightarrow> ep_step w (w\<lparr>w_sck := sck, w_heap := h\<rparr>)"

definition new_endpoint :: "socket \<Rightarrow> int \<Rightarrow> bool \<Rightarrow> 's heap \<Rightarrow> 's Endpoint" where
  "new_endpoint sck maxRetries autoReconnect h =
     \<lparr>w_sck = sck, w_ep = [], w_maxRetries = maxRetries, w_autoReconnect = autoReconnect, w_listener = None, w_reaperStarted = False,
      w_reaperReturned = False, w_locked = False, w_heap = h, w_next = 0, w_dials = 0\<rparr>"

lemma connReaper_ok: "socket_inv sck \<Longrightarrow> socket_inv (connReaper_round addr now sck) \<and> set (conns (connReaper_round addr now sck)) \<subseteq> set (conns sck)"
proof -
  assume "socket_inv sck"
  then have inv: "socket_inv (sck\<lparr>closedConns := []\<rparr>)" by (simp add: socket_inv_def)
  then show ?thesis
    using reap_spec [OF inv, of addr now "closedConns sck"] \<open>socket_inv sck\<close> by (auto simp: connReaper_round_def Let_def)
qed

lemma ep_step_ok:
  assumes "ep_step w w'" "endpoint_ok w"
  shows "endpoint_ok w'"
  using assms
proof cases
  case (step_dial env endpoint r)
  then show ?thesis using ep_Dial_grows assms(2) by (fastforce simp: grows_def)
next
  case (step_accept env acc r)
  then have "w_reaperStarted w" using assms(2) by (simp add: endpoint_ok_def)
  then have "grows w (snd (r, w'))" using step_accept accept_round_grows [OF assms(2)] by blast
  then show ?thesis by (simp add: grows_def)
next
  case (step_listen env listen endpoint r)
  then show ?thesis
    using assms(2) by (auto simp: ep_Listen_def endpoint_ok_def start_reaper_def Let_def split: prod.splits if_splits result.splits)
next
  case (step_lost env c r)
  have "endpoint_ok (schedule_conn c w)" using assms(2) by (simp add: endpoint_ok_def schedule_conn_def scheduleRmConn_def socket_inv_def)
  moreover have "w' = schedule_conn c w \<or> (\<exists>ep. ep_Dial env ep (schedule_conn c w) = Some (r, w'))"
    using step_lost by (auto simp: ep_scheduleRmConn_def Let_def split: if_splits)
  ultimately show ?thesis using ep_Dial_grows by (fastforce simp: grows_def)
next
  case (step_reap addr now)
  then show ?thesis
    using assms(2) connReaper_ok [of "w_sck w" addr now] by (auto simp: endpoint_ok_def reaper_running_def reaper_round_def)
next
  case (step_close sck h)
  then show ?thesis using assms(2) by (auto simp: socket_Close_def endpoint_ok_def socket_inv_def)
qed

text \<open>
  C13: however a socket listens, accepts, dials, reconnects, loses connections, reaps them and is closed, its writer holds exactly its connections,
  its reader only such, and none twice. As long as the socket is not closed, the goroutine of the reaper runs, that is it was started and has not
  returned, whenever there is a connection or a listener. (After \<^verbatim>\<open>Close\<close> it returns and the connections stay in the pools.)
\<close>

theorem endpoint_consistent:
  assumes "ep_step\<^sup>*\<^sup>* (new_endpoint (newSocket typ ident uuid) maxRetries autoReconnect h) w"
  shows "distinct (conns (w_sck w)) \<and> ws (s_w (w_sck w)) = conns (w_sck w) \<and> set (rs (s_r (w_sck w))) \<subseteq> set (conns (w_sck w)) \<and>
    distinct (rs (s_r (w_sck w))) \<and>
    (conns (w_sck w) \<noteq> [] \<or> w_listener w \<noteq> None \<longrightarrow> \<not> s_ctxDone (w_sck w) \<longrightarrow> reaper_running w)"
proof -
  have "endpoint_ok (new_endpoint (newSocket typ ident uuid) maxRetries autoReconnect h)"
    by (simp add: endpoint_ok_def new_endpoint_def newSocket_def socket_inv_def new_reader_def new_writer_def)
  from assms this have "endpoint_ok w" by (induction rule: rtranclp_induct) (auto dest: ep_step_ok)
  then show ?thesis by (auto simp: endpoint_ok_def socket_inv_def reaper_running_def)
qed

theorem endpoint_consistent_witness:
  "\<exists>w :: unit Endpoint. ep_step\<^sup>*\<^sup>* (new_endpoint (newSocket SockPush [] [1]) 10 False (\<lambda>_. new_Conn (open_net []) () [] [] False False)) w \<and>
     w_listener w = Some 0 \<and> \<not> s_ctxDone (w_sck w) \<and> reaper_running w \<and> ws (s_w (w_sck w)) = conns (w_sck w)"
proof -
  let ?n = "new_endpoint (newSocket SockPush [] [1]) 10 False (\<lambda>_. new_Conn (open_net []) () [] [] False False) :: unit Endpoint"
  define w where "w = snd (ep_Listen demo_env (Ok 0) (str ''inproc://a'') ?n)"
  have "splitAddr [(str ''inproc'', InprocTransport)] (str ''inproc://a'') = (str ''inproc'', str ''a'', None)" by code_simp
  then have lis: "w_listener w = Some 0" "\<not> s_ctxDone (w_sck w)"
    by (simp_all add: w_def ep_Listen_def demo_env_def start_reaper_def transports_get_def new_endpoint_def newSocket_def)
  have "ep_step ?n w" by (rule step_listen [of demo_env "Ok 0" "str ''inproc://a''" _ "fst (ep_Listen demo_env (Ok 0) (str ''inproc://a'') ?n)"]) (simp add: w_def)
  then have run: "ep_step\<^sup>*\<^sup>* ?n w" by simp
  then show ?thesis using endpoint_consistent [OF run] lis by (intro exI [of _ w]) simp
qed

section \<open>A dial that succeeds\<close>

text \<open>
  When the transport answers the dial and \<^verbatim>\<open>Open\<close> completes the handshake on a connection that stays up while its subscriptions
  are sent, \<^verbatim>\<open>Dial\<close> returns no error, and the connection is registered last in the socket and in both pools, and the reaper has been started.
\<close>

lemma dial_registers:
  assumes "splitAddr (d_drivers env) endpoint = (network, addr, None)" "transports_get network (d_drivers env) = Some driver"
    and "\<not> dial_again env (w_maxRetries w) 0 (w_dials w)" "d_dial env (w_dials w) = Ok (Some raw)"
    and "Open (Some raw) (d_ops env) (d_handshake env) (d_sec env) (s_typ (w_sck w)) (s_id (w_sck w)) False True = (Ok (), Some conn)"
    and "notified conn = 0" "\<not> w_locked w"
    and "notified (snd (socket_addConn (d_ops env) (d_addr env (w_next w)) (d_uuid env (w_next w)) (d_now env (w_next w)) (w_next w) (w_sck w)
           ((w_heap w)(w_next w := conn))) (w_next w)) = 0"
  shows "\<exists>w'. ep_Dial env endpoint w = Some (Ok None, w') \<and> conns (w_sck w') = conns (w_sck w) @ [w_next w] \<and>
    ws (s_w (w_sck w')) = ws (s_w (w_sck w)) @ [w_next w] \<and> rs (s_r (w_sck w')) = rs (s_r (w_sck w)) @ [w_next w] \<and>
    w_reaperStarted w' \<and> w_ep w' = endpoint \<and>
    w_heap w' = snd (socket_addConn (d_ops env) (d_addr env (w_next w)) (d_uuid env (w_next w)) (d_now env (w_next w)) (w_next w) (w_sck w)
      ((w_heap w)(w_next w := conn)))"
proof -
  let ?c = "w_next w"
  obtain sck h where add: "socket_addConn (d_ops env) (d_addr env ?c) (d_uuid env ?c) (d_now env ?c) ?c (w_sck w) ((w_heap w)(?c := conn)) = (sck, h)"
    by fastforce
  let ?w = "w\<lparr>w_ep := endpoint, w_dials := w_dials w + 1\<rparr>"
  have raw: "dial_raw env endpoint w = Some (Inr raw, ?w)"
    using assms(1,2,4) dial_loop_stop [OF assms(3)] by (simp add: dial_raw_def)
  let ?v = "?w\<lparr>w_next := ?c + 1\<rparr>"
  have after: "after_open env False ?c (Ok ()) (Some conn) ?v = Some (Ok None, False, (start_reaper ?v)\<lparr>w_sck := sck, w_heap := h\<rparr>)"
    using assms(6-8) add by (simp add: after_open_def register_conn_def start_reaper_def)
  have "ep_Dial env endpoint w = Some (Ok None, (start_reaper ?v)\<lparr>w_sck := sck, w_heap := h\<rparr>)"
    using raw assms(5,6) after by (subst ep_Dial.simps) (simp add: was_notified_def is_panic_def)
  moreover have "sck = fst (socket_addConn (d_ops env) (d_addr env ?c) (d_uuid env ?c) (d_now env ?c) ?c (w_sck w) ((w_heap w)(?c := conn)))"
    using add by simp
  then have "conns sck = conns (w_sck w) @ [?c]" "ws (s_w sck) = ws (s_w (w_sck w)) @ [?c]" "rs (s_r sck) = rs (s_r (w_sck w)) @ [?c]"
    by (simp_all add: socket_addConn_def Let_def updateHeartbeatState_def writer_addConn_def reader_addConn_def)
  ultimately show ?thesis using add by (simp add: start_reaper_def)
qed

section \<open>Two sockets connect\<close>

text \<open>What a socket sends on a new connection: a SUB socket its subscriptions, in order, the others nothing.\<close>

definition sub_bytes :: "socket \<Rightarrow> bytes" where
  "sub_bytes sck = (case subTopics sck of None \<Rightarrow> [] | Some ts \<Rightarrow> concat (map sub_wire (sub_Topics ts)))"

lemma addConn_subscribes:
  assumes "up (h c)"
  shows "notified (snd (socket_addConn null_ops addr uuid now c sck h) c) = notified (h c)"
    "tx (rw (snd (socket_addConn null_ops addr uuid now c sck h) c)) = tx (rw (h c)) @ sub_bytes sck"
    "rx (rw (snd (socket_addConn null_ops addr uuid now c sck h) c)) = rx (rw (h c))"
    "PeerMeta (snd (socket_addConn null_ops addr uuid now c sck h) c) sysSockType = PeerMeta (h c) sysSockType"
proof -
  let ?c = "(h c)\<lparr>heartbeatNotifyCB := True\<rparr>"
  let ?c1 = "if length (peer_id ?c) = 0 \<and> ctyp ?c = SockRouter then ?c\<lparr>PeerMeta := (PeerMeta ?c)(sysSockID \<mapsto> uuid)\<rparr> else ?c"
  have up: "up ?c1" using assms by (simp add: up_def)
  have same: "rw ?c1 = rw (h c)" "notified ?c1 = notified (h c)" "PeerMeta ?c1 sysSockType = PeerMeta (h c) sysSockType"
    by (simp_all add: sysSockType_def sysSockID_def wire_simps)
  have "snd (socket_addConn null_ops addr uuid now c sck h) c = wrote (sub_bytes sck) () ?c1"
  proof (cases "subTopics sck")
    case None
    then show ?thesis using wrote_Nil_unit [of ?c1] by (simp add: socket_addConn_def Let_def sub_bytes_def)
  next
    case (Some ts)
    then have "snd (socket_addConn null_ops addr uuid now c sck h) c = send_subscriptions null_ops (sub_Topics ts) ?c1"
      by (simp add: socket_addConn_def Let_def)
    then show ?thesis using send_subscriptions_wire [OF up, of "sub_Topics ts"] Some by (simp add: sub_bytes_def)
  qed
  then show "notified (snd (socket_addConn null_ops addr uuid now c sck h) c) = notified (h c)"
    "tx (rw (snd (socket_addConn null_ops addr uuid now c sck h) c)) = tx (rw (h c)) @ sub_bytes sck"
    "rx (rw (snd (socket_addConn null_ops addr uuid now c sck h) c)) = rx (rw (h c))"
    "PeerMeta (snd (socket_addConn null_ops addr uuid now c sck h) c) sysSockType = PeerMeta (h c) sysSockType"
    using same by (simp_all add: wrote_def)
qed

text \<open>The connection of handle \<open>c\<close> is \<open>conn\<close> with the subscriptions written to it.\<close>

definition conn_joined :: "unit Endpoint \<Rightarrow> nat \<Rightarrow> unit Conn \<Rightarrow> bytes \<Rightarrow> bool" where
  "conn_joined w c conn subs \<longleftrightarrow> tx (rw (w_heap w c)) = tx (rw conn) @ subs \<and> rx (rw (w_heap w c)) = rx (rw conn) \<and>
     PeerMeta (w_heap w c) sysSockType = PeerMeta conn sysSockType"

lemma accept_registers:
  assumes "\<not> s_ctxDone (w_sck w)" "d_ops env = null_ops"
    and "Open (Some raw) null_ops (d_handshake env) (d_sec env) (s_typ (w_sck w)) (s_id (w_sck w)) True True = (Ok (), Some conn)"
    and "notified conn = 0" "up conn" "\<not> w_locked w"
  shows "\<exists>w'. accept_round env (Ok (Some raw)) w = Some (Ok None, w') \<and> conns (w_sck w') = conns (w_sck w) @ [w_next w] \<and>
    conn_joined w' (w_next w) conn (sub_bytes (w_sck w))"
proof -
  let ?c = "w_next w" let ?v = "w\<lparr>w_next := ?c + 1\<rparr>"
  obtain sck h where add: "socket_addConn null_ops (d_addr env ?c) (d_uuid env ?c) (d_now env ?c) ?c (w_sck w) ((w_heap w)(?c := conn)) = (sck, h)"
    by fastforce
  have joined: "notified (h ?c) = 0" "conn_joined (?v\<lparr>w_sck := sck, w_heap := h\<rparr>) ?c conn (sub_bytes (w_sck w))"
    using addConn_subscribes [of "(w_heap w)(?c := conn)" ?c "d_addr env ?c" "d_uuid env ?c" "d_now env ?c" "w_sck w"] add assms(4,5)
    by (simp_all add: conn_joined_def)
  moreover have "conns sck = conns (w_sck w) @ [?c]" using conns_addConn add by (metis fst_conv)
  moreover have "after_open env True ?c (Ok ()) (Some conn) ?v = Some (Ok None, False, ?v\<lparr>w_sck := sck, w_heap := h\<rparr>)"
    using assms(2,4,6) add joined(1) by (simp add: after_open_def register_conn_def)
  ultimately show ?thesis
    using assms(1-4) by (simp add: accept_round_def was_notified_def is_panic_def)
qed

lemma dial_registers_subs:
  assumes "splitAddr (d_drivers env) endpoint = (network, addr, None)" "transports_get network (d_drivers env) = Some driver"
    and "d_dial env (w_dials w) = Ok (Some raw)" "d_ops env = null_ops"
    and "Open (Some raw) null_ops (d_handshake env) (d_sec env) (s_typ (w_sck w)) (s_id (w_sck w)) False True = (Ok (), Some conn)"
    and "notified conn = 0" "up conn" "\<not> w_locked w"
  shows "\<exists>w'. ep_Dial env endpoint w = Some (Ok None, w') \<and> conns (w_sck w') = conns (w_sck w) @ [w_next w] \<and>
    conn_joined w' (w_next w) conn (sub_bytes (w_sck w))"
proof -
  let ?c = "w_next w"
  let ?h = "snd (socket_addConn (d_ops env) (d_addr env ?c) (d_uuid env ?c) (d_now env ?c) ?c (w_sck w) ((w_heap w)(?c := conn)))"
  have quiet: "notified (?h ?c) = 0" "tx (rw (?h ?c)) = tx (rw conn) @ sub_bytes (w_sck w)" "rx (rw (?h ?c)) = rx (rw conn)"
    "PeerMeta (?h ?c) sysSockType = PeerMeta conn sysSockType"
    using addConn_subscribes [of "(w_heap w)(?c := conn)" ?c "d_addr env ?c" "d_uuid env ?c" "d_now env ?c" "w_sck w"] assms(4,6,7) by simp_all
  have once: "\<not> dial_again env (w_maxRetries w) 0 (w_dials w)" using assms(3) by (simp add: dial_again_def)
  obtain w' where "ep_Dial env endpoint w = Some (Ok None, w')" "conns (w_sck w') = conns (w_sck w) @ [?c]" "w_heap w' = ?h"
    using dial_registers [OF assms(1,2) once assms(3) _ assms(6,8) quiet(1)] assms(4,5) by auto
  then show ?thesis using quiet by (auto simp: conn_joined_def)
qed

text \<open>
  C12: two sockets of compatible types under NULL security connect, SUB sockets with their subscriptions included. With the dialling socket reading
  what the accepting one writes and the other way round, over a network that takes every write, \<^verbatim>\<open>Dial\<close> returns no error, a round of \<^verbatim>\<open>accept\<close> registers its side, and each
  knows the type of the other. What each has then left to read are exactly the subscriptions of the other, which is nothing unless the other is a SUB
  socket. The transport answers the first dial, and no socket is closed or holds its mutex; the pools are those of the socket core.
\<close>

theorem sockets_connect:
  assumes "env_ok hA" "env_ok hB" "length (s_typ (w_sck wA)) \<le> 400" "length (s_typ (w_sck wB)) \<le> 400"
    and "IsCompatible (s_typ (w_sck wA)) (s_typ (w_sck wB)) = Ok True" "IsCompatible (s_typ (w_sck wB)) (s_typ (w_sck wA)) = Ok True"
    and "\<not> w_locked wA" "\<not> w_locked wB" "\<not> s_ctxDone (w_sck wB)"
    and "splitAddr (d_drivers eA) endpoint = (network, addr, None)" "transports_get network (d_drivers eA) = Some driver"
    and "d_ops eA = null_ops" "d_handshake eA = nullSecurity_Handshake hA" "d_sec eA = Some ()"
    and "d_ops eB = null_ops" "d_handshake eB = nullSecurity_Handshake hB" "d_sec eB = Some ()"
  shows "\<exists>rawA rawB wA' wB'.
    ep_Dial (eA\<lparr>d_dial := (\<lambda>_. Ok (Some rawA))\<rparr>) endpoint wA = Some (Ok None, wA') \<and> conns (w_sck wA') = conns (w_sck wA) @ [w_next wA] \<and>
    accept_round eB (Ok (Some rawB)) wB = Some (Ok None, wB') \<and> conns (w_sck wB') = conns (w_sck wB) @ [w_next wB] \<and>
    rx rawA = tx (rw (w_heap wB' (w_next wB))) \<and> rx rawB = tx (rw (w_heap wA' (w_next wA))) \<and>
    rx (rw (w_heap wA' (w_next wA))) = sub_bytes (w_sck wB) \<and> rx (rw (w_heap wB' (w_next wB))) = sub_bytes (w_sck wA) \<and>
    PeerMeta (w_heap wA' (w_next wA)) sysSockType = Some (s_typ (w_sck wB)) \<and>
    PeerMeta (w_heap wB' (w_next wB)) sysSockType = Some (s_typ (w_sck wA))"
proof -
  define tA iA tB iB where ti: "tA = s_typ (w_sck wA)" "iA = s_id (w_sck wA)" "tB = s_typ (w_sck wB)" "iB = s_id (w_sck wB)"
  let ?A = "open_net (null_hello hB tB iB @ sub_bytes (w_sck wB))" let ?B = "open_net (null_hello hA tA iA @ sub_bytes (w_sck wA))"
  have net: "\<not> rw_closed (open_net bs)" "wplan (open_net bs) = []" "rx (open_net bs) = bs" "tx (open_net bs) = []" for bs
    by (simp_all add: open_net_def)
  have compat: "compat_outcome (IsCompatible tA tB) = Ok ()" "compat_outcome (IsCompatible tB tA) = Ok ()" using assms(5,6) ti by simp_all
  obtain cA where cA: "Conn_init null_ops (null_handshake_by ''zmq4'' hA null_ops) (new_Conn ?A () tA iA False True) = (Ok (), cA)"
    "tx (rw cA) = null_hello hA tA iA" "rx (rw cA) = sub_bytes (w_sck wB)" "PeerMeta cA sysSockType = Some tB" "notified cA = 0" "up cA"
    using null_init [OF assms(1,2), of tA tB ?A iB "sub_bytes (w_sck wB)" "''zmq4''" iA False True] assms(3,4) net ti compat by auto
  obtain cB where cB: "Conn_init null_ops (null_handshake_by ''zmq4'' hB null_ops) (new_Conn ?B () tB iB True True) = (Ok (), cB)"
    "tx (rw cB) = null_hello hB tB iB" "rx (rw cB) = sub_bytes (w_sck wA)" "PeerMeta cB sysSockType = Some tA" "notified cB = 0" "up cB"
    using null_init [OF assms(2,1), of tB tA ?B iA "sub_bytes (w_sck wA)" "''zmq4''" iB True True] assms(3,4) net ti compat by auto
  have "Open (Some ?A) null_ops (nullSecurity_Handshake hA) (Some ()) tA iA False True = (Ok (), Some cA)"
    "Open (Some ?B) null_ops (nullSecurity_Handshake hB) (Some ()) tB iB True True = (Ok (), Some cB)"
    using cA(1) cB(1) by (simp_all add: Open_def nullSecurity_Handshake_def)
  then obtain wA' wB' where
    "ep_Dial (eA\<lparr>d_dial := (\<lambda>_. Ok (Some ?A))\<rparr>) endpoint wA = Some (Ok None, wA')" "conns (w_sck wA') = conns (w_sck wA) @ [w_next wA]"
    "conn_joined wA' (w_next wA) cA (sub_bytes (w_sck wA))"
    "accept_round eB (Ok (Some ?B)) wB = Some (Ok None, wB')" "conns (w_sck wB') = conns (w_sck wB) @ [w_next wB]"
    "conn_joined wB' (w_next wB) cB (sub_bytes (w_sck wB))"
    using dial_registers_subs [of "eA\<lparr>d_dial := (\<lambda>_. Ok (Some ?A))\<rparr>" endpoint network addr driver wA ?A cA] accept_registers [of wB eB ?B cB]
      assms(7-17) cA(5,6) cB(5,6) ti by auto
  then show ?thesis using cA cB net ti by (intro exI [of _ ?A] exI [of _ ?B] exI [of _ wA'] exI [of _ wB']) (simp add: conn_joined_def)
qed

text \<open>A PUB socket dials a SUB socket with the topic \<open>A\<close>.\<close>

theorem sockets_connect_witness:
  "\<exists>rawA rawB wA' wB'.
    ep_Dial (demo_env\<lparr>d_handshake := nullSecurity_Handshake sample_env, d_dial := (\<lambda>_. Ok (Some rawA))\<rparr>) (str ''inproc://a'')
      (new_endpoint (newSocket SockPub [] [1]) 10 False (\<lambda>_. new_Conn (open_net []) () [] [] False False)) = Some (Ok None, wA') \<and>
    accept_round (demo_env\<lparr>d_handshake := nullSecurity_Handshake sample_env\<rparr>) (Ok (Some rawB))
      (new_endpoint (sub_subscribe [65] 1 (newSub [] [2])) 10 False (\<lambda>_. new_Conn (open_net []) () [] [] False False)) = Some (Ok None, wB') \<and>
    conns (w_sck wA') = [0] \<and> conns (w_sck wB') = [0] \<and> rx (rw (w_heap wA' 0)) = [0, 2, 1, 65] \<and> rx (rw (w_heap wB' 0)) = [] \<and>
    PeerMeta (w_heap wA' 0) sysSockType = Some SockSub \<and> PeerMeta (w_heap wB' 0) sysSockType = Some SockPub"
proof -
  let ?h = "\<lambda>_. new_Conn (open_net []) () [] [] False False"
  define e where "e = demo_env\<lparr>d_handshake := nullSecurity_Handshake sample_env\<rparr>"
  define wA where "wA = new_endpoint (newSocket SockPub [] [1]) 10 False ?h"
  define wB where "wB = new_endpoint (sub_subscribe [65] 1 (newSub [] [2])) 10 False ?h"
  have split: "splitAddr [(str ''inproc'', InprocTransport)] (str ''inproc://a'') = (str ''inproc'', str ''a'', None)" by code_simp
  have w: "s_typ (w_sck wA) = SockPub" "s_typ (w_sck wB) = SockSub" "subTopics (w_sck wA) = None" "subTopics (w_sck wB) = Some {[65]}"
    "\<not> w_locked wA" "\<not> w_locked wB" "\<not> s_ctxDone (w_sck wB)" "conns (w_sck wA) = []" "conns (w_sck wB) = []" "w_next wA = 0" "w_next wB = 0"
    by (simp_all add: wA_def wB_def new_endpoint_def newSub_def newSocket_def sub_subscribe_def)
  have subs: "sub_bytes (w_sck wA) = []" "sub_bytes (w_sck wB) = [0, 2, 1, 65]"
    by (simp_all add: sub_bytes_def w sub_Topics_def sub_wire_def frame_header_def wire_flag_def more_flag_def)
  have e: "d_drivers e = [(str ''inproc'', InprocTransport)]" "d_ops e = null_ops" "d_handshake e = nullSecurity_Handshake sample_env" "d_sec e = Some ()"
    by (simp_all add: e_def demo_env_def)
  have compat: "IsCompatible SockPub SockSub = Ok True" "IsCompatible SockSub SockPub = Ok True" "length SockPub \<le> 400" "length SockSub \<le> 400"
    by (simp_all add: socket_types IsCompatible_def wire_simps)
  have "transports_get (str ''inproc'') (d_drivers e) = Some InprocTransport" by (simp add: e transports_get_def)
  from sockets_connect [OF sample_env_ok sample_env_ok, of wA wB e "str ''inproc://a''" "str ''inproc''" "str ''a''" InprocTransport e] this
  obtain rawA rawB wA' wB' where
    "ep_Dial (e\<lparr>d_dial := (\<lambda>_. Ok (Some rawA))\<rparr>) (str ''inproc://a'') wA = Some (Ok None, wA')" "accept_round e (Ok (Some rawB)) wB = Some (Ok None, wB')"
    "conns (w_sck wA') = [0]" "conns (w_sck wB') = [0]" "rx (rw (w_heap wA' 0)) = [0, 2, 1, 65]" "rx (rw (w_heap wB' 0)) = []"
    "PeerMeta (w_heap wA' 0) sysSockType = Some SockSub" "PeerMeta (w_heap wB' 0) sysSockType = Some SockPub"
    using w e compat split subs by auto
  then show ?thesis unfolding e_def wA_def wB_def by (intro exI [of _ rawA] exI [of _ rawB] exI [of _ wA'] exI [of _ wB']) simp
qed

section \<open>Where reconnection goes wrong\<close>

text \<open>
  A connection that dies while its subscriptions are sent makes \<^verbatim>\<open>addConn\<close> call \<^verbatim>\<open>Dial\<close> with the mutex held: as soon as that dial succeeds, the
  nested \<^verbatim>\<open>addConn\<close> waits for the mutex of its own goroutine.
\<close>

lemma reconnect_deadlocks: "w_locked w \<Longrightarrow> after_open env server c (Ok ()) oc w = None"
  by (simp add: after_open_def)

text \<open>A socket without a security mechanism (\<^verbatim>\<open>WithSecurity(nil)\<close>) opens no connection.\<close>

lemma nil_security_refused: "Open (Some raw) ops hs None typ ident server cb = (Err (Errorf ''zmq4: invalid nil security''), None)"
  by (simp add: Open_def)

text \<open>A second \<^verbatim>\<open>Listen\<close> replaces the listener, which is then neither accepted from nor closed.\<close>

lemma listen_replaces_listener:
  assumes "splitAddr (d_drivers env) endpoint = (network, addr, None)" "transports_get network (d_drivers env) \<noteq> None"
  shows "w_listener (snd (ep_Listen env (Ok l) endpoint w)) = Some l"
  using assms by (auto simp: ep_Listen_def start_reaper_def Let_def)

text \<open>A negative limit other than -1 gives up after the first failure.\<close>

lemma negative_limit_gives_up:
  "maxRetries < 0 \<Longrightarrow> maxRetries \<noteq> -1 \<Longrightarrow> dial_loop env maxRetries 0 k = Some (d_dial env k, k + 1)"
  by (rule dial_loop_stop) (simp add: dial_again_def)

end
