(* ===== verification/Inproc.thy ===== *)
theory Inproc
  imports Zmtp_Conn
begin

text \<open>
  The in-process transport (\<^verbatim>\<open>internal/inproc\<close>): listeners in a table guarded by a mutex with a
  condition variable, pipes of two connections that share two channels of eight chunks, and the
  deadlines of a connection. Connections \<open>2 k\<close> and \<open>2 k + 1\<close> are the two ends of pipe \<open>k\<close>; a call that waits
  is the value \<^verbatim>\<open>None\<close>.
\<close>

section \<open>Deadlines\<close>

text \<open>A pending timer carries its due time. \<^verbatim>\<open>d.cancel\<close> is replaced only after it was closed, so a channel is a number.\<close>

datatype timer = NoTimer | Armed int | Fired

record pipeDeadline =
  dl_timer :: timer
  dl_cancel :: nat
  dl_closed :: bool

definition makePipeDeadline :: pipeDeadline where
  "makePipeDeadline = \<lparr>dl_timer = NoTimer, dl_cancel = 0, dl_closed = False\<rparr>"

definition fresh_cancel :: "pipeDeadline \<Rightarrow> pipeDeadline" where
  "fresh_cancel d = (if dl_closed d then d\<lparr>dl_cancel := dl_cancel d + 1, dl_closed := False\<rparr> else d)"

text \<open>The zero time is \<^verbatim>\<open>None\<close>. The call waits when a timer has fired whose callback has not closed the channel yet.\<close>

definition dl_set :: "int \<Rightarrow> int option \<Rightarrow> pipeDeadline \<Rightarrow> pipeDeadline option" where
  "dl_set now t d =
     (if dl_timer d = Fired \<and> \<not> dl_closed d then None
      else
        let d = d\<lparr>dl_timer := NoTimer\<rparr> in
        case t of
          None \<Rightarrow> Some (fresh_cancel d)
        | Some u \<Rightarrow>
            if u > now then Some ((fresh_cancel d)\<lparr>dl_timer := Armed u\<rparr>)
            else Some (d\<lparr>dl_closed := True\<rparr>))"

definition dl_tick :: "int \<Rightarrow> pipeDeadline \<Rightarrow> pipeDeadline result" where
  "dl_tick now d =
     (case dl_timer d of
        Armed u \<Rightarrow>
          if u \<le> now then if dl_closed d then Panic ''close of closed channel'' else Ok (d\<lparr>dl_timer := Fired, dl_closed := True\<rparr>)
          else Ok d
      | _ \<Rightarrow> Ok d)"

definition dl_wait :: "pipeDeadline \<Rightarrow> nat" where
  "dl_wait d = dl_cancel d"

definition cancelled :: "nat \<Rightarrow> pipeDeadline \<Rightarrow> bool" where
  "cancelled g d \<longleftrightarrow> g < dl_cancel d \<or> g = dl_cancel d \<and> dl_closed d"

section \<open>State\<close>

record conn =
  c_addr :: bytes
  c_r :: "bytes list"
  c_localDone :: bool
  c_rdeadline :: pipeDeadline
  c_wdeadline :: pipeDeadline

record Listener =
  l_addr :: bytes
  l_pipes :: "nat list"
  l_closed :: bool

text \<open>
  The table \<^verbatim>\<open>mgr.db\<close>, the heaps of listeners and connections, and the goroutines inside \<^verbatim>\<open>Dial\<close>: those
  asleep in \<^verbatim>\<open>mgr.cv.Wait\<close> and those that a broadcast has woken.
\<close>

record inproc =
  ip_now :: int
  ip_db :: "bytes \<rightharpoonup> nat"
  ip_listeners :: "Listener list"
  ip_conns :: "conn list"
  ip_asleep :: "(nat \<times> bytes) list"
  ip_woken :: "(nat \<times> bytes) list"

definition inproc_init :: inproc where
  "inproc_init = \<lparr>ip_now = 0, ip_db = Map.empty, ip_listeners = [], ip_conns = [], ip_asleep = [], ip_woken = []\<rparr>"

definition inproc_ErrClosed :: go_error where "inproc_ErrClosed = Errorf ''inproc: connection closed''"
definition ErrConnRefused :: go_error where "ErrConnRefused = Errorf ''inproc: connection refused''"
definition ErrClosedPipe :: go_error where "ErrClosedPipe = Errorf ''io: read/write on closed pipe''"
definition ErrShortBuffer :: go_error where "ErrShortBuffer = Errorf ''short buffer''"
definition timeoutError :: go_error where "timeoutError = NetTimeout"

definition pipe_size :: nat where "pipe_size = 8"

definition new_conn :: "bytes \<Rightarrow> conn" where
  "new_conn addr = \<lparr>c_addr = addr, c_r = [], c_localDone = False, c_rdeadline = makePipeDeadline, c_wdeadline = makePipeDeadline\<rparr>"

definition newPipe :: "bytes \<Rightarrow> inproc \<Rightarrow> nat \<times> inproc" where
  "newPipe addr st = (length (ip_conns st) div 2, st\<lparr>ip_conns := ip_conns st @ [new_conn addr, new_conn addr]\<rparr>)"

text \<open>The other end of a connection's pipe: its \<^verbatim>\<open>localDone\<close> is this end's \<^verbatim>\<open>remoteDone\<close>, and its \<^verbatim>\<open>r\<close> this end's \<^verbatim>\<open>w\<close>.\<close>

definition peer :: "nat \<Rightarrow> nat" where
  "peer c = (if even c then c + 1 else c - 1)"

definition upd_conn :: "nat \<Rightarrow> (conn \<Rightarrow> conn) \<Rightarrow> inproc \<Rightarrow> inproc" where
  "upd_conn c f st = st\<lparr>ip_conns := (ip_conns st)[c := f (ip_conns st ! c)]\<rparr>"

definition conn_Close :: "nat \<Rightarrow> inproc \<Rightarrow> inproc" where
  "conn_Close c st = upd_conn c (c_localDone_update (\<lambda>_. True)) st"

definition pipe_Close :: "nat \<Rightarrow> inproc \<Rightarrow> inproc" where
  "pipe_Close k st = conn_Close (2 * k + 1) (conn_Close (2 * k) st)"

definition mgr_Broadcast :: "inproc \<Rightarrow> inproc" where
  "mgr_Broadcast st = st\<lparr>ip_woken := ip_woken st @ ip_asleep st, ip_asleep := []\<rparr>"

section \<open>Listeners\<close>

definition inproc_Listen :: "bytes \<Rightarrow> inproc \<Rightarrow> nat result \<times> inproc" where
  "inproc_Listen addr st =
     (case ip_db st addr of
        Some _ \<Rightarrow> (Err (Errorf ''inproc: address already in use''), st)
      | None \<Rightarrow>
          let l = length (ip_listeners st) in
          (Ok l, mgr_Broadcast (st\<lparr>ip_listeners := ip_listeners st @ [\<lparr>l_addr = addr, l_pipes = [], l_closed = False\<rparr>],
             ip_db := (ip_db st)(addr \<mapsto> l)\<rparr>)))"

definition Listener_Close :: "nat \<Rightarrow> inproc \<Rightarrow> inproc" where
  "Listener_Close l st =
     (let x = ip_listeners st ! l in
      if l_closed x then st
      else
        let st = foldl (\<lambda>st k. pipe_Close k st) st (l_pipes x) in
        st\<lparr>ip_listeners := (ip_listeners st)[l := x\<lparr>l_closed := True\<rparr>], ip_db := (ip_db st)(l_addr x := None)\<rparr>)"

definition Accept :: "nat \<Rightarrow> inproc \<Rightarrow> nat result \<times> inproc" where
  "Accept l st =
     (let x = ip_listeners st ! l; (p, st) = newPipe (l_addr x) st;
          st = mgr_Broadcast (st\<lparr>ip_listeners := (ip_listeners st)[l := x\<lparr>l_pipes := l_pipes x @ [p]\<rparr>]\<rparr>) in
      if l_closed x then (Err inproc_ErrClosed, st) else (Ok (2 * p), st))"

text \<open>One round of the loop of \<^verbatim>\<open>Dial\<close> by the goroutine \<open>g\<close>, which goes to sleep when there is no pipe.\<close>

definition Dial_round :: "nat \<Rightarrow> bytes \<Rightarrow> inproc \<Rightarrow> nat result option \<times> inproc" where
  "Dial_round g addr st =
     (case ip_db st addr of
        None \<Rightarrow> (Some (Err ErrConnRefused), st)
      | Some l \<Rightarrow>
          let x = ip_listeners st ! l; n = length (l_pipes x) in
          if n \<noteq> 0
          then (Some (Ok (2 * (l_pipes x ! (n - 1)) + 1)),
            st\<lparr>ip_listeners := (ip_listeners st)[l := x\<lparr>l_pipes := take (n - 1) (l_pipes x)\<rparr>]\<rparr>)
          else (None, st\<lparr>ip_asleep := ip_asleep st @ [(g, addr)]\<rparr>))"

definition Dial_wake :: "nat \<times> bytes \<Rightarrow> inproc \<Rightarrow> nat result option \<times> inproc" where
  "Dial_wake d st = Dial_round (fst d) (snd d) (st\<lparr>ip_woken := remove1 d (ip_woken st)\<rparr>)"

definition TrimPrefix :: "bytes \<Rightarrow> bytes \<Rightarrow> bytes" where
  "TrimPrefix s p = (if take (length p) s = p then drop (length p) s else s)"

definition Addr_String :: "bytes \<Rightarrow> bytes" where
  "Addr_String a = TrimPrefix a (str ''inproc://'')"

section \<open>Reading and writing\<close>

text \<open>A Go \<^verbatim>\<open>select\<close> without default: one of the ready cases, chosen by the scheduler, or a wait.\<close>

definition go_select :: "nat \<Rightarrow> (bool \<times> 'a) list \<Rightarrow> 'a option" where
  "go_select pick cs = (let ready = map snd (filter fst cs) in if ready = [] then None else Some (ready ! (pick mod length ready)))"

definition remoteDone :: "nat \<Rightarrow> inproc \<Rightarrow> bool" where
  "remoteDone c st = c_localDone (ip_conns st ! peer c)"

definition write_enter :: "nat \<Rightarrow> inproc \<Rightarrow> go_error option" where
  "write_enter c st =
     (let x = ip_conns st ! c in
      if c_localDone x then Some ErrClosedPipe
      else if remoteDone c st then Some ErrClosedPipe
      else if cancelled (dl_wait (c_wdeadline x)) (c_wdeadline x) then Some timeoutError
      else None)"

text \<open>The \<^verbatim>\<open>select\<close> of \<^verbatim>\<open>write\<close>; \<open>g\<close> is the channel that \<^verbatim>\<open>wdeadline.wait()\<close> returned. The result is the count or the error.\<close>

definition write_select :: "nat \<Rightarrow> nat \<Rightarrow> nat \<Rightarrow> bytes \<Rightarrow> inproc \<Rightarrow> nat result option \<times> inproc" where
  "write_select pick g c data st =
     (let x = ip_conns st ! c; y = ip_conns st ! peer c in
      case go_select pick [(length (c_r y) < pipe_size, Ok (length data)), (c_localDone x, Err ErrClosedPipe),
          (remoteDone c st, Err ErrClosedPipe), (cancelled g (c_wdeadline x), Err timeoutError)] of
        None \<Rightarrow> (None, st)
      | Some (Ok n) \<Rightarrow> (Some (Ok n), upd_conn (peer c) (c_r_update (\<lambda>q. q @ [data])) st)
      | Some r \<Rightarrow> (Some r, st))"

definition conn_write :: "nat \<Rightarrow> nat \<Rightarrow> bytes \<Rightarrow> inproc \<Rightarrow> nat result option \<times> inproc" where
  "conn_write pick c data st =
     (case write_enter c st of
        Some e \<Rightarrow> (Some (Err e), st)
      | None \<Rightarrow> write_select pick (dl_wait (c_wdeadline (ip_conns st ! c))) c data st)"

definition Write_err :: "nat result \<Rightarrow> nat result" where
  "Write_err r = (case r of Err e \<Rightarrow> if e \<noteq> ErrClosedPipe then Err (Wrapf ''write pipe'' e) else Err e | _ \<Rightarrow> r)"

definition inproc_Write :: "nat \<Rightarrow> nat \<Rightarrow> bytes \<Rightarrow> inproc \<Rightarrow> nat result option \<times> inproc" where
  "inproc_Write pick c data st = (let (r, st) = conn_write pick c data st in (map_option Write_err r, st))"

definition read_enter :: "nat \<Rightarrow> inproc \<Rightarrow> go_error option" where
  "read_enter c st =
     (let x = ip_conns st ! c in
      if c_localDone x then Some ErrClosedPipe
      else if remoteDone c st then Some EOF
      else if cancelled (dl_wait (c_rdeadline x)) (c_rdeadline x) then Some timeoutError
      else None)"

text \<open>The \<^verbatim>\<open>select\<close> of \<^verbatim>\<open>read\<close> with a buffer of \<open>n\<close> bytes: the bytes copied into it and the error.\<close>

definition read_select :: "nat \<Rightarrow> nat \<Rightarrow> nat \<Rightarrow> nat \<Rightarrow> inproc \<Rightarrow> (bytes \<times> go_error option) option \<times> inproc" where
  "read_select pick g n c st =
     (let x = ip_conns st ! c in
      case go_select pick [(c_r x \<noteq> [], True), (cancelled g (c_rdeadline x), False)] of
        None \<Rightarrow> (None, st)
      | Some True \<Rightarrow>
          let bw = hd (c_r x) in
          (Some (take n bw, if n < length bw then Some ErrShortBuffer else None), upd_conn c (c_r_update tl) st)
      | Some False \<Rightarrow> (Some ([], Some timeoutError), st))"

definition conn_read :: "nat \<Rightarrow> nat \<Rightarrow> nat \<Rightarrow> inproc \<Rightarrow> (bytes \<times> go_error option) option \<times> inproc" where
  "conn_read pick n c st =
     (case read_enter c st of
        Some e \<Rightarrow> (Some ([], Some e), st)
      | None \<Rightarrow> read_select pick (dl_wait (c_rdeadline (ip_conns st ! c))) n c st)"

definition Read_err :: "go_error option \<Rightarrow> go_error option" where
  "Read_err err = (case err of Some e \<Rightarrow> if e \<noteq> EOF \<and> e \<noteq> ErrClosedPipe then Some (Wrapf ''read pipe'' e) else Some e | None \<Rightarrow> None)"

definition inproc_Read :: "nat \<Rightarrow> nat \<Rightarrow> nat \<Rightarrow> inproc \<Rightarrow> (bytes \<times> go_error option) option \<times> inproc" where
  "inproc_Read pick n c st = (let (r, st) = conn_read pick n c st in (map_option (apsnd Read_err) r, st))"

text \<open>\<^verbatim>\<open>None\<close> when the deadline is being waited for.\<close>

definition SetReadDeadline :: "nat \<Rightarrow> int option \<Rightarrow> inproc \<Rightarrow> (go_error option \<times> inproc) option" where
  "SetReadDeadline c t st =
     (if c_localDone (ip_conns st ! c) \<or> remoteDone c st then Some (Some ErrClosedPipe, st)
      else map_option (\<lambda>d. (None, upd_conn c (c_rdeadline_update (\<lambda>_. d)) st)) (dl_set (ip_now st) t (c_rdeadline (ip_conns st ! c))))"

definition SetWriteDeadline :: "nat \<Rightarrow> int option \<Rightarrow> inproc \<Rightarrow> (go_error option \<times> inproc) option" where
  "SetWriteDeadline c t st =
     (if c_localDone (ip_conns st ! c) \<or> remoteDone c st then Some (Some ErrClosedPipe, st)
      else map_option (\<lambda>d. (None, upd_conn c (c_wdeadline_update (\<lambda>_. d)) st)) (dl_set (ip_now st) t (c_wdeadline (ip_conns st ! c))))"

definition SetDeadline :: "nat \<Rightarrow> int option \<Rightarrow> inproc \<Rightarrow> (go_error option \<times> inproc) option" where
  "SetDeadline c t st =
     (let x = ip_conns st ! c in
      if c_localDone x \<or> remoteDone c st then Some (Some ErrClosedPipe, st)
      else
        case dl_set (ip_now st) t (c_rdeadline x) of
          None \<Rightarrow> None
        | Some d \<Rightarrow>
            (case dl_set (ip_now st) t (c_wdeadline x) of
               None \<Rightarrow> None
             | Some e \<Rightarrow> Some (None, upd_conn c (\<lambda>x. x\<lparr>c_rdeadline := d, c_wdeadline := e\<rparr>) st)))"

text \<open>The clock advances by \<open>dt\<close> and the timers that are due run their callbacks.\<close>

definition ticked :: "int \<Rightarrow> pipeDeadline \<Rightarrow> pipeDeadline" where
  "ticked now d = (case dl_tick now d of Ok d' \<Rightarrow> d' | _ \<Rightarrow> d)"

definition ip_tick :: "nat \<Rightarrow> inproc \<Rightarrow> inproc" where
  "ip_tick dt st =
     (let now = ip_now st + int dt in
      st\<lparr>ip_now := now,
        ip_conns := map (\<lambda>x. x\<lparr>c_rdeadline := ticked now (c_rdeadline x), c_wdeadline := ticked now (c_wdeadline x)\<rparr>) (ip_conns st)\<rparr>)"

text \<open>\<^verbatim>\<open>io.ReadFull(conn, buf)\<close> with \<open>n\<close> bytes to go, \<open>acc\<close> already read and at most \<open>f\<close> calls; an error with a full buffer is dropped.\<close>

fun pipe_ReadFull :: "nat \<Rightarrow> bytes \<Rightarrow> nat \<Rightarrow> nat \<Rightarrow> inproc \<Rightarrow> bytes result option \<times> inproc" where
  "pipe_ReadFull f acc 0 c st = (Some (Ok acc), st)"
| "pipe_ReadFull 0 acc n c st = (None, st)"
| "pipe_ReadFull (Suc f) acc n c st =
     (case inproc_Read 0 n c st of
        (None, st) \<Rightarrow> (None, st)
      | (Some (d, None), st) \<Rightarrow> pipe_ReadFull f (acc @ d) (n - length d) c st
      | (Some (d, Some e), st) \<Rightarrow>
          if n \<le> length d then (Some (Ok (acc @ d)), st)
          else if acc @ d \<noteq> [] \<and> e = EOF then (Some (Err ErrUnexpectedEOF), st)
          else (Some (Err e), st))"

section \<open>Runs\<close>

text \<open>
  The calls of a program on the transport, in any order; calls on unknown handles do not exist.
  \<open>OWriteSelect\<close> and \<open>OReadSelect\<close> are the second halves of calls that other goroutines overtook or that
  had to wait. The run keeps what was written to a connection, what its reads returned, and which
  connections \<^verbatim>\<open>Accept\<close> and \<^verbatim>\<open>Dial\<close> returned.
\<close>

datatype inproc_op =
    OListen bytes
  | OClose nat
  | OAccept nat
  | ODial nat bytes
  | OWake "nat \<times> bytes"
  | OConnClose nat
  | OWrite nat nat bytes
  | OWriteSelect nat nat nat bytes
  | ORead nat nat nat
  | OReadSelect nat nat nat nat
  | OSetDeadline nat "int option"
  | OSetReadDeadline nat "int option"
  | OSetWriteDeadline nat "int option"
  | OTick nat

record inproc_log =
  g_st :: inproc
  g_sent :: "nat \<Rightarrow> bytes list"
  g_got :: "nat \<Rightarrow> bytes list"
  g_accepted :: "nat list"
  g_dialed :: "nat list"

definition inproc_start :: inproc_log where
  "inproc_start = \<lparr>g_st = inproc_init, g_sent = (\<lambda>_. []), g_got = (\<lambda>_. []), g_accepted = [], g_dialed = []\<rparr>"

definition log_dial :: "nat result option \<times> inproc \<Rightarrow> inproc_log \<Rightarrow> inproc_log" where
  "log_dial r w = (case r of (Some (Ok c), st) \<Rightarrow> w\<lparr>g_st := st, g_dialed := g_dialed w @ [c]\<rparr> | (_, st) \<Rightarrow> w\<lparr>g_st := st\<rparr>)"

definition log_write :: "nat \<Rightarrow> bytes \<Rightarrow> nat result option \<times> inproc \<Rightarrow> inproc_log \<Rightarrow> inproc_log" where
  "log_write c data r w =
     (case r of (Some (Ok n), st) \<Rightarrow> w\<lparr>g_st := st, g_sent := (g_sent w)(peer c := g_sent w (peer c) @ [data])\<rparr> | (_, st) \<Rightarrow> w\<lparr>g_st := st\<rparr>)"

text \<open>A read that took a chunk returned no error, or the short buffer.\<close>

definition log_read :: "nat \<Rightarrow> (bytes \<times> go_error option) option \<times> inproc \<Rightarrow> inproc_log \<Rightarrow> inproc_log" where
  "log_read c r w =
     (case r of
        (Some (d, err), st) \<Rightarrow>
          if err = None \<or> err = Some ErrShortBuffer
          then w\<lparr>g_st := st, g_got := (g_got w)(c := g_got w c @ [d])\<rparr> else w\<lparr>g_st := st\<rparr>
      | (None, st) \<Rightarrow> w\<lparr>g_st := st\<rparr>)"

definition log_set :: "(go_error option \<times> inproc) option \<Rightarrow> inproc_log \<Rightarrow> inproc_log" where
  "log_set r w = (case r of Some (err, st) \<Rightarrow> w\<lparr>g_st := st\<rparr> | None \<Rightarrow> w)"

definition is_conn :: "nat \<Rightarrow> inproc_log \<Rightarrow> bool" where
  "is_conn c w \<longleftrightarrow> c < length (ip_conns (g_st w))"

definition is_listener :: "nat \<Rightarrow> inproc_log \<Rightarrow> bool" where
  "is_listener l w \<longleftrightarrow> l < length (ip_listeners (g_st w))"

fun inproc_step :: "inproc_op \<Rightarrow> inproc_log \<Rightarrow> inproc_log" where
  "inproc_step (OListen addr) w = w\<lparr>g_st := snd (inproc_Listen addr (g_st w))\<rparr>"
| "inproc_step (OClose l) w = (if is_listener l w then w\<lparr>g_st := Listener_Close l (g_st w)\<rparr> else w)"
| "inproc_step (OAccept l) w =
     (if is_listener l w
      then (case Accept l (g_st w) of
              (Ok c, st) \<Rightarrow> w\<lparr>g_st := st, g_accepted := g_accepted w @ [c]\<rparr>
            | (_, st) \<Rightarrow> w\<lparr>g_st := st\<rparr>)
      else w)"
| "inproc_step (ODial g addr) w = log_dial (Dial_round g addr (g_st w)) w"
| "inproc_step (OWake d) w = (if d \<in> set (ip_woken (g_st w)) then log_dial (Dial_wake d (g_st w)) w else w)"
| "inproc_step (OConnClose c) w = (if is_conn c w then w\<lparr>g_st := conn_Close c (g_st w)\<rparr> else w)"
| "inproc_step (OWrite pick c data) w = (if is_conn c w then log_write c data (conn_write pick c data (g_st w)) w else w)"
| "inproc_step (OWriteSelect pick g c data) w = (if is_conn c w then log_write c data (write_select pick g c data (g_st w)) w else w)"
| "inproc_step (ORead pick n c) w = (if is_conn c w then log_read c (conn_read pick n c (g_st w)) w else w)"
| "inproc_step (OReadSelect pick g n c) w = (if is_conn c w then log_read c (read_select pick g n c (g_st w)) w else w)"
| "inproc_step (OSetDeadline c t) w = (if is_conn c w then log_set (SetDeadline c t (g_st w)) w else w)"
| "inproc_step (OSetReadDeadline c t) w = (if is_conn c w then log_set (SetReadDeadline c t (g_st w)) w else w)"
| "inproc_step (OSetWriteDeadline c t) w = (if is_conn c w then log_set (SetWriteDeadline c t (g_st w)) w else w)"
| "inproc_step (OTick dt) w = w\<lparr>g_st := ip_tick dt (g_st w)\<rparr>"

definition inproc_run :: "inproc_op list \<Rightarrow> inproc_log" where
  "inproc_run ops = foldl (\<lambda>w op. inproc_step op w) inproc_start ops"

section \<open>Deadlines are exact\<close>

datatype dl_op = DSet "int option" | DTick nat

text \<open>A run of one deadline: the time, the deadline last set, and the state, unless a call waits or panics.\<close>

fun dl_run :: "dl_op list \<Rightarrow> int \<times> int option \<times> pipeDeadline \<Rightarrow> (int \<times> int option \<times> pipeDeadline) option" where
  "dl_run [] w = Some w"
| "dl_run (DSet t # ops) (now, u, d) = (case dl_set now t d of None \<Rightarrow> None | Some d \<Rightarrow> dl_run ops (now, t, d))"
| "dl_run (DTick dt # ops) (now, u, d) = (case dl_tick (now + int dt) d of Ok d \<Rightarrow> dl_run ops (now + int dt, u, d) | _ \<Rightarrow> None)"

definition dl_exact :: "int \<Rightarrow> int option \<Rightarrow> pipeDeadline \<Rightarrow> bool" where
  "dl_exact now t d \<longleftrightarrow>
     (case t of
        None \<Rightarrow> dl_timer d = NoTimer \<and> \<not> dl_closed d
      | Some u \<Rightarrow> if u \<le> now then dl_closed d \<and> (dl_timer d = NoTimer \<or> dl_timer d = Fired) else dl_timer d = Armed u \<and> \<not> dl_closed d)"

lemma dl_set_exact: "dl_exact now u d \<Longrightarrow> \<exists>d'. dl_set now t d = Some d' \<and> dl_exact now t d'"
  by (auto simp: dl_exact_def dl_set_def fresh_cancel_def Let_def split: option.splits if_splits)

lemma dl_tick_exact: "dl_exact now u d \<Longrightarrow> \<exists>d'. dl_tick (now + int dt) d = Ok d' \<and> dl_exact (now + int dt) u d'"
  by (auto simp: dl_exact_def dl_tick_def split: option.splits if_splits)

lemma dl_run_exact: "dl_exact now u d \<Longrightarrow> \<exists>now' u' d'. dl_run ops (now, u, d) = Some (now', u', d') \<and> dl_exact now' u' d'"
proof (induction ops arbitrary: now u d)
  case (Cons op ops)
  show ?case
  proof (cases op)
    case (DSet t)
    obtain d' where "dl_set now t d = Some d'" "dl_exact now t d'"
      using dl_set_exact [OF Cons.prems] by blast
    then show ?thesis using Cons.IH DSet by simp
  next
    case (DTick dt)
    obtain d' where "dl_tick (now + int dt) d = Ok d'" "dl_exact (now + int dt) u d'"
      using dl_tick_exact [OF Cons.prems] by blast
    then show ?thesis using Cons.IH DTick by simp
  qed
qed simp

text \<open>
  However the deadline of a connection is set and the clock advances, no call waits or panics,
  and the channel that \<^verbatim>\<open>wait\<close> returns is closed exactly when the deadline last set is not zero and has passed.
\<close>

theorem deadline_exact:
  "\<exists>now t d. dl_run ops (0, None, makePipeDeadline) = Some (now, t, d) \<and>
     (cancelled (dl_wait d) d \<longleftrightarrow> (\<exists>u. t = Some u \<and> u \<le> now))"
proof -
  have "dl_exact 0 None makePipeDeadline" by (simp add: dl_exact_def makePipeDeadline_def)
  then obtain now t d where "dl_run ops (0, None, makePipeDeadline) = Some (now, t, d)" "dl_exact now t d"
    using dl_run_exact by blast
  then show ?thesis by (auto simp: dl_exact_def cancelled_def dl_wait_def split: option.splits if_splits)
qed

section \<open>What was written is read in order\<close>

lemma go_select_ready: "go_select pick cs = Some x \<Longrightarrow> (True, x) \<in> set cs"
proof -
  assume *: "go_select pick cs = Some x"
  let ?r = "map snd (filter fst cs)"
  have "?r \<noteq> []" and "x = ?r ! (pick mod length ?r)" using * by (auto simp: go_select_def Let_def split: if_splits)
  then have "x \<in> set ?r" by (metis length_greater_0_conv mod_less_divisor nth_mem)
  then show ?thesis by force
qed

definition chan_of :: "nat \<Rightarrow> inproc \<Rightarrow> bytes list" where
  "chan_of c st = (if c < length (ip_conns st) then c_r (ip_conns st ! c) else [])"

definition chan_ok :: "bytes list \<Rightarrow> bytes list \<Rightarrow> bytes list \<Rightarrow> bool" where
  "chan_ok q sent taken \<longleftrightarrow> length q \<le> pipe_size \<and> length taken \<le> length sent \<and> q = drop (length taken) sent \<and>
     list_all2 (\<lambda>d s. d = take (length d) s) taken (take (length taken) sent)"

lemma chan_ok_write: "chan_ok q sent taken \<Longrightarrow> length q < pipe_size \<Longrightarrow> chan_ok (q @ [x]) (sent @ [x]) taken"
  by (simp add: chan_ok_def)

lemma chan_ok_read:
  assumes "chan_ok q sent taken" "q \<noteq> []"
  shows "chan_ok (tl q) sent (taken @ [take n (hd q)])"
proof -
  have lt: "length taken < length sent" using assms by (auto simp: chan_ok_def)
  then have "hd q = sent ! length taken" "take (Suc (length taken)) sent = take (length taken) sent @ [sent ! length taken]"
    using assms by (auto simp: chan_ok_def hd_drop_conv_nth take_Suc_conv_app_nth)
  then show ?thesis
    using assms lt by (auto simp: chan_ok_def drop_Suc tl_drop list_all2_append min_def)
qed

definition fifo_ok :: "inproc_log \<Rightarrow> bool" where
  "fifo_ok w \<longleftrightarrow> even (length (ip_conns (g_st w))) \<and> (\<forall>c. chan_ok (chan_of c (g_st w)) (g_sent w c) (g_got w c))"

lemma chan_of_upd: "(\<And>x. c_r (f x) = c_r x) \<Longrightarrow> chan_of c' (upd_conn c f st) = chan_of c' st"
  by (cases "c = c'") (auto simp: chan_of_def upd_conn_def)

lemma chan_of_frame [simp]: "chan_of c (st\<lparr>ip_listeners := ls\<rparr>) = chan_of c st" "chan_of c (st\<lparr>ip_db := db\<rparr>) = chan_of c st"
  by (simp_all add: chan_of_def)

lemma length_upd_conn [simp]: "length (ip_conns (upd_conn c f st)) = length (ip_conns st)"
  by (simp add: upd_conn_def)

lemma fifo_state:
  "fifo_ok w \<Longrightarrow> length (ip_conns st) = length (ip_conns (g_st w)) \<Longrightarrow> (\<And>c. chan_of c st = chan_of c (g_st w)) \<Longrightarrow> fifo_ok (w\<lparr>g_st := st\<rparr>)"
  by (simp add: fifo_ok_def)

lemma conn_Close_chans: "chan_of c' (conn_Close c st) = chan_of c' st" "length (ip_conns (conn_Close c st)) = length (ip_conns st)"
  by (simp_all add: conn_Close_def chan_of_upd)

lemma Listener_Close_chans: "chan_of c (Listener_Close l st) = chan_of c st" "length (ip_conns (Listener_Close l st)) = length (ip_conns st)"
proof -
  let ?P = "\<lambda>s. chan_of c s = chan_of c st \<and> length (ip_conns s) = length (ip_conns st)"
  have "?P (foldl (\<lambda>st k. pipe_Close k st) st ks)" for ks
    by (rule foldl_keeps) (simp_all add: pipe_Close_def conn_Close_chans)
  then show "chan_of c (Listener_Close l st) = chan_of c st" "length (ip_conns (Listener_Close l st)) = length (ip_conns st)"
    by (simp_all add: Listener_Close_def Let_def)
qed

lemma Listen_chans: "inproc_Listen addr st = (r, st') \<Longrightarrow> ip_conns st' = ip_conns st"
  by (auto simp: inproc_Listen_def mgr_Broadcast_def Let_def split: option.splits)

lemma Dial_round_chans: "Dial_round g addr st = (r, st') \<Longrightarrow> ip_conns st' = ip_conns st"
  by (auto simp: Dial_round_def Let_def split: option.splits if_splits)

lemma Accept_chans:
  assumes "Accept l st = (r, st')"
  shows "chan_of c st' = chan_of c st" "length (ip_conns st') = length (ip_conns st) + 2"
proof -
  have "ip_conns st' = ip_conns st @ [new_conn (l_addr (ip_listeners st ! l)), new_conn (l_addr (ip_listeners st ! l))]"
    using assms by (auto simp: Accept_def newPipe_def mgr_Broadcast_def Let_def split: if_splits)
  then show "chan_of c st' = chan_of c st" "length (ip_conns st') = length (ip_conns st) + 2"
    by (auto simp: chan_of_def nth_append new_conn_def nth_Cons split: nat.splits)
qed

lemma ip_tick_chans: "chan_of c (ip_tick dt st) = chan_of c st" "length (ip_conns (ip_tick dt st)) = length (ip_conns st)"
  by (simp_all add: chan_of_def ip_tick_def Let_def)

lemma set_deadline_chans:
  "SetDeadline c t st = Some (r, st') \<Longrightarrow> chan_of c' st' = chan_of c' st \<and> length (ip_conns st') = length (ip_conns st)"
  "SetReadDeadline c t st = Some (r, st') \<Longrightarrow> chan_of c' st' = chan_of c' st \<and> length (ip_conns st') = length (ip_conns st)"
  "SetWriteDeadline c t st = Some (r, st') \<Longrightarrow> chan_of c' st' = chan_of c' st \<and> length (ip_conns st') = length (ip_conns st)"
  by (auto simp: SetDeadline_def SetReadDeadline_def SetWriteDeadline_def Let_def chan_of_upd split: if_splits option.splits)

lemma peer_conn: "even n \<Longrightarrow> c < n \<Longrightarrow> peer c < n"
  by (auto simp: peer_def) presburger

lemma peer_peer [simp]: "peer (peer c) = c"
  by (simp add: peer_def)

lemma peer_neq [simp]: "peer c \<noteq> c"
  by (auto simp: peer_def) presburger

lemma write_select_cases:
  assumes "write_select pick g c data st = (r, st')"
  obtains n where "r = Some (Ok n)" "length (c_r (ip_conns st ! peer c)) < pipe_size"
      "st' = upd_conn (peer c) (c_r_update (\<lambda>q. q @ [data])) st"
    | "st' = st" "\<And>n. r \<noteq> Some (Ok n)"
proof -
  let ?cs = "[(length (c_r (ip_conns st ! peer c)) < pipe_size, Ok (length data)), (c_localDone (ip_conns st ! c), Err ErrClosedPipe),
    (remoteDone c st, Err ErrClosedPipe), (cancelled g (c_wdeadline (ip_conns st ! c)), Err timeoutError)] :: (bool \<times> nat result) list"
  show thesis
  proof (cases "\<exists>n. r = Some (Ok n)")
    case True
    then obtain n where r: "r = Some (Ok n)" by blast
    then have *: "go_select pick ?cs = Some (Ok n)" "st' = upd_conn (peer c) (c_r_update (\<lambda>q. q @ [data])) st"
      using assms by (auto simp: write_select_def Let_def split: option.splits result.splits)
    then show ?thesis using that(1) r go_select_ready [OF *(1)] by auto
  next
    case False
    obtain sel where sel: "go_select pick ?cs = sel" by simp
    have "st' = st" using False assms by (auto simp: write_select_def Let_def sel split: option.splits result.splits)
    then show ?thesis using that(2) False by blast
  qed
qed

lemma fifo_log_write:
  assumes "fifo_ok w" "is_conn c w" "write_select pick g c data (g_st w) = r"
  shows "fifo_ok (log_write c data r w)"
proof -
  obtain o' st' where r: "r = (o', st')" by (cases r)
  have old: "\<And>c. chan_ok (chan_of c (g_st w)) (g_sent w c) (g_got w c)" using assms(1) by (simp add: fifo_ok_def)
  show ?thesis
  proof (rule write_select_cases [OF assms(3) [unfolded r]])
    fix n
    let ?p = "peer c"
    assume *: "o' = Some (Ok n)" "length (c_r (ip_conns (g_st w) ! ?p)) < pipe_size"
      "st' = upd_conn ?p (c_r_update (\<lambda>q. q @ [data])) (g_st w)"
    have lt: "?p < length (ip_conns (g_st w))" using assms peer_conn by (simp add: fifo_ok_def is_conn_def)
    have "chan_of c' st' = (if c' = ?p then chan_of ?p (g_st w) @ [data] else chan_of c' (g_st w))" for c'
      using * lt by (auto simp: chan_of_def upd_conn_def)
    moreover have "chan_ok (chan_of ?p (g_st w) @ [data]) (g_sent w ?p @ [data]) (g_got w ?p)"
      using chan_ok_write [OF old [of ?p], of data] * lt by (simp add: chan_of_def)
    moreover have "even (length (ip_conns st'))" using * assms(1) by (simp add: fifo_ok_def)
    ultimately show ?thesis using * old by (simp add: r log_write_def fifo_ok_def)
  next
    assume "st' = g_st w" "\<And>n. o' \<noteq> Some (Ok n)"
    then show ?thesis using assms(1) by (auto simp: r log_write_def fifo_ok_def split: option.splits result.splits)
  qed
qed

lemma read_select_cases:
  assumes "read_select pick g n c st = (r, st')"
  obtains "c_r (ip_conns st ! c) \<noteq> []" "st' = upd_conn c (c_r_update tl) st"
      "r = Some (take n (hd (c_r (ip_conns st ! c))), if n < length (hd (c_r (ip_conns st ! c))) then Some ErrShortBuffer else None)"
    | "st' = st" "r = None \<or> r = Some ([], Some timeoutError)"
proof -
  let ?cs = "[(c_r (ip_conns st ! c) \<noteq> [], True), (cancelled g (c_rdeadline (ip_conns st ! c)), False)]"
  show thesis
  proof (cases "go_select pick ?cs = Some True")
    case True
    then show ?thesis using that(1) assms go_select_ready [OF True] by (simp add: read_select_def Let_def)
  next
    case False
    then show ?thesis using that(2) assms by (auto simp: read_select_def Let_def split: option.splits bool.splits)
  qed
qed

lemma fifo_log_read:
  assumes "fifo_ok w" "is_conn c w" "read_select pick g n c (g_st w) = r"
  shows "fifo_ok (log_read c r w)"
proof -
  obtain o' st' where r: "r = (o', st')" by (cases r)
  have old: "\<And>c. chan_ok (chan_of c (g_st w)) (g_sent w c) (g_got w c)" using assms(1) by (simp add: fifo_ok_def)
  have lt: "c < length (ip_conns (g_st w))" using assms(2) by (simp add: is_conn_def)
  show ?thesis
  proof (rule read_select_cases [OF assms(3) [unfolded r]])
    let ?q = "c_r (ip_conns (g_st w) ! c)"
    assume *: "?q \<noteq> []" "st' = upd_conn c (c_r_update tl) (g_st w)"
      "o' = Some (take n (hd ?q), if n < length (hd ?q) then Some ErrShortBuffer else None)"
    have "chan_of c' st' = (if c' = c then tl ?q else chan_of c' (g_st w))" for c'
      using * lt by (auto simp: chan_of_def upd_conn_def)
    moreover have "chan_ok (tl ?q) (g_sent w c) (g_got w c @ [take n (hd ?q)])"
      using chan_ok_read [OF old [of c], of n] * lt by (simp add: chan_of_def)
    moreover have "even (length (ip_conns st'))" using * assms(1) by (simp add: fifo_ok_def)
    ultimately show ?thesis using * old by (simp add: r log_read_def fifo_ok_def)
  next
    assume "st' = g_st w" "o' = None \<or> o' = Some ([], Some timeoutError)"
    then show ?thesis using assms(1) by (auto simp: r log_read_def fifo_ok_def timeoutError_def ErrShortBuffer_def)
  qed
qed

lemma fifo_conns:
  assumes "fifo_ok w" "ip_conns (g_st w') = ip_conns (g_st w)" "g_sent w' = g_sent w" "g_got w' = g_got w"
  shows "fifo_ok w'"
proof -
  have "chan_of c (g_st w') = chan_of c (g_st w)" for c using assms(2) by (simp add: chan_of_def)
  then show ?thesis using assms by (simp add: fifo_ok_def)
qed

lemma log_dial_fields [simp]:
  "g_sent (log_dial r w) = g_sent w" "g_got (log_dial r w) = g_got w" "g_st (log_dial r w) = snd r" "g_accepted (log_dial r w) = g_accepted w"
  by (auto simp: log_dial_def split: prod.splits option.splits result.splits)

lemma fifo_log_set:
  assumes "fifo_ok w" "\<And>e st' c'. r = Some (e, st') \<Longrightarrow> chan_of c' st' = chan_of c' (g_st w) \<and> length (ip_conns st') = length (ip_conns (g_st w))"
  shows "fifo_ok (log_set r w)"
  using assms by (auto simp: log_set_def fifo_ok_def split: option.splits)

lemma fifo_step:
  assumes "fifo_ok w"
  shows "fifo_ok (inproc_step op w)"
proof (cases op)
  case (OListen addr)
  then show ?thesis using Listen_chans [of addr "g_st w"] by (simp add: fifo_conns [OF assms] prod_eq_iff)
next
  case (OAccept l)
  have "fifo_ok (w\<lparr>g_st := snd (Accept l (g_st w))\<rparr>)"
    using assms Accept_chans [of l "g_st w"] by (simp add: fifo_ok_def prod_eq_iff)
  then show ?thesis using OAccept assms by (auto simp: fifo_ok_def split: prod.splits result.splits)
next
  case (ODial g addr)
  then show ?thesis using Dial_round_chans [of g addr "g_st w"] by (simp add: fifo_conns [OF assms] prod_eq_iff)
next
  case (OWake d)
  then show ?thesis
    using assms Dial_round_chans [of "fst d" "snd d" "(g_st w)\<lparr>ip_woken := remove1 d (ip_woken (g_st w))\<rparr>"]
    by (simp add: fifo_conns [OF assms] Dial_wake_def prod_eq_iff)
next
  case (OWrite pick c data)
  then show ?thesis
    using assms fifo_log_write [OF assms _ refl] by (auto simp: conn_write_def log_write_def split: option.split)
next
  case (ORead pick n c)
  show ?thesis
  proof (cases "read_enter c (g_st w)")
    case None
    then show ?thesis using ORead assms fifo_log_read [OF assms _ refl] by (simp add: conn_read_def)
  next
    case (Some e)
    then have "e \<noteq> ErrShortBuffer"
      by (auto simp: read_enter_def Let_def ErrClosedPipe_def ErrShortBuffer_def timeoutError_def split: if_splits)
    then show ?thesis using ORead assms Some by (simp add: conn_read_def log_read_def)
  qed
qed (use assms in \<open>auto simp: fifo_log_write [OF assms _ refl] fifo_log_read [OF assms _ refl] Listener_Close_chans conn_Close_chans
     ip_tick_chans intro!: fifo_state fifo_log_set dest: set_deadline_chans\<close>)

lemma fifo_run: "fifo_ok (inproc_run ops)"
proof -
  have "fifo_ok inproc_start" by (simp add: inproc_start_def fifo_ok_def chan_ok_def chan_of_def inproc_init_def)
  then show ?thesis unfolding inproc_run_def by (rule foldl_keeps [rotated]) (rule fifo_step)
qed

text \<open>
  C20: over every run, the chunks written towards a connection are read in order, each once: the \<open>i\<close>-th successful read
  returned a prefix of the \<open>i\<close>-th chunk, and the chunks behind them, never more than eight, are still in the channel.
\<close>

theorem inproc_in_order:
  "list_all2 (\<lambda>d chunk. d = take (length d) chunk) (g_got (inproc_run ops) c)
     (take (length (g_got (inproc_run ops) c)) (g_sent (inproc_run ops) c)) \<and>
   chan_of c (g_st (inproc_run ops)) = drop (length (g_got (inproc_run ops) c)) (g_sent (inproc_run ops) c) \<and>
   length (chan_of c (g_st (inproc_run ops))) \<le> pipe_size"
  using fifo_run [of ops] unfolding fifo_ok_def chan_ok_def by blast

section \<open>Dial and Accept\<close>

definition pipes_of :: "inproc \<Rightarrow> nat \<Rightarrow> nat list" where
  "pipes_of st l = l_pipes (ip_listeners st ! l)"

text \<open>
  The table holds open listeners under their addresses; a pending pipe is held once, by one listener, was accepted there and has
  not been dialled; the connections handed out are distinct, and a dialled one has an accepted peer.
\<close>

definition db_ok :: "Listener list \<Rightarrow> (bytes \<rightharpoonup> nat) \<Rightarrow> bool" where
  "db_ok ls db \<longleftrightarrow> (\<forall>addr l. db addr = Some l \<longrightarrow> l < length ls \<and> l_addr (ls ! l) = addr \<and> \<not> l_closed (ls ! l))"

definition held_ok :: "nat \<Rightarrow> nat list \<Rightarrow> Listener list \<Rightarrow> bool" where
  "held_ok n dialed ls \<longleftrightarrow>
     (\<forall>l < length ls. distinct (l_pipes (ls ! l)) \<and> (\<forall>k \<in> set (l_pipes (ls ! l)). 2 * k + 1 < n \<and> 2 * k + 1 \<notin> set dialed))"

definition holds_pipe :: "Listener list \<Rightarrow> nat \<Rightarrow> nat \<Rightarrow> bool" where
  "holds_pipe ls l k \<longleftrightarrow> l < length ls \<and> k \<in> set (l_pipes (ls ! l))"

definition apart :: "Listener list \<Rightarrow> bool" where
  "apart ls \<longleftrightarrow> (\<forall>l l' k. holds_pipe ls l k \<and> holds_pipe ls l' k \<longrightarrow> l = l')"

definition open_ok :: "nat list \<Rightarrow> Listener list \<Rightarrow> bool" where
  "open_ok accepted ls \<longleftrightarrow> (\<forall>l < length ls. \<not> l_closed (ls ! l) \<longrightarrow> (\<forall>k \<in> set (l_pipes (ls ! l)). 2 * k \<in> set accepted))"

definition handed_ok :: "nat \<Rightarrow> nat list \<Rightarrow> nat list \<Rightarrow> bool" where
  "handed_ok n accepted dialed \<longleftrightarrow>
     distinct dialed \<and> (\<forall>c \<in> set dialed. c < n \<and> odd c \<and> peer c \<in> set accepted) \<and>
     distinct accepted \<and> (\<forall>c \<in> set accepted. c < n \<and> even c)"

definition pairs_inv :: "nat \<Rightarrow> Listener list \<Rightarrow> (bytes \<rightharpoonup> nat) \<Rightarrow> nat list \<Rightarrow> nat list \<Rightarrow> bool" where
  "pairs_inv n ls db accepted dialed \<longleftrightarrow>
     even n \<and> db_ok ls db \<and> held_ok n dialed ls \<and> apart ls \<and> open_ok accepted ls \<and> handed_ok n accepted dialed"

lemmas pairs_defs = db_ok_def held_ok_def apart_def open_ok_def handed_ok_def

definition pairs_ok :: "inproc_log \<Rightarrow> bool" where
  "pairs_ok w \<longleftrightarrow> pairs_inv (length (ip_conns (g_st w))) (ip_listeners (g_st w)) (ip_db (g_st w)) (g_accepted w) (g_dialed w)"

text \<open>No dialler sleeps while its listener has a pipe.\<close>

definition awake_ok :: "inproc \<Rightarrow> bool" where
  "awake_ok st \<longleftrightarrow> (\<forall>(g, addr) \<in> set (ip_asleep st). \<forall>l. ip_db st addr = Some l \<longrightarrow> pipes_of st l = [])"

lemma pairs_frame:
  assumes "pairs_ok w" "length (ip_conns st) = length (ip_conns (g_st w))" "ip_listeners st = ip_listeners (g_st w)" "ip_db st = ip_db (g_st w)"
    "g_st w' = st" "g_accepted w' = g_accepted w" "g_dialed w' = g_dialed w"
  shows "pairs_ok w'"
  using assms by (simp add: pairs_ok_def)

lemma pairs_inv_listen:
  assumes "pairs_inv n ls db acc dial" "db addr = None"
  shows "pairs_inv n (ls @ [\<lparr>l_addr = addr, l_pipes = [], l_closed = False\<rparr>]) (db(addr \<mapsto> length ls)) acc dial"
proof -
  let ?ls = "ls @ [\<lparr>l_addr = addr, l_pipes = [], l_closed = False\<rparr>]"
  have old: "db_ok ls db" "held_ok n dial ls" "apart ls" "open_ok acc ls" using assms(1) by (auto simp: pairs_inv_def)
  have "db_ok ?ls (db(addr \<mapsto> length ls))" using old(1) by (auto simp: db_ok_def nth_append intro: less_SucI)
  moreover have "held_ok n dial ?ls" using old(2) by (simp add: held_ok_def nth_append)
  moreover have "holds_pipe ?ls = holds_pipe ls" by (auto simp: holds_pipe_def nth_append fun_eq_iff)
  then have "apart ?ls" using old(3) by (simp add: apart_def)
  moreover have "open_ok acc ?ls" using old(4) by (simp add: open_ok_def nth_append)
  ultimately show ?thesis using assms(1) by (simp add: pairs_inv_def)
qed

lemma pairs_inv_close:
  assumes "pairs_inv n ls db acc dial" "l < length ls"
  shows "pairs_inv n (ls[l := (ls ! l)\<lparr>l_closed := True\<rparr>]) (db(l_addr (ls ! l) := None)) acc dial"
proof -
  let ?ls = "ls[l := (ls ! l)\<lparr>l_closed := True\<rparr>]"
  have old: "db_ok ls db" "held_ok n dial ls" "apart ls" "open_ok acc ls" using assms(1) by (auto simp: pairs_inv_def)
  have pipes: "l_pipes (?ls ! l') = l_pipes (ls ! l')" for l' using assms(2) by (simp add: nth_list_update)
  have "?ls ! l' = ls ! l'" if "db a = Some l'" "a \<noteq> l_addr (ls ! l)" for a l'
    using old(1) that by (metis db_ok_def nth_list_update_neq)
  then have "db_ok ?ls (db(l_addr (ls ! l) := None))" using old(1) by (auto simp: db_ok_def)
  moreover have "held_ok n dial ?ls" "apart ?ls" using old(2,3) by (simp_all add: held_ok_def apart_def holds_pipe_def pipes)
  moreover have "open_ok acc ?ls" using old(4) assms(2) by (auto simp: open_ok_def pipes nth_list_update)
  ultimately show ?thesis using assms(1) by (simp add: pairs_inv_def)
qed

lemma pairs_inv_accept:
  assumes "pairs_inv n ls db acc dial" "l < length ls"
  shows "pairs_inv (n + 2) (ls[l := (ls ! l)\<lparr>l_pipes := l_pipes (ls ! l) @ [n div 2]\<rparr>]) db (if l_closed (ls ! l) then acc else acc @ [n]) dial"
proof -
  let ?k = "n div 2" let ?ls = "ls[l := (ls ! l)\<lparr>l_pipes := l_pipes (ls ! l) @ [?k]\<rparr>]" let ?acc = "if l_closed (ls ! l) then acc else acc @ [n]"
  have old: "db_ok ls db" "held_ok n dial ls" "apart ls" "open_ok acc ls" "handed_ok n acc dial" using assms(1) by (auto simp: pairs_inv_def)
  have even: "even n" "2 * ?k = n" using assms(1) by (auto simp: pairs_inv_def)
  have pipes: "l_pipes (?ls ! l') = (if l' = l then l_pipes (ls ! l) @ [?k] else l_pipes (ls ! l'))" for l' using assms(2) by (simp add: nth_list_update)
  have same: "l_closed (?ls ! l') = l_closed (ls ! l')" "l_addr (?ls ! l') = l_addr (ls ! l')" for l' using assms(2) by (simp_all add: nth_list_update)
  have fresh: "?k \<notin> set (l_pipes (ls ! l'))" if "l' < length ls" for l' using old(2) that even by (force simp: held_ok_def)
  have holds: "holds_pipe ?ls l' j \<longleftrightarrow> holds_pipe ls l' j \<or> l' = l \<and> j = ?k" for l' j
    using assms(2) by (auto simp: holds_pipe_def pipes)
  have "\<not> holds_pipe ls l' ?k" for l' using fresh by (simp add: holds_pipe_def)
  then have apart_new: "apart ?ls" using old(3) unfolding apart_def holds by blast
  have "db_ok ?ls db" using old(1) by (simp add: db_ok_def same)
  moreover have "held_ok (n + 2) dial ?ls"
  proof -
    have "distinct (l_pipes (?ls ! l')) \<and> (\<forall>j \<in> set (l_pipes (?ls ! l')). 2 * j + 1 < n + 2 \<and> 2 * j + 1 \<notin> set dial)" if "l' < length ls" for l'
    proof (cases "l' = l")
      case True
      have "n + 1 \<notin> set dial" using old(5) by (auto simp: handed_ok_def)
      then show ?thesis using True old(2) even fresh [OF that] that by (fastforce simp: held_ok_def pipes)
    next
      case False
      then show ?thesis using old(2) that by (fastforce simp: held_ok_def pipes)
    qed
    then show ?thesis by (simp add: held_ok_def)
  qed
  moreover note apart_new
  moreover have "open_ok ?acc ?ls" using old(4) even assms(2) by (auto simp: open_ok_def pipes same)
  moreover have "handed_ok (n + 2) ?acc dial"
  proof -
    have h: "distinct dial" "\<And>c. c \<in> set dial \<Longrightarrow> c < n \<and> odd c \<and> peer c \<in> set acc" "distinct acc" "\<And>c. c \<in> set acc \<Longrightarrow> c < n \<and> even c"
      using old(5) by (simp_all add: handed_ok_def)
    then have "c < n + 2" if "c \<in> set dial \<or> c \<in> set acc" for c using that by (meson trans_less_add1)
    moreover have "n \<notin> set acc" using h(4) by blast
    ultimately show ?thesis using h even(1) by (simp add: handed_ok_def)
  qed
  ultimately show ?thesis using even by (simp add: pairs_inv_def)
qed

lemma pairs_inv_dial:
  assumes "pairs_inv n ls db acc dial" "db addr = Some l" "l_pipes (ls ! l) = ps @ [k]"
  shows "pairs_inv n (ls[l := (ls ! l)\<lparr>l_pipes := ps\<rparr>]) db acc (dial @ [2 * k + 1])"
proof -
  let ?ls = "ls[l := (ls ! l)\<lparr>l_pipes := ps\<rparr>]"
  have old: "db_ok ls db" "held_ok n dial ls" "apart ls" "open_ok acc ls" "handed_ok n acc dial" using assms(1) by (auto simp: pairs_inv_def)
  have l: "l < length ls" "\<not> l_closed (ls ! l)" using old(1) assms(2) by (auto simp: db_ok_def)
  have pipes: "l_pipes (?ls ! l') = (if l' = l then ps else l_pipes (ls ! l'))" for l' using l by (simp add: nth_list_update)
  have same: "l_closed (?ls ! l') = l_closed (ls ! l')" "l_addr (?ls ! l') = l_addr (ls ! l')" for l' using l by (simp_all add: nth_list_update)
  have in_l: "set ps \<subseteq> set (l_pipes (ls ! l))" "k \<in> set (l_pipes (ls ! l))" using assms(3) by auto
  have k: "distinct (ps @ [k])" "2 * k + 1 < n" "2 * k + 1 \<notin> set dial" using old(2) l in_l(2) assms(3) by (auto simp: held_ok_def)
  have other: "k \<notin> set (l_pipes (ls ! l'))" if "l' < length ls" "l' \<noteq> l" for l' using old(3) l in_l(2) that by (auto simp: apart_def holds_pipe_def)
  have "db_ok ?ls db" using old(1) by (simp add: db_ok_def same)
  moreover have "held_ok n (dial @ [2 * k + 1]) ?ls"
  proof -
    have "distinct (l_pipes (?ls ! l')) \<and> (\<forall>j \<in> set (l_pipes (?ls ! l')). 2 * j + 1 < n \<and> 2 * j + 1 \<notin> set (dial @ [2 * k + 1]))"
      if "l' < length ls" for l'
    proof (cases "l' = l")
      case True
      then show ?thesis using old(2) l k in_l by (auto simp: held_ok_def pipes)
    next
      case False
      then show ?thesis using old(2) other [OF that False] that by (auto simp: held_ok_def pipes)
    qed
    then show ?thesis by (simp add: held_ok_def)
  qed
  moreover have "apart ?ls"
  proof -
    have "holds_pipe ?ls l' j \<Longrightarrow> holds_pipe ls l' j" for l' j using in_l(1) by (auto simp: holds_pipe_def pipes split: if_splits)
    then show ?thesis using old(3) unfolding apart_def by blast
  qed
  moreover have "open_ok acc ?ls" using old(4) in_l(1) l by (simp add: open_ok_def pipes same subset_iff)
  moreover have "handed_ok n acc (dial @ [2 * k + 1])" using old(4,5) k l in_l(2) by (auto simp: handed_ok_def open_ok_def peer_def)
  ultimately show ?thesis using assms(1) by (simp add: pairs_inv_def)
qed

lemma pairs_Listen:
  assumes "pairs_ok w"
  shows "pairs_ok (w\<lparr>g_st := snd (inproc_Listen addr (g_st w))\<rparr>)"
proof (cases "ip_db (g_st w) addr")
  case None
  then show ?thesis
    using assms pairs_inv_listen by (simp add: pairs_ok_def inproc_Listen_def mgr_Broadcast_def Let_def)
qed (simp add: assms inproc_Listen_def)

lemma awake_Listen: "awake_ok st \<Longrightarrow> awake_ok (snd (inproc_Listen addr st))"
  by (auto simp: awake_ok_def inproc_Listen_def mgr_Broadcast_def Let_def split: option.split)

lemma awake_Accept: "awake_ok (snd (Accept l st))"
  by (auto simp: awake_ok_def Accept_def newPipe_def mgr_Broadcast_def Let_def)

lemma awake_Dial:
  assumes "awake_ok st"
  shows "awake_ok (snd (Dial_round g addr st))"
proof (cases "ip_db st addr")
  case (Some l)
  have asleep: "pipes_of st l' = []" if "(h, a) \<in> set (ip_asleep st)" "ip_db st a = Some l'" for h a l'
    using assms that by (auto simp: awake_ok_def)
  show ?thesis
  proof (cases "pipes_of st l = []")
    case True
    then show ?thesis using Some asleep by (auto simp: awake_ok_def Dial_round_def Let_def pipes_of_def)
  next
    case False
    define st' where "st' = snd (Dial_round g addr st)"
    have st': "ip_asleep st' = ip_asleep st" "ip_db st' = ip_db st" "l' \<noteq> l \<Longrightarrow> pipes_of st' l' = pipes_of st l'" for l'
      using False Some by (auto simp: st'_def Dial_round_def Let_def pipes_of_def)
    have "l' \<noteq> l" if "(h, a) \<in> set (ip_asleep st)" "ip_db st a = Some l'" for h a l' using asleep False that by blast
    then have "awake_ok st'" using st' asleep by (auto simp: awake_ok_def)
    then show ?thesis by (simp add: st'_def)
  qed
qed (simp add: Dial_round_def assms)

lemma Listener_Close_tables:
  "ip_listeners (Listener_Close l st) = (ip_listeners st)[l := (ip_listeners st ! l)\<lparr>l_closed := True\<rparr>]"
  "ip_asleep (Listener_Close l st) = ip_asleep st"
  "ip_db (Listener_Close l st) = (if l_closed (ip_listeners st ! l) then ip_db st else (ip_db st)(l_addr (ip_listeners st ! l) := None))"
proof -
  let ?P = "\<lambda>s. ip_listeners s = ip_listeners st \<and> ip_asleep s = ip_asleep st \<and> ip_db s = ip_db st"
  have "?P (foldl (\<lambda>st k. pipe_Close k st) st ks)" for ks
    by (rule foldl_keeps) (simp_all add: pipe_Close_def conn_Close_def upd_conn_def)
  moreover have "ls = ls[l := (ls ! l)\<lparr>l_closed := True\<rparr>]" if "l_closed (ls ! l)" for ls :: "Listener list"
    using that by (metis (full_types) Listener.surjective Listener.update_convs(3) list_update_id)
  ultimately show "ip_listeners (Listener_Close l st) = (ip_listeners st)[l := (ip_listeners st ! l)\<lparr>l_closed := True\<rparr>]"
    "ip_asleep (Listener_Close l st) = ip_asleep st"
    "ip_db (Listener_Close l st) = (if l_closed (ip_listeners st ! l) then ip_db st else (ip_db st)(l_addr (ip_listeners st ! l) := None))"
    by (simp_all add: Listener_Close_def Let_def)
qed

lemma pairs_Close:
  assumes "pairs_ok w" "is_listener l w"
  shows "pairs_ok (w\<lparr>g_st := Listener_Close l (g_st w)\<rparr>)"
proof (cases "l_closed (ip_listeners (g_st w) ! l)")
  case True
  then show ?thesis using assms(1) by (simp add: Listener_Close_def)
next
  case False
  then show ?thesis
    using assms pairs_inv_close by (simp add: pairs_ok_def is_listener_def Listener_Close_tables Listener_Close_chans)
qed

lemma pairs_Accept:
  assumes "pairs_ok w" "is_listener l w"
  shows "pairs_ok (inproc_step (OAccept l) w)"
proof -
  have "even (length (ip_conns (g_st w)))" using assms(1) by (simp add: pairs_ok_def pairs_inv_def)
  then have "2 * (length (ip_conns (g_st w)) div 2) = length (ip_conns (g_st w))" by simp
  then show ?thesis
    using assms pairs_inv_accept [of "length (ip_conns (g_st w))" "ip_listeners (g_st w)" "ip_db (g_st w)" "g_accepted w" "g_dialed w" l]
    by (simp add: pairs_ok_def is_listener_def Accept_def newPipe_def mgr_Broadcast_def Let_def split: if_splits)
qed

lemma pairs_Dial:
  assumes "pairs_ok w" "ip_conns st = ip_conns (g_st w)" "ip_listeners st = ip_listeners (g_st w)" "ip_db st = ip_db (g_st w)"
  shows "pairs_ok (log_dial (Dial_round g addr st) w)"
proof (cases "ip_db (g_st w) addr")
  case None
  then show ?thesis using assms by (simp add: Dial_round_def log_dial_def pairs_ok_def)
next
  case (Some l)
  let ?x = "ip_listeners (g_st w) ! l"
  show ?thesis
  proof (cases "l_pipes ?x" rule: rev_cases)
    case Nil
    then show ?thesis using assms Some by (simp add: Dial_round_def log_dial_def pairs_ok_def Let_def)
  next
    case (snoc ps k)
    then show ?thesis
      using assms Some pairs_inv_dial [OF assms(1) [unfolded pairs_ok_def] Some snoc]
      by (simp add: Dial_round_def log_dial_def pairs_ok_def Let_def nth_append)
  qed
qed

text \<open>Calls on connections leave the tables, the sleepers and the number of connections alone.\<close>

definition same_tables :: "inproc \<Rightarrow> inproc \<Rightarrow> bool" where
  "same_tables st st' \<longleftrightarrow> length (ip_conns st') = length (ip_conns st) \<and> ip_listeners st' = ip_listeners st \<and> ip_db st' = ip_db st \<and>
     ip_asleep st' = ip_asleep st"

lemma same_tables_upd [simp]: "same_tables st st" "same_tables st (upd_conn c f st)" "same_tables st (conn_Close c st)" "same_tables st (ip_tick dt st)"
  by (simp_all add: same_tables_def upd_conn_def conn_Close_def ip_tick_def Let_def)

lemma same_tables_calls:
  "write_select pick g c data st = (r, st') \<Longrightarrow> same_tables st st'" "read_select pick g n c st = (q, st') \<Longrightarrow> same_tables st st'"
  by (elim write_select_cases read_select_cases; simp)+

lemma same_tables_log:
  "same_tables (g_st w) (g_st (log_write c data (write_select pick g c data (g_st w)) w))"
  "same_tables (g_st w) (g_st (log_write c data (conn_write pick c data (g_st w)) w))"
  "same_tables (g_st w) (g_st (log_read c (read_select pick g n c (g_st w)) w))"
  "same_tables (g_st w) (g_st (log_read c (conn_read pick n c (g_st w)) w))"
  "same_tables (g_st w) (g_st (log_set (SetDeadline c t (g_st w)) w))"
  "same_tables (g_st w) (g_st (log_set (SetReadDeadline c t (g_st w)) w))"
  "same_tables (g_st w) (g_st (log_set (SetWriteDeadline c t (g_st w)) w))"
  by (auto simp: log_write_def log_read_def log_set_def conn_write_def conn_read_def SetDeadline_def SetReadDeadline_def SetWriteDeadline_def Let_def
      dest: same_tables_calls split: prod.splits option.splits result.splits if_splits)

lemma log_handed [simp]:
  "g_accepted (log_write c data r w) = g_accepted w" "g_dialed (log_write c data r w) = g_dialed w"
  "g_accepted (log_read c q w) = g_accepted w" "g_dialed (log_read c q w) = g_dialed w"
  "g_accepted (log_set e w) = g_accepted w" "g_dialed (log_set e w) = g_dialed w"
  by (auto simp: log_write_def log_read_def log_set_def split: prod.splits option.splits result.splits)

definition tables_ok :: "inproc_log \<Rightarrow> bool" where
  "tables_ok w \<longleftrightarrow> pairs_ok w \<and> awake_ok (g_st w)"

lemma tables_same:
  "tables_ok w \<Longrightarrow> same_tables (g_st w) (g_st w') \<Longrightarrow> g_accepted w' = g_accepted w \<Longrightarrow> g_dialed w' = g_dialed w \<Longrightarrow> tables_ok w'"
  by (simp add: tables_ok_def pairs_ok_def awake_ok_def same_tables_def pipes_of_def)

lemma tables_step:
  assumes "tables_ok w"
  shows "tables_ok (inproc_step op w)"
proof (cases op)
  case (OListen addr)
  then show ?thesis using assms by (simp add: tables_ok_def pairs_Listen awake_Listen)
next
  case (OClose l)
  have "awake_ok (Listener_Close l (g_st w))" if "is_listener l w"
    using assms that by (auto simp: tables_ok_def awake_ok_def pipes_of_def Listener_Close_tables is_listener_def nth_list_update split: if_splits)
  then show ?thesis using assms OClose by (simp add: tables_ok_def pairs_Close)
next
  case (OAccept l)
  have "awake_ok (g_st (inproc_step op w))" if "is_listener l w"
    using OAccept that awake_Accept [of l "g_st w"] by (auto split: prod.splits result.splits)
  then show ?thesis using assms OAccept pairs_Accept by (auto simp: tables_ok_def)
next
  case (ODial g addr)
  then show ?thesis using assms by (simp add: tables_ok_def pairs_Dial awake_Dial)
next
  case (OWake d)
  have "awake_ok ((g_st w)\<lparr>ip_woken := remove1 d (ip_woken (g_st w))\<rparr>)" using assms by (simp add: tables_ok_def awake_ok_def pipes_of_def)
  then show ?thesis using assms OWake by (simp add: tables_ok_def pairs_Dial Dial_wake_def awake_Dial)
qed (auto intro: tables_same [OF assms] simp: same_tables_log assms)

lemma tables_run: "tables_ok (inproc_run ops)"
proof -
  have "tables_ok inproc_start"
    by (simp add: tables_ok_def pairs_ok_def pairs_inv_def pairs_defs holds_pipe_def awake_ok_def inproc_start_def inproc_init_def)
  then show ?thesis unfolding inproc_run_def by (rule foldl_keeps [rotated]) (rule tables_step)
qed

text \<open>
  C21: over every run no two calls of \<^verbatim>\<open>Accept\<close> and no two calls of \<^verbatim>\<open>Dial\<close> return the same connection, and
  a connection returned by \<^verbatim>\<open>Dial\<close> is the other end of one that \<^verbatim>\<open>Accept\<close> returned.
\<close>

theorem dial_pairs_accept:
  "distinct (g_dialed (inproc_run ops)) \<and> distinct (g_accepted (inproc_run ops)) \<and>
   peer ` set (g_dialed (inproc_run ops)) \<subseteq> set (g_accepted (inproc_run ops))"
  using tables_run [of ops] by (auto simp: tables_ok_def pairs_ok_def pairs_inv_def handed_ok_def)

text \<open>
  C22: no wake-up of a dialler is lost: over every run, when the listener of an address holds a pipe, no goroutine is asleep in a
  \<^verbatim>\<open>Dial\<close> of that address.
\<close>

theorem dial_wakes:
  assumes "ip_db (g_st (inproc_run ops)) addr = Some l" "l_pipes (ip_listeners (g_st (inproc_run ops)) ! l) \<noteq> []"
  shows "addr \<notin> snd ` set (ip_asleep (g_st (inproc_run ops)))"
  using tables_run [of ops] assms by (auto simp: tables_ok_def awake_ok_def pipes_of_def)

theorem dial_wakes_witness:
  "(1, [7]) \<notin> set (ip_asleep (g_st (inproc_run [OListen [7], ODial 1 [7], OAccept 0])))"
proof -
  let ?w = "g_st (inproc_run [OListen [7], ODial 1 [7], OAccept 0])"
  have "ip_db ?w [7] = Some 0" "l_pipes (ip_listeners ?w ! 0) \<noteq> []"
    by code_simp+
  from dial_wakes [OF this] show ?thesis by force
qed

section \<open>Messages over a pipe\<close>

text \<open>
  \<^verbatim>\<open>Conn.SendMsg\<close> and \<^verbatim>\<open>Conn.read\<close> under NULL security with a pipe below them. Each \<^verbatim>\<open>Write\<close> of the connection is one chunk of the
  pipe: \<^verbatim>\<open>send\<close> writes the header of a frame and then its body, if it has one; \<^verbatim>\<open>sendMulti\<close> gathers header and body of all
  frames, empty bodies included, and \<^verbatim>\<open>net.Buffers.WriteTo\<close> writes them one after the other. The reader uses \<^verbatim>\<open>io.ReadFull\<close>. A call that
  waits is \<^verbatim>\<open>None\<close>. The flag by which a connection remembers that it failed is in \<open>Zmtp_Conn\<close>.
\<close>

fun pbind :: "'a result option \<times> inproc \<Rightarrow> ('a \<Rightarrow> inproc \<Rightarrow> 'b result option \<times> inproc) \<Rightarrow> 'b result option \<times> inproc" where
  "pbind (None, st) k = (None, st)"
| "pbind (Some (Ok x), st) k = k x st"
| "pbind (Some (Err e), st) k = (Some (Err e), st)"
| "pbind (Some (Panic m), st) k = (Some (Panic m), st)"

definition pipe_send :: "nat \<Rightarrow> nat \<Rightarrow> bool \<Rightarrow> bytes \<Rightarrow> byte \<Rightarrow> inproc \<Rightarrow> unit result option \<times> inproc" where
  "pipe_send pick c command body flag st =
     (let flag = (if length body > 255 then flag XOR 2 else flag);
          flag = (if command then flag XOR 4 else flag) in
      pbind (inproc_Write pick c (frame_header flag (length body)) st) (\<lambda>_ st.
        if length body = 0 then (Some (Ok ()), st)
        else pbind (inproc_Write pick c body st) (\<lambda>_ st. (Some (Ok ()), st))))"

fun pipe_SendMsg_loop :: "nat \<Rightarrow> nat \<Rightarrow> frames \<Rightarrow> inproc \<Rightarrow> unit result option \<times> inproc" where
  "pipe_SendMsg_loop pick c [] st = (Some (Ok ()), st)"
| "pipe_SendMsg_loop pick c (frame # fs) st =
     (let flag = (if fs \<noteq> [] then 0 XOR 1 else 0) in
      pbind (apfst (map_option (wrap_err ''zmq4: error sending frame'')) (pipe_send pick c False frame flag st))
        (\<lambda>_ st. pipe_SendMsg_loop pick c fs st))"

fun pipe_buffers :: "frames \<Rightarrow> bytes list" where
  "pipe_buffers [] = []"
| "pipe_buffers (frame # fs) =
     (let flag = (if fs \<noteq> [] then 0 XOR 1 else 0);
          flag = (if length frame > 255 then flag XOR 2 else flag) in
      [frame_header flag (length frame), frame] @ pipe_buffers fs)"

fun pipe_WriteTo :: "nat \<Rightarrow> nat \<Rightarrow> bytes list \<Rightarrow> inproc \<Rightarrow> unit result option \<times> inproc" where
  "pipe_WriteTo pick c [] st = (Some (Ok ()), st)"
| "pipe_WriteTo pick c (b # bs) st = pbind (inproc_Write pick c b st) (\<lambda>_ st. pipe_WriteTo pick c bs st)"

definition pipe_SendMsg :: "nat \<Rightarrow> nat \<Rightarrow> Msg \<Rightarrow> inproc \<Rightarrow> unit result option \<times> inproc" where
  "pipe_SendMsg pick c msg st =
     (if multipart msg then pipe_WriteTo pick c (pipe_buffers (Frames msg)) st
      else pipe_SendMsg_loop pick c (Frames msg) st)"

definition pipe_read_size :: "nat \<Rightarrow> byte \<Rightarrow> byte \<Rightarrow> nat \<Rightarrow> inproc \<Rightarrow> nat result option \<times> inproc" where
  "pipe_read_size f fl b c st =
     (if isLong fl then pbind (pipe_ReadFull f [] 7 c st) (\<lambda>longHdr st. (Some (Ok (get_be (b # longHdr))), st))
      else (Some (Ok (unat b)), st))"

definition pipe_read_frame :: "nat \<Rightarrow> bool \<Rightarrow> nat \<Rightarrow> inproc \<Rightarrow> (bytes \<times> bool \<times> bool) result option \<times> inproc" where
  "pipe_read_frame f cmdSeen c st =
     pbind (pipe_ReadFull f [] 2 c st) (\<lambda>header st.
       let fl = header ! 0; hasM = hasMore fl; cmdSeen = (cmdSeen \<or> isCommand fl) in
       pbind (pipe_read_size f fl (header ! 1) c st) (\<lambda>size st.
         if size > maxInt64 then (Some (Err errOverflow), st)
         else if size > maxAlloc then (Some (Panic ''makeslice: len out of range''), st)
         else pbind (pipe_ReadFull f [] size c st) (\<lambda>body st. (Some (Ok (body, hasM, cmdSeen)), st))))"

text \<open>The loop of \<^verbatim>\<open>read\<close> for at most \<open>n\<close> frames, each \<^verbatim>\<open>io.ReadFull\<close> with at most \<open>f\<close> calls: the frames and whether one was a command.\<close>

fun pipe_read :: "nat \<Rightarrow> nat \<Rightarrow> bool \<Rightarrow> nat \<Rightarrow> inproc \<Rightarrow> (frames \<times> bool) result option \<times> inproc" where
  "pipe_read f 0 cmdSeen c st = (None, st)"
| "pipe_read f (Suc n) cmdSeen c st =
     pbind (pipe_read_frame f cmdSeen c st) (\<lambda>(body, hasM, cmdSeen) st.
       if hasM then pbind (pipe_read f n cmdSeen c st) (\<lambda>(fs, cmdSeen) st. (Some (Ok (body # fs, cmdSeen)), st))
       else (Some (Ok ([body], cmdSeen)), st))"

definition readable :: "nat \<Rightarrow> inproc \<Rightarrow> bool" where
  "readable c st \<longleftrightarrow> c < length (ip_conns st) \<and> read_enter c st = None"

text \<open>The state with another content of the channel that \<open>c\<close> reads.\<close>

definition with_chan :: "nat \<Rightarrow> bytes list \<Rightarrow> inproc \<Rightarrow> inproc" where
  "with_chan c q st = upd_conn c (c_r_update (\<lambda>_. q)) st"

lemma readable_with_chan [simp]: "readable c st \<Longrightarrow> readable c (with_chan c q st)"
proof -
  assume *: "readable c st"
  then have "c < length (ip_conns st)" by (simp add: readable_def)
  then have "read_enter c (with_chan c q st) = read_enter c st"
    using not_sym [OF peer_neq [of c]] by (simp add: with_chan_def upd_conn_def read_enter_def remoteDone_def Let_def)
  then show ?thesis using * by (simp add: readable_def with_chan_def)
qed

lemma chan_of_with_chan [simp]: "readable c st \<Longrightarrow> chan_of c (with_chan c q st) = q"
  by (simp add: readable_def chan_of_def with_chan_def upd_conn_def)

lemma with_chan_twice [simp]: "with_chan c q (with_chan c p st) = with_chan c q st"
  by (cases "c < length (ip_conns st)") (simp_all add: with_chan_def upd_conn_def list_update_beyond)

lemma Read_readable:
  assumes "readable c st" "chan_of c st = chunk # q"
  shows "inproc_Read 0 n c st =
     (Some (take n chunk, if n < length chunk then Some (Wrapf ''read pipe'' ErrShortBuffer) else None), with_chan c q st)"
proof -
  let ?x = "ip_conns st ! c"
  have x: "c_r ?x = chunk # q" using assms by (simp add: readable_def chan_of_def)
  have "\<not> cancelled (dl_wait (c_rdeadline ?x)) (c_rdeadline ?x)"
    using assms(1) by (auto simp: readable_def read_enter_def Let_def split: if_splits)
  then have "read_select 0 (dl_wait (c_rdeadline ?x)) n c st =
      (Some (take n chunk, if n < length chunk then Some ErrShortBuffer else None), upd_conn c (c_r_update tl) st)"
    using x by (simp add: read_select_def go_select_def Let_def)
  moreover have "c_r_update tl ?x = ?x\<lparr>c_r := q\<rparr>" using x by (cases ?x) simp
  then have "upd_conn c (c_r_update tl) st = with_chan c q st" by (simp add: upd_conn_def with_chan_def)
  moreover have "ErrShortBuffer \<noteq> EOF" "ErrShortBuffer \<noteq> ErrClosedPipe" by (simp_all add: ErrShortBuffer_def ErrClosedPipe_def)
  ultimately show ?thesis
    using assms(1) by (simp add: inproc_Read_def conn_read_def readable_def Read_err_def)
qed

text \<open>A buffer of the chunk's length takes the chunk; an empty chunk is passed over; a shorter buffer loses the rest without an error.\<close>

lemma ReadFull_step:
  "0 < n \<Longrightarrow> pipe_ReadFull (Suc f) acc n c st =
     (case inproc_Read 0 n c st of
        (None, st) \<Rightarrow> (None, st)
      | (Some (d, None), st) \<Rightarrow> pipe_ReadFull f (acc @ d) (n - length d) c st
      | (Some (d, Some e), st) \<Rightarrow>
          if n \<le> length d then (Some (Ok (acc @ d)), st)
          else if acc @ d \<noteq> [] \<and> e = EOF then (Some (Err ErrUnexpectedEOF), st)
          else (Some (Err e), st))"
  by (cases n) (simp_all split: prod.splits option.splits)

lemma ReadFull_chunk:
  assumes "readable c st" "chan_of c st = chunk # q" "0 < n" "n \<le> length chunk"
  shows "pipe_ReadFull (Suc f) acc n c st = (Some (Ok (acc @ take n chunk)), with_chan c q st)"
  using assms Read_readable [OF assms(1,2), of n] ReadFull_step [OF assms(3)] by simp

lemma ReadFull_empty:
  assumes "readable c st" "chan_of c st = [] # q" "0 < n"
  shows "pipe_ReadFull (Suc f) acc n c st = pipe_ReadFull f acc n c (with_chan c q st)"
  using assms Read_readable [OF assms(1,2), of n] ReadFull_step [OF assms(3)] by simp

lemma ReadFull_header:
  assumes "readable c st" "chan_of c st = es @ chunk # q" "es = [] \<or> es = [[]]" "2 \<le> length chunk"
  shows "pipe_ReadFull (Suc (Suc f)) [] 2 c st = (Some (Ok (take 2 chunk)), with_chan c q st)"
  using assms(3)
proof
  assume "es = []"
  then show ?thesis using assms ReadFull_chunk [of c st chunk q 2 "Suc f" "[]"] by simp
next
  assume es: "es = [[]]"
  then have "pipe_ReadFull (Suc (Suc f)) [] 2 c st = pipe_ReadFull (Suc f) [] 2 c (with_chan c (chunk # q) st)"
    using assms(1,2) by (simp add: ReadFull_empty)
  then show ?thesis
    using assms ReadFull_chunk [of c "with_chan c (chunk # q) st" chunk q 2 f "[]"] by simp
qed

text \<open>
  A frame of at most 255 bytes at the front of the channel: its header, and its body as the next chunk (which \<^verbatim>\<open>send\<close> leaves out when
  it is empty). An empty chunk before it, left by an empty frame, is passed over.
\<close>

lemma short_frame_read:
  assumes "readable c st" "es = [] \<or> es = [[]]" "length body \<le> 255" "\<not> isLong fl" "bs = [body] \<or> bs = [] \<and> body = []"
    "chan_of c st = es @ frame_header fl (length body) # bs @ rest"
  shows "pipe_read_frame 2 seen c st =
     (Some (Ok (body, hasMore fl, seen \<or> isCommand fl)), with_chan c (if body = [] then bs @ rest else rest) st)"
proof -
  have hdr: "frame_header fl (length body) = [fl, of_nat (length body)]" using assms(3) by (simp add: frame_header_def)
  have size: "unat (of_nat (length body) :: byte) = length body" using assms(3) by (simp add: unat_of_nat)
  have two: "pipe_ReadFull 2 [] 2 c st = (Some (Ok [fl, of_nat (length body)]), with_chan c (bs @ rest) st)"
    using ReadFull_header [OF assms(1,6,2), of 0] hdr by (simp add: numeral_2_eq_2)
  have max: "length body \<le> maxInt64" "length body \<le> maxAlloc" using assms(3) by (simp_all add: maxInt64_def maxAlloc_def)
  show ?thesis
  proof (cases "body = []")
    case True
    then show ?thesis using two assms(4) size max by (simp add: pipe_read_frame_def pipe_read_size_def)
  next
    case False
    then have "pipe_ReadFull 2 [] (length body) c (with_chan c (body # rest) st) = (Some (Ok body), with_chan c rest st)"
      using ReadFull_chunk [of c "with_chan c (body # rest) st" body rest "length body" 1 "[]"] assms(1) by (simp add: numeral_2_eq_2)
    then show ?thesis using False two assms(4,5) size max by (simp add: pipe_read_frame_def pipe_read_size_def)
  qed
qed

text \<open>The chunks of a message of short frames.\<close>

fun msg_chunks :: "bool \<Rightarrow> frames \<Rightarrow> bytes list" where
  "msg_chunks multi [] = []"
| "msg_chunks multi (frame # fs) =
     frame_header (more_flag (fs \<noteq> [])) (length frame) # (if multi \<or> frame \<noteq> [] then [frame] else []) @ msg_chunks multi fs"

lemma length_msg_chunks: "length (msg_chunks multi fs) \<le> 2 * length fs"
  by (induction multi fs rule: msg_chunks.induct) auto

text \<open>A connection that can write to the other end of its pipe.\<close>

definition writable :: "nat \<Rightarrow> inproc \<Rightarrow> bool" where
  "writable c st \<longleftrightarrow> c < length (ip_conns st) \<and> peer c < length (ip_conns st) \<and> write_enter c st = None"

lemma writable_with_chan [simp]: "writable c st \<Longrightarrow> writable c (with_chan (peer c) q st)"
proof -
  assume *: "writable c st"
  then have "peer c < length (ip_conns st)" by (simp add: writable_def)
  then have "write_enter c (with_chan (peer c) q st) = write_enter c st"
    using peer_neq [of c] by (simp add: with_chan_def upd_conn_def write_enter_def remoteDone_def Let_def)
  then show ?thesis using * by (simp add: writable_def with_chan_def)
qed

lemma chan_of_written [simp]: "writable c st \<Longrightarrow> chan_of (peer c) (with_chan (peer c) q st) = q"
  by (simp add: writable_def chan_of_def with_chan_def upd_conn_def)

lemma Write_writable:
  assumes "writable c st" "length (chan_of (peer c) st) < pipe_size"
  shows "inproc_Write pick c data st = (Some (Ok (length data)), with_chan (peer c) (chan_of (peer c) st @ [data]) st)"
proof -
  let ?x = "ip_conns st ! c" and ?y = "ip_conns st ! peer c"
  have enter: "\<not> c_localDone ?x" "\<not> remoteDone c st" "\<not> cancelled (dl_wait (c_wdeadline ?x)) (c_wdeadline ?x)"
    using assms(1) by (auto simp: writable_def write_enter_def Let_def split: if_splits)
  have q: "chan_of (peer c) st = c_r ?y" using assms(1) by (simp add: writable_def chan_of_def)
  have "c_r_update (\<lambda>q. q @ [data]) ?y = ?y\<lparr>c_r := c_r ?y @ [data]\<rparr>" by simp
  then have "upd_conn (peer c) (c_r_update (\<lambda>q. q @ [data])) st = with_chan (peer c) (chan_of (peer c) st @ [data]) st"
    by (simp only: upd_conn_def with_chan_def q)
  then show ?thesis
    using assms enter q by (simp add: inproc_Write_def conn_write_def write_select_def go_select_def writable_def Write_err_def Let_def)
qed

lemma WriteTo_writable:
  assumes "writable c st" "length (chan_of (peer c) st) + length bs \<le> pipe_size"
  shows "pipe_WriteTo pick c bs st = (Some (Ok ()), with_chan (peer c) (chan_of (peer c) st @ bs) st)"
  using assms
proof (induction bs arbitrary: st)
  case Nil
  then show ?case by (simp add: with_chan_def upd_conn_def chan_of_def writable_def)
next
  case (Cons b bs)
  then show ?case by (simp add: Write_writable)
qed

lemma pipe_send_writable:
  assumes "writable c st" "length body \<le> 255" "bs = (if body = [] then [] else [body])"
    "length (chan_of (peer c) st) + 1 + length bs \<le> pipe_size"
  shows "pipe_send pick c False body flag st = (Some (Ok ()), with_chan (peer c) (chan_of (peer c) st @ frame_header flag (length body) # bs) st)"
  using assms by (cases "body = []") (simp_all add: pipe_send_def Write_writable)

lemma SendMsg_loop_writable:
  assumes "writable c st" "\<forall>f \<in> set fs. length f \<le> 255" "length (chan_of (peer c) st) + length (msg_chunks False fs) \<le> pipe_size"
  shows "pipe_SendMsg_loop pick c fs st = (Some (Ok ()), with_chan (peer c) (chan_of (peer c) st @ msg_chunks False fs) st)"
  using assms
proof (induction fs arbitrary: st)
  case Nil
  then show ?case by (simp add: with_chan_def upd_conn_def chan_of_def writable_def)
next
  case (Cons f fs)
  let ?c = "chan_of (peer c) st @ frame_header (more_flag (fs \<noteq> [])) (length f) # (if f = [] then [] else [f])"
  have "pipe_send pick c False f (more_flag (fs \<noteq> [])) st = (Some (Ok ()), with_chan (peer c) ?c st)"
    using Cons.prems by (intro pipe_send_writable) auto
  moreover have "pipe_SendMsg_loop pick c fs (with_chan (peer c) ?c st) = (Some (Ok ()), with_chan (peer c) (?c @ msg_chunks False fs) st)"
    using Cons.prems by (subst Cons.IH) auto
  ultimately show ?case by (simp add: more_flag_def)
qed

lemma pipe_buffers_short: "\<forall>f \<in> set fs. length f \<le> 255 \<Longrightarrow> pipe_buffers fs = msg_chunks True fs"
  by (induction fs) (simp_all add: more_flag_def)

lemma SendMsg_writable:
  assumes "writable c st" "\<forall>f \<in> set (Frames msg). length f \<le> 255"
    "length (chan_of (peer c) st) + length (msg_chunks (multipart msg) (Frames msg)) \<le> pipe_size"
  shows "pipe_SendMsg pick c msg st =
     (Some (Ok ()), with_chan (peer c) (chan_of (peer c) st @ msg_chunks (multipart msg) (Frames msg)) st)"
  using assms by (cases "multipart msg") (simp_all add: pipe_SendMsg_def SendMsg_loop_writable WriteTo_writable pipe_buffers_short)

lemma more_flag_sel [simp]: "hasMore (more_flag m) = m" "\<not> isLong (more_flag m)" "\<not> isCommand (more_flag m)"
  by (simp_all add: more_flag_def flag_defs)

lemma read_msg_chunks:
  assumes "readable c st" "es = [] \<or> es = [[]]" "fs \<noteq> []" "\<forall>f \<in> set fs. length f \<le> 255" "chan_of c st = es @ msg_chunks multi fs"
  shows "pipe_read 2 (length fs) seen c st =
     (Some (Ok (fs, seen)), with_chan c (if multi \<and> last fs = [] then [[]] else []) st)"
  using assms
proof (induction fs arbitrary: st es)
  case (Cons f fs)
  let ?bs = "if multi \<or> f \<noteq> [] then [f] else []"
  let ?es = "if f = [] then ?bs else []"
  have frame: "pipe_read_frame 2 seen c st = (Some (Ok (f, fs \<noteq> [], seen)), with_chan c (?es @ msg_chunks multi fs) st)"
    using Cons.prems short_frame_read [of c st es f "more_flag (fs \<noteq> [])" ?bs "msg_chunks multi fs" seen] by (simp split: if_splits)
  show ?case
  proof (cases "fs = []")
    case True
    then show ?thesis using frame by simp
  next
    case False
    then have "pipe_read 2 (length fs) seen c (with_chan c (?es @ msg_chunks multi fs) st) =
        (Some (Ok (fs, seen)), with_chan c (if multi \<and> last fs = [] then [[]] else []) st)"
      using Cons.prems by (subst Cons.IH [where es = ?es]) auto
    then show ?thesis using frame False by simp
  qed
qed simp

text \<open>
  C19: a message of short frames crosses a pipe. When both ends are open, no deadline has passed and the channel is empty (or holds the
  empty chunk that an earlier empty frame of \<^verbatim>\<open>sendMulti\<close> left), and the chunks of the message fit into the channel of eight, then \<^verbatim>\<open>SendMsg\<close> of
  a message with at least one frame, each of at most 255 bytes and some of them possibly empty, returns without waiting, whether it
  sends frame by frame or gathers the frames; and the \<^verbatim>\<open>read\<close> of the other end that follows returns exactly its frames, as no command. The channel is then empty again,
  or holds one empty chunk, so that the next message crosses as well. (Longer frames do not cross, see \<open>long_frame_garbled\<close>.)
\<close>

theorem short_message_crosses:
  assumes "c < length (ip_conns st)" "peer c < length (ip_conns st)" "write_enter c st = None" "read_enter (peer c) st = None"
    "chan_of (peer c) st = es" "es = [] \<or> es = [[]]" "Frames msg \<noteq> []" "\<forall>f \<in> set (Frames msg). length f \<le> 255"
    "length es + 2 * length (Frames msg) \<le> pipe_size"
  shows "\<exists>st1. pipe_SendMsg pick c msg st = (Some (Ok ()), st1) \<and>
    pipe_read 2 (length (Frames msg)) False (peer c) st1 =
      (Some (Ok (Frames msg, False)), with_chan (peer c) (if multipart msg \<and> last (Frames msg) = [] then [[]] else []) st)"
proof -
  let ?q = "es @ msg_chunks (multipart msg) (Frames msg)"
  have w: "writable c st" "readable (peer c) st" using assms(1-4) by (simp_all add: writable_def readable_def)
  have "length es + length (msg_chunks (multipart msg) (Frames msg)) \<le> pipe_size"
    using length_msg_chunks [of "multipart msg" "Frames msg"] assms(9) by linarith
  then have "pipe_SendMsg pick c msg st = (Some (Ok ()), with_chan (peer c) ?q st)"
    using SendMsg_writable [OF w(1) assms(8)] assms(5) by simp
  moreover have "pipe_read 2 (length (Frames msg)) False (peer c) (with_chan (peer c) ?q st) =
      (Some (Ok (Frames msg, False)), with_chan (peer c) (if multipart msg \<and> last (Frames msg) = [] then [[]] else []) st)"
    using w(2) assms(6-8) by (subst read_msg_chunks [where es = es]) simp_all
  ultimately show ?thesis by blast
qed

text \<open>
  A longer frame does not cross: its header is one chunk of nine bytes, of which the reader takes two and loses seven; the next
  seven bytes of length come out of the body, whose rest is lost as well.
\<close>

lemma long_frame_garbled:
  assumes "readable c st" "length body > 255" "isLong fl" "chan_of c st = frame_header fl (length body) # body # rest"
  shows "pipe_read_frame 2 seen c st =
     (let size = get_be (of_nat (length body div 256 ^ 7) # take 7 body); st = with_chan c rest st in
      if size > maxInt64 then (Some (Err errOverflow), st)
      else if size > maxAlloc then (Some (Panic ''makeslice: len out of range''), st)
      else pbind (pipe_ReadFull 2 [] size c st) (\<lambda>body st. (Some (Ok (body, hasMore fl, seen \<or> isCommand fl)), st)))"
proof -
  let ?b = "of_nat (length body div 256 ^ 7) :: byte"
  have "put_be 8 (length body) = ?b # put_be 7 (length body)" using put_be_Cons [of 7 "length body"] by simp
  then have hdr: "take 2 (frame_header fl (length body)) = [fl, ?b]" "2 \<le> length (frame_header fl (length body))"
    using assms(2) by (simp_all add: frame_header_def)
  have two: "pipe_ReadFull 2 [] 2 c st = (Some (Ok [fl, ?b]), with_chan c (body # rest) st)"
    using ReadFull_header [of c st "[]" "frame_header fl (length body)" "body # rest" 0] assms(1,4) hdr by (simp add: numeral_2_eq_2)
  have "pipe_ReadFull 2 [] 7 c (with_chan c (body # rest) st) = (Some (Ok (take 7 body)), with_chan c rest st)"
    using ReadFull_chunk [of c "with_chan c (body # rest) st" body rest 7 1 "[]"] assms(1,2) by (simp add: numeral_2_eq_2)
  then show ?thesis using two assms(3) by (simp add: pipe_read_frame_def pipe_read_size_def Let_def)
qed

text \<open>A body of 256 zero bytes arrives as an empty frame.\<close>

lemma long_frame_lost:
  assumes "readable c st" "isLong fl" "chan_of c st = frame_header fl 256 # replicate 256 0 # rest"
  shows "pipe_read_frame 2 seen c st = (Some (Ok ([], hasMore fl, seen \<or> isCommand fl)), with_chan c rest st)"
proof -
  have "get_be (0 # replicate 7 0) = 0" by (simp add: get_be_def eval_nat_numeral)
  then show ?thesis
    using long_frame_garbled [of c st "replicate 256 0" fl rest] assms by (simp add: Let_def)
qed

text \<open>And so what \<^verbatim>\<open>SendMsg\<close> sends of such a frame: the reader gets an empty message.\<close>

lemma long_message_lost:
  assumes "writable c st" "readable (peer c) st" "chan_of (peer c) st = []"
  shows "\<exists>st1. pipe_SendMsg pick c (NewMsg (replicate 256 0)) st = (Some (Ok ()), st1) \<and>
    fst (pipe_read 2 1 False (peer c) st1) = Some (Ok ([[]], False))"
proof -
  let ?st = "with_chan (peer c) [frame_header 2 256, replicate 256 0] st"
  have "pipe_SendMsg pick c (NewMsg (replicate 256 0)) st = (Some (Ok ()), ?st)"
    using assms by (simp add: pipe_SendMsg_def pipe_send_def NewMsg_def zeroMsg_def Write_writable pipe_size_def)
  moreover have "pipe_read_frame 2 False (peer c) ?st = (Some (Ok ([], False, False)), with_chan (peer c) [] ?st)"
    using long_frame_lost [of "peer c" ?st 2 "[]" False] assms(2) by (simp add: flag_defs)
  ultimately show ?thesis by simp
qed

definition demo_pipe :: inproc where
  "demo_pipe = g_st (inproc_run [OListen [7], ODial 1 [7], OAccept 0, OWake (1, [7])])"

theorem short_message_crosses_witness:
  "\<exists>st1. pipe_SendMsg 0 0 \<lparr>Frames = [[5, 6, 7], [], [8]], msgType = UsrMsg, multipart = True, msgErr = None\<rparr> demo_pipe = (Some (Ok ()), st1) \<and>
     pipe_read 2 3 False 1 st1 = (Some (Ok ([[5, 6, 7], [], [8]], False)), with_chan 1 [] demo_pipe)"
proof -
  have "0 < length (ip_conns demo_pipe)" "1 < length (ip_conns demo_pipe)" "write_enter 0 demo_pipe = None" "read_enter 1 demo_pipe = None"
    "chan_of 1 demo_pipe = []" "peer 0 = 1" by code_simp+
  then show ?thesis
    using short_message_crosses [of 0 demo_pipe "[]" "\<lparr>Frames = [[5, 6, 7], [], [8]], msgType = UsrMsg, multipart = True, msgErr = None\<rparr>" 0]
    by (simp add: pipe_size_def numeral_3_eq_3)
qed

section \<open>Where waiting and closing go wrong\<close>

text \<open>\<^verbatim>\<open>Accept\<close> does not wait for a connection: it returns one end of a fresh pipe before anybody dials.\<close>

lemma accept_does_not_wait:
  assumes "even (length (ip_conns st))" "\<not> l_closed (ip_listeners st ! l)"
  shows "fst (Accept l st) = Ok (length (ip_conns st))"
  using assms by (simp add: Accept_def newPipe_def Let_def)

text \<open>Closing a listener wakes nobody: a dialler asleep at its address stays asleep, while a new \<^verbatim>\<open>Dial\<close> is refused.\<close>

lemma close_strands_diallers:
  assumes "ip_db st addr = Some l" "l_addr (ip_listeners st ! l) = addr" "\<not> l_closed (ip_listeners st ! l)"
  shows "ip_asleep (Listener_Close l st) = ip_asleep st" "fst (Dial_round g addr (Listener_Close l st)) = Some (Err ErrConnRefused)"
  using assms by (simp_all add: Listener_Close_tables Dial_round_def)

text \<open>A reader that waits is not woken by closing either end.\<close>

lemma close_keeps_reader_waiting:
  assumes "c_r (ip_conns st ! c) = []" "\<not> cancelled g (c_rdeadline (ip_conns st ! c))"
  shows "fst (read_select pick g n c (conn_Close c' st)) = None"
proof -
  let ?x = "ip_conns (conn_Close c' st) ! c"
  have "c_r ?x = c_r (ip_conns st ! c)" "c_rdeadline ?x = c_rdeadline (ip_conns st ! c)"
    by (cases "c = c'"; cases "c' < length (ip_conns st)"; simp add: conn_Close_def upd_conn_def list_update_beyond)+
  then show ?thesis using assms by (simp add: read_select_def go_select_def Let_def)
qed

text \<open>Once the writer has closed, what is still in the channel is out of reach: every read is the end of the file.\<close>

lemma close_hides_data:
  assumes "c_localDone (ip_conns st ! peer c)" "\<not> c_localDone (ip_conns st ! c)"
  shows "conn_read pick n c st = (Some ([], Some EOF), st)"
  using assms by (simp add: conn_read_def read_enter_def remoteDone_def Let_def)

end
