(* ===== verification/Proxy.thy ===== *)
theory Proxy
  imports Zmtp_Msg
begin

text \<open>
  The proxy (\<^verbatim>\<open>proxy.go\<close>): two goroutines that forward messages between a frontend and a backend socket and copy them to a
  capture socket, and a third one that serves the control commands. What the sockets return from \<^verbatim>\<open>Recv\<close> and \<^verbatim>\<open>Send\<close>
  are parameters of the steps.
\<close>

section \<open>Data\<close>

datatype proxyCmd = proxyStats | proxyPause | proxyResume | proxyKill

datatype direction = ToBackend | ToFrontend

definition canRecv :: "SocketType \<Rightarrow> bool" where
  "canRecv typ \<longleftrightarrow> typ \<noteq> SockPush"

definition canSend :: "SocketType \<Rightarrow> bool" where
  "canSend typ \<longleftrightarrow> typ \<noteq> SockPull"

text \<open>How a goroutine stands: running, or returned with an error or without.\<close>

datatype worker = Running | Returned "go_error option"

record proxy_pipe =
  pp_worker :: worker
  pp_canSend :: bool
  pp_forwarded :: "Msg list"
  pp_captured :: "Msg list"

record Proxy =
  px_pipes :: "direction \<Rightarrow> proxy_pipe option"
  px_control :: worker
  px_quit :: bool
  px_done :: bool
  px_capture :: bool

text \<open>A pipe without a source, or with a source that cannot receive, is never started. \<^verbatim>\<open>None\<close> is a nil socket.\<close>

definition start_pipe :: "SocketType option \<Rightarrow> SocketType option \<Rightarrow> proxy_pipe option result" where
  "start_pipe dst src =
     (case src of
        None \<Rightarrow> Ok None
      | Some s \<Rightarrow>
          if \<not> canRecv s then Ok None
          else (case dst of
                  None \<Rightarrow> Panic ''nil pointer dereference''
                | Some d \<Rightarrow> Ok (Some \<lparr>pp_worker = Running, pp_canSend = canSend d, pp_forwarded = [], pp_captured = []\<rparr>)))"

definition NewProxy :: "SocketType option \<Rightarrow> SocketType option \<Rightarrow> bool \<Rightarrow> Proxy result" where
  "NewProxy front back capture =
     and_then (start_pipe back front) (\<lambda>b. and_then (start_pipe front back) (\<lambda>f.
       Ok \<lparr>px_pipes = (\<lambda>d. case d of ToBackend \<Rightarrow> b | ToFrontend \<Rightarrow> f), px_control = Running, px_quit = False, px_done = False,
         px_capture = capture\<rparr>))"

section \<open>Steps\<close>

text \<open>
  One round of a pipe: \<open>recv\<close> is the message and the error that \<^verbatim>\<open>Recv\<close> returned, \<open>sent\<close> the error of \<^verbatim>\<open>Send\<close>, \<open>pick\<close> the choice
  between two ready cases. The error of \<^verbatim>\<open>Recv\<close> is overwritten by that of \<^verbatim>\<open>Send\<close>.
\<close>

definition pipe_round :: "bool \<Rightarrow> Msg \<times> go_error option \<Rightarrow> go_error option \<Rightarrow> Proxy \<Rightarrow> proxy_pipe \<Rightarrow> proxy_pipe" where
  "pipe_round pick recv sent px p =
     (let (msg, e) = recv in
      if px_done px \<and> (pick \<or> \<not> px_quit px) then p\<lparr>pp_worker := Returned (Some CtxDone)\<rparr>
      else if px_quit px then p\<lparr>pp_worker := Returned None\<rparr>
      else if pp_canSend p \<and> sent \<noteq> None then p
      else
        let p = (if pp_canSend p then p\<lparr>pp_forwarded := pp_forwarded p @ [msg]\<rparr> else p);
            e = (if pp_canSend p then sent else e) in
        if e = None \<and> px_capture px \<and> Frames msg \<noteq> [] then p\<lparr>pp_captured := pp_captured p @ [msg]\<rparr> else p)"

text \<open>
  A command, sent on a channel without a buffer: \<^verbatim>\<open>None\<close> when the caller waits because the control goroutine has returned.
\<close>

definition control_round :: "proxyCmd \<Rightarrow> Proxy \<Rightarrow> Proxy option" where
  "control_round cmd px =
     (if px_control px \<noteq> Running then None
      else
        case cmd of
          proxyKill \<Rightarrow> Some (px\<lparr>px_quit := True, px_control := Returned None\<rparr>)
        | _ \<Rightarrow> Some px)"

definition control_done :: "Proxy \<Rightarrow> Proxy" where
  "control_done px = (if px_done px \<and> px_control px = Running then px\<lparr>px_control := Returned (Some CtxDone)\<rparr> else px)"

datatype proxy_op = PRound direction bool "Msg \<times> go_error option" "go_error option" | PCmd proxyCmd | PCancel | PControl

fun proxy_step :: "proxy_op \<Rightarrow> Proxy \<Rightarrow> Proxy" where
  "proxy_step (PRound d pick recv sent) px =
     (case px_pipes px d of
        Some p \<Rightarrow> if pp_worker p = Running then px\<lparr>px_pipes := (px_pipes px)(d \<mapsto> pipe_round pick recv sent px p)\<rparr> else px
      | None \<Rightarrow> px)"
| "proxy_step (PCmd cmd) px = (case control_round cmd px of Some px \<Rightarrow> px | None \<Rightarrow> px)"
| "proxy_step PCancel px = px\<lparr>px_done := True\<rparr>"
| "proxy_step PControl px = control_done px"

definition proxy_run :: "proxy_op list \<Rightarrow> Proxy \<Rightarrow> Proxy" where
  "proxy_run ops px = foldl (\<lambda>px op. proxy_step op px) px ops"

text \<open>\<^verbatim>\<open>Run\<close> returns when the three goroutines have returned.\<close>

definition Run_returns :: "Proxy \<Rightarrow> bool" where
  "Run_returns px \<longleftrightarrow> px_control px \<noteq> Running \<and> (\<forall>d p. px_pipes px d = Some p \<longrightarrow> pp_worker p \<noteq> Running)"

section \<open>What is forwarded\<close>

definition stops :: "proxy_op \<Rightarrow> bool" where
  "stops op \<longleftrightarrow> op = PCmd proxyKill \<or> op = PCancel"

text \<open>The messages that a run of one direction forwards and captures, until it is stopped.\<close>

fun forwarded_in :: "direction \<Rightarrow> proxy_op \<Rightarrow> Msg list" where
  "forwarded_in d (PRound d' pick (msg, e) sent) = (if d' = d \<and> sent = None then [msg] else [])"
| "forwarded_in d _ = []"

fun captured_in :: "bool \<Rightarrow> direction \<Rightarrow> proxy_op \<Rightarrow> Msg list" where
  "captured_in cs d (PRound d' pick (msg, e) sent) =
     (if d' = d \<and> (if cs then sent else e) = None \<and> Frames msg \<noteq> [] then [msg] else [])"
| "captured_in cs d _ = []"

definition before_stop :: "proxy_op list \<Rightarrow> proxy_op list" where
  "before_stop ops = takeWhile (\<lambda>op. \<not> stops op) ops"

definition forwards :: "direction \<Rightarrow> proxy_op list \<Rightarrow> Proxy \<Rightarrow> Proxy \<Rightarrow> proxy_pipe \<Rightarrow> bool" where
  "forwards d ops px px' p \<longleftrightarrow>
     px_capture px' = px_capture px \<and>
     (\<exists>p'. px_pipes px' d = Some p' \<and> pp_canSend p' = pp_canSend p \<and>
        pp_forwarded p' = (if pp_canSend p then concat (map (forwarded_in d) (before_stop ops)) else []) \<and>
        pp_captured p' = (if px_capture px then concat (map (captured_in (pp_canSend p) d) (before_stop ops)) else []) \<and>
        (if list_ex stops ops then px_quit px' \<or> px_done px' else pp_worker p' = Running \<and> px_control px' = Running \<and> \<not> px_quit px' \<and> \<not> px_done px'))"

lemma before_stop_snoc: "before_stop (ops @ [op]) = (if list_ex stops ops \<or> stops op then before_stop ops else before_stop ops @ [op])"
  by (induction ops) (auto simp: before_stop_def)

lemma forwards_step:
  assumes "forwards d ops px px' p"
  shows "forwards d (ops @ [op]) px (proxy_step op px') p"
proof -
  obtain p' where p': "px_pipes px' d = Some p'" "pp_canSend p' = pp_canSend p" using assms by (auto simp: forwards_def)
  show ?thesis
  proof (cases op)
    case (PRound d' pick recv sent)
    obtain msg e where recv: "recv = (msg, e)" by (cases recv)
    have ns: "\<not> stops op" using PRound by (simp add: stops_def)
    show ?thesis
    proof (cases "d' = d")
      case True
      then show ?thesis
        using assms PRound p' ns by (auto simp: recv forwards_def before_stop_snoc pipe_round_def Let_def)
    next
      case False
      then show ?thesis
        using assms PRound p' ns by (auto simp: recv forwards_def before_stop_snoc split: option.splits)
    qed
  next
    case (PCmd cmd)
    then show ?thesis
      using assms p' by (cases cmd) (auto simp: forwards_def before_stop_snoc control_round_def stops_def split: if_splits)
  next
    case PCancel
    then show ?thesis using assms p' by (auto simp: forwards_def before_stop_snoc stops_def split: if_splits)
  next
    case PControl
    then show ?thesis using assms p' by (auto simp: forwards_def before_stop_snoc control_done_def stops_def split: if_splits)
  qed
qed

text \<open>
  C23: until the proxy is killed or its context ends, each direction forwards, in order and once, every message that \<^verbatim>\<open>Recv\<close>
  handed out and \<^verbatim>\<open>Send\<close> accepted, whatever the other direction and the commands do, and captures exactly those that have
  frames; afterwards it forwards nothing.
\<close>

theorem proxy_forwards:
  assumes "NewProxy front back capture = Ok px" "px_pipes px d = Some p"
  shows "\<exists>p'. px_pipes (proxy_run ops px) d = Some p' \<and>
    pp_forwarded p' = (if pp_canSend p then concat (map (forwarded_in d) (before_stop ops)) else []) \<and>
    pp_captured p' = (if capture then concat (map (captured_in (pp_canSend p) d) (before_stop ops)) else [])"
proof -
  have new: "px_capture px = capture" "px_control px = Running" "\<not> px_quit px" "\<not> px_done px"
    "pp_worker p = Running" "pp_forwarded p = []" "pp_captured p = []"
    using assms by (auto simp: NewProxy_def start_pipe_def split: direction.splits option.splits if_splits)
  have "forwards d ops px (proxy_run ops px) p"
  proof (induction ops rule: rev_induct)
    case Nil
    then show ?case using assms(2) new by (simp add: forwards_def proxy_run_def before_stop_def)
  next
    case (snoc op ops)
    then show ?case using forwards_step [OF snoc] by (simp add: proxy_run_def)
  qed
  then show ?thesis using new(1) by (auto simp: forwards_def)
qed

theorem proxy_forwards_witness:
  "\<exists>p'. px_pipes (proxy_run [PRound ToBackend True (NewMsg [1], None) None, PCmd proxyKill, PRound ToBackend True (NewMsg [2], None) None]
       (case NewProxy (Some SockRouter) (Some SockDealer) True of Ok px \<Rightarrow> px)) ToBackend = Some p' \<and>
     pp_forwarded p' = [NewMsg [1]] \<and> pp_captured p' = [NewMsg [1]]"
proof -
  let ?p = "\<lparr>pp_worker = Running, pp_canSend = True, pp_forwarded = [], pp_captured = []\<rparr>"
  define px where "px = \<lparr>px_pipes = (\<lambda>d. case d of ToBackend \<Rightarrow> Some ?p | ToFrontend \<Rightarrow> Some ?p), px_control = Running, px_quit = False,
    px_done = False, px_capture = True\<rparr>"
  have new: "NewProxy (Some SockRouter) (Some SockDealer) True = Ok px"
    by (simp add: px_def NewProxy_def start_pipe_def canRecv_def canSend_def socket_types wire_simps)
  have pipe: "px_pipes px ToBackend = Some ?p" by (simp add: px_def)
  show ?thesis
    using proxy_forwards [OF new pipe, of "[PRound ToBackend True (NewMsg [1], None) None, PCmd proxyKill, PRound ToBackend True (NewMsg [2], None) None]"]
    by (simp add: new before_stop_def stops_def NewMsg_def)
qed

section \<open>Stopping\<close>

text \<open>After \<^verbatim>\<open>Kill\<close>, one more round of each pipe that still runs lets \<^verbatim>\<open>Run\<close> return; a pipe that waits in \<^verbatim>\<open>Recv\<close> holds it up.\<close>

lemma killed_pipe_returns:
  "px_quit px \<Longrightarrow> px_pipes px d = Some p \<Longrightarrow>
     \<exists>p'. px_pipes (proxy_step (PRound d pick recv sent) px) d = Some p' \<and> pp_worker p' \<noteq> Running"
  by (auto simp: pipe_round_def Let_def split: prod.splits)

lemma killed_run_returns:
  assumes "px_quit px" "px_control px \<noteq> Running"
  shows "Run_returns (proxy_run [PRound ToBackend b1 r1 s1, PRound ToFrontend b2 r2 s2] px)"
proof -
  have "pp_worker p \<noteq> Running" if "px_pipes (proxy_run [PRound ToBackend b1 r1 s1, PRound ToFrontend b2 r2 s2] px) d = Some p" for d p
    using that assms(1) by (cases d) (auto simp: proxy_run_def pipe_round_def Let_def split: option.splits prod.splits if_splits)
  moreover have "px_control (proxy_run [PRound ToBackend b1 r1 s1, PRound ToFrontend b2 r2 s2] px) = px_control px"
    by (auto simp: proxy_run_def split: option.splits)
  ultimately show ?thesis using assms(2) by (auto simp: Run_returns_def)
qed

text \<open>A second \<^verbatim>\<open>Kill\<close>, and any command after the first, waits for ever.\<close>

lemma command_after_kill_waits: "control_round proxyKill px = Some px' \<Longrightarrow> control_round cmd px' = None"
  by (auto simp: control_round_def split: if_splits)

text \<open>When \<^verbatim>\<open>Recv\<close> fails, what it returned is forwarded all the same.\<close>

lemma failed_recv_is_forwarded:
  assumes "pp_canSend p" "\<not> px_quit px" "\<not> px_done px"
  shows "pp_forwarded (pipe_round pick (zeroMsg, Some e) None px p) = pp_forwarded p @ [zeroMsg]"
  using assms by (simp add: pipe_round_def Let_def zeroMsg_def)

end
